(* ===== verification/Prelude.thy ===== *)
theory Prelude
  imports Main "HOL-Library.AList" "HOL-Library.List_Lexorder" "HOL-Library.Char_ord"
    "HOL-Library.Product_Lexorder"
begin

text \<open>
  What every component shares: the values the Python code raises, the result type of
  fallible code and its sequencing, the loops over lists that can fail, dictionaries with
  insertion order (association lists with \<open>AList.update\<close>, which replaces the value of a
  known key in place and appends an unknown one, as a Python \<open>dict\<close> does), and the
  facts about them that the component proofs use. Strings are ordered by code point
  (\<open>List_Lexorder\<close>, \<open>Char_ord\<close>), tuples lexicographically (\<open>Product_Lexorder\<close>).
\<close>

section \<open>Errors and results\<close>

text \<open>
  \<open>AppError\<close> carries the error code and the HTTP status (\<open>app/core/errors.py\<close>); the
  human-readable message and the details dictionary are not modelled. The other
  constructors are the built-in exceptions the modelled code can raise; \<open>DecimalError\<close>
  stands for the signals of the \<open>decimal\<close> module (division by zero, invalid operation),
  \<open>IntegrityError\<close> for a violated database constraint, \<open>CsvError\<close> for \<open>csv.Error\<close>.
\<close>

datatype error =
    AppError string int
  | ValueError
  | TypeError
  | KeyError
  | IndexError
  | AttributeError
  | AssertionError
  | OverflowError
  | DecimalError
  | IntegrityError
  | CsvError

type_synonym 'a result = "error + 'a"

text \<open>Identifiers are 128-bit UUIDs; \<open>id.hex\<close> has a fixed width, so its order is the number's.\<close>

type_synonym uuid = nat

text \<open>A timezone-aware instant: microseconds since the epoch.\<close>

type_synonym instant = int

named_theorems result_simps \<open>unfolding of sequenced results\<close>
named_theorems loop_intros \<open>invariants of loops\<close>

definition rbind :: "'a result \<Rightarrow> ('a \<Rightarrow> 'b result) \<Rightarrow> 'b result" where
  "rbind m f = (case m of Inl e \<Rightarrow> Inl e | Inr x \<Rightarrow> f x)"

lemma rbind_Inl [simp, result_simps]: "rbind (Inl e) f = Inl e"
  by (simp add: rbind_def)

lemma rbind_Inr [simp, result_simps]: "rbind (Inr x) f = f x"
  by (simp add: rbind_def)

lemma rbind_eq_Inr [result_simps]: "rbind m f = Inr y \<longleftrightarrow> (\<exists>x. m = Inr x \<and> f x = Inr y)"
  by (cases m) auto

lemma rbind_eq_Inl [result_simps]:
  "rbind m f = Inl e \<longleftrightarrow> m = Inl e \<or> (\<exists>x. m = Inr x \<and> f x = Inl e)"
  by (cases m) auto

lemma rbind_assoc: "rbind (rbind m f) g = rbind m (\<lambda>x. rbind (f x) g)"
  by (cases m) auto

lemma rbind_Inr_right [simp]: "rbind m Inr = m"
  by (cases m) auto

text \<open>
  Evaluation strategies for concrete inputs: look at the first computation, or the value of
  a \<open>let\<close>, before the continuation.
\<close>

lemma rbind_weak_cong: "m = m' \<Longrightarrow> rbind m f = rbind m' f"
  by simp

lemma let_weak_cong: "x = y \<Longrightarrow> Let x f = Let y f"
  by simp

lemmas eval_congs = rbind_weak_cong let_weak_cong

text \<open>\<open>rmap f xs\<close>: a list comprehension whose element expression may raise.\<close>

fun rmap :: "('a \<Rightarrow> 'b result) \<Rightarrow> 'a list \<Rightarrow> 'b list result" where
  "rmap f [] = Inr []"
| "rmap f (x # xs) = rbind (f x) (\<lambda>y. rbind (rmap f xs) (\<lambda>ys. Inr (y # ys)))"

text \<open>\<open>rfold step s xs\<close>: a \<open>for\<close> loop over \<open>xs\<close> with state \<open>s\<close> whose body may raise.\<close>

fun rfold :: "('s \<Rightarrow> 'a \<Rightarrow> 's result) \<Rightarrow> 's \<Rightarrow> 'a list \<Rightarrow> 's result" where
  "rfold step s [] = Inr s"
| "rfold step s (x # xs) = rbind (step s x) (\<lambda>s'. rfold step s' xs)"

lemma rmap_length: "rmap f xs = Inr ys \<Longrightarrow> length ys = length xs"
  by (induction xs arbitrary: ys) (auto simp: rbind_eq_Inr)

lemma rmap_Inr_iff: "rmap f xs = Inr ys \<longleftrightarrow> list_all2 (\<lambda>x y. f x = Inr y) xs ys"
  by (induction xs arbitrary: ys) (auto simp: rbind_eq_Inr list_all2_Cons1)

lemma rmap_total: "(\<And>x. x \<in> set xs \<Longrightarrow> f x = Inr (g x)) \<Longrightarrow> rmap f xs = Inr (map g xs)"
  by (induction xs) auto

lemma rmap_exists: "(\<And>x. x \<in> set xs \<Longrightarrow> \<exists>y. f x = Inr y) \<Longrightarrow> \<exists>ys. rmap f xs = Inr ys"
  by (induction xs) fastforce+

lemma rmap_mem: "rmap f xs = Inr ys \<Longrightarrow> y \<in> set ys \<Longrightarrow> \<exists>x \<in> set xs. f x = Inr y"
  by (induction xs arbitrary: ys) (auto simp: rbind_eq_Inr)

lemma rmap_member: "rmap f xs = Inr ys \<Longrightarrow> x \<in> set xs \<Longrightarrow> f x = Inr y \<Longrightarrow> y \<in> set ys"
  by (induction xs arbitrary: ys) (auto simp: rbind_eq_Inr)

lemma rmap_defined: "rmap f xs = Inr ys \<Longrightarrow> x \<in> set xs \<Longrightarrow> \<exists>y. f x = Inr y"
  by (induction xs arbitrary: ys) (auto simp: rbind_eq_Inr)

lemma rmap_append:
  "rmap f (xs @ ys) = rbind (rmap f xs) (\<lambda>us. rbind (rmap f ys) (\<lambda>vs. Inr (us @ vs)))"
  by (induction xs) (auto simp: rbind_assoc)

lemma rmap_cong [fundef_cong]:
  "xs = ys \<Longrightarrow> (\<And>x. x \<in> set ys \<Longrightarrow> f x = g x) \<Longrightarrow> rmap f xs = rmap g ys"
  by (induction xs arbitrary: ys) auto

lemma rfold_append: "rfold step s (xs @ ys) = rbind (rfold step s xs) (\<lambda>s'. rfold step s' ys)"
  by (induction xs arbitrary: s) (auto simp: rbind_assoc)

lemma rfold_invariant [loop_intros]:
  assumes run: "rfold step s xs = Inr s'" and init: "P s"
    and keeps: "\<And>t x t'. P t \<Longrightarrow> x \<in> set xs \<Longrightarrow> step t x = Inr t' \<Longrightarrow> P t'"
  shows "P s'"
proof -
  have "set ys \<subseteq> set xs \<Longrightarrow> rfold step t ys = Inr s' \<Longrightarrow> P t \<Longrightarrow> P s'" for t ys
    by (induction ys arbitrary: t) (auto simp: rbind_eq_Inr intro: keeps)
  with run init show ?thesis by blast
qed

text \<open>A Python truth test of an optional value.\<close>

fun is_some :: "'a option \<Rightarrow> bool" where
  "is_some None = False"
| "is_some (Some x) = True"

lemma is_some_iff: "is_some x \<longleftrightarrow> x \<noteq> None"
  by (cases x) auto

section \<open>Decimal digits\<close>

text \<open>\<open>str\<close> of an integer.\<close>

function show_nat :: "nat \<Rightarrow> string" where
  "show_nat n = (if n < 10 then [char_of (48 + n)] else show_nat (n div 10) @ [char_of (48 + n mod 10)])"
  by pat_completeness auto
termination
  by (relation "measure id") auto

declare show_nat.simps [simp del]

definition show_int :: "int \<Rightarrow> string" where
  "show_int i = (if i < 0 then ''-'' @ show_nat (nat (- i)) else show_nat (nat i))"

section \<open>Dictionaries with insertion order\<close>

lemma map_of_AList_update: "map_of (AList.update k v al) = (map_of al)(k \<mapsto> v)"
  by (rule update_conv')

lemma keys_AList_update:
  "map fst (AList.update k v al) = map fst al @ (if k \<in> set (map fst al) then [] else [k])"
  by (induction al) auto

lemma distinct_AList_update:
  "distinct (map fst al) \<Longrightarrow> distinct (map fst (AList.update k v al))"
  by (rule distinct_update)

lemma set_AList_update_distinct:
  assumes "distinct (map fst al)"
  shows "set (AList.update k v al) = {(k, v)} \<union> {p \<in> set al. fst p \<noteq> k}"
  using assms by (induction al) (auto simp: image_iff)

section \<open>Lists\<close>

text \<open>\<open>window n i xs\<close> is the slice \<open>xs[i + 1 - n : i + 1]\<close> for \<open>n \<le> i + 1\<close>.\<close>

definition window :: "nat \<Rightarrow> nat \<Rightarrow> 'a list \<Rightarrow> 'a list" where
  "window n i xs = take n (drop (i + 1 - n) xs)"

lemma window_length: "n \<le> i + 1 \<Longrightarrow> i < length xs \<Longrightarrow> length (window n i xs) = n"
  by (simp add: window_def)

lemma window_subset: "set (window n i xs) \<subseteq> set xs"
  by (auto simp: window_def dest: in_set_takeD in_set_dropD)

lemma window_append: "i < length xs \<Longrightarrow> n \<le> i + 1 \<Longrightarrow> window n i (xs @ ys) = window n i xs"
  by (simp add: window_def)

lemma window_current:
  assumes "0 < n" and "n \<le> i + 1" and "i < length xs"
  shows "xs ! i \<in> set (window n i xs)"
proof -
  have "window n i xs ! (n - 1) = xs ! i"
    using assms by (simp add: window_def)
  moreover have "n - 1 < length (window n i xs)"
    using assms by (simp add: window_length)
  ultimately show ?thesis by (metis nth_mem)
qed

section \<open>Looking up rows\<close>

lemma find_key_unique:
  assumes "distinct (map f xs)" and "x \<in> set xs"
  shows "find (\<lambda>y. f y = f x) xs = Some x"
  using assms by (induction xs) (auto simp: image_iff)

lemma find_mem: "find P xs = Some x \<Longrightarrow> x \<in> set xs \<and> P x"
  by (induction xs) (auto split: if_splits)

lemma find_ex: "x \<in> set xs \<Longrightarrow> P x \<Longrightarrow> \<exists>y. find P xs = Some y"
  by (induction xs) auto

lemma find_append: "find P (xs @ ys) = (case find P xs of None \<Rightarrow> find P ys | Some x \<Rightarrow> Some x)"
  by (induction xs) auto

end
