(* ===== verification/PyDecimal.thy ===== *)
theory PyDecimal
  imports Prelude Complex_Main
begin

text \<open>
  Python's \<open>decimal.Decimal\<close>: a finite decimal is represented by its value, a \<open>rat\<close>.
  Every arithmetic operation of the module computes the exact result and rounds it to the
  precision of the context, half to even: 28 digits in the default context, which the
  services use everywhere, 34 in the \<open>localcontext\<close> of \<open>bollinger\<close>. Comparison,
  \<open>max\<close> and \<open>min\<close> are exact. The exponent range of the default context
  (\<open>Emax = 999999\<close>) is not modelled, nor are NaN and infinities, which the database
  columns (\<open>NUMERIC(24, 8)\<close> and narrower) do not hold; the trailing zeros of a
  coefficient, visible in \<open>str\<close> only, are not part of the value.

  The locale \<open>rounding\<close> states what the clients rely on: rounding is monotone, symmetric
  and leaves the integers of up to 28 digits alone. It is interpreted on the rounding
  defined here at both precisions.
\<close>

type_synonym decimal = rat

section \<open>The interface the calculations rely on\<close>

locale rounding =
  fixes rnd :: "rat \<Rightarrow> rat"
  assumes rnd_mono: "x \<le> y \<Longrightarrow> rnd x \<le> rnd y"
    and rnd_minus: "rnd (- x) = - rnd x"
    and rnd_of_int: "\<bar>n\<bar> < 10 ^ 28 \<Longrightarrow> rnd (of_int n) = of_int n"
    and rnd_idem: "rnd (rnd x) = rnd x"
begin

lemma rnd_0: "rnd 0 = 0"
  using rnd_of_int [of 0] by simp

lemma rnd_1: "rnd 1 = 1"
  using rnd_of_int [of 1] by simp

lemma rnd_50: "rnd 50 = 50"
  using rnd_of_int [of 50] by simp

lemma rnd_100: "rnd 100 = 100"
  using rnd_of_int [of 100] by simp

lemma rnd_nonneg: "0 \<le> x \<Longrightarrow> 0 \<le> rnd x"
  using rnd_mono [of 0 x] by (simp add: rnd_0)

lemma rnd_nonpos: "x \<le> 0 \<Longrightarrow> rnd x \<le> 0"
  using rnd_mono [of x 0] by (simp add: rnd_0)

lemma rnd_ge_1: "1 \<le> x \<Longrightarrow> 1 \<le> rnd x"
  using rnd_mono [of 1 x] by (simp add: rnd_1)

lemma rnd_le_100: "x \<le> 100 \<Longrightarrow> rnd x \<le> 100"
  using rnd_mono [of x 100] by (simp add: rnd_100)

lemma rnd_ge_m100: "- 100 \<le> x \<Longrightarrow> - 100 \<le> rnd x"
  using rnd_mono [of "- 100" x] by (simp add: rnd_minus rnd_100)

text \<open>Between two representable bounds the rounded value stays between them.\<close>

lemma rnd_between: "rnd a = a \<Longrightarrow> rnd b = b \<Longrightarrow> a \<le> x \<Longrightarrow> x \<le> b \<Longrightarrow> a \<le> rnd x \<and> rnd x \<le> b"
  using rnd_mono [of a x] rnd_mono [of x b] by simp

end

section \<open>Rounding half to even\<close>

definition round_half_even :: "rat \<Rightarrow> int" where
  "round_half_even x =
     (let f = \<lfloor>x\<rfloor>; d = x - of_int f in
      if d < 1 / 2 then f
      else if 1 / 2 < d then f + 1
      else if even f then f else f + 1)"

lemma round_half_even_of_int [simp]: "round_half_even (of_int n) = n"
  by (simp add: round_half_even_def)

lemma round_half_even_bounds: "\<lfloor>x\<rfloor> \<le> round_half_even x \<and> round_half_even x \<le> \<lceil>x\<rceil>"
proof -
  have "x - of_int \<lfloor>x\<rfloor> \<noteq> 0 \<Longrightarrow> \<lfloor>x\<rfloor> + 1 \<le> \<lceil>x\<rceil>"
    by (simp add: ceiling_altdef)
  then show ?thesis
    by (auto simp: round_half_even_def Let_def floor_le_ceiling)
qed

lemma round_half_even_error: "\<bar>of_int (round_half_even x) - x\<bar> \<le> 1 / 2"
proof -
  have "of_int \<lfloor>x\<rfloor> \<le> x" and "x < of_int \<lfloor>x\<rfloor> + 1" by linarith+
  then show ?thesis
    by (auto simp: round_half_even_def Let_def abs_le_iff)
qed

lemma round_half_even_mono:
  assumes "x \<le> y"
  shows "round_half_even x \<le> round_half_even y"
proof (cases "\<lfloor>x\<rfloor> = \<lfloor>y\<rfloor>")
  case True
  with assms show ?thesis by (auto simp: round_half_even_def Let_def)
next
  case False
  with assms have lt: "\<lfloor>x\<rfloor> < \<lfloor>y\<rfloor>" by (simp add: floor_mono less_le)
  have "round_half_even x \<le> \<lfloor>x\<rfloor> + 1" by (simp add: round_half_even_def Let_def)
  also have "\<dots> \<le> \<lfloor>y\<rfloor>" using lt by simp
  also have "\<dots> \<le> round_half_even y" using round_half_even_bounds by blast
  finally show ?thesis .
qed

lemma round_half_even_minus: "round_half_even (- x) = - round_half_even x"
proof (cases "x = of_int \<lfloor>x\<rfloor>")
  case True
  then show ?thesis by (metis of_int_minus round_half_even_of_int)
next
  case False
  define f where "f = \<lfloor>x\<rfloor>"
  have fl: "\<lfloor>- x\<rfloor> = - f - 1"
    using False unfolding f_def by (simp add: floor_minus ceiling_altdef)
  have "of_int f \<le> x" unfolding f_def by simp
  then show ?thesis
    unfolding round_half_even_def Let_def fl f_def [symmetric] by auto
qed

lemma round_half_even_nonneg: "0 \<le> x \<Longrightarrow> 0 \<le> round_half_even x"
  using round_half_even_mono [of 0 x] round_half_even_of_int [of 0] by simp

section \<open>Rounding to a number of significant digits\<close>

function ndigits :: "int \<Rightarrow> nat" where
  "ndigits n = (if n < 10 then 1 else Suc (ndigits (n div 10)))"
  by pat_completeness auto
termination
  by (relation "measure nat") auto

declare ndigits.simps [simp del]

lemma ndigits_upper: "n < 10 ^ ndigits n"
proof (induction n rule: ndigits.induct)
  case (1 n)
  show ?case
  proof (cases "n < 10")
    case True
    then show ?thesis by (simp add: ndigits.simps [of n])
  next
    case False
    with 1 have "n div 10 < 10 ^ ndigits (n div 10)" by simp
    with False show ?thesis by (simp add: ndigits.simps [of n])
  qed
qed

lemma ndigits_lower: "0 < n \<Longrightarrow> 10 ^ (ndigits n - 1) \<le> n"
proof (induction n rule: ndigits.induct)
  case (1 n)
  show ?case
  proof (cases "n < 10")
    case True
    with 1 show ?thesis by (simp add: ndigits.simps [of n])
  next
    case False
    then have pos: "0 < ndigits (n div 10)" by (simp add: ndigits.simps [of "n div 10"])
    from False 1 have "10 ^ (ndigits (n div 10) - 1) \<le> n div 10" by simp
    then have "10 * 10 ^ (ndigits (n div 10) - 1) \<le> n" by simp
    also have "10 * 10 ^ (ndigits (n div 10) - 1) = (10 :: int) ^ ndigits (n div 10)"
      using pos by (cases "ndigits (n div 10)") simp_all
    finally show ?thesis using False by (simp add: ndigits.simps [of n])
  qed
qed

lemma ndigits_pos: "0 < ndigits n"
  by (simp add: ndigits.simps [of n])

text \<open>
  The adjusted exponent of a positive number: the \<open>k\<close> with \<open>10 powi k \<le> x < 10 powi (k + 1)\<close>,
  from the digit counts of numerator and denominator.
\<close>

definition adjusted :: "rat \<Rightarrow> int" where
  "adjusted x =
     (let (p, q) = quotient_of x; k = int (ndigits p) - int (ndigits q)
      in if 10 powi k \<le> x then k else k - 1)"

lemma powi_10_mono: "a \<le> b \<Longrightarrow> (10 :: rat) powi a \<le> 10 powi b"
  by (rule power_int_increasing) simp_all

lemma powi_10_strict: "a < b \<Longrightarrow> (10 :: rat) powi a < 10 powi b"
  by (rule power_int_strict_increasing) simp_all

lemma powi_10_pos [simp]: "0 < (10 :: rat) powi a"
  by simp

lemma powi_10_shift:
  assumes "e \<le> a"
  shows "10 powi a / 10 powi e = rat_of_int (10 ^ nat (a - e))"
proof -
  have "10 powi a / 10 powi e = (10 :: rat) powi (a - e)"
    by (subst power_int_diff) simp_all
  also have "\<dots> = 10 powi int (nat (a - e))" using assms by simp
  finally show ?thesis by (simp only: power_int_of_nat of_int_power of_int_numeral)
qed

lemma powi_10_diff_nat: "10 powi (int a - int b) = (10 :: rat) ^ a / 10 ^ b"
  by (subst power_int_diff) simp_all

lemma of_int_below_power: "n < 10 ^ k \<Longrightarrow> rat_of_int n < 10 ^ k"
  using of_int_less_iff [where ?'a = rat, of n "10 ^ k"] by simp

lemma of_int_above_power: "10 ^ k \<le> n \<Longrightarrow> 10 ^ k \<le> rat_of_int n"
  using of_int_le_iff [where ?'a = rat, of "10 ^ k" n] by simp

lemma adjusted_bounds:
  assumes "0 < x"
  shows "10 powi adjusted x \<le> x \<and> x < 10 powi (adjusted x + 1)"
proof -
  obtain p q where pq: "quotient_of x = (p, q)" by (cases "quotient_of x")
  then have q: "0 < q" by (rule quotient_of_denom_pos)
  have x: "x = of_int p / of_int q" using pq by (rule quotient_of_div)
  with assms q have p: "0 < p" by (simp add: zero_less_divide_iff)
  define m where "m = ndigits p"
  define n where "n = ndigits q"
  have mpos: "0 < m" "0 < n" by (simp_all add: m_def n_def ndigits_pos)
  have p1: "rat_of_int p < 10 ^ m" and q1: "rat_of_int q < 10 ^ n"
    unfolding m_def n_def by (rule of_int_below_power, rule ndigits_upper)+
  have p2: "10 ^ (m - 1) \<le> rat_of_int p" and q2: "10 ^ (n - 1) \<le> rat_of_int q"
    unfolding m_def n_def
    by (rule of_int_above_power, rule ndigits_lower, simp add: p q)+
  have lower: "10 powi (int m - int n - 1) \<le> x"
  proof -
    have "int m - int n - 1 = int (m - 1) - int n" using mpos by simp
    then have "10 powi (int m - int n - 1) = (10 :: rat) ^ (m - 1) / 10 ^ n"
      by (simp only: powi_10_diff_nat)
    also have "\<dots> \<le> of_int p / of_int q"
      using p p2 q1 q by (intro frac_le) auto
    finally show ?thesis by (simp add: x)
  qed
  have upper: "x < 10 powi (int m - int n + 1)"
  proof -
    have "x < 10 ^ m / 10 ^ (n - 1)"
      unfolding x using p1 q2 q by (intro frac_less) (auto simp: p less_imp_le)
    moreover have "int m - int n + 1 = int m - int (n - 1)" using mpos by simp
    ultimately show ?thesis by (simp only: powi_10_diff_nat)
  qed
  show ?thesis
    using lower upper by (auto simp: adjusted_def pq Let_def m_def n_def)
qed

lemma adjusted_unique:
  assumes "10 powi a \<le> x" and "x < 10 powi (a + 1)"
  shows "adjusted x = a"
proof -
  from assms(1) have "0 < x" by (rule less_le_trans [OF powi_10_pos])
  then have b: "10 powi adjusted x \<le> x" "x < 10 powi (adjusted x + 1)"
    using adjusted_bounds by auto
  have "\<not> a < adjusted x" and "\<not> adjusted x < a"
    using powi_10_mono [of "a + 1" "adjusted x"] powi_10_mono [of "adjusted x + 1" a] assms b
    by force+
  then show ?thesis by simp
qed

lemma adjusted_mono: "0 < x \<Longrightarrow> x \<le> y \<Longrightarrow> adjusted x \<le> adjusted y"
proof (rule ccontr)
  assume x: "0 < x" "x \<le> y" and "\<not> adjusted x \<le> adjusted y"
  then have "(10 :: rat) powi (adjusted y + 1) \<le> 10 powi adjusted x"
    by (intro powi_10_mono) simp
  with adjusted_bounds [of x] adjusted_bounds [of y] x show False by simp
qed

text \<open>Rounding to \<open>p\<close> digits, as the context of precision \<open>p\<close> finalises every result.\<close>

definition dround :: "nat \<Rightarrow> rat \<Rightarrow> decimal" where
  "dround p x =
     (if x = 0 then 0
      else let e = adjusted \<bar>x\<bar> - (int p - 1)
           in of_int (round_half_even (x / 10 powi e)) * 10 powi e)"

lemma dround_0 [simp]: "dround p 0 = 0"
  by (simp add: dround_def)

lemma dround_minus: "dround p (- x) = - dround p x"
  by (simp add: dround_def Let_def round_half_even_minus)

lemma dround_decade:
  assumes "0 < x" and "0 < p"
  shows "10 powi adjusted x \<le> dround p x \<and> dround p x \<le> 10 powi (adjusted x + 1)"
proof -
  define e where "e = adjusted x - (int p - 1)"
  have b: "10 powi adjusted x \<le> x" "x < 10 powi (adjusted x + 1)"
    using adjusted_bounds [OF assms(1)] by auto
  have le: "e \<le> adjusted x" "e \<le> adjusted x + 1" using assms(2) by (simp_all add: e_def)
  have "10 ^ nat (adjusted x - e) \<le> round_half_even (x / 10 powi e)"
    using round_half_even_mono [OF divide_right_mono [OF b(1)], of "10 powi e"] powi_10_shift [OF le(1)]
    by (simp del: of_int_power) 
  moreover have "round_half_even (x / 10 powi e) \<le> 10 ^ nat (adjusted x + 1 - e)"
    using round_half_even_mono [OF divide_right_mono [OF less_imp_le [OF b(2)]], of "10 powi e"]
      powi_10_shift [OF le(2)]
    by (simp del: of_int_power)
  ultimately have
    "10 powi adjusted x / 10 powi e \<le> (of_int (round_half_even (x / 10 powi e)) :: rat)"
    "(of_int (round_half_even (x / 10 powi e)) :: rat) \<le> 10 powi (adjusted x + 1) / 10 powi e"
    unfolding powi_10_shift [OF le(1)] powi_10_shift [OF le(2)] by (simp_all del: of_int_power)
  moreover have "dround p x = of_int (round_half_even (x / 10 powi e)) * 10 powi e"
    using assms(1) by (simp add: dround_def Let_def e_def)
  ultimately show ?thesis by (simp add: divide_le_eq le_divide_eq)
qed

lemma dround_pos: "0 < x \<Longrightarrow> 0 < p \<Longrightarrow> 0 < dround p x"
  using dround_decade [of x p] powi_10_pos [of "adjusted x"] by linarith

lemma dround_mono_pos:
  assumes "0 < x" and "x \<le> y" and "0 < p"
  shows "dround p x \<le> dround p y"
proof (cases "adjusted x = adjusted y")
  case True
  with assms show ?thesis
    by (auto simp: dround_def Let_def intro!: mult_right_mono round_half_even_mono divide_right_mono)
next
  case False
  with assms adjusted_mono [of x y] have lt: "adjusted x + 1 \<le> adjusted y" by simp
  have "dround p x \<le> 10 powi (adjusted x + 1)" using dround_decade assms by simp
  also have "\<dots> \<le> 10 powi adjusted y" using lt by (rule powi_10_mono)
  also have "\<dots> \<le> dround p y" using dround_decade assms by simp
  finally show ?thesis .
qed

lemma dround_mono:
  assumes "x \<le> y" and "0 < p"
  shows "dround p x \<le> dround p y"
proof -
  consider "0 < x" | "y < 0" | "x \<le> 0" "0 \<le> y" by linarith
  then show ?thesis
  proof cases
    case 1
    with assms show ?thesis by (rule_tac dround_mono_pos)
  next
    case 2
    with assms have "dround p (- y) \<le> dround p (- x)" by (intro dround_mono_pos) auto
    then show ?thesis by (simp add: dround_minus)
  next
    case 3
    have "dround p x \<le> 0"
      using 3 assms dround_pos [of "- x" p] by (cases "x = 0") (auto simp: dround_minus)
    moreover have "0 \<le> dround p y"
      using 3 assms dround_pos [of y p] by (cases "y = 0") auto
    ultimately show ?thesis by simp
  qed
qed

text \<open>Numbers of at most \<open>p\<close> digits are left alone.\<close>

definition representable :: "nat \<Rightarrow> rat \<Rightarrow> bool" where
  "representable p x \<longleftrightarrow> (\<exists>c e. x = of_int c * 10 powi e \<and> \<bar>c\<bar> < 10 ^ p)"

lemma dround_representable:
  assumes "representable p x"
  shows "dround p x = x"
proof (cases "x = 0")
  case False
  from assms obtain c e where x: "x = of_int c * 10 powi e" and c: "\<bar>c\<bar> < 10 ^ p"
    by (auto simp: representable_def)
  define e' where "e' = adjusted \<bar>x\<bar> - (int p - 1)"
  have absx: "\<bar>x\<bar> = of_int \<bar>c\<bar> * 10 powi e" using x by (simp add: abs_mult)
  have c': "(of_int \<bar>c\<bar> :: rat) < 10 ^ p" using c by (metis of_int_less_iff of_int_numeral of_int_power)
  have "10 powi adjusted \<bar>x\<bar> \<le> \<bar>x\<bar>" using adjusted_bounds [of "\<bar>x\<bar>"] False by simp
  also have "\<dots> < 10 ^ p * 10 powi e"
    unfolding absx using c' by (rule mult_strict_right_mono) simp
  also have "\<dots> = 10 powi (int p + e)" by (simp add: power_int_add)
  finally have "adjusted \<bar>x\<bar> < int p + e"
    using powi_10_mono [of "int p + e" "adjusted \<bar>x\<bar>"] by force
  then have le: "e' \<le> e" by (simp add: e'_def)
  have "x / 10 powi e' = of_int c * (10 powi e / 10 powi e')" by (simp add: x)
  also have "\<dots> = of_int (c * 10 ^ nat (e - e'))"
    unfolding powi_10_shift [OF le] by simp
  finally have "of_int (round_half_even (x / 10 powi e')) = x / 10 powi e'"
    by (metis round_half_even_of_int)
  with False show ?thesis by (simp add: dround_def Let_def e'_def [symmetric])
qed simp

lemma representable_of_int: "\<bar>n\<bar> < 10 ^ p \<Longrightarrow> representable p (of_int n)"
  unfolding representable_def by (rule exI [of _ n], rule exI [of _ 0]) simp

lemma representable_dround:
  assumes "0 < p"
  shows "representable p (dround p x)"
proof (cases "x = 0")
  case True
  then show ?thesis using representable_of_int [of 0 p] by simp
next
  case False
  define e where "e = adjusted \<bar>x\<bar> - (int p - 1)"
  define c where "c = round_half_even (x / 10 powi e)"
  have d: "dround p x = of_int c * 10 powi e"
    using False by (simp add: dround_def Let_def e_def c_def)
  have "\<bar>dround p x\<bar> = dround p \<bar>x\<bar>"
    using False assms dround_pos [of x p] dround_pos [of "- x" p]
    by (cases "0 < x") (auto simp: dround_minus abs_if)
  also have "\<dots> \<le> 10 powi (adjusted \<bar>x\<bar> + 1)" using dround_decade [of "\<bar>x\<bar>" p] False assms by simp
  also have "\<dots> = 10 ^ p * 10 powi e" by (simp add: e_def power_int_diff power_int_add field_simps)
  finally have "(of_int \<bar>c\<bar> :: rat) \<le> of_int (10 ^ p)" unfolding d by (simp add: abs_mult)
  then have "\<bar>c\<bar> \<le> 10 ^ p" by (simp only: of_int_le_iff)
  then consider "\<bar>c\<bar> < 10 ^ p" | "\<bar>c\<bar> = 10 ^ p" by linarith
  then show ?thesis
  proof cases
    case 1
    with d show ?thesis unfolding representable_def by blast
  next
    case 2
    have "(10 :: int) ^ p = 10 ^ (p - 1) * 10" using assms by (cases p) simp_all
    then have c': "c = sgn c * 10 ^ (p - 1) * 10" using 2 by (metis mult.assoc sgn_mult_abs mult.commute)
    have "dround p x = of_int (sgn c * 10 ^ (p - 1) * 10) * 10 powi e"
      unfolding d by (subst c') (rule refl)
    also have "\<dots> = of_int (sgn c * 10 ^ (p - 1)) * 10 powi (e + 1)"
      by (simp add: power_int_add)
    finally have "dround p x = of_int (sgn c * 10 ^ (p - 1)) * 10 powi (e + 1)" .
    moreover have "\<bar>sgn c * 10 ^ (p - 1)\<bar> < (10 :: int) ^ p"
      using assms by (auto simp: abs_mult sgn_if)
    ultimately show ?thesis unfolding representable_def by blast
  qed
qed

lemma dround_idem: "0 < p \<Longrightarrow> dround p (dround p x) = dround p x"
  by (intro dround_representable representable_dround)

text \<open>The relative error of one rounding: half a unit in the last digit.\<close>

lemma dround_error:
  assumes "0 < p"
  shows "\<bar>dround p x - x\<bar> \<le> \<bar>x\<bar> * 10 powi (1 - int p) / 2"
proof (cases "x = 0")
  case False
  define e where "e = adjusted \<bar>x\<bar> - (int p - 1)"
  have "dround p x - x = (of_int (round_half_even (x / 10 powi e)) - x / 10 powi e) * 10 powi e"
    using False by (simp add: dround_def Let_def e_def left_diff_distrib)
  then have "\<bar>dround p x - x\<bar> \<le> 1 / 2 * 10 powi e"
    using round_half_even_error [of "x / 10 powi e"]
    by (simp add: abs_mult mult_right_mono del: times_divide_eq_left)
  also have "10 powi e = 10 powi adjusted \<bar>x\<bar> * (10 :: rat) powi (1 - int p)"
    by (subst power_int_add [symmetric]) (simp_all add: e_def algebra_simps)
  also have "1 / 2 * (10 powi adjusted \<bar>x\<bar> * (10 :: rat) powi (1 - int p)) \<le>
      1 / 2 * (\<bar>x\<bar> * 10 powi (1 - int p))"
    using adjusted_bounds [of "\<bar>x\<bar>"] False
    by (intro mult_left_mono mult_right_mono) auto
  finally show ?thesis by simp
qed simp

section \<open>The operations of the module\<close>

definition prec :: nat where "prec = 28"

abbreviation dctx :: "rat \<Rightarrow> decimal" where "dctx \<equiv> dround prec"

interpretation d28: rounding "dround 28"
proof
  show "x \<le> y \<Longrightarrow> dround 28 x \<le> dround 28 y" for x y
    by (rule dround_mono) simp_all
  show "dround 28 (- x) = - dround 28 x" for x
    by (rule dround_minus)
  show "\<bar>n\<bar> < 10 ^ 28 \<Longrightarrow> dround 28 (of_int n) = of_int n" for n
    by (rule dround_representable, rule representable_of_int)
  show "dround 28 (dround 28 x) = dround 28 x" for x
    by (rule dround_idem) simp
qed

interpretation d34: rounding "dround 34"
proof
  show "x \<le> y \<Longrightarrow> dround 34 x \<le> dround 34 y" for x y
    by (rule dround_mono) simp_all
  show "dround 34 (- x) = - dround 34 x" for x
    by (rule dround_minus)
  show "\<bar>n\<bar> < 10 ^ 28 \<Longrightarrow> dround 34 (of_int n) = of_int n" for n
    by (rule dround_representable, rule representable_of_int)
      (erule order.strict_trans2, simp)
  show "dround 34 (dround 34 x) = dround 34 x" for x
    by (rule dround_idem) simp
qed

text \<open>Integers of up to 28 digits evaluate by simplification.\<close>

lemma dround_numeral [simp]:
  "numeral n < (10 :: int) ^ 28 \<Longrightarrow> dround 28 (numeral n) = numeral n"
  using d28.rnd_of_int [of "numeral n"] by simp

lemma dround_neg_numeral [simp]:
  "numeral n < (10 :: int) ^ 28 \<Longrightarrow> dround 28 (- numeral n) = - numeral n"
  by (simp add: dround_minus)

lemma dround_one [simp]: "dround 28 1 = 1"
  by (rule d28.rnd_1)

definition dadd :: "nat \<Rightarrow> decimal \<Rightarrow> decimal \<Rightarrow> decimal" where
  "dadd p a b = dround p (a + b)"

definition dsub :: "nat \<Rightarrow> decimal \<Rightarrow> decimal \<Rightarrow> decimal" where
  "dsub p a b = dround p (a - b)"

definition dmul :: "nat \<Rightarrow> decimal \<Rightarrow> decimal \<Rightarrow> decimal" where
  "dmul p a b = dround p (a * b)"

definition dneg :: "nat \<Rightarrow> decimal \<Rightarrow> decimal" where
  "dneg p a = dround p (- a)"

definition dabs :: "nat \<Rightarrow> decimal \<Rightarrow> decimal" where
  "dabs p a = dround p \<bar>a\<bar>"

text \<open>Division by zero raises (\<open>DivisionByZero\<close>, or \<open>InvalidOperation\<close> for \<open>0 / 0\<close>).\<close>

definition ddiv :: "nat \<Rightarrow> decimal \<Rightarrow> decimal \<Rightarrow> decimal result" where
  "ddiv p a b = (if b = 0 then Inl DecimalError else Inr (dround p (a / b)))"

text \<open>\<open>sum(values, ZERO)\<close>: additions from the left, each one rounded.\<close>

definition dsum :: "nat \<Rightarrow> decimal list \<Rightarrow> decimal" where
  "dsum p xs = foldl (dadd p) 0 xs"

text \<open>Integer square root, and the square root of the module: correctly rounded, half to even.\<close>

function isqrt :: "int \<Rightarrow> int" where
  "isqrt n = (if n \<le> 0 then 0
     else let r = 2 * isqrt (n div 4) in if (r + 1)\<^sup>2 \<le> n then r + 1 else r)"
  by pat_completeness auto
termination
  by (relation "measure nat") auto

declare isqrt.simps [simp del]

definition dsqrt :: "nat \<Rightarrow> decimal \<Rightarrow> decimal result" where
  "dsqrt p x =
     (if x < 0 then Inl DecimalError
      else if x = 0 then Inr 0
      else let e = adjusted x div 2 - (int p - 1);
               y = x / 10 powi (2 * e);
               s = isqrt \<lfloor>y\<rfloor>;
               h = (of_int s + 1 / 2)\<^sup>2;
               r = (if y < h then s else if h < y then s + 1 else if even s then s else s + 1)
           in Inr (of_int r * 10 powi e))"

lemma isqrt_nonneg: "0 \<le> isqrt n"
  by (induction n rule: isqrt.induct) (subst isqrt.simps, simp add: Let_def)

lemma isqrt_bounds: "0 \<le> n \<Longrightarrow> (isqrt n)\<^sup>2 \<le> n \<and> n < (isqrt n + 1)\<^sup>2"
proof (induction n rule: isqrt.induct)
  case (1 n)
  show ?case
  proof (cases "n = 0")
    case True
    then show ?thesis by (simp add: isqrt.simps [of 0])
  next
    case False
    define r where "r = isqrt (n div 4)"
    from 1 False have lo: "r\<^sup>2 \<le> n div 4" and hi: "n div 4 < (r + 1)\<^sup>2" by (simp_all add: r_def)
    from lo have "4 * r\<^sup>2 \<le> n" by simp
    moreover from hi have "n < 4 * (r + 1)\<^sup>2" by simp
    ultimately show ?thesis
      using False 1 by (auto simp: isqrt.simps [of n] Let_def r_def [symmetric] power2_eq_square algebra_simps)
  qed
qed

lemma dsqrt_nonneg: "dsqrt p x = Inr y \<Longrightarrow> 0 \<le> y"
  using isqrt_nonneg [of "\<lfloor>x / 10 powi (2 * (adjusted x div 2 - (int p - 1)))\<rfloor>"]
  by (auto simp: dsqrt_def Let_def split: if_splits intro!: mult_nonneg_nonneg)

lemma dsqrt_total: "0 \<le> x \<Longrightarrow> \<exists>y. dsqrt p x = Inr y"
  by (auto simp: dsqrt_def Let_def)

lemma ddiv_Inr_iff: "ddiv p a b = Inr c \<longleftrightarrow> b \<noteq> 0 \<and> c = dround p (a / b)"
  by (auto simp: ddiv_def)

lemma dsum_Nil [simp]: "dsum p [] = 0"
  by (simp add: dsum_def)

lemma dsum_snoc: "dsum p (xs @ [x]) = dadd p (dsum p xs) x"
  by (simp add: dsum_def)

lemma dsum_nonneg:
  assumes "0 < p" and "\<forall>x \<in> set xs. 0 \<le> x"
  shows "0 \<le> dsum p xs"
  using assms(2)
proof (induction xs rule: rev_induct)
  case (snoc x xs)
  then have "dround p 0 \<le> dround p (dsum p xs + x)"
    by (intro dround_mono) (use assms(1) in auto)
  then show ?case by (simp add: dsum_snoc dadd_def)
qed simp

text \<open>A sum of non-negative rounded values is at least each of them.\<close>

lemma dsum_ge_member:
  assumes "0 < p" and "\<forall>x \<in> set xs. 0 \<le> x \<and> dround p x = x" and "v \<in> set xs"
  shows "v \<le> dsum p xs"
  using assms(2,3)
proof (induction xs rule: rev_induct)
  case (snoc x xs)
  have nonneg: "0 \<le> dsum p xs" using snoc.prems assms(1) by (intro dsum_nonneg) auto
  have x: "0 \<le> x" "dround p x = x" using snoc.prems by auto
  have sum: "dsum p (xs @ [x]) = dround p (dsum p xs + x)" by (simp add: dsum_snoc dadd_def)
  have "dround p x \<le> dround p (dsum p xs + x)"
    using nonneg assms(1) by (intro dround_mono) simp_all
  moreover have "dround p (dsum p xs) \<le> dround p (dsum p xs + x)"
    using x assms(1) by (intro dround_mono) simp_all
  moreover have "dround p (dsum p xs) = dsum p xs"
    using dround_idem [OF assms(1)] by (cases xs rule: rev_cases) (simp_all add: dsum_snoc dadd_def)
  ultimately show ?case using snoc x sum by (cases "v = x") auto
qed simp

lemmas dops = dadd_def dsub_def dmul_def dneg_def dabs_def

section \<open>Extremes\<close>

text \<open>Python's \<open>max\<close> and \<open>min\<close> of an iterable raise on an empty one.\<close>

definition py_max :: "decimal list \<Rightarrow> decimal result" where
  "py_max xs = (case xs of [] \<Rightarrow> Inl ValueError | x # rest \<Rightarrow> Inr (foldl max x rest))"

definition py_min :: "decimal list \<Rightarrow> decimal result" where
  "py_min xs = (case xs of [] \<Rightarrow> Inl ValueError | x # rest \<Rightarrow> Inr (foldl min x rest))"

lemma foldl_max_init: "(a :: 'a :: linorder) \<le> foldl max a xs"
  by (induction xs arbitrary: a) (auto intro: order_trans [OF max.cobounded1])

lemma foldl_max_ge: "(x :: 'a :: linorder) \<in> set (a # xs) \<Longrightarrow> x \<le> foldl max a xs"
proof (induction xs arbitrary: a)
  case (Cons b xs)
  then show ?case
    using foldl_max_init [of "max a b" xs] by auto
qed simp

lemma foldl_min_init: "foldl min a xs \<le> (a :: 'a :: linorder)"
  by (induction xs arbitrary: a) (auto intro: order_trans [OF _ min.cobounded1])

lemma foldl_min_le: "(x :: 'a :: linorder) \<in> set (a # xs) \<Longrightarrow> foldl min a xs \<le> x"
proof (induction xs arbitrary: a)
  case (Cons b xs)
  then show ?case
    using foldl_min_init [of "min a b" xs] by auto
qed simp

lemma foldl_max_mem: "foldl max (a :: 'a :: linorder) xs \<in> set (a # xs)"
  by (induction xs arbitrary: a) (fastforce simp: max_def)+

lemma foldl_min_mem: "foldl min (a :: 'a :: linorder) xs \<in> set (a # xs)"
  by (induction xs arbitrary: a) (fastforce simp: min_def)+

lemma py_max_total:
  assumes "xs \<noteq> []"
  shows "\<exists>h. py_max xs = Inr h \<and> h \<in> set xs \<and> (\<forall>x \<in> set xs. x \<le> h)"
proof -
  obtain a ys where xs: "xs = a # ys" using assms by (cases xs) auto
  show ?thesis using foldl_max_mem [of a ys] foldl_max_ge [of _ a ys] by (simp only: xs py_max_def list.case) blast
qed

lemma py_min_total:
  assumes "xs \<noteq> []"
  shows "\<exists>l. py_min xs = Inr l \<and> l \<in> set xs \<and> (\<forall>x \<in> set xs. l \<le> x)"
proof -
  obtain a ys where xs: "xs = a # ys" using assms by (cases xs) auto
  show ?thesis using foldl_min_mem [of a ys] foldl_min_le [of _ a ys] by (simp only: xs py_min_def list.case) blast
qed

end
