(* ===== verification/PyDate.thy ===== *)
theory PyDate
  imports Prelude
begin

text \<open>
  Python's \<open>datetime.date\<close>: a date is its proleptic Gregorian ordinal (1 is the first of
  January of year 1, a Monday). Year, month and day are computed from it by the algorithm
  of the standard library (\<open>_ord2ymd\<close>), the ISO calendar by \<open>isocalendar\<close>. The main
  fact is that two dates have the same ISO year and week exactly when they lie in the same
  Monday-to-Sunday week.
\<close>

type_synonym date = int

definition weekday :: "date \<Rightarrow> int" where
  "weekday d = (d + 6) mod 7"

definition is_leap :: "int \<Rightarrow> bool" where
  "is_leap y \<longleftrightarrow> y mod 4 = 0 \<and> (y mod 100 \<noteq> 0 \<or> y mod 400 = 0)"

definition days_before_year :: "int \<Rightarrow> int" where
  "days_before_year y = (let z = y - 1 in z * 365 + z div 4 - z div 100 + z div 400)"

definition days_before_month :: "int \<Rightarrow> int \<Rightarrow> int" where
  "days_before_month y m =
     [0, 31, 59, 90, 120, 151, 181, 212, 243, 273, 304, 334] ! nat (m - 1) +
     (if 2 < m \<and> is_leap y then 1 else 0)"

definition ymd2ord :: "int \<Rightarrow> int \<Rightarrow> int \<Rightarrow> date" where
  "ymd2ord y m d = days_before_year y + days_before_month y m + d"

definition ord2year :: "date \<Rightarrow> int" where
  "ord2year d =
     (let n = d - 1;
          n400 = n div 146097; n = n mod 146097;
          n100 = n div 36524; n = n mod 36524;
          n4 = n div 1461; n = n mod 1461;
          n1 = n div 365;
          y = n400 * 400 + 1 + n100 * 100 + n4 * 4 + n1
      in if n1 = 4 \<or> n100 = 4 then y - 1 else y)"

definition ord2month :: "date \<Rightarrow> int" where
  "ord2month d =
     (let y = ord2year d; n = d - 1 - days_before_year y;
          m = (n + 50) div 32
      in if n < days_before_month y m then m - 1 else m)"

lemma days_before_year_blocks:
  assumes "0 \<le> b" "b \<le> 3" "0 \<le> c" "c \<le> 24" "0 \<le> e" "e \<le> 3"
  shows "days_before_year (400 * a + 100 * b + 4 * c + e + 1) =
    146097 * a + 36524 * b + 1461 * c + 365 * e"
proof -
  have "(400 * a + 100 * b + 4 * c + e) div 4 = 100 * a + 25 * b + c"
    using assms by (intro int_div_pos_eq [where r = e]) simp_all
  moreover have "(400 * a + 100 * b + 4 * c + e) div 100 = 4 * a + b"
    using assms by (intro int_div_pos_eq [where r = "4 * c + e"]) simp_all
  moreover have "(400 * a + 100 * b + 4 * c + e) div 400 = a"
    using assms by (intro int_div_pos_eq [where r = "100 * b + 4 * c + e"]) simp_all
  ultimately show ?thesis by (simp add: days_before_year_def Let_def)
qed

lemma div_step:
  fixes y k :: int
  assumes "0 < k"
  shows "y div k = (y - 1) div k + (if k dvd y then 1 else 0)"
proof (cases "k dvd y")
  case True
  then obtain m where m: "y = k * m" by (rule dvdE)
  have "(y - 1) div k = m - 1"
    using assms by (intro int_div_pos_eq [where r = "k - 1"]) (simp_all add: m algebra_simps)
  with True m assms show ?thesis by simp
next
  case False
  then have "0 < y mod k" using assms by (simp add: dvd_eq_mod_eq_0 order_less_le)
  then have "(y - 1) div k = y div k"
    using assms pos_mod_bound [OF assms, of y]
    by (intro int_div_pos_eq [where r = "y mod k - 1"]) (use mult_div_mod_eq [of k y] in linarith)+
  with False show ?thesis by simp
qed

lemma days_before_year_step:
  "days_before_year (y + 1) = days_before_year y + (if is_leap y then 366 else 365)"
proof -
  have dvd: "400 dvd y \<Longrightarrow> 100 dvd y" "100 dvd y \<Longrightarrow> 4 dvd y"
    using dvd_trans [of 100 400 y] dvd_trans [of 4 100 y] by simp_all
  have leap: "is_leap y \<longleftrightarrow> 4 dvd y \<and> (\<not> 100 dvd y \<or> 400 dvd y)"
    by (simp add: is_leap_def dvd_eq_mod_eq_0)
  have next_year: "days_before_year (y + 1) = y * 365 + y div 4 - y div 100 + y div 400"
    by (simp add: days_before_year_def)
  have this_year: "days_before_year y =
      (y - 1) * 365 + (y - 1) div 4 - (y - 1) div 100 + (y - 1) div 400"
    by (simp add: days_before_year_def Let_def)
  have steps: "y div 4 = (y - 1) div 4 + (if 4 dvd y then 1 else 0)"
    "y div 100 = (y - 1) div 100 + (if 100 dvd y then 1 else 0)"
    "y div 400 = (y - 1) div 400 + (if 400 dvd y then 1 else 0)"
    by (rule div_step, simp)+
  have count: "z * 365 + a - b + c = (z - 1) * 365 + a' - b' + c' +
      (if P \<and> (\<not> Q \<or> R) then 366 else 365)"
    if "a = a' + (if P then 1 else 0)" "b = b' + (if Q then 1 else 0)"
      "c = c' + (if R then 1 else 0)" "R \<Longrightarrow> Q" "Q \<Longrightarrow> P"
    for a b c a' b' c' z :: int and P Q R
    using that by (cases P; cases Q; cases R) simp_all
  show ?thesis
    unfolding next_year this_year leap by (rule count [OF steps dvd])
qed

lemma days_before_year_mono_365: "days_before_year y + 365 \<le> days_before_year (y + 1)"
  by (simp add: days_before_year_step)

lemma days_before_year_leap_366: "days_before_year (y + 1) \<le> days_before_year y + 366"
  by (simp add: days_before_year_step)

lemma days_before_year_mono: "y < y' \<Longrightarrow> days_before_year (y + 1) \<le> days_before_year y'"
proof -
  have "days_before_year (y + 1) \<le> days_before_year (y + 1 + int k)" for k
  proof (induction k)
    case (Suc k)
    then show ?case using days_before_year_mono_365 [of "y + 1 + int k"]
      by (simp add: algebra_simps)
  qed simp
  from this [of "nat (y' - y - 1)"] show "y < y' \<Longrightarrow> ?thesis" by simp
qed

lemma ord2year_bounds:
  "days_before_year (ord2year d) < d \<and> d \<le> days_before_year (ord2year d + 1)"
proof -
  define n where "n = d - 1"
  define a where "a = n div 146097"
  define r where "r = n mod 146097"
  define b where "b = r div 36524"
  define r2 where "r2 = r mod 36524"
  define c where "c = r2 div 1461"
  define r3 where "r3 = r2 mod 1461"
  define e where "e = r3 div 365"
  define r4 where "r4 = r3 mod 365"
  have d: "d = 146097 * a + 36524 * b + 1461 * c + 365 * e + r4 + 1"
    unfolding n_def a_def b_def c_def e_def r_def r2_def r3_def r4_def by simp
  have r: "0 \<le> r" "r < 146097" "0 \<le> r2" "r2 < 36524" "0 \<le> r3" "r3 < 1461" "0 \<le> r4" "r4 < 365"
    unfolding r_def r2_def r3_def r4_def by simp_all
  have eqs: "r = 36524 * b + r2" "r2 = 1461 * c + r3" "r3 = 365 * e + r4"
    unfolding b_def c_def e_def r2_def r3_def r4_def by simp_all
  have ge: "0 \<le> b" "0 \<le> c" "0 \<le> e" "b \<le> 4" "c \<le> 24" "e \<le> 4" using r eqs by linarith+
  have y: "ord2year d = (if e = 4 \<or> b = 4 then 400 * a + 100 * b + 4 * c + e
      else 400 * a + 100 * b + 4 * c + e + 1)"
    unfolding ord2year_def Let_def n_def a_def b_def c_def e_def r_def r2_def r3_def by simp
  consider (regular) "b \<le> 3" "e \<le> 3" | (day366) "b \<le> 3" "e = 4" | (cycle) "b = 4"
    using ge by linarith
  then show ?thesis
  proof cases
    case regular
    have yr: "ord2year d = 400 * a + 100 * b + 4 * c + e + 1" using regular y by simp
    have "days_before_year (ord2year d) = 146097 * a + 36524 * b + 1461 * c + 365 * e"
      unfolding yr by (rule days_before_year_blocks) (use regular ge in simp_all)
    then show ?thesis
      using days_before_year_mono_365 [of "ord2year d"] d r by simp
  next
    case day366
    then have "c \<le> 23" and r4: "r4 = 0" using r eqs ge by linarith+
    have yr: "ord2year d = 400 * a + 100 * b + 4 * c + 3 + 1" using day366 y by simp
    have yr1: "ord2year d + 1 = 400 * a + 100 * b + 4 * (c + 1) + 0 + 1" using day366 y by simp
    have "days_before_year (ord2year d) = 146097 * a + 36524 * b + 1461 * c + 365 * 3"
      unfolding yr by (rule days_before_year_blocks) (use day366 ge in simp_all)
    moreover have "days_before_year (ord2year d + 1) = 146097 * a + 36524 * b + 1461 * (c + 1) + 365 * 0"
      unfolding yr1 by (rule days_before_year_blocks) (use day366 ge \<open>c \<le> 23\<close> in simp_all)
    ultimately show ?thesis using d day366 r4 by simp
  next
    case cycle
    then have z: "c = 0" "e = 0" "r4 = 0" using r eqs ge by linarith+
    have yr: "ord2year d = 400 * a + 100 * 3 + 4 * 24 + 3 + 1" using cycle y z by simp
    have yr1: "ord2year d + 1 = 400 * (a + 1) + 100 * 0 + 4 * 0 + 0 + 1" using cycle y z by simp
    have "days_before_year (ord2year d) = 146097 * a + 36524 * 3 + 1461 * 24 + 365 * 3"
      unfolding yr by (rule days_before_year_blocks) simp_all
    moreover have "days_before_year (ord2year d + 1) = 146097 * (a + 1) + 36524 * 0 + 1461 * 0 + 365 * 0"
      unfolding yr1 by (rule days_before_year_blocks) simp_all
    ultimately show ?thesis using d cycle z by simp
  qed
qed

lemma ord2year_mono: "d \<le> d' \<Longrightarrow> ord2year d \<le> ord2year d'"
  using ord2year_bounds [of d] ord2year_bounds [of d'] days_before_year_mono [of "ord2year d'" "ord2year d"]
  by linarith

section \<open>The ISO calendar\<close>

definition isoweek1monday :: "int \<Rightarrow> date" where
  "isoweek1monday y =
     (let firstday = ymd2ord y 1 1; firstweekday = (firstday + 6) mod 7;
          monday = firstday - firstweekday
      in if 3 < firstweekday then monday + 7 else monday)"

text \<open>The ISO year and week of a date, the first two components of \<open>isocalendar\<close>.\<close>

definition iso_week :: "date \<Rightarrow> int \<times> int" where
  "iso_week d =
     (let y = ord2year d; week = (d - isoweek1monday y) div 7
      in if week < 0 then (y - 1, (d - isoweek1monday (y - 1)) div 7 + 1)
         else if 52 \<le> week \<and> isoweek1monday (y + 1) \<le> d then (y + 1, 0 + 1)
         else (y, week + 1))"

text \<open>Days of one Monday-to-Sunday week have the same number.\<close>

definition monday_week :: "date \<Rightarrow> int" where
  "monday_week d = (d - 1) div 7"

lemma isoweek1monday_near:
  "days_before_year y - 2 \<le> isoweek1monday y \<and> isoweek1monday y \<le> days_before_year y + 4"
  unfolding isoweek1monday_def ymd2ord_def days_before_month_def Let_def by simp presburger

lemma isoweek1monday_monday: "isoweek1monday y mod 7 = 1"
  unfolding isoweek1monday_def Let_def by simp presburger

lemma isoweek1monday_step:
  "isoweek1monday y + 364 \<le> isoweek1monday (y + 1) \<and> isoweek1monday (y + 1) \<le> isoweek1monday y + 371"
proof -
  have "isoweek1monday (y + 1) - isoweek1monday y \<ge> 359"
    using isoweek1monday_near [of y] isoweek1monday_near [of "y + 1"] days_before_year_mono_365 [of y]
    by linarith
  moreover have "isoweek1monday (y + 1) - isoweek1monday y \<le> 372"
    using isoweek1monday_near [of y] isoweek1monday_near [of "y + 1"] days_before_year_leap_366 [of y]
    by linarith
  ultimately show ?thesis
    using isoweek1monday_monday [of y] isoweek1monday_monday [of "y + 1"] by presburger
qed

lemma isoweek1monday_mono: "y < y' \<Longrightarrow> isoweek1monday (y + 1) \<le> isoweek1monday y'"
proof -
  have "isoweek1monday (y + 1) \<le> isoweek1monday (y + 1 + int k)" for k
  proof (induction k)
    case (Suc k)
    then show ?case using isoweek1monday_step [of "y + 1 + int k"] by (simp add: algebra_simps)
  qed simp
  from this [of "nat (y' - y - 1)"] show "y < y' \<Longrightarrow> ?thesis" by simp
qed

text \<open>A date lies in its ISO year, and its week counts the Mondays from the first one.\<close>

lemma iso_week_bounds:
  obtains y w where "iso_week d = (y, w)" and "isoweek1monday y \<le> d"
    and "d < isoweek1monday (y + 1)" and "w = (d - isoweek1monday y) div 7 + 1"
proof -
  define y where "y = ord2year d"
  have d: "days_before_year y < d" "d \<le> days_before_year (y + 1)"
    using ord2year_bounds [of d] by (simp_all add: y_def)
  note near = isoweek1monday_near [of y] isoweek1monday_near [of "y + 1"]
    isoweek1monday_near [of "y - 1"] isoweek1monday_near [of "y + 2"]
  have ylen: "days_before_year y + 365 \<le> days_before_year (y + 1)"
    "days_before_year (y - 1) + 365 \<le> days_before_year y"
    "days_before_year (y + 1) + 365 \<le> days_before_year (y + 2)"
    using days_before_year_mono_365 [of y] days_before_year_mono_365 [of "y - 1"]
      days_before_year_mono_365 [of "y + 1"] by (simp_all add: algebra_simps)
  consider (prev) "d < isoweek1monday y"
    | (nextyear) "isoweek1monday y \<le> d" "isoweek1monday (y + 1) \<le> d"
    | (within) "isoweek1monday y \<le> d" "d < isoweek1monday (y + 1)" by linarith
  then show thesis
  proof cases
    case prev
    then have "(d - isoweek1monday y) div 7 < 0" by (simp add: div_less_dividend)
    then have "iso_week d = (y - 1, (d - isoweek1monday (y - 1)) div 7 + 1)"
      by (simp add: iso_week_def Let_def y_def [symmetric])
    moreover have "isoweek1monday (y - 1) \<le> d" using d near ylen by linarith
    ultimately show thesis using prev that [of "y - 1"] by simp
  next
    case nextyear
    have "364 \<le> d - isoweek1monday y" using nextyear isoweek1monday_step [of y] by linarith
    then have "52 \<le> (d - isoweek1monday y) div 7" by linarith
    then have "iso_week d = (y + 1, 0 + 1)"
      using nextyear by (simp add: iso_week_def Let_def y_def [symmetric])
    moreover have "d - isoweek1monday (y + 1) < 7" using d near by linarith
    then have "(d - isoweek1monday (y + 1)) div 7 = 0" using nextyear by simp
    moreover have "d < isoweek1monday (y + 1 + 1)" using d near ylen by (simp add: algebra_simps)
    ultimately show thesis using nextyear that [of "y + 1" "0 + 1"] by simp
  next
    case within
    then have "0 \<le> (d - isoweek1monday y) div 7" by simp
    then have "iso_week d = (y, (d - isoweek1monday y) div 7 + 1)"
      using within by (simp add: iso_week_def Let_def y_def [symmetric])
    then show thesis using within by (intro that) simp_all
  qed
qed

lemma monday_week_shift:
  assumes "m mod 7 = 1"
  shows "monday_week d = (d - m) div 7 + monday_week m"
proof -
  define k where "k = m div 7"
  have m: "m = 7 * k + 1" using assms mult_div_mod_eq [of 7 m] by (simp add: k_def)
  have "(d - 1) div 7 = ((d - m) + 7 * k) div 7" by (simp add: m)
  then show ?thesis by (simp add: monday_week_def m)
qed

lemma iso_week_eq_iff: "iso_week d = iso_week d' \<longleftrightarrow> monday_week d = monday_week d'"
proof -
  obtain y w where 1: "iso_week d = (y, w)" "isoweek1monday y \<le> d" "d < isoweek1monday (y + 1)"
    "w = (d - isoweek1monday y) div 7 + 1" by (rule iso_week_bounds)
  obtain y' w' where 2: "iso_week d' = (y', w')" "isoweek1monday y' \<le> d'"
    "d' < isoweek1monday (y' + 1)" "w' = (d' - isoweek1monday y') div 7 + 1" by (rule iso_week_bounds)
  have m: "monday_week x = (x - isoweek1monday z) div 7 + monday_week (isoweek1monday z)" for x z
    by (rule monday_week_shift, rule isoweek1monday_monday)
  have apart: "monday_week e < monday_week e'"
    if "isoweek1monday z \<le> e'" "e < isoweek1monday z" for e e' z
    using m [of e z] m [of e' z] that pos_imp_zdiv_nonneg_iff [of 7 "e' - isoweek1monday z"]
      pos_imp_zdiv_neg_iff [of 7 "e - isoweek1monday z"] by linarith
  show ?thesis
  proof (cases y y' rule: linorder_cases)
    case less
    then have "isoweek1monday (y + 1) \<le> d'" using isoweek1monday_mono [OF less] 2 by linarith
    then have "monday_week d < monday_week d'" using 1 by (intro apart) simp_all
    with less 1 2 show ?thesis by simp
  next
    case equal
    with 1 2 m [of d y] m [of d' y] show ?thesis by simp
  next
    case greater
    then have "isoweek1monday (y' + 1) \<le> d" using isoweek1monday_mono [OF greater] 1 by linarith
    then have "monday_week d' < monday_week d" using 2 by (intro apart) simp_all
    with greater 1 2 show ?thesis by simp
  qed
qed

section \<open>Months\<close>

text \<open>Months are numbered across years; the number grows with the date.\<close>

definition month_number :: "date \<Rightarrow> int" where
  "month_number d = 12 * ord2year d + ord2month d"

lemma day_of_year_bounds:
  "0 \<le> d - 1 - days_before_year (ord2year d) \<and> d - 1 - days_before_year (ord2year d) < 366"
  using ord2year_bounds [of d] days_before_year_leap_366 [of "ord2year d"] by linarith

definition month_at :: "bool \<Rightarrow> int \<Rightarrow> int" where
  "month_at leap n =
     (let m = (n + 50) div 32 in
      if n < [0, 31, 59, 90, 120, 151, 181, 212, 243, 273, 304, 334] ! nat (m - 1) +
             (if 2 < m \<and> leap then 1 else 0) then m - 1 else m)"

lemma ord2month_at: "ord2month d = month_at (is_leap (ord2year d)) (d - 1 - days_before_year (ord2year d))"
  by (simp add: ord2month_def month_at_def days_before_month_def Let_def)

definition month_table_ok :: "bool \<Rightarrow> bool" where
  "month_table_ok leap \<longleftrightarrow> list_all (\<lambda>n. 1 \<le> month_at leap n \<and> month_at leap n \<le> 12 \<and>
     (n < 365 \<longrightarrow> month_at leap n \<le> month_at leap (n + 1))) [0..365]"

lemma month_table_true: "month_table_ok True"
  by code_simp

lemma month_table_false: "month_table_ok False"
  by code_simp

lemma month_at_table:
  assumes "0 \<le> n" and "n \<le> 365"
  shows "1 \<le> month_at leap n \<and> month_at leap n \<le> 12 \<and>
     (n < 365 \<longrightarrow> month_at leap n \<le> month_at leap (n + 1))"
proof -
  have "month_table_ok leap" using month_table_true month_table_false by (cases leap) simp_all
  then show ?thesis using assms by (simp add: month_table_ok_def list_all_iff)
qed

lemma month_at_range: "0 \<le> n \<Longrightarrow> n < 366 \<Longrightarrow> 1 \<le> month_at leap n \<and> month_at leap n \<le> 12"
  using month_at_table [of n leap] by simp

lemma month_at_mono:
  assumes "0 \<le> n" and "n \<le> n'" and "n' < 366"
  shows "month_at leap n \<le> month_at leap n'"
proof -
  have "n + int k < 366 \<Longrightarrow> month_at leap n \<le> month_at leap (n + int k)" for k
  proof (induction k)
    case (Suc k)
    have "month_at leap (n + int k) \<le> month_at leap (n + int k + 1)"
      using month_at_table [of "n + int k" leap] assms(1) Suc.prems by simp
    with Suc show ?case by (simp add: algebra_simps)
  qed simp
  from this [of "nat (n' - n)"] assms show ?thesis by simp
qed

lemma ord2month_range: "1 \<le> ord2month d \<and> ord2month d \<le> 12"
  unfolding ord2month_at using day_of_year_bounds [of d] by (intro month_at_range) simp_all

lemma month_number_mono:
  assumes "d \<le> d'"
  shows "month_number d \<le> month_number d'"
proof (cases "ord2year d = ord2year d'")
  case True
  have "ord2month d \<le> ord2month d'"
    unfolding ord2month_at True
    using assms day_of_year_bounds [of d] day_of_year_bounds [of d'] True
    by (intro month_at_mono) simp_all
  with True show ?thesis by (simp add: month_number_def)
next
  case False
  then have "ord2year d + 1 \<le> ord2year d'" using ord2year_mono [OF assms] by simp
  then show ?thesis
    using ord2month_range [of d] ord2month_range [of d'] by (simp add: month_number_def)
qed

lemma month_number_eq_iff:
  "month_number d = month_number d' \<longleftrightarrow> ord2year d = ord2year d' \<and> ord2month d = ord2month d'"
proof
  assume eq: "month_number d = month_number d'"
  then have "ord2year d = ord2year d'"
    using ord2month_range [of d] ord2month_range [of d'] unfolding month_number_def by linarith
  with eq show "ord2year d = ord2year d' \<and> ord2month d = ord2month d'" by (simp add: month_number_def)
qed (simp add: month_number_def)

lemma monday_week_mono: "d \<le> d' \<Longrightarrow> monday_week d \<le> monday_week d'"
  unfolding monday_week_def by (rule zdiv_mono1) simp_all

end
