(* ===== verification/MarketTypes.thy ===== *)
theory MarketTypes
  imports PyDecimal PyDate
begin

text \<open>
  The value types the services share: market codes and data statuses
  (\<open>app/domain/security.py\<close>, \<open>app/domain/market_data.py\<close>), daily prices and candles
  (\<open>app/domain/pricing.py\<close>), and the trading calendar (\<open>app/domain/calendar.py\<close>) with the
  weekend calendar that implements it (\<open>app/adapters/weekend_calendar.py\<close>).
\<close>

section \<open>Enumerations\<close>

datatype market_code = TWSE | TPEX

text \<open>\<open>MarketCode\<close> is a \<open>StrEnum\<close>, compared as its string.\<close>

fun market_str :: "market_code \<Rightarrow> string" where
  "market_str TWSE = ''TWSE''"
| "market_str TPEX = ''TPEX''"

lemma market_str_inj: "market_str a = market_str b \<Longrightarrow> a = b"
  by (cases a; cases b) simp_all

instantiation market_code :: linorder
begin

definition less_eq_market_code :: "market_code \<Rightarrow> market_code \<Rightarrow> bool" where
  "less_eq_market_code a b \<longleftrightarrow> market_str a \<le> market_str b"

definition less_market_code :: "market_code \<Rightarrow> market_code \<Rightarrow> bool" where
  "less_market_code a b \<longleftrightarrow> market_str a < market_str b"

instance
  by standard (auto simp: less_eq_market_code_def less_market_code_def intro: market_str_inj)

end

lemma tpex_before_twse: "TPEX < TWSE"
  by (simp add: less_market_code_def less_char_def)

datatype data_status = LIVE | DELAYED | PRELIMINARY | FINAL | STALE | PARTIAL | UNAVAILABLE

datatype price_basis = RAW | ADJUSTED

datatype candle_interval = DAY | WEEK | MONTH

section \<open>Prices\<close>

record security_key =
  sk_market :: market_code
  sk_code :: string

record daily_price_record =
  dp_security :: security_key
  dp_trade_date :: date
  dp_open :: "decimal option"
  dp_high :: "decimal option"
  dp_low :: "decimal option"
  dp_close :: "decimal option"
  dp_adjusted_open :: "decimal option"
  dp_adjusted_high :: "decimal option"
  dp_adjusted_low :: "decimal option"
  dp_adjusted_close :: "decimal option"
  dp_volume_shares :: "int option"
  dp_turnover_amount :: "decimal option"
  dp_source_code :: string
  dp_as_of :: instant
  dp_received_at :: instant
  dp_data_status :: data_status
  dp_source_revision :: "string option"
  dp_missing_reason :: "string option"

definition has_trade :: "daily_price_record \<Rightarrow> bool" where
  "has_trade r \<longleftrightarrow> list_all is_some [dp_open r, dp_high r, dp_low r, dp_close r]"

record candle =
  c_trade_date :: date
  c_open :: decimal
  c_high :: decimal
  c_low :: decimal
  c_close :: decimal
  c_volume_shares :: "int option"
  c_turnover_amount :: "decimal option"

text \<open>A candle whose close lies in its range.\<close>

definition candle_ok :: "candle \<Rightarrow> bool" where
  "candle_ok c \<longleftrightarrow> c_low c \<le> c_close c \<and> c_close c \<le> c_high c"

section \<open>The trading calendar\<close>

text \<open>
  What the clients of a calendar need: the previous trading day is the last trading day
  before the given date.
\<close>

locale trading_calendar =
  fixes is_trading_day :: "date \<Rightarrow> bool"
    and previous_trading_day :: "date \<Rightarrow> date"
  assumes previous_is_trading: "is_trading_day (previous_trading_day d)"
    and previous_before: "previous_trading_day d < d"
    and previous_last: "previous_trading_day d < e \<Longrightarrow> e < d \<Longrightarrow> \<not> is_trading_day e"
begin

lemma previous_unique:
  assumes "is_trading_day p" and "p < d" and "\<And>e. p < e \<Longrightarrow> e < d \<Longrightarrow> \<not> is_trading_day e"
  shows "previous_trading_day d = p"
proof (rule antisym)
  show "previous_trading_day d \<le> p"
    using assms(3) previous_is_trading previous_before not_le by blast
  show "p \<le> previous_trading_day d"
    using assms(1,2) previous_last not_le by blast
qed

end

definition is_trading_day :: "date \<Rightarrow> bool" where
  "is_trading_day d \<longleftrightarrow> weekday d < 5"

text \<open>The \<open>while\<close> loop of \<open>previous_trading_day\<close>; a week ahead at most there is a weekday.\<close>

function back_to_trading :: "date \<Rightarrow> date" where
  "back_to_trading c = (if is_trading_day c then c else back_to_trading (c - 1))"
  by pat_completeness auto
termination
  by (relation "measure (\<lambda>c. nat (weekday c))") (auto simp: is_trading_day_def weekday_def, presburger)

declare back_to_trading.simps [simp del]

definition previous_trading_day :: "date \<Rightarrow> date" where
  "previous_trading_day d = back_to_trading (d - 1)"

lemma back_to_trading_props:
  "is_trading_day (back_to_trading c) \<and> back_to_trading c \<le> c \<and>
   (\<forall>e. back_to_trading c < e \<and> e \<le> c \<longrightarrow> \<not> is_trading_day e)"
proof (induction c rule: back_to_trading.induct)
  case (1 c)
  show ?case
  proof (cases "is_trading_day c")
    case True
    then show ?thesis by (auto simp: back_to_trading.simps [of c])
  next
    case False
    with 1 show ?thesis
      by (auto simp: back_to_trading.simps [of c]) (metis linorder_not_le order_antisym_conv zle_diff1_eq)
  qed
qed

interpretation weekend: trading_calendar is_trading_day previous_trading_day
proof
  fix d e :: date
  show "is_trading_day (previous_trading_day d)"
    using back_to_trading_props by (simp add: previous_trading_day_def)
  show "previous_trading_day d < d"
    using back_to_trading_props [of "d - 1"] by (simp add: previous_trading_day_def)
  show "previous_trading_day d < e \<Longrightarrow> e < d \<Longrightarrow> \<not> is_trading_day e"
    using back_to_trading_props [of "d - 1"] by (simp add: previous_trading_day_def)
qed

end
