(* ===== verification/Candles.thy ===== *)
theory Candles
  imports MarketTypes
begin

text \<open>
  Aggregation of daily prices into candles (\<open>app/services/candle_aggregation.py\<close>): the choice of
  price basis, the grouping of days into ISO weeks or calendar months in a dictionary with
  insertion order, and the merge of a group into one candle. The main lemma is that the groups
  are the consecutive runs of the sorted days.
\<close>

section \<open>Definitions\<close>

definition price_candle :: "price_basis \<Rightarrow> daily_price_record \<Rightarrow> candle option" where
  "price_candle basis r =
     (let values = (if basis = RAW then (dp_open r, dp_high r, dp_low r, dp_close r)
                    else (dp_adjusted_open r, dp_adjusted_high r, dp_adjusted_low r, dp_adjusted_close r))
      in case values of
        (Some opn, Some high, Some low, Some cls) \<Rightarrow>
          Some \<lparr>c_trade_date = dp_trade_date r, c_open = opn, c_high = high, c_low = low, c_close = cls,
                c_volume_shares = dp_volume_shares r, c_turnover_amount = dp_turnover_amount r\<rparr>
      | _ \<Rightarrow> None)"

definition daily_candles :: "daily_price_record list \<Rightarrow> price_basis \<Rightarrow> candle list" where
  "daily_candles records basis = List.map_filter (price_candle basis) (sort_key dp_trade_date records)"

text \<open>The key of a candle's group: ISO year and week, or year and month.\<close>

definition period_key :: "candle_interval \<Rightarrow> candle \<Rightarrow> int \<times> int" where
  "period_key interval c =
     (if interval = WEEK then iso_week (c_trade_date c)
      else (ord2year (c_trade_date c), ord2month (c_trade_date c)))"

text \<open>\<open>groups[key].append(candle)\<close> for a \<open>defaultdict(list)\<close>.\<close>

definition group_step :: "('a \<Rightarrow> 'k) \<Rightarrow> ('k \<times> 'a list) list \<Rightarrow> 'a \<Rightarrow> ('k \<times> 'a list) list" where
  "group_step key groups x =
     AList.update (key x) ((case map_of groups (key x) of None \<Rightarrow> [] | Some xs \<Rightarrow> xs) @ [x]) groups"

definition group_by :: "('a \<Rightarrow> 'k) \<Rightarrow> 'a list \<Rightarrow> ('k \<times> 'a list) list" where
  "group_by key xs = foldl (group_step key) [] xs"

definition volume_sum :: "int option list \<Rightarrow> int option" where
  "volume_sum vs = (if list_ex (\<lambda>v. v = None) vs then None else Some (sum_list (map the vs)))"

definition turnover_sum :: "decimal option list \<Rightarrow> decimal option" where
  "turnover_sum vs = (if list_ex (\<lambda>v. v = None) vs then None else Some (dsum prec (map the vs)))"

definition merge_candles :: "candle list \<Rightarrow> candle result" where
  "merge_candles cs =
     (if cs = [] then Inl IndexError
      else rbind (py_max (map c_high cs)) (\<lambda>high.
           rbind (py_min (map c_low cs)) (\<lambda>low.
             Inr \<lparr>c_trade_date = c_trade_date (last cs), c_open = c_open (hd cs), c_high = high,
                  c_low = low, c_close = c_close (last cs),
                  c_volume_shares = volume_sum (map c_volume_shares cs),
                  c_turnover_amount = turnover_sum (map c_turnover_amount cs)\<rparr>)))"

definition aggregate :: "daily_price_record list \<Rightarrow> candle_interval \<Rightarrow> price_basis \<Rightarrow> candle list result" where
  "aggregate records interval basis =
     (let daily = daily_candles records basis in
      if interval = DAY then Inr daily
      else rmap (\<lambda>(k, cs). merge_candles cs) (group_by (period_key interval) daily))"

definition range_days :: "(string \<times> int) list" where
  "range_days = [(''1D'', 10), (''5D'', 20), (''10D'', 30), (''30D'', 60), (''1Y'', 370), (''5Y'', 1835)]"

text \<open>Dates before the first of January of year 1 do not exist.\<close>

definition range_start :: "date \<Rightarrow> string \<Rightarrow> date result" where
  "range_start end_date range_name =
     (case map_of range_days range_name of
        None \<Rightarrow> Inl KeyError
      | Some days \<Rightarrow> if end_date - days < 1 then Inl OverflowError else Inr (end_date - days))"

section \<open>Groups of a sorted list are its runs\<close>

lemma update_append_absent:
  "k \<notin> set (map fst gs) \<Longrightarrow> AList.update k v (gs @ hs) = gs @ AList.update k v hs"
  by (induction gs) auto

lemma group_by_snoc: "group_by key (xs @ [x]) = group_step key (group_by key xs) x"
  by (simp add: group_by_def)

lemma group_by_runs:
  fixes m :: "'a \<Rightarrow> int"
  assumes "\<And>x y. key x = key y \<longleftrightarrow> m x = m y" and "sorted (map m xs)"
  shows "concat (map snd (group_by key xs)) = xs \<and> distinct (map fst (group_by key xs)) \<and>
    (\<forall>(k, g) \<in> set (group_by key xs). g \<noteq> [] \<and> (\<forall>x \<in> set g. key x = k))"
  using assms(2)
proof (induction xs rule: rev_induct)
  case (snoc x xs)
  then have IH: "concat (map snd (group_by key xs)) = xs" "distinct (map fst (group_by key xs))"
    "\<forall>(k, g) \<in> set (group_by key xs). g \<noteq> [] \<and> (\<forall>x \<in> set g. key x = k)"
    and last_max: "\<forall>y \<in> set xs. m y \<le> m x" and srt: "sorted (map m xs)"
    by (auto simp: sorted_append)
  show ?case
  proof (cases "group_by key xs" rule: rev_cases)
    case Nil
    with IH(1) show ?thesis by (simp add: group_by_def group_step_def)
  next
    case (snoc gs last_group)
    obtain k g where lg: "last_group = (k, g)" by (cases last_group)
    with IH snoc have g: "g \<noteq> []" "\<forall>y \<in> set g. key y = k" and fresh: "k \<notin> set (map fst gs)"
      and xs: "xs = concat (map snd gs) @ g" by auto
    show ?thesis
    proof (cases "key x = k")
      case True
      then have "group_by key (xs @ [x]) = gs @ [(k, g @ [x])]"
        using fresh by (simp add: group_by_snoc snoc group_step_def lg update_append_absent map_of_append map_add_def map_of_eq_None_iff [THEN iffD2])
      with IH snoc lg True xs show ?thesis by auto
    next
      case False
      have "key x \<notin> set (map fst gs)"
      proof
        assume "key x \<in> set (map fst gs)"
        then obtain h where h: "(key x, h) \<in> set gs" by auto
        with IH(3) snoc obtain y where y: "y \<in> set h" "key y = key x" by (fastforce simp: neq_Nil_conv)
        have "y \<in> set (concat (map snd gs))" using h y by force
        then have "m y \<le> m (hd g)" using srt g(1) by (auto simp: xs sorted_append)
        moreover have "m (hd g) \<le> m x" using last_max g(1) by (simp add: xs)
        ultimately have "key (hd g) = key x" using assms(1) y by force
        with g False show False by simp
      qed
      then have absent: "key x \<notin> set (map fst (group_by key xs))" using snoc lg False by auto
      then have "group_by key (xs @ [x]) = group_by key xs @ [(key x, [x])]"
        using update_append_absent [of "key x" "group_by key xs" "[x]" "[]"]
        by (simp add: group_by_snoc group_step_def map_of_eq_None_iff [THEN iffD2])
      with IH absent show ?thesis by auto
    qed
  qed
qed (simp add: group_by_def)

section \<open>Merged candles\<close>

text \<open>The candle a group of days stands for.\<close>

definition summarises :: "candle \<Rightarrow> candle list \<Rightarrow> bool" where
  "summarises bar cs \<longleftrightarrow> cs \<noteq> [] \<and>
     c_trade_date bar = c_trade_date (last cs) \<and> c_open bar = c_open (hd cs) \<and> c_close bar = c_close (last cs) \<and>
     c_high bar \<in> c_high ` set cs \<and> c_low bar \<in> c_low ` set cs \<and>
     (\<forall>c \<in> set cs. c_high c \<le> c_high bar \<and> c_low bar \<le> c_low c) \<and>
     c_volume_shares bar = (if \<exists>c \<in> set cs. c_volume_shares c = None then None
       else Some (sum_list (map (the \<circ> c_volume_shares) cs)))"

lemma volume_sum_map:
  "volume_sum (map f cs) =
   (if \<exists>c \<in> set cs. f c = None then None else Some (sum_list (map (the \<circ> f) cs)))"
proof -
  have "list_ex (\<lambda>v. v = None) (map f cs) = (\<exists>c \<in> set cs. f c = None)" by (induction cs) auto
  then show ?thesis by (simp add: volume_sum_def)
qed

lemma merge_summarises:
  assumes "cs \<noteq> []"
  shows "\<exists>bar. merge_candles cs = Inr bar \<and> summarises bar cs"
proof -
  obtain h where h: "py_max (map c_high cs) = Inr h" "h \<in> c_high ` set cs" "\<forall>c \<in> set cs. c_high c \<le> h"
    using py_max_total [of "map c_high cs"] assms by auto
  obtain l where l: "py_min (map c_low cs) = Inr l" "l \<in> c_low ` set cs" "\<forall>c \<in> set cs. l \<le> c_low c"
    using py_min_total [of "map c_low cs"] assms by auto
  show ?thesis using assms h l
    by (simp add: merge_candles_def summarises_def volume_sum_map)
qed

text \<open>The number of a candle's period grows with its date and identifies the group.\<close>

definition period_number :: "candle_interval \<Rightarrow> candle \<Rightarrow> int" where
  "period_number interval c =
     (if interval = WEEK then monday_week (c_trade_date c) else month_number (c_trade_date c))"

lemma period_key_eq_iff: "period_key interval a = period_key interval b \<longleftrightarrow> period_number interval a = period_number interval b"
  by (simp add: period_key_def period_number_def iso_week_eq_iff month_number_eq_iff)

lemma price_candle_date: "price_candle basis r = Some c \<Longrightarrow> c_trade_date c = dp_trade_date r"
  by (auto simp: price_candle_def Let_def split: option.splits if_splits)

lemma daily_candles_sorted: "sorted (map c_trade_date (daily_candles records basis))"
proof -
  have "sorted (map dp_trade_date rs) \<Longrightarrow>
      sorted (map c_trade_date (List.map_filter (price_candle basis) rs)) \<and>
      (\<forall>c \<in> set (List.map_filter (price_candle basis) rs). \<exists>r \<in> set rs. c_trade_date c = dp_trade_date r)" for rs
  proof (induction rs)
    case (Cons r rs)
    then show ?case
      by (cases "price_candle basis r") (fastforce simp: List.map_filter_simps dest: price_candle_date)+
  qed (simp add: List.map_filter_simps)
  from this [of "sort_key dp_trade_date records"] show ?thesis by (simp add: daily_candles_def)
qed

lemma sorted_map_mono: "sorted (map f xs) \<Longrightarrow> (\<And>a b. f a \<le> f b \<Longrightarrow> g a \<le> g b) \<Longrightarrow> sorted (map g xs)"
  for f :: "'a \<Rightarrow> int" and g :: "'a \<Rightarrow> int"
  by (induction xs) auto

lemma daily_periods_sorted: "sorted (map (period_number interval) (daily_candles records basis))"
  by (rule sorted_map_mono [OF daily_candles_sorted])
    (auto simp: period_number_def monday_week_mono month_number_mono)

lemma rmap_merge:
  assumes "\<forall>(k, g) \<in> set gs. g \<noteq> []"
  shows "\<exists>bars. rmap (\<lambda>(k, cs). merge_candles cs) gs = Inr bars \<and> list_all2 summarises bars (map snd gs)"
  using assms
proof (induction gs)
  case (Cons kg gs)
  obtain k g where kg: "kg = (k, g)" by (cases kg)
  with Cons obtain bars where bars: "rmap (\<lambda>(k, cs). merge_candles cs) gs = Inr bars"
    "list_all2 summarises bars (map snd gs)" by auto
  obtain bar where "merge_candles g = Inr bar" "summarises bar g"
    using merge_summarises [of g] Cons.prems kg by auto
  with bars show ?case by (simp add: kg)
qed simp

text \<open>Groups in the order of their periods, one period each.\<close>

definition period_groups :: "candle_interval \<Rightarrow> candle list list \<Rightarrow> bool" where
  "period_groups interval groups \<longleftrightarrow>
     sorted_wrt (\<lambda>g h. \<forall>a \<in> set g. \<forall>b \<in> set h. period_number interval a < period_number interval b) groups \<and>
     (\<forall>g \<in> set groups. \<forall>a \<in> set g. \<forall>b \<in> set g. period_number interval a = period_number interval b)"

lemma period_groups_runs:
  assumes "sorted (map (period_number interval) (concat (map snd gs)))" and "distinct (map fst gs)"
    and "\<forall>(k, g) \<in> set gs. g \<noteq> [] \<and> (\<forall>x \<in> set g. period_key interval x = k)"
  shows "period_groups interval (map snd gs)"
proof -
  have "sorted_wrt (\<lambda>g h. \<forall>a \<in> set g. \<forall>b \<in> set h. period_number interval a < period_number interval b) (map snd gs)"
    using assms
  proof (induction gs)
    case (Cons kg gs)
    obtain k g where kg: "kg = (k, g)" by (cases kg)
    have "period_number interval a < period_number interval b"
      if "a \<in> set g" "h \<in> set gs" "b \<in> set (snd h)" for a b h
    proof -
      have "b \<in> set (concat (map snd gs))" using that by auto
      then have "period_number interval a \<le> period_number interval b"
        using Cons.prems(1) that(1) by (auto simp: kg sorted_append)
      moreover have "period_key interval a = k" using Cons.prems(3) that(1) by (simp add: kg)
      moreover have "period_key interval b = fst h" using Cons.prems(3) that(2,3) by (cases h) auto
      moreover have "k \<noteq> fst h" using Cons.prems(2) that(2) by (auto simp: kg)
      ultimately have "period_number interval a \<le> period_number interval b"
        and "period_key interval a \<noteq> period_key interval b" by simp_all
      moreover from this have "period_number interval a \<noteq> period_number interval b"
        using period_key_eq_iff by blast
      ultimately show ?thesis by linarith
    qed
    then have "\<forall>h \<in> set (map snd gs). \<forall>a \<in> set g. \<forall>b \<in> set h. period_number interval a < period_number interval b"
      by auto
    moreover have "sorted_wrt (\<lambda>g h. \<forall>a \<in> set g. \<forall>b \<in> set h. period_number interval a < period_number interval b) (map snd gs)"
      using Cons.prems by (intro Cons.IH) (simp_all add: kg sorted_append)
    ultimately show ?case by (simp add: kg)
  qed simp
  moreover have "\<forall>g \<in> set (map snd gs). \<forall>a \<in> set g. \<forall>b \<in> set g. period_number interval a = period_number interval b"
    using assms(3) by (auto simp flip: period_key_eq_iff)
  ultimately show ?thesis by (simp only: period_groups_def)
qed

lemma aggregate_groups:
  assumes "interval \<noteq> DAY"
  shows "\<exists>bars groups. aggregate records interval basis = Inr bars \<and>
    concat groups = daily_candles records basis \<and> period_groups interval groups \<and>
    list_all2 summarises bars groups"
proof -
  define gs where "gs = group_by (period_key interval) (daily_candles records basis)"
  have runs: "concat (map snd gs) = daily_candles records basis" "distinct (map fst gs)"
    "\<forall>(k, g) \<in> set gs. g \<noteq> [] \<and> (\<forall>x \<in> set g. period_key interval x = k)"
    using group_by_runs [of "period_key interval" "period_number interval", OF period_key_eq_iff
        daily_periods_sorted] by (auto simp: gs_def)
  obtain bars where "rmap (\<lambda>(k, cs). merge_candles cs) gs = Inr bars" "list_all2 summarises bars (map snd gs)"
    using rmap_merge [of gs] runs(3) by auto
  moreover have "period_groups interval (map snd gs)"
    by (rule period_groups_runs [OF _ runs(2,3)]) (simp add: runs(1) daily_periods_sorted)
  ultimately show ?thesis using runs(1) assms by (auto simp: aggregate_def gs_def Let_def)
qed

section \<open>Properties\<close>

text \<open>
  Weekly and monthly aggregation never raises and partitions the priced days, in date order,
  into one consecutive run per Monday-to-Sunday week (also across new year, where the ISO year
  differs from the calendar year) or per calendar month; each bar opens with the first and closes
  with the last day of its run, spans exactly its highs and lows, and has a volume exactly when
  every day has one.
\<close>

lemma aggregate_bars:
  assumes "interval = WEEK \<or> interval = MONTH"
  shows "\<exists>bars groups. aggregate records interval basis = Inr bars \<and>
    concat groups = daily_candles records basis \<and> period_groups interval groups \<and>
    list_all2 summarises bars groups"
  by (rule aggregate_groups) (use assms in auto)

definition example_record :: "date \<Rightarrow> decimal \<Rightarrow> daily_price_record" where
  "example_record d p = \<lparr>dp_security = \<lparr>sk_market = TWSE, sk_code = ''2330''\<rparr>, dp_trade_date = d,
     dp_open = Some p, dp_high = Some (p + 2), dp_low = Some (p - 1), dp_close = Some (p + 1),
     dp_adjusted_open = None, dp_adjusted_high = None, dp_adjusted_low = None, dp_adjusted_close = None,
     dp_volume_shares = Some 1000, dp_turnover_amount = None, dp_source_code = ''TWSE'', dp_as_of = 0,
     dp_received_at = 0, dp_data_status = FINAL, dp_source_revision = None, dp_missing_reason = None\<rparr>"

text \<open>The 30th of December 2024 is a Monday; the days around new year are one week.\<close>

definition new_year_records :: "daily_price_record list" where
  "new_year_records = [example_record (ymd2ord 2025 1 3) 30, example_record (ymd2ord 2024 12 27) 10,
     example_record (ymd2ord 2024 12 30) 20]"

lemma aggregate_bars_witness:
  "\<exists>bars groups. aggregate new_year_records WEEK RAW = Inr bars \<and>
    concat groups = daily_candles new_year_records RAW \<and> period_groups WEEK groups \<and>
    list_all2 summarises bars groups"
  by (rule aggregate_bars) simp

lemma summarises_ok:
  assumes "summarises bar cs" and "\<forall>c \<in> set cs. c_low c \<le> c_open c \<and> c_open c \<le> c_high c \<and> candle_ok c"
  shows "c_low bar \<le> c_open bar \<and> c_open bar \<le> c_high bar \<and> candle_ok bar"
proof -
  have "hd cs \<in> set cs" "last cs \<in> set cs" using assms(1) by (auto simp: summarises_def)
  then have "c_low bar \<le> c_low (hd cs)" "c_high (hd cs) \<le> c_high bar"
    "c_low bar \<le> c_low (last cs)" "c_high (last cs) \<le> c_high bar"
    "c_low (hd cs) \<le> c_open (hd cs)" "c_open (hd cs) \<le> c_high (hd cs)" "candle_ok (last cs)"
    using assms by (auto simp: summarises_def)
  moreover have "c_open bar = c_open (hd cs)" "c_close bar = c_close (last cs)"
    using assms(1) by (auto simp: summarises_def)
  ultimately show ?thesis unfolding candle_ok_def by (metis order_trans)
qed

text \<open>
  Aggregation keeps bars well-formed: when open and close of every priced day lie between its
  low and high, so do those of every bar, and no bar is invented (at most one per priced day).
\<close>

lemma aggregate_keeps_range:
  assumes "aggregate records interval basis = Inr bars"
    and "\<forall>c \<in> set (daily_candles records basis). c_low c \<le> c_open c \<and> c_open c \<le> c_high c \<and> candle_ok c"
  shows "(\<forall>bar \<in> set bars. c_low bar \<le> c_open bar \<and> c_open bar \<le> c_high bar \<and> candle_ok bar) \<and>
    length bars \<le> length (daily_candles records basis)"
proof (cases "interval = DAY")
  case True
  with assms show ?thesis by (auto simp: aggregate_def Let_def)
next
  case False
  from aggregate_groups [OF this, of records basis] assms(1) obtain groups where
    groups: "concat groups = daily_candles records basis" and all: "list_all2 summarises bars groups"
    by auto
  have "c_low bar \<le> c_open bar \<and> c_open bar \<le> c_high bar \<and> candle_ok bar" if "bar \<in> set bars" for bar
  proof -
    from that all obtain g where g: "summarises bar g" "g \<in> set groups"
      by (metis in_set_conv_nth list_all2_conv_all_nth)
    then have "set g \<subseteq> set (daily_candles records basis)" using groups by (auto simp flip: groups)
    with summarises_ok [OF g(1)] assms(2) show ?thesis by blast
  qed
  moreover have "list_all2 summarises bs gs \<Longrightarrow> length bs \<le> length (concat gs)" for bs gs
    by (induction rule: list_all2_induct) (auto simp: summarises_def Suc_le_eq neq_Nil_conv)
  ultimately show ?thesis using groups all by metis
qed

lemma aggregate_keeps_range_witness:
  "\<exists>bars. aggregate new_year_records WEEK RAW = Inr bars \<and>
    (\<forall>bar \<in> set bars. c_low bar \<le> c_open bar \<and> c_open bar \<le> c_high bar \<and> candle_ok bar) \<and> length bars \<le> 3"
proof -
  have price: "price_candle RAW (example_record d p) =
      Some \<lparr>c_trade_date = d, c_open = p, c_high = p + 2, c_low = p - 1, c_close = p + 1,
            c_volume_shares = Some 1000, c_turnover_amount = None\<rparr>" for d p
    by (simp add: price_candle_def example_record_def)
  have days: "ymd2ord 2024 12 27 = 739247" "ymd2ord 2024 12 30 = 739250" "ymd2ord 2025 1 3 = 739254"
    by (simp_all add: ymd2ord_def days_before_year_def days_before_month_def is_leap_def)
  have sorted_days: "dp_trade_date (example_record d p) = d" for d p by (simp add: example_record_def)
  have daily: "daily_candles new_year_records RAW =
      map (\<lambda>(d, p). \<lparr>c_trade_date = d, c_open = p, c_high = p + 2, c_low = p - 1, c_close = p + 1,
            c_volume_shares = Some 1000, c_turnover_amount = None\<rparr>) [(739247, 10), (739250, 20), (739254, 30)]"
    by (simp add: daily_candles_def new_year_records_def sort_key_def sorted_days days List.map_filter_simps price)
  obtain bars where bars: "aggregate new_year_records WEEK RAW = Inr bars"
    using aggregate_groups [of WEEK new_year_records RAW] by auto
  from aggregate_keeps_range [OF bars] bars show ?thesis by (simp add: daily candle_ok_def)
qed

text \<open>The default price history reaches back at least the named number of days.\<close>

lemma range_start_before:
  "range_start d r = Inr s \<Longrightarrow> s < d \<and> 1 \<le> s"
  by (auto simp: range_start_def range_days_def split: option.splits if_splits)

end
