(* ===== verification/Technicals.thy ===== *)
theory Technicals
  imports MarketTypes
begin

text \<open>
  The technical indicators of \<open>app/services/technical_indicators.py\<close>, one definition per
  function, over the 28-digit arithmetic of \<open>PyDecimal\<close>. A period is a natural number: the
  parameters are validated to be positive before any indicator runs. The locale \<open>indicator\<close>
  states what the service relies on: one value per input, and no value depends on later inputs.
\<close>

section \<open>What an indicator promises\<close>

locale indicator =
  fixes F :: "'a list \<Rightarrow> 'b list result"
  assumes F_length: "F xs = Inr vs \<Longrightarrow> length vs = length xs"
    and F_prefix: "F (xs @ ys) = Inr vs \<Longrightarrow> F xs = Inr (take (length xs) vs)"
begin

text \<open>The value at an index is the same for every continuation of the data up to it.\<close>

lemma F_no_lookahead:
  assumes "F (xs @ ys) = Inr vs" and "F (xs @ zs) = Inr ws" and "i < length xs"
  shows "vs ! i = ws ! i"
proof -
  have "take (length xs) vs = take (length xs) ws"
    using F_prefix [OF assms(1)] F_prefix [OF assms(2)] by simp
  then show ?thesis by (metis assms(3) nth_take)
qed

end

lemma indexed_prefix:
  assumes "rmap (f (xs @ ys)) [0..<length (xs @ ys)] = Inr vs"
    and "\<And>i. i < length xs \<Longrightarrow> f (xs @ ys) i = f xs i"
  shows "rmap (f xs) [0..<length xs] = Inr (take (length xs) vs)"
proof -
  have "[0..<length (xs @ ys)] = [0..<length xs] @ [length xs..<length xs + length ys]"
    using upt_add_eq_append [of 0 "length xs" "length ys"] by simp
  with assms(1) obtain us ws where us: "rmap (f (xs @ ys)) [0..<length xs] = Inr us"
    and vs: "vs = us @ ws" by (auto simp: rmap_append rbind_eq_Inr)
  have "length us = length xs" using rmap_length [OF us] by simp
  moreover have "rmap (f (xs @ ys)) [0..<length xs] = rmap (f xs) [0..<length xs]"
    by (rule rmap_cong) (auto intro: assms(2))
  ultimately show ?thesis using us vs by simp
qed

section \<open>Averages\<close>

definition mean :: "nat \<Rightarrow> decimal list \<Rightarrow> decimal result" where
  "mean p values = ddiv p (dsum p values) (of_nat (length values))"

definition sma :: "nat \<Rightarrow> decimal list \<Rightarrow> decimal option list result" where
  "sma period values =
     rmap (\<lambda>index. if index + 1 < period then Inr None
                   else rbind (mean prec (window period index values)) (\<lambda>m. Inr (Some m)))
       [0..<length values]"

text \<open>The smoothing loop of \<open>ema\<close>, also used for the signal line of \<open>macd\<close>.\<close>

definition smooth :: "decimal \<Rightarrow> decimal \<Rightarrow> decimal \<Rightarrow> decimal" where
  "smooth alpha current v = dadd prec (dmul prec (dsub prec v current) alpha) current"

fun ema_loop :: "decimal \<Rightarrow> decimal \<Rightarrow> decimal list \<Rightarrow> decimal list" where
  "ema_loop alpha current [] = []"
| "ema_loop alpha current (v # vs) =
     (let c = smooth alpha current v in c # ema_loop alpha c vs)"

definition ema :: "nat \<Rightarrow> decimal list \<Rightarrow> decimal option list result" where
  "ema period values =
     (if length values < period then Inr (replicate (length values) None)
      else rbind (mean prec (take period values)) (\<lambda>seed.
           rbind (ddiv prec 2 (of_nat (period + 1))) (\<lambda>alpha.
             Inr (replicate (period - 1) None @
                  map Some (seed # ema_loop alpha seed (drop period values))))))"

section \<open>Relative strength index\<close>

fun differences :: "decimal list \<Rightarrow> decimal list" where
  "differences (a # b # rest) = dsub prec b a # differences (b # rest)"
| "differences _ = []"

definition rsi_value :: "decimal \<Rightarrow> decimal \<Rightarrow> decimal result" where
  "rsi_value avg_gain avg_loss =
     (if avg_loss = 0 then Inr 100
      else rbind (ddiv prec avg_gain avg_loss) (\<lambda>rs.
           rbind (ddiv prec 100 (dadd prec 1 rs)) (\<lambda>q. Inr (dsub prec 100 q))))"

text \<open>One Wilder step: \<open>(avg * (period - 1) + x) / period\<close>.\<close>

definition wilder :: "nat \<Rightarrow> decimal \<Rightarrow> decimal \<Rightarrow> decimal result" where
  "wilder period avg x =
     ddiv prec (dadd prec (dmul prec avg (of_int (int period - 1))) x) (of_nat period)"

fun rsi_loop :: "nat \<Rightarrow> decimal \<Rightarrow> decimal \<Rightarrow> decimal list \<Rightarrow> decimal list result" where
  "rsi_loop period avg_gain avg_loss [] = Inr []"
| "rsi_loop period avg_gain avg_loss (change # rest) =
     rbind (wilder period avg_gain (max change 0)) (\<lambda>g.
     rbind (wilder period avg_loss (max (dneg prec change) 0)) (\<lambda>l.
     rbind (rsi_value g l) (\<lambda>v.
     rbind (rsi_loop period g l rest) (\<lambda>vs. Inr (v # vs)))))"

definition rsi :: "nat \<Rightarrow> decimal list \<Rightarrow> decimal option list result" where
  "rsi period values =
     (if length values \<le> period then Inr (replicate (length values) None)
      else let changes = differences values in
        rbind (mean prec (map (\<lambda>c. max c 0) (take period changes))) (\<lambda>avg_gain.
        rbind (mean prec (map (\<lambda>c. max (dneg prec c) 0) (take period changes))) (\<lambda>avg_loss.
        rbind (rsi_value avg_gain avg_loss) (\<lambda>v.
        rbind (rsi_loop period avg_gain avg_loss (drop period changes)) (\<lambda>vs.
          Inr (replicate period None @ map Some (v # vs)))))))"

section \<open>MACD\<close>

definition option_sub :: "decimal option \<Rightarrow> decimal option \<Rightarrow> decimal option" where
  "option_sub a b = (case (a, b) of (Some x, Some y) \<Rightarrow> Some (dsub prec x y) | _ \<Rightarrow> None)"

text \<open>The pairs \<open>(index, value)\<close> of the line that hold a value.\<close>

definition available :: "decimal option list \<Rightarrow> (nat \<times> decimal) list" where
  "available line = map (\<lambda>(i, v). (i, the v)) (filter (\<lambda>(i, v). is_some v) (zip [0..<length line] line))"

fun signal_loop :: "decimal \<Rightarrow> decimal \<Rightarrow> (nat \<times> decimal) list \<Rightarrow> decimal option list \<Rightarrow> decimal option list" where
  "signal_loop alpha current [] signal = signal"
| "signal_loop alpha current ((index, v) # rest) signal =
     (let c = smooth alpha current v in signal_loop alpha c rest (signal[index := Some c]))"

definition macd_signal :: "nat \<Rightarrow> decimal option list \<Rightarrow> decimal option list result" where
  "macd_signal signal_period line =
     (let signal = replicate (length line) None; av = available line in
      if length av < signal_period then Inr signal
      else if signal_period = 0 then (if av = [] then Inl IndexError else Inl DecimalError)
      else rbind (mean prec (map snd (take signal_period av))) (\<lambda>seed.
           rbind (ddiv prec 2 (of_nat (signal_period + 1))) (\<lambda>alpha.
             Inr (signal_loop alpha seed (drop signal_period av)
                    (signal[fst (av ! (signal_period - 1)) := Some seed])))))"

definition macd :: "nat \<Rightarrow> nat \<Rightarrow> nat \<Rightarrow> decimal list \<Rightarrow>
    (decimal option list \<times> decimal option list \<times> decimal option list) result" where
  "macd fast_period slow_period signal_period values =
     rbind (ema fast_period values) (\<lambda>fast.
     rbind (ema slow_period values) (\<lambda>slow.
       let line = map2 option_sub fast slow in
       rbind (macd_signal signal_period line) (\<lambda>signal.
         Inr (line, signal, map2 option_sub line signal))))"

section \<open>Stochastic oscillator\<close>

definition highest_lowest :: "nat \<Rightarrow> nat \<Rightarrow> candle list \<Rightarrow> (decimal \<times> decimal) result" where
  "highest_lowest period index candles =
     (let win = window period index candles in
      rbind (py_max (map c_high win)) (\<lambda>highest.
      rbind (py_min (map c_low win)) (\<lambda>lowest. Inr (highest, lowest))))"

text \<open>The smoothing of \<open>k\<close> and \<open>d\<close>: \<open>(x * (n - 1) + v) / n\<close>, as in \<open>wilder\<close>.\<close>

fun stochastic_loop :: "nat \<Rightarrow> nat \<Rightarrow> nat \<Rightarrow> candle list \<Rightarrow> nat list \<Rightarrow> decimal \<Rightarrow> decimal \<Rightarrow>
    (decimal option \<times> decimal option) list result" where
  "stochastic_loop period k_smoothing d_smoothing candles [] k d = Inr []"
| "stochastic_loop period k_smoothing d_smoothing candles (index # rest) k d =
     rbind (highest_lowest period index candles) (\<lambda>(highest, lowest).
       if highest = lowest
       then rbind (stochastic_loop period k_smoothing d_smoothing candles rest k d) (\<lambda>vs.
         Inr ((None, None) # vs))
       else
         rbind (ddiv prec (dsub prec (c_close (candles ! index)) lowest) (dsub prec highest lowest)) (\<lambda>r.
         rbind (wilder k_smoothing k (dmul prec r 100)) (\<lambda>k'.
         rbind (wilder d_smoothing d k') (\<lambda>d'.
         rbind (stochastic_loop period k_smoothing d_smoothing candles rest k' d') (\<lambda>vs.
           Inr ((Some k', Some d') # vs))))))"

definition stochastic :: "nat \<Rightarrow> nat \<Rightarrow> nat \<Rightarrow> candle list \<Rightarrow>
    (decimal option \<times> decimal option) list result" where
  "stochastic period k_smoothing d_smoothing candles =
     (if period = 0 then Inl ValueError
      else rbind (stochastic_loop period k_smoothing d_smoothing candles
             [period - 1..<length candles] 50 50) (\<lambda>vs.
        Inr (replicate (min (period - 1) (length candles)) (None, None) @ vs)))"

section \<open>Average true range, on-balance volume\<close>

definition true_range :: "candle \<Rightarrow> candle \<Rightarrow> decimal" where
  "true_range current previous =
     max (max (dsub prec (c_high current) (c_low current))
              (dabs prec (dsub prec (c_high current) (c_close previous))))
         (dabs prec (dsub prec (c_low current) (c_close previous)))"

fun true_ranges_after :: "candle \<Rightarrow> candle list \<Rightarrow> decimal list" where
  "true_ranges_after previous [] = []"
| "true_ranges_after previous (current # rest) =
     true_range current previous # true_ranges_after current rest"

definition true_ranges :: "candle list \<Rightarrow> decimal list" where
  "true_ranges candles =
     (case candles of [] \<Rightarrow> []
      | c # rest \<Rightarrow> dsub prec (c_high c) (c_low c) # true_ranges_after c rest)"

fun atr_loop :: "nat \<Rightarrow> decimal \<Rightarrow> decimal list \<Rightarrow> decimal list result" where
  "atr_loop period current [] = Inr []"
| "atr_loop period current (t # rest) =
     rbind (wilder period current t) (\<lambda>c.
     rbind (atr_loop period c rest) (\<lambda>vs. Inr (c # vs)))"

definition atr :: "nat \<Rightarrow> candle list \<Rightarrow> decimal option list result" where
  "atr period candles =
     (if candles = [] then Inr []
      else let ranges = true_ranges candles in
        if length ranges < period then Inr (replicate (length candles) None)
        else rbind (mean prec (take period ranges)) (\<lambda>seed.
             rbind (atr_loop period seed (drop period ranges)) (\<lambda>vs.
               Inr (replicate (period - 1) None @ map Some (seed # vs)))))"

fun obv_loop :: "decimal \<Rightarrow> candle \<Rightarrow> candle list \<Rightarrow> decimal option list" where
  "obv_loop current previous [] = []"
| "obv_loop current previous (item # rest) =
     (case c_volume_shares item of
        None \<Rightarrow> None # obv_loop current item rest
      | Some shares \<Rightarrow>
          let volume = of_int shares;
              c = dadd prec current
                    (if c_close previous < c_close item then volume
                     else if c_close item < c_close previous then dneg prec volume
                     else 0)
          in Some c # obv_loop c item rest)"

definition obv :: "candle list \<Rightarrow> decimal option list" where
  "obv candles = (case candles of [] \<Rightarrow> [] | c # rest \<Rightarrow> Some 0 # obv_loop 0 c rest)"

section \<open>Bollinger bands, Williams R\<close>

text \<open>The bands are computed in a context of 34 digits around the 28-digit middle line.\<close>

definition band_prec :: nat where "band_prec = 34"

definition deviation :: "decimal \<Rightarrow> decimal list \<Rightarrow> decimal result" where
  "deviation m win =
     rbind (mean band_prec (map (\<lambda>v. let e = dsub band_prec v m in dmul band_prec e e) win)) (\<lambda>variance.
       dsqrt band_prec variance)"

definition band :: "nat \<Rightarrow> decimal \<Rightarrow> decimal list \<Rightarrow> decimal option list \<Rightarrow> nat \<Rightarrow>
    (decimal option \<times> decimal option) result" where
  "band period multiplier values middle index =
     (if index + 1 < period then Inr (None, None)
      else case middle ! index of
        None \<Rightarrow> Inl AssertionError
      | Some m \<Rightarrow>
          rbind (deviation m (window period index values)) (\<lambda>dev.
            let w = dmul band_prec dev multiplier in
            Inr (Some (dadd band_prec m w), Some (dsub band_prec m w))))"

definition bollinger :: "nat \<Rightarrow> decimal \<Rightarrow> decimal list \<Rightarrow>
    (decimal option list \<times> decimal option list \<times> decimal option list) result" where
  "bollinger period multiplier values =
     rbind (sma period values) (\<lambda>middle.
     rbind (rmap (band period multiplier values middle) [0..<length values]) (\<lambda>bands.
       Inr (map fst bands, middle, map snd bands)))"

definition williams_at :: "nat \<Rightarrow> candle list \<Rightarrow> nat \<Rightarrow> decimal option result" where
  "williams_at period candles index =
     (if index + 1 < period then Inr None
      else rbind (highest_lowest period index candles) (\<lambda>(highest, lowest).
        if highest \<noteq> lowest
        then rbind (ddiv prec (dsub prec highest (c_close (candles ! index))) (dsub prec highest lowest)) (\<lambda>r.
          Inr (Some (dmul prec r (- 100))))
        else Inr None))"

definition williams_r :: "nat \<Rightarrow> candle list \<Rightarrow> decimal option list result" where
  "williams_r period candles =
     (if period = 0 then Inl ValueError
      else rmap (williams_at period candles) [0..<length candles])"

section \<open>Every indicator returns a value, of the length of its input\<close>

lemma mean_total: "xs \<noteq> [] \<Longrightarrow> mean p xs = Inr (dround p (dsum p xs / of_nat (length xs)))"
  by (simp add: mean_def ddiv_def)

lemma mean_nonneg:
  assumes "xs \<noteq> []" and "\<forall>v \<in> set xs. 0 \<le> v" and "0 < p"
  shows "\<exists>m. mean p xs = Inr m \<and> 0 \<le> m"
  using assms dround_mono [of 0 "dsum p xs / of_nat (length xs)" p]
    dsum_nonneg [of p xs] mean_total [of xs p] by simp

definition sma_at :: "nat \<Rightarrow> decimal list \<Rightarrow> nat \<Rightarrow> decimal option" where
  "sma_at period xs index =
     (if index + 1 < period then None
      else Some (dctx (dsum prec (window period index xs) / of_nat period)))"

lemma sma_eq:
  assumes "0 < period"
  shows "sma period xs = Inr (map (sma_at period xs) [0..<length xs])"
  unfolding sma_def
proof (rule rmap_total)
  fix i assume "i \<in> set [0..<length xs]"
  then have i: "i < length xs" by simp
  show "(if i + 1 < period then Inr None else rbind (mean prec (window period i xs)) (\<lambda>m. Inr (Some m))) =
      Inr (sma_at period xs i)"
  proof (cases "i + 1 < period")
    case False
    then have "length (window period i xs) = period" using i by (simp add: window_length)
    moreover from this have "window period i xs \<noteq> []" using assms by auto
    ultimately show ?thesis using False by (simp add: sma_at_def mean_total)
  qed (simp add: sma_at_def)
qed

lemma ema_loop_length [simp]: "length (ema_loop alpha current vs) = length vs"
  by (induction vs arbitrary: current) (simp_all add: Let_def)

lemma ema_total: "0 < period \<Longrightarrow> \<exists>vs. ema period xs = Inr vs"
  using mean_total [of "take period xs" prec] by (cases "xs = []") (auto simp: ema_def ddiv_def)

lemma ema_length: "ema period xs = Inr vs \<Longrightarrow> length vs = length xs"
  by (cases "period = 0") (auto simp: ema_def mean_def ddiv_def rbind_eq_Inr split: if_splits)

lemma wilder_nonneg:
  assumes "0 < period" and "0 \<le> avg" and "0 \<le> x"
  shows "\<exists>r. wilder period avg x = Inr r \<and> 0 \<le> r"
  using assms
  by (simp add: wilder_def ddiv_def dops prec_def d28.rnd_nonneg)

lemma wilder_total: "0 < period \<Longrightarrow> \<exists>r. wilder period avg x = Inr r"
  by (simp add: wilder_def ddiv_def)

lemma wilder_le_100:
  assumes "0 < period" and "int period \<le> 10 ^ 20" and "avg \<le> 100" and "x \<le> 100"
    and "wilder period avg x = Inr r"
  shows "r \<le> 100"
proof -
  define n where "n = int period"
  define a where "a = dround 28 (avg * of_int (n - 1))"
  have n: "1 \<le> n" "n \<le> 10 ^ 20" using assms by (simp_all add: n_def)
  then have fits: "\<bar>100 * (n - 1)\<bar> < 10 ^ 28" "\<bar>100 * n\<bar> < 10 ^ 28" by simp_all
  have "avg * of_int (n - 1) \<le> 100 * of_int (n - 1)"
    using assms(3) n by (intro mult_right_mono) simp_all
  also have "\<dots> = of_int (100 * (n - 1))" by simp
  finally have "a \<le> dround 28 (of_int (100 * (n - 1)))" unfolding a_def by (rule d28.rnd_mono)
  then have "a \<le> of_int (100 * (n - 1))" unfolding d28.rnd_of_int [OF fits(1)] .
  then have "a + x \<le> of_int (100 * n)" using assms(4) by simp
  then have "dround 28 (a + x) \<le> dround 28 (of_int (100 * n))" by (rule d28.rnd_mono)
  then have "dround 28 (a + x) \<le> of_int (100 * n)" unfolding d28.rnd_of_int [OF fits(2)] .
  then have "dround 28 (a + x) / of_int n \<le> 100" using n by (simp add: divide_le_eq)
  then have "dround 28 (dround 28 (a + x) / of_int n) \<le> 100" by (rule d28.rnd_le_100)
  moreover have "r = dround 28 (dround 28 (a + x) / of_int n)"
    using assms(1,5) by (simp add: wilder_def ddiv_def dops prec_def a_def n_def)
  ultimately show ?thesis by simp
qed

lemma rsi_value_bounds:
  assumes "0 \<le> g" and "0 \<le> l"
  shows "\<exists>v. rsi_value g l = Inr v \<and> 0 \<le> v \<and> v \<le> 100"
proof (cases "l = 0")
  case False
  define rs where "rs = dround 28 (g / l)"
  have rs: "0 \<le> rs" using assms by (simp add: rs_def d28.rnd_nonneg)
  define b where "b = dround 28 (1 + rs)"
  have b: "1 \<le> b" using rs by (simp add: b_def d28.rnd_ge_1)
  define q where "q = dround 28 (100 / b)"
  have "0 \<le> 100 / b" and "100 / b \<le> 100" using b by (simp_all add: divide_le_eq)
  then have q: "0 \<le> q" "q \<le> 100" by (simp_all add: q_def d28.rnd_nonneg d28.rnd_le_100)
  have "rsi_value g l = Inr (dround 28 (100 - q))"
    using False b by (simp add: rsi_value_def ddiv_def dops prec_def rs_def b_def q_def)
  moreover have "0 \<le> dround 28 (100 - q)" and "dround 28 (100 - q) \<le> 100"
    using q by (simp_all add: d28.rnd_nonneg d28.rnd_le_100)
  ultimately show ?thesis by blast
qed (simp add: rsi_value_def)

lemma rsi_loop_total:
  assumes "0 < period" and "0 \<le> g" and "0 \<le> l"
  shows "\<exists>vs. rsi_loop period g l changes = Inr vs \<and> length vs = length changes \<and>
    (\<forall>v \<in> set vs. 0 \<le> v \<and> v \<le> 100)"
  using assms(2,3)
proof (induction changes arbitrary: g l)
  case (Cons c rest)
  obtain g' where g': "wilder period g (max c 0) = Inr g'" "0 \<le> g'"
    using wilder_nonneg [OF assms(1) Cons.prems(1), of "max c 0"] by auto
  obtain l' where l': "wilder period l (max (dneg prec c) 0) = Inr l'" "0 \<le> l'"
    using wilder_nonneg [OF assms(1) Cons.prems(2), of "max (dneg prec c) 0"] by auto
  obtain v where v: "rsi_value g' l' = Inr v" "0 \<le> v" "v \<le> 100"
    using rsi_value_bounds [OF g'(2) l'(2)] by blast
  from Cons.IH [OF g'(2) l'(2)] obtain vs where "rsi_loop period g' l' rest = Inr vs"
    "length vs = length rest" "\<forall>v \<in> set vs. 0 \<le> v \<and> v \<le> 100" by blast
  with g' l' v show ?case by simp
qed simp

lemma differences_length [simp]: "length (differences xs) = length xs - 1"
  by (induction xs rule: differences.induct) simp_all

lemma rsi_total:
  assumes "0 < period"
  shows "\<exists>vs. rsi period xs = Inr vs \<and> length vs = length xs \<and> (\<forall>v. Some v \<in> set vs \<longrightarrow> 0 \<le> v \<and> v \<le> 100)"
proof (cases "length xs \<le> period")
  case True
  then show ?thesis by (auto simp: rsi_def)
next
  case False
  define ch where "ch = differences xs"
  have len: "length ch = length xs - 1" by (simp add: ch_def)
  then have "take period ch \<noteq> []" using False assms by auto
  then have pos: "map f (take period ch) \<noteq> []" "0 < prec" "\<forall>v \<in> set (map (\<lambda>c. max (f c) 0) cs). 0 \<le> v"
    "\<forall>v \<in> set (map (\<lambda>c. max c (0 :: decimal)) ds). 0 \<le> v"
    for f :: "decimal \<Rightarrow> decimal" and cs ds by (simp_all add: prec_def)
  obtain g where g: "mean prec (map (\<lambda>c. max c 0) (take period ch)) = Inr g" "0 \<le> g"
    using mean_nonneg [of "map (\<lambda>c. max c 0) (take period ch)" prec] pos by blast
  obtain l where l: "mean prec (map (\<lambda>c. max (dneg prec c) 0) (take period ch)) = Inr l" "0 \<le> l"
    using mean_nonneg [of "map (\<lambda>c. max (dneg prec c) 0) (take period ch)" prec] pos by blast
  obtain v where v: "rsi_value g l = Inr v" "0 \<le> v" "v \<le> 100"
    using rsi_value_bounds [OF g(2) l(2)] by blast
  obtain vs where vs: "rsi_loop period g l (drop period ch) = Inr vs"
    "length vs = length (drop period ch)" "\<forall>v \<in> set vs. 0 \<le> v \<and> v \<le> 100"
    using rsi_loop_total [OF assms g(2) l(2)] by blast
  have "rsi period xs = Inr (replicate period None @ map Some (v # vs))"
    using False g l v vs by (simp add: rsi_def ch_def [symmetric])
  then show ?thesis using vs v len False by auto
qed

text \<open>An optional percentage.\<close>

fun percent_ok :: "decimal option \<Rightarrow> bool" where
  "percent_ok None = True"
| "percent_ok (Some v) = (0 \<le> v \<and> v \<le> 100)"

text \<open>The extremes of a non-empty window bound the highs and lows of its candles.\<close>

lemma highest_lowest_window:
  assumes "0 < period" and "period \<le> index + 1" and "index < length candles"
  shows "\<exists>h l. highest_lowest period index candles = Inr (h, l) \<and>
    c_high (candles ! index) \<le> h \<and> l \<le> c_low (candles ! index)"
proof -
  have mem: "candles ! index \<in> set (window period index candles)" using assms by (rule window_current)
  then obtain c cs where w: "window period index candles = c # cs" by (cases "window period index candles") auto
  have "c_high (candles ! index) \<le> foldl max (c_high c) (map c_high cs)"
    using mem w by (intro foldl_max_ge) auto
  moreover have "foldl min (c_low c) (map c_low cs) \<le> c_low (candles ! index)"
    using mem w by (intro foldl_min_le) auto
  ultimately show ?thesis by (auto simp: highest_lowest_def Let_def w py_max_def py_min_def)
qed

lemma range_ratio:
  assumes "l \<le> c" and "c \<le> h" and "h \<noteq> l" and "dround 28 (h - l) \<noteq> 0"
  shows "0 \<le> dround 28 (dround 28 (c - l) / dround 28 (h - l)) \<and>
    dround 28 (dround 28 (c - l) / dround 28 (h - l)) \<le> 1"
proof -
  have "0 \<le> dround 28 (c - l)" and le: "dround 28 (c - l) \<le> dround 28 (h - l)"
    using assms by (simp_all add: d28.rnd_nonneg d28.rnd_mono)
  moreover from this assms(4) have "0 < dround 28 (h - l)" by linarith
  ultimately have "0 \<le> dround 28 (c - l) / dround 28 (h - l)"
    and "dround 28 (c - l) / dround 28 (h - l) \<le> 1" by (simp_all add: divide_le_eq)
  then show ?thesis using d28.rnd_nonneg d28.rnd_mono [of _ 1] d28.rnd_1 by metis
qed

lemma dround_nonzero: "x \<noteq> 0 \<Longrightarrow> dround 28 x \<noteq> 0"
  using dround_pos [of x 28] dround_pos [of "- x" 28] by (cases "0 < x") (auto simp: dround_minus)

lemma stochastic_loop_total:
  assumes "0 < period" and "0 < ks" and "0 < ds"
    and "\<forall>i \<in> set is. period \<le> i + 1 \<and> i < length candles"
  shows "\<exists>vs. stochastic_loop period ks ds candles is k d = Inr vs \<and> length vs = length is"
  using assms(4)
proof (induction "is" arbitrary: k d)
  case (Cons i rest)
  then obtain h l where hl: "highest_lowest period i candles = Inr (h, l)"
    using highest_lowest_window [OF assms(1), of i candles] by auto
  have IH: "\<exists>vs. stochastic_loop period ks ds candles rest k d = Inr vs \<and> length vs = length rest" for k d
    using Cons by simp
  show ?case
  proof (cases "h = l")
    case True
    with hl IH [of k d] show ?thesis by auto
  next
    case False
    then have "dsub prec h l \<noteq> 0" by (simp add: dsub_def prec_def dround_nonzero)
    then obtain r where r: "ddiv prec (dsub prec (c_close (candles ! i)) l) (dsub prec h l) = Inr r"
      by (simp add: ddiv_def)
    obtain k' where k': "wilder ks k (dmul prec r 100) = Inr k'" using wilder_total [OF assms(2)] by blast
    obtain d' where d': "wilder ds d k' = Inr d'" using wilder_total [OF assms(3)] by blast
    from IH [of k' d'] hl False r k' d' show ?thesis by auto
  qed
qed simp

lemma stochastic_loop_bounds:
  assumes "0 < period" and "0 < ks" and "0 < ds" and "int ks \<le> 10 ^ 20" and "int ds \<le> 10 ^ 20"
    and "\<forall>i \<in> set is. period \<le> i + 1 \<and> i < length candles" and "\<forall>c \<in> set candles. candle_ok c"
    and "stochastic_loop period ks ds candles is k d = Inr vs"
    and "0 \<le> k" "k \<le> 100" "0 \<le> d" "d \<le> 100"
  shows "\<forall>p \<in> set vs. percent_ok (fst p) \<and> percent_ok (snd p)"
  using assms(6,8-)
proof (induction "is" arbitrary: k d vs)
  case (Cons i rest)
  then have i: "period \<le> i + 1" "i < length candles" by auto
  obtain h l where hl: "highest_lowest period i candles = Inr (h, l)"
    and c: "c_high (candles ! i) \<le> h" "l \<le> c_low (candles ! i)"
    using highest_lowest_window [OF assms(1) i] by blast
  have ok: "candle_ok (candles ! i)" using assms(7) i by auto
  show ?case
  proof (cases "h = l")
    case True
    with hl Cons.prems(2) obtain ws where ws: "stochastic_loop period ks ds candles rest k d = Inr ws"
      and vs: "vs = (None, None) # ws" by (auto simp: rbind_eq_Inr)
    from Cons.IH [OF _ ws] Cons.prems vs show ?thesis by simp
  next
    case False
    with hl Cons.prems(2) obtain r k' d' ws where
      r: "ddiv prec (dsub prec (c_close (candles ! i)) l) (dsub prec h l) = Inr r"
      and k': "wilder ks k (dmul prec r 100) = Inr k'" and d': "wilder ds d k' = Inr d'"
      and ws: "stochastic_loop period ks ds candles rest k' d' = Inr ws"
      and vs: "vs = (Some k', Some d') # ws"
      by (auto simp: rbind_eq_Inr)
    have "0 \<le> r \<and> r \<le> 1"
      using r range_ratio [of l "c_close (candles ! i)" h] dround_nonzero [of "h - l"] ok c False
      by (auto simp: ddiv_def dops prec_def candle_ok_def split: if_splits)
    then have rsv: "0 \<le> dmul prec r 100" "dmul prec r 100 \<le> 100"
      by (auto simp: dmul_def prec_def intro!: d28.rnd_nonneg d28.rnd_le_100)
    have k: "0 \<le> k'" "k' \<le> 100"
      using wilder_nonneg [OF assms(2), of k "dmul prec r 100"] rsv Cons.prems k'
        wilder_le_100 [OF assms(2,4) _ _ k'] by auto
    have d: "0 \<le> d'" "d' \<le> 100"
      using wilder_nonneg [OF assms(3), of d k'] k Cons.prems d'
        wilder_le_100 [OF assms(3,5) _ _ d'] by auto
    from Cons.IH [OF _ ws k d] Cons.prems(1) k d vs show ?thesis by auto
  qed
qed auto

lemma stochastic_total:
  assumes "0 < period" and "0 < ks" and "0 < ds"
  shows "\<exists>vs. stochastic period ks ds candles = Inr vs \<and> length vs = length candles"
proof -
  have "\<forall>i \<in> set [period - 1..<length candles]. period \<le> i + 1 \<and> i < length candles" by auto
  from stochastic_loop_total [OF assms this, of 50 50] assms(1) show ?thesis
    by (auto simp: stochastic_def)
qed

lemma stochastic_bounds:
  assumes "0 < ks" and "0 < ds" and "int ks \<le> 10 ^ 20" and "int ds \<le> 10 ^ 20"
    and "\<forall>c \<in> set candles. candle_ok c" and "stochastic period ks ds candles = Inr vs"
  shows "\<forall>p \<in> set vs. percent_ok (fst p) \<and> percent_ok (snd p)"
proof -
  from assms(6) obtain ws where "0 < period"
    and ws: "stochastic_loop period ks ds candles [period - 1..<length candles] 50 50 = Inr ws"
    and vs: "vs = replicate (min (period - 1) (length candles)) (None, None) @ ws"
    by (auto simp: stochastic_def rbind_eq_Inr split: if_splits)
  have "\<forall>p \<in> set ws. percent_ok (fst p) \<and> percent_ok (snd p)"
    by (rule stochastic_loop_bounds [OF \<open>0 < period\<close> assms(1-4) _ assms(5) ws]) auto
  then show ?thesis by (auto simp: vs)
qed

lemma atr_loop_total:
  "0 < period \<Longrightarrow> \<exists>vs. atr_loop period c ts = Inr vs \<and> length vs = length ts"
proof (induction ts arbitrary: c)
  case (Cons t ts)
  obtain c' where "wilder period c t = Inr c'" using wilder_total [OF Cons.prems] by blast
  moreover obtain vs where "atr_loop period c' ts = Inr vs" "length vs = length ts"
    using Cons by blast
  ultimately show ?case by simp
qed simp

lemma true_ranges_length [simp]: "length (true_ranges candles) = length candles"
proof -
  have "length (true_ranges_after c cs) = length cs" for c cs
    by (induction cs arbitrary: c) simp_all
  then show ?thesis by (simp add: true_ranges_def split: list.split)
qed

lemma atr_total:
  assumes "0 < period"
  shows "\<exists>vs. atr period candles = Inr vs \<and> length vs = length candles"
proof (cases "candles = [] \<or> length candles < period")
  case True
  then show ?thesis by (auto simp: atr_def Let_def)
next
  case False
  with assms have "take period (true_ranges candles) \<noteq> []"
    by (auto simp: true_ranges_def split: list.splits)
  then obtain seed where seed: "mean prec (take period (true_ranges candles)) = Inr seed"
    using mean_total by blast
  obtain vs where "atr_loop period seed (drop period (true_ranges candles)) = Inr vs"
    "length vs = length (drop period (true_ranges candles))" using atr_loop_total [OF assms] by blast
  with seed False assms show ?thesis by (simp add: atr_def Let_def)
qed

lemma obv_length [simp]: "length (obv candles) = length candles"
proof -
  have "length (obv_loop v c cs) = length cs" for v c cs
    by (induction cs arbitrary: v c) (simp_all add: Let_def split: option.split)
  then show ?thesis by (simp add: obv_def split: list.split)
qed

lemma deviation_total:
  assumes "win \<noteq> []"
  shows "\<exists>dev. deviation m win = Inr dev \<and> 0 \<le> dev"
proof -
  define squares where "squares = map (\<lambda>v. let e = dsub band_prec v m in dmul band_prec e e) win"
  have "\<forall>v \<in> set squares. 0 \<le> v" and "squares \<noteq> []"
    using assms by (auto simp: squares_def dops band_prec_def Let_def intro: d34.rnd_nonneg)
  then obtain variance where v: "mean band_prec squares = Inr variance" "0 \<le> variance"
    using mean_nonneg [of squares band_prec] by (auto simp: band_prec_def)
  obtain dev where "dsqrt band_prec variance = Inr dev" using dsqrt_total [OF v(2)] by blast
  with v dsqrt_nonneg show ?thesis
    by (auto simp: deviation_def squares_def [symmetric])
qed

text \<open>The bands are ordered around the middle line.\<close>

lemma band_at:
  assumes "0 < period" and "index < length xs" and "0 \<le> multiplier"
    and "middle = map (sma_at period xs) [0..<length xs]"
  shows "\<exists>u l. band period multiplier xs middle index = Inr (u, l) \<and>
    (if index + 1 < period then u = None \<and> l = None
     else \<exists>a m b. u = Some b \<and> middle ! index = Some m \<and> l = Some a \<and> a \<le> m \<and> m \<le> b)"
proof (cases "index + 1 < period")
  case True
  then show ?thesis by (simp add: band_def)
next
  case False
  define win where "win = window period index xs"
  define m where "m = dctx (dsum prec win / of_nat period)"
  have "length win = period" using False assms(2) by (simp add: win_def window_length)
  then obtain dev where dev: "deviation m win = Inr dev" "0 \<le> dev"
    using deviation_total [of win m] assms(1) by auto
  have mid: "middle ! index = Some m" using assms False by (simp add: sma_at_def m_def win_def)
  define w where "w = dmul band_prec dev multiplier"
  have w: "0 \<le> w" using dev assms(3) by (simp add: w_def dmul_def band_prec_def d34.rnd_nonneg)
  have "representable 28 m" unfolding m_def prec_def by (rule representable_dround) simp
  then obtain c e where c: "m = of_int c * 10 powi e" "\<bar>c\<bar> < 10 ^ 28" by (auto simp: representable_def)
  have "\<bar>c\<bar> < 10 ^ 34" by (rule order.strict_trans2 [OF c(2)]) simp
  then have m34: "dround 34 m = m"
    using c(1) by (intro dround_representable) (auto simp: representable_def)
  have "m \<le> dadd band_prec m w" and "dsub band_prec m w \<le> m"
    using d34.rnd_mono [of m "m + w"] d34.rnd_mono [of "m - w" m] w
    by (simp_all add: dops band_prec_def m34)
  with False dev mid show ?thesis by (simp add: band_def Let_def win_def w_def)
qed

lemma bollinger_total:
  assumes "0 < period" and "0 \<le> multiplier"
  shows "\<exists>u l. bollinger period multiplier xs = Inr (u, map (sma_at period xs) [0..<length xs], l) \<and>
    length u = length xs \<and> length l = length xs \<and>
    (\<forall>i < length xs. if i + 1 < period then u ! i = None \<and> l ! i = None
      else \<exists>a m b. u ! i = Some b \<and> sma_at period xs i = Some m \<and> l ! i = Some a \<and> a \<le> m \<and> m \<le> b)"
proof -
  define middle where "middle = map (sma_at period xs) [0..<length xs]"
  have "\<forall>i \<in> set [0..<length xs]. \<exists>b. band period multiplier xs middle i = Inr b"
    using band_at [OF assms(1) _ assms(2) middle_def] by force
  then obtain g where "\<forall>i \<in> set [0..<length xs]. band period multiplier xs middle i = Inr (g i)"
    by metis
  then have bands: "rmap (band period multiplier xs middle) [0..<length xs] = Inr (map g [0..<length xs])"
    and g: "\<And>i. i < length xs \<Longrightarrow> band period multiplier xs middle i = Inr (g i)"
    by (auto intro: rmap_total)
  have "if i + 1 < period then fst (g i) = None \<and> snd (g i) = None
      else \<exists>a m b. fst (g i) = Some b \<and> sma_at period xs i = Some m \<and> snd (g i) = Some a \<and> a \<le> m \<and> m \<le> b"
    if "i < length xs" for i
    using band_at [OF assms(1) that assms(2) middle_def] g [OF that] that
    by (auto simp: middle_def split: if_splits)
  then show ?thesis
    using bands assms by (simp add: bollinger_def sma_eq middle_def [symmetric])
qed

lemma williams_at_total:
  assumes "0 < period" and "i < length candles"
  shows "\<exists>v. williams_at period candles i = Inr v"
  using highest_lowest_window [OF assms(1) _ assms(2)] dround_nonzero
  by (fastforce simp: williams_at_def ddiv_def dsub_def prec_def not_less)

lemma williams_total:
  assumes "0 < period"
  shows "\<exists>vs. williams_r period candles = Inr vs \<and> length vs = length candles"
proof -
  have "\<exists>vs. rmap (williams_at period candles) [0..<length candles] = Inr vs"
    by (rule rmap_exists) (use williams_at_total [OF assms] in simp)
  then show ?thesis using assms rmap_length by (fastforce simp: williams_r_def)
qed

lemma williams_bounds:
  assumes "\<forall>c \<in> set candles. candle_ok c" and "williams_r period candles = Inr vs" and "Some v \<in> set vs"
  shows "- 100 \<le> v \<and> v \<le> 0"
proof -
  from assms(2) have period: "0 < period"
    and run: "rmap (williams_at period candles) [0..<length candles] = Inr vs"
    by (auto simp: williams_r_def split: if_splits)
  from rmap_mem [OF run assms(3)] obtain i where i: "i < length candles"
    and v: "williams_at period candles i = Inr (Some v)" by auto
  then have "period \<le> i + 1" by (auto simp: williams_at_def split: if_splits)
  then obtain h l where hl: "highest_lowest period i candles = Inr (h, l)"
    and c: "c_high (candles ! i) \<le> h" "l \<le> c_low (candles ! i)"
    using highest_lowest_window [OF period _ i] by blast
  have ok: "candle_ok (candles ! i)" using assms(1) i by simp
  have r: "v = dmul prec (dctx (dsub prec h (c_close (candles ! i)) / dsub prec h l)) (- 100)" and ne: "h \<noteq> l"
    using v hl by (auto simp: williams_at_def rbind_eq_Inr ddiv_def split: if_splits)
  have "0 \<le> dctx (dsub prec h (c_close (candles ! i)) / dsub prec h l)"
    and "dctx (dsub prec h (c_close (candles ! i)) / dsub prec h l) \<le> 1"
    using range_ratio [of "- h" "- c_close (candles ! i)" "- l"] dround_nonzero [of "h - l"] ok c ne
    by (auto simp: dops prec_def candle_ok_def)
  then show ?thesis
    unfolding r dmul_def prec_def
    using d28.rnd_ge_m100 d28.rnd_nonpos by (auto simp: prec_def)
qed

section \<open>No indicator looks ahead\<close>

interpretation sma: indicator "sma period" for period
proof
  show "sma period xs = Inr vs \<Longrightarrow> length vs = length xs" for xs vs
    unfolding sma_def using rmap_length by fastforce
  show "sma period xs = Inr (take (length xs) vs)" if "sma period (xs @ ys) = Inr vs" for xs ys vs
    using that unfolding sma_def
    by (rule indexed_prefix [where f = "\<lambda>xs index. if index + 1 < period then Inr None
          else rbind (mean prec (window period index xs)) (\<lambda>m. Inr (Some m))"])
      (simp add: window_append)
qed

lemma ema_loop_append: "\<exists>ws. ema_loop alpha c (us @ vs) = ema_loop alpha c us @ ws"
  by (induction us arbitrary: c) (simp_all add: Let_def)

lemma take_replicate_append: "n \<le> m \<Longrightarrow> take n (replicate m x @ ys) = replicate n x"
  by simp

interpretation ema: indicator "ema period" for period
proof
  show "ema period xs = Inr vs \<Longrightarrow> length vs = length xs" for xs vs
    by (rule ema_length)
  show "ema period xs = Inr (take (length xs) vs)" if all: "ema period (xs @ ys) = Inr vs" for xs ys vs
  proof (cases "length xs < period")
    case True
    then have "take (length xs) vs = replicate (length xs) None"
      using all by (auto simp: ema_def rbind_eq_Inr split: if_splits)
    with True show ?thesis by (simp add: ema_def)
  next
    case False
    with all obtain seed alpha where
      seed: "mean prec (take period xs) = Inr seed" "ddiv prec 2 (of_nat (period + 1)) = Inr alpha"
      and vs: "vs = replicate (period - 1) None @ map Some (seed # ema_loop alpha seed (drop period xs @ ys))"
      by (auto simp: ema_def rbind_eq_Inr split: if_splits)
    have "period \<noteq> 0" using seed(1) by (cases period) (simp_all add: mean_def ddiv_def)
    then obtain p where p: "period = Suc p" by (cases period) auto
    from False obtain n where n: "length xs = period + n" by (metis le_iff_add not_less)
    obtain ws where ws: "ema_loop alpha seed (drop period xs @ ys) = ema_loop alpha seed (drop period xs) @ ws"
      using ema_loop_append by blast
    have "length (ema_loop alpha seed (drop period xs)) = n" by (simp add: n)
    then have "length xs = length (replicate (period - 1) None @ map Some (seed # ema_loop alpha seed (drop period xs)))"
      by (simp add: n p)
    moreover have "vs = (replicate (period - 1) None @ map Some (seed # ema_loop alpha seed (drop period xs)))
        @ map Some ws" by (simp add: vs ws)
    ultimately have "take (length xs) vs =
        replicate (period - 1) None @ map Some (seed # ema_loop alpha seed (drop period xs))"
      by (metis append_eq_conv_conj)
    with False seed show ?thesis by (simp add: ema_def)
  qed
qed

lemma differences_append: "xs \<noteq> [] \<Longrightarrow> \<exists>ds. differences (xs @ ys) = differences xs @ ds"
  by (induction xs rule: differences.induct) auto

lemma rsi_loop_append:
  "rsi_loop p g l (us @ ws) = Inr vs \<Longrightarrow> rsi_loop p g l us = Inr (take (length us) vs)"
  by (induction us arbitrary: g l vs) (auto simp: rbind_eq_Inr)

interpretation rsi: indicator "rsi period" for period
proof
  show "rsi period xs = Inr vs \<Longrightarrow> length vs = length xs" for xs vs
    using rsi_total [of period xs] by (cases "period = 0") (auto simp: rsi_def mean_def ddiv_def Let_def split: if_splits)
  show "rsi period xs = Inr (take (length xs) vs)" if all: "rsi period (xs @ ys) = Inr vs" for xs ys vs
  proof (cases "length xs \<le> period")
    case True
    then have "take (length xs) vs = replicate (length xs) None"
      using all by (auto simp: rsi_def rbind_eq_Inr Let_def split: if_splits)
    with True show ?thesis by (simp add: rsi_def)
  next
    case False
    then have "xs \<noteq> []" by auto
    then obtain ds where ds: "differences (xs @ ys) = differences xs @ ds"
      using differences_append by blast
    have le: "period \<le> length (differences xs)" using False by simp
    have "\<not> length (xs @ ys) \<le> period" using False by simp
    with all le obtain g l v ws where
      "mean prec (map (\<lambda>c. max c 0) (take period (differences xs))) = Inr g"
      "mean prec (map (\<lambda>c. max (dneg prec c) 0) (take period (differences xs))) = Inr l"
      "rsi_value g l = Inr v"
      and loop: "rsi_loop period g l (drop period (differences xs) @ ds) = Inr ws"
      and vs: "vs = replicate period None @ map Some (v # ws)"
      by (auto simp: rsi_def ds Let_def rbind_eq_Inr)
    moreover obtain n where n: "length xs = Suc (period + n)"
      using False by (metis less_iff_Suc_add not_le)
    then have "take (length xs) vs =
        replicate period None @ map Some (v # take (length xs - 1 - period) ws)"
      by (simp add: vs take_map)
    ultimately show ?thesis
      using False rsi_loop_append [OF loop] by (simp add: rsi_def Let_def)
  qed
qed

text \<open>The MACD line starts with missing values and then has one at every index.\<close>

definition leading_none :: "decimal option list \<Rightarrow> bool" where
  "leading_none line \<longleftrightarrow> (\<exists>j ws. line = replicate j None @ map Some ws)"

lemma ema_leading_none: "ema period xs = Inr vs \<Longrightarrow> leading_none vs"
proof -
  have "leading_none (replicate n None)" for n
    unfolding leading_none_def by (metis append_Nil2 list.map_disc_iff)
  moreover have "leading_none (replicate n None @ map Some ws)" for n ws
    unfolding leading_none_def by blast
  ultimately show "ema period xs = Inr vs \<Longrightarrow> leading_none vs"
    unfolding ema_def by (simp only: split: if_splits) (auto simp: rbind_eq_Inr simp del: list.map)
qed

lemma option_sub_leading_none:
  assumes "leading_none a" and "leading_none b" and "length a = length b"
  shows "leading_none (map2 option_sub a b)"
  using assms(3,1,2)
proof (induction a b rule: list_induct2)
  case Nil
  then show ?case by (simp add: leading_none_def)
next
  case (Cons x a y b)
  have tail: "leading_none zs" if "leading_none (z # zs)" for z zs
  proof -
    from that obtain j ws where eq: "z # zs = replicate j None @ map Some ws"
      by (auto simp: leading_none_def)
    show ?thesis
    proof (cases j)
      case 0
      with eq have "zs = replicate 0 None @ map Some (tl ws)" by (cases ws) auto
      then show ?thesis unfolding leading_none_def by blast
    next
      case (Suc i)
      with eq have "zs = replicate i None @ map Some ws" by simp
      then show ?thesis unfolding leading_none_def by blast
    qed
  qed
  have present: "\<exists>ws. zs = map Some ws" if "leading_none (Some z # zs)" for z zs
    using that unfolding leading_none_def by (auto simp: Cons_eq_append_conv Cons_replicate_eq)
  from Cons tail have rest: "leading_none (map2 option_sub a b)" by blast
  show ?case
  proof (cases "x = None \<or> y = None")
    case True
    from rest obtain j ws where "map2 option_sub a b = replicate j None @ map Some ws"
      by (auto simp: leading_none_def)
    with True have "map2 option_sub (x # a) (y # b) = replicate (Suc j) None @ map Some ws"
      by (auto simp: option_sub_def split: option.splits)
    then show ?thesis unfolding leading_none_def by blast
  next
    case False
    then obtain u v where xy: "x = Some u" "y = Some v" by auto
    with Cons.prems obtain us vs where "a = map Some us" "b = map Some vs" by (meson present)
    then have "map2 option_sub (x # a) (y # b) = map Some (dsub prec u v # map2 (dsub prec) us vs)"
      by (simp add: xy option_sub_def zip_map1 zip_map2 comp_def case_prod_unfold)
    then show ?thesis unfolding leading_none_def by (metis append_Nil replicate_0)
  qed
qed

lemma available_leading_none:
  "available (replicate j None @ map Some ws) = zip [j..<j + length ws] ws"
proof -
  have upt: "[0..<length (replicate j None @ map Some ws)] = [0..<j] @ [j..<j + length ws]"
    using upt_add_eq_append [of 0 j "length ws"] by simp
  have "filter (\<lambda>(i, v). is_some v) (zip [0..<j] (replicate j None)) = []"
    by (auto simp: filter_empty_conv set_zip)
  moreover have "filter (\<lambda>(i, v). is_some v) (zip [j..<j + length ws] (map Some ws)) =
      zip [j..<j + length ws] (map Some ws)"
    by (auto simp: filter_id_conv set_zip)
  ultimately show ?thesis
    unfolding available_def upt by (simp add: zip_map2 comp_def case_prod_unfold)
qed

lemma signal_loop_consecutive:
  "length pre = i \<Longrightarrow>
   signal_loop alpha c (zip [i..<i + length vs] vs) (pre @ replicate (length vs) None) =
   pre @ map Some (ema_loop alpha c vs)"
proof (induction vs arbitrary: i pre c)
  case (Cons v vs)
  have "[i..<i + length (v # vs)] = i # [Suc i..<Suc i + length vs]"
    using upt_conv_Cons [of i "i + length (v # vs)"] by (simp del: upt_Suc)
  then show ?case
    using Cons.IH [of "pre @ [Some (smooth alpha c v)]" "Suc i" "smooth alpha c v"] Cons.prems
    by (simp add: Let_def list_update_append del: upt_Suc)
qed simp

text \<open>The signal line is the moving average of the values of the line.\<close>

lemma macd_signal_leading_none:
  assumes "0 < n"
  shows "macd_signal n (replicate j None @ map Some ws) =
    rbind (ema n ws) (\<lambda>s. Inr (replicate j None @ s))"
proof (cases "length ws < n")
  case True
  then show ?thesis
    by (simp add: macd_signal_def Let_def available_leading_none ema_def replicate_add)
next
  case False
  define alpha where "alpha = dctx (2 / of_nat (n + 1))"
  have alpha: "ddiv prec 2 (of_nat (n + 1)) = Inr alpha" by (simp add: ddiv_def alpha_def)
  have heads: "map snd (take n (zip [j..<j + length ws] ws)) = take n ws"
    by (simp add: take_map [symmetric])
  have seed_index: "fst (zip [j..<j + length ws] ws ! (n - 1)) = j + n - 1"
    using False assms by simp
  have rest: "drop n (zip [j..<j + length ws] ws) =
      zip [j + n..<j + n + length (drop n ws)] (drop n ws)"
    using False by (simp add: drop_zip)
  have room: "(replicate (j + length ws) None)[j + n - 1 := Some seed] =
      (replicate j None @ replicate (n - 1) None @ [Some seed]) @ replicate (length (drop n ws)) None"
    for seed :: decimal
  proof -
    have "replicate (j + length ws) None =
        replicate (j + n - 1) None @ None # replicate (length (drop n ws)) (None :: decimal option)"
    proof -
      have "j + length ws = (j + n - 1) + Suc (length (drop n ws))" using False assms by simp
      then show ?thesis by (simp only: replicate_add replicate_Suc)
    qed
    moreover have "replicate (j + n - 1) (None :: decimal option) = replicate j None @ replicate (n - 1) None"
      using assms by (simp flip: replicate_add)
    ultimately show ?thesis using assms by (simp add: list_update_append)
  qed
  show ?thesis
  proof (cases "mean prec (take n ws)")
    case (Inr seed)
    have "signal_loop alpha seed (drop n (zip [j..<j + length ws] ws))
        ((replicate (j + length ws) None)[j + n - 1 := Some seed]) =
      (replicate j None @ replicate (n - 1) None @ [Some seed]) @ map Some (ema_loop alpha seed (drop n ws))"
      unfolding room rest by (rule signal_loop_consecutive) (use assms in simp)
    with Inr False assms alpha show ?thesis
      by (simp add: macd_signal_def Let_def available_leading_none heads seed_index ema_def)
  qed (use False assms in \<open>simp add: macd_signal_def Let_def available_leading_none heads ema_def\<close>)
qed

lemma macd_signal_prefix:
  assumes "leading_none line" and "macd_signal k line = Inr sig"
  shows "macd_signal k (take n line) = Inr (take n sig) \<and> length sig = length line"
proof -
  have k: "0 < k" using assms(2) by (cases k) (auto simp: macd_signal_def Let_def split: if_splits)
  from assms(1) obtain j ws where line: "line = replicate j None @ map Some ws"
    by (auto simp: leading_none_def)
  from assms(2) obtain s where s: "ema k ws = Inr s" and sig: "sig = replicate j None @ s"
    by (auto simp: line macd_signal_leading_none [OF k] rbind_eq_Inr)
  have len: "length s = length ws" using s by (rule ema_length)
  have "ema k (take (n - j) ws) = Inr (take (length (take (n - j) ws)) s)"
    by (rule ema.F_prefix [of _ _ "drop (n - j) ws"]) (use s in simp)
  then have "ema k (take (n - j) ws) = Inr (take (n - j) s)"
    using len by (simp add: min_def)
  moreover have "take n line = replicate (min n j) None @ map Some (take (n - j) ws)"
    by (simp add: line take_map)
  ultimately show ?thesis
    by (simp add: macd_signal_leading_none [OF k] sig line len)
qed

definition macd_rows :: "nat \<Rightarrow> nat \<Rightarrow> nat \<Rightarrow> decimal list \<Rightarrow>
    (decimal option \<times> decimal option \<times> decimal option) list result" where
  "macd_rows f s k xs = rbind (macd f s k xs) (\<lambda>(l, g, h). Inr (zip l (zip g h)))"

lemma macd_prefix:
  assumes "macd f s k (xs @ ys) = Inr (l, g, h)"
  shows "macd f s k xs = Inr (take (length xs) l, take (length xs) g, take (length xs) h) \<and>
    length l = length (xs @ ys) \<and> length g = length (xs @ ys) \<and> length h = length (xs @ ys)"
proof -
  from assms obtain a b where a: "ema f (xs @ ys) = Inr a" and b: "ema s (xs @ ys) = Inr b"
    and l: "l = map2 option_sub a b" and g: "macd_signal k l = Inr g" and h: "h = map2 option_sub l g"
    by (auto simp: macd_def rbind_eq_Inr Let_def)
  have len: "length a = length (xs @ ys)" "length b = length (xs @ ys)"
    using a b by (simp_all only: ema_length)
  have "leading_none l"
    unfolding l by (rule option_sub_leading_none) (use a b len in \<open>auto intro: ema_leading_none\<close>)
  note sig = macd_signal_prefix [OF this g]
  have line: "map2 option_sub (take (length xs) a) (take (length xs) b) = take (length xs) l"
    by (simp add: l take_map take_zip)
  have hist: "map2 option_sub (take (length xs) l) (take (length xs) g) = take (length xs) h"
    by (simp add: h take_map take_zip)
  have "macd f s k xs = Inr (take (length xs) l, take (length xs) g, take (length xs) h)"
    using ema.F_prefix [OF a] ema.F_prefix [OF b] sig
    by (simp add: macd_def Let_def line hist)
  moreover have "length l = length (xs @ ys)" using len by (simp add: l)
  ultimately show ?thesis using sig by (simp add: h)
qed

interpretation macd: indicator "macd_rows f s k" for f s k
proof
  show "macd_rows f s k xs = Inr vs \<Longrightarrow> length vs = length xs" for xs vs
    using macd_prefix [of f s k xs "[]"] by (auto simp: macd_rows_def rbind_eq_Inr)
  show "macd_rows f s k (xs @ ys) = Inr vs \<Longrightarrow> macd_rows f s k xs = Inr (take (length xs) vs)" for xs ys vs
    using macd_prefix [of f s k xs ys] by (force simp: macd_rows_def rbind_eq_Inr take_zip)
qed

lemma highest_lowest_append:
  "i < length xs \<Longrightarrow> period \<le> i + 1 \<Longrightarrow> highest_lowest period i (xs @ ys) = highest_lowest period i xs"
  by (simp add: highest_lowest_def window_append)

lemma stochastic_loop_prefix:
  assumes "\<forall>i \<in> set is. period \<le> i + 1 \<and> i < length xs"
    and "stochastic_loop period ks ds (xs @ ys) (is @ js) k d = Inr vs"
  shows "stochastic_loop period ks ds xs is k d = Inr (take (length is) vs)"
  using assms
proof (induction "is" arbitrary: k d vs)
  case (Cons i rest)
  then have same: "highest_lowest period i (xs @ ys) = highest_lowest period i xs" "(xs @ ys) ! i = xs ! i"
    by (simp_all add: highest_lowest_append nth_append)
  show ?case
    using Cons.prems Cons.IH by (auto simp: rbind_eq_Inr same split: if_splits) blast+
qed simp

interpretation stochastic: indicator "stochastic period ks ds" for period ks ds
proof
  have len: "length vs = length is" if "stochastic_loop period ks ds xs is k d = Inr vs" for xs "is" k d vs
    using that by (induction "is" arbitrary: k d vs) (auto simp: rbind_eq_Inr split: if_splits)
  show "stochastic period ks ds xs = Inr vs \<Longrightarrow> length vs = length xs" for xs vs
    by (auto simp: stochastic_def rbind_eq_Inr dest!: len split: if_splits)
  show "stochastic period ks ds xs = Inr (take (length xs) vs)"
    if all: "stochastic period ks ds (xs @ ys) = Inr vs" for xs ys vs
  proof (cases "length xs < period")
    case True
    then have "take (length xs) vs = replicate (length xs) (None, None)"
      using all by (auto simp: stochastic_def rbind_eq_Inr min_def split: if_splits)
    with True show ?thesis using all by (auto simp: stochastic_def min_def split: if_splits)
  next
    case False
    with all obtain ws where pos: "0 < period"
      and ws: "stochastic_loop period ks ds (xs @ ys) [period - 1..<length xs + length ys] 50 50 = Inr ws"
      and vs: "vs = replicate (period - 1) (None, None) @ ws"
      by (auto simp: stochastic_def rbind_eq_Inr min_def split: if_splits)
    have "[period - 1..<length xs + length ys] =
        [period - 1..<length xs] @ [length xs..<length xs + length ys]"
      using upt_add_eq_append [of "period - 1" "length xs" "length ys"] False by simp
    then have "stochastic_loop period ks ds xs [period - 1..<length xs] 50 50 =
        Inr (take (length [period - 1..<length xs]) ws)"
      using ws by (intro stochastic_loop_prefix) auto
    with False pos show ?thesis by (simp add: stochastic_def vs)
  qed
qed

lemma true_ranges_append: "xs \<noteq> [] \<Longrightarrow> \<exists>ts. true_ranges (xs @ ys) = true_ranges xs @ ts"
proof -
  have "\<exists>ts. true_ranges_after c (cs @ ys) = true_ranges_after c cs @ ts" for c cs
    by (induction cs arbitrary: c) simp_all
  then show "xs \<noteq> [] \<Longrightarrow> ?thesis" by (cases xs) (simp_all add: true_ranges_def)
qed

lemma atr_loop_prefix:
  "atr_loop period c (us @ ws) = Inr vs \<Longrightarrow> atr_loop period c us = Inr (take (length us) vs)"
  by (induction us arbitrary: c vs) (auto simp: rbind_eq_Inr)

interpretation atr: indicator "atr period" for period
proof
  show "atr period xs = Inr vs \<Longrightarrow> length vs = length xs" for xs vs
    using atr_total [of period xs] by (cases "period = 0") (auto simp: atr_def mean_def ddiv_def Let_def split: if_splits)
  show "atr period xs = Inr (take (length xs) vs)" if all: "atr period (xs @ ys) = Inr vs" for xs ys vs
  proof (cases "xs = [] \<or> length xs < period")
    case True
    then have "take (length xs) vs = replicate (length xs) None"
      using all by (auto simp: atr_def rbind_eq_Inr Let_def split: if_splits)
    with True show ?thesis by (auto simp: atr_def Let_def)
  next
    case False
    then obtain ts where ts: "true_ranges (xs @ ys) = true_ranges xs @ ts"
      using true_ranges_append by blast
    have "length (true_ranges (xs @ ys)) = length (xs @ ys)" by simp
    then have tl: "length ts = length ys" by (simp add: ts)
    from False all obtain seed ws where seed: "mean prec (take period (true_ranges xs)) = Inr seed"
      and loop: "atr_loop period seed (drop period (true_ranges xs) @ ts) = Inr ws"
      and vs: "vs = replicate (period - 1) None @ map Some (seed # ws)"
      by (auto simp: atr_def ts tl Let_def rbind_eq_Inr)
    have "period \<noteq> 0" using seed by (cases period) (simp_all add: mean_def ddiv_def)
    then obtain p where p: "period = Suc p" by (cases period) auto
    from False obtain n where n: "length xs = period + n" by (metis le_iff_add not_less)
    have "take (length xs) vs = replicate (period - 1) None @ map Some (seed # take n ws)"
      by (simp add: vs n p take_map)
    with False seed atr_loop_prefix [OF loop] n show ?thesis by (simp add: atr_def Let_def)
  qed
qed

interpretation obv: indicator "\<lambda>candles. Inr (obv candles)"
proof
  have "take (length cs) (obv_loop v c (cs @ ys)) = obv_loop v c cs" for v c cs ys
    by (induction cs arbitrary: v c) (auto simp: Let_def split: option.split)
  then have prefix: "take (length xs) (obv (xs @ ys)) = obv xs" for xs ys
    by (cases xs) (simp_all add: obv_def)
  show "Inr (obv xs) = Inr vs \<Longrightarrow> length vs = length xs" for xs vs
    by auto
  show "Inr (obv (xs @ ys)) = Inr vs \<Longrightarrow> Inr (obv xs) = Inr (take (length xs) vs)" for xs ys vs
    using prefix by auto
qed

lemma bollinger_prefix:
  assumes "bollinger period m (xs @ ys) = Inr (u, c, l)"
  shows "bollinger period m xs = Inr (take (length xs) u, take (length xs) c, take (length xs) l) \<and>
    length u = length (xs @ ys) \<and> length c = length (xs @ ys) \<and> length l = length (xs @ ys)"
proof -
  from assms obtain bs where c: "sma period (xs @ ys) = Inr c"
    and bs: "rmap (band period m (xs @ ys) c) [0..<length (xs @ ys)] = Inr bs"
    and ul: "u = map fst bs" "l = map snd bs" by (auto simp: bollinger_def rbind_eq_Inr)
  have len: "length c = length (xs @ ys)" using c by (rule sma.F_length)
  have "band period m (xs @ ys) (take (length (xs @ ys)) c) i = band period m xs (take (length xs) c) i"
    if "i < length xs" for i using that by (cases "i + 1 < period") (simp_all add: band_def window_append cong: option.case_cong)
  moreover have "rmap (band period m (xs @ ys) (take (length (xs @ ys)) c)) [0..<length (xs @ ys)] = Inr bs"
    using bs len by simp
  ultimately have "rmap (band period m xs (take (length xs) c)) [0..<length xs] = Inr (take (length xs) bs)"
    by (intro indexed_prefix [of "\<lambda>zs. band period m zs (take (length zs) c)" xs ys bs]) auto
  moreover note sma.F_prefix [OF c]
  ultimately have "bollinger period m xs = Inr (take (length xs) u, take (length xs) c, take (length xs) l)"
    by (simp add: bollinger_def ul take_map)
  with len rmap_length [OF bs] show ?thesis by (simp add: ul)
qed

interpretation williams: indicator "williams_r period" for period
proof
  show "williams_r period xs = Inr vs \<Longrightarrow> length vs = length xs" for xs vs
    using rmap_length by (fastforce simp: williams_r_def split: if_splits)
  show "williams_r period xs = Inr (take (length xs) vs)" if "williams_r period (xs @ ys) = Inr vs" for xs ys vs
  proof -
    from that have "rmap (williams_at period (xs @ ys)) [0..<length (xs @ ys)] = Inr vs" and "0 < period"
      by (auto simp: williams_r_def split: if_splits)
    moreover have "williams_at period (xs @ ys) i = williams_at period xs i" if "i < length xs" for i
      using that by (simp add: williams_at_def highest_lowest_append nth_append cong: if_cong)
    ultimately show ?thesis
      unfolding williams_r_def by (simp add: indexed_prefix)
  qed
qed

end
