(* ===== verification/IndicatorService.thy ===== *)
theory IndicatorService
  imports Technicals
begin

text \<open>
  \<open>TechnicalIndicatorService\<close> of \<open>app/services/technical_indicators.py\<close>: the validation of the
  parameters and the table of indicators, one row per candle, each row a dictionary from column
  name to optional value. The properties of the table rest on the interpretations of
  \<open>indicator\<close> in \<open>Technicals\<close>.
\<close>

section \<open>The service\<close>

record technical_parameters =
  ma_periods :: "int list"
  ema_periods :: "int list"
  rsi_period :: int
  macd_fast :: int
  macd_slow :: int
  macd_signal_period :: int
  kd_period :: int
  kd_k_smoothing :: int
  kd_d_smoothing :: int
  bollinger_period :: int
  bollinger_stddev :: decimal
  atr_period :: int
  williams_period :: int

definition default_parameters :: technical_parameters where
  "default_parameters = \<lparr>ma_periods = [5, 10, 20, 60, 120, 240], ema_periods = [12, 26],
     rsi_period = 14, macd_fast = 12, macd_slow = 26, macd_signal_period = 9,
     kd_period = 9, kd_k_smoothing = 3, kd_d_smoothing = 3, bollinger_period = 20,
     bollinger_stddev = 2, atr_period = 14, williams_period = 14\<rparr>"

definition all_periods :: "technical_parameters \<Rightarrow> int list" where
  "all_periods p = ma_periods p @ ema_periods p @
     [rsi_period p, macd_fast p, macd_slow p, macd_signal_period p, kd_period p, kd_k_smoothing p,
      kd_d_smoothing p, bollinger_period p, atr_period p, williams_period p]"

definition validate :: "technical_parameters \<Rightarrow> unit result" where
  "validate p =
     (if list_ex (\<lambda>v. v \<le> 0) (all_periods p) then Inl ValueError
      else if length (remdups (ma_periods p)) \<noteq> length (ma_periods p) then Inl ValueError
      else if macd_slow p \<le> macd_fast p then Inl ValueError
      else if bollinger_stddev p \<le> 0 then Inl ValueError
      else Inr ())"

type_synonym indicator_row = "(string \<times> decimal option) list"

text \<open>
  \<open>for row, value in zip(values, series, strict=True): row[name] = value\<close>; \<open>zip\<close> raises
  when the lengths differ.
\<close>

definition add_series :: "string \<Rightarrow> decimal option list \<Rightarrow> indicator_row list \<Rightarrow> indicator_row list result" where
  "add_series name series rows =
     (if length rows \<noteq> length series then Inl ValueError
      else Inr (map2 (\<lambda>row v. AList.update name v row) rows series))"

definition add_named :: "(string \<times> decimal option list) list \<Rightarrow> indicator_row list \<Rightarrow> indicator_row list result" where
  "add_named named rows = rfold (\<lambda>rows (name, series). add_series name series rows) rows named"

definition add_periods :: "string \<Rightarrow> (nat \<Rightarrow> decimal list \<Rightarrow> decimal option list result) \<Rightarrow> decimal list \<Rightarrow>
    int list \<Rightarrow> indicator_row list \<Rightarrow> indicator_row list result" where
  "add_periods prefix f closes periods rows =
     rfold (\<lambda>rows period. rbind (f (nat period) closes) (\<lambda>series.
       add_series (prefix @ show_int period) series rows)) rows periods"

definition calculate :: "technical_parameters \<Rightarrow> candle list \<Rightarrow> indicator_row list result" where
  "calculate p candles =
     rbind (validate p) (\<lambda>_.
       let closes = map c_close candles; values = map (\<lambda>_. []) candles in
       rbind (add_periods ''MA'' sma closes (ma_periods p) values) (\<lambda>values.
       rbind (add_periods ''EMA'' ema closes (ema_periods p) values) (\<lambda>values.
       rbind (add_periods ''RSI'' rsi closes [rsi_period p] values) (\<lambda>values.
       rbind (macd (nat (macd_fast p)) (nat (macd_slow p)) (nat (macd_signal_period p)) closes)
         (\<lambda>(macd_line, signal, histogram).
       rbind (stochastic (nat (kd_period p)) (nat (kd_k_smoothing p)) (nat (kd_d_smoothing p)) candles) (\<lambda>kd.
       rbind (bollinger (nat (bollinger_period p)) (bollinger_stddev p) closes)
         (\<lambda>(upper, middle, lower).
       rbind (atr (nat (atr_period p)) candles) (\<lambda>atr_values.
       rbind (williams_r (nat (williams_period p)) candles) (\<lambda>williams.
         add_named
           [(''MACD'', macd_line), (''MACD_SIGNAL'', signal), (''MACD_HISTOGRAM'', histogram),
            (''KD_K'', map fst kd), (''KD_D'', map snd kd),
            (''ATR'' @ show_int (atr_period p), atr_values), (''OBV'', obv candles),
            (''BBANDS_UPPER'', upper), (''BBANDS_MIDDLE'', middle), (''BBANDS_LOWER'', lower),
            (''WILLIAMS_R'', williams)] values)))))))))"


section \<open>Columns of the table\<close>

lemma add_series_lookup:
  assumes "add_series name series rows = Inr rows'"
  shows "length rows' = length rows \<and> length series = length rows \<and>
    (\<forall>i < length rows. map_of (rows' ! i) k =
      (if k = name then Some (series ! i) else map_of (rows ! i) k))"
  using assms by (auto simp: add_series_def map_of_AList_update split: if_splits)

lemma add_series_take:
  "add_series name series rows = Inr rows' \<Longrightarrow>
   add_series name (take n series) (take n rows) = Inr (take n rows')"
  by (auto simp: add_series_def take_map take_zip split: if_splits)

lemma add_named_lookup:
  assumes "distinct (map fst named)" and "add_named named rows = Inr rows'"
  shows "length rows' = length rows \<and>
    (\<forall>i < length rows. map_of (rows' ! i) k =
      (case map_of named k of Some series \<Rightarrow> Some (series ! i) | None \<Rightarrow> map_of (rows ! i) k))"
  using assms
proof (induction named arbitrary: rows)
  case (Cons s named)
  obtain name series where s: "s = (name, series)" by (cases s)
  with Cons.prems obtain rows1 where r1: "add_series name series rows = Inr rows1"
    and rest: "add_named named rows1 = Inr rows'" by (auto simp: add_named_def rbind_eq_Inr)
  have "map_of named name = None" using Cons.prems by (simp add: s map_of_eq_None_iff)
  with add_series_lookup [OF r1, of k] Cons.IH [OF _ rest] Cons.prems show ?case
    by (auto simp: s split: option.splits)
qed (simp add: add_named_def)

lemma add_named_take:
  "add_named named rows = Inr rows' \<Longrightarrow>
   add_named (map (apsnd (take n)) named) (take n rows) = Inr (take n rows')"
proof (induction named arbitrary: rows)
  case (Cons s named)
  obtain name series where s: "s = (name, series)" by (cases s)
  with Cons.prems obtain rows1 where r1: "add_series name series rows = Inr rows1"
    and rest: "add_named named rows1 = Inr rows'" by (auto simp: add_named_def rbind_eq_Inr)
  show ?case
    using Cons.IH [OF rest] add_series_take [OF r1, of n] by (simp add: s add_named_def)
qed (simp add: add_named_def)

lemma add_named_total:
  assumes "\<forall>s \<in> set named. length (snd s) = length rows"
  shows "\<exists>rows'. add_named named rows = Inr rows' \<and> length rows' = length rows"
  using assms
proof (induction named arbitrary: rows)
  case (Cons s named)
  obtain name series where s: "s = (name, series)" by (cases s)
  with Cons.prems obtain rows1 where "add_series name series rows = Inr rows1" "length rows1 = length rows"
    by (auto simp: add_series_def)
  with Cons.IH [of rows1] Cons.prems show ?case by (auto simp: s add_named_def)
qed (simp add: add_named_def)

lemma add_periods_length:
  "add_periods pre f closes ps rows = Inr rows' \<Longrightarrow> length rows' = length rows"
proof (induction ps arbitrary: rows)
  case (Cons q ps)
  then obtain series rows1 where "f (nat q) closes = Inr series"
    and r1: "add_series (pre @ show_int q) series rows = Inr rows1"
    and rest: "add_periods pre f closes ps rows1 = Inr rows'" by (auto simp: add_periods_def rbind_eq_Inr)
  with Cons.IH [OF rest] add_series_lookup [OF r1] show ?case by auto
qed (simp add: add_periods_def)

lemma add_periods_take:
  assumes "\<And>q xs ys vs. f q (xs @ ys) = Inr vs \<Longrightarrow> f q xs = Inr (take (length xs) vs)"
    and "add_periods pre f (xs @ ys) ps rows = Inr rows'"
  shows "add_periods pre f xs ps (take (length xs) rows) = Inr (take (length xs) rows')"
  using assms(2)
proof (induction ps arbitrary: rows)
  case (Cons q ps)
  then obtain series rows1 where f: "f (nat q) (xs @ ys) = Inr series"
    and r1: "add_series (pre @ show_int q) series rows = Inr rows1"
    and rest: "add_periods pre f (xs @ ys) ps rows1 = Inr rows'" by (auto simp: add_periods_def rbind_eq_Inr)
  from Cons.IH [OF rest] add_series_take [OF r1] assms(1) [OF f] show ?case
    by (simp add: add_periods_def)
qed (simp add: add_periods_def)

lemma add_periods_total:
  assumes "\<And>q. 0 < q \<Longrightarrow> \<exists>vs. f q closes = Inr vs \<and> length vs = length closes"
    and "\<forall>q \<in> set ps. 0 < q" and "length rows = length closes"
  shows "\<exists>rows'. add_periods pre f closes ps rows = Inr rows' \<and> length rows' = length rows"
  using assms(2,3)
proof (induction ps arbitrary: rows)
  case (Cons q ps)
  then obtain vs where vs: "f (nat q) closes = Inr vs" "length vs = length closes"
    using assms(1) [of "nat q"] by auto
  then obtain rows1 where r1: "add_series (pre @ show_int q) vs rows = Inr rows1"
    using Cons.prems by (auto simp: add_series_def)
  with Cons.IH [of rows1] Cons.prems vs add_series_lookup [OF r1] show ?case
    by (auto simp: add_periods_def)
qed (simp add: add_periods_def)

lemma validate_ok:
  assumes "validate p = Inr ()"
  shows "\<forall>q \<in> set (all_periods p). 0 < q" and "macd_fast p < macd_slow p" and "0 < bollinger_stddev p"
    and "distinct (ma_periods p)"
  using assms
  by (auto simp: validate_def list_ex_iff not_le not_less card_distinct length_remdups_card_conv split: if_splits)

lemmas validate_periods = validate_ok(1) [unfolded all_periods_def, simplified]

lemma validate_nat:
  assumes "validate p = Inr ()"
  shows "0 < nat (rsi_period p)" and "0 < nat (macd_fast p)" and "0 < nat (macd_slow p)"
    and "0 < nat (macd_signal_period p)" and "0 < nat (kd_period p)" and "0 < nat (kd_k_smoothing p)"
    and "0 < nat (kd_d_smoothing p)" and "0 < nat (bollinger_period p)" and "0 < nat (atr_period p)"
    and "0 < nat (williams_period p)"
  using validate_periods [OF assms] by simp_all

definition columns :: "technical_parameters \<Rightarrow> candle list \<Rightarrow> decimal option list \<Rightarrow> decimal option list \<Rightarrow>
    decimal option list \<Rightarrow> (decimal option \<times> decimal option) list \<Rightarrow> decimal option list \<Rightarrow>
    decimal option list \<Rightarrow> decimal option list \<Rightarrow> decimal option list \<Rightarrow> decimal option list \<Rightarrow>
    (string \<times> decimal option list) list" where
  "columns p candles line sig hist kd ranges upper middle lower williams =
     [(''MACD'', line), (''MACD_SIGNAL'', sig), (''MACD_HISTOGRAM'', hist),
      (''KD_K'', map fst kd), (''KD_D'', map snd kd),
      (''ATR'' @ show_int (atr_period p), ranges), (''OBV'', obv candles),
      (''BBANDS_UPPER'', upper), (''BBANDS_MIDDLE'', middle), (''BBANDS_LOWER'', lower),
      (''WILLIAMS_R'', williams)]"

lemma columns_distinct: "distinct (map fst (columns p cs line sig hist kd r u m l w))"
  by (simp add: columns_def)

definition averages :: "technical_parameters \<Rightarrow> candle list \<Rightarrow> indicator_row list result" where
  "averages p candles =
     rbind (add_periods ''MA'' sma (map c_close candles) (ma_periods p) (map (\<lambda>_. []) candles)) (\<lambda>values.
     rbind (add_periods ''EMA'' ema (map c_close candles) (ema_periods p) values) (\<lambda>values.
       add_periods ''RSI'' rsi (map c_close candles) [rsi_period p] values))"

lemma calculate_steps:
  "calculate p candles = Inr rows \<longleftrightarrow>
   (\<exists>values line sig hist kd upper middle lower ranges williams.
     validate p = Inr () \<and> averages p candles = Inr values \<and>
     macd (nat (macd_fast p)) (nat (macd_slow p)) (nat (macd_signal_period p)) (map c_close candles) =
       Inr (line, sig, hist) \<and>
     stochastic (nat (kd_period p)) (nat (kd_k_smoothing p)) (nat (kd_d_smoothing p)) candles = Inr kd \<and>
     bollinger (nat (bollinger_period p)) (bollinger_stddev p) (map c_close candles) =
       Inr (upper, middle, lower) \<and>
     atr (nat (atr_period p)) candles = Inr ranges \<and>
     williams_r (nat (williams_period p)) candles = Inr williams \<and>
     add_named (columns p candles line sig hist kd ranges upper middle lower williams) values = Inr rows)"
  by (simp add: calculate_def averages_def columns_def Let_def rbind_eq_Inr) blast

lemma macd_total:
  assumes "0 < f" and "0 < s" and "0 < k"
  shows "\<exists>line sig hist. macd f s k xs = Inr (line, sig, hist)"
proof -
  obtain a b where a: "ema f xs = Inr a" and b: "ema s xs = Inr b" using ema_total assms by blast
  have "leading_none (map2 option_sub a b)"
    by (rule option_sub_leading_none) (use a b ema_length in \<open>auto intro: ema_leading_none\<close>)
  then obtain j ws where line: "map2 option_sub a b = replicate j None @ map Some ws"
    by (auto simp: leading_none_def)
  obtain g where "ema k ws = Inr g" using ema_total assms(3) by blast
  then have "macd_signal k (map2 option_sub a b) = Inr (replicate j None @ g)"
    by (simp add: line macd_signal_leading_none [OF assms(3)])
  with a b show ?thesis by (simp add: macd_def Let_def)
qed

lemma averages_total:
  assumes "validate p = Inr ()"
  shows "\<exists>values. averages p candles = Inr values \<and> length values = length candles"
proof -
  have pos: "\<forall>q \<in> set (ma_periods p). 0 < q" "\<forall>q \<in> set (ema_periods p). 0 < q" "0 < rsi_period p"
    using validate_periods [OF assms] by auto
  have f: "0 < q \<Longrightarrow> \<exists>vs. sma q xs = Inr vs \<and> length vs = length xs"
    "0 < q \<Longrightarrow> \<exists>vs. ema q xs = Inr vs \<and> length vs = length xs"
    "0 < q \<Longrightarrow> \<exists>vs. rsi q xs = Inr vs \<and> length vs = length xs" for q xs
    using sma_eq [of q xs] ema_total [of q xs] ema_length [of q xs] rsi_total [of q xs] by auto
  obtain v1 where v1: "add_periods ''MA'' sma (map c_close candles) (ma_periods p) (map (\<lambda>_. []) candles) = Inr v1"
    "length v1 = length candles"
    using add_periods_total [where f = sma, OF f(1) pos(1), where rows = "map (\<lambda>_. []) candles" and closes = "map c_close candles"] by auto
  obtain v2 where v2: "add_periods ''EMA'' ema (map c_close candles) (ema_periods p) v1 = Inr v2"
    "length v2 = length candles"
    using add_periods_total [where f = ema, OF f(2) pos(2), where rows = v1 and closes = "map c_close candles"] v1 by auto
  have "\<exists>v3. add_periods ''RSI'' rsi (map c_close candles) [rsi_period p] v2 = Inr v3 \<and> length v3 = length candles"
    using add_periods_total [where f = rsi, OF f(3), where ps = "[rsi_period p]" and rows = v2 and closes = "map c_close candles"] v2 pos(3) by auto
  with v1 v2 show ?thesis by (simp add: averages_def)
qed

lemma columns_length:
  assumes "calculate p candles = Inr rows"
  shows "length rows = length candles"
proof -
  from assms obtain vs named where v: "validate p = Inr ()" "averages p candles = Inr vs"
    and named: "distinct (map fst named)" "add_named named vs = Inr rows"
    unfolding calculate_steps using columns_distinct by metis
  from add_named_lookup [OF named] averages_total [OF v(1), of candles] v(2) show ?thesis by simp
qed

lemma calculate_runs:
  assumes "validate p = Inr ()"
  shows "\<exists>rows. calculate p candles = Inr rows \<and> length rows = length candles"
proof -
  note pos = validate_nat [OF assms]
  obtain vs where vs: "averages p candles = Inr vs" "length vs = length candles"
    using averages_total [OF assms] by blast
  obtain line sig hist where mc: "macd (nat (macd_fast p)) (nat (macd_slow p)) (nat (macd_signal_period p))
      (map c_close candles) = Inr (line, sig, hist)" using macd_total [OF pos(2-4)] by blast
  obtain kd where kd: "stochastic (nat (kd_period p)) (nat (kd_k_smoothing p)) (nat (kd_d_smoothing p)) candles = Inr kd"
    "length kd = length candles" using stochastic_total [OF pos(5-7)] by blast
  obtain u m l where bb: "bollinger (nat (bollinger_period p)) (bollinger_stddev p) (map c_close candles) = Inr (u, m, l)"
    using bollinger_total [OF pos(8) order_less_imp_le [OF validate_ok(3) [OF assms]]] by blast
  obtain ar where ar: "atr (nat (atr_period p)) candles = Inr ar" "length ar = length candles"
    using atr_total [OF pos(9)] by blast
  obtain w where w: "williams_r (nat (williams_period p)) candles = Inr w" "length w = length candles"
    using williams_total [OF pos(10)] by blast
  have "\<forall>s \<in> set (columns p candles line sig hist kd ar u m l w). length (snd s) = length vs"
    using macd_prefix [where xs = "map c_close candles" and ys = "[]"] mc
      bollinger_prefix [where xs = "map c_close candles" and ys = "[]"] bb kd(2) ar(2) w(2) vs(2)
    by (simp add: columns_def)
  from add_named_total [OF this] obtain rows where
    rows: "add_named (columns p candles line sig hist kd ar u m l w) vs = Inr rows" "length rows = length candles"
    using vs by auto
  with assms vs mc kd bb ar w show ?thesis unfolding calculate_steps by blast
qed

text \<open>The columns of the table are the series of the indicators.\<close>

lemma calculate_columns:
  assumes "calculate p candles = Inr rows"
  shows "\<exists>r line sig hist kd u m l ar w.
     rsi (nat (rsi_period p)) (map c_close candles) = Inr r \<and>
     macd (nat (macd_fast p)) (nat (macd_slow p)) (nat (macd_signal_period p)) (map c_close candles) =
       Inr (line, sig, hist) \<and>
     stochastic (nat (kd_period p)) (nat (kd_k_smoothing p)) (nat (kd_d_smoothing p)) candles = Inr kd \<and>
     bollinger (nat (bollinger_period p)) (bollinger_stddev p) (map c_close candles) = Inr (u, m, l) \<and>
     atr (nat (atr_period p)) candles = Inr ar \<and>
     williams_r (nat (williams_period p)) candles = Inr w \<and>
     (\<forall>i < length rows. \<forall>k. map_of (rows ! i) (''RSI'' @ show_int (rsi_period p)) = Some (r ! i) \<and>
       (map_of (columns p candles line sig hist kd ar u m l w) k \<noteq> None \<longrightarrow>
        map_of (rows ! i) k = map_option (\<lambda>s. s ! i) (map_of (columns p candles line sig hist kd ar u m l w) k)))"
proof -
  from assms obtain vs line sig hist kd u m l ar w where v: "validate p = Inr ()"
    and vs: "averages p candles = Inr vs"
    and steps: "macd (nat (macd_fast p)) (nat (macd_slow p)) (nat (macd_signal_period p)) (map c_close candles) =
       Inr (line, sig, hist)"
     "stochastic (nat (kd_period p)) (nat (kd_k_smoothing p)) (nat (kd_d_smoothing p)) candles = Inr kd"
     "bollinger (nat (bollinger_period p)) (bollinger_stddev p) (map c_close candles) = Inr (u, m, l)"
     "atr (nat (atr_period p)) candles = Inr ar" "williams_r (nat (williams_period p)) candles = Inr w"
    and named: "add_named (columns p candles line sig hist kd ar u m l w) vs = Inr rows"
    unfolding calculate_steps by blast
  let ?cols = "columns p candles line sig hist kd ar u m l w"
  from vs obtain v2 r where r: "rsi (nat (rsi_period p)) (map c_close candles) = Inr r"
    and v3: "add_series (''RSI'' @ show_int (rsi_period p)) r v2 = Inr vs"
    by (auto simp: averages_def add_periods_def rbind_eq_Inr)
  note look = add_named_lookup [OF columns_distinct named]
  have absent: "map_of ?cols (''RSI'' @ x) = None" for x by (simp add: columns_def)
  have "map_of (rows ! i) (''RSI'' @ show_int (rsi_period p)) = Some (r ! i)" if "i < length rows" for i
    using look [of "''RSI'' @ show_int (rsi_period p)"] absent
      add_series_lookup [OF v3, of "''RSI'' @ show_int (rsi_period p)"] that by simp
  moreover have "map_of (rows ! i) k = map_option (\<lambda>s. s ! i) (map_of ?cols k)"
    if "i < length rows" "map_of ?cols k \<noteq> None" for i k
    using look [of k] that by auto
  ultimately show ?thesis using r steps by blast
qed

text \<open>
  C17. No row depends on a later candle: the table of a prefix of the candles is the prefix of the
  table, so a value, once computed for a closed bar, is not repainted.
\<close>

lemma calculate_no_lookahead:
  assumes "calculate p (xs @ ys) = Inr rows"
  shows "calculate p xs = Inr (take (length xs) rows)"
proof -
  from assms obtain vs line sig hist kd u m l ar w where v: "validate p = Inr ()"
    and vs: "averages p (xs @ ys) = Inr vs"
    and mc: "macd (nat (macd_fast p)) (nat (macd_slow p)) (nat (macd_signal_period p))
      (map c_close xs @ map c_close ys) = Inr (line, sig, hist)"
    and kd: "stochastic (nat (kd_period p)) (nat (kd_k_smoothing p)) (nat (kd_d_smoothing p)) (xs @ ys) = Inr kd"
    and bb: "bollinger (nat (bollinger_period p)) (bollinger_stddev p) (map c_close xs @ map c_close ys) = Inr (u, m, l)"
    and ar: "atr (nat (atr_period p)) (xs @ ys) = Inr ar"
    and w: "williams_r (nat (williams_period p)) (xs @ ys) = Inr w"
    and named: "add_named (columns p (xs @ ys) line sig hist kd ar u m l w) vs = Inr rows"
    unfolding calculate_steps map_append by blast
  have averages: "averages p xs = Inr (take (length xs) vs)"
  proof -
    from vs obtain v1 v2 where
      "add_periods ''MA'' sma (map c_close xs @ map c_close ys) (ma_periods p) (map (\<lambda>_. []) (xs @ ys)) = Inr v1"
      "add_periods ''EMA'' ema (map c_close xs @ map c_close ys) (ema_periods p) v1 = Inr v2"
      "add_periods ''RSI'' rsi (map c_close xs @ map c_close ys) [rsi_period p] v2 = Inr vs"
      by (auto simp: averages_def rbind_eq_Inr simp del: append_Cons)
    then show ?thesis
      using add_periods_take [of sma, OF sma.F_prefix] add_periods_take [of ema, OF ema.F_prefix]
        add_periods_take [of rsi, OF rsi.F_prefix]
      by (fastforce simp: averages_def)
  qed
  have "columns p xs (take (length xs) line) (take (length xs) sig) (take (length xs) hist)
      (take (length xs) kd) (take (length xs) ar) (take (length xs) u) (take (length xs) m)
      (take (length xs) l) (take (length xs) w) =
    map (apsnd (take (length xs))) (columns p (xs @ ys) line sig hist kd ar u m l w)"
    using obv.F_prefix [of xs ys] by (simp add: columns_def take_map)
  then show ?thesis
    unfolding calculate_steps
    using v averages macd_prefix [OF mc] stochastic.F_prefix [OF kd] bollinger_prefix [OF bb]
      atr.F_prefix [OF ar] williams.F_prefix [OF w] add_named_take [OF named, of "length xs"]
    by simp
qed

section \<open>Properties of the table\<close>

text \<open>
  C18. With valid parameters the service raises nothing, whatever the candles (none, fewer than a
  period, flat ranges, missing volumes): it returns exactly one row per candle.
\<close>

lemma calculate_total:
  assumes "validate p = Inr ()"
  shows "\<exists>rows. calculate p candles = Inr rows \<and> length rows = length candles"
  by (rule calculate_runs [OF assms])

definition example_candle :: "decimal \<Rightarrow> decimal \<Rightarrow> decimal \<Rightarrow> decimal \<Rightarrow> candle" where
  "example_candle opn high low cls =
     \<lparr>c_trade_date = 1, c_open = opn, c_high = high, c_low = low, c_close = cls,
      c_volume_shares = Some 1000, c_turnover_amount = None\<rparr>"

definition example_candles :: "candle list" where
  "example_candles = [example_candle 10 12 9 11, example_candle 11 15 11 14, example_candle 14 14 14 14]"

definition example_parameters :: technical_parameters where
  "example_parameters = default_parameters\<lparr>kd_period := 2, williams_period := 2, rsi_period := 2,
     bollinger_period := 2\<rparr>"

lemma example_valid: "validate example_parameters = Inr ()" and default_valid: "validate default_parameters = Inr ()"
  by (simp_all add: validate_def all_periods_def example_parameters_def default_parameters_def)

lemma example_ok: "\<forall>c \<in> set example_candles. candle_ok c"
  by (simp add: example_candles_def example_candle_def candle_ok_def)

lemma calculate_total_witness:
  "\<exists>rows. calculate default_parameters example_candles = Inr rows \<and> length rows = 3"
  using calculate_total [OF default_valid, of example_candles] by (simp add: example_candles_def numeral_3_eq_3)

lemma calculate_no_lookahead_witness:
  "\<exists>rows. calculate example_parameters (example_candles @ [example_candle 14 20 13 19]) = Inr rows \<and>
     calculate example_parameters example_candles = Inr (take 3 rows)"
proof -
  obtain rows where rows: "calculate example_parameters (example_candles @ [example_candle 14 20 13 19]) = Inr rows"
    using calculate_runs [OF example_valid] by blast
  from calculate_no_lookahead [OF rows] rows show ?thesis by (simp add: example_candles_def numeral_3_eq_3)
qed

text \<open>
  The RSI column exists in every row and every value in it is a percentage, for arbitrary
  closes (the formula divides by a possibly zero average loss and rounds at every step).
\<close>

lemma calculate_rsi_percent:
  assumes "calculate p candles = Inr rows" and "row \<in> set rows"
  shows "\<exists>v. map_of row (''RSI'' @ show_int (rsi_period p)) = Some v \<and> percent_ok v"
proof -
  from calculate_columns [OF assms(1)] obtain r where
    r: "rsi (nat (rsi_period p)) (map c_close candles) = Inr r" and
    row: "\<forall>i < length rows. map_of (rows ! i) (''RSI'' @ show_int (rsi_period p)) = Some (r ! i)"
    by blast
  have "0 < nat (rsi_period p)" using assms(1) validate_nat(1) by (auto simp: calculate_steps)
  with r rsi_total [of "nat (rsi_period p)" "map c_close candles"]
  have "length r = length candles" and "Some v \<in> set r \<Longrightarrow> 0 \<le> v \<and> v \<le> 100" for v by auto
  moreover obtain i where "i < length rows" "row = rows ! i" using assms(2) by (auto simp: in_set_conv_nth)
  moreover have "percent_ok (r ! i)" if "i < length r" for i
    using that calculation(2) by (cases "r ! i") (metis nth_mem percent_ok.simps)+
  ultimately show ?thesis using row columns_length [OF assms(1)] by auto
qed

text \<open>
  The stochastic oscillator stays within 0 and 100 for candles whose close lies between low
  and high: the ratio, both smoothings and their roundings keep the range, whenever the smoothing
  periods are exact in 28 digits.
\<close>

lemma calculate_kd_percent:
  assumes "calculate p candles = Inr rows" and "row \<in> set rows"
    and "\<forall>c \<in> set candles. candle_ok c"
    and "kd_k_smoothing p \<le> 10 ^ 20" and "kd_d_smoothing p \<le> 10 ^ 20"
  shows "\<exists>k d. map_of row ''KD_K'' = Some k \<and> map_of row ''KD_D'' = Some d \<and> percent_ok k \<and> percent_ok d"
proof -
  from calculate_columns [OF assms(1)] obtain line sig hist kd u m l ar w where
    kd: "stochastic (nat (kd_period p)) (nat (kd_k_smoothing p)) (nat (kd_d_smoothing p)) candles = Inr kd" and
    row: "\<And>i k. i < length rows \<Longrightarrow> map_of (columns p candles line sig hist kd ar u m l w) k \<noteq> None \<Longrightarrow>
        map_of (rows ! i) k = map_option (\<lambda>s. s ! i) (map_of (columns p candles line sig hist kd ar u m l w) k)"
    by blast
  have pos: "0 < nat (kd_period p)" "0 < nat (kd_k_smoothing p)" "0 < nat (kd_d_smoothing p)"
    using assms(1) validate_nat by (auto simp: calculate_steps)
  have len: "length kd = length candles" using kd by (rule stochastic.F_length)
  have ok: "\<forall>q \<in> set kd. percent_ok (fst q) \<and> percent_ok (snd q)"
    by (rule stochastic_bounds [OF pos(2,3) _ _ assms(3) kd]) (use assms(4,5) pos in simp_all)
  obtain i where i: "i < length rows" "row = rows ! i" using assms(2) by (auto simp: in_set_conv_nth)
  then have "map_of row ''KD_K'' = Some (fst (kd ! i))" "map_of row ''KD_D'' = Some (snd (kd ! i))"
    using row [of i "''KD_K''"] row [of i "''KD_D''"] len columns_length [OF assms(1)]
    by (simp_all add: columns_def)
  with ok i len columns_length [OF assms(1)] show ?thesis by auto
qed

text \<open>
  Williams R lies between -100 and 0 whenever it is defined, for candles whose close lies
  between low and high.
\<close>

lemma calculate_williams_range:
  assumes "calculate p candles = Inr rows" and "row \<in> set rows" and "\<forall>c \<in> set candles. candle_ok c"
  shows "\<exists>v. map_of row ''WILLIAMS_R'' = Some v \<and> (\<forall>x. v = Some x \<longrightarrow> - 100 \<le> x \<and> x \<le> 0)"
proof -
  from calculate_columns [OF assms(1)] obtain line sig hist kd u m l ar w where
    w: "williams_r (nat (williams_period p)) candles = Inr w" and
    row: "\<And>i k. i < length rows \<Longrightarrow> map_of (columns p candles line sig hist kd ar u m l w) k \<noteq> None \<Longrightarrow>
        map_of (rows ! i) k = map_option (\<lambda>s. s ! i) (map_of (columns p candles line sig hist kd ar u m l w) k)"
    by blast
  have len: "length w = length candles" using w by (rule williams.F_length)
  obtain i where i: "i < length rows" "row = rows ! i" using assms(2) by (auto simp: in_set_conv_nth)
  then have "map_of row ''WILLIAMS_R'' = Some (w ! i)"
    using row [of i "''WILLIAMS_R''"] by (simp add: columns_def)
  moreover have "w ! i \<in> set w" using i len columns_length [OF assms(1)] by simp
  ultimately show ?thesis using williams_bounds [OF assms(3) w] by auto
qed

text \<open>
  The oscillators stay in their ranges: in every row RSI, K and D are percentages (RSI for
  arbitrary closes) and Williams R lies between -100 and 0, whenever they are defined, although each
  of them divides, may divide by zero and rounds at every step; the smoothing periods must be exact
  in 28 digits.
\<close>

lemma calculate_oscillators_bounded:
  assumes "calculate p candles = Inr rows" and "row \<in> set rows" and "\<forall>c \<in> set candles. candle_ok c"
    and "kd_k_smoothing p \<le> 10 ^ 20" and "kd_d_smoothing p \<le> 10 ^ 20"
  shows "\<exists>r k d w. map_of row (''RSI'' @ show_int (rsi_period p)) = Some r \<and> map_of row ''KD_K'' = Some k \<and>
    map_of row ''KD_D'' = Some d \<and> map_of row ''WILLIAMS_R'' = Some w \<and>
    percent_ok r \<and> percent_ok k \<and> percent_ok d \<and> (\<forall>x. w = Some x \<longrightarrow> - 100 \<le> x \<and> x \<le> 0)"
  using calculate_rsi_percent [OF assms(1,2)] calculate_kd_percent [OF assms] calculate_williams_range [OF assms(1-3)]
  by blast

lemma calculate_oscillators_bounded_witness:
  "\<exists>rows. calculate example_parameters example_candles = Inr rows \<and> rows \<noteq> [] \<and>
     (\<exists>k w. map_of (last rows) ''KD_K'' = Some k \<and> map_of (last rows) ''WILLIAMS_R'' = Some w \<and> percent_ok k \<and>
        (\<forall>x. w = Some x \<longrightarrow> - 100 \<le> x \<and> x \<le> 0))"
proof -
  obtain rows where rows: "calculate example_parameters example_candles = Inr rows" "length rows = 3"
    using calculate_runs [OF example_valid, of example_candles] by (auto simp: example_candles_def)
  then have "rows \<noteq> []" by auto
  with calculate_oscillators_bounded [OF rows(1) _ example_ok, of "last rows"] rows show ?thesis
    by (auto simp: example_parameters_def default_parameters_def)
qed

text \<open>
  The Bollinger bands exist exactly from the first full window on, there the middle band is the
  rounded mean of the last closes, and the lower band is never above it nor the upper band below
  it, in spite of the two precisions the code mixes.
\<close>

lemma calculate_bands_ordered:
  assumes "calculate p candles = Inr rows" and "i < length rows"
  shows "\<exists>u m l. map_of (rows ! i) ''BBANDS_UPPER'' = Some u \<and> map_of (rows ! i) ''BBANDS_MIDDLE'' = Some m \<and>
    map_of (rows ! i) ''BBANDS_LOWER'' = Some l \<and>
    (if int i + 1 < bollinger_period p then u = None \<and> m = None \<and> l = None
     else \<exists>a b c. l = Some a \<and> m = Some b \<and> u = Some c \<and> a \<le> b \<and> b \<le> c \<and>
       mean prec (window (nat (bollinger_period p)) i (map c_close candles)) = Inr b)"
proof -
  from calculate_columns [OF assms(1)] obtain line sig hist kd u m l ar w where
    bb: "bollinger (nat (bollinger_period p)) (bollinger_stddev p) (map c_close candles) = Inr (u, m, l)" and
    row: "\<And>i k. i < length rows \<Longrightarrow> map_of (columns p candles line sig hist kd ar u m l w) k \<noteq> None \<Longrightarrow>
        map_of (rows ! i) k = map_option (\<lambda>s. s ! i) (map_of (columns p candles line sig hist kd ar u m l w) k)"
    by blast
  let ?n = "nat (bollinger_period p)"
  have valid: "0 < ?n" "0 \<le> bollinger_stddev p"
    using assms(1) validate_nat(8) validate_ok(3) by (auto simp: calculate_steps less_imp_le)
  have i: "i < length (map c_close candles)" using assms columns_length by simp
  from bollinger_total [OF valid, of "map c_close candles"] bb i
  have m: "m ! i = sma_at ?n (map c_close candles) i" and
    ends: "if i + 1 < ?n then u ! i = None \<and> l ! i = None
      else \<exists>a b c. u ! i = Some c \<and> sma_at ?n (map c_close candles) i = Some b \<and> l ! i = Some a \<and> a \<le> b \<and> b \<le> c"
    by auto
  have cols: "map_of (rows ! i) ''BBANDS_UPPER'' = Some (u ! i)" "map_of (rows ! i) ''BBANDS_MIDDLE'' = Some (m ! i)"
    "map_of (rows ! i) ''BBANDS_LOWER'' = Some (l ! i)"
    using row [OF assms(2), of "''BBANDS_UPPER''"] row [OF assms(2), of "''BBANDS_MIDDLE''"]
      row [OF assms(2), of "''BBANDS_LOWER''"] by (simp_all add: columns_def)
  show ?thesis
  proof (cases "i + 1 < ?n")
    case True
    then have "int i + 1 < bollinger_period p" by linarith
    with cols ends m True show ?thesis by (simp add: sma_at_def)
  next
    case False
    then have ge: "\<not> int i + 1 < bollinger_period p" by linarith
    have "length (window ?n i (map c_close candles)) = ?n" using False i by (simp add: window_length)
    then have "mean prec (window ?n i (map c_close candles)) =
        Inr (dctx (dsum prec (window ?n i (map c_close candles)) / of_nat ?n))"
      using mean_total [of "window ?n i (map c_close candles)" prec] valid(1) by fastforce
    with cols ends m False ge show ?thesis by (auto simp: sma_at_def)
  qed
qed

lemma calculate_bands_ordered_witness:
  "\<exists>rows u m l. calculate example_parameters example_candles = Inr rows \<and>
    map_of (rows ! 2) ''BBANDS_UPPER'' = Some u \<and> map_of (rows ! 2) ''BBANDS_MIDDLE'' = Some m \<and>
    map_of (rows ! 2) ''BBANDS_LOWER'' = Some l \<and>
    (\<exists>a b c. l = Some a \<and> m = Some b \<and> u = Some c \<and> a \<le> b \<and> b \<le> c)"
proof -
  obtain rows where rows: "calculate example_parameters example_candles = Inr rows" "length rows = 3"
    using calculate_runs [OF example_valid, of example_candles] by (auto simp: example_candles_def)
  from calculate_bands_ordered [OF rows(1), of 2] rows show ?thesis
    by (simp add: example_parameters_def default_parameters_def) blast
qed

end
