(* ===== verification/PyText.thy ===== *)
theory PyText
  imports PyDecimal PyDate
begin

text \<open>
  Python texts and what the standard library reads from them and writes into them: upper and lower
  case, \<open>strip\<close>, decimal digits, \<open>str(uuid)\<close> and \<open>UUID(text)\<close>, \<open>Decimal(text)\<close> and the \<open>f\<close> format of a
  database decimal, \<open>strptime\<close> and \<open>strftime\<close> of a date and time. A text is the list of its UTF-8
  bytes; case, digits and white space are those of the ASCII characters. Every writer is paired with
  its reader by a round-trip lemma.
\<close>

section \<open>Characters\<close>

text \<open>\<open>str.upper\<close> and \<open>str.lower\<close> on ASCII text.\<close>

definition upper_char :: "char \<Rightarrow> char" where
  "upper_char c =
     (let n = of_char c :: nat in if 97 \<le> n \<and> n \<le> 122 then char_of (n - 32) else c)"

definition upper :: "string \<Rightarrow> string" where
  "upper s = map upper_char s"

definition lower_char :: "char \<Rightarrow> char" where
  "lower_char c = (let n = of_char c :: nat in if 65 \<le> n \<and> n \<le> 90 then char_of (n + 32) else c)"

definition lower :: "string \<Rightarrow> string" where
  "lower s = map lower_char s"

definition is_digit_char :: "char \<Rightarrow> bool" where
  "is_digit_char c \<longleftrightarrow> (let n = of_char c :: nat in 48 \<le> n \<and> n \<le> 57)"

definition is_space :: "char \<Rightarrow> bool" where
  "is_space c \<longleftrightarrow> (let n = of_char c :: nat in 9 \<le> n \<and> n \<le> 13 \<or> 28 \<le> n \<and> n \<le> 32)"

definition strip_by :: "(char \<Rightarrow> bool) \<Rightarrow> string \<Rightarrow> string" where
  "strip_by p s = rev (dropWhile p (rev (dropWhile p s)))"

definition strip :: "string \<Rightarrow> string" where
  "strip s = strip_by is_space s"

lemma strip_by_id:
  assumes "s \<noteq> [] \<Longrightarrow> \<not> p (hd s)" and "s \<noteq> [] \<Longrightarrow> \<not> p (last s)"
  shows "strip_by p s = s"
proof -
  have front: "dropWhile p s = s" using assms(1) by (cases s) simp_all
  have "dropWhile p (rev s) = rev s" using assms(2) by (cases s rule: rev_cases) simp_all
  with front show ?thesis by (simp add: strip_by_def)
qed

lemma strip_by_none: "(\<And>c. c \<in> set s \<Longrightarrow> \<not> p c) \<Longrightarrow> strip_by p s = s"
  by (rule strip_by_id) simp_all

lemma strip_id: "(\<And>c. c \<in> set s \<Longrightarrow> \<not> is_space c) \<Longrightarrow> strip s = s"
  by (simp add: strip_def strip_by_none)

section \<open>Decimal digits\<close>

definition digit_char :: "nat \<Rightarrow> char" where
  "digit_char n = char_of (n + 48)"

definition digit_value :: "char \<Rightarrow> nat" where
  "digit_value c = of_char c - 48"

definition nat_of_digits :: "string \<Rightarrow> nat" where
  "nat_of_digits s = foldl (\<lambda>n c. 10 * n + digit_value c) 0 s"

text \<open>\<open>str(n)\<close>, and the last \<open>k\<close> digits of a number.\<close>

fun nat_text :: "nat \<Rightarrow> string" where
  "nat_text n = (if n < 10 then [digit_char n] else nat_text (n div 10) @ [digit_char (n mod 10)])"

declare nat_text.simps [simp del]

fun fixed_digits :: "nat \<Rightarrow> nat \<Rightarrow> string" where
  "fixed_digits 0 n = []"
| "fixed_digits (Suc k) n = fixed_digits k (n div 10) @ [digit_char (n mod 10)]"

definition int_text :: "int \<Rightarrow> string" where
  "int_text i = (if i < 0 then CHR ''-'' # nat_text (nat (- i)) else nat_text (nat i))"

lemma digit_char_code: "n < 10 \<Longrightarrow> of_char (digit_char n) = n + 48"
  by (simp add: digit_char_def)

lemma digit_value_char [simp]: "n < 10 \<Longrightarrow> digit_value (digit_char n) = n"
  by (simp add: digit_value_def digit_char_code)

lemma is_digit_digit [simp]: "n < 10 \<Longrightarrow> is_digit_char (digit_char n)"
  by (simp add: is_digit_char_def digit_char_code)

lemma nat_of_digits_snoc [simp]: "nat_of_digits (s @ [c]) = 10 * nat_of_digits s + digit_value c"
  by (simp add: nat_of_digits_def)

lemma nat_of_digits_Nil [simp]: "nat_of_digits [] = 0"
  by (simp add: nat_of_digits_def)

lemma nat_of_nat_text [simp]: "nat_of_digits (nat_text n) = n"
proof (induction n rule: nat_text.induct)
  case (1 n)
  show ?case
  proof (cases "n < 10")
    case True
    then have "nat_text n = [] @ [digit_char n]" by (simp add: nat_text.simps)
    then show ?thesis using True nat_of_digits_snoc [of "[]"] by simp
  next
    case False
    then show ?thesis using 1 by (subst nat_text.simps) simp
  qed
qed

lemma nat_text_digits: "c \<in> set (nat_text n) \<Longrightarrow> is_digit_char c"
proof (induction n arbitrary: c rule: nat_text.induct)
  case (1 n)
  show ?case
  proof (cases "n < 10")
    case False
    with 1 show ?thesis by (subst (asm) (2) nat_text.simps) auto
  qed (use 1 in \<open>simp add: nat_text.simps\<close>)
qed

lemma nat_text_nonempty [simp]: "nat_text n \<noteq> []"
  by (subst nat_text.simps) simp

lemma fixed_digits_length [simp]: "length (fixed_digits k n) = k"
  by (induction k arbitrary: n) simp_all

lemma fixed_digits_digits: "c \<in> set (fixed_digits k n) \<Longrightarrow> is_digit_char c"
  by (induction k arbitrary: n) auto

lemma nat_of_fixed_digits: "nat_of_digits (fixed_digits k n) = n mod 10 ^ k"
proof (induction k arbitrary: n)
  case (Suc k)
  have "n mod 10 ^ Suc k = 10 * (n div 10 mod 10 ^ k) + n mod 10"
    by (simp add: mod_mult2_eq)
  with Suc show ?case by simp
qed simp

lemma nat_of_digits_append:
  "nat_of_digits (s @ t) = nat_of_digits s * 10 ^ length t + nat_of_digits t"
proof (induction t rule: rev_induct)
  case (snoc c t)
  then show ?case by (simp add: algebra_simps flip: append_assoc)
qed simp

lemma not_digit_simps [simp]:
  "\<not> is_digit_char CHR ''-''" "\<not> is_digit_char CHR ''.''" "\<not> is_digit_char CHR '':''"
  "\<not> is_digit_char CHR '' ''" "\<not> is_digit_char CHR ''e''" "\<not> is_digit_char CHR ''E''"
  "\<not> is_digit_char CHR ''+''" "\<not> is_digit_char CHR ''_''"
  by (simp_all add: is_digit_char_def)

lemma digit_not_space: "is_digit_char c \<Longrightarrow> \<not> is_space c"
  by (simp add: is_digit_char_def is_space_def Let_def)

text \<open>A digit is none of the characters a reader looks for.\<close>

lemma digit_ne:
  assumes "is_digit_char c"
  shows "c \<noteq> CHR ''-''" "c \<noteq> CHR ''+''" "c \<noteq> CHR ''.''" "c \<noteq> CHR ''e''" "c \<noteq> CHR ''E''" "c \<noteq> CHR ''_''"
    "c \<noteq> CHR '':''" "c \<noteq> CHR '' ''"
  using assms by auto

section \<open>Identifiers\<close>

text \<open>\<open>str(uuid)\<close>: 32 hexadecimal digits in groups of 8, 4, 4, 4 and 12.\<close>

fun hex_text :: "nat \<Rightarrow> nat \<Rightarrow> string" where
  "hex_text 0 n = []"
| "hex_text (Suc k) n = hex_text k (n div 16) @ [''0123456789abcdef'' ! (n mod 16)]"

definition uuid_text :: "uuid \<Rightarrow> string" where
  "uuid_text n =
     (let h = hex_text 32 n in
      take 8 h @ ''-'' @ take 4 (drop 8 h) @ ''-'' @ take 4 (drop 12 h) @ ''-'' @ take 4 (drop 16 h) @ ''-'' @ drop 20 h)"

definition hex_value :: "char \<Rightarrow> nat option" where
  "hex_value c =
     (let n = of_char c :: nat in
      if 48 \<le> n \<and> n \<le> 57 then Some (n - 48)
      else if 97 \<le> n \<and> n \<le> 102 then Some (n - 87)
      else if 65 \<le> n \<and> n \<le> 70 then Some (n - 55) else None)"

text \<open>Digits of base 16 with single underscores between them.\<close>

fun hex_digits :: "nat \<Rightarrow> string \<Rightarrow> nat option" where
  "hex_digits acc [] = Some acc"
| "hex_digits acc (c # s) =
     (case hex_value c of
        Some d \<Rightarrow> hex_digits (16 * acc + d) s
      | None \<Rightarrow> (case s of d # s' \<Rightarrow>
          if c = CHR ''_'' then (case hex_value d of Some v \<Rightarrow> hex_digits (16 * acc + v) s' | None \<Rightarrow> None) else None
        | [] \<Rightarrow> None))"

definition hex_number :: "string \<Rightarrow> nat option" where
  "hex_number s = (case s of [] \<Rightarrow> None | c # s' \<Rightarrow> (case hex_value c of None \<Rightarrow> None | Some d \<Rightarrow> hex_digits d s'))"

text \<open>\<open>int(text, 16)\<close>: white space around it, a sign, a prefix \<open>0x\<close>.\<close>

definition signed :: "string \<Rightarrow> bool \<times> string" where
  "signed s = (case s of c # s' \<Rightarrow>
     if c = CHR ''-'' then (True, s') else if c = CHR ''+'' then (False, s') else (False, s) | [] \<Rightarrow> (False, s))"

definition int16_of :: "string \<Rightarrow> int option" where
  "int16_of text =
     (let (negative, s) = signed (strip text);
          s = (if lower (take 2 s) = ''0x'' then
                 (if take 1 (drop 2 s) = ''_'' then drop 3 s else drop 2 s) else s)
      in map_option (\<lambda>n. if negative then - int n else int n) (hex_number s))"

text \<open>\<open>text.replace(p, "")\<close>\<close>

function remove_all :: "string \<Rightarrow> string \<Rightarrow> string" where
  "remove_all p s =
     (if s = [] then []
      else if p \<noteq> [] \<and> take (length p) s = p then remove_all p (drop (length p) s)
      else hd s # remove_all p (tl s))"
  by pat_completeness auto
termination by (relation "measure (\<lambda>(p, s). length s)") auto

declare remove_all.simps [simp del]

text \<open>\<open>UUID(text)\<close>\<close>

definition uuid_of_text :: "string \<Rightarrow> uuid option" where
  "uuid_of_text text =
     (let h = filter (\<lambda>c. c \<noteq> CHR ''-'')
                (strip_by (\<lambda>c. c = CHR ''{'' \<or> c = CHR ''}'') (remove_all ''uuid:'' (remove_all ''urn:'' text)))
      in if length h \<noteq> 32 then None
         else case int16_of h of None \<Rightarrow> None
           | Some i \<Rightarrow> if 0 \<le> i \<and> i < 2 ^ 128 then Some (nat i) else None)"

lemma hex_text_digits: "set (hex_text k n) \<subseteq> set ''0123456789abcdef''"
proof (induction k arbitrary: n)
  case (Suc k)
  have "''0123456789abcdef'' ! (n mod 16) \<in> set ''0123456789abcdef''" by (rule nth_mem) simp
  with Suc [of "n div 16"] show ?case by simp
qed simp

lemma hex_text_length: "length (hex_text k n) = k"
  by (induction k arbitrary: n) simp_all

lemma uuid_text_head: "hd (uuid_text n) \<in> set ''0123456789abcdef''"
proof -
  have "hex_text 32 n \<noteq> []" using hex_text_length [of 32 n] by auto
  then have "hd (uuid_text n) = hd (hex_text 32 n)" by (simp add: uuid_text_def Let_def hd_append)
  then show ?thesis using hex_text_digits [of 32 n] hd_in_set [OF \<open>hex_text 32 n \<noteq> []\<close>] by auto
qed

definition hex_alphabet :: "char set" where
  "hex_alphabet = set ''0123456789abcdef''"

definition plain_hex :: "char \<Rightarrow> bool" where
  "plain_hex c \<longleftrightarrow> hex_value c \<noteq> None \<and> \<not> is_space c \<and> c \<noteq> CHR ''-'' \<and> c \<noteq> CHR ''+'' \<and> c \<noteq> CHR ''u'' \<and> c \<noteq> CHR ''x'' \<and>
     lower_char c \<noteq> CHR ''x'' \<and> c \<noteq> CHR ''{'' \<and> c \<noteq> CHR ''}''"

lemma hex_digit_plain: "c \<in> hex_alphabet \<Longrightarrow> plain_hex c"
proof -
  have "list_all plain_hex ''0123456789abcdef''" by code_simp
  then show "c \<in> hex_alphabet \<Longrightarrow> ?thesis" by (simp only: list_all_iff hex_alphabet_def)
qed

lemmas hex_digit_chars = hex_digit_plain [unfolded plain_hex_def]

lemma hex_text_alphabet: "set (hex_text k n) \<subseteq> hex_alphabet"
  unfolding hex_alphabet_def by (rule hex_text_digits)

lemma hex_value_digit: "d < 16 \<Longrightarrow> hex_value (''0123456789abcdef'' ! d) = Some d"
proof -
  have "list_all (\<lambda>d. hex_value (''0123456789abcdef'' ! d) = Some d) [0..<16]" by code_simp
  then show "d < 16 \<Longrightarrow> ?thesis" by (simp add: list_all_iff)
qed

lemma hex_digits_snoc:
  "hex_digits acc s = Some n \<Longrightarrow> hex_value c = Some d \<Longrightarrow> hex_digits acc (s @ [c]) = Some (16 * n + d)"
  by (induction acc s rule: hex_digits.induct) (auto split: option.splits list.splits if_splits)

lemma hex_digits_text: "hex_digits 0 (hex_text k n) = Some (n mod 16 ^ k)"
proof (induction k arbitrary: n)
  case (Suc k)
  have "n mod 16 ^ Suc k = 16 * (n div 16 mod 16 ^ k) + n mod 16"
    by (simp add: mod_mult2_eq)
  then show ?case using hex_digits_snoc [OF Suc [of "n div 16"] hex_value_digit [of "n mod 16"]] by simp
qed simp

lemma hex_number_text: "0 < k \<Longrightarrow> hex_number (hex_text k n) = Some (n mod 16 ^ k)"
proof -
  assume "0 < k"
  then obtain c s where cs: "hex_text k n = c # s"
    using hex_text_length [of k n] by (cases "hex_text k n") auto
  then have "c \<in> hex_alphabet" using hex_text_alphabet [of k n] by auto
  then obtain d where "hex_value c = Some d" using hex_digit_chars by blast
  then show ?thesis using hex_digits_text [of k n] by (simp add: cs hex_number_def)
qed

lemma remove_all_absent: "c \<in> set p \<Longrightarrow> c \<notin> set s \<Longrightarrow> remove_all p s = s"
proof (induction s)
  case (Cons a s)
  have "take (length p) (a # s) \<noteq> p"
    using Cons.prems in_set_takeD [of c "length p" "a # s"] by auto
  with Cons show ?case by (subst remove_all.simps) simp
qed (simp add: remove_all.simps)

lemma uuid_text_chars: "set (uuid_text n) \<subseteq> insert CHR ''-'' hex_alphabet"
proof -
  have "set (take i (drop j (hex_text 32 n))) \<subseteq> hex_alphabet"
    and "set (take i (hex_text 32 n)) \<subseteq> hex_alphabet"
    and "set (drop i (hex_text 32 n)) \<subseteq> hex_alphabet" for i j
    using hex_text_alphabet [of 32 n] by (meson order_trans set_take_subset set_drop_subset)+
  then show ?thesis unfolding uuid_text_def Let_def set_append
    by (intro Un_least) (simp_all add: subset_insertI2)
qed

lemma uuid_text_no_space: "c \<in> set (uuid_text n) \<Longrightarrow> \<not> is_space c"
  using uuid_text_chars [of n] hex_digit_chars [of c] by (auto simp: is_space_def)

lemma filter_take: "(\<And>c. c \<in> set h \<Longrightarrow> P c) \<Longrightarrow> filter P (take i (drop j h)) = take i (drop j h)"
  by (meson filter_True in_set_dropD in_set_takeD)

lemma uuid_text_hex: "filter (\<lambda>c. c \<noteq> CHR ''-'') (uuid_text n) = hex_text 32 n"
proof -
  define h where "h = hex_text 32 n"
  have h: "c \<noteq> CHR ''-''" if "c \<in> set h" for c
    using that hex_text_alphabet [of 32 n] hex_digit_chars [of c] by (auto simp: h_def)
  have parts: "drop i h = take 4 (drop i h) @ drop (i + 4) h" for i
    using append_take_drop_id [of 4 "drop i h"] by (simp add: add.commute)
  have "h = take 8 h @ take 4 (drop 8 h) @ take 4 (drop 12 h) @ take 4 (drop 16 h) @ drop 20 h"
    using parts [of 8] parts [of 12] parts [of 16] append_take_drop_id [of 8 h] by simp
  moreover have "filter (\<lambda>c. c \<noteq> CHR ''-'') (take i (drop j h)) = take i (drop j h)"
    "filter (\<lambda>c. c \<noteq> CHR ''-'') (drop j h) = drop j h"
    "filter (\<lambda>c. c \<noteq> CHR ''-'') (take i h) = take i h" for i j
    using filter_take [of h "\<lambda>c. c \<noteq> CHR ''-''", OF h] filter_take [of h "\<lambda>c. c \<noteq> CHR ''-''" "length h" j, OF h]
      filter_take [of h "\<lambda>c. c \<noteq> CHR ''-''" i 0, OF h] by simp_all
  ultimately show ?thesis unfolding uuid_text_def Let_def h_def [symmetric] by (simp only: filter_append) simp
qed

text \<open>The reader takes back what the writer wrote.\<close>

lemma uuid_round_trip: "n < 2 ^ 128 \<Longrightarrow> uuid_of_text (uuid_text n) = Some n"
proof -
  assume n: "n < 2 ^ 128"
  have u: "CHR ''u'' \<notin> set (uuid_text n)"
    using uuid_text_chars [of n] hex_digit_chars [of "CHR ''u''"] by auto
  have all: "remove_all ''uuid:'' (remove_all ''urn:'' (uuid_text n)) = uuid_text n"
    using remove_all_absent [OF _ u] by simp
  have "c \<noteq> CHR ''{'' \<and> c \<noteq> CHR ''}''" if "c \<in> set (uuid_text n)" for c
    using that uuid_text_chars [of n] hex_digit_chars [of c] by auto
  then have braces: "strip_by (\<lambda>c. c = CHR ''{'' \<or> c = CHR ''}'') (uuid_text n) = uuid_text n"
    by (intro strip_by_none) blast
  have member: "plain_hex c" if "c \<in> set (hex_text 32 n)" for c
    using that hex_text_alphabet [of 32 n] hex_digit_plain [of c] by auto
  have space: "strip (hex_text 32 n) = hex_text 32 n"
    using member by (intro strip_id) (simp add: plain_hex_def)
  obtain c d s where cds: "hex_text 32 n = c # d # s"
    using hex_text_length [of 32 n] by (cases "hex_text 32 n" rule: remdups_adj.cases) auto
  have "plain_hex c" "plain_hex d" using member by (simp_all add: cds)
  then have "signed (hex_text 32 n) = (False, hex_text 32 n)" "lower (take 2 (hex_text 32 n)) \<noteq> ''0x''"
    by (auto simp: signed_def cds plain_hex_def lower_def)
  then have "int16_of (hex_text 32 n) = Some (int n)"
    using n hex_number_text [of 32 n] by (simp add: int16_of_def space)
  then show ?thesis using n by (simp add: uuid_of_text_def all braces uuid_text_hex hex_text_length)
qed

section \<open>Decimals\<close>

text \<open>
  What \<open>Decimal(text)\<close> can be: a sign, a coefficient and an exponent, an infinity, or not a number.
  \<open>str\<close> of a finite decimal determines the three parts, so two decimals have the same text exactly
  when they are equal here.
\<close>

datatype py_dec = DNumber bool nat int | DInfinity bool | DNaN

fun dec_value :: "py_dec \<Rightarrow> decimal" where
  "dec_value (DNumber negative c e) = (if negative then - 1 else 1) * of_nat c * 10 powi e"
| "dec_value _ = 0"

definition all_digits :: "string \<Rightarrow> bool" where
  "all_digits s \<longleftrightarrow> list_all is_digit_char s"

definition exponent_of :: "string \<Rightarrow> int option" where
  "exponent_of s =
     (case s of [] \<Rightarrow> Some 0
      | _ # s' \<Rightarrow>
         (let (negative, ds) = signed s' in
          if ds = [] \<or> \<not> all_digits ds then None
          else Some ((if negative then - 1 else 1) * int (nat_of_digits ds))))"

text \<open>A numeric text without its sign: digits with at most one point, and an exponent.\<close>

definition number_of_text :: "bool \<Rightarrow> string \<Rightarrow> py_dec option" where
  "number_of_text negative s =
     (let mantissa = takeWhile (\<lambda>c. c \<noteq> CHR ''e'' \<and> c \<noteq> CHR ''E'') s;
          whole = takeWhile is_digit_char mantissa;
          rest = drop (length whole) mantissa;
          fraction = tl rest
      in if (rest \<noteq> [] \<and> (hd rest \<noteq> CHR ''.'' \<or> \<not> all_digits fraction)) \<or> whole @ fraction = [] then None
         else map_option (\<lambda>e. DNumber negative (nat_of_digits (whole @ fraction)) (e - int (length fraction)))
                (exponent_of (drop (length mantissa) s)))"

definition decimal_of_text :: "string \<Rightarrow> py_dec option" where
  "decimal_of_text text =
     (let (negative, s) = signed (filter (\<lambda>c. c \<noteq> CHR ''_'') (strip text)); word = lower s in
      if word = ''inf'' \<or> word = ''infinity'' then Some (DInfinity negative)
      else if take 3 word = ''nan'' \<and> all_digits (drop 3 s) \<or> take 4 word = ''snan'' \<and> all_digits (drop 4 s)
      then Some DNaN
      else number_of_text negative s)"

text \<open>\<open>int(d)\<close> truncates; it raises for the values that are not finite.\<close>

fun int_of_dec :: "py_dec \<Rightarrow> int result" where
  "int_of_dec (DNumber negative c e) =
     Inr ((if negative then - 1 else 1) * \<lfloor>of_nat c * 10 powi e :: decimal\<rfloor>)"
| "int_of_dec (DInfinity _) = Inl OverflowError"
| "int_of_dec DNaN = Inl ValueError"

text \<open>\<open>d <= 0\<close> and \<open>d < 0\<close>; comparing what is not a number raises.\<close>

fun dec_not_positive :: "py_dec \<Rightarrow> bool result" where
  "dec_not_positive (DInfinity negative) = Inr negative"
| "dec_not_positive DNaN = Inl DecimalError"
| "dec_not_positive d = Inr (dec_value d \<le> 0)"

fun dec_negative :: "py_dec \<Rightarrow> bool result" where
  "dec_negative (DInfinity negative) = Inr negative"
| "dec_negative DNaN = Inl DecimalError"
| "dec_negative d = Inr (dec_value d < 0)"

text \<open>\<open>f"{d:f}"\<close> of a decimal with \<open>k\<close> places, as the database returns a \<open>NUMERIC\<close> of that scale.\<close>

definition scaled :: "nat \<Rightarrow> decimal \<Rightarrow> nat" where
  "scaled k q = nat \<lfloor>\<bar>q\<bar> * 10 ^ k\<rfloor>"

definition places_text :: "nat \<Rightarrow> decimal \<Rightarrow> string" where
  "places_text k q =
     (if q < 0 then ''-'' else []) @ nat_text (scaled k q div 10 ^ k) @ CHR ''.'' # fixed_digits k (scaled k q mod 10 ^ k)"

text \<open>\<open>str(d)\<close>; a NaN is written without its payload.\<close>

definition dec_text :: "py_dec \<Rightarrow> string" where
  "dec_text d =
     (case d of DNaN \<Rightarrow> ''NaN'' | DInfinity negative \<Rightarrow> (if negative then ''-Infinity'' else ''Infinity'')
      | DNumber negative c e \<Rightarrow>
          (let digits = nat_text c; n = int (length digits); left = e + n;
               dot = (if e \<le> 0 \<and> - 6 < left then left else 1);
               body = (if dot \<le> 0 then ''0.'' @ replicate (nat (- dot)) (CHR ''0'') @ digits
                       else if n \<le> dot then digits @ replicate (nat (dot - n)) (CHR ''0'')
                       else take (nat dot) digits @ ''.'' @ drop (nat dot) digits);
               shift = left - dot
           in (if negative then ''-'' else []) @ body @
              (if shift = 0 then [] else ''E'' @ (if 0 \<le> shift then ''+'' else []) @ int_text shift)))"

definition has_places :: "nat \<Rightarrow> decimal \<Rightarrow> bool" where
  "has_places k q \<longleftrightarrow> of_int \<lfloor>q * 10 ^ k\<rfloor> = q * 10 ^ k"

lemma scaled_exact: "has_places k q \<Longrightarrow> of_nat (scaled k q) = \<bar>q\<bar> * 10 ^ k"
proof -
  assume "has_places k q"
  then obtain i :: int where i: "q * 10 ^ k = of_int i" unfolding has_places_def by metis
  have "\<bar>q\<bar> * 10 ^ k = \<bar>q * 10 ^ k\<bar>" by (simp add: abs_mult)
  then have "\<bar>q\<bar> * 10 ^ k = of_int \<bar>i\<bar>" by (simp add: i)
  then show ?thesis by (simp add: scaled_def)
qed

definition places_dec :: "nat \<Rightarrow> decimal \<Rightarrow> py_dec" where
  "places_dec k q = DNumber (q < 0) (scaled k q) (- int k)"

lemma places_dec_value: "has_places k q \<Longrightarrow> dec_value (places_dec k q) = q"
  by (simp add: places_dec_def scaled_exact power_int_minus)

lemma number_places:
  assumes "0 < k"
  shows "number_of_text negative (nat_text (n div 10 ^ k) @ CHR ''.'' # fixed_digits k (n mod 10 ^ k)) =
    Some (DNumber negative n (- int k))"
proof -
  let ?w = "nat_text (n div 10 ^ k)" and ?f = "fixed_digits k (n mod 10 ^ k)"
  have w: "\<forall>c \<in> set ?w. is_digit_char c" using nat_text_digits by blast
  have f: "\<forall>c \<in> set ?f. is_digit_char c" using fixed_digits_digits by blast
  let ?s = "?w @ CHR ''.'' # ?f"
  have mantissa: "takeWhile (\<lambda>c. c \<noteq> CHR ''e'' \<and> c \<noteq> CHR ''E'') ?s = ?s"
    using w f by (intro takeWhile_eq_all_conv [THEN iffD2]) auto
  have whole: "takeWhile is_digit_char ?s = ?w" using w by (simp add: takeWhile_append2)
  have rest: "drop (length ?w) ?s = CHR ''.'' # ?f" "drop (length ?s) ?s = []" by simp_all
  have "all_digits ?f" using f by (simp add: all_digits_def list_all_iff)
  moreover have "nat_of_digits (?w @ ?f) = n"
    by (simp add: nat_of_digits_append nat_of_fixed_digits div_mult_mod_eq)
  ultimately show ?thesis
    unfolding number_of_text_def Let_def mantissa whole rest by (simp add: exponent_of_def)
qed

lemma digit_lower: "is_digit_char c \<Longrightarrow> lower_char c = c"
  by (simp add: is_digit_char_def lower_char_def Let_def)

text \<open>The reader takes back the text of a database decimal.\<close>

lemma decimal_round_trip:
  assumes "0 < k"
  shows "decimal_of_text (places_text k q) = Some (places_dec k q)"
proof -
  let ?s = "nat_text (scaled k q div 10 ^ k) @ CHR ''.'' # fixed_digits k (scaled k q mod 10 ^ k)"
  have chars: "is_digit_char c \<or> c = CHR ''.''" if "c \<in> set ?s" for c
    using that nat_text_digits fixed_digits_digits by auto
  have plain: "\<not> is_space c \<and> c \<noteq> CHR ''_''" if "c \<in> set (places_text k q)" for c
    using that chars [of c] digit_not_space [of c] digit_ne(6) [of c]
    by (auto simp: places_text_def is_space_def)
  then have "filter (\<lambda>c. c \<noteq> CHR ''_'') (strip (places_text k q)) = places_text k q"
    by (simp add: strip_id)
  moreover obtain c s where cs: "nat_text (scaled k q div 10 ^ k) = c # s"
    by (cases "nat_text (scaled k q div 10 ^ k)") simp_all
  then have c: "is_digit_char c" using nat_text_digits [of c "scaled k q div 10 ^ k"] by simp
  then have "signed (places_text k q) = (q < 0, ?s)"
    using digit_ne [of c] by (simp add: places_text_def signed_def cs)
  moreover have head: "lower_char c = c" "c \<noteq> CHR ''i''" "c \<noteq> CHR ''n''" "c \<noteq> CHR ''s''"
    using c digit_lower by (auto simp: is_digit_char_def)
  ultimately show ?thesis
    using number_places [OF assms, of "q < 0" "scaled k q"]
    by (simp add: decimal_of_text_def lower_def cs places_dec_def)
qed

lemma places_text_no_space: "c \<in> set (places_text k q) \<Longrightarrow> \<not> is_space c"
  using nat_text_digits fixed_digits_digits digit_not_space [of c]
  by (auto simp: places_text_def is_space_def split: if_splits)

section \<open>Dates and times\<close>

definition minute :: int where "minute = 60 * 1000000"

definition hour :: int where "hour = 60 * minute"

definition day_length :: int where "day_length = 24 * hour"

text \<open>\<open>Asia/Taipei\<close> is eight hours ahead of UTC.\<close>

definition taipei_offset :: int where "taipei_offset = 8 * hour"

text \<open>The ordinal of the first of January 1970, and the first instant a \<open>datetime\<close> can hold.\<close>

definition epoch_ordinal :: int where "epoch_ordinal = 719163"

definition min_instant :: instant where "min_instant = (1 - epoch_ordinal) * day_length"

definition days_in_month :: "int \<Rightarrow> int \<Rightarrow> int" where
  "days_in_month y m =
     (if m = 2 \<and> is_leap y then 29 else [31, 28, 31, 30, 31, 30, 31, 31, 30, 31, 30, 31] ! nat (m - 1))"

definition ord2day :: "date \<Rightarrow> int" where
  "ord2day d = d - days_before_year (ord2year d) - days_before_month (ord2year d) (ord2month d)"

text \<open>A field of one or two digits within its range.\<close>

definition number_field :: "nat \<Rightarrow> nat \<Rightarrow> string \<Rightarrow> nat option" where
  "number_field lo hi s =
     (if s \<noteq> [] \<and> length s \<le> 2 \<and> all_digits s \<and> lo \<le> nat_of_digits s \<and> nat_of_digits s \<le> hi
      then Some (nat_of_digits s) else None)"

text \<open>The text up to a separator, and what follows it.\<close>

definition cut :: "char \<Rightarrow> string \<Rightarrow> (string \<times> string) option" where
  "cut c s = (case dropWhile (\<lambda>x. x \<noteq> c) s of [] \<Rightarrow> None | _ # r \<Rightarrow> Some (takeWhile (\<lambda>x. x \<noteq> c) s, r))"

text \<open>\<open>%H:%M:%S\<close> to the end of the text: microseconds; second 60 and 61 are read, then refused.\<close>

definition clock_of_text :: "string \<Rightarrow> int option" where
  "clock_of_text s =
     (case cut CHR '':'' s of None \<Rightarrow> None | Some (hs, r) \<Rightarrow>
        (case cut CHR '':'' r of None \<Rightarrow> None | Some (ms, ss) \<Rightarrow>
           (case (number_field 0 23 hs, number_field 0 59 ms, number_field 0 61 ss) of
              (Some h, Some m, Some sec) \<Rightarrow>
                if sec \<le> 59 then Some (int h * hour + int m * minute + int sec * 1000000) else None
            | _ \<Rightarrow> None)))"

text \<open>The day: one or two digits, or a space and one digit.\<close>

definition day_field :: "string \<Rightarrow> (nat \<times> string) option" where
  "day_field s =
     (let (ds, r) = (if take 1 s = '' '' then (take 1 (tl s), drop 1 (tl s))
                     else (takeWhile is_digit_char s, dropWhile is_digit_char s))
      in map_option (\<lambda>d. (d, r)) (number_field 1 31 ds))"

text \<open>\<open>datetime.strptime(text, "%Y-%m-%d %H:%M:%S")\<close>, in microseconds of the local clock since 1970.\<close>

definition strptime :: "string \<Rightarrow> int option" where
  "strptime text =
     (case cut CHR ''-'' text of None \<Rightarrow> None | Some (ys, r) \<Rightarrow>
        if length ys \<noteq> 4 \<or> \<not> all_digits ys then None
        else (case cut CHR ''-'' r of None \<Rightarrow> None | Some (ms, r) \<Rightarrow>
          (case (number_field 1 12 ms, day_field r) of
             (Some m, Some (d, r)) \<Rightarrow>
               if take 1 (takeWhile is_space r) = [] then None
               else (case clock_of_text (dropWhile is_space r) of None \<Rightarrow> None | Some t \<Rightarrow>
                 let y = int (nat_of_digits ys) in
                 if y < 1 \<or> days_in_month y (int m) < int d then None
                 else Some ((ymd2ord y (int m) (int d) - epoch_ordinal) * day_length + t))
           | _ \<Rightarrow> None)))"

text \<open>\<open>dt.replace(tzinfo=Asia/Taipei).astimezone(UTC)\<close>\<close>

definition taipei_to_utc :: "int \<Rightarrow> instant result" where
  "taipei_to_utc local =
     (if local - taipei_offset < min_instant then Inl OverflowError else Inr (local - taipei_offset))"

text \<open>\<open>strftime("%Y-%m-%d")\<close> and \<open>strftime("%H:%M:%S")\<close>\<close>

definition local_date :: "int \<Rightarrow> date" where
  "local_date local = local div day_length + epoch_ordinal"

definition date_text :: "int \<Rightarrow> string" where
  "date_text local =
     (let d = local_date local in
      nat_text (nat (ord2year d)) @ ''-'' @ fixed_digits 2 (nat (ord2month d)) @ ''-'' @ fixed_digits 2 (nat (ord2day d)))"

definition clock_text :: "int \<Rightarrow> string" where
  "clock_text local =
     (let t = local mod day_length in
      fixed_digits 2 (nat (t div hour)) @ '':'' @ fixed_digits 2 (nat (t mod hour div minute)) @ '':'' @
      fixed_digits 2 (nat (t mod minute div 1000000)))"

text \<open>\<open>isoformat()\<close> of an instant in UTC\<close>

definition iso_text :: "instant \<Rightarrow> string" where
  "iso_text t =
     (let d = local_date t; micro = t mod 1000000 in
      fixed_digits 4 (nat (ord2year d)) @ ''-'' @ fixed_digits 2 (nat (ord2month d)) @ ''-'' @
      fixed_digits 2 (nat (ord2day d)) @ ''T'' @ clock_text t @
      (if micro = 0 then [] else ''.'' @ fixed_digits 6 (nat micro)) @ ''+00:00'')"

lemma time_units: "minute = 60000000" "hour = 3600000000" "day_length = 86400000000"
  by (simp_all add: minute_def hour_def day_length_def)

lemma field_two: "n < 100 \<Longrightarrow> lo \<le> n \<Longrightarrow> n \<le> hi \<Longrightarrow> number_field lo hi (fixed_digits 2 n) = Some n"
  using fixed_digits_digits [of _ 2 n] fixed_digits_length [of 2 n]
  by (simp add: number_field_def all_digits_def list_all_iff nat_of_fixed_digits flip: length_greater_0_conv
      del: fixed_digits.simps)

lemma cut_append: "c \<notin> set s \<Longrightarrow> cut c (s @ c # r) = Some (s, r)"
proof -
  assume "c \<notin> set s"
  then have "\<forall>x \<in> set s. x \<noteq> c" by metis
  then show ?thesis by (simp add: cut_def dropWhile_append2 takeWhile_append2)
qed

lemma digits_lack: "\<not> is_digit_char c \<Longrightarrow> c \<notin> set (fixed_digits k n)" "\<not> is_digit_char c \<Longrightarrow> c \<notin> set (nat_text n)"
  using fixed_digits_digits [of c] nat_text_digits [of c] by blast+

lemma mod_parts:
  fixes t :: int
  assumes "0 \<le> t" "t < 86400000000" "t mod 1000000 = 0"
  shows "t div 3600000000 * 3600000000 + t mod 3600000000 div 60000000 * 60000000 +
    t mod 60000000 div 1000000 * 1000000 = t"
proof -
  have "t mod 3600000000 mod 60000000 = t mod 60000000" "t mod 60000000 mod 1000000 = t mod 1000000"
    by (simp_all add: mod_mod_cancel)
  then show ?thesis
    using assms(3) div_mult_mod_eq [of t 3600000000] div_mult_mod_eq [of "t mod 3600000000" 60000000]
      div_mult_mod_eq [of "t mod 60000000" 1000000] by linarith
qed

lemma clock_of_parts:
  assumes "h \<le> 23" "m \<le> 59" "sec \<le> 59"
  shows "clock_of_text (fixed_digits 2 h @ CHR '':'' # fixed_digits 2 m @ CHR '':'' # fixed_digits 2 sec) =
    Some (int h * hour + int m * minute + int sec * 1000000)"
  using assms by (simp add: clock_of_text_def cut_append digits_lack field_two del: fixed_digits.simps)

lemma clock_round_trip:
  assumes "local mod 1000000 = 0"
  shows "clock_of_text (clock_text local) = Some (local mod day_length)"
proof -
  define t where "t = local mod day_length"
  have t: "0 \<le> t" "t < 86400000000" "t mod 1000000 = 0"
    using assms by (simp_all add: t_def time_units mod_mod_cancel)
  let ?h = "nat (t div hour)" and ?m = "nat (t mod hour div minute)" and ?s = "nat (t mod minute div 1000000)"
  have ranges: "?h \<le> 23" "?m \<le> 59" "?s \<le> 59" using t by (simp_all add: time_units)
  have parts: "clock_text local = fixed_digits 2 ?h @ CHR '':'' # fixed_digits 2 ?m @ CHR '':'' # fixed_digits 2 ?s"
    by (simp add: clock_text_def Let_def t_def del: fixed_digits.simps)
  have nn: "0 \<le> t div hour" "0 \<le> t mod hour div minute" "0 \<le> t mod minute div 1000000"
    using t by (simp_all add: time_units pos_imp_zdiv_nonneg_iff)
  have ints: "int ?h = t div hour" "int ?m = t mod hour div minute" "int ?s = t mod minute div 1000000"
    using nn by (simp_all only: nat_0_le)
  have sum: "int ?h * hour + int ?m * minute + int ?s * 1000000 = t"
    unfolding ints unfolding time_units by (rule mod_parts [OF t])
  show ?thesis
    unfolding parts clock_of_parts [OF ranges] sum t_def [symmetric] by (rule refl)
qed

text \<open>Every date has a day within its month.\<close>

definition month_start :: "bool \<Rightarrow> int \<Rightarrow> int" where
  "month_start leap m =
     [0, 31, 59, 90, 120, 151, 181, 212, 243, 273, 304, 334] ! nat (m - 1) + (if 2 < m \<and> leap then 1 else 0)"

definition month_size :: "bool \<Rightarrow> int \<Rightarrow> int" where
  "month_size leap m =
     (if m = 2 \<and> leap then 29 else [31, 28, 31, 30, 31, 30, 31, 31, 30, 31, 30, 31] ! nat (m - 1))"

definition day_table_ok :: "bool \<Rightarrow> bool" where
  "day_table_ok leap \<longleftrightarrow> list_all (\<lambda>n. let m = month_at leap n; d = n + 1 - month_start leap m in
     1 \<le> d \<and> d \<le> month_size leap m) [0..(if leap then 365 else 364)]"

lemma day_table_true: "day_table_ok True"
  by code_simp

lemma day_table_false: "day_table_ok False"
  by code_simp

lemma ord2day_range: "1 \<le> ord2day d \<and> ord2day d \<le> days_in_month (ord2year d) (ord2month d)"
proof -
  let ?leap = "is_leap (ord2year d)" and ?n = "d - 1 - days_before_year (ord2year d)"
  have table: "\<forall>n \<in> set [0..(if ?leap then 365 else 364)].
      let m = month_at ?leap n; d = n + 1 - month_start ?leap m in 1 \<le> d \<and> d \<le> month_size ?leap m"
    using day_table_true day_table_false by (cases ?leap) (simp_all only: day_table_ok_def list_all_iff)
  have "0 \<le> ?n \<and> ?n \<le> (if ?leap then 365 else 364)"
    using ord2year_bounds [of d] by (auto simp: days_before_year_step split: if_splits)
  then have mem: "?n \<in> set [0..(if ?leap then 365 else 364)]" by simp
  have "let m = month_at ?leap ?n; d = ?n + 1 - month_start ?leap m in 1 \<le> d \<and> d \<le> month_size ?leap m"
    by (rule bspec [OF table mem])
  then show ?thesis
    by (simp add: Let_def ord2day_def ord2month_at [symmetric] month_start_def month_size_def days_in_month_def
        days_before_month_def)
qed

lemma days_in_month_31: "1 \<le> m \<Longrightarrow> m \<le> 12 \<Longrightarrow> days_in_month y m \<le> 31"
proof -
  have table: "list_all (\<lambda>k. [31, 28, 31, 30, 31, 30, 31, 31, 30, 31, 30, 31] ! k \<le> (31 :: int)) [0..<12]" by code_simp
  assume "1 \<le> m" "m \<le> 12"
  then have "nat (m - 1) < 12" by simp
  with table show ?thesis unfolding list_all_iff days_in_month_def by (auto simp del: nth_Cons_numeral)
qed

lemma ymd_round_trip: "ymd2ord (ord2year d) (ord2month d) (ord2day d) = d"
  by (simp add: ymd2ord_def ord2day_def)

lemma nat_text_four:
  assumes "1000 \<le> n" and "n \<le> 9999"
  shows "length (nat_text n) = 4"
proof -
  have "n div 10 div 10 = n div 100" "n div 10 div 10 div 10 = n div 1000"
    by (simp_all flip: div_mult2_eq)
  then have big: "\<not> n < 10" "\<not> n div 10 < 10" "\<not> n div 10 div 10 < 10" and small: "n div 10 div 10 div 10 < 10"
    using assms by (simp_all add: not_less less_eq_div_iff_mult_less_eq div_less_iff_less_mult)
  have step: "length (nat_text k) = Suc (length (nat_text (k div 10)))" if "\<not> k < 10" for k
    using that by (subst nat_text.simps) simp
  have "length (nat_text (n div 10 div 10 div 10)) = 1" using small by (subst nat_text.simps) simp
  then show ?thesis by (simp only: step [OF big(1)] step [OF big(2)] step [OF big(3)])
qed

text \<open>A whole second of a four-digit year is read back from its date and its time.\<close>

lemma strptime_round_trip:
  assumes "local mod 1000000 = 0" and "1000 \<le> ord2year (local_date local)" and "ord2year (local_date local) \<le> 9999"
  shows "strptime (date_text local @ '' '' @ clock_text local) = Some local"
proof -
  define d where "d = local_date local"
  let ?y = "nat (ord2year d)" and ?m = "nat (ord2month d)" and ?d = "nat (ord2day d)"
  have y: "1000 \<le> ?y" "?y \<le> 9999" "int ?y = ord2year d" using assms(2,3) by (simp_all add: d_def)
  have m: "1 \<le> ?m" "?m \<le> 12" "int ?m = ord2month d" using ord2month_range [of d] by (simp_all add: le_nat_iff nat_le_iff)
  have day: "1 \<le> ?d" "?d \<le> 31" "int ?d = ord2day d"
    using ord2day_range [of d] days_in_month_31 [of "ord2month d" "ord2year d"] ord2month_range [of d] by (simp_all add: le_nat_iff nat_le_iff)
  let ?ds = "fixed_digits 2 ?d"
  obtain c cs where c: "?ds = c # cs" "is_digit_char c"
    using fixed_digits_length [of 2 ?d] fixed_digits_digits [of _ 2 ?d] by (cases ?ds) (auto simp del: fixed_digits.simps)
  obtain t ts where t: "clock_text local = t # ts" "is_digit_char t"
    using fixed_digits_length [of 2 "nat (local mod day_length div hour)"] fixed_digits_digits [of _ 2 "nat (local mod day_length div hour)"]
    by (cases "fixed_digits 2 (nat (local mod day_length div hour))")
      (auto simp: clock_text_def Let_def simp del: fixed_digits.simps)
  have shape: "date_text local @ '' '' @ clock_text local =
      nat_text ?y @ CHR ''-'' # fixed_digits 2 ?m @ CHR ''-'' # ?ds @ CHR '' '' # clock_text local"
    by (simp add: date_text_def Let_def d_def del: fixed_digits.simps)
  have "take 1 (?ds @ CHR '' '' # clock_text local) \<noteq> '' ''" using c by auto
  moreover have "takeWhile is_digit_char (?ds @ CHR '' '' # clock_text local) = ?ds"
    "dropWhile is_digit_char (?ds @ CHR '' '' # clock_text local) = CHR '' '' # clock_text local"
    using fixed_digits_digits [of _ 2 ?d]
    by (simp_all add: takeWhile_append2 dropWhile_append2 del: fixed_digits.simps)
  ultimately have df: "day_field (?ds @ CHR '' '' # clock_text local) = Some (?d, CHR '' '' # clock_text local)"
    using day by (simp add: day_field_def field_two del: fixed_digits.simps)
  have space: "is_space CHR '' ''" "dropWhile is_space (clock_text local) = clock_text local"
    using t digit_not_space [of t] by (simp_all add: is_space_def)
  have pos: "1 \<le> ord2year d" "0 \<le> ord2year d" "0 \<le> ord2month d" "0 \<le> ord2day d"
    using assms(2) ord2month_range [of d] ord2day_range [of d] by (simp_all add: d_def)
  have "all_digits (nat_text ?y)" using nat_text_digits by (simp add: all_digits_def list_all_iff)
  moreover have "\<not> days_in_month (ord2year d) (ord2month d) < ord2day d" using ord2day_range [of d] by simp
  moreover have "(d - epoch_ordinal) * day_length + local mod day_length = local"
    by (simp add: d_def local_date_def)
  ultimately show ?thesis
    unfolding shape strptime_def
    using pos y m day nat_text_four [OF y(1,2)]
    by (simp add: Let_def cut_append digits_lack field_two df space clock_round_trip [OF assms(1)] ymd_round_trip
        del: fixed_digits.simps)
qed

end
