(* ===== verification/PriceIngestion.thy ===== *)
theory PriceIngestion
  imports Candles IndicatorService PyText
begin

text \<open>
  The ingestion of daily prices (\<open>app/services/daily_price_ingestion.py\<close>) and the tables it writes
  (\<open>app/repositories/sql_price.py\<close>): validation, the upsert of prices, the runs that are recorded, and
  the recalculation of the technical snapshots. \<open>fetched\<close> is what the provider returns or raises, \<open>line\<close>
  the text of a record in the checksum, \<open>digest\<close> the hexadecimal SHA-256, \<open>message\<close> the text of an
  exception, \<open>numeric\<close> what a column of eight places makes of a computed value (prices have at most
  eight places and are stored as they are).
\<close>

section \<open>Tables\<close>

record stock_row =
  sr_id :: uuid
  sr_key :: security_key
  sr_type :: string
  sr_active :: bool

text \<open>A stored price: the security it belongs to, the columns of \<open>_record_values\<close> and the run that wrote them.\<close>

record stored_price =
  sp_security_id :: uuid
  sp_values :: daily_price_record
  sp_run_id :: uuid

record stored_technical =
  sh_security_id :: uuid
  sh_basis :: price_basis
  sh_trade_date :: date
  sh_columns :: "(string \<times> decimal option) list"
  sh_algorithm_version :: string
  sh_as_of :: instant
  sh_received_at :: instant
  sh_data_status :: data_status

record ingestion_run =
  ir_id :: uuid
  ir_provider :: string
  ir_dataset :: string
  ir_started_at :: instant
  ir_finished_at :: "instant option"
  ir_status :: string
  ir_fetched :: nat
  ir_inserted :: nat
  ir_updated :: nat
  ir_rejected :: nat
  ir_checksum :: "string option"
  ir_error :: "string option"
  ir_retry :: nat

record price_db =
  pd_stocks :: "stock_row list"
  pd_prices :: "stored_price list"
  pd_technicals :: "stored_technical list"
  pd_runs :: "ingestion_run list"

section \<open>Validation\<close>

definition invalid_ohlc :: "decimal \<Rightarrow> decimal \<Rightarrow> decimal \<Rightarrow> decimal \<Rightarrow> bool" where
  "invalid_ohlc opn high low cls \<longleftrightarrow> high < max opn cls \<or> min opn cls < low \<or> high < low"

definition validate_price :: "daily_price_record \<Rightarrow> string option" where
  "validate_price r =
     (case (dp_open r, dp_high r, dp_low r, dp_close r) of
        (Some opn, Some high, Some low, Some cls) \<Rightarrow>
          if invalid_ohlc opn high low cls then Some ''INVALID_OHLC''
          else (case dp_volume_shares r of
              Some v \<Rightarrow> if v < 0 then Some ''NEGATIVE_VOLUME'' else None
            | None \<Rightarrow> None)
      | _ \<Rightarrow> None)"

text \<open>\<open>code.startswith(p)\<close>\<close>

definition starts_with :: "string \<Rightarrow> string \<Rightarrow> bool" where
  "starts_with p code \<longleftrightarrow> take (length p) code = p"

definition is_expected_non_stock :: "string \<Rightarrow> bool" where
  "is_expected_non_stock code \<longleftrightarrow> 6 \<le> length code \<or>
     list_ex (\<lambda>p. starts_with p code) [''00'', ''01'', ''02'', ''03'', ''08''] \<or> starts_with ''91'' code \<or> length code = 5"

section \<open>The price repository\<close>

text \<open>\<open>_preload_security_ids\<close>: active common stocks of the markets and codes of the keys.\<close>

definition preload_security_ids :: "price_db \<Rightarrow> security_key list \<Rightarrow> security_key \<Rightarrow> uuid option" where
  "preload_security_ids db keys =
     map_of (rev (map (\<lambda>s. (sr_key s, sr_id s))
       (filter (\<lambda>s. sr_active s \<and> sr_type s = ''COMMON_STOCK'' \<and> sk_market (sr_key s) \<in> sk_market ` set keys \<and>
          sk_code (sr_key s) \<in> sk_code ` set keys) (pd_stocks db))))"

definition security_id :: "price_db \<Rightarrow> security_key \<Rightarrow> uuid option" where
  "security_id db key = preload_security_ids db [key] key"

datatype price_error = Duplicate_price | Missing_security | Calculation_error error

text \<open>\<open>_record_values\<close>: the columns of a row, none of which holds the security.\<close>

definition record_values :: "daily_price_record \<Rightarrow> daily_price_record" where
  "record_values r = r\<lparr>dp_security := \<lparr>sk_market = TWSE, sk_code = []\<rparr>\<rparr>"

text \<open>The row of a security and date, among the rows loaded before the loop and those it has added.\<close>

definition price_at :: "stored_price list \<Rightarrow> uuid \<Rightarrow> date \<Rightarrow> stored_price option" where
  "price_at rows sec d = find (\<lambda>p. sp_security_id p = sec \<and> dp_trade_date (sp_values p) = d) rows"

record upsert_state =
  us_rows :: "stored_price list"
  us_seen :: "(security_key \<times> date) set"
  us_inserted :: nat
  us_updated :: nat

definition price_key :: "daily_price_record \<Rightarrow> security_key \<times> date" where
  "price_key r = (dp_security r, dp_trade_date r)"

definition upsert_price :: "(security_key \<Rightarrow> uuid option) \<Rightarrow> uuid \<Rightarrow> upsert_state \<Rightarrow> daily_price_record \<Rightarrow>
    price_error + upsert_state" where
  "upsert_price ids run st r =
     (if price_key r \<in> us_seen st then Inl Duplicate_price
      else case ids (dp_security r) of None \<Rightarrow> Inl Missing_security
      | Some sec \<Rightarrow>
          let st = st\<lparr>us_seen := insert (price_key r) (us_seen st)\<rparr>;
              row = \<lparr>sp_security_id = sec, sp_values = record_values r, sp_run_id = run\<rparr> in
          case price_at (us_rows st) sec (dp_trade_date r) of
            None \<Rightarrow> Inr (st\<lparr>us_rows := us_rows st @ [row], us_inserted := us_inserted st + 1\<rparr>)
          | Some old \<Rightarrow>
              if sp_values old = record_values r then Inr st
              else Inr (st\<lparr>us_rows := map (\<lambda>p. if sp_security_id p = sec \<and> dp_trade_date (sp_values p) = dp_trade_date r
                  then row else p) (us_rows st), us_updated := us_updated st + 1\<rparr>))"

fun upsert_prices :: "(security_key \<Rightarrow> uuid option) \<Rightarrow> uuid \<Rightarrow> upsert_state \<Rightarrow> daily_price_record list \<Rightarrow>
    price_error + upsert_state" where
  "upsert_prices ids run st [] = Inr st"
| "upsert_prices ids run st (r # rs) =
     (case upsert_price ids run st r of Inl e \<Rightarrow> Inl e | Inr st' \<Rightarrow> upsert_prices ids run st' rs)"

text \<open>\<open>synchronize\<close>: nothing is written when it raises before its first row, as for a missing security.\<close>

definition synchronize_prices :: "uuid \<Rightarrow> price_db \<Rightarrow> daily_price_record list \<Rightarrow> price_error + upsert_state" where
  "synchronize_prices run db records =
     upsert_prices (preload_security_ids db (map dp_security records)) run
       \<lparr>us_rows = pd_prices db, us_seen = {}, us_inserted = 0, us_updated = 0\<rparr> records"

definition list_prices :: "price_db \<Rightarrow> security_key \<Rightarrow> date option \<Rightarrow> date option \<Rightarrow> daily_price_record list" where
  "list_prices db key start_date end_date =
     (case security_id db key of None \<Rightarrow> []
      | Some sec \<Rightarrow>
          map (\<lambda>p. (sp_values p)\<lparr>dp_security := key\<rparr>)
            (sort_key (\<lambda>p. dp_trade_date (sp_values p))
              (filter (\<lambda>p. sp_security_id p = sec \<and>
                 (case start_date of None \<Rightarrow> True | Some d \<Rightarrow> d \<le> dp_trade_date (sp_values p)) \<and>
                 (case end_date of None \<Rightarrow> True | Some d \<Rightarrow> dp_trade_date (sp_values p) \<le> d)) (pd_prices db))))"

definition indicator_columns :: "(string \<times> string) list" where
  "indicator_columns =
     [(''MA5'', ''ma5''), (''MA10'', ''ma10''), (''MA20'', ''ma20''), (''MA60'', ''ma60''), (''MA120'', ''ma120''),
      (''MA240'', ''ma240''), (''EMA12'', ''ema12''), (''EMA26'', ''ema26''), (''RSI14'', ''rsi14''), (''MACD'', ''macd''),
      (''MACD_SIGNAL'', ''macd_signal''), (''MACD_HISTOGRAM'', ''macd_histogram''), (''KD_K'', ''kd_k''), (''KD_D'', ''kd_d''),
      (''ATR14'', ''atr14''), (''OBV'', ''obv''), (''BBANDS_UPPER'', ''bollinger_upper''),
      (''BBANDS_MIDDLE'', ''bollinger_middle''), (''BBANDS_LOWER'', ''bollinger_lower''), (''WILLIAMS_R'', ''williams_r'')]"

record technical_snapshot =
  th_trade_date :: date
  th_values :: indicator_row
  th_as_of :: instant
  th_received_at :: instant
  th_data_status :: data_status

definition technical_version :: string where
  "technical_version = ''twml-technical-v1''"

definition stored_technical_of :: "(decimal \<Rightarrow> decimal) \<Rightarrow> uuid \<Rightarrow> price_basis \<Rightarrow> technical_snapshot \<Rightarrow> stored_technical" where
  "stored_technical_of numeric sec basis s =
     \<lparr>sh_security_id = sec, sh_basis = basis, sh_trade_date = th_trade_date s,
      sh_columns = map (\<lambda>(name, column).
        (column, map_option numeric (case map_of (th_values s) name of None \<Rightarrow> None | Some v \<Rightarrow> v))) indicator_columns,
      sh_algorithm_version = technical_version, sh_as_of = th_as_of s, sh_received_at = th_received_at s,
      sh_data_status = th_data_status s\<rparr>"

definition replace_technicals :: "(decimal \<Rightarrow> decimal) \<Rightarrow> price_db \<Rightarrow> security_key \<Rightarrow> price_basis \<Rightarrow> technical_snapshot list \<Rightarrow>
    price_error + price_db" where
  "replace_technicals numeric db key basis snapshots =
     (case security_id db key of None \<Rightarrow> Inl Missing_security
      | Some sec \<Rightarrow> Inr (db\<lparr>pd_technicals :=
          filter (\<lambda>t. \<not> (sh_security_id t = sec \<and> sh_basis t = basis)) (pd_technicals db) @
            map (stored_technical_of numeric sec basis) snapshots\<rparr>))"

text \<open>The newest 1500 snapshots, in the order of their dates.\<close>

definition list_technicals :: "price_db \<Rightarrow> security_key \<Rightarrow> price_basis \<Rightarrow> date option \<Rightarrow> date option \<Rightarrow> stored_technical list" where
  "list_technicals db key basis start_date end_date =
     (case security_id db key of None \<Rightarrow> []
      | Some sec \<Rightarrow>
          rev (take 1500 (rev (sort_key sh_trade_date
            (filter (\<lambda>t. sh_security_id t = sec \<and> sh_basis t = basis \<and>
               (case start_date of None \<Rightarrow> True | Some d \<Rightarrow> d \<le> sh_trade_date t) \<and>
               (case end_date of None \<Rightarrow> True | Some d \<Rightarrow> sh_trade_date t \<le> d)) (pd_technicals db))))))"

section \<open>A run of the ingestion\<close>

record accept_state =
  ac_unique :: "daily_price_record list"
  ac_rejected :: nat

text \<open>The first loop: the dictionary of valid records, whose keys are those of its records, and the rejections.\<close>

definition accept_record :: "(date \<Rightarrow> bool) option \<Rightarrow> accept_state \<Rightarrow> daily_price_record \<Rightarrow> accept_state" where
  "accept_record calendar st r =
     (if price_key r \<in> price_key ` set (ac_unique st) \<or> validate_price r \<noteq> None \<or>
         (case calendar of None \<Rightarrow> False | Some trading \<Rightarrow> \<not> trading (dp_trade_date r))
      then st\<lparr>ac_rejected := ac_rejected st + 1\<rparr>
      else st\<lparr>ac_unique := ac_unique st @ [r]\<rparr>)"

definition accept_records :: "(date \<Rightarrow> bool) option \<Rightarrow> daily_price_record list \<Rightarrow> accept_state" where
  "accept_records calendar records = foldl (accept_record calendar) \<lparr>ac_unique = [], ac_rejected = 0\<rparr> records"

text \<open>Without a given security, instruments other than stocks are dropped.\<close>

definition accepted_records :: "security_key option \<Rightarrow> daily_price_record list \<Rightarrow> daily_price_record list" where
  "accepted_records security unique =
     filter (\<lambda>r. \<not> (security = None \<and> is_expected_non_stock (sk_code (dp_security r)))) unique"

record group_state =
  gr_db :: price_db
  gr_inserted :: nat
  gr_updated :: nat
  gr_failed :: nat

text \<open>
  The prices of one security. A missing security fails its group; a duplicate, which cannot occur
  after the first loop, would end the run.
\<close>

definition ingest_group :: "uuid \<Rightarrow> group_state \<Rightarrow> security_key \<times> daily_price_record list \<Rightarrow> group_state result" where
  "ingest_group run st = (\<lambda>(key, records).
     case synchronize_prices run (gr_db st) records of
       Inr us \<Rightarrow> Inr (st\<lparr>gr_db := (gr_db st)\<lparr>pd_prices := us_rows us\<rparr>,
         gr_inserted := gr_inserted st + us_inserted us, gr_updated := gr_updated st + us_updated us\<rparr>)
     | Inl Missing_security \<Rightarrow> Inr (st\<lparr>gr_failed := gr_failed st + length records\<rparr>)
     | Inl Duplicate_price \<Rightarrow> Inl ValueError)"

definition checksum_of :: "(daily_price_record \<Rightarrow> string) \<Rightarrow> (string \<Rightarrow> string) \<Rightarrow> daily_price_record list \<Rightarrow> string" where
  "checksum_of line digest records =
     digest (concat (map (\<lambda>(i, s). if i = 0 then s else ''|'' @ s)
       (List.enumerate 0 (sort (map line records)))))"

definition ingest_records :: "(date \<Rightarrow> bool) option \<Rightarrow> security_key option \<Rightarrow> uuid \<Rightarrow> price_db \<Rightarrow> daily_price_record list \<Rightarrow>
    (accept_state \<times> group_state) result" where
  "ingest_records calendar security run db records =
     (let st = accept_records calendar records; accepted = accepted_records security (ac_unique st) in
      rbind (rfold (ingest_group run) \<lparr>gr_db = db, gr_inserted = 0, gr_updated = 0, gr_failed = 0\<rparr> (group_by dp_security accepted))
        (\<lambda>g. Inr (st, g)))"

definition new_run :: "uuid \<Rightarrow> string \<Rightarrow> string \<Rightarrow> instant \<Rightarrow> nat \<Rightarrow> ingestion_run" where
  "new_run i provider dataset started retry =
     \<lparr>ir_id = i, ir_provider = provider, ir_dataset = dataset, ir_started_at = started, ir_finished_at = None,
      ir_status = ''RUNNING'', ir_fetched = 0, ir_inserted = 0, ir_updated = 0, ir_rejected = 0, ir_checksum = None,
      ir_error = None, ir_retry = retry\<rparr>"

text \<open>The run that replaces it after a rollback.\<close>

definition failed_run_of :: "ingestion_run \<Rightarrow> nat \<Rightarrow> instant \<Rightarrow> string \<Rightarrow> ingestion_run" where
  "failed_run_of r fetched now text =
     r\<lparr>ir_finished_at := Some now, ir_status := ''FAILED'', ir_fetched := fetched, ir_rejected := fetched, ir_error := Some text\<rparr>"

definition store_run :: "ingestion_run \<Rightarrow> price_db \<Rightarrow> price_db" where
  "store_run r db = db\<lparr>pd_runs := pd_runs db @ [r]\<rparr>"

text \<open>
  \<open>DailyPriceIngestionService.synchronize\<close>: the result is the run or what is raised again, with the
  database after it; \<open>run\<close> is the new run, \<open>now\<close> the time at its end.
\<close>

definition synchronize_daily :: "(daily_price_record \<Rightarrow> string) \<Rightarrow> (string \<Rightarrow> string) \<Rightarrow> (error \<Rightarrow> string) \<Rightarrow>
    (date \<Rightarrow> bool) option \<Rightarrow> security_key option \<Rightarrow> uuid \<Rightarrow> string \<Rightarrow> instant \<Rightarrow> instant \<Rightarrow> nat \<Rightarrow>
    daily_price_record list result \<Rightarrow> price_db \<Rightarrow> ingestion_run result \<times> price_db" where
  "synchronize_daily line digest message calendar security i provider started now retry fetched db =
     (let run = new_run i provider ''DAILY_PRICES'' started retry in
      case fetched of
        Inl e \<Rightarrow> (Inl e, store_run (failed_run_of run 0 now (message e)) db)
      | Inr records \<Rightarrow>
          case ingest_records calendar security i db records of
            Inl e \<Rightarrow> (Inl e, store_run (failed_run_of run (length records) now (message e)) db)
          | Inr (st, g) \<Rightarrow>
              let rejected = ac_rejected st + gr_failed g;
                  done_run = run\<lparr>ir_fetched := length records, ir_inserted := gr_inserted g, ir_updated := gr_updated g,
                    ir_rejected := rejected,
                    ir_checksum := Some (checksum_of line digest (accepted_records security (ac_unique st))),
                    ir_status := (if 0 < rejected then ''PARTIAL'' else ''SUCCEEDED''), ir_finished_at := Some now\<rparr>
              in (Inr done_run, store_run done_run (gr_db g)))"

section \<open>Technical snapshots\<close>

definition snapshot_of :: "daily_price_record list \<Rightarrow> candle \<Rightarrow> indicator_row \<Rightarrow> technical_snapshot result" where
  "snapshot_of records c row =
     (case find (\<lambda>r. dp_trade_date r = c_trade_date c) (rev records) of
        None \<Rightarrow> Inl KeyError
      | Some r \<Rightarrow> Inr \<lparr>th_trade_date = c_trade_date c, th_values = row, th_as_of = dp_as_of r,
          th_received_at = dp_received_at r, th_data_status = dp_data_status r\<rparr>)"

definition calculated_snapshots :: "daily_price_record list \<Rightarrow> candle list \<Rightarrow> technical_snapshot list result" where
  "calculated_snapshots records candles =
     rbind (calculate default_parameters candles) (\<lambda>rows.
       if length candles \<noteq> length rows then Inl ValueError
       else rmap (\<lambda>(c, row). snapshot_of records c row) (zip candles rows))"

definition recalculate :: "(decimal \<Rightarrow> decimal) \<Rightarrow> price_db \<Rightarrow> security_key \<Rightarrow> price_basis \<Rightarrow> price_error + nat \<times> price_db" where
  "recalculate numeric db key basis =
     (let records = list_prices db key None None in
      case aggregate records DAY basis of
        Inl e \<Rightarrow> Inl (Calculation_error e)
      | Inr candles \<Rightarrow>
          if candles = []
          then (case replace_technicals numeric db key basis [] of Inl e \<Rightarrow> Inl e | Inr db' \<Rightarrow> Inr (0, db'))
          else case calculated_snapshots records candles of
            Inl e \<Rightarrow> Inl (Calculation_error e)
          | Inr snapshots \<Rightarrow>
              (case replace_technicals numeric db key basis snapshots of
                 Inl e \<Rightarrow> Inl e
               | Inr db' \<Rightarrow> Inr (length snapshots, db')))"

end
