(* ===== verification/PyFloat.thy ===== *)
theory PyFloat
  imports PyDecimal
begin

text \<open>
  Python's \<open>float\<close>: a finite binary64 number is its value, a \<open>rat\<close>, and an operation computes the exact
  result and rounds it to 53 binary digits, half to even. The exponent range is not modelled: the
  services form ratios of row counts only. The main fact is that comparing such a ratio with a
  threshold given in hundredths is as good as comparing the integers.
\<close>

function bit_length :: "int \<Rightarrow> nat" where
  "bit_length n = (if n < 1 then 0 else Suc (bit_length (n div 2)))"
  by pat_completeness auto
termination
  by (relation "measure nat") auto

declare bit_length.simps [simp del]

lemma bit_length_upper: "n < 2 ^ bit_length n"
proof (induction n rule: bit_length.induct)
  case (1 n)
  then show ?case by (cases "n < 1") (simp_all add: bit_length.simps [of n])
qed

lemma bit_length_lower: "0 < n \<Longrightarrow> 2 ^ (bit_length n - 1) \<le> n"
proof (induction n rule: bit_length.induct)
  case (1 n)
  show ?case
  proof (cases "n div 2 < 1")
    case True
    moreover have "bit_length 0 = 0" by (simp add: bit_length.simps)
    ultimately show ?thesis using 1 by (simp add: bit_length.simps [of n] bit_length.simps [of "n div 2"])
  next
    case False
    then obtain k where k: "bit_length (n div 2) = Suc k" by (simp add: bit_length.simps [of "n div 2"])
    then have "2 ^ k \<le> n div 2" using 1 False by simp
    then have "2 * 2 ^ k \<le> n" by simp
    then show ?thesis using 1 k by (simp add: bit_length.simps [of n])
  qed
qed

text \<open>The \<open>k\<close> with \<open>2 powi k \<le> x < 2 powi (k + 1)\<close>, from the bit lengths of numerator and denominator.\<close>

definition binary_exponent :: "rat \<Rightarrow> int" where
  "binary_exponent x =
     (let (p, q) = quotient_of x; k = int (bit_length p) - int (bit_length q)
      in if 2 powi k \<le> x then k else k - 1)"

lemma powi_2_diff: "2 powi (int a - int b) = (2 :: rat) ^ a / 2 ^ b"
  by (subst power_int_diff) simp_all

lemma binary_exponent_bounds:
  assumes "0 < x"
  shows "2 powi binary_exponent x \<le> x \<and> x < 2 powi (binary_exponent x + 1)"
proof -
  obtain p q where pq: "quotient_of x = (p, q)" by (cases "quotient_of x")
  then have q: "0 < q" by (rule quotient_of_denom_pos)
  have x: "x = of_int p / of_int q" using pq by (rule quotient_of_div)
  with assms q have p: "0 < p" by (simp add: zero_less_divide_iff)
  define m where "m = bit_length p"
  define n where "n = bit_length q"
  have mpos: "0 < m" "0 < n" using p q by (simp_all add: m_def n_def bit_length.simps [of p] bit_length.simps [of q])
  have "rat_of_int p < rat_of_int (2 ^ m)" "rat_of_int q < rat_of_int (2 ^ n)"
    "rat_of_int (2 ^ (m - 1)) \<le> rat_of_int p" "rat_of_int (2 ^ (n - 1)) \<le> rat_of_int q"
    unfolding m_def n_def of_int_less_iff of_int_le_iff
    by (rule bit_length_upper, rule bit_length_upper, rule bit_length_lower [OF p], rule bit_length_lower [OF q])
  then have b: "rat_of_int p < 2 ^ m" "rat_of_int q < 2 ^ n" "2 ^ (m - 1) \<le> rat_of_int p" "2 ^ (n - 1) \<le> rat_of_int q"
    by simp_all
  have "int m - int n - 1 = int (m - 1) - int n" using mpos by simp
  then have "2 powi (int m - int n - 1) = (2 :: rat) ^ (m - 1) / 2 ^ n" by (simp only: powi_2_diff)
  also have "\<dots> \<le> x" unfolding x using p b q by (intro frac_le) auto
  finally have lower: "2 powi (int m - int n - 1) \<le> x" .
  have "x < 2 ^ m / 2 ^ (n - 1)" unfolding x using b q by (intro frac_less) (auto simp: p less_imp_le)
  moreover have "int m - int n + 1 = int m - int (n - 1)" using mpos by simp
  ultimately have "x < 2 powi (int m - int n + 1)" by (simp only: powi_2_diff)
  with lower show ?thesis by (auto simp: binary_exponent_def pq Let_def m_def n_def)
qed

definition binary64 :: "rat \<Rightarrow> rat" where
  "binary64 x =
     (if x = 0 then 0
      else let e = binary_exponent \<bar>x\<bar> - 52
           in of_int (round_half_even (x / 2 powi e)) * 2 powi e)"

text \<open>The relative error is at most a half unit in the last of 53 digits.\<close>

lemma binary64_error: "\<bar>binary64 x - x\<bar> \<le> \<bar>x\<bar> / 2 ^ 53"
proof (cases "x = 0")
  case False
  define e where "e = binary_exponent \<bar>x\<bar> - 52"
  have pos: "(0 :: rat) < 2 powi e" by simp
  have "2 powi (e + 52) \<le> \<bar>x\<bar>" using binary_exponent_bounds [of "\<bar>x\<bar>"] False by (simp add: e_def)
  moreover have "2 powi (e + 52) = (2 :: rat) powi e * 2 ^ 52"
    using power_int_add [of "2 :: rat" e 52] by simp
  ultimately have small: "2 powi e \<le> \<bar>x\<bar> / 2 ^ 52" by (simp add: le_divide_eq)
  have "binary64 x - x = (of_int (round_half_even (x / 2 powi e)) - x / 2 powi e) * 2 powi e"
    using False pos by (simp add: binary64_def Let_def e_def left_diff_distrib)
  then have "\<bar>binary64 x - x\<bar> = \<bar>of_int (round_half_even (x / 2 powi e)) - x / 2 powi e\<bar> * 2 powi e"
    using pos by (simp add: abs_mult)
  also have "\<dots> \<le> 1 / 2 * 2 powi e"
    using round_half_even_error pos by (intro mult_right_mono) auto
  also have "\<dots> \<le> \<bar>x\<bar> / 2 ^ 53" using small by simp
  finally show ?thesis .
qed (simp add: binary64_def)

section \<open>Ratios of counts\<close>

text \<open>\<open>a / b\<close> of two integers, and a literal of a number of hundredths\<close>

definition float_ratio :: "nat \<Rightarrow> nat \<Rightarrow> rat" where
  "float_ratio a b = binary64 (of_nat a / of_nat b)"

definition hundredths :: "nat \<Rightarrow> rat" where
  "hundredths n = binary64 (of_nat n / 100)"

text \<open>\<open>round(x, 4)\<close>\<close>

definition round4 :: "rat \<Rightarrow> rat" where
  "round4 x = binary64 (of_int (round_half_even (x * 10000)) / 10000)"

lemma binary64_separated:
  assumes "0 \<le> x" and "x < y" and "(x + y) / 2 ^ 53 < y - x"
  shows "binary64 x < binary64 y"
proof -
  have "\<bar>binary64 x - x\<bar> \<le> x / 2 ^ 53" "\<bar>binary64 y - y\<bar> \<le> y / 2 ^ 53"
    using binary64_error [of x] binary64_error [of y] assms(1,2) by simp_all
  then have "binary64 x - x \<le> x / 2 ^ 53" "y - binary64 y \<le> y / 2 ^ 53" by linarith+
  moreover have "x / 2 ^ 53 + y / 2 ^ 53 < y - x" using assms(3) by (simp add: add_divide_distrib)
  ultimately show ?thesis by linarith
qed

lemma large_gap: "2 < x \<Longrightarrow> y \<le> 1 \<Longrightarrow> (y + x) / 2 ^ 53 < (x :: rat) - y"
  by simp

lemma hundredths_separated:
  assumes "0 < b" and "b < 2 ^ 40" and "n \<le> 100"
  shows "hundredths n \<le> float_ratio a b \<longleftrightarrow> n * b \<le> 100 * a"
proof -
  let ?x = "rat_of_nat a / rat_of_nat b" and ?y = "rat_of_nat n / 100"
  have b: "0 < rat_of_nat b" "rat_of_nat b < 2 ^ 40"
    using assms(1,2) by (simp, metis of_nat_less_iff of_nat_numeral of_nat_power)
  have n: "rat_of_nat n \<le> 100" using assms(3) by (metis of_nat_le_iff of_nat_numeral)
  have sum: "0 \<le> ?x" "0 \<le> ?y" "?y \<le> 1" using b n by simp_all
  have gap: "1 / (100 * rat_of_nat b) > 3 / 2 ^ 53" using b by (simp add: field_simps)
  have diff: "?x - ?y = rat_of_int (100 * int a - int n * int b) / (100 * rat_of_nat b)"
    using b by (simp add: field_simps)
  consider "100 * a = n * b" | "n * b < 100 * a" | "100 * a < n * b" by linarith
  then show ?thesis
  proof cases
    case 1
    then have "100 * int a - int n * int b = 0" by (simp flip: of_nat_mult)
    then have "?x = ?y" using diff by simp
    then show ?thesis using 1 unfolding float_ratio_def hundredths_def by (simp only: order_refl)
  next
    case 2
    then have "int n * int b < 100 * int a" by (metis of_nat_less_iff of_nat_mult of_nat_numeral)
    then have "1 \<le> rat_of_int (100 * int a - int n * int b)" by (simp only: of_int_1_le_iff)
    then have "1 / (100 * rat_of_nat b) \<le> ?x - ?y" unfolding diff using b by (intro divide_right_mono) simp_all
    then have d: "3 / 2 ^ 53 < ?x - ?y" using gap by linarith
    have "(?y + ?x) / 2 ^ 53 < ?x - ?y"
    proof (cases "?x \<le> 2")
      case True
      then have "(?y + ?x) / 2 ^ 53 \<le> 3 / 2 ^ 53" using sum by (intro divide_right_mono) simp_all
      then show ?thesis using d by linarith
    qed (use sum(3) in \<open>auto intro!: large_gap simp del: of_nat_numeral\<close>)
    moreover have "?y < ?x" using d by simp
    ultimately have "binary64 ?y < binary64 ?x" using sum by (intro binary64_separated)
    then show ?thesis using 2 by (simp add: float_ratio_def hundredths_def)
  next
    case 3
    then have "100 * int a < int n * int b" by (metis of_nat_less_iff of_nat_mult of_nat_numeral)
    then have "rat_of_int (100 * int a - int n * int b) \<le> of_int (- 1)" unfolding of_int_le_iff by linarith
    then have "?x - ?y \<le> - 1 / (100 * rat_of_nat b)" unfolding diff using b by (intro divide_right_mono) simp_all
    then have d: "3 / 2 ^ 53 < ?y - ?x" using gap by simp
    then have less: "?x < ?y" by simp
    moreover have "?x + ?y \<le> 3" using less sum(3) by linarith
    then have "(?x + ?y) / 2 ^ 53 \<le> 3 / 2 ^ 53" by (intro divide_right_mono) simp_all
    ultimately have "?x < ?y" "(?x + ?y) / 2 ^ 53 < ?y - ?x" using d by linarith+
    then have "binary64 ?x < binary64 ?y" using sum by (intro binary64_separated)
    then show ?thesis using 3 by (simp add: float_ratio_def hundredths_def)
  qed
qed

text \<open>\<open>a >= b * 0.98\<close>: an integer is compared with a float exactly.\<close>

definition float_product :: "nat \<Rightarrow> rat \<Rightarrow> rat" where
  "float_product b f = binary64 (of_nat b * f)"

lemma binary64_below_int:
  assumes "0 < v" and "v \<le> of_int a" and "a < 2 ^ 53"
  shows "binary64 v \<le> of_int a"
proof -
  define e where "e = binary_exponent v - 52"
  have "rat_of_int a < 2 ^ 53" using assms(3) by (metis of_int_less_iff of_int_numeral of_int_power)
  then have "2 powi binary_exponent v < (2 :: rat) powi 53"
    using binary_exponent_bounds [OF assms(1)] assms(2) by (simp add: power_int_numeral)
  then have "\<not> 53 \<le> binary_exponent v" using power_int_increasing [of 53 "binary_exponent v" "2 :: rat"] by force
  then have e: "e \<le> 0" by (simp add: e_def)
  have shift: "of_int a / (2 :: rat) powi e = of_int (a * 2 ^ nat (- e))"
    using e by (simp add: power_int_def field_simps)
  have "round_half_even (v / 2 powi e) \<le> a * 2 ^ nat (- e)"
    using round_half_even_mono [OF divide_right_mono [OF assms(2)], of "2 powi e"]
    unfolding shift round_half_even_of_int by simp
  then have "rat_of_int (round_half_even (v / 2 powi e)) \<le> of_int a / 2 powi e"
    unfolding shift of_int_le_iff .
  then show ?thesis using assms(1) by (simp add: binary64_def Let_def e_def le_divide_eq)
qed

lemma hundredths_98: "979 / 1000 < hundredths 98" "hundredths 98 \<le> 98 / 100"
  by code_simp+

lemma float_product_98:
  assumes "b < 2 ^ 40" and "a < 2 ^ 53"
  shows "float_product b (hundredths 98) \<le> of_nat a \<longleftrightarrow> 98 * b \<le> 100 * a"
proof (cases "b = 0")
  case False
  define h where "h = hundredths 98"
  define B where "B = rat_of_nat b"
  define A where "A = rat_of_nat a"
  have h: "979 / 1000 < h" "h \<le> 98 / 100" "98 / 100 - h \<le> 1 / 2 ^ 53"
    using hundredths_98 binary64_error [of "98 / 100"] by (simp_all add: h_def hundredths_def abs_le_iff)
  have B: "0 < B" "B < 2 ^ 40"
    using False assms(1) by (simp_all add: B_def)
  have AB: "98 * b \<le> 100 * a \<longleftrightarrow> 98 * B \<le> 100 * A" "98 * B \<le> 100 * A \<or> 100 * A + 1 \<le> 98 * B"
  proof -
    have "rat_of_nat (98 * b) \<le> rat_of_nat (100 * a) \<longleftrightarrow> 98 * b \<le> 100 * a"
      "rat_of_nat (100 * a + 1) \<le> rat_of_nat (98 * b) \<longleftrightarrow> 100 * a + 1 \<le> 98 * b"
      unfolding of_nat_le_iff by simp_all
    then show "98 * b \<le> 100 * a \<longleftrightarrow> 98 * B \<le> 100 * A" "98 * B \<le> 100 * A \<or> 100 * A + 1 \<le> 98 * B"
      by (auto simp: A_def B_def)
  qed
  have v: "0 < B * h" "B * h \<le> B" using B h mult_left_mono [of h 1 B] by simp_all
  show ?thesis
  proof (cases "98 * B \<le> 100 * A")
    case True
    have "B * h \<le> B * (98 / 100)" using h(2) B(1) by (rule mult_left_mono [OF _ less_imp_le])
    also have "\<dots> \<le> A" using True by simp
    finally have "B * h \<le> of_int (int a)" by (simp add: A_def)
    then have "binary64 (B * h) \<le> of_int (int a)"
      by (intro binary64_below_int [OF v(1)]) (use assms(2) in simp_all)
    then show ?thesis using AB(1) True by (simp add: float_product_def A_def B_def h_def)
  next
    case False
    then have gap: "100 * A + 1 \<le> 98 * B" using AB(2) by blast
    have "B * (98 / 100 - h) \<le> B * (1 / 2 ^ 53)" using h(3) B(1) by (intro mult_left_mono) simp_all
    moreover have "\<bar>binary64 (B * h) - B * h\<bar> \<le> B * h / 2 ^ 53" using binary64_error [of "B * h"] v by simp
    then have "B * h - binary64 (B * h) \<le> B * h / 2 ^ 53" by linarith
    ultimately have "B * 98 / 100 - binary64 (B * h) \<le> 2 * (B / 2 ^ 53)"
      using v(2) by (simp add: right_diff_distrib abs_le_iff)
    moreover have "2 * (B / 2 ^ 53) < 1 / 100" using B by simp
    ultimately have "A < binary64 (B * h)" using gap by linarith
    then show ?thesis using AB(1) False by (simp add: float_product_def A_def B_def h_def)
  qed
qed (simp add: float_product_def binary64_def)

end
