(* ===== verification/DataAudit.thy ===== *)
theory DataAudit
  imports MarketTypes PyFloat
begin

text \<open>
  The audit of a day's market data (\<open>app/services/data_quality_audit.py\<close>, \<open>app/domain/audit.py\<close>): the
  row counts of every dataset and the status each of them is given, the status of the whole day, and
  the search of a range of days for sessions with gaps. A table is the list of its rows, of which the
  columns the audit reads are kept. The calendar is a parameter; \<open>day_of\<close> is the database's
  \<open>date(started_at)\<close>, which depends on the time zone of the session.
\<close>

section \<open>Tables\<close>

record security_entry =
  se_id :: uuid
  se_market_id :: uuid
  se_code :: string
  se_type :: string
  se_active :: bool

record price_entry =
  pe_security_id :: uuid
  pe_trade_date :: date
  pe_close :: "decimal option"

record technical_entry =
  te_security_id :: uuid
  te_price_basis :: string
  te_trade_date :: date
  te_ma240 :: "decimal option"

record run_entry =
  re_id :: uuid
  re_provider :: string
  re_dataset :: string
  re_started_at :: instant
  re_status :: string
  re_error_message :: "string option"

text \<open>Rows of the market datasets are their market and date, futures prices their contract, date and session.\<close>

record audit_db =
  ad_markets :: "(uuid \<times> string) list"
  ad_securities :: "security_entry list"
  ad_prices :: "price_entry list"
  ad_technicals :: "technical_entry list"
  ad_runs :: "run_entry list"
  ad_breadth :: "(string \<times> date) list"
  ad_margin :: "(string \<times> date) list"
  ad_lending :: "(string \<times> date) list"
  ad_institutional :: "(string \<times> date) list"
  ad_products :: "uuid list"
  ad_contracts :: "uuid list"
  ad_futures_daily :: "(uuid \<times> date \<times> string) list"
  ad_positions :: "date list"
  ad_concentrations :: "date list"
  ad_put_calls :: "date list"
  ad_strikes :: "date list"
  ad_volatility :: "date list"
  ad_strength :: "date list"

text \<open>The unique constraints and foreign keys of \<open>app/repositories/models.py\<close> on these tables.\<close>

definition audit_constraints :: "audit_db \<Rightarrow> bool" where
  "audit_constraints db \<longleftrightarrow>
     distinct (map fst (ad_markets db)) \<and> distinct (map snd (ad_markets db)) \<and>
     distinct (map se_id (ad_securities db)) \<and>
     distinct (map (\<lambda>s. (se_market_id s, se_code s)) (ad_securities db)) \<and>
     (\<forall>s \<in> set (ad_securities db). se_market_id s \<in> fst ` set (ad_markets db)) \<and>
     distinct (map (\<lambda>p. (pe_security_id p, pe_trade_date p)) (ad_prices db)) \<and>
     distinct (map (\<lambda>t. (te_security_id t, te_price_basis t, te_trade_date t)) (ad_technicals db)) \<and>
     distinct (ad_breadth db) \<and> distinct (ad_futures_daily db)"

section \<open>Statuses and reports\<close>

datatype audit_status = COMPLETE | PARTIAL | NO_DATA | UNAVAILABLE | STALE | FAILED

record security_master_audit =
  sm_total :: nat
  sm_active :: nat
  sm_twse :: nat
  sm_tpex :: nat
  sm_inactive :: nat
  sm_duplicates :: nat
  sm_status :: audit_status

record price_audit =
  pa_market :: string
  pa_expected :: nat
  pa_rows :: nat
  pa_trading :: nat
  pa_no_trade :: nat
  pa_missing :: nat
  pa_coverage :: rat
  pa_duplicates :: nat
  pa_latest :: "date option"
  pa_status :: audit_status

record spot_audit =
  sp_breadth :: nat
  sp_margin :: nat
  sp_lending :: nat
  sp_institutional :: nat
  sp_duplicates :: nat
  sp_status :: audit_status

record derivative_audit =
  dv_dataset :: string
  dv_rows :: nat
  dv_status :: audit_status
  dv_note :: "string option"

record technicals_audit =
  ta_active :: nat
  ta_snapshot_date :: "date option"
  ta_snapshots :: nat
  ta_stale :: nat
  ta_eligible :: nat
  ta_valid :: nat
  ta_missing :: nat
  ta_duplicates :: nat
  ta_status :: audit_status

record strength_audit =
  ia_snapshot_date :: "date option"
  ia_snapshots :: nat
  ia_status :: audit_status

record duplicate_audit =
  du_securities :: nat
  du_prices :: nat
  du_technicals :: nat
  du_spot :: nat
  du_derivatives :: nat
  du_status :: audit_status

datatype day_type = WEEKEND | HOLIDAY | TRADING_DAY

record audit_report =
  ar_date :: date
  ar_trading :: bool
  ar_day_type :: day_type
  ar_securities :: security_master_audit
  ar_twse :: price_audit
  ar_tpex :: price_audit
  ar_spot :: spot_audit
  ar_derivatives :: "derivative_audit list"
  ar_technicals :: technicals_audit
  ar_strength :: strength_audit
  ar_duplicates :: duplicate_audit
  ar_overall :: audit_status

section \<open>Queries\<close>

text \<open>The number of groups with more than one row, and the greatest date.\<close>

definition duplicate_groups :: "'a list \<Rightarrow> nat" where
  "duplicate_groups keys = length (filter (\<lambda>k. 1 < count_list keys k) (remdups keys))"

definition latest_date :: "date list \<Rightarrow> date option" where
  "latest_date ds = (case ds of [] \<Rightarrow> None | d # r \<Rightarrow> Some (foldl max d r))"

text \<open>The join of securities with their markets, by market code.\<close>

definition listed :: "audit_db \<Rightarrow> (security_entry \<times> string) list" where
  "listed db = concat (map (\<lambda>s. map (\<lambda>m. (s, snd m)) (filter (\<lambda>m. fst m = se_market_id s) (ad_markets db))) (ad_securities db))"

definition active_stock :: "security_entry \<Rightarrow> bool" where
  "active_stock s \<longleftrightarrow> se_active s \<and> se_type s = ''COMMON_STOCK''"

definition priced :: "audit_db \<Rightarrow> (price_entry \<times> security_entry \<times> string) list" where
  "priced db = concat (map (\<lambda>p. map (\<lambda>l. (p, l)) (filter (\<lambda>l. se_id (fst l) = pe_security_id p) (listed db))) (ad_prices db))"

definition snapped :: "audit_db \<Rightarrow> (technical_entry \<times> security_entry) list" where
  "snapped db = concat (map (\<lambda>t. map (\<lambda>s. (t, s)) (filter (\<lambda>s. se_id s = te_security_id t) (ad_securities db))) (ad_technicals db))"

section \<open>The audit of a day\<close>

text \<open>\<open>_audit_security_master\<close>\<close>

definition stocks_of :: "audit_db \<Rightarrow> string \<Rightarrow> nat" where
  "stocks_of db market = length (filter (\<lambda>(s, code). active_stock s \<and> code = market) (listed db))"

definition security_keys :: "audit_db \<Rightarrow> (uuid \<times> string) list" where
  "security_keys db = map (\<lambda>s. (se_market_id s, se_code s)) (ad_securities db)"

definition audit_security_master :: "audit_db \<Rightarrow> security_master_audit" where
  "audit_security_master db =
     (let total = length (ad_securities db); twse = stocks_of db ''TWSE''; tpex = stocks_of db ''TPEX'';
          duplicates = duplicate_groups (security_keys db)
      in \<lparr>sm_total = total, sm_active = twse + tpex, sm_twse = twse, sm_tpex = tpex,
          sm_inactive = length (filter (\<lambda>s. \<not> se_active s) (ad_securities db)), sm_duplicates = duplicates,
          sm_status = (if 0 < total \<and> duplicates = 0 then COMPLETE else FAILED)\<rparr>)"

text \<open>\<open>_audit_daily_prices\<close>\<close>

definition completion_threshold :: rat where
  "completion_threshold = hundredths 98"

definition price_rows :: "audit_db \<Rightarrow> string \<Rightarrow> date \<Rightarrow> price_entry list" where
  "price_rows db market target =
     map fst (filter (\<lambda>(p, s, code). code = market \<and> active_stock s \<and> pe_trade_date p = target) (priced db))"

definition failed_run :: "string \<Rightarrow> bool" where
  "failed_run status \<longleftrightarrow> status \<in> {''FAILED'', ''ERROR''}"

definition audit_daily_prices :: "(instant \<Rightarrow> date) \<Rightarrow> audit_db \<Rightarrow> string \<Rightarrow> date \<Rightarrow> nat \<Rightarrow> price_audit" where
  "audit_daily_prices day_of db market target expected =
     (let rows = price_rows db market target; total_rows = length rows;
          valid = length (filter (\<lambda>p. pe_close p \<noteq> None) rows);
          duplicates = duplicate_groups (map (\<lambda>(p, s, code). (pe_security_id p, pe_trade_date p))
            (filter (\<lambda>(p, s, code). code = market \<and> pe_trade_date p = target) (priced db)));
          has_failed_run = list_ex (\<lambda>r. re_dataset r \<in> {market @ ''_DAILY'', ''DAILY_PRICES''} \<and> failed_run (re_status r) \<and>
            day_of (re_started_at r) = target) (ad_runs db);
          coverage = (if 0 < expected then float_ratio total_rows expected else 1)
      in \<lparr>pa_market = market, pa_expected = expected, pa_rows = total_rows, pa_trading = valid,
          pa_no_trade = total_rows - valid, pa_missing = expected - total_rows, pa_coverage = round4 coverage,
          pa_duplicates = duplicates,
          pa_latest = latest_date (map (\<lambda>(p, s, code). pe_trade_date p)
            (filter (\<lambda>(p, s, code). code = market \<and> se_type s = ''COMMON_STOCK'') (priced db))),
          pa_status = (if total_rows = 0 then (if has_failed_run then FAILED else NO_DATA)
            else if 0 < duplicates then FAILED
            else if completion_threshold \<le> coverage then COMPLETE else PARTIAL)\<rparr>)"

text \<open>\<open>_audit_market_spot\<close>\<close>

definition rows_on :: "date \<Rightarrow> ('a \<times> date) list \<Rightarrow> ('a \<times> date) list" where
  "rows_on d rows = filter (\<lambda>r. snd r = d) rows"

definition audit_market_spot :: "audit_db \<Rightarrow> date \<Rightarrow> spot_audit" where
  "audit_market_spot db target =
     (let breadth = length (rows_on target (ad_breadth db)); margin = length (rows_on target (ad_margin db));
          lending = length (rows_on target (ad_lending db)); inst = length (rows_on target (ad_institutional db));
          duplicates = duplicate_groups (rows_on target (ad_breadth db))
      in \<lparr>sp_breadth = breadth, sp_margin = margin, sp_lending = lending, sp_institutional = inst,
          sp_duplicates = duplicates,
          sp_status = (if breadth + margin + lending + inst = 0 then NO_DATA
            else if 2 \<le> breadth \<and> 2 \<le> margin \<and> duplicates = 0 then COMPLETE
            else if 0 < duplicates then FAILED else PARTIAL)\<rparr>)"

text \<open>\<open>_audit_derivatives\<close>\<close>

definition counted :: "string \<Rightarrow> nat \<Rightarrow> derivative_audit" where
  "counted dataset n =
     \<lparr>dv_dataset = dataset, dv_rows = n, dv_status = (if 0 < n then COMPLETE else NO_DATA), dv_note = None\<rparr>"

definition audit_derivatives :: "audit_db \<Rightarrow> date \<Rightarrow> derivative_audit list" where
  "audit_derivatives db target =
     [counted ''FUTURES_PRODUCTS'' (length (ad_products db)),
      counted ''FUTURES_CONTRACTS'' (length (ad_contracts db)),
      counted ''FUTURES_DAILY'' (length (filter (\<lambda>(c, d, session). d = target) (ad_futures_daily db))),
      counted ''FUTURES_INSTITUTIONAL'' (count_list (ad_positions db) target),
      counted ''TRADER_CONCENTRATION'' (count_list (ad_concentrations db) target),
      counted ''OPTION_PUT_CALL'' (count_list (ad_put_calls db) target),
      counted ''OPTION_STRIKE_OI'' (count_list (ad_strikes db) target),
      \<lparr>dv_dataset = ''VOLATILITY_INDEX'', dv_rows = count_list (ad_volatility db) target, dv_status = UNAVAILABLE,
       dv_note = Some ''TAIFEX VIX feed unavailable via public OpenAPI/RWD''\<rparr>]"

text \<open>\<open>_audit_technicals\<close>\<close>

definition snapshot_keys :: "audit_db \<Rightarrow> date \<Rightarrow> (uuid \<times> string \<times> date) list" where
  "snapshot_keys db target =
     map (\<lambda>t. (te_security_id t, te_price_basis t, te_trade_date t))
       (filter (\<lambda>t. te_trade_date t = target) (ad_technicals db))"

definition raw_snapshots :: "audit_db \<Rightarrow> date \<Rightarrow> technical_entry list" where
  "raw_snapshots db target =
     map fst (filter (\<lambda>(t, s). active_stock s \<and> te_trade_date t = target \<and> te_price_basis t = ''RAW'') (snapped db))"

text \<open>\<open>price_count\<close> of a security; a security without a price is not in the subquery.\<close>

definition price_history :: "audit_db \<Rightarrow> date \<Rightarrow> uuid \<Rightarrow> nat" where
  "price_history db target sec =
     length (filter (\<lambda>p. pe_security_id p = sec \<and> pe_trade_date p \<le> target) (ad_prices db))"

definition audit_technicals :: "(date \<Rightarrow> bool) \<Rightarrow> audit_db \<Rightarrow> date \<Rightarrow> nat \<Rightarrow> technicals_audit" where
  "audit_technicals trading db target active =
     (let rows = raw_snapshots db target; n = length rows;
          valid = length (filter (\<lambda>t. te_ma240 t \<noteq> None) rows);
          latest = latest_date (map te_trade_date (ad_technicals db));
          duplicates = duplicate_groups (snapshot_keys db target);
          eligible = length (filter (\<lambda>t. 240 \<le> price_history db target (te_security_id t)) rows);
          missing = (if 0 < n then eligible - valid else 0);
          behind = trading target \<and> (case latest of None \<Rightarrow> False | Some d \<Rightarrow> d < target)
      in \<lparr>ta_active = active, ta_snapshot_date = (if n = 0 then latest else Some target), ta_snapshots = n,
          ta_stale = (if n = 0 \<and> behind then active else 0), ta_eligible = eligible, ta_valid = valid,
          ta_missing = missing, ta_duplicates = duplicates,
          ta_status = (if 0 < n
            then (if 0 < duplicates \<or> 0 < missing then FAILED
                  else if float_product active completion_threshold \<le> of_nat n then COMPLETE else PARTIAL)
            else if behind then STALE else NO_DATA)\<rparr>)"

text \<open>\<open>_audit_industry_strength\<close>\<close>

definition audit_industry_strength :: "audit_db \<Rightarrow> date \<Rightarrow> strength_audit" where
  "audit_industry_strength db target =
     (let n = count_list (ad_strength db) target in
      \<lparr>ia_snapshot_date = (if 0 < n then Some target else latest_date (ad_strength db)), ia_snapshots = n,
       ia_status = (if 0 < n then COMPLETE else NO_DATA)\<rparr>)"

text \<open>\<open>_audit_duplicates\<close>\<close>

definition audit_duplicates :: "audit_db \<Rightarrow> date \<Rightarrow> duplicate_audit" where
  "audit_duplicates db target =
     (let sec = duplicate_groups (security_keys db);
          price = duplicate_groups (map (\<lambda>p. (pe_security_id p, pe_trade_date p))
            (filter (\<lambda>p. pe_trade_date p = target) (ad_prices db)));
          tech = duplicate_groups (snapshot_keys db target);
          spot = duplicate_groups (rows_on target (ad_breadth db));
          deriv = duplicate_groups (filter (\<lambda>(c, d, session). d = target) (ad_futures_daily db))
      in \<lparr>du_securities = sec, du_prices = price, du_technicals = tech, du_spot = spot, du_derivatives = deriv,
          du_status = (if sec + price + tech + spot + deriv = 0 then COMPLETE else FAILED)\<rparr>)"

text \<open>\<open>_compute_overall_status\<close>: the index of volatility does not count, nor does the security master.\<close>

definition compute_overall_status :: "day_type \<Rightarrow> price_audit \<Rightarrow> price_audit \<Rightarrow> spot_audit \<Rightarrow> derivative_audit list \<Rightarrow>
    technicals_audit \<Rightarrow> strength_audit \<Rightarrow> duplicate_audit \<Rightarrow> audit_status" where
  "compute_overall_status day twse tpex spot derivatives technicals strength duplicates =
     (if du_status duplicates = FAILED then FAILED
      else if day \<noteq> TRADING_DAY then COMPLETE
      else
        let statuses = [pa_status twse, pa_status tpex, sp_status spot, ta_status technicals, ia_status strength] @
              map dv_status (filter (\<lambda>d. dv_dataset d \<noteq> ''VOLATILITY_INDEX'') derivatives) in
        if list_ex (\<lambda>s. s = FAILED) statuses then FAILED
        else if list_all (\<lambda>s. s = COMPLETE) statuses then COMPLETE
        else if list_all (\<lambda>s. s = NO_DATA) statuses then NO_DATA
        else if list_ex (\<lambda>s. s = STALE) statuses then STALE
        else PARTIAL)"

definition audit_date :: "(date \<Rightarrow> bool) \<Rightarrow> (instant \<Rightarrow> date) \<Rightarrow> audit_db \<Rightarrow> date \<Rightarrow> audit_report" where
  "audit_date trading day_of db target =
     (let day = (if trading target then TRADING_DAY else if 5 \<le> weekday target then WEEKEND else HOLIDAY);
          sec = audit_security_master db;
          twse = audit_daily_prices day_of db ''TWSE'' target (sm_twse sec);
          tpex = audit_daily_prices day_of db ''TPEX'' target (sm_tpex sec);
          spot = audit_market_spot db target;
          derivatives = audit_derivatives db target;
          technicals = audit_technicals trading db target (sm_active sec);
          strength = audit_industry_strength db target;
          duplicates = audit_duplicates db target
      in \<lparr>ar_date = target, ar_trading = trading target, ar_day_type = day, ar_securities = sec, ar_twse = twse,
          ar_tpex = tpex, ar_spot = spot, ar_derivatives = derivatives, ar_technicals = technicals,
          ar_strength = strength, ar_duplicates = duplicates,
          ar_overall = compute_overall_status day twse tpex spot derivatives technicals strength duplicates\<rparr>)"

section \<open>Gaps in a range of days\<close>

record gap_session =
  gs_date :: date
  gs_market :: string
  gs_expected :: nat
  gs_actual :: nat
  gs_coverage :: rat

record gap_audit =
  ga_market :: string
  ga_weekdays :: nat
  ga_sessions :: nat
  ga_holidays :: nat
  ga_anomalous :: nat
  ga_anomalies :: "gap_session list"
  ga_status :: audit_status

definition session_count :: "audit_db \<Rightarrow> string option \<Rightarrow> date \<Rightarrow> nat" where
  "session_count db market d =
     length (filter (\<lambda>(p, s, code). pe_trade_date p = d \<and> se_type s = ''COMMON_STOCK'' \<and>
       (case market of None \<Rightarrow> True | Some m \<Rightarrow> code = m)) (priced db))"

definition gap_expected :: "security_master_audit \<Rightarrow> string option \<Rightarrow> nat" where
  "gap_expected sec market =
     (if market = Some ''TWSE'' then sm_twse sec else if market = Some ''TPEX'' then sm_tpex sec else sm_active sec)"

definition market_label :: "string option \<Rightarrow> string" where
  "market_label market = (case market of None \<Rightarrow> ''ALL'' | Some m \<Rightarrow> m)"

definition gap_ratio :: "nat \<Rightarrow> nat \<Rightarrow> rat" where
  "gap_ratio actual expected = (if 0 < expected then float_ratio actual expected else 1)"

text \<open>The body of the loop for the day \<open>d\<close>.\<close>

definition gap_day :: "audit_db \<Rightarrow> string option \<Rightarrow> nat \<Rightarrow> date \<Rightarrow> gap_audit \<Rightarrow> gap_audit" where
  "gap_day db market expected d a =
     (if 5 \<le> weekday d then a
      else let actual = session_count db market d; b = a\<lparr>ga_weekdays := ga_weekdays a + 1\<rparr> in
        if actual = 0 then b\<lparr>ga_holidays := ga_holidays a + 1\<rparr>
        else let c = b\<lparr>ga_sessions := ga_sessions a + 1\<rparr> in
          if gap_ratio actual expected < hundredths 85
          then c\<lparr>ga_anomalous := ga_anomalous a + 1,
                 ga_anomalies := ga_anomalies a @
                   [\<lparr>gs_date = d, gs_market = market_label market, gs_expected = expected, gs_actual = actual,
                     gs_coverage = round4 (gap_ratio actual expected)\<rparr>]\<rparr>
          else c)"

function gap_loop :: "audit_db \<Rightarrow> string option \<Rightarrow> nat \<Rightarrow> date \<Rightarrow> date \<Rightarrow> gap_audit \<Rightarrow> gap_audit" where
  "gap_loop db market expected day end_date a =
     (if day \<le> end_date then gap_loop db market expected (day + 1) end_date (gap_day db market expected day a) else a)"
  by pat_completeness auto
termination
  by (relation "measure (\<lambda>(db, market, expected, day, end_date, a). nat (end_date + 1 - day))") auto

declare gap_loop.simps [simp del]

text \<open>A missing or empty market means all of them.\<close>

definition audit_historical_gap :: "audit_db \<Rightarrow> date \<Rightarrow> date \<Rightarrow> string option \<Rightarrow> gap_audit" where
  "audit_historical_gap db start_date end_date market =
     (let expected = gap_expected (audit_security_master db) market;
          a = gap_loop db (if market = Some [] then None else market) expected start_date end_date
            \<lparr>ga_market = market_label (if market = Some [] then None else market), ga_weekdays = 0, ga_sessions = 0,
             ga_holidays = 0, ga_anomalous = 0, ga_anomalies = [], ga_status = COMPLETE\<rparr>
      in a\<lparr>ga_status := (if ga_anomalous a = 0 then COMPLETE else PARTIAL)\<rparr>)"

end
