(* ===== verification/PrecisionRepair.thy ===== *)
theory PrecisionRepair
  imports PriceIngestion DataAudit
begin

text \<open>
  The repair of single datasets (\<open>app/services/precision_repair.py\<close>): a finding of the audit is turned into
  a bounded scope or a refusal (\<open>PrecisionRepairPlanner\<close>), the scope into calls of the ingestion services, and the
  scope is audited again (\<open>PrecisionRepairService\<close>). The calls are values here; what they do to the
  database is a parameter, since their services are modelled by themselves. Reasons and reports are texts
  for the reader and left out.
\<close>

section \<open>Findings, scopes and decisions\<close>

datatype repair_outcome =
  Repairable | Not_published | Holiday | Unavailable | Unsupported | Skip | Repair_failed

datatype scope_type = Security_date | Dataset_date | Date_range

definition max_repair_range_days :: int where
  "max_repair_range_days = 30"

record repair_scope =
  sc_type :: scope_type
  sc_dataset :: string
  sc_target :: "date option"
  sc_start :: "date option"
  sc_end :: "date option"
  sc_market :: "string option"
  sc_security :: "string option"

record audit_finding =
  fi_id :: string
  fi_dataset :: string
  fi_target :: date
  fi_status :: audit_status
  fi_market :: "string option"
  fi_security :: "string option"
  fi_start :: "date option"
  fi_end :: "date option"
  fi_missing :: int
  fi_reason :: "string option"

record repair_decision =
  dc_finding :: string
  dc_outcome :: repair_outcome
  dc_scope :: "repair_scope option"

text \<open>The truth value of a text that may be missing.\<close>

definition given :: "string option \<Rightarrow> bool" where
  "given s \<longleftrightarrow> (case s of None \<Rightarrow> False | Some t \<Rightarrow> t \<noteq> [])"

text \<open>\<open>RepairScope.__post_init__\<close>\<close>

definition checked_scope :: "repair_scope \<Rightarrow> repair_scope result" where
  "checked_scope sc =
     (case sc_type sc of
        Security_date \<Rightarrow>
          if sc_target sc = None \<or> \<not> given (sc_market sc) \<or> \<not> given (sc_security sc) then Inl ValueError else Inr sc
      | Dataset_date \<Rightarrow> if sc_target sc = None then Inl ValueError else Inr sc
      | Date_range \<Rightarrow>
          (case (sc_start sc, sc_end sc) of
             (Some a, Some b) \<Rightarrow>
               if b < a then Inl ValueError
               else if max_repair_range_days < b - a + 1 then Inl ValueError else Inr sc
           | _ \<Rightarrow> Inl ValueError))"

section \<open>Planning\<close>

definition spot_datasets :: "string list" where
  "spot_datasets = [''MARKET_INDEXES'', ''MARKET_BREADTH'', ''MARKET_INSTITUTIONAL'', ''SECURITY_INSTITUTIONAL'',
     ''MARKET_MARGIN'', ''SECURITY_MARGIN'', ''MARKET_LENDING'', ''SECURITY_LENDING'']"

definition derivative_datasets :: "string list" where
  "derivative_datasets = [''FUTURES_PRODUCTS'', ''FUTURES_CONTRACTS'', ''FUTURES_DAILY'', ''FUTURES_INSTITUTIONAL'',
     ''TRADER_CONCENTRATION'', ''OPTION_PUT_CALL'', ''OPTION_STRIKE_OI'', ''VOLATILITY_INDEX'']"

definition price_names :: "string list" where
  "price_names = [''DAILY_PRICES'', ''TWSE_DAILY'', ''TPEX_DAILY'', ''PRICES'']"

definition spot_name :: "string \<Rightarrow> bool" where
  "spot_name d \<longleftrightarrow> d \<in> set spot_datasets \<or> d \<in> {''MARKET_SPOT'', ''SPOT''}"

definition technicals_name :: "string \<Rightarrow> bool" where
  "technicals_name d \<longleftrightarrow> d \<in> {''TECHNICALS'', ''TECHNICAL_SNAPSHOTS''}"

definition strength_name :: "string \<Rightarrow> bool" where
  "strength_name d \<longleftrightarrow> d \<in> {''INDUSTRY_STRENGTH'', ''INDUSTRY_SNAPSHOTS''}"

text \<open>The derivatives that the planner takes, and those that the service takes.\<close>

definition planned_derivative :: "string \<Rightarrow> bool" where
  "planned_derivative d \<longleftrightarrow> d \<in> set derivative_datasets \<or>
     d \<in> {''DERIVATIVES'', ''TAIFEX'', ''TAIFEX_PUT_CALL'', ''OPTION_PUT_CALL''} \<or> starts_with ''TAIFEX_'' d"

definition executed_derivative :: "string \<Rightarrow> bool" where
  "executed_derivative d \<longleftrightarrow> d \<in> set derivative_datasets \<or> d \<in> {''DERIVATIVES'', ''TAIFEX''}"

text \<open>\<open>sub in text\<close>\<close>

definition occurs_in :: "string \<Rightarrow> string \<Rightarrow> bool" where
  "occurs_in sub txt \<longleftrightarrow> list_ex (\<lambda>i. starts_with sub (drop i txt)) [0..<length txt + 1]"

definition not_published_signal :: "string option \<Rightarrow> bool" where
  "not_published_signal reason =
     (let t = lower (case reason of None \<Rightarrow> [] | Some r \<Rightarrow> r) in
      list_ex (\<lambda>s. occurs_in s t) [''not published'', ''not yet published'', ''publication pending'', ''upstream publication''])"

definition scope_of :: "audit_finding \<Rightarrow> repair_scope" where
  "scope_of f =
     (let none = \<lparr>sc_type = Dataset_date, sc_dataset = fi_dataset f, sc_target = Some (fi_target f), sc_start = None, sc_end = None,
        sc_market = fi_market f, sc_security = None\<rparr> in
      if given (fi_security f) \<and> given (fi_market f) then none\<lparr>sc_type := Security_date, sc_security := fi_security f\<rparr>
      else if fi_start f \<noteq> None \<and> fi_end f \<noteq> None \<and> fi_start f \<noteq> fi_end f
      then none\<lparr>sc_type := Date_range, sc_target := None, sc_start := fi_start f, sc_end := fi_end f\<rparr>
      else none)"

definition plan_repair :: "(date \<Rightarrow> bool) \<Rightarrow> date \<Rightarrow> audit_finding \<Rightarrow> repair_decision" where
  "plan_repair trading today f =
     (let decide = (\<lambda>oc sc. \<lparr>dc_finding = fi_id f, dc_outcome = oc, dc_scope = sc\<rparr>); d = upper (fi_dataset f) in
      if \<not> trading (fi_target f) then decide Holiday None
      else if d \<in> {''VOLATILITY_INDEX'', ''TAIFEX_VIX'', ''VIX''} then decide Unavailable None
      else if \<not> (d \<in> set price_names \<or> spot_name d \<or> planned_derivative d \<or> technicals_name d \<or> strength_name d)
      then decide Unsupported None
      else if fi_status f = audit_status.COMPLETE then decide Skip None
      else if today < fi_target f then decide Not_published None
      else if fi_target f = today \<and> not_published_signal (fi_reason f) then decide Not_published None
      else (case checked_scope (scope_of f) of
          Inl e \<Rightarrow> decide Unsupported None
        | Inr sc \<Rightarrow> decide Repairable (Some sc)))"

section \<open>The calls of a repair\<close>

datatype provider = Fake_market | Twse_security | Tpex_security | Official_twse | Official_tpex | Fake_derivatives | Official_taifex

datatype repair_call =
    Sync_prices provider "date option" "security_key option"
  | Recalculate security_key
  | Sync_spot provider string date
  | Sync_derivatives provider string date
  | Calculate_strength date

text \<open>\<open>MarketCode(text)\<close>\<close>

definition market_code_of :: "string \<Rightarrow> market_code result" where
  "market_code_of s = (if s = ''TWSE'' then Inr TWSE else if s = ''TPEX'' then Inr TPEX else Inl ValueError)"

definition scope_security :: "repair_scope \<Rightarrow> security_key option result" where
  "scope_security sc =
     (if given (sc_security sc) \<and> given (sc_market sc)
      then rbind (market_code_of (the (sc_market sc))) (\<lambda>m. Inr (Some \<lparr>sk_market = m, sk_code = the (sc_security sc)\<rparr>))
      else Inr None)"

definition price_providers :: "bool \<Rightarrow> string option \<Rightarrow> provider list" where
  "price_providers fake market =
     (if fake then [Fake_market] else if market = Some ''TWSE'' then [Twse_security]
      else if market = Some ''TPEX'' then [Tpex_security] else [Twse_security, Tpex_security])"

definition spot_providers :: "bool \<Rightarrow> string option \<Rightarrow> provider list" where
  "spot_providers fake market =
     (if fake then [Fake_market] else if market = Some ''TWSE'' then [Official_twse]
      else if market = Some ''TPEX'' then [Official_tpex] else [Official_twse, Official_tpex])"

text \<open>The dates of a range; none when an end is missing.\<close>

definition scope_days :: "repair_scope \<Rightarrow> date list" where
  "scope_days sc = (case (sc_start sc, sc_end sc) of (Some a, Some b) \<Rightarrow> [a..b] | _ \<Rightarrow> [])"

definition price_calls :: "(date \<Rightarrow> bool) \<Rightarrow> bool \<Rightarrow> repair_scope \<Rightarrow> repair_call list result" where
  "price_calls trading fake sc =
     rbind (scope_security sc) (\<lambda>sec.
       let providers = price_providers fake (sc_market sc);
           syncs = (\<lambda>d. map (\<lambda>p. Sync_prices p d sec) providers) in
       Inr ((if sc_type sc = Date_range then concat (map (\<lambda>d. syncs (Some d)) (filter trading (scope_days sc))) else syncs (sc_target sc)) @
         (case sec of None \<Rightarrow> [] | Some k \<Rightarrow> [Recalculate k])))"

definition target_or_today :: "date \<Rightarrow> repair_scope \<Rightarrow> date" where
  "target_or_today today sc = (case sc_target sc of None \<Rightarrow> today | Some d \<Rightarrow> d)"

definition spot_calls :: "date \<Rightarrow> bool \<Rightarrow> repair_scope \<Rightarrow> repair_call list" where
  "spot_calls today fake sc =
     (let datasets = (if sc_dataset sc \<in> set spot_datasets then [sc_dataset sc] else spot_datasets) in
      concat (map (\<lambda>p. map (\<lambda>ds. Sync_spot p ds (target_or_today today sc)) datasets) (spot_providers fake (sc_market sc))))"

definition derivative_calls :: "date \<Rightarrow> bool \<Rightarrow> repair_scope \<Rightarrow> repair_call list" where
  "derivative_calls today fake sc =
     (let datasets = (if sc_dataset sc \<in> set derivative_datasets then [sc_dataset sc] else derivative_datasets) in
      map (\<lambda>ds. Sync_derivatives (if fake then Fake_derivatives else Official_taifex) ds (target_or_today today sc))
        (filter (\<lambda>ds. ds \<noteq> ''VOLATILITY_INDEX'') datasets))"

text \<open>
  The calls that \<open>_dispatch_repair\<close> makes, one after the other. \<open>_repair_technicals\<close> starts with
  \<open>del scope.target_date\<close>, which a frozen dataclass refuses with an \<open>AttributeError\<close>; nothing after that
  statement is reached.
\<close>

definition repair_calls :: "(date \<Rightarrow> bool) \<Rightarrow> date \<Rightarrow> bool \<Rightarrow> repair_scope \<Rightarrow> repair_call list result" where
  "repair_calls trading today fake sc =
     (let d = upper (sc_dataset sc) in
      if d \<in> set price_names then price_calls trading fake sc
      else if spot_name d then Inr (spot_calls today fake sc)
      else if executed_derivative d then Inr (derivative_calls today fake sc)
      else if technicals_name d then Inl AttributeError
      else if strength_name d then Inr [Calculate_strength (target_or_today today sc)]
      else Inl ValueError)"

section \<open>Execution\<close>

text \<open>Inserted and updated rows and the last run.\<close>

type_synonym tally = "nat \<times> nat \<times> uuid option"

text \<open>The table of runs, and all else.\<close>

record 's repair_world =
  rw_runs :: "ingestion_run list"
  rw_data :: 's

type_synonym 's performer = "repair_call \<Rightarrow> 's repair_world \<Rightarrow> tally result \<times> 's repair_world"

text \<open>What a call adds; the count of a recalculation is not used.\<close>

fun add_tally :: "repair_call \<Rightarrow> tally \<Rightarrow> tally \<Rightarrow> tally" where
  "add_tally (Recalculate k) r t = t"
| "add_tally c (i, u, run) (i', u', run') = (i' + i, u' + u, run)"

fun run_calls :: "'s performer \<Rightarrow> repair_call list \<Rightarrow> tally \<Rightarrow> 's repair_world \<Rightarrow> tally result \<times> 's repair_world" where
  "run_calls perform [] t s = (Inr t, s)"
| "run_calls perform (c # cs) t s =
     (case perform c s of (Inl e, s') \<Rightarrow> (Inl e, s') | (Inr r, s') \<Rightarrow> run_calls perform cs (add_tally c r t) s')"

definition dispatch_repair :: "'s performer \<Rightarrow> (date \<Rightarrow> bool) \<Rightarrow> date \<Rightarrow> bool \<Rightarrow> repair_scope \<Rightarrow> 's repair_world \<Rightarrow>
    tally result \<times> 's repair_world" where
  "dispatch_repair perform trading today fake sc s =
     (case repair_calls trading today fake sc of Inl e \<Rightarrow> (Inl e, s) | Inr cs \<Rightarrow> run_calls perform cs (0, 0, None) s)"

fun status_name :: "audit_status \<Rightarrow> string" where
  "status_name audit_status.COMPLETE = ''COMPLETE''"
| "status_name audit_status.PARTIAL = ''PARTIAL''"
| "status_name audit_status.NO_DATA = ''NO_DATA''"
| "status_name audit_status.UNAVAILABLE = ''UNAVAILABLE''"
| "status_name audit_status.STALE = ''STALE''"
| "status_name audit_status.FAILED = ''FAILED''"

text \<open>
  What the audit of a scope reads: the report of a day (\<open>audit_date\<close>) and the price of a security, by
  market and code.
\<close>

type_synonym 's auditor = "'s repair_world \<Rightarrow> date \<Rightarrow> audit_report"
type_synonym 's price_reader = "'s repair_world \<Rightarrow> string \<Rightarrow> string \<Rightarrow> date \<Rightarrow> daily_price_record option"

definition price_status :: "daily_price_record option \<Rightarrow> audit_status" where
  "price_status row =
     (case row of
        None \<Rightarrow> audit_status.FAILED
      | Some r \<Rightarrow>
          let volume_ok = (case dp_volume_shares r of None \<Rightarrow> True | Some v \<Rightarrow> \<not> v < 0) in
          case dp_close r of
            None \<Rightarrow> if volume_ok then audit_status.COMPLETE else audit_status.FAILED
          | Some cl \<Rightarrow>
              (case (dp_open r, dp_high r, dp_low r) of
                 (Some op, Some hi, Some lo) \<Rightarrow>
                   if invalid_ohlc (binary64 op) (binary64 hi) (binary64 lo) (binary64 cl) \<or> \<not> volume_ok
                   then audit_status.FAILED else audit_status.COMPLETE
               | _ \<Rightarrow> audit_status.FAILED))"

definition daily_prices_status :: "audit_report \<Rightarrow> string option \<Rightarrow> string \<Rightarrow> audit_status" where
  "daily_prices_status rep scope_market d =
     (let market = (if given scope_market then scope_market else if occurs_in ''TWSE'' d then Some ''TWSE''
          else if occurs_in ''TPEX'' d then Some ''TPEX'' else None) in
      if market = Some ''TWSE'' then pa_status (ar_twse rep)
      else if market = Some ''TPEX'' then pa_status (ar_tpex rep)
      else if pa_status (ar_twse rep) = audit_status.COMPLETE \<and> pa_status (ar_tpex rep) = audit_status.COMPLETE
      then audit_status.COMPLETE else audit_status.PARTIAL)"

definition re_audit_scope :: "'s auditor \<Rightarrow> 's price_reader \<Rightarrow> date \<Rightarrow> repair_scope \<Rightarrow> 's repair_world \<Rightarrow> audit_status" where
  "re_audit_scope audit price_of today sc s =
     (let day = (case sc_target sc of Some d \<Rightarrow> d | None \<Rightarrow> (case sc_end sc of Some d \<Rightarrow> d | None \<Rightarrow> today));
          d = upper (sc_dataset sc); rep = audit s day in
      if sc_type sc = Security_date \<and> given (sc_market sc) \<and> given (sc_security sc)
      then price_status (price_of s (the (sc_market sc)) (the (sc_security sc)) day)
      else if d \<in> set price_names then daily_prices_status rep (sc_market sc) d
      else if spot_name d then sp_status (ar_spot rep)
      else if executed_derivative d then
        (case find (\<lambda>x. dv_dataset x = d) (ar_derivatives rep) of None \<Rightarrow> audit_status.COMPLETE | Some x \<Rightarrow> dv_status x)
      else if technicals_name d then ta_status (ar_technicals rep)
      else if strength_name d then ia_status (ar_strength rep)
      else ar_overall rep)"

text \<open>\<open>_persist_repair_audit_trail\<close>: a note at the run of the repair, or a run of its own.\<close>

definition persist_repair :: "string \<Rightarrow> uuid \<Rightarrow> repair_scope \<Rightarrow> audit_status \<Rightarrow> nat \<Rightarrow> nat \<Rightarrow> string option \<Rightarrow> uuid option \<Rightarrow>
    instant \<Rightarrow> instant \<Rightarrow> 's repair_world \<Rightarrow> uuid \<times> 's repair_world" where
  "persist_repair meta fresh sc after ins upd err run executed_at now s =
     (let i = (case run of None \<Rightarrow> fresh | Some r \<Rightarrow> r) in
      if i \<in> ir_id ` set (rw_runs s)
      then (i, s\<lparr>rw_runs := map (\<lambda>r. if ir_id r = i
             then r\<lparr>ir_error := Some (if given (ir_error r) then the (ir_error r) @ ''; '' @ meta else meta)\<rparr> else r) (rw_runs s)\<rparr>)
      else (i, s\<lparr>rw_runs := rw_runs s @ [\<lparr>ir_id = i, ir_provider = ''PRECISION_REPAIR'', ir_dataset = sc_dataset sc,
             ir_started_at = executed_at, ir_finished_at = Some now, ir_status = (if given err then ''FAILED'' else status_name after),
             ir_fetched = ins + upd, ir_inserted = ins, ir_updated = upd, ir_rejected = (if given err then 1 else 0),
             ir_checksum = None, ir_error = Some (if given err then the err else meta), ir_retry = 0\<rparr>]\<rparr>))"

record repair_result =
  rr_decision :: repair_decision
  rr_executed :: bool
  rr_before :: audit_status
  rr_after :: audit_status
  rr_inserted :: nat
  rr_updated :: nat
  rr_error :: "string option"
  rr_run_id :: "uuid option"

definition repair_and_reaudit :: "'s performer \<Rightarrow> 's auditor \<Rightarrow> 's price_reader \<Rightarrow> (error \<Rightarrow> string) \<Rightarrow>
    (audit_status \<Rightarrow> audit_status \<Rightarrow> string) \<Rightarrow> uuid \<Rightarrow> instant \<Rightarrow> instant \<Rightarrow> (date \<Rightarrow> bool) \<Rightarrow> date \<Rightarrow> bool \<Rightarrow>
    audit_finding \<Rightarrow> repair_decision \<Rightarrow> repair_scope \<Rightarrow> 's repair_world \<Rightarrow> repair_result \<times> 's repair_world" where
  "repair_and_reaudit perform audit price_of message meta fresh executed_at now trading today fake f decision sc s =
     (let (res, s1) = dispatch_repair perform trading today fake sc s;
          (ins, upd, run) = (case res of Inl e \<Rightarrow> (0, 0, None) | Inr t \<Rightarrow> t);
          err = (case res of Inl e \<Rightarrow> Some (message e) | Inr t \<Rightarrow> None);
          after = re_audit_scope audit price_of today sc s1;
          (i, s2) = persist_repair (meta (fi_status f) after) fresh sc after ins upd err run executed_at now s1
      in (\<lparr>rr_decision = decision, rr_executed = (err = None), rr_before = fi_status f, rr_after = after, rr_inserted = ins,
           rr_updated = upd, rr_error = err, rr_run_id = Some i\<rparr>, s2))"

text \<open>
  \<open>lock\<close>: whether the lock of the jobs was taken; none without Redis or with \<open>skip_lock\<close>.
\<close>

definition execute_repair :: "'s performer \<Rightarrow> 's auditor \<Rightarrow> 's price_reader \<Rightarrow> (error \<Rightarrow> string) \<Rightarrow>
    (audit_status \<Rightarrow> audit_status \<Rightarrow> string) \<Rightarrow> uuid \<Rightarrow> instant \<Rightarrow> instant \<Rightarrow> (date \<Rightarrow> bool) \<Rightarrow> date \<Rightarrow> bool \<Rightarrow>
    bool option \<Rightarrow> audit_finding \<Rightarrow> 's repair_world \<Rightarrow> repair_result \<times> 's repair_world" where
  "execute_repair perform audit price_of message meta fresh executed_at now trading today fake lock f s =
     (let decision = plan_repair trading today f;
          refused = (\<lambda>err. (\<lparr>rr_decision = decision, rr_executed = False, rr_before = fi_status f, rr_after = fi_status f,
            rr_inserted = 0, rr_updated = 0, rr_error = err, rr_run_id = None\<rparr>, s)) in
      case dc_scope decision of
        None \<Rightarrow> refused None
      | Some sc \<Rightarrow>
          if dc_outcome decision \<noteq> Repairable then refused None
          else if lock = Some False then refused (Some ''JOB_LOCK_BUSY: Pipeline/Repair lock held by another runner'')
          else repair_and_reaudit perform audit price_of message meta fresh executed_at now trading today fake f decision sc s)"

section \<open>The services behind the calls, for the tables of prices\<close>

text \<open>
  \<open>fetch\<close> is what a provider delivers for a date and a security, \<open>fresh_run\<close> the identifier of the next run.
\<close>

definition price_performer :: "(daily_price_record \<Rightarrow> string) \<Rightarrow> (string \<Rightarrow> string) \<Rightarrow> (error \<Rightarrow> string) \<Rightarrow> (decimal \<Rightarrow> decimal) \<Rightarrow>
    (date \<Rightarrow> bool) \<Rightarrow> (provider \<Rightarrow> string) \<Rightarrow> (provider \<Rightarrow> date option \<Rightarrow> security_key option \<Rightarrow> daily_price_record list result) \<Rightarrow>
    (ingestion_run list \<Rightarrow> uuid) \<Rightarrow> instant \<Rightarrow> instant \<Rightarrow> price_db performer" where
  "price_performer line digest message numeric trading name fetch fresh_run started now c s =
     (case c of
        Sync_prices p d sec \<Rightarrow>
          let (res, db) = synchronize_daily line digest message (Some trading) sec (fresh_run (rw_runs s)) (name p) started now 0
              (fetch p d sec) ((rw_data s)\<lparr>pd_runs := rw_runs s\<rparr>)
          in (case res of Inl e \<Rightarrow> Inl e | Inr r \<Rightarrow> Inr (ir_inserted r, ir_updated r, Some (ir_id r)), \<lparr>rw_runs = pd_runs db, rw_data = db\<rparr>)
      | Recalculate k \<Rightarrow>
          (case recalculate numeric (rw_data s) k RAW of
             Inl e \<Rightarrow> (Inl (case e of Calculation_error e' \<Rightarrow> e' | _ \<Rightarrow> ValueError), s)
           | Inr (n, db) \<Rightarrow> (Inr (n, 0, None), s\<lparr>rw_data := db\<rparr>))
      | _ \<Rightarrow> (Inl ValueError, s))"

text \<open>The row that the audit of a single security reads, whatever the security is.\<close>

definition stored_price_of :: "price_db price_reader" where
  "stored_price_of s market code d =
     (case market_code_of market of Inl e \<Rightarrow> None
      | Inr m \<Rightarrow>
          (case find (\<lambda>x. sr_key x = \<lparr>sk_market = m, sk_code = code\<rparr>) (pd_stocks (rw_data s)) of
             None \<Rightarrow> None
           | Some x \<Rightarrow> map_option sp_values (price_at (pd_prices (rw_data s)) (sr_id x) d)))"

end
