(* ===== verification/PriceTables.thy ===== *)
theory PriceTables
  imports PriceIngestion "HOL-Library.Multiset"
begin

text \<open>
  What an ingestion of daily prices does to the table: every accepted price of a known stock is stored
  and nothing else changes, the counters of the run account for every record, the same records ingested
  again change nothing, and a failure leaves the prices as they were.
\<close>

section \<open>Groups of a dictionary\<close>

lemma group_by_map_of:
  "distinct (map fst (group_by key xs)) \<and>
   map_of (group_by key xs) k = (if filter (\<lambda>x. key x = k) xs = [] then None else Some (filter (\<lambda>x. key x = k) xs))"
proof (induction xs arbitrary: k rule: rev_induct)
  case Nil
  then show ?case by (simp add: group_by_def)
next
  case (snoc x xs)
  have "distinct (map fst (group_by key (xs @ [x])))"
    unfolding group_by_snoc group_step_def using snoc by (simp add: distinct_update)
  moreover have "map_of (group_by key (xs @ [x])) k =
      (if k = key x then Some ((case map_of (group_by key xs) k of None \<Rightarrow> [] | Some ys \<Rightarrow> ys) @ [x]) else map_of (group_by key xs) k)"
    unfolding group_by_snoc group_step_def by (simp add: update_conv)
  then have "map_of (group_by key (xs @ [x])) k =
      (if filter (\<lambda>y. key y = k) (xs @ [x]) = [] then None else Some (filter (\<lambda>y. key y = k) (xs @ [x])))"
    using snoc [of k] by auto
  ultimately show ?case by blast
qed

lemma group_by_mem: "(k, g) \<in> set (group_by key xs) \<Longrightarrow> g = filter (\<lambda>x. key x = k) xs \<and> g \<noteq> []"
  using group_by_map_of [of key xs k] map_of_is_SomeI [of "group_by key xs" k g] by (auto split: if_splits)

lemma group_by_key: "x \<in> set xs \<Longrightarrow> (key x, filter (\<lambda>y. key y = key x) xs) \<in> set (group_by key xs)"
  using group_by_map_of [of key xs "key x"] by (intro map_of_SomeD) (auto simp: filter_empty_conv)

section \<open>The table as a map\<close>

definition price_row_key :: "stored_price \<Rightarrow> uuid \<times> date" where
  "price_row_key p = (sp_security_id p, dp_trade_date (sp_values p))"

lemma price_at_key: "price_at rows sec d = find (\<lambda>p. price_row_key p = (sec, d)) rows"
  by (simp add: price_at_def price_row_key_def)

lemma record_values_keeps [simp]: "dp_trade_date (record_values r) = dp_trade_date r" "record_values (record_values r) = record_values r"
  by (simp_all add: record_values_def)

lemma price_at_snoc:
  "price_at (rows @ [p]) sec d =
     (case price_at rows sec d of Some x \<Rightarrow> Some x | None \<Rightarrow> if price_row_key p = (sec, d) then Some p else None)"
  by (simp add: price_at_key find_append split: option.split)

lemma price_at_replace:
  assumes "price_row_key row = key"
  shows "price_at (map (\<lambda>p. if price_row_key p = key then row else p) rows) sec d =
     (if (sec, d) = key \<and> price_at rows sec d \<noteq> None then Some row else price_at rows sec d)"
  using assms by (induction rows) (auto simp: price_at_key)

lemma replace_keys:
  "price_row_key row = key \<Longrightarrow> map price_row_key (map (\<lambda>p. if price_row_key p = key then row else p) rows) = map price_row_key rows"
  by simp

lemma price_at_None: "price_at rows sec d = None \<longleftrightarrow> (sec, d) \<notin> price_row_key ` set rows"
  by (simp add: price_at_key find_None_iff image_iff) metis

text \<open>The columns stored for a security and date.\<close>

definition price_table :: "stored_price list \<Rightarrow> uuid \<Rightarrow> date \<Rightarrow> daily_price_record option" where
  "price_table rows sec d = map_option sp_values (price_at rows sec d)"

section \<open>The upsert of one security\<close>

lemma upsert_price_effect:
  assumes "price_key r \<notin> us_seen st" and "ids (dp_security r) = Some sec" and "distinct (map price_row_key (us_rows st))"
  obtains st' where "upsert_price ids run st r = Inr st'"
    "price_table (us_rows st') = (price_table (us_rows st))(sec := (price_table (us_rows st) sec)(dp_trade_date r \<mapsto> record_values r))"
    "us_seen st' \<subseteq> insert (price_key r) (us_seen st)" "distinct (map price_row_key (us_rows st'))"
    "us_inserted st' = us_inserted st + (if price_table (us_rows st) sec (dp_trade_date r) = None then 1 else 0)"
    "us_updated st' = us_updated st + (if price_table (us_rows st) sec (dp_trade_date r) \<in> {None, Some (record_values r)} then 0 else 1)"
    "\<forall>p \<in> set (us_rows st'). p \<in> set (us_rows st) \<or> sp_values p = record_values r"
    "price_table (us_rows st) sec (dp_trade_date r) = Some (record_values r) \<Longrightarrow> us_rows st' = us_rows st"
proof -
  let ?d = "dp_trade_date r" and ?row = "\<lparr>sp_security_id = sec, sp_values = record_values r, sp_run_id = run\<rparr>"
  have key: "price_row_key ?row = (sec, ?d)" by (simp add: price_row_key_def)
  show ?thesis
  proof (cases "price_at (us_rows st) sec ?d")
    case None
    have "price_table (us_rows st @ [?row]) =
      (price_table (us_rows st))(sec := (price_table (us_rows st) sec)(?d \<mapsto> record_values r))"
      using None by (intro ext) (auto simp: price_table_def price_at_snoc key split: option.split)
    moreover have "distinct (map price_row_key (us_rows st @ [?row]))"
      using assms(3) None by (simp add: price_at_None key)
    ultimately show ?thesis
      using assms None
      by (intro that [of "st\<lparr>us_seen := insert (price_key r) (us_seen st), us_rows := us_rows st @ [?row], us_inserted := us_inserted st + 1\<rparr>"])
        (auto simp: upsert_price_def Let_def price_table_def)
  next
    case (Some old)
    show ?thesis
    proof (cases "sp_values old = record_values r")
      case True
      have "price_table (us_rows st) = (price_table (us_rows st))(sec := (price_table (us_rows st) sec)(?d \<mapsto> record_values r))"
        using Some True by (intro ext) (auto simp: price_table_def)
      then show ?thesis
        using assms Some True
        by (intro that [of "st\<lparr>us_seen := insert (price_key r) (us_seen st)\<rparr>"]) (auto simp: upsert_price_def Let_def price_table_def)
    next
      case False
      let ?rows = "map (\<lambda>p. if price_row_key p = (sec, ?d) then ?row else p) (us_rows st)"
      have rows: "map (\<lambda>p. if sp_security_id p = sec \<and> dp_trade_date (sp_values p) = ?d then ?row else p) (us_rows st) = ?rows"
        by (simp add: price_row_key_def)
      have "price_table ?rows = (price_table (us_rows st))(sec := (price_table (us_rows st) sec)(?d \<mapsto> record_values r))"
        using Some by (intro ext) (auto simp: price_table_def price_at_replace [OF key])
      moreover have "distinct (map price_row_key ?rows)" unfolding replace_keys [OF key] by (rule assms(3))
      ultimately show ?thesis
        using assms Some False
        by (intro that [of "st\<lparr>us_seen := insert (price_key r) (us_seen st), us_rows := ?rows, us_updated := us_updated st + 1\<rparr>"])
          (auto simp: upsert_price_def Let_def price_table_def rows)
    qed
  qed
qed

text \<open>The table after the prices of one security.\<close>

definition overlay :: "(security_key \<Rightarrow> uuid option) \<Rightarrow> daily_price_record list \<Rightarrow> (uuid \<Rightarrow> date \<Rightarrow> daily_price_record option) \<Rightarrow>
    uuid \<Rightarrow> date \<Rightarrow> daily_price_record option" where
  "overlay ids rs t sec d =
     (case find (\<lambda>r. ids (dp_security r) = Some sec \<and> dp_trade_date r = d) rs of None \<Rightarrow> t sec d | Some r \<Rightarrow> Some (record_values r))"

definition old_value :: "(security_key \<Rightarrow> uuid option) \<Rightarrow> (uuid \<Rightarrow> date \<Rightarrow> daily_price_record option) \<Rightarrow> daily_price_record \<Rightarrow>
    daily_price_record option" where
  "old_value ids t r = (case ids (dp_security r) of None \<Rightarrow> None | Some sec \<Rightarrow> t sec (dp_trade_date r))"

lemma apart_insert: "p \<notin> A \<Longrightarrow> A \<inter> B = {} \<Longrightarrow> C \<subseteq> insert p B \<Longrightarrow> A \<inter> C = {}"
  by blast

lemma upsert_prices_effect:
  assumes "distinct (map price_key rs)" and "price_key ` set rs \<inter> us_seen st = {}"
    and "\<forall>r \<in> set rs. dp_security r = key" and "distinct (map price_row_key (us_rows st))" and "ids key = Some sec"
  shows "\<exists>st'. upsert_prices ids run st rs = Inr st' \<and>
    price_table (us_rows st') = overlay ids rs (price_table (us_rows st)) \<and> distinct (map price_row_key (us_rows st')) \<and>
    us_inserted st' = us_inserted st + length (filter (\<lambda>r. old_value ids (price_table (us_rows st)) r = None) rs) \<and>
    us_updated st' = us_updated st +
      length (filter (\<lambda>r. old_value ids (price_table (us_rows st)) r \<notin> {None, Some (record_values r)}) rs) \<and>
    (\<forall>p \<in> set (us_rows st'). p \<in> set (us_rows st) \<or> (\<exists>r \<in> set rs. sp_values p = record_values r)) \<and>
    ((\<forall>r \<in> set rs. old_value ids (price_table (us_rows st)) r = Some (record_values r)) \<longrightarrow> us_rows st' = us_rows st)"
  using assms
proof (induction rs arbitrary: st)
  case Nil
  then show ?case by (simp add: overlay_def fun_eq_iff)
next
  case (Cons r rs)
  let ?t = "price_table (us_rows st)"
  have r: "price_key r \<notin> us_seen st" "dp_security r = key" "ids (dp_security r) = Some sec"
    subgoal using Cons.prems(2) by simp
    subgoal using Cons.prems(3) by simp
    subgoal using Cons.prems(3,5) by simp
    done
  obtain st1 where S: "upsert_price ids run st r = Inr st1"
    "price_table (us_rows st1) = ?t(sec := (?t sec)(dp_trade_date r \<mapsto> record_values r))"
    "us_seen st1 \<subseteq> insert (price_key r) (us_seen st)" "distinct (map price_row_key (us_rows st1))"
    "us_inserted st1 = us_inserted st + (if ?t sec (dp_trade_date r) = None then 1 else 0)"
    "us_updated st1 = us_updated st + (if ?t sec (dp_trade_date r) \<in> {None, Some (record_values r)} then 0 else 1)"
    "\<forall>p \<in> set (us_rows st1). p \<in> set (us_rows st) \<or> sp_values p = record_values r"
    "?t sec (dp_trade_date r) = Some (record_values r) \<Longrightarrow> us_rows st1 = us_rows st"
    by (rule upsert_price_effect [where r = r and st = st and ids = ids and sec = sec and run = run, OF r(1,3) Cons.prems(4)]) blast
  have apart: "price_key ` set rs \<inter> us_seen st1 = {}"
    by (rule apart_insert [OF _ _ S(3)]) (use Cons.prems(1,2) in simp_all)
  have rest: "\<forall>x \<in> set rs. dp_security x = key" using Cons.prems(3) by simp
  have dates: "dp_trade_date x \<noteq> dp_trade_date r" if "x \<in> set rs" for x
  proof
    assume "dp_trade_date x = dp_trade_date r"
    then have "price_key x = price_key r" using rest that r(2) by (simp add: price_key_def)
    moreover have "price_key r \<notin> price_key ` set rs" using Cons.prems(1) by simp
    ultimately show False using that by (metis image_eqI)
  qed
  have ids: "ids (dp_security x) = Some sec" if "x \<in> set rs" for x using rest that Cons.prems(5) by simp
  have old: "old_value ids (price_table (us_rows st1)) x = old_value ids ?t x" if "x \<in> set rs" for x
    using dates [OF that] by (simp add: old_value_def ids [OF that] S(2))
  have old_r: "old_value ids ?t r = ?t sec (dp_trade_date r)" by (simp add: old_value_def r(3))
  have rest_keys: "distinct (map price_key rs)" using Cons.prems(1) by simp
  from Cons.IH [OF rest_keys apart rest S(4) Cons.prems(5)]
  obtain st' where I: "upsert_prices ids run st1 rs = Inr st'"
    "price_table (us_rows st') = overlay ids rs (price_table (us_rows st1))" "distinct (map price_row_key (us_rows st'))"
    "us_inserted st' = us_inserted st1 + length (filter (\<lambda>r. old_value ids (price_table (us_rows st1)) r = None) rs)"
    "us_updated st' = us_updated st1 +
      length (filter (\<lambda>r. old_value ids (price_table (us_rows st1)) r \<notin> {None, Some (record_values r)}) rs)"
    "\<forall>p \<in> set (us_rows st'). p \<in> set (us_rows st1) \<or> (\<exists>r \<in> set rs. sp_values p = record_values r)"
    "(\<forall>r \<in> set rs. old_value ids (price_table (us_rows st1)) r = Some (record_values r)) \<longrightarrow> us_rows st' = us_rows st1" by (elim exE conjE)
  have "filter (\<lambda>r. old_value ids (price_table (us_rows st1)) r = None) rs = filter (\<lambda>r. old_value ids ?t r = None) rs"
    "filter (\<lambda>r. old_value ids (price_table (us_rows st1)) r \<notin> {None, Some (record_values r)}) rs =
     filter (\<lambda>r. old_value ids ?t r \<notin> {None, Some (record_values r)}) rs"
    using old by (auto intro: filter_cong)
  moreover have "overlay ids rs (price_table (us_rows st1)) = overlay ids (r # rs) ?t"
  proof (intro ext)
    fix s d
    have "find (\<lambda>x. ids (dp_security x) = Some s \<and> dp_trade_date x = d) rs = None" if "ids (dp_security r) = Some s" "dp_trade_date r = d"
      using that dates by (auto simp: find_None_iff)
    then show "overlay ids rs (price_table (us_rows st1)) s d = overlay ids (r # rs) ?t s d"
      using r(3) by (auto simp: overlay_def S(2) split: option.split)
  qed
  ultimately show ?case using S I old old_r by (intro exI [of _ st']) auto
qed

section \<open>Securities\<close>

definition stocks_ok :: "price_db \<Rightarrow> bool" where
  "stocks_ok db \<longleftrightarrow> distinct (map sr_id (pd_stocks db)) \<and> distinct (map sr_key (pd_stocks db))"

lemma preload_Some:
  assumes "stocks_ok db" and "k \<in> set keys"
  shows "preload_security_ids db keys k = Some i \<longleftrightarrow>
    (\<exists>s \<in> set (pd_stocks db). sr_active s \<and> sr_type s = ''COMMON_STOCK'' \<and> sr_key s = k \<and> sr_id s = i)"
proof -
  let ?ok = "\<lambda>s. sr_active s \<and> sr_type s = ''COMMON_STOCK'' \<and> sk_market (sr_key s) \<in> sk_market ` set keys \<and> sk_code (sr_key s) \<in> sk_code ` set keys"
  let ?xs = "rev (map (\<lambda>s. (sr_key s, sr_id s)) (filter ?ok (pd_stocks db)))"
  have "distinct (map sr_key (filter ?ok (pd_stocks db)))" using assms(1) by (simp add: stocks_ok_def distinct_map_filter)
  then have "distinct (map fst ?xs)" by (simp add: rev_map [symmetric] o_def)
  then have "preload_security_ids db keys k = Some i \<longleftrightarrow> (k, i) \<in> set ?xs"
    unfolding preload_security_ids_def by (rule map_of_eq_Some_iff)
  then show ?thesis using assms(2) by force
qed

lemma preload_is_security_id:
  assumes "stocks_ok db" and "k \<in> set keys"
  shows "preload_security_ids db keys k = security_id db k"
proof -
  have "preload_security_ids db keys k = Some i \<longleftrightarrow> preload_security_ids db [k] k = Some i" for i
    using preload_Some [OF assms, of i] preload_Some [OF assms(1), of k "[k]" i] by simp
  then show ?thesis unfolding security_id_def by (metis option.exhaust)
qed

lemma security_id_inj:
  assumes "stocks_ok db" and "security_id db k = Some i" and "security_id db k' = Some i"
  shows "k = k'"
proof -
  from assms obtain s s' where "s \<in> set (pd_stocks db)" "sr_key s = k" "sr_id s = i"
    "s' \<in> set (pd_stocks db)" "sr_key s' = k'" "sr_id s' = i"
    using preload_Some [OF assms(1), of _ "[_]"] unfolding security_id_def by fastforce
  then show ?thesis using assms(1) by (auto simp: stocks_ok_def distinct_map dest: inj_onD)
qed

lemma security_id_same: "pd_stocks db = pd_stocks db' \<Longrightarrow> security_id db = security_id db'"
  by (simp add: security_id_def preload_security_ids_def fun_eq_iff)

section \<open>All groups\<close>

definition unknown_stock :: "(security_key \<Rightarrow> uuid option) \<Rightarrow> daily_price_record \<Rightarrow> bool" where
  "unknown_stock ids r \<longleftrightarrow> ids (dp_security r) = None"

definition inserts :: "(security_key \<Rightarrow> uuid option) \<Rightarrow> (uuid \<Rightarrow> date \<Rightarrow> daily_price_record option) \<Rightarrow> daily_price_record \<Rightarrow> bool" where
  "inserts ids t r \<longleftrightarrow> \<not> unknown_stock ids r \<and> old_value ids t r = None"

definition updates :: "(security_key \<Rightarrow> uuid option) \<Rightarrow> (uuid \<Rightarrow> date \<Rightarrow> daily_price_record option) \<Rightarrow> daily_price_record \<Rightarrow> bool" where
  "updates ids t r \<longleftrightarrow> \<not> unknown_stock ids r \<and> old_value ids t r \<notin> {None, Some (record_values r)}"

lemma overlay_other:
  assumes "\<And>r. r \<in> set g \<Longrightarrow> ids (dp_security r) \<noteq> Some sec"
  shows "overlay ids g t sec = t sec"
proof
  fix d
  have "find (\<lambda>r. ids (dp_security r) = Some sec \<and> dp_trade_date r = d) g = None" using assms by (auto simp: find_None_iff)
  then show "overlay ids g t sec d = t sec d" by (simp add: overlay_def)
qed

lemma overlay_append:
  assumes "\<And>r r'. r \<in> set g \<Longrightarrow> r' \<in> set rs \<Longrightarrow> ids (dp_security r) = None \<or> ids (dp_security r) \<noteq> ids (dp_security r')"
  shows "overlay ids rs (overlay ids g t) = overlay ids (g @ rs) t"
proof (intro ext)
  fix sec d
  show "overlay ids rs (overlay ids g t) sec d = overlay ids (g @ rs) t sec d"
  proof (cases "find (\<lambda>r. ids (dp_security r) = Some sec \<and> dp_trade_date r = d) g")
    case None
    then show ?thesis by (simp add: overlay_def find_append split: option.split)
  next
    case (Some r)
    then have r: "r \<in> set g" "ids (dp_security r) = Some sec" using find_mem by fastforce+
    then have "overlay ids rs (overlay ids g t) sec = overlay ids g t sec" using assms by (intro overlay_other) fastforce
    then show ?thesis using Some by (simp add: overlay_def find_append)
  qed
qed

lemma ingest_group_effect:
  assumes "stocks_ok (gr_db st)" and "g \<noteq> []" and key: "\<forall>r \<in> set g. dp_security r = k" and "distinct (map price_key g)"
    and "distinct (map price_row_key (pd_prices (gr_db st)))"
  shows "\<exists>rows. let ids = security_id (gr_db st); t = price_table (pd_prices (gr_db st)) in
    ingest_group run st (k, g) = Inr (st\<lparr>gr_db := (gr_db st)\<lparr>pd_prices := rows\<rparr>,
      gr_inserted := gr_inserted st + length (filter (inserts ids t) g),
      gr_updated := gr_updated st + length (filter (updates ids t) g),
      gr_failed := gr_failed st + length (filter (unknown_stock ids) g)\<rparr>) \<and>
    price_table rows = overlay ids g t \<and> distinct (map price_row_key rows) \<and>
    (\<forall>p \<in> set rows. p \<in> set (pd_prices (gr_db st)) \<or> (\<exists>r \<in> set g. sp_values p = record_values r)) \<and>
    ((\<forall>r \<in> set g. \<not> inserts ids t r \<and> \<not> updates ids t r) \<longrightarrow> rows = pd_prices (gr_db st))"
proof -
  let ?ids = "security_id (gr_db st)" and ?t = "price_table (pd_prices (gr_db st))" and ?pre = "preload_security_ids (gr_db st) (map dp_security g)"
  obtain r rs where g: "g = r # rs" using assms(2) by (cases g) simp_all
  have ids: "?pre k = ?ids k" using preload_is_security_id [OF assms(1), of k "map dp_security g"] key g by simp
  show ?thesis
  proof (cases "?ids k")
    case None
    have unknown: "unknown_stock ?ids x" if "x \<in> set g" for x using that key None by (simp add: unknown_stock_def)
    have "ingest_group run st (k, g) = Inr (st\<lparr>gr_failed := gr_failed st + length g\<rparr>)"
      using None ids key by (simp add: ingest_group_def synchronize_prices_def g upsert_price_def)
    moreover have "filter (unknown_stock ?ids) g = g" "filter (inserts ?ids ?t) g = []" "filter (updates ?ids ?t) g = []"
      using unknown by (auto simp: inserts_def updates_def filter_empty_conv)
    moreover have "overlay ?ids g ?t = ?t" using key None by (intro ext) (simp add: overlay_other)
    ultimately show ?thesis using assms(5) by (intro exI [of _ "pd_prices (gr_db st)"]) (simp add: Let_def)
  next
    case (Some sec)
    let ?st0 = "\<lparr>us_rows = pd_prices (gr_db st), us_seen = {}, us_inserted = 0, us_updated = 0\<rparr>"
    have rows: "distinct (map price_row_key (us_rows ?st0))" and seen: "price_key ` set g \<inter> us_seen ?st0 = {}"
      and pre: "?pre k = Some sec" using assms(5) ids Some by simp_all
    from upsert_prices_effect [where rs = g and ids = ?pre and sec = sec and key = k and run = run, OF assms(4) seen key rows pre]
    obtain us where U: "upsert_prices ?pre run ?st0 g = Inr us"
      "price_table (us_rows us) = overlay ?pre g ?t" "distinct (map price_row_key (us_rows us))"
      "us_inserted us = length (filter (\<lambda>r. old_value ?pre ?t r = None) g)"
      "us_updated us = length (filter (\<lambda>r. old_value ?pre ?t r \<notin> {None, Some (record_values r)}) g)"
      "\<forall>p \<in> set (us_rows us). p \<in> set (pd_prices (gr_db st)) \<or> (\<exists>r \<in> set g. sp_values p = record_values r)"
      "(\<forall>r \<in> set g. old_value ?pre ?t r = Some (record_values r)) \<longrightarrow> us_rows us = pd_prices (gr_db st)" by auto
    have same: "?pre (dp_security x) = ?ids (dp_security x)" if "x \<in> set g" for x using that key ids by simp
    have known: "\<not> unknown_stock ?ids x" if "x \<in> set g" for x using that key Some by (simp add: unknown_stock_def)
    have old: "old_value ?pre ?t x = old_value ?ids ?t x" if "x \<in> set g" for x using same [OF that] by (simp add: old_value_def)
    have "overlay ?pre g ?t = overlay ?ids g ?t"
      unfolding overlay_def using same by (intro ext) (auto cong: find_cong)
    moreover have "filter (\<lambda>r. old_value ?pre ?t r = None) g = filter (inserts ?ids ?t) g"
      "filter (\<lambda>r. old_value ?pre ?t r \<notin> {None, Some (record_values r)}) g = filter (updates ?ids ?t) g"
      "filter (unknown_stock ?ids) g = []"
      using old known by (auto simp: inserts_def updates_def filter_empty_conv intro!: filter_cong)
    moreover have "ingest_group run st (k, g) = Inr (st\<lparr>gr_db := (gr_db st)\<lparr>pd_prices := us_rows us\<rparr>,
        gr_inserted := gr_inserted st + us_inserted us, gr_updated := gr_updated st + us_updated us\<rparr>)"
      using U(1) by (simp add: ingest_group_def synchronize_prices_def)
    moreover have "(\<forall>r \<in> set g. \<not> inserts ?ids ?t r \<and> \<not> updates ?ids ?t r) \<longrightarrow> us_rows us = pd_prices (gr_db st)"
      using U(7) old known by (auto simp: inserts_def updates_def)
    ultimately show ?thesis using U by (intro exI [of _ "us_rows us"]) (simp add: Let_def)
  qed
qed

lemma group_records:
  "mset (concat (map snd (group_by key xs))) = mset xs"
proof (induction xs rule: rev_induct)
  case Nil
  then show ?case by (simp add: group_by_def)
next
  case (snoc x xs)
  have "mset (concat (map snd (AList.update k ((case map_of gs k of None \<Rightarrow> [] | Some ys \<Rightarrow> ys) @ [x]) gs))) =
      mset (concat (map snd gs)) + {#x#}" for k :: 'b and gs
    by (induction gs) auto
  then show ?case using snoc by (simp add: group_by_snoc group_step_def)
qed

definition proper_groups :: "(security_key \<times> daily_price_record list) list \<Rightarrow> bool" where
  "proper_groups gs \<longleftrightarrow> distinct (map fst gs) \<and>
     (\<forall>(k, g) \<in> set gs. g \<noteq> [] \<and> (\<forall>r \<in> set g. dp_security r = k) \<and> distinct (map price_key g))"

lemma ingest_groups_effect:
  assumes "stocks_ok (gr_db st)" and "proper_groups gs" and "distinct (map price_row_key (pd_prices (gr_db st)))"
  shows "\<exists>rows. let ids = security_id (gr_db st); t = price_table (pd_prices (gr_db st)); rs = concat (map snd gs) in
    rfold (ingest_group run) st gs = Inr (st\<lparr>gr_db := (gr_db st)\<lparr>pd_prices := rows\<rparr>,
      gr_inserted := gr_inserted st + length (filter (inserts ids t) rs),
      gr_updated := gr_updated st + length (filter (updates ids t) rs),
      gr_failed := gr_failed st + length (filter (unknown_stock ids) rs)\<rparr>) \<and>
    price_table rows = overlay ids rs t \<and> distinct (map price_row_key rows) \<and>
    (\<forall>p \<in> set rows. p \<in> set (pd_prices (gr_db st)) \<or> (\<exists>r \<in> set rs. sp_values p = record_values r)) \<and>
    ((\<forall>r \<in> set rs. \<not> inserts ids t r \<and> \<not> updates ids t r) \<longrightarrow> rows = pd_prices (gr_db st))"
  using assms
proof (induction gs arbitrary: st)
  case Nil
  have "overlay ids [] t = t" for ids t by (simp add: overlay_def fun_eq_iff)
  then show ?case using Nil.prems(3) by (intro exI [of _ "pd_prices (gr_db st)"]) (simp add: Let_def)
next
  case (Cons kg gs)
  obtain k g where kg: "kg = (k, g)" by (cases kg)
  let ?ids = "security_id (gr_db st)" and ?t = "price_table (pd_prices (gr_db st))" and ?rs = "concat (map snd gs)"
  have g: "g \<noteq> []" "\<forall>r \<in> set g. dp_security r = k" "distinct (map price_key g)" and gs: "proper_groups gs"
    and keys: "k \<notin> fst ` set gs" using Cons.prems(2) by (auto simp: kg proper_groups_def)
  from ingest_group_effect [OF Cons.prems(1) g Cons.prems(3), of run]
  obtain rows1 where A:
    "ingest_group run st (k, g) = Inr (st\<lparr>gr_db := (gr_db st)\<lparr>pd_prices := rows1\<rparr>,
      gr_inserted := gr_inserted st + length (filter (inserts ?ids ?t) g),
      gr_updated := gr_updated st + length (filter (updates ?ids ?t) g),
      gr_failed := gr_failed st + length (filter (unknown_stock ?ids) g)\<rparr>)"
    "price_table rows1 = overlay ?ids g ?t" "distinct (map price_row_key rows1)"
    "\<forall>p \<in> set rows1. p \<in> set (pd_prices (gr_db st)) \<or> (\<exists>r \<in> set g. sp_values p = record_values r)"
    "(\<forall>r \<in> set g. \<not> inserts ?ids ?t r \<and> \<not> updates ?ids ?t r) \<longrightarrow> rows1 = pd_prices (gr_db st)"
    unfolding Let_def by blast
  define st1 where "st1 = st\<lparr>gr_db := (gr_db st)\<lparr>pd_prices := rows1\<rparr>,
      gr_inserted := gr_inserted st + length (filter (inserts ?ids ?t) g),
      gr_updated := gr_updated st + length (filter (updates ?ids ?t) g),
      gr_failed := gr_failed st + length (filter (unknown_stock ?ids) g)\<rparr>"
  have st1: "gr_db st1 = (gr_db st)\<lparr>pd_prices := rows1\<rparr>" "gr_inserted st1 = gr_inserted st + length (filter (inserts ?ids ?t) g)"
    "gr_updated st1 = gr_updated st + length (filter (updates ?ids ?t) g)"
    "gr_failed st1 = gr_failed st + length (filter (unknown_stock ?ids) g)"
    "st1\<lparr>gr_db := d, gr_inserted := a, gr_updated := b, gr_failed := c\<rparr> = st\<lparr>gr_db := d, gr_inserted := a, gr_updated := b, gr_failed := c\<rparr>"
    for d a b c by (simp_all add: st1_def)
  have ids: "security_id (gr_db st1) = ?ids" by (rule security_id_same) (simp add: st1)
  have "stocks_ok (gr_db st1)" "distinct (map price_row_key (pd_prices (gr_db st1)))"
    using Cons.prems(1) A(3) by (simp_all add: st1 stocks_ok_def)
  from Cons.IH [OF this(1) gs this(2)]
  obtain rows where B:
    "rfold (ingest_group run) st1 gs = Inr (st1\<lparr>gr_db := (gr_db st1)\<lparr>pd_prices := rows\<rparr>,
      gr_inserted := gr_inserted st1 + length (filter (inserts ?ids (price_table rows1)) ?rs),
      gr_updated := gr_updated st1 + length (filter (updates ?ids (price_table rows1)) ?rs),
      gr_failed := gr_failed st1 + length (filter (unknown_stock ?ids) ?rs)\<rparr>)"
    "price_table rows = overlay ?ids ?rs (price_table rows1)" "distinct (map price_row_key rows)"
    "\<forall>p \<in> set rows. p \<in> set rows1 \<or> (\<exists>r \<in> set ?rs. sp_values p = record_values r)"
    "(\<forall>r \<in> set ?rs. \<not> inserts ?ids (price_table rows1) r \<and> \<not> updates ?ids (price_table rows1) r) \<longrightarrow> rows = rows1"
    unfolding Let_def ids by (auto simp: st1)
  have others: "dp_security r \<noteq> k" if "r \<in> set ?rs" for r
    using that gs keys by (force simp: proper_groups_def)
  have apart: "?ids (dp_security r) = None \<or> ?ids (dp_security r) \<noteq> ?ids (dp_security r')" if "r \<in> set g" "r' \<in> set ?rs" for r r'
    using security_id_inj [OF Cons.prems(1)] others [OF that(2)] g(2) that(1) by (cases "?ids k") (auto, metis)
  have old: "old_value ?ids (price_table rows1) r = old_value ?ids ?t r" if r: "r \<in> set ?rs" for r
  proof (cases "?ids (dp_security r)")
    case (Some sec)
    have "overlay ?ids g ?t sec = ?t sec" using apart [OF _ r] Some by (intro overlay_other) fastforce
    then show ?thesis by (simp add: old_value_def Some A(2))
  qed (simp add: old_value_def)
  have same: "filter (inserts ?ids (price_table rows1)) ?rs = filter (inserts ?ids ?t) ?rs"
    "filter (updates ?ids (price_table rows1)) ?rs = filter (updates ?ids ?t) ?rs"
    using old by (auto simp: inserts_def updates_def intro!: filter_cong)
  have "rfold (ingest_group run) st (kg # gs) = rfold (ingest_group run) st1 gs" using A(1) by (simp add: kg st1_def)
  moreover have "price_table rows = overlay ?ids (g @ ?rs) ?t"
    unfolding B(2) A(2) by (rule overlay_append) (rule apart)
  moreover have "(\<forall>r \<in> set (g @ ?rs). \<not> inserts ?ids ?t r \<and> \<not> updates ?ids ?t r) \<longrightarrow> rows = pd_prices (gr_db st)"
    using A(5) B(5) old by (auto simp: inserts_def updates_def)
  moreover have "\<forall>p \<in> set rows. p \<in> set (pd_prices (gr_db st)) \<or> (\<exists>r \<in> set (g @ ?rs). sp_values p = record_values r)"
    using A(4) B(4) by fastforce
  ultimately show ?case
    unfolding Let_def using B(1,3) by (intro exI [of _ rows]) (simp add: kg st1 same add.assoc)
qed

end
