(* ===== verification/PriceProperties.thy ===== *)
theory PriceProperties
  imports PriceTables
begin

text \<open>
  The ingestion of daily prices as a whole, and the recalculation of technical snapshots from the stored
  prices, with examples.
\<close>

section \<open>The accepted records\<close>

text \<open>The first element of every key.\<close>

fun firsts_by :: "('a \<Rightarrow> 'k) \<Rightarrow> 'a list \<Rightarrow> 'a list" where
  "firsts_by key [] = []"
| "firsts_by key (x # xs) = x # filter (\<lambda>y. key y \<noteq> key x) (firsts_by key xs)"

lemma firsts_by_keys: "key ` set (firsts_by key xs) = key ` set xs"
proof (induction xs)
  case (Cons x xs)
  have "key ` {y \<in> set (firsts_by key xs). key y \<noteq> key x} = key ` set (firsts_by key xs) - {key x}" by auto
  with Cons show ?case by auto
qed simp

lemma firsts_by_snoc: "firsts_by key (xs @ [x]) = firsts_by key xs @ (if key x \<in> key ` set xs then [] else [x])"
  by (induction xs) auto

text \<open>
  What a run accepts of what it fetched: of the valid records of trading days the first of each security
  and date, without the instruments that are no stocks when no security is asked for.
\<close>

definition acceptable :: "(date \<Rightarrow> bool) option \<Rightarrow> daily_price_record \<Rightarrow> bool" where
  "acceptable calendar r \<longleftrightarrow> validate_price r = None \<and> (case calendar of None \<Rightarrow> True | Some trading \<Rightarrow> trading (dp_trade_date r))"

definition first_acceptable :: "(date \<Rightarrow> bool) option \<Rightarrow> daily_price_record list \<Rightarrow> daily_price_record list" where
  "first_acceptable calendar records = firsts_by price_key (filter (acceptable calendar) records)"

definition accepted_of :: "(date \<Rightarrow> bool) option \<Rightarrow> security_key option \<Rightarrow> daily_price_record list \<Rightarrow> daily_price_record list" where
  "accepted_of calendar security records =
     filter (\<lambda>r. security \<noteq> None \<or> \<not> is_expected_non_stock (sk_code (dp_security r))) (first_acceptable calendar records)"

lemma accept_records_firsts: "ac_unique (accept_records calendar records) = first_acceptable calendar records"
proof (induction records rule: rev_induct)
  case (snoc r records)
  have "accept_records calendar (records @ [r]) = accept_record calendar (accept_records calendar records) r"
    by (simp add: accept_records_def)
  moreover have "price_key ` set (first_acceptable calendar records) = price_key ` set (filter (acceptable calendar) records)"
    unfolding first_acceptable_def by (rule firsts_by_keys)
  ultimately show ?case using snoc
    by (auto simp: accept_record_def first_acceptable_def firsts_by_snoc acceptable_def split: option.splits)
qed (simp add: accept_records_def first_acceptable_def)

lemma accepted_of_code: "accepted_of calendar security records = accepted_records security (ac_unique (accept_records calendar records))"
  by (simp add: accepted_of_def accepted_records_def accept_records_firsts)

lemma accept_facts:
  "distinct (map price_key (ac_unique (accept_records calendar records))) \<and>
   ac_rejected (accept_records calendar records) + length (ac_unique (accept_records calendar records)) = length records \<and>
   (\<forall>r \<in> set (ac_unique (accept_records calendar records)). r \<in> set records \<and> validate_price r = None \<and>
      (case calendar of None \<Rightarrow> True | Some trading \<Rightarrow> trading (dp_trade_date r)))"
proof (induction records rule: rev_induct)
  case Nil
  then show ?case by (simp add: accept_records_def)
next
  case (snoc r records)
  have "accept_records calendar (records @ [r]) = accept_record calendar (accept_records calendar records) r"
    by (simp add: accept_records_def)
  then show ?case using snoc by (auto simp: accept_record_def split: option.splits)
qed

lemma accepted_facts:
  "distinct (map price_key (accepted_of calendar security records))"
  "length (accepted_of calendar security records) \<le> length (ac_unique (accept_records calendar records))"
  "r \<in> set (accepted_of calendar security records) \<Longrightarrow> validate_price r = None"
  using accept_facts [of calendar records]
  by (auto simp: accepted_of_code accepted_records_def distinct_map_filter)

lemma accepted_groups: "distinct (map price_key rs) \<Longrightarrow> proper_groups (group_by dp_security rs)"
proof -
  assume rs: "distinct (map price_key rs)"
  have "g \<noteq> [] \<and> (\<forall>r \<in> set g. dp_security r = k) \<and> distinct (map price_key g)" if "(k, g) \<in> set (group_by dp_security rs)" for k g
    using group_by_mem [OF that] rs by (auto simp: distinct_map_filter)
  then show ?thesis using group_by_map_of [of dp_security rs] by (auto simp: proper_groups_def)
qed

lemma validate_stored [simp]: "validate_price (record_values r) = validate_price r"
  by (simp add: record_values_def validate_price_def split: option.split)

section \<open>The run\<close>

text \<open>What holds of the tables between two runs.\<close>

definition price_inv :: "price_db \<Rightarrow> bool" where
  "price_inv db \<longleftrightarrow> stocks_ok db \<and> distinct (map price_row_key (pd_prices db)) \<and>
     (\<forall>p \<in> set (pd_prices db). validate_price (sp_values p) = None)"

definition unchanged_except_prices :: "price_db \<Rightarrow> price_db \<Rightarrow> bool" where
  "unchanged_except_prices db db' \<longleftrightarrow> pd_stocks db' = pd_stocks db \<and> pd_technicals db' = pd_technicals db"

lemma filter_partition3:
  assumes "\<And>x. x \<in> set xs \<Longrightarrow> \<not> (P x \<and> Q x) \<and> \<not> (P x \<and> R x) \<and> \<not> (Q x \<and> R x)"
  shows "length (filter P xs) + length (filter Q xs) + length (filter R xs) \<le> length xs"
  using assms by (induction xs) auto

lemma overlay_miss:
  assumes "\<And>r. r \<in> set rs \<Longrightarrow> dp_trade_date r = d \<Longrightarrow> ids (dp_security r) \<noteq> Some sec"
  shows "overlay ids rs t sec d = t sec d"
proof -
  have "find (\<lambda>r. ids (dp_security r) = Some sec \<and> dp_trade_date r = d) rs = None" using assms by (auto simp: find_None_iff)
  then show ?thesis by (simp add: overlay_def)
qed

lemma overlay_hit:
  assumes "stocks_ok db" and "distinct (map price_key rs)" and r: "r \<in> set rs" "security_id db (dp_security r) = Some sec"
  shows "overlay (security_id db) rs t sec (dp_trade_date r) = Some (record_values r)"
proof -
  let ?P = "\<lambda>x. security_id db (dp_security x) = Some sec \<and> dp_trade_date x = dp_trade_date r"
  obtain x where x: "find ?P rs = Some x" using find_ex [of r rs ?P] r by blast
  then have hit: "x \<in> set rs" "?P x" by (auto dest: find_mem)
  have "dp_security x = dp_security r" using security_id_inj [OF assms(1)] hit(2) r(2) by blast
  then have "price_key x = price_key r" using hit(2) by (simp add: price_key_def)
  then have "x = r" using assms(2) r(1) hit(1) by (metis distinct_map inj_onD)
  then show ?thesis using x by (simp add: overlay_def)
qed

lemma overlay_cong:
  assumes "stocks_ok db" and "distinct (map price_key rs)" and "distinct (map price_key rs')" and "set rs = set rs'"
  shows "overlay (security_id db) rs t = overlay (security_id db) rs' t"
proof (intro ext)
  fix sec d
  show "overlay (security_id db) rs t sec d = overlay (security_id db) rs' t sec d"
  proof (cases "\<exists>r \<in> set rs. dp_trade_date r = d \<and> security_id db (dp_security r) = Some sec")
    case True
    then obtain r where "r \<in> set rs" "dp_trade_date r = d" "security_id db (dp_security r) = Some sec" by blast
    then show ?thesis using overlay_hit [OF assms(1,2), of r sec t] overlay_hit [OF assms(1,3), of r sec t] assms(4) by simp
  next
    case False
    then show ?thesis using overlay_miss [of rs d "security_id db" sec t] overlay_miss [of rs' d "security_id db" sec t] assms(4) by metis
  qed
qed

lemma ingestion_effect:
  fixes calendar :: "(date \<Rightarrow> bool) option" and security :: "security_key option" and records :: "daily_price_record list"
  assumes inv: "price_inv db"
  defines "rs \<equiv> accepted_of calendar security records" and "ids \<equiv> security_id db" and "t \<equiv> price_table (pd_prices db)"
  shows "\<exists>run db' failed. synchronize_daily line digest message calendar security i provider started now retry (Inr records) db = (Inr run, db') \<and>
    price_inv db' \<and> unchanged_except_prices db db' \<and> pd_runs db' = pd_runs db @ [run] \<and>
    price_table (pd_prices db') = overlay ids rs t \<and>
    ir_fetched run = length records \<and> ir_inserted run = length (filter (inserts ids t) rs) \<and>
    ir_updated run = length (filter (updates ids t) rs) \<and> failed = length (filter (unknown_stock ids) rs) \<and>
    ir_rejected run = ac_rejected (accept_records calendar records) + failed \<and>
    ir_status run = (if 0 < ir_rejected run then ''PARTIAL'' else ''SUCCEEDED'') \<and>
    ((\<forall>r \<in> set rs. \<not> inserts ids t r \<and> \<not> updates ids t r) \<longrightarrow> pd_prices db' = pd_prices db)"
proof -
  let ?gs = "group_by dp_security rs" and ?st = "\<lparr>gr_db = db, gr_inserted = 0, gr_updated = 0, gr_failed = 0\<rparr>"
  let ?all = "concat (map snd ?gs)"
  have rs: "distinct (map price_key rs)" unfolding rs_def by (rule accepted_facts)
  have ok: "stocks_ok db" "distinct (map price_row_key (pd_prices db))" "\<forall>p \<in> set (pd_prices db). validate_price (sp_values p) = None"
    using inv by (simp_all add: price_inv_def)
  have mset: "mset ?all = mset rs" by (rule group_records)
  then have set: "set ?all = set rs" by (rule mset_eq_setD)
  have count: "length (filter P ?all) = length (filter P rs)" for P
    using mset by (metis mset_filter size_mset)
  from ingest_groups_effect [where st = ?st and gs = ?gs and run = i] ok(1,2) accepted_groups [OF rs]
  obtain rows where R: "rfold (ingest_group i) ?st ?gs = Inr (?st\<lparr>gr_db := db\<lparr>pd_prices := rows\<rparr>,
      gr_inserted := length (filter (inserts ids t) rs), gr_updated := length (filter (updates ids t) rs),
      gr_failed := length (filter (unknown_stock ids) rs)\<rparr>)"
    "price_table rows = overlay ids ?all t" "distinct (map price_row_key rows)"
    "\<forall>p \<in> set rows. p \<in> set (pd_prices db) \<or> (\<exists>r \<in> set rs. sp_values p = record_values r)"
    "(\<forall>r \<in> set rs. \<not> inserts ids t r \<and> \<not> updates ids t r) \<longrightarrow> rows = pd_prices db"
    unfolding Let_def count set ids_def t_def by auto
  have "distinct (map price_key ?all)"
    using rs mset by (metis distinct_count_atmost_1 mset_map set_mset_mset set_map mset_eq_imp_distinct_iff)
  then have table: "price_table rows = overlay ids rs t"
    unfolding R(2) ids_def using ok(1) rs set by (intro overlay_cong) simp_all
  have "\<forall>p \<in> set rows. validate_price (sp_values p) = None"
    using R(4) ok(3) accepted_facts(3) unfolding rs_def by fastforce
  then show ?thesis
    using R(1,3,5) table ok(1)
    by (simp add: synchronize_daily_def ingest_records_def accepted_of_code [symmetric] rs_def [symmetric] Let_def store_run_def new_run_def
        price_inv_def stocks_ok_def unchanged_except_prices_def)
qed

text \<open>
  C29. A successful run of the price ingestion accepts the first valid record of each security and trading
  day. Afterwards every accepted record of a known stock is the row of its security and date, no other
  row has changed, and the rows are still unique and valid. The counters of the run are exact: inserted
  are the accepted records whose row was missing, updated those whose row had other values, rejected the
  records that are no first valid one and the accepted ones whose security is unknown; instruments that
  are no stocks and rows that were already stored as they are stand in no counter.
\<close>

theorem prices_after_ingestion:
  assumes "price_inv db"
  shows "\<exists>run db'. synchronize_daily line digest message calendar security i provider started now retry (Inr records) db = (Inr run, db') \<and>
    price_inv db' \<and> unchanged_except_prices db db' \<and> pd_runs db' = pd_runs db @ [run] \<and>
    (\<forall>r \<in> set (accepted_of calendar security records). \<forall>sec. security_id db (dp_security r) = Some sec \<longrightarrow>
       price_table (pd_prices db') sec (dp_trade_date r) = Some (record_values r)) \<and>
    (\<forall>sec d. (\<forall>r \<in> set (accepted_of calendar security records). dp_trade_date r = d \<longrightarrow> security_id db (dp_security r) \<noteq> Some sec) \<longrightarrow>
       price_table (pd_prices db') sec d = price_table (pd_prices db) sec d) \<and>
    ir_fetched run = length records \<and>
    ir_inserted run = length (filter (\<lambda>r. \<exists>sec. security_id db (dp_security r) = Some sec \<and>
      price_table (pd_prices db) sec (dp_trade_date r) = None) (accepted_of calendar security records)) \<and>
    ir_updated run = length (filter (\<lambda>r. \<exists>sec v. security_id db (dp_security r) = Some sec \<and>
      price_table (pd_prices db) sec (dp_trade_date r) = Some v \<and> v \<noteq> record_values r) (accepted_of calendar security records)) \<and>
    ir_rejected run = length records - length (first_acceptable calendar records) +
      length (filter (\<lambda>r. security_id db (dp_security r) = None) (accepted_of calendar security records)) \<and>
    ir_inserted run + ir_updated run + ir_rejected run \<le> ir_fetched run \<and>
    (ir_status run = ''SUCCEEDED'' \<longleftrightarrow> ir_rejected run = 0)"
proof -
  let ?rs = "accepted_of calendar security records" and ?ids = "security_id db" and ?t = "price_table (pd_prices db)"
  from ingestion_effect [OF assms, of line digest message calendar security i provider started now retry records]
  obtain run db' failed where R:
    "synchronize_daily line digest message calendar security i provider started now retry (Inr records) db = (Inr run, db')"
    "price_inv db'" "unchanged_except_prices db db'" "pd_runs db' = pd_runs db @ [run]"
    "price_table (pd_prices db') = overlay ?ids ?rs ?t" "ir_fetched run = length records"
    "ir_inserted run = length (filter (inserts ?ids ?t) ?rs)" "ir_updated run = length (filter (updates ?ids ?t) ?rs)"
    "failed = length (filter (unknown_stock ?ids) ?rs)" "ir_rejected run = ac_rejected (accept_records calendar records) + failed"
    "ir_status run = (if 0 < ir_rejected run then ''PARTIAL'' else ''SUCCEEDED'')" by blast
  have "price_table (pd_prices db') sec (dp_trade_date r) = Some (record_values r)"
    if r: "r \<in> set ?rs" "?ids (dp_security r) = Some sec" for r sec
    unfolding R(5) using assms r accepted_facts(1) by (intro overlay_hit) (simp_all add: price_inv_def)
  moreover have "price_table (pd_prices db') sec d = ?t sec d"
    if none: "\<forall>r \<in> set ?rs. dp_trade_date r = d \<longrightarrow> ?ids (dp_security r) \<noteq> Some sec" for sec d
    unfolding R(5) using none by (intro overlay_miss) blast
  moreover have "ir_inserted run + ir_updated run + ir_rejected run \<le> ir_fetched run"
  proof -
    have "length (filter (inserts ?ids ?t) ?rs) + length (filter (updates ?ids ?t) ?rs) + length (filter (unknown_stock ?ids) ?rs) \<le> length ?rs"
      by (rule filter_partition3) (auto simp: inserts_def updates_def)
    then show ?thesis
      using accepted_facts(2) [of calendar security records] accept_facts [of calendar records] R(6-10) by linarith
  qed
  moreover have "ir_inserted run = length (filter (\<lambda>r. \<exists>sec. ?ids (dp_security r) = Some sec \<and> ?t sec (dp_trade_date r) = None) ?rs)"
    unfolding R(7) by (rule arg_cong [where f = length], rule filter_cong)
      (auto simp: inserts_def unknown_stock_def old_value_def)
  moreover have "ir_updated run = length (filter (\<lambda>r. \<exists>sec v. ?ids (dp_security r) = Some sec \<and>
      ?t sec (dp_trade_date r) = Some v \<and> v \<noteq> record_values r) ?rs)"
    unfolding R(8) by (rule arg_cong [where f = length], rule filter_cong)
      (auto simp: updates_def unknown_stock_def old_value_def split: option.splits)
  moreover have "ir_rejected run = length records - length (first_acceptable calendar records) +
      length (filter (\<lambda>r. ?ids (dp_security r) = None) ?rs)"
  proof -
    have "length records - length (first_acceptable calendar records) = ac_rejected (accept_records calendar records)"
      using accept_facts [of calendar records] unfolding accept_records_firsts by linarith
    then show ?thesis using R(9,10) by (simp only: unknown_stock_def [abs_def])
  qed
  moreover have "ir_status run = ''SUCCEEDED'' \<longleftrightarrow> ir_rejected run = 0" unfolding R(11) by simp
  ultimately show ?thesis using R(1-4,6) by (intro exI [of _ run] exI [of _ db']) blast
qed

text \<open>
  C30. Ingesting the same records again changes nothing: no row is inserted or updated, not even the run
  the rows name.
\<close>

theorem ingestion_idempotent:
  assumes "price_inv db"
    and first: "synchronize_daily line digest message calendar security i provider started now retry (Inr records) db = (Inr run, db')"
  shows "\<exists>run' db''. synchronize_daily line digest message calendar security i' provider started' now' retry (Inr records) db' = (Inr run', db'') \<and>
    pd_prices db'' = pd_prices db' \<and> ir_inserted run' = 0 \<and> ir_updated run' = 0 \<and> ir_rejected run' = ir_rejected run"
proof -
  let ?rs = "accepted_of calendar security records"
  from ingestion_effect [OF assms(1), of line digest message calendar security i provider started now retry records] first
  have one: "price_inv db'" "unchanged_except_prices db db'" "price_table (pd_prices db') = overlay (security_id db) ?rs (price_table (pd_prices db))"
    "ir_rejected run = ac_rejected (accept_records calendar records) + length (filter (unknown_stock (security_id db)) ?rs)" by auto
  have ids: "security_id db' = security_id db" using one(2) by (intro security_id_same) (simp add: unchanged_except_prices_def)
  from ingestion_effect [OF one(1), of line digest message calendar security i' provider started' now' retry records]
  obtain run' db'' where two:
    "synchronize_daily line digest message calendar security i' provider started' now' retry (Inr records) db' = (Inr run', db'')"
    "ir_inserted run' = length (filter (inserts (security_id db) (price_table (pd_prices db'))) ?rs)"
    "ir_updated run' = length (filter (updates (security_id db) (price_table (pd_prices db'))) ?rs)"
    "ir_rejected run' = ac_rejected (accept_records calendar records) + length (filter (unknown_stock (security_id db)) ?rs)"
    "(\<forall>r \<in> set ?rs. \<not> inserts (security_id db) (price_table (pd_prices db')) r \<and>
       \<not> updates (security_id db) (price_table (pd_prices db')) r) \<longrightarrow> pd_prices db'' = pd_prices db'"
    unfolding ids by blast
  have "\<not> inserts (security_id db) (price_table (pd_prices db')) r \<and> \<not> updates (security_id db) (price_table (pd_prices db')) r"
    if r: "r \<in> set ?rs" for r
  proof (cases "security_id db (dp_security r)")
    case None
    then show ?thesis by (simp add: inserts_def updates_def unknown_stock_def)
  next
    case (Some sec)
    have "price_table (pd_prices db') sec (dp_trade_date r) = Some (record_values r)"
      unfolding one(3) using assms(1) r Some accepted_facts(1) by (intro overlay_hit) (simp_all add: price_inv_def)
    then show ?thesis by (simp add: inserts_def updates_def old_value_def Some)
  qed
  then show ?thesis using two one(4) by (intro exI [of _ run'] exI [of _ db'']) (simp add: filter_empty_conv)
qed

section \<open>Technical snapshots\<close>

lemma snapshots_total:
  assumes "\<And>c. c \<in> set candles \<Longrightarrow> \<exists>r \<in> set records. dp_trade_date r = c_trade_date c"
  shows "\<exists>ss. calculated_snapshots records candles = Inr ss \<and> map th_trade_date ss = map c_trade_date candles"
proof -
  obtain rows where rows: "calculate default_parameters candles = Inr rows" "length rows = length candles"
    using calculate_runs [OF default_valid] by blast
  have "\<exists>ss. rmap (\<lambda>(c, row). snapshot_of records c row) (zip cs rs) = Inr ss \<and> map th_trade_date ss = map c_trade_date cs"
    if "length rs = length cs" "set cs \<subseteq> set candles" for cs rs
    using that
  proof (induction rs cs rule: list_induct2)
    case (Cons row rs c cs)
    from Cons obtain ss where ss: "rmap (\<lambda>(c, row). snapshot_of records c row) (zip cs rs) = Inr ss"
      "map th_trade_date ss = map c_trade_date cs" by auto
    obtain r where "find (\<lambda>r. dp_trade_date r = c_trade_date c) (rev records) = Some r"
      using assms [of c] Cons.prems find_ex [of _ "rev records" "\<lambda>r. dp_trade_date r = c_trade_date c"] by fastforce
    then show ?case using ss by (simp add: snapshot_of_def)
  qed simp
  from this [OF rows(2)] rows show ?thesis by (simp add: calculated_snapshots_def)
qed

lemma daily_candles_dates:
  "c \<in> set (daily_candles records basis) \<Longrightarrow> \<exists>r \<in> set records. dp_trade_date r = c_trade_date c"
  using price_candle_date by (fastforce simp: daily_candles_def map_filter_def)

definition snapshots_of :: "price_db \<Rightarrow> uuid \<Rightarrow> price_basis \<Rightarrow> stored_technical list" where
  "snapshots_of db sec basis = filter (\<lambda>t. sh_security_id t = sec \<and> sh_basis t = basis) (pd_technicals db)"

text \<open>
  C31. Recalculating the technical snapshots of a known stock always succeeds, and replaces its snapshots of
  the basis by exactly one for every day with a complete price; those of other stocks and the other
  basis stay as they are.
\<close>

theorem recalculate_replaces_snapshots:
  assumes "security_id db key = Some sec"
  shows "\<exists>db'. recalculate numeric db key basis = Inr (length (daily_candles (list_prices db key None None) basis), db') \<and>
    map sh_trade_date (snapshots_of db' sec basis) = map c_trade_date (daily_candles (list_prices db key None None) basis) \<and>
    filter (\<lambda>t. \<not> (sh_security_id t = sec \<and> sh_basis t = basis)) (pd_technicals db') =
      filter (\<lambda>t. \<not> (sh_security_id t = sec \<and> sh_basis t = basis)) (pd_technicals db) \<and>
    pd_prices db' = pd_prices db"
proof -
  let ?records = "list_prices db key None None"
  let ?candles = "daily_candles ?records basis"
  have agg: "aggregate ?records DAY basis = Inr ?candles" by (simp add: aggregate_def)
  from snapshots_total [OF daily_candles_dates [where basis = basis]]
  obtain ss where ss: "calculated_snapshots ?records ?candles = Inr ss" "map th_trade_date ss = map c_trade_date ?candles" by blast
  let ?db' = "db\<lparr>pd_technicals := filter (\<lambda>t. \<not> (sh_security_id t = sec \<and> sh_basis t = basis)) (pd_technicals db) @
    map (stored_technical_of numeric sec basis) ss\<rparr>"
  have "length ss = length ?candles" using ss(2) by (metis length_map)
  then have "recalculate numeric db key basis = Inr (length ?candles, ?db')"
    using agg ss(1) assms by (cases "?candles = []") (simp_all add: recalculate_def replace_technicals_def)
  moreover have "map sh_trade_date (snapshots_of ?db' sec basis) = map c_trade_date ?candles"
    using ss(2) by (simp add: snapshots_of_def stored_technical_of_def o_def filter_map)
  moreover have "filter (\<lambda>t. \<not> (sh_security_id t = sec \<and> sh_basis t = basis)) (pd_technicals ?db') =
      filter (\<lambda>t. \<not> (sh_security_id t = sec \<and> sh_basis t = basis)) (pd_technicals db)"
    by (simp add: stored_technical_of_def filter_map o_def)
  ultimately show ?thesis by (intro exI [of _ ?db']) simp
qed

section \<open>Examples\<close>

definition sample_stock :: security_key where
  "sample_stock = \<lparr>sk_market = TWSE, sk_code = ''2330''\<rparr>"

definition sample_price :: "security_key \<Rightarrow> decimal \<Rightarrow> daily_price_record" where
  "sample_price key p =
     \<lparr>dp_security = key, dp_trade_date = 8, dp_open = Some p, dp_high = Some (p + 2), dp_low = Some (p - 1), dp_close = Some (p + 1),
      dp_adjusted_open = None, dp_adjusted_high = None, dp_adjusted_low = None, dp_adjusted_close = None,
      dp_volume_shares = Some 1000, dp_turnover_amount = None, dp_source_code = ''TWSE'', dp_as_of = 0, dp_received_at = 0,
      dp_data_status = FINAL, dp_source_revision = None, dp_missing_reason = None\<rparr>"

text \<open>A stock, twice, and a fund.\<close>

definition sample_records :: "daily_price_record list" where
  "sample_records = [sample_price sample_stock 900, sample_price sample_stock 950,
     sample_price \<lparr>sk_market = TWSE, sk_code = ''0050''\<rparr> 180]"

definition sample_prices :: price_db where
  "sample_prices =
     \<lparr>pd_stocks = [\<lparr>sr_id = 1, sr_key = sample_stock, sr_type = ''COMMON_STOCK'', sr_active = True\<rparr>], pd_prices = [],
      pd_technicals = [], pd_runs = []\<rparr>"

definition sample_run :: "uuid \<Rightarrow> price_db \<Rightarrow> ingestion_run result \<times> price_db" where
  "sample_run i db = synchronize_daily (\<lambda>r. sk_code (dp_security r)) (\<lambda>s. s) (\<lambda>e. []) None None i ''TWSE'' 0 1 0 (Inr sample_records) db"

lemma sample_inv: "price_inv sample_prices"
  by (simp add: price_inv_def stocks_ok_def sample_prices_def)

lemma sample_accepted: "accepted_of None None sample_records = [sample_price sample_stock 900]"
  by (simp add: accepted_of_code accepted_records_def accept_records_def accept_record_def sample_records_def sample_price_def
      price_key_def validate_price_def invalid_ohlc_def sample_stock_def is_expected_non_stock_def starts_with_def)

lemma sample_id: "security_id sample_prices sample_stock = Some 1"
  by (simp add: security_id_def preload_security_ids_def sample_prices_def)

lemma sample_first: "length (first_acceptable None sample_records) = 2"
  by (simp add: accept_records_firsts [symmetric] accept_records_def accept_record_def sample_records_def sample_price_def
      price_key_def validate_price_def invalid_ohlc_def sample_stock_def)

theorem prices_after_ingestion_witness:
  "\<exists>run db'. sample_run 7 sample_prices = (Inr run, db') \<and>
    price_table (pd_prices db') 1 8 = Some (record_values (sample_price sample_stock 900)) \<and> ir_fetched run = 3 \<and>
    ir_inserted run = 1 \<and> ir_updated run = 0 \<and> ir_rejected run = 1"
proof -
  let ?r = "sample_price sample_stock 900"
  have r: "dp_security ?r = sample_stock" "dp_trade_date ?r = 8" "length sample_records = 3"
    by (simp_all add: sample_price_def sample_records_def)
  have empty: "price_table (pd_prices sample_prices) 1 8 = None" by (simp add: sample_prices_def price_table_def price_at_def)
  from prices_after_ingestion [OF sample_inv, of "\<lambda>r. sk_code (dp_security r)" "\<lambda>s. s" "\<lambda>e. []" None None 7 "''TWSE''" 0 1 0 sample_records]
  obtain run db' where run: "sample_run 7 sample_prices = (Inr run, db')" "ir_fetched run = 3"
    and row: "\<forall>r \<in> set [?r]. \<forall>sec. security_id sample_prices (dp_security r) = Some sec \<longrightarrow>
       price_table (pd_prices db') sec (dp_trade_date r) = Some (record_values r)"
    and counts: "ir_inserted run = length (filter (\<lambda>r. \<exists>sec. security_id sample_prices (dp_security r) = Some sec \<and>
        price_table (pd_prices sample_prices) sec (dp_trade_date r) = None) [?r])"
      "ir_updated run = length (filter (\<lambda>r. \<exists>sec v. security_id sample_prices (dp_security r) = Some sec \<and>
        price_table (pd_prices sample_prices) sec (dp_trade_date r) = Some v \<and> v \<noteq> record_values r) [?r])"
      "ir_rejected run = 3 - 2 + length (filter (\<lambda>r. security_id sample_prices (dp_security r) = None) [?r])"
    unfolding sample_accepted sample_first r(3) sample_run_def [symmetric] by (elim exE conjE) (rule that)
  from row sample_id r(1,2) have "price_table (pd_prices db') 1 8 = Some (record_values ?r)" by simp
  with run counts show ?thesis using sample_id empty r(1,2) by simp
qed

theorem ingestion_idempotent_witness:
  "\<exists>run db' run' db''. sample_run 7 sample_prices = (Inr run, db') \<and> sample_run 11 db' = (Inr run', db'') \<and>
    pd_prices db'' = pd_prices db' \<and> ir_inserted run' = 0 \<and> ir_updated run' = 0"
proof -
  obtain run db' where first: "sample_run 7 sample_prices = (Inr run, db')"
    using ingestion_effect [OF sample_inv, of "\<lambda>r. sk_code (dp_security r)" "\<lambda>s. s" "\<lambda>e. []" None None 7 "''TWSE''" 0 1 0 sample_records]
    unfolding sample_run_def by blast
  from ingestion_idempotent [OF sample_inv first [unfolded sample_run_def], of 11 0 1] first show ?thesis
    unfolding sample_run_def by blast
qed

definition priced_db :: price_db where
  "priced_db = sample_prices\<lparr>pd_prices :=
     [\<lparr>sp_security_id = 1, sp_values = record_values (sample_price sample_stock 900), sp_run_id = 7\<rparr>]\<rparr>"

theorem recalculate_replaces_snapshots_witness:
  "\<exists>db'. recalculate (\<lambda>x. x) priced_db sample_stock RAW = Inr (1, db') \<and> map sh_trade_date (snapshots_of db' 1 RAW) = [8]"
proof -
  have id: "security_id priced_db sample_stock = Some 1"
    using sample_id security_id_same [of priced_db sample_prices] by (simp add: priced_db_def)
  have "list_prices priced_db sample_stock None None = [sample_price sample_stock 900]"
    by (simp add: list_prices_def id) (simp add: priced_db_def record_values_def sample_price_def)
  then have "map c_trade_date (daily_candles (list_prices priced_db sample_stock None None) RAW) = [8]"
    "length (daily_candles (list_prices priced_db sample_stock None None) RAW) = 1"
    by (simp_all add: daily_candles_def map_filter_def price_candle_def sample_price_def)
  then show ?thesis using recalculate_replaces_snapshots [OF id, of "\<lambda>x. x" RAW] by auto
qed

end
