(* ===== verification/RepairProperties.thy ===== *)
theory RepairProperties
  imports PrecisionRepair PriceProperties
begin

text \<open>
  What a planned repair may touch, which repairs never work, and what the repair of one missing price does to
  the tables of prices.
\<close>

section \<open>Planning\<close>

lemma checked_scope_same: "checked_scope sc = Inr sc' \<Longrightarrow> sc' = sc"
  by (auto simp: checked_scope_def split: scope_type.splits option.splits if_splits)

lemma plan_repairable:
  assumes "dc_outcome (plan_repair trading today f) = Repairable"
  shows "trading (fi_target f)" "fi_target f \<le> today" "fi_status f \<noteq> audit_status.COMPLETE"
    "dc_scope (plan_repair trading today f) = Some (scope_of f)" "checked_scope (scope_of f) = Inr (scope_of f)"
  using assms checked_scope_same [of "scope_of f"]
  by (auto simp: plan_repair_def Let_def split: if_splits sum.splits)

lemma plan_scope: "dc_scope (plan_repair trading today f) = Some sc \<Longrightarrow> sc = scope_of f"
  using checked_scope_same [of "scope_of f"]
  by (auto simp: plan_repair_def Let_def split: if_splits sum.splits)

lemma scope_of_simps [simp]:
  "sc_dataset (scope_of f) = fi_dataset f" "sc_market (scope_of f) = fi_market f"
  by (simp_all add: scope_of_def Let_def)

text \<open>A finding names a security when it has both the market and the code; otherwise it may be a range.\<close>

definition names_security :: "audit_finding \<Rightarrow> bool" where
  "names_security f \<longleftrightarrow> given (fi_security f) \<and> given (fi_market f)"

definition ranged :: "audit_finding \<Rightarrow> bool" where
  "ranged f \<longleftrightarrow> \<not> names_security f \<and> fi_start f \<noteq> None \<and> fi_end f \<noteq> None \<and> fi_start f \<noteq> fi_end f"

lemma ranged_scope: "ranged f \<longleftrightarrow> sc_type (scope_of f) = Date_range"
  by (auto simp: ranged_def names_security_def scope_of_def Let_def)

lemma scope_of_plain:
  "\<not> ranged f \<Longrightarrow> sc_target (scope_of f) = Some (fi_target f)"
  by (auto simp: ranged_scope scope_of_def Let_def split: if_splits)

lemma scope_of_ranged:
  assumes "ranged f" and "checked_scope (scope_of f) = Inr (scope_of f)"
  obtains a b where "fi_start f = Some a" "fi_end f = Some b" "a \<le> b" "b \<le> a + 29" "sc_target (scope_of f) = None"
    "scope_days (scope_of f) = [a..b]" "scope_security (scope_of f) = Inr None"
proof -
  have sc: "scope_of f = \<lparr>sc_type = Date_range, sc_dataset = fi_dataset f, sc_target = None, sc_start = fi_start f,
      sc_end = fi_end f, sc_market = fi_market f, sc_security = None\<rparr>"
    using assms(1) by (auto simp: ranged_scope scope_of_def Let_def split: if_splits)
  obtain a b where ab: "fi_start f = Some a" "fi_end f = Some b" "a \<le> b" "b \<le> a + 29"
    using assms(2) unfolding sc by (auto simp: checked_scope_def max_repair_range_days_def split: option.splits if_splits)
  show ?thesis
    by (rule that [OF ab]) (simp_all add: sc ab scope_days_def scope_security_def given_def)
qed

section \<open>The calls\<close>

text \<open>
  The security of a finding: that of its market and code when it has both, and otherwise none, which
  stands for all stocks.
\<close>

definition finding_security :: "audit_finding \<Rightarrow> security_key option" where
  "finding_security f =
     (if names_security f \<and> fi_market f = Some ''TWSE'' then Some \<lparr>sk_market = TWSE, sk_code = the (fi_security f)\<rparr>
      else if names_security f \<and> fi_market f = Some ''TPEX'' then Some \<lparr>sk_market = TPEX, sk_code = the (fi_security f)\<rparr>
      else None)"

lemma finding_security_scope: "scope_security (scope_of f) = Inr sec \<Longrightarrow> finding_security f = sec"
  by (auto simp: finding_security_def names_security_def scope_security_def scope_of_def market_code_of_def given_def Let_def
      rbind_eq_Inr split: if_splits option.splits)

text \<open>The provider of an exchange is not asked about a finding of the other.\<close>

definition right_market :: "audit_finding \<Rightarrow> provider \<Rightarrow> bool" where
  "right_market f p \<longleftrightarrow> (fi_market f = Some ''TWSE'' \<longrightarrow> p \<notin> {Tpex_security, Official_tpex}) \<and>
     (fi_market f = Some ''TPEX'' \<longrightarrow> p \<notin> {Twse_security, Official_twse})"

lemma right_providers: "p \<in> set (price_providers fake (fi_market f)) \<Longrightarrow> right_market f p"
  "p \<in> set (spot_providers fake (fi_market f)) \<Longrightarrow> right_market f p"
  by (auto simp: right_market_def price_providers_def spot_providers_def split: if_splits)

definition price_day :: "(date \<Rightarrow> bool) \<Rightarrow> audit_finding \<Rightarrow> date \<Rightarrow> bool" where
  "price_day trading f d \<longleftrightarrow> trading d \<and>
     (if ranged f then the (fi_start f) \<le> d \<and> d \<le> the (fi_end f) else d = fi_target f)"

fun call_in_scope :: "(date \<Rightarrow> bool) \<Rightarrow> date \<Rightarrow> audit_finding \<Rightarrow> repair_call \<Rightarrow> bool" where
  "call_in_scope trading today f (Sync_prices p d sec) =
     (right_market f p \<and> sec = finding_security f \<and> (case d of None \<Rightarrow> False | Some day \<Rightarrow> price_day trading f day))"
| "call_in_scope trading today f (Recalculate k) = (finding_security f = Some k)"
| "call_in_scope trading today f (Sync_spot p ds d) = (right_market f p \<and> d = (if ranged f then today else fi_target f))"
| "call_in_scope trading today f (Sync_derivatives p ds d) =
     (ds \<noteq> ''VOLATILITY_INDEX'' \<and> d = (if ranged f then today else fi_target f))"
| "call_in_scope trading today f (Calculate_strength d) = (d = (if ranged f then today else fi_target f))"

lemma providers_at_most_two: "length (price_providers fake m) \<le> 2" "length (spot_providers fake m) \<le> 2"
  by (simp_all add: price_providers_def spot_providers_def)

lemma concat_length: "(\<And>x. x \<in> set xs \<Longrightarrow> length (g x) \<le> k) \<Longrightarrow> length (concat (map g xs)) \<le> k * length xs"
  by (induction xs) (auto intro: add_mono)

lemma price_calls_in_scope:
  assumes "trading (fi_target f)" and checked: "checked_scope (scope_of f) = Inr (scope_of f)"
    and calls: "price_calls trading fake (scope_of f) = Inr cs"
  shows "length cs \<le> 60 \<and> list_all (call_in_scope trading today f) cs"
proof (cases "ranged f")
  case True
  from scope_of_ranged [OF this checked]
  obtain a b where R: "fi_start f = Some a" "fi_end f = Some b" "a \<le> b" "b \<le> a + 29"
    "scope_days (scope_of f) = [a..b]" "scope_security (scope_of f) = Inr None" by metis
  define ds where "ds = filter trading [a..b]"
  have cs: "cs = concat (map (\<lambda>d. map (\<lambda>p. Sync_prices p (Some d) None) (price_providers fake (fi_market f))) ds)"
    using calls True by (simp add: price_calls_def R ranged_scope Let_def ds_def)
  have "length ds \<le> length [a..b]" unfolding ds_def by (rule length_filter_le)
  then have ds: "length ds \<le> 30" using R(3,4) by simp
  have "length cs \<le> 2 * length ds" unfolding cs using providers_at_most_two by (intro concat_length) simp
  then have "length cs \<le> 60" using ds by linarith
  moreover have "finding_security f = None" by (rule finding_security_scope) (simp add: R)
  then have "list_all (call_in_scope trading today f) cs"
    unfolding cs list_all_iff using True by (auto simp: ds_def price_day_def R dest: right_providers)
  ultimately show ?thesis by simp
next
  case False
  from calls obtain sec where sec: "scope_security (scope_of f) = Inr sec" by (cases "scope_security (scope_of f)") (auto simp: price_calls_def)
  then have fs: "finding_security f = sec" by (rule finding_security_scope)
  have cs: "cs = map (\<lambda>p. Sync_prices p (Some (fi_target f)) sec) (price_providers fake (fi_market f)) @
      (case sec of None \<Rightarrow> [] | Some k \<Rightarrow> [Recalculate k])"
    using calls False sec scope_of_plain [OF False] by (simp add: price_calls_def ranged_scope Let_def)
  have "length cs \<le> 60" using providers_at_most_two(1) [of fake "fi_market f"] by (simp add: cs split: option.split)
  moreover have "list_all (call_in_scope trading today f) cs"
    using assms(1) False by (auto simp: cs list_all_iff fs price_day_def dest: right_providers split: option.split)
  ultimately show ?thesis by simp
qed

text \<open>
  C38. A planned repair makes at most 60 calls, none of them to the provider of the other exchange when the
  finding has a market. Prices are fetched only for trading days, for the date of the finding or the dates of
  its range; for exactly the security of the finding when it has a market and a code, and for all stocks
  otherwise, also when it has a code without a market; only that security is recalculated. The volatility
  index is never fetched. But a range of spot data, derivatives or strength scores is repaired at the
  date of today, whatever the range is.
\<close>

theorem planned_repair_stays_in_scope:
  assumes "dc_outcome (plan_repair trading today f) = Repairable" and "dc_scope (plan_repair trading today f) = Some sc"
    and "repair_calls trading today fake sc = Inr cs"
  shows "length cs \<le> 60 \<and> list_all (call_in_scope trading today f) cs"
proof -
  have sc: "sc = scope_of f" by (rule plan_scope [OF assms(2)])
  note plan = plan_repairable [OF assms(1)]
  have day: "target_or_today today (scope_of f) = (if ranged f then today else fi_target f)"
  proof (cases "ranged f")
    case True
    then show ?thesis using scope_of_ranged [OF True plan(5)] by (metis target_or_today_def option.case(1))
  qed (simp add: target_or_today_def scope_of_plain)
  have calls: "repair_calls trading today fake (scope_of f) = Inr cs" using assms(3) by (simp add: sc)
  let ?d = "upper (fi_dataset f)"
  have "price_calls trading fake (scope_of f) = Inr cs \<or> cs = spot_calls today fake (scope_of f) \<or>
      cs = derivative_calls today fake (scope_of f) \<or> cs = [Calculate_strength (target_or_today today (scope_of f))]"
    using calls unfolding repair_calls_def Let_def by (simp split: if_split_asm)
  then consider (prices) "price_calls trading fake (scope_of f) = Inr cs" | (spot) "cs = spot_calls today fake (scope_of f)"
    | (derivatives) "cs = derivative_calls today fake (scope_of f)" | (strength) "cs = [Calculate_strength (target_or_today today (scope_of f))]"
    by blast
  then show ?thesis
  proof cases
    case prices
    then show ?thesis using price_calls_in_scope [where trading = trading and f = f, OF plan(1,5)] by blast
  next
    case spot
    define ds where "ds = (if fi_dataset f \<in> set spot_datasets then [fi_dataset f] else spot_datasets)"
    have "length ds \<le> 8" by (simp add: ds_def spot_datasets_def)
    then have "length cs \<le> 8 * length (spot_providers fake (fi_market f))"
      unfolding spot spot_calls_def Let_def ds_def [symmetric] scope_of_simps by (intro concat_length) simp
    then have "length cs \<le> 60" using providers_at_most_two(2) [of fake "fi_market f"] by linarith
    then show ?thesis by (auto simp: spot spot_calls_def Let_def list_all_iff day dest: right_providers)
  next
    case derivatives
    define ds where "ds = filter (\<lambda>ds. ds \<noteq> ''VOLATILITY_INDEX'') (if fi_dataset f \<in> set derivative_datasets then [fi_dataset f] else derivative_datasets)"
    have "length ds \<le> 60" unfolding ds_def derivative_datasets_def by (rule order_trans [OF length_filter_le]) simp
    then show ?thesis by (auto simp: derivatives derivative_calls_def Let_def list_all_iff day ds_def)
  next
    case strength
    then show ?thesis by (simp add: day)
  qed
qed

text \<open>
  A finding with a code and no market, which the command line accepts, is repaired for all stocks of both
  exchanges.
\<close>

theorem code_without_market_repairs_all:
  assumes "fi_security f = Some code" and "fi_market f = None" and "fi_start f = None" and "upper (fi_dataset f) \<in> set price_names"
  shows "repair_calls trading today False (scope_of f) =
    Inr [Sync_prices Twse_security (Some (fi_target f)) None, Sync_prices Tpex_security (Some (fi_target f)) None]"
  using assms by (simp add: repair_calls_def price_calls_def scope_of_def scope_security_def given_def price_providers_def Let_def)

section \<open>Repairs that never work\<close>

definition never_repaired :: "string \<Rightarrow> bool" where
  "never_repaired d \<longleftrightarrow> technicals_name d \<or> (planned_derivative d \<and> \<not> executed_derivative d)"

lemma never_repaired_calls:
  assumes "never_repaired (upper (sc_dataset sc))"
  shows "\<exists>e. repair_calls trading today fake sc = Inl e"
proof -
  let ?d = "upper (sc_dataset sc)"
  have "technicals_name ?d \<Longrightarrow> ?d \<notin> set price_names \<and> \<not> spot_name ?d \<and> \<not> executed_derivative ?d"
    by (auto simp: technicals_name_def price_names_def spot_name_def spot_datasets_def executed_derivative_def derivative_datasets_def)
  moreover have "planned_derivative ?d \<Longrightarrow> ?d \<notin> set price_names \<and> \<not> spot_name ?d \<and> \<not> strength_name ?d"
    by (auto simp: planned_derivative_def derivative_datasets_def starts_with_def price_names_def spot_name_def spot_datasets_def strength_name_def)
  ultimately show ?thesis using assms by (auto simp: never_repaired_def repair_calls_def Let_def)
qed

text \<open>
  C39. A finding for the technical snapshots, or for a dataset that only the planner takes for one of TAIFEX,
  is never repaired: nothing is executed and no data changes, with or without the lock, whatever the
  services would do. The planner nevertheless decides REPAIRABLE.
\<close>

theorem some_repairs_never_run:
  fixes s :: "'s repair_world"
  assumes "never_repaired (upper (fi_dataset f))"
  shows "\<exists>r s'. execute_repair perform audit price_of message meta fresh executed_at now trading today fake lock f s = (r, s') \<and>
    \<not> rr_executed r \<and> rr_inserted r = 0 \<and> rr_updated r = 0 \<and> rw_data s' = rw_data s"
proof (cases "dc_scope (plan_repair trading today f)")
  case None
  then show ?thesis by (simp add: execute_repair_def Let_def)
next
  case (Some sc)
  then have sc: "sc = scope_of f" by (rule plan_scope)
  obtain e where "repair_calls trading today fake sc = Inl e" using never_repaired_calls [of sc trading today fake] assms unfolding sc scope_of_simps by blast
  then have "dispatch_repair perform trading today fake sc s = (Inl e, s)" by (simp add: dispatch_repair_def)
  then show ?thesis using Some by (auto simp: execute_repair_def repair_and_reaudit_def persist_repair_def Let_def)
qed

section \<open>Rounding to floats keeps the order of prices\<close>

lemma binary64_mono:
  assumes "0 < x" and "x \<le> y"
  shows "binary64 x \<le> binary64 y"
proof -
  define i where "i = binary_exponent x"
  define j where "j = binary_exponent y"
  have y: "0 < y" using assms by linarith
  note bounds = binary_exponent_bounds [OF assms(1), folded i_def] binary_exponent_bounds [OF y, folded j_def]
  have X: "binary64 x = of_int (round_half_even (x / 2 powi (i - 52))) * 2 powi (i - 52)"
    "binary64 y = of_int (round_half_even (y / 2 powi (j - 52))) * 2 powi (j - 52)"
    using assms(1) y by (simp_all add: binary64_def Let_def i_def j_def)
  have pos: "(0 :: rat) < 2 powi k" for k by simp
  have shift: "(2 :: rat) powi k = 2 ^ 52 * 2 powi (k - 52)" for k
    using power_int_add [of "2 :: rat" 52 "k - 52"] by (simp add: power_int_numeral)
  have "i \<le> j"
  proof (rule ccontr)
    assume "\<not> i \<le> j"
    then have "(2 :: rat) powi (j + 1) \<le> 2 powi i" by (intro power_int_increasing) auto
    then show False using bounds assms(2) by linarith
  qed
  show ?thesis
  proof (cases "i = j")
    case True
    have "round_half_even (x / 2 powi (j - 52)) \<le> round_half_even (y / 2 powi (j - 52))"
      using assms(2) pos by (intro round_half_even_mono divide_right_mono) (auto simp: less_imp_le)
    then show ?thesis unfolding X True using pos [of "j - 52"] by (intro mult_right_mono) (auto simp: less_imp_le)
  next
    case False
    have "x / 2 powi (i - 52) \<le> of_int (2 ^ 53)"
      using bounds pos [of "i - 52"] power_int_add [of "2 :: rat" i 1] shift [of i] by (simp add: divide_le_eq)
    then have "round_half_even (x / 2 powi (i - 52)) \<le> 2 ^ 53"
      by (metis round_half_even_mono round_half_even_of_int)
    then have "rat_of_int (round_half_even (x / 2 powi (i - 52))) \<le> 2 ^ 53"
      by (metis of_int_le_iff of_int_numeral of_int_power)
    then have "binary64 x \<le> 2 ^ 53 * 2 powi (i - 52)" unfolding X using pos [of "i - 52"] by (intro mult_right_mono) auto
    also have "\<dots> = 2 powi (i + 1)" using power_int_add [of "2 :: rat" i 1] shift [of i] by simp
    also have "\<dots> \<le> (2 :: rat) powi j" using \<open>i \<le> j\<close> False by (intro power_int_increasing) auto
    also have "\<dots> = 2 ^ 52 * 2 powi (j - 52)" by (rule shift)
    also have "\<dots> \<le> binary64 y"
    proof -
      have "of_int (2 ^ 52) \<le> y / 2 powi (j - 52)"
        using bounds pos [of "j - 52"] shift [of j] by (simp add: le_divide_eq)
      then have "2 ^ 52 \<le> round_half_even (y / 2 powi (j - 52))"
        by (metis round_half_even_mono round_half_even_of_int)
      then have "2 ^ 52 \<le> rat_of_int (round_half_even (y / 2 powi (j - 52)))"
        by (metis of_int_le_iff of_int_numeral of_int_power)
      then show ?thesis unfolding X using pos [of "j - 52"] by (intro mult_right_mono) auto
    qed
    finally show ?thesis .
  qed
qed

lemma valid_ohlc_as_floats:
  assumes "0 < lo" and "\<not> invalid_ohlc op hi lo cl"
  shows "\<not> invalid_ohlc (binary64 op) (binary64 hi) (binary64 lo) (binary64 cl)"
proof -
  have "lo \<le> op" "lo \<le> cl" "op \<le> hi" "cl \<le> hi" using assms(2) by (auto simp: invalid_ohlc_def)
  then have "binary64 lo \<le> binary64 op" "binary64 lo \<le> binary64 cl" "binary64 op \<le> binary64 hi" "binary64 cl \<le> binary64 hi"
    using assms(1) by (intro binary64_mono; linarith)+
  then show ?thesis by (auto simp: invalid_ohlc_def)
qed

section \<open>Repairing one price\<close>

lemma stock_of_id:
  assumes "price_inv db" and "security_id db key = Some sec"
  shows "\<exists>x. find (\<lambda>x. sr_key x = key) (pd_stocks db) = Some x \<and> sr_id x = sec"
proof -
  have ok: "stocks_ok db" using assms(1) by (simp add: price_inv_def)
  obtain y where y: "y \<in> set (pd_stocks db)" "sr_key y = key" "sr_id y = sec"
    using assms(2) preload_Some [OF ok, of key "[key]" sec] by (auto simp: security_id_def)
  then obtain x where x: "find (\<lambda>x. sr_key x = key) (pd_stocks db) = Some x"
    using find_ex [of y "pd_stocks db" "\<lambda>x. sr_key x = key"] by blast
  then have "x \<in> set (pd_stocks db)" "sr_key x = key" by (auto dest: find_mem)
  then have "x = y" using ok y by (metis stocks_ok_def distinct_map inj_onD)
  then show ?thesis using x y by blast
qed

lemma stored_price_known:
  assumes "find (\<lambda>x. sr_key x = key) (pd_stocks (rw_data s)) = Some x" and "price_table (pd_prices (rw_data s)) (sr_id x) d = Some v"
  shows "stored_price_of s (market_str (sk_market key)) (sk_code key) d = Some v"
proof (cases key)
  case (fields m c)
  have "market_code_of (market_str m) = Inr m" by (cases m) (simp_all add: market_code_of_def)
  then show ?thesis using assms unfolding fields by (simp add: stored_price_of_def price_table_def)
qed

definition traded :: "daily_price_record \<Rightarrow> bool" where
  "traded r \<longleftrightarrow> dp_open r \<noteq> None \<and> dp_high r \<noteq> None \<and> dp_close r \<noteq> None \<and>
     (case dp_low r of None \<Rightarrow> False | Some l \<Rightarrow> 0 < l)"

lemma traded_complete:
  assumes "traded r" and "validate_price r = None"
  shows "price_status (Some (record_values r)) = audit_status.COMPLETE"
proof -
  obtain op hi lo cl where r: "dp_open r = Some op" "dp_high r = Some hi" "dp_low r = Some lo" "dp_close r = Some cl" "0 < lo"
    using assms(1) by (auto simp: traded_def split: option.splits)
  have "\<not> invalid_ohlc op hi lo cl" "case dp_volume_shares r of None \<Rightarrow> True | Some v \<Rightarrow> \<not> v < 0"
    using assms(2) r by (auto simp: validate_price_def split: if_splits option.splits)
  then show ?thesis using valid_ohlc_as_floats [OF r(5)] r by (simp add: price_status_def record_values_def Let_def)
qed

lemma recalculate_succeeds:
  assumes "security_id db key = Some sec"
  shows "\<exists>n db'. recalculate numeric db key basis = Inr (n, db') \<and> pd_prices db' = pd_prices db \<and> pd_stocks db' = pd_stocks db"
proof -
  let ?records = "list_prices db key None None"
  from snapshots_total [OF daily_candles_dates [where basis = basis and records = ?records]]
  obtain ss where "calculated_snapshots ?records (daily_candles ?records basis) = Inr ss" by blast
  then show ?thesis using assms
    by (cases "daily_candles ?records basis = []") (simp_all add: recalculate_def aggregate_def replace_technicals_def)
qed

text \<open>A finding about one stock, by the names that the code compares.\<close>

definition about_stock :: "audit_finding \<Rightarrow> security_key \<Rightarrow> bool" where
  "about_stock f key \<longleftrightarrow> upper (fi_dataset f) \<in> set price_names \<and> fi_market f = Some (market_str (sk_market key)) \<and>
     fi_security f = Some (sk_code key) \<and> sk_code key \<noteq> []"

definition home_provider :: "security_key \<Rightarrow> provider" where
  "home_provider key = (case sk_market key of TWSE \<Rightarrow> Twse_security | TPEX \<Rightarrow> Tpex_security)"

lemma stock_repair_calls:
  assumes "about_stock f key"
  shows "repair_calls trading today False (scope_of f) =
    Inr [Sync_prices (home_provider key) (Some (fi_target f)) (Some key), Recalculate key]"
    "sc_type (scope_of f) = Security_date" "sc_security (scope_of f) = Some (sk_code key)" "sc_target (scope_of f) = Some (fi_target f)"
  using assms
  by (cases "sk_market key"; simp add: about_stock_def repair_calls_def price_calls_def scope_of_def given_def scope_security_def
      market_code_of_def price_providers_def home_provider_def Let_def; cases key; simp)+

text \<open>
  C40. The repair of one missing price, run through the ingestion and the recalculation. When the exchange of
  the stock delivers an acceptable record of the day, the price is stored, the repair is reported as
  executed and the second audit finds the day COMPLETE, provided the record has all four prices.
\<close>

theorem repair_stores_missing_price:
  fixes s :: "price_db repair_world"
  assumes inv: "price_inv (rw_data s)" and "about_stock f key" and "dc_outcome (plan_repair trading today f) = Repairable"
    and "security_id (rw_data s) key = Some sec" and fetch: "fetch (home_provider key) (Some (fi_target f)) (Some key) = Inr records"
    and r: "r \<in> set (accepted_of (Some trading) (Some key) records)" "dp_security r = key" "dp_trade_date r = fi_target f" "traded r"
  shows "\<exists>res s'. execute_repair (price_performer line digest message numeric trading name fetch fresh_run started now) audit stored_price_of
      message meta fresh started now trading today False None f s = (res, s') \<and>
    rr_executed res \<and> rr_after res = audit_status.COMPLETE \<and>
    price_table (pd_prices (rw_data s')) sec (fi_target f) = Some (record_values r)"
proof -
  define perform where "perform = price_performer line digest message numeric trading name fetch fresh_run started now"
  define db where "db = (rw_data s)\<lparr>pd_runs := rw_runs s\<rparr>"
  have db: "price_inv db" "security_id db = security_id (rw_data s)"
    using inv security_id_same [of db "rw_data s"] by (simp_all add: db_def price_inv_def stocks_ok_def)
  from ingestion_effect [OF db(1), of line digest message "Some trading" "Some key" "fresh_run (rw_runs s)" "name (home_provider key)"
      started now 0 records]
  obtain run db1 where one: "synchronize_daily line digest message (Some trading) (Some key) (fresh_run (rw_runs s))
      (name (home_provider key)) started now 0 (Inr records) db = (Inr run, db1)" "price_inv db1" "unchanged_except_prices db db1"
    "price_table (pd_prices db1) = overlay (security_id db) (accepted_of (Some trading) (Some key) records) (price_table (pd_prices db))"
    by blast
  have ids: "security_id db1 = security_id db" using one(3) by (intro security_id_same) (simp add: unchanged_except_prices_def)
  have stored: "price_table (pd_prices db1) sec (fi_target f) = Some (record_values r)"
    using overlay_hit [OF _ accepted_facts(1) r(1), of db sec] db assms(4) r(2,3) by (simp add: one(4) price_inv_def)
  from recalculate_succeeds [of db1 key sec numeric RAW] ids assms(4) db(2)
  obtain n db2 where two: "recalculate numeric db1 key RAW = Inr (n, db2)" "pd_prices db2 = pd_prices db1" "pd_stocks db2 = pd_stocks db1" by auto
  define s2 where "s2 = \<lparr>rw_runs = pd_runs db1, rw_data = db2\<rparr>"
  note calls = stock_repair_calls [OF assms(2)]
  have dispatch: "dispatch_repair perform trading today False (scope_of f) s = (Inr (ir_inserted run, ir_updated run, Some (ir_id run)), s2)"
    using one(1) two(1) by (simp add: dispatch_repair_def calls perform_def price_performer_def fetch db_def [symmetric] s2_def)
  have "stored_price_of s2 (market_str (sk_market key)) (sk_code key) (fi_target f) = Some (record_values r)"
  proof -
    obtain x where "find (\<lambda>x. sr_key x = key) (pd_stocks db2) = Some x" "sr_id x = sec"
      using stock_of_id [OF one(2), of key sec] ids assms(4) db(2) two(3) by auto
    then show ?thesis using stored_price_known [of key s2 x "fi_target f" "record_values r"] stored two(2) by (simp add: s2_def)
  qed
  moreover have "given (fi_market f)" "given (fi_security f)" "fi_market f = Some (market_str (sk_market key))" "fi_security f = Some (sk_code key)"
    using assms(2) by (cases "sk_market key"; simp add: about_stock_def given_def)+
  ultimately have "re_audit_scope audit stored_price_of today (scope_of f) s2 = audit_status.COMPLETE"
    using traded_complete [OF r(4) accepted_facts(3) [OF r(1)]] by (simp add: re_audit_scope_def calls Let_def)
  then show ?thesis
    unfolding perform_def [symmetric] using plan_repairable(4) [OF assms(3)] assms(3) stored two(2)
    by (simp add: execute_repair_def repair_and_reaudit_def dispatch persist_repair_def Let_def s2_def)
qed

section \<open>Examples\<close>

definition sample_finding :: "string \<Rightarrow> audit_finding" where
  "sample_finding dataset = \<lparr>fi_id = ''F1'', fi_dataset = dataset, fi_target = 8, fi_status = audit_status.FAILED, fi_market = Some ''TWSE'',
     fi_security = None, fi_start = None, fi_end = None, fi_missing = 1, fi_reason = None\<rparr>"

definition margin_range :: audit_finding where
  "margin_range = (sample_finding ''MARKET_MARGIN'')\<lparr>fi_start := Some 8, fi_end := Some 9\<rparr>"

lemma margin_range_plan:
  "plan_repair (\<lambda>d. d < 10) 20 margin_range = \<lparr>dc_finding = ''F1'', dc_outcome = Repairable, dc_scope = Some (scope_of margin_range)\<rparr>"
  "repair_calls (\<lambda>d. d < 10) 20 False (scope_of margin_range) = Inr [Sync_spot Official_twse ''MARKET_MARGIN'' 20]"
  by code_simp+

text \<open>A range of two days is repaired on a third day.\<close>

theorem planned_repair_stays_in_scope_witness:
  "\<exists>cs. repair_calls (\<lambda>d. d < 10) 20 False (scope_of margin_range) = Inr cs \<and> cs = [Sync_spot Official_twse ''MARKET_MARGIN'' 20] \<and>
     list_all (call_in_scope (\<lambda>d. d < 10) 20 margin_range) cs"
  using planned_repair_stays_in_scope [of "\<lambda>d. d < 10" 20 margin_range "scope_of margin_range" False
      "[Sync_spot Official_twse ''MARKET_MARGIN'' 20]"] margin_range_plan by simp

definition sample_world :: "price_db repair_world" where
  "sample_world = \<lparr>rw_runs = [], rw_data = sample_prices\<rparr>"

definition sample_fetch :: "provider \<Rightarrow> date option \<Rightarrow> security_key option \<Rightarrow> daily_price_record list result" where
  "sample_fetch p d sec = Inr (filter (\<lambda>r. sec = None \<or> sec = Some (dp_security r)) sample_records)"

definition sample_performer :: "price_db performer" where
  "sample_performer = price_performer (\<lambda>r. sk_code (dp_security r)) (\<lambda>x. x) (\<lambda>e. []) (\<lambda>x. x) (\<lambda>d. d < 10) (\<lambda>p. ''TWSE'')
     sample_fetch length 0 1"

text \<open>The audit of the stocks and prices of a world; its other tables are empty.\<close>

definition audit_view :: "price_db \<Rightarrow> audit_db" where
  "audit_view db =
     \<lparr>ad_markets = [(1, ''TWSE''), (2, ''TPEX'')],
      ad_securities = map (\<lambda>x. \<lparr>se_id = sr_id x, se_market_id = (case sk_market (sr_key x) of TWSE \<Rightarrow> 1 | TPEX \<Rightarrow> 2),
        se_code = sk_code (sr_key x), se_type = sr_type x, se_active = sr_active x\<rparr>) (pd_stocks db),
      ad_prices = map (\<lambda>p. \<lparr>pe_security_id = sp_security_id p, pe_trade_date = dp_trade_date (sp_values p),
        pe_close = dp_close (sp_values p)\<rparr>) (pd_prices db),
      ad_technicals = [], ad_runs = [], ad_breadth = [], ad_margin = [], ad_lending = [], ad_institutional = [], ad_products = [],
      ad_contracts = [], ad_futures_daily = [], ad_positions = [], ad_concentrations = [], ad_put_calls = [], ad_strikes = [],
      ad_volatility = [], ad_strength = []\<rparr>"

definition sample_audit :: "price_db auditor" where
  "sample_audit s = audit_date (\<lambda>d. d < 10) (\<lambda>i. 8) (audit_view (rw_data s))"

theorem some_repairs_never_run_witness:
  "dc_outcome (plan_repair (\<lambda>d. d < 10) 20 (sample_finding ''TAIFEX_PUT_CALL'')) = Repairable \<and>
   (\<exists>r s'. execute_repair sample_performer sample_audit stored_price_of (\<lambda>e. []) (\<lambda>a b. []) 7 0 1 (\<lambda>d. d < 10) 20 False None
       (sample_finding ''TAIFEX_PUT_CALL'') sample_world = (r, s') \<and> \<not> rr_executed r \<and> rw_data s' = sample_prices)"
proof -
  have "dc_outcome (plan_repair (\<lambda>d. d < 10) 20 (sample_finding ''TAIFEX_PUT_CALL'')) = Repairable" by code_simp
  moreover have "never_repaired (upper (fi_dataset (sample_finding ''TAIFEX_PUT_CALL'')))" by code_simp
  ultimately show ?thesis
    using some_repairs_never_run [of "sample_finding ''TAIFEX_PUT_CALL''" sample_performer sample_audit stored_price_of "\<lambda>e. []" "\<lambda>a b. []"
        7 0 1 "\<lambda>d. d < 10" 20 False None sample_world]
    by (auto simp: sample_world_def)
qed

definition missing_price :: audit_finding where
  "missing_price = (sample_finding ''DAILY_PRICES'')\<lparr>fi_security := Some ''2330''\<rparr>"

theorem repair_stores_missing_price_witness:
  "\<exists>res s'. execute_repair sample_performer sample_audit stored_price_of (\<lambda>e. []) (\<lambda>a b. []) 7 0 1 (\<lambda>d. d < 10) 20 False None
      missing_price sample_world = (res, s') \<and> rr_executed res \<and> rr_after res = audit_status.COMPLETE \<and>
    price_table (pd_prices (rw_data s')) 1 8 = Some (record_values (sample_price sample_stock 900))"
proof -
  have "dc_outcome (plan_repair (\<lambda>d. d < 10) 20 missing_price) = Repairable" by code_simp
  moreover have "about_stock missing_price sample_stock" by code_simp
  moreover have "accepted_of (Some (\<lambda>d. d < 10)) (Some sample_stock) [sample_price sample_stock 900, sample_price sample_stock 950] = [sample_price sample_stock 900]"
    by code_simp
  moreover have "sample_fetch (home_provider sample_stock) (Some 8) (Some sample_stock) = Inr [sample_price sample_stock 900, sample_price sample_stock 950]"
    by (simp add: sample_fetch_def sample_records_def sample_price_def sample_stock_def)
  moreover have "dp_security (sample_price sample_stock 900) = sample_stock" "dp_trade_date (sample_price sample_stock 900) = 8"
    "traded (sample_price sample_stock 900)" "fi_target missing_price = 8"
    by (simp_all add: sample_price_def traded_def missing_price_def sample_finding_def)
  ultimately show ?thesis
    using repair_stores_missing_price [where audit = sample_audit and s = sample_world and f = missing_price and key = sample_stock and trading = "\<lambda>d. d < 10" and
        today = 20 and sec = 1 and fetch = sample_fetch and records = "[sample_price sample_stock 900, sample_price sample_stock 950]" and r = "sample_price sample_stock 900"]
      sample_inv sample_id unfolding sample_performer_def by (simp add: sample_world_def)
qed

end
