(* ===== verification/Upsert.thy ===== *)
theory Upsert
  imports Prelude
begin

text \<open>
  \<open>_upsert\<close> of the repositories: a row is found by the columns of its key, its other columns are compared,
  and it is inserted, replaced or left alone. A table is read as a map from keys to values.
\<close>

text \<open>The rows afterwards, with the numbers of inserted and updated rows.\<close>

definition upsert_by :: "('r \<Rightarrow> 'k) \<Rightarrow> ('r \<Rightarrow> 'v) \<Rightarrow> 'r \<Rightarrow> 'r list \<Rightarrow> 'r list \<times> nat \<times> nat" where
  "upsert_by key val row rows =
     (case find (\<lambda>r. key r = key row) rows of
        None \<Rightarrow> (rows @ [row], 1, 0)
      | Some old \<Rightarrow>
          if val old = val row then (rows, 0, 0)
          else (map (\<lambda>r. if key r = key row then row else r) rows, 0, 1))"

definition table_by :: "('r \<Rightarrow> 'k) \<Rightarrow> ('r \<Rightarrow> 'v) \<Rightarrow> 'r list \<Rightarrow> 'k \<Rightarrow> 'v option" where
  "table_by key val rows k = map_option val (find (\<lambda>r. key r = k) rows)"

lemma find_replaced:
  "find (\<lambda>r. key r = k) (map (\<lambda>r. if key r = key row then row else r) rows) =
    (if key row = k then map_option (\<lambda>_. row) (find (\<lambda>r. key r = k) rows) else find (\<lambda>r. key r = k) rows)"
  by (induction rows) auto

lemma upsert_by_table:
  "table_by key val (fst (upsert_by key val row rows)) = (table_by key val rows)(key row \<mapsto> val row)"
  by (rule ext) (auto simp: upsert_by_def table_by_def find_append find_replaced split: option.splits)

lemma upsert_by_distinct:
  assumes "distinct (map key rows)"
  shows "distinct (map key (fst (upsert_by key val row rows)))"
proof (cases "find (\<lambda>r. key r = key row) rows")
  case None
  then have "key row \<notin> key ` set rows" by (auto simp: find_None_iff)
  then show ?thesis using assms None by (simp add: upsert_by_def)
next
  case (Some old)
  have "map key (map (\<lambda>r. if key r = key row then row else r) rows) = map key rows" by simp
  then show ?thesis using assms Some by (simp add: upsert_by_def del: map_map)
qed

end
