(* ===== verification/SpotIngestion.thy ===== *)
theory SpotIngestion
  imports PriceIngestion Upsert
begin

text \<open>
  Market spot data: indexes, breadth, institutional trading, margin trading and securities lending
  (\<open>app/domain/market_spot.py\<close>), their ingestion (\<open>app/services/market_spot_ingestion.py\<close>), the tables
  (\<open>app/repositories/sql_market_spot.py\<close>) and the series of the service (\<open>app/services/market_spot.py\<close>).
  A row of \<open>market_indexes\<close> is identified by its unique pair of market and code.
\<close>

section \<open>Records\<close>

datatype institution_type = FOREIGN | INVESTMENT_TRUST | DEALER | TOTAL

datatype dealer_subtype = PROPRIETARY | HEDGE | TOTAL_DEALER

record source_metadata =
  me_source_code :: string
  me_as_of :: instant
  me_received_at :: instant
  me_data_status :: data_status
  me_source_revision :: "string option"

record index_record =
  ix_code :: string
  ix_name :: string
  ix_market :: market_code
  ix_trade_date :: date
  ix_open :: "decimal option"
  ix_high :: "decimal option"
  ix_low :: "decimal option"
  ix_close :: "decimal option"
  ix_change :: "decimal option"
  ix_change_percent :: "decimal option"
  ix_turnover :: "decimal option"
  ix_volume :: "int option"
  ix_metadata :: source_metadata

record breadth_record =
  br_market :: market_code
  br_trade_date :: date
  br_advancers :: "int option"
  br_decliners :: "int option"
  br_unchanged :: "int option"
  br_limit_up :: "int option"
  br_limit_down :: "int option"
  br_total_traded :: "int option"
  br_turnover :: "decimal option"
  br_metadata :: source_metadata

record institutional_record =
  in_market :: market_code
  in_trade_date :: date
  in_type :: institution_type
  in_subtype :: "dealer_subtype option"
  in_buy :: "decimal option"
  in_sell :: "decimal option"
  in_net :: "decimal option"
  in_metadata :: source_metadata
  in_security :: "security_key option"
  in_is_amount :: bool

record margin_record =
  mn_market :: market_code
  mn_trade_date :: date
  mn_margin_buy :: "int option"
  mn_margin_sell :: "int option"
  mn_margin_cash_repayment :: "int option"
  mn_margin_balance :: "int option"
  mn_margin_balance_change :: "int option"
  mn_short_sell :: "int option"
  mn_short_cover :: "int option"
  mn_short_stock_repayment :: "int option"
  mn_short_balance :: "int option"
  mn_short_balance_change :: "int option"
  mn_short_margin_ratio :: "decimal option"
  mn_metadata :: source_metadata
  mn_security :: "security_key option"
  mn_margin_utilization :: "decimal option"
  mn_short_utilization :: "decimal option"

record lending_record =
  le_market :: market_code
  le_trade_date :: date
  le_short_sell :: "int option"
  le_return :: "int option"
  le_balance :: "int option"
  le_balance_change :: "int option"
  le_metadata :: source_metadata
  le_security :: "security_key option"

datatype spot_record =
    Index index_record
  | Breadth breadth_record
  | Institutional institutional_record
  | Margin margin_record
  | Lending lending_record

section \<open>Validation\<close>

definition is_negative :: "int option \<Rightarrow> bool" where
  "is_negative v \<longleftrightarrow> (case v of None \<Rightarrow> False | Some n \<Rightarrow> n < 0)"

fun validate_record :: "spot_record \<Rightarrow> string option" where
  "validate_record (Index r) =
     (case (ix_open r, ix_high r, ix_low r, ix_close r) of
        (Some opn, Some high, Some low, Some cls) \<Rightarrow> if invalid_ohlc opn high low cls then Some ''INVALID_OHLC'' else None
      | _ \<Rightarrow> None)"
| "validate_record (Institutional r) =
     (case (in_buy r, in_sell r, in_net r) of
        (Some buy, Some sell, Some net) \<Rightarrow>
          if 1 / 100 < dabs prec (dsub prec net (dsub prec buy sell)) then Some ''INVALID_NET'' else None
      | _ \<Rightarrow> None)"
| "validate_record (Margin r) =
     (if list_ex is_negative [mn_margin_buy r, mn_margin_sell r, mn_margin_cash_repayment r, mn_margin_balance r,
           mn_short_sell r, mn_short_cover r, mn_short_stock_repayment r, mn_short_balance r]
      then Some ''NEGATIVE_MARGIN'' else None)"
| "validate_record (Lending r) =
     (if list_ex is_negative [le_short_sell r, le_return r, le_balance r] then Some ''NEGATIVE_LENDING'' else None)"
| "validate_record (Breadth r) =
     (if list_ex is_negative [br_advancers r, br_decliners r, br_unchanged r, br_limit_up r, br_limit_down r]
      then Some ''NEGATIVE_BREADTH'' else None)"

text \<open>
  \<open>repr(record)[: repr(record).find("metadata=")]\<close>: the class and the fields before \<open>metadata\<close>. The text is
  represented by the record with the fields from \<open>metadata\<close> on set to fixed values: two texts differ
  when one of the earlier fields does. (Amounts are compared here by value; of two amounts that differ in
  trailing zeros alone the texts differ as well.)
\<close>

definition no_metadata :: source_metadata where
  "no_metadata = \<lparr>me_source_code = [], me_as_of = 0, me_received_at = 0, me_data_status = FINAL, me_source_revision = None\<rparr>"

fun before_metadata :: "spot_record \<Rightarrow> spot_record" where
  "before_metadata (Index r) = Index (r\<lparr>ix_metadata := no_metadata\<rparr>)"
| "before_metadata (Breadth r) = Breadth (r\<lparr>br_metadata := no_metadata\<rparr>)"
| "before_metadata (Institutional r) =
     Institutional (r\<lparr>in_metadata := no_metadata, in_security := None, in_is_amount := True\<rparr>)"
| "before_metadata (Margin r) =
     Margin (r\<lparr>mn_metadata := no_metadata, mn_security := None, mn_margin_utilization := None, mn_short_utilization := None\<rparr>)"
| "before_metadata (Lending r) = Lending (r\<lparr>le_metadata := no_metadata, le_security := None\<rparr>)"

section \<open>The repository\<close>

text \<open>
  The unique key of a row in its table; the spot_column of the subtype holds \<open>NONE\<close> for no subtype and is read
  back as written.
\<close>

datatype spot_key =
    Index_day market_code string date
  | Breadth_day market_code date
  | Institution_of_market market_code date institution_type "dealer_subtype option"
  | Institution_of_security uuid date institution_type "dealer_subtype option"
  | Margin_of_market market_code date
  | Margin_of_security uuid date
  | Lending_of_market market_code date
  | Lending_of_security uuid date

record spot_row =
  sw_key :: spot_key
  sw_columns :: "(string \<times> decimal option) list"
  sw_metadata :: source_metadata
  sw_run_id :: uuid

record spot_db =
  sd_stocks :: "stock_row list"
  sd_indexes :: "((market_code \<times> string) \<times> string) list"
  sd_rows :: "spot_row list"
  sd_runs :: "ingestion_run list"

text \<open>\<open>_security_id\<close>: any security of the market and code.\<close>

definition spot_security_id :: "spot_db \<Rightarrow> security_key \<Rightarrow> uuid option" where
  "spot_security_id db key = map_option sr_id (find (\<lambda>s. sr_key s = key) (sd_stocks db))"

definition whole :: "int option \<Rightarrow> decimal option" where
  "whole v = map_option of_int v"

text \<open>The key of the row a record is stored in; none for a security that is not in the master.\<close>

fun spot_row_key :: "spot_db \<Rightarrow> spot_record \<Rightarrow> spot_key option" where
  "spot_row_key db (Index r) = Some (Index_day (ix_market r) (ix_code r) (ix_trade_date r))"
| "spot_row_key db (Breadth r) = Some (Breadth_day (br_market r) (br_trade_date r))"
| "spot_row_key db (Institutional r) =
     (case in_security r of
        None \<Rightarrow> Some (Institution_of_market (in_market r) (in_trade_date r) (in_type r) (in_subtype r))
      | Some s \<Rightarrow> map_option (\<lambda>i. Institution_of_security i (in_trade_date r) (in_type r) (in_subtype r))
          (spot_security_id db s))"
| "spot_row_key db (Margin r) =
     (case mn_security r of
        None \<Rightarrow> Some (Margin_of_market (mn_market r) (mn_trade_date r))
      | Some s \<Rightarrow> map_option (\<lambda>i. Margin_of_security i (mn_trade_date r)) (spot_security_id db s))"
| "spot_row_key db (Lending r) =
     (case le_security r of
        None \<Rightarrow> Some (Lending_of_market (le_market r) (le_trade_date r))
      | Some s \<Rightarrow> map_option (\<lambda>i. Lending_of_security i (le_trade_date r)) (spot_security_id db s))"

fun row_columns :: "spot_record \<Rightarrow> (string \<times> decimal option) list" where
  "row_columns (Index r) =
     [(''open'', ix_open r), (''high'', ix_high r), (''low'', ix_low r), (''close'', ix_close r), (''change'', ix_change r),
      (''change_percent'', ix_change_percent r), (''turnover_amount'', ix_turnover r), (''volume'', whole (ix_volume r))]"
| "row_columns (Breadth r) =
     [(''advancers'', whole (br_advancers r)), (''decliners'', whole (br_decliners r)), (''unchanged'', whole (br_unchanged r)),
      (''limit_up'', whole (br_limit_up r)), (''limit_down'', whole (br_limit_down r)),
      (''total_traded'', whole (br_total_traded r)), (''turnover_amount'', br_turnover r)]"
| "row_columns (Institutional r) =
     (if in_security r = None
      then [(''buy_amount'', in_buy r), (''sell_amount'', in_sell r), (''net_amount'', in_net r)]
      else [(''buy_shares'', in_buy r), (''sell_shares'', in_sell r), (''net_shares'', in_net r),
            (''buy_amount'', None), (''sell_amount'', None), (''net_amount'', None)])"
| "row_columns (Margin r) =
     [(''margin_buy'', whole (mn_margin_buy r)), (''margin_sell'', whole (mn_margin_sell r)),
      (''margin_cash_repayment'', whole (mn_margin_cash_repayment r)), (''margin_balance'', whole (mn_margin_balance r)),
      (''margin_balance_change'', whole (mn_margin_balance_change r)), (''short_sell'', whole (mn_short_sell r)),
      (''short_cover'', whole (mn_short_cover r)), (''short_stock_repayment'', whole (mn_short_stock_repayment r)),
      (''short_balance'', whole (mn_short_balance r)), (''short_balance_change'', whole (mn_short_balance_change r)),
      (''short_margin_ratio'', mn_short_margin_ratio r)] @
     (if mn_security r = None then []
      else [(''margin_utilization'', mn_margin_utilization r), (''short_utilization'', mn_short_utilization r)])"
| "row_columns (Lending r) =
     [(''lending_sell'', whole (le_short_sell r)), (''lending_return'', whole (le_return r)),
      (''lending_balance'', whole (le_balance r)), (''lending_balance_change'', whole (le_balance_change r))]"

fun metadata_of :: "spot_record \<Rightarrow> source_metadata" where
  "metadata_of (Index r) = ix_metadata r"
| "metadata_of (Breadth r) = br_metadata r"
| "metadata_of (Institutional r) = in_metadata r"
| "metadata_of (Margin r) = mn_metadata r"
| "metadata_of (Lending r) = le_metadata r"

text \<open>The tuples of the check for duplicates; those of margin and lending records have the same form.\<close>

datatype spot_identity =
    Index_identity market_code string date
  | Breadth_identity market_code date
  | Institution_identity "security_key option" market_code date institution_type "dealer_subtype option"
  | Balance_identity "security_key option" market_code date

fun identity_of :: "spot_record \<Rightarrow> spot_identity" where
  "identity_of (Index r) = Index_identity (ix_market r) (ix_code r) (ix_trade_date r)"
| "identity_of (Breadth r) = Breadth_identity (br_market r) (br_trade_date r)"
| "identity_of (Institutional r) =
     Institution_identity (in_security r) (in_market r) (in_trade_date r) (in_type r) (in_subtype r)"
| "identity_of (Margin r) = Balance_identity (mn_security r) (mn_market r) (mn_trade_date r)"
| "identity_of (Lending r) = Balance_identity (le_security r) (le_market r) (le_trade_date r)"

record spot_sync =
  sx_indexes :: "((market_code \<times> string) \<times> string) list"
  sx_rows :: "spot_row list"
  sx_seen :: "spot_identity set"
  sx_inserted :: nat
  sx_updated :: nat

text \<open>\<open>_upsert\<close>\<close>

definition upsert_spot :: "spot_row \<Rightarrow> spot_sync \<Rightarrow> spot_sync" where
  "upsert_spot row st =
     (let (rows, inserted, updated) = upsert_by sw_key (\<lambda>r. (sw_columns r, sw_metadata r)) row (sx_rows st) in
      st\<lparr>sx_rows := rows, sx_inserted := sx_inserted st + inserted, sx_updated := sx_updated st + updated\<rparr>)"

fun with_index :: "spot_record \<Rightarrow> spot_sync \<Rightarrow> spot_sync" where
  "with_index (Index r) st =
     (if (ix_market r, ix_code r) \<in> fst ` set (sx_indexes st) then st
      else st\<lparr>sx_indexes := sx_indexes st @ [((ix_market r, ix_code r), ix_name r)]\<rparr>)"
| "with_index r st = st"

text \<open>One record: an unknown security is passed over before the check for duplicates.\<close>

definition sync_record :: "spot_db \<Rightarrow> uuid \<Rightarrow> spot_sync \<Rightarrow> spot_record \<Rightarrow> spot_sync result" where
  "sync_record db run st r =
     (case spot_row_key db r of
        None \<Rightarrow> Inr st
      | Some k \<Rightarrow>
          if identity_of r \<in> sx_seen st then Inl ValueError
          else let st = with_index r st in
            Inr (upsert_spot \<lparr>sw_key = k, sw_columns = row_columns r, sw_metadata = metadata_of r, sw_run_id = run\<rparr>
              (st\<lparr>sx_seen := insert (identity_of r) (sx_seen st)\<rparr>)))"

definition synchronize_spot :: "spot_db \<Rightarrow> uuid \<Rightarrow> spot_record list \<Rightarrow> spot_sync result" where
  "synchronize_spot db run records =
     rfold (sync_record db run) \<lparr>sx_indexes = sd_indexes db, sx_rows = sd_rows db, sx_seen = {}, sx_inserted = 0, sx_updated = 0\<rparr> records"

section \<open>A run of the ingestion\<close>

record spot_accept =
  sa_unique :: "spot_record list"
  sa_seen :: "spot_record set"
  sa_rejected :: nat

definition accept_spot :: "spot_accept \<Rightarrow> spot_record \<Rightarrow> spot_accept" where
  "accept_spot st r =
     (if before_metadata r \<in> sa_seen st \<or> validate_record r \<noteq> None
      then st\<lparr>sa_rejected := sa_rejected st + 1\<rparr>
      else st\<lparr>sa_unique := sa_unique st @ [r], sa_seen := insert (before_metadata r) (sa_seen st)\<rparr>)"

definition accept_spots :: "spot_record list \<Rightarrow> spot_accept" where
  "accept_spots records = foldl accept_spot \<lparr>sa_unique = [], sa_seen = {}, sa_rejected = 0\<rparr> records"

definition synchronize_dataset :: "(spot_record set \<Rightarrow> string) \<Rightarrow> (error \<Rightarrow> string) \<Rightarrow> uuid \<Rightarrow> string \<Rightarrow> string \<Rightarrow>
    instant \<Rightarrow> instant \<Rightarrow> nat \<Rightarrow> spot_record list result \<Rightarrow> spot_db \<Rightarrow> ingestion_run result \<times> spot_db" where
  "synchronize_dataset checksum message i provider dataset started now retry fetched db =
     (let run = new_run i provider dataset started retry;
          fail = (\<lambda>n e. (Inl e, db\<lparr>sd_runs := sd_runs db @ [failed_run_of run n now (message e)]\<rparr>)) in
      case fetched of
        Inl e \<Rightarrow> fail 0 e
      | Inr records \<Rightarrow>
          let st = accept_spots records in
          case synchronize_spot db i (sa_unique st) of
            Inl e \<Rightarrow> fail (length records) e
          | Inr sy \<Rightarrow>
              let done_run = run\<lparr>ir_fetched := length records, ir_inserted := sx_inserted sy, ir_updated := sx_updated sy,
                    ir_rejected := sa_rejected st, ir_checksum := Some (checksum (sa_seen st)),
                    ir_status := (if 0 < sa_rejected st then ''PARTIAL'' else ''SUCCEEDED''), ir_finished_at := Some now\<rparr>
              in (Inr done_run, db\<lparr>sd_indexes := sx_indexes sy, sd_rows := sx_rows sy, sd_runs := sd_runs db @ [done_run]\<rparr>))"

section \<open>Reading\<close>

text \<open>Whose rows are read: those of a market, or of a security, which may be unknown.\<close>

datatype spot_owner = Of_market market_code | Of_security "uuid option"

definition owner_of :: "spot_db \<Rightarrow> market_code \<Rightarrow> security_key option \<Rightarrow> spot_owner" where
  "owner_of db market security =
     (case security of None \<Rightarrow> Of_market market | Some s \<Rightarrow> Of_security (spot_security_id db s))"

fun institution_row :: "spot_owner \<Rightarrow> institution_type option \<Rightarrow> spot_key \<Rightarrow> bool" where
  "institution_row (Of_market m) w (Institution_of_market m' d t s) = (m' = m \<and> (w = None \<or> w = Some t))"
| "institution_row (Of_security (Some i)) w (Institution_of_security i' d t s) = (i' = i \<and> (w = None \<or> w = Some t))"
| "institution_row _ w _ = False"

fun margin_row :: "spot_owner \<Rightarrow> spot_key \<Rightarrow> bool" where
  "margin_row (Of_market m) (Margin_of_market m' d) = (m' = m)"
| "margin_row (Of_security (Some i)) (Margin_of_security i' d) = (i' = i)"
| "margin_row _ _ = False"

fun lending_row :: "spot_owner \<Rightarrow> spot_key \<Rightarrow> bool" where
  "lending_row (Of_market m) (Lending_of_market m' d) = (m' = m)"
| "lending_row (Of_security (Some i)) (Lending_of_security i' d) = (i' = i)"
| "lending_row _ _ = False"

fun breadth_row :: "market_code option \<Rightarrow> spot_key \<Rightarrow> bool" where
  "breadth_row w (Breadth_day m d) = (w = None \<or> w = Some m)"
| "breadth_row w _ = False"

fun index_row :: "string option \<Rightarrow> spot_key \<Rightarrow> bool" where
  "index_row w (Index_day m c d) = (w = None \<or> w = Some [] \<or> w = Some c)"
| "index_row w _ = False"

fun key_date :: "spot_key \<Rightarrow> date" where
  "key_date (Index_day m c d) = d"
| "key_date (Breadth_day m d) = d"
| "key_date (Institution_of_market m d t s) = d"
| "key_date (Institution_of_security i d t s) = d"
| "key_date (Margin_of_market m d) = d"
| "key_date (Margin_of_security i d) = d"
| "key_date (Lending_of_market m d) = d"
| "key_date (Lending_of_security i d) = d"

definition select_rows :: "spot_db \<Rightarrow> (spot_key \<Rightarrow> bool) \<Rightarrow> date option \<Rightarrow> date option \<Rightarrow> spot_row list" where
  "select_rows db p start_date end_date =
     sort_key (\<lambda>r. key_date (sw_key r))
       (filter (\<lambda>r. p (sw_key r) \<and> (case start_date of None \<Rightarrow> True | Some d \<Rightarrow> d \<le> key_date (sw_key r)) \<and>
          (case end_date of None \<Rightarrow> True | Some d \<Rightarrow> key_date (sw_key r) \<le> d)) (sd_rows db))"

definition spot_column :: "spot_row \<Rightarrow> string \<Rightarrow> decimal option" where
  "spot_column r name = (case map_of (sw_columns r) name of None \<Rightarrow> None | Some v \<Rightarrow> v)"

definition whole_column :: "spot_row \<Rightarrow> string \<Rightarrow> int option" where
  "whole_column r name = map_option floor (spot_column r name)"

fun key_institution :: "spot_key \<Rightarrow> institution_type \<times> dealer_subtype option" where
  "key_institution (Institution_of_market m d t s) = (t, s)"
| "key_institution (Institution_of_security i d t s) = (t, s)"
| "key_institution _ = (TOTAL, None)"

definition institutional_of :: "market_code \<Rightarrow> security_key option \<Rightarrow> spot_row \<Rightarrow> institutional_record" where
  "institutional_of market security r =
     (let unit = (if security = None then ''_amount'' else ''_shares'') in
      \<lparr>in_market = market, in_trade_date = key_date (sw_key r), in_type = fst (key_institution (sw_key r)),
       in_subtype = snd (key_institution (sw_key r)), in_buy = spot_column r (''buy'' @ unit), in_sell = spot_column r (''sell'' @ unit),
       in_net = spot_column r (''net'' @ unit), in_metadata = sw_metadata r, in_security = security,
       in_is_amount = (security = None)\<rparr>)"

definition margin_of :: "market_code \<Rightarrow> security_key option \<Rightarrow> spot_row \<Rightarrow> margin_record" where
  "margin_of market security r =
     \<lparr>mn_market = market, mn_trade_date = key_date (sw_key r), mn_margin_buy = whole_column r ''margin_buy'',
      mn_margin_sell = whole_column r ''margin_sell'', mn_margin_cash_repayment = whole_column r ''margin_cash_repayment'',
      mn_margin_balance = whole_column r ''margin_balance'', mn_margin_balance_change = whole_column r ''margin_balance_change'',
      mn_short_sell = whole_column r ''short_sell'', mn_short_cover = whole_column r ''short_cover'',
      mn_short_stock_repayment = whole_column r ''short_stock_repayment'', mn_short_balance = whole_column r ''short_balance'',
      mn_short_balance_change = whole_column r ''short_balance_change'', mn_short_margin_ratio = spot_column r ''short_margin_ratio'',
      mn_metadata = sw_metadata r, mn_security = security, mn_margin_utilization = spot_column r ''margin_utilization'',
      mn_short_utilization = spot_column r ''short_utilization''\<rparr>"

definition lending_of :: "market_code \<Rightarrow> security_key option \<Rightarrow> spot_row \<Rightarrow> lending_record" where
  "lending_of market security r =
     \<lparr>le_market = market, le_trade_date = key_date (sw_key r), le_short_sell = whole_column r ''lending_sell'',
      le_return = whole_column r ''lending_return'', le_balance = whole_column r ''lending_balance'',
      le_balance_change = whole_column r ''lending_balance_change'', le_metadata = sw_metadata r, le_security = security\<rparr>"

definition institutional :: "spot_db \<Rightarrow> market_code \<Rightarrow> security_key option \<Rightarrow> date option \<Rightarrow> date option \<Rightarrow>
    institution_type option \<Rightarrow> institutional_record list" where
  "institutional db market security start_date end_date institution =
     map (institutional_of market security)
       (select_rows db (institution_row (owner_of db market security) institution) start_date end_date)"

definition margins :: "spot_db \<Rightarrow> market_code \<Rightarrow> security_key option \<Rightarrow> date option \<Rightarrow> date option \<Rightarrow> margin_record list" where
  "margins db market security start_date end_date =
     map (margin_of market security) (select_rows db (margin_row (owner_of db market security)) start_date end_date)"

definition lending :: "spot_db \<Rightarrow> market_code \<Rightarrow> security_key option \<Rightarrow> date option \<Rightarrow> date option \<Rightarrow> lending_record list" where
  "lending db market security start_date end_date =
     map (lending_of market security) (select_rows db (lending_row (owner_of db market security)) start_date end_date)"

fun key_market :: "spot_key \<Rightarrow> market_code" where
  "key_market (Breadth_day m d) = m"
| "key_market (Index_day m c d) = m"
| "key_market _ = TWSE"

definition breadth_of_row :: "spot_row \<Rightarrow> breadth_record" where
  "breadth_of_row r =
     \<lparr>br_market = key_market (sw_key r), br_trade_date = key_date (sw_key r), br_advancers = whole_column r ''advancers'',
      br_decliners = whole_column r ''decliners'', br_unchanged = whole_column r ''unchanged'', br_limit_up = whole_column r ''limit_up'',
      br_limit_down = whole_column r ''limit_down'', br_total_traded = whole_column r ''total_traded'',
      br_turnover = spot_column r ''turnover_amount'', br_metadata = sw_metadata r\<rparr>"

definition breadth :: "spot_db \<Rightarrow> market_code option \<Rightarrow> date option \<Rightarrow> date option \<Rightarrow> breadth_record list" where
  "breadth db market start_date end_date = map breadth_of_row (select_rows db (breadth_row market) start_date end_date)"

fun key_code :: "spot_key \<Rightarrow> string" where
  "key_code (Index_day m c d) = c"
| "key_code _ = []"

definition index_of_row :: "spot_db \<Rightarrow> spot_row \<Rightarrow> index_record" where
  "index_of_row db r =
     \<lparr>ix_code = key_code (sw_key r),
      ix_name = (case map_of (sd_indexes db) (key_market (sw_key r), key_code (sw_key r)) of None \<Rightarrow> [] | Some n \<Rightarrow> n),
      ix_market = key_market (sw_key r), ix_trade_date = key_date (sw_key r), ix_open = spot_column r ''open'', ix_high = spot_column r ''high'',
      ix_low = spot_column r ''low'', ix_close = spot_column r ''close'', ix_change = spot_column r ''change'',
      ix_change_percent = spot_column r ''change_percent'', ix_turnover = spot_column r ''turnover_amount'',
      ix_volume = whole_column r ''volume'', ix_metadata = sw_metadata r\<rparr>"

text \<open>The newest \<open>limit\<close> rows, the oldest first; no limit and \<open>0\<close> mean all rows.\<close>

definition indexes :: "spot_db \<Rightarrow> string option \<Rightarrow> date option \<Rightarrow> date option \<Rightarrow> nat option \<Rightarrow> index_record list" where
  "indexes db code start_date end_date limit =
     (let rows = rev (select_rows db (index_row code) start_date end_date) in
      rev (map (index_of_row db) (case limit of None \<Rightarrow> rows | Some n \<Rightarrow> if n = 0 then rows else take n rows)))"

section \<open>The series of institutional trading\<close>

definition windows :: "nat list" where
  "windows = [1, 5, 10, 20, 60]"

type_synonym institution_key = "institution_type \<times> dealer_subtype option"

record series_entry =
  se_record :: institutional_record
  se_cumulative :: "decimal option"
  se_streak :: nat

record series_state =
  ss_cumulative :: "(institution_key \<times> decimal) list"
  ss_streak :: "(institution_key \<times> (int \<times> nat)) list"
  ss_result :: "series_entry list"

definition direction_of :: "decimal \<Rightarrow> int" where
  "direction_of net = (if 0 < net then 1 else if net < 0 then - 1 else 0)"

definition series_step :: "series_state \<Rightarrow> institutional_record \<Rightarrow> series_state" where
  "series_step st r =
     (let key = (in_type r, in_subtype r);
          st = (case in_net r of
              None \<Rightarrow> st
            | Some net \<Rightarrow>
                let total_net = dadd prec (case map_of (ss_cumulative st) key of None \<Rightarrow> 0 | Some c \<Rightarrow> c) net;
                    direction = direction_of net;
                    (previous, n) = (case map_of (ss_streak st) key of None \<Rightarrow> (0, 0) | Some p \<Rightarrow> p) in
                st\<lparr>ss_cumulative := AList.update key total_net (ss_cumulative st),
                   ss_streak := AList.update key (direction, if direction = previous then n + 1 else 1) (ss_streak st)\<rparr>)
      in st\<lparr>ss_result := ss_result st @
          [\<lparr>se_record = r, se_cumulative = map_of (ss_cumulative st) key,
            se_streak = (case map_of (ss_streak st) key of None \<Rightarrow> 0 | Some (d, n) \<Rightarrow> n)\<rparr>]\<rparr>)"

definition last_dates :: "nat \<Rightarrow> institutional_record list \<Rightarrow> date list" where
  "last_dates days rows =
     (let ds = sort (remdups (map in_trade_date rows)) in drop (length ds - days) ds)"

definition institutional_series :: "spot_db \<Rightarrow> market_code \<Rightarrow> security_key option \<Rightarrow> nat \<Rightarrow> date option \<Rightarrow> date option \<Rightarrow>
    institution_type option \<Rightarrow> series_entry list result" where
  "institutional_series db market security days start_date end_date institution =
     (if days \<notin> set windows then Inl ValueError
      else
        let rows = institutional db market security start_date end_date institution; ds = last_dates days rows in
        Inr (ss_result (foldl series_step \<lparr>ss_cumulative = [], ss_streak = [], ss_result = []\<rparr>
          (filter (\<lambda>r. in_trade_date r \<in> set ds) rows))))"

definition credit_series :: "spot_db \<Rightarrow> market_code \<Rightarrow> security_key option \<Rightarrow> nat \<Rightarrow> date option \<Rightarrow> date option \<Rightarrow>
    (margin_record list \<times> lending_record list) result" where
  "credit_series db market security days start_date end_date =
     (if days \<notin> set windows then Inl ValueError
      else
        let ms = margins db market security start_date end_date; ls = lending db market security start_date end_date in
        Inr (drop (length ms - days) ms, drop (length ls - days) ls))"

end
