(* ===== verification/SpotProperties.thy ===== *)
theory SpotProperties
  imports SpotIngestion
begin

text \<open>
  What a run of the ingestion of market spot data stores, which records it loses, and the running sums and
  streaks of the institutional series.
\<close>

section \<open>Accepted records\<close>

lemma validate_before_metadata [simp]: "validate_record (before_metadata r) = validate_record r"
  by (cases r) simp_all

lemma accept_later:
  "foldl accept_spot (st\<lparr>sa_rejected := sa_rejected st + 1\<rparr>) zs =
    (foldl accept_spot st zs)\<lparr>sa_rejected := sa_rejected (foldl accept_spot st zs) + 1\<rparr>"
proof (induction zs arbitrary: st)
  case (Cons z zs)
  have "accept_spot (st\<lparr>sa_rejected := sa_rejected st + 1\<rparr>) z =
      (accept_spot st z)\<lparr>sa_rejected := sa_rejected (accept_spot st z) + 1\<rparr>"
    by (simp add: accept_spot_def)
  then show ?case using Cons by simp
qed simp

lemma seen_or_invalid:
  assumes "before_metadata r \<in> sa_seen st \<or> validate_record r \<noteq> None \<or> r \<in> set xs"
  shows "before_metadata r \<in> sa_seen (foldl accept_spot st xs) \<or> validate_record r \<noteq> None"
  using assms
proof (induction xs arbitrary: st)
  case (Cons x xs)
  have "before_metadata r \<in> sa_seen (accept_spot st x) \<or> validate_record r \<noteq> None \<or> r \<in> set xs"
    using Cons.prems by (auto simp: accept_spot_def)
  then show ?case using Cons.IH by simp
qed simp

lemma accept_repeated:
  assumes "before_metadata r1 = before_metadata r2"
  shows "accept_spots (xs @ r1 # ys @ r2 # zs) =
    (accept_spots (xs @ r1 # ys @ zs))\<lparr>sa_rejected := sa_rejected (accept_spots (xs @ r1 # ys @ zs)) + 1\<rparr>"
proof -
  define st where "st = accept_spots (xs @ r1 # ys)"
  have "before_metadata r1 \<in> sa_seen st \<or> validate_record r1 \<noteq> None"
    unfolding st_def accept_spots_def by (rule seen_or_invalid) simp
  then have "accept_spot st r2 = st\<lparr>sa_rejected := sa_rejected st + 1\<rparr>"
    using assms validate_before_metadata [of r1] validate_before_metadata [of r2] by (auto simp: accept_spot_def)
  moreover have "accept_spots (xs @ r1 # ys @ r2 # zs) = foldl accept_spot (accept_spot st r2) zs"
    "accept_spots (xs @ r1 # ys @ zs) = foldl accept_spot st zs"
    by (simp_all add: accept_spots_def st_def)
  ultimately show ?thesis by (simp only: accept_later)
qed

section \<open>The rows\<close>

definition spot_table :: "spot_row list \<Rightarrow> spot_key \<Rightarrow> ((string \<times> decimal option) list \<times> source_metadata) option" where
  "spot_table = table_by sw_key (\<lambda>r. (sw_columns r, sw_metadata r))"

lemma upsert_table:
  "spot_table (sx_rows (upsert_spot row st)) = (spot_table (sx_rows st))(sw_key row \<mapsto> (sw_columns row, sw_metadata row))"
  using upsert_by_table [of sw_key "\<lambda>r. (sw_columns r, sw_metadata r)" row "sx_rows st"]
  by (cases "upsert_by sw_key (\<lambda>r. (sw_columns r, sw_metadata r)) row (sx_rows st)") (simp add: upsert_spot_def spot_table_def)

lemma upsert_seen [simp]: "sx_seen (upsert_spot row st) = sx_seen st" "sx_indexes (upsert_spot row st) = sx_indexes st"
  by (simp_all add: upsert_spot_def split: prod.split)

lemma with_index_keeps [simp]:
  "sx_rows (with_index r st) = sx_rows st" "sx_seen (with_index r st) = sx_seen st"
  by (cases r; simp)+

text \<open>The row of a record, stored over what is there; a record of an unknown security has none.\<close>

definition store_spot :: "spot_db \<Rightarrow> (spot_key \<Rightarrow> ((string \<times> decimal option) list \<times> source_metadata) option) \<Rightarrow> spot_record \<Rightarrow>
    spot_key \<Rightarrow> ((string \<times> decimal option) list \<times> source_metadata) option" where
  "store_spot db t r = (case spot_row_key db r of None \<Rightarrow> t | Some k \<Rightarrow> t(k \<mapsto> (row_columns r, metadata_of r)))"

definition known_identities :: "spot_db \<Rightarrow> spot_record list \<Rightarrow> spot_identity list" where
  "known_identities db rs = map identity_of (filter (\<lambda>r. spot_row_key db r \<noteq> None) rs)"

lemma sync_record_cases:
  "sync_record db run st r =
     (case spot_row_key db r of None \<Rightarrow> Inr st
      | Some k \<Rightarrow> if identity_of r \<in> sx_seen st then Inl ValueError else
          Inr (upsert_spot \<lparr>sw_key = k, sw_columns = row_columns r, sw_metadata = metadata_of r, sw_run_id = run\<rparr>
            ((with_index r st)\<lparr>sx_seen := insert (identity_of r) (sx_seen st)\<rparr>)))"
  by (simp add: sync_record_def Let_def split: option.split)

lemma synchronize_rows:
  "if distinct (known_identities db rs) \<and> set (known_identities db rs) \<inter> sx_seen st = {}
   then \<exists>st'. rfold (sync_record db run) st rs = Inr st' \<and>
     spot_table (sx_rows st') = foldl (store_spot db) (spot_table (sx_rows st)) rs
   else rfold (sync_record db run) st rs = Inl ValueError"
proof (induction rs arbitrary: st)
  case Nil
  then show ?case by (simp add: known_identities_def)
next
  case (Cons r rs)
  show ?case
  proof (cases "spot_row_key db r")
    case None
    then have "rfold (sync_record db run) st (r # rs) = rfold (sync_record db run) st rs" "store_spot db t r = t"
      "known_identities db (r # rs) = known_identities db rs" for t
      by (simp_all add: sync_record_cases known_identities_def store_spot_def)
    then show ?thesis using Cons [of st] by simp
  next
    case (Some k)
    define st' where "st' = upsert_spot \<lparr>sw_key = k, sw_columns = row_columns r, sw_metadata = metadata_of r, sw_run_id = run\<rparr>
      ((with_index r st)\<lparr>sx_seen := insert (identity_of r) (sx_seen st)\<rparr>)"
    have ids: "known_identities db (r # rs) = identity_of r # known_identities db rs" by (simp add: known_identities_def Some)
    have "spot_table (sx_rows st') = store_spot db (spot_table (sx_rows st)) r" "sx_seen st' = insert (identity_of r) (sx_seen st)"
      by (simp_all add: st'_def upsert_table store_spot_def Some)
    moreover have "rfold (sync_record db run) st (r # rs) =
        (if identity_of r \<in> sx_seen st then Inl ValueError else rfold (sync_record db run) st' rs)"
      by (simp add: sync_record_cases Some st'_def)
    ultimately show ?thesis using Cons [of st'] unfolding ids by auto
  qed
qed

section \<open>A run\<close>

text \<open>
  C35. Of two records whose fields up to the metadata agree, the second is never stored: the run leaves the
  tables as if the second had not been delivered, counts it as rejected and, when it succeeds, is PARTIAL.
  The security of an institutional, margin or lending record is declared after its metadata, so this
  happens to two stocks with the same figures on a day.
\<close>

theorem equal_figures_stored_once:
  assumes "before_metadata r1 = before_metadata r2"
  shows "\<exists>res db1 res0 db0.
    synchronize_dataset checksum message i provider dataset started now retry (Inr (xs @ r1 # ys @ r2 # zs)) db = (res, db1) \<and>
    synchronize_dataset checksum message i provider dataset started now retry (Inr (xs @ r1 # ys @ zs)) db = (res0, db0) \<and>
    sd_rows db1 = sd_rows db0 \<and> sd_indexes db1 = sd_indexes db0 \<and>
    (case res of Inl e \<Rightarrow> res0 = Inl e
     | Inr run \<Rightarrow> 0 < ir_rejected run \<and> ir_status run = ''PARTIAL'' \<and> (\<exists>run0. res0 = Inr run0 \<and> ir_inserted run = ir_inserted run0))"
  by (cases "synchronize_spot db i (sa_unique (accept_spots (xs @ r1 # ys @ zs)))")
    (simp_all add: synchronize_dataset_def accept_repeated [OF assms] Let_def)

text \<open>
  C36. What a run stores. When the accepted records of known securities have different identities, the run
  succeeds, and afterwards the rows are those of before with the row of each accepted record stored over
  them; records of unknown securities leave no trace. Otherwise the whole run fails, the rows stay as they
  are, and one failed run is recorded in which every record counts as rejected.
\<close>

theorem spot_rows_after_run:
  fixes records :: "spot_record list"
  defines "rs \<equiv> sa_unique (accept_spots records)"
  shows "if distinct (known_identities db rs)
    then \<exists>run db'. synchronize_dataset checksum message i provider dataset started now retry (Inr records) db = (Inr run, db') \<and>
      spot_table (sd_rows db') = foldl (store_spot db) (spot_table (sd_rows db)) rs \<and> sd_stocks db' = sd_stocks db \<and>
      sd_runs db' = sd_runs db @ [run] \<and> ir_fetched run = length records \<and> ir_rejected run + length rs = length records
    else \<exists>run. synchronize_dataset checksum message i provider dataset started now retry (Inr records) db =
        (Inl ValueError, db\<lparr>sd_runs := sd_runs db @ [run]\<rparr>) \<and>
      ir_status run = ''FAILED'' \<and> ir_rejected run = length records"
proof -
  have count: "sa_rejected (foldl accept_spot st records) + length (sa_unique (foldl accept_spot st records)) =
      sa_rejected st + length (sa_unique st) + length records" for st
  proof (induction records arbitrary: st)
    case (Cons r records)
    show ?case using Cons [of "accept_spot st r"] by (simp add: accept_spot_def)
  qed simp
  have length: "sa_rejected (accept_spots records) + length rs = length records"
    using count [of "\<lparr>sa_unique = [], sa_seen = {}, sa_rejected = 0\<rparr>"] by (simp add: rs_def accept_spots_def)
  let ?st = "\<lparr>sx_indexes = sd_indexes db, sx_rows = sd_rows db, sx_seen = {}, sx_inserted = 0, sx_updated = 0\<rparr>"
  show ?thesis
  proof (cases "distinct (known_identities db rs)")
    case True
    then obtain sy where "synchronize_spot db i rs = Inr sy" "spot_table (sx_rows sy) = foldl (store_spot db) (spot_table (sd_rows db)) rs"
      using synchronize_rows [of db rs ?st i] by (auto simp: synchronize_spot_def)
    then show ?thesis using True length
      by (simp add: synchronize_dataset_def rs_def [symmetric] Let_def)
  next
    case False
    then have "synchronize_spot db i rs = Inl ValueError"
      using synchronize_rows [of db rs ?st i] by (auto simp: synchronize_spot_def)
    then have "synchronize_dataset checksum message i provider dataset started now retry (Inr records) db = (Inl ValueError,
        db\<lparr>sd_runs := sd_runs db @ [failed_run_of (new_run i provider dataset started retry) (length records) now (message ValueError)]\<rparr>)"
      by (simp add: synchronize_dataset_def rs_def [symmetric] Let_def)
    then show ?thesis using False by (simp add: failed_run_of_def) (rule exI, rule conjI, rule refl, simp)
  qed
qed

section \<open>The series of institutional trading\<close>

definition institution_of :: "institutional_record \<Rightarrow> institution_key" where
  "institution_of r = (in_type r, in_subtype r)"

definition known_nets :: "institution_key \<Rightarrow> institutional_record list \<Rightarrow> decimal list" where
  "known_nets key rs = map (\<lambda>r. the (in_net r)) (filter (\<lambda>r. institution_of r = key \<and> in_net r \<noteq> None) rs)"

text \<open>The length of the last run of equal elements.\<close>

definition trailing_run :: "'a list \<Rightarrow> nat" where
  "trailing_run xs = length (takeWhile (\<lambda>x. x = last xs) (rev xs))"

lemma trailing_run_snoc:
  "trailing_run (xs @ [x]) = (if xs \<noteq> [] \<and> last xs = x then trailing_run xs + 1 else 1)"
  by (cases xs rule: rev_cases) (simp_all add: trailing_run_def)

definition sum_of :: "decimal list \<Rightarrow> decimal option" where
  "sum_of nets = (if nets = [] then None else Some (foldl (dadd prec) 0 nets))"

definition entry_after :: "institutional_record list \<Rightarrow> institutional_record \<Rightarrow> series_entry" where
  "entry_after before r =
     (let nets = known_nets (institution_of r) (before @ [r]) in
      \<lparr>se_record = r, se_cumulative = sum_of nets, se_streak = trailing_run (map direction_of nets)\<rparr>)"

lemma known_nets_snoc:
  "known_nets key (rs @ [r]) = known_nets key rs @ (if institution_of r = key \<and> in_net r \<noteq> None then [the (in_net r)] else [])"
  by (simp add: known_nets_def)

definition series_of :: "institutional_record list \<Rightarrow> series_state" where
  "series_of rs = foldl series_step \<lparr>ss_cumulative = [], ss_streak = [], ss_result = []\<rparr> rs"

definition streak_of :: "decimal list \<Rightarrow> (int \<times> nat) option" where
  "streak_of nets = (if nets = [] then None else Some (direction_of (last nets), trailing_run (map direction_of nets)))"

lemma trailing_run_Nil [simp]: "trailing_run [] = 0"
  by (simp add: trailing_run_def)

lemma streak_of_snoc:
  "streak_of (nets @ [n]) = Some (direction_of n,
     if direction_of n = fst (case streak_of nets of None \<Rightarrow> (0, 0) | Some p \<Rightarrow> p)
     then snd (case streak_of nets of None \<Rightarrow> (0, 0) | Some p \<Rightarrow> p) + 1 else 1)"
  by (simp add: streak_of_def trailing_run_snoc last_map)

lemma sum_of_snoc: "sum_of (nets @ [n]) = Some (dadd prec (case sum_of nets of None \<Rightarrow> 0 | Some c \<Rightarrow> c) n)"
  by (simp add: sum_of_def)

lemma series_state:
  "(\<forall>key. map_of (ss_cumulative (series_of rs)) key = sum_of (known_nets key rs) \<and>
     map_of (ss_streak (series_of rs)) key = streak_of (known_nets key rs)) \<and>
   ss_result (series_of rs) = map (\<lambda>j. entry_after (take j rs) (rs ! j)) [0..<length rs]"
proof (induction rs rule: rev_induct)
  case Nil
  then show ?case by (simp add: series_of_def known_nets_def sum_of_def streak_of_def)
next
  case (snoc r rs)
  define st where "st = series_of rs"
  have step: "series_of (rs @ [r]) = series_step st r" by (simp add: series_of_def st_def)
  have IH: "map_of (ss_cumulative st) key = sum_of (known_nets key rs)" "map_of (ss_streak st) key = streak_of (known_nets key rs)"
    "ss_result st = map (\<lambda>j. entry_after (take j rs) (rs ! j)) [0..<length rs]" for key
    using snoc.IH unfolding st_def by blast+
  have maps: "map_of (ss_cumulative (series_step st r)) key = sum_of (known_nets key (rs @ [r]))"
    "map_of (ss_streak (series_step st r)) key = streak_of (known_nets key (rs @ [r]))" for key
    by (auto simp: series_step_def Let_def IH known_nets_snoc institution_of_def update_conv sum_of_snoc streak_of_snoc
        split: option.split prod.split)
  have "ss_result (series_step st r) = ss_result st @
      [\<lparr>se_record = r, se_cumulative = map_of (ss_cumulative (series_step st r)) (institution_of r),
        se_streak = (case map_of (ss_streak (series_step st r)) (institution_of r) of None \<Rightarrow> 0 | Some (d, n) \<Rightarrow> n)\<rparr>]"
    by (simp add: series_step_def Let_def institution_of_def split: option.split prod.split)
  moreover have "(case streak_of nets of None \<Rightarrow> 0 | Some (d, n) \<Rightarrow> n) = trailing_run (map direction_of nets)" for nets
    by (simp add: streak_of_def)
  ultimately have "ss_result (series_step st r) = ss_result st @ [entry_after rs r]"
    by (simp add: maps entry_after_def Let_def)
  then show ?case by (simp add: step maps IH nth_append)
qed

text \<open>
  C37. The institutional series. The entry of a row shows the sum of the known nets of its institution and
  subtype up to that row, within the last dates of the window, and the number of its latest rows with a
  known net in one direction: buying, selling or even. Rows without a net are skipped by both. Another
  window is a \<open>ValueError\<close>.
\<close>

theorem series_entries:
  "institutional_series db market security days start_date end_date institution =
    (let rows = institutional db market security start_date end_date institution;
         selected = filter (\<lambda>r. in_trade_date r \<in> set (last_dates days rows)) rows in
     if days \<in> set windows then Inr (map (\<lambda>j. entry_after (take j selected) (selected ! j)) [0..<length selected]) else Inl ValueError)"
  using series_state by (simp add: institutional_series_def Let_def series_of_def)

section \<open>Examples\<close>

definition sample_metadata :: source_metadata where
  "sample_metadata = \<lparr>me_source_code = ''TWSE'', me_as_of = 0, me_received_at = 0, me_data_status = FINAL, me_source_revision = None\<rparr>"

definition lending_sample :: "string \<Rightarrow> spot_record" where
  "lending_sample code = Lending \<lparr>le_market = TWSE, le_trade_date = 8, le_short_sell = Some 0, le_return = Some 0,
     le_balance = Some 5, le_balance_change = Some 0, le_metadata = sample_metadata, le_security = Some \<lparr>sk_market = TWSE, sk_code = code\<rparr>\<rparr>"

definition two_stocks :: spot_db where
  "two_stocks = \<lparr>sd_stocks = [\<lparr>sr_id = 1, sr_key = \<lparr>sk_market = TWSE, sk_code = ''2330''\<rparr>, sr_type = ''COMMON_STOCK'', sr_active = True\<rparr>,
       \<lparr>sr_id = 2, sr_key = \<lparr>sk_market = TWSE, sk_code = ''2317''\<rparr>, sr_type = ''COMMON_STOCK'', sr_active = True\<rparr>],
     sd_indexes = [], sd_rows = [], sd_runs = []\<rparr>"

text \<open>The balances of two stocks are equal; the second gets no row.\<close>

theorem equal_figures_stored_once_witness:
  "\<exists>run db'. synchronize_dataset (\<lambda>s. []) (\<lambda>e. []) 7 ''TWSE'' ''SECURITY_LENDING'' 0 1 0
      (Inr [lending_sample ''2330'', lending_sample ''2317'']) two_stocks = (Inr run, db') \<and>
    ir_status run = ''PARTIAL'' \<and> map sw_key (sd_rows db') = [Lending_of_security 1 8]"
proof -
  have "before_metadata (lending_sample ''2330'') = before_metadata (lending_sample ''2317'')" by (simp add: lending_sample_def)
  from equal_figures_stored_once [OF this, of "\<lambda>s. []" "\<lambda>e. []" 7 "''TWSE''" "''SECURITY_LENDING''" 0 1 0 "[]" "[]" "[]" two_stocks]
  obtain res db1 res0 db0 where two: "synchronize_dataset (\<lambda>s. []) (\<lambda>e. []) 7 ''TWSE'' ''SECURITY_LENDING'' 0 1 0
      (Inr [lending_sample ''2330'', lending_sample ''2317'']) two_stocks = (res, db1)"
    "synchronize_dataset (\<lambda>s. []) (\<lambda>e. []) 7 ''TWSE'' ''SECURITY_LENDING'' 0 1 0
      (Inr [lending_sample ''2330'']) two_stocks = (res0, db0)"
    "sd_rows db1 = sd_rows db0"
    "case res of Inl e \<Rightarrow> res0 = Inl e | Inr run \<Rightarrow> 0 < ir_rejected run \<and> ir_status run = ''PARTIAL'' \<and>
      (\<exists>run0. res0 = Inr run0 \<and> ir_inserted run = ir_inserted run0)"
    by (simp only: append_Nil) blast
  have "(\<exists>run0. res0 = Inr run0) \<and> map sw_key (sd_rows db0) = [Lending_of_security 1 8]"
    using two(2) unfolding lending_sample_def two_stocks_def
    by (auto simp: synchronize_dataset_def accept_spots_def accept_spot_def synchronize_spot_def sync_record_cases spot_security_id_def
        upsert_spot_def upsert_by_def Let_def is_negative_def)
  then show ?thesis using two by (cases res) auto
qed

end
