(* ===== verification/Json.thy ===== *)
theory Json
  imports PyDecimal
begin

text \<open>
  JSON documents as Python values: dictionaries keep their insertion order. The conversions of the
  standard library that format or parse text (\<open>str\<close> of a number, ISO timestamps, UUIDs) are collected
  in a record of functions the components take as a parameter.
\<close>

datatype json =
    JNull
  | JBool bool
  | JNum rat
  | JStr string
  | JList "json list"
  | JObj "(string \<times> json) list"

text \<open>Truth value of a value.\<close>

fun truthy :: "json \<Rightarrow> bool" where
  "truthy JNull = False"
| "truthy (JBool b) = b"
| "truthy (JNum n) = (n \<noteq> 0)"
| "truthy (JStr s) = (s \<noteq> [])"
| "truthy (JList xs) = (xs \<noteq> [])"
| "truthy (JObj kvs) = (kvs \<noteq> [])"

fun is_str :: "json \<Rightarrow> bool" where
  "is_str (JStr s) = True"
| "is_str _ = False"

fun is_obj :: "json \<Rightarrow> bool" where
  "is_obj (JObj kvs) = True"
| "is_obj _ = False"

type_synonym dict = "(string \<times> json) list"

text \<open>\<open>payload.get(key, default)\<close> and \<open>payload[key]\<close>\<close>

definition get_or :: "string \<Rightarrow> json \<Rightarrow> dict \<Rightarrow> json" where
  "get_or k dflt d = (case map_of d k of None \<Rightarrow> dflt | Some v \<Rightarrow> v)"

definition item :: "string \<Rightarrow> dict \<Rightarrow> json result" where
  "item k d = (case map_of d k of None \<Rightarrow> Inl KeyError | Some v \<Rightarrow> Inr v)"

definition has_key :: "string \<Rightarrow> dict \<Rightarrow> bool" where
  "has_key k d \<longleftrightarrow> map_of d k \<noteq> None"

record formats =
  py_str :: "json \<Rightarrow> string"
  uuid_parse :: "string \<Rightarrow> uuid option"
  uuid_show :: "uuid \<Rightarrow> string"
  iso_parse :: "string \<Rightarrow> instant option"
  iso_show :: "instant \<Rightarrow> string"
  int_parse :: "string \<Rightarrow> int option"

text \<open>\<open>UUID(value)\<close>, \<open>int(value)\<close>\<close>

definition uuid_of :: "formats \<Rightarrow> json \<Rightarrow> uuid result" where
  "uuid_of fm j =
     (case j of
        JStr s \<Rightarrow> (case uuid_parse fm s of None \<Rightarrow> Inl ValueError | Some u \<Rightarrow> Inr u)
      | JNull \<Rightarrow> Inl TypeError
      | _ \<Rightarrow> Inl AttributeError)"

definition truncate :: "rat \<Rightarrow> int" where
  "truncate q = (if q < 0 then \<lceil>q\<rceil> else \<lfloor>q\<rfloor>)"

definition int_of :: "formats \<Rightarrow> json \<Rightarrow> int result" where
  "int_of fm j =
     (case j of
        JNum q \<Rightarrow> Inr (truncate q)
      | JBool b \<Rightarrow> Inr (if b then 1 else 0)
      | JStr s \<Rightarrow> (case int_parse fm s of None \<Rightarrow> Inl ValueError | Some i \<Rightarrow> Inr i)
      | _ \<Rightarrow> Inl TypeError)"

definition iso_of :: "formats \<Rightarrow> string \<Rightarrow> instant result" where
  "iso_of fm s = (case iso_parse fm s of None \<Rightarrow> Inl ValueError | Some t \<Rightarrow> Inr t)"

text \<open>A text format in which every UUID, instant and integer is written in unary.\<close>

definition unary :: formats where
  "unary = \<lparr>py_str = (\<lambda>j. case j of JStr s \<Rightarrow> s | _ \<Rightarrow> ''?''),
     uuid_parse = (\<lambda>s. if set s \<subseteq> {CHR ''1''} then Some (length s) else None),
     uuid_show = (\<lambda>n. replicate n CHR ''1''),
     iso_parse = (\<lambda>s. Some (int (length s))), iso_show = (\<lambda>t. replicate (nat t) CHR ''1''),
     int_parse = (\<lambda>s. Some (int (length s)))\<rparr>"

end
