(* ===== verification/DataMonitoring.thy ===== *)
theory DataMonitoring
  imports DataAudit Json PyText
begin

text \<open>
  The monitoring of the data quality (\<open>app/services/data_quality_monitoring.py\<close>,
  \<open>app/domain/monitoring.py\<close>): the anomalies of an audited day, the table of anomalies with its states
  \<open>ACTIVE\<close> and \<open>RESOLVED\<close>, and the notifications of a run, which are stored as push events. Titles, bodies
  and messages are texts for the reader and left out. \<open>fresh k\<close> is the \<open>k\<close>-th \<open>uuid4\<close> of a run, \<open>now\<close> its time,
  \<open>cooldown\<close> the length of the cool-down.
\<close>

section \<open>Anomalies\<close>

datatype severity = INFO | WARNING | ERROR | CRITICAL

datatype anomaly_type =
    PIPELINE_FAILED
  | INGESTION_RUN_FAILED
  | DATASET_PARTIAL
  | DATASET_FAILED
  | DATASET_STALE
  | DATASET_NO_DATA
  | REPAIR_FAILED
  | REPAIR_PARTIAL
  | DUPLICATE_RECORDS
  | TECHNICAL_GAP

fun type_text :: "anomaly_type \<Rightarrow> string" where
  "type_text PIPELINE_FAILED = ''PIPELINE_FAILED''"
| "type_text INGESTION_RUN_FAILED = ''INGESTION_RUN_FAILED''"
| "type_text DATASET_PARTIAL = ''DATASET_PARTIAL''"
| "type_text DATASET_FAILED = ''DATASET_FAILED''"
| "type_text DATASET_STALE = ''DATASET_STALE''"
| "type_text DATASET_NO_DATA = ''DATASET_NO_DATA''"
| "type_text REPAIR_FAILED = ''REPAIR_FAILED''"
| "type_text REPAIR_PARTIAL = ''REPAIR_PARTIAL''"
| "type_text DUPLICATE_RECORDS = ''DUPLICATE_RECORDS''"
| "type_text TECHNICAL_GAP = ''TECHNICAL_GAP''"

fun severity_text :: "severity \<Rightarrow> string" where
  "severity_text INFO = ''INFO''"
| "severity_text WARNING = ''WARNING''"
| "severity_text ERROR = ''ERROR''"
| "severity_text CRITICAL = ''CRITICAL''"

text \<open>\<open>severity_order.get(text, 1)\<close>\<close>

definition severity_rank :: "string \<Rightarrow> nat" where
  "severity_rank s =
     (if s = ''WARNING'' then 2 else if s = ''ERROR'' then 3 else if s = ''CRITICAL'' then 4 else 1)"

record anomaly =
  an_type :: anomaly_type
  an_dataset :: string
  an_date :: date
  an_severity :: severity
  an_scope :: string
  an_details :: dict

text \<open>\<open>date.isoformat()\<close>\<close>

definition iso_date :: "date \<Rightarrow> string" where
  "iso_date d =
     fixed_digits 4 (nat (ord2year d)) @ ''-'' @ fixed_digits 2 (nat (ord2month d)) @ ''-'' @ fixed_digits 2 (nat (ord2day d))"

definition key_text :: "string \<Rightarrow> string \<Rightarrow> string \<Rightarrow> date \<Rightarrow> string" where
  "key_text kind dataset scope d = kind @ ''|'' @ dataset @ ''|'' @ scope @ ''|'' @ iso_date d"

definition dedupe_key :: "anomaly \<Rightarrow> string" where
  "dedupe_key a = key_text (type_text (an_type a)) (an_dataset a) (an_scope a) (an_date a)"

section \<open>The anomalies of an audit\<close>

definition finding :: "audit_report \<Rightarrow> anomaly_type \<Rightarrow> string \<Rightarrow> severity \<Rightarrow> string \<Rightarrow> dict \<Rightarrow> anomaly" where
  "finding report kind dataset severity scope details =
     \<lparr>an_type = kind, an_dataset = dataset, an_date = ar_date report, an_severity = severity, an_scope = scope,
      an_details = details\<rparr>"

definition num :: "nat \<Rightarrow> json" where
  "num n = JNum (of_nat n)"

definition or_null :: "string option \<Rightarrow> json" where
  "or_null s = (case s of None \<Rightarrow> JNull | Some t \<Rightarrow> JStr t)"

definition run_anomaly :: "audit_report \<Rightarrow> run_entry \<Rightarrow> anomaly" where
  "run_anomaly report r =
     finding report INGESTION_RUN_FAILED (re_dataset r) ERROR (if re_provider r = [] then ''PROVIDER'' else re_provider r)
       [(''run_id'', JStr (uuid_text (re_id r))), (''provider'', JStr (re_provider r)),
        (''error_message'', or_null (re_error_message r))]"

definition security_anomalies :: "audit_report \<Rightarrow> anomaly list" where
  "security_anomalies report =
     (let sec = ar_securities report in
      case sm_status sec of
        FAILED \<Rightarrow> [finding report DATASET_FAILED ''SECURITY_MASTER'' CRITICAL ''GLOBAL''
          [(''duplicate_count'', num (sm_duplicates sec))]]
      | PARTIAL \<Rightarrow> [finding report DATASET_PARTIAL ''SECURITY_MASTER'' WARNING ''GLOBAL''
          [(''active_common_stocks'', num (sm_active sec))]]
      | _ \<Rightarrow> [])"

definition price_anomalies :: "audit_report \<Rightarrow> string \<Rightarrow> price_audit \<Rightarrow> anomaly list" where
  "price_anomalies report market pa =
     (let dataset = market @ ''_DAILY'';
          details = [(''missing_count'', num (pa_missing pa)), (''coverage_ratio'', JNum (pa_coverage pa))] in
      case pa_status pa of
        FAILED \<Rightarrow> [finding report DATASET_FAILED dataset ERROR market details]
      | PARTIAL \<Rightarrow> [finding report DATASET_PARTIAL dataset WARNING market details]
      | NO_DATA \<Rightarrow> [finding report DATASET_NO_DATA dataset ERROR market []]
      | _ \<Rightarrow> [])"

definition spot_anomalies :: "audit_report \<Rightarrow> anomaly list" where
  "spot_anomalies report =
     (let spot = ar_spot report in
      case sp_status spot of
        FAILED \<Rightarrow> [finding report DATASET_FAILED ''MARKET_SPOT'' ERROR ''GLOBAL'' [(''duplicates'', num (sp_duplicates spot))]]
      | PARTIAL \<Rightarrow> [finding report DATASET_PARTIAL ''MARKET_SPOT'' WARNING ''GLOBAL''
          [(''breadth'', num (sp_breadth spot)), (''margin'', num (sp_margin spot)), (''lending'', num (sp_lending spot)),
           (''institutional'', num (sp_institutional spot))]]
      | _ \<Rightarrow> [])"

definition derivative_anomalies :: "audit_report \<Rightarrow> derivative_audit \<Rightarrow> anomaly list" where
  "derivative_anomalies report d =
     (let details = [(''row_count'', num (dv_rows d)), (''note'', or_null (dv_note d))] in
      if upper (dv_dataset d) \<in> {''VOLATILITY_INDEX'', ''TAIFEX_VIX'', ''VIX''} then []
      else case dv_status d of
        FAILED \<Rightarrow> [finding report DATASET_FAILED (dv_dataset d) ERROR ''TAIFEX'' details]
      | PARTIAL \<Rightarrow> [finding report DATASET_PARTIAL (dv_dataset d) WARNING ''TAIFEX'' details]
      | NO_DATA \<Rightarrow> [finding report DATASET_NO_DATA (dv_dataset d) WARNING ''TAIFEX'' details]
      | _ \<Rightarrow> [])"

definition technical_anomalies :: "audit_report \<Rightarrow> anomaly list" where
  "technical_anomalies report =
     (let tech = ar_technicals report in
      case ta_status tech of
        FAILED \<Rightarrow> [finding report DATASET_FAILED ''TECHNICALS'' ERROR ''GLOBAL''
          [(''ma240_missing_count'', num (ta_missing tech)), (''duplicate_count'', num (ta_duplicates tech))]]
      | STALE \<Rightarrow> [finding report DATASET_STALE ''TECHNICALS'' WARNING ''GLOBAL''
          [(''stale_count'', num (ta_stale tech)),
           (''snapshot_date'', JStr (case ta_snapshot_date tech of None \<Rightarrow> ''None'' | Some d \<Rightarrow> iso_date d))]]
      | PARTIAL \<Rightarrow> [finding report DATASET_PARTIAL ''TECHNICALS'' WARNING ''GLOBAL''
          [(''snapshots'', num (ta_snapshots tech)), (''active_stocks'', num (ta_active tech))]]
      | _ \<Rightarrow> [])"

definition strength_anomalies :: "audit_report \<Rightarrow> anomaly list" where
  "strength_anomalies report =
     (let ind = ar_strength report; details = [(''snapshot_count'', num (ia_snapshots ind))] in
      case ia_status ind of
        FAILED \<Rightarrow> [finding report DATASET_FAILED ''INDUSTRY_STRENGTH'' ERROR ''GLOBAL'' details]
      | PARTIAL \<Rightarrow> [finding report DATASET_PARTIAL ''INDUSTRY_STRENGTH'' WARNING ''GLOBAL'' details]
      | NO_DATA \<Rightarrow> [finding report DATASET_PARTIAL ''INDUSTRY_STRENGTH'' WARNING ''GLOBAL'' details]
      | _ \<Rightarrow> [])"

definition duplicate_anomalies :: "audit_report \<Rightarrow> anomaly list" where
  "duplicate_anomalies report =
     (let dup = ar_duplicates report in
      if du_status dup = FAILED
      then [finding report DUPLICATE_RECORDS ''DATABASE'' ERROR ''GLOBAL''
        [(''duplicate_securities'', num (du_securities dup)), (''duplicate_daily_prices'', num (du_prices dup)),
         (''duplicate_technical_snapshots'', num (du_technicals dup)), (''duplicate_market_spot'', num (du_spot dup)),
         (''duplicate_derivatives'', num (du_derivatives dup))]]
      else [])"

definition extract_anomalies :: "audit_report \<Rightarrow> run_entry list \<Rightarrow> anomaly list" where
  "extract_anomalies report failed_runs =
     (if ar_day_type report \<noteq> TRADING_DAY \<or> \<not> ar_trading report then []
      else map (run_anomaly report) failed_runs @ security_anomalies report @
        price_anomalies report ''TWSE'' (ar_twse report) @ price_anomalies report ''TPEX'' (ar_tpex report) @
        spot_anomalies report @ concat (map (derivative_anomalies report) (ar_derivatives report)) @
        technical_anomalies report @ strength_anomalies report @ duplicate_anomalies report)"

section \<open>The table of anomalies\<close>

record anomaly_row =
  aw_id :: uuid
  aw_dedupe_key :: string
  aw_type :: string
  aw_dataset :: string
  aw_scope :: string
  aw_target_date :: date
  aw_severity :: string
  aw_status :: string
  aw_occurrences :: nat
  aw_first_seen :: instant
  aw_last_seen :: instant
  aw_last_notified :: "instant option"
  aw_resolved_at :: "instant option"
  aw_details :: dict

record notification =
  nf_event_id :: uuid
  nf_type :: string
  nf_severity :: severity
  nf_dedupe_key :: string
  nf_target_date :: date
  nf_dataset :: string
  nf_created_at :: instant
  nf_occurrences :: nat
  nf_is_resolution :: bool
  nf_details :: dict

record stored_event =
  sv_id :: uuid
  sv_user_id :: "uuid option"
  sv_type :: string
  sv_created_at :: instant

record monitor_db =
  mo_rows :: "anomaly_row list"
  mo_events :: "stored_event list"

text \<open>What the database checks when the run is committed.\<close>

definition monitor_constraints :: "monitor_db \<Rightarrow> bool" where
  "monitor_constraints db \<longleftrightarrow> distinct (map aw_id (mo_rows db)) \<and> distinct (map aw_dedupe_key (mo_rows db)) \<and>
     distinct (map sv_id (mo_events db))"

section \<open>A run\<close>

text \<open>The state of the loops: the rows, the notifications and the counters; \<open>ru_fresh\<close> counts the \<open>uuid4\<close>.\<close>

record monitor_run =
  ru_rows :: "anomaly_row list"
  ru_notes :: "notification list"
  ru_new :: nat
  ru_suppressed :: nat
  ru_resolved :: nat
  ru_fresh :: nat

definition new_row :: "uuid \<Rightarrow> instant \<Rightarrow> string \<Rightarrow> anomaly \<Rightarrow> anomaly_row" where
  "new_row i now key a =
     \<lparr>aw_id = i, aw_dedupe_key = key, aw_type = type_text (an_type a), aw_dataset = an_dataset a, aw_scope = an_scope a,
      aw_target_date = an_date a, aw_severity = severity_text (an_severity a), aw_status = ''ACTIVE'', aw_occurrences = 1,
      aw_first_seen = now, aw_last_seen = now, aw_last_notified = Some now, aw_resolved_at = None,
      aw_details = an_details a\<rparr>"

definition notice :: "uuid \<Rightarrow> instant \<Rightarrow> string \<Rightarrow> nat \<Rightarrow> anomaly \<Rightarrow> notification" where
  "notice i now key n a =
     \<lparr>nf_event_id = i, nf_type = type_text (an_type a), nf_severity = an_severity a, nf_dedupe_key = key,
      nf_target_date = an_date a, nf_dataset = an_dataset a, nf_created_at = now, nf_occurrences = n,
      nf_is_resolution = False, nf_details = an_details a\<rparr>"

definition update_anomaly :: "uuid \<Rightarrow> (anomaly_row \<Rightarrow> anomaly_row) \<Rightarrow> anomaly_row list \<Rightarrow> anomaly_row list" where
  "update_anomaly i f rows = map (\<lambda>r. if aw_id r = i then f r else r) rows"

definition escalated :: "anomaly_row \<Rightarrow> anomaly \<Rightarrow> bool" where
  "escalated r a \<longleftrightarrow> severity_rank (aw_severity r) < severity_rank (severity_text (an_severity a))"

definition in_cooldown :: "int \<Rightarrow> instant \<Rightarrow> anomaly_row \<Rightarrow> bool" where
  "in_cooldown cooldown now r \<longleftrightarrow> (case aw_last_notified r of None \<Rightarrow> False | Some t \<Rightarrow> now - t < cooldown)"

definition notify_again :: "int \<Rightarrow> instant \<Rightarrow> anomaly_row \<Rightarrow> anomaly \<Rightarrow> bool" where
  "notify_again cooldown now r a \<longleftrightarrow>
     aw_status r = ''RESOLVED'' \<or> escalated r a \<or> \<not> in_cooldown cooldown now r"

definition seen_again :: "instant \<Rightarrow> anomaly \<Rightarrow> bool \<Rightarrow> anomaly_row \<Rightarrow> anomaly_row" where
  "seen_again now a notify r =
     (let s = r\<lparr>aw_last_seen := now, aw_occurrences := aw_occurrences r + 1, aw_details := an_details a\<rparr>;
          t = (if aw_status r = ''RESOLVED'' then s\<lparr>aw_status := ''ACTIVE'', aw_resolved_at := None\<rparr> else s)
      in if notify then t\<lparr>aw_severity := severity_text (an_severity a), aw_last_notified := Some now\<rparr> else t)"

text \<open>One detected anomaly; \<open>existing\<close> are the rows of the date as they were loaded.\<close>

definition detect_step :: "int \<Rightarrow> instant \<Rightarrow> (nat \<Rightarrow> uuid) \<Rightarrow> anomaly_row list \<Rightarrow> monitor_run \<Rightarrow> string \<times> anomaly \<Rightarrow> monitor_run" where
  "detect_step cooldown now fresh existing ru = (\<lambda>(key, a).
     case find (\<lambda>r. aw_dedupe_key r = key) (rev existing) of
       None \<Rightarrow>
         ru\<lparr>ru_rows := ru_rows ru @ [new_row (fresh (ru_fresh ru)) now key a],
            ru_notes := ru_notes ru @ [notice (fresh (ru_fresh ru + 1)) now key 1 a],
            ru_new := ru_new ru + 1, ru_fresh := ru_fresh ru + 2\<rparr>
     | Some r \<Rightarrow>
         let notify = notify_again cooldown now r a;
             s = ru\<lparr>ru_rows := update_anomaly (aw_id r) (seen_again now a notify) (ru_rows ru)\<rparr>
         in if notify
            then s\<lparr>ru_notes := ru_notes ru @ [notice (fresh (ru_fresh ru)) now key (aw_occurrences r + 1) a],
                   ru_fresh := ru_fresh ru + 1\<rparr>
            else s\<lparr>ru_suppressed := ru_suppressed ru + 1\<rparr>)"

definition resolve_step :: "instant \<Rightarrow> (nat \<Rightarrow> uuid) \<Rightarrow> string set \<Rightarrow> monitor_run \<Rightarrow> anomaly_row \<Rightarrow> monitor_run" where
  "resolve_step now fresh detected ru r =
     (if aw_status r = ''ACTIVE'' \<and> aw_dedupe_key r \<notin> detected
      then ru\<lparr>ru_rows := update_anomaly (aw_id r) (\<lambda>x. x\<lparr>aw_status := ''RESOLVED'', aw_resolved_at := Some now\<rparr>) (ru_rows ru),
              ru_notes := ru_notes ru @
                [\<lparr>nf_event_id = fresh (ru_fresh ru), nf_type = aw_type r, nf_severity = INFO, nf_dedupe_key = aw_dedupe_key r,
                  nf_target_date = aw_target_date r, nf_dataset = aw_dataset r, nf_created_at = now,
                  nf_occurrences = aw_occurrences r, nf_is_resolution = True,
                  nf_details = [(''resolved_from_dedupe_key'', JStr (aw_dedupe_key r))]\<rparr>],
              ru_resolved := ru_resolved ru + 1, ru_fresh := ru_fresh ru + 1\<rparr>
      else ru)"

text \<open>\<open>{a.dedupe_key: a for a in detected}\<close>\<close>

definition by_key :: "anomaly list \<Rightarrow> (string \<times> anomaly) list" where
  "by_key as = foldl (\<lambda>d a. AList.update (dedupe_key a) a d) [] as"

definition process_anomalies :: "int \<Rightarrow> instant \<Rightarrow> (nat \<Rightarrow> uuid) \<Rightarrow> date \<Rightarrow> anomaly list \<Rightarrow> anomaly_row list \<Rightarrow> monitor_run" where
  "process_anomalies cooldown now fresh target as rows =
     (let existing = filter (\<lambda>r. aw_target_date r = target) rows; detected = by_key as in
      foldl (resolve_step now fresh (fst ` set detected))
        (foldl (detect_step cooldown now fresh existing)
           \<lparr>ru_rows = rows, ru_notes = [], ru_new = 0, ru_suppressed = 0, ru_resolved = 0, ru_fresh = 0\<rparr> detected)
        existing)"

text \<open>\<open>_check_failed_ingestion_runs\<close>: the runs started on the day in UTC.\<close>

definition check_failed_ingestion_runs :: "audit_db \<Rightarrow> date \<Rightarrow> run_entry list" where
  "check_failed_ingestion_runs db target =
     filter (\<lambda>r. (target - epoch_ordinal) * day_length \<le> re_started_at r \<and>
       re_started_at r < (target + 1 - epoch_ordinal) * day_length \<and> failed_run (re_status r)) (ad_runs db)"

record monitoring_result =
  mr_detected :: nat
  mr_active :: nat
  mr_new :: nat
  mr_resolved :: nat
  mr_created :: nat
  mr_suppressed :: nat
  mr_notifications :: "notification list"

definition stored_event_of :: "uuid option \<Rightarrow> instant \<Rightarrow> notification \<Rightarrow> stored_event" where
  "stored_event_of user now n =
     \<lparr>sv_id = nf_event_id n, sv_user_id = user, sv_type = take 64 (nf_type n), sv_created_at = now\<rparr>"

definition evaluate_monitoring :: "(date \<Rightarrow> bool) \<Rightarrow> (instant \<Rightarrow> date) \<Rightarrow> int \<Rightarrow> uuid option \<Rightarrow> instant \<Rightarrow> (nat \<Rightarrow> uuid) \<Rightarrow>
    date \<Rightarrow> audit_db \<Rightarrow> monitor_db \<Rightarrow> (monitoring_result \<times> monitor_db) result" where
  "evaluate_monitoring trading day_of cooldown user now fresh target adb db =
     (if \<not> trading target
      then Inr (\<lparr>mr_detected = 0, mr_active = 0, mr_new = 0, mr_resolved = 0, mr_created = 0, mr_suppressed = 0,
        mr_notifications = []\<rparr>, db)
      else
        let anomalies = extract_anomalies (audit_date trading day_of adb target) (check_failed_ingestion_runs adb target);
            ru = process_anomalies cooldown now fresh target anomalies (mo_rows db);
            db' = \<lparr>mo_rows = ru_rows ru, mo_events = mo_events db @ map (stored_event_of user now) (ru_notes ru)\<rparr>
        in if \<not> monitor_constraints db' then Inl IntegrityError
           else Inr (\<lparr>mr_detected = length anomalies, mr_active = length (by_key anomalies), mr_new = ru_new ru,
             mr_resolved = ru_resolved ru, mr_created = length (ru_notes ru), mr_suppressed = ru_suppressed ru,
             mr_notifications = ru_notes ru\<rparr>, db'))"

end
