(* ===== verification/MonitoringResults.thy ===== *)
theory MonitoringResults
  imports DataMonitoring
begin

text \<open>
  What a run of the monitoring does to the table of anomalies and whom it tells: afterwards the active rows
  of the day are those of its detected anomalies, rows of other days are as they were, an anomaly is
  notified when it is new, comes back, gets worse or its cool-down is over, and every row that stops being
  detected is resolved with a notification of its own.
\<close>

section \<open>Rows\<close>

lemma update_anomaly_map: "update_anomaly i f (map g xs @ ys) = map (\<lambda>x. if aw_id (g x) = i then f (g x) else g x) xs @ update_anomaly i f ys"
  by (simp add: update_anomaly_def)

lemma update_anomaly_others: "i \<notin> aw_id ` set ys \<Longrightarrow> update_anomaly i f ys = ys"
  by (auto simp: update_anomaly_def intro!: map_idI)

lemma seen_again_keeps [simp]:
  "aw_id (seen_again now a b r) = aw_id r" "aw_dedupe_key (seen_again now a b r) = aw_dedupe_key r"
  "aw_target_date (seen_again now a b r) = aw_target_date r"
  by (simp_all add: seen_again_def Let_def)

lemma seen_again_status: "aw_status r \<in> {''ACTIVE'', ''RESOLVED''} \<Longrightarrow> aw_status (seen_again now a b r) = ''ACTIVE''"
  by (auto simp: seen_again_def Let_def)

lemma new_row_simps [simp]:
  "aw_id (new_row i now key a) = i" "aw_dedupe_key (new_row i now key a) = key" "aw_type (new_row i now key a) = type_text (an_type a)"
  "aw_dataset (new_row i now key a) = an_dataset a" "aw_scope (new_row i now key a) = an_scope a"
  "aw_target_date (new_row i now key a) = an_date a" "aw_status (new_row i now key a) = ''ACTIVE''"
  "aw_last_notified (new_row i now key a) = Some now" "aw_severity (new_row i now key a) = severity_text (an_severity a)"
  by (simp_all add: new_row_def)

lemma notice_simps [simp]:
  "nf_event_id (notice i now key n a) = i" "nf_dedupe_key (notice i now key n a) = key" "\<not> nf_is_resolution (notice i now key n a)"
  by (simp_all add: notice_def)

text \<open>The row of a detected anomaly among the rows of the date.\<close>

definition row_of :: "anomaly_row list \<Rightarrow> date \<Rightarrow> string \<Rightarrow> anomaly_row option" where
  "row_of rows target key = find (\<lambda>r. aw_dedupe_key r = key) (rev (filter (\<lambda>r. aw_target_date r = target) rows))"

lemma row_of_Some: "row_of rows target key = Some r \<Longrightarrow> r \<in> set rows \<and> aw_target_date r = target \<and> aw_dedupe_key r = key"
  unfolding row_of_def by (drule find_mem) auto

lemma row_of_None: "row_of rows target key = None \<longleftrightarrow> (\<forall>r \<in> set rows. aw_target_date r = target \<longrightarrow> aw_dedupe_key r \<noteq> key)"
  unfolding row_of_def by (auto simp: find_None_iff)

lemma distinct_map_inj: "distinct (map f xs) \<Longrightarrow> x \<in> set xs \<Longrightarrow> y \<in> set xs \<Longrightarrow> f x = f y \<Longrightarrow> x = y"
  by (auto simp: distinct_map dest: inj_onD)

section \<open>The first loop\<close>

text \<open>A row after the anomalies \<open>ds\<close> have been processed.\<close>

definition detected_row :: "int \<Rightarrow> instant \<Rightarrow> date \<Rightarrow> (string \<times> anomaly) list \<Rightarrow> anomaly_row \<Rightarrow> anomaly_row" where
  "detected_row cooldown now target ds r =
     (if aw_target_date r \<noteq> target then r
      else case map_of ds (aw_dedupe_key r) of None \<Rightarrow> r
        | Some a \<Rightarrow> seen_again now a (notify_again cooldown now r a) r)"

lemma detected_row_keeps [simp]:
  "aw_id (detected_row cooldown now target ds r) = aw_id r"
  "aw_dedupe_key (detected_row cooldown now target ds r) = aw_dedupe_key r"
  "aw_target_date (detected_row cooldown now target ds r) = aw_target_date r"
  by (auto simp: detected_row_def split: option.split)

definition told :: "int \<Rightarrow> instant \<Rightarrow> anomaly_row list \<Rightarrow> date \<Rightarrow> string \<times> anomaly \<Rightarrow> bool" where
  "told cooldown now rows target = (\<lambda>(key, a).
     case row_of rows target key of None \<Rightarrow> True | Some r \<Rightarrow> notify_again cooldown now r a)"

definition unknown :: "anomaly_row list \<Rightarrow> date \<Rightarrow> string \<times> anomaly \<Rightarrow> bool" where
  "unknown rows target d \<longleftrightarrow> row_of rows target (fst d) = None"

definition start_run :: "anomaly_row list \<Rightarrow> monitor_run" where
  "start_run rows = \<lparr>ru_rows = rows, ru_notes = [], ru_new = 0, ru_suppressed = 0, ru_resolved = 0, ru_fresh = 0\<rparr>"

lemma detect_loop:
  fixes rows :: "anomaly_row list" and target :: date
  assumes rows: "distinct (map aw_id rows)" "distinct (map aw_dedupe_key rows)"
    and fresh: "\<forall>k. fresh k \<notin> aw_id ` set rows"
    and ds: "distinct (map fst ds)" "\<forall>(key, a) \<in> set ds. an_date a = target"
  shows "let ru = foldl (detect_step cooldown now fresh (filter (\<lambda>r. aw_target_date r = target) rows)) (start_run rows) ds in
    \<exists>ns. ru_rows ru = map (detected_row cooldown now target ds) rows @ ns \<and>
      map aw_dedupe_key ns = map fst (filter (unknown rows target) ds) \<and>
      (\<forall>n \<in> set ns. \<exists>k d. d \<in> set ds \<and> n = new_row (fresh k) now (fst d) (snd d)) \<and>
      map nf_dedupe_key (ru_notes ru) = map fst (filter (told cooldown now rows target) ds) \<and>
      (\<forall>n \<in> set (ru_notes ru). \<not> nf_is_resolution n) \<and>
      ru_new ru = length ns \<and> length (ru_notes ru) + ru_suppressed ru = length ds \<and> ru_resolved ru = 0"
  using ds
proof (induction ds rule: rev_induct)
  case Nil
  have "detected_row cooldown now target [] = (\<lambda>r. r)" by (auto simp: detected_row_def)
  then show ?case by (simp add: start_run_def)
next
  case (snoc d ds)
  obtain key a where d: "d = (key, a)" by (cases d)
  let ?existing = "filter (\<lambda>r. aw_target_date r = target) rows"
  define ru where "ru = foldl (detect_step cooldown now fresh ?existing) (start_run rows) ds"
  have new_key: "key \<notin> fst ` set ds" using snoc.prems by (auto simp: d)
  from snoc obtain ns where IH:
    "ru_rows ru = map (detected_row cooldown now target ds) rows @ ns"
    "map aw_dedupe_key ns = map fst (filter (unknown rows target) ds)"
    "\<forall>n \<in> set ns. \<exists>k d. d \<in> set ds \<and> n = new_row (fresh k) now (fst d) (snd d)"
    "map nf_dedupe_key (ru_notes ru) = map fst (filter (told cooldown now rows target) ds)"
    "\<forall>n \<in> set (ru_notes ru). \<not> nf_is_resolution n"
    "ru_new ru = length ns" "length (ru_notes ru) + ru_suppressed ru = length ds" "ru_resolved ru = 0"
    unfolding ru_def by (auto simp: Let_def)
  have step: "foldl (detect_step cooldown now fresh ?existing) (start_run rows) (ds @ [d]) =
      detect_step cooldown now fresh ?existing ru (key, a)" by (simp add: d ru_def)
  have none: "map_of ds key = None" using new_key by (simp add: map_of_eq_None_iff)
  have map_of_snoc: "map_of (ds @ [d]) k = (if k = key then Some a else map_of ds k)" for k
    using none by (auto simp: d map_add_def split: option.split)
  show ?case
  proof (cases "row_of rows target key")
    case None
    let ?n = "new_row (fresh (ru_fresh ru)) now key a"
    have same: "map (detected_row cooldown now target (ds @ [d])) rows = map (detected_row cooldown now target ds) rows"
      using None unfolding row_of_None by (auto simp: detected_row_def map_of_snoc simp del: map_of_append)
    have known: "unknown rows target d" "told cooldown now rows target d" using None by (simp_all add: unknown_def told_def d)
    have result: "detect_step cooldown now fresh ?existing ru (key, a) =
        ru\<lparr>ru_rows := ru_rows ru @ [?n], ru_notes := ru_notes ru @ [notice (fresh (ru_fresh ru + 1)) now key 1 a],
           ru_new := ru_new ru + 1, ru_fresh := ru_fresh ru + 2\<rparr>"
      using None by (simp add: detect_step_def row_of_def)
    have "\<exists>k e. e \<in> set (ds @ [d]) \<and> n = new_row (fresh k) now (fst e) (snd e)" if "n \<in> set (ns @ [?n])" for n
    proof (cases "n \<in> set ns")
      case True
      with IH(3) obtain k e where "e \<in> set ds" "n = new_row (fresh k) now (fst e) (snd e)" by blast
      then show ?thesis by (intro exI [of _ k] exI [of _ e]) simp
    next
      case False
      with that show ?thesis by (intro exI [of _ "ru_fresh ru"] exI [of _ d]) (simp add: d)
    qed
    then have origin: "\<forall>n \<in> set (ns @ [?n]). \<exists>k e. e \<in> set (ds @ [d]) \<and> n = new_row (fresh k) now (fst e) (snd e)" by blast
    show ?thesis
      unfolding Let_def step result
      by (intro exI [of _ "ns @ [?n]"] conjI; (rule origin | use IH(5) in \<open>simp add: same known IH(1,2,4,6-)\<close>; use d in simp))
  next
    case (Some r)
    from row_of_Some [OF this] have r: "r \<in> set rows" "aw_target_date r = target" "aw_dedupe_key r = key" by auto
    let ?b = "notify_again cooldown now r a"
    have ns: "aw_id r \<notin> aw_id ` set ns"
    proof
      assume "aw_id r \<in> aw_id ` set ns"
      then obtain n k where "n \<in> set ns" "aw_id n = aw_id r" "aw_id n = fresh k" using IH(3) new_row_simps(1) by (metis imageE)
      with fresh r(1) show False by (metis imageI)
    qed
    have point: "(if aw_id (detected_row cooldown now target ds x) = aw_id r
        then seen_again now a ?b (detected_row cooldown now target ds x) else detected_row cooldown now target ds x) =
      detected_row cooldown now target (ds @ [d]) x" if "x \<in> set rows" for x
    proof (cases "x = r")
      case True
      have "map_of ds key = None" using new_key by (simp add: map_of_eq_None_iff)
      then show ?thesis using r by (simp add: True detected_row_def map_of_snoc del: map_of_append)
    next
      case False
      then have "aw_id x \<noteq> aw_id r" "aw_dedupe_key x \<noteq> key"
        using distinct_map_inj [OF rows(1) that r(1)] distinct_map_inj [OF rows(2) that r(1)] r(3) by auto
      moreover from this have "detected_row cooldown now target (ds @ [d]) x = detected_row cooldown now target ds x"
        by (simp add: detected_row_def map_of_snoc del: map_of_append)
      ultimately show ?thesis by simp
    qed
    have upd: "update_anomaly (aw_id r) (seen_again now a ?b) (ru_rows ru) = map (detected_row cooldown now target (ds @ [d])) rows @ ns"
      unfolding IH(1) update_anomaly_map update_anomaly_others [OF ns] using point by simp
    have known: "\<not> unknown rows target d" "told cooldown now rows target d = ?b" using Some by (simp_all add: unknown_def told_def d)
    have result: "detect_step cooldown now fresh ?existing ru (key, a) =
        (let s = ru\<lparr>ru_rows := map (detected_row cooldown now target (ds @ [d])) rows @ ns\<rparr>
         in if ?b then s\<lparr>ru_notes := ru_notes ru @ [notice (fresh (ru_fresh ru)) now key (aw_occurrences r + 1) a],
                         ru_fresh := ru_fresh ru + 1\<rparr>
            else s\<lparr>ru_suppressed := ru_suppressed ru + 1\<rparr>)"
      using Some upd by (cases ?b) (simp_all add: detect_step_def row_of_def Let_def)
    have origin: "\<forall>n \<in> set ns. \<exists>k e. e \<in> set (ds @ [d]) \<and> n = new_row (fresh k) now (fst e) (snd e)"
    proof
      fix n assume "n \<in> set ns"
      with IH(3) obtain k e where "e \<in> set ds" "n = new_row (fresh k) now (fst e) (snd e)" by blast
      then show "\<exists>k e. e \<in> set (ds @ [d]) \<and> n = new_row (fresh k) now (fst e) (snd e)"
        by (intro exI [of _ k] exI [of _ e]) simp
    qed
    show ?thesis
      unfolding Let_def step result
      by (intro exI [of _ ns] conjI; (rule origin | cases ?b; use IH(5) in \<open>simp add: known [unfolded d] IH(1,2,4,6-) d\<close>))
  qed
qed

section \<open>The second loop\<close>

definition stale_row :: "string set \<Rightarrow> anomaly_row \<Rightarrow> bool" where
  "stale_row detected r \<longleftrightarrow> aw_status r = ''ACTIVE'' \<and> aw_dedupe_key r \<notin> detected"

definition resolved :: "instant \<Rightarrow> anomaly_row \<Rightarrow> anomaly_row" where
  "resolved now r = r\<lparr>aw_status := ''RESOLVED'', aw_resolved_at := Some now\<rparr>"

lemma resolved_keeps [simp]:
  "aw_id (resolved now r) = aw_id r" "aw_dedupe_key (resolved now r) = aw_dedupe_key r"
  "aw_target_date (resolved now r) = aw_target_date r" "aw_status (resolved now r) = ''RESOLVED''"
  "aw_type (resolved now r) = aw_type r" "aw_dataset (resolved now r) = aw_dataset r" "aw_scope (resolved now r) = aw_scope r"
  by (simp_all add: resolved_def)

lemma resolve_loop:
  fixes rows :: "anomaly_row list"
  assumes rows: "distinct (map aw_id rows)" and g: "\<And>r. aw_id (g r) = aw_id r"
    and ns: "aw_id ` set ns \<inter> aw_id ` set rows = {}" and start: "ru_rows ru = map g rows @ ns"
    and es: "set es \<subseteq> set rows" "distinct es"
  shows "let s = foldl (resolve_step now fresh detected) ru es in
    ru_rows s = map (\<lambda>r. if r \<in> set es \<and> stale_row detected r then resolved now (g r) else g r) rows @ ns \<and>
    ru_new s = ru_new ru \<and> ru_suppressed s = ru_suppressed ru \<and>
    (\<exists>rs. ru_notes s = ru_notes ru @ rs \<and> map nf_dedupe_key rs = map aw_dedupe_key (filter (stale_row detected) es) \<and>
       (\<forall>n \<in> set rs. nf_is_resolution n \<and> nf_severity n = INFO) \<and> ru_resolved s = ru_resolved ru + length rs)"
  using es
proof (induction es rule: rev_induct)
  case Nil
  then show ?case using start by simp
next
  case (snoc r es)
  define s where "s = foldl (resolve_step now fresh detected) ru es"
  from snoc obtain rs where IH:
    "ru_rows s = map (\<lambda>r. if r \<in> set es \<and> stale_row detected r then resolved now (g r) else g r) rows @ ns"
    "ru_new s = ru_new ru" "ru_suppressed s = ru_suppressed ru"
    "ru_notes s = ru_notes ru @ rs" "map nf_dedupe_key rs = map aw_dedupe_key (filter (stale_row detected) es)"
    "\<forall>n \<in> set rs. nf_is_resolution n \<and> nf_severity n = INFO" "ru_resolved s = ru_resolved ru + length rs"
    unfolding s_def by (auto simp: Let_def)
  have r: "r \<in> set rows" "r \<notin> set es" using snoc.prems by auto
  have step: "foldl (resolve_step now fresh detected) ru (es @ [r]) = resolve_step now fresh detected s r" by (simp add: s_def)
  show ?case
  proof (cases "stale_row detected r")
    case False
    have "resolve_step now fresh detected s r = s" using False by (auto simp: resolve_step_def stale_row_def)
    moreover have "(\<lambda>x. if x \<in> set (es @ [r]) \<and> stale_row detected x then resolved now (g x) else g x) =
      (\<lambda>x. if x \<in> set es \<and> stale_row detected x then resolved now (g x) else g x)" using False by auto
    ultimately show ?thesis unfolding Let_def step using IH False by auto
  next
    case True
    let ?h = "\<lambda>x. if x \<in> set es \<and> stale_row detected x then resolved now (g x) else g x"
    have "aw_id r \<notin> aw_id ` set ns" using ns r(1) by blast
    then have "update_anomaly (aw_id r) (resolved now) (ru_rows s) =
        map (\<lambda>x. if aw_id (?h x) = aw_id r then resolved now (?h x) else ?h x) rows @ ns"
      unfolding IH(1) update_anomaly_map by (simp add: update_anomaly_others)
    also have "map (\<lambda>x. if aw_id (?h x) = aw_id r then resolved now (?h x) else ?h x) rows =
        map (\<lambda>x. if x \<in> set (es @ [r]) \<and> stale_row detected x then resolved now (g x) else g x) rows"
    proof (rule map_cong [OF refl])
      fix x assume x: "x \<in> set rows"
      show "(if aw_id (?h x) = aw_id r then resolved now (?h x) else ?h x) =
        (if x \<in> set (es @ [r]) \<and> stale_row detected x then resolved now (g x) else g x)"
        using distinct_map_inj [OF rows x r(1)] r(2) True by (auto simp: g)
    qed
    finally have upd: "update_anomaly (aw_id r) (resolved now) (ru_rows s) =
      map (\<lambda>x. if x \<in> set (es @ [r]) \<and> stale_row detected x then resolved now (g x) else g x) rows @ ns" .
    have "resolve_step now fresh detected s r =
      s\<lparr>ru_rows := update_anomaly (aw_id r) (resolved now) (ru_rows s),
        ru_notes := ru_notes s @
          [\<lparr>nf_event_id = fresh (ru_fresh s), nf_type = aw_type r, nf_severity = INFO, nf_dedupe_key = aw_dedupe_key r,
            nf_target_date = aw_target_date r, nf_dataset = aw_dataset r, nf_created_at = now,
            nf_occurrences = aw_occurrences r, nf_is_resolution = True,
            nf_details = [(''resolved_from_dedupe_key'', JStr (aw_dedupe_key r))]\<rparr>],
        ru_resolved := ru_resolved s + 1, ru_fresh := ru_fresh s + 1\<rparr>"
      using True unfolding stale_row_def by (simp add: resolve_step_def resolved_def [abs_def])
    then show ?thesis unfolding Let_def step upd using IH True by auto
  qed
qed

section \<open>The identifiers\<close>

text \<open>Every identifier of a new row or notification is one of the \<open>uuid4\<close> taken so far.\<close>

definition ids_ok :: "(nat \<Rightarrow> uuid) \<Rightarrow> anomaly_row list \<Rightarrow> monitor_run \<Rightarrow> bool" where
  "ids_ok fresh rows ru \<longleftrightarrow>
     distinct (map aw_id (ru_rows ru)) \<and> set (map aw_id (ru_rows ru)) \<subseteq> set (map aw_id rows) \<union> fresh ` {..<ru_fresh ru} \<and>
     distinct (map nf_event_id (ru_notes ru)) \<and> set (map nf_event_id (ru_notes ru)) \<subseteq> fresh ` {..<ru_fresh ru}"

lemma update_ids [simp]: "(\<And>r. aw_id (f r) = aw_id r) \<Longrightarrow> map aw_id (update_anomaly i f rows) = map aw_id rows"
  by (simp add: update_anomaly_def)

lemma ids_grow:
  assumes "ids_ok fresh rows ru" and "inj fresh" and "\<forall>k. fresh k \<notin> aw_id ` set rows"
    and "map aw_id (ru_rows s) = map aw_id (ru_rows ru) \<or> map aw_id (ru_rows s) = map aw_id (ru_rows ru) @ [fresh (ru_fresh ru)] \<and> d = 1"
    and "map nf_event_id (ru_notes s) = map nf_event_id (ru_notes ru) @ [fresh (ru_fresh ru + d)]"
    and "ru_fresh s = ru_fresh ru + d + 1"
  shows "ids_ok fresh rows s"
proof -
  have new: "fresh (ru_fresh ru + k) \<notin> fresh ` {..<ru_fresh ru}" for k
    using assms(2) by (auto dest: injD)
  have sub: "fresh ` {..<ru_fresh ru} \<subseteq> fresh ` {..<ru_fresh s}" and mem: "fresh (ru_fresh ru + d) \<in> fresh ` {..<ru_fresh s}"
    "fresh (ru_fresh ru) \<in> fresh ` {..<ru_fresh s}"
    using assms(6) by auto
  have old: "distinct (map aw_id (ru_rows ru))" "set (map aw_id (ru_rows ru)) \<subseteq> set (map aw_id rows) \<union> fresh ` {..<ru_fresh ru}"
    "distinct (map nf_event_id (ru_notes ru))" "set (map nf_event_id (ru_notes ru)) \<subseteq> fresh ` {..<ru_fresh ru}"
    using assms(1) by (simp_all add: ids_ok_def)
  have "fresh (ru_fresh ru) \<notin> set (map aw_id rows)" using assms(3) by simp
  then have row_new: "fresh (ru_fresh ru) \<notin> set (map aw_id (ru_rows ru))" using old(2) new [of 0] by auto
  have note_new: "fresh (ru_fresh ru + d) \<notin> set (map nf_event_id (ru_notes ru))" using old(4) new [of d] by blast
  have "distinct (map aw_id (ru_rows s)) \<and> set (map aw_id (ru_rows s)) \<subseteq> set (map aw_id rows) \<union> fresh ` {..<ru_fresh s}"
    using assms(4)
  proof
    assume "map aw_id (ru_rows s) = map aw_id (ru_rows ru)"
    then show ?thesis using old(1,2) sub by (simp only:) blast
  next
    assume "map aw_id (ru_rows s) = map aw_id (ru_rows ru) @ [fresh (ru_fresh ru)] \<and> d = 1"
    then have eq: "map aw_id (ru_rows s) = map aw_id (ru_rows ru) @ [fresh (ru_fresh ru)]" by simp
    show ?thesis unfolding eq distinct_append set_append using old(1,2) sub mem(2) row_new by auto
  qed
  moreover have "distinct (map nf_event_id (ru_notes s)) \<and> set (map nf_event_id (ru_notes s)) \<subseteq> fresh ` {..<ru_fresh s}"
    unfolding assms(5) distinct_append set_append using old(3,4) sub mem(1) note_new by auto
  ultimately show ?thesis by (simp add: ids_ok_def)
qed

lemma detect_step_ids:
  assumes "ids_ok fresh rows ru" and "inj fresh" and "\<forall>k. fresh k \<notin> aw_id ` set rows"
  shows "ids_ok fresh rows (detect_step cooldown now fresh existing ru d)"
proof -
  obtain key a where d: "d = (key, a)" by (cases d)
  show ?thesis
  proof (cases "find (\<lambda>r. aw_dedupe_key r = key) (rev existing)")
    case None
    show ?thesis
      by (rule ids_grow [OF assms, where d = 1]) (simp_all add: d detect_step_def None new_row_def notice_def)
  next
    case (Some r)
    show ?thesis
    proof (cases "notify_again cooldown now r a")
      case True
      show ?thesis
        by (rule ids_grow [OF assms, where d = 0]) (simp_all add: d detect_step_def Some True notice_def Let_def)
    next
      case False
      then show ?thesis using assms(1) by (simp add: d detect_step_def Some ids_ok_def Let_def del: set_map)
    qed
  qed
qed

lemma resolve_step_ids:
  assumes "ids_ok fresh rows ru" and "inj fresh" and "\<forall>k. fresh k \<notin> aw_id ` set rows"
  shows "ids_ok fresh rows (resolve_step now fresh detected ru r)"
proof (cases "stale_row detected r")
  case True
  show ?thesis
    by (rule ids_grow [OF assms, where d = 0]) (use True in \<open>simp_all add: resolve_step_def stale_row_def\<close>)
next
  case False
  then show ?thesis using assms(1) by (auto simp: resolve_step_def stale_row_def)
qed

lemma foldl_keeps: "P s \<Longrightarrow> (\<And>s x. P s \<Longrightarrow> P (f s x)) \<Longrightarrow> P (foldl f s xs)"
  by (induction xs arbitrary: s) auto

lemma process_ids:
  assumes "distinct (map aw_id rows)" and "inj fresh" and "\<forall>k. fresh k \<notin> aw_id ` set rows"
  shows "ids_ok fresh rows (process_anomalies cooldown now fresh target as rows)"
  unfolding process_anomalies_def Let_def
  by (intro foldl_keeps [where P = "ids_ok fresh rows"] resolve_step_ids detect_step_ids assms(2,3))
    (simp_all add: ids_ok_def assms(1))

section \<open>Both loops\<close>

lemma by_key_facts:
  "distinct (map fst (by_key as)) \<and> fst ` set (by_key as) = dedupe_key ` set as \<and>
   (\<forall>(k, a) \<in> set (by_key as). a \<in> set as \<and> dedupe_key a = k)"
proof (induction as rule: rev_induct)
  case Nil
  then show ?case by (simp add: by_key_def)
next
  case (snoc a as)
  have step: "by_key (as @ [a]) = AList.update (dedupe_key a) a (by_key as)" by (simp add: by_key_def)
  have keys: "distinct (map fst (AList.update (dedupe_key a) a (by_key as)))" using snoc by (simp add: distinct_update)
  have origin: "(k = dedupe_key a \<and> b = a) \<or> (b \<in> set as \<and> dedupe_key b = k)"
    if "(k, b) \<in> set (AList.update (dedupe_key a) a (by_key as))" for k b
  proof -
    have "map_of (AList.update (dedupe_key a) a (by_key as)) k = Some b" by (rule map_of_is_SomeI [OF keys that])
    then have "(k = dedupe_key a \<and> b = a) \<or> map_of (by_key as) k = Some b"
      by (cases "k = dedupe_key a") (simp_all add: update_conv)
    then show ?thesis using snoc map_of_SomeD [of "by_key as" k b] by blast
  qed
  have "fst ` set (AList.update (dedupe_key a) a (by_key as)) = dedupe_key ` set (as @ [a])"
    using snoc by (simp add: dom_update)
  moreover have "\<forall>(k, b) \<in> set (AList.update (dedupe_key a) a (by_key as)). b \<in> set (as @ [a]) \<and> dedupe_key b = k"
    using origin by fastforce
  ultimately show ?case unfolding step using keys by blast
qed

lemma by_key_keys: "fst ` set (by_key as) = dedupe_key ` set as"
  using by_key_facts [of as] by (elim conjE)

lemma by_key_mem:
  assumes "d \<in> set (by_key as)"
  shows "snd d \<in> set as" and "dedupe_key (snd d) = fst d"
  using by_key_facts [of as] assms by (auto simp: case_prod_beta)

lemma by_key_map_of: "(k, a) \<in> set (by_key as) \<Longrightarrow> map_of (by_key as) k = Some a"
  using by_key_facts [of as] by (intro map_of_is_SomeI) auto

definition after_row :: "int \<Rightarrow> instant \<Rightarrow> date \<Rightarrow> anomaly list \<Rightarrow> anomaly_row \<Rightarrow> anomaly_row" where
  "after_row cooldown now target as r =
     (if aw_target_date r = target \<and> stale_row (dedupe_key ` set as) r then resolved now r
      else detected_row cooldown now target (by_key as) r)"

lemma after_row_keeps [simp]:
  "aw_id (after_row cooldown now target as r) = aw_id r"
  "aw_dedupe_key (after_row cooldown now target as r) = aw_dedupe_key r"
  "aw_target_date (after_row cooldown now target as r) = aw_target_date r"
  by (simp_all add: after_row_def)

lemma process_effect:
  fixes rows :: "anomaly_row list" and target :: date
  assumes rows: "distinct (map aw_id rows)" "distinct (map aw_dedupe_key rows)"
    and fresh: "\<forall>k. fresh k \<notin> aw_id ` set rows"
    and as: "\<forall>a \<in> set as. an_date a = target"
  obtains ns alarms repairs where
    "ru_rows (process_anomalies cooldown now fresh target as rows) = map (after_row cooldown now target as) rows @ ns"
    "map aw_dedupe_key ns = map fst (filter (unknown rows target) (by_key as))"
    "\<forall>n \<in> set ns. \<exists>k d. d \<in> set (by_key as) \<and> n = new_row (fresh k) now (fst d) (snd d)"
    "ru_notes (process_anomalies cooldown now fresh target as rows) = alarms @ repairs"
    "map nf_dedupe_key alarms = map fst (filter (told cooldown now rows target) (by_key as))"
    "\<forall>n \<in> set alarms. \<not> nf_is_resolution n"
    "map nf_dedupe_key repairs =
       map aw_dedupe_key (filter (\<lambda>r. aw_target_date r = target \<and> stale_row (dedupe_key ` set as) r) rows)"
    "\<forall>n \<in> set repairs. nf_is_resolution n \<and> nf_severity n = INFO"
    "length alarms + ru_suppressed (process_anomalies cooldown now fresh target as rows) = length (by_key as)"
    "ru_resolved (process_anomalies cooldown now fresh target as rows) = length repairs"
proof -
  let ?existing = "filter (\<lambda>r. aw_target_date r = target) rows" and ?g = "detected_row cooldown now target (by_key as)"
  define ru where "ru = foldl (detect_step cooldown now fresh ?existing) (start_run rows) (by_key as)"
  have keys: "distinct (map fst (by_key as))" "fst ` set (by_key as) = dedupe_key ` set as" using by_key_facts by auto
  have "\<forall>(key, a) \<in> set (by_key as). an_date a = target" using by_key_facts [of as] as by auto
  from detect_loop [OF rows fresh keys(1) this, of cooldown now]
  obtain ns where D: "ru_rows ru = map ?g rows @ ns"
    "map aw_dedupe_key ns = map fst (filter (unknown rows target) (by_key as))"
    "\<forall>n \<in> set ns. \<exists>k d. d \<in> set (by_key as) \<and> n = new_row (fresh k) now (fst d) (snd d)"
    "map nf_dedupe_key (ru_notes ru) = map fst (filter (told cooldown now rows target) (by_key as))"
    "\<forall>n \<in> set (ru_notes ru). \<not> nf_is_resolution n"
    "length (ru_notes ru) + ru_suppressed ru = length (by_key as)" "ru_resolved ru = 0"
    unfolding Let_def ru_def by blast
  have apart: "aw_id ` set ns \<inter> aw_id ` set rows = {}" using D(3) fresh by fastforce
  define s where "s = foldl (resolve_step now fresh (dedupe_key ` set as)) ru ?existing"
  have s: "process_anomalies cooldown now fresh target as rows = s"
    by (simp add: process_anomalies_def s_def ru_def keys(2) start_run_def Let_def)
  have existing: "set ?existing \<subseteq> set rows" "distinct ?existing" using rows(1) by (auto simp: distinct_map)
  from resolve_loop [OF rows(1) _ apart D(1) existing, of now fresh "dedupe_key ` set as"]
  obtain rs where R: "ru_rows s = map (\<lambda>r. if r \<in> set ?existing \<and> stale_row (dedupe_key ` set as) r then resolved now (?g r) else ?g r) rows @ ns"
    "ru_suppressed s = ru_suppressed ru" "ru_notes s = ru_notes ru @ rs"
    "map nf_dedupe_key rs = map aw_dedupe_key (filter (stale_row (dedupe_key ` set as)) ?existing)"
    "\<forall>n \<in> set rs. nf_is_resolution n \<and> nf_severity n = INFO" "ru_resolved s = length rs"
    unfolding Let_def s_def [symmetric] using D(7) by auto
  have unseen: "?g r = r" if "stale_row (dedupe_key ` set as) r" for r
  proof -
    have "map_of (by_key as) (aw_dedupe_key r) = None" using that keys(2) by (auto simp: stale_row_def map_of_eq_None_iff)
    then show ?thesis by (simp add: detected_row_def)
  qed
  show ?thesis
  proof (rule that [of ns "ru_notes ru" rs], unfold s)
    show "ru_rows s = map (after_row cooldown now target as) rows @ ns"
      unfolding R(1) by (auto simp: after_row_def unseen)
    show "map nf_dedupe_key rs = map aw_dedupe_key (filter (\<lambda>r. aw_target_date r = target \<and> stale_row (dedupe_key ` set as) r) rows)"
      unfolding R(4) by (simp add: conj_commute)
    show "length (ru_notes ru) + ru_suppressed s = length (by_key as)" using D(6) R(2) by simp
  qed (use D R in auto)
qed

end
