(* ===== verification/AuditResults.thy ===== *)
theory AuditResults
  imports DataAudit
begin

text \<open>
  What the audit of \<open>DataAudit\<close> says about the tables: as long as the unique constraints of the database
  hold no duplicate is ever found, the comparisons of floats decide as the integers do, and so a trading
  day is complete exactly when every dataset has the rows it needs.
\<close>

section \<open>Joins over keys\<close>

lemma at_most_one: "distinct (map f xs) \<Longrightarrow> length (filter (\<lambda>x. f x = y) xs) \<le> 1"
proof (induction xs)
  case (Cons x xs)
  have "filter (\<lambda>x. f x = y) xs = []" if "f x = y"
    using Cons.prems that unfolding filter_empty_conv by (metis distinct.simps(2) image_eqI list.map(2) set_map)
  with Cons show ?case by auto
qed simp

lemma duplicate_groups_distinct: "distinct keys \<Longrightarrow> duplicate_groups keys = 0"
proof -
  assume d: "distinct keys"
  have "count_list keys k \<le> 1" for k
    using at_most_one [of "\<lambda>x. x" keys k] d unfolding count_list_eq_length_filter eq_commute [of k] by simp
  then show ?thesis by (simp add: duplicate_groups_def filter_empty_conv not_less)
qed

lemma join_single:
  assumes "\<forall>x \<in> set xs. length (g x) \<le> 1"
  shows "map (key \<circ> fst) (concat (map (\<lambda>x. map (Pair x) (g x)) xs)) = map key (filter (\<lambda>x. g x \<noteq> []) xs)"
    and "length (concat (map (\<lambda>x. map (Pair x) (g x)) xs)) \<le> length xs"
proof -
  have "map (key \<circ> fst) (map (Pair x) (g x)) = (if g x \<noteq> [] then [key x] else [])" if "length (g x) \<le> 1" for x
    using that by (cases "g x") auto
  with assms show "map (key \<circ> fst) (concat (map (\<lambda>x. map (Pair x) (g x)) xs)) = map key (filter (\<lambda>x. g x \<noteq> []) xs)"
    by (induction xs) (simp_all del: map_map)
  show "length (concat (map (\<lambda>x. map (Pair x) (g x)) xs)) \<le> length xs"
    using assms by (induction xs) auto
qed

lemma listed_single:
  assumes "audit_constraints db"
  shows "distinct (map (se_id \<circ> fst) (listed db))" and "length (listed db) \<le> length (ad_securities db)"
proof -
  let ?g = "\<lambda>s. map snd (filter (\<lambda>m. fst m = se_market_id s) (ad_markets db))"
  have l: "listed db = concat (map (\<lambda>s. map (Pair s) (?g s)) (ad_securities db))"
    by (simp add: listed_def comp_def)
  have one: "\<forall>s \<in> set (ad_securities db). length (?g s) \<le> 1"
    using assms at_most_one [of fst "ad_markets db"] by (simp add: audit_constraints_def)
  show "distinct (map (se_id \<circ> fst) (listed db))"
    unfolding l join_single(1) [OF one] using assms by (simp add: audit_constraints_def distinct_map_filter)
  show "length (listed db) \<le> length (ad_securities db)" unfolding l by (rule join_single(2) [OF one])
qed

lemma priced_distinct:
  assumes "audit_constraints db"
  shows "distinct (map ((\<lambda>p. (pe_security_id p, pe_trade_date p)) \<circ> fst) (priced db))"
proof -
  have one: "\<forall>p \<in> set (ad_prices db). length (filter (\<lambda>l. se_id (fst l) = pe_security_id p) (listed db)) \<le> 1"
    using at_most_one [OF listed_single(1) [OF assms]] by (simp add: comp_def)
  show ?thesis
    unfolding priced_def join_single(1) [OF one] using assms by (simp add: audit_constraints_def distinct_map_filter)
qed

lemma snapped_length:
  assumes "audit_constraints db"
  shows "length (snapped db) \<le> length (ad_technicals db)"
  unfolding snapped_def by (rule join_single(2))
    (use assms at_most_one [of se_id "ad_securities db"] in \<open>simp add: audit_constraints_def\<close>)

section \<open>No duplicates\<close>

lemma no_duplicates:
  assumes "audit_constraints db"
  shows "sm_duplicates (audit_security_master db) = 0" and "pa_duplicates (audit_daily_prices day_of db market d n) = 0"
    and "sp_duplicates (audit_market_spot db d) = 0" and "ta_duplicates (audit_technicals trading db d n) = 0"
    and "du_status (audit_duplicates db d) = COMPLETE"
proof -
  have sec: "duplicate_groups (security_keys db) = 0"
    using assms by (intro duplicate_groups_distinct) (simp add: security_keys_def audit_constraints_def)
  have price: "duplicate_groups (map (\<lambda>(p, s, code). (pe_security_id p, pe_trade_date p)) (filter f (priced db))) = 0" for f
    using priced_distinct [OF assms] by (intro duplicate_groups_distinct) (simp add: distinct_map_filter comp_def case_prod_unfold)
  have price2: "duplicate_groups (map (\<lambda>p. (pe_security_id p, pe_trade_date p)) (filter f (ad_prices db))) = 0" for f
    using assms by (intro duplicate_groups_distinct) (simp add: audit_constraints_def distinct_map_filter)
  have tech: "duplicate_groups (snapshot_keys db d) = 0"
    using assms by (intro duplicate_groups_distinct) (simp add: snapshot_keys_def audit_constraints_def distinct_map_filter)
  have spot: "duplicate_groups (rows_on d (ad_breadth db)) = 0"
    using assms by (intro duplicate_groups_distinct) (simp add: rows_on_def audit_constraints_def)
  have deriv: "duplicate_groups (filter f (ad_futures_daily db)) = 0" for f
    using assms by (intro duplicate_groups_distinct) (simp add: audit_constraints_def)
  show "sm_duplicates (audit_security_master db) = 0" by (simp add: audit_security_master_def Let_def sec)
  show "pa_duplicates (audit_daily_prices day_of db market d n) = 0" by (simp add: audit_daily_prices_def Let_def price)
  show "sp_duplicates (audit_market_spot db d) = 0" by (simp add: audit_market_spot_def Let_def spot)
  show "ta_duplicates (audit_technicals trading db d n) = 0" by (simp add: audit_technicals_def Let_def tech)
  show "du_status (audit_duplicates db d) = COMPLETE" by (simp add: audit_duplicates_def Let_def sec price2 tech spot deriv)
qed

section \<open>The status of a day\<close>

lemma pa_status_complete:
  assumes "audit_constraints db" and "n < 2 ^ 40"
  shows "pa_status (audit_daily_prices day_of db market d n) = COMPLETE \<longleftrightarrow>
    price_rows db market d \<noteq> [] \<and> 98 * n \<le> 100 * length (price_rows db market d)"
proof -
  have "completion_threshold \<le> (if 0 < n then float_ratio m n else 1) \<longleftrightarrow> 98 * n \<le> 100 * m" for m
    using hundredths_separated [of n 98 m] assms(2) hundredths_98(2) by (simp add: completion_threshold_def)
  moreover have "duplicate_groups (map (\<lambda>(p, s, code). (pe_security_id p, pe_trade_date p))
      (filter (\<lambda>(p, s, code). code = market \<and> pe_trade_date p = d) (priced db))) = 0"
    using no_duplicates(2) [OF assms(1), of day_of market d n] by (simp add: audit_daily_prices_def Let_def)
  ultimately show ?thesis by (simp add: audit_daily_prices_def Let_def)
qed

lemma stocks_bound: "audit_constraints db \<Longrightarrow> stocks_of db market \<le> length (ad_securities db)"
  using listed_single(2) [of db] length_filter_le [of "\<lambda>(s, code). active_stock s \<and> code = market" "listed db"]
  unfolding stocks_of_def by linarith

lemma raw_snapshots_bound: "audit_constraints db \<Longrightarrow> length (raw_snapshots db d) \<le> length (ad_technicals db)"
  using snapped_length [of db]
    length_filter_le [of "\<lambda>(t, s). active_stock s \<and> te_trade_date t = d \<and> te_price_basis t = ''RAW''" "snapped db"]
  unfolding raw_snapshots_def length_map by linarith

text \<open>The technical snapshots of a day suffice: MA240 wherever there is the history for it, and 98 percent of the stocks.\<close>

definition technicals_suffice :: "audit_db \<Rightarrow> date \<Rightarrow> bool" where
  "technicals_suffice db d \<longleftrightarrow>
     (let rows = raw_snapshots db d in
      rows \<noteq> [] \<and>
      length (filter (\<lambda>t. 240 \<le> price_history db d (te_security_id t)) rows) \<le> length (filter (\<lambda>t. te_ma240 t \<noteq> None) rows) \<and>
      98 * (stocks_of db ''TWSE'' + stocks_of db ''TPEX'') \<le> 100 * length rows)"

lemma ta_status_complete:
  assumes "audit_constraints db" and "n < 2 ^ 40" and "length (ad_technicals db) < 2 ^ 50"
    and "n = stocks_of db ''TWSE'' + stocks_of db ''TPEX''"
  shows "ta_status (audit_technicals trading db d n) = COMPLETE \<longleftrightarrow> technicals_suffice db d"
proof -
  have "length (raw_snapshots db d) < 2 ^ 53" using raw_snapshots_bound [OF assms(1), of d] assms(3) by simp
  then have "float_product n completion_threshold \<le> of_nat (length (raw_snapshots db d)) \<longleftrightarrow>
      98 * n \<le> 100 * length (raw_snapshots db d)"
    unfolding completion_threshold_def by (rule float_product_98 [OF assms(2)])
  moreover have "duplicate_groups (snapshot_keys db d) = 0"
    using no_duplicates(4) [OF assms(1), of trading d n] by (simp add: audit_technicals_def Let_def)
  ultimately show ?thesis
    unfolding audit_technicals_def technicals_suffice_def Let_def assms(4) [symmetric] by (auto simp: not_less)
qed

definition derivatives_present :: "audit_db \<Rightarrow> date \<Rightarrow> bool" where
  "derivatives_present db d \<longleftrightarrow>
     ad_products db \<noteq> [] \<and> ad_contracts db \<noteq> [] \<and> (\<exists>c s. (c, d, s) \<in> set (ad_futures_daily db)) \<and>
     d \<in> set (ad_positions db) \<and> d \<in> set (ad_concentrations db) \<and> d \<in> set (ad_put_calls db) \<and> d \<in> set (ad_strikes db)"

lemma counted_complete: "dv_status (counted s n) = COMPLETE \<longleftrightarrow> 0 < n" and counted_dataset: "dv_dataset (counted s n) = s"
  by (simp_all add: counted_def)

lemma count_list_pos: "0 < count_list xs d \<longleftrightarrow> d \<in> set xs"
  by (metis count_list_0_iff gr0I less_irrefl)

lemma derivatives_complete:
  "list_all (\<lambda>s. s = COMPLETE) (map dv_status (filter (\<lambda>d. dv_dataset d \<noteq> ''VOLATILITY_INDEX'') (audit_derivatives db d))) \<longleftrightarrow>
     derivatives_present db d"
proof -
  have "filter (\<lambda>(c, e, s). e = d) (ad_futures_daily db) \<noteq> [] \<longleftrightarrow> (\<exists>c s. (c, d, s) \<in> set (ad_futures_daily db))"
    by (auto simp: filter_empty_conv)
  then show ?thesis
    by (simp add: count_list_pos audit_derivatives_def derivatives_present_def counted_complete counted_dataset)
qed

lemma sp_status_complete:
  assumes "audit_constraints db"
  shows "sp_status (audit_market_spot db d) = COMPLETE \<longleftrightarrow>
    2 \<le> length (rows_on d (ad_breadth db)) \<and> 2 \<le> length (rows_on d (ad_margin db))"
proof -
  have "duplicate_groups (rows_on d (ad_breadth db)) = 0"
    using no_duplicates(3) [OF assms, of d] by (simp add: audit_market_spot_def Let_def)
  then show ?thesis by (auto simp: audit_market_spot_def Let_def)
qed

lemma ia_status_complete: "ia_status (audit_industry_strength db d) = COMPLETE \<longleftrightarrow> d \<in> set (ad_strength db)"
  by (simp add: audit_industry_strength_def Let_def flip: count_list_pos)

text \<open>
  While the unique constraints of the tables hold, the audit of a trading day reports it as complete
  exactly when both markets have prices for 98 of 100 active common stocks, breadth and margin trading
  have two rows each, the technical snapshots suffice, every derivatives dataset but the volatility index
  has rows, and the strength of the industries has been computed; the floats of the code decide as the
  integers would. A day without trading is always complete.
\<close>

theorem audit_complete_iff:
  assumes "audit_constraints db" and "length (ad_securities db) < 2 ^ 39" and "length (ad_technicals db) < 2 ^ 50"
  shows "ar_overall (audit_date trading day_of db d) = COMPLETE \<longleftrightarrow>
    (trading d \<longrightarrow>
      (\<forall>market \<in> {''TWSE'', ''TPEX''}. price_rows db market d \<noteq> [] \<and>
         98 * stocks_of db market \<le> 100 * length (price_rows db market d)) \<and>
      2 \<le> length (rows_on d (ad_breadth db)) \<and> 2 \<le> length (rows_on d (ad_margin db)) \<and>
      technicals_suffice db d \<and> d \<in> set (ad_strength db) \<and> derivatives_present db d)"
proof -
  let ?twse = "stocks_of db ''TWSE''" and ?tpex = "stocks_of db ''TPEX''"
  have small: "?twse < 2 ^ 40" "?tpex < 2 ^ 40" "?twse + ?tpex < 2 ^ 40"
    using stocks_bound [OF assms(1), of "''TWSE''"] stocks_bound [OF assms(1), of "''TPEX''"] assms(2) by simp_all
  have overall: "compute_overall_status TRADING_DAY a b sp ds ta ia du = COMPLETE \<longleftrightarrow>
      list_all (\<lambda>s. s = COMPLETE) ([pa_status a, pa_status b, sp_status sp, ta_status ta, ia_status ia] @
        map dv_status (filter (\<lambda>d. dv_dataset d \<noteq> ''VOLATILITY_INDEX'') ds))"
    if "du_status du = COMPLETE" for a b sp ds ta ia du
    using that by (auto simp: compute_overall_status_def Let_def list_ex_iff list_all_iff)
  have sec: "sm_twse (audit_security_master db) = ?twse" "sm_tpex (audit_security_master db) = ?tpex"
    "sm_active (audit_security_master db) = ?twse + ?tpex"
    by (simp_all add: audit_security_master_def Let_def)
  show ?thesis
  proof (cases "trading d")
    case True
    then show ?thesis
      unfolding audit_date_def Let_def audit_report.select_convs sec
      by (simp add: overall [OF no_duplicates(5) [OF assms(1)]] list_all_append
        pa_status_complete [OF assms(1) small(1)] pa_status_complete [OF assms(1) small(2)] sp_status_complete [OF assms(1)]
        ta_status_complete [OF assms(1) small(3) assms(3) refl] ia_status_complete derivatives_complete)
  next
    case False
    then show ?thesis
      using no_duplicates(5) [OF assms(1), of d] by (simp add: audit_date_def Let_def compute_overall_status_def)
  qed
qed

section \<open>Gaps\<close>

definition gap_days :: "date \<Rightarrow> date \<Rightarrow> date list" where
  "gap_days a b = filter (\<lambda>d. weekday d < 5) [a..b]"

lemma gap_days_step: "a \<le> b \<Longrightarrow> gap_days a b = (if weekday a < 5 then a # gap_days (a + 1) b else gap_days (a + 1) b)"
  by (simp add: gap_days_def upto_rec1)

lemma gap_days_none: "b < a \<Longrightarrow> gap_days a b = []"
  by (simp add: gap_days_def)

lemma gap_threshold:
  assumes "n < 2 ^ 40"
  shows "gap_ratio c n < hundredths 85 \<longleftrightarrow> 100 * c < 85 * n"
proof -
  have "hundredths 85 \<le> 1" by code_simp
  then show ?thesis using hundredths_separated [of n 85 c] assms by (auto simp: gap_ratio_def not_less [symmetric])
qed

lemma gap_loop_result:
  assumes "n < 2 ^ 40"
  shows "let r = gap_loop db m n a b x; days = gap_days a b; sessions = filter (\<lambda>d. 0 < session_count db m d) days in
    ga_weekdays r = ga_weekdays x + length days \<and> ga_sessions r = ga_sessions x + length sessions \<and>
    ga_holidays r = ga_holidays x + (length days - length sessions) \<and>
    ga_anomalous r + length (ga_anomalies x) = ga_anomalous x + length (ga_anomalies r) \<and>
    map gs_date (ga_anomalies r) = map gs_date (ga_anomalies x) @ filter (\<lambda>d. 100 * session_count db m d < 85 * n) sessions"
  using assms
proof (induction db m n a b x rule: gap_loop.induct)
  case (1 db m n a b x)
  show ?case
  proof (cases "a \<le> b")
    case True
    let ?day = "gap_day db m n a x"
    have shorter: "length (filter P xs) \<le> length xs" for P and xs :: "date list" by (rule length_filter_le)
    have IH: "let r = gap_loop db m n (a + 1) b ?day; days = gap_days (a + 1) b;
        sessions = filter (\<lambda>d. 0 < session_count db m d) days in
      ga_weekdays r = ga_weekdays ?day + length days \<and> ga_sessions r = ga_sessions ?day + length sessions \<and>
      ga_holidays r = ga_holidays ?day + (length days - length sessions) \<and>
      ga_anomalous r + length (ga_anomalies ?day) = ga_anomalous ?day + length (ga_anomalies r) \<and>
      map gs_date (ga_anomalies r) = map gs_date (ga_anomalies ?day) @ filter (\<lambda>d. 100 * session_count db m d < 85 * n) sessions"
      using 1 True by blast
    have day: "?day = (if 5 \<le> weekday a then x else let b = x\<lparr>ga_weekdays := ga_weekdays x + 1\<rparr> in
        if session_count db m a = 0 then b\<lparr>ga_holidays := ga_holidays x + 1\<rparr>
        else let c = b\<lparr>ga_sessions := ga_sessions x + 1\<rparr> in
          if 100 * session_count db m a < 85 * n
          then c\<lparr>ga_anomalous := ga_anomalous x + 1,
                 ga_anomalies := ga_anomalies x @
                   [\<lparr>gs_date = a, gs_market = market_label m, gs_expected = n, gs_actual = session_count db m a,
                     gs_coverage = round4 (gap_ratio (session_count db m a) n)\<rparr>]\<rparr>
          else c)"
      unfolding gap_day_def Let_def gap_threshold [OF 1(2)] by (rule refl)
    show ?thesis
      using IH unfolding gap_loop.simps [of db m n a b x] gap_days_step [OF True] day
      by (auto simp: True Let_def shorter Suc_diff_le)
  next
    case False
    then show ?thesis by (simp add: gap_loop.simps [of db m n a b x] gap_days_none)
  qed
qed

text \<open>
  The search for gaps accounts for every weekday of the range exactly once, as a session or as a
  holiday, and reports, in the order of the days, exactly the sessions with prices for fewer than 85 of
  100 expected stocks; it ends, and its status is complete when there are none.
\<close>

theorem gap_audit_accounts_for_weekdays:
  assumes "audit_constraints db" and "length (ad_securities db) < 2 ^ 39" and "market \<noteq> Some []"
  shows "let r = audit_historical_gap db a b market; days = filter (\<lambda>d. weekday d < 5) [a..b];
      n = gap_expected (audit_security_master db) market in
    ga_weekdays r = length days \<and> ga_sessions r + ga_holidays r = length days \<and>
    ga_sessions r = length (filter (\<lambda>d. 0 < session_count db market d) days) \<and>
    map gs_date (ga_anomalies r) =
      filter (\<lambda>d. 0 < session_count db market d \<and> 100 * session_count db market d < 85 * n) days \<and>
    ga_anomalous r = length (ga_anomalies r) \<and> (ga_status r = COMPLETE \<longleftrightarrow> ga_anomalies r = [])"
proof -
  define n where "n = gap_expected (audit_security_master db) market"
  have "n < 2 ^ 40"
    using stocks_bound [OF assms(1), of "''TWSE''"] stocks_bound [OF assms(1), of "''TPEX''"] assms(2)
    by (auto simp: n_def gap_expected_def audit_security_master_def Let_def)
  define start where "start = \<lparr>ga_market = market_label market, ga_weekdays = 0, ga_sessions = 0, ga_holidays = 0,
    ga_anomalous = 0, ga_anomalies = [], ga_status = COMPLETE\<rparr>"
  define r where "r = gap_loop db market n a b start"
  have whole: "audit_historical_gap db a b market = r\<lparr>ga_status := (if ga_anomalous r = 0 then COMPLETE else PARTIAL)\<rparr>"
    using assms(3) by (simp add: audit_historical_gap_def Let_def r_def start_def n_def)
  have shorter: "length (filter (\<lambda>d. 0 < session_count db market d) (filter (\<lambda>d. weekday d < 5) [a..b])) \<le>
      length (filter (\<lambda>d. weekday d < 5) [a..b])" by (rule length_filter_le)
  have swap: "filter (\<lambda>d. 100 * session_count db market d < 85 * n) (filter (\<lambda>d. 0 < session_count db market d) xs) =
      filter (\<lambda>d. 0 < session_count db market d \<and> 100 * session_count db market d < 85 * n) xs" for xs
    by (simp add: conj_commute)
  show ?thesis
    using gap_loop_result [OF \<open>n < 2 ^ 40\<close>, of db market a b start] shorter
    unfolding Let_def whole n_def [symmetric] r_def [symmetric] gap_days_def swap
    by (simp add: start_def)
qed

section \<open>Example\<close>

text \<open>Two markets with one stock each, and everything there on a Monday.\<close>

definition sample_db :: audit_db where
  "sample_db =
     \<lparr>ad_markets = [(1, ''TWSE''), (2, ''TPEX'')],
      ad_securities = [\<lparr>se_id = 3, se_market_id = 1, se_code = ''2330'', se_type = ''COMMON_STOCK'', se_active = True\<rparr>,
                       \<lparr>se_id = 4, se_market_id = 2, se_code = ''6488'', se_type = ''COMMON_STOCK'', se_active = True\<rparr>],
      ad_prices = [\<lparr>pe_security_id = 3, pe_trade_date = 8, pe_close = Some 900\<rparr>,
                   \<lparr>pe_security_id = 4, pe_trade_date = 8, pe_close = Some 400\<rparr>],
      ad_technicals = [\<lparr>te_security_id = 3, te_price_basis = ''RAW'', te_trade_date = 8, te_ma240 = None\<rparr>,
                       \<lparr>te_security_id = 4, te_price_basis = ''RAW'', te_trade_date = 8, te_ma240 = None\<rparr>],
      ad_runs = [], ad_breadth = [(''TWSE'', 8), (''TPEX'', 8)], ad_margin = [(''TWSE'', 8), (''TPEX'', 8)],
      ad_lending = [], ad_institutional = [], ad_products = [5], ad_contracts = [6],
      ad_futures_daily = [(6, 8, ''REGULAR'')], ad_positions = [8], ad_concentrations = [8], ad_put_calls = [8],
      ad_strikes = [8], ad_volatility = [], ad_strength = [8]\<rparr>"

lemma sample_constraints: "audit_constraints sample_db" "length (ad_securities sample_db) = 2" "length (ad_technicals sample_db) = 2"
  by (simp_all add: audit_constraints_def sample_db_def)

lemma sample_rows:
  "price_rows sample_db ''TWSE'' 8 = [\<lparr>pe_security_id = 3, pe_trade_date = 8, pe_close = Some 900\<rparr>]"
  "price_rows sample_db ''TPEX'' 8 = [\<lparr>pe_security_id = 4, pe_trade_date = 8, pe_close = Some 400\<rparr>]"
  "stocks_of sample_db ''TWSE'' = 1" "stocks_of sample_db ''TPEX'' = 1"
  by (simp_all add: sample_db_def price_rows_def priced_def listed_def stocks_of_def active_stock_def)

lemma sample_suffices: "technicals_suffice sample_db 8"
  unfolding technicals_suffice_def sample_rows
  by (simp add: sample_db_def raw_snapshots_def snapped_def active_stock_def price_history_def)

theorem audit_complete_iff_witness: "ar_overall (audit_date is_trading_day (\<lambda>t. t) sample_db 8) = COMPLETE"
  unfolding audit_complete_iff [OF sample_constraints(1), unfolded sample_constraints, simplified]
  using sample_suffices
  by (simp add: sample_rows) (simp add: sample_db_def rows_on_def derivatives_present_def)

theorem gap_audit_accounts_for_weekdays_witness:
  "ga_weekdays (audit_historical_gap sample_db 8 14 None) = 5 \<and> ga_sessions (audit_historical_gap sample_db 8 14 None) = 1"
proof -
  have days: "filter (\<lambda>d. weekday d < 5) [8..14] = [8, 9, 10, 11, 12]" by code_simp
  have "filter (\<lambda>d. 0 < session_count sample_db None d) [8, 9, 10, 11, 12] = [8]" by code_simp
  then show ?thesis
    using gap_audit_accounts_for_weekdays [OF sample_constraints(1), of None 8 14]
    unfolding Let_def days by (simp add: sample_constraints)
qed

end
