(* ===== verification/MonitoringProperties.thy ===== *)
theory MonitoringProperties
  imports MonitoringResults AuditResults
begin

text \<open>
  The monitoring as a whole: the table follows the anomalies of the day, nobody is alarmed twice within the
  cool-down, and two behaviours of the code that its users do not expect: a dataset that gets worse is
  reported as repaired, and a day without any market spot data is no anomaly.
\<close>

section \<open>Keys\<close>

definition calendar_day :: "date \<Rightarrow> bool" where
  "calendar_day d \<longleftrightarrow> 1 \<le> ord2year d \<and> ord2year d \<le> 9999"

lemma iso_date_length [simp]: "length (iso_date d) = 10"
  by (simp add: iso_date_def)

lemma fixed_digits_inj: "fixed_digits k m = fixed_digits k n \<Longrightarrow> m < 10 ^ k \<Longrightarrow> n < 10 ^ k \<Longrightarrow> m = n"
  by (metis nat_of_fixed_digits mod_less)

lemma iso_date_inj:
  assumes "calendar_day d" and "calendar_day d'" and "iso_date d = iso_date d'"
  shows "d = d'"
proof -
  have bounds: "nat (ord2year x) < 10 ^ 4 \<and> nat (ord2month x) < 10 ^ 2 \<and> nat (ord2day x) < 10 ^ 2 \<and>
      0 < ord2year x \<and> 0 < ord2month x \<and> 0 < ord2day x" if "calendar_day x" for x
    using that ord2month_range [of x] ord2day_range [of x] days_in_month_31 [of "ord2month x" "ord2year x"]
    unfolding calendar_day_def by (simp add: nat_less_iff)
  have eq: "fixed_digits 4 (nat (ord2year d)) = fixed_digits 4 (nat (ord2year d'))"
    "fixed_digits 2 (nat (ord2month d)) = fixed_digits 2 (nat (ord2month d'))"
    "fixed_digits 2 (nat (ord2day d)) = fixed_digits 2 (nat (ord2day d'))"
    using assms(3) unfolding iso_date_def by (simp_all add: append_eq_append_conv)
  have "nat (ord2year d) = nat (ord2year d')" "nat (ord2month d) = nat (ord2month d')" "nat (ord2day d) = nat (ord2day d')"
    using eq [THEN fixed_digits_inj] bounds [OF assms(1)] bounds [OF assms(2)] by simp_all
  moreover have nat_inj: "nat x = nat y \<Longrightarrow> 0 < x \<Longrightarrow> 0 < y \<Longrightarrow> x = y" for x y by simp
  ultimately have "ord2year d = ord2year d'" "ord2month d = ord2month d'" "ord2day d = ord2day d'"
    using bounds [OF assms(1)] bounds [OF assms(2)] by (iprover intro: nat_inj elim: conjE)+
  then show ?thesis using ymd_round_trip by metis
qed

lemma key_text_date:
  assumes "calendar_day d" and "calendar_day d'" and "key_text kind dataset scope d = key_text kind' dataset' scope' d'"
  shows "d = d'"
proof -
  have "(kind @ ''|'' @ dataset @ ''|'' @ scope @ ''|'') @ iso_date d = (kind' @ ''|'' @ dataset' @ ''|'' @ scope' @ ''|'') @ iso_date d'"
    using assms(3) by (simp add: key_text_def)
  then have "iso_date d = iso_date d'" by (subst (asm) append_eq_append_conv) simp_all
  then show ?thesis using iso_date_inj assms(1,2) by blast
qed

definition bar_free :: "string \<Rightarrow> bool" where
  "bar_free s \<longleftrightarrow> CHR ''|'' \<notin> set s"

lemma bar_free_split:
  assumes "bar_free s" and "bar_free t" and "s @ ''|'' @ xs = t @ ''|'' @ ys"
  shows "s = t \<and> xs = ys"
proof -
  have "takeWhile (\<lambda>c. c \<noteq> CHR ''|'') (u @ ''|'' @ zs) = u" if "bar_free u" for u zs
    using that by (induction u) (auto simp: bar_free_def)
  then have "s = t" using assms by metis
  then show ?thesis using assms(3) by simp
qed

lemma type_text_bar_free: "bar_free (type_text k)"
  by (cases k) (simp_all add: bar_free_def)

lemma type_text_inj [simp]: "type_text k = type_text k' \<longleftrightarrow> k = k'"
  by (cases k; cases k') simp_all

lemma dedupe_key_type: "dedupe_key a = dedupe_key b \<Longrightarrow> an_type a = an_type b"
  unfolding dedupe_key_def key_text_def
  using bar_free_split [OF type_text_bar_free type_text_bar_free] type_text_inj by blast

lemma dedupe_key_dataset:
  "dedupe_key a = dedupe_key b \<Longrightarrow> bar_free (an_dataset a) \<Longrightarrow> bar_free (an_dataset b) \<Longrightarrow> an_dataset a = an_dataset b"
  unfolding dedupe_key_def key_text_def
  using bar_free_split [OF type_text_bar_free type_text_bar_free] bar_free_split by blast

section \<open>What a run may find\<close>

lemma audit_date_simps [simp]:
  "ar_date (audit_date trading day_of adb d) = d" "ar_trading (audit_date trading day_of adb d) = trading d"
  "ar_twse (audit_date trading day_of adb d) = audit_daily_prices day_of adb ''TWSE'' d (sm_twse (audit_security_master adb))"
  "ar_tpex (audit_date trading day_of adb d) = audit_daily_prices day_of adb ''TPEX'' d (sm_tpex (audit_security_master adb))"
  "ar_spot (audit_date trading day_of adb d) = audit_market_spot adb d"
  "ar_derivatives (audit_date trading day_of adb d) = audit_derivatives adb d"
  by (simp_all add: audit_date_def Let_def)

lemma extract_all:
  assumes "\<And>r. P (run_anomaly report r)" and "list_all P (security_anomalies report)"
    and "list_all P (price_anomalies report ''TWSE'' (ar_twse report))" and "list_all P (price_anomalies report ''TPEX'' (ar_tpex report))"
    and "list_all P (spot_anomalies report)" and "\<And>d. d \<in> set (ar_derivatives report) \<Longrightarrow> list_all P (derivative_anomalies report d)"
    and "list_all P (technical_anomalies report)" and "list_all P (strength_anomalies report)"
    and "list_all P (duplicate_anomalies report)" and "a \<in> set (extract_anomalies report runs)"
  shows "P a"
  using assms unfolding extract_anomalies_def list_all_iff by (auto split: if_splits)

lemma anomaly_date: "a \<in> set (extract_anomalies report runs) \<Longrightarrow> an_date a = ar_date report"
  by (rule extract_all [where P = "\<lambda>a. an_date a = ar_date report"])
    (simp_all add: run_anomaly_def security_anomalies_def price_anomalies_def spot_anomalies_def derivative_anomalies_def
      technical_anomalies_def strength_anomalies_def duplicate_anomalies_def finding_def Let_def split: audit_status.split)

text \<open>The severity a type of anomaly has for a dataset, whatever the audit finds.\<close>

fun usual_severity :: "anomaly_type \<Rightarrow> string \<Rightarrow> severity" where
  "usual_severity DATASET_FAILED dataset = (if dataset = ''SECURITY_MASTER'' then CRITICAL else ERROR)"
| "usual_severity DATASET_NO_DATA dataset = (if dataset = ''TWSE_DAILY'' \<or> dataset = ''TPEX_DAILY'' then ERROR else WARNING)"
| "usual_severity DATASET_PARTIAL dataset = WARNING"
| "usual_severity DATASET_STALE dataset = WARNING"
| "usual_severity kind dataset = ERROR"

definition usual :: "anomaly \<Rightarrow> bool" where
  "usual a \<longleftrightarrow> an_severity a = usual_severity (an_type a) (an_dataset a) \<and>
     (an_type a = INGESTION_RUN_FAILED \<or> bar_free (an_dataset a))"

lemma finding_usual:
  "usual (finding report kind dataset severity scope details) \<longleftrightarrow>
     severity = usual_severity kind dataset \<and> (kind = INGESTION_RUN_FAILED \<or> bar_free dataset)"
  by (simp add: usual_def finding_def)

lemma derivative_datasets:
  "d \<in> set (audit_derivatives adb target) \<Longrightarrow>
     bar_free (dv_dataset d) \<and> dv_dataset d \<notin> {''SECURITY_MASTER'', ''TWSE_DAILY'', ''TPEX_DAILY'', ''MARKET_SPOT''}"
  by (auto simp: audit_derivatives_def counted_def bar_free_def)

lemma anomaly_usual:
  assumes "a \<in> set (extract_anomalies (audit_date trading day_of adb d) runs)"
  shows "usual a"
  by (rule extract_all [where P = usual, OF _ _ _ _ _ _ _ _ _ assms])
    (use derivative_datasets in \<open>auto simp: run_anomaly_def security_anomalies_def price_anomalies_def spot_anomalies_def derivative_anomalies_def
      technical_anomalies_def strength_anomalies_def duplicate_anomalies_def finding_usual bar_free_def Let_def split: audit_status.split\<close>)

lemma same_key_same_severity:
  assumes "a \<in> set (extract_anomalies (audit_date trading day_of adb d) runs)"
    and "b \<in> set (extract_anomalies (audit_date trading day_of' adb' d') runs')" and "dedupe_key a = dedupe_key b"
  shows "an_severity a = an_severity b"
  using anomaly_usual [OF assms(1)] anomaly_usual [OF assms(2)] dedupe_key_type [OF assms(3)]
    dedupe_key_dataset [OF assms(3)] unfolding usual_def by (cases "an_type a = INGESTION_RUN_FAILED") auto

section \<open>The table\<close>

text \<open>What holds of the table between two runs.\<close>

definition known_row :: "anomaly_row \<Rightarrow> bool" where
  "known_row r \<longleftrightarrow> aw_dedupe_key r = key_text (aw_type r) (aw_dataset r) (aw_scope r) (aw_target_date r) \<and>
     calendar_day (aw_target_date r) \<and> (aw_status r = ''ACTIVE'' \<or> aw_status r = ''RESOLVED'')"

definition monitor_inv :: "monitor_db \<Rightarrow> bool" where
  "monitor_inv db \<longleftrightarrow> monitor_constraints db \<and> (\<forall>r \<in> set (mo_rows db). known_row r)"

text \<open>Distinct \<open>uuid4\<close> that no row has yet.\<close>

definition fresh_ids :: "(nat \<Rightarrow> uuid) \<Rightarrow> monitor_db \<Rightarrow> bool" where
  "fresh_ids fresh db \<longleftrightarrow> inj fresh \<and> (\<forall>k. fresh k \<notin> aw_id ` set (mo_rows db) \<and> fresh k \<notin> sv_id ` set (mo_events db))"

text \<open>The anomalies of a day.\<close>

definition anomalies_of :: "(date \<Rightarrow> bool) \<Rightarrow> (instant \<Rightarrow> date) \<Rightarrow> audit_db \<Rightarrow> date \<Rightarrow> anomaly list" where
  "anomalies_of trading day_of adb target =
     extract_anomalies (audit_date trading day_of adb target) (check_failed_ingestion_runs adb target)"

lemma anomalies_date: "a \<in> set (anomalies_of trading day_of adb target) \<Longrightarrow> an_date a = target"
  unfolding anomalies_of_def using anomaly_date by fastforce

lemma after_known: "known_row r \<Longrightarrow> known_row (after_row cooldown now target as r)"
  unfolding known_row_def after_row_def detected_row_def seen_again_def Let_def resolved_def
  by (auto split: option.split)

lemma after_active:
  assumes "known_row r" and "aw_target_date r = target"
  shows "aw_status (after_row cooldown now target as r) = ''ACTIVE'' \<longleftrightarrow> aw_dedupe_key r \<in> dedupe_key ` set as"
proof (cases "aw_dedupe_key r \<in> dedupe_key ` set as")
  case True
  then have "aw_dedupe_key r \<in> fst ` set (by_key as)" using by_key_facts [of as] by simp
  then obtain a where a: "map_of (by_key as) (aw_dedupe_key r) = Some a"
    by (cases "map_of (by_key as) (aw_dedupe_key r)") (auto simp: map_of_eq_None_iff)
  have "aw_status (seen_again now a b r) = ''ACTIVE''" for b
    using assms(1) by (auto simp: known_row_def intro: seen_again_status)
  then show ?thesis using True assms(2) a by (simp add: after_row_def stale_row_def detected_row_def)
next
  case False
  then have none: "map_of (by_key as) (aw_dedupe_key r) = None" using by_key_facts [of as] by (simp add: map_of_eq_None_iff)
  show ?thesis
    using assms False none by (auto simp: after_row_def stale_row_def detected_row_def known_row_def)
qed

lemma after_other: "aw_target_date r \<noteq> target \<Longrightarrow> after_row cooldown now target as r = r"
  by (simp add: after_row_def detected_row_def)

text \<open>A run on a trading day, whatever the audit finds.\<close>

text \<open>What a run does: the new rows, the alarms and the resolutions.\<close>

definition run_effect :: "int \<Rightarrow> uuid option \<Rightarrow> instant \<Rightarrow> (nat \<Rightarrow> uuid) \<Rightarrow> date \<Rightarrow> anomaly list \<Rightarrow> monitor_db \<Rightarrow>
    monitoring_result \<Rightarrow> monitor_db \<Rightarrow> anomaly_row list \<Rightarrow> notification list \<Rightarrow> notification list \<Rightarrow> bool" where
  "run_effect cooldown user now fresh target as db res db' ns alarms repairs \<longleftrightarrow>
     mo_rows db' = map (after_row cooldown now target as) (mo_rows db) @ ns \<and>
     map aw_dedupe_key ns = map fst (filter (unknown (mo_rows db) target) (by_key as)) \<and>
     (\<forall>n \<in> set ns. \<exists>k d. d \<in> set (by_key as) \<and> n = new_row (fresh k) now (fst d) (snd d)) \<and>
     mr_notifications res = alarms @ repairs \<and>
     map nf_dedupe_key alarms = map fst (filter (told cooldown now (mo_rows db) target) (by_key as)) \<and>
     (\<forall>n \<in> set alarms. \<not> nf_is_resolution n) \<and>
     map nf_dedupe_key repairs = map aw_dedupe_key (filter (\<lambda>r. aw_target_date r = target \<and> stale_row (dedupe_key ` set as) r) (mo_rows db)) \<and>
     (\<forall>n \<in> set repairs. nf_is_resolution n \<and> nf_severity n = INFO) \<and>
     mr_active res = length (by_key as) \<and>
     mr_created res = length alarms + length repairs \<and>
     length alarms + mr_suppressed res = length (by_key as) \<and>
     mr_resolved res = length repairs \<and>
     mo_events db' = mo_events db @ map (stored_event_of user now) (mr_notifications res) \<and>
     nf_event_id ` set (mr_notifications res) \<subseteq> range fresh"

lemma run_effectD:
  assumes "run_effect cooldown user now fresh target as db res db' ns alarms repairs"
  shows "mo_rows db' = map (after_row cooldown now target as) (mo_rows db) @ ns"
    "map aw_dedupe_key ns = map fst (filter (unknown (mo_rows db) target) (by_key as))"
    "\<forall>n \<in> set ns. \<exists>k d. d \<in> set (by_key as) \<and> n = new_row (fresh k) now (fst d) (snd d)"
    "mr_notifications res = alarms @ repairs"
    "map nf_dedupe_key alarms = map fst (filter (told cooldown now (mo_rows db) target) (by_key as))"
    "\<forall>n \<in> set alarms. \<not> nf_is_resolution n"
    "map nf_dedupe_key repairs = map aw_dedupe_key (filter (\<lambda>r. aw_target_date r = target \<and> stale_row (dedupe_key ` set as) r) (mo_rows db))"
    "\<forall>n \<in> set repairs. nf_is_resolution n \<and> nf_severity n = INFO"
    "mr_active res = length (by_key as)"
    "mr_created res = length alarms + length repairs"
    "length alarms + mr_suppressed res = length (by_key as)"
    "mr_resolved res = length repairs"
    "mo_events db' = mo_events db @ map (stored_event_of user now) (mr_notifications res)"
    "nf_event_id ` set (mr_notifications res) \<subseteq> range fresh"
  using assms unfolding run_effect_def by blast+

lemma run_succeeds:
  fixes cooldown :: int and adb :: audit_db and day_of :: "instant \<Rightarrow> date"
  assumes inv: "monitor_inv db" and fresh: "fresh_ids fresh db" and day: "calendar_day target" and trading: "trading target"
  defines "as \<equiv> anomalies_of trading day_of adb target"
  shows "\<exists>res db' ns alarms repairs. evaluate_monitoring trading day_of cooldown user now fresh target adb db = Inr (res, db') \<and>
    monitor_inv db' \<and> run_effect cooldown user now fresh target as db res db' ns alarms repairs"
proof -
  let ?rows = "mo_rows db"
  define ru where "ru = process_anomalies cooldown now fresh target as ?rows"
  have distinct: "distinct (map aw_id ?rows)" "distinct (map aw_dedupe_key ?rows)" "distinct (map sv_id (mo_events db))"
    and known: "\<forall>r \<in> set ?rows. known_row r"
    using inv by (simp_all add: monitor_inv_def monitor_constraints_def)
  have new: "inj fresh" "\<forall>k. fresh k \<notin> aw_id ` set ?rows" "\<forall>k. fresh k \<notin> sv_id ` set (mo_events db)"
    using fresh by (simp_all add: fresh_ids_def)
  have dates: "\<forall>a \<in> set as. an_date a = target" unfolding as_def using anomalies_date by blast
  from process_effect [OF distinct(1,2) new(2) dates, of cooldown now, folded ru_def]
  obtain ns alarms repairs where E:
    "ru_rows ru = map (after_row cooldown now target as) ?rows @ ns"
    "map aw_dedupe_key ns = map fst (filter (unknown ?rows target) (by_key as))"
    "\<forall>n \<in> set ns. \<exists>k d. d \<in> set (by_key as) \<and> n = new_row (fresh k) now (fst d) (snd d)"
    "ru_notes ru = alarms @ repairs"
    "map nf_dedupe_key alarms = map fst (filter (told cooldown now ?rows target) (by_key as))"
    "\<forall>n \<in> set alarms. \<not> nf_is_resolution n"
    "map nf_dedupe_key repairs =
       map aw_dedupe_key (filter (\<lambda>r. aw_target_date r = target \<and> stale_row (dedupe_key ` set as) r) ?rows)"
    "\<forall>n \<in> set repairs. nf_is_resolution n \<and> nf_severity n = INFO"
    "length alarms + ru_suppressed ru = length (by_key as)" "ru_resolved ru = length repairs" .
  define db' where "db' = \<lparr>mo_rows = ru_rows ru, mo_events = mo_events db @ map (stored_event_of user now) (ru_notes ru)\<rparr>"
  have ids: "distinct (map aw_id (ru_rows ru))" "distinct (map nf_event_id (ru_notes ru))"
    "set (map nf_event_id (ru_notes ru)) \<subseteq> range fresh"
    using process_ids [OF distinct(1) new(1,2), of cooldown now target as] unfolding ru_def ids_ok_def by blast+
  have of_ns: "known_row n \<and> aw_target_date n = target \<and> unknown ?rows target (aw_dedupe_key n, a)" if n: "n \<in> set ns" for n a
  proof -
    from E(3) n obtain k d where d: "d \<in> set (by_key as)" "n = new_row (fresh k) now (fst d) (snd d)" by blast
    have "snd d \<in> set as" "dedupe_key (snd d) = fst d" using by_key_facts [of as] d(1) by (auto simp: case_prod_beta)
    then have "known_row n" "aw_target_date n = target"
      using dates day by (simp_all add: d(2) known_row_def dedupe_key_def [symmetric]) (simp add: dedupe_key_def)
    moreover have "aw_dedupe_key n \<in> fst ` set (filter (unknown ?rows target) (by_key as))"
      using E(2) n by (metis image_eqI set_map)
    then have "unknown ?rows target (aw_dedupe_key n, a)" by (auto simp: unknown_def)
    ultimately show ?thesis by simp
  qed
  have "distinct (map aw_dedupe_key (ru_rows ru))"
  proof -
    have "aw_dedupe_key r \<noteq> aw_dedupe_key n" if "r \<in> set ?rows" "n \<in> set ns" for r n
    proof
      assume eq: "aw_dedupe_key r = aw_dedupe_key n"
      have "known_row r" "known_row n" "aw_target_date n = target" using known of_ns that by blast+
      then have "aw_target_date r = target" using eq key_text_date by (metis known_row_def)
      then show False using of_ns [OF that(2)] that(1) eq unfolding unknown_def row_of_None by simp
    qed
    moreover have "distinct (map aw_dedupe_key ns)"
      unfolding E(2) using by_key_facts [of as] by (simp add: distinct_map_filter)
    ultimately show ?thesis using distinct(2) by (auto simp: E(1) o_def)
  qed
  moreover have "distinct (map sv_id (mo_events db'))"
  proof -
    have "map sv_id (map (stored_event_of user now) (ru_notes ru)) = map nf_event_id (ru_notes ru)"
      by (simp add: stored_event_of_def)
    moreover have "set (map sv_id (mo_events db)) \<inter> set (map nf_event_id (ru_notes ru)) = {}" using ids(3) new(3) by fastforce
    ultimately show ?thesis using distinct(3) ids(2) by (simp only: db'_def monitor_db.simps map_append distinct_append)
  qed
  ultimately have ok: "monitor_constraints db'" using ids(1) by (simp add: monitor_constraints_def db'_def)
  have "monitor_inv db'"
    using ok known of_ns after_known unfolding monitor_inv_def by (auto simp: db'_def E(1))
  moreover have "evaluate_monitoring trading day_of cooldown user now fresh target adb db =
    Inr (\<lparr>mr_detected = length as, mr_active = length (by_key as), mr_new = ru_new ru, mr_resolved = ru_resolved ru,
      mr_created = length (ru_notes ru), mr_suppressed = ru_suppressed ru, mr_notifications = ru_notes ru\<rparr>, db')"
    using trading ok unfolding evaluate_monitoring_def
    by (simp add: anomalies_of_def [symmetric] as_def [symmetric] ru_def [symmetric] db'_def [symmetric] Let_def)
  moreover have "run_effect cooldown user now fresh target as db
      \<lparr>mr_detected = length as, mr_active = length (by_key as), mr_new = ru_new ru, mr_resolved = ru_resolved ru,
       mr_created = length (ru_notes ru), mr_suppressed = ru_suppressed ru, mr_notifications = ru_notes ru\<rparr> db' ns alarms repairs"
    unfolding run_effect_def using E ids(3) by (simp add: db'_def image_Un)
  ultimately show ?thesis by blast
qed

lemma run_given:
  assumes "monitor_inv db" and "fresh_ids fresh db" and "calendar_day target" and "trading target"
    and "evaluate_monitoring trading day_of cooldown user now fresh target adb db = Inr (res, db')"
  shows "monitor_inv db' \<and> (\<exists>ns alarms repairs.
    run_effect cooldown user now fresh target (anomalies_of trading day_of adb target) db res db' ns alarms repairs)"
  using run_succeeds [where trading = trading and target = target, OF assms(1-4), of day_of cooldown user now adb, unfolded assms(5)]
  by blast

section \<open>The table follows the anomalies\<close>

lemma new_rows:
  assumes "run_effect cooldown user now fresh target (anomalies_of trading day_of adb target) db res db' ns alarms repairs" and "n \<in> set ns"
  shows "aw_target_date n = target \<and> aw_status n = ''ACTIVE'' \<and> aw_dedupe_key n \<in> dedupe_key ` set (anomalies_of trading day_of adb target)"
proof -
  let ?as = "anomalies_of trading day_of adb target"
  from run_effectD(3) [OF assms(1)] assms(2) obtain k d where d: "d \<in> set (by_key ?as)" "n = new_row (fresh k) now (fst d) (snd d)" by blast
  then have "snd d \<in> set ?as" "fst d \<in> dedupe_key ` set ?as" using by_key_mem [of d ?as] by (simp, metis image_eqI)
  then show ?thesis using d(2) anomalies_date by simp
qed

lemma active_keys:
  assumes eff: "run_effect cooldown user now fresh target (anomalies_of trading day_of adb target) db res db' ns alarms repairs"
    and known: "\<And>r. r \<in> set (mo_rows db) \<Longrightarrow> known_row r"
  shows "aw_dedupe_key ` {r \<in> set (mo_rows db'). aw_target_date r = target \<and> aw_status r = ''ACTIVE''} =
    dedupe_key ` set (anomalies_of trading day_of adb target)"
proof -
  let ?rows = "mo_rows db" and ?as = "anomalies_of trading day_of adb target"
  note R = run_effectD [OF eff] and new = new_rows [OF eff]
  have "aw_dedupe_key x \<in> dedupe_key ` set ?as"
    if x: "x \<in> set (mo_rows db')" "aw_target_date x = target" "aw_status x = ''ACTIVE''" for x
  proof (cases "x \<in> set ns")
    case False
    then obtain r where r: "r \<in> set ?rows" "x = after_row cooldown now target ?as r" using x(1) by (auto simp: R(1))
    then have "aw_dedupe_key r \<in> dedupe_key ` set ?as"
      using x(2,3) known [OF r(1)] after_active [of r target cooldown now ?as] by simp
    then show ?thesis by (simp only: r(2) after_row_keeps)
  qed (use new in blast)
  moreover have "key \<in> aw_dedupe_key ` {r \<in> set (mo_rows db'). aw_target_date r = target \<and> aw_status r = ''ACTIVE''}"
    if key: "key \<in> dedupe_key ` set ?as" for key
  proof (cases "row_of ?rows target key")
    case None
    have "key \<in> fst ` set (by_key ?as)" using key by_key_keys [of ?as] by simp
    then have "key \<in> set (map fst (filter (unknown ?rows target) (by_key ?as)))" using None by (force simp: unknown_def)
    then have "key \<in> aw_dedupe_key ` set ns" unfolding R(2) [symmetric] by simp
    then show ?thesis using new R(1) by auto
  next
    case (Some r)
    note r = row_of_Some [OF Some]
    then have "aw_status (after_row cooldown now target ?as r) = ''ACTIVE''" using after_active known key by blast
    then show ?thesis using r by (intro image_eqI [of _ _ "after_row cooldown now target ?as r"]) (auto simp: R(1))
  qed
  ultimately show ?thesis by blast
qed

text \<open>
  C32. On a trading day a run always commits, keeps the invariant of the table, leaves the rows of other days
  alone, and afterwards the active rows of the day are exactly those of the detected anomalies; each of
  them is either notified or suppressed, each that stopped being detected is resolved and notified, and
  every notification is stored as an event.
\<close>

theorem monitoring_tracks_anomalies:
  assumes "monitor_inv db" and "fresh_ids fresh db" and "calendar_day target" and "trading target"
  shows "\<exists>res db'. evaluate_monitoring trading day_of cooldown user now fresh target adb db = Inr (res, db') \<and>
    monitor_inv db' \<and>
    aw_dedupe_key ` {r \<in> set (mo_rows db'). aw_target_date r = target \<and> aw_status r = ''ACTIVE''} =
      dedupe_key ` set (anomalies_of trading day_of adb target) \<and>
    filter (\<lambda>r. aw_target_date r \<noteq> target) (mo_rows db') = filter (\<lambda>r. aw_target_date r \<noteq> target) (mo_rows db) \<and>
    mr_created res + mr_suppressed res = mr_active res + mr_resolved res \<and>
    length (mo_events db') = length (mo_events db) + mr_created res"
proof -
  let ?as = "anomalies_of trading day_of adb target"
  from run_succeeds [where trading = trading and target = target, OF assms, of day_of cooldown user now adb]
  obtain ns alarms repairs res db' where run: "evaluate_monitoring trading day_of cooldown user now fresh target adb db = Inr (res, db')"
    "monitor_inv db'" and eff: "run_effect cooldown user now fresh target ?as db res db' ns alarms repairs" by blast
  note R = run_effectD [OF eff]
  have "filter (\<lambda>r. aw_target_date r \<noteq> target) ns = []" using new_rows [OF eff] by (simp add: filter_empty_conv)
  moreover have "filter (\<lambda>r. aw_target_date r \<noteq> target) (map (after_row cooldown now target ?as) xs) =
      filter (\<lambda>r. aw_target_date r \<noteq> target) xs" for xs
    by (induction xs) (simp_all add: after_other)
  ultimately have "filter (\<lambda>r. aw_target_date r \<noteq> target) (mo_rows db') = filter (\<lambda>r. aw_target_date r \<noteq> target) (mo_rows db)"
    by (simp add: R(1))
  moreover have "aw_dedupe_key ` {r \<in> set (mo_rows db'). aw_target_date r = target \<and> aw_status r = ''ACTIVE''} = dedupe_key ` set ?as"
    using active_keys [OF eff] assms(1) by (simp add: monitor_inv_def)
  ultimately show ?thesis using run R(4,9-13) by (intro exI [of _ res] exI [of _ db']) simp
qed

section \<open>The cool-down\<close>

lemma alarmed_row:
  assumes "known_row r" and "aw_target_date r = target" and "map_of (by_key as) (aw_dedupe_key r) = Some a"
    and "notify_again cooldown now r a"
  shows "aw_status (after_row cooldown now target as r) = ''ACTIVE'' \<and>
    aw_severity (after_row cooldown now target as r) = severity_text (an_severity a) \<and>
    aw_last_notified (after_row cooldown now target as r) = Some now"
proof -
  have "aw_dedupe_key r \<in> dedupe_key ` set as"
    unfolding by_key_keys [symmetric] using map_of_SomeD [OF assms(3)] by force
  then have "after_row cooldown now target as r = seen_again now a True r"
    using assms by (simp add: after_row_def stale_row_def detected_row_def)
  then show ?thesis using assms(1) by (auto simp: seen_again_def Let_def known_row_def)
qed

text \<open>The row of an anomaly the run has alarmed of.\<close>

lemma row_after_alarm:
  assumes inv: "monitor_inv db" and eff: "run_effect cooldown user now fresh target (anomalies_of trading day_of adb target) db res db' ns alarms repairs"
    and a: "(key, a) \<in> set (by_key (anomalies_of trading day_of adb target))" "told cooldown now (mo_rows db) target (key, a)"
  shows "\<exists>r \<in> set (mo_rows db'). aw_target_date r = target \<and> aw_dedupe_key r = key \<and> aw_status r = ''ACTIVE'' \<and>
    aw_severity r = severity_text (an_severity a) \<and> aw_last_notified r = Some now"
proof (cases "row_of (mo_rows db) target key")
  let ?as = "anomalies_of trading day_of adb target"
  note R = run_effectD [OF eff]
  have of_a: "a \<in> set ?as" "map_of (by_key ?as) key = Some a" using by_key_mem [OF a(1)] by_key_map_of [OF a(1)] by simp_all
  {
    case None
    then have "key \<in> set (map fst (filter (unknown (mo_rows db) target) (by_key ?as)))" using a(1) by (force simp: unknown_def)
    then obtain x where x: "x \<in> set ns" "aw_dedupe_key x = key" unfolding R(2) [symmetric] by auto
    then obtain k d where d: "d \<in> set (by_key ?as)" "x = new_row (fresh k) now (fst d) (snd d)" using R(3) by blast
    have "fst d = key" using x(2) d(2) by simp
    moreover have "map_of (by_key ?as) (fst d) = Some (snd d)" using d(1) by (intro by_key_map_of) simp
    ultimately have "d = (key, a)" using of_a(2) by (simp add: prod_eq_iff)
    then show ?thesis using x d anomalies_date [OF of_a(1)] by (intro bexI [of _ x]) (simp_all add: R(1))
  next
    case (Some r)
    note r = row_of_Some [OF Some]
    then have "known_row r" using inv by (simp add: monitor_inv_def)
    then show ?thesis
      using alarmed_row [of r target ?as a cooldown now] r Some a(2) of_a(2)
      by (intro bexI [of _ "after_row cooldown now target ?as r"]) (simp_all add: told_def R(1))
  }
qed

text \<open>The row of an anomaly the user was told of at a time, and what keeps it.\<close>

definition told_row :: "date \<Rightarrow> string \<Rightarrow> severity \<Rightarrow> instant \<Rightarrow> anomaly_row \<Rightarrow> bool" where
  "told_row target key severity since r \<longleftrightarrow> aw_target_date r = target \<and> aw_dedupe_key r = key \<and> aw_status r = ''ACTIVE'' \<and>
     aw_severity r = severity_text severity \<and> aw_last_notified r = Some since"

lemma told_row_stays:
  assumes "told_row target key (an_severity a) since r" and "an_severity b = an_severity a"
    and "map_of (by_key as) key = Some b" and "now - since < cooldown"
  shows "told_row target key (an_severity a) since (after_row cooldown now target as r)"
proof -
  have "key \<in> dedupe_key ` set as" unfolding by_key_keys [symmetric] using map_of_SomeD [OF assms(3)] by force
  moreover have "\<not> notify_again cooldown now r b"
    using assms(1,2,4) by (simp add: told_row_def notify_again_def escalated_def in_cooldown_def)
  ultimately have "after_row cooldown now target as r = seen_again now b False r"
    using assms(1,3) by (simp add: told_row_def after_row_def stale_row_def detected_row_def)
  then show ?thesis using assms(1) by (simp add: told_row_def seen_again_def Let_def)
qed

lemma told_row_other_day:
  "told_row target key severity since r \<Longrightarrow> d \<noteq> target \<Longrightarrow> after_row cooldown now d as r = r"
  by (simp add: told_row_def after_row_def detected_row_def)

text \<open>
  Any number of runs, for any days, less than the cool-down after a given time, of which those for the
  target date find the anomaly of the key.
\<close>

inductive keeps_finding :: "(date \<Rightarrow> bool) \<Rightarrow> (instant \<Rightarrow> date) \<Rightarrow> int \<Rightarrow> uuid option \<Rightarrow> date \<Rightarrow> string \<Rightarrow> instant \<Rightarrow>
    monitor_db \<Rightarrow> monitor_db \<Rightarrow> bool" for trading day_of cooldown user target key since db0 where
  no_run: "keeps_finding trading day_of cooldown user target key since db0 db0"
| one_more: "keeps_finding trading day_of cooldown user target key since db0 db \<Longrightarrow> calendar_day d \<Longrightarrow> trading d \<Longrightarrow>
    fresh_ids fresh db \<Longrightarrow> evaluate_monitoring trading day_of cooldown user now fresh d adb db = Inr (res, db') \<Longrightarrow>
    now - since < cooldown \<Longrightarrow> d = target \<longrightarrow> key \<in> dedupe_key ` set (anomalies_of trading day_of adb target) \<Longrightarrow>
    keeps_finding trading day_of cooldown user target key since db0 db'"

lemma keeps_finding_told:
  assumes "keeps_finding trading day_of cooldown user target key since db0 db"
    and "monitor_inv db0" and "\<exists>r \<in> set (mo_rows db0). told_row target key (an_severity a) since r"
    and a: "a \<in> set (anomalies_of trading day_of' adb' target)" "dedupe_key a = key"
  shows "monitor_inv db \<and> (\<exists>r \<in> set (mo_rows db). told_row target key (an_severity a) since r)"
  using assms(1)
proof induction
  case no_run
  then show ?case using assms(2,3) by simp
next
  case (one_more db d fresh now adb res db')
  let ?as = "anomalies_of trading day_of adb d"
  from one_more.IH obtain r where r: "r \<in> set (mo_rows db)" "told_row target key (an_severity a) since r" and inv: "monitor_inv db" by blast
  from run_given [where trading = trading and target = d, OF inv one_more.hyps(4,2,3,5)]
  obtain ns alarms repairs where inv': "monitor_inv db'" and
    eff: "run_effect cooldown user now fresh d ?as db res db' ns alarms repairs" by blast
  have "told_row target key (an_severity a) since (after_row cooldown now d ?as r)"
  proof (cases "d = target")
    case True
    then have "key \<in> fst ` set (by_key ?as)" using one_more.hyps(7) by (simp add: by_key_keys)
    then obtain b where b: "(key, b) \<in> set (by_key ?as)" by force
    then have "b \<in> set ?as" "dedupe_key b = key" using by_key_mem [OF b] by simp_all
    then have "an_severity b = an_severity a"
      using same_key_same_severity a unfolding anomalies_of_def by metis
    then show ?thesis using told_row_stays [OF r(2) _ by_key_map_of [OF b] one_more.hyps(6)] True by simp
  next
    case False
    then show ?thesis using r(2) told_row_other_day [OF r(2)] by simp
  qed
  then show ?case using inv' r(1) run_effectD(1) [OF eff] by auto
qed

text \<open>
  C33. Nobody is alarmed twice about the same anomaly within the cool-down as long as it lasts: after a
  run that alarmed of an anomaly come any number of runs, for any days, that still find it on its day;
  no run less than the cool-down after the alarm alarms of it again, whatever else the audits find (an
  escalation cannot happen, since the severity is determined by the key). A run that does not find the
  anomaly ends this: it resolves the row, and when the anomaly returns the user is alarmed again.
\<close>

theorem no_second_alarm:
  assumes "monitor_inv db" and "fresh_ids fresh db" and "calendar_day target" and "trading target"
    and first: "evaluate_monitoring trading day_of cooldown user now fresh target adb db = Inr (res, db1)"
    and m: "m \<in> set (mr_notifications res)" "\<not> nf_is_resolution m"
    and between: "keeps_finding trading day_of cooldown user target (nf_dedupe_key m) now db1 db2"
    and fresh': "fresh_ids fresh' db2"
    and last: "evaluate_monitoring trading day_of cooldown user now' fresh' target adb' db2 = Inr (res', db3)"
    and soon: "now' - now < cooldown"
    and n: "n \<in> set (mr_notifications res')" "\<not> nf_is_resolution n"
  shows "nf_dedupe_key n \<noteq> nf_dedupe_key m"
proof
  assume same: "nf_dedupe_key n = nf_dedupe_key m"
  let ?key = "nf_dedupe_key m"
  let ?as = "anomalies_of trading day_of adb target" and ?bs = "anomalies_of trading day_of adb' target"
  from run_given [where trading = trading and target = target, OF assms(1-4) first]
  obtain ns alarms repairs where inv: "monitor_inv db1"
    and eff: "run_effect cooldown user now fresh target ?as db res db1 ns alarms repairs" by blast
  note R = run_effectD [OF eff]
  have "?key \<in> set (map nf_dedupe_key alarms)" using m R(4,8) by auto
  then obtain a where a: "(?key, a) \<in> set (by_key ?as)" "told cooldown now (mo_rows db) target (?key, a)" unfolding R(5) by auto
  have of_a: "a \<in> set ?as" "dedupe_key a = ?key" using by_key_mem [OF a(1)] by simp_all
  from row_after_alarm [OF assms(1) eff a] have "\<exists>r \<in> set (mo_rows db1). told_row target ?key (an_severity a) now r"
    by (auto simp: told_row_def)
  from keeps_finding_told [OF between inv this of_a]
  obtain r where inv2: "monitor_inv db2" and r: "r \<in> set (mo_rows db2)" "told_row target ?key (an_severity a) now r" by blast
  from run_given [where trading = trading and target = target, OF inv2 fresh' assms(3,4) last]
  obtain ns' alarms' repairs' where eff': "run_effect cooldown user now' fresh' target ?bs db2 res' db3 ns' alarms' repairs'" by blast
  note S = run_effectD [OF eff']
  have "?key \<in> set (map nf_dedupe_key alarms')" using n S(4,8) same by (metis Un_iff image_eqI set_append set_map)
  then obtain b where b: "(?key, b) \<in> set (by_key ?bs)" "told cooldown now' (mo_rows db2) target (?key, b)" unfolding S(5) by auto
  have of_b: "b \<in> set ?bs" "dedupe_key b = ?key" using by_key_mem [OF b(1)] by simp_all
  have severity: "an_severity a = an_severity b"
    using same_key_same_severity of_a of_b unfolding anomalies_of_def by metis
  obtain r' where r': "row_of (mo_rows db2) target ?key = Some r'"
    using r by (cases "row_of (mo_rows db2) target ?key") (auto simp: row_of_None told_row_def)
  have "r' = r"
    using row_of_Some [OF r'] r distinct_map_inj [of aw_dedupe_key "mo_rows db2"] inv2
    by (simp add: monitor_inv_def monitor_constraints_def told_row_def)
  then show False
    using b(2) r' r(2) soon severity by (simp add: told_def told_row_def notify_again_def escalated_def in_cooldown_def)
qed

section \<open>What is reported as repaired\<close>

lemma undetected_is_repaired:
  assumes "monitor_inv db" and "fresh_ids fresh db" and "calendar_day target" and "trading target"
    and r: "r \<in> set (mo_rows db)" "aw_target_date r = target" "aw_status r = ''ACTIVE''"
    and gone: "aw_dedupe_key r \<notin> dedupe_key ` set (anomalies_of trading day_of adb target)"
  shows "\<exists>res db' n. evaluate_monitoring trading day_of cooldown user now fresh target adb db = Inr (res, db') \<and>
    n \<in> set (mr_notifications res) \<and> nf_is_resolution n \<and> nf_dedupe_key n = aw_dedupe_key r"
proof -
  let ?as = "anomalies_of trading day_of adb target"
  from run_succeeds [where trading = trading and target = target, OF assms(1-4), of day_of cooldown user now adb]
  obtain ns alarms repairs res db' where run: "evaluate_monitoring trading day_of cooldown user now fresh target adb db = Inr (res, db')"
    and eff: "run_effect cooldown user now fresh target ?as db res db' ns alarms repairs" by blast
  note R = run_effectD [OF eff]
  have "aw_dedupe_key r \<in> set (map nf_dedupe_key repairs)"
    unfolding R(7) using r gone by (auto simp: stale_row_def)
  then obtain n where "n \<in> set repairs" "nf_dedupe_key n = aw_dedupe_key r" by auto
  then show ?thesis using run R(4,8) by (intro exI [of _ res] exI [of _ db'] exI [of _ n]) simp
qed

text \<open>An active row whose anomaly is the type \<open>kind\<close> of the dataset.\<close>

definition active_anomaly :: "monitor_db \<Rightarrow> date \<Rightarrow> anomaly_type \<Rightarrow> string \<Rightarrow> anomaly_row \<Rightarrow> bool" where
  "active_anomaly db target kind dataset r \<longleftrightarrow> r \<in> set (mo_rows db) \<and> aw_target_date r = target \<and>
     aw_status r = ''ACTIVE'' \<and> aw_type r = type_text kind \<and> aw_dataset r = dataset"

lemma row_not_detected:
  assumes "known_row r" and "aw_type r = type_text kind" and "aw_dataset r = dataset" and "bar_free dataset"
    and "kind \<noteq> INGESTION_RUN_FAILED"
    and none: "\<And>a. a \<in> set (anomalies_of trading day_of adb target) \<Longrightarrow> \<not> (an_type a = kind \<and> an_dataset a = dataset)"
  shows "aw_dedupe_key r \<notin> dedupe_key ` set (anomalies_of trading day_of adb target)"
proof
  assume "aw_dedupe_key r \<in> dedupe_key ` set (anomalies_of trading day_of adb target)"
  then obtain a where a: "a \<in> set (anomalies_of trading day_of adb target)" "aw_dedupe_key r = dedupe_key a" by auto
  then have eq: "type_text kind @ ''|'' @ dataset @ ''|'' @ aw_scope r @ ''|'' @ iso_date (aw_target_date r) =
    type_text (an_type a) @ ''|'' @ an_dataset a @ ''|'' @ an_scope a @ ''|'' @ iso_date (an_date a)"
    using assms(1-3) by (simp add: known_row_def dedupe_key_def key_text_def)
  note split = bar_free_split [OF type_text_bar_free type_text_bar_free eq]
  then have "an_type a = kind" by simp
  then have "bar_free (an_dataset a)" using anomaly_usual a(1) assms(5) unfolding anomalies_of_def usual_def by blast
  then have "an_dataset a = dataset" using bar_free_split [OF assms(4) _ conjunct2 [OF split]] by simp
  then show False using none a(1) \<open>an_type a = kind\<close> by blast
qed

text \<open>
  C34. An outage is reported as a repair. While a market still has no price of the day, a failed run of the
  prices (of the dataset of the market, or of \<open>DAILY_PRICES\<close>, the one the price ingestion records) turns
  the status from missing to failed; since the type is part of the key, the old alarm is resolved and
  the user is told that the data are back to normal.
\<close>

theorem outage_reported_as_repair:
  assumes "monitor_inv db" and "fresh_ids fresh db" and "calendar_day target" and "trading target"
    and market: "market = ''TWSE'' \<or> market = ''TPEX''"
    and r: "active_anomaly db target DATASET_NO_DATA (market @ ''_DAILY'') r"
    and empty: "price_rows adb market target = []"
    and run: "x \<in> set (ad_runs adb)" "re_dataset x \<in> {market @ ''_DAILY'', ''DAILY_PRICES''}" "failed_run (re_status x)" "day_of (re_started_at x) = target"
  shows "\<exists>res db' n. evaluate_monitoring trading day_of cooldown user now fresh target adb db = Inr (res, db') \<and>
    n \<in> set (mr_notifications res) \<and> nf_is_resolution n \<and> nf_dedupe_key n = aw_dedupe_key r"
proof -
  have failed: "pa_status (audit_daily_prices day_of adb market target expected) = FAILED" for expected
    using empty run by (auto simp: audit_daily_prices_def Let_def list_ex_iff)
  have "\<not> (an_type a = DATASET_NO_DATA \<and> an_dataset a = market @ ''_DAILY'')"
    if a: "a \<in> set (anomalies_of trading day_of adb target)" for a
    by (rule extract_all [where P = "\<lambda>a. \<not> (an_type a = DATASET_NO_DATA \<and> an_dataset a = market @ ''_DAILY'')",
          OF _ _ _ _ _ _ _ _ _ a [unfolded anomalies_of_def]])
      (use market failed derivative_datasets in \<open>auto simp: run_anomaly_def security_anomalies_def price_anomalies_def spot_anomalies_def
        derivative_anomalies_def technical_anomalies_def strength_anomalies_def duplicate_anomalies_def finding_def Let_def
        split: audit_status.split\<close>)
  moreover have "known_row r" "bar_free (market @ ''_DAILY'')"
    using r assms(1) market by (auto simp: active_anomaly_def monitor_inv_def bar_free_def)
  ultimately have "aw_dedupe_key r \<notin> dedupe_key ` set (anomalies_of trading day_of adb target)"
    using r by (intro row_not_detected [where kind = DATASET_NO_DATA and dataset = "market @ ''_DAILY''"]) (simp_all add: active_anomaly_def)
  then show ?thesis
    using undetected_is_repaired [where trading = trading and target = target, OF assms(1-4)] r by (simp add: active_anomaly_def)
qed

section \<open>What is not reported\<close>

lemma foldl_max_start: "m \<le> foldl max m r" for m :: int
proof (induction r arbitrary: m)
  case (Cons y r)
  show ?case using Cons [of "max m y"] by simp
qed simp

lemma foldl_max_member: "x \<in> set r \<Longrightarrow> x \<le> foldl max m r" for x m :: int
proof (induction r arbitrary: m)
  case (Cons y r)
  show ?case using Cons.prems Cons.IH [of "max m y"] foldl_max_start [of "max m y" r] by auto
qed simp

lemma latest_date_ge: "d \<in> set ds \<Longrightarrow> \<exists>e. latest_date ds = Some e \<and> d \<le> e"
  using foldl_max_start foldl_max_member by (cases ds) (auto simp: latest_date_def)

lemma spot_only_from_spot:
  assumes "a \<in> set (extract_anomalies report runs)" and "\<And>d. d \<in> set (ar_derivatives report) \<Longrightarrow> dv_dataset d \<noteq> ''MARKET_SPOT''"
    and "sp_status (ar_spot report) = NO_DATA" and "an_dataset a = ''MARKET_SPOT''"
  shows "an_type a = INGESTION_RUN_FAILED"
  using extract_all [where P = "\<lambda>a. an_dataset a = ''MARKET_SPOT'' \<longrightarrow> an_type a = INGESTION_RUN_FAILED", OF _ _ _ _ _ _ _ _ _ assms(1)]
    assms(2-4)
  by (simp add: run_anomaly_def security_anomalies_def price_anomalies_def spot_anomalies_def derivative_anomalies_def
    technical_anomalies_def strength_anomalies_def duplicate_anomalies_def finding_def Let_def split: audit_status.split)

lemma technicals_only_from_technicals:
  assumes "a \<in> set (extract_anomalies report runs)" and "\<And>d. d \<in> set (ar_derivatives report) \<Longrightarrow> dv_dataset d \<noteq> ''TECHNICALS''"
    and "ta_status (ar_technicals report) = NO_DATA" and "an_dataset a = ''TECHNICALS''"
  shows "an_type a = INGESTION_RUN_FAILED"
  using extract_all [where P = "\<lambda>a. an_dataset a = ''TECHNICALS'' \<longrightarrow> an_type a = INGESTION_RUN_FAILED", OF _ _ _ _ _ _ _ _ _ assms(1)]
    assms(2-4)
  by (simp add: run_anomaly_def security_anomalies_def price_anomalies_def spot_anomalies_def derivative_anomalies_def
    technical_anomalies_def strength_anomalies_def duplicate_anomalies_def finding_def Let_def split: audit_status.split)

definition spot_rows :: "audit_db \<Rightarrow> date \<Rightarrow> (string \<times> date) list" where
  "spot_rows adb d = rows_on d (ad_breadth adb) @ rows_on d (ad_margin adb) @ rows_on d (ad_lending adb) @ rows_on d (ad_institutional adb)"

lemma spot_status:
  "spot_rows adb d = [] \<Longrightarrow> sp_status (audit_market_spot adb d) = NO_DATA"
  "length (spot_rows adb d) = 1 \<Longrightarrow> sp_status (audit_market_spot adb d) = PARTIAL"
proof -
  show "spot_rows adb d = [] \<Longrightarrow> sp_status (audit_market_spot adb d) = NO_DATA"
    by (simp add: spot_rows_def audit_market_spot_def Let_def)
  have dup: "length (rows_on d (ad_breadth adb)) \<le> 1 \<Longrightarrow> duplicate_groups (rows_on d (ad_breadth adb)) = 0"
    by (intro duplicate_groups_distinct) (cases "rows_on d (ad_breadth adb)"; auto)
  show "length (spot_rows adb d) = 1 \<Longrightarrow> sp_status (audit_market_spot adb d) = PARTIAL"
    using dup by (auto simp: spot_rows_def audit_market_spot_def Let_def)
qed

text \<open>
  Missing data can be silent. A trading day without a single market spot row, and one whose technical
  snapshots are missing while later ones exist, give no anomaly of that dataset; a single spot row does.
\<close>

theorem missing_data_is_silent:
  "(spot_rows adb target = [] \<longrightarrow>
      (\<forall>a \<in> set (anomalies_of trading day_of adb target). an_dataset a = ''MARKET_SPOT'' \<longrightarrow> an_type a = INGESTION_RUN_FAILED)) \<and>
   (trading target \<and> length (spot_rows adb target) = 1 \<longrightarrow>
      (\<exists>a \<in> set (anomalies_of trading day_of adb target). an_dataset a = ''MARKET_SPOT'' \<and> an_type a = DATASET_PARTIAL)) \<and>
   (raw_snapshots adb target = [] \<and> (\<exists>t \<in> set (ad_technicals adb). target \<le> te_trade_date t) \<longrightarrow>
      (\<forall>a \<in> set (anomalies_of trading day_of adb target). an_dataset a = ''TECHNICALS'' \<longrightarrow> an_type a = INGESTION_RUN_FAILED))"
proof (intro conjI impI)
  let ?report = "audit_date trading day_of adb target"
  have others: "dv_dataset d \<notin> {''MARKET_SPOT'', ''TECHNICALS''}" if "d \<in> set (ar_derivatives ?report)" for d
    using that by (auto simp: audit_derivatives_def counted_def)
  { assume "spot_rows adb target = []"
    then have "sp_status (ar_spot ?report) = NO_DATA" by (simp add: spot_status)
    then show "\<forall>a \<in> set (anomalies_of trading day_of adb target). an_dataset a = ''MARKET_SPOT'' \<longrightarrow> an_type a = INGESTION_RUN_FAILED"
      unfolding anomalies_of_def using spot_only_from_spot others by fastforce }
  { assume "trading target \<and> length (spot_rows adb target) = 1"
    then have "sp_status (ar_spot ?report) = PARTIAL" "ar_trading ?report" "ar_day_type ?report = TRADING_DAY"
      by (simp_all add: spot_status) (simp add: audit_date_def Let_def)
    then show "\<exists>a \<in> set (anomalies_of trading day_of adb target). an_dataset a = ''MARKET_SPOT'' \<and> an_type a = DATASET_PARTIAL"
      by (auto simp: anomalies_of_def extract_anomalies_def spot_anomalies_def finding_def Let_def) }
  { assume t: "raw_snapshots adb target = [] \<and> (\<exists>t \<in> set (ad_technicals adb). target \<le> te_trade_date t)"
    then obtain e where "latest_date (map te_trade_date (ad_technicals adb)) = Some e" "target \<le> e"
      using latest_date_ge [of _ "map te_trade_date (ad_technicals adb)"] by fastforce
    then have "ta_status (ar_technicals ?report) = NO_DATA" using t by (simp add: audit_date_def audit_technicals_def Let_def)
    then show "\<forall>a \<in> set (anomalies_of trading day_of adb target). an_dataset a = ''TECHNICALS'' \<longrightarrow> an_type a = INGESTION_RUN_FAILED"
      unfolding anomalies_of_def using technicals_only_from_technicals others by fastforce }
qed

end
