(* ===== verification/MonitoringExamples.thy ===== *)
theory MonitoringExamples
  imports MonitoringProperties
begin

text \<open>
  The properties of the monitoring on a small market: two stocks, a Monday without a price of the
  first, and a run of the prices that failed at its start.
\<close>

definition outage_db :: audit_db where
  "outage_db = sample_db\<lparr>ad_prices := [],
     ad_runs := [\<lparr>re_id = 20, re_provider = ''TWSE'', re_dataset = ''DAILY_PRICES'', re_started_at = (8 - epoch_ordinal) * day_length,
       re_status = ''FAILED'', re_error_message = None\<rparr>]\<rparr>"

definition fresh_monitor :: "nat \<Rightarrow> uuid" where
  "fresh_monitor k = 3 * k + 100"

definition fresh_later :: "nat \<Rightarrow> uuid" where
  "fresh_later k = 3 * k + 101"

definition fresh_last :: "nat \<Rightarrow> uuid" where
  "fresh_last k = 3 * k + 102"

lemma inj_fresh: "inj fresh_monitor" "inj fresh_later" "inj fresh_last"
  by (simp_all add: inj_def fresh_monitor_def fresh_later_def fresh_last_def)

lemma disjoint_fresh: "fresh_later k \<notin> range fresh_monitor" "fresh_last k \<notin> range fresh_monitor" "fresh_last k \<notin> range fresh_later"
  by (auto simp: fresh_monitor_def fresh_later_def fresh_last_def) presburger+

text \<open>The table as the run of the morning left it: no prices yet.\<close>

definition missing_row :: anomaly_row where
  "missing_row =
     \<lparr>aw_id = 1, aw_dedupe_key = key_text ''DATASET_NO_DATA'' ''TWSE_DAILY'' ''TWSE'' 8, aw_type = ''DATASET_NO_DATA'',
      aw_dataset = ''TWSE_DAILY'', aw_scope = ''TWSE'', aw_target_date = 8, aw_severity = ''ERROR'', aw_status = ''ACTIVE'',
      aw_occurrences = 1, aw_first_seen = 0, aw_last_seen = 0, aw_last_notified = Some 0, aw_resolved_at = None,
      aw_details = []\<rparr>"

definition morning_db :: monitor_db where
  "morning_db = \<lparr>mo_rows = [missing_row], mo_events = []\<rparr>"

definition empty_monitor :: monitor_db where
  "empty_monitor = \<lparr>mo_rows = [], mo_events = []\<rparr>"

lemma day_8: "calendar_day 8" "is_trading_day 8"
  by code_simp+

lemma monitor_examples:
  "monitor_inv morning_db" "fresh_ids fresh_monitor morning_db" "monitor_inv empty_monitor" "fresh_ids fresh_monitor empty_monitor"
  using day_8 inj_fresh
  by (simp_all add: monitor_inv_def monitor_constraints_def morning_db_def empty_monitor_def missing_row_def known_row_def
      fresh_ids_def fresh_monitor_def)

lemma outage_empty: "price_rows outage_db market d = []"
  by (simp add: price_rows_def priced_def outage_db_def)

definition day_of_instant :: "instant \<Rightarrow> date" where
  "day_of_instant t = t div day_length + epoch_ordinal"

lemma outage_run: "re_dataset (ad_runs outage_db ! 0) = ''DAILY_PRICES''" "failed_run (re_status (ad_runs outage_db ! 0))"
  "day_of_instant (re_started_at (ad_runs outage_db ! 0)) = 8" "ad_runs outage_db ! 0 \<in> set (ad_runs outage_db)"
  by (simp_all add: outage_db_def failed_run_def day_of_instant_def time_units)

theorem monitoring_tracks_anomalies_witness:
  "\<exists>res db'. evaluate_monitoring is_trading_day day_of_instant 100 None 50 fresh_monitor 8 outage_db morning_db = Inr (res, db') \<and>
    aw_dedupe_key ` {r \<in> set (mo_rows db'). aw_target_date r = 8 \<and> aw_status r = ''ACTIVE''} =
      dedupe_key ` set (anomalies_of is_trading_day day_of_instant outage_db 8) \<and>
    mr_created res + mr_suppressed res = mr_active res + mr_resolved res"
  using monitoring_tracks_anomalies [where trading = is_trading_day and target = 8, OF monitor_examples(1,2) day_8,
      of day_of_instant 100 None 50 outage_db] by blast

theorem outage_reported_as_repair_witness:
  "\<exists>res db' n. evaluate_monitoring is_trading_day day_of_instant 100 None 50 fresh_monitor 8 outage_db morning_db = Inr (res, db') \<and>
    n \<in> set (mr_notifications res) \<and> nf_is_resolution n \<and>
    nf_dedupe_key n = key_text ''DATASET_NO_DATA'' ''TWSE_DAILY'' ''TWSE'' 8"
proof -
  have "active_anomaly morning_db 8 DATASET_NO_DATA (''TWSE'' @ ''_DAILY'') missing_row"
    by (simp add: active_anomaly_def morning_db_def missing_row_def)
  from outage_reported_as_repair [where trading = is_trading_day and target = 8 and market = "''TWSE''",
      OF monitor_examples(1,2) day_8 disjI1 [OF refl] this outage_empty outage_run(4), where day_of = day_of_instant]
  show ?thesis using outage_run by (simp add: missing_row_def)
qed

lemma outage_alarm: "anomalies_of is_trading_day day_of_instant outage_db 8 \<noteq> []"
proof -
  have "check_failed_ingestion_runs outage_db 8 \<noteq> []"
    by (simp add: check_failed_ingestion_runs_def outage_db_def failed_run_def time_units)
  moreover have "ar_day_type (audit_date is_trading_day day_of_instant outage_db 8) = TRADING_DAY"
    using day_8(2) by (simp add: audit_date_def Let_def)
  ultimately show ?thesis using day_8(2) by (simp add: anomalies_of_def extract_anomalies_def)
qed

text \<open>Three evaluations within the cool-down: the first alarms, and the others do not repeat it.\<close>

lemma ids_after_run:
  assumes "run_effect cooldown user now fresh target as db res db' ns alarms repairs"
  shows "aw_id ` set (mo_rows db') \<union> sv_id ` set (mo_events db') \<subseteq>
    aw_id ` set (mo_rows db) \<union> sv_id ` set (mo_events db) \<union> range fresh"
proof -
  note R = run_effectD [OF assms]
  have "aw_id ` set ns \<subseteq> range fresh"
  proof
    fix i assume "i \<in> aw_id ` set ns"
    then obtain n where "n \<in> set ns" "i = aw_id n" by blast
    moreover from this R(3) obtain k d where "n = new_row (fresh k) now (fst d) (snd d)" by blast
    ultimately show "i \<in> range fresh" by simp
  qed
  moreover have "sv_id (stored_event_of user now n) \<in> range fresh" if "n \<in> set (mr_notifications res)" for n
    using R(14) that by (auto simp: stored_event_of_def)
  ultimately show ?thesis unfolding R(1,13) by auto
qed

theorem no_second_alarm_witness:
  "\<exists>res db1 db2 res' db3 m.
    evaluate_monitoring is_trading_day day_of_instant 100 None 50 fresh_monitor 8 outage_db empty_monitor = Inr (res, db1) \<and>
    (\<exists>res2. evaluate_monitoring is_trading_day day_of_instant 100 None 100 fresh_later 8 outage_db db1 = Inr (res2, db2)) \<and>
    evaluate_monitoring is_trading_day day_of_instant 100 None 149 fresh_last 8 outage_db db2 = Inr (res', db3) \<and>
    m \<in> set (mr_notifications res) \<and> \<not> nf_is_resolution m \<and>
    nf_dedupe_key m \<notin> nf_dedupe_key ` {n \<in> set (mr_notifications res'). \<not> nf_is_resolution n}"
proof -
  let ?as = "anomalies_of is_trading_day day_of_instant outage_db 8"
  from run_succeeds [where trading = is_trading_day and target = 8, OF monitor_examples(3,4) day_8, of day_of_instant 100 None 50 outage_db]
  obtain ns alarms repairs res db1 where first:
      "evaluate_monitoring is_trading_day day_of_instant 100 None 50 fresh_monitor 8 outage_db empty_monitor = Inr (res, db1)"
    and inv1: "monitor_inv db1" and eff1: "run_effect 100 None 50 fresh_monitor 8 ?as empty_monitor res db1 ns alarms repairs" by blast
  note R = run_effectD [OF eff1]
  have ids1: "aw_id ` set (mo_rows db1) \<union> sv_id ` set (mo_events db1) \<subseteq> range fresh_monitor"
    using ids_after_run [OF eff1] by (simp add: empty_monitor_def)
  then have fresh1: "fresh_ids fresh_later db1" unfolding fresh_ids_def using inj_fresh(2) disjoint_fresh(1) by blast
  from run_succeeds [where trading = is_trading_day and target = 8, OF inv1 fresh1 day_8, of day_of_instant 100 None 100 outage_db]
  obtain ns2 alarms2 repairs2 res2 db2 where second:
      "evaluate_monitoring is_trading_day day_of_instant 100 None 100 fresh_later 8 outage_db db1 = Inr (res2, db2)"
    and inv2: "monitor_inv db2" and eff2: "run_effect 100 None 100 fresh_later 8 ?as db1 res2 db2 ns2 alarms2 repairs2" by blast
  have "aw_id ` set (mo_rows db2) \<union> sv_id ` set (mo_events db2) \<subseteq> range fresh_monitor \<union> range fresh_later"
    using ids_after_run [OF eff2] ids1 by blast
  then have fresh2: "fresh_ids fresh_last db2" unfolding fresh_ids_def using inj_fresh(3) disjoint_fresh(2,3) by blast
  from run_succeeds [where trading = is_trading_day and target = 8, OF inv2 fresh2 day_8, of day_of_instant 100 None 149 outage_db]
  obtain res' db3 where third:
      "evaluate_monitoring is_trading_day day_of_instant 100 None 149 fresh_last 8 outage_db db2 = Inr (res', db3)" by blast
  have "by_key ?as \<noteq> []" using outage_alarm by_key_keys [of ?as] by auto
  then obtain key a where found: "(key, a) \<in> set (by_key ?as)" by (metis last_in_set surj_pair)
  moreover have "told 100 50 (mo_rows empty_monitor) 8 (key, a)" by (simp add: told_def row_of_def empty_monitor_def)
  ultimately have "key \<in> set (map nf_dedupe_key alarms)" unfolding R(5) by force
  then obtain m where m: "m \<in> set (mr_notifications res)" "\<not> nf_is_resolution m" "nf_dedupe_key m = key" using R(4,6) by auto
  have "key \<in> dedupe_key ` set ?as" using found unfolding by_key_keys [symmetric] by force
  then have between: "keeps_finding is_trading_day day_of_instant 100 None 8 (nf_dedupe_key m) 50 db1 db2"
    using m(3) by (intro one_more [OF no_run day_8 fresh1 second]) simp_all
  have "nf_dedupe_key n \<noteq> nf_dedupe_key m" if "n \<in> set (mr_notifications res')" "\<not> nf_is_resolution n" for n
    by (rule no_second_alarm [where trading = is_trading_day and target = 8, OF monitor_examples(3,4) day_8 first m(1,2) between fresh2 third _ that])
      simp
  then have "nf_dedupe_key m \<notin> nf_dedupe_key ` {n \<in> set (mr_notifications res'). \<not> nf_is_resolution n}" by (metis (mono_tags, lifting) imageE mem_Collect_eq)
  then show ?thesis using first second third m by blast
qed

text \<open>The Friday before: no row of the market spot tables, and technical snapshots only of the Monday.\<close>

theorem missing_data_is_silent_witness:
  "filter (\<lambda>a. an_dataset a = ''MARKET_SPOT'' \<and> an_type a \<noteq> INGESTION_RUN_FAILED) (anomalies_of is_trading_day day_of_instant sample_db 5) = [] \<and>
   filter (\<lambda>a. an_dataset a = ''TECHNICALS'' \<and> an_type a \<noteq> INGESTION_RUN_FAILED) (anomalies_of is_trading_day day_of_instant sample_db 5) = [] \<and>
   (\<exists>a \<in> set (anomalies_of is_trading_day day_of_instant (sample_db\<lparr>ad_margin := [(''TWSE'', 5)]\<rparr>) 5).
      an_dataset a = ''MARKET_SPOT'' \<and> an_type a = DATASET_PARTIAL)"
proof -
  have data: "spot_rows sample_db 5 = []" "length (spot_rows (sample_db\<lparr>ad_margin := [(''TWSE'', 5)]\<rparr>) 5) = 1"
    "raw_snapshots sample_db 5 = []" "\<exists>t \<in> set (ad_technicals sample_db). 5 \<le> te_trade_date t"
    by (simp_all add: sample_db_def spot_rows_def rows_on_def raw_snapshots_def snapped_def)
  have "is_trading_day 5" by code_simp
  then show ?thesis
    using missing_data_is_silent [of sample_db 5 is_trading_day day_of_instant]
      missing_data_is_silent [of "sample_db\<lparr>ad_margin := [(''TWSE'', 5)]\<rparr>" 5 is_trading_day day_of_instant] data
    unfolding filter_empty_conv by blast
qed

end
