(* ===== verification/CloudSync.thy ===== *)
theory CloudSync
  imports Json PyText
begin

text \<open>
  \<open>CloudSyncService\<close> of \<open>app/services/cloud_sync.py\<close>: pushes of a device's operations onto the rows of
  a user, with optimistic versions, tombstones and a change log, and the pull of the log by cursor.
  A row of any of the seven tables is its common columns and its own columns by name; identifiers of
  log entries come from the sequence of the table. A push that raises is rolled back: it is an \<open>Inl\<close>
  and leaves no new state. \<open>now\<close> is the time of the call.
\<close>

section \<open>Tables\<close>

datatype entity = Watchlist | WatchlistItem | Portfolio | PortfolioTransaction | AlertRule | SavedScreener | UserSetting

definition entity_names :: "(string \<times> entity) list" where
  "entity_names = [(''WATCHLIST'', Watchlist), (''WATCHLIST_ITEM'', WatchlistItem), (''PORTFOLIO'', Portfolio),
     (''PORTFOLIO_TRANSACTION'', PortfolioTransaction), (''ALERT_RULE'', AlertRule),
     (''SAVED_SCREENER'', SavedScreener), (''USER_SETTING'', UserSetting)]"

datatype mutation = UPSERT | DELETE

definition mutation_names :: "(string \<times> mutation) list" where
  "mutation_names = [(''UPSERT'', UPSERT), (''DELETE'', DELETE)]"

definition forbidden_setting_keys :: "string list" where
  "forbidden_setting_keys = [''auth_token'', ''device_id'', ''refresh_token'', ''notification_permission_state'', ''os_setting'']"

datatype column = Val json | Id uuid | Time instant

record sync_row =
  sy_id :: uuid
  sy_user_id :: "uuid option"
  sy_version :: int
  sy_created_at :: instant
  sy_updated_at :: instant
  sy_deleted_at :: "instant option"
  sy_cols :: "(string \<times> column) list"

record device =
  dv_id :: uuid
  dv_user_id :: uuid
  dv_revoked_at :: "instant option"

datatype sync_status = ACCEPTED | REJECTED | CONFLICT | DUPLICATE

record sync_result =
  sr_operation_id :: uuid
  sr_status :: sync_status
  sr_entity_id :: "uuid option"
  sr_client_base_version :: "int option"
  sr_server_version :: "int option"
  sr_server_value :: "dict option"
  sr_conflict_type :: "string option"
  sr_server_cursor :: "int option"

record sync_change =
  ch_sequence :: int
  ch_user_id :: uuid
  ch_entity :: entity
  ch_entity_id :: uuid
  ch_operation :: mutation
  ch_version :: int
  ch_payload :: dict
  ch_changed_at :: instant

record sync_op =
  so_user_id :: uuid
  so_device_id :: uuid
  so_operation_id :: uuid
  so_result :: sync_result
  so_created_at :: instant

record sync_db =
  tables :: "entity \<Rightarrow> sync_row list"
  securities :: "uuid list"
  devices :: "device list"
  ops :: "sync_op list"
  changes :: "sync_change list"
  next_sequence :: int

record operation =
  op_id :: uuid
  op_entity_type :: string
  op_entity_id :: uuid
  op_operation :: string
  op_base_version :: int
  op_payload :: "dict option"

definition get_row :: "entity \<Rightarrow> uuid \<Rightarrow> sync_db \<Rightarrow> sync_row option" where
  "get_row e i db = find (\<lambda>r. sy_id r = i) (tables db e)"

text \<open>The rows of a table after a row has been added, or its attributes have been set.\<close>

fun put_row :: "sync_row \<Rightarrow> sync_row list \<Rightarrow> sync_row list" where
  "put_row row [] = [row]"
| "put_row row (r # rs) = (if sy_id r = sy_id row then row # rs else r # put_row row rs)"

definition set_row :: "entity \<Rightarrow> sync_row \<Rightarrow> sync_db \<Rightarrow> sync_db" where
  "set_row e row db = db\<lparr>tables := (tables db)(e := put_row row (tables db e))\<rparr>"

section \<open>Constraints\<close>

text \<open>
  The constraints that a push can violate, checked at every flush: the unique ones of
  \<open>app/repositories/models.py\<close> (one operation per user and operation id, one item per watchlist and
  security, one setting per user and key), and the \<open>CHECK\<close> and \<open>NOT NULL\<close> constraints of the migrations
  0006 to 0014. A numeric column takes a number or the text of one; a check of a missing value
  is not violated. Values of the wrong type, which the driver refuses, and foreign keys are left out.
\<close>

definition col :: "string \<Rightarrow> sync_row \<Rightarrow> column" where
  "col k r = (case map_of (sy_cols r) k of None \<Rightarrow> Val JNull | Some c \<Rightarrow> c)"

definition number :: "column \<Rightarrow> decimal option" where
  "number c =
     (case c of
        Val (JNum x) \<Rightarrow> Some x
      | Val (JStr s) \<Rightarrow> (case decimal_of_text s of Some (DNumber n k e) \<Rightarrow> Some (dec_value (DNumber n k e)) | _ \<Rightarrow> None)
      | _ \<Rightarrow> None)"

definition check :: "string \<Rightarrow> (decimal \<Rightarrow> bool) \<Rightarrow> sync_row \<Rightarrow> bool" where
  "check k p r \<longleftrightarrow> (case number (col k r) of None \<Rightarrow> True | Some x \<Rightarrow> p x)"

definition not_null :: "string list \<Rightarrow> sync_row \<Rightarrow> bool" where
  "not_null ks r \<longleftrightarrow> list_all (\<lambda>k. col k r \<noteq> Val JNull) ks"

text \<open>\<open>trim\<close> of the database removes spaces only.\<close>

fun row_ok :: "entity \<Rightarrow> sync_row \<Rightarrow> bool" where
  "row_ok Watchlist r \<longleftrightarrow> not_null [''name'', ''sort_order''] r \<and>
     (case col ''name'' r of Val (JStr s) \<Rightarrow> dropWhile (\<lambda>c. c = CHR '' '') s \<noteq> [] | _ \<Rightarrow> True)"
| "row_ok WatchlistItem r \<longleftrightarrow> not_null [''sort_order''] r \<and> check ''target_price'' ((<) 0) r \<and>
     check ''stop_price'' ((<) 0) r \<and> check ''add_price'' ((<) 0) r"
| "row_ok Portfolio r \<longleftrightarrow> not_null [''name'', ''base_currency'', ''is_default''] r"
| "row_ok PortfolioTransaction r \<longleftrightarrow> not_null [''side'', ''quantity_shares'', ''price'', ''fee'', ''lot_type''] r \<and>
     check ''quantity_shares'' ((<) 0) r \<and> check ''price'' ((<) 0) r \<and> check ''fee'' ((\<le>) 0) r"
| "row_ok AlertRule r \<longleftrightarrow>
     not_null [''name'', ''rule_type'', ''scope_type'', ''enabled'', ''cooldown_minutes'', ''daily_limit'', ''evaluation_mode'', ''session_scope''] r \<and>
     length (filter (\<lambda>k. col k r \<noteq> Val JNull) [''security_id'', ''portfolio_id'', ''watchlist_id'']) = 1 \<and>
     check ''ma_period'' (\<lambda>x. x \<in> {5, 10, 20, 60, 120, 240}) r \<and> check ''threshold_price'' ((<) 0) r \<and>
     check ''threshold_percent'' (\<lambda>x. 0 < x \<and> x \<le> 20) r \<and> check ''consecutive_days'' (\<lambda>x. 2 \<le> x \<and> x \<le> 60) r \<and>
     check ''cooldown_minutes'' ((\<le>) 0) r \<and> check ''daily_limit'' ((<) 0) r"
| "row_ok SavedScreener r \<longleftrightarrow> not_null [''name'', ''sort_field'', ''sort_direction''] r"
| "row_ok UserSetting r \<longleftrightarrow> not_null [''key''] r"

definition all_entities :: "entity list" where
  "all_entities = [Watchlist, WatchlistItem, Portfolio, PortfolioTransaction, AlertRule, SavedScreener, UserSetting]"

definition constraints_ok :: "sync_db \<Rightarrow> bool" where
  "constraints_ok db \<longleftrightarrow>
     list_all (\<lambda>e. list_all (row_ok e) (tables db e)) all_entities \<and>
     distinct (map (\<lambda>o'. (so_user_id o', so_operation_id o')) (ops db)) \<and>
     distinct (map (\<lambda>r. (col ''watchlist_id'' r, col ''security_id'' r)) (tables db WatchlistItem)) \<and>
     distinct (map (\<lambda>r. (sy_user_id r, col ''key'' r)) (tables db UserSetting))"

definition flush :: "sync_db \<Rightarrow> sync_db result" where
  "flush db = (if constraints_ok db then Inr db else Inl IntegrityError)"

section \<open>Payloads\<close>

text \<open>\<open>str(x) if x is not None else None\<close>\<close>

definition text_or_null :: "formats \<Rightarrow> column \<Rightarrow> json" where
  "text_or_null fm c =
     (case c of Val JNull \<Rightarrow> JNull | Val j \<Rightarrow> JStr (py_str fm j) | Id u \<Rightarrow> JStr (uuid_show fm u)
      | Time t \<Rightarrow> JStr (iso_show fm t))"

text \<open>An attribute that is put into the payload unchanged.\<close>

fun raw :: "column \<Rightarrow> json" where
  "raw (Val j) = j"
| "raw (Id u) = JNum (of_nat u)"
| "raw (Time t) = JNum (of_int t)"

definition py_text :: "formats \<Rightarrow> column \<Rightarrow> json" where
  "py_text fm c =
     (case c of Val j \<Rightarrow> JStr (py_str fm j) | Id u \<Rightarrow> JStr (uuid_show fm u) | Time t \<Rightarrow> JStr (iso_show fm t))"

definition common_payload :: "formats \<Rightarrow> sync_row \<Rightarrow> dict" where
  "common_payload fm r =
     [(''id'', JStr (uuid_show fm (sy_id r))), (''version'', JNum (of_int (sy_version r))),
      (''updated_at'', JStr (iso_show fm (sy_updated_at r))),
      (''deleted_at'', case sy_deleted_at r of None \<Rightarrow> JNull | Some t \<Rightarrow> JStr (iso_show fm t))]"

definition raw_cols :: "string list \<Rightarrow> sync_row \<Rightarrow> dict" where
  "raw_cols ks r = map (\<lambda>k. (k, raw (col k r))) ks"

fun entity_payload :: "formats \<Rightarrow> entity \<Rightarrow> sync_row \<Rightarrow> dict" where
  "entity_payload fm Watchlist r = raw_cols [''name'', ''sort_order''] r"
| "entity_payload fm WatchlistItem r =
     [(''watchlist_id'', py_text fm (col ''watchlist_id'' r)), (''security_id'', py_text fm (col ''security_id'' r))] @
     raw_cols [''sort_order'', ''note''] r @
     map (\<lambda>k. (k, text_or_null fm (col k r))) [''target_price'', ''stop_price'', ''add_price'']"
| "entity_payload fm Portfolio r = raw_cols [''name'', ''base_currency'', ''is_default''] r"
| "entity_payload fm PortfolioTransaction r =
     [(''portfolio_id'', py_text fm (col ''portfolio_id'' r)), (''security_id'', py_text fm (col ''security_id'' r)),
      (''side'', raw (col ''side'' r)), (''executed_at'', py_text fm (col ''executed_at'' r)),
      (''quantity_shares'', raw (col ''quantity_shares'' r)), (''price'', py_text fm (col ''price'' r)),
      (''fee'', py_text fm (col ''fee'' r)), (''lot_type'', raw (col ''lot_type'' r))]"
| "entity_payload fm AlertRule r =
     raw_cols [''name'', ''rule_type'', ''scope_type''] r @
     map (\<lambda>k. (k, text_or_null fm (col k r))) [''security_id'', ''portfolio_id'', ''watchlist_id''] @
     raw_cols [''ma_period''] r @
     map (\<lambda>k. (k, text_or_null fm (col k r))) [''threshold_price'', ''threshold_percent''] @
     raw_cols [''consecutive_days'', ''enabled'', ''cooldown_minutes'', ''daily_limit'', ''evaluation_mode'', ''session_scope''] r"
| "entity_payload fm SavedScreener r = raw_cols [''name'', ''description'', ''expression'', ''sort_field'', ''sort_direction''] r"
| "entity_payload fm UserSetting r = raw_cols [''key'', ''value''] r"

definition payload_of :: "formats \<Rightarrow> entity \<Rightarrow> sync_row \<Rightarrow> dict" where
  "payload_of fm e r = common_payload fm r @ entity_payload fm e r"

section \<open>Creating rows\<close>

definition fresh_row :: "uuid \<Rightarrow> uuid \<Rightarrow> int \<Rightarrow> instant \<Rightarrow> (string \<times> column) list \<Rightarrow> sync_row" where
  "fresh_row user entity_id version now cols =
     \<lparr>sy_id = entity_id, sy_user_id = Some user, sy_version = version, sy_created_at = now,
      sy_updated_at = now, sy_deleted_at = None, sy_cols = cols\<rparr>"

text \<open>\<open>payload.get(k, default)\<close> for every column\<close>

definition defaults :: "(string \<times> json) list \<Rightarrow> dict \<Rightarrow> (string \<times> column) list" where
  "defaults ds payload = map (\<lambda>(k, d). (k, Val (get_or k d payload))) ds"

text \<open>A parent row of the user that is not deleted.\<close>

definition live_parent :: "entity \<Rightarrow> uuid \<Rightarrow> uuid \<Rightarrow> sync_db \<Rightarrow> bool" where
  "live_parent e i user db =
     (case get_row e i db of None \<Rightarrow> False
      | Some p \<Rightarrow> sy_user_id p = Some user \<and> sy_deleted_at p = None)"

definition executed_at_of :: "formats \<Rightarrow> dict \<Rightarrow> instant \<Rightarrow> instant result" where
  "executed_at_of fm payload now =
     (case get_or ''executed_at'' JNull payload of JStr s \<Rightarrow> iso_of fm s | _ \<Rightarrow> Inr now)"

text \<open>\<open>payload.get(key) or (payload.get("scope_id") if scope_type == name else None)\<close>, as an identifier\<close>

definition scope_ref :: "formats \<Rightarrow> string \<Rightarrow> string \<Rightarrow> json \<Rightarrow> dict \<Rightarrow> uuid option result" where
  "scope_ref fm key name scope_type payload =
     (let direct = get_or key JNull payload;
          v = (if truthy direct then direct
               else if scope_type = JStr name then get_or ''scope_id'' JNull payload else JNull)
      in if truthy v then rbind (uuid_of fm (JStr (py_str fm v))) (\<lambda>u. Inr (Some u)) else Inr None)"

definition id_or_null :: "uuid option \<Rightarrow> column" where
  "id_or_null u = (case u of None \<Rightarrow> Val JNull | Some i \<Rightarrow> Id i)"

definition build_item :: "formats \<Rightarrow> uuid \<Rightarrow> uuid \<Rightarrow> dict \<Rightarrow> int \<Rightarrow> instant \<Rightarrow> sync_db \<Rightarrow> sync_row option result" where
  "build_item fm user entity_id payload version now db =
     rbind (rbind (item ''watchlist_id'' payload) (uuid_of fm)) (\<lambda>w.
     rbind (rbind (item ''security_id'' payload) (uuid_of fm)) (\<lambda>s.
       if live_parent Watchlist w user db \<and> s \<in> set (securities db)
       then Inr (Some (fresh_row user entity_id version now
         ([(''watchlist_id'', Id w), (''security_id'', Id s)] @
          defaults [(''sort_order'', JNum 0), (''note'', JNull), (''target_price'', JNull), (''stop_price'', JNull),
            (''add_price'', JNull)] payload)))
       else Inr None))"

definition build_transaction :: "formats \<Rightarrow> uuid \<Rightarrow> uuid \<Rightarrow> dict \<Rightarrow> int \<Rightarrow> instant \<Rightarrow> sync_db \<Rightarrow> sync_row option result" where
  "build_transaction fm user entity_id payload version now db =
     rbind (rbind (item ''portfolio_id'' payload) (uuid_of fm)) (\<lambda>p.
     rbind (rbind (item ''security_id'' payload) (uuid_of fm)) (\<lambda>s.
       if live_parent Portfolio p user db \<and> s \<in> set (securities db)
       then rbind (executed_at_of fm payload now) (\<lambda>t.
            rbind (int_of fm (get_or ''quantity_shares'' (JNum 0) payload)) (\<lambda>q.
              Inr (Some (fresh_row user entity_id version now
                ([(''portfolio_id'', Id p), (''security_id'', Id s), (''executed_at'', Time t),
                  (''quantity_shares'', Val (JNum (of_int q)))] @
                 defaults [(''side'', JStr ''BUY''), (''price'', JStr ''0.0''), (''fee'', JStr ''0.0''),
                   (''lot_type'', JStr ''BOARD_LOT'')] payload)))))
       else Inr None))"

definition build_alert :: "formats \<Rightarrow> uuid \<Rightarrow> uuid \<Rightarrow> dict \<Rightarrow> int \<Rightarrow> instant \<Rightarrow> sync_db \<Rightarrow> sync_row option result" where
  "build_alert fm user entity_id payload version now db =
     (let scope_type = get_or ''scope_type'' (JStr ''SECURITY'') payload in
      rbind (scope_ref fm ''security_id'' ''SECURITY'' scope_type payload) (\<lambda>sec.
      rbind (scope_ref fm ''portfolio_id'' ''PORTFOLIO'' scope_type payload) (\<lambda>pf.
      rbind (scope_ref fm ''watchlist_id'' ''WATCHLIST'' scope_type payload) (\<lambda>wl.
        if (case pf of None \<Rightarrow> True | Some p \<Rightarrow> live_parent Portfolio p user db) \<and>
           (case wl of None \<Rightarrow> True | Some w \<Rightarrow> live_parent Watchlist w user db)
        then Inr (Some (fresh_row user entity_id version now
          ([(''scope_type'', Val scope_type), (''security_id'', id_or_null sec), (''portfolio_id'', id_or_null pf),
            (''watchlist_id'', id_or_null wl)] @
           defaults [(''name'', JStr ''Alert Rule''), (''rule_type'', JStr ''PRICE_THRESHOLD''), (''ma_period'', JNull),
             (''threshold_price'', JNull), (''threshold_percent'', JNull), (''consecutive_days'', JNull),
             (''enabled'', JBool True), (''cooldown_minutes'', JNum 60), (''daily_limit'', JNum 5),
             (''evaluation_mode'', JStr ''EOD''), (''session_scope'', JStr ''REGULAR'')] payload)))
        else Inr None))))"

text \<open>\<open>not key or key in FORBIDDEN_SETTING_KEYS\<close>; lists and dictionaries cannot be hashed.\<close>

definition bad_key :: "json \<Rightarrow> bool result" where
  "bad_key key =
     (if \<not> truthy key then Inr True
      else case key of JList _ \<Rightarrow> Inl TypeError | JObj _ \<Rightarrow> Inl TypeError
      | JStr s \<Rightarrow> Inr (s \<in> set forbidden_setting_keys) | _ \<Rightarrow> Inr False)"

text \<open>A setting value that is not a dictionary is wrapped into one.\<close>

definition setting_value :: "json \<Rightarrow> json" where
  "setting_value v = (if is_obj v then v else JObj [(''value'', v)])"

definition build_row :: "formats \<Rightarrow> uuid \<Rightarrow> entity \<Rightarrow> uuid \<Rightarrow> dict \<Rightarrow> int \<Rightarrow> instant \<Rightarrow> sync_db \<Rightarrow> sync_row option result" where
  "build_row fm user e entity_id payload version now db =
     (case e of
        Watchlist \<Rightarrow> Inr (Some (fresh_row user entity_id version now
          (defaults [(''name'', JStr ''Watchlist''), (''sort_order'', JNum 0)] payload)))
      | WatchlistItem \<Rightarrow> build_item fm user entity_id payload version now db
      | Portfolio \<Rightarrow> Inr (Some (fresh_row user entity_id version now
          (defaults [(''name'', JStr ''Portfolio''), (''base_currency'', JStr ''TWD''), (''is_default'', JBool False)] payload)))
      | PortfolioTransaction \<Rightarrow> build_transaction fm user entity_id payload version now db
      | AlertRule \<Rightarrow> build_alert fm user entity_id payload version now db
      | SavedScreener \<Rightarrow>
          (let expr = get_or ''expression'' JNull payload in
           if \<not> is_obj expr \<or> \<not> truthy expr then Inr None
           else Inr (Some (fresh_row user entity_id version now
             ((''expression'', Val expr) #
              defaults [(''name'', JStr ''Screener''), (''description'', JNull), (''sort_field'', JStr ''code''),
                (''sort_direction'', JStr ''ASC'')] payload))))
      | UserSetting \<Rightarrow>
          (let key = get_or ''key'' (JStr '''') payload; val = get_or ''value'' JNull payload in
           rbind (bad_key key) (\<lambda>bad.
             if bad then Inr None
             else if val = JNull then Inr None
             else Inr (Some (fresh_row user entity_id version now
               [(''key'', Val key), (''value'', Val (setting_value val))])))))"

section \<open>Updating rows\<close>

text \<open>\<open>for k in keys: if k in payload: setattr(row, k, payload[k])\<close>\<close>

definition set_cols :: "string list \<Rightarrow> dict \<Rightarrow> sync_row \<Rightarrow> sync_row" where
  "set_cols ks payload row =
     row\<lparr>sy_cols := foldl (\<lambda>cols k. case map_of payload k of None \<Rightarrow> cols | Some v \<Rightarrow> AList.update k (Val v) cols)
       (sy_cols row) ks\<rparr>"

definition set_col :: "string \<Rightarrow> column \<Rightarrow> sync_row \<Rightarrow> sync_row" where
  "set_col k c row = row\<lparr>sy_cols := AList.update k c (sy_cols row)\<rparr>"

text \<open>The verdict and the row as the method leaves it, also when the verdict is negative.\<close>

definition update_row :: "formats \<Rightarrow> entity \<Rightarrow> sync_row \<Rightarrow> dict \<Rightarrow> (bool \<times> sync_row) result" where
  "update_row fm e row payload =
     (case e of
        Watchlist \<Rightarrow> Inr (True, set_cols [''name'', ''sort_order''] payload row)
      | WatchlistItem \<Rightarrow> Inr (True, set_cols [''sort_order'', ''note'', ''target_price'', ''stop_price'', ''add_price''] payload row)
      | Portfolio \<Rightarrow> Inr (True, set_cols [''name'', ''base_currency'', ''is_default''] payload row)
      | PortfolioTransaction \<Rightarrow>
          (let row = set_cols [''side'', ''quantity_shares'', ''price'', ''fee'', ''lot_type''] payload row in
           case map_of payload ''executed_at'' of
             Some (JStr s) \<Rightarrow> rbind (iso_of fm s) (\<lambda>t. Inr (True, set_col ''executed_at'' (Time t) row))
           | _ \<Rightarrow> Inr (True, row))
      | AlertRule \<Rightarrow> Inr (True, set_cols [''name'', ''rule_type'', ''scope_type'', ''ma_period'', ''threshold_price'',
          ''threshold_percent'', ''consecutive_days'', ''enabled'', ''cooldown_minutes'', ''daily_limit'',
          ''evaluation_mode'', ''session_scope''] payload row)
      | SavedScreener \<Rightarrow>
          (if (case map_of payload ''expression'' of None \<Rightarrow> False | Some x \<Rightarrow> \<not> is_obj x) then Inr (False, row)
           else Inr (True, set_cols [''name'', ''description'', ''expression'', ''sort_field'', ''sort_direction''] payload row))
      | UserSetting \<Rightarrow>
          (case map_of payload ''key'' of
             Some k \<Rightarrow>
               rbind (bad_key k) (\<lambda>bad.
                 if bad then Inr (False, row)
                 else
                   let row = set_col ''key'' (Val k) row in
                   (case map_of payload ''value'' of
                      None \<Rightarrow> Inr (True, row)
                    | Some v \<Rightarrow> if v = JNull then Inr (False, row)
                                else Inr (True, set_col ''value'' (Val (setting_value v)) row)))
           | None \<Rightarrow>
               (case map_of payload ''value'' of
                  None \<Rightarrow> Inr (True, row)
                | Some v \<Rightarrow> if v = JNull then Inr (False, row)
                            else Inr (True, set_col ''value'' (Val (setting_value v)) row))))"

section \<open>Operations\<close>

definition rejected :: "operation \<Rightarrow> sync_result" where
  "rejected o' = \<lparr>sr_operation_id = op_id o', sr_status = REJECTED, sr_entity_id = None, sr_client_base_version = None,
     sr_server_version = None, sr_server_value = None, sr_conflict_type = None, sr_server_cursor = None\<rparr>"

definition conflict :: "formats \<Rightarrow> operation \<Rightarrow> entity \<Rightarrow> sync_row \<Rightarrow> string \<Rightarrow> sync_result" where
  "conflict fm o' e row kind =
     \<lparr>sr_operation_id = op_id o', sr_status = CONFLICT, sr_entity_id = Some (sy_id row),
      sr_client_base_version = Some (op_base_version o'), sr_server_version = Some (sy_version row),
      sr_server_value = Some (payload_of fm e row), sr_conflict_type = Some kind, sr_server_cursor = None\<rparr>"

text \<open>Storing the row, logging the change and flushing, at the end of \<open>_mutate\<close>.\<close>

definition commit_row :: "formats \<Rightarrow> uuid \<Rightarrow> entity \<Rightarrow> mutation \<Rightarrow> operation \<Rightarrow> sync_row \<Rightarrow> instant \<Rightarrow> sync_db \<Rightarrow>
    (sync_result \<times> sync_db) result" where
  "commit_row fm user e m o' row now db =
     rbind (flush (set_row e row db)) (\<lambda>db.
       let change = \<lparr>ch_sequence = next_sequence db, ch_user_id = user, ch_entity = e, ch_entity_id = sy_id row,
                     ch_operation = m, ch_version = sy_version row, ch_payload = payload_of fm e row, ch_changed_at = now\<rparr>
       in rbind (flush (db\<lparr>changes := changes db @ [change], next_sequence := next_sequence db + 1\<rparr>)) (\<lambda>db.
         Inr (\<lparr>sr_operation_id = op_id o', sr_status = ACCEPTED, sr_entity_id = Some (sy_id row),
               sr_client_base_version = None, sr_server_version = Some (sy_version row), sr_server_value = None,
               sr_conflict_type = None, sr_server_cursor = Some (ch_sequence change)\<rparr>, db)))"

definition mutate :: "formats \<Rightarrow> uuid \<Rightarrow> entity \<Rightarrow> mutation \<Rightarrow> operation \<Rightarrow> sync_row option \<Rightarrow> instant \<Rightarrow> sync_db \<Rightarrow>
    (sync_result \<times> sync_db) result" where
  "mutate fm user e m o' existing now db =
     (let payload = (case op_payload o' of None \<Rightarrow> [] | Some p \<Rightarrow> p);
          version = (case existing of None \<Rightarrow> 0 | Some r \<Rightarrow> sy_version r) + 1
      in case existing of
           None \<Rightarrow>
             if m = DELETE then Inr (rejected o', db)
             else rbind (build_row fm user e (op_entity_id o') payload version now db) (\<lambda>created.
                    case created of None \<Rightarrow> Inr (rejected o', db)
                    | Some row \<Rightarrow> commit_row fm user e m o' row now db)
         | Some row \<Rightarrow>
             if m = DELETE
             then commit_row fm user e m o'
                    (row\<lparr>sy_deleted_at := Some now, sy_updated_at := now, sy_version := version\<rparr>) now db
             else if sy_deleted_at row \<noteq> None then Inr (conflict fm o' e row ''TOMBSTONED'', db)
             else rbind (update_row fm e row payload) (\<lambda>(ok, row).
                    if \<not> ok then Inr (rejected o', set_row e row db)
                    else commit_row fm user e m o' (row\<lparr>sy_updated_at := now, sy_version := version\<rparr>) now db))"

definition apply_operation :: "formats \<Rightarrow> uuid \<Rightarrow> uuid \<Rightarrow> instant \<Rightarrow> operation \<Rightarrow> sync_op option \<Rightarrow> sync_db \<Rightarrow>
    (sync_result \<times> sync_db) result" where
  "apply_operation fm user device now o' prior db =
     (case prior of
        Some p \<Rightarrow> Inr ((so_result p)\<lparr>sr_status := DUPLICATE\<rparr>, db)
      | None \<Rightarrow>
          rbind
            (case (map_of entity_names (op_entity_type o'), map_of mutation_names (op_operation o')) of
               (Some e, Some m) \<Rightarrow>
                 (case get_row e (op_entity_id o') db of
                    None \<Rightarrow> mutate fm user e m o' None now db
                  | Some row \<Rightarrow>
                      if sy_user_id row \<noteq> Some user then Inr (rejected o', db)
                      else if sy_version row \<noteq> op_base_version o' then Inr (conflict fm o' e row ''STALE_VERSION'', db)
                      else mutate fm user e m o' (Some row) now db)
             | _ \<Rightarrow> Inr (rejected o', db))
            (\<lambda>(r, db).
              rbind (flush (db\<lparr>ops := ops db @ [\<lparr>so_user_id = user, so_device_id = device,
                       so_operation_id = op_id o', so_result = r, so_created_at = now\<rparr>]\<rparr>)) (\<lambda>db.
                Inr (r, db))))"

definition priors_of :: "uuid \<Rightarrow> operation list \<Rightarrow> sync_db \<Rightarrow> uuid \<Rightarrow> sync_op option" where
  "priors_of user operations db i =
     (if i \<in> op_id ` set operations
      then find (\<lambda>p. so_user_id p = user \<and> so_operation_id p = i) (rev (ops db)) else None)"

definition push :: "formats \<Rightarrow> uuid \<Rightarrow> uuid \<Rightarrow> operation list \<Rightarrow> instant \<Rightarrow> sync_db \<Rightarrow>
    (sync_result list \<times> sync_db) result" where
  "push fm user device operations now db =
     (case find (\<lambda>d. dv_id d = device) (devices db) of
        None \<Rightarrow> Inl (AppError ''FORBIDDEN'' 403)
      | Some d \<Rightarrow>
          if dv_user_id d \<noteq> user \<or> dv_revoked_at d \<noteq> None then Inl (AppError ''FORBIDDEN'' 403)
          else
            let priors = priors_of user operations db in
            rfold (\<lambda>(results, db) o'.
                rbind (apply_operation fm user device now o' (priors (op_id o')) db) (\<lambda>(r, db).
                  Inr (results @ [r], db)))
              ([], db) operations)"

section \<open>Pulling changes\<close>

record change_page =
  pg_changes :: "sync_change list"
  pg_next_cursor :: int
  pg_has_more :: bool

definition pull :: "int \<Rightarrow> uuid \<Rightarrow> int \<Rightarrow> int \<Rightarrow> sync_db \<Rightarrow> change_page" where
  "pull page_limit user cursor limit db =
     (let bounded = nat (min limit page_limit);
          rows = take (bounded + 1) (sort_key ch_sequence
                   (filter (\<lambda>c. ch_user_id c = user \<and> cursor < ch_sequence c) (changes db)));
          has_more = bounded < length rows;
          rows = take bounded rows
      in \<lparr>pg_changes = rows, pg_next_cursor = (if rows = [] then cursor else ch_sequence (last rows)),
          pg_has_more = has_more\<rparr>)"

text \<open>The live rows of a user, per table, and the cursor to continue from.\<close>

definition live_rows :: "entity \<Rightarrow> uuid \<Rightarrow> sync_db \<Rightarrow> sync_row list" where
  "live_rows e user db = filter (\<lambda>r. sy_user_id r = Some user \<and> sy_deleted_at r = None) (tables db e)"

definition bootstrap_cursor :: "uuid \<Rightarrow> sync_db \<Rightarrow> int" where
  "bootstrap_cursor user db =
     (case filter (\<lambda>c. ch_user_id c = user) (changes db) of
        [] \<Rightarrow> 0 | c # cs \<Rightarrow> foldl max (ch_sequence c) (map ch_sequence cs))"

section \<open>What one operation does\<close>

lemma get_row_set [simp]:
  "get_row e i (set_row e' row db) =
     (if e = e' \<and> i = sy_id row then Some row else get_row e i db)"
proof -
  have "find (\<lambda>r. sy_id r = i) (put_row row rs) = (if i = sy_id row then Some row else find (\<lambda>r. sy_id r = i) rs)" for rs
    by (induction rs) auto
  then show ?thesis by (cases "i = sy_id row") (auto simp: get_row_def set_row_def)
qed

lemma get_row_id: "get_row e i db = Some r \<Longrightarrow> sy_id r = i"
  by (auto simp: get_row_def find_Some_iff)

lemma get_row_fields [simp]:
  "get_row e i (db\<lparr>changes := cs, next_sequence := n\<rparr>) = get_row e i db"
  "get_row e i (db\<lparr>ops := xs\<rparr>) = get_row e i db"
  by (simp_all add: get_row_def)

lemma set_row_fields [simp]:
  "changes (set_row e row db) = changes db" "next_sequence (set_row e row db) = next_sequence db"
  "ops (set_row e row db) = ops db" "devices (set_row e row db) = devices db"
  by (simp_all add: set_row_def)

lemma flush_eq_Inr [simp]: "flush db = Inr db' \<longleftrightarrow> constraints_ok db \<and> db' = db"
  by (auto simp: flush_def)

text \<open>Every built row belongs to the user, has the identifier and version asked for, and is live.\<close>

lemma build_row_common:
  assumes "build_row fm user e i payload version now db = Inr (Some row)"
  shows "sy_id row = i \<and> sy_user_id row = Some user \<and> sy_version row = version \<and> sy_deleted_at row = None"
proof -
  have fresh: "sy_id (fresh_row user i version now cols) = i \<and> sy_user_id (fresh_row user i version now cols) = Some user \<and>
      sy_version (fresh_row user i version now cols) = version \<and> sy_deleted_at (fresh_row user i version now cols) = None" for cols
    by (simp add: fresh_row_def)
  from assms show ?thesis
    by (cases e) (auto simp: build_row_def build_item_def build_transaction_def build_alert_def rbind_eq_Inr Let_def fresh
        split: if_splits)
qed

definition row_head :: "sync_row \<Rightarrow> uuid \<times> uuid option \<times> int \<times> instant option" where
  "row_head r = (sy_id r, sy_user_id r, sy_version r, sy_deleted_at r)"

lemma row_head_set [simp]: "row_head (set_cols ks payload r) = row_head r" "row_head (set_col k c r) = row_head r"
  by (simp_all add: row_head_def set_cols_def set_col_def)

lemma setting_update_head:
  assumes "update_row fm UserSetting row payload = Inr (good, row')"
  shows "row_head row' = row_head row"
proof -
  have v: "row_head r' = row_head r"
    if "(case map_of payload ''value'' of None \<Rightarrow> Inr (True, r)
        | Some v \<Rightarrow> if v = JNull then Inr (False, r)
                    else Inr (True, set_col ''value'' (Val (setting_value v)) r)) = Inr (g, r')"
    for r r' :: sync_row and g :: bool
    using that by (auto split: option.splits if_splits)
  show ?thesis
  proof (cases "map_of payload ''key''")
    case None
    with assms v show ?thesis by (simp add: update_row_def)
  next
    case (Some k)
    with assms have "rbind (bad_key k) (\<lambda>bad. if bad then Inr (False, row)
        else (case map_of payload ''value'' of None \<Rightarrow> Inr (True, set_col ''key'' (Val k) row)
        | Some v \<Rightarrow> if v = JNull then Inr (False, set_col ''key'' (Val k) row)
            else Inr (True, set_col ''value'' (Val (setting_value v)) (set_col ''key'' (Val k) row)))) = Inr (good, row')"
      unfolding update_row_def Let_def by simp
    then obtain bad where run: "(if bad then (Inr (False, row) :: (bool \<times> sync_row) result)
        else (case map_of payload ''value'' of None \<Rightarrow> Inr (True, set_col ''key'' (Val k) row)
        | Some v \<Rightarrow> if v = JNull then Inr (False, set_col ''key'' (Val k) row)
            else Inr (True, set_col ''value'' (Val (setting_value v)) (set_col ''key'' (Val k) row)))) = Inr (good, row')"
      unfolding rbind_eq_Inr by blast
    with v [of "set_col ''key'' (Val k) row" good row'] show ?thesis by (cases bad) auto
  qed
qed

lemma transaction_update_head:
  assumes "update_row fm PortfolioTransaction row payload = Inr (good, row')"
  shows "row_head row' = row_head row"
proof -
  let ?r = "set_cols [''side'', ''quantity_shares'', ''price'', ''fee'', ''lot_type''] payload row"
  have "row' = ?r \<or> (\<exists>t. row' = set_col ''executed_at'' (Time t) ?r)"
    using assms by (auto simp: update_row_def Let_def rbind_eq_Inr split: option.splits json.splits)
  then show ?thesis by auto
qed

lemma update_row_common:
  assumes "update_row fm e row payload = Inr (good, row')"
  shows "sy_id row' = sy_id row \<and> sy_user_id row' = sy_user_id row \<and> sy_version row' = sy_version row \<and>
    sy_deleted_at row' = sy_deleted_at row"
proof -
  have "row_head row' = row_head row"
    using assms setting_update_head transaction_update_head
    by (cases e) (auto simp: update_row_def split: if_splits)
  then show ?thesis by (simp add: row_head_def)
qed

lemma commit_row_effect:
  assumes "commit_row fm user e m o' row now db = Inr (r, db')"
  shows "r = \<lparr>sr_operation_id = op_id o', sr_status = ACCEPTED, sr_entity_id = Some (sy_id row),
               sr_client_base_version = None, sr_server_version = Some (sy_version row), sr_server_value = None,
               sr_conflict_type = None, sr_server_cursor = Some (next_sequence db)\<rparr> \<and>
    db' = (set_row e row db)\<lparr>changes := changes db @ [\<lparr>ch_sequence = next_sequence db, ch_user_id = user, ch_entity = e,
      ch_entity_id = sy_id row, ch_operation = m, ch_version = sy_version row, ch_payload = payload_of fm e row,
      ch_changed_at = now\<rparr>], next_sequence := next_sequence db + 1\<rparr> \<and> constraints_ok db'"
  using assms by (auto simp: commit_row_def rbind_eq_Inr Let_def)

text \<open>
  The outcomes of an operation without a recorded result: it is refused, it is refused by the update of
  a live row of the user, which keeps the attributes set so far, or it is accepted.
\<close>

lemma apply_cases:
  assumes "apply_operation fm user device now o' None db = Inr (r, db')"
  obtains (refused) db1 where "sr_status r \<noteq> ACCEPTED" "db1 = db"
      "db' = db1\<lparr>ops := ops db @ [\<lparr>so_user_id = user, so_device_id = device, so_operation_id = op_id o',
         so_result = r, so_created_at = now\<rparr>]\<rparr>" "constraints_ok db'"
  | (partial) e row row' where "sr_status r = REJECTED" "get_row e (op_entity_id o') db = Some row"
      "sy_user_id row = Some user" "sy_version row = op_base_version o'" "sy_deleted_at row = None"
      "sy_id row' = sy_id row" "sy_user_id row' = Some user" "sy_version row' = sy_version row"
      "db' = (set_row e row' db)\<lparr>ops := ops db @ [\<lparr>so_user_id = user, so_device_id = device,
         so_operation_id = op_id o', so_result = r, so_created_at = now\<rparr>]\<rparr>" "constraints_ok db'"
  | (accepted) e m row where "sr_status r = ACCEPTED"
      "map_of entity_names (op_entity_type o') = Some e" "map_of mutation_names (op_operation o') = Some m"
      "(get_row e (op_entity_id o') db = None \<and> m = UPSERT \<and> sy_version row = 1) \<or>
       (\<exists>old. get_row e (op_entity_id o') db = Some old \<and> sy_user_id old = Some user \<and>
          sy_version old = op_base_version o' \<and> sy_version row = sy_version old + 1 \<and>
          (m = UPSERT \<longrightarrow> sy_deleted_at old = None))"
      "sy_id row = op_entity_id o'" "sy_user_id row = Some user"
      "sr_server_version r = Some (sy_version row)" "sr_server_cursor r = Some (next_sequence db)"
      "db' = (set_row e row db)\<lparr>changes := changes db @ [\<lparr>ch_sequence = next_sequence db, ch_user_id = user,
         ch_entity = e, ch_entity_id = op_entity_id o', ch_operation = m, ch_version = sy_version row,
         ch_payload = payload_of fm e row, ch_changed_at = now\<rparr>], next_sequence := next_sequence db + 1,
         ops := ops db @ [\<lparr>so_user_id = user, so_device_id = device, so_operation_id = op_id o',
         so_result = r, so_created_at = now\<rparr>]\<rparr>" "constraints_ok db'"
proof -
  let ?op = "\<lambda>r. \<lparr>so_user_id = user, so_device_id = device, so_operation_id = op_id o', so_result = r, so_created_at = now\<rparr>"
  have rej: "sr_status (rejected o') = REJECTED" by (simp add: rejected_def)
  have con: "sr_status (conflict fm o' e row k) = CONFLICT" for e row k by (simp add: conflict_def)
  show thesis
  proof (cases "map_of entity_names (op_entity_type o') = None \<or> map_of mutation_names (op_operation o') = None")
    case True
    then show thesis
      using assms rej by (intro refused) (auto simp: apply_operation_def rbind_eq_Inr split: option.splits)
  next
    case False
    then obtain e m where em: "map_of entity_names (op_entity_type o') = Some e" "map_of mutation_names (op_operation o') = Some m"
      by auto
    from assms em obtain db1 where
      step: "(case get_row e (op_entity_id o') db of
          None \<Rightarrow> mutate fm user e m o' None now db
        | Some row \<Rightarrow> if sy_user_id row \<noteq> Some user then Inr (rejected o', db)
            else if sy_version row \<noteq> op_base_version o' then Inr (conflict fm o' e row ''STALE_VERSION'', db)
            else mutate fm user e m o' (Some row) now db) = Inr (r, db1)"
      and db': "db' = db1\<lparr>ops := ops db1 @ [?op r]\<rparr>" and ok: "constraints_ok db'"
      by (auto simp: apply_operation_def rbind_eq_Inr)
    show thesis
    proof (cases "get_row e (op_entity_id o') db")
      case None
      show thesis
      proof (cases "m = DELETE")
        case True
        with step None db' ok rej show thesis by (intro refused) (auto simp: mutate_def)
      next
        case False
        then have m: "m = UPSERT" by (cases m) auto
        define payload where "payload = (case op_payload o' of None \<Rightarrow> [] | Some p \<Rightarrow> p)"
        from step None False obtain created where
          built: "build_row fm user e (op_entity_id o') payload 1 now db = Inr created"
          and rest: "(case created of None \<Rightarrow> Inr (rejected o', db) | Some row \<Rightarrow> commit_row fm user e m o' row now db) = Inr (r, db1)"
          by (auto simp: mutate_def Let_def rbind_eq_Inr payload_def)
        show thesis
        proof (cases created)
          case None
          with rest db' ok rej show thesis by (intro refused) auto
        next
          case (Some row)
          note b = build_row_common [OF built [unfolded Some]]
          from rest Some have "commit_row fm user e m o' row now db = Inr (r, db1)" by simp
          note c = commit_row_effect [OF this]
          show thesis
            by (rule accepted [of e m row]) (use em None m b c db' ok in \<open>auto simp del: get_row_set\<close>)
        qed
      qed
    next
      case (Some old)
      have oid: "sy_id old = op_entity_id o'" using Some by (rule get_row_id)
      show thesis
      proof (cases "sy_user_id old \<noteq> Some user \<or> sy_version old \<noteq> op_base_version o'")
        case True
        with step Some db' ok rej con show thesis by (intro refused) (auto split: if_splits)
      next
        case own: False
        with step Some have run: "mutate fm user e m o' (Some old) now db = Inr (r, db1)" by simp
        show thesis
        proof (cases "m = DELETE")
          case True
          with run have "commit_row fm user e m o' (old\<lparr>sy_deleted_at := Some now, sy_updated_at := now,
              sy_version := sy_version old + 1\<rparr>) now db = Inr (r, db1)" by (simp add: mutate_def)
          note c = commit_row_effect [OF this]
          show thesis
            by (rule accepted [of e m "old\<lparr>sy_deleted_at := Some now, sy_updated_at := now, sy_version := sy_version old + 1\<rparr>"])
              (use em Some True own oid c db' ok in auto)
        next
          case upsert: False
          then have m: "m = UPSERT" by (cases m) auto
          show thesis
          proof (cases "sy_deleted_at old")
            case tomb: (Some t)
            with run upsert db' ok con show thesis by (intro refused) (auto simp: mutate_def)
          next
            case None
            define payload where "payload = (case op_payload o' of None \<Rightarrow> [] | Some p \<Rightarrow> p)"
            from run upsert None obtain good row' where
              upd: "update_row fm e old payload = Inr (good, row')"
              and rest: "(if \<not> good then Inr (rejected o', set_row e row' db)
                else commit_row fm user e m o' (row'\<lparr>sy_updated_at := now, sy_version := sy_version old + 1\<rparr>) now db) = Inr (r, db1)"
              by (auto simp: mutate_def Let_def rbind_eq_Inr payload_def)
            note u = update_row_common [OF upd]
            show thesis
            proof (cases good)
              case False
              with rest rej show thesis
                by (intro partial [of e old row']) (use Some own None u db' ok in auto)
            next
              case True
              with rest have "commit_row fm user e m o' (row'\<lparr>sy_updated_at := now, sy_version := sy_version old + 1\<rparr>)
                  now db = Inr (r, db1)" by simp
              note c = commit_row_effect [OF this]
              show thesis
                by (rule accepted [of e m "row'\<lparr>sy_updated_at := now, sy_version := sy_version old + 1\<rparr>"])
                  (use em Some own None u oid c db' ok in auto)
            qed
          qed
        qed
      qed
    qed
  qed
qed

section \<open>Pushes\<close>

lemma apply_constraints:
  assumes "apply_operation fm user device now o' prior db = Inr (r, db')" and "constraints_ok db"
  shows "constraints_ok db'"
proof (cases prior)
  case None
  with assms(1) have "apply_operation fm user device now o' None db = Inr (r, db')" by simp
  then show ?thesis by (rule apply_cases)
qed (use assms in \<open>auto simp: apply_operation_def\<close>)

text \<open>An invariant of every operation of a push is an invariant of the push.\<close>

lemma push_invariant:
  assumes "push fm user device operations now db = Inr (rs, db')" and "P db"
    and "\<And>o' db r db'. P db \<Longrightarrow> apply_operation fm user device now o' None db = Inr (r, db') \<Longrightarrow> P db'"
  shows "P db'"
proof -
  define step where "step = (\<lambda>(results, d) o'.
    rbind (apply_operation fm user device now o' (priors_of user operations db (op_id o')) d) (\<lambda>(r, d).
      Inr (results @ [r], d)))"
  from assms(1) have run: "rfold step ([], db) operations = Inr (rs, db')"
    by (auto simp: push_def Let_def step_def split: option.splits if_splits)
  have keep: "P d2" if "P d1" "step (acc, d1) o' = Inr (acc2, d2)" for acc acc2 d1 d2 o'
    using that assms(3) [of d1 o'] apply_operation_def [of fm user device now o' "Some x" for x]
    by (cases "priors_of user operations db (op_id o')") (auto simp: step_def rbind_eq_Inr)
  have "(\<lambda>s. P (snd s)) (rs, db')"
    by (rule rfold_invariant [OF run]) (use assms(2) keep in force)+
  then show ?thesis by simp
qed

text \<open>The part of the database that is not the user's.\<close>

definition others :: "uuid \<Rightarrow> sync_db \<Rightarrow> (entity \<Rightarrow> sync_row list) \<times> sync_change list \<times> sync_op list" where
  "others user db =
     (\<lambda>e. filter (\<lambda>r. sy_user_id r \<noteq> Some user) (tables db e),
      filter (\<lambda>c. ch_user_id c \<noteq> user) (changes db), filter (\<lambda>p. so_user_id p \<noteq> user) (ops db))"

lemma put_row_others:
  assumes "sy_user_id row = Some user"
    and "\<forall>old. find (\<lambda>r. sy_id r = sy_id row) rs = Some old \<longrightarrow> sy_user_id old = Some user"
  shows "filter (\<lambda>r. sy_user_id r \<noteq> Some user) (put_row row rs) = filter (\<lambda>r. sy_user_id r \<noteq> Some user) rs"
  using assms by (induction rs) auto

lemma others_set_row:
  assumes "sy_user_id row = Some user" and "\<forall>old. get_row e (sy_id row) db = Some old \<longrightarrow> sy_user_id old = Some user"
  shows "filter (\<lambda>r. sy_user_id r \<noteq> Some user) (tables (set_row e row db) e') = filter (\<lambda>r. sy_user_id r \<noteq> Some user) (tables db e')"
  using put_row_others [of row user "tables db e"] assms by (simp add: set_row_def get_row_def)

lemma apply_others:
  assumes "apply_operation fm user device now o' None db = Inr (r, db')"
  shows "others user db' = others user db"
  using assms
proof (cases rule: apply_cases)
  case (refused db1)
  then show ?thesis by (simp add: others_def)
next
  case (partial e row row')
  have "sy_id row = op_entity_id o'" using partial(2) by (rule get_row_id)
  with partial others_set_row [of row' user e db] show ?thesis by (simp add: others_def)
next
  case (accepted e m row)
  with others_set_row [of row user e db] show ?thesis by (auto simp: others_def)
qed

text \<open>
  C9. Users are isolated: whatever operations a device pushes, also ones that name the rows of
  somebody else, no row, no logged change and no recorded operation of another user is added,
  removed or altered.
\<close>

lemma push_isolates_users:
  assumes "push fm user device operations now db = Inr (rs, db')"
  shows "others user db' = others user db"
  by (rule push_invariant [OF assms, where P = "\<lambda>d. others user d = others user db"])
    (simp_all add: apply_others)

text \<open>The versions the log has of an entity, in order, and the version of its stored row (0 without a row).\<close>

definition logged_versions :: "entity \<Rightarrow> uuid \<Rightarrow> sync_db \<Rightarrow> int list" where
  "logged_versions e i db = map ch_version (filter (\<lambda>c. ch_entity c = e \<and> ch_entity_id c = i) (changes db))"

definition version_of :: "entity \<Rightarrow> uuid \<Rightarrow> sync_db \<Rightarrow> int" where
  "version_of e i db = (case get_row e i db of None \<Rightarrow> 0 | Some r \<Rightarrow> sy_version r)"

text \<open>The cursors of the log ascend and the next one is larger than all of them.\<close>

definition log_ordered :: "sync_db \<Rightarrow> bool" where
  "log_ordered db \<longleftrightarrow> sorted_wrt (<) (map ch_sequence (changes db)) \<and>
     (\<forall>c \<in> set (changes db). 0 < ch_sequence c \<and> ch_sequence c < next_sequence db) \<and> 0 < next_sequence db"

lemma upto_extend: "m \<le> n + 1 \<Longrightarrow> [m..n] @ [n + 1] = [m..n + 1]" for n :: int
  using upto_rec2 [of m "n + 1"] by simp

lemma apply_log_ordered:
  assumes "log_ordered db" and "apply_operation fm user device now o' None db = Inr (r, db')"
  shows "log_ordered db'"
  using assms(2) by (cases rule: apply_cases) (use assms(1) in \<open>auto simp: log_ordered_def sorted_wrt_append\<close>)

text \<open>
  What a user's operations have logged between two databases: entries of the user with consecutive
  cursors, and for every entity one entry for each version its row went through.
\<close>

definition logs_between :: "uuid \<Rightarrow> sync_db \<Rightarrow> sync_db \<Rightarrow> bool" where
  "logs_between user db db' \<longleftrightarrow> (\<exists>new. changes db' = changes db @ new \<and> (\<forall>c \<in> set new. ch_user_id c = user) \<and>
     map ch_sequence new = [next_sequence db..next_sequence db' - 1] \<and> next_sequence db \<le> next_sequence db') \<and>
     (\<forall>e i. version_of e i db \<le> version_of e i db' \<and>
        logged_versions e i db' = logged_versions e i db @ [version_of e i db + 1..version_of e i db'])"

lemma apply_logs:
  assumes "logs_between user d0 db" and "apply_operation fm user device now o' None db = Inr (r, db')"
  shows "logs_between user d0 db'"
  using assms(2)
proof (cases rule: apply_cases)
  case (refused db1)
  with assms(1) show ?thesis by (simp add: logs_between_def logged_versions_def version_of_def)
next
  case (partial e row row')
  have "sy_id row = op_entity_id o'" using partial(2) by (rule get_row_id)
  with partial have "version_of e' i db' = version_of e' i db" for e' i
    by (auto simp: version_of_def)
  moreover have "changes db' = changes db" "next_sequence db' = next_sequence db" using partial by simp_all
  ultimately show ?thesis using assms(1) by (simp add: logs_between_def logged_versions_def)
next
  case (accepted e m row)
  have row: "sy_version row = version_of e (op_entity_id o') db + 1"
    using accepted(4) by (auto simp: version_of_def)
  have "tables db' = tables (set_row e row db)" using accepted(9) by simp
  then have "get_row e' i db' = get_row e' i (set_row e row db)" for e' i by (simp add: get_row_def)
  then have v: "version_of e' i db' = (if e' = e \<and> i = op_entity_id o' then sy_version row else version_of e' i db)" for e' i
    using accepted(5) by (simp add: version_of_def)
  have l: "logged_versions e' i db' = (if e' = e \<and> i = op_entity_id o'
      then logged_versions e' i db @ [sy_version row] else logged_versions e' i db)" for e' i
    using accepted(9) by (auto simp: logged_versions_def)
  have old: "version_of e' i d0 \<le> version_of e' i db"
      "logged_versions e' i db = logged_versions e' i d0 @ [version_of e' i d0 + 1..version_of e' i db]" for e' i
    using assms(1) by (simp_all add: logs_between_def)
  have "version_of e' i d0 \<le> version_of e' i db' \<and>
      logged_versions e' i db' = logged_versions e' i d0 @ [version_of e' i d0 + 1..version_of e' i db']" for e' i
  proof (cases "e' = e \<and> i = op_entity_id o'")
    case True
    with old [of e' i] row have "[version_of e' i d0 + 1..version_of e' i db] @ [sy_version row] = [version_of e' i d0 + 1..sy_version row]"
      using upto_extend [of "version_of e' i d0 + 1" "version_of e' i db"] by simp
    with True old [of e' i] row show ?thesis by (simp only: v l) simp
  qed (use old [of e' i] in \<open>auto simp: v l\<close>)
  moreover obtain new where new: "changes db = changes d0 @ new" "\<forall>c \<in> set new. ch_user_id c = user"
      "map ch_sequence new = [next_sequence d0..next_sequence db - 1]" "next_sequence d0 \<le> next_sequence db"
    using assms(1) by (auto simp: logs_between_def)
  then have "map ch_sequence new @ [next_sequence db] = [next_sequence d0..next_sequence db' - 1]"
    using upto_extend [of "next_sequence d0" "next_sequence db - 1"] accepted(9) by simp
  with new accepted(9) have "\<exists>new'. changes db' = changes d0 @ new' \<and> (\<forall>c \<in> set new'. ch_user_id c = user) \<and>
      map ch_sequence new' = [next_sequence d0..next_sequence db' - 1] \<and> next_sequence d0 \<le> next_sequence db'"
    by (intro exI [of _ "new @ [_]"]) auto
  ultimately show ?thesis unfolding logs_between_def by blast
qed

text \<open>
  C13. A push logs every version it stores: whatever was in the database before (rows without a log
  entry included), a push appends to the log, under consecutive cursors and in the name of its user,
  and for every entity exactly one entry for each version from the one after its stored version to
  the one stored now, in that order; an entity whose version did not change gets no entry. So a
  client that reads the entries of a push can neither miss nor repeat a version of the push.
\<close>

lemma push_logs_every_version:
  assumes "push fm user device operations now db = Inr (rs, db')"
  shows "(\<exists>new. changes db' = changes db @ new \<and> (\<forall>c \<in> set new. ch_user_id c = user) \<and>
     map ch_sequence new = [next_sequence db..next_sequence db' - 1] \<and> next_sequence db \<le> next_sequence db') \<and>
     (\<forall>e i. version_of e i db \<le> version_of e i db' \<and>
        logged_versions e i db' = logged_versions e i db @ [version_of e i db + 1..version_of e i db'])"
proof -
  have "logs_between user db db'"
    by (rule push_invariant [OF assms, where P = "logs_between user db"])
      (simp add: logs_between_def, rule apply_logs)
  then show ?thesis unfolding logs_between_def .
qed

section \<open>Replayed pushes\<close>

text \<open>The recorded operation of a user.\<close>

definition recorded :: "uuid \<Rightarrow> uuid \<Rightarrow> sync_db \<Rightarrow> sync_op option" where
  "recorded user i db = find (\<lambda>p. so_user_id p = user \<and> so_operation_id p = i) (rev (ops db))"

definition duplicate :: "sync_result \<Rightarrow> sync_result" where
  "duplicate r = r\<lparr>sr_status := DUPLICATE\<rparr>"

lemma duplicate_idem [simp]: "duplicate (duplicate r) = duplicate r"
  by (simp add: duplicate_def)

lemma recorded_unique:
  assumes "constraints_ok db" and "p \<in> set (ops db)" and "so_user_id p = user" and "so_operation_id p = i"
  shows "recorded user i db = Some p"
proof -
  have "distinct (map (\<lambda>o'. (so_user_id o', so_operation_id o')) (rev (ops db)))"
    using assms(1) unfolding constraints_ok_def rev_map [symmetric] by simp
  from find_key_unique [OF this, of p] assms show ?thesis by (auto simp: recorded_def)
qed

lemma recorded_in:
  "recorded user i db = Some p \<Longrightarrow> p \<in> set (ops db) \<and> so_user_id p = user \<and> so_operation_id p = i"
  by (auto simp: recorded_def find_Some_iff) (metis nth_mem set_rev length_rev)+

lemma apply_ops_extend:
  assumes "apply_operation fm user device now o' None db = Inr (r, db')"
  shows "ops db' = ops db @ [\<lparr>so_user_id = user, so_device_id = device, so_operation_id = op_id o',
    so_result = r, so_created_at = now\<rparr>]"
  using assms by (cases rule: apply_cases) simp_all

text \<open>What a push answers for an operation is what is recorded for it afterwards, marked as a duplicate.\<close>

definition answered :: "uuid \<Rightarrow> operation \<Rightarrow> sync_result \<Rightarrow> sync_db \<Rightarrow> bool" where
  "answered user o' r db \<longleftrightarrow> (\<exists>p \<in> set (ops db). so_user_id p = user \<and> so_operation_id p = op_id o' \<and>
     duplicate (so_result p) = duplicate r)"

lemma push_answers:
  assumes "push fm user device operations now db = Inr (rs, db')" and "constraints_ok db"
  shows "constraints_ok db' \<and> list_all2 (\<lambda>o' r. answered user o' r db') operations rs"
proof -
  define step where "step = (\<lambda>(results, d) o'.
    rbind (apply_operation fm user device now o' (priors_of user operations db (op_id o')) d) (\<lambda>(r, d).
      Inr (results @ [r], d)))"
  from assms(1) have run: "rfold step ([], db) operations = Inr (rs, db')"
    by (auto simp: push_def Let_def step_def split: option.splits if_splits)
  have "constraints_ok d' \<and> set (ops d) \<subseteq> set (ops d') \<and>
      (\<exists>new. rs' = acc @ new \<and> list_all2 (\<lambda>o' r. answered user o' r d') todo new)"
    if "rfold step (acc, d) todo = Inr (rs', d')" "set todo \<subseteq> set operations" "constraints_ok d"
      "set (ops db) \<subseteq> set (ops d)" for acc d todo rs' d'
    using that
  proof (induction todo arbitrary: acc d)
    case (Cons o' todo)
    from Cons.prems(1) obtain r d1 where
      ap: "apply_operation fm user device now o' (priors_of user operations db (op_id o')) d = Inr (r, d1)"
      and rest: "rfold step (acc @ [r], d1) todo = Inr (rs', d')"
      by (auto simp: step_def rbind_eq_Inr)
    have ok1: "constraints_ok d1" by (rule apply_constraints [OF ap Cons.prems(3)])
    have grow: "set (ops d) \<subseteq> set (ops d1) \<and> answered user o' r d1"
    proof (cases "priors_of user operations db (op_id o')")
      case None
      with ap apply_ops_extend [of fm user device now o' d r d1] show ?thesis by (auto simp: answered_def)
    next
      case (Some p)
      then have "recorded user (op_id o') db = Some p"
        by (auto simp: priors_of_def recorded_def split: if_splits)
      then have "p \<in> set (ops d)" "so_user_id p = user" "so_operation_id p = op_id o'"
        using recorded_in Cons.prems(4) by blast+
      moreover have "r = duplicate (so_result p)" "d1 = d"
        using ap Some by (simp_all add: apply_operation_def duplicate_def)
      ultimately show ?thesis by (auto simp: answered_def)
    qed
    have "constraints_ok d' \<and> set (ops d1) \<subseteq> set (ops d') \<and>
        (\<exists>new. rs' = (acc @ [r]) @ new \<and> list_all2 (\<lambda>o' r. answered user o' r d') todo new)"
      by (rule Cons.IH [OF rest]) (use Cons.prems ok1 grow in auto)
    then obtain new where new: "constraints_ok d'" "set (ops d1) \<subseteq> set (ops d')" "rs' = (acc @ [r]) @ new"
      "list_all2 (\<lambda>o' r. answered user o' r d') todo new" by blast
    moreover have "answered user o' r d'" using grow new(2) by (auto simp: answered_def)
    ultimately show ?case using grow by (auto intro!: exI [of _ "r # new"])
  qed simp
  from this [OF run] assms(2) show ?thesis by auto
qed

lemma replay_answers:
  assumes "constraints_ok db" and "list_all2 (\<lambda>o' r. answered user o' r db) todo rs" and "set todo \<subseteq> set operations"
  shows "rfold (\<lambda>(results, d) o'.
      rbind (apply_operation fm user device now o' (priors_of user operations db (op_id o')) d) (\<lambda>(r, d).
        Inr (results @ [r], d))) (acc, db) todo = Inr (acc @ map duplicate rs, db)"
  using assms(2,3)
proof (induction todo rs arbitrary: acc rule: list_all2_induct)
  case (Cons o' todo r rs)
  then obtain p where p: "p \<in> set (ops db)" "so_user_id p = user" "so_operation_id p = op_id o'"
    "duplicate (so_result p) = duplicate r" by (auto simp: answered_def)
  have "priors_of user operations db (op_id o') = Some p"
    using recorded_unique [OF assms(1) p(1-3)] Cons.prems by (auto simp: priors_of_def recorded_def)
  then have "apply_operation fm user device now o' (priors_of user operations db (op_id o')) db = Inr (duplicate r, db)"
    using p(4) by (simp add: apply_operation_def duplicate_def)
  with Cons show ?case by simp
qed simp

text \<open>
  C21. Pushes can be retried: after a push succeeded, sending the same operations again, from any
  active device of the user and at any time, changes nothing and answers every operation with its
  first result, marked as a duplicate.
\<close>

lemma retried_push_is_idempotent:
  assumes "push fm user device operations now db = Inr (rs, db')" and "constraints_ok db"
    and "find (\<lambda>d. dv_id d = device') (devices db') = Some dev" and "dv_user_id dev = user" and "dv_revoked_at dev = None"
  shows "push fm user device' operations now' db' = Inr (map duplicate rs, db')"
proof -
  note ans = push_answers [OF assms(1,2)]
  from replay_answers [of db' user operations rs operations fm device' now' "[]"] ans
  show ?thesis using assms(3-5) by (simp add: push_def Let_def)
qed

text \<open>
  Recorded results are looked up once per push, before its operations run: a push that repeats
  an operation not seen before violates the unique constraint of the operation table and is refused
  as a whole, it is not answered with a duplicate.
\<close>

lemma repeated_operation_fails_push:
  assumes "push fm user device operations now db = Inr (rs, db')" and "constraints_ok db"
  shows "distinct (map op_id (filter (\<lambda>o'. recorded user (op_id o') db = None) operations))"
proof -
  define step where "step = (\<lambda>(results, d) o'.
    rbind (apply_operation fm user device now o' (priors_of user operations db (op_id o')) d) (\<lambda>(r, d).
      Inr (results @ [r], d)))"
  from assms(1) have run: "rfold step ([], db) operations = Inr (rs, db')"
    by (auto simp: push_def Let_def step_def split: option.splits if_splits)
  let ?ids = "\<lambda>d. (\<lambda>p. so_operation_id p) ` {p \<in> set (ops d). so_user_id p = user}"
  have "distinct (map op_id (filter (\<lambda>o'. recorded user (op_id o') db = None) todo)) \<and>
      ?ids d \<inter> set (map op_id (filter (\<lambda>o'. recorded user (op_id o') db = None) todo)) = {}"
    if "rfold step (acc, d) todo = Inr (rs', d')" "set todo \<subseteq> set operations" "constraints_ok d" for acc d todo rs' d'
    using that
  proof (induction todo arbitrary: acc d)
    case (Cons o' todo)
    from Cons.prems(1) obtain r d1 where
      ap: "apply_operation fm user device now o' (priors_of user operations db (op_id o')) d = Inr (r, d1)"
      and rest: "rfold step (acc @ [r], d1) todo = Inr (rs', d')"
      by (auto simp: step_def rbind_eq_Inr)
    have ok1: "constraints_ok d1" by (rule apply_constraints [OF ap Cons.prems(3)])
    from Cons.IH [OF rest _ ok1] Cons.prems(2) have IH:
      "distinct (map op_id (filter (\<lambda>o'. recorded user (op_id o') db = None) todo))"
      "?ids d1 \<inter> set (map op_id (filter (\<lambda>o'. recorded user (op_id o') db = None) todo)) = {}" by auto
    show ?case
    proof (cases "recorded user (op_id o') db")
      case None
      then have "priors_of user operations db (op_id o') = None"
        by (auto simp: priors_of_def recorded_def)
      with ap have "apply_operation fm user device now o' None d = Inr (r, d1)" by simp
      note ext = apply_ops_extend [OF this]
      have "op_id o' \<notin> ?ids d"
        using ok1 unfolding constraints_ok_def ext by auto
      moreover have "op_id o' \<in> ?ids d1" "?ids d \<subseteq> ?ids d1" unfolding ext by force+
      ultimately show ?thesis using IH None by auto
    next
      case (Some p)
      have "set (ops d) \<subseteq> set (ops d1)"
        using ap apply_ops_extend [of fm user device now o' d r d1]
        by (cases "priors_of user operations db (op_id o')") (auto simp: apply_operation_def)
      with IH Some show ?thesis by auto
    qed
  qed simp
  from this [OF run] assms(2) show ?thesis by auto
qed

section \<open>Following the change log\<close>

text \<open>A client follows \<open>next_cursor\<close> until \<open>has_more\<close> is false, for at most \<open>n\<close> requests.\<close>

fun follow :: "nat \<Rightarrow> int \<Rightarrow> uuid \<Rightarrow> int \<Rightarrow> int \<Rightarrow> sync_db \<Rightarrow> sync_change list option" where
  "follow 0 page_limit user cursor limit db = None"
| "follow (Suc n) page_limit user cursor limit db =
     (let page = pull page_limit user cursor limit db
      in if pg_has_more page
         then map_option ((@) (pg_changes page)) (follow n page_limit user (pg_next_cursor page) limit db)
         else Some (pg_changes page))"

definition changes_after :: "uuid \<Rightarrow> int \<Rightarrow> sync_db \<Rightarrow> sync_change list" where
  "changes_after user cursor db = filter (\<lambda>c. ch_user_id c = user \<and> cursor < ch_sequence c) (changes db)"

lemma sort_key_log:
  assumes "sorted_wrt (<) (map ch_sequence cs)"
  shows "sort_key ch_sequence (filter P cs) = filter P cs"
proof -
  have "sorted (map ch_sequence cs)"
    using assms strict_sorted_iff by blast
  then have "sorted (map ch_sequence (filter P cs))" by (rule sorted_filter)
  then show ?thesis by (rule sort_key_id_if_sorted)
qed

lemma pull_ordered:
  assumes "sorted_wrt (<) (map ch_sequence (changes db))"
  shows "pull page_limit user cursor limit db =
    (let k = nat (min limit page_limit); rows = changes_after user cursor db
     in \<lparr>pg_changes = take k rows, pg_next_cursor = (if take k rows = [] then cursor else ch_sequence (last (take k rows))),
         pg_has_more = k < length rows\<rparr>)"
proof -
  have "take k (take (k + 1) xs) = take k xs" "k < length (take (k + 1) xs) \<longleftrightarrow> k < length xs" for k and xs :: "sync_change list"
    by auto
  then show ?thesis
    unfolding pull_def Let_def sort_key_log [OF assms] changes_after_def by simp
qed

lemma filter_after_prefix:
  assumes "sorted_wrt (<) (map ch_sequence (xs @ c # ys))"
  shows "filter (\<lambda>d. ch_sequence c < ch_sequence d) (xs @ c # ys) = ys"
  using assms by (auto simp: sorted_wrt_append filter_empty_conv filter_id_conv)

lemma changes_after_page:
  assumes "sorted_wrt (<) (map ch_sequence (changes db))" and "0 < k" and "k < length (changes_after user cursor db)"
  shows "changes_after user (ch_sequence (last (take k (changes_after user cursor db)))) db = drop k (changes_after user cursor db)"
proof -
  let ?rows = "changes_after user cursor db"
  have s: "sorted_wrt (<) (map ch_sequence ?rows)"
    using assms(1) by (simp add: changes_after_def sorted_wrt_map sorted_wrt_filter)
  obtain j where k: "k = Suc j" using assms(2) by (cases k) auto
  then have split: "?rows = take j ?rows @ ?rows ! j # drop k ?rows"
    using assms(3) by (simp add: id_take_nth_drop)
  have last: "last (take k ?rows) = ?rows ! j" using k assms(3) by (simp add: take_Suc_conv_app_nth)
  have "?rows ! j \<in> set ?rows" using k assms(3) by simp
  then have later: "cursor < ch_sequence (?rows ! j)" by (simp add: changes_after_def)
  have "changes_after user (ch_sequence (?rows ! j)) db = filter (\<lambda>d. ch_sequence (?rows ! j) < ch_sequence d) ?rows"
    using later by (auto simp: changes_after_def intro!: filter_cong)
  also have "\<dots> = drop k ?rows"
    using filter_after_prefix [of "take j ?rows" "?rows ! j" "drop k ?rows"] s split by metis
  finally show ?thesis by (simp add: last)
qed

lemma follow_ordered:
  assumes "sorted_wrt (<) (map ch_sequence (changes db))" and "0 < limit" and "0 < page_limit"
    and "length (changes_after user cursor db) < n"
  shows "follow n page_limit user cursor limit db = Some (changes_after user cursor db)"
  using assms(4)
proof (induction n arbitrary: cursor)
  case (Suc n)
  let ?k = "nat (min limit page_limit)" and ?rows = "changes_after user cursor db"
  have k: "0 < ?k" using assms(2,3) by simp
  show ?case
  proof (cases "?k < length ?rows")
    case True
    note next_page = changes_after_page [OF assms(1) k True]
    have "follow n page_limit user (ch_sequence (last (take ?k ?rows))) limit db = Some (drop ?k ?rows)"
    proof -
      have "length ?rows - ?k < n" using Suc.prems k True by linarith
      then have "length (drop ?k ?rows) < n" by (simp only: length_drop)
      then show ?thesis using Suc.IH [of "ch_sequence (last (take ?k ?rows))"] unfolding next_page by simp
    qed
    moreover have "take ?k ?rows \<noteq> []" using True k by auto
    ultimately show ?thesis using True by (simp add: pull_ordered [OF assms(1)] Let_def)
  next
    case False
    then show ?thesis by (simp add: pull_ordered [OF assms(1)] Let_def)
  qed
qed simp

lemma bootstrap_cursor_bound:
  assumes "log_ordered db"
  shows "\<forall>c \<in> set (changes db). ch_user_id c = user \<longrightarrow> ch_sequence c \<le> bootstrap_cursor user db"
    and "bootstrap_cursor user db < next_sequence db"
proof -
  let ?mine = "filter (\<lambda>c. ch_user_id c = user) (changes db)"
  have cur: "bootstrap_cursor user db = (if ?mine = [] then 0 else foldl max (hd (map ch_sequence ?mine)) (tl (map ch_sequence ?mine)))"
    by (cases ?mine) (simp_all add: bootstrap_cursor_def)
  show "\<forall>c \<in> set (changes db). ch_user_id c = user \<longrightarrow> ch_sequence c \<le> bootstrap_cursor user db"
  proof (intro ballI impI)
    fix c assume c: "c \<in> set (changes db)" "ch_user_id c = user"
    then have mem: "ch_sequence c \<in> set (map ch_sequence ?mine)" and ne: "?mine \<noteq> []"
      by (auto simp: filter_empty_conv)
    then have "ch_sequence c \<in> set (hd (map ch_sequence ?mine) # tl (map ch_sequence ?mine))"
      by (metis list.collapse map_is_Nil_conv)
    from foldl_max_ge [OF this] show "ch_sequence c \<le> bootstrap_cursor user db" using cur ne by simp
  qed
  show "bootstrap_cursor user db < next_sequence db"
  proof (cases "?mine = []")
    case True
    then show ?thesis using assms cur by (simp add: log_ordered_def)
  next
    case False
    then have "bootstrap_cursor user db \<in> set (map ch_sequence ?mine)"
      using foldl_max_mem [of "hd (map ch_sequence ?mine)" "tl (map ch_sequence ?mine)"] cur
      by (metis list.collapse map_is_Nil_conv)
    then show ?thesis using assms by (auto simp: log_ordered_def)
  qed
qed

lemma changes_after_bootstrap:
  assumes "log_ordered db" and "changes db' = changes db @ new" and "\<forall>c \<in> set new. next_sequence db \<le> ch_sequence c"
  shows "changes_after user (bootstrap_cursor user db) db' = filter (\<lambda>c. ch_user_id c = user) new"
proof -
  have "filter (\<lambda>c. ch_user_id c = user \<and> bootstrap_cursor user db < ch_sequence c) (changes db) = []"
    using bootstrap_cursor_bound(1) [OF assms(1), of user] by (auto simp: filter_empty_conv)
  moreover have "filter (\<lambda>c. ch_user_id c = user \<and> bootstrap_cursor user db < ch_sequence c) new =
      filter (\<lambda>c. ch_user_id c = user) new"
    using assms(3) bootstrap_cursor_bound(2) [OF assms(1), of user] by (auto intro!: filter_cong)
  ultimately show ?thesis by (simp add: changes_after_def assms(2))
qed

text \<open>The log after a push: what was there, then changes with fresh cursors.\<close>

definition extends_log :: "sync_db \<Rightarrow> sync_db \<Rightarrow> bool" where
  "extends_log db db' \<longleftrightarrow> next_sequence db \<le> next_sequence db' \<and>
     (\<exists>new. changes db' = changes db @ new \<and> (\<forall>c \<in> set new. next_sequence db \<le> ch_sequence c))"

lemma apply_extends_log:
  assumes "apply_operation fm user device now o' None d = Inr (r, d')" and "extends_log db d"
  shows "extends_log db d'"
  using assms(1) by (cases rule: apply_cases) (use assms(2) in \<open>auto simp: extends_log_def\<close>)

lemma push_extends_log:
  assumes "push fm user device operations now db = Inr (rs, db')"
  shows "extends_log db db'"
  by (rule push_invariant [OF assms, where P = "extends_log db"])
    (simp add: extends_log_def, rule apply_extends_log)

text \<open>
  C14. No change is missed between a bootstrap and the pulls that continue it: a client that takes the
  bootstrap cursor of a database with ascending cursors and, after somebody's push, follows the pages from there receives,
  whatever the page size, exactly the changes of its user that the push added, once and in order.
\<close>

lemma bootstrap_then_follow:
  assumes "log_ordered db" and "push fm pusher device operations now db = Inr (rs, db')"
    and "0 < limit" and "0 < page_limit"
  shows "follow (Suc (length (changes db'))) page_limit user (bootstrap_cursor user db) limit db' =
    Some (filter (\<lambda>c. ch_user_id c = user) (drop (length (changes db)) (changes db')))"
proof -
  obtain new where new: "changes db' = changes db @ new" "\<forall>c \<in> set new. next_sequence db \<le> ch_sequence c"
    using push_extends_log [OF assms(2)] by (auto simp: extends_log_def)
  have "log_ordered db'"
    by (rule push_invariant [OF assms(2), where P = log_ordered]) (use assms(1) apply_log_ordered in auto)
  then have "sorted_wrt (<) (map ch_sequence (changes db'))" by (simp add: log_ordered_def)
  note followed = follow_ordered [OF this assms(3,4)]
  have "changes_after user (bootstrap_cursor user db) db' = filter (\<lambda>c. ch_user_id c = user) (drop (length (changes db)) (changes db'))"
    using changes_after_bootstrap [OF assms(1) new] new(1) by simp
  moreover have "length (changes_after user (bootstrap_cursor user db) db') < Suc (length (changes db'))"
    by (simp add: changes_after_def le_imp_less_Suc)
  ultimately show ?thesis using followed by metis
qed

section \<open>Concurrent edits\<close>

text \<open>
  C2. No lost updates: when two operations edit the same entity from the same base version and the
  first is accepted, the second is a conflict that carries the stored version and its value, and it
  changes no row and logs nothing, whichever user, device or payload it comes with.
\<close>

lemma second_editor_conflicts:
  assumes "apply_operation fm user device now first None db = Inr (r, db1)" and "sr_status r = ACCEPTED"
    and "apply_operation fm user device' now' second None db1 = Inr (r', db2)"
    and "op_entity_type second = op_entity_type first" and "op_entity_id second = op_entity_id first"
    and "op_base_version second = op_base_version first" and "op_operation second \<in> fst ` set mutation_names"
    and "map_of entity_names (op_entity_type first) = Some e"
    and "get_row e (op_entity_id first) db \<noteq> None \<or> op_base_version first \<noteq> 1"
  shows "sr_status r' = CONFLICT \<and> tables db2 = tables db1 \<and> changes db2 = changes db1 \<and>
    sr_server_version r' = sr_server_version r \<and>
    sr_server_value r' = map_option (payload_of fm e) (get_row e (op_entity_id first) db1)"
  using assms(1)
proof (cases rule: apply_cases)
  case (accepted e' m row)
  with assms(8) have "e' = e" by simp
  have stored: "get_row e (op_entity_id first) db1 = Some row"
    using accepted(5) by (simp add: accepted(9) \<open>e' = e\<close>)
  have stale: "sy_version row \<noteq> op_base_version first"
    using accepted(4) assms(9) \<open>e' = e\<close> by auto
  obtain m' where "map_of mutation_names (op_operation second) = Some m'"
    using assms(7) by (auto simp: mutation_names_def)
  with assms(3-6,8) stored stale accepted(6,7) show ?thesis
    by (auto simp: apply_operation_def conflict_def rbind_eq_Inr)
qed (use assms(2) in auto)

text \<open>
  A refused update of a setting is not without effect: when the payload renames the setting and
  gives it the value null, the operation is answered as rejected, but the row keeps the new key, at
  its old version and without an entry in the change log, so no other device learns of it.
\<close>

lemma refused_setting_is_renamed:
  assumes "apply_operation fm user device now o' None db = Inr (r, db')"
    and "op_entity_type o' = ''USER_SETTING''" and "op_operation o' = ''UPSERT''"
    and "op_payload o' = Some [(''key'', JStr k), (''value'', JNull)]" and "k \<noteq> []" and "k \<notin> set forbidden_setting_keys"
    and "get_row UserSetting (op_entity_id o') db = Some row" and "sy_user_id row = Some user"
    and "sy_version row = op_base_version o'" and "sy_deleted_at row = None"
  shows "sr_status r = REJECTED \<and> changes db' = changes db \<and>
    get_row UserSetting (op_entity_id o') db' = Some (set_col ''key'' (Val (JStr k)) row)"
proof -
  have names: "map_of entity_names ''USER_SETTING'' = Some UserSetting" "map_of mutation_names ''UPSERT'' = Some UPSERT"
    by (simp_all add: entity_names_def mutation_names_def)
  have upd: "update_row fm UserSetting row [(''key'', JStr k), (''value'', JNull)] = Inr (False, set_col ''key'' (Val (JStr k)) row)"
    using assms(5,6) by (simp add: update_row_def bad_key_def rbind_def Let_def)
  have "mutate fm user UserSetting UPSERT o' (Some row) now db =
      Inr (rejected o', set_row UserSetting (set_col ''key'' (Val (JStr k)) row) db)"
    using assms(4,10) upd by (simp add: mutate_def rbind_def Let_def)
  with assms(1-3,7-9) names
  have "r = rejected o'" "changes db' = changes db"
    "get_row UserSetting (op_entity_id o') db' = get_row UserSetting (op_entity_id o') (set_row UserSetting (set_col ''key'' (Val (JStr k)) row) db)"
    by (auto simp: apply_operation_def rbind_eq_Inr)
  then show ?thesis using get_row_id [OF assms(7)] by (simp add: rejected_def set_col_def)
qed

text \<open>
  The default of a price that is not in the payload is \<open>"0.0"\<close>, which the database refuses: such an operation
  does not end as rejected, it fails the whole push.
\<close>

lemma zero_price: "number (Val (JStr ''0.0'')) = Some 0"
  by code_simp

lemma put_row_mem: "row \<in> set (put_row row rs)"
  by (induction rs) auto

theorem missing_price_fails_push:
  assumes "op_payload o' = Some payload" and "map_of payload ''price'' = None"
    and "build_row fm user PortfolioTransaction (op_entity_id o') payload 1 now db = Inr (Some row)"
  shows "mutate fm user PortfolioTransaction UPSERT o' None now db = Inl IntegrityError"
proof -
  have "col ''price'' row = Val (JStr ''0.0'')"
    using assms(2,3) by (auto simp: build_row_def build_transaction_def fresh_row_def col_def defaults_def get_or_def
        rbind_eq_Inr split: if_splits)
  then have "\<not> row_ok PortfolioTransaction row" by (simp add: check_def zero_price)
  then have "\<not> constraints_ok (set_row PortfolioTransaction row db)"
    using put_row_mem [of row] by (auto simp: constraints_ok_def all_entities_def set_row_def list_all_iff)
  then show ?thesis using assms(1,3) by (simp add: mutate_def commit_row_def flush_def rbind_def Let_def)
qed

section \<open>Witnesses\<close>

text \<open>A user with one setting and one device, and an edit of the setting.\<close>

definition theme_row :: sync_row where
  "theme_row = \<lparr>sy_id = 3, sy_user_id = Some 1, sy_version = 1, sy_created_at = 10, sy_updated_at = 10,
     sy_deleted_at = None, sy_cols = [(''key'', Val (JStr ''theme'')), (''value'', Val (JObj []))]\<rparr>"

definition desk :: sync_db where
  "desk = \<lparr>tables = (\<lambda>e. []) (UserSetting := [theme_row]), securities = [],
     devices = [\<lparr>dv_id = 7, dv_user_id = 1, dv_revoked_at = None\<rparr>], ops = [],
     changes = [\<lparr>ch_sequence = 1, ch_user_id = 1, ch_entity = UserSetting, ch_entity_id = 3, ch_operation = UPSERT,
       ch_version = 1, ch_payload = [], ch_changed_at = 10\<rparr>], next_sequence = 2\<rparr>"

definition edit :: "uuid \<Rightarrow> dict \<Rightarrow> operation" where
  "edit i payload = \<lparr>op_id = i, op_entity_type = ''USER_SETTING'', op_entity_id = 3, op_operation = ''UPSERT'',
     op_base_version = 1, op_payload = Some payload\<rparr>"

lemma desk_names:
  "map_of entity_names ''USER_SETTING'' = Some UserSetting" "map_of mutation_names ''UPSERT'' = Some UPSERT"
  by (simp_all add: entity_names_def mutation_names_def)

lemma desk_row: "get_row UserSetting 3 desk = Some theme_row"
  by (simp add: get_row_def desk_def theme_row_def)

lemma desk_edit:
  "update_row unary UserSetting theme_row [(''value'', JObj [])] = Inr (True, theme_row)"
  by (simp add: update_row_def theme_row_def set_col_def setting_value_def)

lemma desk_fields [simp]:
  "sy_version theme_row = 1" "sy_user_id theme_row = Some 1" "sy_deleted_at theme_row = None" "sy_id theme_row = 3"
  "ops desk = []" "tables desk WatchlistItem = []" "tables desk UserSetting = [theme_row]" "next_sequence desk = 2"
  "sy_cols theme_row = [(''key'', Val (JStr ''theme'')), (''value'', Val (JObj []))]" "e \<noteq> UserSetting \<Longrightarrow> tables desk e = []"
  "find (\<lambda>d. dv_id d = 7) (devices desk) = Some \<lparr>dv_id = 7, dv_user_id = 1, dv_revoked_at = None\<rparr>"
  by (simp_all add: desk_def theme_row_def)

lemma desk_constraints: "constraints_ok desk"
  by (simp add: constraints_ok_def all_entities_def not_null_def col_def)

lemma desk_log: "log_ordered desk"
  by (auto simp: log_ordered_def desk_def theme_row_def)

lemma desk_accepts:
  "\<exists>r db'. apply_operation unary 1 7 100 (edit 5 [(''value'', JObj [])]) None desk = Inr (r, db') \<and> sr_status r = ACCEPTED \<and>
     tables db' UserSetting = [theme_row\<lparr>sy_updated_at := 100, sy_version := 2\<rparr>] \<and> constraints_ok db' \<and>
     tables db' WatchlistItem = [] \<and>
     devices db' = devices desk \<and> map (\<lambda>o'. (so_user_id o', so_operation_id o')) (ops db') = [(1, 5)]"
  by (simp add: apply_operation_def mutate_def edit_def desk_names desk_row rbind_def Let_def desk_edit
    commit_row_def flush_def constraints_ok_def all_entities_def not_null_def col_def set_row_def)

lemma desk_push: "\<exists>r db'. push unary 1 7 [edit 5 [(''value'', JObj [])]] 100 desk = Inr ([r], db') \<and>
  devices db' = devices desk"
proof -
  have "priors_of 1 [edit 5 [(''value'', JObj [])]] desk i = None" for i by (simp add: priors_of_def)
  with desk_accepts show ?thesis by (auto simp: push_def rbind_def Let_def)
qed

lemma desk_refuses:
  "\<exists>r db'. apply_operation unary 1 7 100 (edit 6 [(''key'', JStr ''font''), (''value'', JNull)]) None desk = Inr (r, db')"
  by (simp add: apply_operation_def mutate_def edit_def desk_names desk_row rbind_def Let_def update_row_def
    bad_key_def forbidden_setting_keys_def flush_def constraints_ok_def all_entities_def not_null_def col_def set_row_def set_col_def)

lemma desk_second:
  assumes "apply_operation unary 1 7 100 (edit 5 [(''value'', JObj [])]) None desk = Inr (r, db')"
  shows "\<exists>r' db''. apply_operation unary 1 8 101 (edit 6 [(''value'', JObj [])]) None db' = Inr (r', db'')"
proof -
  from assms desk_accepts have f: "tables db' UserSetting = [theme_row\<lparr>sy_updated_at := 100, sy_version := 2\<rparr>]"
    "constraints_ok db'" "map (\<lambda>o'. (so_user_id o', so_operation_id o')) (ops db') = [(1, 5)]" by auto
  then have "get_row UserSetting 3 db' = Some (theme_row\<lparr>sy_updated_at := 100, sy_version := 2\<rparr>)"
    by (simp add: get_row_def)
  moreover have "\<forall>p \<in> set (ops db'). (so_user_id p, so_operation_id p) = (1, 5)"
    using f(3) by (auto simp: map_eq_Cons_conv)
  ultimately show ?thesis using f
    by (auto simp: apply_operation_def edit_def desk_names rbind_def conflict_def flush_def constraints_ok_def)
qed

lemma push_isolates_users_witness:
  "\<exists>rs db'. push unary 1 7 [edit 5 [(''value'', JObj [])]] 100 desk = Inr (rs, db') \<and> others 1 db' = others 1 desk"
  using desk_push push_isolates_users [of unary 1 7 "[edit 5 [(''value'', JObj [])]]" 100 desk] by blast

lemma push_logs_every_version_witness:
  "\<exists>rs db'. push unary 1 7 [edit 5 [(''value'', JObj [])]] 100 desk = Inr (rs, db') \<and>
     logged_versions UserSetting 3 db' = logged_versions UserSetting 3 desk @ [version_of UserSetting 3 desk + 1..version_of UserSetting 3 db']"
  using desk_push push_logs_every_version [of unary 1 7 "[edit 5 [(''value'', JObj [])]]" 100 desk] by blast

lemma retried_push_is_idempotent_witness:
  "\<exists>rs db'. push unary 1 7 [edit 5 [(''value'', JObj [])]] 100 desk = Inr (rs, db') \<and>
     push unary 1 7 [edit 5 [(''value'', JObj [])]] 200 db' = Inr (map duplicate rs, db')"
proof -
  obtain rs db' where run: "push unary 1 7 [edit 5 [(''value'', JObj [])]] 100 desk = Inr (rs, db')" "devices db' = devices desk"
    using desk_push by auto
  have "push unary 1 7 [edit 5 [(''value'', JObj [])]] 200 db' = Inr (map duplicate rs, db')"
    by (rule retried_push_is_idempotent [OF run(1) desk_constraints,
        where dev = "\<lparr>dv_id = 7, dv_user_id = 1, dv_revoked_at = None\<rparr>"]) (simp_all add: run(2))
  with run(1) show ?thesis by auto
qed

lemma bootstrap_then_follow_witness:
  "\<exists>rs db'. push unary 1 7 [edit 5 [(''value'', JObj [])]] 100 desk = Inr (rs, db') \<and>
     follow (Suc (length (changes db'))) 100 1 (bootstrap_cursor 1 desk) 50 db' =
       Some (filter (\<lambda>c. ch_user_id c = 1) (drop (length (changes desk)) (changes db')))"
proof -
  obtain rs db' where run: "push unary 1 7 [edit 5 [(''value'', JObj [])]] 100 desk = Inr (rs, db')"
    using desk_push by auto
  from run bootstrap_then_follow [OF desk_log run, of 50 100 1] show ?thesis by auto
qed

lemma second_editor_conflicts_witness:
  "\<exists>r db1 r' db2. apply_operation unary 1 7 100 (edit 5 [(''value'', JObj [])]) None desk = Inr (r, db1) \<and>
     apply_operation unary 1 8 101 (edit 6 [(''value'', JObj [])]) None db1 = Inr (r', db2) \<and>
     sr_status r' = CONFLICT \<and> tables db2 = tables db1"
proof -
  obtain r db1 where first: "apply_operation unary 1 7 100 (edit 5 [(''value'', JObj [])]) None desk = Inr (r, db1)"
    "sr_status r = ACCEPTED" using desk_accepts by auto
  obtain r' db2 where second: "apply_operation unary 1 8 101 (edit 6 [(''value'', JObj [])]) None db1 = Inr (r', db2)"
    using desk_second [OF first(1)] by auto
  have "sr_status r' = CONFLICT \<and> tables db2 = tables db1"
    using second_editor_conflicts [OF first second, of UserSetting]
    by (simp add: edit_def desk_names desk_row) (simp add: mutation_names_def)
  with first second show ?thesis by blast
qed

lemma refused_setting_is_renamed_witness:
  "\<exists>r db'. apply_operation unary 1 7 100 (edit 6 [(''key'', JStr ''font''), (''value'', JNull)]) None desk = Inr (r, db') \<and>
     sr_status r = REJECTED \<and> get_row UserSetting 3 db' = Some (set_col ''key'' (Val (JStr ''font'')) theme_row)"
proof -
  obtain r db' where run: "apply_operation unary 1 7 100 (edit 6 [(''key'', JStr ''font''), (''value'', JNull)]) None desk = Inr (r, db')"
    using desk_refuses by auto
  have "sr_status r = REJECTED \<and> get_row UserSetting 3 db' = Some (set_col ''key'' (Val (JStr ''font'')) theme_row)"
    using refused_setting_is_renamed [OF run, of "''font''" theme_row]
    by (simp add: edit_def desk_row forbidden_setting_keys_def)
  with run show ?thesis by blast
qed

end
