(* ===== verification/UserData.thy ===== *)
theory UserData
  imports CloudSync PyText
begin

text \<open>
  The tables of a user's data as \<open>app/repositories/models.py\<close> declares them, row by row: portfolios
  and their transactions, watchlists and their items, with the securities and markets they refer to,
  the closing prices and the change log. A table is the list of its rows in the order a query without
  \<open>ORDER BY\<close> returns them. The price and the fee of a transaction are rational numbers, the prices of
  an item, which may be \<open>NaN\<close>, decimals.
\<close>

record portfolio_row =
  po_id :: uuid
  po_user_id :: "uuid option"
  po_name :: string
  po_deleted_at :: "instant option"

record transaction_row =
  tn_id :: uuid
  tn_user_id :: "uuid option"
  tn_portfolio_id :: uuid
  tn_security_id :: uuid
  tn_side :: string
  tn_executed_at :: instant
  tn_quantity_shares :: int
  tn_price :: decimal
  tn_fee :: decimal
  tn_lot_type :: string
  tn_version :: int
  tn_created_at :: instant
  tn_updated_at :: instant
  tn_deleted_at :: "instant option"

record watchlist_row =
  wl_id :: uuid
  wl_user_id :: "uuid option"
  wl_name :: string
  wl_sort_order :: int
  wl_version :: int
  wl_created_at :: instant
  wl_updated_at :: instant
  wl_deleted_at :: "instant option"

record item_row =
  wi_id :: uuid
  wi_user_id :: "uuid option"
  wi_watchlist_id :: uuid
  wi_security_id :: uuid
  wi_sort_order :: int
  wi_note :: "string option"
  wi_target_price :: "py_dec option"
  wi_stop_price :: "py_dec option"
  wi_add_price :: "py_dec option"
  wi_version :: int
  wi_created_at :: instant
  wi_updated_at :: instant
  wi_deleted_at :: "instant option"

record listed_security =
  ls_id :: uuid
  ls_market_id :: uuid
  ls_code :: string
  ls_name :: string

record close_row =
  cl_security_id :: uuid
  cl_trade_date :: date
  cl_close :: "decimal option"

record user_db =
  ud_portfolios :: "portfolio_row list"
  ud_transactions :: "transaction_row list"
  ud_watchlists :: "watchlist_row list"
  ud_items :: "item_row list"
  ud_securities :: "listed_security list"
  ud_markets :: "(uuid \<times> string) list"
  ud_closes :: "close_row list"
  ud_changes :: "sync_change list"

section \<open>Constraints\<close>

text \<open>
  What the database checks when a session is flushed: the primary keys, the unique pair of a
  watchlist and a security, and the references to securities, portfolios and watchlists.
\<close>

definition user_constraints :: "user_db \<Rightarrow> bool" where
  "user_constraints db \<longleftrightarrow>
     distinct (map tn_id (ud_transactions db)) \<and>
     distinct (map wl_id (ud_watchlists db)) \<and>
     distinct (map wi_id (ud_items db)) \<and>
     distinct (map (\<lambda>i. (wi_watchlist_id i, wi_security_id i)) (ud_items db)) \<and>
     distinct (map ch_sequence (ud_changes db)) \<and>
     (\<forall>t \<in> set (ud_transactions db). tn_security_id t \<in> ls_id ` set (ud_securities db) \<and>
        tn_portfolio_id t \<in> po_id ` set (ud_portfolios db)) \<and>
     (\<forall>i \<in> set (ud_items db). wi_security_id i \<in> ls_id ` set (ud_securities db) \<and>
        wi_watchlist_id i \<in> wl_id ` set (ud_watchlists db))"

definition flush_user :: "user_db \<Rightarrow> user_db result" where
  "flush_user db = (if user_constraints db then Inr db else Inl IntegrityError)"

lemma flush_user_Inr: "flush_user db = Inr db' \<longleftrightarrow> user_constraints db \<and> db' = db"
  by (auto simp: flush_user_def)

section \<open>Queries\<close>

text \<open>The portfolio of the user that is not deleted.\<close>

definition live_portfolio :: "uuid \<Rightarrow> uuid \<Rightarrow> user_db \<Rightarrow> portfolio_row option" where
  "live_portfolio user pid db =
     find (\<lambda>p. po_id p = pid \<and> po_user_id p = Some user \<and> po_deleted_at p = None) (ud_portfolios db)"

definition live_transactions :: "uuid \<Rightarrow> uuid \<Rightarrow> user_db \<Rightarrow> transaction_row list" where
  "live_transactions user pid db =
     filter (\<lambda>t. tn_portfolio_id t = pid \<and> tn_user_id t = Some user \<and> tn_deleted_at t = None) (ud_transactions db)"

text \<open>\<open>coalesce(max(sequence), 0)\<close> of the changes of a user\<close>

definition change_cursor :: "uuid \<Rightarrow> user_db \<Rightarrow> int" where
  "change_cursor user db =
     (case map ch_sequence (filter (\<lambda>c. ch_user_id c = user) (ud_changes db)) of
        [] \<Rightarrow> 0 | s # ss \<Rightarrow> foldl max s ss)"

lemma change_cursor_ge:
  assumes "c \<in> set (ud_changes db)" and "ch_user_id c = user"
  shows "ch_sequence c \<le> change_cursor user db"
proof -
  obtain s ss where ss: "map ch_sequence (filter (\<lambda>c. ch_user_id c = user) (ud_changes db)) = s # ss"
    using assms by (cases "map ch_sequence (filter (\<lambda>c. ch_user_id c = user) (ud_changes db))")
      (auto simp: filter_empty_conv)
  have "ch_sequence c \<in> set (map ch_sequence (filter (\<lambda>c. ch_user_id c = user) (ud_changes db)))"
    using assms by simp
  then have "ch_sequence c \<le> foldl max s ss" unfolding ss by (rule foldl_max_ge)
  then show ?thesis by (simp add: change_cursor_def ss)
qed

end
