(* ===== verification/CsvText.thy ===== *)
theory CsvText
  imports Prelude
begin

text \<open>
  Python's \<open>csv\<close> module as the services use it: \<open>csv.reader\<close> over \<open>io.StringIO\<close> with the dialect
  \<open>excel\<close>, and \<open>csv.writer\<close> with the line terminator CR LF. The reader is its state machine, fed the
  characters of every line, which ends after a line feed, and an end-of-line mark; a field of more
  than 131072 characters and a carriage return followed by text are refused (\<open>csv.Error\<close>, here \<open>None\<close>).
  The main fact is that what the writer wrote is read back.
\<close>

section \<open>The reader\<close>

datatype csv_state = Start_record | Start_field | In_field | In_quoted | Quote_in_quoted | Eat_crnl

record csv_parse =
  cp_state :: csv_state
  cp_field :: string
  cp_fields :: "string list"

definition csv_reset :: csv_parse where
  "csv_reset = \<lparr>cp_state = Start_record, cp_field = [], cp_fields = []\<rparr>"

definition field_limit :: nat where "field_limit = 131072"

definition cr :: char where "cr = CHR 0x0D"
definition lf :: char where "lf = CHR 0x0A"
definition comma :: char where "comma = CHR '',''"
definition quotation :: char where "quotation = CHR 0x22"

lemmas csv_chars = cr_def lf_def comma_def quotation_def

definition add_char :: "char \<Rightarrow> csv_state \<Rightarrow> csv_parse \<Rightarrow> csv_parse option" where
  "add_char c st p = (if field_limit \<le> length (cp_field p) then None
     else Some (p\<lparr>cp_state := st, cp_field := cp_field p @ [c]\<rparr>))"

definition save_field :: "csv_state \<Rightarrow> csv_parse \<Rightarrow> csv_parse option" where
  "save_field st p = Some (p\<lparr>cp_state := st, cp_field := [], cp_fields := cp_fields p @ [cp_field p]\<rparr>)"

definition goto :: "csv_state \<Rightarrow> csv_parse \<Rightarrow> csv_parse option" where
  "goto st p = Some (p\<lparr>cp_state := st\<rparr>)"

text \<open>One character.\<close>

definition start_field :: "char \<Rightarrow> csv_parse \<Rightarrow> csv_parse option" where
  "start_field c p =
     (if c = lf \<or> c = cr then save_field Eat_crnl p
      else if c = quotation then goto In_quoted p
      else if c = comma then save_field Start_field p
      else add_char c In_field p)"

fun csv_char :: "csv_state \<Rightarrow> char \<Rightarrow> csv_parse \<Rightarrow> csv_parse option" where
  "csv_char Start_record c p = (if c = lf \<or> c = cr then goto Eat_crnl p else start_field c p)"
| "csv_char Start_field c p = start_field c p"
| "csv_char In_field c p =
     (if c = lf \<or> c = cr then save_field Eat_crnl p
      else if c = comma then save_field Start_field p
      else add_char c In_field p)"
| "csv_char In_quoted c p = (if c = quotation then goto Quote_in_quoted p else add_char c In_quoted p)"
| "csv_char Quote_in_quoted c p =
     (if c = quotation then add_char c In_quoted p
      else if c = comma then save_field Start_field p
      else if c = lf \<or> c = cr then save_field Eat_crnl p
      else add_char c In_field p)"
| "csv_char Eat_crnl c p = (if c = lf \<or> c = cr then Some p else None)"

text \<open>The mark at the end of a line.\<close>

fun csv_eol :: "csv_state \<Rightarrow> csv_parse \<Rightarrow> csv_parse option" where
  "csv_eol Start_record p = Some p"
| "csv_eol Start_field p = save_field Start_record p"
| "csv_eol In_field p = save_field Start_record p"
| "csv_eol In_quoted p = Some p"
| "csv_eol Quote_in_quoted p = save_field Start_record p"
| "csv_eol Eat_crnl p = goto Start_record p"

text \<open>
  The rows from a state on. At the end of the input an open quoted field is closed; a line that does
  not end in a line feed is ended first.
\<close>

fun csv_rows :: "string \<Rightarrow> csv_parse \<Rightarrow> string list list option" where
  "csv_rows [] p =
     (if cp_state p = Start_record then Some []
      else (case csv_eol (cp_state p) p of None \<Rightarrow> None
        | Some q \<Rightarrow> Some [if cp_state q = Start_record then cp_fields q else cp_fields q @ [cp_field q]]))"
| "csv_rows (c # s) p =
     (case csv_char (cp_state p) c p of None \<Rightarrow> None
      | Some q \<Rightarrow>
          if c = lf then
            (case csv_eol (cp_state q) q of None \<Rightarrow> None
             | Some r \<Rightarrow> if cp_state r = Start_record then map_option (Cons (cp_fields r)) (csv_rows s csv_reset)
                         else csv_rows s r)
          else csv_rows s q)"

text \<open>\<open>list(csv.reader(io.StringIO(text)))\<close>\<close>

definition csv_read :: "string \<Rightarrow> string list list option" where
  "csv_read s = csv_rows s csv_reset"

section \<open>The writer\<close>

definition special_char :: "char \<Rightarrow> bool" where
  "special_char c \<longleftrightarrow> c = comma \<or> c = quotation \<or> c = cr \<or> c = lf"

definition escape_field :: "string \<Rightarrow> string" where
  "escape_field f = concat (map (\<lambda>c. if c = quotation then [c, c] else [c]) f)"

definition csv_field :: "string \<Rightarrow> string" where
  "csv_field f = (if list_ex special_char f then quotation # escape_field f @ [quotation] else f)"

fun csv_join :: "string list \<Rightarrow> string" where
  "csv_join [] = []"
| "csv_join [f] = csv_field f"
| "csv_join (f # g # fs) = csv_field f @ comma # csv_join (g # fs)"

text \<open>\<open>writer.writerow(fields)\<close>: a single empty field is quoted.\<close>

definition csv_row :: "string list \<Rightarrow> string" where
  "csv_row fs = (if fs = [[]] then [quotation, quotation] else csv_join fs) @ [cr, lf]"

definition csv_write :: "string list list \<Rightarrow> string" where
  "csv_write rows = concat (map csv_row rows)"

section \<open>Round trip\<close>

lemma chars_differ [simp]:
  "cr \<noteq> lf" "lf \<noteq> cr" "comma \<noteq> cr" "comma \<noteq> lf" "quotation \<noteq> cr" "quotation \<noteq> lf" "quotation \<noteq> comma"
  "comma \<noteq> quotation" "cr \<noteq> comma" "lf \<noteq> comma" "cr \<noteq> quotation" "lf \<noteq> quotation"
  by (simp_all add: csv_chars)

abbreviation at_state :: "csv_state \<Rightarrow> string \<Rightarrow> string list \<Rightarrow> csv_parse" where
  "at_state st f fs \<equiv> \<lparr>cp_state = st, cp_field = f, cp_fields = fs\<rparr>"

lemma quoted_text:
  "length (acc @ f) \<le> field_limit \<Longrightarrow>
     csv_rows (escape_field f @ rest) (at_state In_quoted acc fs) = csv_rows rest (at_state In_quoted (acc @ f) fs)"
proof (induction f arbitrary: acc)
  case (Cons c f)
  then have room: "\<not> field_limit \<le> length acc" and IH:
    "csv_rows (escape_field f @ rest) (at_state In_quoted (acc @ [c]) fs) =
     csv_rows rest (at_state In_quoted (acc @ c # f) fs)"
    using Cons.IH [of "acc @ [c]"] by simp_all
  then show ?case by (auto simp: escape_field_def goto_def add_char_def)
qed (simp add: escape_field_def)

lemma plain_text:
  "length (acc @ f) \<le> field_limit \<Longrightarrow> \<not> list_ex special_char f \<Longrightarrow>
     csv_rows (f @ rest) (at_state In_field acc fs) = csv_rows rest (at_state In_field (acc @ f) fs)"
proof (induction f arbitrary: acc)
  case (Cons c f)
  then have "\<not> field_limit \<le> length acc" by simp
  with Cons.prems Cons.IH [of "acc @ [c]"] show ?case
    by (simp add: special_char_def add_char_def)
qed simp

text \<open>The states a written field leaves the reader in.\<close>

definition after_field :: "string \<Rightarrow> csv_state" where
  "after_field f = (if list_ex special_char f then Quote_in_quoted else if f = [] then Start_field else In_field)"

lemma field_text:
  assumes "length f \<le> field_limit"
  shows "csv_rows (csv_field f @ rest) (at_state Start_field [] fs) = csv_rows rest (at_state (after_field f) f fs)"
proof (cases "list_ex special_char f")
  case True
  then show ?thesis
    using quoted_text [of "[]" f "quotation # rest" fs] assms
    by (simp add: csv_field_def after_field_def start_field_def goto_def)
next
  case False
  show ?thesis
  proof (cases f)
    case (Cons c g)
    have "csv_rows (g @ rest) (at_state In_field [c] fs) = csv_rows rest (at_state In_field f fs)"
      using plain_text [of "[c]" g rest fs] assms False Cons by simp
    then show ?thesis
      using False Cons by (simp add: csv_field_def after_field_def start_field_def add_char_def special_char_def field_limit_def)
  qed (simp add: csv_field_def after_field_def)
qed

lemma comma_text:
  "csv_rows (comma # rest) (at_state (after_field f) f fs) = csv_rows rest (at_state Start_field [] (fs @ [f]))"
  by (simp add: after_field_def start_field_def save_field_def)

lemma end_text:
  "csv_rows (cr # lf # rest) (at_state (after_field f) f fs) = map_option (Cons (fs @ [f])) (csv_rows rest csv_reset)"
  by (simp add: after_field_def start_field_def save_field_def goto_def)

lemma join_text:
  "fs \<noteq> [] \<Longrightarrow> \<forall>f \<in> set fs. length f \<le> field_limit \<Longrightarrow>
     csv_rows (csv_join fs @ cr # lf # rest) (at_state Start_field [] gs) =
     map_option (Cons (gs @ fs)) (csv_rows rest csv_reset)"
  by (induction fs arbitrary: gs rule: csv_join.induct)
    (simp_all add: field_text comma_text end_text del: csv_rows.simps)

lemma start_text:
  "c \<noteq> lf \<Longrightarrow> c \<noteq> cr \<Longrightarrow> csv_rows (c # s) csv_reset = csv_rows (c # s) (at_state Start_field [] [])"
  by (simp add: csv_reset_def start_field_def goto_def save_field_def add_char_def)

lemma field_start:
  assumes "f \<noteq> []"
  shows "\<exists>c s. csv_field f = c # s \<and> c \<noteq> lf \<and> c \<noteq> cr"
proof (cases "list_ex special_char f")
  case False
  with assms show ?thesis by (cases f) (auto simp: csv_field_def special_char_def)
qed (simp add: csv_field_def)

lemma join_start:
  assumes "fs \<noteq> []" and "fs \<noteq> [[]]"
  shows "\<exists>c s. csv_join fs = c # s \<and> c \<noteq> lf \<and> c \<noteq> cr"
proof (cases fs rule: csv_join.cases)
  case (3 f g fs')
  then show ?thesis using field_start [of f] by (cases "f = []") (auto simp: csv_field_def)
qed (use assms field_start in auto)

lemma row_text:
  assumes "\<forall>f \<in> set fs. length f \<le> field_limit"
  shows "csv_rows (csv_row fs @ rest) csv_reset = map_option (Cons fs) (csv_rows rest csv_reset)"
proof -
  consider "fs = []" | "fs = [[]]" | (more) "fs \<noteq> []" "fs \<noteq> [[]]" by blast
  then show ?thesis
  proof cases
    case more
    then obtain c s where cs: "csv_join fs = c # s" "c \<noteq> lf" "c \<noteq> cr" using join_start by blast
    then have "csv_rows (csv_row fs @ rest) csv_reset = csv_rows (csv_join fs @ cr # lf # rest) (at_state Start_field [] [])"
      using more start_text [of c "s @ cr # lf # rest"] by (simp add: csv_row_def)
    then show ?thesis using join_text [OF more(1) assms, of rest "[]"] by simp
  qed (simp_all add: csv_row_def csv_reset_def start_field_def goto_def save_field_def)
qed

text \<open>The reader returns the rows the writer was given.\<close>

lemma csv_round_trip:
  assumes "\<forall>r \<in> set rows. \<forall>f \<in> set r. length f \<le> field_limit"
  shows "csv_read (csv_write rows) = Some rows"
  using assms
proof (induction rows)
  case Nil
  then show ?case by (simp add: csv_read_def csv_write_def csv_reset_def)
next
  case (Cons r rows)
  then show ?case using row_text [of r "csv_write rows"] by (simp add: csv_read_def csv_write_def)
qed

end
