(* ===== verification/Portfolio.thy ===== *)
theory Portfolio
  imports MarketTypes "HOL-Library.Multiset"
begin

text \<open>
  Portfolio accounting: the domain records of \<open>app/domain/portfolio.py\<close>, the
  moving-average replay, the holdings and the summary of \<open>app/services/portfolio.py\<close>,
  and the transaction table of \<open>app/repositories/sql_portfolio.py\<close>.
\<close>

section \<open>Records\<close>

datatype transaction_side = BUY | SELL

datatype lot_type = ROUND_LOT | BOARD_LOT | ODD_LOT

record portfolio =
  pf_id :: uuid
  pf_name :: string
  pf_base_currency :: string
  pf_is_default :: bool
  pf_created_at :: instant
  pf_updated_at :: instant

record portfolio_transaction =
  t_id :: uuid
  t_portfolio_id :: uuid
  t_security_id :: uuid
  t_security :: security_key
  t_security_name :: string
  t_side :: transaction_side
  t_executed_at :: instant
  t_quantity_shares :: int
  t_price :: decimal
  t_fee :: decimal
  t_lot_type :: lot_type
  t_created_at :: instant
  t_updated_at :: instant

record portfolio_position =
  p_security_id :: uuid
  p_security :: security_key
  p_security_name :: string
  p_quantity_shares :: int
  p_average_cost :: "decimal option"
  p_cost_basis :: decimal
  p_realized_pnl :: decimal

record portfolio_holding =
  h_position :: portfolio_position
  h_latest_price :: "decimal option"
  h_price_as_of :: "instant option"
  h_price_data_status :: data_status
  h_market_value :: "decimal option"
  h_unrealized_pnl :: "decimal option"
  h_unrealized_return_percent :: "decimal option"
  h_allocation_percent :: "decimal option"

section \<open>Replay of the transaction log\<close>

type_synonym positions = "(uuid \<times> portfolio_position) list"

definition insufficient_position :: error where
  "insufficient_position = AppError ''PORTFOLIO_INSUFFICIENT_POSITION'' 422"

definition empty_position :: "portfolio_transaction \<Rightarrow> portfolio_position" where
  "empty_position t =
     \<lparr>p_security_id = t_security_id t, p_security = t_security t,
      p_security_name = t_security_name t, p_quantity_shares = 0, p_average_cost = None,
      p_cost_basis = 0, p_realized_pnl = 0\<rparr>"

definition current_position :: "positions \<Rightarrow> portfolio_transaction \<Rightarrow> portfolio_position" where
  "current_position states t =
     (case map_of states (t_security_id t) of None \<Rightarrow> empty_position t | Some p \<Rightarrow> p)"

definition buy_position :: "portfolio_position \<Rightarrow> portfolio_transaction \<Rightarrow> portfolio_position result" where
  "buy_position current t =
     (let quantity = p_quantity_shares current + t_quantity_shares t;
          basis = dadd prec (dadd prec (p_cost_basis current)
                    (dmul prec (t_price t) (of_int (t_quantity_shares t)))) (t_fee t)
      in rbind (ddiv prec basis (of_int quantity)) (\<lambda>average.
           Inr (current\<lparr>p_quantity_shares := quantity, p_cost_basis := basis,
                        p_average_cost := Some average\<rparr>)))"

definition sell_position :: "portfolio_position \<Rightarrow> portfolio_transaction \<Rightarrow> portfolio_position result" where
  "sell_position current t =
     (if p_quantity_shares current < t_quantity_shares t then Inl insufficient_position
      else rbind (ddiv prec (p_cost_basis current) (of_int (p_quantity_shares current))) (\<lambda>average.
        let sold_basis = dmul prec average (of_int (t_quantity_shares t));
            quantity = p_quantity_shares current - t_quantity_shares t;
            basis = (if quantity = 0 then 0 else dsub prec (p_cost_basis current) sold_basis);
            realized = dsub prec (dsub prec (dadd prec (p_realized_pnl current)
                         (dmul prec (t_price t) (of_int (t_quantity_shares t)))) (t_fee t)) sold_basis
        in rbind (if quantity = 0 then Inr None
                  else rbind (ddiv prec basis (of_int quantity)) (\<lambda>a. Inr (Some a))) (\<lambda>average_cost.
             Inr (current\<lparr>p_quantity_shares := quantity, p_cost_basis := basis,
                          p_average_cost := average_cost, p_realized_pnl := realized\<rparr>))))"

definition replay_step :: "positions \<Rightarrow> portfolio_transaction \<Rightarrow> positions result" where
  "replay_step states t =
     (let current = current_position states t in
      rbind (case t_side t of BUY \<Rightarrow> buy_position current t | SELL \<Rightarrow> sell_position current t)
        (\<lambda>p. Inr (AList.update (t_security_id t) p states)))"

definition replay_order :: "portfolio_transaction \<Rightarrow> instant \<times> instant \<times> uuid" where
  "replay_order t = (t_executed_at t, t_created_at t, t_id t)"

definition replay_states :: "portfolio_transaction list \<Rightarrow> positions result" where
  "replay_states ts = rfold replay_step [] (sort_key replay_order ts)"

definition position_order :: "portfolio_position \<Rightarrow> market_code \<times> string" where
  "position_order p = (sk_market (p_security p), sk_code (p_security p))"

definition replay :: "portfolio_transaction list \<Rightarrow> portfolio_position list result" where
  "replay ts = rbind (replay_states ts) (\<lambda>states.
     Inr (sort_key position_order (map snd states)))"

section \<open>Share counts\<close>

text \<open>The shares a list of transactions leaves in a security: purchases minus sales.\<close>

fun signed_shares :: "portfolio_transaction \<Rightarrow> int" where
  "signed_shares t = (case t_side t of BUY \<Rightarrow> t_quantity_shares t | SELL \<Rightarrow> - t_quantity_shares t)"

definition net_shares :: "uuid \<Rightarrow> portfolio_transaction list \<Rightarrow> int" where
  "net_shares s ts = (\<Sum>t\<leftarrow>filter (\<lambda>t. t_security_id t = s) ts. signed_shares t)"

lemma net_shares_Nil [simp]: "net_shares s [] = 0"
  by (simp add: net_shares_def)

lemma net_shares_Cons [simp]:
  "net_shares s (t # ts) = (if t_security_id t = s then signed_shares t else 0) + net_shares s ts"
  by (simp add: net_shares_def)

lemma net_shares_append [simp]: "net_shares s (xs @ ys) = net_shares s xs + net_shares s ys"
  by (simp add: net_shares_def)

lemma net_shares_mset: "mset xs = mset ys \<Longrightarrow> net_shares s xs = net_shares s ys"
proof -
  have "net_shares s zs = (\<Sum>t\<in>#filter_mset (\<lambda>t. t_security_id t = s) (mset zs). signed_shares t)" for zs
    by (simp add: net_shares_def sum_mset_sum_list flip: mset_filter mset_map)
  then show "mset xs = mset ys \<Longrightarrow> ?thesis" by simp
qed

definition positive_shares :: "portfolio_transaction list \<Rightarrow> bool" where
  "positive_shares ts \<longleftrightarrow> (\<forall>t \<in> set ts. 0 < t_quantity_shares t)"

text \<open>What every position of a replayed log satisfies.\<close>

definition position_ok :: "portfolio_position \<Rightarrow> bool" where
  "position_ok p \<longleftrightarrow>
     0 \<le> p_quantity_shares p \<and>
     (p_quantity_shares p = 0 \<longrightarrow> p_cost_basis p = 0 \<and> p_average_cost p = None) \<and>
     (0 < p_quantity_shares p \<longrightarrow>
        ddiv prec (p_cost_basis p) (of_int (p_quantity_shares p)) = Inr (the (p_average_cost p)) \<and>
        p_average_cost p \<noteq> None)"

definition states_ok :: "positions \<Rightarrow> portfolio_transaction list \<Rightarrow> bool" where
  "states_ok st ts \<longleftrightarrow>
     distinct (map fst st) \<and> fst ` set st = t_security_id ` set ts \<and>
     (\<forall>(s, p) \<in> set st. p_security_id p = s \<and> p_quantity_shares p = net_shares s ts \<and> position_ok p)"

lemma position_ok_empty: "position_ok (empty_position t)"
  by (simp add: position_ok_def empty_position_def)

lemma buy_position_ok:
  assumes "position_ok p" and "0 < t_quantity_shares t"
  shows "\<exists>p'. buy_position p t = Inr p' \<and> position_ok p' \<and> p_security_id p' = p_security_id p \<and>
    p_quantity_shares p' = p_quantity_shares p + t_quantity_shares t"
  using assms by (auto simp: buy_position_def position_ok_def ddiv_def Let_def)

lemma sell_position_ok:
  assumes "position_ok p" and "0 < t_quantity_shares t" and "t_quantity_shares t \<le> p_quantity_shares p"
  shows "\<exists>p'. sell_position p t = Inr p' \<and> position_ok p' \<and> p_security_id p' = p_security_id p \<and>
    p_quantity_shares p' = p_quantity_shares p - t_quantity_shares t"
  using assms by (auto simp: sell_position_def position_ok_def ddiv_def Let_def)

lemma sell_position_short:
  "p_quantity_shares p < t_quantity_shares t \<Longrightarrow> sell_position p t = Inl insufficient_position"
  by (simp add: sell_position_def)

lemma current_position_ok:
  assumes "states_ok st ts"
  shows "position_ok (current_position st t)"
    and "p_security_id (current_position st t) = t_security_id t"
    and "p_quantity_shares (current_position st t) = net_shares (t_security_id t) ts"
proof -
  have "position_ok (current_position st t) \<and> p_security_id (current_position st t) = t_security_id t \<and>
    p_quantity_shares (current_position st t) = net_shares (t_security_id t) ts"
  proof (cases "map_of st (t_security_id t)")
    case None
    then have "t_security_id t \<notin> fst ` set st" by (simp add: map_of_eq_None_iff)
    then have "t_security_id t \<notin> t_security_id ` set ts" using assms by (simp add: states_ok_def)
    then have "filter (\<lambda>u. t_security_id u = t_security_id t) ts = []"
      by (auto simp: filter_empty_conv image_iff)
    with None show ?thesis
      by (simp add: current_position_def position_ok_empty net_shares_def) (simp add: empty_position_def)
  next
    case (Some p)
    then have "(t_security_id t, p) \<in> set st" by (rule map_of_SomeD)
    with Some assms show ?thesis by (auto simp: current_position_def states_ok_def)
  qed
  then show "position_ok (current_position st t)"
    and "p_security_id (current_position st t) = t_security_id t"
    and "p_quantity_shares (current_position st t) = net_shares (t_security_id t) ts" by simp_all
qed

lemma states_ok_update:
  assumes "states_ok st ts" and "position_ok p" and "p_security_id p = t_security_id t"
    and "p_quantity_shares p = net_shares (t_security_id t) (ts @ [t])"
  shows "states_ok (AList.update (t_security_id t) p st) (ts @ [t])"
proof -
  have d: "distinct (map fst st)" using assms(1) by (simp add: states_ok_def)
  have keys: "fst ` set (AList.update (t_security_id t) p st) = t_security_id ` set (ts @ [t])"
    using assms(1) by (simp add: states_ok_def dom_update)
  have others: "net_shares s (ts @ [t]) = net_shares s ts" if "s \<noteq> t_security_id t" for s
    using that by simp
  show ?thesis
    unfolding states_ok_def
  proof (intro conjI)
    show "distinct (map fst (AList.update (t_security_id t) p st))"
      using d by (rule distinct_update)
    show "\<forall>(s, q) \<in> set (AList.update (t_security_id t) p st).
        p_security_id q = s \<and> p_quantity_shares q = net_shares s (ts @ [t]) \<and> position_ok q"
      using assms unfolding set_AList_update_distinct [OF d]
      by (auto simp: states_ok_def simp del: net_shares_append dest!: others)
  qed (rule keys)
qed

lemma replay_step_cases:
  assumes "states_ok st ts" and "0 < t_quantity_shares t"
  shows "if t_side t = SELL \<and> net_shares (t_security_id t) ts < t_quantity_shares t
    then replay_step st t = Inl insufficient_position
    else \<exists>st'. replay_step st t = Inr st' \<and> states_ok st' (ts @ [t])"
proof -
  note cur = current_position_ok [OF assms(1), of t]
  show ?thesis
  proof (cases "t_side t")
    case BUY
    from buy_position_ok [OF cur(1) assms(2)] obtain p' where
      p': "buy_position (current_position st t) t = Inr p'" "position_ok p'"
        "p_security_id p' = p_security_id (current_position st t)"
        "p_quantity_shares p' = p_quantity_shares (current_position st t) + t_quantity_shares t" by blast
    then have "states_ok (AList.update (t_security_id t) p' st) (ts @ [t])"
      using assms(1) cur BUY by (intro states_ok_update) simp_all
    with BUY p' show ?thesis by (simp add: replay_step_def)
  next
    case SELL
    show ?thesis
    proof (cases "net_shares (t_security_id t) ts < t_quantity_shares t")
      case True
      with SELL cur show ?thesis by (simp add: replay_step_def sell_position_short)
    next
      case False
      with cur have le: "t_quantity_shares t \<le> p_quantity_shares (current_position st t)" by simp
      from sell_position_ok [OF cur(1) assms(2) le] obtain p' where
        p': "sell_position (current_position st t) t = Inr p'" "position_ok p'"
          "p_security_id p' = p_security_id (current_position st t)"
          "p_quantity_shares p' = p_quantity_shares (current_position st t) - t_quantity_shares t" by blast
      then have "states_ok (AList.update (t_security_id t) p' st) (ts @ [t])"
        using assms(1) cur SELL by (intro states_ok_update) simp_all
      with SELL False p' show ?thesis by (simp add: replay_step_def)
    qed
  qed
qed

text \<open>A log is covered when no sale exceeds the shares bought before it.\<close>

definition covered :: "portfolio_transaction list \<Rightarrow> bool" where
  "covered ts \<longleftrightarrow> (\<forall>k s. 0 \<le> net_shares s (take k ts))"

lemma covered_snoc: "covered (ts @ [t]) \<longleftrightarrow> covered ts \<and> (\<forall>s. 0 \<le> net_shares s (ts @ [t]))"
proof -
  have "take k (ts @ [t]) = (if k \<le> length ts then take k ts else ts @ [t])" for k
    by simp
  then show ?thesis
    unfolding covered_def by (metis le_refl not_less_eq_eq take_all nat_le_linear)
qed

lemma covered_step:
  assumes "covered ts" and "0 < t_quantity_shares t"
  shows "covered (ts @ [t]) \<longleftrightarrow> \<not> (t_side t = SELL \<and> net_shares (t_security_id t) ts < t_quantity_shares t)"
proof -
  have "0 \<le> net_shares s ts" for s
    using assms(1) unfolding covered_def by (metis take_all order_refl)
  with assms show ?thesis by (cases "t_side t") (auto simp: covered_snoc)
qed

lemma replay_log:
  assumes "positive_shares ts"
  shows "if covered ts then \<exists>st. rfold replay_step [] ts = Inr st \<and> states_ok st ts
    else rfold replay_step [] ts = Inl insufficient_position"
  using assms
proof (induction ts rule: rev_induct)
  case Nil
  then show ?case by (simp add: covered_def states_ok_def)
next
  case (snoc t ts)
  then have pos: "0 < t_quantity_shares t" and IH: "positive_shares ts"
    by (simp_all add: positive_shares_def)
  show ?case
  proof (cases "covered ts")
    case True
    with snoc.IH [OF IH] obtain st where st: "rfold replay_step [] ts = Inr st" "states_ok st ts"
      by auto
    show ?thesis
      using replay_step_cases [OF st(2) pos] covered_step [OF True pos] st(1)
      by (auto simp: rfold_append split: if_splits)
  next
    case False
    with snoc.IH [OF IH] show ?thesis by (simp add: rfold_append covered_snoc)
  qed
qed

section \<open>What a replay returns\<close>

lemma positive_shares_sort [simp]: "positive_shares (sort_key f ts) = positive_shares ts"
  by (simp add: positive_shares_def)

text \<open>
  The order of the log does not matter when no two transactions have the same key: the
  replay sorts it.
\<close>

lemma replay_states_permutation:
  assumes "mset ts = mset us" and "inj_on replay_order (set ts)"
  shows "replay_states ts = replay_states us"
proof -
  have "sort_key replay_order ts = sort_key replay_order us"
    by (rule sort_key_inj_key_eq) (use assms in simp_all)
  then show ?thesis by (simp add: replay_states_def)
qed

lemma replay_states_log:
  assumes "positive_shares ts"
  shows "if covered (sort_key replay_order ts)
    then \<exists>st. replay_states ts = Inr st \<and> states_ok st ts
    else replay_states ts = Inl insufficient_position"
proof -
  have "states_ok st (sort_key replay_order ts) \<longleftrightarrow> states_ok st ts" for st
    unfolding states_ok_def using net_shares_mset [of "sort_key replay_order ts" ts] by simp
  then show ?thesis
    using replay_log [of "sort_key replay_order ts"] assms by (auto simp: replay_states_def)
qed

lemma replay_outcome:
  assumes "positive_shares ts"
  shows "((\<exists>ps. replay ts = Inr ps) \<longleftrightarrow> covered (sort_key replay_order ts)) \<and>
    (\<forall>e. replay ts = Inl e \<longrightarrow> e = insufficient_position)"
  using replay_states_log [OF assms] by (auto simp: replay_def split: if_splits)

lemma replay_result:
  assumes "positive_shares ts" and "replay ts = Inr ps"
  shows "distinct (map p_security_id ps) \<and> p_security_id ` set ps = t_security_id ` set ts \<and>
    (\<forall>p \<in> set ps. p_quantity_shares p = net_shares (p_security_id p) ts \<and> position_ok p)"
proof -
  from assms replay_states_log [OF assms(1)] obtain st where st: "replay_states ts = Inr st" "states_ok st ts"
    by (auto simp: replay_def split: if_splits)
  with assms(2) have ps: "ps = sort_key position_order (map snd st)" by (simp add: replay_def)
  have ids: "map p_security_id (map snd st) = map fst st"
    using st(2) by (auto simp: states_ok_def)
  have same: "mset (map p_security_id ps) = mset (map fst st)"
    unfolding ids [symmetric] by (simp add: ps multiset.map_comp)
  have "distinct (map p_security_id ps)" and "p_security_id ` set ps = fst ` set st"
    using st(2) mset_eq_imp_distinct_iff [OF same] mset_eq_setD [OF same]
    by (simp_all add: states_ok_def)
  moreover have "\<forall>p \<in> set ps. p_quantity_shares p = net_shares (p_security_id p) ts \<and> position_ok p"
    using st(2) by (auto simp: ps states_ok_def)
  ultimately show ?thesis using st(2) by (simp add: states_ok_def)
qed

text \<open>
  C1. Replaying a log whose transactions all move a positive number of shares succeeds
  exactly when, in the order of execution, no sale exceeds the shares held at that moment;
  otherwise the only error is \<open>PORTFOLIO_INSUFFICIENT_POSITION\<close>.
\<close>

theorem replay_succeeds_iff_covered:
  assumes "positive_shares ts"
  shows "((\<exists>ps. replay ts = Inr ps) \<longleftrightarrow> covered (sort_key replay_order ts)) \<and>
    (\<forall>e. replay ts = Inl e \<longrightarrow> e = insufficient_position)"
  by (rule replay_outcome [OF assms])

text \<open>
  A successful replay returns one position per traded security, holding exactly the
  shares bought minus the shares sold; a closed position has no cost basis and no average
  cost, an open one has the average cost \<open>cost_basis / quantity\<close>.
\<close>

theorem replay_positions:
  assumes "positive_shares ts" and "replay ts = Inr ps"
  shows "distinct (map p_security_id ps) \<and> p_security_id ` set ps = t_security_id ` set ts \<and>
    (\<forall>p \<in> set ps. p_quantity_shares p = net_shares (p_security_id p) ts \<and> position_ok p)"
  by (rule replay_result [OF assms])

section \<open>The cost basis under rounding\<close>

text \<open>
  A sale takes \<open>average * sold\<close> off the cost basis, where the average has been rounded up
  by at most half a unit of its 28th digit. As long as fewer than \<open>10 ^ 26\<close> shares are held
  the amount taken never exceeds the basis.
\<close>

lemma round_up_bound: "0 \<le> x \<Longrightarrow> dctx x \<le> x * (1 + 1 / (2 * 10 ^ 27))"
proof -
  assume "0 \<le> x"
  then have "\<bar>dctx x - x\<bar> \<le> x * (1 / (2 * 10 ^ 27))"
    using dround_error [of prec x] by (simp add: prec_def power_int_minus)
  then have "dctx x - x \<le> x * (1 / (2 * 10 ^ 27))" by (rule order_trans [OF abs_ge_self])
  then show ?thesis by (simp only: distrib_left mult_1_right)
qed

lemma sold_basis_le:
  fixes C q s :: rat
  assumes "0 \<le> C" and "0 < s" and "s + 1 \<le> q" and "q \<le> 10 ^ 26"
  shows "dctx (dctx (C / q) * s) \<le> C"
proof -
  define u :: rat where "u = 1 + 1 / (2 * 10 ^ 27)"
  have "0 \<le> dctx (C / q)" unfolding prec_def using assms by (intro d28.rnd_nonneg) simp
  then have "dctx (dctx (C / q) * s) \<le> dctx (C / q) * s * u"
    unfolding u_def using assms by (intro round_up_bound) simp
  also have "\<dots> \<le> (C / q * u) * s * u"
    using assms round_up_bound [of "C / q"] by (intro mult_right_mono) (simp_all add: u_def)
  also have "\<dots> = C * ((s * u\<^sup>2) / q)" by (simp add: power2_eq_square)
  also have "\<dots> \<le> C * 1"
  proof (rule mult_left_mono [OF _ assms(1)])
    have "s * u\<^sup>2 = s + s * (u\<^sup>2 - 1)" by (simp add: algebra_simps)
    also have "\<dots> \<le> s + 10 ^ 26 * (u\<^sup>2 - 1)"
      using assms by (intro add_left_mono mult_right_mono) (simp_all add: u_def power2_eq_square)
    also have "\<dots> \<le> s + 1" by (simp add: u_def power2_eq_square)
    also have "\<dots> \<le> q" by (rule assms)
    finally show "(s * u\<^sup>2) / q \<le> 1" using assms by (simp add: divide_le_eq)
  qed
  finally show ?thesis by simp
qed

definition nonneg_amounts :: "portfolio_transaction list \<Rightarrow> bool" where
  "nonneg_amounts ts \<longleftrightarrow> (\<forall>t \<in> set ts. 0 \<le> t_price t \<and> 0 \<le> t_fee t)"

lemma buy_position_basis:
  assumes "buy_position p t = Inr p'" and "0 \<le> p_cost_basis p" and "0 \<le> t_price t"
    and "0 \<le> t_fee t" and "0 < t_quantity_shares t"
  shows "0 \<le> p_cost_basis p'"
  using assms
  by (auto simp: buy_position_def Let_def rbind_eq_Inr dops prec_def
      intro!: d28.rnd_nonneg add_nonneg_nonneg)

lemma sell_position_basis:
  assumes "sell_position p t = Inr p'" and "0 \<le> p_cost_basis p" and "0 < t_quantity_shares t"
    and "p_quantity_shares p \<le> 10 ^ 26"
  shows "0 \<le> p_cost_basis p'"
proof (cases "p_quantity_shares p = t_quantity_shares t")
  case True
  with assms show ?thesis by (auto simp: sell_position_def Let_def rbind_eq_Inr)
next
  case False
  with assms(1) have lt: "t_quantity_shares t + 1 \<le> p_quantity_shares p"
    by (auto simp: sell_position_def split: if_splits)
  have p': "p_cost_basis p' = dctx (p_cost_basis p -
      dctx (dctx (p_cost_basis p / of_int (p_quantity_shares p)) * of_int (t_quantity_shares t)))"
    using assms(1) False by (auto simp: sell_position_def Let_def rbind_eq_Inr ddiv_def dops split: if_splits)
  have lt': "rat_of_int (t_quantity_shares t) + 1 \<le> rat_of_int (p_quantity_shares p)"
    using lt of_int_le_iff [where ?'a = rat, of "t_quantity_shares t + 1" "p_quantity_shares p"] by simp
  have le': "rat_of_int (p_quantity_shares p) \<le> 10 ^ 26"
    using assms(4) of_int_le_iff [where ?'a = rat, of "p_quantity_shares p" "10 ^ 26"] by simp
  show ?thesis
    unfolding p' prec_def
    by (rule d28.rnd_nonneg, unfold prec_def [symmetric])
      (use sold_basis_le [OF assms(2) _ lt' le'] assms(3) in simp)
qed

definition shares_moved :: "portfolio_transaction list \<Rightarrow> int" where
  "shares_moved ts = (\<Sum>t\<leftarrow>ts. t_quantity_shares t)"

lemma net_shares_le_moved: "positive_shares ts \<Longrightarrow> net_shares s ts \<le> shares_moved ts"
proof (induction ts)
  case (Cons t ts)
  then show ?case
    by (cases "t_side t") (auto simp: positive_shares_def shares_moved_def)
qed (simp add: shares_moved_def)

lemma replay_log_basis:
  assumes "positive_shares ts" and "nonneg_amounts ts" and "shares_moved ts \<le> 10 ^ 26"
    and "rfold replay_step [] ts = Inr st"
  shows "\<forall>(s, p) \<in> set st. 0 \<le> p_cost_basis p"
  using assms
proof (induction ts arbitrary: st rule: rev_induct)
  case (snoc t ts)
  from snoc.prems have t: "0 < t_quantity_shares t" "0 \<le> t_price t" "0 \<le> t_fee t"
    and ts: "positive_shares ts" "nonneg_amounts ts" "shares_moved ts \<le> 10 ^ 26"
    by (auto simp: positive_shares_def nonneg_amounts_def shares_moved_def)
  from snoc.prems(4) obtain st0 where st0: "rfold replay_step [] ts = Inr st0"
    and step: "replay_step st0 t = Inr st" by (auto simp: rfold_append rbind_eq_Inr)
  from replay_log [OF ts(1)] st0 have ok: "states_ok st0 ts" by (auto split: if_splits)
  from snoc.IH [OF ts st0] have old: "\<forall>(s, p) \<in> set st0. 0 \<le> p_cost_basis p" .
  then have cur: "0 \<le> p_cost_basis (current_position st0 t)"
    by (auto simp: current_position_def empty_position_def split: option.splits dest!: map_of_SomeD)
  have "p_quantity_shares (current_position st0 t) \<le> 10 ^ 26"
    using current_position_ok(3) [OF ok, of t] net_shares_le_moved [OF ts(1), of "t_security_id t"] ts(3)
    by simp
  with step t cur obtain p' where p': "0 \<le> p_cost_basis p'" "st = AList.update (t_security_id t) p' st0"
    by (auto simp: replay_step_def Let_def rbind_eq_Inr split: transaction_side.splits
        dest: buy_position_basis sell_position_basis)
  have "distinct (map fst st0)" using ok by (simp add: states_ok_def)
  with old p' show ?case by (auto simp: set_AList_update_distinct)
qed simp

text \<open>
  With non-negative prices and fees and at most \<open>10 ^ 26\<close> shares moved, no position of
  a replayed log has a negative cost basis, whatever the 28-digit rounding did on the way.
\<close>

theorem replay_cost_basis_nonneg:
  assumes "positive_shares ts" and "nonneg_amounts ts" and "shares_moved ts \<le> 10 ^ 26"
    and "replay ts = Inr ps" and "p \<in> set ps"
  shows "0 \<le> p_cost_basis p"
proof -
  from assms(4) obtain st where st: "replay_states ts = Inr st" and ps: "set ps = snd ` set st"
    by (auto simp: replay_def rbind_eq_Inr)
  have "mset (sort_key replay_order ts) = mset ts" by simp
  then have "shares_moved (sort_key replay_order ts) = shares_moved ts"
    unfolding shares_moved_def by (metis mset_map sum_mset_sum_list)
  then show ?thesis
    using replay_log_basis [of "sort_key replay_order ts" st] assms st ps
    by (auto simp: replay_states_def nonneg_amounts_def)
qed

section \<open>The transaction table\<close>

text \<open>
  The rows of \<open>portfolios\<close> and \<open>portfolio_transactions\<close>; a transaction row is kept with the
  security it is joined to (\<open>_transaction\<close>). \<open>list_transactions\<close> orders by execution, creation
  and identifier.
\<close>

record portfolio_db =
  db_portfolios :: "portfolio list"
  db_transactions :: "portfolio_transaction list"

definition get_portfolio :: "portfolio_db \<Rightarrow> uuid \<Rightarrow> portfolio option" where
  "get_portfolio db pid = List.find (\<lambda>p. pf_id p = pid) (db_portfolios db)"

definition list_transactions :: "portfolio_db \<Rightarrow> uuid \<Rightarrow> portfolio_transaction list" where
  "list_transactions db pid =
     sort_key replay_order (filter (\<lambda>t. t_portfolio_id t = pid) (db_transactions db))"

definition add_transaction :: "portfolio_db \<Rightarrow> portfolio_transaction \<Rightarrow> portfolio_db" where
  "add_transaction db row = db\<lparr>db_transactions := db_transactions db @ [row]\<rparr>"

definition sql_delete_transaction :: "portfolio_db \<Rightarrow> uuid \<Rightarrow> uuid \<Rightarrow> portfolio_db" where
  "sql_delete_transaction db pid tid =
     db\<lparr>db_transactions := filter (\<lambda>t. \<not> (t_portfolio_id t = pid \<and> t_id t = tid)) (db_transactions db)\<rparr>"

text \<open>The contract of \<open>PortfolioRepository\<close> the service rests on.\<close>

locale portfolio_repository =
  fixes log :: "'db \<Rightarrow> uuid \<Rightarrow> portfolio_transaction list"
    and add :: "'db \<Rightarrow> portfolio_transaction \<Rightarrow> 'db"
    and remove :: "'db \<Rightarrow> uuid \<Rightarrow> uuid \<Rightarrow> 'db"
  assumes log_sorted: "log db pid = sort_key replay_order (log db pid)"
    and log_add: "mset (log (add db t) pid) =
      (if t_portfolio_id t = pid then add_mset t (mset (log db pid)) else mset (log db pid))"
    and log_remove: "log (remove db pid tid) pid' =
      (if pid' = pid then filter (\<lambda>t. t_id t \<noteq> tid) (log db pid') else log db pid')"
begin

lemma log_add_other: "t_portfolio_id t \<noteq> pid \<Longrightarrow> mset (log (add db t) pid) = mset (log db pid)"
  by (simp add: log_add)

lemma positive_shares_add:
  "positive_shares (log db pid) \<Longrightarrow> 0 < t_quantity_shares t \<Longrightarrow> positive_shares (log (add db t) pid)"
  using mset_eq_setD [of "log (add db t) pid" "if t_portfolio_id t = pid then t # log db pid else log db pid"]
    log_add [of db t pid]
  by (auto simp: positive_shares_def split: if_splits)

lemma positive_shares_remove:
  "positive_shares (log db pid') \<Longrightarrow> positive_shares (log (remove db pid tid) pid')"
  by (auto simp: positive_shares_def log_remove)

end

lemma filter_insort_key_neg: "\<not> P x \<Longrightarrow> filter P (insort_key f x xs) = filter P xs"
  by (induction xs) auto

lemma filter_sort_key: "filter P (sort_key f xs) = sort_key f (filter P xs)"
  by (rule filter_sort)

interpretation sql: portfolio_repository list_transactions add_transaction sql_delete_transaction
proof
  fix db pid pid' tid t
  show "list_transactions db pid = sort_key replay_order (list_transactions db pid)"
    by (simp add: list_transactions_def sort_key_id_if_sorted)
  show "mset (list_transactions (add_transaction db t) pid) =
      (if t_portfolio_id t = pid then add_mset t (mset (list_transactions db pid))
       else mset (list_transactions db pid))"
    by (simp add: list_transactions_def add_transaction_def)
  show "list_transactions (sql_delete_transaction db pid tid) pid' =
      (if pid' = pid then filter (\<lambda>t. t_id t \<noteq> tid) (list_transactions db pid')
       else list_transactions db pid')"
    by (auto simp: list_transactions_def sql_delete_transaction_def filter_sort conj_commute
        intro!: arg_cong [where f = "sort_key replay_order"] filter_cong)
qed

section \<open>The service\<close>

text \<open>A row of the securities table, as \<open>find_by_code\<close> returns it.\<close>

record security_ref =
  s_id :: uuid
  s_market :: market_code
  s_code :: string
  s_name :: string

definition max_uuid :: uuid where "max_uuid = 2 ^ 128 - 1"

text \<open>\<open>datetime.max\<close> in UTC.\<close>

definition max_instant :: instant where "max_instant = 253402300799999999"

definition require_portfolio :: "portfolio_db \<Rightarrow> uuid \<Rightarrow> portfolio result" where
  "require_portfolio db pid =
     (case get_portfolio db pid of
        None \<Rightarrow> Inl (AppError ''PORTFOLIO_NOT_FOUND'' 404)
      | Some p \<Rightarrow> Inr p)"

text \<open>
  \<open>create_transaction\<close>: the parameters \<open>now\<close> and \<open>new_id\<close> are the clock and the identifier the
  insertion uses. The result is the new database and the row read back.
\<close>

definition create_transaction ::
  "portfolio_db \<Rightarrow> (string \<Rightarrow> market_code option \<Rightarrow> security_ref list) \<Rightarrow> instant \<Rightarrow> uuid \<Rightarrow>
   uuid \<Rightarrow> string \<Rightarrow> market_code option \<Rightarrow> transaction_side \<Rightarrow> instant \<Rightarrow> int \<Rightarrow> decimal \<Rightarrow> decimal \<Rightarrow>
   lot_type \<Rightarrow> (portfolio_db \<times> portfolio_transaction) result" where
  "create_transaction db find_by_code now new_id portfolio_id security_code market side executed_at
     quantity_shares price fee lot =
     rbind (require_portfolio db portfolio_id) (\<lambda>_.
       case find_by_code security_code market of
         [] \<Rightarrow> Inl (AppError ''SECURITY_NOT_FOUND'' 404)
       | _ # _ # _ \<Rightarrow> Inl (AppError ''AMBIGUOUS_SECURITY'' 409)
       | [m] \<Rightarrow>
           if quantity_shares \<le> 0 \<or> price \<le> 0 \<or> fee < 0
           then Inl (AppError ''PORTFOLIO_INVALID_TRANSACTION'' 422)
           else
             let candidate = \<lparr>t_id = max_uuid, t_portfolio_id = portfolio_id, t_security_id = s_id m,
                   t_security = \<lparr>sk_market = s_market m, sk_code = s_code m\<rparr>, t_security_name = s_name m,
                   t_side = side, t_executed_at = executed_at, t_quantity_shares = quantity_shares,
                   t_price = price, t_fee = fee, t_lot_type = lot,
                   t_created_at = max_instant, t_updated_at = max_instant\<rparr>;
                 row = candidate\<lparr>t_id := new_id, t_created_at := now, t_updated_at := now\<rparr>
             in rbind (replay (list_transactions db portfolio_id @ [candidate])) (\<lambda>_.
                  Inr (add_transaction db row, row)))"

definition delete_transaction :: "portfolio_db \<Rightarrow> uuid \<Rightarrow> uuid \<Rightarrow> portfolio_db result" where
  "delete_transaction db portfolio_id transaction_id =
     rbind (require_portfolio db portfolio_id) (\<lambda>_.
       let transactions = list_transactions db portfolio_id;
           remaining = filter (\<lambda>t. t_id t \<noteq> transaction_id) transactions
       in if length remaining = length transactions
          then Inl (AppError ''PORTFOLIO_TRANSACTION_NOT_FOUND'' 404)
          else rbind (replay remaining) (\<lambda>_.
            Inr (sql_delete_transaction db portfolio_id transaction_id)))"

text \<open>\<open>holdings\<close>; \<open>list_prices\<close> is the price repository: the stored daily prices, oldest first.\<close>

type_synonym price_source = "security_key \<Rightarrow> daily_price_record list"

definition position_holding :: "price_source \<Rightarrow> portfolio_position \<Rightarrow> portfolio_holding result" where
  "position_holding list_prices position =
     (case List.find (\<lambda>r. dp_close r \<noteq> None) (rev (list_prices (p_security position))) of
        None \<Rightarrow> Inr \<lparr>h_position = position, h_latest_price = None, h_price_as_of = None,
          h_price_data_status = UNAVAILABLE, h_market_value = None, h_unrealized_pnl = None,
          h_unrealized_return_percent = None, h_allocation_percent = None\<rparr>
      | Some latest \<Rightarrow>
          let value = dmul prec (the (dp_close latest)) (of_int (p_quantity_shares position));
              unrealized = dsub prec value (p_cost_basis position)
          in rbind (if p_cost_basis position \<noteq> 0
                    then rbind (ddiv prec unrealized (p_cost_basis position)) (\<lambda>r.
                      Inr (Some (dmul prec r 100)))
                    else Inr None) (\<lambda>percent.
             Inr \<lparr>h_position = position, h_latest_price = dp_close latest,
               h_price_as_of = Some (dp_as_of latest),
               h_price_data_status = dp_data_status latest, h_market_value = Some value,
               h_unrealized_pnl = Some unrealized, h_unrealized_return_percent = percent,
               h_allocation_percent = None\<rparr>))"

definition present :: "'a option list \<Rightarrow> 'a list" where
  "present xs = map the (filter is_some xs)"

definition allocate :: "decimal \<Rightarrow> portfolio_holding \<Rightarrow> portfolio_holding result" where
  "allocate total_value item =
     (case h_market_value item of
        Some v \<Rightarrow>
          if total_value \<noteq> 0
          then rbind (ddiv prec v total_value) (\<lambda>r.
            Inr (item\<lparr>h_allocation_percent := Some (dmul prec r 100)\<rparr>))
          else Inr (item\<lparr>h_allocation_percent := None\<rparr>)
      | None \<Rightarrow> Inr (item\<lparr>h_allocation_percent := None\<rparr>))"

definition holdings_of :: "price_source \<Rightarrow> portfolio_position list \<Rightarrow> portfolio_holding list result" where
  "holdings_of list_prices positions =
     rbind (rmap (position_holding list_prices) (filter (\<lambda>p. p_quantity_shares p \<noteq> 0) positions)) (\<lambda>hs.
       let total_value = dsum prec (present (map h_market_value hs))
       in rmap (allocate total_value) hs)"

definition holdings :: "portfolio_db \<Rightarrow> price_source \<Rightarrow> uuid \<Rightarrow> portfolio_holding list result" where
  "holdings db list_prices portfolio_id =
     rbind (require_portfolio db portfolio_id) (\<lambda>_.
     rbind (replay (list_transactions db portfolio_id)) (\<lambda>positions.
       holdings_of list_prices positions))"

record portfolio_summary =
  total_market_value :: "decimal option"
  total_cost_basis :: decimal
  total_unrealized_pnl :: "decimal option"
  total_realized_pnl :: decimal
  total_return_percent :: "decimal option"
  holding_count :: nat
  price_as_of :: "instant option"
  summary_data_status :: data_status
  tax_handling :: string

definition holdings_complete :: "portfolio_holding list \<Rightarrow> bool" where
  "holdings_complete hs \<longleftrightarrow> list_all (\<lambda>h. h_market_value h \<noteq> None) hs"

definition holdings_status :: "portfolio_holding list \<Rightarrow> data_status" where
  "holdings_status hs =
     (let dates = remdups (present (map h_price_as_of hs));
          statuses = remdups (map h_price_data_status hs);
          status = (if \<not> holdings_complete hs \<or> 1 < length dates \<or> 1 < length statuses
                    then PARTIAL else FINAL)
      in if STALE \<in> set statuses then STALE else status)"

definition summary :: "portfolio_db \<Rightarrow> price_source \<Rightarrow> uuid \<Rightarrow> portfolio_summary result" where
  "summary db list_prices portfolio_id =
     rbind (require_portfolio db portfolio_id) (\<lambda>_.
     rbind (replay (list_transactions db portfolio_id)) (\<lambda>positions.
     rbind (holdings db list_prices portfolio_id) (\<lambda>hs.
       let cost = dsum prec (map (p_cost_basis \<circ> h_position) hs);
           realized = dsum prec (map p_realized_pnl positions);
           market_value = (if holdings_complete hs then Some (dsum prec (present (map h_market_value hs))) else None);
           unrealized = map_option (\<lambda>v. dsub prec v cost) market_value;
           dates = remdups (present (map h_price_as_of hs))
       in rbind (case unrealized of
                   Some u \<Rightarrow> if cost \<noteq> 0
                     then rbind (ddiv prec u cost) (\<lambda>r. Inr (Some (dmul prec r 100)))
                     else Inr None
                 | None \<Rightarrow> Inr None) (\<lambda>return_percent.
          Inr \<lparr>total_market_value = market_value, total_cost_basis = cost,
            total_unrealized_pnl = unrealized, total_realized_pnl = realized,
            total_return_percent = return_percent, holding_count = length hs,
            price_as_of = (if dates = [] then None else Some (Min (set dates))),
            summary_data_status = holdings_status hs, tax_handling = ''NOT_INCLUDED''\<rparr>))))"

section \<open>The log stays replayable\<close>

lemma covered_cong:
  assumes "list_all2 (\<lambda>t u. t_security_id t = t_security_id u \<and> signed_shares t = signed_shares u) ts us"
  shows "covered ts \<longleftrightarrow> covered us"
proof -
  have "net_shares s (take k ts) = net_shares s (take k us)" for s k
    using list_all2_takeI [OF assms, of k]
    by (induction rule: list_all2_induct) simp_all
  then show ?thesis by (simp add: covered_def)
qed

text \<open>
  A transaction later in its key than every transaction with an execution time up to its own
  is placed right after these, whatever its creation time and identifier are.
\<close>

lemma sort_replay_order_snoc:
  assumes "\<forall>u \<in> set ts. t_executed_at u \<le> t_executed_at t \<longrightarrow> replay_order u < replay_order t"
    and "inj_on replay_order (set ts)"
  shows "sort_key replay_order (ts @ [t]) =
    filter (\<lambda>u. t_executed_at u \<le> t_executed_at t) (sort_key replay_order ts) @ [t] @
    filter (\<lambda>u. \<not> t_executed_at u \<le> t_executed_at t) (sort_key replay_order ts)"
    (is "_ = ?early @ [t] @ ?late")
proof (rule sort_key_inj_key_eq)
  show "mset (ts @ [t]) = mset (?early @ [t] @ ?late)"
    by (simp add: multiset_partition [symmetric])
  have late: "replay_order t < replay_order u" if "t_executed_at t < t_executed_at u" for u
    using that by (simp add: replay_order_def)
  have differ: "replay_order u \<noteq> replay_order t" if "u \<in> set ts" for u
    using that assms(1) late [of u] by (metis linorder_not_le order_less_irrefl)
  show "inj_on replay_order (set (ts @ [t]))"
    using assms(2) differ by (auto simp: inj_on_insert image_iff) metis
  have "sorted (map replay_order (sort_key replay_order ts))" by simp
  then have "sorted (map replay_order ?early)" and "sorted (map replay_order ?late)"
    by (rule sorted_filter)+
  moreover have "replay_order u \<le> replay_order t" if "u \<in> set ?early" for u
    using that assms(1) by (auto intro: less_imp_le)
  moreover have "replay_order t \<le> replay_order v" if "v \<in> set ?late" for v
    using that late [of v] by (auto intro: less_imp_le)
  moreover have "replay_order u \<le> replay_order v" if "u \<in> set ?early" "v \<in> set ?late" for u v
    using that by (auto simp: replay_order_def)
  ultimately show "sorted (map replay_order (?early @ [t] @ ?late))"
    by (auto simp: sorted_append)
qed

definition replayable :: "portfolio_db \<Rightarrow> bool" where
  "replayable db \<longleftrightarrow> (\<forall>pid. positive_shares (list_transactions db pid) \<and>
     (\<exists>ps. replay (list_transactions db pid) = Inr ps))"

text \<open>The rows of the table as the clock and the identifier generator leave them.\<close>

definition rows_before :: "portfolio_db \<Rightarrow> instant \<Rightarrow> bool" where
  "rows_before db now \<longleftrightarrow> now \<le> max_instant \<and>
     (\<forall>t \<in> set (db_transactions db). t_created_at t < now) \<and>
     distinct (map t_id (db_transactions db))"

lemma rows_before_inj:
  assumes "rows_before db now"
  shows "inj_on replay_order (set (list_transactions db pid))"
proof -
  have "inj_on t_id (set (db_transactions db))" using assms by (simp add: rows_before_def distinct_map)
  then show ?thesis
    by (auto simp: inj_on_def list_transactions_def replay_order_def)
qed

lemma replay_list_transactions_covered:
  assumes "positive_shares (list_transactions db pid)"
  shows "(\<exists>ps. replay (list_transactions db pid) = Inr ps) \<longleftrightarrow> covered (list_transactions db pid)"
  using replay_outcome [OF assms] sql.log_sorted [of db pid] by simp

text \<open>
  C12. Accepting a transaction keeps every portfolio replayable: the check replays the log
  with a stand-in created at the end of time, and the row really inserted, created now, is
  placed at the same position of the order.
\<close>

theorem create_transaction_keeps_replayable:
  assumes "replayable db" and "rows_before db now"
    and "create_transaction db find_by_code now new_id pid code market side executed_at quantity price fee lot =
      Inr (db', row)"
  shows "replayable db' \<and> db_transactions db' = db_transactions db @ [row] \<and> t_portfolio_id row = pid"
proof -
  define cand where "cand = row\<lparr>t_id := max_uuid, t_created_at := max_instant, t_updated_at := max_instant\<rparr>"
  define F where "F = filter (\<lambda>t. t_portfolio_id t = pid) (db_transactions db)"
  have L: "list_transactions db pid = sort_key replay_order F"
    by (simp add: list_transactions_def F_def)
  from assms(3) have row: "0 < t_quantity_shares row" "t_portfolio_id row = pid"
      "t_executed_at row = executed_at" "t_created_at row = now"
    and db': "db' = add_transaction db row"
    and check: "\<exists>ps. replay (sort_key replay_order F @ [cand]) = Inr ps"
    unfolding L [symmetric] cand_def
    by (auto simp: create_transaction_def rbind_eq_Inr Let_def split: list.splits if_splits)
  have new: "list_transactions db' pid = sort_key replay_order (F @ [row])"
    by (simp add: db' add_transaction_def list_transactions_def F_def row)
  have other: "list_transactions db' pid' = list_transactions db pid'" if "pid' \<noteq> pid" for pid'
    using that by (simp add: db' add_transaction_def list_transactions_def row)
  have pos: "positive_shares F" using assms(1) by (metis L positive_shares_sort replayable_def)
  have early: "\<forall>u \<in> set F. t_created_at u < now" and inj: "inj_on replay_order (set F)"
    using assms(2) rows_before_inj [OF assms(2), of pid] L by (auto simp: F_def rows_before_def)
  let ?a = "filter (\<lambda>u. t_executed_at u \<le> executed_at) (sort_key replay_order F)"
  let ?z = "filter (\<lambda>u. \<not> t_executed_at u \<le> executed_at) (sort_key replay_order F)"
  have "sort_key replay_order (F @ [row]) = ?a @ [row] @ ?z"
    using sort_replay_order_snoc [of F row] early inj row by (auto simp: replay_order_def le_less)
  moreover have "sort_key replay_order (sort_key replay_order F @ [cand]) = ?a @ [cand] @ ?z"
    using sort_replay_order_snoc [of "sort_key replay_order F" cand] early inj row assms(2)
    by (force simp: replay_order_def le_less cand_def rows_before_def sort_key_id_if_sorted)
  moreover have "covered (?a @ [cand] @ ?z) \<longleftrightarrow> covered (?a @ [row] @ ?z)"
    by (auto simp: cand_def intro!: covered_cong list_all2_appendI list_all2_refl
        split: transaction_side.split)
  moreover have "covered (sort_key replay_order (sort_key replay_order F @ [cand]))"
    using check replay_outcome [of "sort_key replay_order F @ [cand]"] pos row(1)
    by (auto simp: positive_shares_def cand_def)
  ultimately have cov: "covered (list_transactions db' pid)" by (simp add: new)
  have "positive_shares (list_transactions db' pid)"
    unfolding new using pos row(1) by (simp add: positive_shares_def)
  with cov have "positive_shares (list_transactions db' pid) \<and>
      (\<exists>ps. replay (list_transactions db' pid) = Inr ps)"
    using replay_list_transactions_covered by blast
  then have "replayable db'" using assms(1) other unfolding replayable_def by metis
  then show ?thesis by (simp add: db' add_transaction_def row)
qed

text \<open>
  Deleting a transaction keeps every portfolio replayable, and removes exactly the
  transaction it names from the log of its portfolio; a deletion that would leave a later
  sale uncovered is refused with \<open>PORTFOLIO_INSUFFICIENT_POSITION\<close>.
\<close>

theorem delete_transaction_keeps_replayable:
  assumes "replayable db"
  shows "(\<forall>db'. delete_transaction db pid tid = Inr db' \<longrightarrow> replayable db' \<and>
      (\<forall>pid'. list_transactions db' pid' =
        (if pid' = pid then filter (\<lambda>t. t_id t \<noteq> tid) (list_transactions db pid')
         else list_transactions db pid'))) \<and>
    (\<forall>p. get_portfolio db pid = Some p \<longrightarrow> tid \<in> t_id ` set (list_transactions db pid) \<longrightarrow>
      (if covered (filter (\<lambda>t. t_id t \<noteq> tid) (list_transactions db pid))
       then \<exists>db'. delete_transaction db pid tid = Inr db'
       else delete_transaction db pid tid = Inl insufficient_position))"
proof -
  define rest where "rest = filter (\<lambda>t. t_id t \<noteq> tid) (list_transactions db pid)"
  have pos: "positive_shares rest" using assms by (auto simp: replayable_def rest_def positive_shares_def)
  have sorted: "sort_key replay_order rest = rest"
    unfolding rest_def by (metis filter_sort sql.log_sorted)
  have step: "replayable db'" if del: "delete_transaction db pid tid = Inr db'" for db'
  proof -
    from del have db': "db' = sql_delete_transaction db pid tid" and "\<exists>ps. replay rest = Inr ps"
      by (auto simp: delete_transaction_def rbind_eq_Inr Let_def rest_def split: if_splits)
    with assms pos show ?thesis by (auto simp: replayable_def sql.log_remove rest_def [symmetric])
  qed
  have found: "length rest \<noteq> length (list_transactions db pid)"
    if "tid \<in> t_id ` set (list_transactions db pid)"
    using that length_filter_less [of _ "list_transactions db pid" "\<lambda>t. t_id t \<noteq> tid"]
    by (force simp: rest_def)
  have result: "if covered rest then \<exists>ps. replay rest = Inr ps else replay rest = Inl insufficient_position"
    using replay_states_log [OF pos] by (auto simp: sorted replay_def)
  show ?thesis
    using step found result
    by (auto simp: delete_transaction_def require_portfolio_def rbind_eq_Inr Let_def
        rest_def [symmetric] sql.log_remove split: if_splits)
qed

section \<open>Holdings and summary\<close>

lemma position_holding_value:
  assumes "position_holding list_prices p = Inr h" and "h_market_value h = Some v"
    and "0 \<le> p_quantity_shares p"
    and "\<forall>k. \<forall>r \<in> set (list_prices k). \<forall>c. dp_close r = Some c \<longrightarrow> 0 \<le> c"
  shows "0 \<le> v \<and> dctx v = v"
proof -
  obtain r where find: "List.find (\<lambda>r. dp_close r \<noteq> None) (rev (list_prices (p_security p))) = Some r"
    and v: "v = dctx (the (dp_close r) * of_int (p_quantity_shares p))"
    using assms(1,2)
    by (cases "List.find (\<lambda>r. dp_close r \<noteq> None) (rev (list_prices (p_security p)))")
      (auto simp: position_holding_def Let_def rbind_eq_Inr dops)
  then obtain c where r: "r \<in> set (list_prices (p_security p))" and c: "dp_close r = Some c"
    by (auto simp: find_Some_iff) (metis nth_mem length_rev set_rev)
  with assms(4) have "0 \<le> c" by blast
  with assms(3) v c show ?thesis
    by (auto simp: prec_def d28.rnd_idem intro!: d28.rnd_nonneg)
qed

lemma percent_bounds:
  assumes "0 \<le> v" and "v \<le> tot" and "tot \<noteq> 0"
  shows "0 \<le> dmul prec (dctx (v / tot)) 100 \<and> dmul prec (dctx (v / tot)) 100 \<le> 100"
proof -
  have pos: "0 < tot" using assms by simp
  then have "0 \<le> dctx (v / tot)" and "dctx (v / tot) \<le> 1"
    using d28.rnd_nonneg [of "v / tot"] d28.rnd_mono [of "v / tot" 1] d28.rnd_1 assms
    by (simp_all add: prec_def)
  then show ?thesis
    by (auto simp: dmul_def prec_def intro!: d28.rnd_nonneg d28.rnd_le_100)
qed

text \<open>
  In the list of holdings every allocation lies between 0 and 100 percent, and it is
  present exactly for the holdings that have a market value, unless the whole portfolio is
  worth nothing.
\<close>

theorem holdings_allocation_bounds:
  assumes "holdings db list_prices pid = Inr hs"
    and "positive_shares (list_transactions db pid)"
    and "\<forall>k. \<forall>r \<in> set (list_prices k). \<forall>c. dp_close r = Some c \<longrightarrow> 0 \<le> c"
    and "h \<in> set hs"
  shows "(case h_allocation_percent h of None \<Rightarrow> True | Some a \<Rightarrow> 0 \<le> a \<and> a \<le> 100) \<and>
    (h_allocation_percent h \<noteq> None \<longleftrightarrow>
       h_market_value h \<noteq> None \<and> dsum prec (present (map h_market_value hs)) \<noteq> 0)"
proof -
  from assms(1) obtain ps hs0 where ps: "replay (list_transactions db pid) = Inr ps"
    and hs0: "rmap (position_holding list_prices) (filter (\<lambda>p. p_quantity_shares p \<noteq> 0) ps) = Inr hs0"
    and hs: "rmap (allocate (dsum prec (present (map h_market_value hs0)))) hs0 = Inr hs"
    by (auto simp: holdings_def holdings_of_def rbind_eq_Inr Let_def)
  define tot where "tot = dsum prec (present (map h_market_value hs0))"
  have alloc: "list_all2 (\<lambda>g h. allocate tot g = Inr h) hs0 hs"
    using hs by (simp add: rmap_Inr_iff tot_def)
  then have "list_all2 (\<lambda>g h. h_market_value h = h_market_value g) hs0 hs"
    by (rule list_all2_mono)
      (auto simp: allocate_def rbind_eq_Inr split: option.splits if_splits)
  then have "map h_market_value hs = map h_market_value hs0"
    by (induction rule: list_all2_induct) simp_all
  then have tot: "dsum prec (present (map h_market_value hs)) = tot" by (simp add: tot_def)
  have value_ok: "0 \<le> v \<and> dctx v = v" if g: "g \<in> set hs0" "h_market_value g = Some v" for g v
  proof -
    from rmap_mem [OF hs0 g(1)] obtain p where p: "p \<in> set ps" and "position_holding list_prices p = Inr g"
      by auto
    moreover have "position_ok p" using replay_result [OF assms(2) ps] p by blast
    then have "0 \<le> p_quantity_shares p" by (simp add: position_ok_def)
    ultimately show ?thesis using g(2) assms(3) position_holding_value by blast
  qed
  have le_total: "v \<le> tot" if "g \<in> set hs0" "h_market_value g = Some v" for g v
    unfolding tot_def
    by (rule dsum_ge_member)
      (use that value_ok in \<open>force simp: present_def prec_def is_some_iff\<close>)+
  from rmap_mem [OF hs assms(4)] obtain g where g: "g \<in> set hs0" "allocate tot g = Inr h"
    by (auto simp: tot_def)
  show ?thesis
    using g le_total [OF g(1)] value_ok [OF g(1)] percent_bounds [of _ tot]
    unfolding tot
    by (auto simp: allocate_def rbind_eq_Inr ddiv_def split: option.splits if_splits)
qed

lemma remdups_at_most_one: "\<not> 1 < length (remdups xs) \<longleftrightarrow> (\<forall>x \<in> set xs. \<forall>y \<in> set xs. x = y)"
proof -
  have "length (remdups xs) = card (set xs)" by (simp add: length_remdups_card_conv)
  then show ?thesis
    using card_le_Suc0_iff_eq [of "set xs"] by (simp add: not_less)
qed

lemma holdings_status_final:
  "holdings_status hs = FINAL \<longleftrightarrow>
     (\<forall>h \<in> set hs. h_market_value h \<noteq> None \<and> h_price_data_status h \<noteq> STALE) \<and>
     (\<forall>h \<in> set hs. \<forall>g \<in> set hs. h_price_data_status h = h_price_data_status g) \<and>
     (\<forall>x \<in> set (present (map h_price_as_of hs)). \<forall>y \<in> set (present (map h_price_as_of hs)). x = y)"
proof -
  have stale: "STALE \<in> set (remdups (map h_price_data_status hs)) \<longleftrightarrow>
      \<not> (\<forall>h \<in> set hs. h_price_data_status h \<noteq> STALE)" by (force simp: image_iff)
  have complete: "holdings_complete hs \<longleftrightarrow> (\<forall>h \<in> set hs. h_market_value h \<noteq> None)"
    by (simp add: holdings_complete_def list_all_iff)
  have one_status: "\<not> 1 < length (remdups (map h_price_data_status hs)) \<longleftrightarrow>
      (\<forall>h \<in> set hs. \<forall>g \<in> set hs. h_price_data_status h = h_price_data_status g)"
    unfolding remdups_at_most_one by simp
  have final: "holdings_status hs = FINAL \<longleftrightarrow> STALE \<notin> set (remdups (map h_price_data_status hs)) \<and>
      holdings_complete hs \<and> \<not> 1 < length (remdups (present (map h_price_as_of hs))) \<and>
      \<not> 1 < length (remdups (map h_price_data_status hs))"
    by (simp add: holdings_status_def Let_def)
  show ?thesis
    unfolding final stale complete one_status unfolding remdups_at_most_one
    by (simp only: not_not ball_conj_distrib conj_assoc conj_commute conj_left_commute)
qed

text \<open>
  The summary values the portfolio only when every holding has a price, and calls it
  \<open>FINAL\<close> exactly when every holding is valued and no two holdings differ in the date or
  the status of their price, and no price is stale.
\<close>

theorem summary_status:
  assumes "summary db list_prices pid = Inr s" and "holdings db list_prices pid = Inr hs"
  shows "holding_count s = length hs \<and>
    (total_market_value s = None \<longleftrightarrow> (\<exists>h \<in> set hs. h_market_value h = None)) \<and>
    (summary_data_status s = FINAL \<longleftrightarrow>
       (\<forall>h \<in> set hs. h_market_value h \<noteq> None \<and> h_price_data_status h \<noteq> STALE) \<and>
       (\<forall>h \<in> set hs. \<forall>g \<in> set hs. h_price_data_status h = h_price_data_status g) \<and>
       (\<forall>x \<in> set (present (map h_price_as_of hs)). \<forall>y \<in> set (present (map h_price_as_of hs)). x = y)) \<and>
    summary_data_status s \<in> {FINAL, PARTIAL, STALE}"
proof -
  have "holding_count s = length hs \<and> summary_data_status s = holdings_status hs \<and>
      (total_market_value s = None \<longleftrightarrow> \<not> holdings_complete hs)"
    using assms by (auto simp: summary_def rbind_eq_Inr Let_def)
  moreover have "holdings_status hs \<in> {FINAL, PARTIAL, STALE}"
    by (simp add: holdings_status_def Let_def)
  moreover have "holdings_complete hs \<longleftrightarrow> \<not> (\<exists>h \<in> set hs. h_market_value h = None)"
    by (auto simp: holdings_complete_def list_all_iff)
  ultimately show ?thesis
    unfolding holdings_status_final [symmetric] by (elim conjE) (simp only: not_not simp_thms)
qed

section \<open>A concrete portfolio\<close>

definition ex_tx :: "uuid \<Rightarrow> transaction_side \<Rightarrow> instant \<Rightarrow> int \<Rightarrow> decimal \<Rightarrow> portfolio_transaction" where
  "ex_tx i side wh q price =
     \<lparr>t_id = i, t_portfolio_id = 3, t_security_id = 7,
      t_security = \<lparr>sk_market = TWSE, sk_code = ''2330''\<rparr>, t_security_name = ''TSMC'',
      t_side = side, t_executed_at = wh, t_quantity_shares = q, t_price = price, t_fee = 20,
      t_lot_type = ODD_LOT, t_created_at = wh, t_updated_at = wh\<rparr>"

definition ex_log :: "portfolio_transaction list" where
  "ex_log = [ex_tx 2 SELL 20 5 650, ex_tx 4 BUY 10 10 600]"

definition ex_db :: portfolio_db where
  "ex_db = \<lparr>db_portfolios = [\<lparr>pf_id = 3, pf_name = ''Core'', pf_base_currency = ''TWD'',
      pf_is_default = True, pf_created_at = 0, pf_updated_at = 0\<rparr>],
    db_transactions = ex_log\<rparr>"

definition ex_position :: portfolio_position where
  "ex_position = \<lparr>p_security_id = 7, p_security = \<lparr>sk_market = TWSE, sk_code = ''2330''\<rparr>,
     p_security_name = ''TSMC'', p_quantity_shares = 5, p_average_cost = Some 602,
     p_cost_basis = 3010, p_realized_pnl = 220\<rparr>"

definition ex_securities :: "string \<Rightarrow> market_code option \<Rightarrow> security_ref list" where
  "ex_securities code market = [\<lparr>s_id = 7, s_market = TWSE, s_code = code, s_name = ''TSMC''\<rparr>]"

definition ex_prices :: price_source where
  "ex_prices k = [\<lparr>dp_security = k, dp_trade_date = 738000, dp_open = Some 600, dp_high = Some 610,
     dp_low = Some 595, dp_close = Some 602, dp_adjusted_open = None, dp_adjusted_high = None,
     dp_adjusted_low = None, dp_adjusted_close = None, dp_volume_shares = Some 1000,
     dp_turnover_amount = None, dp_source_code = ''TWSE'', dp_as_of = 30, dp_received_at = 31,
     dp_data_status = FINAL, dp_source_revision = None, dp_missing_reason = None\<rparr>]"

lemmas replay_eval = replay_def replay_states_def ex_tx_def replay_order_def replay_step_def
  current_position_def empty_position_def buy_position_def sell_position_def Let_def dops ddiv_def
  prec_def position_order_def

lemma ex_log_replay: "replay ex_log = Inr [ex_position]"
  by (simp add: replay_eval ex_log_def ex_position_def cong: eval_congs)

lemma ex_log_positive: "positive_shares ex_log"
  by (simp add: positive_shares_def ex_log_def ex_tx_def)

lemma ex_db_log: "list_transactions ex_db pid = (if pid = 3 then sort_key replay_order ex_log else [])"
  by (auto simp: list_transactions_def ex_db_def ex_log_def ex_tx_def)

lemma ex_db_replay: "replay (list_transactions ex_db pid) = Inr (if pid = 3 then [ex_position] else [])"
  using ex_log_replay by (simp add: ex_db_log replay_def replay_states_def sort_key_id_if_sorted)

lemma ex_db_positive: "positive_shares (list_transactions ex_db pid)"
  using ex_log_positive by (simp add: ex_db_log) (simp add: positive_shares_def)

lemma ex_db_replayable: "replayable ex_db"
  by (simp add: replayable_def ex_db_replay ex_db_positive)

lemma ex_db_rows: "rows_before ex_db 100"
  by (simp add: rows_before_def max_instant_def ex_db_def ex_log_def ex_tx_def)

lemma ex_require: "\<exists>p. require_portfolio ex_db 3 = Inr p"
  by (simp add: require_portfolio_def get_portfolio_def ex_db_def)

lemma ex_holdings: "holdings ex_db ex_prices 3 = Inr [\<lparr>h_position = ex_position,
    h_latest_price = Some 602, h_price_as_of = Some 30, h_price_data_status = FINAL,
    h_market_value = Some 3010, h_unrealized_pnl = Some 0, h_unrealized_return_percent = Some 0,
    h_allocation_percent = Some 100\<rparr>]"
  using ex_require by (auto simp: holdings_def ex_db_replay
      holdings_of_def position_holding_def ex_prices_def ex_position_def present_def allocate_def
      Let_def dops ddiv_def prec_def dsum_def cong: eval_congs)

theorem replay_succeeds_iff_covered_witness: "covered (sort_key replay_order ex_log)"
  using replay_succeeds_iff_covered [OF ex_log_positive] ex_log_replay by blast

theorem replay_positions_witness: "net_shares 7 ex_log = 5 \<and> position_ok ex_position"
  using replay_positions [OF ex_log_positive ex_log_replay] by (simp add: ex_position_def)

theorem replay_cost_basis_nonneg_witness: "0 \<le> p_cost_basis ex_position"
proof -
  have "nonneg_amounts ex_log" and "shares_moved ex_log \<le> 10 ^ 26"
    by (simp_all add: nonneg_amounts_def shares_moved_def ex_log_def ex_tx_def)
  then show ?thesis
    using replay_cost_basis_nonneg [OF ex_log_positive _ _ ex_log_replay] by simp
qed

theorem create_transaction_keeps_replayable_witness:
  "replayable (add_transaction ex_db ((ex_tx 9 BUY 15 1 600)\<lparr>t_created_at := 100, t_updated_at := 100\<rparr>))"
proof -
  have "create_transaction ex_db ex_securities 100 9 3 ''2330'' None BUY 15 1 600 20 ODD_LOT =
    Inr (add_transaction ex_db ((ex_tx 9 BUY 15 1 600)\<lparr>t_created_at := 100, t_updated_at := 100\<rparr>),
      (ex_tx 9 BUY 15 1 600)\<lparr>t_created_at := 100, t_updated_at := 100\<rparr>)"
    by (simp add: create_transaction_def require_portfolio_def get_portfolio_def ex_securities_def
        ex_db_log, simp add: ex_db_def ex_log_def replay_eval cong: eval_congs)
  from create_transaction_keeps_replayable [OF ex_db_replayable ex_db_rows this]
  show ?thesis by simp
qed

theorem delete_transaction_keeps_replayable_witness:
  "delete_transaction ex_db 3 4 = Inl insufficient_position"
proof -
  have "\<not> covered (filter (\<lambda>t. t_id t \<noteq> 4) (list_transactions ex_db 3))"
    by (auto simp: covered_def ex_db_log ex_log_def ex_tx_def replay_order_def intro!: exI [of _ 1] exI [of _ 7])
  moreover have "4 \<in> t_id ` set (list_transactions ex_db 3)"
    by (simp add: ex_db_log ex_log_def ex_tx_def)
  ultimately show ?thesis
    using delete_transaction_keeps_replayable [OF ex_db_replayable, of 3 4]
    by (simp add: get_portfolio_def ex_db_def)
qed

theorem holdings_allocation_bounds_witness: "dsum prec (present [Some (3010 :: decimal)]) \<noteq> 0"
proof -
  have "\<forall>k. \<forall>r \<in> set (ex_prices k). \<forall>c. dp_close r = Some c \<longrightarrow> 0 \<le> c"
    by (simp add: ex_prices_def)
  from holdings_allocation_bounds [OF ex_holdings ex_db_positive this] show ?thesis by simp
qed

theorem summary_status_witness:
  "\<exists>s. summary ex_db ex_prices 3 = Inr s \<and> summary_data_status s = FINAL \<and> holding_count s = 1"
proof -
  obtain s where s: "summary ex_db ex_prices 3 = Inr s"
    using ex_require by (auto simp: summary_def ex_db_replay ex_holdings Let_def ex_position_def
        holdings_complete_def present_def ddiv_def dops dsum_def prec_def)
  from summary_status [OF s ex_holdings] s show ?thesis by (auto simp: present_def)
qed

end
