(* ===== verification/ImportPreview.thy ===== *)
theory ImportPreview
  imports UserData CsvText Portfolio
begin

text \<open>
  The preview of a portfolio import (\<open>ImportService.preview_portfolio_csv\<close> of
  \<open>app/services/import_export.py\<close>): the header, the rows one by one with the first problem of each,
  the duplicates within the file, and the replay of the portfolio with the new transactions. Messages
  are left out. The random identifier of the row \<open>n\<close> and of the preview (\<open>uuid4\<close>) are \<open>fresh n\<close> and
  \<open>fresh 0\<close>; \<open>clock k\<close> is the time at which the candidate \<open>k\<close> is put into the simulated log.
\<close>

section \<open>Texts\<close>

definition formula_start :: "char \<Rightarrow> bool" where
  "formula_start c \<longleftrightarrow> c \<in> {CHR ''='', CHR ''+'', CHR ''-'', CHR ''@'', CHR 0x09, CHR 0x0D}"

definition escape_formula :: "string option \<Rightarrow> string" where
  "escape_formula value =
     (case value of None \<Rightarrow> [] | Some [] \<Rightarrow> []
      | Some (c # s) \<Rightarrow> if formula_start c then CHR 0x27 # c # s else c # s)"

definition unescape_formula :: "string option \<Rightarrow> string" where
  "unescape_formula value =
     (case value of None \<Rightarrow> [] | Some s \<Rightarrow>
        (case s of a # b # r \<Rightarrow> if a = CHR 0x27 \<and> formula_start b then b # r else s | _ \<Rightarrow> s))"

text \<open>The model \<open>SecurityModel\<close> has no attribute \<open>market\<close>, so the market is looked up by its identifier.\<close>

definition resolve_market_code :: "(uuid \<times> string) list \<Rightarrow> listed_security option \<Rightarrow> string" where
  "resolve_market_code market_map sec =
     (case sec of None \<Rightarrow> ''TWSE''
      | Some s \<Rightarrow> (case map_of market_map (ls_market_id s) of None \<Rightarrow> ''TWSE'' | Some code \<Rightarrow> code))"

definition byte_order_mark :: string where
  "byte_order_mark = [CHR 0xEF, CHR 0xBB, CHR 0xBF]"

text \<open>\<open>text.lstrip(UTF8_BOM)\<close>\<close>

fun drop_marks :: "string \<Rightarrow> string" where
  "drop_marks (a # b # c # s) = (if [a, b, c] = byte_order_mark then drop_marks s else a # b # c # s)"
| "drop_marks s = s"

definition max_upload_size :: nat where "max_upload_size = 5 * 1024 * 1024"

definition max_import_rows :: nat where "max_import_rows = 10000"

section \<open>Rows\<close>

text \<open>
  What the body of the loop makes of a row: it raises, or it finds a problem, given by its error code,
  or it goes on with a value.
\<close>

type_synonym 'a checked = "(string + 'a) result"

definition rcheck :: "'a checked \<Rightarrow> ('a \<Rightarrow> 'b checked) \<Rightarrow> 'b checked" where
  "rcheck m f = rbind m (\<lambda>x. case x of Inl code \<Rightarrow> Inr (Inl code) | Inr v \<Rightarrow> f v)"

definition problem :: "string \<Rightarrow> 'a checked" where
  "problem code = Inr (Inl code)"

definition good :: "'a \<Rightarrow> 'a checked" where
  "good v = Inr (Inr v)"

lemma rcheck_good [result_simps]: "rcheck m f = Inr (Inr v) \<longleftrightarrow> (\<exists>x. m = Inr (Inr x) \<and> f x = Inr (Inr v))"
proof (cases m)
  case (Inr x)
  then show ?thesis by (cases x) (simp_all add: rcheck_def)
qed (simp add: rcheck_def)

text \<open>\<open>row[col_map[name]]\<close>; of two columns with the same name the last one counts.\<close>

definition cell :: "string list \<Rightarrow> string list \<Rightarrow> string \<Rightarrow> string result" where
  "cell header row name =
     (case map_of (rev (zip header [0..<length header])) name of
        None \<Rightarrow> Inl KeyError
      | Some i \<Rightarrow> if i < length row then Inr (row ! i) else Inl IndexError)"

text \<open>\<open>col in col_map and row[col_map[name]].strip()\<close>, empty where it is false\<close>

definition optional_cell :: "string list \<Rightarrow> string list \<Rightarrow> string \<Rightarrow> string result" where
  "optional_cell header row name =
     (if name \<in> set header then rbind (cell header row name) (\<lambda>s. Inr (strip s)) else Inr [])"

definition read_id :: "string list \<Rightarrow> string list \<Rightarrow> uuid \<Rightarrow> uuid checked" where
  "read_id header row fresh_id =
     rbind (optional_cell header row ''transaction_id'') (\<lambda>s.
       if s = [] then good fresh_id
       else case uuid_of_text s of None \<Rightarrow> Inl ValueError | Some u \<Rightarrow> good u)"

definition read_side :: "string list \<Rightarrow> string list \<Rightarrow> transaction_side checked" where
  "read_side header row =
     rbind (cell header row ''side'') (\<lambda>s.
       let side = upper (strip s) in
       if side = ''BUY'' then good BUY else if side = ''SELL'' then good SELL else problem ''INVALID_SIDE'')"

definition read_time :: "string list \<Rightarrow> string list \<Rightarrow> instant checked" where
  "read_time header row =
     rbind (cell header row ''trade_date'') (\<lambda>d.
     rbind (optional_cell header row ''trade_time'') (\<lambda>t.
       case strptime (strip d @ '' '' @ (if t = [] then ''09:00:00'' else t)) of
         None \<Rightarrow> problem ''INVALID_DATETIME''
       | Some local \<Rightarrow> rbind (taipei_to_utc local) good))"

text \<open>Whatever goes wrong with the shares is the same problem, a missing cell included.\<close>

definition read_shares :: "string list \<Rightarrow> string list \<Rightarrow> int checked" where
  "read_shares header row =
     (case rbind (cell header row ''shares'') (\<lambda>s.
             case decimal_of_text (strip s) of None \<Rightarrow> Inl DecimalError | Some d \<Rightarrow> int_of_dec d) of
        Inl e \<Rightarrow> problem ''INVALID_SHARES''
      | Inr n \<Rightarrow> if n \<le> 0 then problem ''INVALID_SHARES'' else good n)"

definition read_amount :: "(py_dec \<Rightarrow> bool result) \<Rightarrow> string \<Rightarrow> string \<Rightarrow> py_dec checked" where
  "read_amount refuse code s =
     (case decimal_of_text (strip s) of None \<Rightarrow> problem code
      | Some d \<Rightarrow> (case refuse d of Inr False \<Rightarrow> good d | _ \<Rightarrow> problem code))"

definition read_price :: "string list \<Rightarrow> string list \<Rightarrow> py_dec checked" where
  "read_price header row =
     rbind (cell header row ''price'') (read_amount dec_not_positive ''INVALID_PRICE'')"

definition read_fee :: "string list \<Rightarrow> string list \<Rightarrow> py_dec checked" where
  "read_fee header row =
     rbind (optional_cell header row ''fee'') (\<lambda>s.
       if s = [] then good (DNumber False 0 0) else read_amount dec_negative ''INVALID_FEE'' s)"

definition read_lot :: "string list \<Rightarrow> string list \<Rightarrow> lot_type checked" where
  "read_lot header row =
     rbind (optional_cell header row ''lot_type'') (\<lambda>s.
       let lot = (if s = [] then ''BOARD_LOT'' else upper s) in
       if lot = ''BOARD_LOT'' then good BOARD_LOT else if lot = ''ODD_LOT'' then good ODD_LOT
       else problem ''INVALID_LOT_TYPE'')"

text \<open>\<open>sec_by_pair.get((market, code))\<close>: of several securities with the same key the last one.\<close>

definition security_by_pair :: "user_db \<Rightarrow> string \<Rightarrow> string \<Rightarrow> listed_security option" where
  "security_by_pair db market code =
     find (\<lambda>s. resolve_market_code (ud_markets db) (Some s) = market \<and> ls_code s = code) (rev (ud_securities db))"

definition read_security :: "user_db \<Rightarrow> string \<Rightarrow> string \<Rightarrow> listed_security checked" where
  "read_security db market code =
     (if market \<noteq> [] then
        (case security_by_pair db market code of None \<Rightarrow> problem ''SECURITY_NOT_FOUND'' | Some s \<Rightarrow> good s)
      else (case filter (\<lambda>s. ls_code s = code) (ud_securities db) of
              [] \<Rightarrow> problem ''SECURITY_NOT_FOUND''
            | [s] \<Rightarrow> good s
            | _ \<Rightarrow> problem ''AMBIGUOUS_SECURITY''))"

record candidate =
  cd_row_number :: nat
  cd_transaction_id :: uuid
  cd_security_id :: uuid
  cd_market :: string
  cd_code :: string
  cd_name :: string
  cd_side :: transaction_side
  cd_executed_at :: instant
  cd_quantity_shares :: int
  cd_price :: py_dec
  cd_fee :: py_dec
  cd_lot_type :: lot_type

definition read_row :: "user_db \<Rightarrow> (nat \<Rightarrow> uuid) \<Rightarrow> string list \<Rightarrow> nat \<Rightarrow> string list \<Rightarrow> candidate checked" where
  "read_row db fresh header n row =
     rcheck (read_id header row (fresh n)) (\<lambda>tx_id.
     rbind (cell header row ''market'') (\<lambda>market.
     rbind (cell header row ''code'') (\<lambda>code.
     rcheck (read_side header row) (\<lambda>side.
     rcheck (read_time header row) (\<lambda>executed_at.
     rcheck (read_shares header row) (\<lambda>shares.
     rcheck (read_price header row) (\<lambda>price.
     rcheck (read_fee header row) (\<lambda>fee.
     rcheck (read_lot header row) (\<lambda>lot_type.
     rcheck (read_security db (upper (strip market)) (upper (strip code))) (\<lambda>sec.
       good \<lparr>cd_row_number = n, cd_transaction_id = tx_id, cd_security_id = ls_id sec,
         cd_market = resolve_market_code (ud_markets db) (Some sec), cd_code = ls_code sec, cd_name = ls_name sec,
         cd_side = side, cd_executed_at = executed_at, cd_quantity_shares = shares,
         cd_price = price, cd_fee = fee, cd_lot_type = lot_type\<rparr>))))))))))"

text \<open>\<open>not row or all(not cell.strip() for cell in row)\<close>\<close>

definition blank_row :: "string list \<Rightarrow> bool" where
  "blank_row row \<longleftrightarrow> list_all (\<lambda>c. strip c = []) row"

type_synonym row_errors = "(nat \<times> string) list"

record scan =
  sc_candidates :: "candidate list"
  sc_errors :: row_errors
  sc_warnings :: row_errors
  sc_duplicates :: nat
  sc_seen :: "(uuid \<times> transaction_side \<times> instant \<times> int \<times> py_dec) list"

definition fingerprint :: "candidate \<Rightarrow> uuid \<times> transaction_side \<times> instant \<times> int \<times> py_dec" where
  "fingerprint c = (cd_security_id c, cd_side c, cd_executed_at c, cd_quantity_shares c, cd_price c)"

definition scan_row :: "user_db \<Rightarrow> (nat \<Rightarrow> uuid) \<Rightarrow> string list \<Rightarrow> scan \<Rightarrow> nat \<times> string list \<Rightarrow> scan" where
  "scan_row db fresh header sc = (\<lambda>(n, row).
     if blank_row row then sc
     else case read_row db fresh header n row of
       Inl e \<Rightarrow> sc\<lparr>sc_errors := sc_errors sc @ [(n, ''PARSE_ERROR'')]\<rparr>
     | Inr (Inl code) \<Rightarrow> sc\<lparr>sc_errors := sc_errors sc @ [(n, code)]\<rparr>
     | Inr (Inr c) \<Rightarrow>
         (let duplicate = fingerprint c \<in> set (sc_seen sc) in
          sc\<lparr>sc_candidates := sc_candidates sc @ [c],
             sc_warnings := (if duplicate then sc_warnings sc @ [(n, ''POSSIBLE_DUPLICATE'')] else sc_warnings sc),
             sc_duplicates := (if duplicate then sc_duplicates sc + 1 else sc_duplicates sc),
             sc_seen := fingerprint c # sc_seen sc\<rparr>))"

definition empty_scan :: scan where
  "empty_scan = \<lparr>sc_candidates = [], sc_errors = [], sc_warnings = [], sc_duplicates = 0, sc_seen = []\<rparr>"

definition scan_rows :: "user_db \<Rightarrow> (nat \<Rightarrow> uuid) \<Rightarrow> string list \<Rightarrow> string list list \<Rightarrow> scan" where
  "scan_rows db fresh header rows =
     foldl (scan_row db fresh header) empty_scan (zip [2..<2 + length rows] rows)"

section \<open>The replay of the candidates\<close>

text \<open>
  Prices and fees may be infinite in a file; the replay then computes with infinities, and raises
  where it subtracts an infinity from an infinity.
\<close>

datatype amount = Fin decimal | Inf bool

definition amount_of :: "py_dec \<Rightarrow> amount" where
  "amount_of d = (case d of DInfinity negative \<Rightarrow> Inf negative | _ \<Rightarrow> Fin (dec_value d))"

fun amount_add :: "amount \<Rightarrow> amount \<Rightarrow> amount result" where
  "amount_add (Fin a) (Fin b) = Inr (Fin (dadd prec a b))"
| "amount_add (Fin a) (Inf s) = Inr (Inf s)"
| "amount_add (Inf s) (Fin b) = Inr (Inf s)"
| "amount_add (Inf s) (Inf t) = (if s = t then Inr (Inf s) else Inl DecimalError)"

fun amount_neg :: "amount \<Rightarrow> amount" where
  "amount_neg (Fin a) = Fin (- a)"
| "amount_neg (Inf s) = Inf (\<not> s)"

fun amount_times :: "amount \<Rightarrow> int \<Rightarrow> amount result" where
  "amount_times (Fin a) n = Inr (Fin (dmul prec a (of_int n)))"
| "amount_times (Inf s) n = (if n = 0 then Inl DecimalError else Inr (Inf (s \<noteq> (n < 0))))"

fun amount_div :: "amount \<Rightarrow> int \<Rightarrow> amount result" where
  "amount_div (Fin a) n = rbind (ddiv prec a (of_int n)) (\<lambda>q. Inr (Fin q))"
| "amount_div (Inf s) n = (if n = 0 then Inr (Inf s) else Inr (Inf (s \<noteq> (n < 0))))"

record amount_position =
  ap_shares :: int
  ap_basis :: amount
  ap_realized :: amount

record simulated =
  sm_key :: "instant \<times> instant \<times> uuid"
  sm_security_id :: uuid
  sm_side :: transaction_side
  sm_shares :: int
  sm_price :: amount
  sm_fee :: amount

definition amount_step :: "(uuid \<times> amount_position) list \<Rightarrow> simulated \<Rightarrow> (uuid \<times> amount_position) list result" where
  "amount_step states t =
     (let p = (case map_of states (sm_security_id t) of Some p \<Rightarrow> p
               | None \<Rightarrow> \<lparr>ap_shares = 0, ap_basis = Fin 0, ap_realized = Fin 0\<rparr>);
          n = sm_shares t
      in rbind
        (case sm_side t of
           BUY \<Rightarrow>
             rbind (amount_times (sm_price t) n) (\<lambda>paid.
             rbind (amount_add (ap_basis p) paid) (\<lambda>basis.
             rbind (amount_add basis (sm_fee t)) (\<lambda>basis.
             rbind (amount_div basis (ap_shares p + n)) (\<lambda>average.
               Inr (p\<lparr>ap_shares := ap_shares p + n, ap_basis := basis\<rparr>)))))
         | SELL \<Rightarrow>
             if ap_shares p < n then Inl insufficient_position
             else
               rbind (amount_div (ap_basis p) (ap_shares p)) (\<lambda>average.
               rbind (amount_times average n) (\<lambda>sold.
               rbind (if ap_shares p - n = 0 then Inr (Fin 0) else amount_add (ap_basis p) (amount_neg sold)) (\<lambda>basis.
               rbind (amount_times (sm_price t) n) (\<lambda>received.
               rbind (amount_add (ap_realized p) received) (\<lambda>r.
               rbind (amount_add r (amount_neg (sm_fee t))) (\<lambda>r.
               rbind (amount_add r (amount_neg sold)) (\<lambda>r.
               rbind (if ap_shares p - n = 0 then Inr basis else amount_div basis (ap_shares p - n)) (\<lambda>average.
                 Inr \<lparr>ap_shares = ap_shares p - n, ap_basis = basis, ap_realized = r\<rparr>)))))))))
        (\<lambda>q. Inr (AList.update (sm_security_id t) q states)))"

definition amount_replay :: "simulated list \<Rightarrow> unit result" where
  "amount_replay ts = rbind (rfold amount_step [] (sort_key sm_key ts)) (\<lambda>_. Inr ())"

text \<open>\<open>TransactionSide(text)\<close> and \<open>LotType(text)\<close>\<close>

definition side_of_text :: "string \<Rightarrow> transaction_side result" where
  "side_of_text s = (if s = ''BUY'' then Inr BUY else if s = ''SELL'' then Inr SELL else Inl ValueError)"

fun side_text :: "transaction_side \<Rightarrow> string" where
  "side_text BUY = ''BUY''"
| "side_text SELL = ''SELL''"

definition lot_of_text :: "string \<Rightarrow> lot_type result" where
  "lot_of_text s =
     (if s = ''ROUND_LOT'' then Inr ROUND_LOT else if s = ''BOARD_LOT'' then Inr BOARD_LOT
      else if s = ''ODD_LOT'' then Inr ODD_LOT else Inl ValueError)"

fun lot_text :: "lot_type \<Rightarrow> string" where
  "lot_text ROUND_LOT = ''ROUND_LOT''"
| "lot_text BOARD_LOT = ''BOARD_LOT''"
| "lot_text ODD_LOT = ''ODD_LOT''"

lemma side_text_round_trip [simp]: "side_of_text (side_text s) = Inr s"
  by (cases s) (simp_all add: side_of_text_def)

lemma lot_text_round_trip [simp]: "lot_of_text (lot_text l) = Inr l"
  by (cases l) (simp_all add: lot_of_text_def)

text \<open>
  A stored transaction as the accounting sees it. The market of a key only orders the positions of a
  replay, which the preview does not look at; markets other than the two known ones count as \<open>TWSE\<close>.
\<close>

definition market_of_text :: "string \<Rightarrow> market_code" where
  "market_of_text s = (if s = ''TPEX'' then TPEX else TWSE)"

definition stored_transaction :: "security_key \<Rightarrow> string \<Rightarrow> transaction_row \<Rightarrow> portfolio_transaction result" where
  "stored_transaction key sec_name t =
     rbind (side_of_text (tn_side t)) (\<lambda>side.
     rbind (lot_of_text (tn_lot_type t)) (\<lambda>lot.
       Inr \<lparr>t_id = tn_id t, t_portfolio_id = tn_portfolio_id t, t_security_id = tn_security_id t,
         t_security = key, t_security_name = sec_name, t_side = side, t_executed_at = tn_executed_at t,
         t_quantity_shares = tn_quantity_shares t, t_price = tn_price t, t_fee = tn_fee t,
         t_lot_type = lot, t_created_at = tn_created_at t, t_updated_at = tn_updated_at t\<rparr>))"

definition candidate_transaction :: "uuid \<Rightarrow> instant \<Rightarrow> candidate \<Rightarrow> portfolio_transaction" where
  "candidate_transaction pid created c =
     \<lparr>t_id = cd_transaction_id c, t_portfolio_id = pid, t_security_id = cd_security_id c,
      t_security = \<lparr>sk_market = market_of_text (cd_market c), sk_code = cd_code c\<rparr>,
      t_security_name = cd_name c, t_side = cd_side c, t_executed_at = cd_executed_at c,
      t_quantity_shares = cd_quantity_shares c, t_price = dec_value (cd_price c), t_fee = dec_value (cd_fee c),
      t_lot_type = cd_lot_type c, t_created_at = created, t_updated_at = created\<rparr>"

definition finite_amounts :: "candidate \<Rightarrow> bool" where
  "finite_amounts c \<longleftrightarrow> (case (amount_of (cd_price c), amount_of (cd_fee c)) of (Fin _, Fin _) \<Rightarrow> True | _ \<Rightarrow> False)"

definition simulate :: "portfolio_transaction \<Rightarrow> amount \<Rightarrow> amount \<Rightarrow> simulated" where
  "simulate t price fee =
     \<lparr>sm_key = replay_order t, sm_security_id = t_security_id t, sm_side = t_side t,
      sm_shares = t_quantity_shares t, sm_price = price, sm_fee = fee\<rparr>"

text \<open>\<open>accounting.replay(simulated)\<close>\<close>

definition candidate_log :: "uuid \<Rightarrow> (nat \<Rightarrow> instant) \<Rightarrow> candidate list \<Rightarrow> portfolio_transaction list" where
  "candidate_log pid clock cs = map (\<lambda>(k, c). candidate_transaction pid (clock k) c) (zip [0..<length cs] cs)"

definition simulated_replay :: "portfolio_transaction list \<Rightarrow> uuid \<Rightarrow> (nat \<Rightarrow> instant) \<Rightarrow> candidate list \<Rightarrow> unit result" where
  "simulated_replay existing pid clock cs =
     (if list_all finite_amounts cs
      then rbind (replay (existing @ candidate_log pid clock cs)) (\<lambda>_. Inr ())
      else amount_replay
        (map (\<lambda>t. simulate t (Fin (t_price t)) (Fin (t_fee t))) existing @
         map2 (\<lambda>t c. simulate t (amount_of (cd_price c)) (amount_of (cd_fee c))) (candidate_log pid clock cs) cs))"

section \<open>The preview\<close>

record portfolio_preview =
  pp_token :: uuid
  pp_user_id :: uuid
  pp_portfolio_id :: "uuid option"
  pp_total_rows :: nat
  pp_valid_rows :: nat
  pp_invalid_rows :: nat
  pp_warning_rows :: nat
  pp_duplicate_rows :: nat
  pp_transactions :: "candidate list"
  pp_errors :: row_errors
  pp_warnings :: row_errors

definition expected_columns :: "string list" where
  "expected_columns = [''market'', ''code'', ''side'', ''trade_date'', ''trade_time'', ''shares'', ''price'']"

text \<open>Reading the file: its size, its rows, its header.\<close>

definition read_table :: "string list \<Rightarrow> string \<Rightarrow> (string list \<times> string list list) result" where
  "read_table columns csv_text =
     (if max_upload_size < length csv_text then Inl (AppError ''IMPORT_FILE_TOO_LARGE'' 413)
      else case csv_read (drop_marks csv_text) of None \<Rightarrow> Inl CsvError
        | Some [] \<Rightarrow> Inl (AppError ''IMPORT_EMPTY_FILE'' 422)
        | Some (first # rows) \<Rightarrow>
            (let header = map (\<lambda>c. lower (strip c)) first in
             if \<not> set columns \<subseteq> set header then Inl (AppError ''IMPORT_INVALID_HEADER'' 422)
             else Inr (header, rows)))"

text \<open>The portfolio with the candidates must replay; only an \<open>AppError\<close> becomes an error of the preview.\<close>

definition oversell_errors :: "user_db \<Rightarrow> uuid \<Rightarrow> uuid option \<Rightarrow> (nat \<Rightarrow> uuid) \<Rightarrow> (nat \<Rightarrow> instant) \<Rightarrow> scan \<Rightarrow> row_errors result" where
  "oversell_errors db user pid fresh clock sc =
     (if sc_errors sc \<noteq> [] \<or> sc_candidates sc = [] then Inr []
      else rbind (case pid of None \<Rightarrow> Inr []
                  | Some p \<Rightarrow> rmap (stored_transaction \<lparr>sk_market = TWSE, sk_code = []\<rparr> []) (live_transactions user p db))
        (\<lambda>existing.
          case simulated_replay existing (case pid of None \<Rightarrow> fresh 1 | Some p \<Rightarrow> p) clock (sc_candidates sc) of
            Inr _ \<Rightarrow> Inr []
          | Inl (AppError _ _) \<Rightarrow> Inr [(0, ''OVERSELL'')]
          | Inl e \<Rightarrow> Inl e))"

definition portfolio_preview_of :: "uuid \<Rightarrow> uuid option \<Rightarrow> uuid \<Rightarrow> nat \<Rightarrow> scan \<Rightarrow> row_errors \<Rightarrow> portfolio_preview" where
  "portfolio_preview_of user pid token total_rows sc errors =
     \<lparr>pp_token = token, pp_user_id = user, pp_portfolio_id = pid, pp_total_rows = total_rows,
      pp_valid_rows = (if errors = [] then length (sc_candidates sc) else 0),
      pp_invalid_rows = length errors, pp_warning_rows = length (sc_warnings sc),
      pp_duplicate_rows = sc_duplicates sc,
      pp_transactions = (if errors = [] then sc_candidates sc else []),
      pp_errors = errors, pp_warnings = sc_warnings sc\<rparr>"

definition preview_portfolio_csv :: "user_db \<Rightarrow> (nat \<Rightarrow> uuid) \<Rightarrow> (nat \<Rightarrow> instant) \<Rightarrow> uuid \<Rightarrow> string \<Rightarrow> uuid option \<Rightarrow>
    portfolio_preview result" where
  "preview_portfolio_csv db fresh clock user csv_text pid =
     rbind (read_table expected_columns csv_text) (\<lambda>(header, rows).
       if max_import_rows < length rows then Inl (AppError ''IMPORT_ROW_LIMIT_EXCEEDED'' 422)
       else let sc = scan_rows db fresh header rows in
         rbind (oversell_errors db user pid fresh clock sc) (\<lambda>oversell.
           Inr (portfolio_preview_of user pid (fresh 0) (length rows) sc (sc_errors sc @ oversell))))"

end
