(* ===== verification/WatchlistPreview.thy ===== *)
theory WatchlistPreview
  imports ImportPreview
begin

text \<open>
  The preview of a watchlist import (\<open>ImportService.preview_watchlist_csv\<close> of
  \<open>app/services/import_export.py\<close>). Unlike the portfolio preview it does not catch what a row raises:
  a short row or an unreadable price ends the whole preview.
\<close>

record watch_item =
  wt_row_number :: nat
  wt_security_id :: uuid
  wt_market :: string
  wt_code :: string
  wt_name :: string
  wt_note :: "string option"
  wt_target_price :: "py_dec option"
  wt_stop_price :: "py_dec option"
  wt_add_price :: "py_dec option"

record watch_group =
  wg_group_name :: string
  wg_group_id :: string
  wg_items :: "watch_item list"

record watchlist_preview =
  wp_token :: uuid
  wp_user_id :: uuid
  wp_merge_mode :: string
  wp_total_rows :: nat
  wp_valid_rows :: int
  wp_invalid_rows :: nat
  wp_groups :: "watch_group list"
  wp_errors :: row_errors

text \<open>\<open>str(price) if price else None\<close>: a price of zero is dropped.\<close>

fun dec_truthy :: "py_dec \<Rightarrow> bool" where
  "dec_truthy (DNumber negative c e) = (c \<noteq> 0)"
| "dec_truthy _ = True"

definition read_optional_price :: "string list \<Rightarrow> string list \<Rightarrow> string \<Rightarrow> py_dec option result" where
  "read_optional_price header row name =
     rbind (optional_cell header row name) (\<lambda>s.
       if s = [] then Inr None
       else case decimal_of_text s of None \<Rightarrow> Inl DecimalError
         | Some d \<Rightarrow> Inr (if dec_truthy d then Some d else None))"

definition read_watch_row :: "user_db \<Rightarrow> (nat \<Rightarrow> uuid) \<Rightarrow> string list \<Rightarrow> nat \<Rightarrow> string list \<Rightarrow> (string \<times> string \<times> watch_item) checked" where
  "read_watch_row db fresh header n row =
     rbind (cell header row ''group_name'') (\<lambda>g.
       if strip g = [] then problem ''INVALID_GROUP_NAME''
       else
         rbind (cell header row ''market'') (\<lambda>market.
         rbind (cell header row ''code'') (\<lambda>code.
           case security_by_pair db (upper (strip market)) (upper (strip code)) of
             None \<Rightarrow> problem ''SECURITY_NOT_FOUND''
           | Some sec \<Rightarrow>
               rbind (optional_cell header row ''note'') (\<lambda>note.
               rbind (read_optional_price header row ''target_price'') (\<lambda>target.
               rbind (read_optional_price header row ''stop_price'') (\<lambda>stop.
               rbind (read_optional_price header row ''add_price'') (\<lambda>add.
               rbind (optional_cell header row ''group_id'') (\<lambda>gid.
                 good (strip g, if gid = [] then uuid_text (fresh n) else gid,
                   \<lparr>wt_row_number = n, wt_security_id = ls_id sec,
                    wt_market = resolve_market_code (ud_markets db) (Some sec), wt_code = ls_code sec, wt_name = ls_name sec,
                    wt_note = (if note = [] then None else Some note),
                    wt_target_price = target, wt_stop_price = stop, wt_add_price = add\<rparr>)))))))))"

text \<open>\<open>groups_dict.setdefault(name, \<dots>)["items"].append(item)\<close>\<close>

fun add_watch_item :: "string \<Rightarrow> string \<Rightarrow> watch_item \<Rightarrow> watch_group list \<Rightarrow> watch_group list" where
  "add_watch_item name gid it [] = [\<lparr>wg_group_name = name, wg_group_id = gid, wg_items = [it]\<rparr>]"
| "add_watch_item name gid it (g # gs) =
     (if wg_group_name g = name then g\<lparr>wg_items := wg_items g @ [it]\<rparr> # gs else g # add_watch_item name gid it gs)"

definition scan_watch_row :: "user_db \<Rightarrow> (nat \<Rightarrow> uuid) \<Rightarrow> string list \<Rightarrow> watch_group list \<times> row_errors \<Rightarrow>
    nat \<times> string list \<Rightarrow> (watch_group list \<times> row_errors) result" where
  "scan_watch_row db fresh header = (\<lambda>(groups, errors) (n, row).
     if blank_row row then Inr (groups, errors)
     else rbind (read_watch_row db fresh header n row) (\<lambda>v.
       case v of Inl code \<Rightarrow> Inr (groups, errors @ [(n, code)])
       | Inr (name, gid, it) \<Rightarrow> Inr (add_watch_item name gid it groups, errors)))"

definition preview_watchlist_csv :: "user_db \<Rightarrow> (nat \<Rightarrow> uuid) \<Rightarrow> uuid \<Rightarrow> string \<Rightarrow> string \<Rightarrow> watchlist_preview result" where
  "preview_watchlist_csv db fresh user csv_text merge_mode =
     rbind (read_table [''group_name'', ''market'', ''code''] csv_text) (\<lambda>(header, rows).
     rbind (rfold (scan_watch_row db fresh header) ([], []) (zip [2..<2 + length rows] rows)) (\<lambda>(groups, errors).
       Inr \<lparr>wp_token = fresh 0, wp_user_id = user, wp_merge_mode = merge_mode, wp_total_rows = length rows,
         wp_valid_rows = int (length rows) - int (length errors), wp_invalid_rows = length errors,
         wp_groups = groups, wp_errors = errors\<rparr>))"

end
