(* ===== verification/ImportApply.thy ===== *)
theory ImportApply
  imports WatchlistPreview
begin

text \<open>
  Applying a previewed import (\<open>ImportService.apply_portfolio_import\<close> and
  \<open>apply_watchlist_import\<close> of \<open>app/services/import_export.py\<close>) and the store of the previews. The
  service is given the \<open>redis.asyncio\<close> client of the application and calls it without awaiting: nothing
  is stored, and what \<open>get\<close> returns is a coroutine, which \<open>json.loads\<close> refuses. Without a client the
  previews are kept in a dictionary of the service.

  A query flushes what the session has pending, so a constraint violated by a new row is raised at the
  next query or at the commit; nothing is kept of a call that raises. \<open>now\<close> is the time of the call.
\<close>

section \<open>The store of previews\<close>

datatype stored_preview = Portfolio_preview portfolio_preview | Watchlist_preview watchlist_preview

datatype preview_store = Memory "(uuid \<times> stored_preview) list" | Async_redis

fun set_preview :: "uuid \<Rightarrow> stored_preview \<Rightarrow> preview_store \<Rightarrow> preview_store" where
  "set_preview token p (Memory ps) = Memory (AList.update token p ps)"
| "set_preview token p Async_redis = Async_redis"

fun get_preview :: "uuid \<Rightarrow> preview_store \<Rightarrow> stored_preview option result" where
  "get_preview token (Memory ps) = Inr (map_of ps token)"
| "get_preview token Async_redis = Inl TypeError"

fun delete_preview :: "uuid \<Rightarrow> preview_store \<Rightarrow> preview_store" where
  "delete_preview token (Memory ps) = Memory (AList.delete token ps)"
| "delete_preview token Async_redis = Async_redis"

fun preview_user :: "stored_preview \<Rightarrow> uuid" where
  "preview_user (Portfolio_preview p) = pp_user_id p"
| "preview_user (Watchlist_preview p) = wp_user_id p"

fun preview_invalid :: "stored_preview \<Rightarrow> nat" where
  "preview_invalid (Portfolio_preview p) = pp_invalid_rows p"
| "preview_invalid (Watchlist_preview p) = wp_invalid_rows p"

text \<open>\<open>preview["transactions"]\<close> and \<open>preview["groups"]\<close>\<close>

fun preview_transactions :: "stored_preview \<Rightarrow> candidate list result" where
  "preview_transactions (Portfolio_preview p) = Inr (pp_transactions p)"
| "preview_transactions (Watchlist_preview p) = Inl KeyError"

fun preview_groups :: "stored_preview \<Rightarrow> watch_group list result" where
  "preview_groups (Portfolio_preview p) = Inl KeyError"
| "preview_groups (Watchlist_preview p) = Inr (wp_groups p)"

text \<open>The first lines of both operations.\<close>

definition usable_preview :: "uuid \<Rightarrow> uuid \<Rightarrow> preview_store \<Rightarrow> stored_preview result" where
  "usable_preview user token store =
     rbind (get_preview token store) (\<lambda>found.
       case found of None \<Rightarrow> Inl (AppError ''IMPORT_PREVIEW_EXPIRED'' 404)
       | Some p \<Rightarrow>
           if preview_user p \<noteq> user then Inl (AppError ''IMPORT_PREVIEW_EXPIRED'' 404)
           else if 0 < preview_invalid p then Inl (AppError ''IMPORT_HAS_ERRORS'' 422)
           else Inr p)"

section \<open>Portfolio transactions\<close>

definition imported_row :: "uuid \<Rightarrow> uuid \<Rightarrow> instant \<Rightarrow> candidate \<Rightarrow> transaction_row" where
  "imported_row user target now c =
     \<lparr>tn_id = cd_transaction_id c, tn_user_id = Some user, tn_portfolio_id = target,
      tn_security_id = cd_security_id c, tn_side = side_text (cd_side c), tn_executed_at = cd_executed_at c,
      tn_quantity_shares = cd_quantity_shares c, tn_price = dec_value (cd_price c), tn_fee = dec_value (cd_fee c),
      tn_lot_type = lot_text (cd_lot_type c), tn_version = 1, tn_created_at = now, tn_updated_at = now,
      tn_deleted_at = None\<rparr>"

definition imported_change :: "uuid \<Rightarrow> uuid \<Rightarrow> instant \<Rightarrow> int \<Rightarrow> candidate \<Rightarrow> sync_change" where
  "imported_change user target now s c =
     \<lparr>ch_sequence = s, ch_user_id = user, ch_entity = PortfolioTransaction, ch_entity_id = cd_transaction_id c,
      ch_operation = UPSERT, ch_version = 1,
      ch_payload =
        [(''portfolio_id'', JStr (uuid_text target)), (''security_id'', JStr (uuid_text (cd_security_id c))),
         (''side'', JStr (side_text (cd_side c))), (''executed_at'', JStr (iso_text (cd_executed_at c))),
         (''quantity_shares'', JNum (of_int (cd_quantity_shares c))), (''price'', JStr (dec_text (cd_price c))),
         (''fee'', JStr (dec_text (cd_fee c))), (''lot_type'', JStr (lot_text (cd_lot_type c)))],
      ch_changed_at = now\<rparr>"

text \<open>
  The columns store finite amounts and \<open>NaN\<close>; an infinity is refused by the database (as another error
  than a violated constraint, which is not told apart here).
\<close>

definition import_step :: "uuid \<Rightarrow> uuid \<Rightarrow> instant \<Rightarrow> user_db \<times> int \<times> nat \<times> nat \<Rightarrow> candidate \<Rightarrow>
    (user_db \<times> int \<times> nat \<times> nat) result" where
  "import_step user target now = (\<lambda>(db, s, inserted, skipped) c.
     rbind (flush_user db) (\<lambda>db.
       if list_ex (\<lambda>t. tn_id t = cd_transaction_id c \<and> tn_user_id t = Some user) (ud_transactions db)
       then Inr (db, s, inserted, skipped + 1)
       else if \<not> finite_amounts c then Inl IntegrityError
       else Inr (db\<lparr>ud_transactions := ud_transactions db @ [imported_row user target now c],
                    ud_changes := ud_changes db @ [imported_change user target now (s + 1) c]\<rparr>,
                 s + 1, inserted + 1, skipped)))"

record import_outcome =
  io_inserted_count :: nat
  io_skipped_count :: nat
  io_total_transactions :: nat

definition apply_portfolio_import :: "uuid \<Rightarrow> uuid \<Rightarrow> uuid \<Rightarrow> instant \<Rightarrow> preview_store \<Rightarrow> user_db \<Rightarrow>
    (import_outcome \<times> preview_store \<times> user_db) result" where
  "apply_portfolio_import user token target now store db =
     rbind (usable_preview user token store) (\<lambda>p.
       if live_portfolio user target db = None then Inl (AppError ''PORTFOLIO_NOT_FOUND'' 404)
       else
         rbind (preview_transactions p) (\<lambda>cs.
         rbind (rfold (import_step user target now) (db, change_cursor user db, 0, 0) cs) (\<lambda>(db, s, inserted, skipped).
         rbind (flush_user db) (\<lambda>db.
           Inr (\<lparr>io_inserted_count = inserted, io_skipped_count = skipped, io_total_transactions = length cs\<rparr>,
                delete_preview token store, db)))))"

section \<open>Watchlists\<close>

definition log_change :: "uuid \<Rightarrow> instant \<Rightarrow> int \<Rightarrow> entity \<Rightarrow> uuid \<Rightarrow> mutation \<Rightarrow> int \<Rightarrow> dict \<Rightarrow> sync_change" where
  "log_change user now s e i m version payload =
     \<lparr>ch_sequence = s, ch_user_id = user, ch_entity = e, ch_entity_id = i, ch_operation = m, ch_version = version,
      ch_payload = payload, ch_changed_at = now\<rparr>"

definition add_change :: "sync_change \<Rightarrow> user_db \<Rightarrow> user_db" where
  "add_change c db = db\<lparr>ud_changes := ud_changes db @ [c]\<rparr>"

definition live_watchlist :: "uuid \<Rightarrow> watchlist_row \<Rightarrow> bool" where
  "live_watchlist user w \<longleftrightarrow> wl_user_id w = Some user \<and> wl_deleted_at w = None"

text \<open>\<open>REPLACE\<close>: every watchlist of the user is marked as deleted; its version and its items stay.\<close>

definition drop_watchlists :: "uuid \<Rightarrow> instant \<Rightarrow> user_db \<times> int \<Rightarrow> user_db \<times> int" where
  "drop_watchlists user now = (\<lambda>(db, s).
     let old = filter (live_watchlist user) (ud_watchlists db) in
     (db\<lparr>ud_watchlists := map (\<lambda>w. if live_watchlist user w then w\<lparr>wl_deleted_at := Some now\<rparr> else w) (ud_watchlists db),
         ud_changes := ud_changes db @
           map (\<lambda>(k, w). log_change user now (s + 1 + int k) Watchlist (wl_id w) DELETE (wl_version w + 1) [])
             (zip [0..<length old] old)\<rparr>,
      s + int (length old)))"

record watch_state =
  ws_db :: user_db
  ws_seq :: int
  ws_groups :: nat
  ws_items :: nat

definition open_group :: "uuid \<Rightarrow> instant \<Rightarrow> watch_group \<Rightarrow> watch_state \<Rightarrow> (uuid \<times> watch_state) result" where
  "open_group user now g st =
     rbind (flush_user (ws_db st)) (\<lambda>db.
       case find (\<lambda>w. live_watchlist user w \<and> wl_name w = wg_group_name g) (ud_watchlists db) of
         Some w \<Rightarrow> Inr (wl_id w, st)
       | None \<Rightarrow>
           (case uuid_of_text (wg_group_id g) of None \<Rightarrow> Inl ValueError
            | Some i \<Rightarrow>
                let row = \<lparr>wl_id = i, wl_user_id = Some user, wl_name = wg_group_name g, wl_sort_order = int (ws_groups st),
                      wl_version = 1, wl_created_at = now, wl_updated_at = now, wl_deleted_at = None\<rparr>;
                    change = log_change user now (ws_seq st + 1) Watchlist i UPSERT 1
                      [(''name'', JStr (wl_name row)), (''sort_order'', JNum (of_int (wl_sort_order row)))]
                in Inr (i, st\<lparr>ws_db := add_change change (db\<lparr>ud_watchlists := ud_watchlists db @ [row]\<rparr>),
                              ws_seq := ws_seq st + 1, ws_groups := ws_groups st + 1\<rparr>)))"

definition dec_or_null :: "py_dec option \<Rightarrow> json" where
  "dec_or_null d = (case d of None \<Rightarrow> JNull | Some x \<Rightarrow> JStr (dec_text x))"

definition infinite_price :: "watch_item \<Rightarrow> bool" where
  "infinite_price it \<longleftrightarrow>
     list_ex (\<lambda>d. case d of Some (DInfinity _) \<Rightarrow> True | _ \<Rightarrow> False) [wt_target_price it, wt_stop_price it, wt_add_price it]"

definition add_item :: "uuid \<Rightarrow> instant \<Rightarrow> (nat \<Rightarrow> uuid) \<Rightarrow> uuid \<Rightarrow> watch_state \<Rightarrow> nat \<times> watch_item \<Rightarrow> watch_state result" where
  "add_item user now fresh wl st = (\<lambda>(idx, it).
     rbind (flush_user (ws_db st)) (\<lambda>db.
       if list_ex (\<lambda>i. wi_watchlist_id i = wl \<and> wi_security_id i = wt_security_id it \<and> wi_deleted_at i = None) (ud_items db)
       then Inr st
       else if infinite_price it then Inl IntegrityError
       else
         let item_id = fresh (ws_items st);
             row = \<lparr>wi_id = item_id, wi_user_id = Some user, wi_watchlist_id = wl, wi_security_id = wt_security_id it,
               wi_sort_order = int idx, wi_note = wt_note it, wi_target_price = wt_target_price it,
               wi_stop_price = wt_stop_price it, wi_add_price = wt_add_price it,
               wi_version = 1, wi_created_at = now, wi_updated_at = now, wi_deleted_at = None\<rparr>;
             change = log_change user now (ws_seq st + 1) WatchlistItem item_id UPSERT 1
               [(''watchlist_id'', JStr (uuid_text wl)), (''security_id'', JStr (uuid_text (wt_security_id it))),
                (''sort_order'', JNum (of_nat idx)),
                (''note'', case wt_note it of None \<Rightarrow> JNull | Some n \<Rightarrow> JStr n),
                (''target_price'', dec_or_null (wt_target_price it)), (''stop_price'', dec_or_null (wt_stop_price it)),
                (''add_price'', dec_or_null (wt_add_price it))]
         in Inr (st\<lparr>ws_db := add_change change (db\<lparr>ud_items := ud_items db @ [row]\<rparr>),
                    ws_seq := ws_seq st + 1, ws_items := ws_items st + 1\<rparr>)))"

definition import_group :: "uuid \<Rightarrow> instant \<Rightarrow> (nat \<Rightarrow> uuid) \<Rightarrow> watch_state \<Rightarrow> watch_group \<Rightarrow> watch_state result" where
  "import_group user now fresh st g =
     rbind (open_group user now g st) (\<lambda>(wl, st).
       rfold (add_item user now fresh wl) st (zip [0..<length (wg_items g)] (wg_items g)))"

definition apply_watchlist_import :: "uuid \<Rightarrow> uuid \<Rightarrow> string \<Rightarrow> instant \<Rightarrow> (nat \<Rightarrow> uuid) \<Rightarrow> preview_store \<Rightarrow> user_db \<Rightarrow>
    ((nat \<times> nat) \<times> preview_store \<times> user_db) result" where
  "apply_watchlist_import user token merge_mode now fresh store db =
     rbind (usable_preview user token store) (\<lambda>p.
       let (db, s) = (if merge_mode = ''REPLACE'' then drop_watchlists user now (db, change_cursor user db)
                      else (db, change_cursor user db)) in
       rbind (preview_groups p) (\<lambda>gs.
       rbind (rfold (import_group user now fresh) \<lparr>ws_db = db, ws_seq = s, ws_groups = 0, ws_items = 0\<rparr> gs) (\<lambda>st.
       rbind (flush_user (ws_db st)) (\<lambda>db.
         Inr ((ws_groups st, ws_items st), delete_preview token store, db)))))"

end
