(* ===== verification/ImportEffects.thy ===== *)
theory ImportEffects
  imports ImportApply
begin

text \<open>
  What applying a portfolio import does: the transactions whose identifiers the user does not have yet
  are appended, each with one entry of the change log, under consecutive sequence numbers after the
  user's last one. The numbers are not taken from the generator of the log, so the import fails when
  another user has one of them.
\<close>

section \<open>The result of a run\<close>

definition known_ids :: "uuid \<Rightarrow> user_db \<Rightarrow> uuid set" where
  "known_ids user db = {i. list_ex (\<lambda>t. tn_id t = i \<and> tn_user_id t = Some user) (ud_transactions db)}"

fun new_candidates :: "uuid set \<Rightarrow> candidate list \<Rightarrow> candidate list" where
  "new_candidates known [] = []"
| "new_candidates known (c # cs) =
     (if cd_transaction_id c \<in> known then new_candidates known cs
      else c # new_candidates (insert (cd_transaction_id c) known) cs)"

fun numbered_changes :: "uuid \<Rightarrow> uuid \<Rightarrow> instant \<Rightarrow> int \<Rightarrow> candidate list \<Rightarrow> sync_change list" where
  "numbered_changes user target now s [] = []"
| "numbered_changes user target now s (c # cs) =
     imported_change user target now (s + 1) c # numbered_changes user target now (s + 1) cs"

definition with_imports :: "uuid \<Rightarrow> uuid \<Rightarrow> instant \<Rightarrow> int \<Rightarrow> candidate list \<Rightarrow> user_db \<Rightarrow> user_db" where
  "with_imports user target now s ns db =
     db\<lparr>ud_transactions := ud_transactions db @ map (imported_row user target now) ns,
        ud_changes := ud_changes db @ numbered_changes user target now s ns\<rparr>"

lemma with_imports_Nil [simp]: "with_imports user target now s [] db = db"
  by (simp add: with_imports_def)

lemma with_imports_Cons:
  "with_imports user target now s (c # ns) db =
     with_imports user target now (s + 1) ns
       (db\<lparr>ud_transactions := ud_transactions db @ [imported_row user target now c],
          ud_changes := ud_changes db @ [imported_change user target now (s + 1) c]\<rparr>)"
  by (simp add: with_imports_def)

lemma imported_row_ids [simp]:
  "tn_id (imported_row user target now c) = cd_transaction_id c"
  "tn_user_id (imported_row user target now c) = Some user"
  by (simp_all add: imported_row_def)

lemma known_ids_insert:
  "known_ids user (db\<lparr>ud_transactions := ud_transactions db @ [imported_row user target now c], ud_changes := chs\<rparr>) =
     insert (cd_transaction_id c) (known_ids user db)"
  by (auto simp: known_ids_def)

lemma constraints_prefix:
  "user_constraints (db\<lparr>ud_transactions := ud_transactions db @ ts, ud_changes := ud_changes db @ chs\<rparr>) \<Longrightarrow>
     user_constraints db"
  by (auto simp: user_constraints_def)

lemma constraints_before_imports: "user_constraints (with_imports user target now s ns db) \<Longrightarrow> user_constraints db"
  unfolding with_imports_def by (rule constraints_prefix)

text \<open>
  Since a state that violates a constraint is never repaired by the rest of the run, the run and the
  commit succeed exactly when the resulting tables satisfy the constraints.
\<close>

lemma import_run:
  "rbind (rfold (import_step user target now) (db, s, i, k) cs) (\<lambda>(db, s, i, k). rbind (flush_user db) (\<lambda>db. Inr (db, i, k))) =
    (let ns = new_candidates (known_ids user db) cs; db' = with_imports user target now s ns db in
     if user_constraints db' \<and> list_all finite_amounts ns then Inr (db', i + length ns, k + (length cs - length ns)) else Inl IntegrityError)"
proof (induction cs arbitrary: db s i k)
  case Nil
  then show ?case by (simp add: flush_user_def)
next
  case (Cons c cs)
  have small: "length (new_candidates known cs) \<le> length cs" for known
    by (induction cs arbitrary: known) (auto simp: le_SucI)
  show ?case
  proof (cases "user_constraints db")
    case False
    then show ?thesis
      using constraints_before_imports
      by (auto simp: import_step_def flush_user_def Let_def)
  next
    case True
    show ?thesis
    proof (cases "cd_transaction_id c \<in> known_ids user db")
      case known: True
      then have "list_ex (\<lambda>t. tn_id t = cd_transaction_id c \<and> tn_user_id t = Some user) (ud_transactions db)"
        by (simp add: known_ids_def)
      then show ?thesis
        using True known Cons.IH [of db s i "k + 1"] small [of "known_ids user db"]
        by (simp add: import_step_def flush_user_def Let_def Suc_diff_le)
    next
      case new: False
      let ?db = "db\<lparr>ud_transactions := ud_transactions db @ [imported_row user target now c],
          ud_changes := ud_changes db @ [imported_change user target now (s + 1) c]\<rparr>"
      from new have "\<not> list_ex (\<lambda>t. tn_id t = cd_transaction_id c \<and> tn_user_id t = Some user) (ud_transactions db)"
        by (simp add: known_ids_def)
      then show ?thesis
        using True new Cons.IH [of ?db "s + 1" "i + 1" k]
        by (simp add: import_step_def flush_user_def Let_def known_ids_insert with_imports_Cons)
    qed
  qed
qed

lemma apply_outcome:
  assumes "usable_preview user token store = Inr (Portfolio_preview p)"
    and "live_portfolio user target db \<noteq> None"
  shows "apply_portfolio_import user token target now store db =
    (let cs = pp_transactions p; ns = new_candidates (known_ids user db) cs;
         db' = with_imports user target now (change_cursor user db) ns db
     in if user_constraints db' \<and> list_all finite_amounts ns
        then Inr (\<lparr>io_inserted_count = length ns, io_skipped_count = length cs - length ns,
               io_total_transactions = length cs\<rparr>, delete_preview token store, db')
        else Inl IntegrityError)"
proof -
  let ?cs = "pp_transactions p"
  have "apply_portfolio_import user token target now store db =
    rbind (rbind (rfold (import_step user target now) (db, change_cursor user db, 0, 0) ?cs)
        (\<lambda>(db, s, i, k). rbind (flush_user db) (\<lambda>db. Inr (db, i, k))))
      (\<lambda>(db, i, k). Inr (\<lparr>io_inserted_count = i, io_skipped_count = k, io_total_transactions = length ?cs\<rparr>,
        delete_preview token store, db))"
    using assms by (auto simp: apply_portfolio_import_def rbind_assoc case_prod_unfold)
  then show ?thesis unfolding import_run by (simp add: Let_def)
qed

lemma numbered_sequences:
  "map ch_sequence (numbered_changes user target now s ns) = map (\<lambda>k. s + 1 + int k) [0..<length ns]"
proof (induction ns arbitrary: s)
  case (Cons c ns)
  have "map (\<lambda>k. s + 1 + int k) [0..<length (c # ns)] = (s + 1) # map (\<lambda>k. s + 2 + int k) [0..<length ns]"
    by (simp add: upt_conv_Cons map_Suc_upt [symmetric] del: upt_Suc)
  then show ?case using Cons [of "s + 1"] by (simp add: imported_change_def)
qed simp

lemma numbered_users: "c \<in> set (numbered_changes user target now s ns) \<Longrightarrow> ch_user_id c = user \<and> s < ch_sequence c"
proof (induction ns arbitrary: s)
  case (Cons d ns)
  then show ?case by (auto simp: imported_change_def dest!: Cons.IH)
qed simp

lemma known_ids_image: "known_ids user db = tn_id ` {t \<in> set (ud_transactions db). tn_user_id t = Some user}"
  by (auto simp: known_ids_def list_ex_iff)

lemma known_after: "known_ids user (with_imports user target now s ns db) = known_ids user db \<union> cd_transaction_id ` set ns"
proof -
  have "{t \<in> set (ud_transactions (with_imports user target now s ns db)). tn_user_id t = Some user} =
      {t \<in> set (ud_transactions db). tn_user_id t = Some user} \<union> imported_row user target now ` set ns"
    by (auto simp: with_imports_def)
  then show ?thesis by (simp add: known_ids_image image_Un image_image)
qed

lemma new_candidates_known: "cd_transaction_id ` set cs \<subseteq> known \<Longrightarrow> new_candidates known cs = []"
  by (induction cs) auto

lemma new_candidates_ids: "cd_transaction_id ` set cs \<subseteq> known \<union> cd_transaction_id ` set (new_candidates known cs)"
proof (induction cs arbitrary: known)
  case (Cons c cs)
  then show ?case using Cons.IH [of known] Cons.IH [of "insert (cd_transaction_id c) known"] by auto
qed simp

lemma apply_success:
  assumes "apply_portfolio_import user token target now store db = Inr (out, store', db')"
  shows "\<exists>p. usable_preview user token store = Inr (Portfolio_preview p) \<and> live_portfolio user target db \<noteq> None \<and>
    (let cs = pp_transactions p; ns = new_candidates (known_ids user db) cs in
     db' = with_imports user target now (change_cursor user db) ns db \<and> user_constraints db' \<and>
     list_all finite_amounts ns \<and> store' = delete_preview token store \<and>
     out = \<lparr>io_inserted_count = length ns, io_skipped_count = length cs - length ns, io_total_transactions = length cs\<rparr>)"
proof -
  obtain q where q: "usable_preview user token store = Inr q" and live: "live_portfolio user target db \<noteq> None"
    using assms by (auto simp: apply_portfolio_import_def rbind_eq_Inr split: if_splits)
  obtain p where p: "q = Portfolio_preview p"
    using assms q live by (cases q) (auto simp: apply_portfolio_import_def)
  show ?thesis
    using assms q live unfolding p apply_outcome [OF q [unfolded p] live]
    by (auto simp: Let_def split: if_splits)
qed

lemma deleted_unusable: "usable_preview user token store = Inr p \<Longrightarrow>
    usable_preview user token (delete_preview token store) = Inl (AppError ''IMPORT_PREVIEW_EXPIRED'' 404)"
  by (cases store) (simp_all add: usable_preview_def delete_conv)

section \<open>Properties\<close>

text \<open>
  C26. A portfolio import that is applied appends exactly the previewed transactions whose
  identifiers the user does not have yet, and to the change log one entry for each, numbered
  consecutively after the user's last one, which is what a device that had read the log up to there is
  given; every previewed transaction is counted as inserted or skipped. The same preview is refused
  from then on, and the same file would insert nothing.
\<close>

theorem import_applied_once:
  assumes "apply_portfolio_import user token target now store db = Inr (out, store', db')"
  shows "\<exists>p. usable_preview user token store = Inr (Portfolio_preview p) \<and>
    (let cs = pp_transactions p; ns = new_candidates (known_ids user db) cs; cursor = change_cursor user db in
     ud_transactions db' = ud_transactions db @ map (imported_row user target now) ns \<and>
     filter (\<lambda>c. ch_user_id c = user \<and> cursor < ch_sequence c) (ud_changes db') = numbered_changes user target now cursor ns \<and>
     map ch_sequence (numbered_changes user target now cursor ns) = map (\<lambda>k. cursor + 1 + int k) [0..<length ns] \<and>
     io_inserted_count out = length ns \<and> io_inserted_count out + io_skipped_count out = length cs \<and>
     apply_portfolio_import user token target later store' db' = Inl (AppError ''IMPORT_PREVIEW_EXPIRED'' 404) \<and>
     new_candidates (known_ids user db') cs = [])"
proof -
  from apply_success [OF assms] obtain p where
    p: "usable_preview user token store = Inr (Portfolio_preview p)" and
    r: "db' = with_imports user target now (change_cursor user db) (new_candidates (known_ids user db) (pp_transactions p)) db"
      "store' = delete_preview token store"
      "out = \<lparr>io_inserted_count = length (new_candidates (known_ids user db) (pp_transactions p)),
         io_skipped_count = length (pp_transactions p) - length (new_candidates (known_ids user db) (pp_transactions p)),
         io_total_transactions = length (pp_transactions p)\<rparr>"
    by (auto simp: Let_def)
  have small: "length (new_candidates known cs) \<le> length cs" for known cs
    by (induction cs arbitrary: known) (auto simp: le_SucI)
  let ?ns = "new_candidates (known_ids user db) (pp_transactions p)" and ?s = "change_cursor user db"
  have old: "filter (\<lambda>c. ch_user_id c = user \<and> ?s < ch_sequence c) (ud_changes db) = []"
    using change_cursor_ge by (fastforce simp: filter_empty_conv)
  have "filter (\<lambda>c. ch_user_id c = user \<and> ?s < ch_sequence c) (numbered_changes user target now ?s ?ns) =
      numbered_changes user target now ?s ?ns"
    by (rule filter_True) (use numbered_users in blast)
  with old have log: "filter (\<lambda>c. ch_user_id c = user \<and> ?s < ch_sequence c) (ud_changes db') = numbered_changes user target now ?s ?ns"
    by (simp add: r(1) with_imports_def)
  have none: "new_candidates (known_ids user db') (pp_transactions p) = []"
    unfolding r(1) known_after by (rule new_candidates_known) (rule new_candidates_ids)
  have refused: "apply_portfolio_import user token target later store' db' = Inl (AppError ''IMPORT_PREVIEW_EXPIRED'' 404)"
    using deleted_unusable [OF p] by (simp add: apply_portfolio_import_def r(2))
  have rows: "ud_transactions db' = ud_transactions db @ map (imported_row user target now) ?ns"
    by (simp add: r(1) with_imports_def)
  have counts: "io_inserted_count out = length ?ns" "io_inserted_count out + io_skipped_count out = length (pp_transactions p)"
    using small [of "known_ids user db" "pp_transactions p"] by (simp_all add: r(3))
  show ?thesis
    unfolding Let_def using p rows log numbered_sequences counts refused none by (intro exI conjI)
qed

text \<open>
  The numbers of the log entries are global: when another user has an entry under one of the
  numbers an import needs, the import fails with a constraint violation and nothing is stored.
\<close>

theorem import_blocked_by_other_user:
  assumes "usable_preview user token store = Inr (Portfolio_preview p)" and "live_portfolio user target db \<noteq> None"
    and "c \<in> set (ud_changes db)" and "ch_user_id c \<noteq> user"
    and "change_cursor user db < ch_sequence c"
    and "ch_sequence c \<le> change_cursor user db + int (length (new_candidates (known_ids user db) (pp_transactions p)))"
  shows "apply_portfolio_import user token target now store db = Inl IntegrityError"
proof -
  let ?ns = "new_candidates (known_ids user db) (pp_transactions p)" and ?s = "change_cursor user db"
  let ?new = "numbered_changes user target now ?s ?ns"
  define k where "k = nat (ch_sequence c - ?s - 1)"
  have "k < length ?ns" and "ch_sequence c = ?s + 1 + int k" using assms(5,6) by (simp_all add: k_def nat_less_iff)
  then have "ch_sequence c \<in> set (map ch_sequence ?new)"
    unfolding numbered_sequences by (simp only: set_map set_upt) (rule image_eqI, simp_all)
  then have "\<not> distinct (map ch_sequence (ud_changes (with_imports user target now ?s ?ns db)))"
    using assms(3) by (auto simp: with_imports_def)
  then have "\<not> user_constraints (with_imports user target now ?s ?ns db)"
    by (simp add: user_constraints_def)
  then show ?thesis unfolding apply_outcome [OF assms(1,2)] by (simp add: Let_def)
qed

text \<open>
  With the asynchronous Redis client, which the application passes, no preview can ever be applied:
  a preview that has been computed is not stored, and both operations raise \<open>TypeError\<close> whatever the
  token is.
\<close>

theorem imports_fail_with_async_client:
  "apply_portfolio_import user token target now (set_preview t p Async_redis) db = Inl TypeError \<and>
   apply_watchlist_import user token merge_mode now fresh (set_preview t p Async_redis) db = Inl TypeError"
  by (simp add: apply_portfolio_import_def apply_watchlist_import_def usable_preview_def)

end
