(* ===== verification/ImportReplay.thy ===== *)
theory ImportReplay
  imports ImportEffects
begin

text \<open>
  What the check of an import is worth: the preview replays the candidates in the order of the file,
  the stored rows are replayed in the order of their identifiers when they were executed in the same
  second. Without such ties an applied import leaves the portfolio replayable; with them it may not.
\<close>

section \<open>Replay in the order of execution\<close>

definition stored_log :: "uuid \<Rightarrow> uuid \<Rightarrow> user_db \<Rightarrow> portfolio_transaction list result" where
  "stored_log user pid db =
     rmap (stored_transaction \<lparr>sk_market = TWSE, sk_code = []\<rparr> []) (live_transactions user pid db)"

lemma sort_by_time:
  assumes "distinct (map t_executed_at ts)"
  shows "sort_key replay_order ts = sort_key t_executed_at ts"
proof (rule sym, rule sort_key_inj_key_eq)
  show "inj_on t_executed_at (set ts)" using assms by (simp add: distinct_map)
  have "sorted (map replay_order (sort_key replay_order ts))" by (rule sorted_sort_key)
  then show "sorted (map t_executed_at (sort_key replay_order ts))"
    by (simp add: sorted_map) (erule sorted_wrt_mono_rel [rotated], auto simp: replay_order_def less_eq_prod_def)
qed simp

lemma insort_key_cong: "\<forall>y \<in> set (x # xs). f y = g y \<Longrightarrow> insort_key f x xs = insort_key g x xs"
  by (induction xs) auto

lemma sort_key_cong: "\<forall>y \<in> set xs. f y = g y \<Longrightarrow> sort_key f xs = sort_key g xs"
  by (induction xs) (auto intro!: insort_key_cong)

lemma sort_key_mapped: "sort_key key (map h xs) = map h (sort_key (key \<circ> h) xs)"
proof -
  have "insort_key key (h x) (map h xs) = map h (insort_key (key \<circ> h) x xs)" for x and xs
    by (induction xs) simp_all
  then show ?thesis by (induction xs) simp_all
qed

definition same_trade :: "portfolio_transaction \<Rightarrow> portfolio_transaction \<Rightarrow> bool" where
  "same_trade t u \<longleftrightarrow> t_executed_at t = t_executed_at u \<and> t_security_id t = t_security_id u \<and>
     t_quantity_shares t = t_quantity_shares u \<and> t_side t = t_side u"

lemma covered_same_trades:
  assumes "list_all2 same_trade xs ys" and "distinct (map t_executed_at ys)"
  shows "covered (sort_key replay_order xs) \<longleftrightarrow> covered (sort_key replay_order ys)"
proof -
  let ?zs = "zip xs ys"
  have len: "length xs = length ys" using assms(1) by (rule list_all2_lengthD)
  then have proj: "map fst ?zs = xs" "map snd ?zs = ys" by simp_all
  have same: "same_trade (fst z) (snd z)" if "z \<in> set ?zs" for z
    using that assms(1) by (auto simp: list_all2_iff)
  have "map t_executed_at xs = map t_executed_at ys"
    using assms(1) by (induction rule: list_all2_induct) (simp_all add: same_trade_def)
  with assms(2) have times: "distinct (map t_executed_at xs)" by simp
  have "sort_key (t_executed_at \<circ> fst) ?zs = sort_key (t_executed_at \<circ> snd) ?zs"
    using same by (intro sort_key_cong) (simp add: same_trade_def)
  then have "sort_key t_executed_at ys = map snd (sort_key (t_executed_at \<circ> fst) ?zs)"
    using sort_key_mapped [of t_executed_at snd ?zs] proj by simp
  moreover have "sort_key t_executed_at xs = map fst (sort_key (t_executed_at \<circ> fst) ?zs)"
    using sort_key_mapped [of t_executed_at fst ?zs] proj by simp
  moreover have "list_all2 (\<lambda>t u. t_security_id t = t_security_id u \<and> signed_shares t = signed_shares u)
      (map fst (sort_key (t_executed_at \<circ> fst) ?zs)) (map snd (sort_key (t_executed_at \<circ> fst) ?zs))"
    using same by (auto simp: list_all2_map1 list_all2_map2 list_all2_same same_trade_def split: transaction_side.split)
  ultimately show ?thesis
    unfolding sort_by_time [OF times] sort_by_time [OF assms(2)] by (simp add: covered_cong)
qed

section \<open>Candidates\<close>

lemma read_shares_positive: "read_shares header row = Inr (Inr n) \<Longrightarrow> 0 < n"
  by (auto simp: read_shares_def problem_def good_def split: sum.splits if_splits)

lemma read_row_shares: "read_row db fresh header n row = Inr (Inr c) \<Longrightarrow> 0 < cd_quantity_shares c"
  by (auto simp: read_row_def good_def result_simps dest: read_shares_positive)

lemma scan_rows_shares: "c \<in> set (sc_candidates (scan_rows db fresh header rows)) \<Longrightarrow> 0 < cd_quantity_shares c"
proof -
  have "\<forall>c \<in> set (sc_candidates sc). 0 < cd_quantity_shares c \<Longrightarrow>
      \<forall>c \<in> set (sc_candidates (foldl (scan_row db fresh header) sc xs)). 0 < cd_quantity_shares c" for sc xs
  proof (induction xs arbitrary: sc)
    case (Cons x xs)
    have "\<forall>c \<in> set (sc_candidates (scan_row db fresh header sc x)). 0 < cd_quantity_shares c"
      using Cons.prems read_row_shares
      by (auto simp: scan_row_def Let_def split: prod.split sum.split)
    then show ?case by (simp add: Cons.IH)
  qed simp
  from this [of empty_scan] show "c \<in> set (sc_candidates (scan_rows db fresh header rows)) \<Longrightarrow> ?thesis"
    by (auto simp: scan_rows_def empty_scan_def)
qed

lemma accepted_preview:
  assumes "preview_portfolio_csv db fresh clock user csv (Some target) = Inr p" and "pp_invalid_rows p = 0"
    and "pp_transactions p \<noteq> []"
  shows "(\<forall>c \<in> set (pp_transactions p). 0 < cd_quantity_shares c) \<and>
    (\<exists>existing. stored_log user target db = Inr existing \<and>
       simulated_replay existing target clock (pp_transactions p) = Inr ())"
proof -
  obtain header rows sc where sc: "sc = scan_rows db fresh header rows" and
    p: "rbind (oversell_errors db user (Some target) fresh clock sc) (\<lambda>oversell.
      Inr (portfolio_preview_of user (Some target) (fresh 0) (length rows) sc (sc_errors sc @ oversell))) = Inr p"
  proof -
    obtain header rows where "read_table expected_columns csv = Inr (header, rows)"
      using assms(1) by (cases "read_table expected_columns csv") (auto simp: preview_portfolio_csv_def)
    then show thesis using assms(1) that [of _ header rows]
      by (auto simp: preview_portfolio_csv_def Let_def split: if_splits)
  qed
  then obtain oversell where o1: "oversell_errors db user (Some target) fresh clock sc = Inr oversell"
    and o2: "p = portfolio_preview_of user (Some target) (fresh 0) (length rows) sc (sc_errors sc @ oversell)"
    by (auto simp: rbind_eq_Inr)
  have none: "sc_errors sc = []" "oversell = []" using assms(2) by (simp_all add: o2 portfolio_preview_of_def)
  then have cs: "pp_transactions p = sc_candidates sc" by (simp add: o2 portfolio_preview_of_def)
  have "rbind (stored_log user target db) (\<lambda>existing.
      case simulated_replay existing target clock (sc_candidates sc) of
        Inr _ \<Rightarrow> Inr [] | Inl (AppError _ _) \<Rightarrow> Inr [(0, ''OVERSELL'')] | Inl e \<Rightarrow> Inl e) = Inr ([] :: row_errors)"
    using o1 assms(3) none cs by (simp add: oversell_errors_def stored_log_def)
  then obtain existing where existing: "stored_log user target db = Inr existing" and
    check: "(case simulated_replay existing target clock (sc_candidates sc) of
        Inr _ \<Rightarrow> Inr [] | Inl (AppError _ _) \<Rightarrow> Inr [(0, ''OVERSELL'')] | Inl e \<Rightarrow> Inl e) = Inr ([] :: row_errors)"
    unfolding rbind_eq_Inr by blast
  have "simulated_replay existing target clock (sc_candidates sc) = Inr ()"
  proof (cases "simulated_replay existing target clock (sc_candidates sc)")
    case (Inl e)
    then show ?thesis using check by (cases e) simp_all
  qed simp
  with existing have "\<exists>existing. stored_log user target db = Inr existing \<and>
      simulated_replay existing target clock (sc_candidates sc) = Inr ()" by blast
  then show ?thesis using scan_rows_shares by (auto simp: cs sc)
qed

lemma stored_imported:
  "stored_transaction key name (imported_row user target now c) =
     Inr \<lparr>t_id = cd_transaction_id c, t_portfolio_id = target, t_security_id = cd_security_id c, t_security = key,
       t_security_name = name, t_side = cd_side c, t_executed_at = cd_executed_at c,
       t_quantity_shares = cd_quantity_shares c, t_price = dec_value (cd_price c), t_fee = dec_value (cd_fee c),
       t_lot_type = cd_lot_type c, t_created_at = now, t_updated_at = now\<rparr>"
  by (simp add: stored_transaction_def imported_row_def)

lemma live_after_import:
  "live_transactions user target (with_imports user target now s ns db) =
     live_transactions user target db @ map (imported_row user target now) ns"
  by (simp add: live_transactions_def with_imports_def filter_map comp_def imported_row_def)

lemma new_candidates_length: "length (new_candidates known cs) \<le> length cs"
  by (induction cs arbitrary: known) (auto simp: le_SucI)

lemma new_candidates_subset: "set (new_candidates known cs) \<subseteq> set cs"
  by (induction cs arbitrary: known) auto

lemma new_candidates_all: "length (new_candidates known cs) = length cs \<Longrightarrow> new_candidates known cs = cs"
proof (induction cs arbitrary: known)
  case (Cons c cs)
  with new_candidates_length [of _ cs] show ?case by (auto split: if_splits) (metis Suc_n_not_le_n)
qed simp

lemma rmap_positive:
  assumes "rmap (stored_transaction key name) rows = Inr ts" and "\<forall>t \<in> set rows. 0 < tn_quantity_shares t"
  shows "positive_shares ts"
proof -
  have "0 < t_quantity_shares t" if "t \<in> set ts" for t
    using rmap_mem [OF assms(1) that] assms(2) by (auto simp: stored_transaction_def rbind_eq_Inr)
  then show ?thesis by (simp add: positive_shares_def)
qed

section \<open>Imports keep a portfolio replayable\<close>

lemma log_after_import:
  assumes "stored_log user target db = Inr existing"
  shows "\<exists>new. stored_log user target (with_imports user target now s cs db) = Inr (existing @ new) \<and>
    list_all2 same_trade (candidate_log target clock cs) new \<and> map t_executed_at new = map cd_executed_at cs \<and>
    (\<forall>t \<in> set new. \<exists>c \<in> set cs. t_quantity_shares t = cd_quantity_shares c)"
proof -
  define T where "T c = (case stored_transaction \<lparr>sk_market = TWSE, sk_code = []\<rparr> [] (imported_row user target now c) of
      Inr t \<Rightarrow> t | Inl _ \<Rightarrow> candidate_transaction target now c)" for c
  have "rmap (stored_transaction \<lparr>sk_market = TWSE, sk_code = []\<rparr> []) (map (imported_row user target now) cs) = Inr (map T cs)"
    by (induction cs) (simp_all add: stored_imported T_def)
  then have "stored_log user target (with_imports user target now s cs db) = Inr (existing @ map T cs)"
    using assms by (simp add: stored_log_def live_after_import rmap_append)
  moreover have "list_all2 same_trade (candidate_log target clock cs) (map T cs)"
    by (auto simp: candidate_log_def list_all2_conv_all_nth same_trade_def T_def stored_imported candidate_transaction_def)
  moreover have "map t_executed_at (map T cs) = map cd_executed_at cs"
    by (simp add: T_def stored_imported)
  moreover have "\<forall>t \<in> set (map T cs). \<exists>c \<in> set cs. t_quantity_shares t = cd_quantity_shares c"
    by (auto simp: T_def stored_imported)
  ultimately show ?thesis by blast
qed

lemma stored_times:
  "rmap (stored_transaction key name) rows = Inr ts \<Longrightarrow> map t_executed_at ts = map tn_executed_at rows"
  by (induction rows arbitrary: ts) (auto simp: rbind_eq_Inr stored_transaction_def)

text \<open>
  C27. A preview that was accepted for a portfolio and is applied to it leaves the portfolio replayable,
  provided that the transactions of the portfolio are those of the preview, that no row is skipped
  because its identifier is already stored, that the stored quantities are positive, and that no two
  transactions of the portfolio were executed at the same time. The rest of the database may have changed
  between the preview and its application.
\<close>

theorem import_keeps_portfolio_replayable:
  assumes "preview_portfolio_csv db fresh clock user csv (Some target) = Inr p"
    and "usable_preview user token store = Inr (Portfolio_preview p)"
    and "live_transactions user target db2 = live_transactions user target db"
    and "apply_portfolio_import user token target now store db2 = Inr (out, store', db')"
    and "0 < io_inserted_count out" and "io_skipped_count out = 0"
    and "\<forall>t \<in> set (live_transactions user target db). 0 < tn_quantity_shares t"
    and "distinct (map tn_executed_at (live_transactions user target db'))"
  shows "\<exists>ts ps. stored_log user target db' = Inr ts \<and> replay ts = Inr ps"
proof -
  let ?cs = "pp_transactions p"
  let ?ns = "new_candidates (known_ids user db2) ?cs"
  from apply_success [OF assms(4)] assms(2) have
    db': "db' = with_imports user target now (change_cursor user db2) ?ns db2" and fin: "list_all finite_amounts ?ns" and
    out: "out = \<lparr>io_inserted_count = length ?ns, io_skipped_count = length ?cs - length ?ns, io_total_transactions = length ?cs\<rparr>"
    by (auto simp: Let_def)
  have all: "?ns = ?cs"
    using assms(6) new_candidates_length [of "known_ids user db2" ?cs] by (intro new_candidates_all) (simp add: out)
  have "pp_invalid_rows p = 0" using assms(2) by (auto simp: usable_preview_def rbind_eq_Inr split: option.splits if_splits)
  moreover have "?cs \<noteq> []" using assms(5) all by (auto simp: out)
  ultimately obtain existing where shares: "\<forall>c \<in> set ?cs. 0 < cd_quantity_shares c" and
    log: "stored_log user target db = Inr existing" and sim: "simulated_replay existing target clock ?cs = Inr ()"
    using accepted_preview [OF assms(1)] by blast
  have log2: "stored_log user target db2 = Inr existing" using log assms(3) by (simp add: stored_log_def)
  obtain new where stored: "stored_log user target db' = Inr (existing @ new)" and
    same: "list_all2 same_trade (candidate_log target clock ?cs) new" and
    quantities: "\<forall>t \<in> set new. \<exists>c \<in> set ?cs. t_quantity_shares t = cd_quantity_shares c"
    using log_after_import [OF log2, of now "change_cursor user db2" ?cs clock] unfolding db' all by blast
  have old: "positive_shares existing" using log assms(7) unfolding stored_log_def by (rule rmap_positive)
  have both: "list_all2 same_trade (existing @ candidate_log target clock ?cs) (existing @ new)"
    using same by (intro list_all2_appendI) (simp_all add: list_all2_same same_trade_def)
  have pos: "positive_shares (existing @ new)" using old shares quantities by (auto simp: positive_shares_def)
  have "positive_shares (existing @ candidate_log target clock ?cs)"
    using old shares by (auto simp: positive_shares_def candidate_log_def candidate_transaction_def dest: set_zip_rightD)
  moreover have "\<exists>ps. replay (existing @ candidate_log target clock ?cs) = Inr ps"
    using sim fin unfolding all by (auto simp: simulated_replay_def rbind_eq_Inr)
  ultimately have "covered (sort_key replay_order (existing @ candidate_log target clock ?cs))"
    using replay_outcome by blast
  moreover have "distinct (map t_executed_at (existing @ new))"
    unfolding stored_times [OF stored [unfolded stored_log_def]] by (rule assms(8))
  ultimately have "covered (sort_key replay_order (existing @ new))"
    using covered_same_trades [OF both] by simp
  then show ?thesis using replay_outcome [OF pos] stored by blast
qed

text \<open>
  The preview counts a row whose identifier is already stored a second time, the application skips it:
  when the shares of such a purchase are what the sales of the file need, the preview accepts the file,
  and after its application every replay of the portfolio fails.
\<close>

theorem skipped_rows_break_portfolio:
  assumes "preview_portfolio_csv db fresh clock user csv (Some target) = Inr p"
    and "usable_preview user token store = Inr (Portfolio_preview p)" and "pp_transactions p \<noteq> []"
    and "apply_portfolio_import user token target now store db = Inr (out, store', db')"
    and "\<forall>t \<in> set (live_transactions user target db). 0 < tn_quantity_shares t"
    and "stored_log user target db = Inr existing"
    and "net_shares i (existing @ candidate_log target clock (new_candidates (known_ids user db) (pp_transactions p))) < 0"
  shows "\<exists>ts. stored_log user target db' = Inr ts \<and> replay ts = Inl insufficient_position"
proof -
  let ?ns = "new_candidates (known_ids user db) (pp_transactions p)"
  from apply_success [OF assms(4)] assms(2) have
    db': "db' = with_imports user target now (change_cursor user db) ?ns db" by (auto simp: Let_def)
  obtain new where stored: "stored_log user target db' = Inr (existing @ new)" and
    same: "list_all2 same_trade (candidate_log target clock ?ns) new" and
    quantities: "\<forall>t \<in> set new. \<exists>c \<in> set ?ns. t_quantity_shares t = cd_quantity_shares c"
    using log_after_import [OF assms(6), of now "change_cursor user db" ?ns clock] unfolding db' by blast
  have "pp_invalid_rows p = 0" using assms(2) by (auto simp: usable_preview_def rbind_eq_Inr split: option.splits if_splits)
  then have "\<forall>c \<in> set (pp_transactions p). 0 < cd_quantity_shares c" using accepted_preview [OF assms(1)] assms(3) by blast
  moreover have "set ?ns \<subseteq> set (pp_transactions p)" by (rule new_candidates_subset)
  moreover have "positive_shares existing" using assms(5,6) unfolding stored_log_def by (intro rmap_positive)
  ultimately have pos: "positive_shares (existing @ new)" using quantities by (force simp: positive_shares_def)
  have "net_shares i new = net_shares i (candidate_log target clock ?ns)"
    using same by (induction rule: list_all2_induct) (auto simp: same_trade_def split: transaction_side.split)
  with assms(7) have "net_shares i (existing @ new) < 0" by simp
  moreover have "net_shares i (sort_key replay_order (existing @ new)) = net_shares i (existing @ new)"
    by (rule net_shares_mset) simp
  ultimately have "\<not> covered (sort_key replay_order (existing @ new))"
    unfolding covered_def by (metis not_less take_all order_refl)
  then have "replay (existing @ new) = Inl insufficient_position"
    using replay_outcome [OF pos] by (cases "replay (existing @ new)") auto
  with stored show ?thesis by blast
qed

text \<open>
  Of a purchase and a sale of the same shares in the same second, the preview replays the one that
  comes first in the file first. When the purchase comes first the preview accepts them; when the
  identifier of the sale is the smaller one, every later replay of the stored transactions fails, and
  with it everything the portfolio is read for.
\<close>

theorem same_second_import_breaks_portfolio:
  assumes "preview_portfolio_csv db fresh clock user csv (Some target) = Inr p"
    and "usable_preview user token store = Inr (Portfolio_preview p)"
    and "apply_portfolio_import user token target now store db = Inr (out, store', db')"
    and "pp_transactions p = [bought, sold]" and "io_skipped_count out = 0"
    and "live_transactions user target db = []"
    and "cd_side bought = BUY" and "cd_side sold = SELL" and "cd_security_id sold = cd_security_id bought"
    and "cd_executed_at sold = cd_executed_at bought" and "cd_transaction_id sold < cd_transaction_id bought"
  shows "\<exists>ts. stored_log user target db' = Inr ts \<and> replay ts = Inl insufficient_position"
proof -
  let ?ns = "new_candidates (known_ids user db) (pp_transactions p)"
  from apply_success [OF assms(3)] assms(2) have
    db': "db' = with_imports user target now (change_cursor user db) ?ns db" and
    out: "out = \<lparr>io_inserted_count = length ?ns, io_skipped_count = length (pp_transactions p) - length ?ns,
      io_total_transactions = length (pp_transactions p)\<rparr>"
    by (auto simp: Let_def)
  have all: "?ns = [bought, sold]"
    using assms(5) new_candidates_length [of "known_ids user db" "pp_transactions p"]
      new_candidates_all [of "known_ids user db" "pp_transactions p"] by (simp add: out assms(4))
  have "pp_invalid_rows p = 0" using assms(2) by (auto simp: usable_preview_def rbind_eq_Inr split: option.splits if_splits)
  then have shares: "0 < cd_quantity_shares bought" "0 < cd_quantity_shares sold"
    using accepted_preview [OF assms(1)] assms(4) by auto
  define T where "T c = \<lparr>t_id = cd_transaction_id c, t_portfolio_id = target, t_security_id = cd_security_id c,
      t_security = \<lparr>sk_market = TWSE, sk_code = []\<rparr>, t_security_name = [], t_side = cd_side c,
      t_executed_at = cd_executed_at c, t_quantity_shares = cd_quantity_shares c, t_price = dec_value (cd_price c),
      t_fee = dec_value (cd_fee c), t_lot_type = cd_lot_type c, t_created_at = now, t_updated_at = now\<rparr>" for c :: candidate
  have log: "stored_log user target db' = Inr [T bought, T sold]"
    by (simp add: stored_log_def db' all live_after_import assms(6) stored_imported T_def)
  have "sort_key replay_order [T bought, T sold] = [T sold, T bought]"
    using assms(10,11) by (simp add: T_def replay_order_def less_eq_prod_def less_prod_def)
  moreover have "\<not> covered [T sold, T bought]"
  proof
    assume "covered [T sold, T bought]"
    then have "0 \<le> net_shares (cd_security_id bought) (take 1 [T sold, T bought])" by (simp only: covered_def)
    then show False using shares assms(8,9) by (simp add: T_def)
  qed
  moreover have "positive_shares [T bought, T sold]" using shares by (simp add: positive_shares_def T_def)
  ultimately have "replay [T bought, T sold] = Inl insufficient_position"
    using replay_outcome [of "[T bought, T sold]"] by (cases "replay [T bought, T sold]") auto
  with log show ?thesis by blast
qed

end
