(* ===== verification/ExportFiles.thy ===== *)
theory ExportFiles
  imports ImportReplay
begin

text \<open>
  The exports and the report of \<open>app/services/import_export.py\<close>: the files of transactions and of
  watchlists as texts, and the figures of the holdings, the summary and the PDF report, which rest on a
  replay of the stored transactions. \<open>now\<close>, which the summary and the report print, and the layout of the
  PDF are left out; a figure is the value that is formatted.
\<close>

section \<open>Transactions\<close>

definition require_user_portfolio :: "uuid \<Rightarrow> uuid \<Rightarrow> user_db \<Rightarrow> portfolio_row result" where
  "require_user_portfolio user pid db =
     (case live_portfolio user pid db of None \<Rightarrow> Inl (AppError ''PORTFOLIO_NOT_FOUND'' 404) | Some p \<Rightarrow> Inr p)"

definition row_order :: "transaction_row \<Rightarrow> instant \<times> instant \<times> uuid" where
  "row_order t = (tn_executed_at t, tn_created_at t, tn_id t)"

definition ordered_transactions :: "uuid \<Rightarrow> uuid \<Rightarrow> user_db \<Rightarrow> transaction_row list" where
  "ordered_transactions user pid db = sort_key row_order (live_transactions user pid db)"

definition security_of :: "user_db \<Rightarrow> uuid \<Rightarrow> listed_security option" where
  "security_of db i = find (\<lambda>s. ls_id s = i) (ud_securities db)"

definition portfolio_csv_header :: "string list" where
  "portfolio_csv_header =
     [''format_version'', ''transaction_id'', ''portfolio_name'', ''market'', ''code'', ''side'', ''trade_date'',
      ''trade_time'', ''shares'', ''price'', ''fee'', ''lot_type'']"

definition transaction_line :: "user_db \<Rightarrow> portfolio_row \<Rightarrow> transaction_row \<Rightarrow> string list" where
  "transaction_line db pf t =
     (let sec = security_of db (tn_security_id t); local = tn_executed_at t + taipei_offset in
      [''twml-portfolio-csv-v1'', uuid_text (tn_id t), escape_formula (Some (po_name pf)),
       resolve_market_code (ud_markets db) sec, (case sec of None \<Rightarrow> [] | Some s \<Rightarrow> ls_code s), tn_side t,
       date_text local, clock_text local, int_text (tn_quantity_shares t), places_text 8 (tn_price t),
       places_text 8 (tn_fee t), tn_lot_type t])"

definition export_portfolio_transactions_csv :: "uuid \<Rightarrow> uuid \<Rightarrow> user_db \<Rightarrow> string result" where
  "export_portfolio_transactions_csv user pid db =
     rbind (require_user_portfolio user pid db) (\<lambda>pf.
       Inr (byte_order_mark @
         csv_write (portfolio_csv_header # map (transaction_line db pf) (ordered_transactions user pid db))))"

section \<open>Watchlists\<close>

definition watchlist_csv_header :: "string list" where
  "watchlist_csv_header =
     [''format_version'', ''group_id'', ''group_name'', ''group_order'', ''market'', ''code'', ''item_order'', ''note'',
      ''target_price'', ''stop_price'', ''add_price'']"

text \<open>A price as the database returns it.\<close>

definition price_text :: "py_dec option \<Rightarrow> string" where
  "price_text d = (case d of None \<Rightarrow> [] | Some DNaN \<Rightarrow> ''NaN'' | Some (DInfinity n) \<Rightarrow> dec_text (DInfinity n)
     | Some (DNumber n c e) \<Rightarrow> places_text 8 (dec_value (DNumber n c e)))"

definition item_line :: "user_db \<Rightarrow> watchlist_row \<Rightarrow> listed_security \<Rightarrow> item_row \<Rightarrow> string list" where
  "item_line db g sec i =
     [''twml-watchlist-csv-v1'', uuid_text (wl_id g), escape_formula (Some (wl_name g)), int_text (wl_sort_order g),
      resolve_market_code (ud_markets db) (Some sec), ls_code sec, int_text (wi_sort_order i),
      escape_formula (wi_note i), price_text (wi_target_price i), price_text (wi_stop_price i), price_text (wi_add_price i)]"

definition export_watchlists_csv :: "uuid \<Rightarrow> user_db \<Rightarrow> string" where
  "export_watchlists_csv user db =
     (let groups = filter (live_watchlist user) (ud_watchlists db);
          items = sort_key (\<lambda>i. (wi_watchlist_id i, wi_sort_order i))
                    (filter (\<lambda>i. wi_user_id i = Some user \<and> wi_deleted_at i = None) (ud_items db))
      in byte_order_mark @ csv_write (watchlist_csv_header #
           List.map_filter (\<lambda>i. case (find (\<lambda>g. wl_id g = wi_watchlist_id i) groups, security_of db (wi_security_id i)) of
               (Some g, Some sec) \<Rightarrow> Some (item_line db g sec i) | _ \<Rightarrow> None) items))"

section \<open>Holdings, summary and report\<close>

text \<open>\<open>SecurityModel\<close> declares no attribute \<open>market\<close>: reading it raises.\<close>

definition security_market :: "listed_security \<Rightarrow> string result" where
  "security_market sec = Inl AttributeError"

definition domain_transaction :: "user_db \<Rightarrow> transaction_row \<Rightarrow> portfolio_transaction result" where
  "domain_transaction db t =
     (case security_of db (tn_security_id t) of
        None \<Rightarrow> stored_transaction \<lparr>sk_market = TWSE, sk_code = []\<rparr> [] t
      | Some sec \<Rightarrow> rbind (security_market sec) (\<lambda>market.
          stored_transaction \<lparr>sk_market = market_of_text market, sk_code = ls_code sec\<rparr> (ls_name sec) t))"

definition replayed_positions :: "uuid \<Rightarrow> uuid \<Rightarrow> user_db \<Rightarrow> portfolio_position list result" where
  "replayed_positions user pid db = rbind (rmap (domain_transaction db) (ordered_transactions user pid db)) replay"

text \<open>The close of the latest day, which may be missing.\<close>

definition latest_close :: "user_db \<Rightarrow> uuid \<Rightarrow> decimal option" where
  "latest_close db sec =
     (case rev (sort_key cl_trade_date (filter (\<lambda>r. cl_security_id r = sec) (ud_closes db))) of
        [] \<Rightarrow> None | r # _ \<Rightarrow> cl_close r)"

definition market_value :: "user_db \<Rightarrow> portfolio_position \<Rightarrow> decimal option" where
  "market_value db p = map_option (\<lambda>c. dmul prec c (of_int (p_quantity_shares p))) (latest_close db (p_security_id p))"

definition unrealized :: "user_db \<Rightarrow> portfolio_position \<Rightarrow> decimal option" where
  "unrealized db p = map_option (\<lambda>v. dsub prec v (p_cost_basis p)) (market_value db p)"

record holding_line =
  hl_position :: portfolio_position
  hl_latest_price :: "decimal option"
  hl_market_value :: "decimal option"
  hl_unrealized_pnl :: "decimal option"
  hl_unrealized_pnl_pct :: "decimal option"

definition holding_line_of :: "user_db \<Rightarrow> portfolio_position \<Rightarrow> holding_line result" where
  "holding_line_of db p =
     rbind (case unrealized db p of
              Some u \<Rightarrow> if 0 < p_cost_basis p
                then rbind (ddiv prec u (p_cost_basis p)) (\<lambda>q. Inr (Some (dmul prec q 100))) else Inr None
            | None \<Rightarrow> Inr None) (\<lambda>pct.
       Inr \<lparr>hl_position = p, hl_latest_price = latest_close db (p_security_id p), hl_market_value = market_value db p,
            hl_unrealized_pnl = unrealized db p, hl_unrealized_pnl_pct = pct\<rparr>)"

definition export_portfolio_holdings_csv :: "uuid \<Rightarrow> uuid \<Rightarrow> user_db \<Rightarrow> holding_line list result" where
  "export_portfolio_holdings_csv user pid db =
     rbind (require_user_portfolio user pid db) (\<lambda>_.
     rbind (replayed_positions user pid db) (\<lambda>positions.
       rmap (holding_line_of db) (filter (\<lambda>p. p_quantity_shares p \<noteq> 0) positions)))"

record summary_line =
  sl_portfolio_name :: string
  sl_total_cost :: decimal
  sl_market_value :: "decimal option"
  sl_realized_pnl :: decimal
  sl_unrealized_pnl :: "decimal option"
  sl_total_pnl :: decimal
  sl_position_count :: nat
  sl_final :: bool

definition export_portfolio_summary_csv :: "uuid \<Rightarrow> uuid \<Rightarrow> user_db \<Rightarrow> summary_line result" where
  "export_portfolio_summary_csv user pid db =
     rbind (require_user_portfolio user pid db) (\<lambda>pf.
     rbind (replayed_positions user pid db) (\<lambda>positions.
       let held = filter (\<lambda>p. 0 < p_quantity_shares p) positions;
           total_cost = dsum prec (map p_cost_basis held);
           realized = dsum prec (map p_realized_pnl positions);
           vs = List.map_filter (market_value db) held;
           total = foldl (dadd prec) 0 vs;
           has_prices = list_all (\<lambda>p. market_value db p \<noteq> None) held;
           open_pnl = (if has_prices then Some (dsub prec total total_cost) else None)
       in Inr \<lparr>sl_portfolio_name = escape_formula (Some (po_name pf)), sl_total_cost = total_cost,
            sl_market_value = (if has_prices then Some total else None), sl_realized_pnl = realized,
            sl_unrealized_pnl = open_pnl, sl_total_pnl = dadd prec realized (case open_pnl of None \<Rightarrow> 0 | Some u \<Rightarrow> u),
            sl_position_count = length held, sl_final = has_prices\<rparr>))"

record portfolio_report =
  rp_portfolio_name :: string
  rp_total_cost :: decimal
  rp_total_market_value :: decimal
  rp_total_realized :: decimal
  rp_total_unrealized :: decimal
  rp_holdings :: "(portfolio_position \<times> decimal option \<times> decimal option \<times> decimal option) list"

text \<open>A holding without a price counts with its cost but without a value.\<close>

definition generate_portfolio_pdf_report :: "uuid \<Rightarrow> uuid \<Rightarrow> user_db \<Rightarrow> portfolio_report result" where
  "generate_portfolio_pdf_report user pid db =
     rbind (require_user_portfolio user pid db) (\<lambda>pf.
     rbind (replayed_positions user pid db) (\<lambda>positions.
       let held = filter (\<lambda>p. p_quantity_shares p \<noteq> 0) positions;
           cost = dsum prec (map p_cost_basis held);
           total = dsum prec (List.map_filter (market_value db) held)
       in Inr \<lparr>rp_portfolio_name = po_name pf, rp_total_cost = cost, rp_total_market_value = total,
            rp_total_realized = dsum prec (map p_realized_pnl positions),
            rp_total_unrealized = (if held = [] then 0 else dsub prec total cost),
            rp_holdings = map (\<lambda>p. (p, latest_close db (p_security_id p), market_value db p, unrealized db p)) held\<rparr>))"

section \<open>The statements raise\<close>

lemma replayed_raises:
  assumes "t \<in> set (live_transactions user pid db)"
    and "\<forall>t \<in> set (live_transactions user pid db). security_of db (tn_security_id t) \<noteq> None"
  shows "replayed_positions user pid db = Inl AttributeError"
proof -
  have all: "\<forall>u \<in> set (ordered_transactions user pid db). domain_transaction db u = Inl AttributeError"
    using assms(2) by (auto simp: ordered_transactions_def domain_transaction_def security_market_def)
  have "ordered_transactions user pid db \<noteq> []"
    using assms(1) by (metis empty_iff empty_set ordered_transactions_def set_sort)
  then obtain u us where "ordered_transactions user pid db = u # us" by (cases "ordered_transactions user pid db") auto
  with all show ?thesis by (simp add: replayed_positions_def)
qed

text \<open>
  For a portfolio with any transaction, whose security exists, neither the holdings nor the summary
  nor the report can be produced: all three read an attribute of the security that its model does not
  have. The transactions themselves are exported.
\<close>

theorem statements_raise_for_any_transaction:
  assumes "live_portfolio user pid db = Some pf" and "t \<in> set (live_transactions user pid db)"
    and "user_constraints db"
  shows "export_portfolio_holdings_csv user pid db = Inl AttributeError \<and>
    export_portfolio_summary_csv user pid db = Inl AttributeError \<and>
    generate_portfolio_pdf_report user pid db = Inl AttributeError \<and>
    (\<exists>file. export_portfolio_transactions_csv user pid db = Inr file)"
proof -
  have "security_of db (tn_security_id u) \<noteq> None" if "u \<in> set (live_transactions user pid db)" for u
  proof -
    have "u \<in> set (ud_transactions db)" using that by (simp add: live_transactions_def)
    then have "tn_security_id u \<in> ls_id ` set (ud_securities db)" using assms(3) by (simp add: user_constraints_def)
    then show ?thesis by (auto simp: security_of_def find_None_iff)
  qed
  then have "replayed_positions user pid db = Inl AttributeError" using replayed_raises [OF assms(2)] by blast
  with assms(1) show ?thesis
    by (simp add: export_portfolio_holdings_csv_def export_portfolio_summary_csv_def generate_portfolio_pdf_report_def
        export_portfolio_transactions_csv_def require_user_portfolio_def)
qed

end
