(* ===== verification/ExportImport.thy ===== *)
theory ExportImport
  imports ExportFiles
begin

text \<open>
  The file of transactions read back by the import: every text is recognised as the value it was written
  from, so the preview of an exported file shows the stored transactions.
\<close>

section \<open>Reading the columns of an exported file\<close>

lemma csv_header_read: "map (\<lambda>c. lower (strip c)) portfolio_csv_header = portfolio_csv_header"
  by code_simp

lemma csv_header_columns: "list_all (\<lambda>c. c \<in> set portfolio_csv_header) expected_columns"
  by code_simp

lemma csv_header_length: "length portfolio_csv_header = 12"
  by (simp add: portfolio_csv_header_def)

definition column_at :: "string \<Rightarrow> nat \<Rightarrow> bool" where
  "column_at name i \<longleftrightarrow> map_of (rev (zip portfolio_csv_header [0..<length portfolio_csv_header])) name = Some i \<and>
     name \<in> set portfolio_csv_header"

lemma columns:
  "column_at ''transaction_id'' 1" "column_at ''market'' 3" "column_at ''code'' 4" "column_at ''side'' 5"
  "column_at ''trade_date'' 6" "column_at ''trade_time'' 7" "column_at ''shares'' 8" "column_at ''price'' 9"
  "column_at ''fee'' 10" "column_at ''lot_type'' 11"
  by code_simp+

lemma cell_at: "column_at name i \<Longrightarrow> i < length row \<Longrightarrow> cell portfolio_csv_header row name = Inr (row ! i)"
  by (simp add: column_at_def cell_def)

lemma optional_at:
  "column_at name i \<Longrightarrow> i < length row \<Longrightarrow> optional_cell portfolio_csv_header row name = Inr (strip (row ! i))"
  using cell_at by (simp add: optional_cell_def) (simp add: column_at_def)

section \<open>Texts without white space\<close>

lemma int_text_no_space: "c \<in> set (int_text i) \<Longrightarrow> \<not> is_space c"
  using nat_text_digits digit_not_space [of c] by (auto simp: int_text_def is_space_def split: if_splits)

lemma date_text_no_space: "c \<in> set (date_text local) \<Longrightarrow> \<not> is_space c"
  using nat_text_digits fixed_digits_digits digit_not_space [of c]
  by (auto simp: date_text_def Let_def is_space_def simp del: fixed_digits.simps)

lemma clock_text_no_space: "c \<in> set (clock_text local) \<Longrightarrow> \<not> is_space c"
  using fixed_digits_digits digit_not_space [of c]
  by (auto simp: clock_text_def Let_def is_space_def simp del: fixed_digits.simps)

lemma stripped_texts:
  "strip (uuid_text u) = uuid_text u" "strip (int_text i) = int_text i" "strip (date_text l) = date_text l"
  "strip (clock_text l) = clock_text l" "strip (places_text k q) = places_text k q"
  using uuid_text_no_space int_text_no_space date_text_no_space clock_text_no_space places_text_no_space
  by (auto intro!: strip_id)

lemma clock_text_nonempty: "clock_text l \<noteq> []"
  by (simp add: clock_text_def Let_def)

lemma number_plain:
  "number_of_text negative (nat_text n) = Some (DNumber negative n 0)"
proof -
  let ?w = "nat_text n"
  have w: "\<forall>c \<in> set ?w. is_digit_char c" using nat_text_digits by blast
  have mantissa: "takeWhile (\<lambda>c. c \<noteq> CHR ''e'' \<and> c \<noteq> CHR ''E'') ?w = ?w"
    using w by (intro takeWhile_eq_all_conv [THEN iffD2]) auto
  have whole: "takeWhile is_digit_char ?w = ?w" using w by (simp add: takeWhile_eq_all_conv)
  show ?thesis unfolding number_of_text_def Let_def mantissa whole by (simp add: exponent_of_def)
qed

lemma shares_text: "0 < i \<Longrightarrow> decimal_of_text (int_text i) = Some (DNumber False (nat i) 0)"
proof -
  assume i: "0 < i"
  then have t: "int_text i = nat_text (nat i)" by (simp add: int_text_def)
  have plain: "\<not> is_space c \<and> c \<noteq> CHR ''_''" if "c \<in> set (nat_text n)" for c n
    using that nat_text_digits [of c n] digit_not_space [of c] digit_ne(6) [of c] by auto
  then have f: "filter (\<lambda>c. c \<noteq> CHR ''_'') (strip (nat_text n)) = nat_text n" for n by (simp add: strip_id)
  obtain c s where cs: "nat_text (nat i) = c # s" by (cases "nat_text (nat i)") simp_all
  then have c: "is_digit_char c" using nat_text_digits [of c "nat i"] by simp
  then have "signed (nat_text (nat i)) = (False, nat_text (nat i))"
    using digit_ne [of c] by (simp add: signed_def cs)
  moreover have "lower_char c = c" "c \<noteq> CHR ''i''" "c \<noteq> CHR ''n''" "c \<noteq> CHR ''s''"
    using c digit_lower by (auto simp: is_digit_char_def)
  ultimately show ?thesis
    using number_plain [of False "nat i"] f [of "nat i"] by (simp add: t decimal_of_text_def lower_def cs)
qed

section \<open>An exported line\<close>

text \<open>What a stored transaction must satisfy for its line to be read back.\<close>

definition exportable :: "user_db \<Rightarrow> portfolio_row \<Rightarrow> transaction_row \<Rightarrow> bool" where
  "exportable db pf t \<longleftrightarrow>
     (case security_of db (tn_security_id t) of None \<Rightarrow> False
      | Some sec \<Rightarrow>
          (let market = resolve_market_code (ud_markets db) (Some sec); code = ls_code sec in
           market \<noteq> [] \<and> upper (strip market) = market \<and> upper (strip code) = code \<and>
           security_by_pair db market code = Some sec)) \<and>
     tn_side t \<in> {''BUY'', ''SELL''} \<and> 0 < tn_quantity_shares t \<and>
     has_places 8 (tn_price t) \<and> 0 < tn_price t \<and> has_places 8 (tn_fee t) \<and> 0 \<le> tn_fee t \<and> tn_id t < 2 ^ 128 \<and>
     tn_executed_at t mod 1000000 = 0 \<and> min_instant \<le> tn_executed_at t \<and>
     1000 \<le> ord2year (local_date (tn_executed_at t + taipei_offset)) \<and>
     ord2year (local_date (tn_executed_at t + taipei_offset)) \<le> 9999 \<and>
     list_all (\<lambda>f. length f \<le> field_limit) (transaction_line db pf t)"

definition exported_candidate :: "user_db \<Rightarrow> nat \<Rightarrow> transaction_row \<Rightarrow> candidate" where
  "exported_candidate db n t =
     (let sec = the (security_of db (tn_security_id t)) in
      \<lparr>cd_row_number = n, cd_transaction_id = tn_id t, cd_security_id = ls_id sec,
       cd_market = resolve_market_code (ud_markets db) (Some sec), cd_code = ls_code sec, cd_name = ls_name sec,
       cd_side = (if tn_side t = ''BUY'' then BUY else SELL), cd_executed_at = tn_executed_at t,
       cd_quantity_shares = tn_quantity_shares t, cd_price = places_dec 8 (tn_price t), cd_fee = places_dec 8 (tn_fee t),
       cd_lot_type = (if tn_lot_type t = ''BOARD_LOT'' then BOARD_LOT else ODD_LOT)\<rparr>)"

lemma side_upper: "upper (strip ''BUY'') = ''BUY''" "upper (strip ''SELL'') = ''SELL''"
  by code_simp+

lemma lot_upper: "upper (strip ''BOARD_LOT'') = ''BOARD_LOT''" "upper (strip ''ODD_LOT'') = ''ODD_LOT''"
  "upper (strip ''ROUND_LOT'') = ''ROUND_LOT''" "strip ''BOARD_LOT'' \<noteq> []" "strip ''ODD_LOT'' \<noteq> []" "strip ''ROUND_LOT'' \<noteq> []"
  by code_simp+

lemma taipei_back: "local - taipei_offset = t \<Longrightarrow> min_instant \<le> t \<Longrightarrow> taipei_to_utc local = Inr t"
  by (simp add: taipei_to_utc_def)

lemma read_exported:
  assumes ok: "exportable db pf t" and lot: "tn_lot_type t \<in> {''BOARD_LOT'', ''ODD_LOT'', ''ROUND_LOT''}"
  shows "read_row db fresh portfolio_csv_header n (transaction_line db pf t) =
    (if tn_lot_type t \<in> {''BOARD_LOT'', ''ODD_LOT''} then Inr (Inr (exported_candidate db n t))
     else Inr (Inl ''INVALID_LOT_TYPE''))"
proof -
  obtain sec where sec: "security_of db (tn_security_id t) = Some sec"
    using ok by (auto simp: exportable_def split: option.splits)
  let ?m = "resolve_market_code (ud_markets db) (Some sec)" and ?c = "ls_code sec" and ?h = portfolio_csv_header
    and ?row = "transaction_line db pf t" and ?local = "tn_executed_at t + taipei_offset"
  have m: "?m \<noteq> []" "upper (strip ?m) = ?m" "upper (strip ?c) = ?c" "security_by_pair db ?m ?c = Some sec"
    using ok sec by (simp_all add: exportable_def Let_def)
  have row: "?row = [''twml-portfolio-csv-v1'', uuid_text (tn_id t), escape_formula (Some (po_name pf)), ?m, ?c, tn_side t,
      date_text ?local, clock_text ?local, int_text (tn_quantity_shares t), places_text 8 (tn_price t),
      places_text 8 (tn_fee t), tn_lot_type t]"
    by (simp add: transaction_line_def sec Let_def)
  have cells: "cell ?h ?row ''market'' = Inr ?m" "cell ?h ?row ''code'' = Inr ?c" "cell ?h ?row ''side'' = Inr (tn_side t)"
    "cell ?h ?row ''trade_date'' = Inr (date_text ?local)" "cell ?h ?row ''shares'' = Inr (int_text (tn_quantity_shares t))"
    "cell ?h ?row ''price'' = Inr (places_text 8 (tn_price t))"
    using columns(2,3,4,5,7,8) [THEN cell_at, of ?row] by (simp_all add: row)
  have opts: "optional_cell ?h ?row ''transaction_id'' = Inr (uuid_text (tn_id t))"
    "optional_cell ?h ?row ''trade_time'' = Inr (clock_text ?local)"
    "optional_cell ?h ?row ''fee'' = Inr (places_text 8 (tn_fee t))"
    "optional_cell ?h ?row ''lot_type'' = Inr (strip (tn_lot_type t))"
    using columns(1,6,9,10) [THEN optional_at, of ?row] by (simp_all add: row stripped_texts)
  have "uuid_text (tn_id t) \<noteq> []" using uuid_round_trip [of "tn_id t"] ok by (auto simp: uuid_text_def Let_def)
  moreover have "uuid_of_text (uuid_text (tn_id t)) = Some (tn_id t)" using ok by (intro uuid_round_trip) (simp add: exportable_def)
  ultimately have r1: "read_id ?h ?row (fresh n) = good (tn_id t)" by (simp add: read_id_def opts)
  have r2: "read_side ?h ?row = good (if tn_side t = ''BUY'' then BUY else SELL)"
    using ok side_upper by (auto simp: read_side_def cells exportable_def)
  have "?local mod 1000000 = 0" using ok by (simp add: exportable_def taipei_offset_def time_units mod_add_eq [symmetric])
  then have "strptime (date_text ?local @ '' '' @ clock_text ?local) = Some ?local"
    using ok by (intro strptime_round_trip) (simp_all add: exportable_def)
  moreover have "taipei_to_utc ?local = Inr (tn_executed_at t)" using ok by (intro taipei_back) (simp_all add: exportable_def)
  ultimately have r3: "read_time ?h ?row = good (tn_executed_at t)"
    by (simp add: read_time_def cells opts stripped_texts clock_text_nonempty good_def)
  have r4: "read_shares ?h ?row = good (tn_quantity_shares t)"
    using ok by (simp add: read_shares_def cells stripped_texts shares_text exportable_def)
  have v: "dec_value (places_dec 8 (tn_price t)) = tn_price t" "dec_value (places_dec 8 (tn_fee t)) = tn_fee t"
    using ok by (simp_all add: exportable_def places_dec_value)
  have r5: "read_price ?h ?row = good (places_dec 8 (tn_price t))"
    using ok v by (simp add: read_price_def cells read_amount_def stripped_texts decimal_round_trip exportable_def)
      (simp add: places_dec_def)
  have "places_text 8 (tn_fee t) \<noteq> []" by (simp add: places_text_def)
  then have r6: "read_fee ?h ?row = good (places_dec 8 (tn_fee t))"
    using ok v by (simp add: read_fee_def opts read_amount_def stripped_texts decimal_round_trip exportable_def)
      (simp add: places_dec_def)
  have r7: "read_security db (upper (strip ?m)) (upper (strip ?c)) = good sec"
    using m by (simp add: read_security_def)
  have r8: "read_lot ?h ?row = (if tn_lot_type t = ''BOARD_LOT'' then good BOARD_LOT else good ODD_LOT)"
    if "tn_lot_type t \<in> {''BOARD_LOT'', ''ODD_LOT''}"
    using that lot_upper by (auto simp: read_lot_def opts)
  show ?thesis
  proof (cases "tn_lot_type t \<in> {''BOARD_LOT'', ''ODD_LOT''}")
    case True
    show ?thesis
      unfolding read_row_def r1 r2 r3 r4 r5 r6 cells using True
      by (simp add: rcheck_def good_def r7 [unfolded good_def] r8 [OF True] exported_candidate_def sec)
  next
    case False
    then have "read_lot ?h ?row = problem ''INVALID_LOT_TYPE''" using lot lot_upper by (auto simp: read_lot_def opts)
    then show ?thesis
      unfolding read_row_def r1 r2 r3 r4 r5 r6 cells using False by (simp add: rcheck_def good_def problem_def)
  qed
qed

lemma exported_not_blank: "\<not> blank_row (transaction_line db pf t)"
proof -
  have "strip ''twml-portfolio-csv-v1'' \<noteq> []" by code_simp
  then show ?thesis by (simp add: blank_row_def transaction_line_def Let_def)
qed

section \<open>An exported file\<close>

text \<open>The lot types the import accepts, and those a transaction can have.\<close>

definition importable_lot :: "transaction_row \<Rightarrow> bool" where
  "importable_lot t \<longleftrightarrow> tn_lot_type t \<in> {''BOARD_LOT'', ''ODD_LOT''}"

definition known_lot :: "transaction_row \<Rightarrow> bool" where
  "known_lot t \<longleftrightarrow> tn_lot_type t \<in> {''BOARD_LOT'', ''ODD_LOT'', ''ROUND_LOT''}"

lemma scan_exported:
  assumes "\<forall>t \<in> set ts. exportable db pf t \<and> known_lot t"
    and "length ns = length ts"
  shows "let sc' = foldl (scan_row db fresh portfolio_csv_header) sc (zip ns (map (transaction_line db pf) ts)) in
    sc_candidates sc' = sc_candidates sc @
      map (\<lambda>(n, t). exported_candidate db n t) (filter (\<lambda>(n, t). importable_lot t) (zip ns ts)) \<and>
    sc_errors sc' = sc_errors sc @
      map (\<lambda>(n, t). (n, ''INVALID_LOT_TYPE'')) (filter (\<lambda>(n, t). \<not> importable_lot t) (zip ns ts))"
  using assms
proof (induction ts arbitrary: ns sc)
  case (Cons t ts)
  then obtain n ns' where ns: "ns = n # ns'" by (cases ns) auto
  have "read_row db fresh portfolio_csv_header n (transaction_line db pf t) =
    (if importable_lot t then Inr (Inr (exported_candidate db n t)) else Inr (Inl ''INVALID_LOT_TYPE''))"
    using Cons.prems read_exported [of db pf t fresh n] by (simp add: importable_lot_def known_lot_def)
  then have step: "sc_candidates (scan_row db fresh portfolio_csv_header sc (n, transaction_line db pf t)) =
      sc_candidates sc @ (if importable_lot t then [exported_candidate db n t] else [])"
    "sc_errors (scan_row db fresh portfolio_csv_header sc (n, transaction_line db pf t)) =
      sc_errors sc @ (if importable_lot t then [] else [(n, ''INVALID_LOT_TYPE'')])"
    by (simp_all add: scan_row_def exported_not_blank Let_def)
  have "let sc' = foldl (scan_row db fresh portfolio_csv_header)
        (scan_row db fresh portfolio_csv_header sc (n, transaction_line db pf t)) (zip ns' (map (transaction_line db pf) ts)) in
    sc_candidates sc' = sc_candidates (scan_row db fresh portfolio_csv_header sc (n, transaction_line db pf t)) @
      map (\<lambda>(n, t). exported_candidate db n t) (filter (\<lambda>(n, t). importable_lot t) (zip ns' ts)) \<and>
    sc_errors sc' = sc_errors (scan_row db fresh portfolio_csv_header sc (n, transaction_line db pf t)) @
      map (\<lambda>(n, t). (n, ''INVALID_LOT_TYPE'')) (filter (\<lambda>(n, t). \<not> importable_lot t) (zip ns' ts))"
    by (rule Cons.IH) (use Cons.prems ns in simp_all)
  then show ?case unfolding ns step Let_def by simp
qed simp

lemma marks_dropped: "drop_marks (byte_order_mark @ csv_write (portfolio_csv_header # rows)) = csv_write (portfolio_csv_header # rows)"
proof -
  have head: "take 3 (csv_row portfolio_csv_header) = ''for''" by code_simp
  then obtain s where "csv_row portfolio_csv_header = CHR ''f'' # CHR ''o'' # CHR ''r'' # s"
    by (cases "csv_row portfolio_csv_header" rule: drop_marks.cases) auto
  then show ?thesis by (simp add: byte_order_mark_def csv_write_def)
qed

lemma read_exported_table:
  assumes "\<forall>t \<in> set ts. exportable db pf t"
    and "length (byte_order_mark @ csv_write (portfolio_csv_header # map (transaction_line db pf) ts)) \<le> max_upload_size"
  shows "read_table expected_columns (byte_order_mark @ csv_write (portfolio_csv_header # map (transaction_line db pf) ts)) =
    Inr (portfolio_csv_header, map (transaction_line db pf) ts)"
proof -
  have "\<forall>f \<in> set portfolio_csv_header. length f \<le> 20" by (simp add: portfolio_csv_header_def)
  then have "\<forall>f \<in> set portfolio_csv_header. length f \<le> field_limit" by (auto simp: field_limit_def)
  then have "csv_read (csv_write (portfolio_csv_header # map (transaction_line db pf) ts)) =
      Some (portfolio_csv_header # map (transaction_line db pf) ts)"
    using assms(1) by (intro csv_round_trip) (simp add: exportable_def list_all_iff)
  moreover have "set expected_columns \<subseteq> set portfolio_csv_header" using csv_header_columns by (auto simp: list_all_iff)
  ultimately show ?thesis
    using assms(2) unfolding read_table_def marks_dropped by (simp add: csv_header_read Let_def not_less)
qed

section \<open>The replay of an exported file\<close>

lemma rmap_sort:
  assumes "rmap f xs = Inr ys" and "\<And>x y. x \<in> set xs \<Longrightarrow> f x = Inr y \<Longrightarrow> k' y = k x"
  shows "rmap f (sort_key k xs) = Inr (sort_key k' ys)"
proof -
  define g where "g x = projr (f x)" for x
  have f: "f x = Inr (g x)" if "x \<in> set xs" for x using rmap_defined [OF assms(1) that] by (auto simp: g_def)
  then have ys: "ys = map g xs" using rmap_total [of xs f g] assms(1) by simp
  have "rmap f (sort_key k xs) = Inr (map g (sort_key k xs))" by (rule rmap_total) (simp add: f)
  moreover have "sort_key k xs = sort_key (k' \<circ> g) xs" using assms(2) f by (intro sort_key_cong) simp
  ultimately show ?thesis by (simp only: ys sort_key_mapped)
qed

lemma exported_candidate_fields:
  assumes "exportable db pf t"
  shows "cd_security_id (exported_candidate db n t) = tn_security_id t"
    and "cd_quantity_shares (exported_candidate db n t) = tn_quantity_shares t"
    and "cd_executed_at (exported_candidate db n t) = tn_executed_at t"
    and "side_of_text (tn_side t) = Inr (cd_side (exported_candidate db n t))"
    and "finite_amounts (exported_candidate db n t)"
proof -
  obtain sec where sec: "security_of db (tn_security_id t) = Some sec"
    using assms by (auto simp: exportable_def split: option.splits)
  then have "ls_id sec = tn_security_id t" by (auto simp: security_of_def find_Some_iff)
  then show "cd_security_id (exported_candidate db n t) = tn_security_id t"
    by (simp add: exported_candidate_def sec)
qed (use assms in \<open>auto simp: exported_candidate_def Let_def exportable_def side_of_text_def finite_amounts_def amount_of_def places_dec_def\<close>)

lemma stored_fields:
  "stored_transaction key name t = Inr u \<Longrightarrow> t_security_id u = tn_security_id t \<and>
     t_quantity_shares u = tn_quantity_shares t \<and> side_of_text (tn_side t) = Inr (t_side u)"
  by (auto simp: stored_transaction_def rbind_eq_Inr)

lemma exported_log_replays:
  assumes ok: "\<forall>t \<in> set (live_transactions user pid db). exportable db pf t"
    and log: "stored_log user pid db = Inr ts" "replay ts = Inr ps" and clock: "\<And>i j. i < j \<Longrightarrow> clock i < clock j"
    and cs: "cs = map (\<lambda>(n, t). exported_candidate db n t) (zip ns (ordered_transactions user pid db))"
    and len: "length ns = length (ordered_transactions user pid db)"
  shows "simulated_replay [] q clock cs = Inr ()"
proof -
  let ?rows = "ordered_transactions user pid db"
  have rows: "\<forall>t \<in> set ?rows. exportable db pf t" using ok by (simp add: ordered_transactions_def)
  have sorted_rows: "rmap (stored_transaction \<lparr>sk_market = TWSE, sk_code = []\<rparr> []) ?rows = Inr (sort_key replay_order ts)"
    unfolding ordered_transactions_def using log(1)
    by (intro rmap_sort) (auto simp: stored_log_def stored_transaction_def rbind_eq_Inr row_order_def replay_order_def)
  have pos: "positive_shares ts"
    using log(1) ok unfolding stored_log_def by (intro rmap_positive) (auto simp: exportable_def)
  then have cov: "covered (sort_key replay_order ts)" using replay_outcome log(2) by blast
  let ?log = "candidate_log q clock cs"
  have lcs: "length cs = length ?rows" by (simp add: cs len)
  have nth: "?log ! i = candidate_transaction q (clock i) (exported_candidate db (ns ! i) (?rows ! i))" if "i < length ?rows" for i
    using that len lcs by (simp add: candidate_log_def cs)
  have llog: "length ?log = length ?rows" using lcs by (simp add: candidate_log_def)
  have fields: "cd_executed_at (exported_candidate db (ns ! i) (?rows ! i)) = tn_executed_at (?rows ! i)"
    "cd_quantity_shares (exported_candidate db (ns ! i) (?rows ! i)) = tn_quantity_shares (?rows ! i)"
    "cd_security_id (exported_candidate db (ns ! i) (?rows ! i)) = tn_security_id (?rows ! i)"
    "side_of_text (tn_side (?rows ! i)) = Inr (cd_side (exported_candidate db (ns ! i) (?rows ! i)))" if "i < length ?rows" for i
    using exported_candidate_fields [of db pf "?rows ! i"] rows that by simp_all
  have "sorted (map row_order ?rows)" by (simp add: ordered_transactions_def)
  then have "replay_order (?log ! i) \<le> replay_order (?log ! j)" if "i < j" "j < length ?rows" for i j
    using that sorted_nth_mono [of "map row_order ?rows" i j] clock [of i j]
    by (auto simp: nth fields replay_order_def candidate_transaction_def row_order_def less_eq_prod_def)
  then have "sorted (map replay_order ?log)"
    by (auto simp: sorted_iff_nth_mono_less llog)
  then have idle: "sort_key replay_order ?log = ?log" by (rule sort_key_id_if_sorted)
  have "list_all2 (\<lambda>t u. t_security_id t = t_security_id u \<and> signed_shares t = signed_shares u) (sort_key replay_order ts) ?log"
  proof (rule list_all2_all_nthI)
    show len2: "length (sort_key replay_order ts) = length ?log" using rmap_length [OF sorted_rows] llog by simp
    fix i assume "i < length (sort_key replay_order ts)"
    then have i: "i < length ?rows" using rmap_length [OF sorted_rows] by simp
    have st: "stored_transaction \<lparr>sk_market = TWSE, sk_code = []\<rparr> [] (?rows ! i) = Inr (sort_key replay_order ts ! i)"
      using sorted_rows i unfolding rmap_Inr_iff by (rule list_all2_nthD)
    show "t_security_id (sort_key replay_order ts ! i) = t_security_id (?log ! i) \<and>
        signed_shares (sort_key replay_order ts ! i) = signed_shares (?log ! i)"
      using fields [OF i] stored_fields [OF st]
      by (simp add: nth [OF i] candidate_transaction_def split: transaction_side.split)
  qed
  then have "covered ?log" using cov covered_cong by blast
  moreover have "0 < t_quantity_shares (?log ! i)" if "i < length ?rows" for i
    using rows that fields(2) [OF that] by (simp add: nth [OF that] candidate_transaction_def exportable_def)
  then have "positive_shares ?log" by (auto simp: positive_shares_def in_set_conv_nth llog)
  ultimately have "\<exists>ps. replay ?log = Inr ps" using replay_outcome [of ?log] by (simp add: idle)
  moreover have "list_all finite_amounts cs"
    unfolding cs list_all_iff using rows exported_candidate_fields(5)
    by (fastforce dest: set_zip_rightD)
  ultimately show ?thesis by (auto simp: simulated_replay_def)
qed

section \<open>Properties\<close>

text \<open>
  C28. The file of a portfolio's transactions, imported again as a new portfolio, previews without an
  error as exactly the stored transactions, in the order they were executed: with their identifiers,
  securities, sides, times, shares, prices and fees. This holds when the transactions can be replayed;
  when each has a whole second in the years 1000 to 9999, positive shares and price, no negative fee, at
  most eight places, a board or odd lot, and a market and an upper-case code that identify its security;
  when the file keeps the limits of size, rows and fields; and when the clock of the preview is strictly
  increasing.
\<close>

theorem exported_file_previews:
  assumes "export_portfolio_transactions_csv user pid db = Inr file"
    and "\<forall>t \<in> set (live_transactions user pid db). \<forall>pf. live_portfolio user pid db = Some pf \<longrightarrow>
      exportable db pf t \<and> importable_lot t"
    and "stored_log user pid db = Inr ts" and "replay ts = Inr ps"
    and "length file \<le> max_upload_size" and "length (live_transactions user pid db) \<le> max_import_rows"
    and "\<forall>i j. i < j \<longrightarrow> clock i < clock j"
  shows "\<exists>p. preview_portfolio_csv db fresh clock user file None = Inr p \<and> pp_errors p = [] \<and>
    pp_transactions p = map2 (exported_candidate db) [2..<2 + length (live_transactions user pid db)]
      (ordered_transactions user pid db)"
proof -
  let ?rows = "ordered_transactions user pid db" and ?n = "length (live_transactions user pid db)"
  obtain pf where pf: "live_portfolio user pid db = Some pf" and
    written: "file = byte_order_mark @ csv_write (portfolio_csv_header # map (transaction_line db pf) ?rows)"
    using assms(1) by (auto simp: export_portfolio_transactions_csv_def require_user_portfolio_def split: option.splits)
  have ok: "\<forall>t \<in> set (live_transactions user pid db). exportable db pf t" "\<forall>t \<in> set ?rows. exportable db pf t"
    "\<forall>t \<in> set ?rows. importable_lot t"
    using assms(2) pf by (simp_all add: ordered_transactions_def)
  have n: "length ?rows = ?n" by (simp add: ordered_transactions_def)
  let ?ns = "[2..<2 + length ?rows]" and ?sc = "scan_rows db fresh portfolio_csv_header (map (transaction_line db pf) ?rows)"
  have len: "length ?ns = length ?rows" by (simp only: length_upt diff_add_inverse)
  have every: "filter (\<lambda>(n, t). importable_lot t) (zip ?ns ?rows) = zip ?ns ?rows"
    "filter (\<lambda>(n, t). \<not> importable_lot t) (zip ?ns ?rows) = []"
    using ok(3) by (auto simp: filter_id_conv filter_empty_conv dest!: set_zip_rightD)
  have known: "\<forall>t \<in> set ?rows. exportable db pf t \<and> known_lot t" using ok by (auto simp: importable_lot_def known_lot_def)
  have scan: "sc_candidates ?sc = map (\<lambda>(n, t). exported_candidate db n t) (zip ?ns ?rows)" "sc_errors ?sc = []"
    using scan_exported [OF known, of ?ns fresh empty_scan]
    unfolding scan_rows_def length_map every by (simp_all add: Let_def empty_scan_def del: upt_Suc)
  have replayed: "simulated_replay [] (fresh 1) clock (sc_candidates ?sc) = Inr ()"
    unfolding scan by (rule exported_log_replays [OF ok(1) assms(3,4) _ refl len]) (use assms(7) in blast)
  have "oversell_errors db user None fresh clock ?sc = Inr []"
    using replayed by (simp add: oversell_errors_def)
  moreover have "read_table expected_columns file = Inr (portfolio_csv_header, map (transaction_line db pf) ?rows)"
    unfolding written by (rule read_exported_table [OF ok(2)]) (use assms(5) written in simp)
  moreover have "\<not> max_import_rows < length ?rows" using assms(6) n by simp
  ultimately have "preview_portfolio_csv db fresh clock user file None =
      Inr (portfolio_preview_of user None (fresh 0) (length ?rows) ?sc [])"
    by (simp add: preview_portfolio_csv_def scan(2) Let_def)
  then show ?thesis by (simp add: portfolio_preview_of_def scan(1) n del: upt_Suc)
qed

text \<open>
  An exported file with a transaction of the lot type \<open>ROUND_LOT\<close>, which the service accepts for new
  transactions, is refused by the import as a whole, whatever the target.
\<close>

theorem round_lot_file_is_refused:
  assumes "export_portfolio_transactions_csv user pid db = Inr file"
    and "\<forall>t \<in> set (live_transactions user pid db). \<forall>pf. live_portfolio user pid db = Some pf \<longrightarrow>
      exportable db pf t \<and> known_lot t"
    and "t \<in> set (live_transactions user pid db)" and "tn_lot_type t = ''ROUND_LOT''"
    and "length file \<le> max_upload_size" and "length (live_transactions user pid db) \<le> max_import_rows"
  shows "\<exists>p. preview_portfolio_csv db fresh clock user file target = Inr p \<and> 0 < pp_invalid_rows p \<and> pp_transactions p = []"
proof -
  let ?rows = "ordered_transactions user pid db"
  obtain pf where pf: "live_portfolio user pid db = Some pf" and
    written: "file = byte_order_mark @ csv_write (portfolio_csv_header # map (transaction_line db pf) ?rows)"
    using assms(1) by (auto simp: export_portfolio_transactions_csv_def require_user_portfolio_def split: option.splits)
  have ok: "\<forall>t \<in> set ?rows. exportable db pf t \<and> known_lot t"
    using assms(2) pf by (simp add: ordered_transactions_def)
  let ?ns = "[2..<2 + length ?rows]" and ?sc = "scan_rows db fresh portfolio_csv_header (map (transaction_line db pf) ?rows)"
  have "t \<in> set ?rows" using assms(3) by (simp add: ordered_transactions_def)
  then have "t \<in> snd ` set (zip ?ns ?rows)" by (simp flip: set_map del: upt_Suc)
  then obtain z where "z \<in> set (zip ?ns ?rows)" "t = snd z" by (rule imageE)
  then have "z \<in> set (filter (\<lambda>(n, t). \<not> importable_lot t) (zip ?ns ?rows))"
    using assms(4) by (simp add: case_prod_unfold importable_lot_def del: upt_Suc)
  then have "filter (\<lambda>(n, t). \<not> importable_lot t) (zip ?ns ?rows) \<noteq> []" by (metis empty_iff empty_set)
  then have errors: "sc_errors ?sc \<noteq> []"
    using scan_exported [OF ok, of ?ns fresh empty_scan]
    unfolding scan_rows_def length_map by (simp add: Let_def empty_scan_def del: upt_Suc)
  have "read_table expected_columns file = Inr (portfolio_csv_header, map (transaction_line db pf) ?rows)"
    unfolding written by (rule read_exported_table) (use ok assms(5) written in simp_all)
  moreover have "\<not> max_import_rows < length ?rows" using assms(6) by (simp add: ordered_transactions_def)
  moreover have "oversell_errors db user target fresh clock ?sc = Inr []" using errors by (simp add: oversell_errors_def)
  ultimately have "preview_portfolio_csv db fresh clock user file target =
      Inr (portfolio_preview_of user target (fresh 0) (length ?rows) ?sc (sc_errors ?sc))"
    by (simp add: preview_portfolio_csv_def Let_def)
  then show ?thesis using errors by (simp add: portfolio_preview_of_def)
qed

end
