(* ===== verification/WatchlistImport.thy ===== *)
theory WatchlistImport
  imports ImportEffects
begin

text \<open>
  What applying a watchlist import does: rows are only added, each with its entry of the change log,
  and afterwards every previewed security is in its group. Files with the identifiers of existing
  groups cannot replace them, and a security that was once removed from a group cannot come back.
\<close>

section \<open>Growth\<close>

definition grows :: "watch_state \<Rightarrow> watch_state \<Rightarrow> bool" where
  "grows st st' \<longleftrightarrow> (\<exists>ws its cs.
     ws_db st' = (ws_db st)\<lparr>ud_watchlists := ud_watchlists (ws_db st) @ ws, ud_items := ud_items (ws_db st) @ its,
       ud_changes := ud_changes (ws_db st) @ cs\<rparr> \<and>
     ws_groups st' = ws_groups st + length ws \<and> ws_items st' = ws_items st + length its \<and>
     length cs = length ws + length its \<and> ws_seq st' = ws_seq st + int (length cs) \<and>
     map ch_sequence cs = map (\<lambda>k. ws_seq st + 1 + int k) [0..<length cs])"

lemma grows_refl [simp]: "grows st st"
  unfolding grows_def by (intro exI [of _ "[]"]) simp

lemma consecutive_append:
  assumes "map ch_sequence cs = map (\<lambda>k. s + 1 + int k) [0..<length cs]"
    and "map ch_sequence ds = map (\<lambda>k. s + int (length cs) + 1 + int k) [0..<length ds]"
  shows "map ch_sequence (cs @ ds) = map (\<lambda>k. s + 1 + int k) [0..<length (cs @ ds)]"
proof -
  have "map (\<lambda>k. s + 1 + int k) [length cs..<length cs + length ds] =
      map (\<lambda>k. s + int (length cs) + 1 + int k) [0..<length ds]"
    by (rule nth_equalityI) simp_all
  moreover have "[0..<length (cs @ ds)] = [0..<length cs] @ [length cs..<length cs + length ds]"
    using upt_add_eq_append [of 0 "length cs" "length ds"] by simp
  ultimately show ?thesis using assms by simp
qed

lemma grows_trans: "grows st st' \<Longrightarrow> grows st' st'' \<Longrightarrow> grows st st''"
proof -
  assume "grows st st'" "grows st' st''"
  then obtain ws its cs ws' its' cs' where
    1: "ws_db st' = (ws_db st)\<lparr>ud_watchlists := ud_watchlists (ws_db st) @ ws, ud_items := ud_items (ws_db st) @ its,
         ud_changes := ud_changes (ws_db st) @ cs\<rparr>" "ws_groups st' = ws_groups st + length ws"
       "ws_items st' = ws_items st + length its" "length cs = length ws + length its"
       "ws_seq st' = ws_seq st + int (length cs)" "map ch_sequence cs = map (\<lambda>k. ws_seq st + 1 + int k) [0..<length cs]" and
    2: "ws_db st'' = (ws_db st')\<lparr>ud_watchlists := ud_watchlists (ws_db st') @ ws', ud_items := ud_items (ws_db st') @ its',
         ud_changes := ud_changes (ws_db st') @ cs'\<rparr>" "ws_groups st'' = ws_groups st' + length ws'"
       "ws_items st'' = ws_items st' + length its'" "length cs' = length ws' + length its'"
       "ws_seq st'' = ws_seq st' + int (length cs')" "map ch_sequence cs' = map (\<lambda>k. ws_seq st' + 1 + int k) [0..<length cs']"
    unfolding grows_def by blast
  have "map ch_sequence (cs @ cs') = map (\<lambda>k. ws_seq st + 1 + int k) [0..<length (cs @ cs')]"
    using 1(5,6) 2(6) by (intro consecutive_append) simp_all
  then show ?thesis
    unfolding grows_def using 1(1-5) 2(1-5) by (intro exI [of _ "ws @ ws'"] exI [of _ "its @ its'"] exI [of _ "cs @ cs'"]) simp
qed

definition opened :: "uuid \<Rightarrow> instant \<Rightarrow> watch_group \<Rightarrow> uuid \<Rightarrow> watch_state \<Rightarrow> watch_state" where
  "opened user now g i st =
     st\<lparr>ws_db := add_change (log_change user now (ws_seq st + 1) Watchlist i UPSERT 1
           [(''name'', JStr (wg_group_name g)), (''sort_order'', JNum (of_int (int (ws_groups st))))])
         ((ws_db st)\<lparr>ud_watchlists := ud_watchlists (ws_db st) @ [\<lparr>wl_id = i, wl_user_id = Some user,
            wl_name = wg_group_name g, wl_sort_order = int (ws_groups st), wl_version = 1, wl_created_at = now,
            wl_updated_at = now, wl_deleted_at = None\<rparr>]\<rparr>),
        ws_seq := ws_seq st + 1, ws_groups := ws_groups st + 1\<rparr>"

lemma open_group_cases:
  "open_group user now g st =
     (if \<not> user_constraints (ws_db st) then Inl IntegrityError
      else case find (\<lambda>w. live_watchlist user w \<and> wl_name w = wg_group_name g) (ud_watchlists (ws_db st)) of
        Some w \<Rightarrow> Inr (wl_id w, st)
      | None \<Rightarrow> (case uuid_of_text (wg_group_id g) of None \<Rightarrow> Inl ValueError | Some i \<Rightarrow> Inr (i, opened user now g i st)))"
  by (simp add: open_group_def flush_user_def opened_def Let_def split: option.split)

lemma opened_grows: "grows st (opened user now g i st)"
  unfolding grows_def opened_def add_change_def
  by (rule exI [of _ "[\<lparr>wl_id = i, wl_user_id = Some user, wl_name = wg_group_name g, wl_sort_order = int (ws_groups st),
        wl_version = 1, wl_created_at = now, wl_updated_at = now, wl_deleted_at = None\<rparr>]"],
      rule exI [of _ "[]"],
      rule exI [of _ "[log_change user now (ws_seq st + 1) Watchlist i UPSERT 1
           [(''name'', JStr (wg_group_name g)), (''sort_order'', JNum (of_int (int (ws_groups st))))]]"])
    (simp add: log_change_def)

lemma open_group_grows:
  assumes "open_group user now g st = Inr (w, st')"
  shows "grows st st' \<and> (\<exists>r \<in> set (ud_watchlists (ws_db st')). wl_id r = w \<and> live_watchlist user r \<and> wl_name r = wg_group_name g)"
proof (cases "find (\<lambda>w. live_watchlist user w \<and> wl_name w = wg_group_name g) (ud_watchlists (ws_db st))")
  case (Some r)
  then have "r \<in> set (ud_watchlists (ws_db st))" "live_watchlist user r" "wl_name r = wg_group_name g"
    by (auto simp: find_Some_iff)
  moreover have "w = wl_id r" "st' = st" using assms Some by (simp_all add: open_group_cases split: if_splits)
  ultimately show ?thesis by auto
next
  case None
  with assms have "uuid_of_text (wg_group_id g) = Some w" "st' = opened user now g w st"
    by (auto simp: open_group_cases split: if_splits option.splits)
  moreover have "\<exists>r \<in> set (ud_watchlists (ws_db (opened user now g w st))). wl_id r = w \<and> live_watchlist user r \<and> wl_name r = wg_group_name g"
    by (simp add: opened_def add_change_def live_watchlist_def)
  ultimately show ?thesis using opened_grows by simp
qed

lemma add_item_grows:
  assumes "add_item user now fresh w st (idx, it) = Inr st'"
  shows "grows st st' \<and> (\<exists>i \<in> set (ud_items (ws_db st')). wi_watchlist_id i = w \<and> wi_security_id i = wt_security_id it \<and>
    wi_deleted_at i = None)"
proof (cases "list_ex (\<lambda>i. wi_watchlist_id i = w \<and> wi_security_id i = wt_security_id it \<and> wi_deleted_at i = None) (ud_items (ws_db st))")
  case True
  with assms show ?thesis by (auto simp: add_item_def rbind_eq_Inr flush_user_Inr list_ex_iff)
next
  case False
  with assms obtain row change where st': "st' = st\<lparr>ws_db := add_change change ((ws_db st)\<lparr>ud_items := ud_items (ws_db st) @ [row]\<rparr>),
      ws_seq := ws_seq st + 1, ws_items := ws_items st + 1\<rparr>" and
    row: "wi_watchlist_id row = w" "wi_security_id row = wt_security_id it" "wi_deleted_at row = None" and
    change: "ch_sequence change = ws_seq st + 1"
    by (auto simp: add_item_def rbind_eq_Inr flush_user_Inr Let_def log_change_def split: if_splits)
  have "grows st st'"
    unfolding grows_def st' add_change_def
    by (rule exI [of _ "[]"], rule exI [of _ "[row]"], rule exI [of _ "[change]"]) (simp add: change)
  then show ?thesis using row by (simp add: st' add_change_def)
qed

definition in_group :: "uuid \<Rightarrow> string \<Rightarrow> uuid \<Rightarrow> user_db \<Rightarrow> bool" where
  "in_group user name sec db \<longleftrightarrow> (\<exists>w \<in> set (ud_watchlists db). live_watchlist user w \<and> wl_name w = name \<and>
     (\<exists>i \<in> set (ud_items db). wi_watchlist_id i = wl_id w \<and> wi_security_id i = sec \<and> wi_deleted_at i = None))"

lemma grows_rows:
  "grows st st' \<Longrightarrow> set (ud_watchlists (ws_db st)) \<subseteq> set (ud_watchlists (ws_db st')) \<and>
     set (ud_items (ws_db st)) \<subseteq> set (ud_items (ws_db st'))"
  unfolding grows_def by (elim exE conjE) simp

lemma in_group_grows: "in_group user name sec (ws_db st) \<Longrightarrow> grows st st' \<Longrightarrow> in_group user name sec (ws_db st')"
  using grows_rows unfolding in_group_def by blast

lemma add_items_grow:
  assumes "rfold (add_item user now fresh w) st xs = Inr st'"
  shows "grows st st' \<and> (\<forall>(idx, it) \<in> set xs. \<exists>i \<in> set (ud_items (ws_db st')). wi_watchlist_id i = w \<and>
    wi_security_id i = wt_security_id it \<and> wi_deleted_at i = None)"
  using assms
proof (induction xs arbitrary: st)
  case (Cons x xs)
  obtain idx it where x: "x = (idx, it)" by fastforce
  from Cons.prems obtain s1 where s1: "add_item user now fresh w st (idx, it) = Inr s1"
    "rfold (add_item user now fresh w) s1 xs = Inr st'" by (auto simp: x rbind_eq_Inr)
  note here = add_item_grows [OF s1(1)] and rest = Cons.IH [OF s1(2)]
  have sub: "set (ud_items (ws_db s1)) \<subseteq> set (ud_items (ws_db st'))" using grows_rows rest by blast
  from here obtain i where i: "i \<in> set (ud_items (ws_db s1))" "wi_watchlist_id i = w \<and> wi_security_id i = wt_security_id it \<and> wi_deleted_at i = None"
    by blast
  then have "\<exists>i \<in> set (ud_items (ws_db st')). wi_watchlist_id i = w \<and> wi_security_id i = wt_security_id it \<and> wi_deleted_at i = None"
    using sub by blast
  moreover have "grows st st'" using here rest by (blast intro: grows_trans)
  ultimately show ?case using rest by (simp add: x)
qed simp

lemma import_group_grows:
  assumes "import_group user now fresh st g = Inr st'"
  shows "grows st st' \<and> (\<forall>it \<in> set (wg_items g). in_group user (wg_group_name g) (wt_security_id it) (ws_db st'))"
proof -
  obtain w s1 where s1: "open_group user now g st = Inr (w, s1)"
    "rfold (add_item user now fresh w) s1 (zip [0..<length (wg_items g)] (wg_items g)) = Inr st'"
    using assms by (auto simp: import_group_def rbind_eq_Inr)
  note a = open_group_grows [OF s1(1)] and b = add_items_grow [OF s1(2)]
  have "in_group user (wg_group_name g) (wt_security_id it) (ws_db st')" if "it \<in> set (wg_items g)" for it
  proof -
    have "it \<in> snd ` set (zip [0..<length (wg_items g)] (wg_items g))"
      using that by (simp flip: set_map)
    then obtain i where i: "i \<in> set (ud_items (ws_db st'))" "wi_watchlist_id i = w" "wi_security_id i = wt_security_id it"
      "wi_deleted_at i = None"
      using b by fastforce
    from a obtain r where "r \<in> set (ud_watchlists (ws_db s1))" "wl_id r = w" "live_watchlist user r" "wl_name r = wg_group_name g"
      by blast
    moreover have "set (ud_watchlists (ws_db s1)) \<subseteq> set (ud_watchlists (ws_db st'))" using grows_rows b by blast
    ultimately show ?thesis using i unfolding in_group_def by blast
  qed
  with a b show ?thesis by (auto intro: grows_trans)
qed

lemma import_groups_grow:
  assumes "rfold (import_group user now fresh) st gs = Inr st'"
  shows "grows st st' \<and> (\<forall>g \<in> set gs. \<forall>it \<in> set (wg_items g). in_group user (wg_group_name g) (wt_security_id it) (ws_db st'))"
  using assms
proof (induction gs arbitrary: st)
  case (Cons g gs)
  then obtain s1 where s1: "import_group user now fresh st g = Inr s1" "rfold (import_group user now fresh) s1 gs = Inr st'"
    by (auto simp: rbind_eq_Inr)
  from import_group_grows [OF s1(1)] Cons.IH [OF s1(2)] show ?case
    by (auto intro: grows_trans in_group_grows)
qed simp

section \<open>Violated constraints\<close>

text \<open>A pending violation is raised by whatever comes next.\<close>

lemma broken_items:
  "\<not> user_constraints (ws_db st) \<Longrightarrow> rfold (add_item user now fresh w) st xs = (if xs = [] then Inr st else Inl IntegrityError)"
  by (cases xs) (auto simp: add_item_def flush_user_def)

lemma broken_groups:
  "\<not> user_constraints (ws_db st) \<Longrightarrow>
     rbind (rfold (import_group user now fresh) st gs) (\<lambda>st. rbind (flush_user (ws_db st)) (k st)) = Inl IntegrityError"
  by (cases gs) (auto simp: import_group_def open_group_cases flush_user_def)

lemma broken_import:
  assumes "import_group user now fresh st g = Inl IntegrityError \<or>
    (\<exists>st'. import_group user now fresh st g = Inr st' \<and> \<not> user_constraints (ws_db st'))"
  shows "rbind (rfold (import_group user now fresh) st (g # gs)) (\<lambda>st. rbind (flush_user (ws_db st)) (k st)) = Inl IntegrityError"
  using assms broken_groups by auto

section \<open>Properties\<close>

text \<open>
  A merging watchlist import that is applied only adds rows: the counted groups and items, and one
  entry of the change log for each under consecutive numbers after the user's last one. Afterwards
  every previewed security is in the group of its name.
\<close>

theorem watchlist_import_only_adds:
  assumes "apply_watchlist_import user token merge_mode now fresh store db = Inr ((ng, ni), store', db')"
    and "merge_mode \<noteq> ''REPLACE''"
  shows "\<exists>p ws its cs. usable_preview user token store = Inr (Watchlist_preview p) \<and>
    db' = db\<lparr>ud_watchlists := ud_watchlists db @ ws, ud_items := ud_items db @ its, ud_changes := ud_changes db @ cs\<rparr> \<and>
    length ws = ng \<and> length its = ni \<and>
    map ch_sequence cs = map (\<lambda>k. change_cursor user db + 1 + int k) [0..<ng + ni] \<and>
    (\<forall>g \<in> set (wp_groups p). \<forall>it \<in> set (wg_items g). in_group user (wg_group_name g) (wt_security_id it) db')"
proof -
  obtain q where q: "usable_preview user token store = Inr q"
    using assms(1) by (cases "usable_preview user token store") (simp_all add: apply_watchlist_import_def)
  obtain p where p: "q = Watchlist_preview p"
    using assms q by (cases q) (auto simp: apply_watchlist_import_def)
  let ?st = "\<lparr>ws_db = db, ws_seq = change_cursor user db, ws_groups = 0, ws_items = 0\<rparr>"
  obtain st where st: "rfold (import_group user now fresh) ?st (wp_groups p) = Inr st" "db' = ws_db st" "ng = ws_groups st" "ni = ws_items st"
    using assms q by (auto simp: p apply_watchlist_import_def rbind_eq_Inr flush_user_Inr)
  from import_groups_grow [OF st(1)] have grown: "grows ?st st" and
    here: "\<forall>g \<in> set (wp_groups p). \<forall>it \<in> set (wg_items g). in_group user (wg_group_name g) (wt_security_id it) db'"
    by (simp_all add: st(2))
  from grown obtain ws its cs where
    "db' = db\<lparr>ud_watchlists := ud_watchlists db @ ws, ud_items := ud_items db @ its, ud_changes := ud_changes db @ cs\<rparr>"
    "ng = length ws" "ni = length its" "length cs = length ws + length its"
    "map ch_sequence cs = map (\<lambda>k. change_cursor user db + 1 + int k) [0..<length cs]"
    unfolding grows_def by (auto simp: st)
  then show ?thesis using q here unfolding p by (intro exI [of _ p] exI [of _ ws] exI [of _ its] exI [of _ cs]) simp
qed

text \<open>
  A file whose first group carries the identifier of an existing watchlist, as every exported file
  does, cannot replace the watchlists: the old one is only marked as deleted and its identifier stays
  taken, so the import fails with a constraint violation.
\<close>

theorem replace_fails_for_known_group:
  assumes "usable_preview user token store = Inr (Watchlist_preview p)" and "wp_groups p = g # gs"
    and "uuid_of_text (wg_group_id g) = Some i" and "i \<in> wl_id ` set (ud_watchlists db)"
  shows "apply_watchlist_import user token ''REPLACE'' now fresh store db = Inl IntegrityError"
proof -
  obtain db1 s where d: "drop_watchlists user now (db, change_cursor user db) = (db1, s)" by fastforce
  let ?st = "\<lparr>ws_db = db1, ws_seq = s, ws_groups = 0, ws_items = 0\<rparr>"
  have rows: "ud_watchlists db1 = map (\<lambda>w. if live_watchlist user w then w\<lparr>wl_deleted_at := Some now\<rparr> else w) (ud_watchlists db)"
    using d by (auto simp: drop_watchlists_def Let_def)
  have none: "find (\<lambda>w. live_watchlist user w \<and> wl_name w = wg_group_name g) (ud_watchlists db1) = None"
    by (auto simp: rows find_None_iff live_watchlist_def)
  have "map wl_id (ud_watchlists db1) = map wl_id (ud_watchlists db)" by (simp add: rows)
  then have "wl_id ` set (ud_watchlists db1) = wl_id ` set (ud_watchlists db)" by (metis set_map)
  then have "\<not> distinct (map wl_id (ud_watchlists (ws_db (opened user now g i ?st))))"
    using assms(4) by (auto simp: opened_def add_change_def)
  then have broken: "\<not> user_constraints (ws_db (opened user now g i ?st))" by (simp add: user_constraints_def)
  have "import_group user now fresh ?st g = Inl IntegrityError \<or>
      (\<exists>st'. import_group user now fresh ?st g = Inr st' \<and> \<not> user_constraints (ws_db st'))"
    using broken by (simp add: import_group_def open_group_cases none assms(3) broken_items)
  then show ?thesis
    using broken_import by (simp add: apply_watchlist_import_def assms(1,2) d del: rfold.simps)
qed

text \<open>
  A security whose item was removed from a group by marking it as deleted cannot be imported into
  that group again: the query does not see the old item, the unique pair of group and security does.
\<close>

theorem removed_security_cannot_be_imported:
  assumes "usable_preview user token store = Inr (Watchlist_preview p)" and "wp_groups p = g # gs"
    and "wg_items g = it # its" and "merge_mode \<noteq> ''REPLACE''"
    and "find (\<lambda>w. live_watchlist user w \<and> wl_name w = wg_group_name g) (ud_watchlists db) = Some w"
    and "r \<in> set (ud_items db)" and "wi_watchlist_id r = wl_id w" and "wi_security_id r = wt_security_id it"
    and "\<forall>i \<in> set (ud_items db). wi_watchlist_id i = wl_id w \<and> wi_security_id i = wt_security_id it \<longrightarrow> wi_deleted_at i \<noteq> None"
  shows "apply_watchlist_import user token merge_mode now fresh store db = Inl IntegrityError"
proof -
  let ?st = "\<lparr>ws_db = db, ws_seq = change_cursor user db, ws_groups = 0, ws_items = 0\<rparr>"
  have absent: "\<not> list_ex (\<lambda>i. wi_watchlist_id i = wl_id w \<and> wi_security_id i = wt_security_id it \<and> wi_deleted_at i = None) (ud_items db)"
    using assms(9) by (auto simp: list_ex_iff)
  have added: "add_item user now fresh (wl_id w) ?st (0, it) = Inl IntegrityError \<or>
      (\<exists>st'. add_item user now fresh (wl_id w) ?st (0, it) = Inr st' \<and> \<not> user_constraints (ws_db st'))"
  proof (cases "user_constraints db \<and> \<not> infinite_price it")
    case True
    then obtain st' row where st': "add_item user now fresh (wl_id w) ?st (0, it) = Inr st'"
      "ud_items (ws_db st') = ud_items db @ [row]" "wi_watchlist_id row = wl_id w" "wi_security_id row = wt_security_id it"
      using absent by (simp add: add_item_def flush_user_def Let_def add_change_def)
    have "(wl_id w, wt_security_id it) \<in> (\<lambda>i. (wi_watchlist_id i, wi_security_id i)) ` set (ud_items db)"
      using assms(6-8) by force
    then have "\<not> distinct (map (\<lambda>i. (wi_watchlist_id i, wi_security_id i)) (ud_items (ws_db st')))"
      by (simp add: st')
    then have "\<not> user_constraints (ws_db st')" by (simp add: user_constraints_def)
    with st'(1) show ?thesis by blast
  next
    case False
    then show ?thesis using absent by (auto simp: add_item_def flush_user_def)
  qed
  have items: "zip [0..<length (wg_items g)] (wg_items g) = (0, it) # zip [1..<length (wg_items g)] its"
    by (simp add: assms(3) upt_conv_Cons del: upt_Suc)
  have opened: "open_group user now g ?st = (if user_constraints db then Inr (wl_id w, ?st) else Inl IntegrityError)"
    by (simp add: open_group_cases assms(5))
  have "import_group user now fresh ?st g = Inl IntegrityError \<or>
      (\<exists>st'. import_group user now fresh ?st g = Inr st' \<and> \<not> user_constraints (ws_db st'))"
    using added broken_items unfolding import_group_def opened items by (auto simp del: upt_Suc)
  then show ?thesis
    using broken_import by (simp add: apply_watchlist_import_def assms(1,2,4) del: rfold.simps)
qed

end
