(* ===== verification/ImportExamples.thy ===== *)
theory ImportExamples
  imports ExportImport ExportFiles WatchlistImport ImportReplay
begin

text \<open>
  A small user: one security, one portfolio and one watchlist, with previews of imports into them. The
  properties of the import and the export are applied to them here.
\<close>

definition demo_security :: listed_security where
  "demo_security = \<lparr>ls_id = 30, ls_market_id = 40, ls_code = ''2330'', ls_name = ''TSMC''\<rparr>"

definition demo_portfolio :: portfolio_row where
  "demo_portfolio = \<lparr>po_id = 20, po_user_id = Some 10, po_name = ''Main'', po_deleted_at = None\<rparr>"

definition demo_transaction :: "uuid \<Rightarrow> string \<Rightarrow> instant \<Rightarrow> string \<Rightarrow> transaction_row" where
  "demo_transaction i side at_time lot =
     \<lparr>tn_id = i, tn_user_id = Some 10, tn_portfolio_id = 20, tn_security_id = 30, tn_side = side,
      tn_executed_at = at_time, tn_quantity_shares = 1000, tn_price = 900, tn_fee = 20, tn_lot_type = lot,
      tn_version = 1, tn_created_at = at_time, tn_updated_at = at_time, tn_deleted_at = None\<rparr>"

definition demo_time :: instant where
  "demo_time = 1786325400 * 1000000"

definition demo_db :: "transaction_row list \<Rightarrow> sync_change list \<Rightarrow> user_db" where
  "demo_db ts cs =
     \<lparr>ud_portfolios = [demo_portfolio], ud_transactions = ts, ud_watchlists = [], ud_items = [],
      ud_securities = [demo_security], ud_markets = [(40, ''TWSE'')], ud_closes = [], ud_changes = cs\<rparr>"

section \<open>Lengths of texts\<close>

lemma nat_text_short: "n < 10 ^ Suc k \<Longrightarrow> length (nat_text n) \<le> Suc k"
proof (induction k arbitrary: n)
  case 0
  then show ?case by (subst nat_text.simps) simp
next
  case (Suc k)
  have "n div 10 < 10 ^ Suc k" using Suc.prems by (simp add: less_mult_imp_div_less)
  then have "length (nat_text (n div 10)) \<le> Suc k" by (rule Suc.IH)
  then show ?case by (subst nat_text.simps) simp
qed

lemma uuid_text_length: "length (uuid_text n) = 36"
  by (simp add: uuid_text_def Let_def hex_text_length)

lemma clock_text_length: "length (clock_text t) = 8"
  by (simp add: clock_text_def Let_def)

lemma csv_field_length: "length (csv_field f) \<le> 2 * length f + 2"
proof -
  have "length (escape_field f) \<le> 2 * length f" by (induction f) (auto simp: escape_field_def)
  then show ?thesis by (simp add: csv_field_def)
qed

lemma csv_join_length: "\<forall>f \<in> set fs. length f \<le> n \<Longrightarrow> length (csv_join fs) \<le> length fs * (2 * n + 3)"
proof (induction fs rule: csv_join.induct)
  case (2 f)
  then show ?case using csv_field_length [of f] by simp
next
  case (3 f g fs)
  then show ?case using csv_field_length [of f] by simp
qed simp

lemma csv_row_length: "\<forall>f \<in> set fs. length f \<le> n \<Longrightarrow> length (csv_row fs) \<le> 4 + length fs * (2 * n + 3)"
  using csv_join_length [of fs n] by (simp add: csv_row_def)

section \<open>Files\<close>

lemma demo_places: "has_places 8 900" "has_places 8 20" by code_simp+
lemma demo_year: "ord2year (local_date (demo_time + taipei_offset)) = 2026" by code_simp
lemma demo_texts: "upper (strip ''TWSE'') = ''TWSE''" "upper (strip ''2330'') = ''2330''" by code_simp+
lemma demo_instant: "min_instant \<le> demo_time" "demo_time mod 1000000 = 0" 
 apply code_simp
 by (simp add: demo_time_def)

lemma demo_find [simp]: "security_of (demo_db ts cs) 30 = Some demo_security"
  by (simp add: security_of_def demo_db_def demo_security_def)

lemma demo_pair [simp]: "security_by_pair (demo_db ts cs) ''TWSE'' ''2330'' = Some demo_security"
  by (simp add: security_by_pair_def demo_db_def demo_security_def resolve_market_code_def)

lemma demo_market [simp]: "resolve_market_code (ud_markets (demo_db ts cs)) (Some demo_security) = ''TWSE''"
  by (simp add: resolve_market_code_def demo_db_def demo_security_def)

lemma demo_fields:
  assumes "length side \<le> 40" and "length lot \<le> 40"
  shows "\<forall>f \<in> set (transaction_line (demo_db ts cs) demo_portfolio (demo_transaction i side demo_time lot)). length f \<le> 40"
proof -
  have days: "length (date_text (demo_time + taipei_offset)) \<le> 10"
    using nat_text_short [of 2026 3] by (simp add: date_text_def Let_def demo_year)
  have shares: "length (int_text 1000) \<le> 4" using nat_text_short [of 1000 3] by (simp add: int_text_def)
  have price: "length (places_text 8 900) \<le> 12" "length (places_text 8 20) \<le> 11"
    using nat_text_short [of 900 2] nat_text_short [of 20 1] by (simp_all add: places_text_def scaled_def)
  have name: "escape_formula (Some ''Main'') = ''Main''" by code_simp
  show ?thesis
    using assms days shares price
    by (simp add: transaction_line_def Let_def demo_transaction_def demo_portfolio_def name uuid_text_length clock_text_length
      demo_market [simplified] demo_security_def [THEN arg_cong, of ls_code, simplified])
qed
section \<open>Previews\<close>

definition demo_row :: "uuid \<Rightarrow> string \<Rightarrow> transaction_row" where
  "demo_row i side = demo_transaction i side demo_time ''BOARD_LOT''"

lemma demo_exportable:
  assumes "side \<in> {''BUY'', ''SELL''}" and "i < 1000" and "length lot \<le> 40"
  shows "exportable (demo_db ts cs) demo_portfolio (demo_transaction i side demo_time lot)"
proof -
  have "list_all (\<lambda>f. length f \<le> field_limit) (transaction_line (demo_db ts cs) demo_portfolio (demo_transaction i side demo_time lot))"
    using demo_fields [of side lot ts cs i] assms by (force simp: list_all_iff field_limit_def)
  moreover have "ls_code demo_security = ''2330''" by (simp add: demo_security_def)
  moreover have "i < 2 ^ 128" using assms(2) by simp
  ultimately show ?thesis
    using assms demo_places demo_year demo_texts demo_instant
    unfolding exportable_def by (simp add: Let_def demo_transaction_def demo_market [simplified])
qed

definition demo_file :: "transaction_row list \<Rightarrow> string" where
  "demo_file ts = byte_order_mark @ csv_write (portfolio_csv_header # map (transaction_line (demo_db [] []) demo_portfolio) ts)"

lemma demo_file_size:
  assumes "\<forall>t \<in> set ts. \<forall>f \<in> set (transaction_line (demo_db [] []) demo_portfolio t). length f \<le> 40" and "length ts \<le> 5"
  shows "length (demo_file ts) \<le> max_upload_size"
proof -
  let ?lines = "map (transaction_line (demo_db [] []) demo_portfolio) ts"
  have size: "length (csv_row r) \<le> 1000" if "r = portfolio_csv_header \<or> r \<in> set ?lines" for r
  proof -
    have "\<forall>f \<in> set r. length f \<le> 40" using that assms(1) by (auto simp: portfolio_csv_header_def)
    moreover have "length r = 12" using that by (auto simp: csv_header_length transaction_line_def Let_def)
    ultimately show ?thesis using csv_row_length [of r 40] by simp
  qed
  have "length (csv_write rs) \<le> 1000 * length rs" if "\<forall>r \<in> set rs. length (csv_row r) \<le> 1000" for rs
    using that by (induction rs) (auto simp: csv_write_def)
  from this [of "portfolio_csv_header # ?lines"] size have
    "length (csv_write (portfolio_csv_header # ?lines)) \<le> 1000 * Suc (length ts)" by simp
  then show ?thesis using assms(2) by (simp add: demo_file_def byte_order_mark_def max_upload_size_def)
qed

lemma demo_preview:
  assumes "\<forall>t \<in> set ts. exportable (demo_db old []) demo_portfolio t \<and> importable_lot t"
    and "length (demo_file ts) \<le> max_upload_size" and "length ts \<le> 5"
    and "stored_log 10 20 (demo_db old []) = Inr existing"
    and "simulated_replay existing 20 clock (map2 (exported_candidate (demo_db old [])) [2..<2 + length ts] ts) = Inr ()"
  shows "\<exists>p. preview_portfolio_csv (demo_db old []) fresh clock 10 (demo_file ts) (Some 20) = Inr p \<and>
    pp_user_id p = 10 \<and> pp_invalid_rows p = 0 \<and>
    pp_transactions p = map2 (exported_candidate (demo_db old [])) [2..<2 + length ts] ts"
proof -
  let ?db = "demo_db old []"
  let ?ns = "[2..<2 + length ts]" and ?sc = "scan_rows ?db fresh portfolio_csv_header (map (transaction_line ?db demo_portfolio) ts)"
  have len: "length ?ns = length ts" by (simp only: length_upt diff_add_inverse)
  have every: "filter (\<lambda>(n, t). importable_lot t) (zip ?ns ts) = zip ?ns ts"
    "filter (\<lambda>(n, t). \<not> importable_lot t) (zip ?ns ts) = []"
    using assms(1) by (auto simp: filter_id_conv filter_empty_conv dest!: set_zip_rightD)
  have known: "\<forall>t \<in> set ts. exportable ?db demo_portfolio t \<and> known_lot t"
    using assms(1) by (auto simp: importable_lot_def known_lot_def)
  have scan: "sc_candidates ?sc = map (\<lambda>(n, t). exported_candidate ?db n t) (zip ?ns ts)" "sc_errors ?sc = []"
    using scan_exported [OF known, of ?ns fresh empty_scan]
    unfolding scan_rows_def length_map every by (simp_all add: Let_def empty_scan_def del: upt_Suc)
  have line: "transaction_line (demo_db [] []) = transaction_line ?db"
    by (intro ext) (simp add: transaction_line_def security_of_def demo_db_def)
  have "oversell_errors ?db 10 (Some 20) fresh clock ?sc = Inr []"
    using assms(4,5) by (simp add: oversell_errors_def scan stored_log_def)
  moreover have "read_table expected_columns (demo_file ts) = Inr (portfolio_csv_header, map (transaction_line ?db demo_portfolio) ts)"
    unfolding demo_file_def line by (rule read_exported_table) (use assms(1,2) in \<open>simp_all add: demo_file_def line\<close>)
  moreover have "\<not> max_import_rows < length ts" using assms(3) by (simp add: max_import_rows_def)
  ultimately have "preview_portfolio_csv ?db fresh clock 10 (demo_file ts) (Some 20) =
      Inr (portfolio_preview_of 10 (Some 20) (fresh 0) (length ts) ?sc [])"
    by (simp add: preview_portfolio_csv_def scan(2) Let_def)
  then show ?thesis by (simp add: portfolio_preview_of_def scan(1) del: upt_Suc)
qed

lemma demo_empty_log: "stored_log 10 20 (demo_db [] []) = Inr []"
  by (simp add: stored_log_def live_transactions_def demo_db_def)

lemma demo_row_ok:
  assumes "side \<in> {''BUY'', ''SELL''}" and "i < 1000"
  shows "exportable (demo_db ts cs) demo_portfolio (demo_row i side)" and "importable_lot (demo_row i side)"
proof -
  show "exportable (demo_db ts cs) demo_portfolio (demo_row i side)"
    unfolding demo_row_def by (rule demo_exportable [OF assms]) simp
  show "importable_lot (demo_row i side)" by (simp add: importable_lot_def demo_row_def demo_transaction_def)
qed

definition demo_candidate :: "nat \<Rightarrow> uuid \<Rightarrow> string \<Rightarrow> candidate" where
  "demo_candidate n i side = exported_candidate (demo_db [] []) n (demo_row i side)"

lemma demo_candidate_fields [simp]:
  "cd_transaction_id (demo_candidate n i side) = i" "cd_security_id (demo_candidate n i side) = 30"
  "cd_side (demo_candidate n i side) = (if side = ''BUY'' then BUY else SELL)"
  "cd_quantity_shares (demo_candidate n i side) = 1000" "cd_executed_at (demo_candidate n i side) = demo_time"
  by (simp_all add: demo_candidate_def exported_candidate_def demo_row_def demo_transaction_def Let_def)
    (simp add: demo_security_def)

lemma demo_finite: "side \<in> {''BUY'', ''SELL''} \<Longrightarrow> i < 1000 \<Longrightarrow> finite_amounts (demo_candidate n i side)"
  unfolding demo_candidate_def by (rule exported_candidate_fields(5) [OF demo_row_ok(1)])

lemma demo_constraints:
  assumes "distinct (map tn_id ts)" and "distinct (map ch_sequence cs)"
    and "\<forall>t \<in> set ts. tn_security_id t = 30 \<and> tn_portfolio_id t = 20"
  shows "user_constraints (demo_db ts cs)"
  using assms by (auto simp: user_constraints_def demo_db_def demo_security_def demo_portfolio_def)

lemma demo_live: "live_portfolio 10 20 (demo_db ts cs) = Some demo_portfolio"
  by (simp add: live_portfolio_def demo_db_def demo_portfolio_def)

definition demo_store :: "portfolio_preview \<Rightarrow> preview_store" where
  "demo_store p = Memory [(7, Portfolio_preview p)]"

lemma demo_usable:
  "pp_user_id p = 10 \<Longrightarrow> pp_invalid_rows p = 0 \<Longrightarrow> usable_preview 10 7 (demo_store p) = Inr (Portfolio_preview p)"
  by (simp add: usable_preview_def demo_store_def)

text \<open>Applied to the empty portfolio, such a preview is stored as it is.\<close>

lemma demo_applied:
  assumes "pp_user_id p = 10" and "pp_invalid_rows p = 0"
    and "pp_transactions p = cs" and "distinct (map cd_transaction_id cs)" and "\<forall>c \<in> set cs. cd_security_id c = 30"
    and "list_all finite_amounts cs"
  shows "\<exists>out store' db'. apply_portfolio_import 10 7 20 demo_time (demo_store p) (demo_db [] []) = Inr (out, store', db') \<and>
    io_inserted_count out = length cs \<and> io_skipped_count out = 0 \<and> db' = with_imports 10 20 demo_time 0 cs (demo_db [] [])"
proof -
  have all: "new_candidates known cs = cs" if "distinct (map cd_transaction_id cs)" "\<forall>c \<in> set cs. cd_transaction_id c \<notin> known" for known cs
    using that
  proof (induction cs arbitrary: known)
    case (Cons c cs)
    have "cd_transaction_id d \<noteq> cd_transaction_id c" if "d \<in> set cs" for d
      using Cons.prems(1) that by (metis distinct.simps(2) imageI list.map(2) set_map)
    then have "new_candidates (insert (cd_transaction_id c) known) cs = cs"
      by (intro Cons.IH) (use Cons.prems in auto)
    then show ?case using Cons.prems(2) by simp
  qed simp
  have "known_ids 10 (demo_db [] []) = {}" by (simp add: known_ids_def demo_db_def)
  then have new: "new_candidates (known_ids 10 (demo_db [] [])) cs = cs" using all assms(4) by simp
  have cursor: "change_cursor 10 (demo_db [] []) = 0" by (simp add: change_cursor_def demo_db_def)
  have "with_imports 10 20 demo_time 0 cs (demo_db [] []) =
      demo_db (map (imported_row 10 20 demo_time) cs) (numbered_changes 10 20 demo_time 0 cs)"
    by (simp add: with_imports_def demo_db_def)
  moreover have "user_constraints (demo_db (map (imported_row 10 20 demo_time) cs) (numbered_changes 10 20 demo_time 0 cs))"
    by (rule demo_constraints) (use assms(4,5) in \<open>auto simp: imported_row_def numbered_sequences distinct_map inj_on_def\<close>)
  ultimately show ?thesis
    using apply_outcome [OF demo_usable [OF assms(1,2)], of 20 "demo_db [] []" demo_time] demo_live assms(3,6)
    by (simp add: Let_def new cursor)
qed

lemma demo_replays:
  assumes "cs = [demo_candidate 2 50 ''BUY''] \<or> cs = [demo_candidate 2 50 ''BUY'', demo_candidate 3 40 ''SELL'']"
  shows "simulated_replay [] 20 int cs = Inr ()"
proof -
  let ?log = "candidate_log 20 int cs"
  have "sort_key replay_order ?log = ?log"
    using assms by (auto simp: candidate_log_def replay_order_def candidate_transaction_def less_eq_prod_def)
  moreover have "covered [] " by (simp add: covered_def)
  then have "covered ([] @ [candidate_transaction 20 0 (demo_candidate 2 50 ''BUY'')])"
    by (subst covered_step) (simp_all add: candidate_transaction_def)
  then have "covered ([candidate_transaction 20 0 (demo_candidate 2 50 ''BUY'')] @ (if length cs = 1 then [] else
      [candidate_transaction 20 1 (demo_candidate 3 40 ''SELL'')]))"
    using covered_step [of "[candidate_transaction 20 0 (demo_candidate 2 50 ''BUY'')]" "candidate_transaction 20 1 (demo_candidate 3 40 ''SELL'')"]
    by (simp add: candidate_transaction_def)
  then have "covered ?log" using assms by (auto simp: candidate_log_def)
  moreover have "positive_shares ?log"
    using assms by (auto simp: positive_shares_def candidate_log_def candidate_transaction_def)
  ultimately have "\<exists>ps. replay ?log = Inr ps" using replay_outcome [of ?log] by simp
  moreover have "list_all finite_amounts cs" using assms demo_finite by auto
  ultimately show ?thesis by (auto simp: simulated_replay_def)
qed

section \<open>Imports of transactions\<close>

definition direct_preview :: portfolio_preview where
  "direct_preview = \<lparr>pp_token = 7, pp_user_id = 10, pp_portfolio_id = Some 20, pp_total_rows = 1, pp_valid_rows = 1,
     pp_invalid_rows = 0, pp_warning_rows = 0, pp_duplicate_rows = 0, pp_transactions = [demo_candidate 2 50 ''BUY''],
     pp_errors = [], pp_warnings = []\<rparr>"

theorem import_applied_once_witness:
  "\<exists>out store' db'. apply_portfolio_import 10 7 20 demo_time (demo_store direct_preview) (demo_db [] []) = Inr (out, store', db') \<and>
    apply_portfolio_import 10 7 20 (demo_time + 5) store' db' = Inl (AppError ''IMPORT_PREVIEW_EXPIRED'' 404)"
proof -
  obtain out store' db' where
    "apply_portfolio_import 10 7 20 demo_time (demo_store direct_preview) (demo_db [] []) = Inr (out, store', db')"
    using demo_applied [of direct_preview "[demo_candidate 2 50 ''BUY'']"] demo_finite [of "''BUY''" 50 2]
    by (auto simp: direct_preview_def)
  then show ?thesis using import_applied_once [of 10 7 20 demo_time "demo_store direct_preview" "demo_db [] []" out store' db' "demo_time + 5"]
    unfolding Let_def by blast
qed

definition foreign_change :: sync_change where
  "foreign_change = \<lparr>ch_sequence = 1, ch_user_id = 11, ch_entity = Portfolio, ch_entity_id = 90, ch_operation = UPSERT,
     ch_version = 1, ch_payload = [], ch_changed_at = demo_time\<rparr>"

theorem import_blocked_by_other_user_witness:
  "apply_portfolio_import 10 7 20 demo_time (demo_store direct_preview) (demo_db [] [foreign_change]) = Inl IntegrityError"
proof (rule import_blocked_by_other_user)
  show "usable_preview 10 7 (demo_store direct_preview) = Inr (Portfolio_preview direct_preview)"
    by (rule demo_usable) (simp_all add: direct_preview_def)
  show "live_portfolio 10 20 (demo_db [] [foreign_change]) \<noteq> None" by (simp add: demo_live)
  show "foreign_change \<in> set (ud_changes (demo_db [] [foreign_change]))" by (simp add: demo_db_def)
qed (simp_all add: foreign_change_def change_cursor_def demo_db_def direct_preview_def known_ids_def)

theorem import_keeps_portfolio_replayable_witness:
  "\<exists>p out store' db' ts ps.
     preview_portfolio_csv (demo_db [] []) id int 10 (demo_file [demo_row 50 ''BUY'']) (Some 20) = Inr p \<and>
     apply_portfolio_import 10 7 20 demo_time (demo_store p) (demo_db [] []) = Inr (out, store', db') \<and>
     stored_log 10 20 db' = Inr ts \<and> replay ts = Inr ps"
proof -
  let ?c = "demo_candidate 2 50 ''BUY''"
  have listed: "map2 (exported_candidate (demo_db [] [])) [2..<2 + length [demo_row 50 ''BUY'']] [demo_row 50 ''BUY''] = [?c]"
    by (simp add: upt_rec demo_candidate_def)
  have size: "length (demo_file [demo_row 50 ''BUY'']) \<le> max_upload_size"
    by (rule demo_file_size) (use demo_fields [of "''BUY''" "''BOARD_LOT''"] in \<open>simp_all add: demo_row_def\<close>)
  have sim: "simulated_replay [] 20 int [?c] = Inr ()" by (rule demo_replays) simp
  obtain p where p: "preview_portfolio_csv (demo_db [] []) id int 10 (demo_file [demo_row 50 ''BUY'']) (Some 20) = Inr p"
    "pp_user_id p = 10" "pp_invalid_rows p = 0" "pp_transactions p = [?c]"
    using demo_preview [of "[demo_row 50 ''BUY'']" "[]" "[]" int id, OF _ _ _ demo_empty_log] demo_row_ok [of "''BUY''" 50] size sim unfolding listed by auto
  obtain out store' db' where applied:
    "apply_portfolio_import 10 7 20 demo_time (demo_store p) (demo_db [] []) = Inr (out, store', db')"
    "io_inserted_count out = 1" "io_skipped_count out = 0" "db' = with_imports 10 20 demo_time 0 [?c] (demo_db [] [])"
    using demo_applied [OF p(2,3,4)] demo_finite [of "''BUY''" 50 2] by auto
  have empty: "live_transactions 10 20 (demo_db [] []) = []" by (simp add: live_transactions_def demo_db_def)
  have "\<exists>ts ps. stored_log 10 20 db' = Inr ts \<and> replay ts = Inr ps"
    by (rule import_keeps_portfolio_replayable [OF p(1) demo_usable [OF p(2,3)] refl applied(1)])
      (simp_all add: applied(2,3,4) live_after_import empty)
  then show ?thesis using p(1) applied(1) by blast
qed

theorem same_second_import_breaks_portfolio_witness:
  "\<exists>p out store' db' ts.
     preview_portfolio_csv (demo_db [] []) id int 10 (demo_file [demo_row 50 ''BUY'', demo_row 40 ''SELL'']) (Some 20) = Inr p \<and>
     apply_portfolio_import 10 7 20 demo_time (demo_store p) (demo_db [] []) = Inr (out, store', db') \<and>
     stored_log 10 20 db' = Inr ts \<and> replay ts = Inl insufficient_position"
proof -
  let ?rows = "[demo_row 50 ''BUY'', demo_row 40 ''SELL'']" and ?b = "demo_candidate 2 50 ''BUY''" and ?s = "demo_candidate 3 40 ''SELL''"
  have listed: "map2 (exported_candidate (demo_db [] [])) [2..<2 + length ?rows] ?rows = [?b, ?s]"
    by (simp add: upt_rec demo_candidate_def)
  have size: "length (demo_file ?rows) \<le> max_upload_size"
    by (rule demo_file_size) (use demo_fields [of "''BUY''" "''BOARD_LOT''"] demo_fields [of "''SELL''" "''BOARD_LOT''"] in
      \<open>simp_all add: demo_row_def\<close>)
  have sim: "simulated_replay [] 20 int [?b, ?s] = Inr ()" by (rule demo_replays) simp
  obtain p where p: "preview_portfolio_csv (demo_db [] []) id int 10 (demo_file ?rows) (Some 20) = Inr p"
    "pp_user_id p = 10" "pp_invalid_rows p = 0" "pp_transactions p = [?b, ?s]"
    using demo_preview [of ?rows "[]" "[]" int id, OF _ _ _ demo_empty_log] demo_row_ok [of "''BUY''" 50] demo_row_ok [of "''SELL''" 40] size sim
    unfolding listed by auto
  obtain out store' db' where applied:
    "apply_portfolio_import 10 7 20 demo_time (demo_store p) (demo_db [] []) = Inr (out, store', db')" "io_skipped_count out = 0"
    using demo_applied [OF p(2,3,4)] demo_finite [of "''BUY''" 50 2] demo_finite [of "''SELL''" 40 3] by auto
  have "live_transactions 10 20 (demo_db [] []) = []" by (simp add: live_transactions_def demo_db_def)
  then have "\<exists>ts. stored_log 10 20 db' = Inr ts \<and> replay ts = Inl insufficient_position"
    by (intro same_second_import_breaks_portfolio [OF p(1) demo_usable [OF p(2,3)] applied(1) p(4) applied(2)]) simp_all
  then show ?thesis using p(1) applied(1) by blast
qed

text \<open>A stored purchase, and a file with that purchase and two sales of as many shares.\<close>

definition later_clock :: "nat \<Rightarrow> instant" where
  "later_clock k = demo_time + 1 + int k"

definition stored_buy :: portfolio_transaction where
  "stored_buy = \<lparr>t_id = 50, t_portfolio_id = 20, t_security_id = 30, t_security = \<lparr>sk_market = TWSE, sk_code = []\<rparr>,
     t_security_name = [], t_side = BUY, t_executed_at = demo_time, t_quantity_shares = 1000, t_price = 900, t_fee = 20,
     t_lot_type = BOARD_LOT, t_created_at = demo_time, t_updated_at = demo_time\<rparr>"

lemma stored_buy_log: "stored_log 10 20 (demo_db [demo_row 50 ''BUY''] []) = Inr [stored_buy]"
  by (simp add: stored_log_def live_transactions_def demo_db_def demo_row_def demo_transaction_def stored_transaction_def stored_buy_def
      side_of_text_def lot_of_text_def)

lemma double_count_replays:
  "simulated_replay [stored_buy] 20 later_clock
     [demo_candidate 2 50 ''BUY'', demo_candidate 3 60 ''SELL'', demo_candidate 4 61 ''SELL''] = Inr ()"
proof -
  let ?cs = "[demo_candidate 2 50 ''BUY'', demo_candidate 3 60 ''SELL'', demo_candidate 4 61 ''SELL'']"
  let ?log = "[stored_buy] @ candidate_log 20 later_clock ?cs"
  have "covered []" by (simp add: covered_def)
  then have "covered ([] @ [stored_buy])" by (subst covered_step) (simp_all add: stored_buy_def)
  then have "covered ([stored_buy] @ [candidate_transaction 20 (later_clock 0) (demo_candidate 2 50 ''BUY'')])"
    by (subst covered_step) (simp_all add: candidate_transaction_def)
  then have "covered (([stored_buy] @ [candidate_transaction 20 (later_clock 0) (demo_candidate 2 50 ''BUY'')]) @
      [candidate_transaction 20 (later_clock 1) (demo_candidate 3 60 ''SELL'')])"
    by (subst covered_step) (simp_all add: candidate_transaction_def stored_buy_def)
  then have "covered ((([stored_buy] @ [candidate_transaction 20 (later_clock 0) (demo_candidate 2 50 ''BUY'')]) @
      [candidate_transaction 20 (later_clock 1) (demo_candidate 3 60 ''SELL'')]) @
      [candidate_transaction 20 (later_clock 2) (demo_candidate 4 61 ''SELL'')])"
    by (subst covered_step) (simp_all add: candidate_transaction_def stored_buy_def)
  moreover have "sort_key replay_order ?log = ?log"
    by (simp add: candidate_log_def replay_order_def candidate_transaction_def less_eq_prod_def stored_buy_def later_clock_def)
  moreover have "?log = (([stored_buy] @ [candidate_transaction 20 (later_clock 0) (demo_candidate 2 50 ''BUY'')]) @
      [candidate_transaction 20 (later_clock 1) (demo_candidate 3 60 ''SELL'')]) @
      [candidate_transaction 20 (later_clock 2) (demo_candidate 4 61 ''SELL'')]"
    by (simp add: candidate_log_def numeral_2_eq_2)
  ultimately have "covered (sort_key replay_order ?log)" by (simp only:)
  moreover have "positive_shares ?log"
    by (simp add: positive_shares_def candidate_log_def candidate_transaction_def stored_buy_def)
  ultimately have "\<exists>ps. replay ?log = Inr ps" using replay_outcome [of ?log] by simp
  moreover have "list_all finite_amounts ?cs" using demo_finite by simp
  ultimately show ?thesis by (auto simp: simulated_replay_def)
qed

theorem skipped_rows_break_portfolio_witness:
  "\<exists>p out store' db' ts.
     preview_portfolio_csv (demo_db [demo_row 50 ''BUY''] []) id later_clock 10
       (demo_file [demo_row 50 ''BUY'', demo_row 60 ''SELL'', demo_row 61 ''SELL'']) (Some 20) = Inr p \<and>
     apply_portfolio_import 10 7 20 demo_time (demo_store p) (demo_db [demo_row 50 ''BUY''] []) = Inr (out, store', db') \<and>
     stored_log 10 20 db' = Inr ts \<and> replay ts = Inl insufficient_position"
proof -
  let ?db = "demo_db [demo_row 50 ''BUY''] []"
  let ?rows = "[demo_row 50 ''BUY'', demo_row 60 ''SELL'', demo_row 61 ''SELL'']"
  let ?cs = "[demo_candidate 2 50 ''BUY'', demo_candidate 3 60 ''SELL'', demo_candidate 4 61 ''SELL'']"
  let ?ns = "[demo_candidate 3 60 ''SELL'', demo_candidate 4 61 ''SELL'']"
  have "exported_candidate ?db = exported_candidate (demo_db [] [])"
    by (intro ext) (simp add: exported_candidate_def security_of_def demo_db_def)
  then have listed: "map2 (exported_candidate ?db) [2..<2 + length ?rows] ?rows = ?cs"
    by (simp add: upt_rec demo_candidate_def)
  have size: "length (demo_file ?rows) \<le> max_upload_size"
    by (rule demo_file_size) (use demo_fields [of "''BUY''" "''BOARD_LOT''"] demo_fields [of "''SELL''" "''BOARD_LOT''"] in
      \<open>simp_all add: demo_row_def\<close>)
  obtain p where p: "preview_portfolio_csv ?db id later_clock 10 (demo_file ?rows) (Some 20) = Inr p"
    "pp_user_id p = 10" "pp_invalid_rows p = 0" "pp_transactions p = ?cs"
    using demo_preview [of ?rows "[demo_row 50 ''BUY'']" "[stored_buy]" later_clock id, OF _ _ _ stored_buy_log] size double_count_replays
      demo_row_ok [of "''BUY''" 50] demo_row_ok [of "''SELL''" 60] demo_row_ok [of "''SELL''" 61]
    unfolding listed by auto
  have ids: "known_ids 10 ?db = {50}" by (simp add: known_ids_def demo_db_def demo_row_def demo_transaction_def)
  have new: "new_candidates (known_ids 10 ?db) ?cs = ?ns" by (simp add: ids)
  have cursor: "change_cursor 10 ?db = 0" by (simp add: change_cursor_def demo_db_def)
  have "with_imports 10 20 demo_time 0 ?ns ?db =
      demo_db (demo_row 50 ''BUY'' # map (imported_row 10 20 demo_time) ?ns) (numbered_changes 10 20 demo_time 0 ?ns)"
    by (simp add: with_imports_def demo_db_def)
  moreover have "user_constraints (demo_db (demo_row 50 ''BUY'' # map (imported_row 10 20 demo_time) ?ns) (numbered_changes 10 20 demo_time 0 ?ns))"
    by (rule demo_constraints) (auto simp: imported_row_def demo_row_def demo_transaction_def imported_change_def)
  ultimately obtain out store' db' where applied:
    "apply_portfolio_import 10 7 20 demo_time (demo_store p) ?db = Inr (out, store', db')"
    using apply_outcome [OF demo_usable [OF p(2,3)], of 20 ?db demo_time] demo_live p(4) demo_finite
    by (simp add: Let_def ids cursor)
  have live: "\<forall>t \<in> set (live_transactions 10 20 ?db). 0 < tn_quantity_shares t"
    by (simp add: live_transactions_def demo_db_def demo_row_def demo_transaction_def)
  have "net_shares 30 ([stored_buy] @ candidate_log 20 later_clock ?ns) < 0"
    by (simp add: candidate_log_def candidate_transaction_def stored_buy_def)
  then have "net_shares 30 ([stored_buy] @ candidate_log 20 later_clock (new_candidates (known_ids 10 ?db) (pp_transactions p))) < 0"
    by (simp only: p(4) new)
  from skipped_rows_break_portfolio [OF p(1) demo_usable [OF p(2,3)] _ applied live stored_buy_log this] p(4)
  have "\<exists>ts. stored_log 10 20 db' = Inr ts \<and> replay ts = Inl insufficient_position" by simp
  then show ?thesis using p(1) applied by blast
qed

section \<open>Imports of watchlists\<close>

definition demo_watchlist :: watchlist_row where
  "demo_watchlist = \<lparr>wl_id = 60, wl_user_id = Some 10, wl_name = ''Tech'', wl_sort_order = 0, wl_version = 1,
     wl_created_at = demo_time, wl_updated_at = demo_time, wl_deleted_at = None\<rparr>"

definition demo_item :: "instant option \<Rightarrow> item_row" where
  "demo_item deleted = \<lparr>wi_id = 70, wi_user_id = Some 10, wi_watchlist_id = 60, wi_security_id = 30, wi_sort_order = 0,
     wi_note = None, wi_target_price = None, wi_stop_price = None, wi_add_price = None, wi_version = 1,
     wi_created_at = demo_time, wi_updated_at = demo_time, wi_deleted_at = deleted\<rparr>"

definition watch_db :: "watchlist_row list \<Rightarrow> item_row list \<Rightarrow> user_db" where
  "watch_db ws its = (demo_db [] [])\<lparr>ud_watchlists := ws, ud_items := its\<rparr>"

definition demo_watch_item :: watch_item where
  "demo_watch_item = \<lparr>wt_row_number = 2, wt_security_id = 30, wt_market = ''TWSE'', wt_code = ''2330'', wt_name = ''TSMC'',
     wt_note = None, wt_target_price = None, wt_stop_price = None, wt_add_price = None\<rparr>"

definition demo_group :: watch_group where
  "demo_group = \<lparr>wg_group_name = ''Tech'', wg_group_id = uuid_text 60, wg_items = [demo_watch_item]\<rparr>"

definition watch_preview :: watchlist_preview where
  "watch_preview = \<lparr>wp_token = 7, wp_user_id = 10, wp_merge_mode = ''MERGE'', wp_total_rows = 1, wp_valid_rows = 1,
     wp_invalid_rows = 0, wp_groups = [demo_group], wp_errors = []\<rparr>"

definition watch_store :: preview_store where
  "watch_store = Memory [(7, Watchlist_preview watch_preview)]"

lemma watch_usable: "usable_preview 10 7 watch_store = Inr (Watchlist_preview watch_preview)"
  by (simp add: usable_preview_def watch_store_def watch_preview_def)

lemma demo_group_id: "uuid_of_text (wg_group_id demo_group) = Some 60"
  by (simp add: demo_group_def uuid_round_trip)

theorem watchlist_import_only_adds_witness:
  "\<exists>ng ni store' db'. apply_watchlist_import 10 7 ''MERGE'' demo_time (\<lambda>k. 80 + k) watch_store (watch_db [] []) = Inr ((ng, ni), store', db') \<and>
    (\<exists>ws its cs. db' = (watch_db [] [])\<lparr>ud_watchlists := ws, ud_items := its, ud_changes := cs\<rparr> \<and> length ws = ng \<and> length its = ni)"
proof -
  have runs: "\<exists>r. apply_watchlist_import 10 7 ''MERGE'' demo_time (\<lambda>k. 80 + k) watch_store (watch_db [] []) = Inr r"
    using demo_group_id
    by (simp add: apply_watchlist_import_def watch_usable watch_preview_def import_group_def open_group_def add_item_def demo_group_def
      demo_watch_item_def infinite_price_def flush_user_def user_constraints_def watch_db_def demo_db_def Let_def add_change_def
      log_change_def change_cursor_def demo_security_def upt_rec)
  then obtain ng ni store' db' where
    r: "apply_watchlist_import 10 7 ''MERGE'' demo_time (\<lambda>k. 80 + k) watch_store (watch_db [] []) = Inr ((ng, ni), store', db')"
    by auto
  have "ud_watchlists (watch_db [] []) = []" "ud_items (watch_db [] []) = []" "ud_changes (watch_db [] []) = []"
    by (simp_all add: watch_db_def demo_db_def)
  then show ?thesis using r watchlist_import_only_adds [OF r] by fastforce
qed

theorem replace_fails_for_known_group_witness:
  "apply_watchlist_import 10 7 ''REPLACE'' demo_time (\<lambda>k. 80 + k) watch_store (watch_db [demo_watchlist] []) = Inl IntegrityError"
  by (rule replace_fails_for_known_group [OF watch_usable _ demo_group_id, of "[]"])
    (simp_all add: watch_preview_def watch_db_def demo_watchlist_def)

theorem removed_security_cannot_be_imported_witness:
  "apply_watchlist_import 10 7 ''MERGE'' demo_time (\<lambda>k. 80 + k) watch_store
     (watch_db [demo_watchlist] [demo_item (Some demo_time)]) = Inl IntegrityError"
  by (rule removed_security_cannot_be_imported [OF watch_usable, of demo_group "[]" demo_watch_item "[]" _ _ demo_watchlist
      "demo_item (Some demo_time)"])
    (simp_all add: watch_preview_def watch_db_def demo_watchlist_def demo_group_def demo_item_def demo_watch_item_def live_watchlist_def)

section \<open>Exports\<close>

lemma demo_log: "live_transactions 10 20 (demo_db [demo_transaction 50 ''BUY'' demo_time lot] cs) = [demo_transaction 50 ''BUY'' demo_time lot]"
  by (simp add: live_transactions_def demo_db_def demo_transaction_def)

theorem statements_raise_for_any_transaction_witness:
  "export_portfolio_holdings_csv 10 20 (demo_db [demo_row 50 ''BUY''] []) = Inl AttributeError"
  using statements_raise_for_any_transaction [OF demo_live, of "demo_row 50 ''BUY''" "[demo_row 50 ''BUY'']" "[]"]
    demo_constraints [of "[demo_row 50 ''BUY'']" "[]"] demo_log [of "''BOARD_LOT''" "[]"]
  by (simp add: demo_row_def demo_transaction_def)

lemma demo_export:
  assumes "\<forall>f \<in> set (transaction_line (demo_db [] []) demo_portfolio t). length f \<le> 40"
    and "live_transactions 10 20 (demo_db [t] []) = [t]"
  shows "export_portfolio_transactions_csv 10 20 (demo_db [t] []) = Inr (demo_file [t])" and
    "length (demo_file [t]) \<le> max_upload_size"
proof -
  have "transaction_line (demo_db [t] []) demo_portfolio t = transaction_line (demo_db [] []) demo_portfolio t"
    by (simp add: transaction_line_def security_of_def demo_db_def)
  then show "export_portfolio_transactions_csv 10 20 (demo_db [t] []) = Inr (demo_file [t])"
    using assms(2) by (simp add: export_portfolio_transactions_csv_def require_user_portfolio_def demo_live ordered_transactions_def demo_file_def)
  show "length (demo_file [t]) \<le> max_upload_size" by (rule demo_file_size) (use assms(1) in simp_all)
qed

theorem exported_file_previews_witness:
  "\<exists>p. preview_portfolio_csv (demo_db [demo_row 50 ''BUY''] []) id int 10 (demo_file [demo_row 50 ''BUY'']) None = Inr p \<and>
    pp_errors p = [] \<and> map cd_transaction_id (pp_transactions p) = [50]"
proof -
  let ?db = "demo_db [demo_row 50 ''BUY''] []"
  have live: "live_transactions 10 20 ?db = [demo_row 50 ''BUY'']" using demo_log by (simp add: demo_row_def)
  have fields: "\<forall>f \<in> set (transaction_line (demo_db [] []) demo_portfolio (demo_row 50 ''BUY'')). length f \<le> 40"
    unfolding demo_row_def by (rule demo_fields) simp_all
  obtain t where t: "stored_log 10 20 ?db = Inr [t]" "t_side t = BUY" "t_quantity_shares t = 1000"
    unfolding stored_log_def live by (simp add: stored_transaction_def demo_row_def demo_transaction_def side_of_text_def lot_of_text_def)
  have "covered ([] @ [t])" by (subst covered_step) (simp_all add: t covered_def)
  moreover have "positive_shares [t]" by (simp add: positive_shares_def t)
  ultimately obtain ps where ps: "replay [t] = Inr ps" using replay_outcome [of "[t]"] by auto
  have ready: "\<forall>t \<in> set (live_transactions 10 20 ?db). \<forall>pf. live_portfolio 10 20 ?db = Some pf \<longrightarrow>
      exportable ?db pf t \<and> importable_lot t"
    unfolding live demo_live using demo_row_ok [of "''BUY''" 50] by simp
  obtain p where p: "preview_portfolio_csv ?db id int 10 (demo_file [demo_row 50 ''BUY'']) None = Inr p" "pp_errors p = []"
    "pp_transactions p = map2 (exported_candidate ?db) [2..<2 + length (live_transactions 10 20 ?db)] (ordered_transactions 10 20 ?db)"
    using exported_file_previews [OF demo_export(1) [OF fields live] ready t(1) ps demo_export(2) [OF fields live], where clock = int and fresh = id]
    unfolding live max_import_rows_def by auto
  have "pp_transactions p = [exported_candidate ?db 2 (demo_row 50 ''BUY'')]"
    unfolding p(3) live ordered_transactions_def by (simp add: upt_rec)
  then have "map cd_transaction_id (pp_transactions p) = [50]"
    by (simp add: exported_candidate_def Let_def demo_row_def demo_transaction_def)
  with p(1,2) show ?thesis by (intro exI conjI)
qed

theorem round_lot_file_is_refused_witness:
  "\<exists>p. preview_portfolio_csv (demo_db [demo_transaction 50 ''BUY'' demo_time ''ROUND_LOT''] []) id int 10
      (demo_file [demo_transaction 50 ''BUY'' demo_time ''ROUND_LOT'']) (Some 20) = Inr p \<and>
    0 < pp_invalid_rows p \<and> pp_transactions p = []"
proof -
  let ?t = "demo_transaction 50 ''BUY'' demo_time ''ROUND_LOT''"
  have fields: "\<forall>f \<in> set (transaction_line (demo_db [] []) demo_portfolio ?t). length f \<le> 40"
    by (rule demo_fields) simp_all
  have "exportable (demo_db [?t] []) demo_portfolio ?t" by (rule demo_exportable) simp_all
  moreover have "known_lot ?t" "tn_lot_type ?t = ''ROUND_LOT''" by (simp_all add: known_lot_def demo_transaction_def)
  ultimately show ?thesis
    by (intro round_lot_file_is_refused [OF demo_export(1), where t = ?t])
      (use fields demo_log demo_export(2) [OF fields] in \<open>simp_all add: demo_live max_import_rows_def\<close>)
qed

end
