(* ===== verification/PyQuantize.thy ===== *)
theory PyQuantize
  imports PyDecimal
begin

text \<open>
  \<open>Decimal.quantize\<close>: rounding to a fixed number of places with a rounding mode, exact apart
  from that, and the \<open>InvalidOperation\<close> it signals when the coefficient does not fit into the
  28 digits of the context. The locale \<open>integer_rounding\<close> states what the calculations need
  of a rounding mode; it is interpreted on both modes the services use.
\<close>

locale integer_rounding =
  fixes r :: "rat \<Rightarrow> int"
  assumes r_mono: "x \<le> y \<Longrightarrow> r x \<le> r y"
    and r_of_int: "r (of_int n) = n"
    and r_error: "\<bar>of_int (r x) - x\<bar> \<le> 1 / 2"
begin

lemma r_upper: "x \<le> of_int n \<Longrightarrow> r x \<le> n"
  using r_mono [of x "of_int n"] by (simp add: r_of_int)

lemma r_lower: "of_int n \<le> x \<Longrightarrow> n \<le> r x"
  using r_mono [of "of_int n" x] by (simp add: r_of_int)

end

text \<open>\<open>ROUND_HALF_UP\<close>: to the nearest integer, ties away from zero.\<close>

definition round_half_up :: "rat \<Rightarrow> int" where
  "round_half_up x = (if 0 \<le> x then \<lfloor>x + 1 / 2\<rfloor> else - \<lfloor>1 / 2 - x\<rfloor>)"

lemma round_half_up_error: "\<bar>of_int (round_half_up x) - x\<bar> \<le> 1 / 2"
proof (cases "0 \<le> x")
  case True
  moreover have "of_int \<lfloor>x + 1 / 2\<rfloor> - x \<le> 1 / 2" and "x + 1 / 2 < of_int \<lfloor>x + 1 / 2\<rfloor> + 1" by linarith+
  ultimately show ?thesis unfolding round_half_up_def abs_le_iff by simp
next
  case False
  moreover have "of_int \<lfloor>1 / 2 - x\<rfloor> + x \<le> 1 / 2" and "1 / 2 - x < of_int \<lfloor>1 / 2 - x\<rfloor> + 1" by linarith+
  ultimately show ?thesis unfolding round_half_up_def abs_le_iff by simp
qed

lemma round_half_up_mono:
  assumes "x \<le> y"
  shows "round_half_up x \<le> round_half_up y"
proof -
  consider "0 \<le> x" | "x < 0" "0 \<le> y" | "y < 0" by linarith
  then show ?thesis
  proof cases
    case 1
    with assms show ?thesis by (simp add: round_half_up_def floor_mono)
  next
    case 2
    then have "0 \<le> \<lfloor>1 / 2 - x\<rfloor>" and "0 \<le> \<lfloor>y + 1 / 2\<rfloor>" by (simp_all add: zero_le_floor)
    with 2 have "- \<lfloor>1 / 2 - x\<rfloor> \<le> \<lfloor>y + 1 / 2\<rfloor>" by linarith
    with 2 show ?thesis by (simp add: round_half_up_def)
  next
    case 3
    with assms show ?thesis by (simp add: round_half_up_def floor_mono)
  qed
qed

interpretation half_up: integer_rounding round_half_up
proof
  show "round_half_up (of_int n) = n" for n
    by (auto simp: round_half_up_def floor_eq_iff)
qed (fact round_half_up_mono, fact round_half_up_error)

interpretation half_even: integer_rounding round_half_even
  by unfold_locales (fact round_half_even_mono, simp, fact round_half_even_error)

text \<open>\<open>quantize r k x\<close> is \<open>x.quantize(Decimal(1).scaleb(-k), r)\<close> in the default context.\<close>

definition quantize :: "(rat \<Rightarrow> int) \<Rightarrow> nat \<Rightarrow> decimal \<Rightarrow> decimal result" where
  "quantize r k x =
     (let c = r (x * 10 ^ k) in
      if \<bar>c\<bar> < 10 ^ prec then Inr (of_int c / 10 ^ k) else Inl DecimalError)"

context integer_rounding
begin

lemma quantize_mono:
  assumes "quantize r k x = Inr u" and "quantize r k y = Inr v" and "x \<le> y"
  shows "u \<le> v"
proof -
  have "r (x * 10 ^ k) \<le> r (y * 10 ^ k)"
    using assms(3) by (intro r_mono mult_right_mono) simp_all
  then have "rat_of_int (r (x * 10 ^ k)) \<le> of_int (r (y * 10 ^ k))"
    by (simp only: of_int_le_iff)
  with assms(1,2) show ?thesis
    by (auto simp: quantize_def Let_def split: if_splits intro: divide_right_mono)
qed

text \<open>A value between two integers of at most 18 digits is quantized, to a value between them.\<close>

lemma quantize_range:
  assumes lo: "of_int a \<le> x" and hi: "x \<le> of_int b"
    and a: "\<bar>a\<bar> < 10 ^ 18" and b: "\<bar>b\<bar> < 10 ^ 18" and k: "k \<le> 8"
  shows "\<exists>y. quantize r k x = Inr y \<and> of_int a \<le> y \<and> y \<le> of_int b"
proof -
  let ?c = "r (x * 10 ^ k)"
  have "of_int (a * 10 ^ k) \<le> x * 10 ^ k" using lo by (simp add: mult_right_mono)
  then have l: "a * 10 ^ k \<le> ?c" by (rule r_lower)
  have "x * 10 ^ k \<le> of_int (b * 10 ^ k)" using hi by (simp add: mult_right_mono)
  then have u: "?c \<le> b * 10 ^ k" by (rule r_upper)
  have p: "(10 :: int) ^ k \<le> 10 ^ 8" using k by (intro power_increasing) simp_all
  have bound: "\<bar>c\<bar> * 10 ^ k < 10 ^ prec" if "\<bar>c\<bar> < 10 ^ 18" for c :: int
  proof -
    have "\<bar>c\<bar> * 10 ^ k \<le> 10 ^ 18 * 10 ^ 8" using that p by (intro mult_mono) simp_all
    then show ?thesis by (simp add: prec_def)
  qed
  have "\<bar>a * 10 ^ k\<bar> < 10 ^ prec" and "\<bar>b * 10 ^ k\<bar> < 10 ^ prec"
    using bound [OF a] bound [OF b] by (simp_all add: abs_mult)
  then have small: "\<bar>?c\<bar> < 10 ^ prec" using l u by linarith
  have "rat_of_int (a * 10 ^ k) \<le> of_int ?c" and "rat_of_int ?c \<le> of_int (b * 10 ^ k)"
    using l u by (simp_all only: of_int_le_iff)
  then have "of_int a \<le> rat_of_int ?c / 10 ^ k \<and> rat_of_int ?c / 10 ^ k \<le> of_int b"
    by (simp add: field_simps)
  then show ?thesis using small by (simp add: quantize_def Let_def)
qed

lemma quantize_error:
  assumes "quantize r k x = Inr y"
  shows "\<bar>y - x\<bar> \<le> 1 / (2 * 10 ^ k)"
proof -
  have "y - x = (of_int (r (x * 10 ^ k)) - x * 10 ^ k) / 10 ^ k"
    using assms by (auto simp: quantize_def Let_def diff_divide_distrib split: if_splits)
  then have "\<bar>y - x\<bar> = \<bar>of_int (r (x * 10 ^ k)) - x * 10 ^ k\<bar> / 10 ^ k"
    by simp
  also have "\<dots> \<le> 1 / 2 / 10 ^ k" by (intro divide_right_mono r_error) simp
  finally show ?thesis by simp
qed

lemma quantize_of_places: "\<bar>n\<bar> < 10 ^ prec \<Longrightarrow> quantize r k (of_int n / 10 ^ k) = Inr (of_int n / 10 ^ k)"
  by (simp add: quantize_def r_of_int)

end

text \<open>Decimals with a few places are exact: \<open>of_int n / 10 ^ k\<close> has the digits of \<open>n\<close>.\<close>

lemma representable_places: "\<bar>n\<bar> < 10 ^ p \<Longrightarrow> representable p (of_int n / 10 ^ k)"
  unfolding representable_def
  by (rule exI [of _ n], rule exI [of _ "- int k"]) (simp add: power_int_minus divide_inverse)

lemma dround_places: "\<bar>n\<bar> < 10 ^ 28 \<Longrightarrow> dround prec (of_int n / 10 ^ k) = of_int n / 10 ^ k"
  by (simp add: prec_def dround_representable representable_places)

end
