(* ===== verification/RealtimeCache.thy ===== *)
theory RealtimeCache
  imports MarketTypes PyText "HOL-Library.Sublist"
begin

text \<open>
  The realtime quotes and intraday candles of \<open>app/domain/realtime.py\<close> and the Redis cache that
  holds them (\<open>app/services/realtime_cache.py\<close>). The keyspace the service uses is a record of
  maps, one per key prefix, and the list of published messages; a stored JSON document is the
  value it was dumped from. A sorted set of candles, whose members have distinct scores, is the
  list of them in the order of their scores. A stored quote has the time at which Redis drops it, and
  the keyspace has the clock of the server that decides it; the expiry of the other keys (one day for an
  open candle and a baseline, seven days for the candles of a security) is not modelled, the removal of
  old members by score is, relative to the time \<open>now\<close> of the call.
\<close>

declare split_paired_All [simp del] split_paired_Ex [simp del]

section \<open>Quotes and candles\<close>

datatype rt_status = RtLive | RtStale | RtDelayed | RtUnavailable

datatype session = REGULAR | AFTER_HOURS | UNKNOWN

text \<open>\<open>for session in TradingSession\<close>\<close>

definition all_sessions :: "session list" where
  "all_sessions = [REGULAR, AFTER_HOURS, UNKNOWN]"

datatype event_kind = SNAPSHOT | UPDATE

datatype intraday_interval = ONE_MINUTE | FIVE_MINUTES

fun minutes :: "intraday_interval \<Rightarrow> int" where
  "minutes ONE_MINUTE = 1"
| "minutes FIVE_MINUTES = 5"

record intraday_candle =
  ic_security_id :: string
  ic_market_id :: string
  ic_code :: string
  ic_interval :: intraday_interval
  ic_session :: session
  ic_bucket_start :: instant
  ic_bucket_end :: instant
  ic_open :: decimal
  ic_high :: decimal
  ic_low :: decimal
  ic_close :: decimal
  ic_volume :: int
  ic_turnover_amount :: "decimal option"
  ic_trade_count :: "int option"
  ic_first_sequence :: "int option"
  ic_last_sequence :: "int option"
  ic_quote_count :: int
  ic_is_final :: bool
  ic_data_status :: rt_status
  ic_provider :: string
  ic_created_at :: instant
  ic_updated_at :: instant

record realtime_quote =
  rq_security_id :: string
  rq_market_id :: string
  rq_code :: string
  rq_exchange_timestamp :: instant
  rq_received_at :: instant
  rq_last_price :: decimal
  rq_last_size :: int
  rq_open_price :: "decimal option"
  rq_high_price :: "decimal option"
  rq_low_price :: "decimal option"
  rq_previous_close :: "decimal option"
  rq_total_volume :: int
  rq_turnover_amount :: "decimal option"
  rq_bid_price :: "decimal option"
  rq_bid_size :: "int option"
  rq_ask_price :: "decimal option"
  rq_ask_size :: "int option"
  rq_bid_prices :: "decimal list option"
  rq_bid_volumes :: "int list option"
  rq_ask_prices :: "decimal list option"
  rq_ask_volumes :: "int list option"
  rq_change :: "decimal option"
  rq_change_percent :: "decimal option"
  rq_session :: session
  rq_sequence :: "int option"
  rq_data_status :: rt_status
  rq_provider :: string
  rq_delay_seconds :: int
  rq_source_timestamp :: "instant option"
  rq_event_kind :: event_kind

section \<open>The cache\<close>

type_synonym quote_key = "string \<times> string"
type_synonym candle_key = "intraday_interval \<times> string \<times> string \<times> session"
type_synonym baseline_key = "string \<times> string \<times> session"

record cache =
  redis_clock :: instant
  quotes :: "quote_key \<rightharpoonup> realtime_quote \<times> instant"
  history :: "candle_key \<Rightarrow> intraday_candle list"
  current :: "candle_key \<rightharpoonup> intraday_candle"
  baseline :: "baseline_key \<rightharpoonup> int \<times> decimal option"
  published_quotes :: "realtime_quote list"
  published_candles :: "intraday_candle list"

definition empty_cache :: cache where
  "empty_cache = \<lparr>redis_clock = 0, quotes = (\<lambda>_. None), history = (\<lambda>_. []), current = (\<lambda>_. None),
     baseline = (\<lambda>_. None), published_quotes = [], published_candles = []\<rparr>"

definition quote_key :: "string \<Rightarrow> string \<Rightarrow> quote_key" where
  "quote_key market code = (upper market, upper code)"

text \<open>A key whose time has come is gone: \<open>redis.get\<close> answers as if it had never been set.\<close>

definition get_quote :: "string \<Rightarrow> string \<Rightarrow> cache \<Rightarrow> realtime_quote option" where
  "get_quote market code st =
     (case quotes st (quote_key market code) of
        None \<Rightarrow> None
      | Some (q, expires) \<Rightarrow> if redis_clock st < expires then Some q else None)"

text \<open>The ordering check: sequences first, then exchange timestamps.\<close>

definition superseded :: "realtime_quote \<Rightarrow> realtime_quote \<Rightarrow> bool" where
  "superseded existing q =
     (case (rq_sequence q, rq_sequence existing) of
        (Some s, Some s') \<Rightarrow> s \<le> s'
      | _ \<Rightarrow> rq_exchange_timestamp q \<le> rq_exchange_timestamp existing)"

text \<open>\<open>ex=self.default_ttl\<close>, in microseconds.\<close>

definition lifetime :: "int \<Rightarrow> int" where
  "lifetime ttl = ttl * 1000000"

definition save_and_publish_quote :: "int \<Rightarrow> realtime_quote \<Rightarrow> cache \<Rightarrow> bool \<times> cache" where
  "save_and_publish_quote default_ttl q st =
     (let existing = get_quote (rq_market_id q) (rq_code q) st in
      if (case existing of None \<Rightarrow> False | Some e \<Rightarrow> superseded e q) then (False, st)
      else (True, st\<lparr>quotes := (quotes st)(quote_key (rq_market_id q) (rq_code q) \<mapsto>
                                         (q, redis_clock st + lifetime default_ttl)),
                     published_quotes := published_quotes st @ [q]\<rparr>))"

definition candle_key :: "intraday_interval \<Rightarrow> string \<Rightarrow> string \<Rightarrow> session \<Rightarrow> candle_key" where
  "candle_key interval market code s = (interval, upper market, upper code, s)"

definition key_of :: "intraday_candle \<Rightarrow> candle_key" where
  "key_of c = candle_key (ic_interval c) (ic_market_id c) (ic_code c) (ic_session c)"

text \<open>\<open>intraday_retention_days + 2\<close> days, in microseconds.\<close>

definition retention :: "int \<Rightarrow> int" where
  "retention days = (days + 2) * 86400 * 1000000"

text \<open>
  Replacing the member with the score of the candle (\<open>zrangebyscore\<close>, \<open>zrem\<close>, \<open>zadd\<close>) and
  dropping the members up to the cutoff (\<open>zremrangebyscore\<close>).
\<close>

definition zset_put :: "intraday_candle \<Rightarrow> intraday_candle list \<Rightarrow> intraday_candle list" where
  "zset_put c hs = insort_key ic_bucket_start c (filter (\<lambda>x. ic_bucket_start x \<noteq> ic_bucket_start c) hs)"

definition zset_prune :: "instant \<Rightarrow> intraday_candle list \<Rightarrow> intraday_candle list" where
  "zset_prune cutoff hs = filter (\<lambda>x. cutoff < ic_bucket_start x) hs"

definition save_candle :: "int \<Rightarrow> instant \<Rightarrow> intraday_candle \<Rightarrow> cache \<Rightarrow> cache" where
  "save_candle days now c st =
     (let k = key_of c in
      st\<lparr>history := (history st)(k := zset_prune (now - retention days) (zset_put c (history st k))),
         current := (current st)(k := if ic_is_final c then None else Some c),
         published_candles := published_candles st @ [c]\<rparr>)"

definition get_current_candle :: "intraday_interval \<Rightarrow> string \<Rightarrow> string \<Rightarrow> session \<Rightarrow> cache \<Rightarrow> intraday_candle option" where
  "get_current_candle interval market code s st = current st (candle_key interval market code s)"

text \<open>\<open>xs[-limit:]\<close> for a positive limit\<close>

definition take_last :: "nat \<Rightarrow> 'a list \<Rightarrow> 'a list" where
  "take_last n xs = drop (length xs - n) xs"

definition in_range :: "instant option \<Rightarrow> instant option \<Rightarrow> instant \<Rightarrow> bool" where
  "in_range low high t \<longleftrightarrow> (case low of None \<Rightarrow> True | Some l \<Rightarrow> l \<le> t) \<and> (case high of None \<Rightarrow> True | Some h \<Rightarrow> t \<le> h)"

definition get_candles :: "intraday_interval \<Rightarrow> string \<Rightarrow> string \<Rightarrow> instant option \<Rightarrow> instant option \<Rightarrow> nat \<Rightarrow>
    cache \<Rightarrow> intraday_candle list" where
  "get_candles interval market code start end_time limit st =
     take_last limit (sort_key ic_bucket_start
       (concat (map (\<lambda>s. filter (\<lambda>c. in_range start end_time (ic_bucket_start c))
                  (history st (candle_key interval market code s))) all_sessions)))"

definition baseline_key :: "realtime_quote \<Rightarrow> baseline_key" where
  "baseline_key q = (upper (rq_market_id q), upper (rq_code q), rq_session q)"

definition get_volume_baseline :: "realtime_quote \<Rightarrow> cache \<Rightarrow> (int \<times> decimal option) option" where
  "get_volume_baseline q st = baseline st (baseline_key q)"

definition set_volume_baseline :: "realtime_quote \<Rightarrow> cache \<Rightarrow> cache" where
  "set_volume_baseline q st =
     st\<lparr>baseline := (baseline st)(baseline_key q \<mapsto> (rq_total_volume q, rq_turnover_amount q))\<rparr>"

section \<open>Ordering of quotes\<close>

text \<open>Quotes that arrive at the cache, each at its time on the clock of the server.\<close>

definition feed :: "int \<Rightarrow> (instant \<times> realtime_quote) list \<Rightarrow> cache \<Rightarrow> cache" where
  "feed ttl arrivals st =
     foldl (\<lambda>st a. snd (save_and_publish_quote ttl (snd a) (st\<lparr>redis_clock := fst a\<rparr>))) st arrivals"

lemma feed_snoc: "feed ttl (as @ [a]) st = snd (save_and_publish_quote ttl (snd a) (feed ttl as st\<lparr>redis_clock := fst a\<rparr>))"
  by (simp add: feed_def)

definition sequence_of :: "realtime_quote \<Rightarrow> int" where
  "sequence_of q = the (rq_sequence q)"

text \<open>
  What the arrivals leave: the published ones are newer than those published within the lifetime
  before, the others are not newer than one published within the lifetime before, and the stored
  quote is the last published.
\<close>

definition newer :: "int \<Rightarrow> instant \<times> realtime_quote \<Rightarrow> instant \<times> realtime_quote \<Rightarrow> bool" where
  "newer ttl a b \<longleftrightarrow> sequence_of (snd a) < sequence_of (snd b) \<or> fst a + lifetime ttl \<le> fst b"

definition covers :: "int \<Rightarrow> instant \<times> realtime_quote \<Rightarrow> instant \<times> realtime_quote \<Rightarrow> bool" where
  "covers ttl a b \<longleftrightarrow> fst a \<le> fst b \<and> fst b < fst a + lifetime ttl \<and> sequence_of (snd b) \<le> sequence_of (snd a)"

definition fed :: "int \<Rightarrow> quote_key \<Rightarrow> (instant \<times> realtime_quote) list \<Rightarrow> (instant \<times> realtime_quote) list \<Rightarrow> cache \<Rightarrow> bool" where
  "fed ttl k as ps st \<longleftrightarrow> subseq ps as \<and> sorted (map fst ps) \<and> published_quotes st = map snd ps \<and> sorted_wrt (newer ttl) ps \<and>
     (\<forall>b \<in> set as. b \<in> set ps \<or> (\<exists>a \<in> set ps. covers ttl a b)) \<and>
     quotes st k = (if ps = [] then None else Some (snd (last ps), fst (last ps) + lifetime ttl))"

lemma newer_last:
  assumes "sorted_wrt (newer ttl) ps" and "a \<in> set ps"
  shows "a = last ps \<or> newer ttl a (last ps)"
  using assms by (cases ps rule: rev_cases) (auto simp: sorted_wrt_append)

lemma fed_step:
  assumes "fed ttl k as ps st" and "quote_key (rq_market_id (snd b)) (rq_code (snd b)) = k"
    and "\<forall>a \<in> set (b # as). rq_sequence (snd a) \<noteq> None" and "\<forall>a \<in> set as. fst a \<le> fst b"
  shows "\<exists>ps'. fed ttl k (as @ [b]) ps' (snd (save_and_publish_quote ttl (snd b) (st\<lparr>redis_clock := fst b\<rparr>)))"
proof -
  note inv = assms(1) [unfolded fed_def]
  from inv have sub: "set ps \<subseteq> set as" by (metis subseq_conv_nths set_nths_subset)
  define t where "t = last ps"
  have t: "t \<in> set ps" "fst t \<le> fst b" "\<exists>s. rq_sequence (snd t) = Some s" if "ps \<noteq> []"
  proof -
    show "t \<in> set ps" using that by (simp add: t_def)
    with sub have "t \<in> set as" by blast
    then show "fst t \<le> fst b" "\<exists>s. rq_sequence (snd t) = Some s" using assms(3,4) by auto
  qed
  obtain s where s: "rq_sequence (snd b) = Some s" using assms(3) by auto
  show ?thesis
  proof (cases "ps \<noteq> [] \<and> covers ttl t b")
    case True
    with t obtain s' where s': "rq_sequence (snd t) = Some s'" by blast
    from True inv have "snd (save_and_publish_quote ttl (snd b) (st\<lparr>redis_clock := fst b\<rparr>)) = st\<lparr>redis_clock := fst b\<rparr>"
      using s s' assms(2) by (simp add: save_and_publish_quote_def get_quote_def superseded_def covers_def sequence_of_def flip: t_def)
    moreover have "fed ttl k (as @ [b]) ps (st\<lparr>redis_clock := fst b\<rparr>)"
      using inv True t(1) by (auto simp: fed_def intro: list_emb_append2)
    ultimately show ?thesis by auto
  next
    case False
    have step: "snd (save_and_publish_quote ttl (snd b) (st\<lparr>redis_clock := fst b\<rparr>)) =
        st\<lparr>redis_clock := fst b, quotes := (quotes st)(k \<mapsto> (snd b, fst b + lifetime ttl)),
           published_quotes := published_quotes st @ [snd b]\<rparr>"
    proof (cases "ps = []")
      case False
      with t obtain s' where s': "rq_sequence (snd t) = Some s'" by blast
      from \<open>\<not> (ps \<noteq> [] \<and> covers ttl t b)\<close> False inv t(2) show ?thesis
        using s s' assms(2) by (auto simp: save_and_publish_quote_def get_quote_def superseded_def covers_def sequence_of_def
            simp flip: t_def)
    qed (use inv assms(2) in \<open>simp add: save_and_publish_quote_def get_quote_def\<close>)
    have "newer ttl a b" if "a \<in> set ps" for a
    proof -
      from that have "ps \<noteq> []" by auto
      with False t(2) have "newer ttl t b" by (auto simp: newer_def covers_def)
      moreover have "a = t \<or> newer ttl a t" using newer_last [OF _ that] inv by (simp add: t_def)
      moreover have "fst a \<le> fst t"
        using inv that by (cases ps rule: rev_cases) (auto simp: t_def sorted_append)
      ultimately show ?thesis using \<open>ps \<noteq> []\<close> t(2) by (auto simp: newer_def)
    qed
    then have "fed ttl k (as @ [b]) (ps @ [b]) (snd (save_and_publish_quote ttl (snd b) (st\<lparr>redis_clock := fst b\<rparr>)))"
      unfolding step using inv sub assms(4) by (auto simp: fed_def sorted_wrt_append sorted_append)
    then show ?thesis by blast
  qed
qed

lemma feed_fed:
  assumes "\<forall>a \<in> set as. quote_key (rq_market_id (snd a)) (rq_code (snd a)) = k \<and> rq_sequence (snd a) \<noteq> None"
    and "sorted (map fst as)"
  shows "\<exists>ps. fed ttl k as ps (feed ttl as empty_cache)"
  using assms
proof (induction as rule: rev_induct)
  case Nil
  show ?case by (rule exI [of _ "[]"]) (simp add: fed_def feed_def empty_cache_def)
next
  case (snoc b as)
  then obtain ps where "fed ttl k as ps (feed ttl as empty_cache)" by (auto simp: sorted_append)
  from fed_step [OF this] snoc.prems show ?case by (simp add: feed_snoc sorted_append)
qed

text \<open>
  C19. When the quotes of a security carry sequence numbers, then, whatever the order of the numbers, a
  published quote has a larger number than every quote published within the lifetime of the cache entry
  (120 seconds) before it; a quote that is not published arrived within the lifetime of a published one
  whose number is at least as large; and the cache holds the last published quote until its lifetime is
  over and nothing after that. So late and repeated quotes are dropped, but only for the lifetime of an
  entry: after it a lower number is published again.
\<close>

theorem feed_publishes_newer:
  assumes "\<forall>(t, q) \<in> set arrivals. quote_key (rq_market_id q) (rq_code q) = quote_key market code \<and> rq_sequence q \<noteq> None"
    and "sorted (map fst arrivals)"
  shows "\<exists>ps. subseq ps arrivals \<and> published_quotes (feed ttl arrivals empty_cache) = map snd ps \<and>
    sorted_wrt (\<lambda>(t, p) (u, q). sequence_of p < sequence_of q \<or> t + lifetime ttl \<le> u) ps \<and>
    (\<forall>(u, q) \<in> set arrivals. (u, q) \<in> set ps \<or>
       (\<exists>(t, p) \<in> set ps. t \<le> u \<and> u < t + lifetime ttl \<and> sequence_of q \<le> sequence_of p)) \<and>
    (\<forall>now. get_quote market code (feed ttl arrivals empty_cache\<lparr>redis_clock := now\<rparr>) =
       (if ps \<noteq> [] \<and> now < fst (last ps) + lifetime ttl then Some (snd (last ps)) else None))"
proof -
  obtain ps where "fed ttl (quote_key market code) arrivals ps (feed ttl arrivals empty_cache)"
    using feed_fed [of arrivals "quote_key market code"] assms by (auto simp: case_prod_unfold)
  then show ?thesis
    by (intro exI [of _ ps]) (auto simp: fed_def get_quote_def newer_def [abs_def] covers_def case_prod_unfold)
qed

definition example_quote :: "int option \<Rightarrow> instant \<Rightarrow> decimal \<Rightarrow> int \<Rightarrow> realtime_quote" where
  "example_quote s ts price volume = \<lparr>rq_security_id = ''s'', rq_market_id = ''TWSE'', rq_code = ''2330'',
     rq_exchange_timestamp = ts, rq_received_at = ts, rq_last_price = price, rq_last_size = 0,
     rq_open_price = None, rq_high_price = None, rq_low_price = None, rq_previous_close = None,
     rq_total_volume = volume, rq_turnover_amount = None, rq_bid_price = None, rq_bid_size = None,
     rq_ask_price = None, rq_ask_size = None, rq_bid_prices = None,
     rq_bid_volumes = None, rq_ask_prices = None, rq_ask_volumes = None, rq_change = None, rq_change_percent = None,
     rq_session = REGULAR, rq_sequence = s, rq_data_status = RtLive, rq_provider = ''fake'',
     rq_delay_seconds = 0, rq_source_timestamp = None, rq_event_kind = UPDATE\<rparr>"

text \<open>Numbers 1, 3 and 2 within ten seconds, and 2 again two minutes later: the second 2 is published.\<close>

definition four_arrivals :: "(instant \<times> realtime_quote) list" where
  "four_arrivals = [(0, example_quote (Some 1) 10 100 5), (5000000, example_quote (Some 3) 12 102 9),
     (10000000, example_quote (Some 2) 11 101 7), (130000000, example_quote (Some 2) 11 101 7)]"

lemma feed_publishes_newer_witness:
  "map sequence_of (published_quotes (feed 120 four_arrivals empty_cache)) = [1, 3, 2] \<and>
   (\<exists>ps. subseq ps four_arrivals \<and> published_quotes (feed 120 four_arrivals empty_cache) = map snd ps \<and>
      sorted_wrt (\<lambda>(t, p) (u, q). sequence_of p < sequence_of q \<or> t + lifetime 120 \<le> u) ps)"
proof
  have "\<forall>(t, q) \<in> set four_arrivals. quote_key (rq_market_id q) (rq_code q) = quote_key ''TWSE'' ''2330'' \<and> rq_sequence q \<noteq> None"
    "sorted (map fst four_arrivals)"
    by (simp_all add: example_quote_def four_arrivals_def)
  from feed_publishes_newer [OF this, of 120]
  show "\<exists>ps. subseq ps four_arrivals \<and> published_quotes (feed 120 four_arrivals empty_cache) = map snd ps \<and>
      sorted_wrt (\<lambda>(t, p) (u, q). sequence_of p < sequence_of q \<or> t + lifetime 120 \<le> u) ps" by blast
  show "map sequence_of (published_quotes (feed 120 four_arrivals empty_cache)) = [1, 3, 2]"
    by (simp add: feed_def four_arrivals_def example_quote_def save_and_publish_quote_def get_quote_def empty_cache_def
        superseded_def lifetime_def sequence_of_def)
qed

section \<open>The history of a key\<close>

text \<open>The scores of a sorted set are distinct and ascending.\<close>

definition zset_ok :: "intraday_candle list \<Rightarrow> bool" where
  "zset_ok hs \<longleftrightarrow> sorted_wrt (<) (map ic_bucket_start hs)"

lemma zset_ok_filter: "zset_ok hs \<Longrightarrow> zset_ok (filter P hs)"
  by (simp add: zset_ok_def strict_sorted_iff sorted_filter distinct_map_filter)

lemma zset_put_ok: "zset_ok hs \<Longrightarrow> zset_ok (zset_put c hs)"
  unfolding zset_ok_def zset_put_def strict_sorted_iff
  by (auto simp: sorted_insort_key sorted_filter distinct_map_filter distinct_insort
      distinct_map inj_on_def set_insort_key)

lemma zset_put_set: "set (zset_put c hs) = insert c {x \<in> set hs. ic_bucket_start x \<noteq> ic_bucket_start c}"
  by (simp add: zset_put_def set_insort_key)

lemma zset_prune_ok: "zset_ok hs \<Longrightarrow> zset_ok (zset_prune t hs)"
  by (simp add: zset_prune_def zset_ok_filter)

lemma zset_prune_id: "\<forall>x \<in> set hs. t < ic_bucket_start x \<Longrightarrow> zset_prune t hs = hs"
  by (simp add: zset_prune_def)

lemma sum_list_insort: "sum_list (map f (insort_key g x xs)) = f x + sum_list (map f xs)"
  for f :: "'a \<Rightarrow> int"
  by (induction xs) simp_all

lemma zset_put_volume:
  "sum_list (map ic_volume (zset_put c hs)) =
   ic_volume c + sum_list (map ic_volume (filter (\<lambda>x. ic_bucket_start x \<noteq> ic_bucket_start c) hs))"
  by (simp add: zset_put_def sum_list_insort)

section \<open>What the cache promises to the aggregator\<close>

text \<open>
  Saving a candle replaces the open candle of its key, or removes it when the candle is final, and
  adds at most that candle to the history of its key; nothing else changes.
\<close>

locale candle_store =
  fixes save :: "intraday_candle \<Rightarrow> 's \<Rightarrow> 's"
    and open_candle :: "'s \<Rightarrow> candle_key \<Rightarrow> intraday_candle option"
    and past :: "'s \<Rightarrow> candle_key \<Rightarrow> intraday_candle list"
  assumes save_open: "open_candle (save c s) k =
      (if k = key_of c then (if ic_is_final c then None else Some c) else open_candle s k)"
    and save_past_other: "k \<noteq> key_of c \<Longrightarrow> past (save c s) k = past s k"
    and save_past_set: "set (past (save c s) (key_of c)) \<subseteq> insert c (set (past s (key_of c)))"
begin

text \<open>A property of every candle in the store.\<close>

definition every :: "(intraday_candle \<Rightarrow> bool) \<Rightarrow> 's \<Rightarrow> bool" where
  "every P s \<longleftrightarrow> (\<forall>k c. open_candle s k = Some c \<longrightarrow> P c) \<and> (\<forall>k. \<forall>c \<in> set (past s k). P c)"

lemma every_open: "every P s \<Longrightarrow> open_candle s k = Some c \<Longrightarrow> P c"
  by (simp add: every_def)

lemma every_past: "every P s \<Longrightarrow> c \<in> set (past s k) \<Longrightarrow> P c"
  by (auto simp: every_def)

lemma every_save:
  assumes "every P s" and "P c"
  shows "every P (save c s)"
proof -
  have "P d" if "d \<in> set (past (save c s) k)" for d k
    using that assms save_past_set [of c s] save_past_other [of k c s]
    by (cases "k = key_of c") (auto simp: every_def)
  moreover have "P d" if "open_candle (save c s) k = Some d" for d k
    using that assms by (auto simp: save_open every_def split: if_splits)
  ultimately show ?thesis by (auto simp: every_def)
qed

end

interpretation redis: candle_store "save_candle days now" current history for days now
proof
  show "current (save_candle days now c s) k =
      (if k = key_of c then (if ic_is_final c then None else Some c) else current s k)" for c s k
    by (simp add: save_candle_def Let_def)
  show "k \<noteq> key_of c \<Longrightarrow> history (save_candle days now c s) k = history s k" for c s k
    by (simp add: save_candle_def Let_def)
  show "set (history (save_candle days now c s) (key_of c)) \<subseteq> insert c (set (history s (key_of c)))" for c s
    by (auto simp: save_candle_def Let_def zset_prune_def zset_put_set)
qed

end
