(* ===== verification/Subscriptions.thy ===== *)
theory Subscriptions
  imports RealtimeCache
begin

text \<open>
  Broker subscriptions. The manager (\<open>app/services/realtime_provider_manager.py\<close>) shares one
  subscription per security and kind of quote between all its consumers and keeps their number within
  a budget; the locale \<open>broker\<close> is what it relies on of a provider. The registry of the Shioaji
  provider (\<open>app/adapters/shioaji_realtime_provider.py\<close>) and the default of the provider base class as
  the fake provider implements it (\<open>app/adapters/realtime_base.py\<close>,
  \<open>app/adapters/fake_realtime_provider.py\<close>) are modelled as they are. Keys are upper-case here, as
  both sides make them.
\<close>

section \<open>The contract of a provider\<close>

datatype quote_type = TICK | BID_ASK

fun quote_type_value :: "quote_type \<Rightarrow> string" where
  "quote_type_value TICK = ''tick''"
| "quote_type_value BID_ASK = ''bid_ask''"

type_synonym identity = "string \<times> quote_type"

text \<open>\<open>f"manager:{key}:{quote_type}"\<close>\<close>

definition broker_owner :: "identity \<Rightarrow> string" where
  "broker_owner i = ''manager:'' @ fst i @ '':'' @ quote_type_value (snd i)"

text \<open>
  A call of a provider returns whether it succeeded (it did not raise), and the new state. The contract is
  relative to a set of identities for which a call has failed: of these nothing is promised, all others
  are active as the calls say.
\<close>

definition after_call :: "bool \<Rightarrow> identity \<Rightarrow> identity set \<Rightarrow> identity set" where
  "after_call succeeded i failed = (if succeeded then failed else insert i failed)"

locale broker =
  fixes acquire release :: "string \<Rightarrow> identity \<Rightarrow> 's \<Rightarrow> bool \<times> 's"
    and active :: "'s \<Rightarrow> identity set" and ok :: "identity set \<Rightarrow> 's \<Rightarrow> bool"
  assumes ok_mono: "ok failed s \<Longrightarrow> failed \<subseteq> failed' \<Longrightarrow> ok failed' s"
    and acquire_law: "ok failed s \<Longrightarrow> acquire (broker_owner i) i s = (r, s') \<Longrightarrow>
      ok (after_call r i failed) s' \<and> active s' - after_call r i failed = insert i (active s) - after_call r i failed"
    and release_law: "ok failed s \<Longrightarrow> release (broker_owner i) i s = (r, s') \<Longrightarrow>
      ok (after_call r i failed) s' \<and> active s' - after_call r i failed = active s - {i} - after_call r i failed"

section \<open>The manager\<close>

record capabilities =
  cp_configured :: bool
  cp_hard_limit :: "int option"

type_synonym owner_map = "(identity \<times> string list) list"

record manager =
  mg_owners :: owner_map
  mg_budget :: "int option"
  mg_hard_limit :: "int option"
  mg_rejections :: int

datatype outcome = Done | Capacity_reached | Subscription_failed

text \<open>\<open>budget or hard_limit\<close>; the budget must not exceed the hard limit of the provider.\<close>

definition budget_valid :: "capabilities \<Rightarrow> manager \<Rightarrow> bool" where
  "budget_valid cap m \<longleftrightarrow> (case (mg_budget m, cp_hard_limit cap) of (Some b, Some h) \<Rightarrow> b \<le> h | _ \<Rightarrow> True)"

definition effective_limit :: "capabilities \<Rightarrow> manager \<Rightarrow> int option" where
  "effective_limit cap m =
     (case mg_budget m of Some b \<Rightarrow> if b \<noteq> 0 then Some b else cp_hard_limit cap | None \<Rightarrow> cp_hard_limit cap)"

definition at_capacity :: "capabilities \<Rightarrow> manager \<Rightarrow> bool" where
  "at_capacity cap m = (case effective_limit cap m of None \<Rightarrow> False | Some l \<Rightarrow> l \<le> int (length (mg_owners m)))"

lemma at_capacity_hard_limit [simp]: "at_capacity cap (m\<lparr>mg_hard_limit := h\<rparr>) = at_capacity cap m"
  by (simp add: at_capacity_def effective_limit_def split: option.split)

definition owners_of :: "identity \<Rightarrow> owner_map \<Rightarrow> string list" where
  "owners_of i om = (case map_of om i of None \<Rightarrow> [] | Some os \<Rightarrow> os)"

definition acquire_subscription :: "(string \<Rightarrow> identity \<Rightarrow> 's \<Rightarrow> bool \<times> 's) \<Rightarrow> capabilities \<Rightarrow> string \<Rightarrow> identity \<Rightarrow>
    manager \<times> 's \<Rightarrow> outcome \<times> manager \<times> 's" where
  "acquire_subscription acq cap owner i = (\<lambda>(m, s).
     if \<not> cp_configured cap then (Subscription_failed, m, s)
     else if owner \<in> set (owners_of i (mg_owners m)) then (Done, m, s)
     else if owners_of i (mg_owners m) = [] then
       (if \<not> budget_valid cap m then (Capacity_reached, m, s)
        else
          let m = m\<lparr>mg_hard_limit := cp_hard_limit cap\<rparr> in
          if at_capacity cap m
          then (Capacity_reached, m\<lparr>mg_rejections := mg_rejections m + 1\<rparr>, s)
          else
            let (succeeded, s) = acq (broker_owner i) i s in
            if succeeded then (Done, m\<lparr>mg_owners := AList.update i [owner] (mg_owners m)\<rparr>, s)
            else (Subscription_failed, m\<lparr>mg_owners := AList.delete i (mg_owners m)\<rparr>, s))
     else (Done, m\<lparr>mg_owners := AList.update i (owners_of i (mg_owners m) @ [owner]) (mg_owners m)\<rparr>, s))"

definition release_subscription :: "(string \<Rightarrow> identity \<Rightarrow> 's \<Rightarrow> bool \<times> 's) \<Rightarrow> string \<Rightarrow> identity \<Rightarrow>
    manager \<times> 's \<Rightarrow> outcome \<times> manager \<times> 's" where
  "release_subscription rel owner i = (\<lambda>(m, s).
     if owner \<notin> set (owners_of i (mg_owners m)) then (Done, m, s)
     else
       let rest = removeAll owner (owners_of i (mg_owners m)) in
       if rest \<noteq> [] then (Done, m\<lparr>mg_owners := AList.update i rest (mg_owners m)\<rparr>, s)
       else
         let (succeeded, s) = rel (broker_owner i) i s in
         if succeeded then (Done, m\<lparr>mg_owners := AList.delete i (mg_owners m)\<rparr>, s)
         else (Subscription_failed, m, s))"

definition capacity_status :: "manager \<Rightarrow> int option \<times> int option \<times> int \<times> int option \<times> int" where
  "capacity_status m =
     (let limit = (case mg_budget m of Some b \<Rightarrow> if b \<noteq> 0 then Some b else mg_hard_limit m | None \<Rightarrow> mg_hard_limit m);
          active = int (length (mg_owners m))
      in (mg_budget m, mg_hard_limit m, active, map_option (\<lambda>l. max (l - active) 0) limit, mg_rejections m))"

section \<open>Specification\<close>

text \<open>Who holds which subscription.\<close>

definition holds :: "manager \<Rightarrow> (string \<times> identity) set" where
  "holds m = {(owner, i). owner \<in> set (owners_of i (mg_owners m))}"

text \<open>Each identity once, each with somebody, nobody twice.\<close>

definition owners_ok :: "owner_map \<Rightarrow> bool" where
  "owners_ok om \<longleftrightarrow> distinct (map fst om) \<and> (\<forall>(i, os) \<in> set om. os \<noteq> [] \<and> distinct os)"

lemma owners_of_update [simp]: "owners_of j (AList.update i os om) = (if j = i then os else owners_of j om)"
  by (simp add: owners_of_def update_conv')

lemma owners_of_delete [simp]: "owners_of j (AList.delete i om) = (if j = i then [] else owners_of j om)"
  by (simp add: owners_of_def delete_conv')

lemma owners_of_entry:
  assumes "owners_ok om"
  shows "owners_of i om \<noteq> [] \<longleftrightarrow> i \<in> fst ` set om"
proof (cases "map_of om i")
  case None
  then have "i \<notin> fst ` set om" by (simp add: map_of_eq_None_iff)
  with None show ?thesis by (simp add: owners_of_def)
next
  case (Some os)
  then have "(i, os) \<in> set om" by (rule map_of_SomeD)
  with assms have "os \<noteq> []" "i \<in> fst ` set om" by (auto simp: owners_ok_def intro: rev_image_eqI)
  with Some show ?thesis by (simp add: owners_of_def)
qed

lemma set_update: "set (AList.update i os om) \<subseteq> insert (i, os) (set om)"
  by (induction om) auto

lemma owners_ok_update:
  assumes "owners_ok om" and "os \<noteq> []" and "distinct os"
  shows "owners_ok (AList.update i os om)"
  using assms set_update [of i os om] by (auto simp: owners_ok_def distinct_update)

lemma set_delete: "set (AList.delete i om) = {p \<in> set om. fst p \<noteq> i}"
  by (induction om) auto

lemma owners_ok_delete: "owners_ok om \<Longrightarrow> owners_ok (AList.delete i om)"
  using set_delete [of i om] by (auto simp: owners_ok_def distinct_delete)

lemma owners_distinct: "owners_ok om \<Longrightarrow> distinct (owners_of i om)"
  by (cases "map_of om i") (auto simp: owners_of_def owners_ok_def dest!: map_of_SomeD)

lemma length_update_new: "i \<notin> fst ` set om \<Longrightarrow> length (AList.update i os om) = Suc (length om)"
  by (induction om) auto

lemma fst_update: "fst ` set (AList.update i os om) = insert i (fst ` set om)"
  by (induction om) auto

lemma fst_delete: "fst ` set (AList.delete i om) = fst ` set om - {i}"
  by (auto simp: set_delete)

lemma length_update_old: "i \<in> fst ` set om \<Longrightarrow> length (AList.update i os om) = length om"
  by (induction om) auto

lemma length_delete: "length (AList.delete i om) \<le> length om"
  by (induction om) auto

lemma in_snd: "y \<in> snd ` A \<longleftrightarrow> (\<exists>x. (x, y) \<in> A)"
  by force

lemma held_identities:
  assumes "owners_ok (mg_owners m)"
  shows "snd ` holds m = fst ` set (mg_owners m)"
proof (rule set_eqI)
  fix i
  have "i \<in> snd ` holds m \<longleftrightarrow> (\<exists>owner. owner \<in> set (owners_of i (mg_owners m)))"
    by (simp add: in_snd holds_def)
  also have "\<dots> \<longleftrightarrow> owners_of i (mg_owners m) \<noteq> []" by (cases "owners_of i (mg_owners m)") auto
  also have "\<dots> \<longleftrightarrow> i \<in> fst ` set (mg_owners m)" by (rule owners_of_entry [OF assms])
  finally show "i \<in> snd ` holds m \<longleftrightarrow> i \<in> fst ` set (mg_owners m)" .
qed

lemma card_holds: "owners_ok (mg_owners m) \<Longrightarrow> card (snd ` holds m) = length (mg_owners m)"
  using distinct_card [of "map fst (mg_owners m)"] by (simp add: held_identities owners_ok_def)

lemma delete_absent: "i \<notin> fst ` set om \<Longrightarrow> AList.delete i om = om"
  by (induction om) auto

text \<open>
  The manager and the broker agree: apart from the identities of failed calls, the broker serves exactly those
  that somebody holds.
\<close>

definition after_outcome :: "outcome \<Rightarrow> identity \<Rightarrow> identity set \<Rightarrow> identity set" where
  "after_outcome r i failed = (if r = Subscription_failed then insert i failed else failed)"

context broker
begin

definition agrees :: "identity set \<Rightarrow> manager \<times> 's \<Rightarrow> bool" where
  "agrees failed ms \<longleftrightarrow> ok failed (snd ms) \<and> owners_ok (mg_owners (fst ms)) \<and>
     active (snd ms) - failed = fst ` set (mg_owners (fst ms)) - failed"

lemma agrees_snd: "agrees failed (m, s) \<Longrightarrow> active s - failed = snd ` holds m - failed"
  by (simp add: agrees_def held_identities)

lemma agrees_mono: "agrees failed ms \<Longrightarrow> failed \<subseteq> failed' \<Longrightarrow> agrees failed' ms"
  using ok_mono [of failed "snd ms" failed'] by (auto simp: agrees_def)

lemma acquire_refines:
  assumes "agrees failed (m, s)" and "acquire_subscription acquire cap owner i (m, s) = (r, m', s')"
  shows "agrees (after_outcome r i failed) (m', s') \<and> holds m' = (if r = Done then insert (owner, i) (holds m) else holds m) \<and>
    (length (mg_owners m') \<le> length (mg_owners m) \<or>
     (\<forall>l. effective_limit cap m = Some l \<longrightarrow> int (length (mg_owners m')) \<le> l))"
proof (cases "cp_configured cap \<and> owner \<notin> set (owners_of i (mg_owners m))")
  case False
  with assms agrees_mono [OF assms(1), of "insert i failed"] show ?thesis
    by (auto simp: acquire_subscription_def holds_def after_outcome_def split: if_splits)
next
  case new: True
  have own: "owners_ok (mg_owners m)" "ok failed s" "active s - failed = fst ` set (mg_owners m) - failed"
    using assms(1) by (simp_all add: agrees_def)
  show ?thesis
  proof (cases "owners_of i (mg_owners m) = []")
    case True
    then have fresh: "i \<notin> fst ` set (mg_owners m)" using owners_of_entry [OF own(1), of i] by blast
    show ?thesis
    proof (cases "budget_valid cap m \<and> \<not> at_capacity cap m")
      case False
      with assms new True show ?thesis
        by (auto simp: acquire_subscription_def Let_def agrees_def holds_def after_outcome_def split: if_splits)
    next
      case free: True
      obtain r1 where acq: "acquire (broker_owner i) i s = (r1, s')"
        and m': "r = (if r1 then Done else Subscription_failed)"
          "m' = m\<lparr>mg_hard_limit := cp_hard_limit cap, mg_owners := if r1 then AList.update i [owner] (mg_owners m) else mg_owners m\<rparr>"
        using assms(2) new True free by (auto simp: acquire_subscription_def Let_def delete_absent [OF fresh] split: if_splits prod.splits)
      have law: "ok (after_call r1 i failed) s'" "active s' - after_call r1 i failed = insert i (active s) - after_call r1 i failed"
        using acquire_law [OF own(2) acq] by blast+
      have "after_outcome r i failed = after_call r1 i failed" by (simp add: m' after_outcome_def after_call_def)
      moreover have "active s' - after_call r1 i failed = fst ` set (mg_owners m') - after_call r1 i failed"
        using own(3) law(2) by (auto simp: m' fst_update after_call_def)
      moreover have "owners_ok (mg_owners m')" using own(1) by (simp add: m' owners_ok_update)
      moreover have "holds m' = (if r = Done then insert (owner, i) (holds m) else holds m)" using True by (auto simp: holds_def m')
      moreover have "length (mg_owners m') = (if r1 then Suc (length (mg_owners m)) else length (mg_owners m))"
        by (simp add: m' length_update_new [OF fresh])
      ultimately show ?thesis using law(1) free by (auto simp: agrees_def at_capacity_def split: option.splits)
    qed
  next
    case False
    with assms(2) new have m': "r = Done" "m' = m\<lparr>mg_owners := AList.update i (owners_of i (mg_owners m) @ [owner]) (mg_owners m)\<rparr>" "s' = s"
      by (auto simp: acquire_subscription_def split: if_splits)
    have old: "i \<in> fst ` set (mg_owners m)" using owners_of_entry [OF own(1), of i] False by simp
    have "distinct (owners_of i (mg_owners m) @ [owner])" using owners_distinct [OF own(1)] new by simp
    then have "owners_ok (mg_owners m')" by (simp add: m'(2) owners_ok_update [OF own(1)])
    moreover have "holds m' = insert (owner, i) (holds m)" by (auto simp: holds_def m'(2))
    moreover have "fst ` set (mg_owners m') = fst ` set (mg_owners m)" using old by (auto simp: m' fst_update)
    ultimately show ?thesis using own old by (simp add: agrees_def m' length_update_old after_outcome_def)
  qed
qed

lemma release_refines:
  assumes "agrees failed (m, s)" and "release_subscription release owner i (m, s) = (r, m', s')"
  shows "agrees (after_outcome r i failed) (m', s') \<and> holds m' = (if r = Done then holds m - {(owner, i)} else holds m) \<and>
    length (mg_owners m') \<le> length (mg_owners m)"
proof (cases "owner \<in> set (owners_of i (mg_owners m))")
  case False
  with assms show ?thesis by (auto simp: release_subscription_def holds_def after_outcome_def)
next
  case held: True
  have own: "owners_ok (mg_owners m)" "ok failed s" "active s - failed = fst ` set (mg_owners m) - failed"
    using assms(1) by (simp_all add: agrees_def)
  have old: "i \<in> fst ` set (mg_owners m)" using owners_of_entry [OF own(1), of i] held by auto
  show ?thesis
  proof (cases "removeAll owner (owners_of i (mg_owners m)) = []")
    case False
    with assms(2) held have m': "r = Done" "m' = m\<lparr>mg_owners := AList.update i (removeAll owner (owners_of i (mg_owners m))) (mg_owners m)\<rparr>" "s' = s"
      by (auto simp: release_subscription_def Let_def split: if_splits)
    have "owners_ok (mg_owners m')"
      using owners_distinct [OF own(1)] False by (simp add: m'(2) owners_ok_update [OF own(1)] distinct_removeAll)
    moreover have "holds m' = holds m - {(owner, i)}" by (auto simp: holds_def m'(2))
    moreover have "fst ` set (mg_owners m') = fst ` set (mg_owners m)" using old by (auto simp: m' fst_update)
    ultimately show ?thesis using own old by (simp add: agrees_def m' length_update_old after_outcome_def)
  next
    case True
    obtain r1 where rel: "release (broker_owner i) i s = (r1, s')"
      and m': "r = (if r1 then Done else Subscription_failed)" "m' = (if r1 then m\<lparr>mg_owners := AList.delete i (mg_owners m)\<rparr> else m)"
      using assms(2) held True by (auto simp: release_subscription_def Let_def split: if_splits prod.splits)
    have law: "ok (after_call r1 i failed) s'" "active s' - after_call r1 i failed = active s - {i} - after_call r1 i failed"
      using release_law [OF own(2) rel] by blast+
    have "after_outcome r i failed = after_call r1 i failed" by (simp add: m' after_outcome_def after_call_def)
    moreover have "active s' - after_call r1 i failed = fst ` set (mg_owners m') - after_call r1 i failed"
      using own(3) law(2) by (auto simp: m' fst_delete after_call_def)
    moreover have "set (owners_of i (mg_owners m)) \<subseteq> {owner}" using True by (auto simp: removeAll_filter_not_eq filter_empty_conv)
    then have "holds m' = (if r = Done then holds m - {(owner, i)} else holds m)" by (auto simp: holds_def m')
    ultimately show ?thesis using own law(1) by (simp add: agrees_def m' owners_ok_delete length_delete)
  qed
qed

end

section \<open>The Shioaji provider\<close>

text \<open>
  The client of the broker is not part of the repository: \<open>client log e\<close> says whether the call \<open>e\<close>
  succeeds after the calls \<open>log\<close>, \<open>contracts\<close> gives the exchange of a known code, and \<open>relogin\<close> what a
  successful login leaves of the subscriptions. Any other successful call changes them as it says.
\<close>

datatype client_call = Login | Subscribe identity | Unsubscribe identity

type_synonym call_log = "(client_call \<times> bool) list"

fun serve :: "(identity set \<Rightarrow> identity set) \<Rightarrow> identity set \<Rightarrow> client_call \<times> bool \<Rightarrow> identity set" where
  "serve relogin A (Login, True) = relogin A"
| "serve relogin A (Subscribe i, True) = insert i A"
| "serve relogin A (Unsubscribe i, True) = A - {i}"
| "serve relogin A (e, False) = A"

record shioaji =
  sj_registry :: owner_map
  sj_configured :: bool
  sj_connected :: bool
  sj_log :: call_log

definition served :: "(identity set \<Rightarrow> identity set) \<Rightarrow> shioaji \<Rightarrow> identity set" where
  "served relogin s = foldl (serve relogin) {} (sj_log s)"

definition call_client :: "(call_log \<Rightarrow> client_call \<Rightarrow> bool) \<Rightarrow> client_call \<Rightarrow> shioaji \<Rightarrow> bool \<times> shioaji" where
  "call_client client e s = (client (sj_log s) e, s\<lparr>sj_log := sj_log s @ [(e, client (sj_log s) e)]\<rparr>)"

datatype contract_error = Invalid_key | Unsupported_market | Unknown_security | Wrong_exchange

fun exchange_by_market :: "string \<Rightarrow> string option" where
  "exchange_by_market market =
     (if market = ''TWSE'' then Some ''TSE'' else if market = ''TPEX'' then Some ''OTC'' else None)"

definition resolve_contract :: "(string \<Rightarrow> string option) \<Rightarrow> string \<Rightarrow> contract_error + string" where
  "resolve_contract contracts key =
     (if CHR '':'' \<notin> set key then Inl Invalid_key
      else
        let market = takeWhile (\<lambda>c. c \<noteq> CHR '':'') key; code = tl (dropWhile (\<lambda>c. c \<noteq> CHR '':'') key) in
        case exchange_by_market market of
          None \<Rightarrow> Inl Unsupported_market
        | Some expected \<Rightarrow>
            (case contracts code of
               None \<Rightarrow> Inl Unknown_security
             | Some exchange \<Rightarrow> if exchange \<noteq> expected then Inl Wrong_exchange else Inr code))"

fun apply_each :: "(call_log \<Rightarrow> client_call \<Rightarrow> bool) \<Rightarrow> client_call list \<Rightarrow> shioaji \<Rightarrow> bool \<times> shioaji" where
  "apply_each client [] s = (True, s)"
| "apply_each client (e # es) s =
     (let (succeeded, s) = call_client client e s in if succeeded then apply_each client es s else (False, s))"

text \<open>\<open>_apply\<close>: the contract is resolved once, the kinds are called for in the order of their values.\<close>

definition apply_kinds :: "(string \<Rightarrow> string option) \<Rightarrow> (call_log \<Rightarrow> client_call \<Rightarrow> bool) \<Rightarrow> string \<Rightarrow>
    quote_type list \<Rightarrow> bool \<Rightarrow> shioaji \<Rightarrow> bool \<times> shioaji" where
  "apply_kinds contracts client key kinds subscribe s =
     (if kinds = [] then (True, s)
      else case resolve_contract contracts key of
        Inl e \<Rightarrow> (False, s)
      | Inr code \<Rightarrow>
          apply_each client
            (map (\<lambda>k. if subscribe then Subscribe (key, k) else Unsubscribe (key, k)) (sort_key quote_type_value kinds)) s)"

text \<open>\<open>SubscriptionRegistry\<close>\<close>

definition registry_add :: "string \<Rightarrow> identity \<Rightarrow> owner_map \<Rightarrow> owner_map" where
  "registry_add owner i om = AList.update i (List.insert owner (owners_of i om)) om"

fun registry_acquire :: "string \<Rightarrow> string \<Rightarrow> quote_type list \<Rightarrow> owner_map \<Rightarrow> quote_type list \<times> owner_map" where
  "registry_acquire owner key [] om = ([], om)"
| "registry_acquire owner key (k # ks) om =
     (let (added, om') = registry_acquire owner key ks (registry_add owner (key, k) om)
      in (if owners_of (key, k) om = [] then k # added else added, om'))"

definition registry_release :: "string \<Rightarrow> string \<Rightarrow> owner_map \<Rightarrow> quote_type list \<times> owner_map" where
  "registry_release owner key om =
     (let left = map (\<lambda>(i, os). (i, if fst i = key then removeAll owner os else os)) om
      in (map (snd \<circ> fst) (filter (\<lambda>(i, os). fst i = key \<and> os = []) left),
          filter (\<lambda>(i, os). \<not> (fst i = key \<and> os = [])) left))"

definition if_connected :: "(shioaji \<Rightarrow> bool \<times> shioaji) \<Rightarrow> shioaji \<Rightarrow> bool \<times> shioaji" where
  "if_connected f s = (if sj_connected s then f s else (True, s))"

definition shioaji_acquire :: "(string \<Rightarrow> string option) \<Rightarrow> (call_log \<Rightarrow> client_call \<Rightarrow> bool) \<Rightarrow> string \<Rightarrow>
    identity \<Rightarrow> shioaji \<Rightarrow> bool \<times> shioaji" where
  "shioaji_acquire contracts client owner i s =
     (let (added, om) = registry_acquire owner (fst i) [snd i] (sj_registry s)
      in if_connected (apply_kinds contracts client (fst i) added True) (s\<lparr>sj_registry := om\<rparr>))"

definition shioaji_release :: "(string \<Rightarrow> string option) \<Rightarrow> (call_log \<Rightarrow> client_call \<Rightarrow> bool) \<Rightarrow> string \<Rightarrow>
    identity \<Rightarrow> shioaji \<Rightarrow> bool \<times> shioaji" where
  "shioaji_release contracts client owner i s =
     (let owners = owners_of i (sj_registry s); rest = removeAll owner owners in
      if owner \<notin> set owners then (True, s)
      else if rest \<noteq> [] then (True, s\<lparr>sj_registry := AList.update i rest (sj_registry s)\<rparr>)
      else if_connected (apply_kinds contracts client (fst i) [snd i] False)
             (s\<lparr>sj_registry := AList.delete i (sj_registry s)\<rparr>))"

text \<open>The older interface: by owner and priority, all kinds of a security at once.\<close>

datatype subscription_priority =
  PORTFOLIO | REALTIME_ALERT | VIEWED_SECURITY | INDUSTRY_REPRESENTATIVE | WATCHLIST

definition acquire_by_priority :: "(string \<Rightarrow> string option) \<Rightarrow> (call_log \<Rightarrow> client_call \<Rightarrow> bool) \<Rightarrow> string \<Rightarrow>
    string \<Rightarrow> subscription_priority \<Rightarrow> shioaji \<Rightarrow> bool \<times> shioaji" where
  "acquire_by_priority contracts client owner key p s =
     (let kinds = (if p = VIEWED_SECURITY then [TICK, BID_ASK] else [TICK]);
          (added, om) = registry_acquire owner key kinds (sj_registry s)
      in if_connected (apply_kinds contracts client key added True) (s\<lparr>sj_registry := om\<rparr>))"

definition release_owner :: "(string \<Rightarrow> string option) \<Rightarrow> (call_log \<Rightarrow> client_call \<Rightarrow> bool) \<Rightarrow> string \<Rightarrow>
    string \<Rightarrow> shioaji \<Rightarrow> bool \<times> shioaji" where
  "release_owner contracts client owner key s =
     (let (removed, om) = registry_release owner key (sj_registry s)
      in if_connected (apply_kinds contracts client key removed False) (s\<lparr>sj_registry := om\<rparr>))"

fun restore_each :: "(string \<Rightarrow> string option) \<Rightarrow> (call_log \<Rightarrow> client_call \<Rightarrow> bool) \<Rightarrow> identity list \<Rightarrow>
    shioaji \<Rightarrow> bool \<times> shioaji" where
  "restore_each contracts client [] s = (True, s)"
| "restore_each contracts client (i # is) s =
     (let (succeeded, s) = apply_kinds contracts client (fst i) [snd i] True s
      in if succeeded then restore_each contracts client is s else (False, s))"

text \<open>\<open>connect\<close>: the result says whether it returned; without credentials it returns at once.\<close>

definition connect :: "(string \<Rightarrow> string option) \<Rightarrow> (call_log \<Rightarrow> client_call \<Rightarrow> bool) \<Rightarrow> shioaji \<Rightarrow> bool \<times> shioaji" where
  "connect contracts client s =
     (if \<not> sj_configured s then (True, s)
      else
        let (logged_in, s) = call_client client Login s in
        if \<not> logged_in then (False, s\<lparr>sj_connected := False\<rparr>)
        else
          let (restored, s) = restore_each contracts client
                (sort_key (\<lambda>i. (fst i, quote_type_value (snd i))) (map fst (sj_registry s))) (s\<lparr>sj_connected := True\<rparr>)
          in if restored then (True, s) else (False, s\<lparr>sj_connected := False\<rparr>))"

text \<open>\<open>_on_event\<close> with a negative code (the STALE copies it publishes are left aside)\<close>

definition on_event :: "int \<Rightarrow> shioaji \<Rightarrow> shioaji" where
  "on_event code s = (if code < 0 then s\<lparr>sj_connected := False\<rparr> else s)"

section \<open>The Shioaji provider keeps the contract\<close>

definition registered :: "shioaji \<Rightarrow> identity set" where
  "registered s = fst ` set (sj_registry s)"

lemma registered_cong: "sj_registry s' = sj_registry s \<Longrightarrow> registered s' = registered s"
  by (simp add: registered_def)

text \<open>
  Only the manager holds anything. Apart from the identities of failed calls, a connected client serves what
  the registry lists, and nothing else if a login starts without subscriptions.
\<close>

definition shioaji_ok :: "(identity set \<Rightarrow> identity set) \<Rightarrow> identity set \<Rightarrow> shioaji \<Rightarrow> bool" where
  "shioaji_ok relogin failed s \<longleftrightarrow> distinct (map fst (sj_registry s)) \<and> (\<forall>(i, os) \<in> set (sj_registry s). os = [broker_owner i]) \<and>
     (sj_connected s \<longrightarrow> registered s - failed \<subseteq> served relogin s \<and>
       ((\<forall>A. relogin A = {}) \<longrightarrow> served relogin s - failed \<subseteq> registered s))"

lemma served_call [simp]:
  "call_client client e s = (r, s') \<Longrightarrow> served relogin s' = serve relogin (served relogin s) (e, r)"
  by (auto simp: call_client_def served_def)

lemma call_client_keeps:
  "call_client client e s = (r, s') \<Longrightarrow> sj_registry s' = sj_registry s \<and> sj_connected s' = sj_connected s"
  by (auto simp: call_client_def)

lemma apply_one:
  assumes "apply_kinds contracts client (fst i) [snd i] subscribe s = (r, s')"
  shows "served relogin s' = (if \<not> r then served relogin s else if subscribe then insert i (served relogin s) else served relogin s - {i}) \<and>
    sj_registry s' = sj_registry s \<and> sj_connected s' = sj_connected s"
  using assms
  by (auto simp: apply_kinds_def split: sum.splits prod.splits if_splits dest: call_client_keeps)

lemma owners_of_registered:
  assumes "shioaji_ok relogin failed s"
  shows "owners_of i (sj_registry s) = (if i \<in> registered s then [broker_owner i] else [])"
proof -
  have "owners_ok (sj_registry s)" using assms by (auto simp: shioaji_ok_def owners_ok_def)
  note e = owners_of_entry [OF this, of i]
  show ?thesis
  proof (cases "map_of (sj_registry s) i")
    case None
    then show ?thesis using e by (simp add: owners_of_def registered_def)
  next
    case (Some os)
    then have "(i, os) \<in> set (sj_registry s)" by (rule map_of_SomeD)
    then have "os = [broker_owner i]" using assms by (auto simp: shioaji_ok_def)
    with Some e show ?thesis by (simp add: owners_of_def registered_def)
  qed
qed

lemma registry_add_old: "owners_of i om = [owner] \<Longrightarrow> registry_add owner i om = om"
  by (simp add: registry_add_def owners_of_def update_triv split: option.splits)

lemma shioaji_ok_mono: "shioaji_ok relogin failed s \<Longrightarrow> failed \<subseteq> failed' \<Longrightarrow> shioaji_ok relogin failed' s"
  unfolding shioaji_ok_def by blast

lemma shioaji_acquire_law:
  assumes ok: "shioaji_ok relogin failed s" and acq: "shioaji_acquire contracts client (broker_owner i) i s = (r, s')"
  shows "shioaji_ok relogin (after_call r i failed) s' \<and>
    registered s' - after_call r i failed = insert i (registered s) - after_call r i failed"
proof (cases "i \<in> registered s")
  case True
  with owners_of_registered [OF ok, of i] acq have "s' = s \<and> r"
    by (auto simp: shioaji_acquire_def registry_add_old if_connected_def apply_kinds_def split: if_splits)
  with ok True show ?thesis by (auto simp: after_call_def)
next
  case False
  let ?s = "s\<lparr>sj_registry := AList.update i [broker_owner i] (sj_registry s)\<rparr>"
  from False owners_of_registered [OF ok, of i] acq
  have step: "if_connected (apply_kinds contracts client (fst i) [snd i] True) ?s = (r, s')"
    by (simp add: shioaji_acquire_def registry_add_def)
  then have s': "sj_registry s' = sj_registry ?s" "sj_connected s' = sj_connected s"
    "sj_connected s \<longrightarrow> served relogin s' = (if r then insert i (served relogin s) else served relogin s)"
    using apply_one [of contracts client i True ?s r s' relogin] by (auto simp: if_connected_def served_def split: if_splits)
  have reg: "registered s' = insert i (registered s)" by (simp add: registered_def s' fst_update)
  have "distinct (map fst (sj_registry s'))" "\<forall>(i, os) \<in> set (sj_registry s'). os = [broker_owner i]"
    using ok set_update [of i "[broker_owner i]" "sj_registry s"] by (auto simp: shioaji_ok_def s' distinct_update)
  then show ?thesis using ok s'(2,3) reg unfolding shioaji_ok_def after_call_def by auto
qed

lemma shioaji_release_law:
  assumes ok: "shioaji_ok relogin failed s" and rel: "shioaji_release contracts client (broker_owner i) i s = (r, s')"
  shows "shioaji_ok relogin (after_call r i failed) s' \<and>
    registered s' - after_call r i failed = registered s - {i} - after_call r i failed"
proof (cases "i \<in> registered s")
  case False
  with owners_of_registered [OF ok, of i] rel have "s' = s \<and> r" by (simp add: shioaji_release_def)
  with ok False show ?thesis by (auto simp: after_call_def)
next
  case True
  let ?s = "s\<lparr>sj_registry := AList.delete i (sj_registry s)\<rparr>"
  from True owners_of_registered [OF ok, of i] rel
  have step: "if_connected (apply_kinds contracts client (fst i) [snd i] False) ?s = (r, s')"
    by (simp add: shioaji_release_def)
  then have s': "sj_registry s' = sj_registry ?s" "sj_connected s' = sj_connected s"
    "sj_connected s \<longrightarrow> served relogin s' = (if r then served relogin s - {i} else served relogin s)"
    using apply_one [of contracts client i False ?s r s' relogin] by (auto simp: if_connected_def served_def split: if_splits)
  have reg: "registered s' = registered s - {i}" by (simp add: registered_def s' fst_delete)
  have "distinct (map fst (sj_registry s'))" "\<forall>(i, os) \<in> set (sj_registry s'). os = [broker_owner i]"
    using ok by (auto simp: shioaji_ok_def s' distinct_delete set_delete)
  then show ?thesis using ok s'(2,3) reg unfolding shioaji_ok_def after_call_def by auto
qed

interpretation sj: broker "shioaji_acquire contracts client" "shioaji_release contracts client" registered "shioaji_ok relogin"
  for contracts client relogin
  by unfold_locales (rule shioaji_ok_mono shioaji_acquire_law shioaji_release_law; assumption)+

lemma restore_each_serves:
  "restore_each contracts client is s = (True, s') \<Longrightarrow>
    served relogin s' = served relogin s \<union> set is \<and> sj_registry s' = sj_registry s \<and> sj_connected s' = sj_connected s"
proof (induction "is" arbitrary: s)
  case (Cons i "is")
  then obtain t where t: "apply_kinds contracts client (fst i) [snd i] True s = (True, t)"
    and rest: "restore_each contracts client is t = (True, s')"
    by (auto split: prod.splits if_splits)
  show ?case using Cons.IH [OF rest] apply_one [OF t, of relogin] by auto
qed simp

lemma restore_each_keeps:
  "sj_registry (snd (restore_each contracts client is s)) = sj_registry s"
proof (induction "is" arbitrary: s)
  case (Cons i "is")
  have each: "sj_registry (snd (apply_each client es s)) = sj_registry s" for es and s :: shioaji
    by (induction es arbitrary: s) (auto simp: call_client_def)
  have "sj_registry (snd (apply_kinds contracts client key ks sub s)) = sj_registry s" for key ks sub s
    by (auto simp: apply_kinds_def each split: sum.split)
  with Cons.IH show ?case by (auto split: prod.split) (metis snd_conv)+
qed simp

lemma connect_keeps:
  assumes ok: "shioaji_ok relogin failed s" and conn: "connect contracts client s = (r, s')"
  shows "sj_registry s' = sj_registry s \<and> shioaji_ok relogin failed s'"
proof (cases "sj_configured s")
  case False
  with assms show ?thesis by (simp add: connect_def)
next
  case True
  obtain logged_in t where t: "call_client client Login s = (logged_in, t)" by fastforce
  let ?ids = "sort_key (\<lambda>i. (fst i, quote_type_value (snd i))) (map fst (sj_registry s))"
  obtain restored u where u: "restore_each contracts client ?ids (t\<lparr>sj_connected := True\<rparr>) = (restored, u)" by fastforce
  have keep: "sj_registry t = sj_registry s" using call_client_keeps [OF t] by simp
  have ureg: "sj_registry u = sj_registry s"
    using restore_each_keeps [of contracts client ?ids "t\<lparr>sj_connected := True\<rparr>"] by (simp add: u keep)
  show ?thesis
  proof (cases "logged_in \<and> restored")
    case True
    then have s': "s' = u" using conn \<open>sj_configured s\<close> by (auto simp: connect_def t keep u Let_def)
    from True have "served relogin (t\<lparr>sj_connected := True\<rparr>) = relogin (served relogin s)"
      using served_call [OF t, of relogin] by (simp add: served_def)
    then have "served relogin u = relogin (served relogin s) \<union> registered u"
      using restore_each_serves [of contracts client ?ids _ u relogin] u True by (auto simp: registered_def ureg)
    then show ?thesis using ok ureg by (auto simp: s' shioaji_ok_def)
  next
    case False
    then have "\<not> sj_connected s' \<and> sj_registry s' = sj_registry s"
      using conn \<open>sj_configured s\<close> by (auto simp: connect_def t keep u ureg Let_def split: if_splits)
    then show ?thesis using ok by (simp add: shioaji_ok_def)
  qed
qed

lemma event_keeps:
  "shioaji_ok relogin failed s \<Longrightarrow> sj_registry (on_event code s) = sj_registry s \<and> shioaji_ok relogin failed (on_event code s)"
  by (simp add: on_event_def shioaji_ok_def)

section \<open>The two together\<close>

definition shioaji_capabilities :: "shioaji \<Rightarrow> capabilities" where
  "shioaji_capabilities s = \<lparr>cp_configured = sj_configured s, cp_hard_limit = Some 200\<rparr>"

definition new_manager :: "int option \<Rightarrow> manager" where
  "new_manager budget = \<lparr>mg_owners = [], mg_budget = budget, mg_hard_limit = None, mg_rejections = 0\<rparr>"

definition new_shioaji :: "bool \<Rightarrow> shioaji" where
  "new_shioaji configured = \<lparr>sj_registry = [], sj_configured = configured, sj_connected = False, sj_log = []\<rparr>"

text \<open>
  What can happen to a manager and its provider: consumers come and go, are refused, or are told that a
  call failed; the provider loses its connection, and reconnects or fails to. The set holds the identities
  for which a consumer was told of a failure.
\<close>

inductive serving :: "(string \<Rightarrow> string option) \<Rightarrow> (call_log \<Rightarrow> client_call \<Rightarrow> bool) \<Rightarrow> int option \<Rightarrow>
    identity set \<Rightarrow> manager \<times> shioaji \<Rightarrow> bool" for contracts client budget where
  start: "serving contracts client budget {} (new_manager budget, new_shioaji configured)"
| acquired: "serving contracts client budget failed (m, s) \<Longrightarrow>
    acquire_subscription (shioaji_acquire contracts client) (shioaji_capabilities s) owner i (m, s) = (r, m', s') \<Longrightarrow>
    serving contracts client budget (after_outcome r i failed) (m', s')"
| released: "serving contracts client budget failed (m, s) \<Longrightarrow>
    release_subscription (shioaji_release contracts client) owner i (m, s) = (r, m', s') \<Longrightarrow>
    serving contracts client budget (after_outcome r i failed) (m', s')"
| connecting: "serving contracts client budget failed (m, s) \<Longrightarrow> connect contracts client s = (r, s') \<Longrightarrow>
    serving contracts client budget failed (m, s')"
| event: "serving contracts client budget failed (m, s) \<Longrightarrow> serving contracts client budget failed (m, on_event code s)"

lemma acquire_keeps_budget:
  "acquire_subscription acq cap owner i (m, s) = (r, m', s') \<Longrightarrow> mg_budget m' = mg_budget m"
  by (auto simp: acquire_subscription_def Let_def split: if_splits prod.splits)

lemma release_keeps_budget:
  "release_subscription rel owner i (m, s) = (r, m', s') \<Longrightarrow> mg_budget m' = mg_budget m"
  by (auto simp: release_subscription_def Let_def split: if_splits prod.splits)

definition within_budget :: "int option \<Rightarrow> manager \<Rightarrow> bool" where
  "within_budget budget m \<longleftrightarrow> int (length (mg_owners m)) \<le> 200 \<and>
     (\<forall>b. budget = Some b \<longrightarrow> 0 < b \<longrightarrow> int (length (mg_owners m)) \<le> b)"

lemma not_at_capacity:
  assumes "\<not> at_capacity cap m" and "budget_valid cap m" and "cp_hard_limit cap = Some 200"
  shows "int (length (mg_owners m)) < 200 \<and>
    (\<forall>b. mg_budget m = Some b \<longrightarrow> 0 < b \<longrightarrow> int (length (mg_owners m)) < b)"
  using assms by (auto simp: at_capacity_def effective_limit_def budget_valid_def split: option.splits if_splits)

lemma acquire_within:
  assumes acq: "acquire_subscription acq cap owner i (m, s) = (r, m', s')" and limit: "cp_hard_limit cap = Some 200"
    and old: "within_budget (mg_budget m) m" and "owners_ok (mg_owners m)"
  shows "within_budget (mg_budget m) m'"
proof (cases "owners_of i (mg_owners m) = []")
  case True
  then have fresh: "i \<notin> fst ` set (mg_owners m)" using owners_of_entry [OF assms(4), of i] by blast
  from acq True have "mg_owners m' = mg_owners m \<or>
      mg_owners m' = AList.update i [owner] (mg_owners m) \<and> \<not> at_capacity cap m \<and> budget_valid cap m"
    by (auto simp: acquire_subscription_def Let_def delete_absent [OF fresh] split: if_splits prod.splits)
  then show ?thesis
    using not_at_capacity [of cap m] limit old by (auto simp: within_budget_def length_update_new [OF fresh])
next
  case False
  then have known: "i \<in> fst ` set (mg_owners m)" using owners_of_entry [OF assms(4), of i] by blast
  from acq False have "length (mg_owners m') = length (mg_owners m)"
    by (auto simp: acquire_subscription_def length_update_old [OF known] split: if_splits)
  then show ?thesis using old by (simp add: within_budget_def)
qed

lemma serving_agrees:
  "serving contracts client budget failed ms \<Longrightarrow>
    sj.agrees relogin failed ms \<and> mg_budget (fst ms) = budget \<and> within_budget budget (fst ms)"
proof (induction rule: serving.induct)
  case (start configured)
  then show ?case
    unfolding sj.agrees_def
    by (simp add: new_manager_def new_shioaji_def shioaji_ok_def owners_ok_def registered_def within_budget_def)
next
  case (acquired failed m s owner i r m' s')
  have m: "sj.agrees relogin failed (m, s)" "mg_budget m = budget" "within_budget (mg_budget m) m" using acquired.IH by auto
  from sj.acquire_refines [OF m(1) acquired.hyps(2)] have "sj.agrees relogin (after_outcome r i failed) (m', s')" by blast
  moreover have "owners_ok (mg_owners m)" using m(1) by (simp add: sj.agrees_def)
  then have "within_budget (mg_budget m) m'"
    using acquire_within [OF acquired.hyps(2) _ m(3)] by (simp add: shioaji_capabilities_def)
  ultimately show ?case using m(2) acquire_keeps_budget [OF acquired.hyps(2)] by simp
next
  case (released failed m s owner i r m' s')
  have m: "sj.agrees relogin failed (m, s)" "mg_budget m = budget" "within_budget budget m" using released.IH by auto
  show ?case
    using sj.release_refines [OF m(1) released.hyps(2)] release_keeps_budget [OF released.hyps(2)] m(2,3)
    by (auto simp: within_budget_def)
next
  case (connecting failed m s r s')
  then show ?case using connect_keeps [of relogin failed s contracts client r s'] registered_cong [of s' s]
    by (auto simp: sj.agrees_def)
next
  case (event failed m s code)
  then show ?case
    using event_keeps [of relogin failed s code] registered_cong [of "on_event code s" s] by (auto simp: sj.agrees_def)
qed

text \<open>
  C5. The broker serves what its consumers hold, within its limit. After any interleaving of consumers coming,
  going and being refused, of calls that fail, of lost connections and of reconnections that succeed or not, a
  connected Shioaji client serves every identity that somebody holds and of which no consumer was told that
  a call failed, however many consumers share it; and if a login starts without subscriptions it serves no
  other identity, again apart from those of failed calls. The number of held identities never exceeds 200,
  nor a positive configured budget, failures included.
\<close>

theorem broker_serves_holdings:
  assumes "serving contracts client budget failed (m, s)"
  shows "(sj_connected s \<longrightarrow> snd ` holds m - failed \<subseteq> served relogin s) \<and>
    (sj_connected s \<and> (\<forall>A. relogin A = {}) \<longrightarrow> served relogin s - failed = snd ` holds m - failed) \<and>
    card (snd ` holds m) \<le> 200 \<and> (\<forall>b. budget = Some b \<longrightarrow> 0 < b \<longrightarrow> int (card (snd ` holds m)) \<le> b)"
proof -
  from serving_agrees [OF assms, of relogin] have a: "sj.agrees relogin failed (m, s)" and w: "within_budget budget m" by auto
  then have own: "owners_ok (mg_owners m)" "shioaji_ok relogin failed s" by (auto simp: sj.agrees_def)
  from a have "registered s - failed = snd ` holds m - failed" by (rule sj.agrees_snd)
  then show ?thesis using own w card_holds [OF own(1)] unfolding shioaji_ok_def within_budget_def by auto
qed

text \<open>Two viewers share the ticks of one security; a third identity exceeds a budget of one.\<close>

definition one_contract :: "string \<Rightarrow> string option" where
  "one_contract code = (if code = ''2330'' then Some ''TSE'' else None)"

definition tsmc_tick :: identity where
  "tsmc_tick = (''TWSE:2330'', TICK)"

definition always :: "call_log \<Rightarrow> client_call \<Rightarrow> bool" where
  "always calls e = True"

definition tsmc_book :: identity where
  "tsmc_book = (''TWSE:2330'', BID_ASK)"

lemma resolve_tsmc: "resolve_contract one_contract ''TWSE:2330'' = Inr ''2330''"
  by (simp add: resolve_contract_def one_contract_def)

definition connected_state :: "call_log \<Rightarrow> shioaji" where
  "connected_state calls =
     \<lparr>sj_registry = [(tsmc_tick, [broker_owner tsmc_tick])], sj_configured = True, sj_connected = True, sj_log = calls\<rparr>"

lemma broker_serves_holdings_witness:
  "\<exists>m s. serving one_contract always (Some 1) {} (m, s) \<and> sj_connected s \<and> holds m = {(''b'', tsmc_tick)} \<and>
     mg_rejections m = 1 \<and> served (\<lambda>A. {}) s = snd ` holds m \<and> int (card (snd ` holds m)) \<le> 1"
proof -
  let ?m = "\<lambda>os. \<lparr>mg_owners = [(tsmc_tick, os)], mg_budget = Some 1, mg_hard_limit = Some 200, mg_rejections = 0\<rparr>"
  let ?m1 = "\<lparr>mg_owners = [(tsmc_tick, [''b''])], mg_budget = Some 1, mg_hard_limit = Some 200, mg_rejections = 1\<rparr>"
  let ?s = "connected_state [(Login, True), (Subscribe tsmc_tick, True)]"
  let ?t = "\<lparr>sj_registry = [], sj_configured = True, sj_connected = True, sj_log = [(Login, True)]\<rparr>"
  note defs = always_def shioaji_capabilities_def acquire_subscription_def shioaji_acquire_def call_client_def
    budget_valid_def at_capacity_def effective_limit_def owners_of_def registry_add_def if_connected_def apply_kinds_def
    resolve_tsmc Let_def connected_state_def tsmc_tick_def tsmc_book_def new_manager_def new_shioaji_def connect_def
    release_subscription_def
  have "connect one_contract always (new_shioaji True) = (True, ?t)" by (simp add: defs)
  from connecting [OF start this] have 1: "serving one_contract always (Some 1) {} (new_manager (Some 1), ?t)" .
  have "acquire_subscription (shioaji_acquire one_contract always) (shioaji_capabilities ?t) ''a'' tsmc_tick
      (new_manager (Some 1), ?t) = (Done, ?m [''a''], ?s)" by (simp add: defs)
  from acquired [OF 1 this]  have 2: "serving one_contract always (Some 1) {} (?m [''a''], ?s)" by (simp add: after_outcome_def)
  have "acquire_subscription (shioaji_acquire one_contract always) (shioaji_capabilities ?s) ''b'' tsmc_tick
      (?m [''a''], ?s) = (Done, ?m [''a'', ''b''], ?s)" by (simp add: defs)
  from acquired [OF 2 this] have 3: "serving one_contract always (Some 1) {} (?m [''a'', ''b''], ?s)" by (simp add: after_outcome_def)
  have "release_subscription (shioaji_release one_contract always) ''a'' tsmc_tick
      (?m [''a'', ''b''], ?s) = (Done, ?m [''b''], ?s)" by (simp add: defs)
  from released [OF 3 this] have 4: "serving one_contract always (Some 1) {} (?m [''b''], ?s)" by (simp add: after_outcome_def)
  have "acquire_subscription (shioaji_acquire one_contract always) (shioaji_capabilities ?s) ''b'' tsmc_book
      (?m [''b''], ?s) = (Capacity_reached, ?m1, ?s)" by (simp add: defs)
  from acquired [OF 4 this] have 5: "serving one_contract always (Some 1) {} (?m1, ?s)" by (simp add: after_outcome_def)
  have "sj_connected ?s" by (simp add: connected_state_def)
  moreover have "holds ?m1 = {(''b'', tsmc_tick)}" by (auto simp: holds_def owners_of_def split: if_splits)
  ultimately show ?thesis using broker_serves_holdings [OF 5, of "\<lambda>A. {}"] 5 by (intro exI [of _ ?m1] exI [of _ ?s]) simp
qed

section \<open>What fails\<close>

text \<open>
  The registry of the Shioaji provider is written before the client is called and not restored when the
  call fails: the caller is told, and the next attempt, by anybody, reports success although nothing was
  subscribed.
\<close>

theorem retry_subscribes_nothing:
  assumes agree: "sj.agrees relogin {} (m, s)" and clear: "\<forall>A. relogin A = {}" and cap: "cp_configured cap"
    and first: "acquire_subscription (shioaji_acquire contracts client) cap owner i (m, s) = (Subscription_failed, m', s')"
  shows "\<exists>m''. acquire_subscription (shioaji_acquire contracts client) cap owner' i (m', s') = (Done, m'', s') \<and>
    (owner', i) \<in> holds m'' \<and> i \<notin> served relogin s' \<and> sj_connected s'"
proof -
  have own: "owners_ok (mg_owners m)" and ok: "shioaji_ok relogin {} s" and eq: "registered s = fst ` set (mg_owners m)"
    using agree by (auto simp: sj.agrees_def)
  from first cap have none: "owners_of i (mg_owners m) = []" and free: "budget_valid cap m" "\<not> at_capacity cap m"
    and acq: "shioaji_acquire contracts client (broker_owner i) i s = (False, s')"
    and m': "m' = m\<lparr>mg_hard_limit := cp_hard_limit cap, mg_owners := AList.delete i (mg_owners m)\<rparr>"
    by (auto simp: acquire_subscription_def Let_def split: if_splits prod.splits)
  have fresh: "i \<notin> fst ` set (mg_owners m)" using owners_of_entry [OF own, of i] none by blast
  then have unreg: "owners_of i (sj_registry s) = []" using owners_of_registered [OF ok, of i] eq by simp
  let ?s = "s\<lparr>sj_registry := AList.update i [broker_owner i] (sj_registry s)\<rparr>"
  from acq unreg have failed: "sj_connected s" "apply_kinds contracts client (fst i) [snd i] True ?s = (False, s')"
    by (auto simp: shioaji_acquire_def registry_add_def if_connected_def split: if_splits)
  from apply_one [OF failed(2), of relogin] have s': "served relogin s' = served relogin s" "sj_connected s'"
    "sj_registry s' = AList.update i [broker_owner i] (sj_registry s)" using failed(1) by (auto simp: served_def)
  have "i \<notin> served relogin s'" using fresh eq ok failed(1) clear by (auto simp: s' shioaji_ok_def registered_def)
  moreover have "shioaji_acquire contracts client (broker_owner i) i s' = (True, s')"
    by (simp add: shioaji_acquire_def s' registry_add_old if_connected_def apply_kinds_def)
  moreover have "m' = m\<lparr>mg_hard_limit := cp_hard_limit cap\<rparr>" using fresh by (simp add: m')
  ultimately show ?thesis
    using cap s'(2) none free by (simp add: acquire_subscription_def budget_valid_def Let_def holds_def)
qed


section \<open>The default of the provider base class\<close>

text \<open>
  \<open>acquire_subscription\<close> and \<open>release_subscription\<close> of the base class pass on the key alone; the fake
  provider keeps the set of subscribed keys and a price for each.
\<close>

record fake_realtime =
  fk_subscribed :: "string set"
  fk_base_prices :: "string \<rightharpoonup> decimal"

definition new_fake :: fake_realtime where
  "new_fake = \<lparr>fk_subscribed = {}, fk_base_prices =
     [''TWSE:2330'' \<mapsto> 950, ''TWSE:2317'' \<mapsto> 200, ''TWSE:2454'' \<mapsto> 1200, ''TPEx:6547'' \<mapsto> 180]\<rparr>"

fun subscribe_quotes :: "string list \<Rightarrow> fake_realtime \<Rightarrow> fake_realtime" where
  "subscribe_quotes [] s = s"
| "subscribe_quotes (k # ks) s =
     (let s = s\<lparr>fk_subscribed := insert (upper k) (fk_subscribed s)\<rparr> in
      subscribe_quotes ks
        (if fk_base_prices s (upper k) = None then s\<lparr>fk_base_prices := (fk_base_prices s)(upper k \<mapsto> 100)\<rparr> else s))"

definition unsubscribe_quotes :: "string list \<Rightarrow> fake_realtime \<Rightarrow> fake_realtime" where
  "unsubscribe_quotes ks s = s\<lparr>fk_subscribed := fk_subscribed s - upper ` set ks\<rparr>"

definition base_acquire :: "string \<Rightarrow> identity \<Rightarrow> fake_realtime \<Rightarrow> bool \<times> fake_realtime" where
  "base_acquire owner i s = (True, subscribe_quotes [fst i] s)"

definition base_release :: "string \<Rightarrow> identity \<Rightarrow> fake_realtime \<Rightarrow> bool \<times> fake_realtime" where
  "base_release owner i s = (True, unsubscribe_quotes [fst i] s)"

lemma base_acquire_subscribes: "fk_subscribed (snd (base_acquire owner i s)) = insert (upper (fst i)) (fk_subscribed s)"
  by (simp add: base_acquire_def Let_def)

text \<open>
  So the last consumer of one kind of quote takes the security away from the consumers of the other kind:
  the manager still counts them, the provider no longer serves them.
\<close>

theorem release_drops_other_kind:
  assumes "owners_of (key, k) (mg_owners m) = [owner]" and "owner' \<in> set (owners_of (key, k') (mg_owners m))" and "k \<noteq> k'"
  shows "\<exists>m' s'. release_subscription base_release owner (key, k) (m, s) = (Done, m', s') \<and>
    (owner', (key, k')) \<in> holds m' \<and> upper key \<notin> fk_subscribed s'"
  using assms by (simp add: release_subscription_def base_release_def unsubscribe_quotes_def holds_def)

end
