(* ===== verification/RealtimeHub.thy ===== *)
theory RealtimeHub
  imports Subscriptions
begin

text \<open>
  The hub that fans quotes out to websocket sessions (\<open>app/services/realtime_hub.py\<close>). A session is
  known by its \<open>owner_id\<close>. The subscription manager is a parameter, its contract the locale
  \<open>subscription_service\<close>. What a websocket is sent is the list \<open>hs_sent\<close>; the payload of the market and
  ranking snapshots, which the hub only passes on, is left out. A handler returns how it ended.
\<close>

section \<open>State\<close>

datatype ws_message =
    Target_error
  | Limit_error nat
  | Quote_snapshot realtime_quote
  | Candle_snapshot intraday_interval "intraday_candle list"
  | Market_snapshot
  | Ranking_snapshot string
  | Quote_message realtime_quote
  | Candle_message intraday_candle
  | Global_message string

record hub_session =
  hs_max :: nat
  hs_subscriptions :: "string list"
  hs_provider :: "identity list"
  hs_channels :: "string list"
  hs_pending :: "(string \<times> realtime_quote) list"
  hs_alive :: bool
  hs_sent :: "ws_message list"

record hub =
  hb_max :: nat
  hb_sessions :: "string \<rightharpoonup> hub_session"
  hb_open :: "string list"
  hb_keys :: "string \<Rightarrow> string set"
  hb_received :: int
  hb_published :: int
  hb_coalesced :: int

datatype handled = Answered outcome | Bad_quote_type

definition new_hub :: "nat \<Rightarrow> hub" where
  "new_hub limit = \<lparr>hb_max = limit, hb_sessions = (\<lambda>_. None), hb_open = [], hb_keys = (\<lambda>_. {}),
     hb_received = 0, hb_published = 0, hb_coalesced = 0\<rparr>"

definition new_session :: "nat \<Rightarrow> hub_session" where
  "new_session limit = \<lparr>hs_max = limit, hs_subscriptions = [], hs_provider = [], hs_channels = [''quote''],
     hs_pending = [], hs_alive = True, hs_sent = []\<rparr>"

definition send :: "ws_message \<Rightarrow> hub_session \<Rightarrow> hub_session" where
  "send msg ss = ss\<lparr>hs_sent := hs_sent ss @ [msg]\<rparr>"

definition put_session :: "string \<Rightarrow> hub_session \<Rightarrow> hub \<Rightarrow> hub" where
  "put_session n ss h = h\<lparr>hb_sessions := (hb_sessions h)(n \<mapsto> ss)\<rparr>"

definition register_connection :: "string \<Rightarrow> hub \<Rightarrow> hub" where
  "register_connection n h =
     (put_session n (new_session (hb_max h)) h)\<lparr>hb_open := List.insert n (hb_open h)\<rparr>"

section \<open>Targets\<close>

text \<open>A missing market or code is the empty text; \<open>quote_types\<close> may be a text or a list.\<close>

record target =
  tg_market :: string
  tg_code :: string
  tg_quote_type :: "string option"
  tg_quote_types :: "(string + string list) option"

definition valid_security_target :: "string \<Rightarrow> string \<Rightarrow> bool" where
  "valid_security_target market code \<longleftrightarrow>
     market \<in> {''TWSE'', ''TPEX''} \<and> (code \<noteq> [] \<and> list_all is_digit_char code) \<and> 4 \<le> length code \<and> length code \<le> 6"

definition parse_quote_type :: "string \<Rightarrow> quote_type option" where
  "parse_quote_type s = (if s = ''tick'' then Some TICK else if s = ''bid_ask'' then Some BID_ASK else None)"

text \<open>\<open>list(dict.fromkeys(xs))\<close>\<close>

definition unique :: "'a list \<Rightarrow> 'a list" where
  "unique xs = rev (foldl (\<lambda>acc x. if x \<in> set acc then acc else x # acc) [] xs)"

definition raw_quote_types :: "target \<Rightarrow> string list" where
  "raw_quote_types t =
     (case tg_quote_types t of
        Some (Inl s) \<Rightarrow> if s \<noteq> [] then [s] else [case tg_quote_type t of None \<Rightarrow> ''tick'' | Some q \<Rightarrow> q]
      | Some (Inr ss) \<Rightarrow> if ss \<noteq> [] then ss else [case tg_quote_type t of None \<Rightarrow> ''tick'' | Some q \<Rightarrow> q]
      | None \<Rightarrow> [case tg_quote_type t of None \<Rightarrow> ''tick'' | Some q \<Rightarrow> q])"

definition quote_types :: "target \<Rightarrow> quote_type list option" where
  "quote_types t =
     (let parsed = map (parse_quote_type \<circ> lower) (raw_quote_types t) in
      if None \<in> set parsed then None else Some (unique (map the parsed)))"

definition has_quote_type :: "target \<Rightarrow> bool" where
  "has_quote_type t \<longleftrightarrow> tg_quote_type t \<noteq> None \<or> tg_quote_types t \<noteq> None"

definition security_text :: "string \<Rightarrow> string \<Rightarrow> string" where
  "security_text market code = market @ '':'' @ code"

definition target_key :: "target \<Rightarrow> string" where
  "target_key t = security_text (upper (tg_market t)) (upper (tg_code t))"

definition valid_target :: "target \<Rightarrow> bool" where
  "valid_target t \<longleftrightarrow> valid_security_target (upper (tg_market t)) (upper (tg_code t))"

section \<open>Subscribing\<close>

fun acquire_types :: "(string \<Rightarrow> identity \<Rightarrow> 's \<Rightarrow> outcome \<times> 's) \<Rightarrow> string \<Rightarrow> string \<Rightarrow> quote_type list \<Rightarrow>
    identity list \<Rightarrow> identity list \<times> 's \<Rightarrow> outcome \<times> identity list \<times> identity list \<times> 's" where
  "acquire_types acq n key [] got (pv, s) = (Done, got, pv, s)"
| "acquire_types acq n key (k # ks) got (pv, s) =
     (if (key, k) \<in> set pv then acquire_types acq n key ks got (pv, s)
      else
        let (r, s) = acq n (key, k) s in
        if r = Done then acquire_types acq n key ks (got @ [(key, k)]) (pv @ [(key, k)], s) else (r, got, pv, s))"

fun roll_back :: "(string \<Rightarrow> identity \<Rightarrow> 's \<Rightarrow> outcome \<times> 's) \<Rightarrow> string \<Rightarrow> identity list \<Rightarrow>
    identity list \<times> 's \<Rightarrow> outcome \<times> identity list \<times> 's" where
  "roll_back rel n [] (pv, s) = (Done, pv, s)"
| "roll_back rel n (i # is) (pv, s) =
     (let (r, s) = rel n i s in if r = Done then roll_back rel n is (removeAll i pv, s) else (r, pv, s))"

definition acquire_target :: "(string \<Rightarrow> identity \<Rightarrow> 's \<Rightarrow> outcome \<times> 's) \<Rightarrow>
    (string \<Rightarrow> identity \<Rightarrow> 's \<Rightarrow> outcome \<times> 's) \<Rightarrow> string \<Rightarrow> string \<Rightarrow> quote_type list \<Rightarrow>
    identity list \<times> 's \<Rightarrow> outcome \<times> identity list \<times> 's" where
  "acquire_target acq rel n key ks pvs =
     (let (r, got, pv, s) = acquire_types acq n key ks [] pvs in
      if r = Capacity_reached then
        (let (r', pv, s) = roll_back rel n got (pv, s) in (if r' = Done then Capacity_reached else r', pv, s))
      else (r, pv, s))"

fun subscribe_targets :: "(string \<Rightarrow> identity \<Rightarrow> 's \<Rightarrow> outcome \<times> 's) \<Rightarrow>
    (string \<Rightarrow> identity \<Rightarrow> 's \<Rightarrow> outcome \<times> 's) \<Rightarrow> string \<Rightarrow> target list \<Rightarrow> string list \<Rightarrow>
    hub_session \<times> (string \<Rightarrow> string set) \<times> 's \<Rightarrow>
    handled \<times> string list \<times> hub_session \<times> (string \<Rightarrow> string set) \<times> 's" where
  "subscribe_targets acq rel n [] added (ss, keys, s) = (Answered Done, added, ss, keys, s)"
| "subscribe_targets acq rel n (t # ts) added (ss, keys, s) =
     (if \<not> valid_target t then subscribe_targets acq rel n ts added (send Target_error ss, keys, s)
      else if hs_max ss \<le> length (hs_subscriptions ss) then
        (Answered Done, added, send (Limit_error (hs_max ss)) ss, keys, s)
      else
        case quote_types t of
          None \<Rightarrow> (Bad_quote_type, added, ss, keys, s)
        | Some ks \<Rightarrow>
            (let (r, pv, s) = acquire_target acq rel n (target_key t) ks (hs_provider ss, s);
                 ss = ss\<lparr>hs_provider := pv\<rparr>
             in if r \<noteq> Done then (Answered r, added, ss, keys, s)
                else subscribe_targets acq rel n ts (added @ [target_key t])
                       (ss\<lparr>hs_subscriptions := List.insert (target_key t) (hs_subscriptions ss)\<rparr>,
                        keys(target_key t := insert n (keys (target_key t))), s)))"

definition known_channels :: "string list" where
  "known_channels =
     [''quote'', ''candle_1m'', ''candle_5m'', ''market'', ''industry_strength'', ''theme_strength'', ''alert'']"

definition chosen_channels :: "string list option \<Rightarrow> string list" where
  "chosen_channels cs =
     filter (\<lambda>c. c \<in> set (case cs of None \<Rightarrow> [''quote''] | Some xs \<Rightarrow> if xs = [] then [''quote''] else xs)) known_channels"

text \<open>What a session is sent at once: the cached quotes, then the candles, then the global snapshots.\<close>

definition split_key :: "string \<Rightarrow> string \<times> string" where
  "split_key key = (takeWhile (\<lambda>c. c \<noteq> CHR '':'') key, tl (dropWhile (\<lambda>c. c \<noteq> CHR '':'') key))"

definition key_snapshots :: "cache \<Rightarrow> string list \<Rightarrow> string list \<Rightarrow> ws_message list" where
  "key_snapshots c channels added =
     (if ''quote'' \<in> set channels
      then map Quote_snapshot (List.map_filter (\<lambda>k. case split_key k of (m, code) \<Rightarrow> get_quote m code c) added) else []) @
     concat (map (\<lambda>k. case split_key k of (m, code) \<Rightarrow>
       (if ''candle_1m'' \<in> set channels then [Candle_snapshot ONE_MINUTE (get_candles ONE_MINUTE m code None None 500 c)] else []) @
       (if ''candle_5m'' \<in> set channels then [Candle_snapshot FIVE_MINUTES (get_candles FIVE_MINUTES m code None None 500 c)] else []))
       added)"

definition global_snapshots :: "string list \<Rightarrow> ws_message list" where
  "global_snapshots channels =
     (if ''market'' \<in> set channels then [Market_snapshot] else []) @
     (if ''industry_strength'' \<in> set channels then [Ranking_snapshot ''INDUSTRY''] else []) @
     (if ''theme_strength'' \<in> set channels then [Ranking_snapshot ''THEME''] else [])"

definition handle_subscribe :: "(string \<Rightarrow> identity \<Rightarrow> 's \<Rightarrow> outcome \<times> 's) \<Rightarrow>
    (string \<Rightarrow> identity \<Rightarrow> 's \<Rightarrow> outcome \<times> 's) \<Rightarrow> cache \<Rightarrow> string \<Rightarrow> target list \<Rightarrow> string list option \<Rightarrow>
    hub_session \<Rightarrow> hub \<times> 's \<Rightarrow> handled \<times> hub \<times> 's" where
  "handle_subscribe acq rel c n ts channels ss = (\<lambda>(h, s).
     let (r, added, ss, keys, s) =
           subscribe_targets acq rel n ts [] (ss\<lparr>hs_channels := chosen_channels channels\<rparr>, hb_keys h, s);
         ss = (if r = Answered Done
               then ss\<lparr>hs_sent := hs_sent ss @ key_snapshots c (hs_channels ss) added @ global_snapshots (hs_channels ss)\<rparr>
               else ss)
     in (r, put_session n ss h\<lparr>hb_keys := keys\<rparr>, s))"

section \<open>Unsubscribing\<close>

fun release_types :: "(string \<Rightarrow> identity \<Rightarrow> 's \<Rightarrow> outcome \<times> 's) \<Rightarrow> string \<Rightarrow> identity list \<Rightarrow>
    identity list \<times> 's \<Rightarrow> outcome \<times> identity list \<times> 's" where
  "release_types rel n [] (pv, s) = (Done, pv, s)"
| "release_types rel n (i # is) (pv, s) =
     (if i \<notin> set pv then release_types rel n is (pv, s)
      else let (r, s) = rel n i s in if r = Done then release_types rel n is (removeAll i pv, s) else (r, pv, s))"

fun unsubscribe_targets :: "(string \<Rightarrow> identity \<Rightarrow> 's \<Rightarrow> outcome \<times> 's) \<Rightarrow> string \<Rightarrow> target list \<Rightarrow>
    hub_session \<times> (string \<Rightarrow> string set) \<times> 's \<Rightarrow> handled \<times> hub_session \<times> (string \<Rightarrow> string set) \<times> 's" where
  "unsubscribe_targets rel n [] (ss, keys, s) = (Answered Done, ss, keys, s)"
| "unsubscribe_targets rel n (t # ts) (ss, keys, s) =
     (if \<not> valid_target t then unsubscribe_targets rel n ts (send Target_error ss, keys, s)
      else
        case (if has_quote_type t then map_option (map (Pair (target_key t))) (quote_types t)
              else Some (filter (\<lambda>i. fst i = target_key t) (hs_provider ss))) of
          None \<Rightarrow> (Bad_quote_type, ss, keys, s)
        | Some requested \<Rightarrow>
            (let (r, pv, s) = release_types rel n requested (hs_provider ss, s);
                 ss = ss\<lparr>hs_provider := pv\<rparr>
             in if r \<noteq> Done then (Answered r, ss, keys, s)
                else if \<exists>i \<in> set pv. fst i = target_key t then unsubscribe_targets rel n ts (ss, keys, s)
                else unsubscribe_targets rel n ts
                       (ss\<lparr>hs_subscriptions := removeAll (target_key t) (hs_subscriptions ss)\<rparr>,
                        keys(target_key t := keys (target_key t) - {n}), s)))"

definition handle_unsubscribe :: "(string \<Rightarrow> identity \<Rightarrow> 's \<Rightarrow> outcome \<times> 's) \<Rightarrow> string \<Rightarrow> target list \<Rightarrow>
    hub_session \<Rightarrow> hub \<times> 's \<Rightarrow> handled \<times> hub \<times> 's" where
  "handle_unsubscribe rel n ts ss = (\<lambda>(h, s).
     let (r, ss, keys, s) = unsubscribe_targets rel n ts (ss, hb_keys h, s)
     in (r, put_session n ss h\<lparr>hb_keys := keys\<rparr>, s))"

fun release_each :: "(string \<Rightarrow> identity \<Rightarrow> 's \<Rightarrow> outcome \<times> 's) \<Rightarrow> string \<Rightarrow> identity list \<Rightarrow> 's \<Rightarrow> outcome \<times> 's" where
  "release_each rel n [] s = (Done, s)"
| "release_each rel n (i # is) s =
     (let (r, s) = rel n i s in if r = Done then release_each rel n is s else (r, s))"

definition unregister_connection :: "(string \<Rightarrow> identity \<Rightarrow> 's \<Rightarrow> outcome \<times> 's) \<Rightarrow> string \<Rightarrow> hub_session \<Rightarrow>
    hub \<times> 's \<Rightarrow> outcome \<times> hub \<times> 's" where
  "unregister_connection rel n ss = (\<lambda>(h, s).
     let h = put_session n (ss\<lparr>hs_alive := False\<rparr>) h\<lparr>hb_open := removeAll n (hb_open h)\<rparr>;
         (r, s) = release_each rel n (hs_provider ss) s
     in if r \<noteq> Done then (r, h, s)
        else (Done, put_session n (ss\<lparr>hs_alive := False, hs_provider := []\<rparr>) h
                      \<lparr>hb_keys := (\<lambda>k. if k \<in> set (hs_subscriptions ss) then hb_keys h k - {n} else hb_keys h k)\<rparr>, s))"

section \<open>Fan-out\<close>

definition composite_key :: "realtime_quote \<Rightarrow> string" where
  "composite_key q = security_text (upper (rq_market_id q)) (rq_code q)"

definition wants :: "string \<Rightarrow> hub_session \<Rightarrow> bool" where
  "wants channel ss \<longleftrightarrow> hs_alive ss \<and> channel \<in> set (hs_channels ss)"

definition queue_quote :: "realtime_quote \<Rightarrow> hub_session \<Rightarrow> hub_session" where
  "queue_quote q ss = ss\<lparr>hs_pending := AList.update (composite_key q) q (hs_pending ss)\<rparr>"

text \<open>\<open>_route_quote\<close>: the sessions of the key, in any order, each on its own; how many replaced one counts.\<close>

definition route_quote :: "realtime_quote \<Rightarrow> hub \<Rightarrow> hub" where
  "route_quote q h =
     (let key = composite_key q;
          hit = (\<lambda>n ss. n \<in> hb_keys h key \<and> wants ''quote'' ss);
          replaced = {n \<in> hb_keys h key. case hb_sessions h n of None \<Rightarrow> False
                       | Some ss \<Rightarrow> wants ''quote'' ss \<and> key \<in> fst ` set (hs_pending ss)}
      in h\<lparr>hb_sessions := (\<lambda>n. map_option (\<lambda>ss. if hit n ss then queue_quote q ss else ss) (hb_sessions h n)),
           hb_coalesced := hb_coalesced h + int (card replaced)\<rparr>)"

definition route_candle :: "intraday_candle \<Rightarrow> hub \<Rightarrow> hub" where
  "route_candle c h =
     (let key = security_text (upper (ic_market_id c)) (upper (ic_code c));
          channel = (if ic_interval c = ONE_MINUTE then ''candle_1m'' else ''candle_5m'')
      in h\<lparr>hb_sessions := (\<lambda>n. map_option
             (\<lambda>ss. if n \<in> hb_keys h key \<and> wants channel ss then send (Candle_message c) ss else ss) (hb_sessions h n))\<rparr>)"

definition route_global :: "string \<Rightarrow> string \<Rightarrow> hub \<Rightarrow> hub" where
  "route_global channel message_type h =
     h\<lparr>hb_sessions := (\<lambda>n. map_option
         (\<lambda>ss. if n \<in> set (hb_open h) \<and> wants channel ss then send (Global_message message_type) ss else ss) (hb_sessions h n))\<rparr>"

text \<open>A message of the bus is counted and routed.\<close>

datatype bus_message = Bus_quote realtime_quote | Bus_candle intraday_candle | Bus_global string string

fun receive :: "bus_message \<Rightarrow> hub \<Rightarrow> hub" where
  "receive (Bus_quote q) h = route_quote q (h\<lparr>hb_received := hb_received h + 1\<rparr>)"
| "receive (Bus_candle c) h = route_candle c (h\<lparr>hb_received := hb_received h + 1\<rparr>)"
| "receive (Bus_global channel kind) h = route_global channel kind (h\<lparr>hb_received := hb_received h + 1\<rparr>)"

text \<open>
  One round of the dispatch loop. \<open>delivers n q\<close> says whether the websocket takes the quote; a session whose
  websocket fails is dead, the rest of its quotes is still tried.
\<close>

fun flush_quotes :: "(realtime_quote \<Rightarrow> bool) \<Rightarrow> realtime_quote list \<Rightarrow> hub_session \<times> int \<Rightarrow> hub_session \<times> int" where
  "flush_quotes delivers [] acc = acc"
| "flush_quotes delivers (q # qs) (ss, published) =
     flush_quotes delivers qs
       (if delivers q then (send (Quote_message q) ss, published + 1) else (ss\<lparr>hs_alive := False\<rparr>, published))"

fun dispatch_sessions :: "(string \<Rightarrow> realtime_quote \<Rightarrow> bool) \<Rightarrow> string list \<Rightarrow> hub \<Rightarrow> hub" where
  "dispatch_sessions delivers [] h = h"
| "dispatch_sessions delivers (n # ns) h =
     dispatch_sessions delivers ns
       (case hb_sessions h n of
          None \<Rightarrow> h
        | Some ss \<Rightarrow>
            if \<not> hs_alive ss \<or> hs_pending ss = [] then h
            else
              let (ss', published) = flush_quotes (delivers n) (map snd (hs_pending ss)) (ss\<lparr>hs_pending := []\<rparr>, hb_published h)
              in put_session n ss' h\<lparr>hb_published := published\<rparr>)"

definition dispatch_round :: "(string \<Rightarrow> realtime_quote \<Rightarrow> bool) \<Rightarrow> hub \<Rightarrow> hub" where
  "dispatch_round delivers h = dispatch_sessions delivers (hb_open h) h"


section \<open>The contract of the subscription manager\<close>

text \<open>
  A call either succeeds and does what it says, or changes nothing of what is held. What a session records
  as its own is what the manager holds for it; \<open>A\<close> is what the others hold.
\<close>

definition tracks :: "(string \<times> identity) set \<Rightarrow> string \<Rightarrow> identity list \<Rightarrow> (string \<times> identity) set \<Rightarrow> bool" where
  "tracks A n pv H \<longleftrightarrow> n \<notin> fst ` A \<and> H = A \<union> Pair n ` set pv"

text \<open>The books of a session agree with those of the manager and of the hub.\<close>

definition session_ok :: "(string \<times> identity) set \<Rightarrow> string \<Rightarrow> hub_session \<Rightarrow> (string \<Rightarrow> string set) \<Rightarrow>
    (string \<times> identity) set \<Rightarrow> bool" where
  "session_ok A n ss keys H \<longleftrightarrow> tracks A n (hs_provider ss) H \<and> (\<forall>k. n \<in> keys k \<longleftrightarrow> k \<in> set (hs_subscriptions ss)) \<and>
     distinct (hs_subscriptions ss) \<and> length (hs_subscriptions ss) \<le> hs_max ss \<and>
     set (hs_subscriptions ss) \<subseteq> fst ` set (hs_provider ss)"

lemma send_keeps [simp]:
  "hs_max (send msg ss) = hs_max ss" "hs_alive (send msg ss) = hs_alive ss" "hs_provider (send msg ss) = hs_provider ss"
  "hs_subscriptions (send msg ss) = hs_subscriptions ss" "hs_channels (send msg ss) = hs_channels ss"
  "hs_pending (send msg ss) = hs_pending ss"
  by (simp_all add: send_def)

lemma session_ok_send [simp]: "session_ok A n (send msg ss) keys H = session_ok A n ss keys H"
  by (simp add: session_ok_def send_def)

lemma foldl_unique_ne: "foldl (\<lambda>acc x. if x \<in> set acc then acc else x # acc) (y # ys) xs \<noteq> []"
  by (induction xs arbitrary: y ys) auto

lemma unique_ne: "xs \<noteq> [] \<Longrightarrow> unique xs \<noteq> []"
  by (cases xs) (auto simp: unique_def foldl_unique_ne)

lemma quote_types_ne: "quote_types t = Some ks \<Longrightarrow> ks \<noteq> []"
  by (auto simp: quote_types_def raw_quote_types_def Let_def unique_ne split: if_splits option.splits sum.splits)

lemma subset_but_one: "P \<subseteq> Q \<union> R \<Longrightarrow> S \<subseteq> P \<Longrightarrow> R \<subseteq> {k} \<Longrightarrow> S - {k} \<subseteq> Q"
  by auto

definition same_others :: "string \<Rightarrow> (string \<Rightarrow> string set) \<Rightarrow> (string \<Rightarrow> string set) \<Rightarrow> bool" where
  "same_others n keys keys' \<longleftrightarrow> (\<forall>k. keys' k - {n} = keys k - {n})"

lemma same_others_refl [simp]: "same_others n keys keys"
  by (simp add: same_others_def)

lemma same_others_update:
  "same_others n (keys(k := insert n (keys k))) keys' \<Longrightarrow> same_others n keys keys'"
  "same_others n (keys(k := keys k - {n})) keys' \<Longrightarrow> same_others n keys keys'"
  by (auto simp: same_others_def split: if_splits)

locale subscription_service =
  fixes acquire release :: "string \<Rightarrow> identity \<Rightarrow> 's \<Rightarrow> outcome \<times> 's"
    and held :: "'s \<Rightarrow> (string \<times> identity) set"
  assumes acquire_held: "acquire o1 i s = (r, s') \<Longrightarrow> held s' = (if r = Done then insert (o1, i) (held s) else held s)"
    and release_held: "release o1 i s = (r, s') \<Longrightarrow> held s' = (if r = Done then held s - {(o1, i)} else held s)"
    and release_capacity: "release o1 i s = (r, s') \<Longrightarrow> r \<noteq> Capacity_reached"
begin

lemma tracks_acquire:
  "tracks A n pv (held s) \<Longrightarrow> acquire n i s = (Done, s') \<Longrightarrow> tracks A n (pv @ [i]) (held s')"
  using acquire_held [of n i s Done s'] by (auto simp: tracks_def)

lemma tracks_acquire_failed:
  "acquire n i s = (r, s') \<Longrightarrow> r \<noteq> Done \<Longrightarrow> held s' = held s"
  using acquire_held [of n i s r s'] by simp

lemma tracks_release:
  assumes "tracks A n pv (held s)" and "release n i s = (Done, s')"
  shows "tracks A n (removeAll i pv) (held s')"
proof -
  have "(n, i) \<notin> A" using assms(1) by (auto simp: tracks_def intro: rev_image_eqI)
  then show ?thesis using assms(1) release_held [OF assms(2)] by (auto simp: tracks_def)
qed

lemma release_failed:
  "release n i s = (r, s') \<Longrightarrow> r \<noteq> Done \<Longrightarrow> held s' = held s"
  using release_held [of n i s r s'] by simp

lemma acquire_types_tracks:
  assumes "acquire_types acquire n key ks got (pv, s) = (r, got', pv', s')" and "tracks A n pv (held s)"
    and "set got \<subseteq> set pv"
  shows "tracks A n pv' (held s') \<and> set pv' - set got' = set pv - set got \<and> set got \<subseteq> set got' \<and> set got' \<subseteq> set pv' \<and>
    fst ` (set pv' - set pv) \<subseteq> {key} \<and> (r = Done \<longrightarrow> (\<forall>k \<in> set ks. (key, k) \<in> set pv'))"
  using assms
proof (induction ks arbitrary: got pv s)
  case (Cons k ks)
  show ?case
  proof (cases "(key, k) \<in> set pv")
    case True
    with Cons.prems(1) have "acquire_types acquire n key ks got (pv, s) = (r, got', pv', s')" by simp
    from Cons.IH [OF this Cons.prems(2,3)] True show ?thesis by auto
  next
    case new: False
    obtain q t where t: "acquire n (key, k) s = (q, t)" by fastforce
    show ?thesis
    proof (cases "q = Done")
      case True
      with new t Cons.prems(1) have rest: "acquire_types acquire n key ks (got @ [(key, k)]) (pv @ [(key, k)], t) = (r, got', pv', s')"
        by simp
      have "tracks A n (pv @ [(key, k)]) (held t)" using tracks_acquire [OF Cons.prems(2)] t True by simp
      note later = Cons.IH [OF rest this]
      have "set (got @ [(key, k)]) \<subseteq> set (pv @ [(key, k)])" using Cons.prems(3) by auto
      note later = later [OF this]
      have "set (pv @ [(key, k)]) - set (got @ [(key, k)]) = set pv - set got" using Cons.prems(3) new by auto
      with later have "set pv' - set got' = set pv - set got" by simp
      moreover have "fst ` (set pv' - set pv) \<subseteq> {key}"
      proof (rule subset_trans)
        have "set pv' - set pv \<subseteq> insert (key, k) (set pv' - set (pv @ [(key, k)]))" by auto
        then show "fst ` (set pv' - set pv) \<subseteq> fst ` insert (key, k) (set pv' - set (pv @ [(key, k)]))" by (rule image_mono)
        show "fst ` insert (key, k) (set pv' - set (pv @ [(key, k)])) \<subseteq> {key}"
          using later unfolding image_insert fst_conv by blast
      qed
      moreover have "(key, k) \<in> set pv'" "set got \<subseteq> set got'" using later by auto
      ultimately show ?thesis using later by simp
    next
      case False
      with new t Cons.prems(1) have "r = q" "got' = got" "pv' = pv" "s' = t" by auto
      with False t Cons.prems(2,3) tracks_acquire_failed [OF t] show ?thesis by auto
    qed
  qed
qed auto

lemma roll_back_tracks:
  assumes "roll_back release n is (pv, s) = (r, pv', s')" and "tracks A n pv (held s)"
  shows "tracks A n pv' (held s') \<and> r \<noteq> Capacity_reached \<and> set pv' \<subseteq> set pv \<and> set pv - set is \<subseteq> set pv' \<and>
    (r = Done \<longrightarrow> set pv' = set pv - set is)"
  using assms
proof (induction "is" arbitrary: pv s)
  case (Cons i "is")
  obtain q t where t: "release n i s = (q, t)" by fastforce
  show ?case
  proof (cases "q = Done")
    case True
    with t Cons.prems(1) have "roll_back release n is (removeAll i pv, t) = (r, pv', s')" by simp
    from Cons.IH [OF this tracks_release [OF Cons.prems(2)]] t True show ?thesis by auto
  next
    case False
    with t Cons.prems(1) have "r = q" "pv' = pv" "s' = t" by auto
    with Cons.prems(2) release_failed [OF t False] release_capacity [OF t] False show ?thesis by auto
  qed
qed auto

text \<open>A target acquires all its kinds, or, when the capacity is reached, keeps what it had before.\<close>

lemma acquire_target_tracks:
  assumes acq: "acquire_target acquire release n key ks (pv, s) = (r, pv', s')" and old: "tracks A n pv (held s)"
  shows "tracks A n pv' (held s') \<and> fst ` (set pv' - set pv) \<subseteq> {key} \<and> set pv \<subseteq> set pv' \<and>
    (r = Done \<longrightarrow> (\<forall>k \<in> set ks. (key, k) \<in> set pv')) \<and> (r = Capacity_reached \<longrightarrow> set pv' = set pv)"
proof -
  obtain q got pw t where t: "acquire_types acquire n key ks [] (pv, s) = (q, got, pw, t)" by (metis prod_cases4)
  from acquire_types_tracks [OF t old]
  have new: "tracks A n pw (held t)" "set pw - set got = set pv" "set got \<subseteq> set pw" "fst ` (set pw - set pv) \<subseteq> {key}"
    "q = Done \<longrightarrow> (\<forall>k \<in> set ks. (key, k) \<in> set pw)" by auto
  show ?thesis
  proof (cases "q = Capacity_reached")
    case True
    obtain q' pw' t' where t': "roll_back release n got (pw, t) = (q', pw', t')" by (metis prod_cases3)
    from roll_back_tracks [OF t' new(1)] have undone: "tracks A n pw' (held t')" "q' \<noteq> Capacity_reached"
      "set pw' \<subseteq> set pw" "set pv \<subseteq> set pw'" "q' = Done \<longrightarrow> set pw' = set pv" using new(2) by auto
    from acq t t' True have "pv' = pw'" "s' = t'" "r = (if q' = Done then Capacity_reached else q')"
      by (auto simp: acquire_target_def)
    then show ?thesis using undone new(4) by auto
  next
    case False
    with acq t have "pv' = pw" "s' = t" "r = q" by (auto simp: acquire_target_def)
    then show ?thesis using new False by auto
  qed
qed

lemma release_types_tracks:
  assumes "release_types release n is (pv, s) = (r, pv', s')" and "tracks A n pv (held s)"
  shows "tracks A n pv' (held s') \<and> set pv' \<subseteq> set pv \<and> set pv - set is \<subseteq> set pv' \<and>
    (r = Done \<longrightarrow> set pv' = set pv - set is) \<and> (r \<noteq> Done \<longrightarrow> set is \<inter> set pv' \<noteq> {})"
  using assms
proof (induction "is" arbitrary: pv s)
  case (Cons i "is")
  show ?case
  proof (cases "i \<in> set pv")
    case False
    with Cons.prems(1) have "release_types release n is (pv, s) = (r, pv', s')" by simp
    from Cons.IH [OF this Cons.prems(2)] False show ?thesis by auto
  next
    case True
    obtain q t where t: "release n i s = (q, t)" by fastforce
    show ?thesis
    proof (cases "q = Done")
      case ended: True
      with True t Cons.prems(1) have "release_types release n is (removeAll i pv, t) = (r, pv', s')" by simp
      from Cons.IH [OF this tracks_release [OF Cons.prems(2)]] t ended show ?thesis by auto
    next
      case False
      with True t Cons.prems(1) have "r = q" "pv' = pv" "s' = t" by auto
      with True Cons.prems(2) release_failed [OF t False] False show ?thesis by auto
    qed
  qed
qed auto

lemma release_each_held:
  "release_each release n is s = (r, s') \<Longrightarrow>
    held s' \<subseteq> held s \<and> held s - Pair n ` set is \<subseteq> held s' \<and> (r = Done \<longrightarrow> held s' = held s - Pair n ` set is)"
proof (induction "is" arbitrary: s)
  case (Cons i "is")
  obtain q t where t: "release n i s = (q, t)" by fastforce
  show ?case
  proof (cases "q = Done")
    case True
    with t Cons.prems have rest: "release_each release n is t = (r, s')" by simp
    have "held t = held s - {(n, i)}" using release_held [OF t] True by simp
    with Cons.IH [OF rest] show ?thesis by auto
  next
    case False
    with t Cons.prems release_failed [OF t False] False show ?thesis by auto
  qed
qed auto

lemma subscribe_targets_ok:
  assumes "subscribe_targets acquire release n ts added (ss, keys, s) = (r, added', ss', keys', s')"
    and "session_ok A n ss keys (held s)"
  shows "session_ok A n ss' keys' (held s') \<and> same_others n keys keys' \<and> hs_max ss' = hs_max ss \<and> hs_alive ss' = hs_alive ss"
  using assms
proof (induction ts arbitrary: added ss keys s)
  case (Cons t ts)
  consider (invalid) "\<not> valid_target t" | (limit) "valid_target t" "hs_max ss \<le> length (hs_subscriptions ss)"
    | (bad) "valid_target t" "\<not> hs_max ss \<le> length (hs_subscriptions ss)" "quote_types t = None"
    | (acquiring) ks where "valid_target t" "\<not> hs_max ss \<le> length (hs_subscriptions ss)" "quote_types t = Some ks"
    by fastforce
  then show ?case
  proof cases
    case invalid
    with Cons.prems(1) have "subscribe_targets acquire release n ts added (send Target_error ss, keys, s) = (r, added', ss', keys', s')"
      by simp
    from Cons.IH [OF this] Cons.prems(2) show ?thesis by simp
  next
    case limit
    with Cons.prems show ?thesis by auto
  next
    case bad
    with Cons.prems show ?thesis by auto
  next
    case acquiring
    obtain q pv u where u: "acquire_target acquire release n (target_key t) ks (hs_provider ss, s) = (q, pv, u)"
      by (metis prod_cases3)
    have old: "tracks A n (hs_provider ss) (held s)" using Cons.prems(2) by (simp add: session_ok_def)
    from acquire_target_tracks [OF u old] have new: "tracks A n pv (held u)" "set (hs_provider ss) \<subseteq> set pv"
      "q = Done \<longrightarrow> (\<forall>k \<in> set ks. (target_key t, k) \<in> set pv)" by auto
    have kept: "set (hs_subscriptions ss) \<subseteq> fst ` set pv" using Cons.prems(2) new(2) by (fastforce simp: session_ok_def)
    show ?thesis
    proof (cases "q = Done")
      case False
      with acquiring u Cons.prems(1) have "ss' = ss\<lparr>hs_provider := pv\<rparr>" "keys' = keys" "s' = u" by auto
      with new(1) kept Cons.prems(2) show ?thesis by (auto simp: session_ok_def)
    next
      case True
      let ?k = "target_key t"
      let ?ss = "ss\<lparr>hs_provider := pv, hs_subscriptions := List.insert ?k (hs_subscriptions ss)\<rparr>"
      let ?keys = "keys(?k := insert n (keys ?k))"
      from True acquiring u Cons.prems(1)
      have rest: "subscribe_targets acquire release n ts (added @ [?k]) (?ss, ?keys, u) = (r, added', ss', keys', s')" by simp
      obtain k where "k \<in> set ks" using quote_types_ne [OF acquiring(3)] by (cases ks) auto
      then have "?k \<in> fst ` set pv" using new(3) True by force
      then have "session_ok A n ?ss ?keys (held u)"
        using new(1) kept Cons.prems(2) acquiring(2) by (auto simp: session_ok_def List.insert_def)
      from Cons.IH [OF rest this] show ?thesis using same_others_update(1) [of n keys ?k keys'] by (simp add: fun_upd_def)
    qed
  qed
qed auto

lemma unsubscribe_targets_ok:
  assumes "unsubscribe_targets release n ts (ss, keys, s) = (r, ss', keys', s')" and "session_ok A n ss keys (held s)"
  shows "session_ok A n ss' keys' (held s') \<and> same_others n keys keys' \<and> hs_max ss' = hs_max ss \<and> hs_alive ss' = hs_alive ss"
  using assms
proof (induction ts arbitrary: ss keys s)
  case (Cons t ts)
  let ?k = "target_key t"
  let ?req = "if has_quote_type t then map_option (map (Pair ?k)) (quote_types t)
              else Some (filter (\<lambda>i. fst i = ?k) (hs_provider ss))"
  consider (invalid) "\<not> valid_target t" | (bad) "valid_target t" "?req = None"
    | (releasing) req where "valid_target t" "?req = Some req"
    by fastforce
  then show ?case
  proof cases
    case invalid
    with Cons.prems(1) have "unsubscribe_targets release n ts (send Target_error ss, keys, s) = (r, ss', keys', s')"
      by simp
    from Cons.IH [OF this] Cons.prems(2) show ?thesis by simp
  next
    case bad
    with Cons.prems show ?thesis by (auto split: if_splits)
  next
    case releasing
    then have req: "fst ` set req \<subseteq> {?k}" by (auto split: if_splits)
    obtain q pv u where u: "release_types release n req (hs_provider ss, s) = (q, pv, u)" by (metis prod_cases3)
    have old: "tracks A n (hs_provider ss) (held s)" using Cons.prems(2) by (simp add: session_ok_def)
    from release_types_tracks [OF u old] have new: "tracks A n pv (held u)" "set (hs_provider ss) - set req \<subseteq> set pv"
      "q \<noteq> Done \<longrightarrow> set req \<inter> set pv \<noteq> {}" by auto
    have "set (hs_provider ss) \<subseteq> set pv \<union> set req" using new(2) by blast
    then have "fst ` set (hs_provider ss) \<subseteq> fst ` set pv \<union> fst ` set req" by (metis image_Un image_mono)
    moreover have "set (hs_subscriptions ss) \<subseteq> fst ` set (hs_provider ss)" using Cons.prems(2) by (simp add: session_ok_def)
    ultimately have others: "set (hs_subscriptions ss) - {?k} \<subseteq> fst ` set pv" using req by (rule subset_but_one)
    consider (failed) "q \<noteq> Done" | (kept) "q = Done" "?k \<in> fst ` set pv" | (gone) "q = Done" "?k \<notin> fst ` set pv" by blast
    then show ?thesis
    proof cases
      case failed
      with releasing u Cons.prems(1) have eq: "ss' = ss\<lparr>hs_provider := pv\<rparr>" "keys' = keys" "s' = u" by auto
      have "?k \<in> fst ` set pv" using new(3) req failed by force
      with others have "set (hs_subscriptions ss) \<subseteq> fst ` set pv" by auto
      with eq new(1) Cons.prems(2) show ?thesis by (auto simp: session_ok_def)
    next
      case kept
      then have "\<exists>i \<in> set pv. fst i = ?k" by force
      with kept(1) releasing u Cons.prems(1)
      have rest: "unsubscribe_targets release n ts (ss\<lparr>hs_provider := pv\<rparr>, keys, u) = (r, ss', keys', s')" by simp
      have "session_ok A n (ss\<lparr>hs_provider := pv\<rparr>) keys (held u)"
        using Cons.prems(2) new(1) others kept(2) by (auto simp: session_ok_def)
      from Cons.IH [OF rest this] show ?thesis by simp
    next
      case gone
      then have "\<not> (\<exists>i \<in> set pv. fst i = ?k)" by force
      with gone(1) releasing u Cons.prems(1)
      have rest: "unsubscribe_targets release n ts (ss\<lparr>hs_provider := pv, hs_subscriptions := removeAll ?k (hs_subscriptions ss)\<rparr>,
          keys(?k := keys ?k - {n}), u) = (r, ss', keys', s')" by simp
      have "session_ok A n (ss\<lparr>hs_provider := pv, hs_subscriptions := removeAll ?k (hs_subscriptions ss)\<rparr>)
          (keys(?k := keys ?k - {n})) (held u)"
        using Cons.prems(2) new(1) others
        by (auto simp: session_ok_def distinct_removeAll intro: order_trans [OF length_removeAll_less_eq])
      from Cons.IH [OF rest this] show ?thesis using same_others_update(2) [of n keys ?k keys'] by (simp add: fun_upd_def)
    qed
  qed
qed auto

end

text \<open>The hub: what its open sessions record is right, and no unknown session is routed to.\<close>

definition hub_ok :: "hub \<Rightarrow> (string \<times> identity) set \<Rightarrow> bool" where
  "hub_ok h H \<longleftrightarrow>
     (\<forall>n \<in> set (hb_open h). \<exists>ss. hb_sessions h n = Some ss \<and> session_ok {p \<in> H. fst p \<noteq> n} n ss (hb_keys h) H \<and>
        hs_max ss = hb_max h) \<and>
     (\<forall>n k. hb_sessions h n = None \<longrightarrow> n \<notin> hb_keys h k)"

lemma tracks_iff: "tracks {p \<in> H. fst p \<noteq> n} n pv H \<longleftrightarrow> {i. (n, i) \<in> H} = set pv"
proof -
  have "(m, i) \<in> {p \<in> H. fst p \<noteq> n} \<union> Pair n ` set pv \<longleftrightarrow> (if m = n then i \<in> set pv else (m, i) \<in> H)" for m i
    by auto
  then have "H = {p \<in> H. fst p \<noteq> n} \<union> Pair n ` set pv \<longleftrightarrow> (\<forall>m i. (m, i) \<in> H \<longleftrightarrow> (if m = n then i \<in> set pv else (m, i) \<in> H))"
    unfolding set_eq_iff by (metis (no_types, lifting) surj_pair)
  also have "\<dots> \<longleftrightarrow> {i. (n, i) \<in> H} = set pv" by auto
  finally show ?thesis by (auto simp: tracks_def)
qed

lemma tracks_rest: "tracks A n pv H \<Longrightarrow> A = {p \<in> H. fst p \<noteq> n}"
  by (auto simp: tracks_def intro: rev_image_eqI)


lemma session_ok_others:
  assumes "session_ok {p \<in> H. fst p \<noteq> m} m ss keys H" and "m \<noteq> n" and "same_others n keys keys'"
    and "{p \<in> H'. fst p \<noteq> n} = {p \<in> H. fst p \<noteq> n}"
  shows "session_ok {p \<in> H'. fst p \<noteq> m} m ss keys' H'"
proof -
  have "(m, i) \<in> H' \<longleftrightarrow> (m, i) \<in> H" for i
  proof -
    have "(m, i) \<in> {p \<in> H'. fst p \<noteq> n} \<longleftrightarrow> (m, i) \<in> {p \<in> H. fst p \<noteq> n}" by (simp only: assms(4))
    then show ?thesis using assms(2) by simp
  qed
  moreover have "m \<in> keys' k \<longleftrightarrow> m \<in> keys k" for k
  proof -
    have "m \<in> keys' k - {n} \<longleftrightarrow> m \<in> keys k - {n}" using assms(3) by (simp add: same_others_def)
    then show ?thesis using assms(2) by simp
  qed
  ultimately show ?thesis using assms(1) by (simp add: session_ok_def tracks_iff)
qed

lemma hub_ok_put:
  assumes ok: "hub_ok h H" and known: "n \<in> set (hb_open h)" and new: "session_ok {p \<in> H. fst p \<noteq> n} n ss keys H'"
    and others: "same_others n (hb_keys h) keys" and limit: "hs_max ss = hb_max h"
  shows "hub_ok (put_session n ss h\<lparr>hb_keys := keys\<rparr>) H'"
proof -
  have rest: "{p \<in> H. fst p \<noteq> n} = {p \<in> H'. fst p \<noteq> n}" using new by (auto simp: session_ok_def dest: tracks_rest)
  have "\<exists>t. hb_sessions (put_session n ss h\<lparr>hb_keys := keys\<rparr>) m = Some t \<and>
      session_ok {p \<in> H'. fst p \<noteq> m} m t keys H' \<and> hs_max t = hb_max h" if "m \<in> set (hb_open h)" for m
  proof (cases "m = n")
    case True
    with new limit rest show ?thesis by (simp add: put_session_def)
  next
    case False
    from ok that obtain t where "hb_sessions h m = Some t" "session_ok {p \<in> H. fst p \<noteq> m} m t (hb_keys h) H"
      "hs_max t = hb_max h" by (auto simp: hub_ok_def)
    with session_ok_others [OF this(2) False others] rest False show ?thesis by (simp add: put_session_def)
  qed
  moreover have "m \<notin> keys k" if "hb_sessions (put_session n ss h) m = None" for m k
  proof -
    from that have "m \<noteq> n" "hb_sessions h m = None" by (auto simp: put_session_def split: if_splits)
    then have "m \<notin> hb_keys h k - {n}" using ok by (auto simp: hub_ok_def)
    then have "m \<notin> keys k - {n}" using others by (simp add: same_others_def)
    with \<open>m \<noteq> n\<close> show ?thesis by simp
  qed
  ultimately show ?thesis by (auto simp: hub_ok_def put_session_def)
qed

text \<open>
  Everything that happens to a hub: connections, their requests and ends, whatever the outcome, the other
  consumers of the manager, messages of the bus and dispatch rounds. The owner id of a connection is the
  address of its session object: an address may come back once no open session, no route of the hub and
  no holding of the manager has it.
\<close>

inductive hub_run :: "(string \<Rightarrow> identity \<Rightarrow> 's \<Rightarrow> outcome \<times> 's) \<Rightarrow> (string \<Rightarrow> identity \<Rightarrow> 's \<Rightarrow> outcome \<times> 's) \<Rightarrow>
    ('s \<Rightarrow> (string \<times> identity) set) \<Rightarrow> nat \<Rightarrow> hub \<times> 's \<Rightarrow> bool" for acq rel held limit where
  start: "hub_run acq rel held limit (new_hub limit, s)"
| opened: "hub_run acq rel held limit (h, s) \<Longrightarrow> n \<notin> set (hb_open h) \<Longrightarrow> n \<notin> fst ` held s \<Longrightarrow>
    \<forall>k. n \<notin> hb_keys h k \<Longrightarrow> hub_run acq rel held limit (register_connection n h, s)"
| subscribed: "hub_run acq rel held limit (h, s) \<Longrightarrow> n \<in> set (hb_open h) \<Longrightarrow> hb_sessions h n = Some ss \<Longrightarrow>
    handle_subscribe acq rel c n ts channels ss (h, s) = (r, h', s') \<Longrightarrow> hub_run acq rel held limit (h', s')"
| unsubscribed: "hub_run acq rel held limit (h, s) \<Longrightarrow> n \<in> set (hb_open h) \<Longrightarrow> hb_sessions h n = Some ss \<Longrightarrow>
    handle_unsubscribe rel n ts ss (h, s) = (r, h', s') \<Longrightarrow> hub_run acq rel held limit (h', s')"
| closed: "hub_run acq rel held limit (h, s) \<Longrightarrow> n \<in> set (hb_open h) \<Longrightarrow> hb_sessions h n = Some ss \<Longrightarrow>
    unregister_connection rel n ss (h, s) = (q, h', s') \<Longrightarrow> hub_run acq rel held limit (h', s')"
| elsewhere: "hub_run acq rel held limit (h, s) \<Longrightarrow> hb_sessions h owner = None \<Longrightarrow>
    acq owner i s = (q, s') \<or> rel owner i s = (q, s') \<Longrightarrow> hub_run acq rel held limit (h, s')"
| received: "hub_run acq rel held limit (h, s) \<Longrightarrow> hub_run acq rel held limit (receive msg h, s)"
| dispatched: "hub_run acq rel held limit (h, s) \<Longrightarrow> hub_run acq rel held limit (dispatch_round delivers h, s)"

text \<open>Routing and dispatching touch what sessions were sent and wait for, never their subscriptions.\<close>

definition same_books :: "hub \<Rightarrow> hub \<Rightarrow> bool" where
  "same_books h h' \<longleftrightarrow> hb_open h' = hb_open h \<and> hb_keys h' = hb_keys h \<and> hb_max h' = hb_max h \<and>
     (\<forall>n. rel_option (\<lambda>ss ss'. hs_provider ss' = hs_provider ss \<and> hs_subscriptions ss' = hs_subscriptions ss \<and>
            hs_max ss' = hs_max ss) (hb_sessions h n) (hb_sessions h' n))"

lemma same_books_refl [simp]: "same_books h h"
  by (simp add: same_books_def option.rel_refl)

lemma same_books_trans: "same_books h h' \<Longrightarrow> same_books h' h'' \<Longrightarrow> same_books h h''"
  by (simp add: same_books_def) (smt (verit) option.rel_sel)

lemma same_books_ok: "hub_ok h H \<Longrightarrow> same_books h h' \<Longrightarrow> hub_ok h' H"
  by (simp add: hub_ok_def same_books_def session_ok_def) (smt (verit) option.rel_sel option.sel option.discI option.collapse)

lemma receive_books: "same_books h (receive msg h)"
  by (cases msg)
    (auto simp: same_books_def route_quote_def route_candle_def route_global_def queue_quote_def Let_def
       option.rel_map option.rel_refl intro!: option.rel_refl)

lemma flush_books:
  "flush_quotes delivers qs (ss, published) = (ss', published') \<Longrightarrow>
    hs_provider ss' = hs_provider ss \<and> hs_subscriptions ss' = hs_subscriptions ss \<and> hs_max ss' = hs_max ss"
  by (induction qs arbitrary: ss published) (auto split: if_splits)

lemma dispatch_books: "same_books h (dispatch_sessions delivers ns h)"
proof (induction ns arbitrary: h)
  case (Cons n ns)
  let ?h = "case hb_sessions h n of None \<Rightarrow> h
        | Some ss \<Rightarrow>
            if \<not> hs_alive ss \<or> hs_pending ss = [] then h
            else
              let (ss', published) = flush_quotes (delivers n) (map snd (hs_pending ss)) (ss\<lparr>hs_pending := []\<rparr>, hb_published h)
              in put_session n ss' h\<lparr>hb_published := published\<rparr>"
  have "same_books h ?h"
    by (auto simp: same_books_def put_session_def option.rel_refl split: option.split prod.split dest!: flush_books)
  with Cons.IH [of ?h] show ?case by (auto intro: same_books_trans)
qed simp

lemma tracks_mem: "tracks A n pv H \<Longrightarrow> (n, i) \<in> H \<Longrightarrow> i \<in> set pv"
  by (auto simp: tracks_def intro: rev_image_eqI)

lemma others_unchanged:
  "H' = insert (n, i) H \<or> H' = H \<or> H' = H - {(n, i)} \<Longrightarrow> {p \<in> H'. fst p \<noteq> n} = {p \<in> H. fst p \<noteq> n}"
  by (elim disjE) auto

lemma hub_ok_session:
  "hub_ok h H \<Longrightarrow> n \<in> set (hb_open h) \<Longrightarrow> hb_sessions h n = Some ss \<Longrightarrow>
    session_ok {p \<in> H. fst p \<noteq> n} n ss (hb_keys h) H \<and> hs_max ss = hb_max h"
  by (auto simp: hub_ok_def)

lemma session_ok_fresh:
  "n \<notin> fst ` H \<Longrightarrow> (\<And>k. n \<notin> keys k) \<Longrightarrow> session_ok {p \<in> H. fst p \<noteq> n} n (new_session limit) keys H"
  by (auto simp: session_ok_def tracks_iff new_session_def intro: rev_image_eqI)

context subscription_service
begin

lemma release_each_rest:
  assumes "release_each release n is s = (r, s')"
  shows "{p \<in> held s'. fst p \<noteq> n} = {p \<in> held s. fst p \<noteq> n}"
proof -
  from release_each_held [OF assms] have "held s' \<subseteq> held s" "held s - Pair n ` set is \<subseteq> held s'" by auto
  then show ?thesis by auto
qed

lemma unregister_ok:
  assumes ok: "hub_ok h (held s)" and known: "n \<in> set (hb_open h)" "hb_sessions h n = Some ss"
    and un: "unregister_connection release n ss (h, s) = (q, h', s')"
  shows "hub_ok h' (held s') \<and>
    (q = Done \<longrightarrow> n \<notin> fst ` held s' \<and> (\<forall>k. n \<notin> hb_keys h' k)) \<and>
    {p \<in> held s'. fst p \<noteq> n} = {p \<in> held s. fst p \<noteq> n} \<and> same_others n (hb_keys h) (hb_keys h') \<and> n \<notin> set (hb_open h')"
proof -
  obtain r u where u: "release_each release n (hs_provider ss) s = (r, u)" by fastforce
  from un u have eq: "q = r" "s' = u" "hb_max h' = hb_max h" "hb_open h' = removeAll n (hb_open h)"
    "\<And>m. m \<noteq> n \<Longrightarrow> hb_sessions h' m = hb_sessions h m" "hb_sessions h' n \<noteq> None"
    and keys: "hb_keys h' = (if q = Done then \<lambda>k. if k \<in> set (hs_subscriptions ss) then hb_keys h k - {n} else hb_keys h k else hb_keys h)"
    by (auto simp: unregister_connection_def put_session_def Let_def split: if_splits)
  have others: "same_others n (hb_keys h) (hb_keys h')" by (auto simp: keys same_others_def)
  have rest: "{p \<in> held s'. fst p \<noteq> n} = {p \<in> held s. fst p \<noteq> n}" using release_each_rest [OF u] by (simp add: eq)
  from ok known have mine: "tracks {p \<in> held s. fst p \<noteq> n} n (hs_provider ss) (held s)"
    "\<forall>k. n \<in> hb_keys h k \<longleftrightarrow> k \<in> set (hs_subscriptions ss)" by (auto simp: hub_ok_def session_ok_def)
  have "n \<notin> fst ` held s'" if "q = Done"
  proof
    assume "n \<in> fst ` held s'"
    then obtain i where "(n, i) \<in> held s'" by auto
    moreover have "held s' = held s - Pair n ` set (hs_provider ss)" using release_each_held [OF u] that by (simp add: eq)
    ultimately show False using tracks_mem [OF mine(1), of i] by auto
  qed
  moreover have "\<forall>k. n \<notin> hb_keys h' k" if "q = Done" using that mine(2) by (auto simp: keys)
  moreover have "hub_ok h' (held s')"
    unfolding hub_ok_def
  proof (intro conjI ballI allI impI)
    fix m assume "m \<in> set (hb_open h')"
    then have m: "m \<noteq> n" "m \<in> set (hb_open h)" by (auto simp: eq)
    with ok obtain t where "hb_sessions h m = Some t" "session_ok {p \<in> held s. fst p \<noteq> m} m t (hb_keys h) (held s)"
      "hs_max t = hb_max h" by (auto simp: hub_ok_def)
    with session_ok_others [OF this(2) m(1) others rest] m(1)
    show "\<exists>t. hb_sessions h' m = Some t \<and> session_ok {p \<in> held s'. fst p \<noteq> m} m t (hb_keys h') (held s') \<and> hs_max t = hb_max h'"
      by (simp add: eq)
  next
    fix m k assume none: "hb_sessions h' m = None"
    then have "m \<noteq> n" using eq(6) by auto
    with none ok have "m \<notin> hb_keys h k" by (simp add: hub_ok_def eq)
    then show "m \<notin> hb_keys h' k" by (auto simp: keys)
  qed
  ultimately show ?thesis using rest others by (simp add: eq)
qed

lemma hub_run_ok: "hub_run acquire release held limit hs \<Longrightarrow> hub_ok (fst hs) (held (snd hs)) \<and> hb_max (fst hs) = limit"
proof (induction rule: hub_run.induct)
  case (start s)
  then show ?case by (simp add: hub_ok_def new_hub_def)
next
  case (opened h s n)
  have max: "hb_max (register_connection n h) = limit" using opened.IH by (simp add: register_connection_def put_session_def)
  have "hub_ok (register_connection n h) (held s)"
    unfolding hub_ok_def
  proof (intro conjI ballI allI impI)
    fix m assume m: "m \<in> set (hb_open (register_connection n h))"
    show "\<exists>ss. hb_sessions (register_connection n h) m = Some ss \<and>
        session_ok {p \<in> held s. fst p \<noteq> m} m ss (hb_keys (register_connection n h)) (held s) \<and>
        hs_max ss = hb_max (register_connection n h)"
    proof (cases "m = n")
      case True
      have "session_ok {p \<in> held s. fst p \<noteq> n} n (new_session (hb_max h)) (hb_keys h) (held s)"
        using opened by (intro session_ok_fresh) (auto simp: hub_ok_def)
      with True show ?thesis by (simp add: register_connection_def put_session_def new_session_def)
    next
      case False
      with m opened.IH show ?thesis by (auto simp: register_connection_def put_session_def hub_ok_def)
    qed
  next
    fix m k assume "hb_sessions (register_connection n h) m = None"
    with opened.IH show "m \<notin> hb_keys (register_connection n h) k"
      by (auto simp: register_connection_def put_session_def hub_ok_def split: if_splits)
  qed
  with max show ?case by simp
next
  case (subscribed h s n ss c ts channels r h' s')
  obtain q added t keys u where t: "subscribe_targets acquire release n ts []
      (ss\<lparr>hs_channels := chosen_channels channels\<rparr>, hb_keys h, s) = (q, added, t, keys, u)" by (metis prod_cases5)
  have "hub_ok h (held s)" using subscribed.IH by simp
  from hub_ok_session [OF this subscribed.hyps(2,3)]
  have ok: "session_ok {p \<in> held s. fst p \<noteq> n} n (ss\<lparr>hs_channels := chosen_channels channels\<rparr>) (hb_keys h) (held s)"
    "hs_max ss = hb_max h" by (simp_all add: session_ok_def)
  note new = subscribe_targets_ok [OF t ok(1)]
  from subscribed.hyps(4) t obtain msgs where "h' = put_session n (t\<lparr>hs_sent := msgs\<rparr>) h\<lparr>hb_keys := keys\<rparr>" "s' = u"
    by (cases "q = Answered Done") (auto simp: handle_subscribe_def Let_def intro: that [of "hs_sent t"])
  moreover have "session_ok {p \<in> held s. fst p \<noteq> n} n (t\<lparr>hs_sent := msgs\<rparr>) keys (held u)"
    using new by (simp add: session_ok_def)
  ultimately show ?case
    using subscribed.IH subscribed.hyps(2) new ok(2) hub_ok_put [of h "held s" n "t\<lparr>hs_sent := msgs\<rparr>" keys "held u"]
    by (simp add: put_session_def)
next
  case (unsubscribed h s n ss ts r h' s')
  obtain q t keys u where t: "unsubscribe_targets release n ts (ss, hb_keys h, s) = (q, t, keys, u)" by (metis prod_cases4)
  from unsubscribed have ok: "session_ok {p \<in> held s. fst p \<noteq> n} n ss (hb_keys h) (held s)" "hs_max ss = hb_max h"
    by (auto simp: hub_ok_def)
  note new = unsubscribe_targets_ok [OF t ok(1)]
  from unsubscribed.hyps(4) t have "h' = put_session n t h\<lparr>hb_keys := keys\<rparr>" "s' = u"
    by (auto simp: handle_unsubscribe_def)
  then show ?case
    using unsubscribed.IH unsubscribed.hyps(2) new ok(2) hub_ok_put [of h "held s" n t keys "held u"]
    by (simp add: put_session_def)
next
  case (closed h s n ss q h' s')
  then have "hub_ok h' (held s')" using unregister_ok [of h s n ss q h' s'] by simp
  moreover have "hb_max h' = hb_max h"
    using closed.hyps(4) by (auto simp: unregister_connection_def put_session_def Let_def split: if_splits prod.splits)
  ultimately show ?case using closed.IH by simp
next
  case (elsewhere h s owner i q s')
  from elsewhere.hyps(3) have "held s' = insert (owner, i) (held s) \<or> held s' = held s \<or> held s' = held s - {(owner, i)}"
    using acquire_held [of owner i s q s'] release_held [of owner i s q s'] by (elim disjE; cases "q = Done"; simp)
  then have "{p \<in> held s'. fst p \<noteq> owner} = {p \<in> held s. fst p \<noteq> owner}" by (rule others_unchanged)
  note others = session_ok_others [where H = "held s" and H' = "held s'" and n = owner, OF _ _ same_others_refl this]
  have "hub_ok h (held s')"
    unfolding hub_ok_def
  proof (intro conjI ballI)
    fix m assume m: "m \<in> set (hb_open h)"
    with elsewhere.IH obtain ss where ss: "hb_sessions h m = Some ss" "session_ok {p \<in> held s. fst p \<noteq> m} m ss (hb_keys h) (held s)"
      "hs_max ss = hb_max h" by (auto simp: hub_ok_def)
    with elsewhere.hyps(2) have "m \<noteq> owner" by auto
    from others [OF ss(2) this] ss(1,3)
    show "\<exists>ss. hb_sessions h m = Some ss \<and> session_ok {p \<in> held s'. fst p \<noteq> m} m ss (hb_keys h) (held s') \<and> hs_max ss = hb_max h"
      by simp
  qed (use elsewhere.IH in \<open>simp add: hub_ok_def\<close>)
  with elsewhere.IH show ?case by simp
next
  case (received h s msg)
  then show ?case using receive_books [of h msg] same_books_ok [of h "held s" "receive msg h"] by (auto simp: same_books_def)
next
  case (dispatched h s delivers)
  then show ?case
    using dispatch_books [of h delivers "hb_open h"] same_books_ok [of h "held s" "dispatch_round delivers h"]
    by (auto simp: same_books_def dispatch_round_def)
qed

end

section \<open>The hub over the manager\<close>

text \<open>The manager asks the provider for its capabilities at every call.\<close>

definition managed_acquire :: "(string \<Rightarrow> identity \<Rightarrow> 's \<Rightarrow> bool \<times> 's) \<Rightarrow> ('s \<Rightarrow> capabilities) \<Rightarrow> string \<Rightarrow> identity \<Rightarrow>
    manager \<times> 's \<Rightarrow> outcome \<times> manager \<times> 's" where
  "managed_acquire acq cap owner i ms = acquire_subscription acq (cap (snd ms)) owner i ms"

definition held_by :: "manager \<times> 's \<Rightarrow> (string \<times> identity) set" where
  "held_by ms = holds (fst ms)"

lemma managed_acquire_held:
  "managed_acquire acq cap owner i ms = (r, ms') \<Longrightarrow>
    held_by ms' = (if r = Done then insert (owner, i) (held_by ms) else held_by ms)"
  by (cases ms, cases ms')
    (auto simp: managed_acquire_def acquire_subscription_def held_by_def holds_def Let_def split: if_splits prod.splits)

lemma removeAll_Nil_iff: "removeAll x xs = [] \<longleftrightarrow> set xs \<subseteq> {x}"
  by (induction xs) auto

lemma managed_release_held:
  "release_subscription rel owner i ms = (r, ms') \<Longrightarrow>
    held_by ms' = (if r = Done then held_by ms - {(owner, i)} else held_by ms)"
  by (cases ms, cases ms')
    (auto simp: release_subscription_def held_by_def holds_def Let_def removeAll_Nil_iff split: if_splits prod.splits)

lemma managed_release_capacity: "release_subscription rel owner i ms = (r, ms') \<Longrightarrow> r \<noteq> Capacity_reached"
  by (cases ms) (auto simp: release_subscription_def Let_def split: if_splits prod.splits)

interpretation mg: subscription_service "managed_acquire acq cap" "release_subscription rel" held_by
  for acq :: "string \<Rightarrow> identity \<Rightarrow> 's \<Rightarrow> bool \<times> 's" and cap rel
  by unfold_locales (fact managed_acquire_held managed_release_held managed_release_capacity)+

text \<open>
  C11. The books of every connection are right. Whatever happens to the hub over the manager of any provider
  (requests that succeed, are refused for capacity and rolled back, or fail, other consumers coming and
  going, quotes, dispatch rounds, ended connections), for every open connection what it records as acquired is
  what the manager holds for it, quotes of a security are routed to it exactly when it subscribed to the
  security, it has at most the allowed number of subscriptions, and each of them is backed by a held identity.
\<close>

theorem connection_books_are_right:
  assumes "hub_run (managed_acquire acq cap) (release_subscription rel) held_by limit (h, m, s)"
    and "n \<in> set (hb_open h)"
  shows "\<exists>ss. hb_sessions h n = Some ss \<and> {i. (n, i) \<in> holds m} = set (hs_provider ss) \<and>
    (\<forall>k. n \<in> hb_keys h k \<longleftrightarrow> k \<in> set (hs_subscriptions ss)) \<and> length (hs_subscriptions ss) \<le> limit \<and>
    (\<forall>k \<in> set (hs_subscriptions ss). \<exists>q. (n, (k, q)) \<in> holds m)"
proof -
  have ok: "hub_ok h (holds m)" "hb_max h = limit" using mg.hub_run_ok [OF assms(1)] by (simp_all add: held_by_def)
  with assms(2) obtain ss where ss: "hb_sessions h n = Some ss" "session_ok {p \<in> holds m. fst p \<noteq> n} n ss (hb_keys h) (holds m)"
    "hs_max ss = limit" by (auto simp: hub_ok_def)
  then have held: "{i. (n, i) \<in> holds m} = set (hs_provider ss)" and
    rest: "\<forall>k. n \<in> hb_keys h k \<longleftrightarrow> k \<in> set (hs_subscriptions ss)" "length (hs_subscriptions ss) \<le> limit"
    "set (hs_subscriptions ss) \<subseteq> fst ` set (hs_provider ss)" by (simp_all add: session_ok_def tracks_iff)
  have "\<exists>q. (n, (k, q)) \<in> holds m" if "k \<in> set (hs_subscriptions ss)" for k
  proof -
    have "k \<in> fst ` set (hs_provider ss)" using that rest(3) by blast
    then obtain q where "(k, q) \<in> set (hs_provider ss)" by auto
    then have "(k, q) \<in> {i. (n, i) \<in> holds m}" by (simp only: held)
    then show ?thesis by blast
  qed
  with ss(1) held rest show ?thesis by blast
qed

text \<open>
  A connection that ends leaves nothing behind: when its end is handled without an error of the
  provider, the manager holds nothing for it, no security routes to it, and what all others hold is untouched.
\<close>

theorem ended_connection_leaves_nothing:
  assumes run: "hub_run (managed_acquire acq cap) (release_subscription rel) held_by limit (h, m, s)"
    and known: "n \<in> set (hb_open h)" "hb_sessions h n = Some ss"
    and un: "unregister_connection (release_subscription rel) n ss (h, m, s) = (Done, h', m', s')"
  shows "(\<forall>i. (n, i) \<notin> holds m') \<and> (\<forall>k. n \<notin> hb_keys h' k) \<and> n \<notin> set (hb_open h') \<and>
    (\<forall>o1 i. o1 \<noteq> n \<longrightarrow> ((o1, i) \<in> holds m' \<longleftrightarrow> (o1, i) \<in> holds m))"
proof -
  have ok: "hub_ok h (held_by (m, s))" using mg.hub_run_ok [OF run] by simp
  note done1 = mg.unregister_ok [OF ok known un]
  have "(o1, i) \<in> holds m' \<longleftrightarrow> (o1, i) \<in> holds m" if "o1 \<noteq> n" for o1 i
  proof -
    have "(o1, i) \<in> {p \<in> held_by (m', s'). fst p \<noteq> n} \<longleftrightarrow> (o1, i) \<in> {p \<in> held_by (m, s). fst p \<noteq> n}" using done1 by simp
    then show ?thesis using that by (simp add: held_by_def)
  qed
  then show ?thesis using done1 by (auto simp: held_by_def intro: rev_image_eqI)
qed

text \<open>The kinds of quote that targets ask for; an invalid target asks for nothing.\<close>

definition asked :: "target list \<Rightarrow> identity set" where
  "asked ts = {(target_key t, k) | t ks k. t \<in> set ts \<and> valid_target t \<and> quote_types t = Some ks \<and> k \<in> set ks}"

lemma asked_simps [simp]:
  "asked [] = {}"
  "\<not> valid_target t \<Longrightarrow> asked (t # ts) = asked ts"
  "valid_target t \<Longrightarrow> quote_types t = Some ks \<Longrightarrow> asked (t # ts) = Pair (target_key t) ` set ks \<union> asked ts"
  by (auto simp: asked_def)

lemma acquire_types_adds:
  "acquire_types acq n key ks got (pv, s) = (q, got', pw, t) \<Longrightarrow> set pw \<subseteq> set pv \<union> Pair key ` set ks"
  by (induction ks arbitrary: got pv s) (fastforce split: if_splits prod.splits)+

lemma acquire_target_adds:
  assumes "acquire_target acq rel n key ks (pv, s) = (Done, pv', s')"
  shows "set pv' \<subseteq> set pv \<union> Pair key ` set ks"
proof -
  obtain q got pw t where t: "acquire_types acq n key ks [] (pv, s) = (q, got, pw, t)" by (metis prod_cases4)
  with assms have "pv' = pw" by (auto simp: acquire_target_def split: if_splits prod.splits)
  with acquire_types_adds [OF t] show ?thesis by simp
qed

context subscription_service
begin

lemma refused_targets:
  assumes "subscribe_targets acquire release n ts added (ss, keys, s) = (Answered Capacity_reached, added', ss', keys', s')"
    and "tracks A n (hs_provider ss) (held s)"
  shows "\<exists>before t rest. ts = before @ t # rest \<and> valid_target t \<and> tracks A n (hs_provider ss') (held s') \<and>
    set (hs_provider ss') = set (hs_provider ss) \<union> asked before \<and>
    (\<forall>k. keys' k = (if k \<in> fst ` asked before then insert n (keys k) else keys k))"
  using assms
proof (induction ts arbitrary: added ss keys s)
  case (Cons t ts)
  show ?case
  proof (cases "valid_target t")
    case False
    with Cons.prems(1) have "subscribe_targets acquire release n ts added (send Target_error ss, keys, s) =
        (Answered Capacity_reached, added', ss', keys', s')" by simp
    from Cons.IH [OF this] Cons.prems(2) obtain before u rest where
      "ts = before @ u # rest" "valid_target u" "tracks A n (hs_provider ss') (held s')"
      "set (hs_provider ss') = set (hs_provider ss) \<union> asked before"
      "\<forall>k. keys' k = (if k \<in> fst ` asked before then insert n (keys k) else keys k)" by auto
    with False show ?thesis by (intro exI [of _ "t # before"] exI [of _ u] exI [of _ rest]) simp
  next
    case True
    with Cons.prems(1) obtain ks where ks: "quote_types t = Some ks" "\<not> hs_max ss \<le> length (hs_subscriptions ss)"
      by (auto split: if_splits option.splits)
    obtain q pv u where u: "acquire_target acquire release n (target_key t) ks (hs_provider ss, s) = (q, pv, u)"
      by (metis prod_cases3)
    note new = acquire_target_tracks [OF u Cons.prems(2)]
    show ?thesis
    proof (cases "q = Done")
      case False
      with True ks u Cons.prems(1) have "q = Capacity_reached" "ss' = ss\<lparr>hs_provider := pv\<rparr>" "keys' = keys" "s' = u" by auto
      with new True show ?thesis by (intro exI [of _ "[]"] exI [of _ t] exI [of _ ts]) simp
    next
      case done1: True
      let ?ss = "ss\<lparr>hs_provider := pv, hs_subscriptions := List.insert (target_key t) (hs_subscriptions ss)\<rparr>"
      let ?keys = "keys(target_key t := insert n (keys (target_key t)))"
      from done1 True ks u Cons.prems(1) have rest: "subscribe_targets acquire release n ts (added @ [target_key t]) (?ss, ?keys, u) =
          (Answered Capacity_reached, added', ss', keys', s')" by simp
      have "set pv = set (hs_provider ss) \<union> Pair (target_key t) ` set ks"
        using acquire_target_adds [OF u [unfolded done1]] new done1 by auto
      moreover have "fst ` Pair (target_key t) ` set ks = {target_key t}"
        using quote_types_ne [OF ks(1)] by (cases ks) auto
      moreover from Cons.IH [OF rest] new obtain before v more where
        "ts = before @ v # more" "valid_target v" "tracks A n (hs_provider ss') (held s')"
        "set (hs_provider ss') = set pv \<union> asked before"
        "\<forall>k. keys' k = (if k \<in> fst ` asked before then insert n (?keys k) else ?keys k)" by auto
      ultimately show ?thesis using True ks
        by (intro exI [of _ "t # before"] exI [of _ v] exI [of _ more]) (auto simp: image_Un)
    qed
  qed
qed simp

end

text \<open>
  C22. A refusal for capacity is rolled back to the security that met the limit: when a subscription
  request, over any list of securities, is refused for the limit of the broker, the connection has gained
  exactly what the securities before the refused one ask for, in the books of the manager and in the
  routes of the hub; of the refused one (possibly several kinds of quote, some of them already acquired)
  and of those after it nothing is left, and nothing of anybody else has changed.
\<close>

theorem capacity_refusal_rolls_back:
  assumes run: "hub_run (managed_acquire acq cap) (release_subscription rel) held_by limit (h, m, s)"
    and known: "n \<in> set (hb_open h)" "hb_sessions h n = Some ss"
    and sub: "handle_subscribe (managed_acquire acq cap) (release_subscription rel) c n ts channels ss (h, m, s) =
      (Answered Capacity_reached, h', m', s')"
  shows "\<exists>before t rest. ts = before @ t # rest \<and> valid_target t \<and> holds m' = holds m \<union> Pair n ` asked before \<and>
    (\<forall>k. hb_keys h' k = (if k \<in> fst ` asked before then insert n (hb_keys h k) else hb_keys h k))"
proof -
  let ?ss = "ss\<lparr>hs_channels := chosen_channels channels\<rparr>"
  obtain q added u keys ms where u: "subscribe_targets (managed_acquire acq cap) (release_subscription rel) n ts []
      (?ss, hb_keys h, m, s) = (q, added, u, keys, ms)" by (metis prod_cases5)
  with sub have eq: "q = Answered Capacity_reached" "keys = hb_keys h'" "ms = (m', s')"
    by (auto simp: handle_subscribe_def Let_def put_session_def split: if_splits)
  have "hub_ok h (held_by (m, s))" using mg.hub_run_ok [OF run] by simp
  from hub_ok_session [OF this known]
  have old: "tracks {p \<in> held_by (m, s). fst p \<noteq> n} n (hs_provider ss) (held_by (m, s))" by (simp add: session_ok_def)
  then have "tracks {p \<in> held_by (m, s). fst p \<noteq> n} n (hs_provider ?ss) (held_by (m, s))" by simp
  from mg.refused_targets [OF u [unfolded eq] this] obtain before t rest where found: "ts = before @ t # rest" "valid_target t"
    "tracks {p \<in> held_by (m, s). fst p \<noteq> n} n (hs_provider u) (held_by (m', s'))"
    "set (hs_provider u) = set (hs_provider ss) \<union> asked before"
    "\<forall>k. hb_keys h' k = (if k \<in> fst ` asked before then insert n (hb_keys h k) else hb_keys h k)" by auto
  with old have "held_by (m', s') = held_by (m, s) \<union> Pair n ` asked before" by (auto simp: tracks_def)
  with found show ?thesis by (intro exI [of _ before] exI [of _ t] exI [of _ rest]) (simp add: held_by_def)
qed

section \<open>Coalescing\<close>

text \<open>The last of the quotes of a key.\<close>

definition newest :: "string \<Rightarrow> realtime_quote list \<Rightarrow> realtime_quote option" where
  "newest k qs = (let xs = filter (\<lambda>q. composite_key q = k) qs in if xs = [] then None else Some (last xs))"

definition queue_all :: "(string \<Rightarrow> bool) \<Rightarrow> realtime_quote list \<Rightarrow> hub_session \<Rightarrow> hub_session" where
  "queue_all mine qs ss = foldl (\<lambda>ss q. if mine (composite_key q) then queue_quote q ss else ss) ss qs"

lemma newest_snoc: "newest k (qs @ [q]) = (if composite_key q = k then Some q else newest k qs)"
  by (simp add: newest_def)

lemma route_quote_books [simp]:
  "hb_keys (route_quote q h) = hb_keys h" "hb_open (route_quote q h) = hb_open h"
  by (simp_all add: route_quote_def Let_def)

lemma wants_queue_all [simp]: "wants channel (queue_all mine qs ss) = wants channel ss"
  by (induction qs arbitrary: ss) (auto simp: queue_all_def queue_quote_def wants_def)

lemma route_all:
  assumes "hb_sessions h n = Some ss" and "wants ''quote'' ss"
  shows "hb_sessions (foldl (\<lambda>h q. route_quote q h) h qs) n = Some (queue_all (\<lambda>k. n \<in> hb_keys h k) qs ss) \<and>
    hb_keys (foldl (\<lambda>h q. route_quote q h) h qs) = hb_keys h \<and> hb_open (foldl (\<lambda>h q. route_quote q h) h qs) = hb_open h"
proof (induction qs rule: rev_induct)
  case Nil
  with assms show ?case by (simp add: queue_all_def)
next
  case (snoc q qs)
  then show ?case using assms(2) by (simp add: route_quote_def Let_def) (simp add: queue_all_def)
qed

lemma queue_all_pending:
  assumes "hs_pending ss = []"
  shows "map_of (hs_pending (queue_all mine qs ss)) k = (if mine k then newest k qs else None) \<and>
    distinct (map fst (hs_pending (queue_all mine qs ss))) \<and> hs_sent (queue_all mine qs ss) = hs_sent ss"
proof (induction qs arbitrary: k rule: rev_induct)
  case Nil
  with assms show ?case by (simp add: queue_all_def newest_def)
next
  case (snoc q qs)
  have step: "queue_all mine (qs @ [q]) ss =
      (if mine (composite_key q) then queue_quote q (queue_all mine qs ss) else queue_all mine qs ss)"
    by (simp add: queue_all_def)
  show ?case using snoc [of k] by (auto simp: step queue_quote_def newest_snoc update_conv' distinct_update)
qed

lemma flush_all:
  "flush_quotes (\<lambda>_. True) qs (ss, published) =
    (ss\<lparr>hs_sent := hs_sent ss @ map Quote_message qs\<rparr>, published + int (length qs))"
  by (induction qs arbitrary: ss published) (auto simp: send_def)

lemma dispatch_idle:
  "hb_sessions h n = Some ss \<Longrightarrow> hs_pending ss = [] \<Longrightarrow> hb_sessions (dispatch_sessions delivers ns h) n = Some ss"
proof (induction ns arbitrary: h)
  case (Cons m ns)
  then show ?case
    by (cases "m = n") (auto simp: put_session_def split: option.split prod.split)
qed simp

lemma dispatch_one:
  assumes "hb_sessions h n = Some ss" and "hs_alive ss" and "n \<in> set ns"
  shows "hb_sessions (dispatch_sessions (\<lambda>_ _. True) ns h) n =
    Some (ss\<lparr>hs_pending := [], hs_sent := hs_sent ss @ map (Quote_message \<circ> snd) (hs_pending ss)\<rparr>)"
  using assms(1,3)
proof (induction ns arbitrary: h)
  case (Cons m ns)
  show ?case
  proof (cases "m = n")
    case True
    show ?thesis
    proof (cases "hs_pending ss = []")
      case True
      with Cons.prems \<open>m = n\<close> show ?thesis by (simp add: dispatch_idle)
    next
      case False
      with Cons.prems \<open>m = n\<close> assms(2) show ?thesis by (simp add: flush_all put_session_def dispatch_idle)
    qed
  next
    case False
    with Cons.prems have "n \<in> set ns" by simp
    moreover have "hb_sessions (case hb_sessions h m of None \<Rightarrow> h
        | Some ss \<Rightarrow> if \<not> hs_alive ss \<or> hs_pending ss = [] then h
            else let (ss', published) = flush_quotes (\<lambda>_. True) (map snd (hs_pending ss)) (ss\<lparr>hs_pending := []\<rparr>, hb_published h)
              in put_session m ss' h\<lparr>hb_published := published\<rparr>) n = Some ss"
      using Cons.prems(1) False by (simp add: put_session_def flush_all split: option.split)
    ultimately show ?thesis using Cons.IH by simp
  qed
qed simp

text \<open>
  Slow clients get the newest quotes. However many quotes arrive between two dispatch rounds, a live
  connection on the quote channel is sent, in one round, exactly one quote for each security it subscribed to
  that had any, namely the last one, and afterwards waits for nothing.
\<close>

theorem dispatch_sends_newest:
  assumes "hb_sessions h n = Some ss" and "wants ''quote'' ss" and "n \<in> set (hb_open h)" and "hs_pending ss = []"
  shows "\<exists>ss' sent. hb_sessions (dispatch_round (\<lambda>_ _. True) (foldl (\<lambda>h q. route_quote q h) h qs)) n = Some ss' \<and>
    hs_pending ss' = [] \<and> hs_sent ss' = hs_sent ss @ map Quote_message sent \<and> distinct sent \<and>
    set sent = {q. \<exists>k. n \<in> hb_keys h k \<and> newest k qs = Some q}"
proof -
  let ?ss = "queue_all (\<lambda>k. n \<in> hb_keys h k) qs ss"
  let ?sent = "map snd (hs_pending ?ss)"
  note pending = queue_all_pending [OF assms(4), of "\<lambda>k. n \<in> hb_keys h k" qs]
  note routed = route_all [OF assms(1,2), of qs]
  have "hs_alive ?ss" using assms(2) wants_queue_all [of "''quote''" "\<lambda>k. n \<in> hb_keys h k" qs ss] by (simp add: wants_def)
  then have out: "hb_sessions (dispatch_round (\<lambda>_ _. True) (foldl (\<lambda>h q. route_quote q h) h qs)) n =
      Some (?ss\<lparr>hs_pending := [], hs_sent := hs_sent ?ss @ map (Quote_message \<circ> snd) (hs_pending ?ss)\<rparr>)"
    unfolding dispatch_round_def using routed assms(3) by (intro dispatch_one) auto
  have entry: "(k, q) \<in> set (hs_pending ?ss) \<longleftrightarrow> n \<in> hb_keys h k \<and> newest k qs = Some q" for k q
    using pending map_of_eq_Some_iff [of "hs_pending ?ss" k q] by (auto split: if_splits)
  have "set ?sent = {q. \<exists>k. n \<in> hb_keys h k \<and> newest k qs = Some q}"
    by (rule set_eqI) (simp only: set_map in_snd entry mem_Collect_eq)
  moreover have "distinct ?sent"
  proof -
    have key: "composite_key q = k" if "newest k qs = Some q" for k q
      using that last_in_set [of "filter (\<lambda>q. composite_key q = k) qs"] by (auto simp: newest_def Let_def split: if_splits)
    have "map fst (hs_pending ?ss) = map composite_key ?sent" using entry key by auto
    with pending show ?thesis by (metis distinct_map)
  qed
  moreover have "hs_sent ?ss = hs_sent ss" using pending by blast
  ultimately show ?thesis using out by (intro exI conjI) (auto simp: comp_def)
qed

section \<open>Examples\<close>

text \<open>A viewer of one security over the fake provider.\<close>

definition fake_capabilities :: "fake_realtime \<Rightarrow> capabilities" where
  "fake_capabilities s = \<lparr>cp_configured = True, cp_hard_limit = None\<rparr>"

definition tsmc_target :: target where
  "tsmc_target = \<lparr>tg_market = ''twse'', tg_code = ''2330'', tg_quote_type = None, tg_quote_types = None\<rparr>"

definition viewer :: hub_session where
  "viewer = (new_session 5)\<lparr>hs_provider := [tsmc_tick], hs_subscriptions := [''TWSE:2330'']\<rparr>"

definition viewed_hub :: hub where
  "viewed_hub = (new_hub 5)\<lparr>hb_open := [''ws:1''], hb_sessions := [''ws:1'' \<mapsto> viewer],
     hb_keys := (\<lambda>_. {})(''TWSE:2330'' := {''ws:1''})\<rparr>"

definition viewed_manager :: manager where
  "viewed_manager = (new_manager (Some 2))\<lparr>mg_owners := [(tsmc_tick, [''ws:1''])]\<rparr>"

definition viewed_provider :: fake_realtime where
  "viewed_provider = subscribe_quotes [''TWSE:2330''] new_fake"

lemma target_values:
  "valid_target tsmc_target" "target_key tsmc_target = ''TWSE:2330''" "quote_types tsmc_target = Some [TICK]"
  by code_simp+

lemma upper_tsmc: "upper ''TWSE:2330'' = ''TWSE:2330''"
  by code_simp

lemma view_step:
  "handle_subscribe (managed_acquire base_acquire fake_capabilities) (release_subscription base_release) empty_cache
     ''ws:1'' [tsmc_target] None (new_session 5) (register_connection ''ws:1'' (new_hub 5), new_manager (Some 2), new_fake) =
   (Answered Done, viewed_hub, viewed_manager, viewed_provider)"
  by (simp add: handle_subscribe_def target_values acquire_target_def managed_acquire_def acquire_subscription_def
      base_acquire_def fake_capabilities_def register_connection_def put_session_def new_session_def new_hub_def
      new_manager_def owners_of_def budget_valid_def at_capacity_def effective_limit_def Let_def viewed_hub_def viewer_def
      viewed_manager_def viewed_provider_def tsmc_tick_def chosen_channels_def known_channels_def key_snapshots_def
      global_snapshots_def map_filter_simps split_key_def get_quote_def quote_key_def empty_cache_def)

lemma viewed_run:
  "hub_run (managed_acquire base_acquire fake_capabilities) (release_subscription base_release) held_by 5
     (viewed_hub, viewed_manager, viewed_provider)"
proof -
  let ?acq = "managed_acquire base_acquire fake_capabilities" and ?rel = "release_subscription base_release"
  have "hub_run ?acq ?rel held_by 5 (register_connection ''ws:1'' (new_hub 5), new_manager (Some 2), new_fake)"
    by (rule opened [OF start]) (simp_all add: new_hub_def held_by_def holds_def new_manager_def owners_of_def image_iff)
  then show ?thesis
    by (rule subscribed [OF _ _ _ view_step]) (simp_all add: register_connection_def put_session_def new_hub_def new_session_def)
qed

lemma viewed_books: "''ws:1'' \<in> set (hb_open viewed_hub)" "hb_sessions viewed_hub ''ws:1'' = Some viewer"
  by (simp_all add: viewed_hub_def)

lemma connection_books_witness:
  "{i. (''ws:1'', i) \<in> holds viewed_manager} = {tsmc_tick} \<and> ''ws:1'' \<in> hb_keys viewed_hub ''TWSE:2330''"
  using connection_books_are_right [OF viewed_run viewed_books(1)] by (simp add: viewed_books(2)) (simp add: viewer_def)

lemma ended_connection_witness:
  "\<exists>h' m' s'. unregister_connection (release_subscription base_release) ''ws:1'' viewer
       (viewed_hub, viewed_manager, viewed_provider) = (Done, h', m', s') \<and>
     (\<forall>i. (''ws:1'', i) \<notin> holds m') \<and> (\<forall>k. ''ws:1'' \<notin> hb_keys h' k) \<and> ''ws:1'' \<in> hb_keys viewed_hub ''TWSE:2330''"
proof -
  obtain h' m' s' where un: "unregister_connection (release_subscription base_release) ''ws:1'' viewer
       (viewed_hub, viewed_manager, viewed_provider) = (Done, h', m', s')"
    by (simp add: unregister_connection_def release_subscription_def base_release_def viewed_manager_def owners_of_def
        Let_def viewer_def new_session_def)
  from ended_connection_leaves_nothing [OF viewed_run viewed_books un] un show ?thesis
    by (intro exI conjI) (auto simp: viewed_hub_def)
qed

text \<open>A budget of two has room for one kind of the second security, not for both.\<close>

definition both_kinds :: target where
  "both_kinds = \<lparr>tg_market = ''TWSE'', tg_code = ''2317'', tg_quote_type = None, tg_quote_types = Some (Inr [''tick'', ''bid_ask''])\<rparr>"

lemma both_kinds_values:
  "valid_target both_kinds" "target_key both_kinds = ''TWSE:2317''" "quote_types both_kinds = Some [TICK, BID_ASK]"
  by code_simp+

lemma capacity_refusal_witness:
  "\<exists>h' m' s'. handle_subscribe (managed_acquire base_acquire fake_capabilities) (release_subscription base_release) empty_cache
       ''ws:1'' [both_kinds] None viewer (viewed_hub, viewed_manager, viewed_provider) = (Answered Capacity_reached, h', m', s') \<and>
     holds m' = holds viewed_manager \<and> hb_keys h' = hb_keys viewed_hub \<and> mg_rejections m' = 1"
proof -
  obtain h' m' s' where sub: "handle_subscribe (managed_acquire base_acquire fake_capabilities) (release_subscription base_release) empty_cache
       ''ws:1'' [both_kinds] None viewer (viewed_hub, viewed_manager, viewed_provider) = (Answered Capacity_reached, h', m', s')"
    and one: "mg_rejections m' = 1"
    by (simp add: handle_subscribe_def both_kinds_values acquire_target_def managed_acquire_def acquire_subscription_def
      base_acquire_def fake_capabilities_def put_session_def new_session_def new_hub_def base_release_def
      release_subscription_def new_manager_def owners_of_def budget_valid_def at_capacity_def effective_limit_def Let_def
      viewed_hub_def viewer_def viewed_manager_def tsmc_tick_def)
  from capacity_refusal_rolls_back [OF viewed_run viewed_books sub] obtain before t rest where
    split: "[both_kinds] = before @ t # rest" "holds m' = holds viewed_manager \<union> Pair ''ws:1'' ` asked before"
    "\<forall>k. hb_keys h' k = (if k \<in> fst ` asked before then insert ''ws:1'' (hb_keys viewed_hub k) else hb_keys viewed_hub k)"
    by (elim exE conjE) (rule that)
  from split(1) have "before = []" by (cases before) auto
  then have "asked before = {}" by simp
  with split(2,3) have "holds m' = holds viewed_manager" "hb_keys h' = hb_keys viewed_hub" by (simp_all add: fun_eq_iff)
  with sub one show ?thesis by blast
qed

lemma dispatch_sends_newest_witness:
  "\<exists>ss'. hb_sessions (dispatch_round (\<lambda>_ _. True) (foldl (\<lambda>h q. route_quote q h) viewed_hub
       [example_quote (Some 1) 100 950 10, example_quote (Some 2) 200 951 20])) ''ws:1'' = Some ss' \<and>
     hs_sent ss' = [Quote_message (example_quote (Some 2) 200 951 20)]"
proof -
  let ?p = "example_quote (Some 1) 100 950 10" and ?q = "example_quote (Some 2) 200 951 20"
  have key: "composite_key ?p = ''TWSE:2330''" "composite_key ?q = ''TWSE:2330''"
    by (simp_all add: composite_key_def security_text_def example_quote_def) code_simp+
  have ready: "wants ''quote'' viewer" "hs_pending viewer = []" "hs_sent viewer = []"
    by (simp_all add: wants_def viewer_def new_session_def)
  have "{q. \<exists>k. ''ws:1'' \<in> hb_keys viewed_hub k \<and> newest k [?p, ?q] = Some q} = {?q}"
    by (auto simp: viewed_hub_def newest_def key split: if_splits)
  with dispatch_sends_newest [OF viewed_books(2) ready(1) viewed_books(1) ready(2), of "[?p, ?q]"]
  obtain ss' sent where out: "hb_sessions (dispatch_round (\<lambda>_ _. True) (foldl (\<lambda>h q. route_quote q h) viewed_hub [?p, ?q])) ''ws:1'' = Some ss'"
    and sent: "hs_sent ss' = map Quote_message sent" "distinct sent" "set sent = {?q}" by (auto simp: ready)
  from sent(2,3) have "sent = [?q]" by (cases sent) (auto simp: subset_singleton_iff)
  with out sent(1) show ?thesis by simp
qed

text \<open>
  When the provider fails while a connection ends, the rest of the clean-up is skipped: the connection is
  gone, but every security it subscribed to still routes to it, for ever.
\<close>

theorem failed_end_keeps_routes:
  assumes run: "hub_run (managed_acquire acq cap) (release_subscription rel) held_by limit (h, m, s)"
    and known: "n \<in> set (hb_open h)" "hb_sessions h n = Some ss"
    and un: "unregister_connection (release_subscription rel) n ss (h, m, s) = (Subscription_failed, h', m', s')"
  shows "n \<notin> set (hb_open h') \<and> (\<forall>k \<in> set (hs_subscriptions ss). n \<in> hb_keys h' k)"
proof -
  have ok: "hub_ok h (held_by (m, s))" using mg.hub_run_ok [OF run] by simp
  from hub_ok_session [OF this known] have "\<forall>k. n \<in> hb_keys h k \<longleftrightarrow> k \<in> set (hs_subscriptions ss)" by (simp add: session_ok_def)
  moreover have "hb_keys h' = hb_keys h" "hb_open h' = removeAll n (hb_open h)"
    using un by (auto simp: unregister_connection_def put_session_def Let_def split: if_splits prod.splits)
  ultimately show ?thesis by simp
qed

end
