(* ===== verification/RealtimeStrength.thy ===== *)
theory RealtimeStrength
  imports PyQuantize RealtimeHub "HOL-Library.Multiset"
begin

text \<open>
  The strength of industries and themes computed from live quotes
  (\<open>app/services/realtime_strength.py\<close>, \<open>app/domain/realtime_strength.py\<close>) over the memberships
  loaded at start-up (\<open>app/repositories/realtime_membership.py\<close>). Identifiers of securities and
  taxonomies are their texts. A set of keys is a list without duplicates, in the order in which
  the running process happens to iterate it. The monotonic clock is an argument of every call;
  the Redis writes are kept as three dictionaries, without expiry.
\<close>

declare split_paired_All [simp del] split_paired_Ex [simp del]

section \<open>Memberships\<close>

datatype rt_taxonomy_type = INDUSTRY | THEME

type_synonym taxonomy_key = "rt_taxonomy_type \<times> string"

record rt_member =
  me_security_id :: string
  me_market :: string
  me_code :: string
  me_name :: string

definition member_key :: "rt_member \<Rightarrow> string" where
  "member_key m = security_text (upper (me_market m)) (upper (me_code m))"

record memberships =
  ms_members :: "(string \<times> rt_member) list"
  ms_taxonomies :: "(taxonomy_key \<times> string \<times> string \<times> string list) list"
  ms_by_security :: "(string \<times> taxonomy_key list) list"

text \<open>The joined rows: active securities with their market, and links with their taxonomy.\<close>

record link_row =
  lk_security_id :: string
  lk_taxonomy_id :: string
  lk_code :: string
  lk_name :: string

definition load_member ::
    "memberships \<times> (string \<times> string) list \<Rightarrow> rt_member \<Rightarrow> memberships \<times> (string \<times> string) list" where
  "load_member acc m =
     ((fst acc)\<lparr>ms_members := AList.update (member_key m) m (ms_members (fst acc))\<rparr>,
      AList.update (me_security_id m) (member_key m) (snd acc))"

text \<open>\<open>setdefault\<close>, then adding to the set in place\<close>

definition load_link ::
    "(string \<times> string) list \<Rightarrow> memberships \<Rightarrow> rt_taxonomy_type \<times> link_row \<Rightarrow> memberships" where
  "load_link id_to_key ms link =
     (case map_of id_to_key (lk_security_id (snd link)) of
        None \<Rightarrow> ms
      | Some key \<Rightarrow>
          (let tk = (fst link, lk_taxonomy_id (snd link));
               (code, name, members) = (case map_of (ms_taxonomies ms) tk of
                  None \<Rightarrow> (lk_code (snd link), lk_name (snd link), []) | Some entry \<Rightarrow> entry);
               tks = (case map_of (ms_by_security ms) key of None \<Rightarrow> [] | Some tks \<Rightarrow> tks)
           in ms\<lparr>ms_taxonomies := AList.update tk (code, name, List.insert key members) (ms_taxonomies ms),
                 ms_by_security := AList.update key (List.insert tk tks) (ms_by_security ms)\<rparr>))"

definition load_realtime_memberships :: "rt_member list \<Rightarrow> link_row list \<Rightarrow> link_row list \<Rightarrow> memberships" where
  "load_realtime_memberships securities industries themes =
     (let (ms, id_to_key) = foldl load_member (\<lparr>ms_members = [], ms_taxonomies = [], ms_by_security = []\<rparr>, []) securities
      in foldl (load_link id_to_key) ms (map (Pair INDUSTRY) industries @ map (Pair THEME) themes))"

section \<open>Snapshots\<close>

record rt_components =
  rc_momentum :: "decimal option"
  rc_breadth :: "decimal option"
  rc_technical :: "decimal option"
  rc_turnover :: "decimal option"

record rt_leader =
  rl_security_id :: string
  rl_market :: string
  rl_code :: string
  rl_name :: string
  rl_last_price :: decimal
  rl_change :: decimal
  rl_change_percent :: decimal
  rl_data_status :: rt_status

record market_snapshot =
  mk_market_id :: string
  mk_as_of :: instant
  mk_exchange_timestamp :: instant
  mk_total_members :: nat
  mk_valid_members :: nat
  mk_quoted_members :: nat
  mk_coverage_ratio :: decimal
  mk_advancers :: nat
  mk_decliners :: nat
  mk_unchanged :: int
  mk_advance_ratio :: decimal
  mk_decline_ratio :: decimal
  mk_turnover_amount :: "decimal option"
  mk_live_count :: nat
  mk_stale_count :: nat
  mk_unavailable_count :: int
  mk_data_status :: rt_status
  mk_provider :: string
  mk_source_type :: string

record taxonomy_snapshot =
  ts_taxonomy_type :: rt_taxonomy_type
  ts_taxonomy_id :: string
  ts_code :: string
  ts_name :: string
  ts_as_of :: instant
  ts_total_members :: nat
  ts_valid_members :: nat
  ts_quoted_members :: nat
  ts_coverage_ratio :: decimal
  ts_equal_weight_return :: "decimal option"
  ts_advancers :: nat
  ts_decliners :: nat
  ts_unchanged :: int
  ts_advance_ratio :: "decimal option"
  ts_turnover_amount :: "decimal option"
  ts_turnover_share :: "decimal option"
  ts_above_ma20 :: "decimal option"
  ts_above_ma60 :: "decimal option"
  ts_components :: rt_components
  ts_strength_score :: "decimal option"
  ts_component_coverage :: decimal
  ts_rank :: "nat option"
  ts_leaders :: "rt_leader list"
  ts_laggards :: "rt_leader list"
  ts_data_status :: rt_status
  ts_provider :: string
  ts_source_type :: string

section \<open>Scoring\<close>

datatype rt_component = Rt_momentum | Rt_breadth | Rt_technical | Rt_turnover

definition rt_components_in_order :: "rt_component list" where
  "rt_components_in_order = [Rt_momentum, Rt_breadth, Rt_technical, Rt_turnover]"

fun rt_weight :: "rt_component \<Rightarrow> decimal" where
  "rt_weight Rt_momentum = 35 / 100"
| "rt_weight Rt_breadth = 30 / 100"
| "rt_weight Rt_technical = 25 / 100"
| "rt_weight Rt_turnover = 10 / 100"

definition minimum_coverage :: decimal where
  "minimum_coverage = 60 / 100"

text \<open>The average position of the values equal to \<open>v\<close>, as a percentage of the last one.\<close>

definition tied_positions :: "decimal list \<Rightarrow> decimal \<Rightarrow> nat list" where
  "tied_positions ordered v = filter (\<lambda>i. ordered ! i = v) [0..<length ordered]"

definition tied_percentile :: "decimal list \<Rightarrow> decimal \<Rightarrow> decimal result" where
  "tied_percentile ordered v =
     (let tied = tied_positions ordered v in
      rbind (ddiv prec (of_nat (sum_list tied)) (of_nat (length tied))) (\<lambda>rank.
      rbind (ddiv prec rank (of_nat (length ordered - 1))) (\<lambda>q.
      quantize round_half_up 2 (dmul prec q 100))))"

text \<open>\<open>sorted(values.items(), key=lambda item: (item[1], item[0]))\<close> of a dictionary.\<close>

definition rt_ordered :: "(string \<times> decimal) list \<Rightarrow> (string \<times> decimal) list" where
  "rt_ordered values = sort_key (\<lambda>(k, v). (v, k)) values"

definition percentiles :: "(string \<times> decimal) list \<Rightarrow> (string \<times> decimal) list result" where
  "percentiles values =
     (if values = [] then Inr []
      else if length values = 1 then Inr [(fst (hd values), 50)]
      else (let ordered = rt_ordered values in
            rmap (\<lambda>(k, v). rbind (tied_percentile (map snd ordered) v) (\<lambda>s. Inr (k, s))) ordered))"

definition rt_technical :: "taxonomy_snapshot \<Rightarrow> decimal option" where
  "rt_technical s =
     (case (ts_above_ma20 s, ts_above_ma60 s) of
        (Some a, Some b) \<Rightarrow> Some (dround prec (dadd prec a b / 2)) | _ \<Rightarrow> None)"

definition rt_raw :: "rt_component \<Rightarrow> taxonomy_snapshot \<Rightarrow> decimal option" where
  "rt_raw c s =
     (case c of Rt_momentum \<Rightarrow> ts_equal_weight_return s | Rt_breadth \<Rightarrow> ts_advance_ratio s
      | Rt_technical \<Rightarrow> rt_technical s | Rt_turnover \<Rightarrow> ts_turnover_share s)"

text \<open>\<open>{s.taxonomy_id: value for s in snapshots if value is not None}\<close>\<close>

definition raw_values :: "rt_component \<Rightarrow> taxonomy_snapshot list \<Rightarrow> (string \<times> decimal) list" where
  "raw_values c snapshots =
     foldl (\<lambda>d s. case rt_raw c s of None \<Rightarrow> d | Some v \<Rightarrow> AList.update (ts_taxonomy_id s) v d) [] snapshots"

definition weigh :: "(rt_component \<Rightarrow> decimal option) \<Rightarrow> (decimal \<times> decimal option) result" where
  "weigh vals =
     (let present = filter (\<lambda>c. vals c \<noteq> None) rt_components_in_order;
          available = dsum prec (map rt_weight present)
      in if minimum_coverage \<le> available
         then rbind (ddiv prec (dsum prec (map (\<lambda>c. dmul prec (the (vals c)) (rt_weight c)) present)) available) (\<lambda>q.
              rbind (quantize round_half_even 2 q) (\<lambda>s. Inr (available, Some s)))
         else Inr (available, None))"

definition score_snapshot ::
    "(rt_component \<Rightarrow> (string \<times> decimal) list) \<Rightarrow> taxonomy_snapshot \<Rightarrow> taxonomy_snapshot result" where
  "score_snapshot pcts s =
     (let vals = (\<lambda>c. map_of (pcts c) (ts_taxonomy_id s)) in
      rbind (weigh vals) (\<lambda>(available, score).
      Inr (s\<lparr>ts_components := \<lparr>rc_momentum = vals Rt_momentum, rc_breadth = vals Rt_breadth,
                               rc_technical = vals Rt_technical, rc_turnover = vals Rt_turnover\<rparr>,
             ts_component_coverage := available, ts_strength_score := score,
             ts_data_status := (if score = None then RtStale else ts_data_status s)\<rparr>)))"

definition rt_or_zero :: "decimal option \<Rightarrow> decimal" where
  "rt_or_zero v = (case v of None \<Rightarrow> 0 | Some x \<Rightarrow> x)"

definition rt_ranking_key :: "taxonomy_snapshot \<Rightarrow> bool \<times> decimal \<times> decimal \<times> string" where
  "rt_ranking_key s =
     (ts_strength_score s = None, dneg prec (rt_or_zero (ts_strength_score s)),
      dneg prec (rt_or_zero (ts_equal_weight_return s)), ts_taxonomy_id s)"

definition rt_rank :: "taxonomy_snapshot list \<Rightarrow> taxonomy_snapshot list" where
  "rt_rank scored =
     map (\<lambda>(idx, s). s\<lparr>ts_rank := if ts_strength_score s = None then None else Some idx\<rparr>)
       (enumerate 1 (sort_key rt_ranking_key scored))"

definition rt_score :: "taxonomy_snapshot list \<Rightarrow> taxonomy_snapshot list result" where
  "rt_score snapshots =
     rbind (percentiles (raw_values Rt_momentum snapshots)) (\<lambda>m.
     rbind (percentiles (raw_values Rt_breadth snapshots)) (\<lambda>b.
     rbind (percentiles (raw_values Rt_technical snapshots)) (\<lambda>t.
     rbind (percentiles (raw_values Rt_turnover snapshots)) (\<lambda>u.
     rbind (rmap (score_snapshot (case_rt_component m b t u)) snapshots) (\<lambda>scored.
     Inr (rt_rank scored))))))"

section \<open>Aggregating quotes\<close>

definition safe_ratio :: "nat \<Rightarrow> nat \<Rightarrow> decimal" where
  "safe_ratio a b = (if b = 0 then 0 else dround prec (of_nat a / of_nat b))"

definition starts_FAKE :: "string \<Rightarrow> bool" where
  "starts_FAKE s \<longleftrightarrow> take 4 s = ''FAKE''"

definition source_type_of :: "realtime_quote \<Rightarrow> string" where
  "source_type_of q = (if starts_FAKE (rq_provider q) then ''FAKE'' else ''PRODUCTION'')"

text \<open>\<open>sum(turnover, ZERO) if len(turnover) == len(valid) and valid else None\<close>\<close>

definition full_turnover :: "realtime_quote list \<Rightarrow> decimal option" where
  "full_turnover valid =
     (let turnover = List.map_filter rq_turnover_amount valid in
      if length turnover = length valid \<and> valid \<noteq> [] then Some (dsum prec turnover) else None)"

type_synonym quote_book = "(string \<times> realtime_quote) list"

definition market_quotes :: "memberships \<Rightarrow> quote_book \<Rightarrow> string \<Rightarrow> rt_member list \<times> realtime_quote list" where
  "market_quotes ms book market =
     (let members = filter (\<lambda>m. upper (me_market m) = upper market) (map snd (ms_members ms))
      in (members, List.map_filter (\<lambda>m. map_of book (member_key m)) members))"

definition market_accept :: "memberships \<Rightarrow> quote_book \<Rightarrow> realtime_quote \<Rightarrow> quote_book \<times> market_snapshot" where
  "market_accept ms quotes0 q =
     (let book = AList.update (composite_key q) q quotes0;
          (members, qs) = market_quotes ms book (rq_market_id q);
          valid = filter (\<lambda>x. rq_previous_close x \<noteq> None) qs;
          advancers = length (filter (\<lambda>x. the (rq_previous_close x) < rq_last_price x) valid);
          decliners = length (filter (\<lambda>x. rq_last_price x < the (rq_previous_close x)) valid);
          n = length members;
          ratio = safe_ratio (length valid) n
      in (book,
          \<lparr>mk_market_id = upper (rq_market_id q), mk_as_of = rq_received_at q,
           mk_exchange_timestamp = rq_exchange_timestamp q, mk_total_members = n,
           mk_valid_members = length valid, mk_quoted_members = length qs, mk_coverage_ratio = ratio,
           mk_advancers = advancers, mk_decliners = decliners,
           mk_unchanged = int (length valid) - int advancers - int decliners,
           mk_advance_ratio = safe_ratio advancers (length valid),
           mk_decline_ratio = safe_ratio decliners (length valid),
           mk_turnover_amount = full_turnover valid,
           mk_live_count = length (filter (\<lambda>x. rq_data_status x = RtLive) qs),
           mk_stale_count = length (filter (\<lambda>x. rq_data_status x \<in> {RtStale, RtDelayed}) qs),
           mk_unavailable_count = int n - int (length qs),
           mk_data_status = (if minimum_coverage \<le> ratio then rq_data_status q else RtStale),
           mk_provider = rq_provider q, mk_source_type = source_type_of q\<rparr>))"

text \<open>The return of a quote whose previous close is present and not zero.\<close>

definition quote_return :: "realtime_quote \<Rightarrow> decimal result" where
  "quote_return q =
     rbind (ddiv prec (rq_last_price q) (the (rq_previous_close q))) (\<lambda>x. Inr (dsub prec x 1))"

definition leader_of :: "memberships \<Rightarrow> realtime_quote \<times> decimal \<Rightarrow> rt_leader result" where
  "leader_of ms qv =
     (case map_of (ms_members ms) (composite_key (fst qv)) of
        None \<Rightarrow> Inl KeyError
      | Some m \<Rightarrow> Inr
          \<lparr>rl_security_id = me_security_id m, rl_market = me_market m, rl_code = me_code m, rl_name = me_name m,
           rl_last_price = rq_last_price (fst qv),
           rl_change = dsub prec (rq_last_price (fst qv)) (the (rq_previous_close (fst qv))),
           rl_change_percent = dmul prec (snd qv) 100, rl_data_status = rq_data_status (fst qv)\<rparr>)"

definition average_return :: "decimal list \<Rightarrow> decimal option result" where
  "average_return rets =
     (if rets = [] then Inr None
      else rbind (ddiv prec (dsum prec rets) (of_nat (length rets))) (\<lambda>a. Inr (Some (dmul prec a 100))))"

definition aggregate_taxonomy ::
    "memberships \<Rightarrow> quote_book \<Rightarrow> taxonomy_key \<Rightarrow> realtime_quote \<Rightarrow> taxonomy_snapshot result" where
  "aggregate_taxonomy ms book tk trigger =
     (case map_of (ms_taxonomies ms) tk of
        None \<Rightarrow> Inl KeyError
      | Some (code, name, member_keys) \<Rightarrow>
          (let qs = List.map_filter (map_of book) member_keys;
               valid = filter (\<lambda>x. rq_previous_close x \<noteq> None \<and> rq_previous_close x \<noteq> Some 0) qs in
           rbind (rmap quote_return valid) (\<lambda>rets.
           rbind (average_return rets) (\<lambda>avg.
           let ordered = sort_key (\<lambda>(x, r). (r, rq_code x)) (zip valid rets);
               coverage = safe_ratio (length valid) (length member_keys);
               advancers = length (filter (\<lambda>r. 0 < r) rets);
               decliners = length (filter (\<lambda>r. r < 0) rets) in
           rbind (rmap (leader_of ms) (rev (drop (length ordered - 5) ordered))) (\<lambda>leaders.
           rbind (rmap (leader_of ms) (take 5 ordered)) (\<lambda>laggards.
           Inr \<lparr>ts_taxonomy_type = fst tk, ts_taxonomy_id = snd tk, ts_code = code, ts_name = name,
                ts_as_of = rq_received_at trigger, ts_total_members = length member_keys,
                ts_valid_members = length valid, ts_quoted_members = length qs, ts_coverage_ratio = coverage,
                ts_equal_weight_return = avg, ts_advancers = advancers, ts_decliners = decliners,
                ts_unchanged = int (length rets) - int advancers - int decliners,
                ts_advance_ratio = (if valid = [] then None else Some (safe_ratio advancers (length valid))),
                ts_turnover_amount = full_turnover valid, ts_turnover_share = None,
                ts_above_ma20 = None, ts_above_ma60 = None,
                ts_components = \<lparr>rc_momentum = None, rc_breadth = None, rc_technical = None, rc_turnover = None\<rparr>,
                ts_strength_score = None, ts_component_coverage = 0, ts_rank = None,
                ts_leaders = leaders, ts_laggards = laggards,
                ts_data_status = (if minimum_coverage \<le> coverage then rq_data_status trigger else RtStale),
                ts_provider = rq_provider trigger, ts_source_type = source_type_of trigger\<rparr>))))))"

section \<open>The aggregator\<close>

record strength_metrics =
  mt_market_updated :: nat
  mt_taxonomy_updated :: nat
  mt_rankings_updated :: nat
  mt_cache_hits :: nat
  mt_cache_misses :: nat
  mt_calculations :: nat
  mt_throttled :: nat

record aggregator =
  ag_quotes :: quote_book
  ag_snapshots :: "(taxonomy_key \<times> taxonomy_snapshot) list"
  ag_last_publish :: "rt_taxonomy_type \<rightharpoonup> rat"
  ag_metrics :: strength_metrics
  ag_cached_markets :: "string \<rightharpoonup> market_snapshot"
  ag_cached_taxonomies :: "taxonomy_key \<rightharpoonup> taxonomy_snapshot"
  ag_cached_rankings :: "rt_taxonomy_type \<rightharpoonup> taxonomy_snapshot list"

definition publish_interval :: rat where
  "publish_interval = 25 / 100"

definition new_aggregator :: aggregator where
  "new_aggregator =
     \<lparr>ag_quotes = [], ag_snapshots = [], ag_last_publish = (\<lambda>_. None),
      ag_metrics = \<lparr>mt_market_updated = 0, mt_taxonomy_updated = 0, mt_rankings_updated = 0, mt_cache_hits = 0,
        mt_cache_misses = 0, mt_calculations = 0, mt_throttled = 0\<rparr>,
      ag_cached_markets = (\<lambda>_. None), ag_cached_taxonomies = (\<lambda>_. None), ag_cached_rankings = (\<lambda>_. None)\<rparr>"

definition update_taxonomy :: "memberships \<Rightarrow> realtime_quote \<Rightarrow> aggregator \<Rightarrow> taxonomy_key \<Rightarrow> aggregator result" where
  "update_taxonomy ms q ag tk =
     rbind (aggregate_taxonomy ms (ag_quotes ag) tk q) (\<lambda>s.
     Inr (ag\<lparr>ag_snapshots := AList.update tk s (ag_snapshots ag),
             ag_metrics := (ag_metrics ag)\<lparr>mt_taxonomy_updated := mt_taxonomy_updated (ag_metrics ag) + 1\<rparr>\<rparr>))"

definition store_ranked :: "rt_taxonomy_type \<Rightarrow> aggregator \<Rightarrow> taxonomy_snapshot \<Rightarrow> aggregator" where
  "store_ranked ty ag s =
     ag\<lparr>ag_snapshots := AList.update (ty, ts_taxonomy_id s) s (ag_snapshots ag),
        ag_cached_taxonomies := (ag_cached_taxonomies ag)((ts_taxonomy_type s, ts_taxonomy_id s) \<mapsto> s)\<rparr>"

definition rank_type :: "rat \<Rightarrow> aggregator \<Rightarrow> rt_taxonomy_type \<Rightarrow> aggregator result" where
  "rank_type now ag ty =
     rbind (rt_score (map snd (filter (\<lambda>(k, s). fst k = ty) (ag_snapshots ag)))) (\<lambda>ranking.
     let ag = foldl (store_ranked ty) ag ranking;
         ag = ag\<lparr>ag_metrics := (ag_metrics ag)\<lparr>mt_calculations := mt_calculations (ag_metrics ag) + length ranking\<rparr>\<rparr>
     in case ag_last_publish ag ty of
          Some last_publish \<Rightarrow>
            if now - last_publish < publish_interval
            then Inr (ag\<lparr>ag_metrics := (ag_metrics ag)\<lparr>mt_throttled := mt_throttled (ag_metrics ag) + 1\<rparr>\<rparr>)
            else Inr (ag\<lparr>ag_cached_rankings := (ag_cached_rankings ag)(ty \<mapsto> ranking),
                         ag_last_publish := (ag_last_publish ag)(ty \<mapsto> now),
                         ag_metrics := (ag_metrics ag)\<lparr>mt_rankings_updated := mt_rankings_updated (ag_metrics ag) + 1\<rparr>\<rparr>)
        | None \<Rightarrow>
            Inr (ag\<lparr>ag_cached_rankings := (ag_cached_rankings ag)(ty \<mapsto> ranking),
                    ag_last_publish := (ag_last_publish ag)(ty \<mapsto> now),
                    ag_metrics := (ag_metrics ag)\<lparr>mt_rankings_updated := mt_rankings_updated (ag_metrics ag) + 1\<rparr>\<rparr>))"

definition affected_taxonomies :: "memberships \<Rightarrow> realtime_quote \<Rightarrow> taxonomy_key list" where
  "affected_taxonomies ms q =
     (case map_of (ms_by_security ms) (composite_key q) of None \<Rightarrow> [] | Some tks \<Rightarrow> tks)"

definition accept_strength :: "memberships \<Rightarrow> rat \<Rightarrow> realtime_quote \<Rightarrow> aggregator \<Rightarrow> aggregator result" where
  "accept_strength ms now q ag =
     (let (book, market) = market_accept ms (ag_quotes ag) q;
          affected = affected_taxonomies ms q;
          mt = ag_metrics ag;
          ag = ag\<lparr>ag_quotes := book,
                  ag_cached_markets := (ag_cached_markets ag)(mk_market_id market \<mapsto> market),
                  ag_metrics := (if affected = [] then mt\<lparr>mt_cache_misses := mt_cache_misses mt + 1\<rparr>
                                 else mt\<lparr>mt_cache_hits := mt_cache_hits mt + 1\<rparr>)
                     \<lparr>mt_market_updated := mt_market_updated mt + 1\<rparr>\<rparr>
      in rbind (rfold (update_taxonomy ms q) ag affected) (\<lambda>ag.
         rfold (rank_type now) ag (remdups (map fst affected))))"

end
