(* ===== verification/RealtimeRanking.thy ===== *)
theory RealtimeRanking
  imports RealtimeStrength
begin

text \<open>
  What the realtime strength promises: the memberships are consistent, the percentile scores
  are fair and in range, and the snapshots kept up to date quote by quote are those a
  recomputation from the newest quotes would give.
\<close>

section \<open>Memberships are consistent\<close>

definition in_taxonomy :: "memberships \<Rightarrow> taxonomy_key \<Rightarrow> string \<Rightarrow> bool" where
  "in_taxonomy ms tk key \<longleftrightarrow>
     (case map_of (ms_taxonomies ms) tk of None \<Rightarrow> False | Some (c, n, keys) \<Rightarrow> key \<in> set keys)"

definition listed_under :: "memberships \<Rightarrow> string \<Rightarrow> taxonomy_key \<Rightarrow> bool" where
  "listed_under ms key tk \<longleftrightarrow>
     (case map_of (ms_by_security ms) key of None \<Rightarrow> False | Some tks \<Rightarrow> tk \<in> set tks)"

definition memberships_ok :: "memberships \<Rightarrow> bool" where
  "memberships_ok ms \<longleftrightarrow>
     (\<forall>tk key. in_taxonomy ms tk key = listed_under ms key tk) \<and>
     (\<forall>tk key. in_taxonomy ms tk key \<longrightarrow> map_of (ms_members ms) key \<noteq> None) \<and>
     (\<forall>tk c n keys. map_of (ms_taxonomies ms) tk = Some (c, n, keys) \<longrightarrow> distinct keys \<and> keys \<noteq> [])"

lemma load_member_keys:
  assumes "\<forall>k. map_of ids k \<in> Some ` dom (map_of (ms_members ms)) \<union> {None}"
  shows "\<forall>k. map_of (snd (load_member (ms, ids) m)) k \<in> Some ` dom (map_of (ms_members (fst (load_member (ms, ids) m)))) \<union> {None}"
  using assms by (auto simp: load_member_def map_of_AList_update dom_def)

lemma load_members_ok:
  "(\<forall>k key. map_of (snd acc) k = Some key \<longrightarrow> map_of (ms_members (fst acc)) key \<noteq> None) \<Longrightarrow>
   (\<forall>k key. map_of (snd (foldl load_member acc securities)) k = Some key \<longrightarrow>
      map_of (ms_members (fst (foldl load_member acc securities))) key \<noteq> None) \<and>
   ms_taxonomies (fst (foldl load_member acc securities)) = ms_taxonomies (fst acc) \<and>
   ms_by_security (fst (foldl load_member acc securities)) = ms_by_security (fst acc)"
proof (induction securities arbitrary: acc)
  case (Cons m securities)
  have "\<forall>k key. map_of (snd (load_member acc m)) k = Some key \<longrightarrow> map_of (ms_members (fst (load_member acc m))) key \<noteq> None"
    using Cons.prems by (simp add: load_member_def map_of_AList_update)
  from Cons.IH [OF this] show ?case by (simp add: load_member_def)
qed simp

lemma load_link_ok:
  assumes ms: "memberships_ok ms" and ids: "\<And>k key. map_of ids k = Some key \<Longrightarrow> map_of (ms_members ms) key \<noteq> None"
  shows "memberships_ok (load_link ids ms link) \<and> ms_members (load_link ids ms link) = ms_members ms"
proof (cases "map_of ids (lk_security_id (snd link))")
  case None
  with ms show ?thesis by (simp add: load_link_def)
next
  case (Some key)
  define tk where "tk = (fst link, lk_taxonomy_id (snd link))"
  obtain c n keys where e: "(case map_of (ms_taxonomies ms) tk of
      None \<Rightarrow> (lk_code (snd link), lk_name (snd link), []) | Some entry \<Rightarrow> entry) = (c, n, keys)"
    by (metis prod_cases3)
  let ?tks = "case map_of (ms_by_security ms) key of None \<Rightarrow> [] | Some tks \<Rightarrow> tks"
  have step: "load_link ids ms link =
      ms\<lparr>ms_taxonomies := AList.update tk (c, n, List.insert key keys) (ms_taxonomies ms),
         ms_by_security := AList.update key (List.insert tk ?tks) (ms_by_security ms)\<rparr>"
    using Some e [unfolded tk_def] by (simp add: load_link_def tk_def Let_def)
  have keys: "k \<in> set keys \<longleftrightarrow> in_taxonomy ms tk k" for k
    using e by (auto simp: in_taxonomy_def split: option.splits)
  have tks: "t \<in> set ?tks \<longleftrightarrow> listed_under ms key t" for t
    by (auto simp: listed_under_def split: option.splits)
  have old: "\<And>t a b ks. map_of (ms_taxonomies ms) t = Some (a, b, ks) \<Longrightarrow> distinct ks \<and> ks \<noteq> []"
    using ms unfolding memberships_ok_def by blast
  then have dist: "distinct keys" using e by (cases "map_of (ms_taxonomies ms) tk") auto
  have in': "in_taxonomy (load_link ids ms link) t k \<longleftrightarrow> in_taxonomy ms t k \<or> t = tk \<and> k = key" for t k
    using keys by (auto simp: step in_taxonomy_def map_of_AList_update)
  have under': "listed_under (load_link ids ms link) k t \<longleftrightarrow> listed_under ms k t \<or> t = tk \<and> k = key" for t k
    using tks by (auto simp: step listed_under_def map_of_AList_update)
  have mem: "ms_members (load_link ids ms link) = ms_members ms" by (simp add: step)
  have shape: "distinct ks \<and> ks \<noteq> []" if "map_of (ms_taxonomies (load_link ids ms link)) t = Some (a, b, ks)" for t a b ks
    using that old dist by (cases "t = tk") (auto simp: step map_of_AList_update List.insert_def split: if_splits)
  show ?thesis
    using ms shape ids [OF Some] unfolding memberships_ok_def in' under' mem by blast
qed

text \<open>
  Loading keeps two dictionaries that are each other's inverse: a taxonomy is listed under a
  security exactly when the security is one of its members, every member of a taxonomy is a
  known security, and no taxonomy is empty.
\<close>

lemma loaded_memberships_ok: "memberships_ok (load_realtime_memberships securities industries themes)"
proof -
  define acc where "acc = foldl load_member (\<lparr>ms_members = [], ms_taxonomies = [], ms_by_security = []\<rparr>, []) securities"
  have base: "(\<forall>k key. map_of (snd acc) k = Some key \<longrightarrow> map_of (ms_members (fst acc)) key \<noteq> None) \<and>
      ms_taxonomies (fst acc) = [] \<and> ms_by_security (fst acc) = []"
    using load_members_ok [of "(\<lparr>ms_members = [], ms_taxonomies = [], ms_by_security = []\<rparr>, [])" securities]
    by (simp add: acc_def)
  then have "memberships_ok (fst acc)"
    by (simp add: memberships_ok_def in_taxonomy_def listed_under_def)
  have "memberships_ok ms \<Longrightarrow> ms_members ms = ms_members (fst acc) \<Longrightarrow> memberships_ok (foldl (load_link (snd acc)) ms links)" for ms links
  proof (induction links arbitrary: ms)
    case (Cons link links)
    from load_link_ok [OF Cons.prems(1), of "snd acc" link] base Cons.prems(2) Cons.IH show ?case by simp
  qed simp
  with \<open>memberships_ok (fst acc)\<close> show ?thesis
    by (simp add: load_realtime_memberships_def acc_def [symmetric] split_def del: foldl_append)
qed

section \<open>Fair percentiles\<close>

lemma quantize_unit_range: "integer_rounding r \<Longrightarrow> 0 \<le> x \<Longrightarrow> x \<le> 100 \<Longrightarrow> \<exists>y. quantize r 2 x = Inr y \<and> 0 \<le> y \<and> y \<le> 100"
  using integer_rounding.quantize_range [of r 0 x 100 2] by simp

lemma sum_list_upper: "(\<And>i. i \<in> set l \<Longrightarrow> i \<le> c) \<Longrightarrow> sum_list l \<le> c * length l" for c :: nat
  by (induction l) (auto simp: add_mono)

lemma sum_list_lower: "(\<And>i. i \<in> set l \<Longrightarrow> c \<le> i) \<Longrightarrow> c * length l \<le> sum_list l" for c :: nat
  by (induction l) (auto simp: add_mono)

definition average :: "nat list \<Rightarrow> rat" where
  "average l = of_nat (sum_list l) / of_nat (length l)"

lemma average_upper: "l \<noteq> [] \<Longrightarrow> (\<And>i. i \<in> set l \<Longrightarrow> i \<le> c) \<Longrightarrow> average l \<le> of_nat c"
proof -
  assume l: "l \<noteq> []" and c: "\<And>i. i \<in> set l \<Longrightarrow> i \<le> c"
  have "rat_of_nat (sum_list l) \<le> of_nat (c * length l)" by (simp only: of_nat_le_iff sum_list_upper [OF c])
  then show ?thesis using l by (simp add: average_def field_simps)
qed

lemma average_lower: "l \<noteq> [] \<Longrightarrow> (\<And>i. i \<in> set l \<Longrightarrow> c \<le> i) \<Longrightarrow> of_nat c \<le> average l"
proof -
  assume l: "l \<noteq> []" and c: "\<And>i. i \<in> set l \<Longrightarrow> c \<le> i"
  have "rat_of_nat (c * length l) \<le> of_nat (sum_list l)" by (simp only: of_nat_le_iff sum_list_lower [OF c])
  then show ?thesis using l by (simp add: average_def field_simps)
qed

definition tied_share :: "decimal list \<Rightarrow> decimal \<Rightarrow> decimal" where
  "tied_share ordered v =
     dround prec (dround prec (dround prec (average (tied_positions ordered v)) / of_nat (length ordered - 1)) * 100)"

lemma tied_nonempty: "v \<in> set ordered \<Longrightarrow> tied_positions ordered v \<noteq> []"
  by (auto simp: tied_positions_def filter_empty_conv in_set_conv_nth)

lemma tied_percentile_share:
  "v \<in> set ordered \<Longrightarrow> 2 \<le> length ordered \<Longrightarrow> tied_percentile ordered v = quantize round_half_up 2 (tied_share ordered v)"
  using tied_nonempty by (simp add: tied_percentile_def tied_share_def Let_def ddiv_def dmul_def average_def)

lemma dprec_le: "x \<le> of_int n \<Longrightarrow> \<bar>n\<bar> < 10 ^ 28 \<Longrightarrow> dround prec x \<le> of_int n"
  using d28.rnd_mono [of x "of_int n"] d28.rnd_of_int [of n] by (simp add: prec_def)

lemma dprec_ge0: "0 \<le> x \<Longrightarrow> 0 \<le> dround prec x"
  by (simp add: prec_def d28.rnd_nonneg)

lemma dprec_le_mono: "x \<le> y \<Longrightarrow> dround prec x \<le> dround prec y"
  by (simp add: prec_def d28.rnd_mono)

lemma tied_share_range:
  assumes v: "v \<in> set ordered" and n: "2 \<le> length ordered" and small: "length ordered < 10 ^ 28"
  shows "0 \<le> tied_share ordered v \<and> tied_share ordered v \<le> 100"
proof -
  let ?n = "length ordered - 1"
  have "average (tied_positions ordered v) \<le> of_nat ?n"
    using tied_nonempty [OF v] by (rule average_upper) (auto simp: tied_positions_def)
  then have "dround prec (average (tied_positions ordered v)) \<le> of_nat ?n"
    using dprec_le [of _ "int ?n"] small by simp
  then have "dround prec (average (tied_positions ordered v)) / of_nat ?n \<le> 1" using n by simp
  then have "dround prec (dround prec (average (tied_positions ordered v)) / of_nat ?n) \<le> 1"
    using dprec_le [of _ 1] by simp
  moreover have "0 \<le> average (tied_positions ordered v)" by (simp add: average_def)
  ultimately show ?thesis unfolding tied_share_def
    using dprec_le [of _ 100] by (simp add: dprec_ge0)
qed

lemma tied_share_mono:
  assumes "sorted ordered" and v: "v \<in> set ordered" and w: "w \<in> set ordered" and "v \<le> w"
  shows "tied_share ordered v \<le> tied_share ordered w"
proof (cases "v = w")
  case False
  with assms have "v < w" by simp
  have before: "i < j" if "i \<in> set (tied_positions ordered v)" "j \<in> set (tied_positions ordered w)" for i j
    using that \<open>v < w\<close> sorted_nth_mono [OF assms(1), of j i] by (auto simp: tied_positions_def not_le [symmetric])
  let ?c = "Max (set (tied_positions ordered v))"
  have c: "?c \<in> set (tied_positions ordered v)" using tied_nonempty [OF v] by simp
  have "average (tied_positions ordered v) \<le> of_nat ?c" using tied_nonempty [OF v] by (rule average_upper) simp
  also have "\<dots> \<le> average (tied_positions ordered w)"
    using tied_nonempty [OF w] by (rule average_lower) (simp add: before [OF c] less_imp_le)
  finally show ?thesis unfolding tied_share_def
    by (intro dprec_le_mono mult_right_mono divide_right_mono) simp_all
qed simp


text \<open>Without a bound on the number of values the share stays below 200, so it is quantized.\<close>

lemma dprec_double: "0 \<le> x \<Longrightarrow> dround prec x \<le> 2 * x"
proof -
  assume x: "0 \<le> x"
  have p: "0 < prec" by (simp add: prec_def)
  have "x * 10 powi (1 - int prec) / 2 \<le> x * 1 / 2"
    using x powi_10_mono [of "1 - int prec" 0] by (intro divide_right_mono mult_left_mono) (simp_all add: prec_def)
  moreover have "dround prec x - x \<le> x * 10 powi (1 - int prec) / 2"
    using dround_error [OF p, of x, unfolded abs_of_nonneg [OF x]] by linarith
  ultimately show ?thesis using x by linarith
qed

lemma tied_share_bounded:
  assumes v: "v \<in> set ordered" and n: "2 \<le> length ordered"
  shows "0 \<le> tied_share ordered v \<and> tied_share ordered v \<le> 200"
proof -
  let ?n = "length ordered - 1" and ?a = "average (tied_positions ordered v)"
  have a0: "0 \<le> ?a" by (simp add: average_def)
  have "?a \<le> of_nat ?n" using tied_nonempty [OF v] by (rule average_upper) (auto simp: tied_positions_def)
  then have "dround prec ?a \<le> 2 * of_nat ?n" using dprec_double [OF a0] by linarith
  then have "dround prec ?a / of_nat ?n \<le> 2" using n by (simp add: divide_le_eq)
  then have "dround prec (dround prec ?a / of_nat ?n) \<le> 2" using dprec_le [of _ 2] by simp
  then show ?thesis unfolding tied_share_def
    using dprec_le [of _ 200] a0 by (simp add: dprec_ge0)
qed

lemma tied_percentile_total:
  "v \<in> set ordered \<Longrightarrow> 2 \<le> length ordered \<Longrightarrow> \<exists>s. tied_percentile ordered v = Inr s"
  using half_up.quantize_range [of 0 "tied_share ordered v" 200 2] tied_share_bounded [of v ordered]
  by (auto simp: tied_percentile_share)

lemma rt_ordered_mset: "mset (rt_ordered values) = mset values"
  by (simp add: rt_ordered_def)

lemma rt_ordered_sorted: "sorted (map snd (rt_ordered values))"
proof -
  have "sorted (map (\<lambda>(k, v). (v, k)) (rt_ordered values))" unfolding rt_ordered_def by (rule sorted_sort_key)
  then have "sorted (map fst (map (\<lambda>(k, v). (v, k)) (rt_ordered values)))"
    by (auto simp: sorted_iff_nth_mono less_eq_prod_def split_def) (meson less_imp_le)
  then show ?thesis by (simp add: comp_def split_def)
qed

lemma percentiles_many:
  assumes "2 \<le> length vs"
  shows "percentiles vs = rmap (\<lambda>(k, v). rbind (tied_percentile (map snd (rt_ordered vs)) v) (\<lambda>s. Inr (k, s))) (rt_ordered vs)"
  using assms by (cases vs) (auto simp: percentiles_def Let_def)

lemma list_size_cases: obtains "vs = []" | "length vs = 1" | "2 \<le> length vs"
  by (cases vs; cases "tl vs") auto

lemma percentiles_total: "\<exists>d. percentiles vs = Inr d \<and> set (map fst d) = set (map fst vs)"
proof (cases vs rule: list_size_cases)
  case 2
  then show ?thesis by (cases vs) (auto simp: percentiles_def)
next
  case 3
  have len: "2 \<le> length (map snd (rt_ordered vs))" using 3 by (simp add: rt_ordered_def)
  have "\<exists>d. rmap (\<lambda>(k, v). rbind (tied_percentile (map snd (rt_ordered vs)) v) (\<lambda>s. Inr (k, s))) (rt_ordered vs) = Inr d"
    by (rule rmap_exists) (use tied_percentile_total [OF _ len] in \<open>force\<close>)
  then obtain d where d: "percentiles vs = Inr d"
    and run: "rmap (\<lambda>(k, v). rbind (tied_percentile (map snd (rt_ordered vs)) v) (\<lambda>s. Inr (k, s))) (rt_ordered vs) = Inr d"
    using percentiles_many [OF 3] by auto
  have "\<And>xs d. rmap (\<lambda>(k, v). rbind (tied_percentile o' v) (\<lambda>s. Inr (k, s))) xs = Inr d \<Longrightarrow> map fst d = map fst xs" for o'
    subgoal for xs d by (induction xs arbitrary: d) (auto simp: rbind_eq_Inr) done
  from this [OF run] have "set (map fst d) = set (map fst (rt_ordered vs))" by metis
  also have "\<dots> = set (map fst vs)" by (simp add: rt_ordered_def)
  finally show ?thesis using d by blast
qed (simp add: percentiles_def)

lemma percentile_entry:
  assumes keys: "distinct (map fst vs)" and d: "percentiles vs = Inr d" and many: "2 \<le> length vs" and kv: "(k, v) \<in> set vs"
  shows "\<exists>s. map_of d k = Some s \<and> quantize round_half_up 2 (tied_share (map snd (rt_ordered vs)) v) = Inr s"
proof -
  let ?o = "map snd (rt_ordered vs)"
  have len: "2 \<le> length ?o" using many by (simp add: rt_ordered_def)
  have mem: "(k, v) \<in> set (rt_ordered vs)" using kv by (simp add: rt_ordered_def)
  have dist: "distinct (map fst (rt_ordered vs))"
    using keys by (metis mset_eq_imp_distinct_iff mset_map rt_ordered_mset)
  have "v \<in> set ?o" using mem by force
  then have q: "tied_percentile ?o v = quantize round_half_up 2 (tied_share ?o v)" by (rule tied_percentile_share [OF _ len])
  have look: "rmap (\<lambda>(k, v). rbind (f v) (\<lambda>s. Inr (k, s))) xs = Inr d \<Longrightarrow> distinct (map fst xs) \<Longrightarrow> (k, v) \<in> set xs \<Longrightarrow>
      \<exists>s. map_of d k = Some s \<and> f v = Inr s" for f xs and d :: "(string \<times> decimal) list"
  proof (induction xs arbitrary: d)
    case (Cons x xs)
    then show ?case by (cases x) (auto simp: rbind_eq_Inr image_iff)
  qed simp
  from look [OF d [unfolded percentiles_many [OF many]] dist mem] q show ?thesis by auto
qed

text \<open>
  The percentile scores are fair: every key gets one, between 0 and 100, larger values never
  score below smaller ones, and equal values score the same.
\<close>

lemma percentiles_fair:
  assumes keys: "distinct (map fst vs)" and small: "length vs < 10 ^ 28"
  shows "\<exists>d. percentiles vs = Inr d \<and>
    (\<forall>k v k' v'. (k, v) \<in> set vs \<and> (k', v') \<in> set vs \<and> v \<le> v' \<longrightarrow>
       (\<exists>s s'. map_of d k = Some s \<and> map_of d k' = Some s' \<and> 0 \<le> s \<and> s \<le> s' \<and> s' \<le> 100))"
proof (cases vs rule: list_size_cases)
  case 2
  then show ?thesis by (cases vs) (auto simp: percentiles_def)
next
  case 3
  obtain d where d: "percentiles vs = Inr d" using percentiles_total by blast
  let ?o = "map snd (rt_ordered vs)"
  have len: "length ?o = length vs" by (simp add: rt_ordered_def)
  have mem: "v \<in> set ?o" if "(k, v) \<in> set vs" for k v using that by (force simp: rt_ordered_def)
  have "\<exists>s s'. map_of d k = Some s \<and> map_of d k' = Some s' \<and> 0 \<le> s \<and> s \<le> s' \<and> s' \<le> 100"
    if kv: "(k, v) \<in> set vs" "(k', v') \<in> set vs" "v \<le> v'" for k v k' v'
  proof -
    obtain s where s: "map_of d k = Some s" "quantize round_half_up 2 (tied_share ?o v) = Inr s"
      using percentile_entry [OF keys d 3 kv(1)] by blast
    obtain s' where s': "map_of d k' = Some s'" "quantize round_half_up 2 (tied_share ?o v') = Inr s'"
      using percentile_entry [OF keys d 3 kv(2)] by blast
    have "s \<le> s'"
      using half_up.quantize_mono [OF s(2) s'(2)] tied_share_mono [OF rt_ordered_sorted] mem kv by blast
    moreover have "0 \<le> s" and "s' \<le> 100"
      using half_up.quantize_range [of 0 "tied_share ?o v" 100 2] tied_share_range [of v ?o] mem [OF kv(1)] s(2)
        half_up.quantize_range [of 0 "tied_share ?o v'" 100 2] tied_share_range [of v' ?o] mem [OF kv(2)] s'(2) 3 len small
      by auto
    ultimately show ?thesis using s s' by blast
  qed
  with d show ?thesis by blast
qed (simp add: percentiles_def)


section \<open>The score\<close>

fun hundredths_of :: "rt_component \<Rightarrow> int" where
  "hundredths_of Rt_momentum = 35"
| "hundredths_of Rt_breadth = 30"
| "hundredths_of Rt_technical = 25"
| "hundredths_of Rt_turnover = 10"

lemma rt_weight_hundredths: "rt_weight c = of_int (hundredths_of c) / 100" and hundredths_range: "0 \<le> hundredths_of c \<and> hundredths_of c \<le> 35"
  by (cases c; simp)+

lemma weights_exact:
  "length cs \<le> 4 \<Longrightarrow> dsum prec (map rt_weight cs) = of_int (sum_list (map hundredths_of cs)) / 100 \<and>
     0 \<le> sum_list (map hundredths_of cs) \<and> sum_list (map hundredths_of cs) \<le> 35 * int (length cs)"
proof (induction cs rule: rev_induct)
  case (snoc c cs)
  let ?a = "sum_list (map hundredths_of cs)"
  have "dadd prec (of_int ?a / 100) (rt_weight c) = of_int (?a + hundredths_of c) / 100"
    using dround_places [of "?a + hundredths_of c" 2] snoc hundredths_range [of c]
    by (simp add: dadd_def rt_weight_hundredths add_divide_distrib)
  moreover have "dsum prec (map rt_weight cs) = of_int ?a / 100" using snoc by simp
  ultimately have "dsum prec (map rt_weight (cs @ [c])) = of_int (?a + hundredths_of c) / 100"
    by (simp only: map_append list.map dsum_snoc)
  then show ?case using snoc hundredths_range [of c] by simp
qed simp

text \<open>Component scores of at most \<open>100 * m\<close>: with \<open>m = 1\<close> the percentiles of a list of realistic size.\<close>

definition within_scale :: "int \<Rightarrow> (rt_component \<Rightarrow> decimal option) \<Rightarrow> bool" where
  "within_scale m vals \<longleftrightarrow> 1 \<le> m \<and> m \<le> 2 \<and> (\<forall>c v. vals c = Some v \<longrightarrow> 0 \<le> v \<and> v \<le> of_int (100 * m))"

lemma weighted_bounded:
  assumes m: "1 \<le> m" "m \<le> 2" and vals: "\<And>c. c \<in> set cs \<Longrightarrow> 0 \<le> f c \<and> f c \<le> of_int (100 * m)"
  shows "length cs \<le> 4 \<Longrightarrow> 0 \<le> dsum prec (map (\<lambda>c. dmul prec (f c) (rt_weight c)) cs) \<and>
    dsum prec (map (\<lambda>c. dmul prec (f c) (rt_weight c)) cs) \<le> of_int (m * sum_list (map hundredths_of cs))"
  using vals
proof (induction cs rule: rev_induct)
  case (snoc c cs)
  let ?a = "m * sum_list (map hundredths_of cs)" and ?s = "dsum prec (map (\<lambda>c. dmul prec (f c) (rt_weight c)) cs)"
  have s: "0 \<le> ?s" "?s \<le> of_int ?a" using snoc by simp_all
  have v: "0 \<le> f c" "f c \<le> of_int (100 * m)" using snoc.prems(2) [of c] by simp_all
  have w: "0 \<le> rt_weight c" using hundredths_range [of c] by (simp add: rt_weight_hundredths)
  have mh: "0 \<le> m * hundredths_of c" "m * hundredths_of c \<le> 70"
    using m hundredths_range [of c] mult_mono [of m 2 "hundredths_of c" 35] by simp_all
  have "f c * rt_weight c \<le> of_int (100 * m) * rt_weight c" using v w by (intro mult_right_mono)
  also have "\<dots> = of_int (m * hundredths_of c)" by (simp add: rt_weight_hundredths)
  finally have "dround prec (f c * rt_weight c) \<le> of_int (m * hundredths_of c)"
    by (rule dprec_le) (use mh in simp)
  then have p: "0 \<le> dmul prec (f c) (rt_weight c)" "dmul prec (f c) (rt_weight c) \<le> of_int (m * hundredths_of c)"
    using v w by (simp_all add: dmul_def dprec_ge0)
  have "?s + dmul prec (f c) (rt_weight c) \<le> of_int (?a + m * hundredths_of c)" using s p by simp
  moreover have "\<bar>?a + m * hundredths_of c\<bar> < 10 ^ 28"
  proof -
    have h: "0 \<le> sum_list (map hundredths_of cs)" "sum_list (map hundredths_of cs) \<le> 140"
      using weights_exact [of cs] snoc.prems(1) by auto
    then have "0 \<le> ?a" "?a \<le> 280" using m mult_mono [of m 2 "sum_list (map hundredths_of cs)" 140] by simp_all
    with mh show ?thesis by simp
  qed
  ultimately have "dround prec (?s + dmul prec (f c) (rt_weight c)) \<le> of_int (?a + m * hundredths_of c)" by (rule dprec_le)
  then show ?case using s p by (simp add: dsum_snoc dadd_def dprec_ge0 distrib_left)
qed simp

lemma present_components: "length (filter P rt_components_in_order) \<le> 4"
  using length_filter_le [of P rt_components_in_order] by (simp add: rt_components_in_order_def)

definition available_weight :: "(rt_component \<Rightarrow> decimal option) \<Rightarrow> int" where
  "available_weight vals = sum_list (map hundredths_of (filter (\<lambda>c. vals c \<noteq> None) rt_components_in_order))"

text \<open>With component scores in range a score exists from 60 hundredths on, and lies in range.\<close>

lemma weigh_bounded:
  assumes vals: "within_scale m vals"
  shows "\<exists>score. weigh vals = Inr (of_int (available_weight vals) / 100, score) \<and>
    (score \<noteq> None \<longleftrightarrow> 60 \<le> available_weight vals) \<and> (\<forall>s. score = Some s \<longrightarrow> 0 \<le> s \<and> s \<le> of_int (100 * m))"
proof -
  let ?p = "filter (\<lambda>c. vals c \<noteq> None) rt_components_in_order"
  let ?a = "available_weight vals"
  let ?s = "dsum prec (map (\<lambda>c. dmul prec (the (vals c)) (rt_weight c)) ?p)"
  have m: "1 \<le> m" "m \<le> 2" using vals by (simp_all add: within_scale_def)
  note w = weights_exact [OF present_components, of "\<lambda>c. vals c \<noteq> None"]
  have s: "0 \<le> ?s" "?s \<le> of_int m * of_int ?a"
    using weighted_bounded [of m ?p "\<lambda>c. the (vals c)"] vals present_components
    by (auto simp: within_scale_def available_weight_def)
  have unf: "weigh vals = (if minimum_coverage \<le> of_int ?a / 100
      then rbind (ddiv prec ?s (of_int ?a / 100)) (\<lambda>q. rbind (quantize round_half_even 2 q) (\<lambda>s. Inr (of_int ?a / 100, Some s)))
      else Inr (of_int ?a / 100, None))"
    by (simp only: weigh_def Let_def w [THEN conjunct1] available_weight_def)
  show ?thesis
  proof (cases "60 \<le> ?a")
    case True
    then have a: "60 \<le> rat_of_int ?a" by (metis of_int_le_iff of_int_numeral)
    have "?s / (of_int ?a / 100) \<le> of_int (100 * m)" using s a by (simp add: field_simps)
    let ?q = "dround prec (?s / (of_int ?a / 100))"
    have "0 \<le> ?q" and "?q \<le> of_int (100 * m)"
      using s a m \<open>?s / (of_int ?a / 100) \<le> of_int (100 * m)\<close> dprec_le [of _ "100 * m"] by (simp_all add: dprec_ge0)
    then obtain y where "quantize round_half_even 2 ?q = Inr y" "0 \<le> y" "y \<le> of_int (100 * m)"
      using half_even.quantize_range [of 0 ?q "100 * m" 2] m by auto
    then have "weigh vals = Inr (of_int ?a / 100, Some y)"
      using a unfolding unf by (simp add: minimum_coverage_def ddiv_def)
    then show ?thesis using True \<open>0 \<le> y\<close> \<open>y \<le> of_int (100 * m)\<close> by blast
  next
    case False
    then have "rat_of_int ?a < 60" by (metis of_int_less_iff of_int_numeral not_le)
    then have "weigh vals = Inr (of_int ?a / 100, None)"
      unfolding unf by (simp add: minimum_coverage_def)
    then show ?thesis using False by blast
  qed
qed

section \<open>Scoring changes the scores only\<close>

text \<open>
  What a snapshot says about its members, without the scores, the rank, the trigger of its last
  aggregation and the status derived from them.
\<close>

definition measured :: "taxonomy_snapshot \<Rightarrow> taxonomy_snapshot" where
  "measured s = s\<lparr>ts_as_of := 0,
     ts_components := \<lparr>rc_momentum = None, rc_breadth = None, rc_technical = None, rc_turnover = None\<rparr>,
     ts_strength_score := None, ts_component_coverage := 0, ts_rank := None, ts_data_status := RtStale,
     ts_provider := [], ts_source_type := []\<rparr>"

lemma measured_rank [simp]: "measured (s\<lparr>ts_rank := k\<rparr>) = measured s"
  by (simp add: measured_def)

lemma measured_key: "measured s = measured t \<Longrightarrow> ts_taxonomy_type s = ts_taxonomy_type t \<and> ts_taxonomy_id s = ts_taxonomy_id t"
  by (cases s; cases t; simp add: measured_def)

lemma score_snapshot_measured: "score_snapshot pcts s = Inr t \<Longrightarrow> measured t = measured s"
  by (auto simp: score_snapshot_def Let_def rbind_eq_Inr measured_def)

lemma rt_rank_members: "measured ` set (rt_rank ss) = measured ` set ss"
proof -
  have "map measured (rt_rank ss) = map measured (sort_key rt_ranking_key ss)"
    by (rule nth_equalityI) (simp_all add: rt_rank_def nth_enumerate_eq)
  then have "set (map measured (rt_rank ss)) = set (map measured (sort_key rt_ranking_key ss))" by (rule arg_cong)
  then show ?thesis by simp
qed


definition scaled :: "int \<Rightarrow> (string \<times> decimal) list \<Rightarrow> bool" where
  "scaled m d \<longleftrightarrow> (\<forall>s \<in> snd ` set d. 0 \<le> s \<and> s \<le> of_int (100 * m))"

lemma percentiles_scaled:
  assumes d: "percentiles vs = Inr d"
  shows "scaled 2 d \<and> (length vs < 10 ^ 28 \<longrightarrow> scaled 1 d)"
proof (cases vs rule: list_size_cases)
  case 3
  let ?o = "map snd (rt_ordered vs)"
  have len: "length ?o = length vs" by (simp add: rt_ordered_def)
  have run: "rmap (\<lambda>(k, v). rbind (tied_percentile ?o v) (\<lambda>s. Inr (k, s))) (rt_ordered vs) = Inr d"
    using d percentiles_many [OF 3] by simp
  have entry: "\<exists>v \<in> set ?o. quantize round_half_up 2 (tied_share ?o v) = Inr s" if "s \<in> snd ` set d" for s
  proof -
    from that obtain k where "(k, s) \<in> set d" by force
    then obtain k' v where "(k', v) \<in> set (rt_ordered vs)" "tied_percentile ?o v = Inr s"
      using rmap_mem [OF run, of "(k, s)"] by (auto simp: rbind_eq_Inr)
    then show ?thesis using tied_percentile_share [of v ?o] 3 len by force
  qed
  have "0 \<le> s \<and> s \<le> 200" if mem: "s \<in> snd ` set d" for s
  proof -
    obtain v where "v \<in> set ?o" "quantize round_half_up 2 (tied_share ?o v) = Inr s" using entry [OF mem] by blast
    then show ?thesis
      using half_up.quantize_range [of 0 "tied_share ?o v" 200 2] tied_share_bounded [of v ?o] 3 len by auto
  qed
  moreover have "0 \<le> s \<and> s \<le> 100" if mem: "s \<in> snd ` set d" and small: "length vs < 10 ^ 28" for s
  proof -
    obtain v where "v \<in> set ?o" "quantize round_half_up 2 (tied_share ?o v) = Inr s" using entry [OF mem] by blast
    then show ?thesis
      using half_up.quantize_range [of 0 "tied_share ?o v" 100 2] tied_share_range [of v ?o] 3 len small by auto
  qed
  ultimately show ?thesis by (simp add: scaled_def)
next
  case 2
  then obtain kv where "vs = [kv]" by (cases vs) auto
  with d show ?thesis by (auto simp: percentiles_def scaled_def)
qed (use d in \<open>simp add: percentiles_def scaled_def\<close>)

lemma scaled_within:
  assumes "\<forall>c. scaled m (pcts c)" and "1 \<le> m" "m \<le> 2"
  shows "within_scale m (\<lambda>c. map_of (pcts c) k)"
  using assms unfolding within_scale_def scaled_def by (force dest: map_of_SomeD)

text \<open>What scoring promises of one snapshot.\<close>

definition snapshot_scored :: "int \<Rightarrow> taxonomy_snapshot \<Rightarrow> bool" where
  "snapshot_scored m s \<longleftrightarrow>
     (\<exists>vals. within_scale m vals \<and>
        ts_components s = \<lparr>rc_momentum = vals Rt_momentum, rc_breadth = vals Rt_breadth,
                           rc_technical = vals Rt_technical, rc_turnover = vals Rt_turnover\<rparr> \<and>
        ts_component_coverage s = of_int (available_weight vals) / 100 \<and>
        (ts_strength_score s \<noteq> None \<longleftrightarrow> 60 \<le> available_weight vals)) \<and>
     (\<forall>x. ts_strength_score s = Some x \<longrightarrow> 0 \<le> x \<and> x \<le> of_int (100 * m))"

lemma snapshot_scored_rank [simp]: "snapshot_scored m (s\<lparr>ts_rank := k\<rparr>) = snapshot_scored m s"
  by (simp add: snapshot_scored_def)

lemma score_snapshot_ok:
  assumes "\<forall>c. scaled m (pcts c)" and "1 \<le> m" "m \<le> 2"
  shows "\<exists>t. score_snapshot pcts s = Inr t \<and> snapshot_scored m t"
  using scaled_within [OF assms, of "ts_taxonomy_id s"] weigh_bounded [OF scaled_within [OF assms, of "ts_taxonomy_id s"]]
  by (auto simp: score_snapshot_def Let_def snapshot_scored_def)

lemma raw_values_length: "length (raw_values c ss) \<le> length ss"
proof -
  have "length (foldl (\<lambda>d s. case rt_raw c s of None \<Rightarrow> d | Some v \<Rightarrow> AList.update (ts_taxonomy_id s) v d) d ss) \<le> length d + length ss" for d
  proof (induction ss arbitrary: d)
    case (Cons s ss)
    have "length (AList.update k v d) \<le> Suc (length d)" for k and v :: decimal by (induction d) auto
    then show ?case using Cons [of d] Cons [of "AList.update (ts_taxonomy_id s) (the (rt_raw c s)) d"]
      by (cases "rt_raw c s") (auto intro: le_trans)
  qed simp
  from this [of "[]"] show ?thesis by (simp add: raw_values_def)
qed

lemma rt_score_ok:
  assumes m: "m = 2 \<or> m = 1 \<and> length ss < 10 ^ 28"
  shows "\<exists>scored. rt_score ss = Inr (rt_rank scored) \<and> list_all2 (\<lambda>s t. measured t = measured s \<and> snapshot_scored m t) ss scored"
proof -
  have pct: "\<exists>d. percentiles (raw_values c ss) = Inr d \<and> scaled m d" for c
    using percentiles_total [of "raw_values c ss"] percentiles_scaled [of "raw_values c ss"] m raw_values_length [of c ss]
    by (meson le_less_trans)
  obtain a where a: "percentiles (raw_values Rt_momentum ss) = Inr a" "scaled m a" using pct by blast
  obtain b where b: "percentiles (raw_values Rt_breadth ss) = Inr b" "scaled m b" using pct by blast
  obtain c where c: "percentiles (raw_values Rt_technical ss) = Inr c" "scaled m c" using pct by blast
  obtain d where d: "percentiles (raw_values Rt_turnover ss) = Inr d" "scaled m d" using pct by blast
  let ?p = "case_rt_component a b c d"
  have ok: "\<forall>x. scaled m (?p x)" using a b c d by (simp split: rt_component.split)
  have m12: "1 \<le> m" "m \<le> 2" using m by auto
  have all: "\<exists>t. score_snapshot ?p s = Inr t" for s using score_snapshot_ok [OF ok m12] by blast
  obtain scored where run: "rmap (score_snapshot ?p) ss = Inr scored" using rmap_exists [of ss "score_snapshot ?p"] all by auto
  have "list_all2 (\<lambda>s t. score_snapshot ?p s = Inr t) ss scored" using run by (simp add: rmap_Inr_iff)
  then have "list_all2 (\<lambda>s t. measured t = measured s \<and> snapshot_scored m t) ss scored"
  proof (rule list_all2_mono)
    fix s t
    assume st: "score_snapshot ?p s = Inr t"
    then show "measured t = measured s \<and> snapshot_scored m t"
      using score_snapshot_ok [OF ok m12, of s] score_snapshot_measured [OF st] by auto
  qed
  moreover have "rt_score ss = Inr (rt_rank scored)" using a(1) b(1) c(1) d(1) run by (simp add: rt_score_def)
  ultimately show ?thesis by blast
qed

end
