(* ===== verification/RealtimeFeed.thy ===== *)
theory RealtimeFeed
  imports RealtimeRanking
begin

text \<open>
  The aggregator fed with quotes: it never raises, and after any sequence of quotes the
  snapshot of every taxonomy is the one a recomputation over the newest quote of each of its
  members gives, up to the trigger and the scores.
\<close>

section \<open>The newest quotes\<close>

definition book_of :: "realtime_quote list \<Rightarrow> quote_book" where
  "book_of qs = foldl (\<lambda>book q. AList.update (composite_key q) q book) [] qs"

definition keyed_book :: "quote_book \<Rightarrow> bool" where
  "keyed_book book \<longleftrightarrow> (\<forall>k q. map_of book k = Some q \<longrightarrow> composite_key q = k)"

lemma keyed_book_update: "keyed_book book \<Longrightarrow> keyed_book (AList.update (composite_key q) q book)"
  by (simp add: keyed_book_def map_of_AList_update)

section \<open>Aggregation\<close>

lemma aggregate_total:
  assumes ms: "memberships_ok ms" and tk: "in_taxonomy ms tk key" and book: "keyed_book book"
  shows "\<exists>t. \<forall>trigger. \<exists>t'. aggregate_taxonomy ms book tk trigger = Inr t' \<and> measured t' = t \<and>
    (ts_taxonomy_type t', ts_taxonomy_id t') = tk"
proof -
  obtain c n keys where e: "map_of (ms_taxonomies ms) tk = Some (c, n, keys)"
    using tk by (auto simp: in_taxonomy_def split: option.splits)
  define qs where "qs = List.map_filter (map_of book) keys"
  define valid where "valid = filter (\<lambda>x. rq_previous_close x \<noteq> None \<and> rq_previous_close x \<noteq> Some 0) qs"
  have known: "map_of (ms_members ms) (composite_key q) \<noteq> None" if "q \<in> set valid" for q
  proof -
    from that obtain k where "k \<in> set keys" "map_of book k = Some q"
      by (auto simp: valid_def qs_def List.map_filter_def)
    then have "in_taxonomy ms tk (composite_key q)" using e book by (auto simp: in_taxonomy_def keyed_book_def)
    then show ?thesis using ms by (auto simp: memberships_ok_def)
  qed
  have "\<exists>r. quote_return q = Inr r" if "q \<in> set valid" for q
    using that by (auto simp: valid_def quote_return_def ddiv_def)
  then obtain rets where rets: "rmap quote_return valid = Inr rets" using rmap_exists by blast
  have "\<exists>a. average_return rets = Inr a" by (simp add: average_return_def ddiv_def)
  then obtain avg where avg: "average_return rets = Inr avg" by blast
  define ordered where "ordered = sort_key (\<lambda>(x, r). (r, rq_code x)) (zip valid rets)"
  have "set ordered \<subseteq> set (zip valid rets)" by (simp add: ordered_def)
  then have leader: "\<exists>l. leader_of ms qv = Inr l" if "qv \<in> set ordered" for qv
  proof -
    have "(fst qv, snd qv) \<in> set (zip valid rets)" using that \<open>set ordered \<subseteq> set (zip valid rets)\<close> by (simp add: subset_iff)
    then have "fst qv \<in> set valid" by (rule set_zip_leftD)
    from known [OF this] show ?thesis by (auto simp: leader_of_def)
  qed
  have "\<exists>ls. rmap (leader_of ms) (rev (drop (length ordered - 5) ordered)) = Inr ls"
    by (rule rmap_exists) (auto intro: leader dest: in_set_dropD)
  then obtain leaders where leaders: "rmap (leader_of ms) (rev (drop (length ordered - 5) ordered)) = Inr leaders" by blast
  have "\<exists>ls. rmap (leader_of ms) (take 5 ordered) = Inr ls"
    by (rule rmap_exists) (auto intro: leader dest: in_set_takeD)
  then obtain laggards where laggards: "rmap (leader_of ms) (take 5 ordered) = Inr laggards" by blast
  show ?thesis
    unfolding aggregate_taxonomy_def e option.case case_prod_conv Let_def qs_def [symmetric] valid_def [symmetric]
      rets rbind_Inr avg ordered_def [symmetric] leaders laggards
    by (simp add: measured_def)
qed

text \<open>A quote of a security outside the taxonomy changes nothing for it.\<close>

lemma aggregate_other:
  assumes "\<not> in_taxonomy ms tk k"
  shows "aggregate_taxonomy ms (AList.update k q book) tk trigger = aggregate_taxonomy ms book tk trigger"
proof (cases "map_of (ms_taxonomies ms) tk")
  case (Some e)
  obtain c n keys where e: "e = (c, n, keys)" by (cases e)
  have "k \<notin> set keys" using assms Some e by (simp add: in_taxonomy_def)
  then have "List.map_filter (map_of (AList.update k q book)) keys = List.map_filter (map_of book) keys"
    by (induction keys) (auto simp: List.map_filter_def map_of_AList_update)
  then show ?thesis using Some e by (simp add: aggregate_taxonomy_def)
qed (simp add: aggregate_taxonomy_def)

section \<open>Snapshots and the book\<close>

definition snapshot_view :: "aggregator \<Rightarrow> taxonomy_key \<Rightarrow> taxonomy_snapshot option" where
  "snapshot_view ag tk = map_option measured (map_of (ag_snapshots ag) tk)"

definition up_to_date :: "memberships \<Rightarrow> quote_book \<Rightarrow> taxonomy_key \<Rightarrow> taxonomy_snapshot option \<Rightarrow> bool" where
  "up_to_date ms book tk v \<longleftrightarrow>
     (case v of
        None \<Rightarrow> \<forall>key. in_taxonomy ms tk key \<longrightarrow> map_of book key = None
      | Some m \<Rightarrow> (\<exists>key. in_taxonomy ms tk key \<and> map_of book key \<noteq> None) \<and>
          (\<forall>trigger. \<exists>t. aggregate_taxonomy ms book tk trigger = Inr t \<and> measured t = m))"

definition aggregator_ok :: "memberships \<Rightarrow> taxonomy_key set \<Rightarrow> aggregator \<Rightarrow> bool" where
  "aggregator_ok ms pending ag \<longleftrightarrow>
     keyed_book (ag_quotes ag) \<and> distinct (map fst (ag_snapshots ag)) \<and>
     (\<forall>tk s. map_of (ag_snapshots ag) tk = Some s \<longrightarrow> (ts_taxonomy_type s, ts_taxonomy_id s) = tk) \<and>
     (\<forall>tk. tk \<notin> pending \<longrightarrow> up_to_date ms (ag_quotes ag) tk (snapshot_view ag tk))"

lemma up_to_date_other:
  assumes "\<not> in_taxonomy ms tk k"
  shows "up_to_date ms (AList.update k q book) tk v = up_to_date ms book tk v"
proof -
  have same: "map_of (AList.update k q book) key = map_of book key" if "in_taxonomy ms tk key" for key
    using that assms by (auto simp: map_of_AList_update)
  then have "(\<exists>key. in_taxonomy ms tk key \<and> map_of (AList.update k q book) key \<noteq> None) =
      (\<exists>key. in_taxonomy ms tk key \<and> map_of book key \<noteq> None)"
    and "(\<forall>key. in_taxonomy ms tk key \<longrightarrow> map_of (AList.update k q book) key = None) =
      (\<forall>key. in_taxonomy ms tk key \<longrightarrow> map_of book key = None)" by metis+
  then show ?thesis unfolding up_to_date_def aggregate_other [OF assms] by (cases v) simp_all
qed

lemma update_taxonomy_ok:
  assumes ms: "memberships_ok ms" and ok: "aggregator_ok ms (insert tk pending) ag"
    and key: "in_taxonomy ms tk key" "map_of (ag_quotes ag) key \<noteq> None"
  shows "\<exists>ag'. update_taxonomy ms q ag tk = Inr ag' \<and> aggregator_ok ms pending ag' \<and> ag_quotes ag' = ag_quotes ag"
proof -
  have book: "keyed_book (ag_quotes ag)" using ok by (simp add: aggregator_ok_def)
  from aggregate_total [OF ms key(1) book] obtain m where
    m: "\<And>trigger. \<exists>t'. aggregate_taxonomy ms (ag_quotes ag) tk trigger = Inr t' \<and> measured t' = m \<and>
      (ts_taxonomy_type t', ts_taxonomy_id t') = tk" by blast
  then obtain s where s: "aggregate_taxonomy ms (ag_quotes ag) tk q = Inr s" "measured s = m"
    "(ts_taxonomy_type s, ts_taxonomy_id s) = tk" by blast
  let ?ag = "ag\<lparr>ag_snapshots := AList.update tk s (ag_snapshots ag),
     ag_metrics := (ag_metrics ag)\<lparr>mt_taxonomy_updated := mt_taxonomy_updated (ag_metrics ag) + 1\<rparr>\<rparr>"
  have "up_to_date ms (ag_quotes ag) tk (Some m)"
    unfolding up_to_date_def option.case using m key by blast
  moreover have "snapshot_view ?ag t = (if t = tk then Some m else snapshot_view ag t)" for t
    by (simp add: snapshot_view_def map_of_AList_update s(2))
  ultimately have "aggregator_ok ms pending ?ag"
    using ok s(3) by (auto simp: aggregator_ok_def distinct_AList_update map_of_AList_update)
  then show ?thesis using s(1) by (simp add: update_taxonomy_def)
qed

lemma update_all_ok:
  assumes ms: "memberships_ok ms"
  shows "aggregator_ok ms (set tks) ag \<Longrightarrow>
    (\<And>tk. tk \<in> set tks \<Longrightarrow> in_taxonomy ms tk key) \<Longrightarrow> map_of (ag_quotes ag) key \<noteq> None \<Longrightarrow>
    \<exists>ag'. rfold (update_taxonomy ms q) ag tks = Inr ag' \<and> aggregator_ok ms {} ag' \<and> ag_quotes ag' = ag_quotes ag"
proof (induction tks arbitrary: ag)
  case (Cons tk tks)
  have "aggregator_ok ms (insert tk (set tks)) ag" using Cons.prems(1) by simp
  from update_taxonomy_ok [OF ms this, of key q] Cons.prems(2,3) obtain ag' where
    "update_taxonomy ms q ag tk = Inr ag'" "aggregator_ok ms (set tks) ag'" "ag_quotes ag' = ag_quotes ag" by auto
  with Cons.IH [of ag'] Cons.prems(2,3) show ?case by auto
qed simp

section \<open>Ranking keeps the view\<close>

lemma ok_of_view:
  assumes "aggregator_ok ms P ag" and "ag_quotes ag' = ag_quotes ag" and "snapshot_view ag' = snapshot_view ag"
    and "distinct (map fst (ag_snapshots ag'))"
  shows "aggregator_ok ms P ag'"
proof -
  have "(ts_taxonomy_type s, ts_taxonomy_id s) = tk" if s: "map_of (ag_snapshots ag') tk = Some s" for tk s
  proof -
    have "snapshot_view ag tk = Some (measured s)" using s assms(3) by (metis option.simps(9) snapshot_view_def)
    then obtain t where t: "map_of (ag_snapshots ag) tk = Some t" "measured t = measured s"
      by (auto simp: snapshot_view_def)
    then have "(ts_taxonomy_type t, ts_taxonomy_id t) = tk" using assms(1) by (simp add: aggregator_ok_def)
    then show ?thesis using measured_key [OF t(2)] by simp
  qed
  then show ?thesis using assms by (simp add: aggregator_ok_def)
qed

lemma store_ranked_view:
  assumes "snapshot_view ag (ty, ts_taxonomy_id s) = Some (measured s)" and "distinct (map fst (ag_snapshots ag))"
  shows "snapshot_view (store_ranked ty ag s) = snapshot_view ag \<and> ag_quotes (store_ranked ty ag s) = ag_quotes ag \<and>
    distinct (map fst (ag_snapshots (store_ranked ty ag s)))"
  using assms by (auto simp: store_ranked_def snapshot_view_def map_of_AList_update distinct_AList_update)

lemma store_all_view:
  "(\<And>s. s \<in> set ss \<Longrightarrow> snapshot_view ag (ty, ts_taxonomy_id s) = Some (measured s)) \<Longrightarrow> distinct (map fst (ag_snapshots ag)) \<Longrightarrow>
   snapshot_view (foldl (store_ranked ty) ag ss) = snapshot_view ag \<and>
   ag_quotes (foldl (store_ranked ty) ag ss) = ag_quotes ag \<and> distinct (map fst (ag_snapshots (foldl (store_ranked ty) ag ss)))"
proof (induction ss arbitrary: ag)
  case (Cons s ss)
  note st = store_ranked_view [of ag ty s, OF _ Cons.prems(2)]
  have "snapshot_view ag (ty, ts_taxonomy_id s) = Some (measured s)" using Cons.prems(1) by simp
  from Cons.IH [of "store_ranked ty ag s"] st [OF this] Cons.prems(1) show ?case by simp
qed simp

lemma rank_type_ok:
  assumes ok: "aggregator_ok ms P ag"
  shows "\<exists>ag'. rank_type now ag ty = Inr ag' \<and> aggregator_ok ms P ag' \<and> ag_quotes ag' = ag_quotes ag"
proof -
  let ?ss = "map snd (filter (\<lambda>(k, s). fst k = ty) (ag_snapshots ag))"
  have dist: "distinct (map fst (ag_snapshots ag))" using ok by (simp add: aggregator_ok_def)
  obtain scored where r: "rt_score ?ss = Inr (rt_rank scored)"
    and all: "list_all2 (\<lambda>s t. measured t = measured s \<and> snapshot_scored 2 t) ?ss scored"
    using rt_score_ok [of 2 ?ss] by blast
  have view: "snapshot_view ag (ty, ts_taxonomy_id t) = Some (measured t)" if t: "t \<in> set (rt_rank scored)" for t
  proof -
    have "measured t \<in> measured ` set scored" using t rt_rank_members by blast
    then obtain t' where t': "t' \<in> set scored" "measured t' = measured t" by force
    obtain i where i: "i < length scored" "scored ! i = t'" using t'(1) by (metis in_set_conv_nth)
    have "length ?ss = length scored" using all by (rule list_all2_lengthD)
    then have "?ss ! i \<in> set ?ss" using i(1) by (simp only: nth_mem)
    moreover have "measured (?ss ! i) = measured t" using list_all2_nthD2 [OF all i(1)] i(2) t'(2) by simp
    ultimately obtain s where s: "s \<in> set ?ss" "measured s = measured t" by blast
    then obtain k where k: "(k, s) \<in> set (ag_snapshots ag)" "fst k = ty" by auto
    then have look: "map_of (ag_snapshots ag) k = Some s" using dist by simp
    then have "(ts_taxonomy_type s, ts_taxonomy_id s) = k" using ok by (simp add: aggregator_ok_def)
    then show ?thesis using measured_key [OF s(2)] k(2) look s(2) by (auto simp: snapshot_view_def)
  qed
  let ?ag = "foldl (store_ranked ty) ag (rt_rank scored)"
  note store = store_all_view [of "rt_rank scored" ag ty, OF view dist]
  have "\<exists>ag'. rank_type now ag ty = Inr ag' \<and> ag_quotes ag' = ag_quotes ?ag \<and> ag_snapshots ag' = ag_snapshots ?ag"
    by (simp add: rank_type_def r Let_def split: option.split)
  then obtain ag' where ag': "rank_type now ag ty = Inr ag'" "ag_quotes ag' = ag_quotes ?ag" "ag_snapshots ag' = ag_snapshots ?ag" by blast
  then have "snapshot_view ag' = snapshot_view ag" using store by (auto simp: snapshot_view_def fun_eq_iff)
  then have "aggregator_ok ms P ag'" using ok_of_view [OF ok] ag' store by simp
  then show ?thesis using ag' store by auto
qed

lemma rank_all_ok:
  "aggregator_ok ms P ag \<Longrightarrow> \<exists>ag'. rfold (rank_type now) ag tys = Inr ag' \<and> aggregator_ok ms P ag' \<and> ag_quotes ag' = ag_quotes ag"
proof (induction tys arbitrary: ag)
  case (Cons ty tys)
  from rank_type_ok [OF Cons.prems, of now ty] obtain ag' where
    "rank_type now ag ty = Inr ag'" "aggregator_ok ms P ag'" "ag_quotes ag' = ag_quotes ag" by blast
  with Cons.IH [of ag'] show ?case by auto
qed simp

section \<open>One quote\<close>

lemma affected_members: "memberships_ok ms \<Longrightarrow> tk \<in> set (affected_taxonomies ms q) \<longleftrightarrow> in_taxonomy ms tk (composite_key q)"
  by (auto simp: memberships_ok_def affected_taxonomies_def listed_under_def split: option.splits)

lemma accept_strength_ok:
  assumes ms: "memberships_ok ms" and ok: "aggregator_ok ms {} ag"
  shows "\<exists>ag'. accept_strength ms now q ag = Inr ag' \<and> aggregator_ok ms {} ag' \<and>
    ag_quotes ag' = AList.update (composite_key q) q (ag_quotes ag)"
proof -
  let ?book = "AList.update (composite_key q) q (ag_quotes ag)"
  obtain market where market: "market_accept ms (ag_quotes ag) q = (?book, market)"
    by (simp add: market_accept_def Let_def split_def)
  let ?mt = "ag_metrics ag"
  define start where "start = ag\<lparr>ag_quotes := ?book,
      ag_cached_markets := (ag_cached_markets ag)(mk_market_id market \<mapsto> market),
      ag_metrics := (if affected_taxonomies ms q = [] then ?mt\<lparr>mt_cache_misses := mt_cache_misses ?mt + 1\<rparr>
                     else ?mt\<lparr>mt_cache_hits := mt_cache_hits ?mt + 1\<rparr>)\<lparr>mt_market_updated := mt_market_updated ?mt + 1\<rparr>\<rparr>"
  have "up_to_date ms ?book tk (snapshot_view ag tk)" if "tk \<notin> set (affected_taxonomies ms q)" for tk
  proof -
    have "\<not> in_taxonomy ms tk (composite_key q)" using that affected_members [OF ms] by blast
    moreover have "up_to_date ms (ag_quotes ag) tk (snapshot_view ag tk)" using ok by (simp add: aggregator_ok_def)
    ultimately show ?thesis by (simp add: up_to_date_other)
  qed
  then have "aggregator_ok ms (set (affected_taxonomies ms q)) start"
    using ok by (simp add: aggregator_ok_def start_def keyed_book_update snapshot_view_def)
  from update_all_ok [OF ms this, of "composite_key q" q] affected_members [OF ms] obtain mid where
    mid: "rfold (update_taxonomy ms q) start (affected_taxonomies ms q) = Inr mid" "aggregator_ok ms {} mid" "ag_quotes mid = ?book"
    by (auto simp: start_def map_of_AList_update)
  from rank_all_ok [OF mid(2), of now "remdups (map fst (affected_taxonomies ms q))"] obtain ag' where
    "rfold (rank_type now) mid (remdups (map fst (affected_taxonomies ms q))) = Inr ag'" "aggregator_ok ms {} ag'" "ag_quotes ag' = ag_quotes mid"
    by blast
  moreover have "accept_strength ms now q ag = rbind (rfold (update_taxonomy ms q) start (affected_taxonomies ms q))
      (\<lambda>ag. rfold (rank_type now) ag (remdups (map fst (affected_taxonomies ms q))))"
    unfolding accept_strength_def market Let_def prod.case start_def by (rule refl)
  ultimately show ?thesis using mid by simp
qed

definition feed_strength :: "memberships \<Rightarrow> (rat \<times> realtime_quote) list \<Rightarrow> aggregator \<Rightarrow> aggregator result" where
  "feed_strength ms events ag = rfold (\<lambda>ag (now, q). accept_strength ms now q ag) ag events"

lemma feed_strength_ok:
  assumes ms: "memberships_ok ms"
  shows "aggregator_ok ms {} ag \<Longrightarrow> \<exists>ag'. feed_strength ms events ag = Inr ag' \<and> aggregator_ok ms {} ag' \<and>
    ag_quotes ag' = foldl (\<lambda>book q. AList.update (composite_key q) q book) (ag_quotes ag) (map snd events)"
proof (induction events arbitrary: ag)
  case (Cons e events)
  obtain now q where e: "e = (now, q)" by (cases e)
  from accept_strength_ok [OF ms Cons.prems, of now q] obtain ag' where
    "accept_strength ms now q ag = Inr ag'" "aggregator_ok ms {} ag'" "ag_quotes ag' = AList.update (composite_key q) q (ag_quotes ag)" by blast
  with Cons.IH [of ag'] e show ?case by (auto simp: feed_strength_def)
qed (simp add: feed_strength_def)

text \<open>
  C25. The aggregator, kept up to date quote by quote, refines the recomputation from scratch: fed
  with any quotes, over any loaded memberships, it never raises, and it holds a snapshot of
  exactly the taxonomies with a quoted member. The snapshot of a taxonomy is the aggregation
  over the newest quote of each member, whatever quote triggers it.
\<close>

lemma incremental_equals_recomputed:
  assumes loaded: "ms = load_realtime_memberships securities industries themes"
  shows "\<exists>ag. feed_strength ms events new_aggregator = Inr ag \<and>
    (\<forall>tk. case map_of (ag_snapshots ag) tk of
       None \<Rightarrow> \<forall>key. in_taxonomy ms tk key \<longrightarrow> map_of (book_of (map snd events)) key = None
     | Some s \<Rightarrow> (\<exists>key. in_taxonomy ms tk key \<and> map_of (book_of (map snd events)) key \<noteq> None) \<and>
         (\<forall>trigger. \<exists>t. aggregate_taxonomy ms (book_of (map snd events)) tk trigger = Inr t \<and> measured t = measured s))"
proof -
  have ms: "memberships_ok ms" unfolding loaded by (rule loaded_memberships_ok)
  have "aggregator_ok ms {} new_aggregator"
    by (simp add: aggregator_ok_def new_aggregator_def keyed_book_def snapshot_view_def up_to_date_def)
  from feed_strength_ok [OF ms this, of events] obtain ag where
    ag: "feed_strength ms events new_aggregator = Inr ag" "aggregator_ok ms {} ag" "ag_quotes ag = book_of (map snd events)"
    by (auto simp: new_aggregator_def book_of_def)
  have "up_to_date ms (book_of (map snd events)) tk (map_option measured (map_of (ag_snapshots ag) tk))" for tk
    using ag(2,3) by (simp add: aggregator_ok_def snapshot_view_def)
  note fresh = this [unfolded up_to_date_def]
  show ?thesis
  proof (intro exI conjI allI)
    show "feed_strength ms events new_aggregator = Inr ag" by (rule ag(1))
    fix tk
    show "case map_of (ag_snapshots ag) tk of
       None \<Rightarrow> \<forall>key. in_taxonomy ms tk key \<longrightarrow> map_of (book_of (map snd events)) key = None
     | Some s \<Rightarrow> (\<exists>key. in_taxonomy ms tk key \<and> map_of (book_of (map snd events)) key \<noteq> None) \<and>
         (\<forall>trigger. \<exists>t. aggregate_taxonomy ms (book_of (map snd events)) tk trigger = Inr t \<and> measured t = measured s)"
      using fresh [of tk] by (cases "map_of (ag_snapshots ag) tk") simp_all
  qed
qed


section \<open>What the ranking shows\<close>

text \<open>
  Scoring any snapshots succeeds. Every snapshot keeps its measurements; it has a score
  exactly when the weights of its available components reach 60 hundredths, and then between 0
  and 100. The rank of a scored snapshot is its place in the order of the ranking.
\<close>

lemma realtime_score_bounded:
  assumes small: "length ss < 10 ^ 28"
  shows "\<exists>rs. rt_score ss = Inr rs \<and> length rs = length ss \<and> measured ` set rs = measured ` set ss \<and>
    (\<forall>s \<in> set rs. snapshot_scored 1 s) \<and>
    (\<forall>i < length rs. ts_rank (rs ! i) = (if ts_strength_score (rs ! i) = None then None else Some (i + 1))) \<and>
    (\<forall>j < length rs. \<forall>i < j. rt_ranking_key (rs ! i) \<le> rt_ranking_key (rs ! j))"
proof -
  obtain scored where r: "rt_score ss = Inr (rt_rank scored)"
    and all: "list_all2 (\<lambda>s t. measured t = measured s \<and> snapshot_scored 1 t) ss scored"
    using rt_score_ok [of 1 ss] small by blast
  have len: "length scored = length ss" using list_all2_lengthD [OF all] by simp
  have nth: "rt_rank scored ! i = (sort_key rt_ranking_key scored ! i)\<lparr>ts_rank :=
      if ts_strength_score (sort_key rt_ranking_key scored ! i) = None then None else Some (Suc i)\<rparr>" if "i < length scored" for i
    using that by (simp add: rt_rank_def nth_enumerate_eq)
  have rank_len: "length (rt_rank scored) = length scored" by (simp add: rt_rank_def)
  have each: "\<forall>t \<in> set scored. snapshot_scored 1 t"
    using all by (induction rule: list_all2_induct) simp_all
  have "snapshot_scored 1 s" if s: "s \<in> set (rt_rank scored)" for s
  proof -
    obtain i where i: "i < length scored" "s = rt_rank scored ! i" using s rank_len by (auto simp: in_set_conv_nth)
    have "sort_key rt_ranking_key scored ! i \<in> set (sort_key rt_ranking_key scored)" using i(1) by (intro nth_mem) simp
    then have "snapshot_scored 1 (sort_key rt_ranking_key scored ! i)" using each by simp
    then show ?thesis by (simp add: i nth)
  qed
  moreover have "measured ` set (rt_rank scored) = measured ` set ss"
  proof -
    have "map measured scored = map measured ss"
      by (rule nth_equalityI) (use len list_all2_nthD2 [OF all] in auto)
    then have "measured ` set scored = measured ` set ss" by (metis list.set_map)
    then show ?thesis by (simp add: rt_rank_members)
  qed
  moreover have key: "rt_ranking_key (rt_rank scored ! i) = rt_ranking_key (sort_key rt_ranking_key scored ! i)" if "i < length scored" for i
    using that by (simp add: nth rt_ranking_key_def)
  have "rt_ranking_key (rt_rank scored ! i) \<le> rt_ranking_key (rt_rank scored ! j)" if "i < j" "j < length scored" for i j
    using sorted_sort_key [of rt_ranking_key scored] that key by (auto simp: sorted_iff_nth_mono_less)
  ultimately show ?thesis using r len rank_len nth by auto
qed

lemma percentiles_Nil: "percentiles [] = Inr []"
  by (simp add: percentiles_def)

lemma aggregate_inputs:
  "aggregate_taxonomy ms book tk q = Inr s \<Longrightarrow> rt_technical s = None \<and> ts_turnover_share s = None"
  by (auto simp: aggregate_taxonomy_def Let_def rbind_eq_Inr rt_technical_def split: option.splits)

lemma two_components_coverage:
  assumes none: "vals Rt_technical = None" "vals Rt_turnover = None" and w: "weigh vals = Inr (a, score)"
  shows "a \<le> 65 / 100"
proof -
  let ?p = "filter (\<lambda>c. vals c \<noteq> None) rt_components_in_order"
  have "a = dsum prec (map rt_weight ?p)"
    using w by (auto simp: weigh_def Let_def rbind_eq_Inr split: if_splits)
  then have "a = of_int (sum_list (map hundredths_of ?p)) / 100"
    using weights_exact [OF present_components] by simp
  moreover have "sum_list (map hundredths_of ?p) \<le> 65" by (simp add: rt_components_in_order_def none)
  then have "rat_of_int (sum_list (map hundredths_of ?p)) \<le> 65" by (metis of_int_le_iff of_int_numeral)
  ultimately show ?thesis by simp
qed

text \<open>
  The aggregation never fills the inputs of the technical and the turnover component, so a
  realtime score rests on momentum and breadth alone and its coverage never exceeds 0.65.
\<close>

lemma realtime_score_is_momentum_and_breadth:
  assumes agg: "\<forall>s \<in> set ss. \<exists>ms book tk q. aggregate_taxonomy ms book tk q = Inr s"
  shows "\<exists>rs. rt_score ss = Inr rs \<and>
    (\<forall>s \<in> set rs. rc_technical (ts_components s) = None \<and> rc_turnover (ts_components s) = None \<and>
       ts_component_coverage s \<le> 65 / 100)"
proof -
  obtain rs where r: "rt_score ss = Inr rs" using rt_score_ok [of 2 ss] by blast
  have none: "raw_values c ss = []" if c: "c = Rt_technical \<or> c = Rt_turnover" for c
  proof -
    have raw: "\<forall>s \<in> set ss. rt_raw c s = None"
      using aggregate_inputs agg c by (auto simp: rt_raw_def)
    have "\<forall>s \<in> set xs. rt_raw c s = None \<Longrightarrow>
        foldl (\<lambda>d s. case rt_raw c s of None \<Rightarrow> d | Some v \<Rightarrow> AList.update (ts_taxonomy_id s) v d) d xs = d" for xs d
      by (induction xs) simp_all
    from this [OF raw] show ?thesis by (simp add: raw_values_def)
  qed
  obtain a b scored where run: "rmap (score_snapshot (case_rt_component a b [] [])) ss = Inr scored" and rs: "rs = rt_rank scored"
    using r by (auto simp: rt_score_def none percentiles_Nil rbind_eq_Inr)
  have one: "rc_technical (ts_components t) = None \<and> rc_turnover (ts_components t) = None \<and> ts_component_coverage t \<le> 65 / 100"
    if "t \<in> set scored" for t
  proof -
    from rmap_mem [OF run that] obtain s where s: "score_snapshot (case_rt_component a b [] []) s = Inr t" by blast
    let ?vals = "\<lambda>c. map_of (case_rt_component a b [] [] c) (ts_taxonomy_id s)"
    from s obtain w score where w: "weigh ?vals = Inr (w, score)" "ts_component_coverage t = w"
      "rc_technical (ts_components t) = ?vals Rt_technical" "rc_turnover (ts_components t) = ?vals Rt_turnover"
      by (auto simp: score_snapshot_def Let_def rbind_eq_Inr)
    then show ?thesis using two_components_coverage [OF _ _ w(1)] by simp
  qed
  have "\<exists>t \<in> set scored. \<exists>k. s = t\<lparr>ts_rank := k\<rparr>" if "s \<in> set rs" for s
  proof -
    from that rs obtain i where "i < length scored" "s = rt_rank scored ! i"
      by (auto simp: in_set_conv_nth rt_rank_def)
    moreover from this have "sort_key rt_ranking_key scored ! i \<in> set scored" by (metis length_sort nth_mem set_sort)
    ultimately show ?thesis by (auto simp: rt_rank_def nth_enumerate_eq)
  qed
  then have "\<forall>s \<in> set rs. rc_technical (ts_components s) = None \<and> rc_turnover (ts_components s) = None \<and>
      ts_component_coverage s \<le> 65 / 100" using one by fastforce
  with r show ?thesis by blast
qed

section \<open>Market breadth\<close>

lemma safe_ratio_unit: "a \<le> b \<Longrightarrow> 0 \<le> safe_ratio a b \<and> safe_ratio a b \<le> 1"
proof -
  assume ab: "a \<le> b"
  show ?thesis
  proof (cases "b = 0")
    case False
    then have "(of_nat a :: rat) / of_nat b \<le> 1" using ab by (simp add: divide_le_eq)
    then show ?thesis using False dprec_le [of "of_nat a / of_nat b" 1] by (simp add: safe_ratio_def dprec_ge0)
  qed (simp add: safe_ratio_def)
qed

lemma disjoint_filters:
  "(\<And>x. \<not> (P x \<and> Q x)) \<Longrightarrow> length (filter P xs) + length (filter Q xs) \<le> length xs"
  by (induction xs) (auto simp: le_Suc_eq intro: le_SucI)

lemma map_filter_le: "length (List.map_filter f xs) \<le> length xs"
  by (simp add: List.map_filter_def)

text \<open>
  A market snapshot accounts for its members: advancers, decliners and unchanged ones are the
  valid ones, which are quoted members; live, stale and unavailable ones are counted among
  the members; every ratio lies between 0 and 1.
\<close>

lemma market_snapshot_accounts:
  assumes m: "market_accept ms book q = (book', m)"
  shows "int (mk_advancers m) + int (mk_decliners m) + mk_unchanged m = int (mk_valid_members m) \<and> 0 \<le> mk_unchanged m \<and>
    mk_valid_members m \<le> mk_quoted_members m \<and> mk_live_count m + mk_stale_count m \<le> mk_quoted_members m \<and>
    int (mk_quoted_members m) + mk_unavailable_count m = int (mk_total_members m) \<and> 0 \<le> mk_unavailable_count m \<and>
    (\<forall>f \<in> {mk_coverage_ratio, mk_advance_ratio, mk_decline_ratio}. 0 \<le> f m \<and> f m \<le> 1)"
proof -
  obtain members qs where mq: "market_quotes ms (AList.update (composite_key q) q book) (rq_market_id q) = (members, qs)"
    by (cases "market_quotes ms (AList.update (composite_key q) q book) (rq_market_id q)")
  define valid where "valid = filter (\<lambda>x. rq_previous_close x \<noteq> None) qs"
  let ?adv = "length (filter (\<lambda>x. the (rq_previous_close x) < rq_last_price x) valid)"
  let ?dec = "length (filter (\<lambda>x. rq_last_price x < the (rq_previous_close x)) valid)"
  have fields: "mk_advancers m = ?adv" "mk_decliners m = ?dec" "mk_unchanged m = int (length valid) - int ?adv - int ?dec"
    "mk_valid_members m = length valid" "mk_quoted_members m = length qs" "mk_total_members m = length members"
    "mk_unavailable_count m = int (length members) - int (length qs)"
    "mk_live_count m = length (filter (\<lambda>x. rq_data_status x = RtLive) qs)"
    "mk_stale_count m = length (filter (\<lambda>x. rq_data_status x \<in> {RtStale, RtDelayed}) qs)"
    "mk_coverage_ratio m = safe_ratio (length valid) (length members)"
    "mk_advance_ratio m = safe_ratio ?adv (length valid)" "mk_decline_ratio m = safe_ratio ?dec (length valid)"
    using m by (auto simp: market_accept_def mq Let_def valid_def)
  have "length qs \<le> length members"
    using mq map_filter_le by (auto simp: market_quotes_def Let_def)
  moreover have "length valid \<le> length qs" by (simp add: valid_def)
  moreover have "?adv + ?dec \<le> length valid" by (rule disjoint_filters) auto
  moreover have "length (filter (\<lambda>x. rq_data_status x = RtLive) qs) +
      length (filter (\<lambda>x. rq_data_status x \<in> {RtStale, RtDelayed}) qs) \<le> length qs" by (rule disjoint_filters) auto
  ultimately show ?thesis using safe_ratio_unit by (simp add: fields)
qed


section \<open>Concrete instances\<close>

definition one_member :: memberships where
  "one_member =
     load_realtime_memberships
       [\<lparr>me_security_id = ''a'', me_market = ''twse'', me_code = ''2330'', me_name = ''TSMC''\<rparr>]
       [\<lparr>lk_security_id = ''a'', lk_taxonomy_id = ''24'', lk_code = ''24'', lk_name = ''chips''\<rparr>,
        \<lparr>lk_security_id = ''b'', lk_taxonomy_id = ''24'', lk_code = ''24'', lk_name = ''chips''\<rparr>] []"

lemma upper_values: "upper ''twse'' = ''TWSE''" "upper ''TWSE'' = ''TWSE''" "upper ''2330'' = ''2330''"
  by code_simp+

lemma tsmc_key: "composite_key (example_quote n t p v) = ''TWSE:2330''"
  by (simp add: composite_key_def security_text_def example_quote_def upper_values)

lemma one_member_taxonomy: "in_taxonomy one_member (INDUSTRY, ''24'') ''TWSE:2330''"
  by (simp add: one_member_def load_realtime_memberships_def load_member_def load_link_def member_key_def
      security_text_def upper_values Let_def in_taxonomy_def)

lemma incremental_witness:
  "\<exists>ag s. feed_strength one_member [(1, example_quote (Some 1) 10 99 1), (2, example_quote (Some 2) 11 101 1)] new_aggregator = Inr ag \<and>
     map_of (ag_snapshots ag) (INDUSTRY, ''24'') = Some s \<and>
     (\<exists>t. aggregate_taxonomy one_member (book_of [example_quote (Some 1) 10 99 1, example_quote (Some 2) 11 101 1])
        (INDUSTRY, ''24'') (example_quote (Some 2) 11 101 1) = Inr t \<and> measured t = measured s)"
proof -
  let ?events = "[(1 :: rat, example_quote (Some 1) 10 99 1), (2, example_quote (Some 2) 11 101 1)]"
  obtain ag where ag: "feed_strength one_member ?events new_aggregator = Inr ag"
    and fresh: "\<And>tk. case map_of (ag_snapshots ag) tk of
       None \<Rightarrow> \<forall>key. in_taxonomy one_member tk key \<longrightarrow> map_of (book_of (map snd ?events)) key = None
     | Some s \<Rightarrow> (\<exists>key. in_taxonomy one_member tk key \<and> map_of (book_of (map snd ?events)) key \<noteq> None) \<and>
         (\<forall>trigger. \<exists>t. aggregate_taxonomy one_member (book_of (map snd ?events)) tk trigger = Inr t \<and> measured t = measured s)"
    using incremental_equals_recomputed [OF one_member_def, of ?events] by blast
  have "map_of (book_of (map snd ?events)) ''TWSE:2330'' \<noteq> None"
    by (simp add: book_of_def tsmc_key)
  then obtain s where "map_of (ag_snapshots ag) (INDUSTRY, ''24'') = Some s"
    using fresh [of "(INDUSTRY, ''24'')"] one_member_taxonomy by (cases "map_of (ag_snapshots ag) (INDUSTRY, ''24'')") auto
  with ag fresh [of "(INDUSTRY, ''24'')"] show ?thesis by auto
qed

lemma percentiles_fair_witness:
  "\<exists>d s. percentiles [(''a'', 5), (''b'', 3), (''c'', 5)] = Inr d \<and> map_of d ''a'' = Some s \<and> map_of d ''c'' = Some s"
proof -
  let ?vs = "[(''a'', 5 :: decimal), (''b'', 3), (''c'', 5)]"
  have "distinct (map fst ?vs)" and "length ?vs < 10 ^ 28" by simp_all
  from percentiles_fair [OF this] obtain d where d: "percentiles ?vs = Inr d"
    and fair: "\<And>k v k' v'. (k, v) \<in> set ?vs \<and> (k', v') \<in> set ?vs \<and> v \<le> v' \<Longrightarrow>
      \<exists>s s'. map_of d k = Some s \<and> map_of d k' = Some s' \<and> 0 \<le> s \<and> s \<le> s' \<and> s' \<le> 100" by blast
  have "(''a'', 5) \<in> set ?vs \<and> (''c'', 5) \<in> set ?vs \<and> (5 :: decimal) \<le> 5"
    and "(''c'', 5) \<in> set ?vs \<and> (''a'', 5) \<in> set ?vs \<and> (5 :: decimal) \<le> 5" by simp_all
  from fair [OF this(1)] fair [OF this(2)] d show ?thesis by auto
qed

lemma momentum_and_breadth_witness:
  "\<exists>s rs. aggregate_taxonomy one_member (book_of [example_quote (Some 1) 10 99 1]) (INDUSTRY, ''24'') (example_quote (Some 1) 10 99 1) = Inr s \<and>
     rt_score [s] = Inr rs \<and> (\<forall>s \<in> set rs. rc_technical (ts_components s) = None \<and> ts_component_coverage s \<le> 65 / 100)"
proof -
  have "memberships_ok one_member" unfolding one_member_def by (rule loaded_memberships_ok)
  moreover have "keyed_book (book_of [example_quote (Some 1) 10 99 1])"
    by (simp add: book_of_def keyed_book_def)
  ultimately obtain s where s: "aggregate_taxonomy one_member (book_of [example_quote (Some 1) 10 99 1]) (INDUSTRY, ''24'') (example_quote (Some 1) 10 99 1) = Inr s"
    using aggregate_total one_member_taxonomy by meson
  then have "\<forall>s' \<in> set [s]. \<exists>ms book tk q. aggregate_taxonomy ms book tk q = Inr s'" by auto
  from realtime_score_is_momentum_and_breadth [OF this] s show ?thesis by blast
qed

end
