(* ===== verification/IndustryStrength.thy ===== *)
theory IndustryStrength
  imports PyQuantize MarketTypes "HOL-Library.Multiset"
begin

text \<open>
  The daily strength of industries and themes, scored across one cross-section
  (\<open>app/services/industry_strength_scoring.py\<close>, \<open>app/domain/industry_strength.py\<close>): percentile
  scores per component, the weighted strength score with its coverage threshold, and the
  ranking. Keys are the UUIDs of the taxonomies, whose \<open>str\<close> orders as the number does.
  A raw metric is the dictionary the calculation passes to \<open>score_group\<close>; the entries that
  \<open>score_group\<close> tests against \<open>None\<close> are options.
\<close>

section \<open>Raw metrics and scored items\<close>

datatype taxonomy_type = OFFICIAL | CUSTOM

record raw_metric =
  rm_taxonomy_id :: uuid
  rm_taxonomy_code :: string
  rm_taxonomy_name :: string
  rm_taxonomy_type :: taxonomy_type
  rm_trade_date :: date
  rm_window :: nat
  rm_equal_weight_return :: "decimal option"
  rm_market_cap_weighted_return :: "decimal option"
  rm_total_members :: nat
  rm_valid_members :: nat
  rm_coverage_ratio :: decimal
  rm_advancers :: nat
  rm_decliners :: nat
  rm_unchanged :: nat
  rm_advance_ratio :: "decimal option"
  rm_above_ma20_pct :: "decimal option"
  rm_above_ma60_pct :: "decimal option"
  rm_foreign_net_amount :: "decimal option"
  rm_investment_trust_net_amount :: "decimal option"
  rm_dealer_net_amount :: "decimal option"
  rm_margin_balance_change :: int
  rm_short_balance_change :: int
  rm_lending_balance_change :: "decimal option"
  rm_turnover_amount :: "decimal option"
  rm_turnover_share :: "decimal option"
  rm_turnover_momentum :: "decimal option"
  rm_data_status :: data_status
  rm_as_of :: instant

record strength_components =
  momentum_score :: "decimal option"
  breadth_score :: "decimal option"
  technical_score :: "decimal option"
  institutional_score :: "decimal option"
  turnover_score :: "decimal option"

record scored_item =
  si_metric :: raw_metric
  si_components :: strength_components
  si_strength_score :: "decimal option"
  si_component_coverage :: decimal
  si_rank :: "nat option"

datatype component = Momentum | Breadth | Technical | Institutional | Turnover

text \<open>\<open>component_scores.get(comp_name)\<close>\<close>

fun component_score :: "strength_components \<Rightarrow> component \<Rightarrow> decimal option" where
  "component_score cs Momentum = momentum_score cs"
| "component_score cs Breadth = breadth_score cs"
| "component_score cs Technical = technical_score cs"
| "component_score cs Institutional = institutional_score cs"
| "component_score cs Turnover = turnover_score cs"

definition default_weights :: "(component \<times> decimal) list" where
  "default_weights =
     [(Momentum, 30 / 100), (Breadth, 25 / 100), (Technical, 20 / 100), (Institutional, 15 / 100),
      (Turnover, 10 / 100)]"

definition min_component_coverage :: decimal where
  "min_component_coverage = 60 / 100"

section \<open>Percentile scores\<close>

definition percentile :: "nat \<Rightarrow> nat \<Rightarrow> decimal result" where
  "percentile n idx =
     rbind (ddiv prec (of_nat idx) (of_nat (n - 1))) (\<lambda>q. quantize round_half_up 2 (dmul prec q 100))"

text \<open>\<open>sorted(raw_values, key=lambda x: (x[1], str(x[0])))\<close>\<close>

definition by_value :: "(uuid \<times> decimal) list \<Rightarrow> (uuid \<times> decimal) list" where
  "by_value raw = sort_key (\<lambda>(k, v). (v, k)) raw"

definition calculate_percentile_scores :: "(uuid \<times> decimal) list \<Rightarrow> (uuid \<times> decimal) list result" where
  "calculate_percentile_scores raw =
     (if raw = [] then Inr []
      else if length raw = 1 then Inr [(fst (hd raw), 50)]
      else rfold (\<lambda>scores (idx, (k, v)).
             rbind (percentile (length raw) idx) (\<lambda>s. Inr (AList.update k s scores)))
           [] (enumerate 0 (by_value raw)))"

section \<open>Scoring a cross-section\<close>

definition optional_raw :: "(raw_metric \<Rightarrow> decimal option) \<Rightarrow> raw_metric list \<Rightarrow> (uuid \<times> decimal) list" where
  "optional_raw f items =
     List.map_filter (\<lambda>it. map_option (\<lambda>v. (rm_taxonomy_id it, v)) (f it)) items"

text \<open>\<open>(m20 + m60) / Decimal("2")\<close> where both are present\<close>

definition technical_raw :: "raw_metric \<Rightarrow> decimal option" where
  "technical_raw it =
     (case (rm_above_ma20_pct it, rm_above_ma60_pct it) of
        (Some a, Some b) \<Rightarrow> Some (dround prec (dadd prec a b / 2))
      | _ \<Rightarrow> None)"

definition or_zero :: "decimal option \<Rightarrow> decimal" where
  "or_zero v = (case v of None \<Rightarrow> 0 | Some x \<Rightarrow> x)"

definition institutional_raw :: "raw_metric \<Rightarrow> decimal" where
  "institutional_raw it =
     dadd prec (dadd prec (or_zero (rm_foreign_net_amount it)) (or_zero (rm_investment_trust_net_amount it)))
       (or_zero (rm_dealer_net_amount it))"

text \<open>The loop over the weights: the available weight and the weighted sum.\<close>

definition add_component ::
    "strength_components \<Rightarrow> decimal \<times> decimal \<Rightarrow> component \<times> decimal \<Rightarrow> decimal \<times> decimal" where
  "add_component cs acc cw =
     (case component_score cs (fst cw) of
        None \<Rightarrow> acc
      | Some v \<Rightarrow> (dadd prec (fst acc) (snd cw), dadd prec (snd acc) (dmul prec v (snd cw))))"

definition final_score ::
    "(component \<times> decimal) list \<Rightarrow> strength_components \<Rightarrow> (decimal \<times> decimal option) result" where
  "final_score weights cs =
     (let (avail, wsum) = foldl (add_component cs) (0, 0) weights in
      rbind (quantize round_half_up 4 avail) (\<lambda>coverage.
      if min_component_coverage \<le> coverage \<and> 0 < avail
      then rbind (ddiv prec wsum avail) (\<lambda>q.
           rbind (quantize round_half_up 2 q) (\<lambda>s. Inr (coverage, Some s)))
      else Inr (coverage, None)))"

definition components_of :: "(component \<Rightarrow> (uuid \<times> decimal) list) \<Rightarrow> raw_metric \<Rightarrow> strength_components" where
  "components_of pcts it =
     \<lparr>momentum_score = map_of (pcts Momentum) (rm_taxonomy_id it),
      breadth_score = map_of (pcts Breadth) (rm_taxonomy_id it),
      technical_score = map_of (pcts Technical) (rm_taxonomy_id it),
      institutional_score = map_of (pcts Institutional) (rm_taxonomy_id it),
      turnover_score = map_of (pcts Turnover) (rm_taxonomy_id it)\<rparr>"

definition score_item ::
    "(component \<times> decimal) list \<Rightarrow> (component \<Rightarrow> (uuid \<times> decimal) list) \<Rightarrow> raw_metric \<Rightarrow> scored_item result" where
  "score_item weights pcts it =
     rbind (final_score weights (components_of pcts it)) (\<lambda>(coverage, score).
       Inr \<lparr>si_metric = it, si_components = components_of pcts it, si_strength_score = score,
            si_component_coverage = coverage, si_rank = None\<rparr>)"

text \<open>The sort key of the ranking; a missing score or return counts as \<open>-9999\<close>.\<close>

definition or_least :: "decimal option \<Rightarrow> decimal" where
  "or_least v = (case v of None \<Rightarrow> - 9999 | Some x \<Rightarrow> x)"

definition ranking_key :: "scored_item \<Rightarrow> bool \<times> decimal \<times> decimal \<times> string \<times> uuid" where
  "ranking_key r =
     (si_strength_score r = None, dneg prec (or_least (si_strength_score r)),
      dneg prec (or_least (rm_equal_weight_return (si_metric r))),
      rm_taxonomy_code (si_metric r), rm_taxonomy_id (si_metric r))"

definition rank_results :: "scored_item list \<Rightarrow> scored_item list" where
  "rank_results results =
     map (\<lambda>(idx, r). r\<lparr>si_rank := if si_strength_score r = None then None else Some idx\<rparr>)
       (enumerate 1 (sort_key ranking_key results))"

definition score_group :: "(component \<times> decimal) list \<Rightarrow> raw_metric list \<Rightarrow> scored_item list result" where
  "score_group weights items =
     (if items = [] then Inr []
      else
        rbind (calculate_percentile_scores (optional_raw rm_equal_weight_return items)) (\<lambda>momentum.
        rbind (calculate_percentile_scores (optional_raw rm_advance_ratio items)) (\<lambda>breadth.
        rbind (calculate_percentile_scores (optional_raw technical_raw items)) (\<lambda>tech.
        rbind (calculate_percentile_scores (map (\<lambda>it. (rm_taxonomy_id it, institutional_raw it)) items)) (\<lambda>inst.
        rbind (calculate_percentile_scores (optional_raw rm_turnover_momentum items)) (\<lambda>turnover.
        let pcts = (\<lambda>c. case c of Momentum \<Rightarrow> momentum | Breadth \<Rightarrow> breadth | Technical \<Rightarrow> tech
                      | Institutional \<Rightarrow> inst | Turnover \<Rightarrow> turnover) in
        rbind (rmap (score_item weights pcts) items) (\<lambda>results. Inr (rank_results results))))))))"

section \<open>Percentiles\<close>

lemma quantized_exact: "quantize r k x = Inr y \<Longrightarrow> dround prec y = y"
  by (auto simp: quantize_def Let_def prec_def intro: dround_places [unfolded prec_def] split: if_splits)

lemma dprec_upper: "x \<le> of_int n \<Longrightarrow> \<bar>n\<bar> < 10 ^ 28 \<Longrightarrow> dround prec x \<le> of_int n"
  using d28.rnd_mono [of x "of_int n"] d28.rnd_of_int [of n] by (simp add: prec_def)

lemma dprec_nonneg: "0 \<le> x \<Longrightarrow> 0 \<le> dround prec x"
  by (simp add: prec_def d28.rnd_nonneg)

lemma dprec_mono: "x \<le> y \<Longrightarrow> dround prec x \<le> dround prec y"
  by (simp add: prec_def d28.rnd_mono)

definition share :: "nat \<Rightarrow> nat \<Rightarrow> decimal" where
  "share n idx = dround prec (dround prec (of_nat idx / of_nat (n - 1)) * 100)"

lemma percentile_share: "2 \<le> n \<Longrightarrow> percentile n idx = quantize round_half_up 2 (share n idx)"
  by (simp add: percentile_def share_def ddiv_def dmul_def)

lemma share_range:
  assumes "idx < n" and "2 \<le> n"
  shows "0 \<le> share n idx \<and> share n idx \<le> 100"
proof -
  have "(of_nat idx :: rat) / of_nat (n - 1) \<le> 1" using assms by (simp add: divide_le_eq flip: of_nat_le_iff)
  then have "dround prec (of_nat idx / of_nat (n - 1)) \<le> 1" using dprec_upper [of _ 1] by simp
  then show ?thesis unfolding share_def
    using dprec_upper [of _ 100] dprec_nonneg by simp
qed

lemma share_mono: "i \<le> j \<Longrightarrow> share n i \<le> share n j"
  unfolding share_def by (intro dprec_mono mult_right_mono divide_right_mono) simp_all

lemma percentile_range:
  assumes "idx < n" and "2 \<le> n"
  shows "\<exists>s. percentile n idx = Inr s \<and> 0 \<le> s \<and> s \<le> 100"
  using half_up.quantize_range [of 0 "share n idx" 100 2] share_range [OF assms] assms(2)
  by (auto simp: percentile_share)

lemma percentile_mono:
  "percentile n i = Inr s \<Longrightarrow> percentile n j = Inr t \<Longrightarrow> i \<le> j \<Longrightarrow> 2 \<le> n \<Longrightarrow> s \<le> t"
  using half_up.quantize_mono share_mono by (metis percentile_share)


lemma percentile_first: "2 \<le> n \<Longrightarrow> percentile n 0 = Inr 0"
  using half_up.quantize_of_places [of 0 2] by (simp add: percentile_share share_def prec_def)

lemma percentile_last: "2 \<le> n \<Longrightarrow> percentile n (n - 1) = Inr 100"
  using half_up.quantize_of_places [of 10000 2] by (simp add: percentile_share share_def prec_def)

text \<open>The loop over the sorted values: each fresh key gets the percentile of its position.\<close>

lemma percentile_loop:
  assumes "distinct (map fst xs)" and "set (map fst d) \<inter> set (map fst xs) = {}"
    and "i + length xs \<le> n" and "2 \<le> n"
  shows "\<exists>ss. rfold (\<lambda>scores (idx, (k, v)). rbind (percentile n idx) (\<lambda>s. Inr (AList.update k s scores)))
            d (enumerate i xs) = Inr (d @ zip (map fst xs) ss) \<and> length ss = length xs \<and>
          (\<forall>j < length xs. percentile n (i + j) = Inr (ss ! j))"
  using assms
proof (induction xs arbitrary: i d)
  case (Cons x xs)
  obtain k v where x: "x = (k, v)" by (cases x)
  obtain s where s: "percentile n i = Inr s" using percentile_range [of i n] Cons.prems by auto
  have fresh: "AList.update k s d = d @ [(k, s)]"
    using Cons.prems(2) x by (induction d) auto
  obtain ss where ss: "rfold (\<lambda>scores (idx, (k, v)). rbind (percentile n idx) (\<lambda>s. Inr (AList.update k s scores)))
            (d @ [(k, s)]) (enumerate (Suc i) xs) = Inr ((d @ [(k, s)]) @ zip (map fst xs) ss)"
    and len: "length ss = length xs" and all: "\<forall>j < length xs. percentile n (Suc i + j) = Inr (ss ! j)"
    using Cons.IH [of "d @ [(k, s)]" "Suc i"] Cons.prems x by auto
  have "\<forall>j < length (x # xs). percentile n (i + j) = Inr ((s # ss) ! j)"
    using all s by (auto simp: nth_Cons split: nat.splits)
  then show ?case using ss len s fresh x by (intro exI [of _ "s # ss"]) simp
qed simp

lemma by_value_mset: "mset (by_value raw) = mset raw"
  by (simp add: by_value_def)

lemma by_value_keys: "distinct (map fst raw) \<Longrightarrow> distinct (map fst (by_value raw))"
  by (metis by_value_mset mset_eq_imp_distinct_iff mset_map)

lemma percentile_scores_positions:
  assumes keys: "distinct (map fst raw)" and many: "2 \<le> length raw"
  shows "\<exists>ss. calculate_percentile_scores raw = Inr (zip (map fst (by_value raw)) ss) \<and>
           length ss = length raw \<and> (\<forall>j < length raw. percentile (length raw) j = Inr (ss ! j))"
proof -
  have len: "length (by_value raw) = length raw" by (simp add: by_value_def)
  have "raw \<noteq> []" and "length raw \<noteq> 1" using many by auto
  then show ?thesis
    using percentile_loop [OF by_value_keys [OF keys], of "[]" 0 "length raw"] many len
    by (simp add: calculate_percentile_scores_def)
qed

text \<open>Whatever the keys, the scores exist and lie between 0 and 100.\<close>

definition scores_ok :: "(uuid \<times> decimal) list \<Rightarrow> bool" where
  "scores_ok d \<longleftrightarrow> (\<forall>s \<in> snd ` set d. 0 \<le> s \<and> s \<le> 100)"

lemma scores_ok_update: "scores_ok d \<Longrightarrow> 0 \<le> s \<Longrightarrow> s \<le> 100 \<Longrightarrow> scores_ok (AList.update k s d)"
  unfolding scores_ok_def by (induction d) auto

lemma scores_ok_lookup: "scores_ok d \<Longrightarrow> map_of d k = Some s \<Longrightarrow> 0 \<le> s \<and> s \<le> 100"
  unfolding scores_ok_def by (force dest: map_of_SomeD)

lemma score_loop_ok:
  assumes "scores_ok d" and "i + length xs \<le> n" and "2 \<le> n"
  shows "\<exists>d'. rfold (\<lambda>scores (idx, (k, v)). rbind (percentile n idx) (\<lambda>s. Inr (AList.update k s scores)))
            d (enumerate i xs) = Inr d' \<and> scores_ok d'"
  using assms
proof (induction xs arbitrary: i d)
  case (Cons x xs)
  obtain s where "percentile n i = Inr s" and "0 \<le> s" and "s \<le> 100"
    using percentile_range [of i n] Cons.prems by auto
  with Cons show ?case by (cases x) (simp add: scores_ok_update)
qed simp

lemma percentile_scores_ok: "\<exists>d. calculate_percentile_scores raw = Inr d \<and> scores_ok d"
proof -
  consider "raw = []" | "length raw = 1" | "2 \<le> length raw"
    by (cases raw; cases "tl raw") auto
  then show ?thesis
  proof cases
    case 3
    then have "raw \<noteq> []" and "length raw \<noteq> 1" by auto
    then show ?thesis
      using score_loop_ok [of "[]" 0 "by_value raw" "length raw"] 3
      by (simp add: calculate_percentile_scores_def scores_ok_def by_value_def)
  qed (auto simp: calculate_percentile_scores_def scores_ok_def)
qed

section \<open>The weighted score\<close>

definition components_ok :: "strength_components \<Rightarrow> bool" where
  "components_ok cs \<longleftrightarrow> (\<forall>c v. component_score cs c = Some v \<longrightarrow> 0 \<le> v \<and> v \<le> 100)"

lemma components_of_ok: "\<forall>c. scores_ok (pcts c) \<Longrightarrow> components_ok (components_of pcts it)"
  unfolding components_ok_def
proof (intro allI impI)
  fix c v
  assume ok: "\<forall>c. scores_ok (pcts c)" and "component_score (components_of pcts it) c = Some v"
  then have "map_of (pcts c) (rm_taxonomy_id it) = Some v" by (cases c) (simp_all add: components_of_def)
  then show "0 \<le> v \<and> v \<le> 100" using ok scores_ok_lookup by blast
qed

text \<open>
  The available weights add up exactly, in hundredths, and the weighted sum never exceeds a
  hundred times their sum.
\<close>

definition hundredths :: "(component \<times> decimal) list \<Rightarrow> (component \<times> int) list \<Rightarrow> bool" where
  "hundredths weights ws \<longleftrightarrow>
     weights = map (\<lambda>(c, b). (c, of_int b / 100)) ws \<and> (\<forall>(c, b) \<in> set ws. 0 \<le> b \<and> b \<le> 100) \<and> length ws \<le> 100"

definition available_hundredths :: "strength_components \<Rightarrow> (component \<times> int) list \<Rightarrow> int" where
  "available_hundredths cs ws = sum_list (map snd (filter (\<lambda>(c, b). component_score cs c \<noteq> None) ws))"

lemma weighted_sums:
  fixes a :: int
  assumes scores: "components_ok cs"
    and ws: "\<forall>(c, b) \<in> set ws. 0 \<le> b \<and> b \<le> 100" and small: "0 \<le> a" "a + 100 * int (length ws) < 10 ^ 20"
    and acc: "0 \<le> s" "s \<le> of_int a"
  shows "\<exists>s'. foldl (add_component cs) (of_int a / 100, s) (map (\<lambda>(c, b). (c, of_int b / 100)) ws) =
           (of_int (a + available_hundredths cs ws) / 100, s') \<and>
         0 \<le> s' \<and> s' \<le> of_int (a + available_hundredths cs ws)"
  using ws small acc
proof (induction ws arbitrary: a s)
  case (Cons w ws)
  obtain c b where w: "w = (c, b)" by (cases w)
  have b: "0 \<le> b" "b \<le> 100" using Cons.prems(1) w by auto
  have tail: "\<forall>(c, b) \<in> set ws. 0 \<le> b \<and> b \<le> 100" using Cons.prems(1) by simp
  show ?case
  proof (cases "component_score cs c")
    case None
    with Cons.IH [OF tail, of a s] Cons.prems w show ?thesis
      by (simp add: add_component_def available_hundredths_def)
  next
    case (Some v)
    have v: "0 \<le> v \<and> v \<le> 100" using scores Some by (simp add: components_ok_def)
    have sum_avail: "dadd prec (of_int a / 100) (of_int b / 100) = of_int (a + b) / 100"
      using dround_places [of "a + b" 2] Cons.prems b by (simp add: dadd_def add_divide_distrib)
    have "v * (of_int b / 100) \<le> of_int b" using mult_right_mono [of v 100 "of_int b"] v b by simp
    then have prod: "dmul prec v (of_int b / 100) \<le> of_int b" and prod0: "0 \<le> dmul prec v (of_int b / 100)"
      using dprec_upper [of "v * (of_int b / 100)" b] b v
      by (simp_all add: dmul_def dprec_nonneg)
    have sum: "dadd prec s (dmul prec v (of_int b / 100)) \<le> of_int (a + b)"
      using dprec_upper [of "s + dmul prec v (of_int b / 100)" "a + b"] prod Cons.prems b by (simp add: dadd_def)
    have sum0: "0 \<le> dadd prec s (dmul prec v (of_int b / 100))"
      using prod0 Cons.prems by (simp add: dadd_def dprec_nonneg)
    have step: "add_component cs (of_int a / 100, s) (c, of_int b / 100) =
        (of_int (a + b) / 100, dadd prec s (dmul prec v (of_int b / 100)))"
      using Some by (simp only: add_component_def sum_avail fst_conv snd_conv option.case)
    have avail: "available_hundredths cs ((c, b) # ws) = b + available_hundredths cs ws"
      using Some w by (simp add: available_hundredths_def)
    have "0 \<le> a + b" and "a + b + 100 * int (length ws) < 10 ^ 20" using Cons.prems b by simp_all
    from Cons.IH [OF tail this sum0 sum] show ?thesis
      by (simp only: avail w list.map foldl_Cons case_prod_conv step add.assoc)
  qed
qed (simp add: available_hundredths_def)

lemma available_range:
  "\<forall>(c, b) \<in> set ws. 0 \<le> b \<and> b \<le> 100 \<Longrightarrow> 0 \<le> available_hundredths cs ws \<and> available_hundredths cs ws \<le> sum_list (map snd ws)"
  by (induction ws) (auto simp: available_hundredths_def)

text \<open>A score exists exactly from a coverage of 60 hundredths on; it is at most 100.\<close>

lemma final_score_bounds:
  assumes scores: "components_ok cs"
    and h: "hundredths weights ws"
  shows "\<exists>score. final_score weights cs = Inr (of_int (available_hundredths cs ws) / 100, score) \<and>
           (score \<noteq> None \<longleftrightarrow> 60 \<le> available_hundredths cs ws) \<and>
           (\<forall>s. score = Some s \<longrightarrow> 0 \<le> s \<and> s \<le> 100 \<and> dround prec s = s)"
proof -
  let ?a = "available_hundredths cs ws"
  have ws: "\<forall>(c, b) \<in> set ws. 0 \<le> b \<and> b \<le> 100" and len: "length ws \<le> 100"
    and weights: "weights = map (\<lambda>(c, b). (c, of_int b / 100)) ws"
    using h by (simp_all add: hundredths_def)
  obtain s where fold: "foldl (add_component cs) (0, 0) weights = (of_int ?a / 100, s)"
    and s: "0 \<le> s" "s \<le> of_int ?a"
    using weighted_sums [where cs = cs and ws = ws and a = 0 and s = 0, OF scores ws] len weights by auto
  have "sum_list (map snd ws) \<le> 100 * int (length ws)"
    using ws by (induction ws) auto
  then have a: "0 \<le> ?a" "?a \<le> 10000" using available_range [OF ws, of cs] len by auto
  have cov: "quantize round_half_up 4 (of_int ?a / 100) = Inr (of_int ?a / 100)"
    using half_up.quantize_of_places [of "?a * 100" 4] a by (simp add: prec_def)
  show ?thesis
  proof (cases "60 \<le> ?a")
    case False
    then have "rat_of_int ?a < 60" by (metis of_int_less_iff of_int_numeral not_le)
    with False show ?thesis by (simp add: final_score_def fold cov min_component_coverage_def)
  next
    case True
    then have a60: "60 \<le> rat_of_int ?a" by (metis of_int_le_iff of_int_numeral)
    let ?q = "dround prec (s / (of_int ?a / 100))"
    have "s / (of_int ?a / 100) \<le> 100" using s a60 by (simp add: field_simps)
    then have "0 \<le> ?q" and "?q \<le> 100"
      using s a60 dprec_upper [of "s / (of_int ?a / 100)" 100] by (simp_all add: dprec_nonneg)
    then obtain y where y: "quantize round_half_up 2 ?q = Inr y" "0 \<le> y" "y \<le> 100"
      using half_up.quantize_range [of 0 ?q 100 2] by auto
    with True a60 show ?thesis
      by (simp add: final_score_def fold cov min_component_coverage_def ddiv_def quantized_exact [OF y(1)])
  qed
qed


definition default_hundredths :: "(component \<times> int) list" where
  "default_hundredths = [(Momentum, 30), (Breadth, 25), (Technical, 20), (Institutional, 15), (Turnover, 10)]"

lemma hundredths_default: "hundredths default_weights default_hundredths"
  by (simp add: hundredths_def default_weights_def default_hundredths_def)

section \<open>Scoring a group\<close>

text \<open>Scoring a group never raises, and every item of it is scored from scores in range.\<close>

lemma score_group_items:
  assumes "items \<noteq> []" and h: "hundredths weights ws"
  shows "\<exists>pcts results. score_group weights items = Inr (rank_results results) \<and>
           rmap (score_item weights pcts) items = Inr results \<and> (\<forall>c. scores_ok (pcts c))"
proof -
  let ?calc = calculate_percentile_scores
  obtain m b t i o' where
    m: "?calc (optional_raw rm_equal_weight_return items) = Inr m" "scores_ok m" and
    b: "?calc (optional_raw rm_advance_ratio items) = Inr b" "scores_ok b" and
    t: "?calc (optional_raw technical_raw items) = Inr t" "scores_ok t" and
    i: "?calc (map (\<lambda>it. (rm_taxonomy_id it, institutional_raw it)) items) = Inr i" "scores_ok i" and
    o': "?calc (optional_raw rm_turnover_momentum items) = Inr o'" "scores_ok o'"
    using percentile_scores_ok by meson
  define pcts where "pcts = (\<lambda>c. case c of Momentum \<Rightarrow> m | Breadth \<Rightarrow> b | Technical \<Rightarrow> t
                      | Institutional \<Rightarrow> i | Turnover \<Rightarrow> o')"
  have ok: "\<forall>c. scores_ok (pcts c)"
    using m b t i o' by (simp add: pcts_def split: component.splits)
  have "\<exists>r. score_item weights pcts it = Inr r" for it
    using final_score_bounds [OF components_of_ok [OF ok, of it] h] by (auto simp: score_item_def)
  then obtain results where "rmap (score_item weights pcts) items = Inr results"
    using rmap_exists [of items "score_item weights pcts"] by auto
  then show ?thesis
    using ok assms(1)
    by (intro exI [of _ pcts] exI [of _ results])
      (simp add: score_group_def Let_def m(1) b(1) t(1) i(1) o'(1) flip: pcts_def)
qed

text \<open>What a scored item of the group promises, with the component scores it was computed from.\<close>

definition item_scored :: "(component \<times> int) list \<Rightarrow> scored_item \<Rightarrow> bool" where
  "item_scored ws r \<longleftrightarrow>
     si_component_coverage r = of_int (available_hundredths (si_components r) ws) / 100 \<and>
     (si_strength_score r \<noteq> None \<longleftrightarrow> 60 \<le> available_hundredths (si_components r) ws) \<and>
     (\<forall>s. si_strength_score r = Some s \<longrightarrow> 0 \<le> s \<and> s \<le> 100 \<and> dround prec s = s) \<and>
     components_ok (si_components r)"

lemma score_item_scored:
  assumes h: "hundredths weights ws" and ok: "\<forall>c. scores_ok (pcts c)" and r: "score_item weights pcts it = Inr r"
  shows "item_scored ws r \<and> si_metric r = it"
  using final_score_bounds [OF components_of_ok [OF ok, of it] h] r components_of_ok [OF ok, of it]
  by (auto simp: score_item_def item_scored_def)

lemma score_items_metrics:
  assumes h: "hundredths weights ws" and ok: "\<forall>c. scores_ok (pcts c)"
  shows "rmap (score_item weights pcts) items = Inr results \<Longrightarrow> map si_metric results = items"
proof (induction items arbitrary: results)
  case (Cons it items)
  then show ?case using score_item_scored [OF h ok] by (auto simp: rbind_eq_Inr)
qed simp

lemma rank_results_nth:
  "i < length rs \<Longrightarrow> rank_results rs ! i =
     (let r = sort_key ranking_key rs ! i in r\<lparr>si_rank := if si_strength_score r = None then None else Some (Suc i)\<rparr>)"
  by (simp add: rank_results_def nth_enumerate_eq Let_def)

lemma rank_results_length [simp]: "length (rank_results rs) = length rs"
  by (simp add: rank_results_def)

lemma rank_results_mset: "mset (map si_metric (rank_results rs)) = mset (map si_metric rs)"
proof -
  have "map si_metric (rank_results rs) = map si_metric (sort_key ranking_key rs)"
    by (rule nth_equalityI) (simp_all add: rank_results_nth Let_def)
  then show ?thesis by simp
qed

lemma rank_results_member:
  assumes "r \<in> set (rank_results rs)"
  shows "\<exists>r' \<in> set rs. \<exists>k. r = r'\<lparr>si_rank := k\<rparr>"
proof -
  obtain i where i: "i < length rs" "r = rank_results rs ! i"
    using assms by (metis in_set_conv_nth rank_results_length)
  then have "sort_key ranking_key rs ! i \<in> set rs" by (metis length_sort nth_mem set_sort)
  with i show ?thesis by (auto simp: rank_results_nth Let_def)
qed

lemma item_scored_rank [simp]: "item_scored ws (r\<lparr>si_rank := k\<rparr>) = item_scored ws r"
  by (simp add: item_scored_def)

lemma score_group_scored:
  assumes h: "hundredths weights ws"
  shows "\<exists>rs. score_group weights items = Inr rs \<and> (\<forall>r \<in> set rs. item_scored ws r) \<and>
           mset (map si_metric rs) = mset items \<and> (\<exists>rs'. rs = rank_results rs' \<and> (\<forall>r \<in> set rs'. item_scored ws r))"
proof (cases "items = []")
  case True
  then show ?thesis by (simp add: score_group_def rank_results_def exI [of _ "[]"])
next
  case False
  from score_group_items [OF this h] obtain pcts results where
    g: "score_group weights items = Inr (rank_results results)" and
    m: "rmap (score_item weights pcts) items = Inr results" and ok: "\<forall>c. scores_ok (pcts c)"
    by blast
  have scored: "item_scored ws r" if "r \<in> set results" for r
    using rmap_mem [OF m that] score_item_scored [OF h ok] by blast
  note score_items_metrics [OF h ok m]
  with g scored show ?thesis
    by (metis item_scored_rank rank_results_member rank_results_mset)
qed

text \<open>
  The strength score of a group is always produced. An item has a score exactly when the
  weights of its available components reach 60 hundredths; the score and the component scores
  lie between 0 and 100, the coverage is the sum of those weights.
\<close>

lemma strength_score_bounded:
  "\<exists>rs. score_group default_weights items = Inr rs \<and>
     mset (map si_metric rs) = mset items \<and>
     (\<forall>r \<in> set rs. item_scored default_hundredths r)"
  using score_group_scored [OF hundredths_default] by blast

section \<open>The ranking\<close>

lemma sorted_key_le: "i < j \<Longrightarrow> j < length rs \<Longrightarrow> ranking_key (sort_key ranking_key rs ! i) \<le> ranking_key (sort_key ranking_key rs ! j)"
  using sorted_sort_key [of ranking_key rs] by (auto simp: sorted_iff_nth_mono_less)

text \<open>\<open>ranks_before a b\<close>: what the order of the ranking promises of an earlier and a later item.\<close>

definition ranks_before :: "scored_item \<Rightarrow> scored_item \<Rightarrow> bool" where
  "ranks_before a b \<longleftrightarrow>
     (case (si_strength_score a, si_strength_score b) of
        (None, Some t) \<Rightarrow> False
      | (Some s, Some t) \<Rightarrow> t < s \<or> s = t \<and>
          (rm_equal_weight_return (si_metric a) = rm_equal_weight_return (si_metric b) \<longrightarrow>
             (rm_taxonomy_code (si_metric a), rm_taxonomy_id (si_metric a)) \<le>
             (rm_taxonomy_code (si_metric b), rm_taxonomy_id (si_metric b)))
      | _ \<Rightarrow> True)"

lemma ranks_before_rank [simp]: "ranks_before (a\<lparr>si_rank := k\<rparr>) (b\<lparr>si_rank := l\<rparr>) = ranks_before a b"
  by (simp add: ranks_before_def split: option.split)

lemma ranking_key_before:
  assumes "item_scored ws a" and "item_scored ws b" and "ranking_key a \<le> ranking_key b"
  shows "ranks_before a b"
proof -
  have neg: "dneg prec s = - s" if "dround prec s = s" for s
    using that by (simp add: dneg_def dround_minus)
  show ?thesis
    using assms neg unfolding ranks_before_def ranking_key_def item_scored_def
    by (auto simp: or_least_def less_eq_prod_def split: option.splits)
qed

text \<open>
  The items come back in the order of the ranking: scored ones first, by falling score, equal
  scores with equal returns by code and then identifier. The rank of a scored item is its place,
  counted from one; an item without a score has none.
\<close>

lemma ranks_follow_scores:
  "\<exists>rs. score_group default_weights items = Inr rs \<and> length rs = length items \<and>
     (\<forall>i < length rs. si_rank (rs ! i) = (if si_strength_score (rs ! i) = None then None else Some (i + 1))) \<and>
     (\<forall>j < length rs. \<forall>i < j. ranks_before (rs ! i) (rs ! j))"
proof -
  obtain rs where g: "score_group default_weights items = Inr (rank_results rs)"
    and m: "mset (map si_metric (rank_results rs)) = mset items" and ok: "\<And>r. r \<in> set rs \<Longrightarrow> item_scored default_hundredths r"
    using score_group_scored [OF hundredths_default, of items] by blast
  have len: "length rs = length items" by (metis m length_map rank_results_length size_mset)
  have "ranks_before (rank_results rs ! i) (rank_results rs ! j)" if "i < j" "j < length rs" for i j
  proof -
    let ?s = "sort_key ranking_key rs"
    have "?s ! i \<in> set rs" and "?s ! j \<in> set rs" using that by (metis length_sort nth_mem set_sort order_less_trans)+
    then have "ranks_before (?s ! i) (?s ! j)"
      using ranking_key_before [OF ok ok sorted_key_le] that by blast
    then show ?thesis using that by (simp add: rank_results_nth Let_def)
  qed
  with g len show ?thesis by (auto simp: rank_results_nth Let_def)
qed


section \<open>Order of the percentile scores\<close>

text \<open>
  The percentile scores of distinct keys: one per key, between 0 and 100, and a smaller raw
  value never scores above a larger one.
\<close>

lemma percentile_scores_monotone:
  assumes keys: "distinct (map fst raw)"
  shows "\<exists>d. calculate_percentile_scores raw = Inr d \<and> set (map fst d) = set (map fst raw) \<and>
    (\<forall>k v k' v'. (k, v) \<in> set raw \<and> (k', v') \<in> set raw \<and> v < v' \<longrightarrow>
       (\<exists>s s'. map_of d k = Some s \<and> map_of d k' = Some s' \<and> 0 \<le> s \<and> s \<le> s' \<and> s' \<le> 100))"
proof -
  consider "raw = []" | "length raw = 1" | "2 \<le> length raw"
    by (cases raw; cases "tl raw") auto
  then show ?thesis
  proof cases
    case 2
    then obtain kv where "raw = [kv]" by (cases raw) auto
    then show ?thesis by (cases kv) (auto simp: calculate_percentile_scores_def)
  next
    case 3
    let ?n = "length raw" and ?s = "by_value raw"
    have len: "length ?s = ?n" by (simp add: by_value_def)
    from percentile_scores_positions [OF keys 3] obtain ss where
      d: "calculate_percentile_scores raw = Inr (zip (map fst ?s) ss)" and ls: "length ss = ?n" and
      pos: "\<forall>j < ?n. percentile ?n j = Inr (ss ! j)" by blast
    let ?d = "zip (map fst ?s) ss"
    have dist: "distinct (map fst ?d)" using by_value_keys [OF keys] len ls by simp
    have score: "map_of ?d (fst (?s ! j)) = Some (ss ! j)" if "j < ?n" for j
      using dist that len ls by (intro map_of_is_SomeI) (auto simp: in_set_conv_nth intro!: exI [of _ j])
    have sorted: "sorted (map (\<lambda>(k, v). (v, k)) ?s)" unfolding by_value_def by (rule sorted_sort_key)
    have "\<exists>s s'. map_of ?d k = Some s \<and> map_of ?d k' = Some s' \<and> 0 \<le> s \<and> s \<le> s' \<and> s' \<le> 100"
      if kv: "(k, v) \<in> set raw" "(k', v') \<in> set raw" "v < v'" for k v k' v'
    proof -
      have "set ?s = set raw" by (metis by_value_mset set_mset_mset)
      with kv obtain i j where i: "i < ?n" "?s ! i = (k, v)" and j: "j < ?n" "?s ! j = (k', v')"
        using len by (metis in_set_conv_nth)
      have "i \<le> j"
        using sorted_nth_mono [OF sorted, of j i] i j len kv(3) by (auto simp: less_eq_prod_def not_le) (meson le_cases not_less)
      then have "ss ! i \<le> ss ! j" using percentile_mono pos i j 3 by blast
      moreover have "0 \<le> ss ! i" and "ss ! j \<le> 100" using percentile_range pos i j 3 by (metis sum.inject(2))+
      ultimately show ?thesis using score i j by (metis fst_conv)
    qed
    moreover have "set (map fst ?d) = set (map fst raw)"
      using len ls by (simp add: by_value_def)
    ultimately show ?thesis using d by (intro exI [of _ ?d]) auto
  qed (simp add: calculate_percentile_scores_def)
qed

section \<open>Ties\<close>

lemma percentile_scores_pair:
  "k < k' \<Longrightarrow> calculate_percentile_scores [(k, v), (k', v)] = Inr [(k, 0), (k', 100)]"
  using percentile_first [of 2] percentile_last [of 2]
  by (simp add: calculate_percentile_scores_def by_value_def less_eq_prod_def flip: numeral_2_eq_2)

lemma final_score_zero:
  assumes "\<And>c. component_score cs c = Some 0"
  shows "final_score default_weights cs = Inr (1, Some 0)"
proof -
  have step: "add_component cs (of_int a / 100, 0) (c, of_int b / 100) = (of_int (a + b) / 100, 0)"
    if "\<bar>a + b\<bar> < 10 ^ 28" for a b c
    using dround_places [of "a + b" 2] that by (simp add: add_component_def assms dops add_divide_distrib)
  have "foldl (add_component cs) (0, 0) default_weights = (1, 0)"
    using step [of 0 30] step [of 30 25] step [of 55 20] step [of 75 15] step [of 90 10]
    by (simp add: default_weights_def)
  then show ?thesis
    using half_up.quantize_of_places [of 10000 4] half_up.quantize_of_places [of 0 2]
    by (simp add: final_score_def min_component_coverage_def ddiv_def prec_def)
qed

lemma final_score_hundred:
  assumes "\<And>c. component_score cs c = Some 100"
  shows "final_score default_weights cs = Inr (1, Some 100)"
proof -
  have step: "add_component cs (of_int a / 100, of_int a) (c, of_int b / 100) = (of_int (a + b) / 100, of_int (a + b))"
    if "\<bar>a + b\<bar> < 10 ^ 28" "\<bar>b\<bar> < 10 ^ 28" for a b c
    using dround_places [of "a + b" 2] dround_places [of "a + b" 0] dround_places [of b 0] that
    by (simp add: add_component_def assms dops add_divide_distrib)
  have "foldl (add_component cs) (0, 0) default_weights = (1, 100)"
    using step [of 0 30] step [of 30 25] step [of 55 20] step [of 75 15] step [of 90 10]
    by (simp add: default_weights_def)
  then show ?thesis
    using half_up.quantize_of_places [of 10000 4] half_up.quantize_of_places [of 10000 2]
    by (simp add: final_score_def min_component_coverage_def ddiv_def prec_def)
qed

text \<open>Two taxonomies with the same metrics, all of them present.\<close>

definition same_metrics :: "raw_metric \<Rightarrow> raw_metric \<Rightarrow> bool" where
  "same_metrics a b \<longleftrightarrow>
     rm_equal_weight_return a = rm_equal_weight_return b \<and> rm_equal_weight_return b \<noteq> None \<and>
     rm_advance_ratio a = rm_advance_ratio b \<and> rm_advance_ratio b \<noteq> None \<and>
     technical_raw a = technical_raw b \<and> technical_raw b \<noteq> None \<and>
     institutional_raw a = institutional_raw b \<and>
     rm_turnover_momentum a = rm_turnover_momentum b \<and> rm_turnover_momentum b \<noteq> None"

text \<open>
  Equal taxonomies are not scored equally: the identifiers break the tie in every component,
  so one of the two gets the score 0 and the other 100.
\<close>

lemma equal_metrics_split:
  assumes same: "same_metrics a b" and less: "rm_taxonomy_id a < rm_taxonomy_id b"
  shows "\<exists>ra rb. score_group default_weights [a, b] = Inr [rb, ra] \<and>
    si_metric ra = a \<and> si_strength_score ra = Some 0 \<and> si_rank ra = Some 2 \<and>
    si_metric rb = b \<and> si_strength_score rb = Some 100 \<and> si_rank rb = Some 1"
proof -
  let ?d = "[(rm_taxonomy_id a, 0), (rm_taxonomy_id b, 100)]"
  have pair: "calculate_percentile_scores (optional_raw f [a, b]) = Inr ?d"
    if "f a = f b" "f b \<noteq> None" for f
    using that percentile_scores_pair [OF less] by (auto simp: optional_raw_def List.map_filter_def)
  have inst: "calculate_percentile_scores (map (\<lambda>it. (rm_taxonomy_id it, institutional_raw it)) [a, b]) = Inr ?d"
    using same percentile_scores_pair [OF less] by (simp add: same_metrics_def)
  let ?p = "\<lambda>c. case c of Momentum \<Rightarrow> ?d | Breadth \<Rightarrow> ?d | Technical \<Rightarrow> ?d | Institutional \<Rightarrow> ?d | Turnover \<Rightarrow> ?d"
  have za: "component_score (components_of ?p a) c = Some 0" and
    zb: "component_score (components_of ?p b) c = Some 100" for c
    using less by (cases c; simp add: components_of_def)+
  obtain ra where ra: "score_item default_weights ?p a = Inr ra" "si_metric ra = a" "si_strength_score ra = Some 0"
    using final_score_zero [OF za] by (simp add: score_item_def)
  obtain rb where rb: "score_item default_weights ?p b = Inr rb" "si_metric rb = b" "si_strength_score rb = Some 100"
    using final_score_hundred [OF zb] by (simp add: score_item_def)
  have key: "ranking_key rb < ranking_key ra"
    using ra rb by (simp add: ranking_key_def or_least_def less_prod_def dneg_def prec_def)
  have "score_group default_weights [a, b] = Inr (rank_results [ra, rb])"
    using same pair inst ra rb by (simp add: score_group_def same_metrics_def Let_def)
  moreover have "rank_results [ra, rb] = [rb\<lparr>si_rank := Some 1\<rparr>, ra\<lparr>si_rank := Some 2\<rparr>]"
    using key ra rb by (auto simp: rank_results_def)
  ultimately show ?thesis using ra rb by simp
qed

end
