(* ===== verification/StrengthCalculation.thy ===== *)
theory StrengthCalculation
  imports IndustryStrength
begin

text \<open>
  The calculation and storage of the daily strength snapshots
  (\<open>app/services/industry_strength_calculation.py\<close>) and the queries that read them
  (\<open>app/repositories/sql_industry_strength.py\<close>). The tables are lists of rows in the order a
  \<open>SELECT\<close> without \<open>ORDER BY\<close> returns them; a row keeps the columns these services read or
  write. The clock is read once per run (\<open>now\<close>), the rounding of a \<open>NUMERIC\<close> column to its
  scale when a row is flushed is not modelled, nor are the generated identifiers of snapshots.
\<close>

section \<open>The tables\<close>

record taxonomy_row =
  tx_id :: uuid
  tx_code :: string
  tx_name :: string

record price_row =
  pr_security :: uuid
  pr_date :: date
  pr_close :: "decimal option"
  pr_volume :: "int option"

record technical_row =
  tr_security :: uuid
  tr_date :: date
  tr_ma20 :: "decimal option"
  tr_ma60 :: "decimal option"

record flow_row =
  fl_security :: uuid
  fl_date :: date
  fl_institution :: string
  fl_net_amount :: "decimal option"
  fl_net_shares :: "int option"

record credit_row =
  cr_security :: uuid
  cr_date :: date
  cr_margin_change :: "int option"
  cr_short_change :: "int option"

record snapshot_row =
  sn_industry_id :: "uuid option"
  sn_theme_id :: "uuid option"
  sn_trade_date :: date
  sn_window :: nat
  sn_equal_weight_return :: "decimal option"
  sn_market_cap_weighted_return :: "decimal option"
  sn_total_members :: nat
  sn_valid_members :: nat
  sn_coverage_ratio :: decimal
  sn_advancers :: nat
  sn_decliners :: nat
  sn_unchanged :: nat
  sn_advance_ratio :: "decimal option"
  sn_above_ma20_pct :: "decimal option"
  sn_above_ma60_pct :: "decimal option"
  sn_foreign_net_amount :: "decimal option"
  sn_investment_trust_net_amount :: "decimal option"
  sn_dealer_net_amount :: "decimal option"
  sn_margin_balance_change :: int
  sn_short_balance_change :: int
  sn_lending_balance_change :: "decimal option"
  sn_turnover_amount :: "decimal option"
  sn_turnover_share :: "decimal option"
  sn_turnover_momentum :: "decimal option"
  sn_components :: strength_components
  sn_strength_score :: "decimal option"
  sn_component_coverage :: decimal
  sn_rank :: "nat option"
  sn_algorithm_version :: string
  sn_data_status :: data_status
  sn_as_of :: instant
  sn_calculated_at :: instant

record strength_db =
  sd_industries :: "taxonomy_row list"
  sd_themes :: "taxonomy_row list"
  sd_industry_members :: "(uuid \<times> uuid) list"  \<comment> \<open>security, industry\<close>
  sd_theme_members :: "(uuid \<times> uuid) list"
  sd_prices :: "price_row list"
  sd_technicals :: "technical_row list"
  sd_flows :: "flow_row list"
  sd_credits :: "credit_row list"
  sd_snapshots :: "snapshot_row list"

definition algorithm_version :: string where
  "algorithm_version = ''twml-industry-strength-v1''"

section \<open>Aggregating the members of a taxonomy\<close>

text \<open>\<open>SELECT trade_date ... GROUP BY trade_date ORDER BY trade_date DESC LIMIT n\<close>\<close>

definition get_trading_days :: "strength_db \<Rightarrow> date \<Rightarrow> nat \<Rightarrow> date list" where
  "get_trading_days db target n =
     take n (rev (sorted_list_of_set {d \<in> set (map pr_date (sd_prices db)). d \<le> target}))"

text \<open>\<open>{p.security_id: p for p in ...}\<close>: the last row of a security wins.\<close>

definition prices_on :: "strength_db \<Rightarrow> uuid list \<Rightarrow> date \<Rightarrow> uuid \<Rightarrow> price_row option" where
  "prices_on db secs d =
     map_of (rev (map (\<lambda>p. (pr_security p, p)) (filter (\<lambda>p. pr_security p \<in> set secs \<and> pr_date p = d) (sd_prices db))))"

text \<open>The return of a security, when both prices make one: \<open>close\<close> present and not zero.\<close>

definition truthy :: "decimal option \<Rightarrow> bool" where
  "truthy v = (case v of None \<Rightarrow> False | Some x \<Rightarrow> x \<noteq> 0)"

definition member_return :: "price_row option \<Rightarrow> price_row option \<Rightarrow> decimal option result" where
  "member_return lp bp =
     (case (lp, bp) of
        (Some l, Some b) \<Rightarrow>
          (case (pr_close l, pr_close b) of
             (Some lc, Some bc) \<Rightarrow>
               if bc \<noteq> 0 \<and> 0 < bc \<and> lc \<noteq> 0
               then rbind (ddiv prec lc bc) (\<lambda>q. Inr (Some (dsub prec q 1)))
               else Inr None
           | _ \<Rightarrow> Inr None)
      | _ \<Rightarrow> Inr None)"

definition member_turnover :: "price_row option \<Rightarrow> decimal option" where
  "member_turnover lp =
     (case lp of None \<Rightarrow> None
      | Some l \<Rightarrow> (case (pr_close l, pr_volume l) of
                     (Some c, Some v) \<Rightarrow> Some (dmul prec c (of_int v))
                   | _ \<Rightarrow> None))"

definition ratio4 :: "nat \<Rightarrow> nat \<Rightarrow> decimal result" where
  "ratio4 a b = rbind (ddiv prec (of_nat a) (of_nat b)) (quantize round_half_up 4)"

text \<open>The average return, the coverage and the advance ratio.\<close>

definition breadth_of :: "decimal list \<Rightarrow> nat \<Rightarrow> (decimal \<times> decimal \<times> decimal) result" where
  "breadth_of rets members =
     (if rets = [] then Inr (0, 0, 0)
      else rbind (ddiv prec (dsum prec rets) (of_nat (length rets))) (\<lambda>avg.
           rbind (quantize round_half_up 4 avg) (\<lambda>eq_return.
           rbind (ratio4 (length rets) members) (\<lambda>coverage.
           rbind (ratio4 (length (filter (\<lambda>r. 0 < r) rets)) (length rets)) (\<lambda>advance.
           Inr (eq_return, coverage, advance))))))"

text \<open>The share of members at or above a moving average.\<close>

definition participation ::
    "(technical_row \<Rightarrow> decimal option) \<Rightarrow> (uuid \<Rightarrow> price_row option) \<Rightarrow> technical_row list \<Rightarrow> decimal result" where
  "participation ma latest rows =
     (let closes = List.map_filter (\<lambda>t. case latest (tr_security t) of
                       None \<Rightarrow> None
                     | Some l \<Rightarrow> (case (pr_close l, ma t) of
                          (Some c, Some m) \<Rightarrow> if c \<noteq> 0 \<and> m \<noteq> 0 then Some (c, m) else None
                        | _ \<Rightarrow> None)) rows
      in if closes = [] then Inr 0
         else ratio4 (length (filter (\<lambda>(c, m). m \<le> c) closes)) (length closes))"

definition flow_value :: "flow_row \<Rightarrow> decimal" where
  "flow_value r =
     (case fl_net_amount r of Some a \<Rightarrow> a
      | None \<Rightarrow> (case fl_net_shares r of Some s \<Rightarrow> of_int s | None \<Rightarrow> 0))"

definition net_flow :: "string \<Rightarrow> flow_row list \<Rightarrow> decimal" where
  "net_flow institution rows = dsum prec (map flow_value (filter (\<lambda>r. fl_institution r = institution) rows))"

definition aggregate_taxonomy_metrics ::
    "strength_db \<Rightarrow> instant \<Rightarrow> taxonomy_type \<Rightarrow> taxonomy_row \<Rightarrow> uuid list \<Rightarrow> date \<Rightarrow> date \<Rightarrow> nat \<Rightarrow> date list \<Rightarrow>
     raw_metric result" where
  "aggregate_taxonomy_metrics db now kind tx secs latest_date base_date win trading_days =
     (let latest = prices_on db secs latest_date;
          base = prices_on db secs base_date;
          turnovers = List.map_filter (\<lambda>s. member_turnover (latest s)) secs;
          technicals = filter (\<lambda>t. tr_security t \<in> set secs \<and> tr_date t = latest_date) (sd_technicals db);
          flows = filter (\<lambda>r. fl_security r \<in> set secs \<and> fl_date r \<in> set trading_days) (sd_flows db);
          credits = filter (\<lambda>r. cr_security r \<in> set secs \<and> cr_date r \<in> set trading_days) (sd_credits db)
      in rbind (rmap (\<lambda>s. member_return (latest s) (base s)) secs) (\<lambda>rs.
         let rets = List.map_filter (\<lambda>r. r) rs in
         rbind (breadth_of rets (length secs)) (\<lambda>(eq_return, coverage, advance).
         rbind (participation tr_ma20 latest technicals) (\<lambda>ma20.
         rbind (participation tr_ma60 latest technicals) (\<lambda>ma60.
         Inr \<lparr>rm_taxonomy_id = tx_id tx, rm_taxonomy_code = tx_code tx, rm_taxonomy_name = tx_name tx,
              rm_taxonomy_type = kind, rm_trade_date = latest_date, rm_window = win,
              rm_equal_weight_return = Some eq_return, rm_market_cap_weighted_return = None,
              rm_total_members = length secs, rm_valid_members = length rets,
              rm_coverage_ratio = coverage,
              rm_advancers = length (filter (\<lambda>r. 0 < r) rets),
              rm_decliners = length (filter (\<lambda>r. r < 0) rets),
              rm_unchanged = length (filter (\<lambda>r. \<not> 0 < r \<and> \<not> r < 0) rets),
              rm_advance_ratio = Some advance,
              rm_above_ma20_pct = Some ma20, rm_above_ma60_pct = Some ma60,
              rm_foreign_net_amount = Some (net_flow ''FOREIGN'' flows),
              rm_investment_trust_net_amount = Some (net_flow ''INVESTMENT_TRUST'' flows),
              rm_dealer_net_amount = Some (net_flow ''DEALER'' flows),
              rm_margin_balance_change = sum_list (map (\<lambda>r. case cr_margin_change r of None \<Rightarrow> 0 | Some c \<Rightarrow> c) credits),
              rm_short_balance_change = sum_list (map (\<lambda>r. case cr_short_change r of None \<Rightarrow> 0 | Some c \<Rightarrow> c) credits),
              rm_lending_balance_change = None,
              rm_turnover_amount = (if turnovers = [] then None else Some (dsum prec turnovers)),
              rm_turnover_share = None,
              rm_turnover_momentum = (if turnovers = [] then None else Some 1),
              rm_data_status = (if rets = [] then PARTIAL else FINAL),
              rm_as_of = now\<rparr>)))))"

section \<open>Storing the snapshots\<close>

text \<open>The columns an update assigns; an insert sets the same and the key of the row.\<close>

definition write_columns :: "scored_item \<Rightarrow> instant \<Rightarrow> snapshot_row \<Rightarrow> snapshot_row" where
  "write_columns r now row =
     (let m = si_metric r in
      row\<lparr>sn_equal_weight_return := rm_equal_weight_return m,
          sn_market_cap_weighted_return := rm_market_cap_weighted_return m,
          sn_total_members := rm_total_members m, sn_valid_members := rm_valid_members m,
          sn_coverage_ratio := rm_coverage_ratio m, sn_advancers := rm_advancers m,
          sn_decliners := rm_decliners m, sn_unchanged := rm_unchanged m,
          sn_advance_ratio := rm_advance_ratio m, sn_above_ma20_pct := rm_above_ma20_pct m,
          sn_above_ma60_pct := rm_above_ma60_pct m, sn_foreign_net_amount := rm_foreign_net_amount m,
          sn_investment_trust_net_amount := rm_investment_trust_net_amount m,
          sn_dealer_net_amount := rm_dealer_net_amount m,
          sn_margin_balance_change := rm_margin_balance_change m,
          sn_short_balance_change := rm_short_balance_change m,
          sn_lending_balance_change := rm_lending_balance_change m,
          sn_turnover_amount := rm_turnover_amount m, sn_turnover_share := rm_turnover_share m,
          sn_turnover_momentum := rm_turnover_momentum m, sn_components := si_components r,
          sn_strength_score := si_strength_score r, sn_component_coverage := si_component_coverage r,
          sn_rank := si_rank r, sn_data_status := rm_data_status m, sn_as_of := rm_as_of m,
          sn_calculated_at := now\<rparr>)"

definition new_snapshot :: "scored_item \<Rightarrow> bool \<Rightarrow> instant \<Rightarrow> snapshot_row" where
  "new_snapshot r is_industry now =
     (let m = si_metric r in
      \<lparr>sn_industry_id = (if is_industry then Some (rm_taxonomy_id m) else None),
       sn_theme_id = (if is_industry then None else Some (rm_taxonomy_id m)),
       sn_trade_date = rm_trade_date m, sn_window = rm_window m,
       sn_equal_weight_return = rm_equal_weight_return m,
       sn_market_cap_weighted_return = rm_market_cap_weighted_return m,
       sn_total_members = rm_total_members m, sn_valid_members = rm_valid_members m,
       sn_coverage_ratio = rm_coverage_ratio m, sn_advancers = rm_advancers m,
       sn_decliners = rm_decliners m, sn_unchanged = rm_unchanged m,
       sn_advance_ratio = rm_advance_ratio m, sn_above_ma20_pct = rm_above_ma20_pct m,
       sn_above_ma60_pct = rm_above_ma60_pct m, sn_foreign_net_amount = rm_foreign_net_amount m,
       sn_investment_trust_net_amount = rm_investment_trust_net_amount m,
       sn_dealer_net_amount = rm_dealer_net_amount m,
       sn_margin_balance_change = rm_margin_balance_change m,
       sn_short_balance_change = rm_short_balance_change m,
       sn_lending_balance_change = rm_lending_balance_change m,
       sn_turnover_amount = rm_turnover_amount m, sn_turnover_share = rm_turnover_share m,
       sn_turnover_momentum = rm_turnover_momentum m, sn_components = si_components r,
       sn_strength_score = si_strength_score r, sn_component_coverage = si_component_coverage r,
       sn_rank = si_rank r, sn_algorithm_version = algorithm_version,
       sn_data_status = rm_data_status m, sn_as_of = rm_as_of m, sn_calculated_at = now\<rparr>)"

definition is_snapshot_of :: "scored_item \<Rightarrow> bool \<Rightarrow> snapshot_row \<Rightarrow> bool" where
  "is_snapshot_of r is_industry row \<longleftrightarrow>
     sn_trade_date row = rm_trade_date (si_metric r) \<and> sn_window row = rm_window (si_metric r) \<and>
     sn_algorithm_version row = algorithm_version \<and>
     (if is_industry then sn_industry_id row = Some (rm_taxonomy_id (si_metric r))
      else sn_theme_id row = Some (rm_taxonomy_id (si_metric r)))"

text \<open>\<open>.first()\<close> of the matching rows is updated, otherwise a row is added.\<close>

fun update_first :: "('a \<Rightarrow> bool) \<Rightarrow> ('a \<Rightarrow> 'a) \<Rightarrow> 'a list \<Rightarrow> 'a list" where
  "update_first P f [] = []"
| "update_first P f (x # xs) = (if P x then f x # xs else x # update_first P f xs)"

definition upsert_snapshot ::
    "instant \<Rightarrow> bool \<Rightarrow> scored_item \<Rightarrow> snapshot_row list \<Rightarrow> (nat \<times> nat) \<times> snapshot_row list" where
  "upsert_snapshot now is_industry r rows =
     (if \<exists>row \<in> set rows. is_snapshot_of r is_industry row
      then ((0, 1), update_first (is_snapshot_of r is_industry) (write_columns r now) rows)
      else ((1, 0), rows @ [new_snapshot r is_industry now]))"

section \<open>One run\<close>

definition raw_list ::
    "strength_db \<Rightarrow> instant \<Rightarrow> bool \<Rightarrow> date list \<Rightarrow> nat \<Rightarrow> raw_metric list result" where
  "raw_list db now is_industry trading_days win =
     (let taxonomies = (if is_industry then sd_industries db else sd_themes db);
          links = (if is_industry then sd_industry_members db else sd_theme_members db);
          members = (\<lambda>tx. map fst (filter (\<lambda>(s, t). t = tx_id tx) links));
          latest = hd trading_days; base = last trading_days
      in rmap (\<lambda>tx. aggregate_taxonomy_metrics db now (if is_industry then OFFICIAL else CUSTOM) tx
                  (members tx) latest base win (take win trading_days))
           (filter (\<lambda>tx. members tx \<noteq> []) taxonomies))"

type_synonym run_state = "(nat \<times> nat) \<times> snapshot_row list"

definition save_item :: "instant \<Rightarrow> bool \<Rightarrow> run_state \<Rightarrow> scored_item \<Rightarrow> run_state" where
  "save_item now is_industry st r =
     (let (n, rows) = upsert_snapshot now is_industry r (snd st) in
      ((fst (fst st) + fst n, snd (fst st) + snd n), rows))"

definition save_group :: "strength_db \<Rightarrow> instant \<Rightarrow> date list \<Rightarrow> nat \<Rightarrow> bool \<Rightarrow> run_state \<Rightarrow> run_state result" where
  "save_group db now trading_days win is_industry st =
     rbind (raw_list db now is_industry trading_days win) (\<lambda>raw.
     rbind (score_group default_weights raw) (\<lambda>scored.
     Inr (foldl (save_item now is_industry) st scored)))"

definition window_step :: "strength_db \<Rightarrow> instant \<Rightarrow> date \<Rightarrow> run_state \<Rightarrow> nat \<Rightarrow> run_state result" where
  "window_step db now target st win =
     (let trading_days = get_trading_days db target (win + 1) in
      if trading_days = [] then Inr st
      else rbind (save_group db now trading_days win True st) (save_group db now trading_days win False))"

definition default_windows :: "nat list" where
  "default_windows = [1, 5, 10, 20, 60]"

definition calculate_for_date ::
    "instant \<Rightarrow> date \<Rightarrow> nat list option \<Rightarrow> strength_db \<Rightarrow> ((nat \<times> nat) \<times> strength_db) result" where
  "calculate_for_date now target windows db =
     rbind (rfold (window_step db now target) ((0, 0), sd_snapshots db)
             (case windows of None \<Rightarrow> default_windows | Some ws \<Rightarrow> ws)) (\<lambda>(counts, rows).
     Inr (counts, db\<lparr>sd_snapshots := rows\<rparr>))"


section \<open>Breadth\<close>

lemma ratio4_ok:
  assumes "0 < b" and "a \<le> b"
  shows "\<exists>q. ratio4 a b = Inr q \<and> 0 \<le> q \<and> q \<le> 1"
proof -
  have "(of_nat a :: rat) / of_nat b \<le> 1" using assms by (simp add: divide_le_eq)
  then have "dround prec (of_nat a / of_nat b) \<le> 1" and "0 \<le> dround prec (of_nat a / of_nat b :: rat)"
    using dprec_upper [of _ 1] by (simp_all add: dprec_nonneg)
  then show ?thesis
    using half_up.quantize_range [of 0 "dround prec (of_nat a / of_nat b)" 1 4] assms
    by (simp add: ratio4_def ddiv_def)
qed

lemma ratio4_unit: "ratio4 a b = Inr q \<Longrightarrow> a \<le> b \<Longrightarrow> 0 \<le> q \<and> q \<le> 1"
  using ratio4_ok [of b a] by (cases "b = 0") (auto simp: ratio4_def ddiv_def)

lemma breadth_units:
  assumes "breadth_of rets n = Inr (e, c, a)" and "length rets \<le> n"
  shows "0 \<le> c \<and> c \<le> 1 \<and> 0 \<le> a \<and> a \<le> 1"
  using assms ratio4_unit [of "length rets" n c] ratio4_unit [of "length (filter (\<lambda>r. 0 < r) rets)" "length rets" a]
  by (auto simp: breadth_of_def rbind_eq_Inr split: if_splits)

lemma participation_unit: "participation ma latest rows = Inr q \<Longrightarrow> 0 \<le> q \<and> q \<le> 1"
  by (auto simp: participation_def Let_def split: if_splits dest!: ratio4_unit)

lemma length_map_filter: "length (List.map_filter f xs) \<le> length xs"
  by (simp add: List.map_filter_def)

lemma sign_counts:
  "length (filter (\<lambda>r. 0 < r) rs) + length (filter (\<lambda>r. r < 0) rs) + length (filter (\<lambda>r. \<not> 0 < r \<and> \<not> r < 0) rs) = length rs"
  for rs :: "decimal list"
  by (induction rs) auto

text \<open>
  The breadth of a taxonomy: every member with a return is an advancer, a decliner or
  unchanged, there are no more of them than members, every ratio lies between 0 and 1, and the
  snapshot is final exactly when some member has a return.
\<close>

lemma breadth_accounts_for_members:
  assumes m: "aggregate_taxonomy_metrics db now kind tx secs latest_date base_date win trading_days = Inr m"
  shows "rm_advancers m + rm_decliners m + rm_unchanged m = rm_valid_members m \<and>
    rm_valid_members m \<le> rm_total_members m \<and>
    0 \<le> rm_coverage_ratio m \<and> rm_coverage_ratio m \<le> 1 \<and>
    (\<forall>f \<in> {rm_advance_ratio, rm_above_ma20_pct, rm_above_ma60_pct}. \<exists>q. f m = Some q \<and> 0 \<le> q \<and> q \<le> 1) \<and>
    (rm_data_status m = FINAL \<longleftrightarrow> 0 < rm_valid_members m)"
proof -
  let ?latest = "prices_on db secs latest_date"
  obtain rs e c a m20 m60 where
    rs: "rmap (\<lambda>s. member_return (?latest s) (prices_on db secs base_date s)) secs = Inr rs" and
    b: "breadth_of (List.map_filter (\<lambda>r. r) rs) (length secs) = Inr (e, c, a)" and
    m20: "participation tr_ma20 ?latest (filter (\<lambda>t. tr_security t \<in> set secs \<and> tr_date t = latest_date) (sd_technicals db)) = Inr m20" and
    m60: "participation tr_ma60 ?latest (filter (\<lambda>t. tr_security t \<in> set secs \<and> tr_date t = latest_date) (sd_technicals db)) = Inr m60" and
    fields: "rm_total_members m = length secs" "rm_valid_members m = length (List.map_filter (\<lambda>r. r) rs)"
      "rm_coverage_ratio m = c" "rm_advance_ratio m = Some a" "rm_above_ma20_pct m = Some m20" "rm_above_ma60_pct m = Some m60"
      "rm_advancers m = length (filter (\<lambda>r. 0 < r) (List.map_filter (\<lambda>r. r) rs))"
      "rm_decliners m = length (filter (\<lambda>r. r < 0) (List.map_filter (\<lambda>r. r) rs))"
      "rm_unchanged m = length (filter (\<lambda>r. \<not> 0 < r \<and> \<not> r < 0) (List.map_filter (\<lambda>r. r) rs))"
      "rm_data_status m = (if List.map_filter (\<lambda>r. r) rs = [] then PARTIAL else FINAL)"
    using m by (clarsimp simp: aggregate_taxonomy_metrics_def Let_def rbind_eq_Inr)
  have len: "length (List.map_filter (\<lambda>r. r) rs) \<le> length secs"
    using length_map_filter [of "\<lambda>r. r" rs] rmap_length [OF rs] by simp
  note units = breadth_units [OF b len] participation_unit [OF m20] participation_unit [OF m60]
  have "rm_advancers m + rm_decliners m + rm_unchanged m = rm_valid_members m" by (simp only: fields sign_counts)
  then show ?thesis using units len fields by simp
qed

section \<open>Trading days\<close>

text \<open>
  The trading days of a window: the latest dates up to the target on which some price is stored,
  newest first, no more than asked for and all of them when there are fewer.
\<close>

lemma trading_days_are_latest:
  "sorted_wrt (>) (get_trading_days db target n) \<and>
   length (get_trading_days db target n) = min n (card {d \<in> set (map pr_date (sd_prices db)). d \<le> target}) \<and>
   (\<forall>d \<in> set (get_trading_days db target n). d \<le> target \<and>
      (\<forall>e \<in> set (map pr_date (sd_prices db)). d < e \<and> e \<le> target \<longrightarrow> e \<in> set (get_trading_days db target n)))"
proof (intro conjI ballI impI)
  let ?S = "{d \<in> set (map pr_date (sd_prices db)). d \<le> target}"
  let ?l = "rev (sorted_list_of_set ?S)"
  have sorted: "sorted_wrt (>) ?l" by (simp add: sorted_wrt_rev)
  then show "sorted_wrt (>) (get_trading_days db target n)"
    unfolding get_trading_days_def by (rule sorted_wrt_take)
  show "length (get_trading_days db target n) = min n (card ?S)"
    by (simp add: get_trading_days_def min.commute)
  fix d
  assume d: "d \<in> set (get_trading_days db target n)"
  then have "d \<in> set ?l" unfolding get_trading_days_def by (rule in_set_takeD)
  then show "d \<le> target" by simp
  fix e
  assume e: "e \<in> set (map pr_date (sd_prices db))" "d < e \<and> e \<le> target"
  then have "e \<in> set ?l" by simp
  then consider "e \<in> set (take n ?l)" | "e \<in> set (drop n ?l)" by (metis Un_iff append_take_drop_id set_append)
  then show "e \<in> set (get_trading_days db target n)"
  proof cases
    case 2
    have "sorted_wrt (>) (take n ?l @ drop n ?l)" using sorted by simp
    then have "e < d" using 2 d unfolding sorted_wrt_append get_trading_days_def by blast
    with e show ?thesis by simp
  qed (simp add: get_trading_days_def)
qed

end
