(* ===== verification/StrengthRuns.thy ===== *)
theory StrengthRuns
  imports StrengthCalculation
begin

text \<open>
  Running the strength calculation again: the second run updates every snapshot of the first
  and writes the same values into it. A run is the list of the items it saves, computed without
  reading the snapshots; saving an item twice changes nothing but the time stamps.
\<close>

section \<open>Time stamps\<close>

definition set_as_of :: "instant \<Rightarrow> raw_metric \<Rightarrow> raw_metric" where
  "set_as_of t m = m\<lparr>rm_as_of := t\<rparr>"

definition stamp :: "instant \<Rightarrow> scored_item \<Rightarrow> scored_item" where
  "stamp t r = r\<lparr>si_metric := set_as_of t (si_metric r)\<rparr>"

definition unstamped :: "snapshot_row \<Rightarrow> snapshot_row" where
  "unstamped row = row\<lparr>sn_as_of := 0, sn_calculated_at := 0\<rparr>"

lemma set_as_of_fields [simp]:
  "rm_taxonomy_id (set_as_of t m) = rm_taxonomy_id m"
  "rm_taxonomy_code (set_as_of t m) = rm_taxonomy_code m"
  "rm_trade_date (set_as_of t m) = rm_trade_date m" "rm_window (set_as_of t m) = rm_window m"
  "rm_equal_weight_return (set_as_of t m) = rm_equal_weight_return m"
  "rm_advance_ratio (set_as_of t m) = rm_advance_ratio m"
  "technical_raw (set_as_of t m) = technical_raw m"
  "institutional_raw (set_as_of t m) = institutional_raw m"
  "rm_turnover_momentum (set_as_of t m) = rm_turnover_momentum m"
  by (simp_all add: set_as_of_def technical_raw_def institutional_raw_def)

lemma stamp_fields [simp]:
  "si_metric (stamp t r) = set_as_of t (si_metric r)" "si_components (stamp t r) = si_components r"
  "si_strength_score (stamp t r) = si_strength_score r" "si_rank (stamp t r) = si_rank r"
  "si_component_coverage (stamp t r) = si_component_coverage r"
  "ranking_key (stamp t r) = ranking_key r"
  by (simp_all add: stamp_def ranking_key_def)

lemma aggregate_stamped:
  "aggregate_taxonomy_metrics db t kind tx secs l b win days =
   rbind (aggregate_taxonomy_metrics db 0 kind tx secs l b win days) (\<lambda>m. Inr (set_as_of t m))"
  by (simp add: aggregate_taxonomy_metrics_def Let_def rbind_assoc split_def set_as_of_def)

lemma rmap_rbind: "rmap (\<lambda>x. rbind (f x) (\<lambda>y. Inr (g y))) xs = rbind (rmap f xs) (\<lambda>ys. Inr (map g ys))"
  by (induction xs) (simp_all add: rbind_assoc)

lemma raw_list_stamped:
  "raw_list db t k days win = rbind (raw_list db 0 k days win) (\<lambda>ms. Inr (map (set_as_of t) ms))"
  unfolding raw_list_def Let_def by (subst aggregate_stamped) (rule rmap_rbind)

lemma optional_raw_stamped:
  "(\<And>m. f (set_as_of t m) = f m) \<Longrightarrow> optional_raw f (map (set_as_of t) ms) = optional_raw f ms"
  by (induction ms) (simp_all add: optional_raw_def List.map_filter_def)

lemma score_item_stamped:
  "score_item weights pcts (set_as_of t m) = rbind (score_item weights pcts m) (\<lambda>r. Inr (stamp t r))"
  by (simp add: score_item_def components_of_def rbind_assoc split_def stamp_def)

lemma insort_key_map: "(\<And>y. key (h y) = key y) \<Longrightarrow> insort_key key (h x) (map h xs) = map h (insort_key key x xs)"
  by (induction xs) simp_all

lemma sort_key_map: "(\<And>y. key (h y) = key y) \<Longrightarrow> sort_key key (map h xs) = map h (sort_key key xs)"
  by (induction xs) (simp_all add: insort_key_map)

lemma stamp_rank: "stamp t (r\<lparr>si_rank := k\<rparr>) = (stamp t r)\<lparr>si_rank := k\<rparr>"
  by (simp add: stamp_def)

lemma rank_results_stamped: "rank_results (map (stamp t) rs) = map (stamp t) (rank_results rs)"
  by (rule nth_equalityI) (simp_all add: rank_results_nth sort_key_map Let_def stamp_rank)

lemma score_group_stamped:
  "score_group weights (map (set_as_of t) ms) = rbind (score_group weights ms) (\<lambda>rs. Inr (map (stamp t) rs))"
proof -
  have "map (\<lambda>it. (rm_taxonomy_id it, institutional_raw it)) (map (set_as_of t) ms) =
        map (\<lambda>it. (rm_taxonomy_id it, institutional_raw it)) ms" by simp
  moreover have "rmap (score_item weights pcts) (map (set_as_of t) ms) =
      rbind (rmap (score_item weights pcts) ms) (\<lambda>rs. Inr (map (stamp t) rs))" for pcts
  proof -
    have "rmap (score_item weights pcts) (map (set_as_of t) ms) =
        rmap (\<lambda>m. rbind (score_item weights pcts m) (\<lambda>r. Inr (stamp t r))) ms"
      by (induction ms) (simp_all add: score_item_stamped)
    then show ?thesis by (simp only: rmap_rbind)
  qed
  ultimately show ?thesis
    by (simp add: score_group_def Let_def optional_raw_stamped rbind_assoc rank_results_stamped del: map_map)
qed

section \<open>The items of a run\<close>

definition group_items :: "strength_db \<Rightarrow> date \<Rightarrow> bool \<Rightarrow> nat \<Rightarrow> scored_item list result" where
  "group_items db target k win =
     (let days = get_trading_days db target (win + 1) in
      if days = [] then Inr [] else rbind (raw_list db 0 k days win) (score_group default_weights))"

lemma save_group_items:
  assumes "get_trading_days db target (win + 1) \<noteq> []"
  shows "save_group db t (get_trading_days db target (win + 1)) win k st =
    rbind (group_items db target k win) (\<lambda>rs. Inr (foldl (save_item t k) st (map (stamp t) rs)))"
  using assms
  by (simp add: save_group_def group_items_def Let_def rbind_assoc score_group_stamped
      raw_list_stamped [of db t] del: foldl_map)

definition window_items :: "strength_db \<Rightarrow> date \<Rightarrow> nat \<Rightarrow> (bool \<times> scored_item) list result" where
  "window_items db target win =
     rbind (group_items db target True win) (\<lambda>a. rbind (group_items db target False win) (\<lambda>b.
       Inr (map (Pair True) a @ map (Pair False) b)))"

definition save_any :: "instant \<Rightarrow> run_state \<Rightarrow> bool \<times> scored_item \<Rightarrow> run_state" where
  "save_any t st x = save_item t (fst x) st (stamp t (snd x))"

lemma fold_save_any: "foldl (save_any t) st (map (Pair k) rs) = foldl (save_item t k) st (map (stamp t) rs)"
  by (induction rs arbitrary: st) (simp_all add: save_any_def)

lemma window_step_items:
  "window_step db t target st win = rbind (window_items db target win) (\<lambda>items. Inr (foldl (save_any t) st items))"
proof (cases "get_trading_days db target (win + 1) = []")
  case True
  then show ?thesis by (simp add: window_step_def window_items_def group_items_def)
next
  case False
  then show ?thesis
    by (simp add: window_step_def window_items_def Let_def save_group_items rbind_assoc fold_save_any del: One_nat_def)
qed

lemma run_items:
  "rfold (window_step db t target) st ws =
   rbind (rmap (window_items db target) ws) (\<lambda>items. Inr (foldl (save_any t) st (concat items)))"
  by (induction ws arbitrary: st) (simp_all add: window_step_items rbind_assoc)


section \<open>Saving an item again\<close>

text \<open>A row holds the values of an item: writing them would change the time stamps only.\<close>

definition holds_values :: "scored_item \<Rightarrow> snapshot_row \<Rightarrow> bool" where
  "holds_values r row \<longleftrightarrow> unstamped (write_columns r 0 row) = unstamped row"

definition saved :: "snapshot_row list \<Rightarrow> bool \<times> scored_item \<Rightarrow> bool" where
  "saved rows x \<longleftrightarrow> (\<exists>row. find (is_snapshot_of (snd x) (fst x)) rows = Some row \<and> holds_values (snd x) row)"

definition one_taxonomy :: "snapshot_row \<Rightarrow> bool" where
  "one_taxonomy row \<longleftrightarrow> sn_industry_id row = None \<or> sn_theme_id row = None"

definition row_key :: "bool \<times> scored_item \<Rightarrow> bool \<times> uuid \<times> nat" where
  "row_key x = (fst x, rm_taxonomy_id (si_metric (snd x)), rm_window (si_metric (snd x)))"

lemma is_snapshot_stamped [simp]: "is_snapshot_of (stamp t r) k = is_snapshot_of r k"
  by (rule ext) (simp add: is_snapshot_of_def)

lemma write_columns_key [simp]:
  "is_snapshot_of r k (write_columns r' t row) = is_snapshot_of r k row"
  "one_taxonomy (write_columns r' t row) = one_taxonomy row"
  by (simp_all add: is_snapshot_of_def one_taxonomy_def write_columns_def Let_def)

lemma new_snapshot_key [simp]:
  "is_snapshot_of r k (new_snapshot (stamp t r) k t')" "one_taxonomy (new_snapshot r' k t')"
  by (simp_all add: is_snapshot_of_def one_taxonomy_def new_snapshot_def Let_def)

lemma holds_written [simp]: "holds_values r (write_columns (stamp t r) t row)"
  by (simp add: holds_values_def unstamped_def write_columns_def Let_def set_as_of_def)

lemma holds_new [simp]: "holds_values r (new_snapshot (stamp t r) k t)"
  by (simp add: holds_values_def unstamped_def write_columns_def new_snapshot_def Let_def set_as_of_def)

lemma unstamped_write: "holds_values r row \<Longrightarrow> unstamped (write_columns (stamp t r) t' row) = unstamped row"
  by (cases row) (simp add: holds_values_def unstamped_def write_columns_def Let_def set_as_of_def)

lemma unstamped_cong:
  assumes "unstamped row = unstamped row'"
  shows "is_snapshot_of r k row = is_snapshot_of r k row'" and "holds_values r row = holds_values r row'"
    and "one_taxonomy row = one_taxonomy row'"
  using assms
  by (cases row; cases row'; simp add: unstamped_def is_snapshot_of_def holds_values_def one_taxonomy_def write_columns_def Let_def)+

text \<open>A row belongs to one key only.\<close>

lemma same_row_same_key:
  "one_taxonomy row \<Longrightarrow> is_snapshot_of (snd x) (fst x) row \<Longrightarrow> is_snapshot_of (snd y) (fst y) row \<Longrightarrow> row_key x = row_key y"
  by (cases x; cases y) (auto simp: one_taxonomy_def is_snapshot_of_def row_key_def split: if_splits)

lemma find_update_first_same:
  assumes P: "\<And>row. P (f row) = P row"
  shows "find P (update_first P f rows) = map_option f (find P rows)"
  by (induction rows) (simp_all add: P)

lemma find_update_first_other:
  assumes P: "\<And>row. P (f row) = P row"
  shows "find P rows = Some row \<Longrightarrow>
    find P (update_first Q f rows) = Some row \<or> Q row \<and> find P (update_first Q f rows) = Some (f row)"
  by (induction rows) (simp_all add: P split: if_splits)

lemma update_first_set: "row \<in> set (update_first P f rows) \<Longrightarrow> row \<in> set rows \<or> (\<exists>r \<in> set rows. row = f r)"
  by (induction rows) (auto split: if_splits)

lemma update_first_map: "(\<And>row. P row \<Longrightarrow> find P rows = Some row \<Longrightarrow> g (f row) = g row) \<Longrightarrow>
    map g (update_first P f rows) = map g rows"
  by (induction rows) auto

lemma save_any_rows:
  "snd (save_any t st (k, r)) = snd (upsert_snapshot t k (stamp t r) (snd st))"
  by (simp add: save_any_def save_item_def split_def Let_def)

lemma upsert_saves: "saved (snd (upsert_snapshot t k (stamp t r) rows)) (k, r)"
proof (cases "\<exists>row \<in> set rows. is_snapshot_of r k row")
  case True
  then obtain row where "find (is_snapshot_of r k) rows = Some row" by (meson find_ex)
  with True show ?thesis
    by (simp add: upsert_snapshot_def saved_def find_update_first_same)
next
  case False
  then have "find (is_snapshot_of r k) rows = None" by (auto simp: find_None_iff)
  with False show ?thesis by (simp add: upsert_snapshot_def saved_def find_append)
qed

lemma upsert_keeps_saved:
  assumes s: "saved rows x" and one: "\<forall>row \<in> set rows. one_taxonomy row"
    and same: "row_key x = row_key (k, r) \<Longrightarrow> x = (k, r)"
  shows "saved (snd (upsert_snapshot t k (stamp t r) rows)) x"
proof -
  from s obtain row where row: "find (is_snapshot_of (snd x) (fst x)) rows = Some row" and h: "holds_values (snd x) row"
    by (auto simp: saved_def)
  have mem: "row \<in> set rows" "is_snapshot_of (snd x) (fst x) row" using find_mem [OF row] by auto
  have "x = (k, r)" if "is_snapshot_of r k row"
    using same same_row_same_key [of row x "(k, r)"] one mem that by simp
  then have "\<exists>row'. find (is_snapshot_of (snd x) (fst x)) (update_first (is_snapshot_of r k) (write_columns (stamp t r) t) rows) = Some row' \<and>
      holds_values (snd x) row'"
    using find_update_first_other [OF _ row, of "write_columns (stamp t r) t" "is_snapshot_of r k"] h by auto
  then show ?thesis using row h by (auto simp: upsert_snapshot_def saved_def find_append)
qed

lemma upsert_one_taxonomy:
  "\<forall>row \<in> set rows. one_taxonomy row \<Longrightarrow> \<forall>row \<in> set (snd (upsert_snapshot t k r rows)). one_taxonomy row"
  by (auto simp: upsert_snapshot_def dest!: update_first_set)

lemma upsert_again:
  assumes "saved rows (k, r)"
  shows "fst (upsert_snapshot t k (stamp t r) rows) = (0, 1) \<and>
         map unstamped (snd (upsert_snapshot t k (stamp t r) rows)) = map unstamped rows"
proof -
  from assms obtain row where row: "find (is_snapshot_of r k) rows = Some row" and h: "holds_values r row"
    by (auto simp: saved_def)
  have "\<exists>row \<in> set rows. is_snapshot_of r k row" using find_mem [OF row] by blast
  moreover have "map unstamped (update_first (is_snapshot_of r k) (write_columns (stamp t r) t) rows) = map unstamped rows"
    by (rule update_first_map) (use row h in \<open>simp add: unstamped_write\<close>)
  ultimately show ?thesis by (simp add: upsert_snapshot_def)
qed

lemma find_cong_map:
  assumes P: "\<And>a b. g a = g b \<Longrightarrow> P a = P b"
  shows "map g xs = map g ys \<Longrightarrow> find P xs = Some a \<Longrightarrow> \<exists>b. find P ys = Some b \<and> g a = g b"
proof (induction xs arbitrary: ys)
  case (Cons x xs)
  then obtain y ys' where ys: "ys = y # ys'" "g x = g y" "map g xs = map g ys'" by (cases ys) auto
  have "P x = P y" using P [OF ys(2)] .
  then show ?case using Cons.prems(2) Cons.IH [OF ys(3)] ys(1,2) by (cases "P x") simp_all
qed simp

lemma saved_cong: "map unstamped rows = map unstamped rows' \<Longrightarrow> saved rows x \<Longrightarrow> saved rows' x"
  unfolding saved_def using find_cong_map [of unstamped "is_snapshot_of (snd x) (fst x)" rows rows'] unstamped_cong by blast


section \<open>Running again\<close>

definition consistent :: "(bool \<times> scored_item) list \<Rightarrow> bool" where
  "consistent items \<longleftrightarrow> (\<forall>x \<in> set items. \<forall>y \<in> set items. row_key x = row_key y \<longrightarrow> x = y)"

lemma save_any_one_taxonomy:
  "\<forall>row \<in> set (snd st). one_taxonomy row \<Longrightarrow> \<forall>row \<in> set (snd (save_any t st x)). one_taxonomy row"
  by (cases x) (simp add: save_any_rows upsert_one_taxonomy)

lemma fold_keeps_saved:
  assumes "saved (snd st) x" and "\<forall>row \<in> set (snd st). one_taxonomy row" and "\<forall>y \<in> set items. row_key x = row_key y \<longrightarrow> x = y"
  shows "saved (snd (foldl (save_any t) st items)) x"
  using assms
proof (induction items arbitrary: st)
  case (Cons y items)
  obtain k r where y: "y = (k, r)" by (cases y)
  have "saved (snd (save_any t st y)) x"
    using upsert_keeps_saved [OF Cons.prems(1,2), of k r t] Cons.prems(3) y by (simp add: save_any_rows)
  then show ?case using Cons.IH save_any_one_taxonomy [OF Cons.prems(2)] Cons.prems(3) by simp
qed simp

lemma fold_saves:
  assumes "\<forall>row \<in> set (snd st). one_taxonomy row" and "consistent items"
  shows "\<forall>x \<in> set items. saved (snd (foldl (save_any t) st items)) x"
  using assms
proof (induction items arbitrary: st)
  case (Cons y items)
  obtain k r where y: "y = (k, r)" by (cases y)
  have "saved (snd (save_any t st y)) y" using upsert_saves y by (simp add: save_any_rows)
  then have "saved (snd (foldl (save_any t) (save_any t st y) items)) y"
    using Cons.prems save_any_one_taxonomy by (intro fold_keeps_saved) (auto simp: consistent_def)
  moreover have "consistent items" using Cons.prems(2) by (simp add: consistent_def)
  ultimately show ?case using Cons.IH save_any_one_taxonomy [OF Cons.prems(1)] by simp
qed simp

lemma save_counts: "fst (fst (save_any t st x)) + snd (fst (save_any t st x)) = Suc (fst (fst st) + snd (fst st))"
  by (simp add: save_any_def save_item_def upsert_snapshot_def split_def Let_def)

lemma fold_counts:
  "fst (fst (foldl (save_any t) st items)) + snd (fst (foldl (save_any t) st items)) = fst (fst st) + snd (fst st) + length items"
  by (induction items arbitrary: st) (simp_all add: save_counts)

lemma fold_again:
  assumes "\<forall>x \<in> set items. saved rows x"
  shows "map unstamped (snd st) = map unstamped rows \<Longrightarrow>
    map unstamped (snd (foldl (save_any t) st items)) = map unstamped rows \<and>
    fst (foldl (save_any t) st items) = (fst (fst st), snd (fst st) + length items)"
  using assms
proof (induction items arbitrary: st)
  case (Cons y items)
  obtain k r where y: "y = (k, r)" by (cases y)
  have "saved (snd st) (k, r)" using saved_cong [OF Cons.prems(1) [symmetric]] Cons.prems(2) y by simp
  note again = upsert_again [OF this, of t]
  have "map unstamped (snd (save_any t st y)) = map unstamped rows"
    using again Cons.prems(1) y by (simp add: save_any_rows)
  moreover have "fst (save_any t st y) = (fst (fst st), Suc (snd (fst st)))"
    using again y by (simp add: save_any_def save_item_def split_def Let_def)
  ultimately show ?case using Cons.IH [of "save_any t st y"] Cons.prems(2) by simp
qed simp

lemma aggregate_key:
  "aggregate_taxonomy_metrics db t k tx secs l b win days = Inr m \<Longrightarrow> rm_taxonomy_id m = tx_id tx \<and> rm_window m = win"
  by (auto simp: aggregate_taxonomy_metrics_def Let_def rbind_eq_Inr)

lemma rmap_map_eq: "rmap f xs = Inr ys \<Longrightarrow> (\<And>x y. f x = Inr y \<Longrightarrow> h y = g x) \<Longrightarrow> map h ys = map g xs"
  by (induction xs arbitrary: ys) (auto simp: rbind_eq_Inr)

lemma raw_list_keys:
  assumes "raw_list db t k days win = Inr raw"
  shows "(\<exists>P. map rm_taxonomy_id raw = map tx_id (filter P (if k then sd_industries db else sd_themes db))) \<and>
    (\<forall>m \<in> set raw. rm_window m = win)"
proof -
  note run = assms [unfolded raw_list_def Let_def]
  have "map rm_taxonomy_id raw = map tx_id (filter
      (\<lambda>tx. map fst (filter (\<lambda>(s, t). t = tx_id tx) (if k then sd_industry_members db else sd_theme_members db)) \<noteq> [])
      (if k then sd_industries db else sd_themes db))"
    by (rule rmap_map_eq [OF run]) (drule aggregate_key, simp)
  moreover have "\<forall>m \<in> set raw. rm_window m = win"
    using rmap_mem [OF run] aggregate_key by fast
  ultimately show ?thesis by blast
qed

lemma group_items_keys:
  assumes g: "group_items db target k win = Inr rs"
    and ids: "distinct (map tx_id (if k then sd_industries db else sd_themes db))"
  shows "distinct (map (\<lambda>r. rm_taxonomy_id (si_metric r)) rs) \<and> (\<forall>r \<in> set rs. rm_window (si_metric r) = win)"
proof (cases "get_trading_days db target (win + 1) = []")
  case True
  with g show ?thesis by (simp add: group_items_def)
next
  case False
  let ?days = "get_trading_days db target (win + 1)"
  from g False obtain raw where raw: "raw_list db 0 k ?days win = Inr raw" and s: "score_group default_weights raw = Inr rs"
    by (auto simp: group_items_def rbind_eq_Inr)
  have m: "mset (map si_metric rs) = mset raw"
    using score_group_scored [OF hundredths_default, of raw] s by auto
  from raw_list_keys [OF raw] obtain P where
    ids': "map rm_taxonomy_id raw = map tx_id (filter P (if k then sd_industries db else sd_themes db))"
    and win: "\<forall>m \<in> set raw. rm_window m = win" by blast
  have "distinct (map rm_taxonomy_id raw)" unfolding ids' using ids by (rule distinct_map_filter)
  moreover have "mset (map (\<lambda>r. rm_taxonomy_id (si_metric r)) rs) = mset (map rm_taxonomy_id raw)"
    using arg_cong [OF m, of "image_mset rm_taxonomy_id"] by (simp add: multiset.map_comp comp_def)
  ultimately have "distinct (map (\<lambda>r. rm_taxonomy_id (si_metric r)) rs)" using mset_eq_imp_distinct_iff by blast
  moreover have "set (map si_metric rs) = set raw" using m mset_eq_setD by blast
  then have "\<forall>r \<in> set rs. rm_window (si_metric r) = win"
    using win by (metis image_eqI list.set_map)
  ultimately show ?thesis ..
qed

lemma run_consistent:
  assumes run: "rmap (window_items db target) ws = Inr items"
    and ids: "distinct (map tx_id (sd_industries db))" "distinct (map tx_id (sd_themes db))"
  shows "consistent (concat items)"
proof -
  have mem: "\<exists>rs. group_items db target (fst x) (rm_window (si_metric (snd x))) = Inr rs \<and> snd x \<in> set rs \<and>
      distinct (map (\<lambda>r. rm_taxonomy_id (si_metric r)) rs)" if x: "x \<in> set (concat items)" for x
  proof -
    from x obtain its where "its \<in> set items" "x \<in> set its" by auto
    then obtain win where w: "window_items db target win = Inr its" using rmap_mem [OF run] by blast
    then obtain a b where a: "group_items db target True win = Inr a" and b: "group_items db target False win = Inr b"
      and its: "its = map (Pair True) a @ map (Pair False) b"
      by (auto simp: window_items_def rbind_eq_Inr)
    show ?thesis
      using group_items_keys [OF a] group_items_keys [OF b] a b ids its \<open>x \<in> set its\<close> by auto
  qed
  show ?thesis unfolding consistent_def
  proof (intro ballI impI)
    fix x y
    assume x: "x \<in> set (concat items)" and y: "y \<in> set (concat items)" and key: "row_key x = row_key y"
    then obtain rs where "snd x \<in> set rs" "snd y \<in> set rs" "distinct (map (\<lambda>r. rm_taxonomy_id (si_metric r)) rs)"
      using mem [OF x] mem [OF y] by (auto simp: row_key_def)
    then have "snd x = snd y" using key by (auto simp: row_key_def distinct_map inj_on_def)
    then show "x = y" using key by (simp add: row_key_def prod_eq_iff)
  qed
qed

lemma items_ignore_snapshots:
  "window_items (db\<lparr>sd_snapshots := rows\<rparr>) target = window_items db target"
proof (rule ext)
  fix win
  have "aggregate_taxonomy_metrics (db\<lparr>sd_snapshots := rows\<rparr>) t k tx secs l b w days = aggregate_taxonomy_metrics db t k tx secs l b w days"
    for t k tx secs l b w days
    by (simp add: aggregate_taxonomy_metrics_def prices_on_def)
  then show "window_items (db\<lparr>sd_snapshots := rows\<rparr>) target win = window_items db target win"
    by (simp add: window_items_def group_items_def raw_list_def get_trading_days_def Let_def)
qed

text \<open>
  A second run for the same date and windows, at any later time, inserts nothing, updates
  every snapshot the first run inserted or updated, and leaves every stored value but the time
  stamps as it was; no other table changes.
\<close>

lemma recalculation_is_idempotent:
  assumes first: "calculate_for_date t target ws db = Inr ((ins, upd), db')"
    and ids: "distinct (map tx_id (sd_industries db))" "distinct (map tx_id (sd_themes db))"
    and rows: "\<forall>row \<in> set (sd_snapshots db). one_taxonomy row"
  shows "\<exists>db''. calculate_for_date t' target ws db' = Inr ((0, ins + upd), db'') \<and>
    map unstamped (sd_snapshots db'') = map unstamped (sd_snapshots db') \<and>
    db''\<lparr>sd_snapshots := sd_snapshots db'\<rparr> = db'"
proof -
  let ?ws = "case ws of None \<Rightarrow> default_windows | Some ws \<Rightarrow> ws"
  from first obtain items where items: "rmap (window_items db target) ?ws = Inr items"
    and st: "((ins, upd), sd_snapshots db') = foldl (save_any t) ((0, 0), sd_snapshots db) (concat items)"
    and db': "db' = db\<lparr>sd_snapshots := sd_snapshots db'\<rparr>"
    by (auto simp: calculate_for_date_def run_items rbind_eq_Inr)
  have "\<forall>x \<in> set (concat items). saved (sd_snapshots db') x"
    using fold_saves [of "((0, 0), sd_snapshots db)" "concat items" t] rows run_consistent [OF items ids] st
    by (metis snd_conv)
  note again = fold_again [OF this, of "((0, 0), sd_snapshots db')" t']
  have len: "ins + upd = length (concat items)"
    using fold_counts [of t "((0, 0), sd_snapshots db)" "concat items"] by (simp flip: st)
  have "rmap (window_items db' target) ?ws = Inr items"
    using items by (subst db') (simp add: items_ignore_snapshots)
  then have "rfold (window_step db' t' target) ((0, 0), sd_snapshots db') ?ws =
      Inr (foldl (save_any t') ((0, 0), sd_snapshots db') (concat items))"
    by (simp add: run_items)
  then show ?thesis using again len
    by (simp add: calculate_for_date_def split_def)
qed

end
