(* ===== verification/StrengthQueries.thy ===== *)
theory StrengthQueries
  imports StrengthRuns
begin

text \<open>
  The queries over the stored snapshots (\<open>app/repositories/sql_industry_strength.py\<close>): the
  ranked listing of a trade date, the history of a taxonomy, and its detail with leaders and
  laggards. \<open>str(uuid)\<close> orders as the identifier does.
\<close>

record strength_view =
  tv_taxonomy_id :: "uuid option"
  tv_taxonomy_code :: string
  tv_taxonomy_name :: string
  tv_taxonomy_type :: taxonomy_type
  tv_row :: snapshot_row

section \<open>Mapping and ordering\<close>

text \<open>\<open>_map_to_domain\<close>; the columns are passed on as they are stored.\<close>

definition map_to_domain :: "strength_db \<Rightarrow> bool \<Rightarrow> snapshot_row \<Rightarrow> strength_view" where
  "map_to_domain db is_industry row =
     (let key = (if is_industry then sn_industry_id row else sn_theme_id row);
          found = find (\<lambda>tx. Some (tx_id tx) = key) (if is_industry then sd_industries db else sd_themes db)
      in \<lparr>tv_taxonomy_id = (case found of None \<Rightarrow> key | Some tx \<Rightarrow> Some (tx_id tx)),
          tv_taxonomy_code = (case found of None \<Rightarrow> [] | Some tx \<Rightarrow> tx_code tx),
          tv_taxonomy_name = (case found of None \<Rightarrow> [] | Some tx \<Rightarrow> tx_name tx),
          tv_taxonomy_type = (if is_industry then OFFICIAL else CUSTOM),
          tv_row = row\<rparr>)"

definition sort_value :: "string \<Rightarrow> snapshot_row \<Rightarrow> decimal option" where
  "sort_value sort_by row =
     (if sort_by = ''return'' then sn_equal_weight_return row
      else if sort_by = ''breadth'' then sn_advance_ratio row
      else if sort_by = ''foreign_flow'' then sn_foreign_net_amount row
      else if sort_by = ''turnover'' then
        Some (case sn_turnover_amount row of None \<Rightarrow> - 999999999999 | Some t \<Rightarrow> t)
      else Some (case sn_strength_score row of None \<Rightarrow> - 9999 | Some s \<Rightarrow> s))"

definition listing_key :: "string \<Rightarrow> strength_view \<Rightarrow> bool \<times> decimal \<times> string \<times> uuid" where
  "listing_key sort_by v =
     (let val = sort_value sort_by (tv_row v);
          has_val = (case val of None \<Rightarrow> False | Some x \<Rightarrow> - 999000000000 < x)
      in (\<not> has_val, (if has_val then dneg prec (the val) else 0), tv_taxonomy_code v, the (tv_taxonomy_id v)))"

text \<open>The rows of a listing: the latest trade date of the table when none is given.\<close>

definition listing_date :: "strength_db \<Rightarrow> date option \<Rightarrow> date option" where
  "listing_date db trade_date =
     (case trade_date of Some d \<Rightarrow> Some d
      | None \<Rightarrow> (if sd_snapshots db = [] then None else Some (Max (set (map sn_trade_date (sd_snapshots db))))))"

definition listing_rows :: "strength_db \<Rightarrow> bool \<Rightarrow> nat \<Rightarrow> date \<Rightarrow> snapshot_row list" where
  "listing_rows db is_industry win d =
     filter (\<lambda>row. sn_window row = win \<and> sn_trade_date row = d \<and> sn_algorithm_version row = algorithm_version \<and>
               (if is_industry then sn_industry_id row else sn_theme_id row) \<noteq> None)
       (sd_snapshots db)"

definition get_taxonomy_strengths ::
    "strength_db \<Rightarrow> bool \<Rightarrow> nat \<Rightarrow> date option \<Rightarrow> string \<Rightarrow> strength_view list" where
  "get_taxonomy_strengths db is_industry win trade_date sort_by =
     (case listing_date db trade_date of None \<Rightarrow> []
      | Some d \<Rightarrow> sort_key (listing_key sort_by) (map (map_to_domain db is_industry) (listing_rows db is_industry win d)))"

definition taxonomy_rows :: "strength_db \<Rightarrow> uuid \<Rightarrow> bool \<Rightarrow> nat \<Rightarrow> snapshot_row list" where
  "taxonomy_rows db tax is_industry win =
     filter (\<lambda>row. sn_window row = win \<and> sn_algorithm_version row = algorithm_version \<and>
               (if is_industry then sn_industry_id row else sn_theme_id row) = Some tax)
       (sd_snapshots db)"

text \<open>\<open>ORDER BY trade_date DESC LIMIT limit\<close>, then reversed\<close>

definition newest_first :: "snapshot_row list \<Rightarrow> snapshot_row list" where
  "newest_first rows = sort_key (\<lambda>row. - sn_trade_date row) rows"

definition get_taxonomy_strength_history ::
    "strength_db \<Rightarrow> uuid \<Rightarrow> bool \<Rightarrow> nat \<Rightarrow> nat \<Rightarrow> strength_view list" where
  "get_taxonomy_strength_history db tax is_industry win limit =
     map (map_to_domain db is_industry) (rev (take limit (newest_first (taxonomy_rows db tax is_industry win))))"

section \<open>Leaders and laggards\<close>

record leader =
  ld_security :: uuid
  ld_return_pct :: decimal

text \<open>The columns of \<open>SecurityModel\<close>; it declares no relationship and no property.\<close>

definition security_attributes :: "string list" where
  "security_attributes =
     [''id'', ''market_id'', ''code'', ''name'', ''security_type'', ''status'', ''is_active'', ''listing_date'',
      ''delisting_date'', ''source_code'', ''as_of'', ''received_at'', ''data_status'', ''source_revision'',
      ''ingestion_run_id'', ''created_at'', ''updated_at'']"

definition security_attribute :: "string \<Rightarrow> unit result" where
  "security_attribute name = (if name \<in> set security_attributes then Inr () else Inl AttributeError)"

text \<open>
  \<open>TaxonomyLeader(security_id=sec.id, code=sec.code, name=sec.name, market=MarketCode(sec.market), ...)\<close>:
  the arguments are evaluated in this order; the call itself omits \<open>latest_close\<close>, a field of
  the dataclass without a default.
\<close>

definition build_leader :: "uuid \<Rightarrow> decimal \<Rightarrow> leader result" where
  "build_leader sec ret =
     rbind (rmap security_attribute [''id'', ''code'', ''name'', ''market'']) (\<lambda>_. Inl TypeError)"

definition compute_leaders_and_laggards ::
    "strength_db \<Rightarrow> uuid \<Rightarrow> bool \<Rightarrow> date \<Rightarrow> nat \<Rightarrow> (leader list \<times> leader list) result" where
  "compute_leaders_and_laggards db tax is_industry trade_date win =
     (let secs = map fst (filter (\<lambda>(s, t). t = tax) (if is_industry then sd_industry_members db else sd_theme_members db));
          days = get_trading_days db trade_date (win + 1)
      in if secs = [] \<or> days = [] then Inr ([], [])
         else
           rbind (rmap (\<lambda>s.
             rbind (member_return (prices_on db secs (hd days) s) (prices_on db secs (last days) s)) (\<lambda>r.
             case r of None \<Rightarrow> Inr None
             | Some ret \<Rightarrow> rbind (build_leader s ret) (\<lambda>l. Inr (Some l)))) secs) (\<lambda>members.
           Inr ([l. Some l \<leftarrow> members], [l. Some l \<leftarrow> members])))"

definition get_taxonomy_strength_detail ::
    "strength_db \<Rightarrow> uuid \<Rightarrow> bool \<Rightarrow> nat \<Rightarrow> date option \<Rightarrow> (strength_view \<times> leader list \<times> leader list) option result" where
  "get_taxonomy_strength_detail db tax is_industry win trade_date =
     (let rows = (case trade_date of
                    Some d \<Rightarrow> filter (\<lambda>row. sn_trade_date row = d) (taxonomy_rows db tax is_industry win)
                  | None \<Rightarrow> newest_first (taxonomy_rows db tax is_industry win))
      in case rows of [] \<Rightarrow> Inr None
         | row # _ \<Rightarrow>
             rbind (compute_leaders_and_laggards db tax is_industry (sn_trade_date row) win) (\<lambda>(leaders, laggards).
             Inr (Some (map_to_domain db is_industry row, leaders, laggards))))"


section \<open>The detail of a taxonomy with returns\<close>

lemma build_leader_raises: "build_leader sec ret = Inl AttributeError"
  by (simp add: build_leader_def security_attribute_def security_attributes_def)

lemma trading_days_head:
  assumes days: "get_trading_days db target n = d # rest"
  shows "get_trading_days db d n = d # rest"
proof -
  have "d \<le> target" and max: "\<And>e. e \<in> set (map pr_date (sd_prices db)) \<Longrightarrow> e \<le> target \<Longrightarrow> \<not> d < e"
  proof -
    have "d \<in> set (get_trading_days db target n)" by (simp add: days)
    then show "d \<le> target" using trading_days_are_latest by blast
    show "\<not> d < e" if "e \<in> set (map pr_date (sd_prices db))" "e \<le> target" for e
    proof
      assume "d < e"
      then have "e \<in> set (get_trading_days db target n)"
        using trading_days_are_latest that \<open>d \<in> set (get_trading_days db target n)\<close> by blast
      moreover have "sorted_wrt (>) (d # rest)" using trading_days_are_latest [of db target n] days by simp
      ultimately show False using \<open>d < e\<close> days by auto
    qed
  qed
  then have "{e \<in> set (map pr_date (sd_prices db)). e \<le> d} = {e \<in> set (map pr_date (sd_prices db)). e \<le> target}"
    by (auto simp: not_less intro: order_trans)
  then show ?thesis using days by (simp add: get_trading_days_def)
qed

lemma rmap_raises:
  assumes "x \<in> set xs" and "f x = Inl e" and "\<And>y. y \<in> set xs \<Longrightarrow> f y = Inl e \<or> (\<exists>z. f y = Inr z)"
  shows "rmap f xs = Inl e"
  using assms
proof (induction xs)
  case (Cons y ys)
  consider "f y = Inl e" | z where "f y = Inr z" using Cons.prems(3) by fastforce
  then show ?case
  proof cases
    case (2 z)
    then have "x \<in> set ys" using Cons.prems(1,2) by auto
    then show ?thesis using Cons 2 by simp
  qed simp
qed simp

text \<open>
  The detail of a taxonomy raises for every snapshot of it that counts a valid member: with
  the prices the snapshot was computed from, some member has a return, and turning it into a
  leader reads the missing attribute.
\<close>

lemma detail_raises_for_valid_snapshots:
  assumes days: "get_trading_days db target (win + 1) = latest # rest"
    and secs: "secs = map fst (filter (\<lambda>(s, t). t = tax) (if is_industry then sd_industry_members db else sd_theme_members db))"
    and agg: "aggregate_taxonomy_metrics db now kind tx secs latest (last (latest # rest)) win (take win (latest # rest)) = Inr m"
    and valid: "0 < rm_valid_members m"
    and row: "row \<in> set (taxonomy_rows db tax is_industry win)" "sn_trade_date row = latest"
  shows "get_taxonomy_strength_detail db tax is_industry win (Some latest) = Inl AttributeError"
proof -
  let ?ret = "\<lambda>s. member_return (prices_on db secs latest s) (prices_on db secs (last (latest # rest)) s)"
  obtain rs where rs: "rmap ?ret secs = Inr rs" and some: "List.map_filter (\<lambda>r. r) rs \<noteq> []"
    using agg valid by (auto simp: aggregate_taxonomy_metrics_def Let_def rbind_eq_Inr)
  then obtain ret where "Some ret \<in> set rs" by (auto simp: List.map_filter_def filter_empty_conv)
  then obtain s where s: "s \<in> set secs" "?ret s = Inr (Some ret)" using rmap_mem [OF rs] by blast
  have "rmap (\<lambda>s. rbind (?ret s) (\<lambda>r. case r of None \<Rightarrow> Inr None | Some ret \<Rightarrow> rbind (build_leader s ret) (\<lambda>l. Inr (Some l)))) secs =
      Inl AttributeError"
  proof (rule rmap_raises [OF s(1)])
    fix y
    assume "y \<in> set secs"
    then obtain r where "?ret y = Inr r" using rmap_defined [OF rs] by blast
    then show "rbind (?ret y) (\<lambda>r. case r of None \<Rightarrow> Inr None | Some ret \<Rightarrow> rbind (build_leader y ret) (\<lambda>l. Inr (Some l))) = Inl AttributeError \<or>
        (\<exists>z. rbind (?ret y) (\<lambda>r. case r of None \<Rightarrow> Inr None | Some ret \<Rightarrow> rbind (build_leader y ret) (\<lambda>l. Inr (Some l))) = Inr z)"
      by (cases r) (simp_all add: build_leader_raises)
  qed (simp only: s(2) rbind_Inr option.case build_leader_raises rbind_Inl)
  then have leaders: "compute_leaders_and_laggards db tax is_industry latest win = Inl AttributeError"
    using trading_days_head [OF days] s(1)
    by (auto simp: compute_leaders_and_laggards_def Let_def secs [symmetric] simp del: last.simps)
  have "row \<in> set (filter (\<lambda>row. sn_trade_date row = latest) (taxonomy_rows db tax is_industry win))" using row by simp
  then obtain r' rows where rows: "filter (\<lambda>row. sn_trade_date row = latest) (taxonomy_rows db tax is_industry win) = r' # rows"
    by (cases "filter (\<lambda>row. sn_trade_date row = latest) (taxonomy_rows db tax is_industry win)") simp_all
  then have "sn_trade_date r' = latest" by (metis (mono_tags, lifting) filter_eq_Cons_iff)
  with rows leaders show ?thesis by (simp add: get_taxonomy_strength_detail_def)
qed


section \<open>Concrete instances\<close>

text \<open>One industry with one member, whose price doubled from day 9 to day 10.\<close>

definition chips :: taxonomy_row where
  "chips = \<lparr>tx_id = 7, tx_code = ''24'', tx_name = ''chips''\<rparr>"

definition market_db :: strength_db where
  "market_db =
     \<lparr>sd_industries = [chips], sd_themes = [], sd_industry_members = [(3, 7)], sd_theme_members = [],
      sd_prices = [\<lparr>pr_security = 3, pr_date = 9, pr_close = Some 100, pr_volume = None\<rparr>,
                   \<lparr>pr_security = 3, pr_date = 10, pr_close = Some 200, pr_volume = None\<rparr>],
      sd_technicals = [], sd_flows = [], sd_credits = [], sd_snapshots = []\<rparr>"

lemma market_days: "get_trading_days market_db 12 6 = [10, 9]"
proof -
  have "{d. (d = 9 \<or> d = 10) \<and> d \<le> (12 :: int)} = {9, 10}" by auto
  then show ?thesis by (simp add: get_trading_days_def market_db_def)
qed

lemma ratio4_one: "ratio4 (Suc 0) (Suc 0) = Inr 1"
  using half_up.quantize_of_places [of 10000 4] by (simp add: ratio4_def ddiv_def prec_def)

lemma market_return:
  "member_return (prices_on market_db [3] 10 3) (prices_on market_db [3] 9 3) = Inr (Some 1)"
  by (simp add: member_return_def prices_on_def market_db_def ddiv_def dsub_def prec_def)

lemma market_breadth: "breadth_of [1] (Suc 0) = Inr (1, 1, 1)"
  using half_up.quantize_of_places [of 10000 4]
  by (simp add: breadth_of_def ratio4_one ddiv_def dsum_def dadd_def prec_def)

lemma market_metrics:
  "\<exists>m. aggregate_taxonomy_metrics market_db t OFFICIAL chips [3] 10 9 5 [10, 9] = Inr m \<and> rm_valid_members m = 1"
proof -
  have tech: "filter P (sd_technicals market_db) = []" for P by (simp add: market_db_def)
  show ?thesis
    by (simp add: aggregate_taxonomy_metrics_def Let_def market_return market_breadth tech participation_def
        List.map_filter_def)
qed

lemma market_raw: "\<exists>m. raw_list market_db 0 True [10, 9] 5 = Inr [m]"
proof -
  have links: "sd_industries market_db = [chips]" "sd_industry_members market_db = [(3, 7)]" "tx_id chips = 7"
    by (simp_all add: market_db_def chips_def)
  show ?thesis using market_metrics [of 0] by (auto simp: raw_list_def links)
qed

lemma market_items: "\<exists>r. window_items market_db 12 5 = Inr [(True, r)]"
proof -
  obtain m where raw: "raw_list market_db 0 True [10, 9] 5 = Inr [m]" using market_raw by blast
  obtain rs where rs: "score_group default_weights [m] = Inr rs" and m: "mset (map si_metric rs) = mset [m]"
    using score_group_scored [OF hundredths_default, of "[m]"] by blast
  have "length rs = 1" using arg_cong [OF m, of size] by simp
  then obtain r where "rs = [r]" by (cases rs) auto
  moreover have "raw_list market_db 0 False [10, 9] 5 = Inr []" by (simp add: raw_list_def market_db_def)
  ultimately show ?thesis using raw rs market_days
    by (simp add: window_items_def group_items_def score_group_def [of _ "[]"])
qed

lemma recalculation_witness:
  "\<exists>db' db''. calculate_for_date 5 12 (Some [5]) market_db = Inr ((1, 0), db') \<and>
     calculate_for_date 6 12 (Some [5]) db' = Inr ((0, 1), db'') \<and>
     map unstamped (sd_snapshots db'') = map unstamped (sd_snapshots db')"
proof -
  obtain r where r: "window_items market_db 12 5 = Inr [(True, r)]" using market_items by blast
  have "sd_snapshots market_db = []" by (simp add: market_db_def)
  then have "\<exists>db'. calculate_for_date 5 12 (Some [5]) market_db = Inr ((1, 0), db')"
    by (simp add: calculate_for_date_def window_step_items r save_any_def save_item_def upsert_snapshot_def)
  then obtain db' where first: "calculate_for_date 5 12 (Some [5]) market_db = Inr ((1, 0), db')" ..
  have "distinct (map tx_id (sd_industries market_db))" "distinct (map tx_id (sd_themes market_db))"
    "\<forall>row \<in> set (sd_snapshots market_db). one_taxonomy row" by (simp_all add: market_db_def)
  from recalculation_is_idempotent [OF first this, of 6] first show ?thesis by auto
qed

lemma breadth_witness:
  "\<exists>m. aggregate_taxonomy_metrics market_db 0 OFFICIAL chips [3] 10 9 5 [10, 9] = Inr m \<and> rm_valid_members m = 1 \<and>
     rm_advancers m + rm_decliners m + rm_unchanged m = 1"
proof -
  obtain m where m: "aggregate_taxonomy_metrics market_db 0 OFFICIAL chips [3] 10 9 5 [10, 9] = Inr m" "rm_valid_members m = 1"
    using market_metrics by blast
  with breadth_accounts_for_members [OF m(1)] show ?thesis by auto
qed

lemma detail_witness:
  "\<exists>row. get_taxonomy_strength_detail (market_db\<lparr>sd_snapshots := [row]\<rparr>) 7 True 5 (Some 10) = Inl AttributeError"
proof -
  obtain m where m: "aggregate_taxonomy_metrics market_db 0 OFFICIAL chips [3] 10 9 5 [10, 9] = Inr m" "rm_valid_members m = 1"
    using market_metrics by blast
  define row where "row = new_snapshot \<lparr>si_metric = m\<lparr>rm_taxonomy_id := 7, rm_trade_date := 10, rm_window := 5\<rparr>,
     si_components = \<lparr>momentum_score = None, breadth_score = None, technical_score = None,
       institutional_score = None, turnover_score = None\<rparr>,
     si_strength_score = None, si_component_coverage = 0, si_rank = None\<rparr> True 0"
  let ?db = "market_db\<lparr>sd_snapshots := [row]\<rparr>"
  have days: "get_trading_days ?db 12 (5 + 1) = 10 # [9]"
    using market_days by (simp add: get_trading_days_def)
  have secs: "[3] = map fst (filter (\<lambda>(s, t). t = 7) (if True then sd_industry_members ?db else sd_theme_members ?db))"
    by (simp add: market_db_def)
  have agg: "aggregate_taxonomy_metrics ?db 0 OFFICIAL chips [3] 10 (last (10 # [9])) 5 (take 5 (10 # [9])) = Inr m"
    using m(1) by (simp add: aggregate_taxonomy_metrics_def prices_on_def)
  have row: "row \<in> set (taxonomy_rows ?db 7 True 5)" "sn_trade_date row = 10"
    by (simp_all add: taxonomy_rows_def row_def new_snapshot_def)
  have "0 < rm_valid_members m" using m(2) by simp
  from detail_raises_for_valid_snapshots [OF days secs agg this row] show ?thesis by blast
qed

text \<open>Three industries, the first without a return.\<close>

definition metric :: "uuid \<Rightarrow> decimal option \<Rightarrow> raw_metric" where
  "metric i ret =
     \<lparr>rm_taxonomy_id = i, rm_taxonomy_code = show_nat i, rm_taxonomy_name = [], rm_taxonomy_type = OFFICIAL,
      rm_trade_date = 10, rm_window = 1, rm_equal_weight_return = ret, rm_market_cap_weighted_return = None,
      rm_total_members = 2, rm_valid_members = 2, rm_coverage_ratio = 1, rm_advancers = 1, rm_decliners = 1,
      rm_unchanged = 0, rm_advance_ratio = ret, rm_above_ma20_pct = ret, rm_above_ma60_pct = ret,
      rm_foreign_net_amount = None, rm_investment_trust_net_amount = None, rm_dealer_net_amount = None,
      rm_margin_balance_change = 0, rm_short_balance_change = 0, rm_lending_balance_change = None,
      rm_turnover_amount = None, rm_turnover_share = None, rm_turnover_momentum = Some 1,
      rm_data_status = FINAL, rm_as_of = 0\<rparr>"

lemma strength_score_bounded_witness:
  "\<exists>rs. score_group default_weights [metric 1 None, metric 2 (Some 3), metric 3 (Some 4)] = Inr rs \<and>
     length rs = 3 \<and> (\<forall>r \<in> set rs. item_scored default_hundredths r)"
proof -
  obtain rs where "score_group default_weights [metric 1 None, metric 2 (Some 3), metric 3 (Some 4)] = Inr rs"
    and m: "mset (map si_metric rs) = mset [metric 1 None, metric 2 (Some 3), metric 3 (Some 4)]"
    and "\<forall>r \<in> set rs. item_scored default_hundredths r"
    using strength_score_bounded by blast
  moreover have "length rs = 3" using arg_cong [OF m, of size] by simp
  ultimately show ?thesis by blast
qed

lemma ranks_follow_scores_witness:
  "\<exists>rs. score_group default_weights [metric 1 None, metric 2 (Some 3)] = Inr rs \<and> length rs = 2 \<and>
     ranks_before (rs ! 0) (rs ! 1)"
proof -
  obtain rs where g: "score_group default_weights [metric 1 None, metric 2 (Some 3)] = Inr rs" "length rs = 2"
    "\<forall>j < length rs. \<forall>i < j. ranks_before (rs ! i) (rs ! j)"
    using ranks_follow_scores [of "[metric 1 None, metric 2 (Some 3)]"] by auto
  have "ranks_before (rs ! 0) (rs ! 1)" using g(2,3) by simp
  with g show ?thesis by blast
qed

lemma equal_metrics_split_witness:
  "\<exists>ra rb. score_group default_weights [metric 1 (Some 3), metric 2 (Some 3)] = Inr [rb, ra] \<and>
     si_strength_score ra = Some 0 \<and> si_strength_score rb = Some 100"
proof -
  have "same_metrics (metric 1 (Some 3)) (metric 2 (Some 3))" "rm_taxonomy_id (metric 1 (Some 3)) < rm_taxonomy_id (metric 2 (Some 3))"
    by (simp_all add: same_metrics_def metric_def technical_raw_def institutional_raw_def)
  from equal_metrics_split [OF this] show ?thesis by blast
qed

lemma percentile_scores_monotone_witness:
  "\<exists>d s s'. calculate_percentile_scores [(1, 5), (2, 3), (3, 8)] = Inr d \<and>
     map_of d 2 = Some s \<and> map_of d 1 = Some s' \<and> s \<le> s'"
proof -
  have "distinct (map fst [(1 :: nat, 5 :: rat), (2, 3), (3, 8)])" by simp
  from percentile_scores_monotone [OF this] obtain d where
    d: "calculate_percentile_scores [(1, 5), (2, 3), (3, 8)] = Inr d" and
    le: "\<forall>k v k' v'. (k, v) \<in> set [(1 :: nat, 5 :: rat), (2, 3), (3, 8)] \<and> (k', v') \<in> set [(1 :: nat, 5 :: rat), (2, 3), (3, 8)] \<and> v < v' \<longrightarrow>
       (\<exists>s s'. map_of d k = Some s \<and> map_of d k' = Some s' \<and> 0 \<le> s \<and> s \<le> s' \<and> s' \<le> 100)" by blast
  have "\<exists>s s'. map_of d 2 = Some s \<and> map_of d 1 = Some s' \<and> 0 \<le> s \<and> s \<le> s' \<and> s' \<le> 100"
    by (rule le [rule_format, of 2 3 1 5]) simp
  with d show ?thesis by blast
qed

end
