(* ===== verification/IntradayCandles.thy ===== *)
theory IntradayCandles
  imports RealtimeCache
begin

text \<open>
  \<open>IntradayCandleAggregator\<close> of \<open>app/services/intraday_candle_aggregator.py\<close>: one-minute candles
  built from quotes, five-minute candles derived from them, over the cache of \<open>RealtimeCache\<close>.
  Every operation returns its result together with the state it leaves, also when it raises.
  \<open>now\<close> is the time of the call (for the retention of the cache), \<open>days\<close> the retention setting.
\<close>

section \<open>Buckets\<close>

definition bucket :: "instant \<Rightarrow> intraday_interval \<Rightarrow> instant \<times> instant" where
  "bucket ts interval =
     (let local = ts + taipei_offset;
          local_minute = (local mod hour) div minute;
          m = local_minute - local_minute mod minutes interval;
          start = (local - local mod hour) + m * minute;
          end_local = start + minutes interval * minute
      in (start - taipei_offset, end_local - taipei_offset))"

lemma bucket_floor:
  "bucket ts interval = (ts - ts mod (minutes interval * minute),
     ts - ts mod (minutes interval * minute) + minutes interval * minute)"
proof -
  define n where "n = minutes interval"
  define local where "local = ts + taipei_offset"
  have n: "n = 1 \<or> n = 5" by (cases interval) (simp_all add: n_def)
  have arith: "(l - l mod 3600000000) + ((l mod 3600000000) div 60000000 -
      (l mod 3600000000) div 60000000 mod k) * 60000000 = l - l mod (k * 60000000)"
    if "k = 1 \<or> k = 5" for l k :: int
  proof -
    define r where "r = l mod 3600000000"
    have "r mod (k * 60000000) = l mod (k * 60000000)"
      unfolding r_def using that by (intro mod_mod_cancel) (auto intro: dvdI [of _ _ 60] dvdI [of _ _ 12])
    moreover have "r mod (k * 60000000) = r mod 60000000 + 60000000 * ((r div 60000000) mod k)"
      by (subst mult.commute [of k], rule zmod_zmult2_eq [THEN trans]) (use that in auto)
    moreover have "(r div 60000000 - r div 60000000 mod k) * 60000000 =
        60000000 * (r div 60000000) - 60000000 * (r div 60000000 mod k)" by (simp add: algebra_simps)
    moreover have "60000000 * (r div 60000000) + r mod 60000000 = r" by simp
    ultimately show ?thesis unfolding r_def [symmetric] by linarith
  qed
  have "local mod (n * minute) = ts mod (n * minute)"
    using n mod_add_right_eq [of ts 28800000000 60000000, symmetric]
      mod_add_right_eq [of ts 28800000000 300000000, symmetric]
    by (auto simp: local_def taipei_offset_def hour_def minute_def)
  then show ?thesis
    using arith [OF n, of local]
    by (simp add: bucket_def Let_def n_def [symmetric] local_def [symmetric] hour_def minute_def)
      (simp add: local_def)
qed

text \<open>
  A bucket contains its timestamp, has the length of its interval, starts at a whole multiple
  of it, and is the same for every timestamp inside it: the buckets of an interval tile time.
\<close>

lemma bucket_tiles:
  fixes ts interval
  defines "b \<equiv> bucket ts interval" and "len \<equiv> minutes interval * minute"
  shows "fst b \<le> ts \<and> ts < snd b \<and> snd b = fst b + len \<and> len dvd fst b \<and>
    (\<forall>t. bucket t interval = b \<longleftrightarrow> fst b \<le> t \<and> t < snd b)"
proof -
  have len: "0 < len" by (cases interval) (simp_all add: len_def minute_def)
  have b: "b = (ts - ts mod len, ts - ts mod len + len)" by (simp add: b_def len_def bucket_floor)
  have same: "bucket t interval = b \<longleftrightarrow> t - t mod len = ts - ts mod len" for t
    by (simp add: b bucket_floor len_def)
  have floor: "t - t mod len = t div len * len" for t
    by (simp add: minus_mod_eq_div_mult)
  have "t - t mod len = ts - ts mod len \<longleftrightarrow> ts - ts mod len \<le> t \<and> t < ts - ts mod len + len" for t
  proof
    assume "t - t mod len = ts - ts mod len"
    then show "ts - ts mod len \<le> t \<and> t < ts - ts mod len + len"
      using pos_mod_sign [OF len, of t] pos_mod_bound [OF len, of t] by linarith
  next
    assume r: "ts - ts mod len \<le> t \<and> t < ts - ts mod len + len"
    have "t div len = ts div len"
      by (rule int_div_pos_eq [where r = "t - ts div len * len"])
        (use r floor [of ts] in \<open>simp_all add: mult.commute\<close>)
    then show "t - t mod len = ts - ts mod len" by (simp only: floor)
  qed
  with same show ?thesis
    using pos_mod_sign [OF len, of ts] pos_mod_bound [OF len, of ts]
    by (auto simp: b dvd_minus_mod)
qed

section \<open>The aggregator\<close>

record aggregator =
  cache :: cache
  metrics :: "string \<Rightarrow> nat"

definition bump :: "string \<Rightarrow> aggregator \<Rightarrow> aggregator" where
  "bump name st = st\<lparr>metrics := (metrics st)(name := metrics st name + 1)\<rparr>"

definition put :: "int \<Rightarrow> instant \<Rightarrow> intraday_candle \<Rightarrow> aggregator \<Rightarrow> aggregator" where
  "put days now c st = st\<lparr>cache := save_candle days now c (cache st)\<rparr>"

definition out_of_order :: "realtime_quote \<Rightarrow> intraday_candle \<Rightarrow> bool" where
  "out_of_order q c \<longleftrightarrow>
     (case (rq_sequence q, ic_last_sequence c) of (Some s, Some l) \<Rightarrow> s \<le> l | _ \<Rightarrow> False) \<or>
     rq_exchange_timestamp q < ic_updated_at c"

definition new_candle :: "realtime_quote \<Rightarrow> instant \<times> instant \<Rightarrow> int \<Rightarrow> decimal option \<Rightarrow> rt_status \<Rightarrow> intraday_candle" where
  "new_candle q b volume turnover status =
     \<lparr>ic_security_id = rq_security_id q, ic_market_id = rq_market_id q, ic_code = rq_code q,
      ic_interval = ONE_MINUTE, ic_session = rq_session q, ic_bucket_start = fst b, ic_bucket_end = snd b,
      ic_open = rq_last_price q, ic_high = rq_last_price q, ic_low = rq_last_price q,
      ic_close = rq_last_price q, ic_volume = volume, ic_turnover_amount = turnover,
      ic_trade_count = None, ic_first_sequence = rq_sequence q, ic_last_sequence = rq_sequence q,
      ic_quote_count = 1, ic_is_final = False, ic_data_status = status, ic_provider = rq_provider q,
      ic_created_at = rq_received_at q, ic_updated_at = rq_exchange_timestamp q\<rparr>"

definition extend_candle :: "realtime_quote \<Rightarrow> intraday_candle \<Rightarrow> int \<Rightarrow> decimal option \<Rightarrow> rt_status \<Rightarrow> intraday_candle" where
  "extend_candle q c volume turnover status =
     c\<lparr>ic_high := max (ic_high c) (rq_last_price q), ic_low := min (ic_low c) (rq_last_price q),
       ic_close := rq_last_price q, ic_volume := ic_volume c + volume,
       ic_turnover_amount :=
         (case (ic_turnover_amount c, turnover) of (Some a, Some b) \<Rightarrow> Some (dadd prec a b) | _ \<Rightarrow> None),
       ic_last_sequence := rq_sequence q, ic_quote_count := ic_quote_count c + 1,
       ic_data_status := status, ic_updated_at := rq_exchange_timestamp q\<rparr>"

definition close_candle :: "intraday_candle \<Rightarrow> instant \<Rightarrow> intraday_candle" where
  "close_candle c at_time = c\<lparr>ic_is_final := True, ic_updated_at := at_time\<rparr>"

definition update_one_minute :: "int \<Rightarrow> instant \<Rightarrow> realtime_quote \<Rightarrow> int \<Rightarrow> decimal option \<Rightarrow> bool \<Rightarrow>
    aggregator \<Rightarrow> intraday_candle option \<times> aggregator" where
  "update_one_minute days now q volume turnover is_partial st =
     (let b = bucket (rq_exchange_timestamp q) ONE_MINUTE;
          cur = get_current_candle ONE_MINUTE (rq_market_id q) (rq_code q) (rq_session q) (cache st)
      in if (case cur of None \<Rightarrow> False | Some c \<Rightarrow> out_of_order q c)
         then (None, bump ''out_of_order_dropped'' st)
         else
           let (cur, st) =
                 (case cur of
                    Some c \<Rightarrow>
                      if ic_bucket_start c \<noteq> fst b
                      then (None, bump ''candles_1m_finalized'' (put days now (close_candle c (rq_received_at q)) st))
                      else (Some c, st)
                  | None \<Rightarrow> (None, st));
               status = (if is_partial then RtStale else rq_data_status q);
               (candle, st) =
                 (case cur of
                    None \<Rightarrow> (new_candle q b volume turnover status, bump ''candles_1m_created'' st)
                  | Some c \<Rightarrow> (extend_candle q c volume turnover status, bump ''candles_1m_updated'' st))
           in (Some candle, put days now candle st))"

text \<open>The five-minute candle of a non-empty list of minutes.\<close>

definition five_minute :: "intraday_candle \<Rightarrow> instant \<times> instant \<Rightarrow> intraday_candle list \<Rightarrow> intraday_candle result" where
  "five_minute one b ms =
     (if ms = [] then Inl IndexError
      else rbind (py_max (map ic_high ms)) (\<lambda>high.
           rbind (py_min (map ic_low ms)) (\<lambda>low.
             Inr \<lparr>ic_security_id = ic_security_id one, ic_market_id = ic_market_id one, ic_code = ic_code one,
                  ic_interval = FIVE_MINUTES, ic_session = ic_session one,
                  ic_bucket_start = fst b, ic_bucket_end = snd b,
                  ic_open = ic_open (hd ms), ic_high = high, ic_low = low, ic_close = ic_close (last ms),
                  ic_volume = sum_list (map ic_volume ms),
                  ic_turnover_amount =
                    (if list_all (\<lambda>c. ic_turnover_amount c \<noteq> None) ms
                     then Some (dsum prec (map (the \<circ> ic_turnover_amount) ms)) else None),
                  ic_trade_count = None,
                  ic_first_sequence = ic_first_sequence (hd ms), ic_last_sequence = ic_last_sequence (last ms),
                  ic_quote_count = sum_list (map ic_quote_count ms),
                  ic_is_final = (ic_is_final one \<and> ic_bucket_end one = snd b),
                  ic_data_status = ic_data_status one, ic_provider = ic_provider one,
                  ic_created_at = ic_created_at (hd ms), ic_updated_at = ic_updated_at one\<rparr>)))"

definition minutes_of :: "intraday_candle \<Rightarrow> instant \<times> instant \<Rightarrow> cache \<Rightarrow> intraday_candle list" where
  "minutes_of one b st =
     filter (\<lambda>c. ic_session c = ic_session one)
       (get_candles ONE_MINUTE (ic_market_id one) (ic_code one) (Some (fst b)) (Some (snd b)) 5 st)"

definition derive_five_minute :: "int \<Rightarrow> instant \<Rightarrow> intraday_candle \<Rightarrow> aggregator \<Rightarrow>
    intraday_candle result \<times> aggregator" where
  "derive_five_minute days now one st =
     (let b = bucket (ic_bucket_start one) FIVE_MINUTES
      in case five_minute one b (minutes_of one b (cache st)) of
           Inl e \<Rightarrow> (Inl e, st)
         | Inr candle \<Rightarrow>
             let existing = get_current_candle FIVE_MINUTES (ic_market_id one) (ic_code one) (ic_session one) (cache st);
                 st = (case existing of
                         None \<Rightarrow> bump ''candles_5m_created'' st
                       | Some e \<Rightarrow>
                           if ic_bucket_start e \<noteq> fst b
                           then bump ''candles_5m_created'' (bump ''candles_5m_finalized''
                                  (put days now (close_candle e (ic_updated_at one)) st))
                           else st)
             in (Inr candle, put days now candle st))"

text \<open>The differences of the cumulative volume and turnover to the baseline.\<close>

definition baseline_delta :: "realtime_quote \<Rightarrow> aggregator \<Rightarrow> int \<times> decimal option \<times> bool \<times> aggregator" where
  "baseline_delta q st =
     (case get_volume_baseline q (cache st) of
        None \<Rightarrow> (0, None, False, st)
      | Some (previous_volume, previous_turnover) \<Rightarrow>
          let (volume, is_partial, st) =
                (if previous_volume \<le> rq_total_volume q
                 then (rq_total_volume q - previous_volume, False, st)
                 else (0, True, bump ''volume_reset_detected'' st));
              turnover =
                (case (rq_turnover_amount q, previous_turnover) of
                   (Some t, Some p) \<Rightarrow> if p \<le> t then Some (dsub prec t p) else None
                 | _ \<Rightarrow> None)
          in (volume, turnover, is_partial, st))"

definition accept :: "int \<Rightarrow> instant \<Rightarrow> realtime_quote \<Rightarrow> aggregator \<Rightarrow>
    intraday_candle list result \<times> aggregator" where
  "accept days now q st =
     (if rq_event_kind q = SNAPSHOT
      then (Inr [], st\<lparr>cache := set_volume_baseline q (cache st)\<rparr>)
      else
        case baseline_delta q st of (volume_delta, turnover_delta, is_partial, st) \<Rightarrow>
        case update_one_minute days now q volume_delta turnover_delta is_partial
               (st\<lparr>cache := set_volume_baseline q (cache st)\<rparr>) of
          (None, st) \<Rightarrow> (Inr [], st)
        | (Some one, st) \<Rightarrow>
            (case derive_five_minute days now one st of
               (Inl e, st) \<Rightarrow> (Inl e, st)
             | (Inr five, st) \<Rightarrow> (Inr [one, five], bump ''quotes_aggregated'' st)))"

fun interval_value :: "intraday_interval \<Rightarrow> string" where
  "interval_value ONE_MINUTE = ''1m''"
| "interval_value FIVE_MINUTES = ''5m''"

definition finalize_step :: "int \<Rightarrow> instant \<Rightarrow> string \<Rightarrow> string \<Rightarrow> session \<Rightarrow> instant \<Rightarrow>
    intraday_candle list \<times> aggregator \<Rightarrow> intraday_interval \<Rightarrow> intraday_candle list \<times> aggregator" where
  "finalize_step days now market code s closed_at acc interval =
     (let (finalized, st) = acc in
      case get_current_candle interval market code s (cache st) of
        None \<Rightarrow> (finalized, st)
      | Some c \<Rightarrow>
          let c = close_candle c closed_at
          in (finalized @ [c], bump (''candles_'' @ interval_value interval @ ''_finalized'') (put days now c st)))"

definition finalize_session :: "int \<Rightarrow> instant \<Rightarrow> string \<Rightarrow> string \<Rightarrow> session \<Rightarrow> instant \<Rightarrow> aggregator \<Rightarrow>
    intraday_candle list \<times> aggregator" where
  "finalize_session days now market code s closed_at st =
     foldl (finalize_step days now market code s closed_at) ([], st) [ONE_MINUTE, FIVE_MINUTES]"

section \<open>Well-formed candles\<close>

definition range_ok :: "intraday_candle \<Rightarrow> bool" where
  "range_ok c \<longleftrightarrow> ic_low c \<le> ic_open c \<and> ic_open c \<le> ic_high c \<and> ic_low c \<le> ic_close c \<and> ic_close c \<le> ic_high c"

text \<open>Every stored candle of the aggregator, open or past, is well-formed.\<close>

definition all_ok :: "aggregator \<Rightarrow> bool" where
  "all_ok st \<longleftrightarrow> (\<forall>k c. current (cache st) k = Some c \<longrightarrow> range_ok c) \<and>
     (\<forall>k. \<forall>c \<in> set (history (cache st) k). range_ok c)"

lemma all_ok_every: "all_ok st = redis.every range_ok (cache st)"
  by (simp add: all_ok_def redis.every_def)

lemma all_ok_bump [simp]: "all_ok (bump n st) = all_ok st"
  by (simp add: all_ok_def bump_def)

lemma all_ok_baseline [simp]: "all_ok (st\<lparr>cache := set_volume_baseline q (cache st)\<rparr>) = all_ok st"
  by (simp add: all_ok_def set_volume_baseline_def)

lemma all_ok_put: "all_ok st \<Longrightarrow> range_ok c \<Longrightarrow> all_ok (put days now c st)"
  unfolding all_ok_every put_def by (simp add: redis.every_save)

lemma range_ok_new: "range_ok (new_candle q b v t s)"
  by (simp add: range_ok_def new_candle_def)

lemma range_ok_extend: "range_ok c \<Longrightarrow> range_ok (extend_candle q c v t s)"
  by (auto simp: range_ok_def extend_candle_def)

lemma range_ok_close [simp]: "range_ok (close_candle c t) = range_ok c"
  by (simp add: range_ok_def close_candle_def)

lemma get_candles_history:
  "c \<in> set (get_candles i m code s e n st) \<Longrightarrow> \<exists>k. c \<in> set (history st k)"
  by (auto simp: get_candles_def take_last_def dest!: in_set_dropD)

lemma five_minute_ok:
  assumes "five_minute one b ms = Inr c" and "\<forall>x \<in> set ms. range_ok x"
  shows "range_ok c"
proof -
  from assms(1) obtain h l where ne: "ms \<noteq> []" and "py_max (map ic_high ms) = Inr h"
    and "py_min (map ic_low ms) = Inr l"
    and c: "ic_open c = ic_open (hd ms)" "ic_close c = ic_close (last ms)" "ic_high c = h" "ic_low c = l"
    by (auto simp: five_minute_def rbind_eq_Inr split: if_splits)
  then have ends: "\<forall>x \<in> set ms. ic_high x \<le> h" "\<forall>x \<in> set ms. l \<le> ic_low x"
    using py_max_total [of "map ic_high ms"] py_min_total [of "map ic_low ms"] by auto
  have "hd ms \<in> set ms" "last ms \<in> set ms" using ne by simp_all
  with ends assms(2) show ?thesis unfolding range_ok_def c by (meson order_trans)
qed

lemma update_one_minute_ok:
  assumes "all_ok st" and "update_one_minute days now q v t p st = (one, st')"
  shows "all_ok st' \<and> (\<forall>c. one = Some c \<longrightarrow> range_ok c)"
proof -
  have open_ok: "current (cache st) k = Some c \<Longrightarrow> range_ok c" for k c
    using assms(1) by (simp add: all_ok_def)
  show ?thesis
    using assms
    by (auto simp: update_one_minute_def Let_def get_current_candle_def
        intro!: all_ok_put range_ok_new range_ok_extend intro: open_ok split: option.splits if_splits)
      (rule open_ok, assumption)+
qed

lemma derive_five_minute_ok:
  assumes "all_ok st" and "derive_five_minute days now one st = (r, st')"
  shows "all_ok st' \<and> (\<forall>c. r = Inr c \<longrightarrow> range_ok c)"
proof (cases "five_minute one (bucket (ic_bucket_start one) FIVE_MINUTES)
    (minutes_of one (bucket (ic_bucket_start one) FIVE_MINUTES) (cache st))")
  case (Inl e)
  with assms show ?thesis by (auto simp: derive_five_minute_def Let_def)
next
  case (Inr c)
  have "\<forall>x \<in> set (minutes_of one (bucket (ic_bucket_start one) FIVE_MINUTES) (cache st)). range_ok x"
    using assms(1) by (auto simp: minutes_of_def all_ok_def dest: get_candles_history)
  note c = five_minute_ok [OF Inr this]
  have open_ok: "current (cache st) k = Some e \<Longrightarrow> range_ok e" for k e
    using assms(1) by (simp add: all_ok_def)
  show ?thesis
    using assms Inr c
    by (auto simp: derive_five_minute_def Let_def get_current_candle_def
        intro!: all_ok_put split: option.splits if_splits) (rule open_ok, assumption)+
qed

lemma baseline_delta_cache:
  "baseline_delta q st = (v, t, p, st') \<Longrightarrow> cache st' = cache st"
  by (auto simp: baseline_delta_def Let_def bump_def split: option.splits if_splits)

lemma accept_ok:
  assumes "all_ok st" and "accept days now q st = (r, st')"
  shows "all_ok st' \<and> (\<forall>cs. r = Inr cs \<longrightarrow> (\<forall>c \<in> set cs. range_ok c))"
proof (cases "rq_event_kind q")
  case UPDATE
  obtain v t p st0 where d: "baseline_delta q st = (v, t, p, st0)" by (metis prod_cases4)
  define st1 where "st1 = st0\<lparr>cache := set_volume_baseline q (cache st0)\<rparr>"
  have ok1: "all_ok st1"
    using assms(1) baseline_delta_cache [OF d] by (simp add: st1_def all_ok_def set_volume_baseline_def)
  obtain one st2 where u: "update_one_minute days now q v t p st1 = (one, st2)" by (metis surj_pair)
  note ok2 = update_one_minute_ok [OF ok1 u]
  show ?thesis
  proof (cases one)
    case None
    with assms(2) UPDATE d u ok2 show ?thesis by (auto simp: accept_def st1_def)
  next
    case (Some c)
    obtain f st3 where f: "derive_five_minute days now c st2 = (f, st3)" by (metis surj_pair)
    have "all_ok st3 \<and> (\<forall>c. f = Inr c \<longrightarrow> range_ok c)"
      by (rule derive_five_minute_ok [OF _ f]) (use ok2 in simp)
    with assms(2) UPDATE d u ok2 Some f show ?thesis
      by (cases f) (auto simp: accept_def st1_def)
  qed
qed (use assms in \<open>auto simp: accept_def\<close>)

lemma finalize_ok:
  assumes "all_ok st"
  shows "all_ok (snd (finalize_session days now market code s t st))"
proof -
  have "all_ok (snd (finalize_step days now market code s t acc i))" if "all_ok (snd acc)" for acc i
    using that by (auto simp: finalize_step_def Let_def get_current_candle_def case_prod_unfold
        intro!: all_ok_put split: option.split) (simp add: all_ok_def)
  then show ?thesis using assms by (simp add: finalize_session_def)
qed

section \<open>Volume\<close>

lemma zset_inj: "zset_ok hs \<Longrightarrow> inj_on ic_bucket_start (set hs)"
  by (simp add: zset_ok_def strict_sorted_iff distinct_map)

definition total_volume :: "intraday_candle list \<Rightarrow> int" where
  "total_volume hs = sum_list (map ic_volume hs)"

lemma total_volume_set: "zset_ok hs \<Longrightarrow> total_volume hs = (\<Sum>c \<in> set hs. ic_volume c)"
  by (simp add: total_volume_def zset_ok_def strict_sorted_iff distinct_map sum_list_distinct_conv_sum_set)

lemma put_replace:
  assumes "zset_ok hs" and "c \<in> set hs" and "ic_bucket_start c' = ic_bucket_start c"
  shows "total_volume (zset_put c' hs) = total_volume hs - ic_volume c + ic_volume c'"
proof -
  have rest: "{x \<in> set hs. ic_bucket_start x \<noteq> ic_bucket_start c'} = set hs - {c}"
    using zset_inj [OF assms(1)] assms(2,3) by (auto dest: inj_onD)
  have "total_volume (zset_put c' hs) = (\<Sum>x \<in> insert c' (set hs - {c}). ic_volume x)"
    using total_volume_set [OF zset_put_ok [OF assms(1), of c']] by (simp add: zset_put_set rest)
  also have "\<dots> = ic_volume c' + (\<Sum>x \<in> set hs - {c}. ic_volume x)"
  proof (rule sum.insert)
    show "c' \<notin> set hs - {c}" using zset_inj [OF assms(1)] assms(2,3) by (auto dest: inj_onD)
  qed simp
  finally show ?thesis
    using assms(2) by (simp add: sum_diff1 total_volume_set [OF assms(1)])
qed

lemma put_fresh:
  assumes "zset_ok hs" and "\<forall>x \<in> set hs. ic_bucket_start x \<noteq> ic_bucket_start c'"
  shows "total_volume (zset_put c' hs) = total_volume hs + ic_volume c'"
proof -
  have rest: "{x \<in> set hs. ic_bucket_start x \<noteq> ic_bucket_start c'} = set hs" using assms(2) by auto
  have "c' \<notin> set hs" using assms(2) by auto
  then show ?thesis
    using total_volume_set [OF zset_put_ok [OF assms(1), of c']] total_volume_set [OF assms(1)]
    by (simp add: zset_put_set rest)
qed

lemma bucket_mono: "t \<le> t' \<Longrightarrow> fst (bucket t ONE_MINUTE) \<le> fst (bucket t' ONE_MINUTE)"
  by (simp add: bucket_floor minute_def minus_mod_eq_div_mult zdiv_mono1)

definition minute_key :: "realtime_quote \<Rightarrow> candle_key" where
  "minute_key q = candle_key ONE_MINUTE (rq_market_id q) (rq_code q) (rq_session q)"

definition follows :: "(instant \<times> int option) option \<Rightarrow> realtime_quote \<Rightarrow> bool" where
  "follows prev q \<longleftrightarrow> (case prev of None \<Rightarrow> True
     | Some (t, s) \<Rightarrow> t \<le> rq_exchange_timestamp q \<and>
         (case (rq_sequence q, s) of (Some a, Some b) \<Rightarrow> b < a | _ \<Rightarrow> True))"

text \<open>The open candle is the last of the history and stems from the quote \<open>prev\<close>.\<close>

definition minute_inv :: "candle_key \<Rightarrow> instant \<Rightarrow> (instant \<times> int option) option \<Rightarrow> aggregator \<Rightarrow> bool" where
  "minute_inv k lo prev st \<longleftrightarrow>
     zset_ok (history (cache st) k) \<and> (\<forall>c \<in> set (history (cache st) k). lo < ic_bucket_start c) \<and>
     (case prev of None \<Rightarrow> history (cache st) k = [] \<and> current (cache st) k = None
      | Some (t, s) \<Rightarrow> \<exists>c. current (cache st) k = Some c \<and> c \<in> set (history (cache st) k) \<and> key_of c = k \<and>
          ic_bucket_start c = fst (bucket t ONE_MINUTE) \<and> ic_updated_at c = t \<and> ic_last_sequence c = s \<and>
          (\<forall>x \<in> set (history (cache st) k). ic_bucket_start x \<le> ic_bucket_start c))"

lemma put_history:
  assumes "key_of c = k" and "now - retention days \<le> lo"
    and "\<forall>x \<in> set (history (cache st) k). lo < ic_bucket_start x" and "lo < ic_bucket_start c"
  shows "history (cache (put days now c st)) k = zset_put c (history (cache st) k)"
proof -
  have "\<forall>x \<in> set (zset_put c (history (cache st) k)). now - retention days < ic_bucket_start x"
    using assms by (auto simp: zset_put_set)
  then show ?thesis using assms(1) by (simp add: put_def save_candle_def Let_def zset_prune_id)
qed

lemma put_current: "current (cache (put days now c st)) k =
    (if k = key_of c then (if ic_is_final c then None else Some c) else current (cache st) k)"
  by (simp add: put_def save_candle_def Let_def)

lemma cache_bump [simp]: "cache (bump n st) = cache st"
  by (simp add: bump_def)

lemma put_baseline [simp]: "baseline (cache (put days now c st)) = baseline (cache st)"
  by (simp add: put_def save_candle_def Let_def)

lemma minute_inv_first:
  assumes "minute_inv k lo None st" and "minute_key q = k" and "lo < fst (bucket (rq_exchange_timestamp q) ONE_MINUTE)"
    and "now - retention days \<le> lo"
    and "c = new_candle q (bucket (rq_exchange_timestamp q) ONE_MINUTE) v t s"
  shows "minute_inv k lo (Some (rq_exchange_timestamp q, rq_sequence q)) (put days now c st) \<and>
    total_volume (history (cache (put days now c st)) k) = total_volume (history (cache st) k) + v"
proof -
  have c: "key_of c = k" "ic_bucket_start c = fst (bucket (rq_exchange_timestamp q) ONE_MINUTE)"
    "ic_updated_at c = rq_exchange_timestamp q" "ic_last_sequence c = rq_sequence q" "\<not> ic_is_final c" "ic_volume c = v"
    using assms(2,5) by (simp_all add: key_of_def minute_key_def new_candle_def)
  have h: "history (cache st) k = []" using assms(1) by (simp add: minute_inv_def)
  have "history (cache (put days now c st)) k = [c]"
    using put_history [OF c(1) assms(4)] assms(3) c h by (simp add: zset_put_def)
  with c assms(3) h show ?thesis
    by (simp add: minute_inv_def put_current zset_ok_def total_volume_def)
qed

lemma minute_inv_extend:
  assumes "minute_inv k lo (Some (t0, s0)) st" and "minute_key q = k"
    and "now - retention days \<le> lo" and "current (cache st) k = Some cur"
    and "ic_bucket_start cur = fst (bucket (rq_exchange_timestamp q) ONE_MINUTE)" and "\<not> ic_is_final cur"
    and "c = extend_candle q cur v t s"
  shows "minute_inv k lo (Some (rq_exchange_timestamp q, rq_sequence q)) (put days now c st) \<and>
    total_volume (history (cache (put days now c st)) k) = total_volume (history (cache st) k) + v"
proof -
  from assms(1,4) have cur: "cur \<in> set (history (cache st) k)" "key_of cur = k" "zset_ok (history (cache st) k)"
    "\<forall>x \<in> set (history (cache st) k). lo < ic_bucket_start x \<and> ic_bucket_start x \<le> ic_bucket_start cur"
    by (auto simp: minute_inv_def)
  have c: "key_of c = k" "ic_bucket_start c = ic_bucket_start cur"
    "ic_updated_at c = rq_exchange_timestamp q" "ic_last_sequence c = rq_sequence q" "\<not> ic_is_final c"
    "ic_volume c = ic_volume cur + v"
    using assms(6,7) cur(2) by (simp_all add: key_of_def extend_candle_def)
  have h: "history (cache (put days now c st)) k = zset_put c (history (cache st) k)"
    using put_history [OF c(1) assms(3)] c cur by simp
  have "lo < ic_bucket_start cur" using cur by blast
  then show ?thesis
    using cur c assms(5) put_replace [OF cur(3,1) c(2)] zset_put_ok [OF cur(3)]
    by (simp add: minute_inv_def put_current h zset_put_set)
qed

lemma minute_inv_next:
  assumes "minute_inv k lo (Some (t0, s0)) st" and "minute_key q = k"
    and "now - retention days \<le> lo" and "current (cache st) k = Some cur"
    and "ic_bucket_start cur < fst (bucket (rq_exchange_timestamp q) ONE_MINUTE)"
    and "st1 = put days now (close_candle cur u) st"
    and "cache st2 = cache st1"
    and "c = new_candle q (bucket (rq_exchange_timestamp q) ONE_MINUTE) v t s"
  shows "minute_inv k lo (Some (rq_exchange_timestamp q, rq_sequence q)) (put days now c st2) \<and>
    total_volume (history (cache (put days now c st2)) k) = total_volume (history (cache st) k) + v"
proof -
  from assms(1,4) have cur: "cur \<in> set (history (cache st) k)" "key_of cur = k" "zset_ok (history (cache st) k)"
    "\<forall>x \<in> set (history (cache st) k). lo < ic_bucket_start x \<and> ic_bucket_start x \<le> ic_bucket_start cur"
    by (auto simp: minute_inv_def)
  let ?d = "close_candle cur u"
  have d: "key_of ?d = k" "ic_bucket_start ?d = ic_bucket_start cur" "ic_volume ?d = ic_volume cur"
    using cur(2) by (simp_all add: key_of_def close_candle_def)
  have h1: "history (cache st2) k = zset_put ?d (history (cache st) k)"
    using put_history [OF d(1) assms(3)] d cur assms(6,7) by simp
  have ok1: "zset_ok (history (cache st2) k)" using cur by (simp add: h1 zset_put_ok)
  have set1: "\<forall>x \<in> set (history (cache st2) k). lo < ic_bucket_start x \<and> ic_bucket_start x \<le> ic_bucket_start cur"
    using cur d by (auto simp: h1 zset_put_set)
  have c: "key_of c = k" "ic_bucket_start c = fst (bucket (rq_exchange_timestamp q) ONE_MINUTE)"
    "ic_updated_at c = rq_exchange_timestamp q" "ic_last_sequence c = rq_sequence q" "\<not> ic_is_final c" "ic_volume c = v"
    using assms(2,8) by (simp_all add: key_of_def minute_key_def new_candle_def)
  have lo: "lo < ic_bucket_start c" using cur c assms(5) by force
  have h2: "history (cache (put days now c st2)) k = zset_put c (history (cache st2) k)"
    by (rule put_history [OF c(1) assms(3)]) (use set1 lo in auto)
  have fresh: "\<forall>x \<in> set (history (cache st2) k). ic_bucket_start x \<noteq> ic_bucket_start c"
    using set1 c assms(5) by force
  have "total_volume (history (cache st2) k) = total_volume (history (cache st) k)"
    using put_replace [OF cur(3,1) d(2)] d by (simp add: h1)
  with put_fresh [OF ok1 fresh] have "total_volume (history (cache (put days now c st2)) k) =
      total_volume (history (cache st) k) + v" by (simp add: h2 c)
  moreover have "minute_inv k lo (Some (rq_exchange_timestamp q, rq_sequence q)) (put days now c st2)"
  proof -
    have "\<forall>x \<in> set (zset_put c (history (cache st2) k)). lo < ic_bucket_start x \<and> ic_bucket_start x \<le> ic_bucket_start c"
      using set1 lo c(2) assms(5) by (auto simp: zset_put_set)
    then show ?thesis
      using c zset_put_ok [OF ok1, of c] by (simp add: minute_inv_def put_current h2) (simp add: zset_put_set)
  qed
  ultimately show ?thesis by simp
qed

lemma update_one_minute_step:
  assumes inv: "minute_inv k lo prev st" and k: "minute_key q = k" and "follows prev q"
    and lo: "lo < fst (bucket (rq_exchange_timestamp q) ONE_MINUTE)" and days: "now - retention days \<le> lo"
    and live: "\<forall>c. current (cache st) k = Some c \<longrightarrow> \<not> ic_is_final c"
    and run: "update_one_minute days now q v t p st = (one, st')"
  shows "one \<noteq> None \<and> minute_inv k lo (Some (rq_exchange_timestamp q, rq_sequence q)) st' \<and>
    (\<forall>c. current (cache st') k = Some c \<longrightarrow> \<not> ic_is_final c) \<and>
    total_volume (history (cache st') k) = total_volume (history (cache st) k) + v \<and>
    baseline (cache st') = baseline (cache st)"
proof -
  let ?b = "bucket (rq_exchange_timestamp q) ONE_MINUTE"
  let ?s = "if p then RtStale else rq_data_status q"
  have get: "get_current_candle ONE_MINUTE (rq_market_id q) (rq_code q) (rq_session q) s = current s k" for s
    using k by (simp add: get_current_candle_def minute_key_def)
  have bump_inv: "minute_inv k lo pr (bump n s) = minute_inv k lo pr s" for pr n s
    by (simp add: minute_inv_def cong: option.case_cong)
  show ?thesis
  proof (cases prev)
    case None
    then have "current (cache st) k = None" using inv by (simp add: minute_inv_def)
    then have st': "one = Some (new_candle q ?b v t ?s)"
      "st' = put days now (new_candle q ?b v t ?s) (bump ''candles_1m_created'' st)"
      using run by (simp_all add: update_one_minute_def Let_def get)
    have "minute_inv k lo None (bump ''candles_1m_created'' st)" using inv None by (simp add: bump_inv)
    from minute_inv_first [OF this k lo days refl] show ?thesis
      unfolding st' by (simp add: put_current) (use k in \<open>auto simp: new_candle_def key_of_def minute_key_def\<close>)
  next
    case (Some ts)
    obtain t0 s0 where ts: "ts = (t0, s0)" by (cases ts)
    from inv Some ts obtain cur where cur: "current (cache st) k = Some cur" "key_of cur = k"
      "ic_bucket_start cur = fst (bucket t0 ONE_MINUTE)" "ic_updated_at cur = t0" "ic_last_sequence cur = s0"
      by (auto simp: minute_inv_def)
    have order: "\<not> out_of_order q cur"
      using assms(3) Some ts cur by (auto simp: follows_def out_of_order_def split: option.splits)
    have le: "ic_bucket_start cur \<le> fst ?b"
      using assms(3) Some ts cur bucket_mono by (simp add: follows_def)
    show ?thesis
    proof (cases "ic_bucket_start cur = fst ?b")
      case True
      let ?c = "extend_candle q cur v t ?s"
      have st': "one = Some ?c" "st' = put days now ?c (bump ''candles_1m_updated'' st)"
        using run cur order True by (simp_all add: update_one_minute_def Let_def get)
      have pre: "minute_inv k lo (Some (t0, s0)) (bump ''candles_1m_updated'' st)"
        using inv Some ts by (simp add: bump_inv)
      have "current (cache (bump ''candles_1m_updated'' st)) k = Some cur" using cur by simp
      from minute_inv_extend [OF pre k days this True _ refl] live cur show ?thesis
        unfolding st' by (simp add: put_current extend_candle_def)
    next
      case False
      let ?st1 = "put days now (close_candle cur (rq_received_at q)) st"
      let ?st2 = "bump ''candles_1m_created'' (bump ''candles_1m_finalized'' ?st1)"
      let ?c = "new_candle q ?b v t ?s"
      have st': "one = Some ?c" "st' = put days now ?c ?st2"
        using run cur order False by (simp_all add: update_one_minute_def Let_def get)
      have pre: "minute_inv k lo (Some (t0, s0)) st" using inv Some ts by simp
      have lt: "ic_bucket_start cur < fst ?b" using le False by simp
      have c2: "cache ?st2 = cache ?st1" by simp
      from minute_inv_next [OF pre k days cur(1) lt refl c2 refl, of v t ?s] show ?thesis
        unfolding st' by (simp add: put_current) (use k in \<open>auto simp: new_candle_def key_of_def minute_key_def\<close>)
    qed
  qed
qed

text \<open>Open candles are stored under their own key, and are not final.\<close>

definition keyed :: "aggregator \<Rightarrow> bool" where
  "keyed st \<longleftrightarrow> (\<forall>k c. current (cache st) k = Some c \<longrightarrow> key_of c = k \<and> \<not> ic_is_final c)"

lemma keyed_put: "keyed st \<Longrightarrow> keyed (put days now c st)"
  by (simp add: keyed_def put_current)

lemma keyed_bump [simp]: "keyed (bump n st) = keyed st"
  by (simp add: keyed_def)

lemma keyed_update: "keyed st \<Longrightarrow> update_one_minute days now q v t p st = (one, st') \<Longrightarrow> keyed st'"
  by (auto simp: update_one_minute_def Let_def intro!: keyed_put split: option.splits if_splits)

lemma keyed_derive: "keyed st \<Longrightarrow> derive_five_minute days now one st = (r, st') \<Longrightarrow> keyed st'"
  by (auto simp: derive_five_minute_def Let_def intro!: keyed_put split: option.splits if_splits sum.splits)

text \<open>The five-minute candles are kept under other keys.\<close>

lemma put_other:
  assumes "key_of c \<noteq> k"
  shows "history (cache (put days now c s)) k = history (cache s) k \<and>
    current (cache (put days now c s)) k = current (cache s) k"
  using assms by (auto simp: put_def save_candle_def Let_def)

lemma derive_other:
  assumes "derive_five_minute days now one st = (r, st')" and "fst k = ONE_MINUTE" and "keyed st"
  shows "history (cache st') k = history (cache st) k \<and> current (cache st') k = current (cache st) k \<and>
    baseline (cache st') = baseline (cache st)"
proof (cases "five_minute one (bucket (ic_bucket_start one) FIVE_MINUTES)
    (minutes_of one (bucket (ic_bucket_start one) FIVE_MINUTES) (cache st))")
  case (Inl e)
  with assms show ?thesis by (auto simp: derive_five_minute_def Let_def)
next
  case (Inr c)
  then have "ic_interval c = FIVE_MINUTES" by (auto simp: five_minute_def rbind_eq_Inr split: if_splits)
  then have c: "key_of c \<noteq> k" using assms(2) by (auto simp: key_of_def candle_key_def)
  have e: "key_of (close_candle e u) \<noteq> k"
    if "get_current_candle FIVE_MINUTES (ic_market_id one) (ic_code one) (ic_session one) (cache st) = Some e" for e u
    using that assms(2,3) by (auto simp: keyed_def get_current_candle_def close_candle_def key_of_def candle_key_def)
  show ?thesis
    using assms(1) Inr put_other [OF c] put_other [OF e]
    by (auto simp: derive_five_minute_def Let_def split: option.splits if_splits)
qed

lemma accept_step:
  assumes "rq_event_kind q = UPDATE" and inv: "minute_inv k lo prev st" and k: "minute_key q = k"
    and "follows prev q" and lo: "lo < fst (bucket (rq_exchange_timestamp q) ONE_MINUTE)"
    and days: "now - retention days \<le> lo" and "keyed st"
    and base: "get_volume_baseline q (cache st) = Some (pv, pt)" and "pv \<le> rq_total_volume q"
  shows "\<exists>r st'. accept days now q st = (r, st') \<and> r \<noteq> Inr [] \<and> keyed st' \<and>
    minute_inv k lo (Some (rq_exchange_timestamp q, rq_sequence q)) st' \<and>
    total_volume (history (cache st') k) = total_volume (history (cache st) k) + (rq_total_volume q - pv) \<and>
    get_volume_baseline q (cache st') = Some (rq_total_volume q, rq_turnover_amount q)"
proof -
  obtain v t p st0 where d: "baseline_delta q st = (v, t, p, st0)" by (metis prod_cases4)
  have v: "v = rq_total_volume q - pv" and st0: "cache st0 = cache st"
    using d base assms(9) by (auto simp: baseline_delta_def Let_def)
  define st1 where "st1 = st0\<lparr>cache := set_volume_baseline q (cache st0)\<rparr>"
  have fields: "history (cache st1) = history (cache st)" "current (cache st1) = current (cache st)"
    by (simp_all add: st1_def st0 set_volume_baseline_def)
  have inv1: "minute_inv k lo prev st1" and keyed1: "keyed st1"
    using inv assms(7) by (simp_all add: minute_inv_def keyed_def fields cong: option.case_cong)
  have live: "\<forall>c. current (cache st1) k = Some c \<longrightarrow> \<not> ic_is_final c"
    using keyed1 unfolding keyed_def by blast
  obtain one st2 where u: "update_one_minute days now q v t p st1 = (one, st2)" by (metis surj_pair)
  note step = update_one_minute_step [OF inv1 k assms(4) lo days live u]
  have two: "one \<noteq> None" "minute_inv k lo (Some (rq_exchange_timestamp q, rq_sequence q)) st2"
    "total_volume (history (cache st2) k) = total_volume (history (cache st) k) + v"
    "baseline (cache st2) = baseline (cache st1)"
    using step unfolding fields by blast+
  then obtain c where c: "one = Some c" by auto
  obtain f st3 where f: "derive_five_minute days now c st2 = (f, st3)" by (metis surj_pair)
  have keyed2: "keyed st2" using keyed_update [OF keyed1 u] .
  have "fst k = ONE_MINUTE" using k by (auto simp: minute_key_def candle_key_def)
  note three = derive_other [OF f this keyed2]
  have acc: "accept days now q st =
      (case f of Inl e \<Rightarrow> (Inl e, st3) | Inr five \<Rightarrow> (Inr [c, five], bump ''quotes_aggregated'' st3))"
    using assms(1) d u c f by (simp add: accept_def st1_def)
  have inv3: "minute_inv k lo (Some (rq_exchange_timestamp q, rq_sequence q)) s" if "cache s = cache st3" for s
    using two(2) three that by (simp add: minute_inv_def cong: option.case_cong)
  have base3: "get_volume_baseline q (cache st3) = Some (rq_total_volume q, rq_turnover_amount q)"
    using two(4) three by (simp add: get_volume_baseline_def st1_def set_volume_baseline_def st0)
  have keyed3: "keyed st3" using keyed_derive [OF keyed2 f] .
  show ?thesis
    using acc inv3 base3 keyed3 two(3) three v by (cases f) auto
qed

text \<open>A session: a snapshot sets the baseline, then updates arrive in order.\<close>

definition feed_quotes :: "int \<Rightarrow> (instant \<times> realtime_quote) list \<Rightarrow> aggregator \<Rightarrow> aggregator" where
  "feed_quotes days qs st = foldl (\<lambda>st (now, q). snd (accept days now q st)) st qs"

fun in_order :: "(instant \<times> int option) option \<Rightarrow> int \<Rightarrow> realtime_quote list \<Rightarrow> bool" where
  "in_order prev volume [] = True"
| "in_order prev volume (q # qs) =
     (follows prev q \<and> volume \<le> rq_total_volume q \<and>
      in_order (Some (rq_exchange_timestamp q, rq_sequence q)) (rq_total_volume q) qs)"

definition session_start :: "realtime_quote \<Rightarrow> aggregator" where
  "session_start q = snd (accept 5 0 q \<lparr>cache = empty_cache, metrics = (\<lambda>_. 0)\<rparr>)"

lemma feed_quotes_volume:
  assumes "in_order prev pv (map snd qs)" and "minute_inv k lo prev st" and "keyed st"
    and "\<forall>(now, q) \<in> set qs. rq_event_kind q = UPDATE \<and> minute_key q = k \<and>
      lo < fst (bucket (rq_exchange_timestamp q) ONE_MINUTE) \<and> now - retention days \<le> lo"
    and "baseline (cache st) (snd k) = Some (pv, pt)"
  shows "total_volume (history (cache (feed_quotes days qs st)) k) = total_volume (history (cache st) k) +
    ((if qs = [] then pv else rq_total_volume (snd (last qs))) - pv)"
  using assms
proof (induction qs arbitrary: prev pv pt st)
  case (Cons nq qs)
  obtain now q where nq: "nq = (now, q)" by (cases nq)
  from Cons.prems have q: "rq_event_kind q = UPDATE" "minute_key q = k" "follows prev q" "pv \<le> rq_total_volume q"
    "lo < fst (bucket (rq_exchange_timestamp q) ONE_MINUTE)" "now - retention days \<le> lo"
    and rest: "in_order (Some (rq_exchange_timestamp q, rq_sequence q)) (rq_total_volume q) (map snd qs)"
    by (auto simp: nq)
  have key: "get_volume_baseline q s = baseline s (snd k)" for s
    using q(2) by (auto simp: get_volume_baseline_def baseline_key_def minute_key_def candle_key_def)
  obtain r st' where st': "accept days now q st = (r, st')" "keyed st'"
    "minute_inv k lo (Some (rq_exchange_timestamp q, rq_sequence q)) st'"
    "total_volume (history (cache st') k) = total_volume (history (cache st) k) + (rq_total_volume q - pv)"
    "baseline (cache st') (snd k) = Some (rq_total_volume q, rq_turnover_amount q)"
    using accept_step [OF q(1) Cons.prems(2) q(2,3,5,6) Cons.prems(3) _ q(4)] Cons.prems(5) by (auto simp: key)
  have "total_volume (history (cache (feed_quotes days qs st')) k) = total_volume (history (cache st') k) +
      ((if qs = [] then rq_total_volume q else rq_total_volume (snd (last qs))) - rq_total_volume q)"
    by (rule Cons.IH [OF rest st'(3,2) _ st'(5)]) (use Cons.prems(4) in auto)
  then show ?case using st'(1,4) by (simp add: feed_quotes_def nq)
qed (simp add: feed_quotes_def)

text \<open>
  C7. No traded volume is lost or counted twice by one-minute aggregation: after a snapshot and
  any sequence of in-order updates of one security and session, however they fall into minutes,
  the volumes of its one-minute candles add up to the last cumulative volume minus that of the
  snapshot.
\<close>

lemma session_volume_conserved:
  assumes "rq_event_kind q0 = SNAPSHOT" and "qs \<noteq> []" and "in_order None (rq_total_volume q0) (map snd qs)"
    and "\<forall>(now, q) \<in> set qs. rq_event_kind q = UPDATE \<and> minute_key q = minute_key q0 \<and>
      lo < fst (bucket (rq_exchange_timestamp q) ONE_MINUTE) \<and> now - retention days \<le> lo"
  shows "total_volume (history (cache (feed_quotes days qs (session_start q0))) (minute_key q0)) =
    rq_total_volume (snd (last qs)) - rq_total_volume q0"
proof -
  let ?st = "session_start q0"
  have st: "cache ?st = set_volume_baseline q0 empty_cache"
    using assms(1) by (simp add: session_start_def accept_def)
  have inv: "minute_inv (minute_key q0) lo None ?st" and keyed: "keyed ?st"
    by (simp_all add: minute_inv_def keyed_def st set_volume_baseline_def empty_cache_def zset_ok_def)
  have "snd (minute_key q0) = baseline_key q0" by (simp add: minute_key_def candle_key_def baseline_key_def)
  then have base: "baseline (cache ?st) (snd (minute_key q0)) = Some (rq_total_volume q0, rq_turnover_amount q0)"
    by (simp add: st set_volume_baseline_def)
  have "total_volume (history (cache ?st) (minute_key q0)) = 0"
    by (simp add: st set_volume_baseline_def empty_cache_def total_volume_def)
  with feed_quotes_volume [OF assms(3) inv keyed assms(4) base] assms(2) show ?thesis by simp
qed

definition ms :: "int \<Rightarrow> instant" where "ms n = n * 1000"

definition session_quotes :: "(instant \<times> realtime_quote) list" where
  "session_quotes =
     [(ms 1000, example_quote (Some 1) (ms 10000) 100 150), (ms 2000, example_quote (Some 2) (ms 50000) 104 180),
      (ms 3000, example_quote (Some 3) (ms 130000) 99 260)]"

definition opening_snapshot :: realtime_quote where
  "opening_snapshot = (example_quote (Some 0) 0 100 120)\<lparr>rq_event_kind := SNAPSHOT\<rparr>"

lemma session_volume_conserved_witness:
  "total_volume (history (cache (feed_quotes 5 session_quotes (session_start opening_snapshot)))
     (minute_key opening_snapshot)) = 140"
proof -
  have "in_order None (rq_total_volume opening_snapshot) (map snd session_quotes)"
    by (simp add: session_quotes_def opening_snapshot_def example_quote_def follows_def ms_def)
  moreover have "\<forall>(now, q) \<in> set session_quotes. rq_event_kind q = UPDATE \<and> minute_key q = minute_key opening_snapshot \<and>
      ms (- 60000) < fst (bucket (rq_exchange_timestamp q) ONE_MINUTE) \<and> now - retention 5 \<le> ms (- 60000)"
    by (simp add: session_quotes_def opening_snapshot_def example_quote_def ms_def minute_key_def
        bucket_floor minute_def retention_def)
  moreover have "rq_event_kind opening_snapshot = SNAPSHOT" "session_quotes \<noteq> []"
    "rq_total_volume opening_snapshot = 120" "rq_total_volume (snd (last session_quotes)) = 260"
    by (simp_all add: opening_snapshot_def session_quotes_def example_quote_def)
  ultimately show ?thesis using session_volume_conserved [of opening_snapshot session_quotes "ms (- 60000)" 5] by simp
qed

text \<open>
  Out-of-order updates change no candle, but they do replace the volume baseline: the volume
  they carry is dropped with them and is missing from every later candle.
\<close>

lemma out_of_order_moves_baseline:
  assumes "rq_event_kind q = UPDATE" and "current (cache st) (minute_key q) = Some c" and "out_of_order q c"
  shows "\<exists>st'. accept days now q st = (Inr [], st') \<and>
    history (cache st') = history (cache st) \<and> current (cache st') = current (cache st) \<and>
    get_volume_baseline q (cache st') = Some (rq_total_volume q, rq_turnover_amount q)"
proof -
  obtain v t p st0 where d: "baseline_delta q st = (v, t, p, st0)" by (metis prod_cases4)
  define st1 where "st1 = st0\<lparr>cache := set_volume_baseline q (cache st0)\<rparr>"
  have c1: "cache st1 = set_volume_baseline q (cache st)"
    using baseline_delta_cache [OF d] by (simp add: st1_def)
  then have "update_one_minute days now q v t p st1 = (None, bump ''out_of_order_dropped'' st1)"
    using assms(2,3) by (simp add: update_one_minute_def Let_def get_current_candle_def minute_key_def set_volume_baseline_def)
  then have "accept days now q st = (Inr [], bump ''out_of_order_dropped'' st1)"
    using assms(1) d by (simp add: accept_def st1_def)
  then show ?thesis by (simp add: c1 set_volume_baseline_def get_volume_baseline_def)
qed

definition late_quote :: realtime_quote where
  "late_quote = example_quote (Some 4) (ms 120000) 98 300"

lemma out_of_order_moves_baseline_witness:
  "\<exists>st c st'. current (cache st) (minute_key late_quote) = Some c \<and>
     accept 5 (ms 4000) late_quote st = (Inr [], st') \<and> history (cache st') = history (cache st) \<and>
     get_volume_baseline late_quote (cache st') = Some (300, None)"
proof -
  define c where "c = new_candle (example_quote (Some 3) (ms 130000) 99 260) (bucket (ms 130000) ONE_MINUTE) 80 None RtLive"
  define st where "st = \<lparr>cache = empty_cache\<lparr>current := (\<lambda>_. None)(minute_key late_quote \<mapsto> c)\<rparr>, metrics = (\<lambda>_. 0)\<rparr>"
  have cur: "current (cache st) (minute_key late_quote) = Some c" by (simp add: st_def)
  moreover have "rq_event_kind late_quote = UPDATE" "rq_total_volume late_quote = 300" "rq_turnover_amount late_quote = None"
    by (simp_all add: late_quote_def example_quote_def)
  moreover have "out_of_order late_quote c"
    by (simp add: out_of_order_def late_quote_def c_def new_candle_def example_quote_def ms_def)
  ultimately show ?thesis using out_of_order_moves_baseline [of late_quote st c 5 "ms 4000"] by auto
qed

text \<open>
  C20. Every candle the aggregator ever stores or returns, of one or of five minutes, open or final,
  has its open and close between its low and high.
\<close>

lemma candles_well_formed:
  assumes "all_ok st" and "accept days now q st = (r, st')"
  shows "all_ok st' \<and> all_ok (snd (finalize_session days now market code s t st)) \<and>
    (\<forall>cs. r = Inr cs \<longrightarrow> (\<forall>c \<in> set cs. range_ok c))"
  using accept_ok [OF assms] finalize_ok [OF assms(1)] by blast

lemma candles_well_formed_witness:
  "\<exists>r st'. accept 5 0 late_quote (session_start opening_snapshot) = (r, st') \<and> all_ok st'"
proof -
  have "all_ok (session_start opening_snapshot)"
    by (simp add: session_start_def accept_def opening_snapshot_def example_quote_def all_ok_def
        set_volume_baseline_def empty_cache_def)
  moreover obtain r st' where run: "accept 5 0 late_quote (session_start opening_snapshot) = (r, st')"
    by (metis surj_pair)
  ultimately show ?thesis using candles_well_formed [OF _ run] by blast
qed

end
