(* ===== verification/AlertRules.thy ===== *)
theory AlertRules
  imports MarketTypes
begin

text \<open>
  Alert rules (\<open>app/domain/alert.py\<close>) and their evaluation on the daily history of a security
  (\<open>app/services/alert_evaluators.py\<close>). The text of a message is kept as its parts: the code of
  the security, the label as a constructor per label of the source, and the reference type.
\<close>

section \<open>Rules and points\<close>

datatype alert_rule_type =
    PRICE_TARGET | PRICE_STOP | PRICE_ADD
  | MA_NEAR | MA_TOUCH | MA_CROSS_ABOVE | MA_CROSS_BELOW | MA_CLOSE_ABOVE | MA_CLOSE_BELOW
  | MA_CONSECUTIVE_ABOVE | MA_CONSECUTIVE_BELOW

fun rule_value :: "alert_rule_type \<Rightarrow> string" where
  "rule_value PRICE_TARGET = ''PRICE_TARGET''"
| "rule_value PRICE_STOP = ''PRICE_STOP''"
| "rule_value PRICE_ADD = ''PRICE_ADD''"
| "rule_value MA_NEAR = ''MA_NEAR''"
| "rule_value MA_TOUCH = ''MA_TOUCH''"
| "rule_value MA_CROSS_ABOVE = ''MA_CROSS_ABOVE''"
| "rule_value MA_CROSS_BELOW = ''MA_CROSS_BELOW''"
| "rule_value MA_CLOSE_ABOVE = ''MA_CLOSE_ABOVE''"
| "rule_value MA_CLOSE_BELOW = ''MA_CLOSE_BELOW''"
| "rule_value MA_CONSECUTIVE_ABOVE = ''MA_CONSECUTIVE_ABOVE''"
| "rule_value MA_CONSECUTIVE_BELOW = ''MA_CONSECUTIVE_BELOW''"

text \<open>\<open>value.startswith(prefix)\<close>\<close>

definition starts_with :: "string \<Rightarrow> string \<Rightarrow> bool" where
  "starts_with pre s \<longleftrightarrow> take (length pre) s = pre"

datatype alert_scope = SECURITY | PORTFOLIO | WATCHLIST

datatype evaluation_mode = EOD | REALTIME

datatype session_scope = REGULAR_SCOPE

definition ma_period_choices :: "int list" where
  "ma_period_choices = [5, 10, 20, 60, 120, 240]"

record rule_values =
  ar_name :: string
  ar_rule_type :: alert_rule_type
  ar_scope_type :: alert_scope
  ar_security_id :: "uuid option"
  ar_portfolio_id :: "uuid option"
  ar_watchlist_id :: "uuid option"
  ar_ma_period :: "int option"
  ar_threshold_price :: "decimal option"
  ar_threshold_percent :: "decimal option"
  ar_consecutive_days :: "int option"
  ar_enabled :: bool
  ar_cooldown_minutes :: int
  ar_daily_limit :: int
  ar_evaluation_mode :: evaluation_mode
  ar_session_scope :: session_scope

record alert_rule = rule_values +
  ar_id :: uuid
  ar_created_at :: instant
  ar_updated_at :: instant

record market_point =
  mp_security_id :: uuid
  mp_trade_date :: date
  mp_open :: "decimal option"
  mp_high :: "decimal option"
  mp_low :: "decimal option"
  mp_close :: "decimal option"
  mp_moving_averages :: "(int \<times> decimal option) list"
  mp_data_status :: data_status

datatype alert_label =
    BreakTarget | FallToStop | FallToAdd | NearAverage | TouchAverage | CrossAbove | CrossBelow
  | CloseAbove | CloseBelow | DaysAbove int | DaysBelow int | Intraday

record occurrence =
  oc_event_type :: string
  oc_trigger_price :: decimal
  oc_reference_value :: decimal
  oc_reference_type :: string
  oc_message :: "string \<times> alert_label \<times> string"
  oc_data_status :: data_status

section \<open>Validation\<close>

fun scope_value :: "'a rule_values_scheme \<Rightarrow> alert_scope \<Rightarrow> uuid option" where
  "scope_value r SECURITY = ar_security_id r"
| "scope_value r PORTFOLIO = ar_portfolio_id r"
| "scope_value r WATCHLIST = ar_watchlist_id r"

definition is_price_rule :: "alert_rule_type \<Rightarrow> bool" where
  "is_price_rule t \<longleftrightarrow> starts_with ''PRICE_'' (rule_value t)"

definition is_ma_rule :: "alert_rule_type \<Rightarrow> bool" where
  "is_ma_rule t \<longleftrightarrow> starts_with ''MA_'' (rule_value t)"

definition is_consecutive :: "alert_rule_type \<Rightarrow> bool" where
  "is_consecutive t \<longleftrightarrow> t = MA_CONSECUTIVE_ABOVE \<or> t = MA_CONSECUTIVE_BELOW"

definition validate_rule :: "'a rule_values_scheme \<Rightarrow> unit result" where
  "validate_rule r =
     (if scope_value r (ar_scope_type r) = None
         \<or> length (filter (\<lambda>s. scope_value r s \<noteq> None) [SECURITY, PORTFOLIO, WATCHLIST]) \<noteq> 1
      then Inl ValueError
      else if is_price_rule (ar_rule_type r) \<noteq> (ar_threshold_price r \<noteq> None)
         \<or> (case ar_threshold_price r of None \<Rightarrow> False | Some p \<Rightarrow> p \<le> 0)
      then Inl ValueError
      else if is_ma_rule (ar_rule_type r) \<and> \<not> (case ar_ma_period r of None \<Rightarrow> False | Some p \<Rightarrow> p \<in> set ma_period_choices)
         \<or> \<not> is_ma_rule (ar_rule_type r) \<and> ar_ma_period r \<noteq> None
      then Inl ValueError
      else if ar_rule_type r = MA_NEAR
         \<and> (case ar_threshold_percent r of None \<Rightarrow> True | Some p \<Rightarrow> \<not> (0 < p \<and> p \<le> 20))
      then Inl ValueError
      else if ar_rule_type r \<noteq> MA_NEAR \<and> ar_threshold_percent r \<noteq> None
      then Inl ValueError
      else if is_consecutive (ar_rule_type r)
         \<and> (case ar_consecutive_days r of None \<Rightarrow> True | Some n \<Rightarrow> \<not> (2 \<le> n \<and> n \<le> 60))
      then Inl ValueError
      else if \<not> is_consecutive (ar_rule_type r) \<and> ar_consecutive_days r \<noteq> None
      then Inl ValueError
      else if ar_cooldown_minutes r < 0 \<or> ar_daily_limit r < 1
      then Inl ValueError
      else if ar_evaluation_mode r = REALTIME \<and>
         ar_rule_type r \<in> {MA_CLOSE_ABOVE, MA_CLOSE_BELOW, MA_CONSECUTIVE_ABOVE, MA_CONSECUTIVE_BELOW}
      then Inl ValueError
      else if ar_evaluation_mode r = REALTIME \<and> ar_session_scope r \<noteq> REGULAR_SCOPE
      then Inl ValueError
      else Inr ())"

section \<open>Evaluation\<close>

text \<open>\<open>moving_averages.get(period)\<close>\<close>

definition ma_of :: "market_point \<Rightarrow> int \<Rightarrow> decimal option" where
  "ma_of p period = (case map_of (mp_moving_averages p) period of None \<Rightarrow> None | Some m \<Rightarrow> m)"

text \<open>\<open>xs[-n:]\<close>\<close>

definition slice_last :: "int \<Rightarrow> 'a list \<Rightarrow> 'a list" where
  "slice_last n xs =
     (if 0 < n then drop (length xs - nat n) xs else drop (nat (- n)) xs)"

definition previous_point :: "market_point list \<Rightarrow> market_point option" where
  "previous_point hist = (if 1 < length hist then Some (hist ! (length hist - 2)) else None)"

text \<open>The close of a previous day that has data.\<close>

definition usable_close :: "market_point option \<Rightarrow> decimal option" where
  "usable_close p =
     (case p of None \<Rightarrow> None
      | Some p \<Rightarrow> if mp_close p = None \<or> mp_data_status p = UNAVAILABLE then None else mp_close p)"

fun price_label :: "alert_rule_type \<Rightarrow> alert_label" where
  "price_label PRICE_TARGET = BreakTarget"
| "price_label PRICE_STOP = FallToStop"
| "price_label _ = FallToAdd"

definition evaluate_price :: "'a rule_values_scheme \<Rightarrow> decimal \<Rightarrow> market_point list \<Rightarrow>
    (bool \<times> decimal \<times> string \<times> alert_label) option result" where
  "evaluate_price r close hist =
     (case (usable_close (previous_point hist), ar_threshold_price r) of
        (Some prev, Some ref) \<Rightarrow>
          Inr (Some (if ar_rule_type r = PRICE_TARGET then prev < ref \<and> ref \<le> close else ref < prev \<and> close \<le> ref,
                     ref, drop 6 (rule_value (ar_rule_type r)) @ ''_PRICE'', price_label (ar_rule_type r)))
      | _ \<Rightarrow> Inr None)"

text \<open>\<open>all(close > ma if above else close < ma for ...)\<close> for points that all have both values\<close>

definition all_beyond :: "bool \<Rightarrow> int \<Rightarrow> market_point list \<Rightarrow> bool" where
  "all_beyond upward period points \<longleftrightarrow>
     list_all (\<lambda>p. if upward then the (ma_of p period) < the (mp_close p) else the (mp_close p) < the (ma_of p period)) points"

definition near_hit :: "'a rule_values_scheme \<Rightarrow> decimal \<Rightarrow> decimal \<Rightarrow> (bool \<times> alert_label) option result" where
  "near_hit r close ref =
     rbind (ddiv prec (dabs prec (dsub prec close ref)) ref) (\<lambda>ratio.
       case ar_threshold_percent r of None \<Rightarrow> Inl TypeError
       | Some threshold \<Rightarrow> Inr (Some (dmul prec ratio 100 \<le> threshold, NearAverage)))"

definition touch_hit :: "market_point \<Rightarrow> decimal \<Rightarrow> bool" where
  "touch_hit current ref =
     (case (mp_low current, mp_high current) of (Some low, Some high) \<Rightarrow> low \<le> ref \<and> ref \<le> high | _ \<Rightarrow> False)"

definition cross_hit :: "bool \<Rightarrow> decimal \<Rightarrow> market_point list \<Rightarrow> int \<Rightarrow> decimal \<Rightarrow> (bool \<times> alert_label) option" where
  "cross_hit upward close hist period ref =
     (case usable_close (previous_point hist) of None \<Rightarrow> None
      | Some prev \<Rightarrow>
        (case ma_of (the (previous_point hist)) period of None \<Rightarrow> None
         | Some prev_ma \<Rightarrow>
             Some (if upward then (prev \<le> prev_ma \<and> ref < close, CrossAbove)
                   else (prev_ma \<le> prev \<and> close < ref, CrossBelow))))"

definition consecutive_hit :: "'a rule_values_scheme \<Rightarrow> market_point list \<Rightarrow> int \<Rightarrow> (bool \<times> alert_label) option" where
  "consecutive_hit r hist period =
     (let count = (case ar_consecutive_days r of None \<Rightarrow> 0 | Some n \<Rightarrow> n) in
      if int (length hist) < count then None
      else
        let points = slice_last count hist in
        if list_ex (\<lambda>p. mp_data_status p = UNAVAILABLE) points
           \<or> list_ex (\<lambda>p. mp_close p = None \<or> ma_of p period = None) points
        then None
        else
          let upward = (ar_rule_type r = MA_CONSECUTIVE_ABOVE) in
          Some (all_beyond upward period points, if upward then DaysAbove count else DaysBelow count))"

definition average_hit :: "'a rule_values_scheme \<Rightarrow> market_point \<Rightarrow> decimal \<Rightarrow> market_point list \<Rightarrow> int \<Rightarrow> decimal \<Rightarrow>
    (bool \<times> alert_label) option result" where
  "average_hit r current close hist period ref =
     (if ar_rule_type r = MA_NEAR then near_hit r close ref
      else if ar_rule_type r = MA_TOUCH then Inr (Some (touch_hit current ref, TouchAverage))
      else if ar_rule_type r = MA_CROSS_ABOVE then Inr (cross_hit True close hist period ref)
      else if ar_rule_type r = MA_CROSS_BELOW then Inr (cross_hit False close hist period ref)
      else if ar_rule_type r = MA_CLOSE_ABOVE then Inr (Some (ref < close, CloseAbove))
      else if ar_rule_type r = MA_CLOSE_BELOW then Inr (Some (close < ref, CloseBelow))
      else Inr (consecutive_hit r hist period))"

definition evaluate_average :: "'a rule_values_scheme \<Rightarrow> market_point \<Rightarrow> decimal \<Rightarrow> market_point list \<Rightarrow>
    (bool \<times> decimal \<times> string \<times> alert_label) option result" where
  "evaluate_average r current close hist =
     (case ar_ma_period r of None \<Rightarrow> Inl AssertionError
      | Some period \<Rightarrow>
        (case ma_of current period of None \<Rightarrow> Inr None
         | Some ref \<Rightarrow>
             rbind (average_hit r current close hist period ref) (\<lambda>found.
               Inr (map_option (\<lambda>(hit, label). (hit, ref, ''MA'' @ show_int period, label)) found))))"

definition evaluate :: "'a rule_values_scheme \<Rightarrow> market_point list \<Rightarrow> string \<Rightarrow> occurrence option result" where
  "evaluate r hist code =
     (if hist = [] then Inr None
      else
        let current = last hist in
        case mp_close current of None \<Rightarrow> Inr None
        | Some close \<Rightarrow>
            if mp_data_status current = UNAVAILABLE then Inr None
            else
              rbind (if ar_rule_type r \<in> {PRICE_TARGET, PRICE_STOP, PRICE_ADD}
                     then evaluate_price r close hist else evaluate_average r current close hist)
                (\<lambda>found. case found of None \<Rightarrow> Inr None
                   | Some (hit, ref, reference_type, label) \<Rightarrow>
                       if \<not> hit then Inr None
                       else Inr (Some \<lparr>oc_event_type = rule_value (ar_rule_type r), oc_trigger_price = close,
                              oc_reference_value = ref, oc_reference_type = reference_type,
                              oc_message = (code, label, reference_type),
                              oc_data_status = mp_data_status current\<rparr>)))"

section \<open>What a valid rule can raise\<close>

lemma rule_kinds:
  "is_price_rule t \<longleftrightarrow> t \<in> {PRICE_TARGET, PRICE_STOP, PRICE_ADD}"
  "is_ma_rule t \<longleftrightarrow> t \<notin> {PRICE_TARGET, PRICE_STOP, PRICE_ADD}"
  by (cases t; simp add: is_price_rule_def is_ma_rule_def starts_with_def)+

lemma validate_rule_facts:
  assumes "validate_rule r = Inr ()"
  shows "ar_rule_type r \<notin> {PRICE_TARGET, PRICE_STOP, PRICE_ADD} \<Longrightarrow> \<exists>p. ar_ma_period r = Some p \<and> p \<in> set ma_period_choices"
    and "ar_rule_type r = MA_NEAR \<Longrightarrow> \<exists>p. ar_threshold_percent r = Some p \<and> 0 < p \<and> p \<le> 20"
    and "is_consecutive (ar_rule_type r) \<Longrightarrow> \<exists>n. ar_consecutive_days r = Some n \<and> 2 \<le> n \<and> n \<le> 60"
    and "0 \<le> ar_cooldown_minutes r" and "1 \<le> ar_daily_limit r"
  using assms by (auto simp: validate_rule_def rule_kinds split: if_splits option.splits)

lemma evaluate_average_valid:
  assumes "validate_rule r = Inr ()" and "ar_rule_type r \<notin> {PRICE_TARGET, PRICE_STOP, PRICE_ADD}"
    and "evaluate_average r current close hist = Inl e"
  shows "e = DecimalError \<and> ar_rule_type r = MA_NEAR \<and> ma_of current (the (ar_ma_period r)) = Some 0"
proof -
  obtain p where p: "ar_ma_period r = Some p" using validate_rule_facts(1) [OF assms(1,2)] by blast
  from assms(3) obtain ref where ref: "ma_of current p = Some ref"
    by (auto simp: evaluate_average_def p split: option.splits)
  show ?thesis
  proof (cases "ar_rule_type r = MA_NEAR")
    case True
    then obtain t where "ar_threshold_percent r = Some t" using validate_rule_facts(2) [OF assms(1)] by blast
    with assms(3) True show ?thesis
      by (auto simp: evaluate_average_def average_hit_def near_hit_def p ref ddiv_def rbind_eq_Inl split: if_splits)
  next
    case False
    with assms(3) show ?thesis
      by (auto simp: evaluate_average_def average_hit_def p ref rbind_eq_Inl split: if_splits)
  qed
qed

text \<open>
  Evaluating a rule that passed validation raises in one case only: a \<open>MA_NEAR\<close> rule whose
  moving average is zero, where the relative distance divides by it.
\<close>

lemma evaluate_raises_only_on_zero_average:
  assumes "validate_rule r = Inr ()" and "evaluate r hist code = Inl e"
  shows "e = DecimalError \<and> ar_rule_type r = MA_NEAR \<and> ma_of (last hist) (the (ar_ma_period r)) = Some 0"
proof -
  from assms(2) obtain close where close: "mp_close (last hist) = Some close"
    and run: "(if ar_rule_type r \<in> {PRICE_TARGET, PRICE_STOP, PRICE_ADD}
       then evaluate_price r close hist else evaluate_average r (last hist) close hist) = Inl e"
    by (auto simp: evaluate_def Let_def rbind_eq_Inl split: if_splits option.splits)
  have "ar_rule_type r \<notin> {PRICE_TARGET, PRICE_STOP, PRICE_ADD}"
    using run by (auto simp: evaluate_price_def split: option.splits if_splits)
  with run evaluate_average_valid [OF assms(1) this] show ?thesis by simp
qed

definition near_rule :: rule_values where
  "near_rule = \<lparr>ar_name = ''near'', ar_rule_type = MA_NEAR, ar_scope_type = SECURITY, ar_security_id = Some 7,
     ar_portfolio_id = None, ar_watchlist_id = None, ar_ma_period = Some 20, ar_threshold_price = None,
     ar_threshold_percent = Some 1, ar_consecutive_days = None, ar_enabled = True, ar_cooldown_minutes = 1440,
     ar_daily_limit = 5, ar_evaluation_mode = EOD, ar_session_scope = REGULAR_SCOPE\<rparr>"

definition point :: "date \<Rightarrow> decimal \<Rightarrow> decimal option \<Rightarrow> market_point" where
  "point d close ma = \<lparr>mp_security_id = 7, mp_trade_date = d, mp_open = Some close, mp_high = Some close,
     mp_low = Some close, mp_close = Some close, mp_moving_averages = [(20, ma)], mp_data_status = FINAL\<rparr>"

lemma evaluate_raises_only_on_zero_average_witness:
  "validate_rule near_rule = Inr () \<and> evaluate near_rule [point 739250 100 (Some 0)] ''2330'' = Inl DecimalError \<and>
   ma_of (last [point 739250 100 (Some 0)]) 20 = Some 0"
proof -
  have valid: "validate_rule near_rule = Inr ()"
    by (simp add: validate_rule_def near_rule_def is_price_rule_def is_ma_rule_def starts_with_def
        is_consecutive_def ma_period_choices_def)
  have run: "evaluate near_rule [point 739250 100 (Some 0)] ''2330'' = Inl DecimalError"
    by (simp add: evaluate_def evaluate_average_def average_hit_def near_hit_def near_rule_def point_def ma_of_def ddiv_def)
  from evaluate_raises_only_on_zero_average [OF valid run] valid run show ?thesis
    by (simp add: near_rule_def)
qed

section \<open>How much history a rule reads\<close>

definition days_needed :: "'a rule_values_scheme \<Rightarrow> int" where
  "days_needed r = max 2 (case ar_consecutive_days r of None \<Rightarrow> 0 | Some n \<Rightarrow> n)"

lemma slice_last_drop:
  assumes "2 \<le> n" and "n \<le> int (length ys)"
  shows "slice_last n (xs @ ys) = slice_last n ys"
  using assms by (simp add: slice_last_def)

lemma previous_point_append: "2 \<le> length ys \<Longrightarrow> previous_point (xs @ ys) = previous_point ys"
  by (simp add: previous_point_def nth_append)

text \<open>
  The result of a valid rule depends only on the last two days, or on the last
  \<open>consecutive_days\<close> days of a consecutive rule: the bounded history the service loads decides
  every rule as the full history would.
\<close>

lemma evaluate_needs_only_last_days:
  assumes "validate_rule r = Inr ()" and "days_needed r \<le> int (length ys)"
  shows "evaluate r (xs @ ys) code = evaluate r ys code"
proof -
  have len: "2 \<le> length ys" using assms(2) by (simp add: days_needed_def)
  then have ys: "ys \<noteq> []" by auto
  have price: "evaluate_price r c (xs @ ys) = evaluate_price r c ys" for c
    using len by (simp add: evaluate_price_def previous_point_append)
  have cross: "cross_hit u c (xs @ ys) p ref = cross_hit u c ys p ref" for u c p ref
    unfolding cross_hit_def previous_point_append [OF len] ..
  have days: "consecutive_hit r (xs @ ys) p = consecutive_hit r ys p" if c: "is_consecutive (ar_rule_type r)" for p
  proof -
    obtain n where n: "ar_consecutive_days r = Some n" "2 \<le> n"
      using validate_rule_facts(3) [OF assms(1) c] by blast
    with assms(2) have "n \<le> int (length ys)" by (simp add: days_needed_def)
    with n slice_last_drop [OF n(2) this] show ?thesis by (simp add: consecutive_hit_def)
  qed
  have average: "evaluate_average r cur c (xs @ ys) = evaluate_average r cur c ys"
    if "ar_rule_type r \<notin> {PRICE_TARGET, PRICE_STOP, PRICE_ADD}" for cur c
  proof -
    have "average_hit r cur c (xs @ ys) p ref = average_hit r cur c ys p ref" for p ref
      using that days by (cases "ar_rule_type r") (simp_all add: average_hit_def cross is_consecutive_def)
    then show ?thesis by (simp add: evaluate_average_def cong: option.case_cong)
  qed
  have both: "(if ar_rule_type r \<in> {PRICE_TARGET, PRICE_STOP, PRICE_ADD}
      then evaluate_price r c (xs @ ys) else evaluate_average r cur c (xs @ ys)) =
    (if ar_rule_type r \<in> {PRICE_TARGET, PRICE_STOP, PRICE_ADD}
      then evaluate_price r c ys else evaluate_average r cur c ys)" for cur c
    using price average by simp
  have lst: "last (xs @ ys) = last ys" using ys by simp
  show ?thesis unfolding evaluate_def Let_def both lst using ys by simp
qed

definition days_rule :: rule_values where
  "days_rule = near_rule\<lparr>ar_rule_type := MA_CONSECUTIVE_ABOVE, ar_threshold_percent := None, ar_consecutive_days := Some 3\<rparr>"

lemma evaluate_needs_only_last_days_witness:
  "evaluate days_rule ([point 1 90 None] @ [point 2 101 (Some 100), point 3 102 (Some 100), point 4 103 (Some 100)]) ''2330'' =
   evaluate days_rule [point 2 101 (Some 100), point 3 102 (Some 100), point 4 103 (Some 100)] ''2330''"
proof (rule evaluate_needs_only_last_days)
  show "validate_rule days_rule = Inr ()"
    by (simp add: validate_rule_def days_rule_def near_rule_def is_price_rule_def is_ma_rule_def starts_with_def
        is_consecutive_def ma_period_choices_def)
  show "days_needed days_rule \<le> int (length [point 2 101 (Some 100), point 3 102 (Some 100), point 4 103 (Some 100)])"
    by (simp add: days_needed_def days_rule_def near_rule_def)
qed

end
