(* ===== verification/AlertService.thy ===== *)
theory AlertService
  imports AlertRules "HOL-Library.While_Combinator" "HOL-Library.Countable"
begin

text \<open>
  The alert services (\<open>app/services/alerts.py\<close>) over their repository
  (\<open>app/repositories/sql_alert.py\<close>). The tables are lists of rows; a row of \<open>db_points\<close> is a daily
  price joined with its technical snapshot. Identifiers of new rows come from a counter
  (\<open>uuid4\<close>), the hash of an event from the parameter \<open>digest\<close> (\<open>sha256\<close> of the formatted text),
  the iteration order of a Python set from the parameter \<open>arrange\<close>; \<open>now\<close> is the time of the call.
\<close>

section \<open>The repository\<close>

type_synonym fingerprint = string
type_synonym event_identity = "uuid \<times> uuid \<times> date \<times> string"

record alert_event =
  ev_id :: uuid
  ev_rule_id :: uuid
  ev_security_id :: uuid
  ev_triggered_at :: instant
  ev_trade_date :: date
  ev_event_type :: string
  ev_trigger_price :: decimal
  ev_reference_value :: decimal
  ev_reference_type :: string
  ev_message :: "string \<times> alert_label \<times> string"
  ev_data_status :: data_status
  ev_fingerprint :: fingerprint
  ev_eligible :: bool
  ev_read_at :: "instant option"
  ev_created_at :: instant

record alert_run =
  run_id :: uuid
  run_started_at :: instant
  run_finished_at :: "instant option"
  run_target :: date
  run_status :: string
  run_rules :: int
  run_securities :: int
  run_events :: int
  run_errors :: int

record alert_db =
  db_rules :: "alert_rule list"
  db_transactions :: "(uuid \<times> uuid \<times> bool \<times> int) list"
  db_watchlist_items :: "(uuid \<times> uuid) list"
  db_points :: "market_point list"
  db_codes :: "(uuid \<times> string) list"
  db_events :: "alert_event list"
  db_push_events :: "(uuid \<times> string) list"
  db_runs :: "alert_run list"
  db_next_id :: uuid

definition list_rules :: "bool option \<Rightarrow> alert_db \<Rightarrow> alert_rule list" where
  "list_rules enabled db =
     filter (\<lambda>r. enabled = None \<or> enabled = Some (ar_enabled r))
       (sort_key (\<lambda>r. (ar_created_at r, ar_id r)) (db_rules db))"

definition get_rule :: "uuid \<Rightarrow> alert_db \<Rightarrow> alert_rule option" where
  "get_rule rule_id db = find (\<lambda>r. ar_id r = rule_id) (db_rules db)"

definition rule_of :: "rule_values \<Rightarrow> uuid \<Rightarrow> instant \<Rightarrow> instant \<Rightarrow> alert_rule" where
  "rule_of v i created updated = rule_values.extend v (alert_rule.fields i created updated)"

definition save_rule :: "instant \<Rightarrow> rule_values \<Rightarrow> uuid option \<Rightarrow> alert_db \<Rightarrow> alert_rule \<times> alert_db" where
  "save_rule now v rule_id db =
     (case (case rule_id of None \<Rightarrow> None | Some i \<Rightarrow> get_rule i db) of
        None \<Rightarrow> let r = rule_of v (db_next_id db) now now
                in (r, db\<lparr>db_rules := db_rules db @ [r], db_next_id := db_next_id db + 1\<rparr>)
      | Some old \<Rightarrow> let r = rule_of v (ar_id old) (ar_created_at old) now
                in (r, db\<lparr>db_rules := map (\<lambda>x. if ar_id x = ar_id old then r else x) (db_rules db)\<rparr>))"

text \<open>The events of a deleted rule go with it (\<open>ondelete="CASCADE"\<close>).\<close>

definition delete_rule :: "uuid \<Rightarrow> alert_db \<Rightarrow> bool \<times> alert_db" where
  "delete_rule rule_id db =
     (list_ex (\<lambda>r. ar_id r = rule_id) (db_rules db),
      db\<lparr>db_rules := filter (\<lambda>r. ar_id r \<noteq> rule_id) (db_rules db),
         db_events := filter (\<lambda>e. ev_rule_id e \<noteq> rule_id) (db_events db)\<rparr>)"

definition set_enabled :: "instant \<Rightarrow> uuid \<Rightarrow> bool \<Rightarrow> alert_db \<Rightarrow> bool \<times> alert_db" where
  "set_enabled now rule_id enabled db =
     (list_ex (\<lambda>r. ar_id r = rule_id) (db_rules db),
      db\<lparr>db_rules := map (\<lambda>r. if ar_id r = rule_id then r\<lparr>ar_enabled := enabled, ar_updated_at := now\<rparr> else r)
           (db_rules db)\<rparr>)"

text \<open>The securities a portfolio holds: positive sums of signed quantities, per security.\<close>

definition portfolio_securities :: "uuid \<Rightarrow> alert_db \<Rightarrow> uuid list" where
  "portfolio_securities owner db =
     (let rows = filter (\<lambda>(p, s, buy, n). p = owner) (db_transactions db) in
      filter (\<lambda>s. 0 < sum_list (map (\<lambda>(p, s, buy, n). if buy then n else - n)
                        (filter (\<lambda>(p, s', buy, n). s' = s) rows)))
        (remdups (map (\<lambda>(p, s, buy, n). s) rows)))"

definition watchlist_securities :: "uuid \<Rightarrow> alert_db \<Rightarrow> uuid list" where
  "watchlist_securities owner db =
     remdups (map snd (filter (\<lambda>(w, s). w = owner) (db_watchlist_items db)))"

definition resolve_membership :: "alert_db \<Rightarrow> 'a rule_values_scheme \<Rightarrow> uuid list" where
  "resolve_membership db r =
     (case ar_scope_type r of
        SECURITY \<Rightarrow> (case ar_security_id r of None \<Rightarrow> [] | Some s \<Rightarrow> [s])
      | PORTFOLIO \<Rightarrow> (case ar_portfolio_id r of None \<Rightarrow> [] | Some p \<Rightarrow> portfolio_securities p db)
      | WATCHLIST \<Rightarrow> (case ar_watchlist_id r of None \<Rightarrow> [] | Some w \<Rightarrow> watchlist_securities w db))"

text \<open>The last \<open>days\<close> rows up to the target, oldest first.\<close>

definition market_history :: "date \<Rightarrow> int \<Rightarrow> alert_db \<Rightarrow> uuid \<Rightarrow> market_point list" where
  "market_history target days db security =
     rev (take (nat days) (rev (sort_key mp_trade_date
       (filter (\<lambda>p. mp_security_id p = security \<and> mp_trade_date p \<le> target) (db_points db)))))"

record event_summary =
  es_fingerprints :: "fingerprint list"
  es_latest :: "uuid \<times> uuid \<Rightarrow> instant option"
  es_counts :: "uuid \<Rightarrow> int"

definition event_state :: "uuid list \<Rightarrow> date \<Rightarrow> instant \<Rightarrow> alert_db \<Rightarrow> event_summary" where
  "event_state rule_ids target since db =
     (let rows = filter (\<lambda>e. ev_rule_id e \<in> set rule_ids \<and>
                   (ev_trade_date e = target \<or> since \<le> ev_triggered_at e)) (db_events db)
      in \<lparr>es_fingerprints = map ev_fingerprint (filter (\<lambda>e. ev_trade_date e = target) rows),
          es_latest = foldl (\<lambda>m e. let k = (ev_rule_id e, ev_security_id e) in
              m(k \<mapsto> (case m k of None \<Rightarrow> ev_triggered_at e | Some t \<Rightarrow> max t (ev_triggered_at e))))
              (\<lambda>_. None) rows,
          es_counts = (\<lambda>r. int (length (filter (\<lambda>e. ev_rule_id e = r \<and> ev_trade_date e = target \<and> ev_eligible e) rows)))\<rparr>)"

definition add_event :: "instant \<Rightarrow> uuid \<Rightarrow> uuid \<Rightarrow> date \<Rightarrow> occurrence \<Rightarrow> fingerprint \<Rightarrow> bool \<Rightarrow> alert_db \<Rightarrow> alert_db" where
  "add_event now rule_id security_id trade_date occ fp eligible db =
     (let row = \<lparr>ev_id = db_next_id db, ev_rule_id = rule_id, ev_security_id = security_id, ev_triggered_at = now,
                 ev_trade_date = trade_date, ev_event_type = oc_event_type occ,
                 ev_trigger_price = oc_trigger_price occ, ev_reference_value = oc_reference_value occ,
                 ev_reference_type = oc_reference_type occ, ev_message = oc_message occ,
                 ev_data_status = oc_data_status occ, ev_fingerprint = fp, ev_eligible = eligible,
                 ev_read_at = None, ev_created_at = now\<rparr>
      in db\<lparr>db_events := db_events db @ [row],
            db_push_events := db_push_events db @ (if eligible then [(ev_id row, take 64 (ev_event_type row))] else []),
            db_next_id := db_next_id db + 1\<rparr>)"

definition start_run :: "instant \<Rightarrow> date \<Rightarrow> alert_db \<Rightarrow> uuid \<times> alert_db" where
  "start_run now target db =
     (db_next_id db,
      db\<lparr>db_runs := db_runs db @ [\<lparr>run_id = db_next_id db, run_started_at = now, run_finished_at = None,
           run_target = target, run_status = ''RUNNING'', run_rules = 0, run_securities = 0, run_events = 0, run_errors = 0\<rparr>],
         db_next_id := db_next_id db + 1\<rparr>)"

definition finish_run :: "instant \<Rightarrow> uuid \<Rightarrow> int \<Rightarrow> int \<Rightarrow> int \<Rightarrow> int \<Rightarrow> alert_db \<Rightarrow> alert_db" where
  "finish_run now i rules securities events errors db =
     db\<lparr>db_runs := map (\<lambda>r. if run_id r = i
          then r\<lparr>run_finished_at := Some now, run_status := (if errors = 0 then ''SUCCESS'' else ''PARTIAL''),
                 run_rules := rules, run_securities := securities, run_events := events, run_errors := errors\<rparr>
          else r) (db_runs db)\<rparr>"

definition mark_read :: "instant \<Rightarrow> uuid \<Rightarrow> alert_db \<Rightarrow> bool \<times> alert_db" where
  "mark_read now event_id db =
     (list_ex (\<lambda>e. ev_id e = event_id) (db_events db),
      db\<lparr>db_events := map (\<lambda>e. if ev_id e = event_id then e\<lparr>ev_read_at := Some now\<rparr> else e) (db_events db)\<rparr>)"

definition mark_all_read :: "instant \<Rightarrow> alert_db \<Rightarrow> alert_db" where
  "mark_all_read now db =
     db\<lparr>db_events := map (\<lambda>e. if ev_read_at e = None then e\<lparr>ev_read_at := Some now\<rparr> else e) (db_events db)\<rparr>"

section \<open>Saving rules\<close>

definition save_alert_rule :: "instant \<Rightarrow> rule_values \<Rightarrow> uuid option \<Rightarrow> alert_db \<Rightarrow> alert_rule result \<times> alert_db" where
  "save_alert_rule now v rule_id db =
     (case validate_rule v of
        Inl _ \<Rightarrow> (Inl (AppError ''ALERT_RULE_INVALID'' 422), db)
      | Inr _ \<Rightarrow>
          if (case rule_id of None \<Rightarrow> False | Some i \<Rightarrow> get_rule i db = None)
          then (Inl (AppError ''ALERT_RULE_NOT_FOUND'' 404), db)
          else let (r, db) = save_rule now v rule_id db in (Inr r, db))"

definition require_rule :: "uuid \<Rightarrow> alert_db \<Rightarrow> alert_rule result" where
  "require_rule rule_id db =
     (case get_rule rule_id db of None \<Rightarrow> Inl (AppError ''ALERT_RULE_NOT_FOUND'' 404) | Some r \<Rightarrow> Inr r)"

section \<open>Evaluation\<close>

text \<open>The \<open>while\<close> loop of \<open>_latest_completed\<close>, for any calendar.\<close>

definition latest_completed :: "(date \<Rightarrow> bool) \<Rightarrow> (date \<Rightarrow> date) \<Rightarrow> date \<Rightarrow> date option" where
  "latest_completed trading previous d = while_option (\<lambda>c. \<not> trading c) previous d"

definition utc_date :: "instant \<Rightarrow> date" where
  "utc_date t = t div 86400000000 + 719163"

record evaluation =
  st_db :: alert_db
  st_fingerprints :: "fingerprint list"
  st_latest :: "uuid \<times> uuid \<Rightarrow> instant option"
  st_counts :: "uuid \<Rightarrow> int"
  st_created :: int
  st_errors :: int

definition cooldown_start :: "instant \<Rightarrow> int \<Rightarrow> instant" where
  "cooldown_start now minutes = now - minutes * 60000000"

text \<open>The rule on the trading days of the history of a security.\<close>

definition pair_result :: "(date \<Rightarrow> bool) \<Rightarrow> date \<Rightarrow> (uuid \<Rightarrow> market_point list) \<Rightarrow> (uuid \<times> string) list \<Rightarrow>
    alert_rule \<Rightarrow> uuid \<Rightarrow> occurrence option result" where
  "pair_result trading target hist codes rule security =
     (let points = filter (\<lambda>p. trading (mp_trade_date p) \<and> mp_trade_date p \<le> target) (hist security);
          code = (case map_of codes security of None \<Rightarrow> show_nat security | Some c \<Rightarrow> c)
      in evaluate rule points code)"

definition evaluation_step :: "(event_identity \<Rightarrow> fingerprint) \<Rightarrow> (date \<Rightarrow> bool) \<Rightarrow> instant \<Rightarrow> date \<Rightarrow>
    (uuid \<Rightarrow> market_point list) \<Rightarrow> evaluation \<Rightarrow> alert_rule \<times> uuid \<Rightarrow> evaluation" where
  "evaluation_step digest trading now target hist st pair =
     (let (rule, security) = pair in
      case pair_result trading target hist (db_codes (st_db st)) rule security of
        Inl _ \<Rightarrow> st\<lparr>st_errors := st_errors st + 1\<rparr>
      | Inr None \<Rightarrow> st
      | Inr (Some occ) \<Rightarrow>
          let fp = digest (ar_id rule, security, target, oc_event_type occ) in
          if fp \<in> set (st_fingerprints st) then st
          else
            let key = (ar_id rule, security);
                cooldown = (case st_latest st key of None \<Rightarrow> False
                            | Some t \<Rightarrow> cooldown_start now (ar_cooldown_minutes rule) \<le> t);
                count = st_counts st (ar_id rule);
                eligible = (\<not> cooldown \<and> count < ar_daily_limit rule)
            in st\<lparr>st_db := add_event now (ar_id rule) security target occ fp eligible (st_db st),
                  st_fingerprints := fp # st_fingerprints st,
                  st_latest := (st_latest st)(key \<mapsto> now),
                  st_counts := (if eligible then (st_counts st)(ar_id rule := count + 1) else st_counts st),
                  st_created := st_created st + 1\<rparr>)"

record run_report =
  rp_run_id :: uuid
  rp_target :: date
  rp_rules :: int
  rp_securities :: int
  rp_created :: int
  rp_errors :: int
  rp_status :: string

definition eod_rules :: "alert_db \<Rightarrow> alert_rule list" where
  "eod_rules db = filter (\<lambda>r. ar_evaluation_mode r = EOD) (list_rules (Some True) db)"

definition run_pairs :: "(uuid list \<Rightarrow> uuid list) \<Rightarrow> alert_db \<Rightarrow> (alert_rule \<times> uuid) list" where
  "run_pairs arrange db =
     concat (map (\<lambda>r. map (Pair r) (arrange (resolve_membership db r))) (eod_rules db))"

definition max_days :: "alert_rule list \<Rightarrow> int" where
  "max_days rules =
     (case map (\<lambda>r. case ar_consecutive_days r of None \<Rightarrow> 2 | Some n \<Rightarrow> if n = 0 then 2 else n) rules of
        [] \<Rightarrow> 2 | n # ns \<Rightarrow> foldl max n ns)"

definition max_cooldown :: "alert_rule list \<Rightarrow> int" where
  "max_cooldown rules = (case map ar_cooldown_minutes rules of [] \<Rightarrow> 0 | n # ns \<Rightarrow> foldl max n ns)"

definition initial_evaluation :: "instant \<Rightarrow> date \<Rightarrow> alert_db \<Rightarrow> evaluation" where
  "initial_evaluation now target db =
     (let rules = eod_rules db;
          s = event_state (map ar_id rules) target (cooldown_start now (max_cooldown rules)) db
      in \<lparr>st_db = db, st_fingerprints = es_fingerprints s, st_latest = es_latest s, st_counts = es_counts s,
          st_created = 0, st_errors = 0\<rparr>)"

definition evaluate_alerts :: "(event_identity \<Rightarrow> fingerprint) \<Rightarrow> (uuid list \<Rightarrow> uuid list) \<Rightarrow> (date \<Rightarrow> bool) \<Rightarrow>
    instant \<Rightarrow> date \<Rightarrow> alert_db \<Rightarrow> run_report \<times> alert_db" where
  "evaluate_alerts digest arrange trading now target db =
     (let (i, db) = start_run now target db;
          rules = eod_rules db;
          hist = market_history target (max_days rules) db;
          st = foldl (evaluation_step digest trading now target hist) (initial_evaluation now target db)
                 (run_pairs arrange db);
          securities = int (length (remdups (concat (map (resolve_membership db) rules))));
          db = finish_run now i (int (length rules)) securities (st_created st) (st_errors st) (st_db st)
      in (\<lparr>rp_run_id = i, rp_target = target, rp_rules = int (length rules), rp_securities = securities,
           rp_created = st_created st, rp_errors = st_errors st,
           rp_status = (if st_errors st = 0 then ''SUCCESS'' else ''PARTIAL'')\<rparr>, db))"

text \<open>Without a target date the run is for the last completed trading day.\<close>

definition evaluate_latest :: "(event_identity \<Rightarrow> fingerprint) \<Rightarrow> (uuid list \<Rightarrow> uuid list) \<Rightarrow> (date \<Rightarrow> bool) \<Rightarrow>
    (date \<Rightarrow> date) \<Rightarrow> instant \<Rightarrow> date option \<Rightarrow> alert_db \<Rightarrow> (run_report \<times> alert_db) option" where
  "evaluate_latest digest arrange trading previous now target_date db =
     (case target_date of
        Some d \<Rightarrow> Some (evaluate_alerts digest arrange trading now d db)
      | None \<Rightarrow> map_option (\<lambda>d. evaluate_alerts digest arrange trading now d db)
                  (latest_completed trading previous (utc_date now)))"

section \<open>The target date\<close>

context trading_calendar
begin

text \<open>The loop of \<open>_latest_completed\<close> ends, on the last trading day not after the given date.\<close>

lemma latest_completed_eq:
  "latest_completed is_trading_day previous_trading_day d =
    Some (if is_trading_day d then d else previous_trading_day d)"
proof (cases "is_trading_day d")
  case True
  then show ?thesis by (simp add: latest_completed_def while_option_unfold)
next
  case False
  then have "while_option (\<lambda>c. \<not> is_trading_day c) previous_trading_day d =
      while_option (\<lambda>c. \<not> is_trading_day c) previous_trading_day (previous_trading_day d)"
    by (simp add: while_option_unfold [of _ _ d])
  with False show ?thesis
    using previous_is_trading [of d]
    by (simp add: latest_completed_def while_option_unfold [of _ _ "previous_trading_day d"])
qed

lemma latest_completed_last:
  "\<exists>t. latest_completed is_trading_day previous_trading_day d = Some t \<and> is_trading_day t \<and> t \<le> d \<and>
    (\<forall>e. t < e \<and> e \<le> d \<longrightarrow> \<not> is_trading_day e)"
proof (cases "is_trading_day d")
  case False
  then have "\<not> is_trading_day e" if "previous_trading_day d < e" "e \<le> d" for e
    using that previous_last [of d e] by (cases "e = d") auto
  with False show ?thesis
    using previous_is_trading [of d] previous_before [of d] latest_completed_eq by (auto simp: less_imp_le)
next
  case True
  moreover have "\<not> (d < e \<and> e \<le> d)" for e by linarith
  ultimately show ?thesis by (auto simp: latest_completed_eq)
qed

end

text \<open>
  Without an explicit target the run always gets one: the loop over the weekend calendar ends
  on the latest trading day that is not after today.
\<close>

lemma latest_completed_weekend:
  "\<exists>t. latest_completed is_trading_day previous_trading_day d = Some t \<and> is_trading_day t \<and> t \<le> d \<and>
    (\<forall>e. t < e \<and> e \<le> d \<longrightarrow> \<not> is_trading_day e)"
  by (rule weekend.latest_completed_last)

section \<open>Events of a run\<close>

text \<open>What the state of a run knows about the events of its database.\<close>

definition event_key :: "alert_event \<Rightarrow> event_identity" where
  "event_key e = (ev_rule_id e, ev_security_id e, ev_trade_date e, ev_event_type e)"

definition hashed :: "(event_identity \<Rightarrow> fingerprint) \<Rightarrow> alert_db \<Rightarrow> bool" where
  "hashed digest db \<longleftrightarrow> (\<forall>e \<in> set (db_events db). ev_fingerprint e = digest (event_key e))"

definition eligible_count :: "uuid \<Rightarrow> date \<Rightarrow> alert_db \<Rightarrow> int" where
  "eligible_count r target db =
     int (length (filter (\<lambda>e. ev_rule_id e = r \<and> ev_trade_date e = target \<and> ev_eligible e) (db_events db)))"

definition knows :: "(event_identity \<Rightarrow> fingerprint) \<Rightarrow> uuid set \<Rightarrow> date \<Rightarrow> evaluation \<Rightarrow> bool" where
  "knows digest ids target st \<longleftrightarrow>
     hashed digest (st_db st) \<and> distinct (map event_key (db_events (st_db st))) \<and>
     (\<forall>e \<in> set (db_events (st_db st)). ev_rule_id e \<in> ids \<and> ev_trade_date e = target \<longrightarrow>
        ev_fingerprint e \<in> set (st_fingerprints st)) \<and>
     (\<forall>r \<in> ids. st_counts st r = eligible_count r target (st_db st))"

lemma step_cases:
  fixes digest trading now target hist st rule security
  defines "st' \<equiv> evaluation_step digest trading now target hist st (rule, security)"
  shows "(\<exists>n. st' = st\<lparr>st_errors := n\<rparr>) \<and>
      (\<forall>occ. pair_result trading target hist (db_codes (st_db st)) rule security = Inr (Some occ) \<longrightarrow>
         digest (ar_id rule, security, target, oc_event_type occ) \<in> set (st_fingerprints st)) \<or>
    (\<exists>occ eligible. digest (ar_id rule, security, target, oc_event_type occ) \<notin> set (st_fingerprints st) \<and>
       pair_result trading target hist (db_codes (st_db st)) rule security = Inr (Some occ) \<and>
       eligible = ((case st_latest st (ar_id rule, security) of None \<Rightarrow> True
                   | Some t \<Rightarrow> t < cooldown_start now (ar_cooldown_minutes rule)) \<and>
                  st_counts st (ar_id rule) < ar_daily_limit rule) \<and>
       st_db st' = add_event now (ar_id rule) security target occ
         (digest (ar_id rule, security, target, oc_event_type occ)) eligible (st_db st) \<and>
       st_fingerprints st' = digest (ar_id rule, security, target, oc_event_type occ) # st_fingerprints st \<and>
       st_latest st' = (st_latest st)((ar_id rule, security) \<mapsto> now) \<and>
       st_counts st' = (if eligible then (st_counts st)(ar_id rule := st_counts st (ar_id rule) + 1)
                        else st_counts st) \<and>
       st_created st' = st_created st + 1)"
proof -
  have same: "\<exists>n. st = st\<lparr>st_errors := n\<rparr>" by (rule exI [of _ "st_errors st"]) simp
  consider (error) e where "pair_result trading target hist (db_codes (st_db st)) rule security = Inl e"
    | (none) "pair_result trading target hist (db_codes (st_db st)) rule security = Inr None"
    | (some) occ where "pair_result trading target hist (db_codes (st_db st)) rule security = Inr (Some occ)"
    by (metis not_Some_eq obj_sumE)
  then show ?thesis
  proof cases
    case some
    show ?thesis
    proof (cases "digest (ar_id rule, security, target, oc_event_type occ) \<in> set (st_fingerprints st)")
      case True
      with some same show ?thesis unfolding st'_def by (simp add: evaluation_step_def)
    next
      case False
      with some show ?thesis unfolding st'_def
        by (intro disjI2 exI [of _ occ])
          (auto simp: evaluation_step_def Let_def split: option.splits)
    qed
  qed (use same in \<open>auto simp: st'_def evaluation_step_def\<close>)
qed

text \<open>The two outcomes of a step: the events stay, or one new event is added.\<close>

lemma step_consider:
  obtains (same) n where "evaluation_step digest trading now target hist st (rule, security) = st\<lparr>st_errors := n\<rparr>"
      "\<forall>occ. pair_result trading target hist (db_codes (st_db st)) rule security = Inr (Some occ) \<longrightarrow>
         digest (ar_id rule, security, target, oc_event_type occ) \<in> set (st_fingerprints st)"
  | (event) occ eligible st' fp where "st' = evaluation_step digest trading now target hist st (rule, security)"
      "fp = digest (ar_id rule, security, target, oc_event_type occ)"
      "fp \<notin> set (st_fingerprints st)"
      "pair_result trading target hist (db_codes (st_db st)) rule security = Inr (Some occ)"
      "eligible = ((case st_latest st (ar_id rule, security) of None \<Rightarrow> True
                   | Some t \<Rightarrow> t < cooldown_start now (ar_cooldown_minutes rule)) \<and>
                  st_counts st (ar_id rule) < ar_daily_limit rule)"
      "st_db st' = add_event now (ar_id rule) security target occ fp eligible (st_db st)"
      "st_fingerprints st' = fp # st_fingerprints st"
      "st_latest st' = (st_latest st)((ar_id rule, security) \<mapsto> now)"
      "st_counts st' = (if eligible then (st_counts st)(ar_id rule := st_counts st (ar_id rule) + 1)
                        else st_counts st)"
      "st_created st' = st_created st + 1"
  using step_cases [of digest trading now target hist st rule security] by blast

lemma eligible_count_add [simp]:
  "eligible_count i target (add_event now r s target occ fp e db) =
   eligible_count i target db + (if e \<and> i = r then 1 else 0)"
  by (simp add: eligible_count_def add_event_def Let_def)

lemma events_add [simp]:
  "db_events (add_event now r s target occ fp e db) = db_events db @
     [\<lparr>ev_id = db_next_id db, ev_rule_id = r, ev_security_id = s, ev_triggered_at = now,
       ev_trade_date = target, ev_event_type = oc_event_type occ, ev_trigger_price = oc_trigger_price occ,
       ev_reference_value = oc_reference_value occ, ev_reference_type = oc_reference_type occ,
       ev_message = oc_message occ, ev_data_status = oc_data_status occ, ev_fingerprint = fp, ev_eligible = e,
       ev_read_at = None, ev_created_at = now\<rparr>]"
  "db_codes (add_event now r s target occ fp e db) = db_codes db"
  "db_points (add_event now r s target occ fp e db) = db_points db"
  by (simp_all add: add_event_def Let_def)

lemma knows_step:
  assumes "inj digest" and "knows digest ids target st" and "ar_id rule \<in> ids"
  shows "knows digest ids target (evaluation_step digest trading now target hist st (rule, security))"
proof (cases rule: step_consider [of digest trading now target hist st rule security])
  case same
  with assms(2) show ?thesis by (simp add: knows_def)
next
  case (event occ eligible st' fp)
  have fresh: "(ar_id rule, security, target, oc_event_type occ) \<notin> event_key ` set (db_events (st_db st))"
  proof
    assume "(ar_id rule, security, target, oc_event_type occ) \<in> event_key ` set (db_events (st_db st))"
    then obtain e where e: "e \<in> set (db_events (st_db st))" "event_key e = (ar_id rule, security, target, oc_event_type occ)"
      by force
    with assms(2,3) have "ev_fingerprint e \<in> set (st_fingerprints st)" by (auto simp: knows_def event_key_def)
    with e assms(2) event(2,3) show False by (auto simp: knows_def hashed_def)
  qed
  show ?thesis
    using assms(2,3) event(2-9) fresh unfolding event(1) [symmetric]
    by (auto simp: knows_def hashed_def event_key_def)
qed

lemma run_pairs_ids: "(rule, security) \<in> set (run_pairs arrange db) \<Longrightarrow> ar_id rule \<in> set (map ar_id (eod_rules db))"
  by (auto simp: run_pairs_def)

lemma knows_run:
  assumes "inj digest" and "knows digest ids target st" and "\<forall>(rule, s) \<in> set pairs. ar_id rule \<in> ids"
  shows "knows digest ids target (foldl (evaluation_step digest trading now target hist) st pairs)"
  using assms(2,3)
proof (induction pairs arbitrary: st)
  case (Cons pr pairs)
  obtain rule s where "pr = (rule, s)" by (cases pr)
  with Cons knows_step [OF assms(1) Cons.prems(1)] show ?case by simp
qed simp

lemma knows_initial:
  assumes "hashed digest db" and "distinct (map event_key (db_events db))"
  shows "knows digest (set (map ar_id (eod_rules db))) target (initial_evaluation now target db)"
  using assms
  by (auto simp: knows_def initial_evaluation_def event_state_def Let_def eligible_count_def
      intro!: arg_cong [where f = length] filter_cong)

lemma eod_rules_run [simp]: "eod_rules (snd (start_run now target db)) = eod_rules db"
  by (simp add: eod_rules_def list_rules_def start_run_def)

lemma run_pairs_run [simp]: "run_pairs arrange (snd (start_run now target db)) = run_pairs arrange db"
  by (simp add: run_pairs_def resolve_membership_def portfolio_securities_def watchlist_securities_def
      start_run_def eod_rules_def list_rules_def cong: option.case_cong alert_scope.case_cong)

text \<open>The state at the end of the loop of a run.\<close>

definition run_state :: "(event_identity \<Rightarrow> fingerprint) \<Rightarrow> (uuid list \<Rightarrow> uuid list) \<Rightarrow> (date \<Rightarrow> bool) \<Rightarrow>
    instant \<Rightarrow> date \<Rightarrow> alert_db \<Rightarrow> evaluation" where
  "run_state digest arrange trading now target db =
     (let db = snd (start_run now target db) in
      foldl (evaluation_step digest trading now target (market_history target (max_days (eod_rules db)) db))
        (initial_evaluation now target db) (run_pairs arrange db))"

lemma evaluate_alerts_run:
  "db_events (snd (evaluate_alerts digest arrange trading now target db)) =
     db_events (st_db (run_state digest arrange trading now target db)) \<and>
   rp_created (fst (evaluate_alerts digest arrange trading now target db)) =
     st_created (run_state digest arrange trading now target db) \<and>
   rp_errors (fst (evaluate_alerts digest arrange trading now target db)) =
     st_errors (run_state digest arrange trading now target db)"
  by (simp add: evaluate_alerts_def run_state_def Let_def finish_run_def case_prod_unfold)

lemma run_state_knows:
  assumes "inj digest" and "hashed digest db" and "distinct (map event_key (db_events db))"
  shows "knows digest (set (map ar_id (eod_rules db))) target (run_state digest arrange trading now target db)"
proof -
  let ?db = "snd (start_run now target db)"
  have "db_events ?db = db_events db" by (simp add: start_run_def)
  then have "hashed digest ?db" "distinct (map event_key (db_events ?db))"
    using assms by (simp_all add: hashed_def)
  from knows_initial [OF this, of target now]
  have "knows digest (set (map ar_id (eod_rules db))) target (initial_evaluation now target ?db)" by simp
  from knows_run [OF assms(1) this] show ?thesis
    using run_pairs_ids by (fastforce simp: run_state_def Let_def)
qed

text \<open>
  A run never records an alert twice: if the table holds at most one event per rule, security,
  trade date and event type, so it does after the run, however often the same target is evaluated.
\<close>

lemma events_stay_unique:
  assumes "inj digest" and "hashed digest db" and "distinct (map event_key (db_events db))"
  shows "distinct (map event_key (db_events (snd (evaluate_alerts digest arrange trading now target db)))) \<and>
    hashed digest (snd (evaluate_alerts digest arrange trading now target db))"
  using run_state_knows [OF assms, of target arrange trading now] evaluate_alerts_run
  by (simp add: knows_def hashed_def)

lemma run_invariant:
  assumes "\<And>st rule s. P st \<Longrightarrow> (rule, s) \<in> set pairs \<Longrightarrow> P (evaluation_step digest trading now target hist st (rule, s))"
    and "P st"
  shows "P (foldl (evaluation_step digest trading now target hist) st pairs)"
proof -
  have "set ps \<subseteq> set pairs \<Longrightarrow> P s \<Longrightarrow> P (foldl (evaluation_step digest trading now target hist) s ps)" for ps s
    by (induction ps arbitrary: s) (auto intro: assms(1))
  with assms(2) show ?thesis by blast
qed

definition limits_kept :: "alert_rule set \<Rightarrow> date \<Rightarrow> alert_db \<Rightarrow> bool" where
  "limits_kept rules target db \<longleftrightarrow> (\<forall>r \<in> rules. eligible_count (ar_id r) target db \<le> ar_daily_limit r)"

lemma limits_step:
  assumes "knows digest (ar_id ` rules) target st" and "limits_kept rules target (st_db st)"
    and "rule \<in> rules" and "inj_on ar_id rules"
  shows "limits_kept rules target (st_db (evaluation_step digest trading now target hist st (rule, s)))"
proof (cases rule: step_consider [of digest trading now target hist st rule s])
  case same
  with assms(2) show ?thesis by (simp add: limits_kept_def)
next
  case (event occ eligible st' fp)
  have "eligible_count (ar_id r) target (st_db st') \<le> ar_daily_limit r" if "r \<in> rules" for r
  proof (cases "ar_id r = ar_id rule")
    case True
    then have "r = rule" using assms(3,4) that by (auto dest: inj_onD)
    moreover have "st_counts st (ar_id rule) = eligible_count (ar_id rule) target (st_db st)"
      using assms(1,3) by (simp add: knows_def)
    moreover have "eligible_count (ar_id r) target (st_db st) \<le> ar_daily_limit r"
      using assms(2) that by (simp add: limits_kept_def)
    ultimately show ?thesis using event(5,6) by auto
  next
    case False
    with assms(2) that event(6) show ?thesis by (simp add: limits_kept_def)
  qed
  then show ?thesis using event(1) by (simp add: limits_kept_def)
qed

lemma eod_rules_distinct:
  "distinct (map ar_id (db_rules db)) \<Longrightarrow> inj_on ar_id (set (eod_rules db))"
  by (auto simp: eod_rules_def list_rules_def inj_on_def distinct_map)

text \<open>
  Notifications respect the daily limit: if no enabled end-of-day rule has more events
  eligible for notification on the target date than its limit, none has after the run, however
  many securities fire.
\<close>

lemma daily_limit_respected:
  assumes "inj digest" and "hashed digest db" and "distinct (map event_key (db_events db))"
    and "distinct (map ar_id (db_rules db))" and "limits_kept (set (eod_rules db)) target db"
  shows "limits_kept (set (eod_rules db)) target (snd (evaluate_alerts digest arrange trading now target db))"
proof -
  let ?db = "snd (start_run now target db)" and ?rules = "set (eod_rules db)"
  let ?P = "\<lambda>st. knows digest (ar_id ` ?rules) target st \<and> limits_kept ?rules target (st_db st)"
  have ev: "db_events ?db = db_events db" by (simp add: start_run_def)
  have "?P (initial_evaluation now target ?db)"
    using knows_initial [of digest ?db target now] assms(2,3,5) ev
    by (simp add: hashed_def limits_kept_def eligible_count_def initial_evaluation_def Let_def)
  then have "?P (run_state digest arrange trading now target db)"
    unfolding run_state_def Let_def
    by (rule run_invariant [rotated])
      (use assms(1,4) eod_rules_distinct in \<open>auto simp: run_pairs_def intro!: knows_step limits_step\<close>)
  then show ?thesis
    using evaluate_alerts_run by (simp add: limits_kept_def eligible_count_def)
qed

text \<open>Every known fingerprint belongs to an event of the target date.\<close>

definition backed :: "uuid set \<Rightarrow> date \<Rightarrow> evaluation \<Rightarrow> bool" where
  "backed ids target st \<longleftrightarrow> (\<forall>fp \<in> set (st_fingerprints st). \<exists>e \<in> set (db_events (st_db st)).
     ev_fingerprint e = fp \<and> ev_rule_id e \<in> ids \<and> ev_trade_date e = target)"

lemma backed_step:
  assumes "backed ids target st" and "ar_id rule \<in> ids"
  shows "backed ids target (evaluation_step digest trading now target hist st (rule, s))"
proof (cases rule: step_consider [of digest trading now target hist st rule s])
  case same
  with assms(1) show ?thesis by (simp add: backed_def)
next
  case (event occ eligible st' fp)
  then show ?thesis using assms unfolding event(1) [symmetric] by (auto simp: backed_def)
qed

lemma step_fingerprints:
  "set (st_fingerprints st) \<subseteq> set (st_fingerprints (evaluation_step digest trading now target hist st (rule, s))) \<and>
   db_codes (st_db (evaluation_step digest trading now target hist st (rule, s))) = db_codes (st_db st) \<and>
   (\<forall>occ. pair_result trading target hist (db_codes (st_db st)) rule s = Inr (Some occ) \<longrightarrow>
     digest (ar_id rule, s, target, oc_event_type occ) \<in>
       set (st_fingerprints (evaluation_step digest trading now target hist st (rule, s))))"
proof (cases rule: step_consider [of digest trading now target hist st rule s])
  case (event occ eligible st' fp)
  then show ?thesis unfolding event(1) [symmetric] by auto
qed auto

lemma run_fingerprints:
  assumes "(rule, s) \<in> set pairs" and "pair_result trading target hist (db_codes (st_db st)) rule s = Inr (Some occ)"
  shows "digest (ar_id rule, s, target, oc_event_type occ) \<in>
    set (st_fingerprints (foldl (evaluation_step digest trading now target hist) st pairs))"
proof -
  have mono: "set (st_fingerprints st) \<subseteq>
      set (st_fingerprints (foldl (evaluation_step digest trading now target hist) st ps))" for st ps
    by (induction ps arbitrary: st) (use step_fingerprints in force)+
  show ?thesis
    using assms
  proof (induction pairs arbitrary: st)
    case (Cons pr pairs)
    obtain r t where pr: "pr = (r, t)" by (cases pr)
    note step = step_fingerprints [of st digest trading now target hist r t]
    show ?case
    proof (cases "pr = (rule, s)")
      case True
      with step Cons.prems(2) pr mono show ?thesis by auto
    next
      case False
      with Cons step pr show ?thesis by auto
    qed
  qed simp
qed

lemma quiet_run:
  assumes "\<forall>(rule, s) \<in> set pairs. \<forall>occ. pair_result trading target hist (db_codes (st_db st)) rule s = Inr (Some occ) \<longrightarrow>
      digest (ar_id rule, s, target, oc_event_type occ) \<in> set (st_fingerprints st)"
  shows "\<exists>n. foldl (evaluation_step digest trading now target hist) st pairs = st\<lparr>st_errors := n\<rparr>"
  using assms
proof (induction pairs arbitrary: st)
  case Nil
  show ?case by (rule exI [of _ "st_errors st"]) simp
next
  case (Cons pr pairs)
  obtain r t where pr: "pr = (r, t)" by (cases pr)
  obtain n where n: "evaluation_step digest trading now target hist st (r, t) = st\<lparr>st_errors := n\<rparr>"
  proof (cases rule: step_consider [of digest trading now target hist st r t])
    case (event occ eligible st' fp)
    with Cons.prems show ?thesis by (auto simp: pr)
  qed (use that in blast)
  have "\<exists>m. foldl (evaluation_step digest trading now target hist) (st\<lparr>st_errors := n\<rparr>) pairs =
      st\<lparr>st_errors := n\<rparr>\<lparr>st_errors := m\<rparr>"
    by (rule Cons.IH) (use Cons.prems in auto)
  then show ?case by (auto simp: pr n)
qed

text \<open>A run changes events, notifications and runs only.\<close>

definition same_inputs :: "alert_db \<Rightarrow> alert_db \<Rightarrow> bool" where
  "same_inputs a b \<longleftrightarrow> db_rules a = db_rules b \<and> db_transactions a = db_transactions b \<and>
     db_watchlist_items a = db_watchlist_items b \<and> db_points a = db_points b \<and> db_codes a = db_codes b"

lemma same_inputs_run:
  "same_inputs (snd (evaluate_alerts digest arrange trading now target db)) db"
proof -
  let ?db = "snd (start_run now target db)"
  have "same_inputs (st_db (evaluation_step digest trading now target hist st (rule, s))) (st_db st)" for hist st rule s
  proof (cases rule: step_consider [of digest trading now target hist st rule s])
    case (event occ eligible st' fp)
    then show ?thesis unfolding event(1) [symmetric] by (simp add: same_inputs_def add_event_def Let_def)
  qed (simp add: same_inputs_def)
  then have step: "same_inputs (st_db st) ?db \<Longrightarrow>
      same_inputs (st_db (evaluation_step digest trading now target hist st (rule, s))) ?db" for hist st rule s
    by (simp add: same_inputs_def)
  have "same_inputs (st_db (run_state digest arrange trading now target db)) ?db"
    unfolding run_state_def Let_def
    by (rule run_invariant [where P = "\<lambda>st. same_inputs (st_db st) ?db", OF step])
      (simp_all add: same_inputs_def initial_evaluation_def Let_def)
  then show ?thesis
    by (simp add: same_inputs_def start_run_def evaluate_alerts_def run_state_def Let_def finish_run_def case_prod_unfold)
qed

lemma same_inputs_fields:
  assumes "same_inputs a b"
  shows "eod_rules a = eod_rules b" and "run_pairs arrange a = run_pairs arrange b"
    and "market_history target days a = market_history target days b"
  using assms
  by (simp_all add: same_inputs_def eod_rules_def list_rules_def run_pairs_def resolve_membership_def
      portfolio_securities_def watchlist_securities_def fun_eq_iff market_history_def
      cong: option.case_cong alert_scope.case_cong)

text \<open>
  C6. Evaluation is idempotent: running the same target again, at any later time, on the database
  the first run left creates no event and no notification; alerts whose evaluation raised are
  simply counted again.
\<close>

lemma second_run_is_silent:
  assumes "db1 = snd (evaluate_alerts digest arrange trading now target db)"
  shows "rp_created (fst (evaluate_alerts digest arrange trading now' target db1)) = 0 \<and>
    db_events (snd (evaluate_alerts digest arrange trading now' target db1)) = db_events db1"
proof -
  let ?ids = "set (map ar_id (eod_rules db))"
  let ?s = "snd (start_run now target db)" and ?s1 = "snd (start_run now' target db1)"
  let ?hist = "market_history target (max_days (eod_rules db)) db"
  let ?st = "run_state digest arrange trading now target db"
  have same: "same_inputs db1 db" using assms same_inputs_run by simp
  have hists: "market_history target days ?s = market_history target days db"
    "market_history target days ?s1 = market_history target days db" for days
    using same by (auto simp: market_history_def start_run_def same_inputs_def)
  have "backed ?ids target (initial_evaluation now target ?s)"
    by (auto simp: backed_def initial_evaluation_def event_state_def Let_def)
  then have "backed ?ids target ?st"
    unfolding run_state_def Let_def
    by (rule run_invariant [rotated]) (auto simp: run_pairs_def intro!: backed_step)
  moreover have "db_events (st_db ?st) = db_events db1" using evaluate_alerts_run assms by simp
  ultimately have known: "set (st_fingerprints ?st) \<subseteq> set (st_fingerprints (initial_evaluation now' target ?s1))"
    using same_inputs_fields(1) [OF same]
    by (fastforce simp: backed_def initial_evaluation_def event_state_def Let_def start_run_def
        eod_rules_def list_rules_def)
  have codes: "db_codes (st_db (initial_evaluation now' target ?s1)) = db_codes db"
    "db_codes (st_db (initial_evaluation now target ?s)) = db_codes db"
    using same by (simp_all add: initial_evaluation_def Let_def start_run_def same_inputs_def)
  have pairs: "run_pairs arrange db1 = run_pairs arrange db" using same_inputs_fields(2) [OF same] .
  have "\<forall>(rule, s) \<in> set (run_pairs arrange db). \<forall>occ.
      pair_result trading target ?hist (db_codes db) rule s = Inr (Some occ) \<longrightarrow>
      digest (ar_id rule, s, target, oc_event_type occ) \<in> set (st_fingerprints (initial_evaluation now' target ?s1))"
    using run_fingerprints [of _ _ "run_pairs arrange db" trading target ?hist "initial_evaluation now target ?s"]
      known codes by (auto simp: run_state_def Let_def hists)
  then obtain n where "run_state digest arrange trading now' target db1 =
      (initial_evaluation now' target ?s1)\<lparr>st_errors := n\<rparr>"
    using quiet_run [of "run_pairs arrange db" trading target ?hist "initial_evaluation now' target ?s1" digest now']
    by (auto simp: run_state_def Let_def hists codes pairs same_inputs_fields(1) [OF same])
  then show ?thesis
    using evaluate_alerts_run [of digest arrange trading now' target db1]
    by (simp add: initial_evaluation_def Let_def start_run_def)
qed

section \<open>Cooldown\<close>

lemma latest_fold:
  fixes m :: "uuid \<times> uuid \<Rightarrow> instant option"
  defines "upd \<equiv> \<lambda>m e. let k = (ev_rule_id e, ev_security_id e) in
      m(k \<mapsto> (case m k of None \<Rightarrow> ev_triggered_at e | Some t \<Rightarrow> max t (ev_triggered_at e)))"
  shows "(\<forall>k t. m k = Some t \<longrightarrow> (\<exists>t' \<ge> t. foldl upd m rows k = Some t')) \<and>
    (\<forall>e \<in> set rows. \<exists>t \<ge> ev_triggered_at e. foldl upd m rows (ev_rule_id e, ev_security_id e) = Some t)"
proof (induction rows arbitrary: m)
  case (Cons e rows)
  have keep: "\<exists>t' \<ge> t. upd m e k = Some t'" if "m k = Some t" for k t
    using that by (auto simp: upd_def Let_def split: option.split)
  have new: "\<exists>t \<ge> ev_triggered_at e. upd m e (ev_rule_id e, ev_security_id e) = Some t"
    by (auto simp: upd_def Let_def split: option.split)
  from Cons [of "upd m e"] keep new show ?case
    by (auto) (meson order_trans)+
qed simp

lemma max_cooldown_ge: "r \<in> set rules \<Longrightarrow> ar_cooldown_minutes r \<le> max_cooldown rules"
  using foldl_max_ge [of "ar_cooldown_minutes r" "ar_cooldown_minutes (hd rules)" "map ar_cooldown_minutes (tl rules)"]
  by (cases rules) (auto simp: max_cooldown_def)

text \<open>
  The events \<open>new\<close> of a run respect the cooldown of their rule against the events \<open>old\<close> before it.
\<close>

definition cooled :: "instant \<Rightarrow> alert_rule set \<Rightarrow> alert_event list \<Rightarrow> alert_event list \<Rightarrow> bool" where
  "cooled now rules old new \<longleftrightarrow> (\<forall>e \<in> set new. ev_eligible e \<longrightarrow>
     (\<forall>r \<in> rules. ar_id r = ev_rule_id e \<longrightarrow>
       (\<forall>e' \<in> set old. ev_rule_id e' = ev_rule_id e \<and> ev_security_id e' = ev_security_id e \<longrightarrow>
          ev_triggered_at e' < cooldown_start now (ar_cooldown_minutes r))))"

definition recent_known :: "instant \<Rightarrow> alert_rule set \<Rightarrow> alert_event list \<Rightarrow> evaluation \<Rightarrow> bool" where
  "recent_known now rules old st \<longleftrightarrow> (\<forall>r \<in> rules. \<forall>e \<in> set old. ev_rule_id e = ar_id r \<and>
     cooldown_start now (ar_cooldown_minutes r) \<le> ev_triggered_at e \<longrightarrow>
     (\<exists>t. st_latest st (ar_id r, ev_security_id e) = Some t \<and> cooldown_start now (ar_cooldown_minutes r) \<le> t))"

lemma cooled_step:
  assumes "\<exists>new. db_events (st_db st) = old @ new \<and> cooled now rules old new" and "recent_known now rules old st"
    and "rule \<in> rules" and "inj_on ar_id rules" and "\<forall>r \<in> rules. 0 \<le> ar_cooldown_minutes r"
  shows "(\<exists>new. db_events (st_db (evaluation_step digest trading now target hist st (rule, s))) = old @ new \<and>
      cooled now rules old new) \<and>
    recent_known now rules old (evaluation_step digest trading now target hist st (rule, s))"
proof (cases rule: step_consider [of digest trading now target hist st rule s])
  case same
  with assms(1,2) show ?thesis by (simp add: recent_known_def)
next
  case (event occ eligible st' fp)
  obtain new where new: "db_events (st_db st) = old @ new" "cooled now rules old new" using assms(1) by blast
  have known: "recent_known now rules old st'"
    using assms(2,5) event(8) by (auto simp: recent_known_def cooldown_start_def)
  have quiet: "ev_triggered_at e' < cooldown_start now (ar_cooldown_minutes rule)"
    if "eligible" "e' \<in> set old" "ev_rule_id e' = ar_id rule" "ev_security_id e' = s" for e'
  proof (rule ccontr)
    assume "\<not> ?thesis"
    with assms(2,3) that obtain t where "st_latest st (ar_id rule, s) = Some t"
      "cooldown_start now (ar_cooldown_minutes rule) \<le> t" by (fastforce simp: recent_known_def not_less)
    with event(5) that(1) show False by simp
  qed
  have same_rule: "r = rule" if "r \<in> rules" "ar_id r = ar_id rule" for r
    using assms(3,4) that by (auto dest: inj_onD)
  have "\<exists>new. db_events (st_db st') = old @ new \<and> cooled now rules old new"
  proof -
    obtain e where e: "db_events (st_db st') = old @ new @ [e]" "ev_rule_id e = ar_id rule"
      "ev_security_id e = s" "ev_eligible e = eligible"
      using event(6) new(1) by simp
    have "cooled now rules old (new @ [e])"
      using new(2) e quiet same_rule by (auto simp: cooled_def)
    with e(1) show ?thesis by blast
  qed
  with known show ?thesis using event(1) by simp
qed

text \<open>
  Cooldown is respected across runs: an event of a run is eligible for notification only if
  every earlier event of the same rule and security is older than the cooldown of the rule, even
  though the run loads only the events since the longest cooldown of any rule.
\<close>

lemma cooldown_respected:
  assumes "distinct (map ar_id (db_rules db))" and "\<forall>r \<in> set (eod_rules db). 0 \<le> ar_cooldown_minutes r"
  shows "\<exists>new. db_events (snd (evaluate_alerts digest arrange trading now target db)) = db_events db @ new \<and>
    cooled now (set (eod_rules db)) (db_events db) new"
proof -
  let ?db = "snd (start_run now target db)" and ?rules = "set (eod_rules db)"
  let ?P = "\<lambda>st. (\<exists>new. db_events (st_db st) = db_events db @ new \<and> cooled now ?rules (db_events db) new) \<and>
    recent_known now ?rules (db_events db) st"
  have ev: "db_events ?db = db_events db" by (simp add: start_run_def)
  have loaded: "cooldown_start now (max_cooldown (eod_rules db)) \<le> ev_triggered_at e"
    if "r \<in> ?rules" "cooldown_start now (ar_cooldown_minutes r) \<le> ev_triggered_at e" for r and e :: alert_event
    using max_cooldown_ge [of r "eod_rules db"] that by (simp add: cooldown_start_def)
  have "recent_known now ?rules (db_events db) (initial_evaluation now target ?db)"
    unfolding recent_known_def
  proof (intro ballI impI)
    fix r e
    assume r: "r \<in> ?rules" and e: "e \<in> set (db_events db)"
      and h: "ev_rule_id e = ar_id r \<and> cooldown_start now (ar_cooldown_minutes r) \<le> ev_triggered_at e"
    define rows where "rows = filter (\<lambda>e. ev_rule_id e \<in> set (map ar_id (eod_rules db)) \<and>
        (ev_trade_date e = target \<or> cooldown_start now (max_cooldown (eod_rules db)) \<le> ev_triggered_at e)) (db_events db)"
    have "e \<in> set rows" using r e h loaded [OF r] by (auto simp: rows_def)
    then obtain t where "t \<ge> ev_triggered_at e"
      "st_latest (initial_evaluation now target ?db) (ev_rule_id e, ev_security_id e) = Some t"
      using latest_fold [of "\<lambda>_. None" rows]
      by (auto simp: initial_evaluation_def event_state_def Let_def ev rows_def)
    with h show "\<exists>t. st_latest (initial_evaluation now target ?db) (ar_id r, ev_security_id e) = Some t \<and>
        cooldown_start now (ar_cooldown_minutes r) \<le> t" by auto
  qed
  then have "?P (initial_evaluation now target ?db)"
    by (simp add: initial_evaluation_def Let_def ev cooled_def)
  then have "?P (run_state digest arrange trading now target db)"
    unfolding run_state_def Let_def
  proof (rule run_invariant [where P = ?P, rotated])
    fix st rule s
    assume "?P st" and "(rule, s) \<in> set (run_pairs arrange ?db)"
    then show "?P (evaluation_step digest trading now target (market_history target (max_days (eod_rules ?db)) ?db)
        st (rule, s))"
      using assms eod_rules_distinct [OF assms(1)]
      by (intro cooled_step) (auto simp: run_pairs_def)
  qed
  then show ?thesis using evaluate_alerts_run by simp
qed

section \<open>Stale bars\<close>

text \<open>
  A run decides on the latest bar it finds, however old: when a security has no bar between
  two target dates, a rule has the same outcome for both, so an alert raised for the earlier date
  is raised again, as a new event, for the later one.
\<close>

lemma stale_bar_repeats:
  assumes "t \<le> t'" and "\<forall>p \<in> set (db_points db). mp_security_id p = s \<longrightarrow> \<not> (t < mp_trade_date p \<and> mp_trade_date p \<le> t')"
  shows "pair_result trading t' (market_history t' days db) codes rule s =
    pair_result trading t (market_history t days db) codes rule s"
proof -
  have "filter (\<lambda>p. mp_security_id p = s \<and> mp_trade_date p \<le> t') (db_points db) =
      filter (\<lambda>p. mp_security_id p = s \<and> mp_trade_date p \<le> t) (db_points db)"
    using assms by (intro filter_cong) force+
  then have hist: "market_history t' days db s = market_history t days db s"
    by (simp add: market_history_def)
  have "\<forall>p \<in> set (market_history t days db s). mp_trade_date p \<le> t"
    by (auto simp: market_history_def dest!: in_set_takeD)
  with assms(1) have "filter (\<lambda>p. trading (mp_trade_date p) \<and> mp_trade_date p \<le> t') (market_history t days db s) =
      filter (\<lambda>p. trading (mp_trade_date p) \<and> mp_trade_date p \<le> t) (market_history t days db s)"
    by (intro filter_cong) force+
  with hist show ?thesis by (simp add: pair_result_def)
qed

section \<open>Witnesses\<close>

definition close_rule :: alert_rule where
  "close_rule = rule_of (near_rule\<lparr>ar_rule_type := MA_CLOSE_ABOVE, ar_threshold_percent := None\<rparr>) 1 0 0"

definition example_db :: alert_db where
  "example_db = \<lparr>db_rules = [close_rule], db_transactions = [], db_watchlist_items = [],
     db_points = [point 739250 99 (Some 100), point 739251 103 (Some 100)], db_codes = [(7, ''2330'')],
     db_events = [], db_push_events = [], db_runs = [], db_next_id = 10\<rparr>"

definition example_digest :: "event_identity \<Rightarrow> fingerprint" where
  "example_digest k = replicate (to_nat k) CHR ''x''"

lemma example_digest_inj: "inj example_digest"
  by (rule injI) (metis example_digest_def length_replicate to_nat_split)

lemma close_rule_fields [simp]:
  "ar_id close_rule = 1" "ar_daily_limit close_rule = 5" "ar_cooldown_minutes close_rule = 1440"
  "ar_enabled close_rule = True" "ar_evaluation_mode close_rule = EOD"
  by (simp_all add: close_rule_def rule_of_def near_rule_def rule_values.defs alert_rule.defs)

lemma example_rules: "eod_rules example_db = [close_rule]"
  by (simp add: eod_rules_def list_rules_def example_db_def sort_key_def)

lemma example_events: "db_events example_db = []" "db_rules example_db = [close_rule]"
  "hashed digest example_db" "limits_kept {close_rule} d example_db"
  by (simp_all add: example_db_def hashed_def limits_kept_def eligible_count_def)

lemma events_stay_unique_witness:
  "distinct (map event_key (db_events (snd (evaluate_alerts example_digest (\<lambda>s. s) is_trading_day 5 739251 example_db))))"
  by (rule events_stay_unique [OF example_digest_inj, where db = example_db, THEN conjunct1])
    (simp_all add: example_events)

lemma daily_limit_respected_witness:
  "limits_kept {close_rule} 739251 (snd (evaluate_alerts example_digest (\<lambda>s. s) is_trading_day 5 739251 example_db))"
proof -
  have "limits_kept (set (eod_rules example_db)) 739251
      (snd (evaluate_alerts example_digest (\<lambda>s. s) is_trading_day 5 739251 example_db))"
    by (rule daily_limit_respected [OF example_digest_inj]) (simp_all add: example_events example_rules)
  then show ?thesis by (simp add: example_rules)
qed

lemma second_run_is_silent_witness:
  "\<exists>db1. db1 = snd (evaluate_alerts example_digest (\<lambda>s. s) is_trading_day 5 739251 example_db) \<and>
     db_events (snd (evaluate_alerts example_digest (\<lambda>s. s) is_trading_day 900 739251 db1)) = db_events db1"
  by (intro exI conjI) (rule refl, rule second_run_is_silent [OF refl, THEN conjunct2])

lemma cooldown_respected_witness:
  "\<exists>new. db_events (snd (evaluate_alerts example_digest (\<lambda>s. s) is_trading_day 5 739251 example_db)) = new \<and>
     cooled 5 {close_rule} [] new"
proof -
  have "\<exists>new. db_events (snd (evaluate_alerts example_digest (\<lambda>s. s) is_trading_day 5 739251 example_db)) =
      db_events example_db @ new \<and> cooled 5 (set (eod_rules example_db)) (db_events example_db) new"
    by (rule cooldown_respected) (simp_all add: example_events example_rules)
  then show ?thesis by (simp add: example_events example_rules)
qed

lemma stale_bar_repeats_witness:
  "pair_result is_trading_day 739252 (market_history 739252 2 example_db) [] close_rule 7 =
   pair_result is_trading_day 739251 (market_history 739251 2 example_db) [] close_rule 7"
  by (rule stale_bar_repeats) (simp_all add: example_db_def point_def)

end
