(* ===== verification/RealtimeAlerts.thy ===== *)
theory RealtimeAlerts
  imports AlertService RealtimeHub
begin

text \<open>
  Alerts on realtime quotes (\<open>app/services/realtime_alerts.py\<close>): the evaluation of a rule between two
  quotes, the service that keeps a state per rule and security in Redis, and the policy that keeps the
  broker subscribed to the securities with rules. A stored JSON state is the value it was dumped from (a
  \<open>Decimal\<close> survives \<open>str\<close> exactly); its expiry is not modelled, nor the metadata dictionary of an event.
  \<open>digest\<close> is \<open>sha256\<close> of the formatted text, \<open>parse\<close> the database's reading of an identifier text,
  \<open>clock\<close> the wall clock and \<open>ticks\<close> the monotonic one, in seconds.
\<close>

section \<open>Moving averages that include the current price\<close>

record ma_context =
  mc_period :: int
  mc_prior_sum :: decimal
  mc_history_count :: int

text \<open>The count is not negative, so the period is positive where the division is reached.\<close>

definition dynamic :: "ma_context \<Rightarrow> decimal \<Rightarrow> decimal option" where
  "dynamic c price =
     (if mc_history_count c \<noteq> mc_period c - 1 then None
      else Some (dctx (dadd prec (mc_prior_sum c) price / of_int (mc_period c))))"

type_synonym contexts = "string \<times> int \<Rightarrow> ma_context option"

definition ma_value :: "contexts \<Rightarrow> string \<Rightarrow> int \<Rightarrow> decimal \<Rightarrow> decimal option" where
  "ma_value contexts security_id period price =
     (case contexts (security_id, period) of None \<Rightarrow> None | Some c \<Rightarrow> dynamic c price)"

section \<open>One rule between two quotes\<close>

record rt_state =
  as_trade_date :: date
  as_last_price :: decimal
  as_dynamic_ma :: "decimal option"
  as_relation :: "string option"
  as_sequence :: "int option"
  as_timestamp :: instant
  as_fingerprint :: "string option"

definition relation :: "decimal \<Rightarrow> decimal option \<Rightarrow> string option" where
  "relation price reference =
     (case reference of None \<Rightarrow> None
      | Some r \<Rightarrow> Some (if r < price then ''ABOVE'' else if price < r then ''BELOW'' else ''TOUCH''))"

definition touch_tolerance :: decimal where
  "touch_tolerance = 5 / 100"

text \<open>\<open>abs(price - average) / average * 100\<close>\<close>

definition distance :: "decimal \<Rightarrow> decimal \<Rightarrow> decimal result" where
  "distance price average =
     rbind (ddiv prec (dabs prec (dsub prec price average)) average) (\<lambda>x. Inr (dmul prec x 100))"

definition realtime_triggered :: "'a rule_values_scheme \<Rightarrow> decimal \<Rightarrow> decimal \<Rightarrow> decimal option \<Rightarrow> decimal option \<Rightarrow>
    bool result" where
  "realtime_triggered r old now_price previous_ma current_ma =
     (if ar_rule_type r = PRICE_TARGET then
        (case ar_threshold_price r of None \<Rightarrow> Inl TypeError | Some ref \<Rightarrow> Inr (old < ref \<and> ref \<le> now_price))
      else if ar_rule_type r \<in> {PRICE_STOP, PRICE_ADD} then
        (case ar_threshold_price r of None \<Rightarrow> Inl TypeError | Some ref \<Rightarrow> Inr (ref < old \<and> now_price \<le> ref))
      else case (current_ma, previous_ma) of
        (Some ma, Some pma) \<Rightarrow>
          if ar_rule_type r = MA_CROSS_ABOVE then Inr (old \<le> pma \<and> ma < now_price)
          else if ar_rule_type r = MA_CROSS_BELOW then Inr (pma \<le> old \<and> now_price < ma)
          else if ar_rule_type r = MA_NEAR then
            rbind (distance old pma) (\<lambda>before. rbind (distance now_price ma) (\<lambda>after.
              case ar_threshold_percent r of None \<Rightarrow> Inl TypeError | Some pct \<Rightarrow> Inr (pct < before \<and> after \<le> pct)))
          else if ar_rule_type r = MA_TOUCH then
            rbind (distance old pma) (\<lambda>before. rbind (distance now_price ma) (\<lambda>after.
              Inr ((old < pma \<and> ma < now_price \<or> pma < old \<and> now_price < ma) \<or>
                   touch_tolerance < before \<and> after \<le> touch_tolerance)))
          else Inr False
      | _ \<Rightarrow> Inr False)"

definition evaluate_realtime_rule :: "'a rule_values_scheme \<Rightarrow> rt_state \<Rightarrow> realtime_quote \<Rightarrow> decimal option \<Rightarrow>
    decimal option \<Rightarrow> occurrence option result" where
  "evaluate_realtime_rule r previous q previous_ma current_ma =
     rbind (realtime_triggered r (as_last_price previous) (rq_last_price q) previous_ma current_ma) (\<lambda>triggered.
       case (case ar_threshold_price r of Some ref \<Rightarrow> Some ref | None \<Rightarrow> current_ma) of
         None \<Rightarrow> Inr None
       | Some ref \<Rightarrow>
           if \<not> triggered then Inr None
           else
             let kind = (if is_price_rule (ar_rule_type r) then ''PRICE''
                         else ''DYNAMIC_MA'' @ (case ar_ma_period r of None \<Rightarrow> ''None'' | Some p \<Rightarrow> show_int p))
             in Inr (Some \<lparr>oc_event_type = rule_value (ar_rule_type r), oc_trigger_price = rq_last_price q,
                  oc_reference_value = ref, oc_reference_type = kind, oc_message = (rq_code q, Intraday, kind),
                  oc_data_status = LIVE\<rparr>))"

section \<open>The service\<close>

record alert_metrics =
  mt_processed :: int
  mt_evaluated :: int
  mt_triggered :: int
  mt_cooldown :: int
  mt_daily_limit :: int
  mt_replay :: int
  mt_out_of_order :: int
  mt_hits :: int
  mt_misses :: int
  mt_active :: int

record alert_service =
  sv_rules :: "(string \<times> alert_rule list) list"
  sv_info :: "(string \<times> string \<times> string \<times> string) list"
  sv_contexts :: contexts
  sv_states :: "uuid \<times> string \<Rightarrow> rt_state option"
  sv_last_quote :: "instant option"
  sv_last_refresh :: int
  sv_metrics :: alert_metrics
  sv_db :: alert_db
  sv_published :: "(uuid \<times> string \<times> bool) list"

definition new_service :: "int \<Rightarrow> alert_db \<Rightarrow> alert_service" where
  "new_service ticks db = \<lparr>sv_rules = [], sv_info = [], sv_contexts = (\<lambda>_. None), sv_states = (\<lambda>_. None),
     sv_last_quote = None, sv_last_refresh = ticks,
     sv_metrics = \<lparr>mt_processed = 0, mt_evaluated = 0, mt_triggered = 0, mt_cooldown = 0, mt_daily_limit = 0,
       mt_replay = 0, mt_out_of_order = 0, mt_hits = 0, mt_misses = 0, mt_active = 0\<rparr>,
     sv_db = db, sv_published = []\<rparr>"

definition count_metric :: "(alert_metrics \<Rightarrow> alert_metrics) \<Rightarrow> alert_service \<Rightarrow> alert_service" where
  "count_metric f sv = sv\<lparr>sv_metrics := f (sv_metrics sv)\<rparr>"

text \<open>Queries of the repository.\<close>

definition event_exists :: "string \<Rightarrow> alert_db \<Rightarrow> bool" where
  "event_exists fp db \<longleftrightarrow> fp \<in> set (map ev_fingerprint (db_events db))"

definition recent_event :: "uuid \<Rightarrow> uuid \<Rightarrow> instant \<Rightarrow> alert_db \<Rightarrow> bool" where
  "recent_event rule_id security since db \<longleftrightarrow>
     list_ex (\<lambda>e. ev_rule_id e = rule_id \<and> ev_security_id e = security \<and> since \<le> ev_triggered_at e) (db_events db)"

definition daily_notification_count :: "uuid \<Rightarrow> date \<Rightarrow> alert_db \<Rightarrow> int" where
  "daily_notification_count rule_id d db =
     int (length (filter (\<lambda>e. ev_rule_id e = rule_id \<and> ev_trade_date e = d \<and> ev_eligible e) (db_events db)))"

type_synonym quote_identity = "uuid \<times> string \<times> string \<times> (int + instant)"

definition quote_identity :: "alert_rule \<Rightarrow> realtime_quote \<Rightarrow> occurrence \<Rightarrow> quote_identity" where
  "quote_identity r q occ =
     (ar_id r, rq_security_id q, oc_event_type occ,
      case rq_sequence q of Some s \<Rightarrow> Inl s | None \<Rightarrow> Inr (rq_exchange_timestamp q))"

text \<open>The period of a rule; a missing one and zero count as none.\<close>

definition used_period :: "'a rule_values_scheme \<Rightarrow> int option" where
  "used_period r = (case ar_ma_period r of None \<Rightarrow> None | Some p \<Rightarrow> if p = 0 then None else Some p)"

definition average_at :: "alert_service \<Rightarrow> 'a rule_values_scheme \<Rightarrow> realtime_quote \<Rightarrow> decimal \<Rightarrow> decimal option" where
  "average_at sv r q price =
     (case used_period r of None \<Rightarrow> None | Some p \<Rightarrow> ma_value (sv_contexts sv) (rq_security_id q) p price)"

definition is_baseline :: "rt_state option \<Rightarrow> realtime_quote \<Rightarrow> bool" where
  "is_baseline state q \<longleftrightarrow>
     (case state of None \<Rightarrow> True
      | Some st \<Rightarrow> as_trade_date st \<noteq> utc_date (rq_exchange_timestamp q) \<or> rq_event_kind q = SNAPSHOT)"

definition late_quote :: "rt_state \<Rightarrow> realtime_quote \<Rightarrow> bool" where
  "late_quote st q \<longleftrightarrow>
     (case (rq_sequence q, as_sequence st) of (Some s, Some s') \<Rightarrow> s \<le> s' | _ \<Rightarrow> False) \<or>
     rq_exchange_timestamp q \<le> as_timestamp st"

definition next_state :: "realtime_quote \<Rightarrow> decimal option \<Rightarrow> string option \<Rightarrow> rt_state option \<Rightarrow> rt_state" where
  "next_state q current_ma fp state =
     \<lparr>as_trade_date = utc_date (rq_exchange_timestamp q), as_last_price = rq_last_price q, as_dynamic_ma = current_ma,
      as_relation = relation (rq_last_price q) current_ma, as_sequence = rq_sequence q,
      as_timestamp = rq_exchange_timestamp q,
      as_fingerprint = (case fp of Some f \<Rightarrow> Some f | None \<Rightarrow> (case state of None \<Rightarrow> None | Some st \<Rightarrow> as_fingerprint st))\<rparr>"

text \<open>What an occurrence leads to: nothing when it was seen, else an event and a message.\<close>

definition record_occurrence :: "(string \<Rightarrow> uuid) \<Rightarrow> instant \<Rightarrow> alert_rule \<Rightarrow> realtime_quote \<Rightarrow> occurrence \<Rightarrow> string \<Rightarrow>
    rt_state \<Rightarrow> alert_service \<Rightarrow> alert_service" where
  "record_occurrence parse clock r q occ fp st sv =
     (if as_fingerprint st = Some fp \<or> event_exists fp (sv_db sv)
      then count_metric (\<lambda>m. m\<lparr>mt_replay := mt_replay m + 1\<rparr>) sv
      else
        let t = rq_exchange_timestamp q;
            security = parse (rq_security_id q);
            cooldown = recent_event (ar_id r) security (cooldown_start t (ar_cooldown_minutes r)) (sv_db sv);
            count = daily_notification_count (ar_id r) (utc_date t) (sv_db sv);
            eligible = (\<not> cooldown \<and> count < ar_daily_limit r);
            sv = (if cooldown then count_metric (\<lambda>m. m\<lparr>mt_cooldown := mt_cooldown m + 1\<rparr>) sv
                  else if ar_daily_limit r \<le> count then count_metric (\<lambda>m. m\<lparr>mt_daily_limit := mt_daily_limit m + 1\<rparr>) sv
                  else sv)
        in count_metric (\<lambda>m. m\<lparr>mt_triggered := mt_triggered m + 1\<rparr>)
             (sv\<lparr>sv_db := add_event clock (ar_id r) security (utc_date t) occ fp eligible (sv_db sv),
                 sv_published := sv_published sv @ [(db_next_id (sv_db sv), fp, eligible)]\<rparr>))"

definition store_state :: "alert_rule \<Rightarrow> realtime_quote \<Rightarrow> rt_state \<Rightarrow> alert_service \<Rightarrow> alert_service" where
  "store_state r q st sv = sv\<lparr>sv_states := (sv_states sv)((ar_id r, rq_security_id q) := Some st)\<rparr>"

text \<open>The counters of one evaluation: of rules, and of averages found or missing.\<close>

definition counted :: "alert_rule \<Rightarrow> realtime_quote \<Rightarrow> alert_service \<Rightarrow> alert_service" where
  "counted r q sv =
     (let sv = count_metric (\<lambda>m. m\<lparr>mt_evaluated := mt_evaluated m + 1\<rparr>) sv in
      if used_period r = None then sv
      else if average_at sv r q (rq_last_price q) \<noteq> None then count_metric (\<lambda>m. m\<lparr>mt_hits := mt_hits m + 1\<rparr>) sv
      else count_metric (\<lambda>m. m\<lparr>mt_misses := mt_misses m + 1\<rparr>) sv)"

definition state_of :: "alert_rule \<Rightarrow> realtime_quote \<Rightarrow> alert_service \<Rightarrow> rt_state option" where
  "state_of r q sv = sv_states sv (ar_id r, rq_security_id q)"

definition evaluate_one :: "(quote_identity \<Rightarrow> string) \<Rightarrow> (string \<Rightarrow> uuid) \<Rightarrow> instant \<Rightarrow> alert_rule \<Rightarrow> realtime_quote \<Rightarrow>
    alert_service \<Rightarrow> unit result \<times> alert_service" where
  "evaluate_one digest parse clock r q sv =
     (let current_ma = average_at sv r q (rq_last_price q) in
      case (if is_baseline (state_of r q sv) q then None else state_of r q sv) of
        None \<Rightarrow> (Inr (), store_state r q (next_state q current_ma None (state_of r q sv)) (counted r q sv))
      | Some st \<Rightarrow>
          if late_quote st q
          then (Inr (), count_metric (\<lambda>m. m\<lparr>mt_out_of_order := mt_out_of_order m + 1\<rparr>) (counted r q sv))
          else
            case evaluate_realtime_rule r st q (average_at sv r q (as_last_price st)) current_ma of
              Inl e \<Rightarrow> (Inl e, counted r q sv)
            | Inr None \<Rightarrow> (Inr (), store_state r q (next_state q current_ma None (Some st)) (counted r q sv))
            | Inr (Some occ) \<Rightarrow>
                let fp = digest (quote_identity r q occ) in
                (Inr (), store_state r q (next_state q current_ma (Some fp) (Some st))
                   (record_occurrence parse clock r q occ fp st (counted r q sv))))"

fun evaluate_each :: "(quote_identity \<Rightarrow> string) \<Rightarrow> (string \<Rightarrow> uuid) \<Rightarrow> instant \<Rightarrow> alert_rule list \<Rightarrow> realtime_quote \<Rightarrow>
    alert_service \<Rightarrow> unit result \<times> alert_service" where
  "evaluate_each digest parse clock [] q sv = (Inr (), sv)"
| "evaluate_each digest parse clock (r # rs) q sv =
     (case evaluate_one digest parse clock r q sv of
        (Inl e, sv) \<Rightarrow> (Inl e, sv)
      | (Inr _, sv) \<Rightarrow> evaluate_each digest parse clock rs q sv)"

definition rules_of :: "string \<Rightarrow> alert_service \<Rightarrow> alert_rule list" where
  "rules_of security_id sv = (case map_of (sv_rules sv) security_id of None \<Rightarrow> [] | Some rs \<Rightarrow> rs)"

text \<open>\<open>accept\<close> after the refresh that may be due\<close>

definition accept_quote :: "(quote_identity \<Rightarrow> string) \<Rightarrow> (string \<Rightarrow> uuid) \<Rightarrow> instant \<Rightarrow> realtime_quote \<Rightarrow>
    alert_service \<Rightarrow> unit result \<times> alert_service" where
  "accept_quote digest parse clock q sv =
     (let sv = count_metric (\<lambda>m. m\<lparr>mt_processed := mt_processed m + 1\<rparr>) sv\<lparr>sv_last_quote := Some (rq_exchange_timestamp q)\<rparr>
      in if rq_session q \<noteq> REGULAR \<or> rq_data_status q \<noteq> RtLive then (Inr (), sv)
         else evaluate_each digest parse clock (rules_of (rq_security_id q) sv) q sv)"

section \<open>Refreshing the rules\<close>

definition realtime_rule_types :: "alert_rule_type set" where
  "realtime_rule_types = {PRICE_TARGET, PRICE_STOP, PRICE_ADD, MA_NEAR, MA_TOUCH, MA_CROSS_ABOVE, MA_CROSS_BELOW}"

definition realtime_rules :: "alert_db \<Rightarrow> alert_rule list" where
  "realtime_rules db =
     filter (\<lambda>r. ar_evaluation_mode r = REALTIME \<and> ar_rule_type r \<in> realtime_rule_types) (list_rules (Some True) db)"

definition final_closes :: "alert_db \<Rightarrow> uuid \<Rightarrow> decimal list" where
  "final_closes db security =
     take 239 (List.map_filter mp_close (rev (sort_key mp_trade_date
       (filter (\<lambda>p. mp_security_id p = security \<and> mp_data_status p = FINAL) (db_points db)))))"

definition has_final :: "alert_db \<Rightarrow> uuid \<Rightarrow> bool" where
  "has_final db security \<longleftrightarrow> list_ex (\<lambda>p. mp_security_id p = security \<and> mp_data_status p = FINAL) (db_points db)"

text \<open>\<open>values[: period - 1]\<close>; a negative bound counts from the end.\<close>

definition prior_closes :: "int \<Rightarrow> decimal list \<Rightarrow> decimal list" where
  "prior_closes period values = (if 1 \<le> period then take (nat (period - 1)) values
     else take (length values - nat (1 - period)) values)"

definition context_of :: "alert_db \<Rightarrow> uuid \<Rightarrow> int \<Rightarrow> ma_context" where
  "context_of db security period =
     (let prior = prior_closes period (final_closes db security)
      in \<lparr>mc_period = period, mc_prior_sum = PyDecimal.dsum prec prior, mc_history_count = int (length prior)\<rparr>)"

definition realtime_ma_contexts :: "alert_db \<Rightarrow> uuid list \<Rightarrow> alert_rule list \<Rightarrow> contexts" where
  "realtime_ma_contexts db securities rules =
     (\<lambda>(text, period).
        if period \<in> set (List.map_filter used_period rules)
        then map_option (\<lambda>s. context_of db s period) (find (\<lambda>s. uuid_text s = text \<and> has_final db s) securities)
        else None)"

definition add_rule :: "string \<Rightarrow> alert_rule \<Rightarrow> (string \<times> alert_rule list) list \<Rightarrow> (string \<times> alert_rule list) list" where
  "add_rule text r m = AList.update text ((case map_of m text of None \<Rightarrow> [] | Some rs \<Rightarrow> rs) @ [r]) m"

definition rules_by_security :: "(uuid list \<Rightarrow> uuid list) \<Rightarrow> alert_db \<Rightarrow> (string \<times> alert_rule list) list" where
  "rules_by_security arrange db =
     foldl (\<lambda>m (r, s). add_rule (uuid_text s) r m) []
       (concat (map (\<lambda>r. map (Pair r) (arrange (resolve_membership db r))) (realtime_rules db)))"

definition rule_pairs :: "(string \<times> alert_rule list) list \<Rightarrow> (uuid \<times> string) list" where
  "rule_pairs m = concat (map (\<lambda>(text, rs). map (\<lambda>r. (ar_id r, text)) rs) m)"

text \<open>\<open>realtime_security_keys\<close>\<close>

definition realtime_security_keys :: "alert_service \<Rightarrow> string list result" where
  "realtime_security_keys sv =
     rfold (\<lambda>keys (text, rs).
       case map_of (sv_info sv) text of
         None \<Rightarrow> Inl ValueError
       | Some (code, name, market) \<Rightarrow>
           if upper market \<notin> {''TWSE'', ''TPEX''} \<or> code = [] then Inl ValueError
           else Inr (List.insert (security_text (upper market) code) keys)) [] (sv_rules sv)"

text \<open>
  \<open>refresh\<close> up to the call of the membership listener; \<open>directory\<close> is the join of securities and markets,
  as code, name and market code.
\<close>

definition refresh_rules :: "(uuid list \<Rightarrow> uuid list) \<Rightarrow> (uuid \<Rightarrow> (string \<times> string \<times> string) option) \<Rightarrow> int \<Rightarrow>
    alert_service \<Rightarrow> alert_service" where
  "refresh_rules arrange directory ticks sv =
     (let db = sv_db sv;
          rules = realtime_rules db;
          securities = remdups (concat (map (resolve_membership db) rules));
          by_security = rules_by_security arrange db;
          gone = set (rule_pairs (sv_rules sv)) - set (rule_pairs by_security)
      in sv\<lparr>sv_contexts := realtime_ma_contexts db securities rules,
            sv_info := List.map_filter (\<lambda>s. map_option (Pair (uuid_text s)) (directory s)) securities,
            sv_rules := by_security,
            sv_states := (\<lambda>k. if k \<in> gone then None else sv_states sv k),
            sv_metrics := (sv_metrics sv)\<lparr>mt_active := int (length by_security)\<rparr>,
            sv_last_refresh := ticks\<rparr>)"

text \<open>
  The call of the membership listener that ends \<open>refresh\<close>: \<open>RealtimeAlertSubscriptionPolicy.reconcile\<close> or
  none. What it raises, and what the collection of the keys raises, reaches the caller of \<open>refresh\<close>.
\<close>

type_synonym listener = "(string list \<Rightarrow> unit result) option"

definition notify_listener :: "listener \<Rightarrow> alert_service \<Rightarrow> unit result" where
  "notify_listener listener sv =
     (case listener of None \<Rightarrow> Inr () | Some f \<Rightarrow> rbind (realtime_security_keys sv) f)"

definition refresh_due :: "int \<Rightarrow> alert_service \<Rightarrow> bool" where
  "refresh_due ticks sv \<longleftrightarrow> 60 \<le> ticks - sv_last_refresh sv"

definition refreshed :: "(uuid list \<Rightarrow> uuid list) \<Rightarrow> (uuid \<Rightarrow> (string \<times> string \<times> string) option) \<Rightarrow> int \<Rightarrow>
    alert_service \<Rightarrow> alert_service" where
  "refreshed arrange directory ticks sv = (if refresh_due ticks sv then refresh_rules arrange directory ticks sv else sv)"

text \<open>When the listener fails the quote is dropped, with the rules already refreshed.\<close>

definition accept_realtime :: "(quote_identity \<Rightarrow> string) \<Rightarrow> (string \<Rightarrow> uuid) \<Rightarrow> (uuid list \<Rightarrow> uuid list) \<Rightarrow>
    (uuid \<Rightarrow> (string \<times> string \<times> string) option) \<Rightarrow> listener \<Rightarrow> instant \<Rightarrow> int \<Rightarrow> realtime_quote \<Rightarrow> alert_service \<Rightarrow>
    unit result \<times> alert_service" where
  "accept_realtime digest parse arrange directory listener clock ticks q sv =
     (let sv' = refreshed arrange directory ticks sv in
      case (if refresh_due ticks sv then notify_listener listener sv' else Inr ()) of
        Inl e \<Rightarrow> (Inl e, sv')
      | Inr u \<Rightarrow> accept_quote digest parse clock q sv')"

text \<open>
  A stream of quotes, each with the listener and the times of its arrival; an error is logged by the
  ingestion loop.
\<close>

definition feed_alerts :: "(quote_identity \<Rightarrow> string) \<Rightarrow> (string \<Rightarrow> uuid) \<Rightarrow> (uuid list \<Rightarrow> uuid list) \<Rightarrow>
    (uuid \<Rightarrow> (string \<times> string \<times> string) option) \<Rightarrow> (listener \<times> instant \<times> int \<times> realtime_quote) list \<Rightarrow> alert_service \<Rightarrow>
    alert_service" where
  "feed_alerts digest parse arrange directory arrivals sv =
     foldl (\<lambda>sv (listener, clock, ticks, q). snd (accept_realtime digest parse arrange directory listener clock ticks q sv)) sv arrivals"

lemma accept_realtime_state:
  "snd (accept_realtime digest parse arrange directory listener clock ticks q sv) \<in>
     {refreshed arrange directory ticks sv, snd (accept_quote digest parse clock q (refreshed arrange directory ticks sv))}"
  by (auto simp: accept_realtime_def Let_def split: sum.split)

lemma refreshed_db [simp]: "sv_db (refreshed arrange directory ticks sv) = sv_db sv"
  by (simp add: refreshed_def refresh_rules_def Let_def)

section \<open>What an evaluation changes\<close>

lemma count_metric_fields [simp]:
  "sv_db (count_metric f sv) = sv_db sv" "sv_rules (count_metric f sv) = sv_rules sv"
  "sv_states (count_metric f sv) = sv_states sv" "sv_contexts (count_metric f sv) = sv_contexts sv"
  "sv_last_refresh (count_metric f sv) = sv_last_refresh sv"
  by (simp_all add: count_metric_def)

lemma store_state_fields [simp]:
  "sv_db (store_state r q st sv) = sv_db sv" "sv_rules (store_state r q st sv) = sv_rules sv"
  "sv_contexts (store_state r q st sv) = sv_contexts sv"
  "sv_states (store_state r q st sv) = (sv_states sv)((ar_id r, rq_security_id q) := Some st)"
  by (simp_all add: store_state_def)

lemma record_fields [simp]:
  "sv_rules (record_occurrence parse clock r q occ fp st sv) = sv_rules sv"
  "sv_contexts (record_occurrence parse clock r q occ fp st sv) = sv_contexts sv"
  "sv_states (record_occurrence parse clock r q occ fp st sv) = sv_states sv"
  by (simp_all add: record_occurrence_def Let_def)

text \<open>The event of an occurrence, if it is a new one.\<close>

lemma record_db:
  "sv_db (record_occurrence parse clock r q occ fp st sv) =
    (if as_fingerprint st = Some fp \<or> event_exists fp (sv_db sv) then sv_db sv
     else add_event clock (ar_id r) (parse (rq_security_id q)) (utc_date (rq_exchange_timestamp q)) occ fp
       (\<not> recent_event (ar_id r) (parse (rq_security_id q))
            (cooldown_start (rq_exchange_timestamp q) (ar_cooldown_minutes r)) (sv_db sv) \<and>
        daily_notification_count (ar_id r) (utc_date (rq_exchange_timestamp q)) (sv_db sv) < ar_daily_limit r)
       (sv_db sv))"
  by (simp add: record_occurrence_def Let_def)

lemma counted_fields [simp]:
  "sv_db (counted r q sv) = sv_db sv" "sv_rules (counted r q sv) = sv_rules sv"
  "sv_states (counted r q sv) = sv_states sv" "sv_contexts (counted r q sv) = sv_contexts sv"
  by (simp_all add: counted_def Let_def)

text \<open>The ways an evaluation can go.\<close>

lemma evaluate_one_cases:
  obtains (baseline) "is_baseline (state_of r q sv) q"
      "evaluate_one digest parse clock r q sv =
        (Inr (), store_state r q (next_state q (average_at sv r q (rq_last_price q)) None (state_of r q sv)) (counted r q sv))"
  | (late) st where "state_of r q sv = Some st" "\<not> is_baseline (Some st) q" "late_quote st q"
      "evaluate_one digest parse clock r q sv =
        (Inr (), count_metric (\<lambda>m. m\<lparr>mt_out_of_order := mt_out_of_order m + 1\<rparr>) (counted r q sv))"
  | (raised) st e where "state_of r q sv = Some st" "\<not> is_baseline (Some st) q" "\<not> late_quote st q"
      "evaluate_one digest parse clock r q sv = (Inl e, counted r q sv)"
  | (quiet) st where "state_of r q sv = Some st" "\<not> is_baseline (Some st) q" "\<not> late_quote st q"
      "evaluate_realtime_rule r st q (average_at sv r q (as_last_price st)) (average_at sv r q (rq_last_price q)) = Inr None"
      "evaluate_one digest parse clock r q sv =
        (Inr (), store_state r q (next_state q (average_at sv r q (rq_last_price q)) None (Some st)) (counted r q sv))"
  | (fired) st occ where "state_of r q sv = Some st" "\<not> is_baseline (Some st) q" "\<not> late_quote st q"
      "evaluate_realtime_rule r st q (average_at sv r q (as_last_price st)) (average_at sv r q (rq_last_price q)) = Inr (Some occ)"
      "evaluate_one digest parse clock r q sv =
        (Inr (), store_state r q
           (next_state q (average_at sv r q (rq_last_price q)) (Some (digest (quote_identity r q occ))) (Some st))
           (record_occurrence parse clock r q occ (digest (quote_identity r q occ)) st (counted r q sv)))"
proof (cases "is_baseline (state_of r q sv) q")
  case True
  then show thesis by (intro baseline) (simp_all add: evaluate_one_def Let_def)
next
  case False
  then obtain st where st: "state_of r q sv = Some st" by (auto simp: is_baseline_def split: option.splits)
  show thesis
  proof (cases "late_quote st q")
    case True
    with st False show thesis by (intro late) (simp_all add: evaluate_one_def Let_def)
  next
    case order: False
    let ?e = "evaluate_realtime_rule r st q (average_at sv r q (as_last_price st)) (average_at sv r q (rq_last_price q))"
    consider e where "?e = Inl e" | "?e = Inr None" | occ where "?e = Inr (Some occ)"
      by (metis obj_sumE option.exhaust)
    then show thesis
    proof cases
      case 1
      with st False order show thesis by (intro raised) (simp_all add: evaluate_one_def Let_def)
    next
      case 2
      with st False order show thesis by (intro quiet) (simp_all add: evaluate_one_def Let_def)
    next
      case 3
      with st False order show thesis by (intro fired) (simp_all add: evaluate_one_def Let_def)
    qed
  qed
qed

lemma evaluate_one_rules [simp]: "sv_rules (snd (evaluate_one digest parse clock r q sv)) = sv_rules sv"
  by (cases rule: evaluate_one_cases [of r q sv digest parse clock]) simp_all

text \<open>What holds of the database before a new event holds after it.\<close>

lemma evaluate_one_db:
  assumes "P (sv_db sv)"
    and "\<And>occ fp. P (sv_db sv) \<Longrightarrow> P (add_event clock (ar_id r) (parse (rq_security_id q)) (utc_date (rq_exchange_timestamp q)) occ fp
       (\<not> recent_event (ar_id r) (parse (rq_security_id q))
            (cooldown_start (rq_exchange_timestamp q) (ar_cooldown_minutes r)) (sv_db sv) \<and>
        daily_notification_count (ar_id r) (utc_date (rq_exchange_timestamp q)) (sv_db sv) < ar_daily_limit r)
       (sv_db sv))"
  shows "P (sv_db (snd (evaluate_one digest parse clock r q sv)))"
  using assms
  by (cases rule: evaluate_one_cases [of r q sv digest parse clock]) (simp_all add: record_db)

lemma evaluate_each_db:
  assumes "P (sv_db sv)"
    and "\<And>r db occ fp. r \<in> set rs \<Longrightarrow> P db \<Longrightarrow> P (add_event clock (ar_id r) (parse (rq_security_id q)) (utc_date (rq_exchange_timestamp q)) occ fp
       (\<not> recent_event (ar_id r) (parse (rq_security_id q))
            (cooldown_start (rq_exchange_timestamp q) (ar_cooldown_minutes r)) db \<and>
        daily_notification_count (ar_id r) (utc_date (rq_exchange_timestamp q)) db < ar_daily_limit r)
       db)"
  shows "P (sv_db (snd (evaluate_each digest parse clock rs q sv))) \<and>
    sv_rules (snd (evaluate_each digest parse clock rs q sv)) = sv_rules sv"
  using assms
proof (induction rs arbitrary: sv)
  case (Cons r rs)
  obtain res sv' where one: "evaluate_one digest parse clock r q sv = (res, sv')" by fastforce
  have "P (sv_db (snd (evaluate_one digest parse clock r q sv)))"
  proof (rule evaluate_one_db)
    show "P (sv_db sv)" by (rule Cons.prems(1))
    show "P (add_event clock (ar_id r) (parse (rq_security_id q)) (utc_date (rq_exchange_timestamp q)) occ fp
       (\<not> recent_event (ar_id r) (parse (rq_security_id q))
            (cooldown_start (rq_exchange_timestamp q) (ar_cooldown_minutes r)) (sv_db sv) \<and>
        daily_notification_count (ar_id r) (utc_date (rq_exchange_timestamp q)) (sv_db sv) < ar_daily_limit r)
       (sv_db sv))" for occ fp
      using Cons.prems(1) by (intro Cons.prems(2)) simp_all
  qed
  with one have p: "P (sv_db sv')" by simp
  have rules: "sv_rules sv' = sv_rules sv" using evaluate_one_rules [of digest parse clock r q sv] one by simp
  show ?case
  proof (cases res)
    case (Inl e)
    with one p rules show ?thesis by simp
  next
    case (Inr u)
    have "P (sv_db (snd (evaluate_each digest parse clock rs q sv'))) \<and>
        sv_rules (snd (evaluate_each digest parse clock rs q sv')) = sv_rules sv'"
      by (rule Cons.IH [OF p], rule Cons.prems(2), simp_all)
    with one rules Inr show ?thesis by simp
  qed
qed simp

lemma add_event_count:
  "daily_notification_count i d (add_event clock j security d' occ fp eligible db) =
    daily_notification_count i d db + (if eligible \<and> i = j \<and> d = d' then 1 else 0)"
  by (simp add: daily_notification_count_def add_event_def Let_def)

lemma add_event_rules [simp]: "db_rules (add_event clock j security d occ fp eligible db) = db_rules db"
  by (simp add: add_event_def Let_def)

lemma accept_quote_db:
  assumes "P (sv_db sv)"
    and "\<And>r db occ fp. r \<in> set (rules_of (rq_security_id q) sv0) \<Longrightarrow> P db \<Longrightarrow>
      P (add_event clock (ar_id r) (parse (rq_security_id q)) (utc_date (rq_exchange_timestamp q)) occ fp
       (\<not> recent_event (ar_id r) (parse (rq_security_id q))
            (cooldown_start (rq_exchange_timestamp q) (ar_cooldown_minutes r)) db \<and>
        daily_notification_count (ar_id r) (utc_date (rq_exchange_timestamp q)) db < ar_daily_limit r)
       db)"
    and "sv_rules sv = sv_rules sv0"
  shows "P (sv_db (snd (accept_quote digest parse clock q sv))) \<and>
    sv_rules (snd (accept_quote digest parse clock q sv)) = sv_rules sv"
proof -
  let ?sv = "count_metric (\<lambda>m. m\<lparr>mt_processed := mt_processed m + 1\<rparr>) sv\<lparr>sv_last_quote := Some (rq_exchange_timestamp q)\<rparr>"
  have "rules_of (rq_security_id q) ?sv = rules_of (rq_security_id q) sv0" by (simp add: rules_of_def assms(3))
  then have "P (sv_db (snd (evaluate_each digest parse clock (rules_of (rq_security_id q) ?sv) q ?sv))) \<and>
      sv_rules (snd (evaluate_each digest parse clock (rules_of (rq_security_id q) ?sv) q ?sv)) = sv_rules ?sv"
    by (intro evaluate_each_db [where P = P]) (simp add: assms(1), rule assms(2), simp_all)
  then show ?thesis using assms(1) by (simp add: accept_quote_def Let_def)
qed

section \<open>The daily limit\<close>

text \<open>Every active rule is stored, and no stored rule has used more than its daily notifications.\<close>

definition limits_ok :: "alert_db \<Rightarrow> bool" where
  "limits_ok db \<longleftrightarrow> distinct (map ar_id (db_rules db)) \<and>
     (\<forall>r \<in> set (db_rules db). \<forall>d. daily_notification_count (ar_id r) d db \<le> ar_daily_limit r)"

definition rules_stored :: "alert_service \<Rightarrow> bool" where
  "rules_stored sv \<longleftrightarrow> (\<forall>(text, rs) \<in> set (sv_rules sv). set rs \<subseteq> set (db_rules (sv_db sv)))"

lemma add_event_limits:
  assumes "limits_ok db" and "r \<in> set (db_rules db)" and "eligible \<longrightarrow> daily_notification_count (ar_id r) d db < ar_daily_limit r"
  shows "limits_ok (add_event clock (ar_id r) security d occ fp eligible db)"
proof -
  have "daily_notification_count (ar_id t) e (add_event clock (ar_id r) security d occ fp eligible db) \<le> ar_daily_limit t"
    if "t \<in> set (db_rules db)" for t e
  proof (cases "eligible \<and> ar_id t = ar_id r \<and> e = d")
    case True
    then have "t = r" using assms(1,2) that by (auto simp: limits_ok_def distinct_map dest: inj_onD)
    with True assms(3) show ?thesis by (simp add: add_event_count)
  next
    case False
    with assms(1) that show ?thesis by (auto simp: add_event_count limits_ok_def)
  qed
  with assms(1) show ?thesis by (simp add: limits_ok_def)
qed

lemma rules_of_stored: "rules_stored sv \<Longrightarrow> r \<in> set (rules_of text sv) \<Longrightarrow> r \<in> set (db_rules (sv_db sv))"
  by (cases "map_of (sv_rules sv) text") (auto simp: rules_stored_def rules_of_def dest!: map_of_SomeD)

lemma accept_quote_limits:
  assumes "limits_ok (sv_db sv)" and "rules_stored sv"
  shows "limits_ok (sv_db (snd (accept_quote digest parse clock q sv))) \<and> rules_stored (snd (accept_quote digest parse clock q sv))"
proof -
  let ?P = "\<lambda>db. limits_ok db \<and> db_rules db = db_rules (sv_db sv)"
  have "?P (sv_db (snd (accept_quote digest parse clock q sv))) \<and>
      sv_rules (snd (accept_quote digest parse clock q sv)) = sv_rules sv"
  proof (rule accept_quote_db [where P = ?P and ?sv0.0 = sv])
    fix r db occ fp
    assume r: "r \<in> set (rules_of (rq_security_id q) sv)" and p: "?P db"
    then have "r \<in> set (db_rules db)" using rules_of_stored [OF assms(2)] by simp
    with p show "?P (add_event clock (ar_id r) (parse (rq_security_id q)) (utc_date (rq_exchange_timestamp q)) occ fp
       (\<not> recent_event (ar_id r) (parse (rq_security_id q))
            (cooldown_start (rq_exchange_timestamp q) (ar_cooldown_minutes r)) db \<and>
        daily_notification_count (ar_id r) (utc_date (rq_exchange_timestamp q)) db < ar_daily_limit r)
       db)" by (auto intro: add_event_limits)
  qed (use assms in simp_all)
  with assms(2) show ?thesis by (simp add: rules_stored_def)
qed

lemma realtime_rules_stored: "set (realtime_rules db) \<subseteq> set (db_rules db)"
  by (auto simp: realtime_rules_def list_rules_def)

lemma rules_by_security_stored: "\<forall>(text, rs) \<in> set (rules_by_security arrange db). set rs \<subseteq> set (db_rules db)"
proof -
  have add: "\<forall>(text, rs) \<in> set (add_rule t r m). set rs \<subseteq> R" if "\<forall>(text, rs) \<in> set m. set rs \<subseteq> R" "r \<in> R" for t r m R
  proof -
    have "set (AList.update t rs m) \<subseteq> insert (t, rs) (set m)" for rs by (induction m) auto
    moreover have "set (case map_of m t of None \<Rightarrow> [] | Some rs \<Rightarrow> rs) \<subseteq> R"
      using that(1) by (cases "map_of m t") (auto dest!: map_of_SomeD)
    ultimately show ?thesis using that unfolding add_rule_def by fastforce
  qed
  have folded: "\<forall>(text, rs) \<in> set (foldl (\<lambda>m (r, s). add_rule (uuid_text s) r m) m ps). set rs \<subseteq> R"
    if "\<forall>(text, rs) \<in> set m. set rs \<subseteq> R" "fst ` set ps \<subseteq> R" for m ps R
    using that
  proof (induction ps arbitrary: m)
    case (Cons p ps)
    obtain r u where p: "p = (r, u)" by fastforce
    with Cons.prems have "\<forall>(text, rs) \<in> set (add_rule (uuid_text u) r m). set rs \<subseteq> R" by (intro add) auto
    from Cons.IH [OF this] Cons.prems(2) p show ?case by simp
  qed simp
  have ids: "fst ` set (concat (map (\<lambda>r. map (Pair r) (arrange (resolve_membership db r))) (realtime_rules db))) \<subseteq> set (db_rules db)"
    using realtime_rules_stored [of db] by auto
  show ?thesis unfolding rules_by_security_def by (rule folded [OF _ ids]) simp
qed

lemma accept_db_rules:
  "db_rules (sv_db (snd (accept_realtime digest parse arrange directory listener clock ticks q sv))) = db_rules (sv_db sv)"
proof -
  let ?sv = "refreshed arrange directory ticks sv"
  have "db_rules (sv_db (snd (accept_quote digest parse clock q ?sv))) = db_rules (sv_db sv) \<and>
      sv_rules (snd (accept_quote digest parse clock q ?sv)) = sv_rules ?sv"
    by (rule accept_quote_db [where P = "\<lambda>db. db_rules db = db_rules (sv_db sv)" and ?sv0.0 = ?sv]) auto
  then show ?thesis using accept_realtime_state [of digest parse arrange directory listener clock ticks q sv] by auto
qed

lemma feed_db_rules: "db_rules (sv_db (feed_alerts digest parse arrange directory arrivals sv)) = db_rules (sv_db sv)"
  by (induction arrivals arbitrary: sv) (auto simp: feed_alerts_def accept_db_rules)

lemma feed_limits:
  "limits_ok (sv_db sv) \<Longrightarrow> rules_stored sv \<Longrightarrow>
    limits_ok (sv_db (feed_alerts digest parse arrange directory arrivals sv))"
proof (induction arrivals arbitrary: sv)
  case (Cons a arrivals)
  obtain listener clock ticks q where a: "a = (listener, clock, ticks, q)" by (metis prod_cases4)
  let ?sv = "refreshed arrange directory ticks sv"
  have ok: "limits_ok (sv_db ?sv)" "rules_stored ?sv"
    using Cons.prems rules_by_security_stored [of arrange "sv_db sv"]
    by (auto simp: refreshed_def refresh_rules_def rules_stored_def Let_def)
  have "limits_ok (sv_db (snd (accept_realtime digest parse arrange directory listener clock ticks q sv)))"
    "rules_stored (snd (accept_realtime digest parse arrange directory listener clock ticks q sv))"
    using accept_realtime_state [of digest parse arrange directory listener clock ticks q sv] accept_quote_limits [OF ok, of digest parse clock q] ok
    by auto
  from Cons.IH [OF this] show ?case by (simp add: feed_alerts_def a)
qed (simp add: feed_alerts_def)

text \<open>
  C23. Realtime alerts respect the daily limit: whatever quotes arrive, in whatever order, across refreshes of
  the rules and errors of single evaluations, a rule never has more notification-eligible events on a
  trading date than its daily limit.
\<close>

theorem realtime_daily_limit:
  assumes "distinct (map ar_id (db_rules db))" and "db_events db = []" and "\<forall>r \<in> set (db_rules db). 0 \<le> ar_daily_limit r"
    and "r \<in> set (db_rules db)"
  shows "daily_notification_count (ar_id r) d
    (sv_db (feed_alerts digest parse arrange directory arrivals (new_service ticks db))) \<le> ar_daily_limit r"
proof -
  have "limits_ok (sv_db (new_service ticks db))" "rules_stored (new_service ticks db)"
    using assms(1-3) by (simp_all add: new_service_def limits_ok_def rules_stored_def daily_notification_count_def)
  from feed_limits [OF this, of digest parse arrange directory arrivals]
  have "limits_ok (sv_db (feed_alerts digest parse arrange directory arrivals (new_service ticks db)))" .
  moreover have "db_rules (sv_db (feed_alerts digest parse arrange directory arrivals (new_service ticks db))) = db_rules db"
    by (simp add: feed_db_rules) (simp add: new_service_def)
  ultimately show ?thesis using assms(4) by (auto simp: limits_ok_def)
qed

section \<open>Replays\<close>

text \<open>A quote is settled for a rule when another evaluation of it can no longer fire.\<close>

definition quote_settled :: "alert_rule \<Rightarrow> realtime_quote \<Rightarrow> alert_service \<Rightarrow> bool" where
  "quote_settled r q sv \<longleftrightarrow> (\<exists>st. state_of r q sv = Some st \<and> (rq_event_kind q = SNAPSHOT \<or>
     as_trade_date st = utc_date (rq_exchange_timestamp q) \<and> late_quote st q))"

lemma next_state_settled:
  "rq_event_kind q = SNAPSHOT \<or> as_trade_date (next_state q ma fp st) = utc_date (rq_exchange_timestamp q) \<and>
     late_quote (next_state q ma fp st) q"
  by (simp add: next_state_def late_quote_def)

lemma state_of_store: "state_of t q (store_state r q st sv) = (if ar_id t = ar_id r then Some st else state_of t q sv)"
  by (simp add: state_of_def)

lemma state_of_others [simp]:
  "state_of t q (count_metric f sv) = state_of t q sv" "state_of t q (counted r q' sv) = state_of t q sv"
  "state_of t q (record_occurrence parse clock r q' occ fp st sv) = state_of t q sv"
  by (simp_all add: state_of_def)

lemma settles:
  assumes "evaluate_one digest parse clock r q sv = (Inr u, sv')"
  shows "quote_settled r q sv' \<and> (quote_settled t q sv \<longrightarrow> quote_settled t q sv')"
  using assms next_state_settled [of q]
  by (cases rule: evaluate_one_cases [of r q sv digest parse clock])
    (auto simp: quote_settled_def state_of_store is_baseline_def)

lemma settled_silent:
  assumes "quote_settled r q sv"
  shows "\<exists>sv'. evaluate_one digest parse clock r q sv = (Inr (), sv') \<and> sv_db sv' = sv_db sv"
  using assms
  by (cases rule: evaluate_one_cases [of r q sv digest parse clock])
    (auto simp: quote_settled_def is_baseline_def)

lemma evaluate_each_settles:
  "evaluate_each digest parse clock rs q sv = (Inr u, sv') \<Longrightarrow>
    (\<forall>r \<in> set rs. quote_settled r q sv') \<and> (\<forall>t. quote_settled t q sv \<longrightarrow> quote_settled t q sv')"
proof (induction rs arbitrary: sv)
  case (Cons r rs)
  obtain res sv1 where one: "evaluate_one digest parse clock r q sv = (res, sv1)" by fastforce
  with Cons.prems obtain v where v: "res = Inr v" and rest: "evaluate_each digest parse clock rs q sv1 = (Inr u, sv')"
    by (cases res) auto
  from Cons.IH [OF rest] settles [OF one [unfolded v]] show ?case by auto
qed simp

lemma evaluate_each_silent:
  "\<forall>r \<in> set rs. quote_settled r q sv \<Longrightarrow>
    \<exists>sv'. evaluate_each digest parse clock rs q sv = (Inr (), sv') \<and> sv_db sv' = sv_db sv"
proof (induction rs arbitrary: sv)
  case (Cons r rs)
  from Cons.prems settled_silent [of r q sv digest parse clock] obtain sv1
    where one: "evaluate_one digest parse clock r q sv = (Inr (), sv1)" "sv_db sv1 = sv_db sv" by auto
  have "\<forall>t \<in> set rs. quote_settled t q sv1" using settles [OF one(1)] Cons.prems by auto
  from Cons.IH [OF this] one show ?case by auto
qed simp

lemma settled_seen: "quote_settled r q (count_metric f sv\<lparr>sv_last_quote := t\<rparr>) = quote_settled r q sv"
  by (simp add: quote_settled_def state_of_def)

text \<open>
  A replayed quote raises no second alert: once a quote has been accepted, accepting the same quote
  again (as the bus may deliver it) succeeds and leaves the database, its events and its notifications as
  they are, whatever the rules of the security.
\<close>

theorem replayed_quote_is_silent:
  assumes first: "accept_quote digest parse clock q sv = (Inr u, sv')"
  shows "\<exists>sv''. accept_quote digest parse clock' q sv' = (Inr (), sv'') \<and> sv_db sv'' = sv_db sv'"
proof -
  let ?seen = "\<lambda>sv. count_metric (\<lambda>m. m\<lparr>mt_processed := mt_processed m + 1\<rparr>) sv\<lparr>sv_last_quote := Some (rq_exchange_timestamp q)\<rparr>"
  show ?thesis
  proof (cases "rq_session q \<noteq> REGULAR \<or> rq_data_status q \<noteq> RtLive")
    case True
    then show ?thesis by (simp add: accept_quote_def Let_def)
  next
    case False
    let ?rs = "rules_of (rq_security_id q) (?seen sv)"
    from first False have each: "evaluate_each digest parse clock ?rs q (?seen sv) = (Inr u, sv')"
      by (simp add: accept_quote_def Let_def)
    have "\<forall>r \<in> set ?rs. quote_settled r q sv'" using evaluate_each_settles [OF each] by blast
    then have quote_settled: "\<forall>r \<in> set ?rs. quote_settled r q (?seen sv')" by (simp add: settled_seen)
    have "sv_rules (snd (evaluate_each digest parse clock ?rs q (?seen sv))) = sv_rules (?seen sv)"
      using evaluate_each_db [of "\<lambda>_. True" "?seen sv" ?rs clock parse q digest] by simp
    then have "rules_of (rq_security_id q) (?seen sv') = ?rs" using each by (simp add: rules_of_def)
    with evaluate_each_silent [OF quote_settled, of digest parse clock'] False show ?thesis
      by (simp add: accept_quote_def Let_def)
  qed
qed

section \<open>Identifiers\<close>

definition keyed_by_uuid :: "alert_service \<Rightarrow> bool" where
  "keyed_by_uuid sv \<longleftrightarrow> fst ` set (sv_rules sv) \<subseteq> range uuid_text"

lemma refresh_keyed: "keyed_by_uuid (refresh_rules arrange directory ticks sv)"
proof -
  have "fst ` set (foldl (\<lambda>m (r, s). add_rule (uuid_text s) r m) m ps) \<subseteq> range uuid_text"
    if "fst ` set m \<subseteq> range uuid_text" for m :: "(string \<times> alert_rule list) list" and ps
    using that
  proof (induction ps arbitrary: m)
    case (Cons p ps)
    obtain r u where p: "p = (r, u)" by fastforce
    have "fst ` set (add_rule (uuid_text u) r m) \<subseteq> range uuid_text"
      using Cons.prems by (simp add: add_rule_def fst_update)
    from Cons.IH [OF this] p show ?case by simp
  qed simp
  then show ?thesis by (simp add: keyed_by_uuid_def refresh_rules_def rules_by_security_def Let_def)
qed

lemma accept_quote_none:
  assumes "rules_of (rq_security_id q) sv = []"
  shows "sv_rules (snd (accept_quote digest parse clock q sv)) = sv_rules sv \<and>
    sv_db (snd (accept_quote digest parse clock q sv)) = sv_db sv \<and>
    mt_evaluated (sv_metrics (snd (accept_quote digest parse clock q sv))) = mt_evaluated (sv_metrics sv)"
proof -
  have "rules_of (rq_security_id q) (count_metric f sv\<lparr>sv_last_quote := t\<rparr>) = []" for f t
    using assms by (simp add: rules_of_def)
  then show ?thesis by (simp add: accept_quote_def Let_def) (simp add: count_metric_def)
qed

text \<open>
  The quotes of both providers carry \<open>sec_<code>\<close> as the identifier of their security, the rules are kept
  under the text of its UUID: no rule is ever evaluated on a realtime quote.
\<close>

theorem provider_quotes_reach_no_rule:
  assumes "\<forall>(listener, clock, ticks, q) \<in> set arrivals. rq_security_id q = ''sec_'' @ rq_code q"
  shows "sv_db (feed_alerts digest parse arrange directory arrivals (new_service ticks0 db)) = db \<and>
    mt_evaluated (sv_metrics (feed_alerts digest parse arrange directory arrivals (new_service ticks0 db))) = 0"
proof -
  have no_rules: "rules_of (''sec_'' @ code) sv = []" if keyed: "keyed_by_uuid sv" for code sv
  proof (cases "map_of (sv_rules sv) (''sec_'' @ code)")
    case (Some rs)
    then have "''sec_'' @ code \<in> range uuid_text" using keyed by (auto simp: keyed_by_uuid_def dest!: map_of_SomeD)
    then obtain n where "uuid_text n = ''sec_'' @ code" by auto
    with uuid_text_head [of n] show ?thesis by simp
  qed (simp add: rules_of_def)
  have "keyed_by_uuid sv \<Longrightarrow> sv_db sv = db \<Longrightarrow> mt_evaluated (sv_metrics sv) = 0 \<Longrightarrow>
      sv_db (feed_alerts digest parse arrange directory arrivals sv) = db \<and>
      mt_evaluated (sv_metrics (feed_alerts digest parse arrange directory arrivals sv)) = 0" for sv
    using assms
  proof (induction arrivals arbitrary: sv)
    case (Cons a arrivals)
    obtain listener clock ticks q where a: "a = (listener, clock, ticks, q)" by (metis prod_cases4)
    let ?sv = "refreshed arrange directory ticks sv"
    have "keyed_by_uuid ?sv" using refresh_keyed Cons.prems(1) by (simp add: refreshed_def)
    then have none: "rules_of (rq_security_id q) ?sv = []" using no_rules Cons.prems(4) by (simp add: a)
    have unchanged: "sv_db ?sv = db" "mt_evaluated (sv_metrics ?sv) = 0"
      using Cons.prems(2,3) by (auto simp: refreshed_def refresh_rules_def Let_def)
    let ?next = "snd (accept_realtime digest parse arrange directory listener clock ticks q sv)"
    have "sv_rules ?next = sv_rules ?sv \<and> sv_db ?next = db \<and> mt_evaluated (sv_metrics ?next) = 0"
      using accept_quote_none [OF none, of digest parse clock] unchanged
        accept_realtime_state [of digest parse arrange directory listener clock ticks q sv] by auto
    then show ?case using Cons.IH [of ?next] Cons.prems(4) \<open>keyed_by_uuid ?sv\<close>
      by (simp add: feed_alerts_def a keyed_by_uuid_def)
  qed (simp add: feed_alerts_def)
  then show ?thesis by (simp add: new_service_def keyed_by_uuid_def)
qed

section \<open>Crossings\<close>













section \<open>The subscription policy\<close>

record alert_policy =
  pl_membership :: "string list"
  pl_rejected :: "string list"
  pl_status :: string
  pl_rejected_count :: int

definition p1_owner :: string where
  "p1_owner = ''policy:p1_alert''"

fun release_keys :: "(string \<Rightarrow> identity \<Rightarrow> 's \<Rightarrow> outcome \<times> 's) \<Rightarrow> string list \<Rightarrow> string list \<times> 's \<Rightarrow>
    outcome \<times> string list \<times> 's" where
  "release_keys rel [] (members, s) = (Done, members, s)"
| "release_keys rel (k # ks) (members, s) =
     (let (r, s) = rel p1_owner (k, TICK) s in
      if r = Done then release_keys rel ks (removeAll k members, s) else (r, members, s))"

text \<open>A key that meets the capacity is left out, any other failure ends the loop.\<close>

fun acquire_keys :: "(string \<Rightarrow> identity \<Rightarrow> 's \<Rightarrow> outcome \<times> 's) \<Rightarrow> string list \<Rightarrow> string list \<Rightarrow>
    string list \<times> 's \<Rightarrow> outcome \<times> string list \<times> string list \<times> 's" where
  "acquire_keys acq [] got (members, s) = (Done, got, members, s)"
| "acquire_keys acq (k # ks) got (members, s) =
     (let (r, s) = acq p1_owner (k, TICK) s in
      if r = Done then acquire_keys acq ks (got @ [k]) (List.insert k members, s)
      else if r = Capacity_reached then acquire_keys acq ks got (members, s)
      else (r, got, members, s))"

definition reconcile :: "(string \<Rightarrow> identity \<Rightarrow> 's \<Rightarrow> outcome \<times> 's) \<Rightarrow> (string \<Rightarrow> identity \<Rightarrow> 's \<Rightarrow> outcome \<times> 's) \<Rightarrow>
    string list \<Rightarrow> alert_policy \<times> 's \<Rightarrow> outcome \<times> alert_policy \<times> 's" where
  "reconcile acq rel desired = (\<lambda>(pl, s).
     let members = pl_membership pl;
         (r, members, s) = release_keys rel (sort (filter (\<lambda>k. k \<notin> set desired) members)) (members, s)
     in if r \<noteq> Done then (r, pl\<lparr>pl_membership := members\<rparr>, s)
        else
          let (r, got, members, s) = acquire_keys acq (sort (filter (\<lambda>k. k \<notin> set (pl_membership pl)) desired)) [] (members, s) in
          if r \<noteq> Done then
            let (r', members, s) = release_keys rel got (members, s)
            in (if r' = Done then r else r', pl\<lparr>pl_membership := members\<rparr>, s)
          else
            let rejected = filter (\<lambda>k. k \<notin> set members) desired
            in (Done, pl\<lparr>pl_membership := members, pl_rejected := rejected,
                  pl_status := (if rejected \<noteq> [] then ''PARTIAL'' else ''ACTIVE''),
                  pl_rejected_count := int (length rejected)\<rparr>, s))"

lemma tracks_cong: "tracks A n pv H \<Longrightarrow> set pv = set pw \<Longrightarrow> tracks A n pw H"
  by (simp add: tracks_def)

definition alert_identities :: "string list \<Rightarrow> identity list" where
  "alert_identities members = map (\<lambda>k. (k, TICK)) members"

context subscription_service
begin

lemma release_keys_tracks:
  assumes "release_keys release ks (members, s) = (r, members', s')" and "tracks A p1_owner (alert_identities members) (held s)"
  shows "tracks A p1_owner (alert_identities members') (held s') \<and> set members' \<subseteq> set members \<and>
    set members - set ks \<subseteq> set members' \<and> (r = Done \<longrightarrow> set members' = set members - set ks)"
  using assms
proof (induction ks arbitrary: members s)
  case (Cons k ks)
  obtain q t where t: "release p1_owner (k, TICK) s = (q, t)" by fastforce
  show ?case
  proof (cases "q = Done")
    case True
    have "set (removeAll (k, TICK) (alert_identities members)) = set (alert_identities (removeAll k members))"
      by (auto simp: alert_identities_def)
    with tracks_release [OF Cons.prems(2)] t True
    have "tracks A p1_owner (alert_identities (removeAll k members)) (held t)" by (metis tracks_cong)
    moreover have "release_keys release ks (removeAll k members, t) = (r, members', s')" using t True Cons.prems(1) by simp
    ultimately show ?thesis using Cons.IH by fastforce
  next
    case False
    with t Cons.prems(1) have "r = q" "members' = members" "s' = t" by auto
    with Cons.prems(2) release_failed [OF t False] False show ?thesis by auto
  qed
qed auto

lemma acquire_keys_tracks:
  assumes "acquire_keys acquire ks got (members, s) = (r, got', members', s')"
    and "tracks A p1_owner (alert_identities members) (held s)"
  shows "tracks A p1_owner (alert_identities members') (held s') \<and> set members \<subseteq> set members' \<and>
    set members' \<subseteq> set members \<union> set ks"
  using assms
proof (induction ks arbitrary: got members s)
  case (Cons k ks)
  obtain q t where t: "acquire p1_owner (k, TICK) s = (q, t)" by fastforce
  consider "q = Done" | "q = Capacity_reached" | "q = Subscription_failed" by (cases q) auto
  then show ?case
  proof cases
    case 1
    have "set (alert_identities members @ [(k, TICK)]) = set (alert_identities (List.insert k members))"
      by (auto simp: alert_identities_def)
    with tracks_acquire [OF Cons.prems(2)] t 1
    have "tracks A p1_owner (alert_identities (List.insert k members)) (held t)" by (metis tracks_cong)
    moreover have "acquire_keys acquire ks (got @ [k]) (List.insert k members, t) = (r, got', members', s')"
      using t 1 Cons.prems(1) by simp
    ultimately show ?thesis using Cons.IH [of "got @ [k]" "List.insert k members" t] by auto
  next
    case 2
    then have "tracks A p1_owner (alert_identities members) (held t)" using Cons.prems(2) tracks_acquire_failed [OF t] by simp
    moreover have "acquire_keys acquire ks got (members, t) = (r, got', members', s')" using t 2 Cons.prems(1) by simp
    ultimately show ?thesis using Cons.IH [of got members t] by auto
  next
    case 3
    with t Cons.prems(1) have "members' = members" "s' = t" by auto
    with Cons.prems(2) tracks_acquire_failed [OF t] 3 show ?thesis by auto
  qed
qed auto

lemma reconcile_tracks:
  assumes rec: "reconcile acquire release desired (pl, s) = (r, pl', s')"
    and old: "tracks A p1_owner (alert_identities (pl_membership pl)) (held s)"
  shows "tracks A p1_owner (alert_identities (pl_membership pl')) (held s') \<and>
    (r = Done \<longrightarrow> set (pl_membership pl') \<subseteq> set desired \<and> set desired \<inter> set (pl_membership pl) \<subseteq> set (pl_membership pl') \<and>
      set (pl_rejected pl') = set desired - set (pl_membership pl'))"
proof -
  let ?removed = "sort (filter (\<lambda>k. k \<notin> set desired) (pl_membership pl))"
  let ?added = "sort (filter (\<lambda>k. k \<notin> set (pl_membership pl)) desired)"
  obtain q1 m1 s1 where 1: "release_keys release ?removed (pl_membership pl, s) = (q1, m1, s1)" by (metis prod_cases3)
  from release_keys_tracks [OF 1 old] have t1: "tracks A p1_owner (alert_identities m1) (held s1)"
    "q1 = Done \<longrightarrow> set m1 = set (pl_membership pl) \<inter> set desired" by auto
  show ?thesis
  proof (cases "q1 = Done")
    case False
    with rec 1 have "r = q1" "pl' = pl\<lparr>pl_membership := m1\<rparr>" "s' = s1" by (auto simp: reconcile_def)
    with t1(1) False show ?thesis by simp
  next
    case first: True
    obtain q2 got m2 s2 where 2: "acquire_keys acquire ?added [] (m1, s1) = (q2, got, m2, s2)" by (metis prod_cases4)
    from acquire_keys_tracks [OF 2 t1(1)] have t2: "tracks A p1_owner (alert_identities m2) (held s2)"
      "set m1 \<subseteq> set m2" "set m2 \<subseteq> set m1 \<union> set desired" by auto
    show ?thesis
    proof (cases "q2 = Done")
      case True
      with first rec 1 2 have "r = Done" "pl_membership pl' = m2" "pl_rejected pl' = filter (\<lambda>k. k \<notin> set m2) desired" "s' = s2"
        by (auto simp: reconcile_def Let_def)
      with t1(2) t2 first show ?thesis by auto
    next
      case False
      obtain q3 m3 s3 where 3: "release_keys release got (m2, s2) = (q3, m3, s3)" by (metis prod_cases3)
      from False first rec 1 2 3 have "r \<noteq> Done" "pl_membership pl' = m3" "s' = s3" by (auto simp: reconcile_def Let_def split: if_splits)
      with release_keys_tracks [OF 3 t2(1)] show ?thesis by auto
    qed
  qed
qed

end

text \<open>
  The alert policy's books are right, and it serves what it can. Whatever the provider does to a
  reconciliation (capacity refusals, failures, failing roll-backs), afterwards the broker subscriptions held
  for realtime alerts are exactly the recorded members; when it succeeds, the members are wanted securities,
  every wanted security that was a member still is one, and exactly the others are reported as rejected.
\<close>

theorem alert_policy_books_are_right:
  assumes "reconcile (managed_acquire acq cap) (release_subscription rel) desired (pl, m, s) = (r, pl', m', s')"
    and "{i. (p1_owner, i) \<in> holds m} = (\<lambda>k. (k, TICK)) ` set (pl_membership pl)"
  shows "{i. (p1_owner, i) \<in> holds m'} = (\<lambda>k. (k, TICK)) ` set (pl_membership pl') \<and>
    (r = Done \<longrightarrow> set (pl_membership pl') \<subseteq> set desired \<and> set desired \<inter> set (pl_membership pl) \<subseteq> set (pl_membership pl') \<and>
      set (pl_rejected pl') = set desired - set (pl_membership pl'))"
proof -
  have "tracks {p \<in> held_by (m, s). fst p \<noteq> p1_owner} p1_owner (alert_identities (pl_membership pl)) (held_by (m, s))"
    using assms(2) by (simp add: tracks_iff held_by_def alert_identities_def)
  from mg.reconcile_tracks [OF assms(1) this]
  have new: "tracks {p \<in> held_by (m, s). fst p \<noteq> p1_owner} p1_owner (alert_identities (pl_membership pl')) (held_by (m', s'))"
    and rest: "r = Done \<longrightarrow> set (pl_membership pl') \<subseteq> set desired \<and> set desired \<inter> set (pl_membership pl) \<subseteq> set (pl_membership pl') \<and>
      set (pl_rejected pl') = set desired - set (pl_membership pl')" by auto
  from new have "tracks {p \<in> held_by (m', s'). fst p \<noteq> p1_owner} p1_owner (alert_identities (pl_membership pl')) (held_by (m', s'))"
    using tracks_rest [OF new] by simp
  then show ?thesis using rest by (simp add: tracks_iff held_by_def alert_identities_def)
qed

section \<open>Examples\<close>

definition live_target :: alert_rule where
  "live_target = rule_of (near_rule\<lparr>ar_rule_type := PRICE_TARGET, ar_threshold_percent := None, ar_ma_period := None,
     ar_threshold_price := Some 100, ar_evaluation_mode := REALTIME\<rparr>) 1 0 0"

definition live_service :: alert_service where
  "live_service = (new_service 0 (example_db\<lparr>db_rules := [live_target]\<rparr>))\<lparr>sv_rules := [(''s'', [live_target])]\<rparr>"

definition live_digest :: "quote_identity \<Rightarrow> string" where
  "live_digest k = replicate (to_nat k) CHR ''x''"


lemma live_target_fields [simp]:
  "ar_id live_target = 1" "ar_daily_limit live_target = 5" "ar_rule_type live_target = PRICE_TARGET"
  "ar_threshold_price live_target = Some 100"
  by (simp_all add: live_target_def rule_of_def near_rule_def rule_values.defs alert_rule.defs)

lemma realtime_daily_limit_witness:
  "daily_notification_count 1 9 (sv_db (feed_alerts live_digest (\<lambda>_. 7) (\<lambda>s. s) (\<lambda>_. None)
     [(None, 5, 70, example_quote (Some 1) 10 99 1), (None, 6, 71, example_quote (Some 2) 11 101 1)]
     (new_service 0 (example_db\<lparr>db_rules := [live_target]\<rparr>)))) \<le> 5"
  using realtime_daily_limit [of "example_db\<lparr>db_rules := [live_target]\<rparr>" live_target]
  by (simp add: example_db_def)


lemma replayed_quote_witness:
  "\<exists>sv' sv''. accept_quote live_digest (\<lambda>_. 7) 5 (example_quote (Some 1) 10 99 1) live_service = (Inr (), sv') \<and>
     sv_states sv' (1, ''s'') \<noteq> None \<and>
     accept_quote live_digest (\<lambda>_. 7) 6 (example_quote (Some 1) 10 99 1) sv' = (Inr (), sv'') \<and> sv_db sv'' = sv_db sv'"
proof -
  let ?q = "example_quote (Some 1) 10 99 1"
  obtain sv' where first: "accept_quote live_digest (\<lambda>_. 7) 5 ?q live_service = (Inr (), sv')" and st: "sv_states sv' (1, ''s'') \<noteq> None"
    by (simp add: accept_quote_def rules_of_def live_service_def Let_def evaluate_one_def example_quote_def state_of_def
        new_service_def is_baseline_def)
  from replayed_quote_is_silent [OF first, of 6] first st show ?thesis by blast
qed



lemma alert_policy_witness:
  "\<exists>r pl' m' s'. reconcile (managed_acquire base_acquire fake_capabilities) (release_subscription base_release)
       [''TWSE:2330'', ''TWSE:2317''] (\<lparr>pl_membership = [], pl_rejected = [], pl_status = [], pl_rejected_count = 0\<rparr>,
         new_manager (Some 1), new_fake) = (r, pl', m', s') \<and>
     {i. (p1_owner, i) \<in> holds m'} = (\<lambda>k. (k, TICK)) ` set (pl_membership pl')"
proof -
  let ?pl = "\<lparr>pl_membership = [], pl_rejected = [], pl_status = [], pl_rejected_count = 0\<rparr> :: alert_policy"
  obtain r pl' m' s' where rec: "reconcile (managed_acquire base_acquire fake_capabilities) (release_subscription base_release)
       [''TWSE:2330'', ''TWSE:2317''] (?pl, new_manager (Some 1), new_fake) = (r, pl', m', s')" by (metis prod_cases4)
  have "{i. (p1_owner, i) \<in> holds (new_manager (Some 1))} = (\<lambda>k. (k, TICK)) ` set (pl_membership ?pl)"
    by (simp add: holds_def new_manager_def owners_of_def)
  from alert_policy_books_are_right [OF rec this] rec show ?thesis by blast
qed

end
