(* ===== verification/Auth.thy ===== *)
theory Auth
  imports Json
begin

text \<open>
  Accounts, sessions and devices (\<open>app/services/auth.py\<close>). The digest of refresh tokens, password
  hashing (argon2), signed access tokens (PyJWT) and the normal form of an identifier are parameters,
  collected in \<open>crypto\<close>; the random values of a call (identifiers and the refresh token) are an
  argument, and so is the current time. An operation that raises leaves the database as it was.
\<close>

section \<open>State\<close>

record auth_user =
  au_id :: uuid
  au_login :: string
  au_password :: string
  au_status :: string
  au_created :: instant

record auth_session =
  as_id :: uuid
  as_user :: uuid
  as_hash :: string
  as_expires :: instant
  as_created :: instant
  as_rotated :: "instant option"
  as_revoked :: "instant option"

record user_device =
  ud_id :: uuid
  ud_user :: uuid
  ud_public_id :: string
  ud_name :: "string option"
  ud_platform :: string
  ud_app_version :: "string option"
  ud_created :: instant
  ud_last_seen :: instant
  ud_revoked :: "instant option"

record auth_db =
  users :: "auth_user list"
  sessions :: "auth_session list"
  user_devices :: "user_device list"

record claims =
  cl_sub :: uuid
  cl_sid :: uuid
  cl_jti :: uuid
  cl_iat :: instant
  cl_exp :: instant

record crypto =
  normal_form :: "string \<Rightarrow> string"
  digest :: "string \<Rightarrow> string"
  pw_hash :: "string \<Rightarrow> string"
  pw_verify :: "string \<Rightarrow> string \<Rightarrow> bool"
  jwt_encode :: "string \<Rightarrow> claims \<Rightarrow> string"
  jwt_decode :: "string \<Rightarrow> instant \<Rightarrow> string \<Rightarrow> claims option"

record auth_service =
  sv_crypto :: crypto
  sv_secret :: string
  sv_access_minutes :: int
  sv_refresh_days :: int

text \<open>The random values of a call.\<close>

record entropy =
  en_id :: uuid
  en_jti :: uuid
  en_token :: string

record token_pair =
  tp_access :: string
  tp_refresh :: string
  tp_type :: string
  tp_expires_in :: int

section \<open>Operations\<close>

abbreviation unauthenticated :: error where
  "unauthenticated \<equiv> AppError ''UNAUTHENTICATED'' 401"

definition normalize :: "auth_service \<Rightarrow> string \<Rightarrow> string" where
  "normalize sv identifier = normal_form (sv_crypto sv) identifier"

text \<open>\<open>len\<close> of a text, which is a list of UTF-8 bytes here: every character has one byte that does not continue another.\<close>

definition text_length :: "string \<Rightarrow> nat" where
  "text_length s = length (filter (\<lambda>c. \<not> (128 \<le> (of_char c :: nat) \<and> (of_char c :: nat) < 192)) s)"

definition validate_password :: "string \<Rightarrow> unit result" where
  "validate_password password =
     (if 10 \<le> text_length password \<and> text_length password \<le> 256 then Inr () else Inl (AppError ''VALIDATION_ERROR'' 422))"

text \<open>The unique constraints of the three tables, checked by every commit.\<close>

definition auth_ok :: "auth_db \<Rightarrow> bool" where
  "auth_ok db \<longleftrightarrow> distinct (map au_id (users db)) \<and> distinct (map au_login (users db)) \<and>
     distinct (map as_id (sessions db)) \<and> distinct (map as_hash (sessions db)) \<and>
     distinct (map ud_id (user_devices db)) \<and> distinct (map (\<lambda>d. (ud_user d, ud_public_id d)) (user_devices db))"

definition commit :: "auth_db \<Rightarrow> auth_db result" where
  "commit db = (if auth_ok db then Inr db else Inl IntegrityError)"

definition register :: "auth_service \<Rightarrow> string \<Rightarrow> string \<Rightarrow> entropy \<Rightarrow> instant \<Rightarrow> auth_db \<Rightarrow> (auth_user \<times> auth_db) result" where
  "register sv identifier password rnd now db =
     (let normalized = normalize sv identifier in
      rbind (validate_password password) (\<lambda>_.
        if normalized = [] then Inl (AppError ''VALIDATION_ERROR'' 422)
        else if \<exists>u \<in> set (users db). au_login u = normalized then Inl (AppError ''ACCOUNT_EXISTS'' 409)
        else
          let user = \<lparr>au_id = en_id rnd, au_login = normalized, au_password = pw_hash (sv_crypto sv) password,
                      au_status = ''ACTIVE'', au_created = now\<rparr>
          in rbind (commit (db\<lparr>users := users db @ [user]\<rparr>)) (\<lambda>db. Inr (user, db))))"

definition access_claims :: "auth_service \<Rightarrow> uuid \<Rightarrow> uuid \<Rightarrow> uuid \<Rightarrow> instant \<Rightarrow> claims" where
  "access_claims sv user_id session_id jti now =
     \<lparr>cl_sub = user_id, cl_sid = session_id, cl_jti = jti, cl_iat = now,
      cl_exp = now + sv_access_minutes sv * 60000000\<rparr>"

definition access_token :: "auth_service \<Rightarrow> uuid \<Rightarrow> uuid \<Rightarrow> uuid \<Rightarrow> instant \<Rightarrow> string" where
  "access_token sv user_id session_id jti now =
     jwt_encode (sv_crypto sv) (sv_secret sv) (access_claims sv user_id session_id jti now)"

definition issue :: "auth_service \<Rightarrow> auth_user \<Rightarrow> entropy \<Rightarrow> instant \<Rightarrow> auth_db \<Rightarrow> (token_pair \<times> auth_db) result" where
  "issue sv user rnd now db =
     rbind (commit (db\<lparr>sessions := sessions db @ [\<lparr>as_id = en_id rnd, as_user = au_id user,
              as_hash = digest (sv_crypto sv) (en_token rnd),
              as_expires = now + sv_refresh_days sv * 86400000000, as_created = now,
              as_rotated = None, as_revoked = None\<rparr>]\<rparr>)) (\<lambda>db.
       Inr (\<lparr>tp_access = access_token sv (au_id user) (en_id rnd) (en_jti rnd) now, tp_refresh = en_token rnd,
             tp_type = ''bearer'', tp_expires_in = sv_access_minutes sv * 60\<rparr>, db))"

definition login :: "auth_service \<Rightarrow> string \<Rightarrow> string \<Rightarrow> entropy \<Rightarrow> instant \<Rightarrow> auth_db \<Rightarrow> (token_pair \<times> auth_db) result" where
  "login sv identifier password rnd now db =
     (case find (\<lambda>u. au_login u = normalize sv identifier) (users db) of
        None \<Rightarrow> Inl unauthenticated
      | Some user \<Rightarrow>
          if au_status user \<noteq> ''ACTIVE'' then Inl (AppError ''FORBIDDEN'' 403)
          else if \<not> pw_verify (sv_crypto sv) (au_password user) password then Inl unauthenticated
          else issue sv user rnd now db)"

definition authenticate :: "auth_service \<Rightarrow> string \<Rightarrow> instant \<Rightarrow> auth_db \<Rightarrow> auth_user result" where
  "authenticate sv token now db =
     (case jwt_decode (sv_crypto sv) (sv_secret sv) now token of
        None \<Rightarrow> Inl unauthenticated
      | Some c \<Rightarrow>
          (case (find (\<lambda>s. as_id s = cl_sid c) (sessions db), find (\<lambda>u. au_id u = cl_sub c) (users db)) of
             (Some s, Some user) \<Rightarrow>
               if as_revoked s \<noteq> None then Inl unauthenticated
               else if au_status user \<noteq> ''ACTIVE'' then Inl (AppError ''FORBIDDEN'' 403)
               else Inr user
           | _ \<Rightarrow> Inl unauthenticated))"

text \<open>The session a refresh token belongs to, and a change of its row.\<close>

definition session_of :: "auth_service \<Rightarrow> string \<Rightarrow> auth_db \<Rightarrow> auth_session option" where
  "session_of sv refresh_token db = find (\<lambda>s. as_hash s = digest (sv_crypto sv) refresh_token) (sessions db)"

definition set_session :: "uuid \<Rightarrow> (auth_session \<Rightarrow> auth_session) \<Rightarrow> auth_db \<Rightarrow> auth_db" where
  "set_session i f db = db\<lparr>sessions := map (\<lambda>r. if as_id r = i then f r else r) (sessions db)\<rparr>"

definition revoke :: "instant \<Rightarrow> auth_session \<Rightarrow> auth_session" where
  "revoke now s = s\<lparr>as_revoked := Some now\<rparr>"

definition rotate :: "instant \<Rightarrow> auth_session \<Rightarrow> auth_session" where
  "rotate now s = s\<lparr>as_revoked := Some now, as_rotated := Some now\<rparr>"

lemma revoke_fields [simp]:
  "as_hash (revoke now s) = as_hash s" "as_id (revoke now s) = as_id s" "as_revoked (revoke now s) = Some now"
  "as_hash (rotate now s) = as_hash s" "as_id (rotate now s) = as_id s" "as_revoked (rotate now s) = Some now"
  by (simp_all add: revoke_def rotate_def)

definition refresh :: "auth_service \<Rightarrow> string \<Rightarrow> entropy \<Rightarrow> instant \<Rightarrow> auth_db \<Rightarrow> (token_pair \<times> auth_db) result" where
  "refresh sv refresh_token rnd now db =
     (case session_of sv refresh_token db of
        None \<Rightarrow> Inl unauthenticated
      | Some current \<Rightarrow>
          if as_revoked current \<noteq> None \<or> as_expires current \<le> now then Inl unauthenticated
          else
            let db = set_session (as_id current) (rotate now) db in
            (case find (\<lambda>u. au_id u = as_user current) (users db) of
               None \<Rightarrow> Inl AttributeError
             | Some user \<Rightarrow> issue sv user rnd now db))"

definition logout :: "auth_service \<Rightarrow> string \<Rightarrow> instant \<Rightarrow> auth_db \<Rightarrow> auth_db result" where
  "logout sv refresh_token now db =
     (case session_of sv refresh_token db of
        None \<Rightarrow> Inr db
      | Some current \<Rightarrow>
          if as_revoked current = None then commit (set_session (as_id current) (revoke now) db) else Inr db)"

definition upsert_device :: "uuid \<Rightarrow> string \<Rightarrow> string option \<Rightarrow> string \<Rightarrow> string option \<Rightarrow> entropy \<Rightarrow> instant \<Rightarrow> auth_db \<Rightarrow>
    (user_device \<times> auth_db) result" where
  "upsert_device user_id public_id name platform app_version rnd now db =
     (case find (\<lambda>d. ud_user d = user_id \<and> ud_public_id d = public_id) (user_devices db) of
        None \<Rightarrow>
          (let row = \<lparr>ud_id = en_id rnd, ud_user = user_id, ud_public_id = public_id, ud_name = name,
                      ud_platform = platform, ud_app_version = app_version, ud_created = now, ud_last_seen = now,
                      ud_revoked = None\<rparr>
           in rbind (commit (db\<lparr>user_devices := user_devices db @ [row]\<rparr>)) (\<lambda>db. Inr (row, db)))
      | Some d \<Rightarrow>
          (let row = d\<lparr>ud_name := name, ud_platform := platform, ud_app_version := app_version,
                       ud_last_seen := now, ud_revoked := None\<rparr>
           in rbind (commit (db\<lparr>user_devices := map (\<lambda>r. if ud_id r = ud_id row then row else r) (user_devices db)\<rparr>)) (\<lambda>db.
                Inr (row, db))))"

section \<open>The service over time\<close>

text \<open>One call of the service by anybody, with any arguments; calls that raise change nothing.\<close>

inductive auth_step :: "auth_service \<Rightarrow> auth_db \<Rightarrow> auth_db \<Rightarrow> bool" for sv where
  registers: "register sv identifier password rnd now db = Inr (user, db') \<Longrightarrow> auth_step sv db db'"
| logs_in: "login sv identifier password rnd now db = Inr (tokens, db') \<Longrightarrow> auth_step sv db db'"
| refreshes: "refresh sv refresh_token rnd now db = Inr (tokens, db') \<Longrightarrow> auth_step sv db db'"
| logs_out: "logout sv refresh_token now db = Inr db' \<Longrightarrow> auth_step sv db db'"
| upserts: "upsert_device user_id public_id name platform app_version rnd now db = Inr (row, db') \<Longrightarrow> auth_step sv db db'"

inductive auth_run :: "auth_service \<Rightarrow> auth_db \<Rightarrow> auth_db \<Rightarrow> bool" for sv where
  stop: "auth_run sv db db"
| more: "auth_run sv db db1 \<Longrightarrow> auth_step sv db1 db2 \<Longrightarrow> auth_run sv db db2"

lemma commit_eq_Inr [simp]: "commit db = Inr db' \<longleftrightarrow> auth_ok db \<and> db' = db"
  by (auto simp: commit_def)

lemma issue_eq_Inr:
  "issue sv user rnd now db = Inr (tokens, db') \<longleftrightarrow>
     (let s = \<lparr>as_id = en_id rnd, as_user = au_id user, as_hash = digest (sv_crypto sv) (en_token rnd),
              as_expires = now + sv_refresh_days sv * 86400000000, as_created = now, as_rotated = None, as_revoked = None\<rparr>
      in db' = db\<lparr>sessions := sessions db @ [s]\<rparr> \<and> auth_ok db' \<and>
         tokens = \<lparr>tp_access = access_token sv (au_id user) (en_id rnd) (en_jti rnd) now, tp_refresh = en_token rnd,
             tp_type = ''bearer'', tp_expires_in = sv_access_minutes sv * 60\<rparr>)"
  by (auto simp: issue_def rbind_eq_Inr Let_def)

text \<open>A revoked session: it is the first of its digest and of its identifier, and has a revocation time.\<close>

definition dead_hash :: "string \<Rightarrow> auth_db \<Rightarrow> bool" where
  "dead_hash h db \<longleftrightarrow> (\<exists>s. find (\<lambda>s. as_hash s = h) (sessions db) = Some s \<and> as_revoked s \<noteq> None)"

definition dead_id :: "uuid \<Rightarrow> auth_db \<Rightarrow> bool" where
  "dead_id i db \<longleftrightarrow> (\<exists>s. find (\<lambda>s. as_id s = i) (sessions db) = Some s \<and> as_revoked s \<noteq> None)"

text \<open>Revoking sessions in place keeps every digest and identifier where it was.\<close>

lemma dead_map:
  assumes "\<And>r. as_hash (f r) = as_hash r" and "\<And>r. as_id (f r) = as_id r" and "\<And>r. as_revoked r \<noteq> None \<Longrightarrow> as_revoked (f r) \<noteq> None"
  shows "dead_hash h db \<Longrightarrow> dead_hash h (db\<lparr>sessions := map f (sessions db)\<rparr>)"
    and "dead_id i db \<Longrightarrow> dead_id i (db\<lparr>sessions := map f (sessions db)\<rparr>)"
proof -
  have "find (\<lambda>s. as_hash s = h) (map f xs) = map_option f (find (\<lambda>s. as_hash s = h) xs)"
    "find (\<lambda>s. as_id s = i) (map f xs) = map_option f (find (\<lambda>s. as_id s = i) xs)" for xs
    by (induction xs) (simp_all add: assms(1,2))
  then show "dead_hash h db \<Longrightarrow> dead_hash h (db\<lparr>sessions := map f (sessions db)\<rparr>)"
    "dead_id i db \<Longrightarrow> dead_id i (db\<lparr>sessions := map f (sessions db)\<rparr>)"
    using assms(3) by (auto simp: dead_hash_def dead_id_def)
qed

lemma dead_append:
  "dead_hash h db \<Longrightarrow> dead_hash h (db\<lparr>sessions := sessions db @ xs\<rparr>)"
  "dead_id i db \<Longrightarrow> dead_id i (db\<lparr>sessions := sessions db @ xs\<rparr>)"
  by (auto simp: dead_hash_def dead_id_def find_append)

lemma dead_set:
  assumes "\<And>r. as_hash (f r) = as_hash r" and "\<And>r. as_id (f r) = as_id r" and "\<And>r. as_revoked (f r) \<noteq> None"
  shows "dead_hash h db \<Longrightarrow> dead_hash h (set_session k f db)"
    and "dead_id i db \<Longrightarrow> dead_id i (set_session k f db)"
  unfolding set_session_def using assms by (auto intro!: dead_map)

lemma dead_fields [simp]:
  "dead_hash h (db\<lparr>users := us\<rparr>) = dead_hash h db" "dead_hash h (db\<lparr>user_devices := ds\<rparr>) = dead_hash h db"
  "dead_id i (db\<lparr>users := us\<rparr>) = dead_id i db" "dead_id i (db\<lparr>user_devices := ds\<rparr>) = dead_id i db"
  by (simp_all add: dead_hash_def dead_id_def)

lemma issue_keeps_dead:
  assumes "issue sv user rnd now db = Inr (tokens, db')"
  shows "dead_hash h db \<Longrightarrow> dead_hash h db'" and "dead_id i db \<Longrightarrow> dead_id i db'"
  using assms by (auto simp: issue_eq_Inr Let_def dead_append)

lemma step_keeps_dead:
  assumes "auth_step sv db db'"
  shows "(dead_hash h db \<longrightarrow> dead_hash h db') \<and> (dead_id i db \<longrightarrow> dead_id i db')"
  using assms
proof (cases rule: auth_step.cases)
  case (registers ident password rnd now user)
  then show ?thesis by (auto simp: register_def rbind_eq_Inr Let_def split: if_splits)
next
  case (logs_in ident password rnd now tokens)
  then show ?thesis using issue_keeps_dead by (auto simp: login_def split: option.splits if_splits)
next
  case (refreshes refresh_token rnd now tokens)
  then obtain current :: auth_session and user where
    "issue sv user rnd now (set_session (as_id current) (rotate now) db) = Inr (tokens, db')"
    by (auto simp: refresh_def Let_def split: option.splits if_splits)
  from issue_keeps_dead [OF this] dead_set [where f = "rotate now"]
  show ?thesis by simp
next
  case (logs_out refresh_token now)
  then show ?thesis using dead_set [where f = "revoke now"]
    by (auto simp: logout_def split: option.splits if_splits)
next
  case (upserts user_id public_id name platform app_version rnd now row)
  then show ?thesis by (auto simp: upsert_device_def rbind_eq_Inr Let_def split: option.splits if_splits)
qed

lemma run_keeps_dead:
  assumes "auth_run sv db db'"
  shows "(dead_hash h db \<longrightarrow> dead_hash h db') \<and> (dead_id i db \<longrightarrow> dead_id i db')"
  using assms by (induction rule: auth_run.induct) (use step_keeps_dead in blast)+

lemma dead_refresh:
  assumes "dead_hash (digest (sv_crypto sv) t) db"
  shows "refresh sv t rnd now db = Inl unauthenticated"
  using assms by (auto simp: dead_hash_def refresh_def session_of_def)

lemma set_session_dies:
  assumes "find (\<lambda>s. as_hash s = h) (sessions db) = Some s" and "\<And>r. as_hash (f r) = as_hash r" and "\<And>r. as_id (f r) = as_id r"
    and "\<And>r. as_revoked (f r) \<noteq> None"
  shows "dead_hash h (set_session (as_id s) f db)" and "dead_id (as_id s) (set_session (as_id s) f db)"
proof -
  let ?g = "\<lambda>r. if as_id r = as_id s then f r else r"
  have m: "find (\<lambda>s. as_hash s = h) (map ?g xs) = map_option ?g (find (\<lambda>s. as_hash s = h) xs)"
    "find (\<lambda>r. as_id r = as_id s) (map ?g xs) = map_option ?g (find (\<lambda>r. as_id r = as_id s) xs)" for xs
    by (induction xs) (simp_all add: assms(2,3))
  show "dead_hash h (set_session (as_id s) f db)"
    using assms(1,4) by (simp add: dead_hash_def set_session_def m)
  have "s \<in> set (sessions db)" using assms(1) by (auto simp: find_Some_iff)
  then have "find (\<lambda>r. as_id r = as_id s) (sessions db) \<noteq> None" by (auto simp: find_None_iff)
  then obtain s' where s': "find (\<lambda>r. as_id r = as_id s) (sessions db) = Some s'" by auto
  then have "as_id s' = as_id s" by (auto simp: find_Some_iff)
  with s' assms(4) show "dead_id (as_id s) (set_session (as_id s) f db)"
    by (simp add: dead_id_def set_session_def m)
qed

lemma refresh_revokes:
  assumes "refresh sv t rnd now db = Inr (tokens, db')"
  shows "dead_hash (digest (sv_crypto sv) t) db'"
proof -
  from assms obtain current :: auth_session and user where c: "session_of sv t db = Some current"
    and iss: "issue sv user rnd now (set_session (as_id current) (rotate now) db) = Inr (tokens, db')"
    by (auto simp: refresh_def Let_def split: option.splits if_splits)
  have "dead_hash (digest (sv_crypto sv) t) (set_session (as_id current) (rotate now) db)"
    using c by (intro set_session_dies) (simp_all add: session_of_def)
  then show ?thesis by (rule issue_keeps_dead(1) [OF iss])
qed

text \<open>
  C3. Refresh tokens are single-use: once a token has been exchanged, every later attempt to exchange
  it is refused, whatever calls anybody makes in between.
\<close>

lemma refresh_token_single_use:
  assumes "refresh sv t rnd now db = Inr (tokens, db1)" and "auth_run sv db1 db2"
  shows "refresh sv t rnd' now' db2 = Inl unauthenticated"
  using refresh_revokes [OF assms(1)] run_keeps_dead [OF assms(2)] by (simp add: dead_refresh)

section \<open>Access tokens\<close>

text \<open>
  What the code relies on of PyJWT: a token it signed decodes to the same subject and session, and
  does decode from its issue until a second before its expiry (times are truncated to seconds).
\<close>

definition signs_tokens :: "auth_service \<Rightarrow> bool" where
  "signs_tokens sv \<longleftrightarrow>
     (\<forall>c now c'. 0 \<le> cl_iat c \<longrightarrow> cl_iat c \<le> cl_exp c \<longrightarrow>
        jwt_decode (sv_crypto sv) (sv_secret sv) now (jwt_encode (sv_crypto sv) (sv_secret sv) c) = Some c' \<longrightarrow>
        cl_sub c' = cl_sub c \<and> cl_sid c' = cl_sid c) \<and>
     (\<forall>c now. 0 \<le> cl_iat c \<longrightarrow> cl_iat c \<le> now \<longrightarrow> now + 1000000 \<le> cl_exp c \<longrightarrow>
        jwt_decode (sv_crypto sv) (sv_secret sv) now (jwt_encode (sv_crypto sv) (sv_secret sv) c) \<noteq> None)"

lemma signed_claims:
  assumes "signs_tokens sv" and "0 \<le> cl_iat c" and "cl_iat c \<le> cl_exp c"
    and "jwt_decode (sv_crypto sv) (sv_secret sv) now (jwt_encode (sv_crypto sv) (sv_secret sv) c) = Some c'"
  shows "cl_sub c' = cl_sub c \<and> cl_sid c' = cl_sid c"
  using assms unfolding signs_tokens_def by blast

lemma issue_session:
  assumes "issue sv user rnd now db = Inr (tokens, db')"
  shows "find (\<lambda>s. as_id s = en_id rnd) (sessions db') =
      Some \<lparr>as_id = en_id rnd, as_user = au_id user, as_hash = digest (sv_crypto sv) (en_token rnd),
            as_expires = now + sv_refresh_days sv * 86400000000, as_created = now, as_rotated = None, as_revoked = None\<rparr>"
    and "find (\<lambda>s. as_hash s = digest (sv_crypto sv) (en_token rnd)) (sessions db') =
      Some \<lparr>as_id = en_id rnd, as_user = au_id user, as_hash = digest (sv_crypto sv) (en_token rnd),
            as_expires = now + sv_refresh_days sv * 86400000000, as_created = now, as_rotated = None, as_revoked = None\<rparr>"
    and "users db' = users db" and "tp_refresh tokens = en_token rnd"
    and "tp_access tokens = access_token sv (au_id user) (en_id rnd) (en_jti rnd) now"
proof -
  from assms have ok: "distinct (map as_id (sessions db'))" "distinct (map as_hash (sessions db'))"
    by (auto simp: issue_eq_Inr auth_ok_def Let_def)
  have "en_id rnd \<notin> as_id ` set (sessions db)" "digest (sv_crypto sv) (en_token rnd) \<notin> as_hash ` set (sessions db)"
    using assms ok by (auto simp: issue_eq_Inr Let_def)
  then have "find (\<lambda>s. as_id s = en_id rnd) (sessions db) = None"
    "find (\<lambda>s. as_hash s = digest (sv_crypto sv) (en_token rnd)) (sessions db) = None"
    by (force simp: find_None_iff)+
  with assms show "find (\<lambda>s. as_id s = en_id rnd) (sessions db') =
      Some \<lparr>as_id = en_id rnd, as_user = au_id user, as_hash = digest (sv_crypto sv) (en_token rnd),
            as_expires = now + sv_refresh_days sv * 86400000000, as_created = now, as_rotated = None, as_revoked = None\<rparr>"
    "find (\<lambda>s. as_hash s = digest (sv_crypto sv) (en_token rnd)) (sessions db') =
      Some \<lparr>as_id = en_id rnd, as_user = au_id user, as_hash = digest (sv_crypto sv) (en_token rnd),
            as_expires = now + sv_refresh_days sv * 86400000000, as_created = now, as_rotated = None, as_revoked = None\<rparr>"
    "users db' = users db" "tp_refresh tokens = en_token rnd"
    "tp_access tokens = access_token sv (au_id user) (en_id rnd) (en_jti rnd) now"
    by (auto simp: issue_eq_Inr Let_def find_append)
qed

text \<open>
  A login opens a session for the right account: the access token it returns authenticates, from
  then until a second before it expires, exactly the active user with the identifier that logged in
  and whose password was verified.
\<close>

lemma login_authenticates:
  assumes "signs_tokens sv" and "login sv identifier password rnd now db = Inr (tokens, db')"
    and "distinct (map au_id (users db))" and "0 \<le> now" and "now \<le> now'"
    and "now' + 1000000 \<le> now + sv_access_minutes sv * 60000000"
  shows "\<exists>user. authenticate sv (tp_access tokens) now' db' = Inr user \<and> user \<in> set (users db) \<and>
    au_login user = normalize sv identifier \<and> au_status user = ''ACTIVE'' \<and>
    pw_verify (sv_crypto sv) (au_password user) password"
proof -
  from assms(2) obtain user where u: "find (\<lambda>u. au_login u = normalize sv identifier) (users db) = Some user"
    "au_status user = ''ACTIVE''" "pw_verify (sv_crypto sv) (au_password user) password"
    and iss: "issue sv user rnd now db = Inr (tokens, db')"
    by (auto simp: login_def split: option.splits if_splits)
  have mem: "user \<in> set (users db)" "au_login user = normalize sv identifier"
    using u(1) by (auto simp: find_Some_iff)
  let ?c = "access_claims sv (au_id user) (en_id rnd) (en_jti rnd) now"
  have "jwt_decode (sv_crypto sv) (sv_secret sv) now' (jwt_encode (sv_crypto sv) (sv_secret sv) ?c) \<noteq> None"
    using assms(1,4-6) by (simp add: signs_tokens_def access_claims_def)
  then obtain c' where c': "jwt_decode (sv_crypto sv) (sv_secret sv) now' (tp_access tokens) = Some c'"
    unfolding issue_session(5) [OF iss] access_token_def by auto
  moreover have "cl_sub c' = au_id user \<and> cl_sid c' = en_id rnd"
    using signed_claims [OF assms(1), of ?c now' c'] assms(4-6) c'
    unfolding issue_session(5) [OF iss] access_token_def by (simp add: access_claims_def)
  moreover have "find (\<lambda>u. au_id u = au_id user) (users db) = Some user"
    by (rule find_key_unique [OF assms(3) mem(1)])
  ultimately show ?thesis using u mem by (simp add: authenticate_def issue_session [OF iss])
qed

text \<open>
  A logout ends the session: after it, and whatever calls follow, neither the refresh token nor
  any access token of the session is accepted again.
\<close>

lemma logout_ends_session:
  assumes "signs_tokens sv" and "login sv identifier password rnd now db = Inr (tokens, db1)" and "0 \<le> now"
    and "0 \<le> sv_access_minutes sv"
    and "logout sv (tp_refresh tokens) now1 db1 = Inr db2" and "auth_run sv db2 db3"
  shows "refresh sv (tp_refresh tokens) rnd' now' db3 = Inl unauthenticated \<and>
    authenticate sv (tp_access tokens) now' db3 = Inl unauthenticated"
proof -
  from assms(2) obtain user where iss: "issue sv user rnd now db = Inr (tokens, db1)"
    by (auto simp: login_def split: option.splits if_splits)
  note s = issue_session [OF iss]
  let ?f = "revoke now1"
  have db2: "db2 = set_session (en_id rnd) ?f db1"
    using assms(5) by (simp add: logout_def session_of_def s split: if_splits)
  have "dead_hash (digest (sv_crypto sv) (en_token rnd)) db2" "dead_id (en_id rnd) db2"
    using set_session_dies [OF s(2), of ?f] by (simp_all add: db2)
  with run_keeps_dead [OF assms(6)] have dead: "dead_hash (digest (sv_crypto sv) (tp_refresh tokens)) db3" "dead_id (en_id rnd) db3"
    by (simp_all add: s(4))
  have "authenticate sv (tp_access tokens) now' db3 = Inl unauthenticated"
  proof (cases "jwt_decode (sv_crypto sv) (sv_secret sv) now' (tp_access tokens)")
    case (Some c')
    then have "cl_sid c' = en_id rnd"
      using signed_claims [OF assms(1), of "access_claims sv (au_id user) (en_id rnd) (en_jti rnd) now" now' c'] assms(3,4)
      unfolding s(5) access_token_def by (simp add: access_claims_def)
    with Some dead(2) show ?thesis by (auto simp: authenticate_def dead_id_def split: option.splits)
  qed (simp add: authenticate_def)
  with dead(1) show ?thesis by (simp add: dead_refresh)
qed

text \<open>
  Disabling an account does not end its sessions: a refresh does not look at the status of the
  user, so with a live refresh token a disabled user obtains new tokens, again and again, although
  the access tokens are refused while the account is disabled.
\<close>

lemma disabled_user_refreshes:
  assumes "session_of sv t db = Some current" and "as_revoked current = None" and "now < as_expires current"
    and "find (\<lambda>u. au_id u = as_user current) (users db) = Some user" and "au_status user \<noteq> ''ACTIVE''"
    and "auth_ok db" and "en_id rnd \<notin> as_id ` set (sessions db)"
    and "digest (sv_crypto sv) (en_token rnd) \<notin> as_hash ` set (sessions db)"
  shows "\<exists>tokens db'. refresh sv t rnd now db = Inr (tokens, db') \<and> tp_refresh tokens = en_token rnd \<and>
    (\<exists>s. session_of sv (en_token rnd) db' = Some s \<and> as_revoked s = None \<and> as_user s = au_id user)"
proof -
  let ?db = "set_session (as_id current) (rotate now) db"
  have same: "map as_id (sessions ?db) = map as_id (sessions db)" "map as_hash (sessions ?db) = map as_hash (sessions db)"
    "users ?db = users db" "user_devices ?db = user_devices db"
    by (simp_all add: set_session_def)
  then have "as_id ` set (sessions ?db) = as_id ` set (sessions db)" "as_hash ` set (sessions ?db) = as_hash ` set (sessions db)"
    unfolding set_map [symmetric] by simp_all
  with same assms(6-8) have "\<exists>tokens db'. issue sv user rnd now ?db = Inr (tokens, db')"
    by (simp add: issue_eq_Inr Let_def auth_ok_def del: set_session_def)
  then obtain tokens db' where iss: "issue sv user rnd now ?db = Inr (tokens, db')" by blast
  have run: "refresh sv t rnd now db = Inr (tokens, db')"
    using assms(1-4) iss by (simp add: refresh_def set_session_def)
  show ?thesis
    using run issue_session [OF iss] by (auto simp: session_of_def)
qed

section \<open>Witnesses\<close>

text \<open>
  A token codec for the examples: the claims in binary, each signed_bits after its sign and closed by a dot,
  behind the secret.
\<close>

fun bits :: "nat \<Rightarrow> string" where
  "bits n = (if n = 0 then [] else (if even n then CHR ''0'' else CHR ''1'') # bits (n div 2))"

declare bits.simps [simp del]

fun unbits :: "string \<Rightarrow> nat" where
  "unbits [] = 0"
| "unbits (c # cs) = (if c = CHR ''1'' then 1 else 0) + 2 * unbits cs"

definition signed_bits :: "int \<Rightarrow> string" where
  "signed_bits i = (if i < 0 then ''-'' else ''+'') @ bits (nat \<bar>i\<bar>) @ ''.''"

definition parse_signed :: "string \<Rightarrow> int" where
  "parse_signed s = (if hd s = CHR ''-'' then - int (unbits (tl s)) else int (unbits (tl s)))"

fun pieces :: "string \<Rightarrow> string list" where
  "pieces [] = []"
| "pieces (c # cs) = (if c = CHR ''.'' then [] # pieces cs
     else case pieces cs of [] \<Rightarrow> [[c]] | p # ps \<Rightarrow> (c # p) # ps)"

definition plain_encode :: "string \<Rightarrow> claims \<Rightarrow> string" where
  "plain_encode secret c = signed_bits (int (cl_sub c)) @ signed_bits (int (cl_sid c)) @ signed_bits (int (cl_jti c)) @
     signed_bits (cl_iat c) @ signed_bits (cl_exp c)"

definition plain_decode :: "string \<Rightarrow> instant \<Rightarrow> string \<Rightarrow> claims option" where
  "plain_decode secret now token =
     (case map parse_signed (pieces token) of
        [a, b, j, i, e] \<Rightarrow>
          if i \<le> now \<and> now < e then Some \<lparr>cl_sub = nat a, cl_sid = nat b, cl_jti = nat j, cl_iat = i, cl_exp = e\<rparr> else None
      | _ \<Rightarrow> None)"

lemma unbits_bits: "unbits (bits n) = n"
proof (induction n rule: bits.induct)
  case (1 n)
  show ?case
  proof (cases "n = 0")
    case False
    with 1 have "unbits (bits (n div 2)) = n div 2" by simp
    with False show ?thesis by (simp add: bits.simps [of n])
  qed (simp add: bits.simps)
qed

lemma bits_dotless: "CHR ''.'' \<notin> set (bits n)"
proof (induction n rule: bits.induct)
  case (1 n)
  then show ?case by (cases "n = 0") (simp_all add: bits.simps [of n] bits.simps [of 0])
qed

lemma pieces_dot: "CHR ''.'' \<notin> set s \<Longrightarrow> pieces (s @ CHR ''.'' # rest) = s # pieces rest"
  by (induction s) auto

lemma pieces_signed: "pieces (signed_bits i @ rest) = ((if i < 0 then CHR ''-'' else CHR ''+'') # bits (nat \<bar>i\<bar>)) # pieces rest"
  by (simp add: signed_bits_def pieces_dot [OF bits_dotless])

lemma parse_signed_bits: "parse_signed ((if i < 0 then CHR ''-'' else CHR ''+'') # bits (nat \<bar>i\<bar>)) = i"
  by (simp add: parse_signed_def unbits_bits)

lemma parse_signed_nat: "parse_signed (CHR ''+'' # bits n) = int n"
  by (simp add: parse_signed_def unbits_bits)

lemma plain_codec:
  "plain_decode secret now (plain_encode secret c) = (if cl_iat c \<le> now \<and> now < cl_exp c then Some c else None)"
  by (simp add: plain_decode_def plain_encode_def pieces_signed pieces_signed [of _ "[]", simplified] parse_signed_bits parse_signed_nat)

text \<open>A service over the codec, with passwords and tokens stored as they are, and one account.\<close>

definition plain_service :: auth_service where
  "plain_service = \<lparr>sv_crypto = \<lparr>normal_form = (\<lambda>s. s), digest = (\<lambda>s. s), pw_hash = (\<lambda>s. s), pw_verify = (=),
     jwt_encode = plain_encode, jwt_decode = plain_decode\<rparr>, sv_secret = ''s'', sv_access_minutes = 15, sv_refresh_days = 30\<rparr>"

definition one_account :: "string \<Rightarrow> auth_db" where
  "one_account status = \<lparr>users = [\<lparr>au_id = 1, au_login = ''ann'', au_password = ''correct horse'', au_status = status, au_created = 0\<rparr>],
     sessions = [], user_devices = []\<rparr>"

definition open_session :: "string \<Rightarrow> auth_db" where
  "open_session status = (one_account status)\<lparr>sessions := [\<lparr>as_id = 5, as_user = 1, as_hash = ''old'', as_expires = 100,
     as_created = 0, as_rotated = None, as_revoked = None\<rparr>]\<rparr>"

definition some_entropy :: "nat \<Rightarrow> string \<Rightarrow> entropy" where
  "some_entropy i token = \<lparr>en_id = i, en_jti = i, en_token = token\<rparr>"

lemma plain_signs: "signs_tokens plain_service"
  by (auto simp: signs_tokens_def plain_service_def plain_codec split: if_splits)

lemma plain_login:
  "\<exists>tokens db. login plain_service ''ann'' ''correct horse'' (some_entropy 7 ''t'') 0 (one_account ''ACTIVE'') = Inr (tokens, db) \<and>
     (\<exists>db2. logout plain_service (tp_refresh tokens) 10 db = Inr db2)"
  by (simp add: login_def normalize_def plain_service_def one_account_def issue_def commit_def auth_ok_def some_entropy_def
    logout_def session_of_def set_session_def)

lemma plain_refresh:
  "\<exists>tokens db. refresh plain_service ''old'' (some_entropy 8 ''u'') 50 (open_session ''ACTIVE'') = Inr (tokens, db)"
  by (simp add: refresh_def session_of_def open_session_def one_account_def plain_service_def set_session_def issue_def
    commit_def auth_ok_def some_entropy_def)

lemma refresh_token_single_use_witness:
  "\<exists>tokens db. refresh plain_service ''old'' (some_entropy 8 ''u'') 50 (open_session ''ACTIVE'') = Inr (tokens, db) \<and>
     refresh plain_service ''old'' (some_entropy 9 ''v'') 60 db = Inl unauthenticated"
proof -
  obtain tokens db where run: "refresh plain_service ''old'' (some_entropy 8 ''u'') 50 (open_session ''ACTIVE'') = Inr (tokens, db)"
    using plain_refresh by auto
  from run refresh_token_single_use [OF run auth_run.stop] show ?thesis by blast
qed

lemma login_authenticates_witness:
  "\<exists>tokens db user. login plain_service ''ann'' ''correct horse'' (some_entropy 7 ''t'') 0 (one_account ''ACTIVE'') = Inr (tokens, db) \<and>
     authenticate plain_service (tp_access tokens) 5000000 db = Inr user \<and> au_login user = ''ann''"
proof -
  obtain tokens db where run: "login plain_service ''ann'' ''correct horse'' (some_entropy 7 ''t'') 0 (one_account ''ACTIVE'') = Inr (tokens, db)"
    using plain_login by auto
  have "\<exists>user. authenticate plain_service (tp_access tokens) 5000000 db = Inr user \<and> user \<in> set (users (one_account ''ACTIVE'')) \<and>
    au_login user = normalize plain_service ''ann'' \<and> au_status user = ''ACTIVE'' \<and>
    pw_verify (sv_crypto plain_service) (au_password user) ''correct horse''"
    by (rule login_authenticates [OF plain_signs run]) (simp_all add: one_account_def plain_service_def)
  with run show ?thesis by (auto simp: normalize_def plain_service_def)
qed

lemma logout_ends_session_witness:
  "\<exists>tokens db1 db2. login plain_service ''ann'' ''correct horse'' (some_entropy 7 ''t'') 0 (one_account ''ACTIVE'') = Inr (tokens, db1) \<and>
     logout plain_service (tp_refresh tokens) 10 db1 = Inr db2 \<and>
     authenticate plain_service (tp_access tokens) 20 db2 = Inl unauthenticated"
proof -
  obtain tokens db1 db2 where run: "login plain_service ''ann'' ''correct horse'' (some_entropy 7 ''t'') 0 (one_account ''ACTIVE'') = Inr (tokens, db1)"
    "logout plain_service (tp_refresh tokens) 10 db1 = Inr db2" using plain_login by auto
  have "authenticate plain_service (tp_access tokens) 20 db2 = Inl unauthenticated"
    using logout_ends_session [OF plain_signs run(1) _ _ run(2) auth_run.stop] by (simp add: plain_service_def)
  with run show ?thesis by blast
qed

lemma disabled_user_refreshes_witness:
  "\<exists>tokens db'. refresh plain_service ''old'' (some_entropy 8 ''u'') 50 (open_session ''DISABLED'') = Inr (tokens, db') \<and>
     tp_refresh tokens = ''u''"
  using disabled_user_refreshes [of plain_service "''old''" "open_session ''DISABLED''"
      "\<lparr>as_id = 5, as_user = 1, as_hash = ''old'', as_expires = 100, as_created = 0, as_rotated = None, as_revoked = None\<rparr>" 50
      "\<lparr>au_id = 1, au_login = ''ann'', au_password = ''correct horse'', au_status = ''DISABLED'', au_created = 0\<rparr>" "some_entropy 8 ''u''"]
  by (auto simp: session_of_def open_session_def one_account_def plain_service_def auth_ok_def some_entropy_def)

end
