(* ===== verification/PushDelivery.thy ===== *)
theory PushDelivery
  imports Auth
begin

text \<open>
  Push tokens, events and deliveries (\<open>app/services/push_notifications.py\<close>,
  \<open>app/repositories/push_models.py\<close>): registering the token of an installation, the delivery of one
  notification with its retries, and the outbox that is drained in batches. A provider is a parameter:
  its answer may depend on everything sent before, and \<open>None\<close> stands for an exception. The world
  carries the log of what was sent; the clock and the supply of fresh identifiers are functions of
  the number of messages sent and of rows created so far.
\<close>

section \<open>State\<close>

record push_token =
  pt_id :: uuid
  pt_user :: uuid
  pt_device :: string
  pt_token :: string
  pt_platform :: string
  pt_active :: bool
  pt_updated :: instant

record push_event =
  pe_id :: uuid
  pe_user :: "uuid option"
  pe_type :: string
  pe_title :: string
  pe_body :: string
  pe_created :: instant

datatype delivery_status = PENDING | SENDING | SENT | INVALID_TOKEN | FAILED | DISABLED

record delivery =
  dl_id :: uuid
  dl_event :: uuid
  dl_token :: uuid
  dl_status :: delivery_status
  dl_attempts :: int
  dl_last :: "instant option"
  dl_message :: "string option"
  dl_error :: "string option"

record payload =
  py_event :: uuid
  py_alert_type :: string
  py_security :: string
  py_title :: string
  py_body :: string

record push_result =
  pr_success :: bool
  pr_provider :: string
  pr_message :: "string option"
  pr_error :: "string option"
  pr_retryable :: bool
  pr_invalid :: bool
  pr_attempts :: int

text \<open>A message as it was handed to the provider, with the delivery it was sent for.\<close>

type_synonym message = "uuid \<times> string \<times> payload"

record push_world =
  pw_devices :: "user_device list"
  pw_tokens :: "push_token list"
  pw_events :: "push_event list"
  pw_deliveries :: "delivery list"
  pw_log :: "message list"

record push_provider =
  pv_type :: string
  pv_configured :: bool
  pv_send :: "message list \<Rightarrow> string \<Rightarrow> payload \<Rightarrow> push_result option"

record push_service =
  ps_provider :: push_provider
  ps_clock :: "nat \<Rightarrow> instant"
  ps_new_id :: "nat \<Rightarrow> uuid"
  ps_title :: string
  ps_body :: string

definition failed_result :: "push_service \<Rightarrow> string option \<Rightarrow> int \<Rightarrow> push_result" where
  "failed_result sv err attempts = \<lparr>pr_success = False, pr_provider = pv_type (ps_provider sv), pr_message = None,
     pr_error = err, pr_retryable = False, pr_invalid = False, pr_attempts = attempts\<rparr>"

text \<open>The two providers of the module itself.\<close>

definition unconfigured_provider :: push_provider where
  "unconfigured_provider = \<lparr>pv_type = ''UNCONFIGURED'', pv_configured = False,
     pv_send = (\<lambda>_ _ _. Some \<lparr>pr_success = False, pr_provider = ''UNCONFIGURED'', pr_message = None,
       pr_error = Some ''PUSH_PROVIDER_UNCONFIGURED'', pr_retryable = False, pr_invalid = False, pr_attempts = 1\<rparr>)\<rparr>"

definition fake_provider :: "(nat \<Rightarrow> string) \<Rightarrow> push_provider" where
  "fake_provider message_id = \<lparr>pv_type = ''FAKE'', pv_configured = True,
     pv_send = (\<lambda>sent _ _. Some \<lparr>pr_success = True, pr_provider = ''FAKE'', pr_message = Some (message_id (length sent)),
       pr_error = None, pr_retryable = False, pr_invalid = False, pr_attempts = 1\<rparr>)\<rparr>"

section \<open>Tokens\<close>

definition tokens_ok :: "push_token list \<Rightarrow> bool" where
  "tokens_ok ts \<longleftrightarrow> distinct (map pt_id ts) \<and> distinct (map pt_token ts) \<and> distinct (map (\<lambda>t. (pt_user t, pt_device t)) ts)"

definition set_tokens :: "push_token list \<Rightarrow> push_world \<Rightarrow> push_world result" where
  "set_tokens ts w = (if tokens_ok ts then Inr (w\<lparr>pw_tokens := ts\<rparr>) else Inl IntegrityError)"

definition register_token :: "uuid \<Rightarrow> string \<Rightarrow> string \<Rightarrow> string \<Rightarrow> uuid \<Rightarrow> instant \<Rightarrow> push_world \<Rightarrow> push_world result" where
  "register_token user device token platform new_id now w =
     (case find (\<lambda>d. ud_user d = user \<and> ud_public_id d = device \<and> ud_revoked d = None) (pw_devices w) of
        None \<Rightarrow> Inl (AppError ''DEVICE_NOT_OWNED'' 403)
      | Some _ \<Rightarrow>
          (case find (\<lambda>t. pt_token t = token) (pw_tokens w) of
             Some t \<Rightarrow>
               if pt_user t \<noteq> user \<or> pt_device t \<noteq> device then Inl (AppError ''TOKEN_CONFLICT'' 409)
               else set_tokens (map (\<lambda>r. if pt_user r = user \<and> pt_device r = device
                      then r\<lparr>pt_token := token, pt_platform := platform, pt_active := True, pt_updated := now\<rparr> else r) (pw_tokens w)) w
           | None \<Rightarrow>
               if \<exists>t \<in> set (pw_tokens w). pt_user t = user \<and> pt_device t = device
               then set_tokens (map (\<lambda>r. if pt_user r = user \<and> pt_device r = device
                      then r\<lparr>pt_token := token, pt_platform := platform, pt_active := True, pt_updated := now\<rparr> else r) (pw_tokens w)) w
               else set_tokens (pw_tokens w @ [\<lparr>pt_id = new_id, pt_user = user, pt_device = device, pt_token = token,
                      pt_platform = platform, pt_active = True, pt_updated = now\<rparr>]) w))"

definition unregister_token :: "uuid \<Rightarrow> string \<Rightarrow> instant \<Rightarrow> push_world \<Rightarrow> push_world" where
  "unregister_token user device now w =
     w\<lparr>pw_tokens := map (\<lambda>r. if pt_user r = user \<and> pt_device r = device then r\<lparr>pt_active := False, pt_updated := now\<rparr> else r)
       (pw_tokens w)\<rparr>"

section \<open>Delivering\<close>

definition find_delivery :: "uuid \<Rightarrow> push_world \<Rightarrow> delivery option" where
  "find_delivery i w = find (\<lambda>d. dl_id d = i) (pw_deliveries w)"

definition change_delivery :: "uuid \<Rightarrow> (delivery \<Rightarrow> delivery) \<Rightarrow> push_world \<Rightarrow> push_world" where
  "change_delivery i f w = w\<lparr>pw_deliveries := map (\<lambda>d. if dl_id d = i then f d else d) (pw_deliveries w)\<rparr>"

text \<open>The pending deliveries of an event for the active tokens of its user that have none yet.\<close>

definition has_delivery :: "uuid \<Rightarrow> uuid \<Rightarrow> push_world \<Rightarrow> bool" where
  "has_delivery e t w \<longleftrightarrow> (\<exists>d \<in> set (pw_deliveries w). dl_event d = e \<and> dl_token d = t)"

definition pending_delivery :: "push_service \<Rightarrow> uuid \<Rightarrow> uuid \<Rightarrow> push_world \<Rightarrow> delivery" where
  "pending_delivery sv e t w = \<lparr>dl_id = ps_new_id sv (length (pw_deliveries w)), dl_event = e, dl_token = t,
     dl_status = PENDING, dl_attempts = 0, dl_last = None, dl_message = None, dl_error = None\<rparr>"

definition materialize_step :: "push_service \<Rightarrow> uuid \<Rightarrow> push_token \<Rightarrow> push_world \<Rightarrow> push_world" where
  "materialize_step sv e t w =
     (if has_delivery e (pt_id t) w then w
      else w\<lparr>pw_deliveries := pw_deliveries w @ [pending_delivery sv e (pt_id t) w]\<rparr>)"

definition active_tokens :: "uuid \<Rightarrow> push_world \<Rightarrow> push_token list" where
  "active_tokens user w = filter (\<lambda>t. pt_user t = user \<and> pt_active t) (pw_tokens w)"

definition materialize_event_deliveries :: "push_service \<Rightarrow> uuid \<Rightarrow> push_world \<Rightarrow> push_world" where
  "materialize_event_deliveries sv e w =
     (case find (\<lambda>ev. pe_id ev = e) (pw_events w) of
        None \<Rightarrow> w
      | Some ev \<Rightarrow>
          (case pe_user ev of
             None \<Rightarrow> w
           | Some user \<Rightarrow> fold (materialize_step sv e) (active_tokens user w) w))"

text \<open>One attempt: the row is marked, the message handed over, and the answer recorded.\<close>

definition answer_status :: "push_result \<Rightarrow> delivery_status" where
  "answer_status r = (if pr_success r then SENT else if pr_invalid r then INVALID_TOKEN else FAILED)"

definition attempt :: "push_service \<Rightarrow> uuid \<Rightarrow> push_token \<Rightarrow> payload \<Rightarrow> push_world \<Rightarrow> push_result \<times> push_world" where
  "attempt sv i t p w =
     (let now = ps_clock sv (length (pw_log w));
          w = change_delivery i (\<lambda>d. d\<lparr>dl_status := SENDING, dl_attempts := dl_attempts d + 1, dl_last := Some now\<rparr>) w;
          r = (case pv_send (ps_provider sv) (pw_log w) (pt_token t) p of
                 None \<Rightarrow> failed_result sv (Some ''PROVIDER_ERROR'') 1 | Some r \<Rightarrow> r);
          w = w\<lparr>pw_log := pw_log w @ [(i, pt_token t, p)]\<rparr>;
          w = change_delivery i (\<lambda>d. d\<lparr>dl_error := pr_error r, dl_message := pr_message r, dl_status := answer_status r\<rparr>) w;
          w = (if \<not> pr_success r \<and> pr_invalid r
               then w\<lparr>pw_tokens := map (\<lambda>u. if pt_id u = pt_id t then u\<lparr>pt_active := False\<rparr> else u) (pw_tokens w)\<rparr> else w)
      in (r, w))"

fun attempt_loop :: "push_service \<Rightarrow> uuid \<Rightarrow> push_token \<Rightarrow> payload \<Rightarrow> int \<Rightarrow> nat list \<Rightarrow> push_result \<Rightarrow> push_world \<Rightarrow>
    push_result \<times> push_world" where
  "attempt_loop sv i t p max_retries [] r w = (r, w)"
| "attempt_loop sv i t p max_retries (k # ks) r w =
     (let (r, w) = attempt sv i t p w
      in if pr_success r \<or> \<not> pr_retryable r \<or> int k = max_retries then (r, w)
         else attempt_loop sv i t p max_retries ks r w)"

definition retry_budget :: "int \<Rightarrow> nat" where
  "retry_budget max_retries = nat (min (max max_retries 0) 5) + 1"

definition event_payload :: "push_event \<Rightarrow> payload" where
  "event_payload ev = \<lparr>py_event = pe_id ev, py_alert_type = pe_type ev, py_security = [], py_title = pe_title ev, py_body = pe_body ev\<rparr>"

definition deliver_single_delivery :: "push_service \<Rightarrow> uuid \<Rightarrow> int \<Rightarrow> push_world \<Rightarrow> push_result \<times> push_world" where
  "deliver_single_delivery sv i max_retries w =
     (case find_delivery i w of
        None \<Rightarrow> (failed_result sv (Some ''DELIVERY_NOT_FOUND'') 1, w)
      | Some d \<Rightarrow>
          if dl_status d = SENT \<or> dl_status d = INVALID_TOKEN
          then ((failed_result sv (dl_error d) (dl_attempts d))\<lparr>pr_success := (dl_status d = SENT)\<rparr>, w)
          else
            (case (find (\<lambda>e. pe_id e = dl_event d) (pw_events w), find (\<lambda>t. pt_id t = dl_token d) (pw_tokens w)) of
               (Some ev, Some t) \<Rightarrow>
                 if \<not> pv_configured (ps_provider sv)
                 then (failed_result sv (Some ''DISABLED'') 0, change_delivery i (\<lambda>d. d\<lparr>dl_status := DISABLED\<rparr>) w)
                 else attempt_loop sv i t (event_payload ev) max_retries [0..<retry_budget max_retries]
                        (failed_result sv (Some ''NOT_ATTEMPTED'') 1) w
             | _ \<Rightarrow>
                 (failed_result sv (Some ''MISSING_EVENT_OR_TOKEN'') (dl_attempts d),
                  change_delivery i (\<lambda>d. d\<lparr>dl_status := FAILED, dl_error := Some ''MISSING_EVENT_OR_TOKEN''\<rparr>) w)))"

fun deliver_all :: "push_service \<Rightarrow> int \<Rightarrow> uuid list \<Rightarrow> push_world \<Rightarrow> push_result list \<times> push_world" where
  "deliver_all sv max_retries [] w = ([], w)"
| "deliver_all sv max_retries (i # is) w =
     (let (r, w) = deliver_single_delivery sv i max_retries w; (rs, w) = deliver_all sv max_retries is w in (r # rs, w))"

definition deliver_event :: "push_service \<Rightarrow> push_event \<Rightarrow> int \<Rightarrow> push_world \<Rightarrow> push_result list \<times> push_world" where
  "deliver_event sv ev max_retries w =
     (if pe_user ev = None then ([], w)
      else
        let w = materialize_event_deliveries sv (pe_id ev) w
        in deliver_all sv max_retries
             (map dl_id (filter (\<lambda>d. dl_event d = pe_id ev \<and> (dl_status d = PENDING \<or> dl_status d = SENDING)) (pw_deliveries w))) w)"

definition dispatch_alert_event :: "push_service \<Rightarrow> uuid \<Rightarrow> uuid \<Rightarrow> string \<Rightarrow> instant \<Rightarrow> push_world \<Rightarrow> push_result list \<times> push_world" where
  "dispatch_alert_event sv user e alert_type now w =
     (if \<exists>ev \<in> set (pw_events w). pe_id ev = e then ([], w)
      else
        let ev = \<lparr>pe_id = e, pe_user = Some user, pe_type = take 64 alert_type, pe_title = ps_title sv, pe_body = ps_body sv,
                  pe_created = now\<rparr>
        in deliver_event sv ev 3 (w\<lparr>pw_events := pw_events w @ [ev]\<rparr>))"

section \<open>The outbox\<close>

text \<open>Events with a user and without a delivery, oldest first.\<close>

definition unmaterialized :: "push_world \<Rightarrow> push_event list" where
  "unmaterialized w = sort_key pe_created
     (filter (\<lambda>ev. pe_user ev \<noteq> None \<and> (\<forall>d \<in> set (pw_deliveries w). dl_event d \<noteq> pe_id ev)) (pw_events w))"

definition eligible :: "instant \<Rightarrow> delivery \<Rightarrow> bool" where
  "eligible stale_cutoff d \<longleftrightarrow> dl_status d = PENDING \<or>
     (dl_status d = SENDING \<and> (case dl_last d of None \<Rightarrow> False | Some t \<Rightarrow> t < stale_cutoff))"

definition claim :: "nat \<Rightarrow> instant \<Rightarrow> push_world \<Rightarrow> uuid list" where
  "claim batch_size stale_cutoff w = take batch_size (sort (map dl_id (filter (eligible stale_cutoff) (pw_deliveries w))))"

definition drain_outbox :: "push_service \<Rightarrow> nat \<Rightarrow> int \<Rightarrow> int \<Rightarrow> instant \<Rightarrow> push_world \<Rightarrow> nat \<times> push_world" where
  "drain_outbox sv batch_size max_retries stale now w =
     (if \<not> pv_configured (ps_provider sv) then (0, w)
      else
        let w = fold (\<lambda>ev. materialize_event_deliveries sv (pe_id ev)) (take batch_size (unmaterialized w)) w;
            is = claim batch_size (now - stale) w;
            (rs, w) = deliver_all sv max_retries is w
        in (length rs, w))"

section \<open>Frame properties\<close>

text \<open>What a step leaves alone about a delivery: its row and the messages sent for it.\<close>

definition same_for :: "uuid \<Rightarrow> push_world \<Rightarrow> push_world \<Rightarrow> bool" where
  "same_for i w w' \<longleftrightarrow> find_delivery i w' = find_delivery i w \<and>
     filter (\<lambda>m. fst m = i) (pw_log w') = filter (\<lambda>m. fst m = i) (pw_log w)"

lemma same_for_refl [simp]: "same_for i w w"
  by (simp add: same_for_def)

lemma same_for_trans: "same_for i w w' \<Longrightarrow> same_for i w' w'' \<Longrightarrow> same_for i w w''"
  by (simp add: same_for_def)

lemma find_map_other:
  assumes "j \<noteq> i" and "\<And>d. dl_id (f d) = dl_id d"
  shows "find (\<lambda>d. dl_id d = i) (map (\<lambda>d. if dl_id d = j then f d else d) ds) = find (\<lambda>d. dl_id d = i) ds"
  using assms by (induction ds) auto

lemma find_map_same:
  assumes "\<And>d. dl_id (f d) = dl_id d"
  shows "find (\<lambda>d. dl_id d = i) (map (\<lambda>d. if dl_id d = i then f d else d) ds) = map_option f (find (\<lambda>d. dl_id d = i) ds)"
  using assms by (induction ds) auto

lemma change_delivery_fields [simp]:
  "pw_log (change_delivery i f w) = pw_log w" "pw_events (change_delivery i f w) = pw_events w"
  "pw_tokens (change_delivery i f w) = pw_tokens w"
  by (simp_all add: change_delivery_def)

lemma change_delivery_other:
  assumes "j \<noteq> i" and "\<And>d. dl_id (f d) = dl_id d"
  shows "same_for i w (change_delivery j f w)"
  using find_map_other [OF assms] by (simp add: same_for_def find_delivery_def change_delivery_def)

lemma change_delivery_same:
  assumes "\<And>d. dl_id (f d) = dl_id d"
  shows "find_delivery i (change_delivery i f w) = map_option f (find_delivery i w)"
  using find_map_same [OF assms] by (simp add: find_delivery_def change_delivery_def)

lemma find_delivery_fields [simp]:
  "find_delivery i (w\<lparr>pw_tokens := ts\<rparr>) = find_delivery i w" "find_delivery i (w\<lparr>pw_log := l\<rparr>) = find_delivery i w"
  "find_delivery i (w\<lparr>pw_events := es\<rparr>) = find_delivery i w"
  by (simp_all add: find_delivery_def)

lemma attempt_other:
  assumes "j \<noteq> i"
  shows "same_for i w (snd (attempt sv j t p w))"
proof -
  have c: "find_delivery i (change_delivery j f v) = find_delivery i v" if "\<And>d. dl_id (f d) = dl_id d" for f v
    using change_delivery_other [OF assms that] by (simp add: same_for_def)
  show ?thesis using assms by (simp add: attempt_def Let_def same_for_def c)
qed

lemma attempt_loop_other:
  assumes "j \<noteq> i"
  shows "same_for i w (snd (attempt_loop sv j t p m ks r w))"
proof (induction ks arbitrary: r w)
  case (Cons k ks)
  obtain r1 w1 where a: "attempt sv j t p w = (r1, w1)" by (cases "attempt sv j t p w")
  have "same_for i w w1" using attempt_other [OF assms, of w sv t p] a by simp
  with Cons.IH [of w1 r1] same_for_trans show ?case by (simp add: a)
qed simp

lemma deliver_other:
  assumes "j \<noteq> i"
  shows "same_for i w (snd (deliver_single_delivery sv j m w))"
  using assms attempt_loop_other [OF assms]
  by (auto simp: deliver_single_delivery_def intro!: change_delivery_other split: option.splits)

text \<open>A settled delivery: its message was accepted, or its token was refused for good.\<close>

definition settled :: "uuid \<Rightarrow> push_world \<Rightarrow> bool" where
  "settled i w \<longleftrightarrow> (\<exists>d. find_delivery i w = Some d \<and> (dl_status d = SENT \<or> dl_status d = INVALID_TOKEN))"

lemma settled_same: "settled i w \<Longrightarrow> same_for i w w' \<Longrightarrow> settled i w'"
  by (simp add: settled_def same_for_def)

lemma deliver_settled:
  assumes "settled i w"
  shows "same_for i w (snd (deliver_single_delivery sv j m w))"
proof (cases "j = i")
  case True
  with assms show ?thesis by (auto simp: settled_def deliver_single_delivery_def)
qed (rule deliver_other)

lemma deliver_all_settled: "settled i w \<Longrightarrow> same_for i w (snd (deliver_all sv m js w))"
proof (induction js arbitrary: w)
  case (Cons j js)
  obtain r w1 where d: "deliver_single_delivery sv j m w = (r, w1)" by (cases "deliver_single_delivery sv j m w")
  obtain rs w2 where ds: "deliver_all sv m js w1 = (rs, w2)" by (cases "deliver_all sv m js w1")
  have "same_for i w w1" using deliver_settled [OF Cons.prems, of sv j m] d by simp
  moreover have "same_for i w1 w2"
    using Cons.IH [OF settled_same [OF Cons.prems \<open>same_for i w w1\<close>]] ds by simp
  ultimately show ?case by (simp add: d ds same_for_trans)
qed simp

lemma materialize_step_found:
  assumes "find_delivery i w \<noteq> None"
  shows "same_for i w (materialize_step sv e t w)"
  using assms by (auto simp: materialize_step_def same_for_def find_delivery_def find_append)

lemma fold_same_for:
  assumes "find_delivery i w \<noteq> None" and "\<And>x w. find_delivery i w \<noteq> None \<Longrightarrow> same_for i w (f x w)"
  shows "same_for i w (fold f xs w)"
  using assms(1)
proof (induction xs arbitrary: w)
  case (Cons x xs)
  have "same_for i w (f x w)" by (rule assms(2) [OF Cons.prems])
  moreover have "same_for i (f x w) (fold f xs (f x w))"
    using Cons.prems calculation by (intro Cons.IH) (simp add: same_for_def)
  ultimately show ?case by (simp add: same_for_trans)
qed simp

lemma materialize_found:
  assumes "find_delivery i w \<noteq> None"
  shows "same_for i w (materialize_event_deliveries sv e w)"
  using fold_same_for [OF assms materialize_step_found]
  by (auto simp: materialize_event_deliveries_def split: option.splits)

lemma settled_found: "settled i w \<Longrightarrow> find_delivery i w \<noteq> None"
  by (auto simp: settled_def)

lemma deliver_event_settled:
  assumes "settled i w"
  shows "same_for i w (snd (deliver_event sv ev m w))"
proof -
  have m: "same_for i w (materialize_event_deliveries sv (pe_id ev) w)"
    by (rule materialize_found [OF settled_found [OF assms]])
  show ?thesis
    using m deliver_all_settled [OF settled_same [OF assms m]] same_for_trans
    by (auto simp: deliver_event_def Let_def)
qed

lemma drain_settled:
  assumes "settled i w"
  shows "same_for i w (snd (drain_outbox sv b m stale now w))"
proof -
  let ?w1 = "fold (\<lambda>ev. materialize_event_deliveries sv (pe_id ev)) (take b (unmaterialized w)) w"
  have m: "same_for i w ?w1"
    by (rule fold_same_for [OF settled_found [OF assms] materialize_found])
  show ?thesis
    using same_for_trans [OF m deliver_all_settled [OF settled_same [OF assms m], of sv m "claim b (now - stale) ?w1"]]
    by (simp add: drain_outbox_def Let_def split_def)
qed

section \<open>The module over time\<close>

inductive push_step :: "push_service \<Rightarrow> push_world \<Rightarrow> push_world \<Rightarrow> bool" for sv where
  registers: "register_token user device token platform new_id now w = Inr w' \<Longrightarrow> push_step sv w w'"
| unregisters: "push_step sv w (unregister_token user device now w)"
| dispatches: "push_step sv w (snd (dispatch_alert_event sv user e alert_type now w))"
| delivers: "push_step sv w (snd (deliver_single_delivery sv i m w))"
| drains: "push_step sv w (snd (drain_outbox sv b m stale now w))"

inductive push_run :: "push_service \<Rightarrow> push_world \<Rightarrow> push_world \<Rightarrow> bool" for sv where
  stop: "push_run sv w w"
| more: "push_run sv w w1 \<Longrightarrow> push_step sv w1 w2 \<Longrightarrow> push_run sv w w2"

lemma step_settled:
  assumes "push_step sv w w'" and "settled i w"
  shows "same_for i w w'"
  using assms(1)
proof (cases rule: push_step.cases)
  case (registers user device token platform new_id now)
  then show ?thesis by (auto simp: register_token_def set_tokens_def same_for_def split: option.splits if_splits)
next
  case (unregisters user device now)
  then show ?thesis by (simp add: unregister_token_def same_for_def)
next
  case (dispatches user e alert_type now)
  have "settled i (w\<lparr>pw_events := es\<rparr>)" for es using assms(2) by (simp add: settled_def)
  then have "same_for i (w\<lparr>pw_events := es\<rparr>) (snd (deliver_event sv ev 3 (w\<lparr>pw_events := es\<rparr>)))" for ev es
    by (rule deliver_event_settled)
  then show ?thesis using dispatches by (simp add: dispatch_alert_event_def Let_def same_for_def)
next
  case (delivers j m)
  then show ?thesis using deliver_settled [OF assms(2)] by simp
next
  case (drains b m stale now)
  then show ?thesis using drain_settled [OF assms(2)] by simp
qed

lemma run_settled:
  assumes "push_run sv w w'" and "settled i w"
  shows "same_for i w w'"
  using assms
proof (induction rule: push_run.induct)
  case (more w w1 w2)
  then show ?case using step_settled [OF more.hyps(2)] settled_same same_for_trans by blast
qed simp

text \<open>
  C8. What is settled stays settled: once a notification was accepted by the provider, or its token was
  found invalid, no later registration, dispatch, delivery or drain of the outbox changes the delivery
  or sends another message for it.
\<close>

lemma settled_delivery_never_resent:
  assumes "push_run sv w w'" and "find_delivery i w = Some d" and "dl_status d = SENT \<or> dl_status d = INVALID_TOKEN"
  shows "find_delivery i w' = Some d \<and> filter (\<lambda>m. fst m = i) (pw_log w') = filter (\<lambda>m. fst m = i) (pw_log w)"
  using run_settled [OF assms(1), of i] assms(2,3) by (auto simp: settled_def same_for_def)

section \<open>Accounting\<close>

lemma attempt_effect:
  assumes "find_delivery i w = Some d" and "attempt sv i t p w = (r, w')"
  shows "pw_log w' = pw_log w @ [(i, pt_token t, p)] \<and>
    (\<exists>d'. find_delivery i w' = Some d' \<and> dl_attempts d' = dl_attempts d + 1 \<and> dl_status d' = answer_status r)"
proof -
  have w': "w' = snd (attempt sv i t p w)" and r: "r = fst (attempt sv i t p w)" using assms(2) by simp_all
  show ?thesis
    using assms(1) unfolding w' r by (simp add: attempt_def Let_def change_delivery_same)
qed

lemma attempt_loop_effect:
  assumes "find_delivery i w = Some d" and "ks \<noteq> []" and "attempt_loop sv i t p m ks r0 w = (r, w')"
  shows "\<exists>n d'. 0 < n \<and> n \<le> length ks \<and> pw_log w' = pw_log w @ replicate n (i, pt_token t, p) \<and>
    find_delivery i w' = Some d' \<and> dl_attempts d' = dl_attempts d + int n \<and> dl_status d' = answer_status r"
  using assms
proof (induction ks arbitrary: w d r0)
  case (Cons k ks)
  obtain r1 w1 where a: "attempt sv i t p w = (r1, w1)" by (cases "attempt sv i t p w")
  from attempt_effect [OF Cons.prems(1) a] obtain d1 where d1: "pw_log w1 = pw_log w @ [(i, pt_token t, p)]"
    "find_delivery i w1 = Some d1" "dl_attempts d1 = dl_attempts d + 1" "dl_status d1 = answer_status r1" by auto
  show ?case
  proof (cases "pr_success r1 \<or> \<not> pr_retryable r1 \<or> int k = m \<or> ks = []")
    case True
    with Cons.prems(3) a have "r = r1" "w' = w1" by (auto split: if_splits)
    with d1 show ?thesis by (intro exI [of _ 1] exI [of _ d1]) simp
  next
    case False
    with Cons.prems(3) a have "attempt_loop sv i t p m ks r1 w1 = (r, w')" by simp
    from Cons.IH [OF d1(2) _ this] False obtain n d' where n: "0 < n" "n \<le> length ks"
      "pw_log w' = pw_log w1 @ replicate n (i, pt_token t, p)" "find_delivery i w' = Some d'"
      "dl_attempts d' = dl_attempts d1 + int n" "dl_status d' = answer_status r" by auto
    with d1 show ?thesis by (intro exI [of _ "Suc n"] exI [of _ d']) (simp add: replicate_append_same [symmetric])
  qed
qed simp

lemma delivery_accounts:
  assumes "find_delivery i w = Some d" and "dl_status d \<noteq> SENT" and "dl_status d \<noteq> INVALID_TOKEN"
    and "find (\<lambda>e. pe_id e = dl_event d) (pw_events w) = Some ev" and "find (\<lambda>t. pt_id t = dl_token d) (pw_tokens w) = Some t"
    and "pv_configured (ps_provider sv)" and "deliver_single_delivery sv i max_retries w = (r, w')"
  shows "\<exists>n d'. 0 < n \<and> n \<le> retry_budget max_retries \<and>
    pw_log w' = pw_log w @ replicate n (i, pt_token t, event_payload ev) \<and>
    find_delivery i w' = Some d' \<and> dl_attempts d' = dl_attempts d + int n \<and> dl_status d' = answer_status r"
proof -
  have run: "attempt_loop sv i t (event_payload ev) max_retries [0..<retry_budget max_retries]
      (failed_result sv (Some ''NOT_ATTEMPTED'') 1) w = (r, w')"
    using assms by (simp add: deliver_single_delivery_def)
  have "[0..<retry_budget max_retries] \<noteq> []" by (simp add: retry_budget_def)
  from attempt_loop_effect [OF assms(1) this run] show ?thesis by simp
qed

text \<open>
  Every message is accounted for: delivering an unsettled notification through a configured provider
  sends it at least once and at most one time more than the retry limit (which is kept between 0 and 5),
  the row counts exactly the messages sent, ends in the status of the last answer, and no other
  delivery changes.
\<close>

lemma delivery_accounts_for_messages:
  assumes "find_delivery i w = Some d" and "dl_status d \<noteq> SENT" and "dl_status d \<noteq> INVALID_TOKEN"
    and "find (\<lambda>e. pe_id e = dl_event d) (pw_events w) = Some ev" and "find (\<lambda>t. pt_id t = dl_token d) (pw_tokens w) = Some t"
    and "pv_configured (ps_provider sv)" and "deliver_single_delivery sv i max_retries w = (r, w')"
  shows "\<exists>n d'. 0 < n \<and> int n \<le> min (max max_retries 0) 5 + 1 \<and>
    pw_log w' = pw_log w @ replicate n (i, pt_token t, event_payload ev) \<and>
    find_delivery i w' = Some d' \<and> dl_attempts d' = dl_attempts d + int n \<and> dl_status d' = answer_status r \<and>
    (\<forall>j. j \<noteq> i \<longrightarrow> same_for j w w')"
proof -
  have "same_for j w w'" if "j \<noteq> i" for j
    using deliver_other [of i j w sv max_retries] that assms(7) by simp
  with delivery_accounts [OF assms] show ?thesis by (fastforce simp: retry_budget_def)
qed

section \<open>Progress of the outbox\<close>

text \<open>A delivery that has been tried, with an answer on record.\<close>

definition answered :: "uuid \<Rightarrow> push_world \<Rightarrow> bool" where
  "answered i w \<longleftrightarrow> (\<exists>d. find_delivery i w = Some d \<and> dl_status d \<in> {SENT, INVALID_TOKEN, FAILED})"

lemma answer_status_cases: "answer_status r \<in> {SENT, INVALID_TOKEN, FAILED}"
  by (simp add: answer_status_def)

lemma deliver_answers:
  assumes "find_delivery i w = Some d" and "pv_configured (ps_provider sv)"
  shows "answered i (snd (deliver_single_delivery sv i m w))"
proof -
  obtain r w' where run: "deliver_single_delivery sv i m w = (r, w')" by (cases "deliver_single_delivery sv i m w")
  show ?thesis
  proof (cases "dl_status d = SENT \<or> dl_status d = INVALID_TOKEN")
    case True
    with assms(1) show ?thesis by (auto simp: deliver_single_delivery_def answered_def)
  next
    case False
    show ?thesis
    proof (cases "find (\<lambda>e. pe_id e = dl_event d) (pw_events w) = None \<or> find (\<lambda>t. pt_id t = dl_token d) (pw_tokens w) = None")
      case True
      with False assms(1) show ?thesis
        by (auto simp: deliver_single_delivery_def answered_def change_delivery_same split: option.splits)
    next
      case False
      with \<open>\<not> (dl_status d = SENT \<or> dl_status d = INVALID_TOKEN)\<close> delivery_accounts [OF assms(1) _ _ _ _ assms(2) run]
      obtain d' where "find_delivery i w' = Some d'" "dl_status d' = answer_status r" by auto
      then show ?thesis using answer_status_cases [of r] by (simp add: run answered_def)
    qed
  qed
qed

lemma deliver_keeps_answered:
  assumes "answered i w" and "pv_configured (ps_provider sv)"
  shows "answered i (snd (deliver_single_delivery sv j m w))"
proof (cases "j = i")
  case True
  with assms show ?thesis using deliver_answers by (auto simp: answered_def)
next
  case False
  with assms(1) deliver_other [OF False, of w sv m] show ?thesis by (simp add: answered_def same_for_def)
qed

lemma deliver_all_answers:
  assumes "pv_configured (ps_provider sv)" and "i \<in> set js \<and> find_delivery i w \<noteq> None \<or> answered i w"
  shows "answered i (snd (deliver_all sv m js w))"
  using assms(2)
proof (induction js arbitrary: w)
  case (Cons j js)
  obtain r w1 where d: "deliver_single_delivery sv j m w = (r, w1)" by (cases "deliver_single_delivery sv j m w")
  have "i \<in> set js \<and> find_delivery i w1 \<noteq> None \<or> answered i w1"
  proof (cases "i = j \<or> answered i w")
    case True
    then show ?thesis
      using Cons.prems deliver_answers [OF _ assms(1), of i w _ m] deliver_keeps_answered [OF _ assms(1), of i w j m] d by auto
  next
    case False
    with Cons.prems deliver_other [of j i w sv m] d show ?thesis by (auto simp: same_for_def)
  qed
  from Cons.IH [OF this] show ?case by (simp add: d split_def Let_def)
qed simp

lemma deliver_all_length: "length (fst (deliver_all sv m js w)) = length js"
  by (induction js arbitrary: w) (simp_all add: split_def Let_def)

text \<open>The world a drain claims its deliveries in.\<close>

definition materialized :: "push_service \<Rightarrow> nat \<Rightarrow> push_world \<Rightarrow> push_world" where
  "materialized sv b w = fold (\<lambda>ev. materialize_event_deliveries sv (pe_id ev)) (take b (unmaterialized w)) w"

lemma drain_run:
  "pv_configured (ps_provider sv) \<Longrightarrow> drain_outbox sv b m stale now w =
    (length (claim b (now - stale) (materialized sv b w)),
     snd (deliver_all sv m (claim b (now - stale) (materialized sv b w)) (materialized sv b w)))"
  by (simp add: drain_outbox_def materialized_def Let_def split_def deliver_all_length)

text \<open>
  C24. A drain makes progress: it processes every delivery it claims, the pending and the stale ones, and
  each of them ends with an answer on record (sent, invalid token or failed), so none of them is
  pending or in flight afterwards and the next drain has fewer to do unless new ones appear.
\<close>

lemma drain_answers_claims:
  assumes "pv_configured (ps_provider sv)" and "drain_outbox sv b max_retries stale now w = (n, w')"
  shows "n = length (claim b (now - stale) (materialized sv b w)) \<and>
    (\<forall>i \<in> set (claim b (now - stale) (materialized sv b w)). answered i w')"
proof -
  have "find_delivery i (materialized sv b w) \<noteq> None" if "i \<in> set (claim b (now - stale) (materialized sv b w))" for i
  proof -
    have "i \<in> dl_id ` set (pw_deliveries (materialized sv b w))"
      using that by (auto simp: claim_def dest!: in_set_takeD)
    then show ?thesis by (auto simp: find_delivery_def find_None_iff)
  qed
  then show ?thesis
    using assms(2) deliver_all_answers [OF assms(1), of _ "claim b (now - stale) (materialized sv b w)"]
    unfolding drain_run [OF assms(1)] by auto
qed

section \<open>Starvation\<close>

text \<open>What delivering never changes: the events, the events that have deliveries, and who has no active token.\<close>

definition same_queue :: "push_world \<Rightarrow> push_world \<Rightarrow> bool" where
  "same_queue w w' \<longleftrightarrow> pw_events w' = pw_events w \<and> map dl_event (pw_deliveries w') = map dl_event (pw_deliveries w) \<and>
     (\<forall>u. active_tokens u w = [] \<longrightarrow> active_tokens u w' = [])"

lemma same_queue_refl [simp]: "same_queue w w"
  by (simp add: same_queue_def)

lemma same_queue_trans: "same_queue w w' \<Longrightarrow> same_queue w' w'' \<Longrightarrow> same_queue w w''"
  by (simp add: same_queue_def)

lemma change_delivery_queue:
  assumes "\<And>d. dl_event (f d) = dl_event d"
  shows "same_queue w (change_delivery i f w)"
proof -
  have "map dl_event (map (\<lambda>d. if dl_id d = i then f d else d) ds) = map dl_event ds" for ds
    using assms by (induction ds) auto
  then show ?thesis by (simp add: same_queue_def active_tokens_def change_delivery_def)
qed

lemma attempt_queue: "same_queue w (snd (attempt sv i t p w))"
proof -
  have c: "map dl_event (pw_deliveries (change_delivery j f v)) = map dl_event (pw_deliveries v)"
    if "\<And>d. dl_event (f d) = dl_event d" for j f v
    using change_delivery_queue [of f v j] that by (simp add: same_queue_def)
  have dead: "filter (\<lambda>t. pt_user t = u \<and> pt_active t) (map (\<lambda>u. if pt_id u = k then u\<lparr>pt_active := False\<rparr> else u) ts) = []"
    if "filter (\<lambda>t. pt_user t = u \<and> pt_active t) ts = []" for u k ts
    using that by (induction ts) (auto split: if_splits)
  have "pw_deliveries (w'\<lparr>pw_log := l\<rparr>) = pw_deliveries w'" "pw_deliveries (w'\<lparr>pw_tokens := ts\<rparr>) = pw_deliveries w'" for w' l ts
    by simp_all
  then show ?thesis
    by (simp add: attempt_def Let_def same_queue_def active_tokens_def c dead)
qed

lemma attempt_loop_queue: "same_queue w (snd (attempt_loop sv i t p m ks r w))"
proof (induction ks arbitrary: r w)
  case (Cons k ks)
  obtain r1 w1 where a: "attempt sv i t p w = (r1, w1)" by (cases "attempt sv i t p w")
  have "same_queue w w1" using attempt_queue [of w sv i t p] a by simp
  with Cons.IH [of w1 r1] same_queue_trans show ?case by (simp add: a)
qed simp

lemma deliver_queue: "same_queue w (snd (deliver_single_delivery sv i m w))"
  by (simp add: deliver_single_delivery_def attempt_loop_queue change_delivery_queue split: option.split)

lemma deliver_all_queue: "same_queue w (snd (deliver_all sv m js w))"
proof (induction js arbitrary: w)
  case (Cons j js)
  have "same_queue w (snd (deliver_single_delivery sv j m w))" by (rule deliver_queue)
  with Cons.IH [of "snd (deliver_single_delivery sv j m w)"] same_queue_trans show ?case by (simp add: split_def Let_def)
qed simp

text \<open>The oldest \<open>b\<close> events without a delivery all belong to users without an active token.\<close>

definition blocked :: "nat \<Rightarrow> push_world \<Rightarrow> bool" where
  "blocked b w \<longleftrightarrow> (\<forall>ev \<in> set (take b (unmaterialized w)). \<forall>u. pe_user ev = Some u \<longrightarrow> active_tokens u w = [])"

lemma unmaterialized_queue: "same_queue w w' \<Longrightarrow> unmaterialized w' = unmaterialized w"
proof -
  assume q: "same_queue w w'"
  have none: "(\<forall>d \<in> set ds. dl_event d \<noteq> e) \<longleftrightarrow> e \<notin> set (map dl_event ds)" for ds e by auto
  show "unmaterialized w' = unmaterialized w"
    using q unfolding unmaterialized_def none same_queue_def by simp
qed

lemma materialize_nothing:
  assumes "\<forall>ev' \<in> set (pw_events w). \<forall>u. pe_id ev' = e \<longrightarrow> pe_user ev' = Some u \<longrightarrow> active_tokens u w = []"
  shows "materialize_event_deliveries sv e w = w"
proof (cases "find (\<lambda>ev. pe_id ev = e) (pw_events w)")
  case (Some ev)
  with assms find_mem [OF Some] show ?thesis
    by (cases "pe_user ev") (auto simp: materialize_event_deliveries_def)
qed (simp add: materialize_event_deliveries_def)

lemma fold_unchanged: "(\<And>x. x \<in> set xs \<Longrightarrow> f x w = w) \<Longrightarrow> fold f xs w = w"
  by (induction xs) auto

lemma blocked_materialized:
  assumes "blocked b w" and "distinct (map pe_id (pw_events w))"
  shows "materialized sv b w = w"
  unfolding materialized_def
proof (rule fold_unchanged)
  fix ev assume ev: "ev \<in> set (take b (unmaterialized w))"
  then have mem: "ev \<in> set (pw_events w)" by (auto simp: unmaterialized_def dest: in_set_takeD)
  have "ev' = ev" if "ev' \<in> set (pw_events w)" "pe_id ev' = pe_id ev" for ev'
    using assms(2) mem that by (auto simp: distinct_map inj_on_def)
  then show "materialize_event_deliveries sv (pe_id ev) w = w"
    using assms(1) ev by (intro materialize_nothing) (auto simp: blocked_def)
qed

lemma drain_blocked:
  assumes "blocked b w" and "distinct (map pe_id (pw_events w))"
  shows "same_queue w (snd (drain_outbox sv b m stale now w))"
proof (cases "pv_configured (ps_provider sv)")
  case True
  then show ?thesis using deliver_all_queue by (simp add: drain_run blocked_materialized [OF assms])
qed (simp add: drain_outbox_def)

lemma blocked_queue:
  assumes "blocked b w" and "same_queue w w'"
  shows "blocked b w'"
  using assms unmaterialized_queue [OF assms(2)] by (auto simp: blocked_def same_queue_def)

text \<open>
  The outbox can starve: when the oldest events without a delivery, one batch of them, belong to
  users without an active push token, they are selected again by every drain and yield nothing, so
  however often the outbox is drained no other waiting event ever gets a delivery, whatever tokens
  its user has.
\<close>

lemma outbox_starves:
  assumes "blocked b w" and "distinct (map pe_id (pw_events w))" and "ev \<in> set (unmaterialized w)"
    and "w' = fold (\<lambda>now w. snd (drain_outbox sv b m stale now w)) nows w"
  shows "\<forall>d \<in> set (pw_deliveries w'). dl_event d \<noteq> pe_id ev"
proof -
  have "same_queue w (fold (\<lambda>now w. snd (drain_outbox sv b m stale now w)) nows w)" for nows
    using assms(1,2)
  proof (induction nows arbitrary: w)
    case (Cons now nows)
    let ?w1 = "snd (drain_outbox sv b m stale now w)"
    have q: "same_queue w ?w1" by (rule drain_blocked [OF Cons.prems])
    moreover have "distinct (map pe_id (pw_events ?w1))" using q Cons.prems(2) by (simp add: same_queue_def)
    ultimately show ?case using Cons.IH [OF blocked_queue [OF Cons.prems(1) q]] same_queue_trans by simp
  qed simp
  with assms(4) have "unmaterialized w' = unmaterialized w" by (simp add: unmaterialized_queue)
  with assms(3) have "ev \<in> set (unmaterialized w')" by simp
  then show ?thesis by (simp add: unmaterialized_def)
qed

section \<open>Witnesses\<close>

text \<open>A service over the fake provider; a user with an active token and one without; an event of each.\<close>

definition fake_service :: push_service where
  "fake_service = \<lparr>ps_provider = fake_provider (\<lambda>n. ''m''), ps_clock = int, ps_new_id = (\<lambda>n. 1000 + n), ps_title = ''t'', ps_body = ''b''\<rparr>"

definition phone :: push_token where
  "phone = \<lparr>pt_id = 10, pt_user = 1, pt_device = ''d'', pt_token = ''tok'', pt_platform = ''ANDROID'', pt_active = True, pt_updated = 0\<rparr>"

definition price_event :: "uuid \<Rightarrow> uuid \<Rightarrow> instant \<Rightarrow> push_event" where
  "price_event i user created = \<lparr>pe_id = i, pe_user = Some user, pe_type = ''PRICE'', pe_title = ''t'', pe_body = ''b'', pe_created = created\<rparr>"

definition first_delivery :: "delivery_status \<Rightarrow> delivery" where
  "first_delivery st = \<lparr>dl_id = 20, dl_event = 100, dl_token = 10, dl_status = st, dl_attempts = 0, dl_last = None,
     dl_message = None, dl_error = None\<rparr>"

definition one_delivery :: "delivery_status \<Rightarrow> push_world" where
  "one_delivery st = \<lparr>pw_devices = [], pw_tokens = [phone], pw_events = [price_event 100 1 0],
     pw_deliveries = [first_delivery st], pw_log = []\<rparr>"

definition waiting_world :: push_world where
  "waiting_world = \<lparr>pw_devices = [], pw_tokens = [phone], pw_events = [price_event 100 2 0, price_event 101 1 5],
     pw_deliveries = [], pw_log = []\<rparr>"

lemma fake_configured: "pv_configured (ps_provider fake_service)"
  by (simp add: fake_service_def fake_provider_def)

lemma settled_delivery_never_resent_witness:
  "\<exists>w'. push_run fake_service (one_delivery SENT) w' \<and> w' = snd (drain_outbox fake_service 50 3 300 7 (one_delivery SENT)) \<and>
     find_delivery 20 w' = Some (first_delivery SENT) \<and> filter (\<lambda>m. fst m = 20) (pw_log w') = []"
proof -
  let ?w' = "snd (drain_outbox fake_service 50 3 300 7 (one_delivery SENT))"
  have run: "push_run fake_service (one_delivery SENT) ?w'" by (rule push_run.more [OF push_run.stop drains])
  have "find_delivery 20 ?w' = Some (first_delivery SENT) \<and>
      filter (\<lambda>m. fst m = 20) (pw_log ?w') = filter (\<lambda>m. fst m = 20) (pw_log (one_delivery SENT))"
    by (rule settled_delivery_never_resent [OF run]) (simp_all add: one_delivery_def find_delivery_def first_delivery_def)
  with run show ?thesis by (auto simp: one_delivery_def)
qed

lemma delivery_accounts_for_messages_witness:
  "\<exists>r w' n. deliver_single_delivery fake_service 20 3 (one_delivery PENDING) = (r, w') \<and> 0 < n \<and> int n \<le> 4 \<and>
     pw_log w' = replicate n (20, ''tok'', event_payload (price_event 100 1 0))"
proof -
  obtain r w' where run: "deliver_single_delivery fake_service 20 3 (one_delivery PENDING) = (r, w')"
    by (cases "deliver_single_delivery fake_service 20 3 (one_delivery PENDING)")
  have "find_delivery 20 (one_delivery PENDING) = Some (first_delivery PENDING)"
    by (simp add: one_delivery_def find_delivery_def first_delivery_def)
  from delivery_accounts_for_messages [OF this _ _ _ _ fake_configured run, of "price_event 100 1 0" phone] run
  show ?thesis by (auto simp: first_delivery_def one_delivery_def price_event_def phone_def)
qed

lemma drain_answers_claims_witness:
  "\<exists>n w'. drain_outbox fake_service 50 3 300 7 (one_delivery PENDING) = (n, w') \<and> n = 1 \<and> answered 20 w'"
proof -
  obtain n w' where run: "drain_outbox fake_service 50 3 300 7 (one_delivery PENDING) = (n, w')"
    by (cases "drain_outbox fake_service 50 3 300 7 (one_delivery PENDING)")
  have "materialized fake_service 50 (one_delivery PENDING) = one_delivery PENDING"
    by (simp add: materialized_def unmaterialized_def one_delivery_def price_event_def first_delivery_def)
  moreover have "claim 50 (7 - 300) (one_delivery PENDING) = [20]"
    by (simp add: claim_def one_delivery_def eligible_def first_delivery_def)
  ultimately show ?thesis using drain_answers_claims [OF fake_configured run] run by simp
qed

lemma outbox_starves_witness:
  "price_event 101 1 5 \<in> set (unmaterialized waiting_world) \<and> active_tokens 1 waiting_world = [phone] \<and>
   (\<forall>d \<in> set (pw_deliveries (fold (\<lambda>now w. snd (drain_outbox fake_service 1 3 300 now w)) [10, 20, 30] waiting_world)).
      dl_event d \<noteq> pe_id (price_event 101 1 5))"
proof -
  have u: "unmaterialized waiting_world = [price_event 100 2 0, price_event 101 1 5]"
    by (simp add: unmaterialized_def waiting_world_def price_event_def)
  then have "blocked 1 waiting_world" by (simp add: blocked_def waiting_world_def active_tokens_def phone_def price_event_def)
  moreover have "distinct (map pe_id (pw_events waiting_world))" by (simp add: waiting_world_def price_event_def)
  moreover have "price_event 101 1 5 \<in> set (unmaterialized waiting_world)" by (simp add: u)
  ultimately have "\<forall>d \<in> set (pw_deliveries (fold (\<lambda>now w. snd (drain_outbox fake_service 1 3 300 now w)) [10, 20, 30] waiting_world)).
      dl_event d \<noteq> pe_id (price_event 101 1 5)"
    by (rule outbox_starves) (rule refl)
  moreover have "active_tokens 1 waiting_world = [phone]" by (simp add: active_tokens_def waiting_world_def phone_def)
  ultimately show ?thesis by (simp add: u)
qed

end
