(* ===== verification/ScreenerAst.thy ===== *)
theory ScreenerAst
  imports Json PyText
begin

text \<open>
  Screener expressions (\<open>app/domain/screener.py\<close>, \<open>app/services/screener_ast.py\<close>) and the repository of
  saved screeners (\<open>app/repositories/sql_screener.py\<close>): the registry of fields, validation, reading
  from and writing to JSON. The labels and units of the registry are display texts and left out.
\<close>

section \<open>Expressions\<close>

datatype screener_operator =
  GT | GTE | LT | LTE | EQ | NE | BETWEEN | IN | NOT_IN | IS_AVAILABLE | IS_UNAVAILABLE

fun operator_value :: "screener_operator \<Rightarrow> string" where
  "operator_value GT = ''GT''"
| "operator_value GTE = ''GTE''"
| "operator_value LT = ''LT''"
| "operator_value LTE = ''LTE''"
| "operator_value EQ = ''EQ''"
| "operator_value NE = ''NE''"
| "operator_value BETWEEN = ''BETWEEN''"
| "operator_value IN = ''IN''"
| "operator_value NOT_IN = ''NOT_IN''"
| "operator_value IS_AVAILABLE = ''IS_AVAILABLE''"
| "operator_value IS_UNAVAILABLE = ''IS_UNAVAILABLE''"

definition all_operators :: "screener_operator list" where
  "all_operators = [GT, GTE, LT, LTE, EQ, NE, BETWEEN, IN, NOT_IN, IS_AVAILABLE, IS_UNAVAILABLE]"

text \<open>\<open>ScreenerOperator(value)\<close>\<close>

definition operator_of :: "json \<Rightarrow> screener_operator result" where
  "operator_of j = (case find (\<lambda>p. j = JStr (operator_value p)) all_operators of
     None \<Rightarrow> Inl ValueError | Some p \<Rightarrow> Inr p)"

datatype filter_category = PRICE_RETURN | TECHNICAL | INSTITUTIONAL | CREDIT | TAXONOMY | INDUSTRY_STRENGTH

datatype field_type = NUMERIC | TEXT | BOOLEAN

record field_meta =
  fm_category :: filter_category
  fm_value_type :: field_type
  fm_allowed :: "screener_operator list"

definition field_meta_of :: "filter_category \<Rightarrow> field_type \<Rightarrow> screener_operator list \<Rightarrow> field_meta" where
  "field_meta_of c t ps = \<lparr>fm_category = c, fm_value_type = t, fm_allowed = ps\<rparr>"

definition registry :: "(string \<times> field_meta) list" where
  "registry = [
     (''close'', field_meta_of PRICE_RETURN NUMERIC [GT, GTE, LT, LTE, BETWEEN, IS_AVAILABLE]),
     (''return_1d'', field_meta_of PRICE_RETURN NUMERIC [GT, GTE, LT, LTE, BETWEEN]),
     (''return_5d'', field_meta_of PRICE_RETURN NUMERIC [GT, GTE, LT, LTE, BETWEEN]),
     (''rsi14'', field_meta_of TECHNICAL NUMERIC [GT, GTE, LT, LTE, BETWEEN]),
     (''close_vs_ma20'', field_meta_of TECHNICAL NUMERIC [GT, GTE, LT, LTE]),
     (''close_vs_ma60'', field_meta_of TECHNICAL NUMERIC [GT, GTE, LT, LTE]),
     (''close_vs_ma240'', field_meta_of TECHNICAL NUMERIC [GT, GTE, LT, LTE]),
     (''foreign_5d_net'', field_meta_of INSTITUTIONAL NUMERIC [GT, GTE, LT, LTE]),
     (''trust_5d_net'', field_meta_of INSTITUTIONAL NUMERIC [GT, GTE, LT, LTE]),
     (''margin_balance_change'', field_meta_of CREDIT NUMERIC [GT, GTE, LT, LTE]),
     (''industry_name'', field_meta_of TAXONOMY TEXT [EQ, NE, IN, NOT_IN]),
     (''theme_name'', field_meta_of TAXONOMY TEXT [EQ, NE, IN, NOT_IN]),
     (''industry_strength_score'', field_meta_of INDUSTRY_STRENGTH NUMERIC [GT, GTE, LT, LTE, BETWEEN])]"

text \<open>The dataclass \<open>ScreenerExpression\<close>: every node has all attributes.\<close>

datatype expression = Expression
  (ex_type: string) (ex_field: json) (ex_operator: "screener_operator option") (ex_value: json) (ex_value2: json)
  (ex_children: "expression list")

definition condition :: "json \<Rightarrow> screener_operator option \<Rightarrow> json \<Rightarrow> json \<Rightarrow> expression" where
  "condition field operator v v2 = Expression ''CONDITION'' field operator v v2 []"

definition group_node :: "string \<Rightarrow> expression list \<Rightarrow> expression" where
  "group_node t children = Expression t JNull None JNull JNull children"

section \<open>Validation\<close>

abbreviation invalid :: "string \<Rightarrow> error" where
  "invalid code \<equiv> AppError code 400"

text \<open>\<open>SCREENER_FIELDS_REGISTRY[expr.field]\<close> behind its guard; lists and dictionaries cannot be hashed.\<close>

definition meta_of :: "json \<Rightarrow> field_meta result" where
  "meta_of field =
     (if \<not> truthy field then Inl (invalid ''INVALID_AST_FIELD'')
      else case field of
        JStr s \<Rightarrow> (case map_of registry s of None \<Rightarrow> Inl (invalid ''INVALID_AST_FIELD'') | Some m \<Rightarrow> Inr m)
      | JList _ \<Rightarrow> Inl TypeError
      | JObj _ \<Rightarrow> Inl TypeError
      | _ \<Rightarrow> Inl (invalid ''INVALID_AST_FIELD''))"

fun is_list :: "json \<Rightarrow> bool" where
  "is_list (JList xs) = True"
| "is_list _ = False"

definition validate_value :: "screener_operator \<Rightarrow> json \<Rightarrow> json \<Rightarrow> unit result" where
  "validate_value operator v v2 =
     (if operator = IS_AVAILABLE \<or> operator = IS_UNAVAILABLE then Inr ()
      else if operator = BETWEEN
        then (if v = JNull \<or> v2 = JNull then Inl (invalid ''INVALID_AST_VALUE'') else Inr ())
      else if operator = IN \<or> operator = NOT_IN
        then (if is_list v then Inr () else Inl (invalid ''INVALID_AST_VALUE''))
      else if v = JNull then Inl (invalid ''INVALID_AST_VALUE'') else Inr ())"

fun validate_expression :: "expression \<Rightarrow> unit result" and validate_children :: "expression list \<Rightarrow> unit result" where
  "validate_expression (Expression t field operator v v2 children) =
     (if t \<notin> {''CONDITION'', ''AND'', ''OR''} then Inl (invalid ''INVALID_AST_NODE_TYPE'')
      else if t = ''CONDITION'' then
        rbind (meta_of field) (\<lambda>meta.
          case operator of
            None \<Rightarrow> Inl (invalid ''INVALID_AST_OPERATOR'')
          | Some p \<Rightarrow>
              if p \<notin> set (fm_allowed meta) then Inl (invalid ''INVALID_AST_OPERATOR'')
              else validate_value p v v2)
      else if children = [] then Inl (invalid ''INVALID_AST_GROUP'')
      else validate_children children)"
| "validate_children [] = Inr ()"
| "validate_children (c # cs) = rbind (validate_expression c) (\<lambda>_. validate_children cs)"

section \<open>Reading and writing JSON\<close>

lemma size_map_of: "map_of d k = Some v \<Longrightarrow> size v \<le> size_list (size_prod (\<lambda>_. 0) size) d"
  by (induction d) (auto split: if_splits)

lemma size_children:
  assumes "get_or k (JList []) d = JList cs"
  shows "size_list size cs \<le> size_list (size_prod (\<lambda>_. 0) size) d"
proof (cases "map_of d k")
  case (Some v)
  with assms have "v = JList cs" by (simp add: get_or_def)
  with size_map_of [OF Some] show ?thesis by simp
qed (use assms in \<open>simp add: get_or_def\<close>)

function dict_to_expression :: "json \<Rightarrow> expression result" and dicts_to_expressions :: "json list \<Rightarrow> expression list result" where
  "dict_to_expression data =
     (case data of
        JObj d \<Rightarrow>
          (let node_type = get_or ''type'' JNull d in
           if \<not> truthy node_type then Inl (invalid ''INVALID_AST_FORMAT'')
           else if node_type = JStr ''CONDITION'' then
             (let op_raw = get_or ''operator'' JNull d in
              rbind (if truthy op_raw then rbind (operator_of op_raw) (\<lambda>p. Inr (Some p)) else Inr None) (\<lambda>op_enum.
                Inr (condition (get_or ''field'' JNull d) op_enum (get_or ''value'' JNull d) (get_or ''value2'' JNull d))))
           else if node_type = JStr ''AND'' \<or> node_type = JStr ''OR'' then
             (case get_or ''children'' (JList []) d of
                JList cs \<Rightarrow> rbind (dicts_to_expressions cs) (\<lambda>children.
                  Inr (group_node (if node_type = JStr ''AND'' then ''AND'' else ''OR'') children))
              | _ \<Rightarrow> Inl (invalid ''INVALID_AST_FORMAT''))
           else Inl (invalid ''INVALID_AST_NODE_TYPE''))
      | _ \<Rightarrow> Inl (invalid ''INVALID_AST_FORMAT''))"
| "dicts_to_expressions [] = Inr []"
| "dicts_to_expressions (c # cs) = rbind (dict_to_expression c) (\<lambda>e. rbind (dicts_to_expressions cs) (\<lambda>es. Inr (e # es)))"
  by pat_completeness auto

termination
  by (relation "measure (case_sum (\<lambda>j. 2 * size j) (\<lambda>js. 2 * size_list size js + 1))")
    (auto dest!: size_children)

declare dict_to_expression.simps [simp del]

fun expression_to_dict :: "expression \<Rightarrow> json" and expressions_to_dicts :: "expression list \<Rightarrow> json list" where
  "expression_to_dict (Expression t field operator v v2 children) =
     (if t = ''CONDITION'' then
        JObj ([(''type'', JStr ''CONDITION''), (''field'', field),
               (''operator'', case operator of None \<Rightarrow> JNull | Some p \<Rightarrow> JStr (operator_value p)), (''value'', v)] @
              (if v2 \<noteq> JNull then [(''value2'', v2)] else []))
      else JObj [(''type'', JStr t), (''children'', JList (expressions_to_dicts children))])"
| "expressions_to_dicts [] = []"
| "expressions_to_dicts (c # cs) = expression_to_dict c # expressions_to_dicts cs"

text \<open>The expressions that reading produces.\<close>

fun canonical :: "expression \<Rightarrow> bool" and canonicals :: "expression list \<Rightarrow> bool" where
  "canonical (Expression t field operator v v2 children) \<longleftrightarrow>
     (t = ''CONDITION'' \<and> children = []) \<or>
     ((t = ''AND'' \<or> t = ''OR'') \<and> field = JNull \<and> operator = None \<and> v = JNull \<and> v2 = JNull \<and> canonicals children)"
| "canonicals [] \<longleftrightarrow> True"
| "canonicals (c # cs) \<longleftrightarrow> canonical c \<and> canonicals cs"

lemma operator_round_trip: "operator_of (JStr (operator_value p)) = Inr p"
  by (cases p) (simp_all add: operator_of_def all_operators_def)

lemma read_written:
  "canonical e \<Longrightarrow> dict_to_expression (expression_to_dict e) = Inr e"
  "canonicals es \<Longrightarrow> dicts_to_expressions (expressions_to_dicts es) = Inr es"
proof (induction e and es rule: expression_to_dict_expressions_to_dicts.induct)
  case (1 t field operator v v2 children)
  show ?case
  proof (cases "t = ''CONDITION''")
    case True
    with 1 have "children = []" by auto
    have "truthy (JStr (operator_value p))" for p by (cases p) simp_all
    with True \<open>children = []\<close> show ?thesis
      by (cases operator)
        (auto simp: dict_to_expression.simps get_or_def condition_def operator_round_trip Let_def)
  next
    case False
    with 1 have "t = ''AND'' \<or> t = ''OR''" "field = JNull" "operator = None" "v = JNull" "v2 = JNull" "canonicals children"
      by auto
    with 1(1) False show ?thesis
      by (auto simp: dict_to_expression.simps get_or_def group_node_def Let_def)
  qed
qed auto

lemma read_canonical:
  "dict_to_expression j = Inr e \<Longrightarrow> canonical e"
  "dicts_to_expressions js = Inr es \<Longrightarrow> canonicals es"
proof (induction j and js arbitrary: e and es rule: dict_to_expression_dicts_to_expressions.induct)
  case (1 data)
  then show ?case
    by (subst (asm) dict_to_expression.simps)
      (auto simp: rbind_eq_Inr condition_def group_node_def Let_def split: json.splits if_splits)
qed (auto simp: rbind_eq_Inr)

section \<open>Saved screeners\<close>

text \<open>A row of the table and the domain object it is read as.\<close>

record screener_row =
  sc_id :: uuid
  sc_name :: string
  sc_description :: "string option"
  sc_expression :: json
  sc_sort_field :: string
  sc_sort_direction :: string
  sc_created_at :: instant
  sc_updated_at :: instant

record saved_screener =
  ss_id :: uuid
  ss_name :: string
  ss_description :: "string option"
  ss_expression :: expression
  ss_sort_field :: string
  ss_sort_direction :: string
  ss_created_at :: instant
  ss_updated_at :: instant

definition screener_to_domain :: "screener_row \<Rightarrow> saved_screener result" where
  "screener_to_domain m =
     rbind (dict_to_expression (sc_expression m)) (\<lambda>expr.
       Inr \<lparr>ss_id = sc_id m, ss_name = sc_name m, ss_description = sc_description m, ss_expression = expr,
            ss_sort_field = sc_sort_field m, ss_sort_direction = sc_sort_direction m,
            ss_created_at = sc_created_at m, ss_updated_at = sc_updated_at m\<rparr>)"

definition list_screeners :: "screener_row list \<Rightarrow> saved_screener list result" where
  "list_screeners db = rmap screener_to_domain (sort_key (\<lambda>m. - sc_updated_at m) db)"

definition get_screener :: "uuid \<Rightarrow> screener_row list \<Rightarrow> saved_screener option result" where
  "get_screener i db = (case find (\<lambda>m. sc_id m = i) db of
     None \<Rightarrow> Inr None | Some m \<Rightarrow> rbind (screener_to_domain m) (\<lambda>s. Inr (Some s)))"

definition create_screener :: "string \<Rightarrow> expression \<Rightarrow> string option \<Rightarrow> string \<Rightarrow> string \<Rightarrow> uuid \<Rightarrow> instant \<Rightarrow>
    screener_row list \<Rightarrow> (saved_screener \<times> screener_row list) result" where
  "create_screener name expr description sort_field sort_direction new_id now db =
     (let m = \<lparr>sc_id = new_id, sc_name = name, sc_description = description, sc_expression = expression_to_dict expr,
               sc_sort_field = sort_field, sc_sort_direction = sort_direction, sc_created_at = now, sc_updated_at = now\<rparr>
      in if new_id \<in> sc_id ` set db then Inl IntegrityError
         else rbind (screener_to_domain m) (\<lambda>s. Inr (s, db @ [m])))"

definition override :: "'a option \<Rightarrow> 'a \<Rightarrow> 'a" where
  "override new old = (case new of None \<Rightarrow> old | Some x \<Rightarrow> x)"

definition update_screener :: "uuid \<Rightarrow> string option \<Rightarrow> string option \<Rightarrow> expression option \<Rightarrow> string option \<Rightarrow> string option \<Rightarrow>
    instant \<Rightarrow> screener_row list \<Rightarrow> (saved_screener option \<times> screener_row list) result" where
  "update_screener i name description expr sort_field sort_direction now db =
     (case find (\<lambda>m. sc_id m = i) db of
        None \<Rightarrow> Inr (None, db)
      | Some m \<Rightarrow>
          (let m' = m\<lparr>sc_name := override name (sc_name m),
                      sc_description := (case description of None \<Rightarrow> sc_description m | Some d \<Rightarrow> Some d),
                      sc_expression := override (map_option expression_to_dict expr) (sc_expression m),
                      sc_sort_field := override sort_field (sc_sort_field m),
                      sc_sort_direction := override sort_direction (sc_sort_direction m), sc_updated_at := now\<rparr>
           in rbind (screener_to_domain m') (\<lambda>s. Inr (Some s, map (\<lambda>r. if sc_id r = i then m' else r) db))))"

definition delete_screener :: "uuid \<Rightarrow> screener_row list \<Rightarrow> bool \<times> screener_row list" where
  "delete_screener i db = (\<exists>m \<in> set db. sc_id m = i, filter (\<lambda>m. sc_id m \<noteq> i) db)"

text \<open>The endpoint: the expression is read and validated before it is stored.\<close>

definition create_saved_screener :: "string \<Rightarrow> json \<Rightarrow> string option \<Rightarrow> string \<Rightarrow> string \<Rightarrow> uuid \<Rightarrow> instant \<Rightarrow>
    screener_row list \<Rightarrow> (saved_screener \<times> screener_row list) result" where
  "create_saved_screener name data description sort_field sort_direction new_id now db =
     rbind (dict_to_expression data) (\<lambda>expr. rbind (validate_expression expr) (\<lambda>_.
       create_screener (strip name) expr
         (case description of None \<Rightarrow> None | Some d \<Rightarrow> if d = [] then None else Some (strip d))
         sort_field sort_direction new_id now db))"

text \<open>Every stored expression can be read.\<close>

definition readable :: "screener_row list \<Rightarrow> bool" where
  "readable db \<longleftrightarrow> (\<forall>m \<in> set db. \<exists>e. dict_to_expression (sc_expression m) = Inr e)"

lemma readable_lists:
  assumes "readable db"
  shows "\<exists>ss. list_screeners db = Inr ss"
  unfolding list_screeners_def
  by (rule rmap_exists) (use assms in \<open>fastforce simp: readable_def screener_to_domain_def\<close>)

lemma list_screeners_mem:
  assumes "list_screeners db = Inr ss" and "m \<in> set db" and "screener_to_domain m = Inr s"
  shows "s \<in> set ss"
  by (rule rmap_member [OF assms(1) [unfolded list_screeners_def] _ assms(3)]) (use assms(2) in simp)

text \<open>
  C10. A screener is saved as it was understood: when the endpoint accepts a JSON expression, the row
  it stores reads back as exactly that expression, the listing, which fails as soon as one stored
  expression cannot be read, still succeeds, and it contains the new screener.
\<close>

lemma saved_screener_reads_back:
  assumes "create_saved_screener name data description sort_field sort_direction new_id now db = Inr (s, db')"
    and "readable db"
  shows "dict_to_expression data = Inr (ss_expression s) \<and> get_screener new_id db' = Inr (Some s) \<and> readable db' \<and>
    (\<exists>ss. list_screeners db' = Inr ss \<and> s \<in> set ss)"
proof -
  define row where "row e = \<lparr>sc_id = new_id, sc_name = strip name,
     sc_description = (case description of None \<Rightarrow> None | Some d \<Rightarrow> if d = [] then None else Some (strip d)), sc_expression = expression_to_dict e,
     sc_sort_field = sort_field, sc_sort_direction = sort_direction, sc_created_at = now, sc_updated_at = now\<rparr>" for e
  from assms(1) obtain e where e: "dict_to_expression data = Inr e" and new: "new_id \<notin> sc_id ` set db"
    and s: "screener_to_domain (row e) = Inr s" and db': "db' = db @ [row e]"
    unfolding create_saved_screener_def create_screener_def row_def Let_def by (auto simp: rbind_eq_Inr split: if_split_asm)
  have reread: "dict_to_expression (expression_to_dict e) = Inr e"
    by (rule read_written(1) [OF read_canonical(1) [OF e]])
  then have "ss_expression s = e" using s by (auto simp: screener_to_domain_def row_def)
  moreover have "find (\<lambda>m. sc_id m = new_id) db = None" using new by (auto simp: find_None_iff)
  then have "get_screener new_id db' = Inr (Some s)"
    using s by (simp add: get_screener_def db' find_append row_def)
  moreover have ok: "readable db'" using assms(2) reread by (auto simp: readable_def db' row_def)
  ultimately show ?thesis
    using e readable_lists [OF ok] list_screeners_mem [of db' _ "row e" s] s by (auto simp: db')
qed

lemma saved_screener_reads_back_witness:
  "\<exists>s db'. create_saved_screener ''a'' (JObj [(''type'', JStr ''CONDITION''), (''field'', JStr ''close''),
       (''operator'', JStr ''GT''), (''value'', JNum 10)]) None ''code'' ''ASC'' 1 0 [] = Inr (s, db') \<and>
     get_screener 1 db' = Inr (Some s) \<and> ss_expression s = condition (JStr ''close'') (Some GT) (JNum 10) JNull"
proof -
  let ?data = "JObj [(''type'', JStr ''CONDITION''), (''field'', JStr ''close''), (''operator'', JStr ''GT''), (''value'', JNum 10)]"
  have op: "operator_of (JStr ''GT'') = Inr GT" using operator_round_trip [of GT] by simp
  have e: "dict_to_expression ?data = Inr (condition (JStr ''close'') (Some GT) (JNum 10) JNull)"
    by (simp add: dict_to_expression.simps get_or_def op Let_def)
  then have "\<exists>s db'. create_saved_screener ''a'' ?data None ''code'' ''ASC'' 1 0 [] = Inr (s, db')"
    by (simp add: create_saved_screener_def condition_def meta_of_def registry_def field_meta_of_def validate_value_def
      create_screener_def screener_to_domain_def dict_to_expression.simps get_or_def op Let_def)
  then obtain s db' where run: "create_saved_screener ''a'' ?data None ''code'' ''ASC'' 1 0 [] = Inr (s, db')" by blast
  have "readable []" by (simp add: readable_def)
  from saved_screener_reads_back [OF run this] e run show ?thesis by auto
qed

end
