(* ===== verification/ScreenerQuery.thy ===== *)
theory ScreenerQuery
  imports ScreenerAst PyDate
begin

text \<open>
  Running a screener (\<open>app/services/screener_query.py\<close>): the evaluation of an expression on the
  features of a security, and the query over the tables of \<open>app/repositories/models.py\<close>. Rows keep,
  beside the columns the queries select by, the values of their other attributes under the names the
  models declare; reading an attribute a model does not have raises \<open>AttributeError\<close>.
\<close>

section \<open>Values and conditions\<close>

text \<open>A value of a feature: \<open>None\<close>, a number, a text or a list of texts.\<close>

datatype feature = Missing | Num decimal | Text string | Texts "string list"

text \<open>\<open>Decimal(text)\<close>: a number, an infinity (negative or not) or not a number.\<close>

datatype decimal_value = Finite decimal | Infinite bool | Not_a_number

record text_formats = formats +
  dec_parse :: "string \<Rightarrow> decimal_value option"
  list_show :: "string list \<Rightarrow> string"
  dec_show :: "decimal \<Rightarrow> string"

definition dec_of_text :: "text_formats \<Rightarrow> string \<Rightarrow> decimal_value result" where
  "dec_of_text fm s = (case dec_parse fm s of None \<Rightarrow> Inl DecimalError | Some v \<Rightarrow> Inr v)"

text \<open>\<open>a < b\<close> and \<open>a <= b\<close>; an order comparison with \<open>NaN\<close> raises.\<close>

fun dec_less :: "decimal_value \<Rightarrow> decimal_value \<Rightarrow> bool result" where
  "dec_less Not_a_number b = Inl DecimalError"
| "dec_less a Not_a_number = Inl DecimalError"
| "dec_less (Finite a) (Finite b) = Inr (a < b)"
| "dec_less (Finite a) (Infinite neg) = Inr (\<not> neg)"
| "dec_less (Infinite neg) (Finite b) = Inr neg"
| "dec_less (Infinite neg) (Infinite neg') = Inr (neg \<and> \<not> neg')"

fun dec_eq :: "decimal_value \<Rightarrow> decimal_value \<Rightarrow> bool" where
  "dec_eq (Finite a) (Finite b) = (a = b)"
| "dec_eq (Infinite neg) (Infinite neg') = (neg = neg')"
| "dec_eq _ _ = False"

definition dec_le :: "decimal_value \<Rightarrow> decimal_value \<Rightarrow> bool result" where
  "dec_le a b = rbind (dec_less a b) (\<lambda>l. Inr (l \<or> dec_eq a b))"

text \<open>The description of a condition, by its parts.\<close>

datatype condition_text =
    Described json "screener_operator option" json
  | Available json
  | Unavailable json
  | Between json decimal_value decimal_value

text \<open>\<open>Decimal(str(actual))\<close>; numbers are exact.\<close>

definition number_of :: "text_formats \<Rightarrow> feature \<Rightarrow> decimal_value result" where
  "number_of fm actual =
     (case actual of
        Num q \<Rightarrow> Inr (Finite q)
      | Text s \<Rightarrow> dec_of_text fm s
      | Texts ss \<Rightarrow> dec_of_text fm (list_show fm ss)
      | Missing \<Rightarrow> dec_of_text fm ''None'')"

definition target_number :: "text_formats \<Rightarrow> json \<Rightarrow> decimal_value result" where
  "target_number fm target = dec_of_text fm (py_str fm target)"

fun starts_with :: "string \<Rightarrow> string \<Rightarrow> bool" where
  "starts_with [] s = True"
| "starts_with (c # cs) [] = False"
| "starts_with (c # cs) (d # ds) = (c = d \<and> starts_with cs ds)"

fun has_substring :: "string \<Rightarrow> string \<Rightarrow> bool" where
  "has_substring p [] = (p = [])"
| "has_substring p (c # cs) = (starts_with p (c # cs) \<or> has_substring p cs)"

text \<open>\<open>text in target\<close>\<close>

definition contained :: "string \<Rightarrow> json \<Rightarrow> bool result" where
  "contained s target =
     (case target of
        JList xs \<Rightarrow> Inr (JStr s \<in> set xs)
      | JObj kvs \<Rightarrow> Inr (s \<in> fst ` set kvs)
      | JStr t \<Rightarrow> Inr (has_substring s t)
      | _ \<Rightarrow> Inl TypeError)"

text \<open>\<open>any(item in target for item in items)\<close>\<close>

fun any_contained :: "string list \<Rightarrow> json \<Rightarrow> bool result" where
  "any_contained [] target = Inr False"
| "any_contained (s # ss) target = rbind (contained s target) (\<lambda>b. if b then Inr True else any_contained ss target)"

definition compare_numbers :: "text_formats \<Rightarrow> json \<Rightarrow> screener_operator \<Rightarrow> json \<Rightarrow> json \<Rightarrow> feature \<Rightarrow>
    (bool \<times> condition_text) result" where
  "compare_numbers fm field operator target target2 actual =
     (let desc = Described field (Some operator) target in
      rbind (number_of fm actual) (\<lambda>num.
        if operator = BETWEEN then
          rbind (target_number fm target) (\<lambda>low. rbind (target_number fm target2) (\<lambda>high.
            rbind (dec_le low num) (\<lambda>l. rbind (if l then dec_le num high else Inr False) (\<lambda>b.
              Inr (b, Between field low high)))))
        else
          rbind (target_number fm target) (\<lambda>tgt.
            case operator of
              GT \<Rightarrow> rbind (dec_less tgt num) (\<lambda>b. Inr (b, desc))
            | GTE \<Rightarrow> rbind (dec_le tgt num) (\<lambda>b. Inr (b, desc))
            | LT \<Rightarrow> rbind (dec_less num tgt) (\<lambda>b. Inr (b, desc))
            | LTE \<Rightarrow> rbind (dec_le num tgt) (\<lambda>b. Inr (b, desc))
            | EQ \<Rightarrow> Inr (dec_eq num tgt, desc)
            | NE \<Rightarrow> Inr (\<not> dec_eq num tgt, desc)
            | _ \<Rightarrow> Inr (False, desc))))"

text \<open>The branch for texts; its cases for \<open>EQ\<close> and \<open>NE\<close> are never reached.\<close>

definition compare_texts :: "text_formats \<Rightarrow> json \<Rightarrow> screener_operator \<Rightarrow> json \<Rightarrow> feature \<Rightarrow> (bool \<times> condition_text) result" where
  "compare_texts fm field operator target actual =
     (let desc = Described field (Some operator) target;
          found = (case actual of Texts ss \<Rightarrow> any_contained ss target
                   | Text s \<Rightarrow> contained s target
                   | Num q \<Rightarrow> contained (dec_show fm q) target | Missing \<Rightarrow> contained ''None'' target)
      in rbind found (\<lambda>b. Inr (if operator = IN then b else \<not> b, desc)))"

definition evaluate_condition :: "text_formats \<Rightarrow> json \<Rightarrow> screener_operator option \<Rightarrow> json \<Rightarrow> json \<Rightarrow> feature \<Rightarrow>
    bool \<times> condition_text" where
  "evaluate_condition fm field operator target target2 actual =
     (let desc = Described field operator target in
      case operator of
        Some IS_AVAILABLE \<Rightarrow> (actual \<noteq> Missing, Available field)
      | Some IS_UNAVAILABLE \<Rightarrow> (actual = Missing, Unavailable field)
      | None \<Rightarrow> (False, desc)
      | Some p \<Rightarrow>
          if actual = Missing then (False, desc)
          else
            (case (if p \<in> {GT, GTE, LT, LTE, EQ, NE, BETWEEN} then compare_numbers fm field p target target2 actual
                   else compare_texts fm field p target actual) of
               Inl _ \<Rightarrow> (False, desc)
             | Inr r \<Rightarrow> r))"

text \<open>\<open>feature_map.get(expr.field)\<close>\<close>

type_synonym features = "(string \<times> feature) list"

definition feature_of :: "json \<Rightarrow> features \<Rightarrow> feature result" where
  "feature_of field fs =
     (case field of
        JStr s \<Rightarrow> Inr (case map_of fs s of None \<Rightarrow> Missing | Some v \<Rightarrow> v)
      | JList _ \<Rightarrow> Inl TypeError
      | JObj _ \<Rightarrow> Inl TypeError
      | _ \<Rightarrow> Inr Missing)"

fun evaluate_ast :: "text_formats \<Rightarrow> expression \<Rightarrow> features \<Rightarrow> (bool \<times> condition_text list) result"
and evaluate_and :: "text_formats \<Rightarrow> expression list \<Rightarrow> features \<Rightarrow> condition_text list \<Rightarrow> (bool \<times> condition_text list) result"
and evaluate_or :: "text_formats \<Rightarrow> expression list \<Rightarrow> features \<Rightarrow> (bool \<times> condition_text list) result" where
  "evaluate_ast fm (Expression t field operator v v2 children) fs =
     (if t = ''CONDITION'' then
        rbind (feature_of field fs) (\<lambda>actual.
          let (passed, desc) = evaluate_condition fm field operator v v2 actual
          in Inr (passed, if passed then [desc] else []))
      else if t = ''AND'' then evaluate_and fm children fs []
      else if t = ''OR'' then evaluate_or fm children fs
      else Inr (False, []))"
| "evaluate_and fm [] fs conds = Inr (True, conds)"
| "evaluate_and fm (c # cs) fs conds =
     rbind (evaluate_ast fm c fs) (\<lambda>(passed, cs').
       if \<not> passed then Inr (False, []) else evaluate_and fm cs fs (conds @ cs'))"
| "evaluate_or fm [] fs = Inr (False, [])"
| "evaluate_or fm (c # cs) fs =
     rbind (evaluate_ast fm c fs) (\<lambda>(passed, cs').
       if passed then Inr (True, cs') else evaluate_or fm cs fs)"

section \<open>What an expression means\<close>

definition holds :: "text_formats \<Rightarrow> json \<Rightarrow> screener_operator option \<Rightarrow> json \<Rightarrow> json \<Rightarrow> features \<Rightarrow> bool" where
  "holds fm field operator v v2 fs \<longleftrightarrow>
     (\<exists>s. field = JStr s \<and> fst (evaluate_condition fm field operator v v2 (case map_of fs s of None \<Rightarrow> Missing | Some x \<Rightarrow> x)))"

text \<open>A condition holds of its feature, a conjunction if all parts hold, a disjunction if one does.\<close>

fun meaning :: "text_formats \<Rightarrow> features \<Rightarrow> expression \<Rightarrow> bool" where
  "meaning fm fs (Expression t field operator v v2 children) \<longleftrightarrow>
     (if t = ''CONDITION'' then holds fm field operator v v2 fs
      else if t = ''AND'' then list_all (meaning fm fs) children
      else list_ex (meaning fm fs) children)"

text \<open>The conditions of an expression.\<close>

fun conditions :: "expression \<Rightarrow> (json \<times> screener_operator option \<times> json \<times> json) list" where
  "conditions (Expression t field operator v v2 children) =
     (if t = ''CONDITION'' then [(field, operator, v, v2)] else concat (map conditions children))"

text \<open>A description belongs to a condition that holds.\<close>

definition explains :: "text_formats \<Rightarrow> features \<Rightarrow> expression list \<Rightarrow> condition_text \<Rightarrow> bool" where
  "explains fm fs es d \<longleftrightarrow> (\<exists>e \<in> set es. \<exists>(field, operator, v, v2) \<in> set (conditions e).
     \<exists>s. field = JStr s \<and>
       evaluate_condition fm field operator v v2 (case map_of fs s of None \<Rightarrow> Missing | Some x \<Rightarrow> x) = (True, d))"

lemma explains_Cons: "explains fm fs (e # es) d \<longleftrightarrow> explains fm fs [e] d \<or> explains fm fs es d"
  by (auto simp: explains_def)

lemma explains_group:
  "t \<noteq> ''CONDITION'' \<Longrightarrow> explains fm fs es d \<Longrightarrow> explains fm fs [Expression t field operator v v2 es] d"
  by (auto simp: explains_def)

lemma meta_of_text: "meta_of field = Inr m \<Longrightarrow> \<exists>s. field = JStr s"
  by (cases field) (auto simp: meta_of_def split: if_splits)

lemma validate_CONDITION:
  assumes "validate_expression (Expression ''CONDITION'' field operator v v2 children) = Inr ()"
  shows "\<exists>s m p. field = JStr s \<and> map_of registry s = Some m \<and> operator = Some p \<and> p \<in> set (fm_allowed m) \<and>
    validate_value p v v2 = Inr ()"
proof -
  from assms obtain m where m: "meta_of field = Inr m" by (auto simp: rbind_eq_Inr)
  then obtain s where "field = JStr s" using meta_of_text by blast
  with m have "map_of registry s = Some m" by (auto simp: meta_of_def split: option.splits if_splits)
  with assms m \<open>field = JStr s\<close> show ?thesis by (auto split: option.splits if_splits)
qed

lemma evaluate_valid:
  "validate_expression e = Inr () \<Longrightarrow> \<exists>cs. evaluate_ast fm e fs = Inr (meaning fm fs e, cs) \<and>
     (cs \<noteq> [] \<longleftrightarrow> meaning fm fs e) \<and> (\<forall>d \<in> set cs. explains fm fs [e] d)"
  "validate_children es \<noteq> Inr () \<or> (\<exists>cs. evaluate_and fm es fs conds =
       Inr (list_all (meaning fm fs) es, if list_all (meaning fm fs) es then conds @ cs else []) \<and>
     (list_all (meaning fm fs) es \<and> es \<noteq> [] \<longrightarrow> cs \<noteq> []) \<and> (\<forall>d \<in> set cs. explains fm fs es d))"
  "validate_children es \<noteq> Inr () \<or> (\<exists>cs. evaluate_or fm es fs = Inr (list_ex (meaning fm fs) es, cs) \<and>
     (cs \<noteq> [] \<longleftrightarrow> list_ex (meaning fm fs) es) \<and> (\<forall>d \<in> set cs. explains fm fs es d))"
proof (induction fm e fs and fm es fs conds and fm es fs rule: evaluate_ast_evaluate_and_evaluate_or.induct)
  case (1 fm t field operator v v2 children fs)
  show ?case
  proof (cases "t = ''CONDITION''")
    case True
    with 1 obtain s where s: "field = JStr s" using validate_CONDITION by blast
    let ?x = "case map_of fs s of None \<Rightarrow> Missing | Some x \<Rightarrow> x"
    obtain b d where bd: "evaluate_condition fm field operator v v2 ?x = (b, d)" by (cases "evaluate_condition fm field operator v v2 ?x")
    with s have "evaluate_ast fm (Expression t field operator v v2 children) fs = Inr (b, if b then [d] else [])"
      by (simp add: True feature_of_def)
    moreover have "meaning fm fs (Expression t field operator v v2 children) = b"
      using s bd by (simp add: True holds_def)
    moreover have "b \<Longrightarrow> explains fm fs [Expression t field operator v v2 children] d"
      using s bd by (simp add: explains_def True)
    ultimately show ?thesis by auto
  next
    case False
    with 1(3) have ok: "validate_children children = Inr ()" "children \<noteq> []" and t: "t = ''AND'' \<or> t = ''OR''"
      by (auto split: if_splits)
    show ?thesis
    proof (cases "t = ''AND''")
      case True
      with False 1(1) ok(1) obtain cs where "evaluate_and fm children fs [] =
          Inr (list_all (meaning fm fs) children, if list_all (meaning fm fs) children then [] @ cs else [])"
        "list_all (meaning fm fs) children \<and> children \<noteq> [] \<longrightarrow> cs \<noteq> []" "\<forall>d \<in> set cs. explains fm fs children d"
        by blast
      with True False ok(2) show ?thesis by (auto intro: explains_group)
    next
      case not_and: False
      with False t 1(2) ok(1) obtain cs where "evaluate_or fm children fs = Inr (list_ex (meaning fm fs) children, cs)"
        "cs \<noteq> [] \<longleftrightarrow> list_ex (meaning fm fs) children" "\<forall>d \<in> set cs. explains fm fs children d"
        by auto
      with not_and False t show ?thesis by (auto intro: explains_group)
    qed
  qed
next
  case (3 fm c cs fs conds)
  show ?case
  proof (cases "validate_children (c # cs) = Inr ()")
    case True
    then have v: "validate_expression c = Inr ()" "validate_children cs = Inr ()" by (auto simp: rbind_eq_Inr)
    from 3(1) [OF v(1)] obtain ds where c: "evaluate_ast fm c fs = Inr (meaning fm fs c, ds)"
      "ds \<noteq> [] \<longleftrightarrow> meaning fm fs c" "\<forall>d \<in> set ds. explains fm fs [c] d" by blast
    show ?thesis
    proof (cases "meaning fm fs c")
      case False
      with c(1) show ?thesis by (auto intro: exI [of _ "[]"])
    next
      case m: True
      from 3(2) [of True ds] c(1) m v(2) obtain es where
        "evaluate_and fm cs fs (conds @ ds) = Inr (list_all (meaning fm fs) cs, if list_all (meaning fm fs) cs then (conds @ ds) @ es else [])"
        "\<forall>d \<in> set es. explains fm fs cs d" by auto
      with c m show ?thesis by (auto simp: explains_Cons [of _ _ c cs] intro!: exI [of _ "ds @ es"])
    qed
  qed simp
next
  case (5 fm c cs fs)
  show ?case
  proof (cases "validate_children (c # cs) = Inr ()")
    case True
    then have v: "validate_expression c = Inr ()" "validate_children cs = Inr ()" by (auto simp: rbind_eq_Inr)
    from 5(1) [OF v(1)] obtain ds where c: "evaluate_ast fm c fs = Inr (meaning fm fs c, ds)"
      "ds \<noteq> [] \<longleftrightarrow> meaning fm fs c" "\<forall>d \<in> set ds. explains fm fs [c] d" by blast
    show ?thesis
    proof (cases "meaning fm fs c")
      case m: True
      with c show ?thesis by (auto simp: explains_Cons [of _ _ c cs])
    next
      case m: False
      from 5(2) [of False] c(1) m v(2) obtain es where
        "evaluate_or fm cs fs = Inr (list_ex (meaning fm fs) cs, es)" "es \<noteq> [] \<longleftrightarrow> list_ex (meaning fm fs) cs"
        "\<forall>d \<in> set es. explains fm fs cs d" by auto
      with c m show ?thesis by (auto simp: explains_Cons [of _ _ c cs])
    qed
  qed simp
qed auto

text \<open>
  C15. A valid expression is evaluated as it reads: evaluation never raises, a conjunction matches
  when all its parts do and a disjunction when one does, there are matched conditions exactly for
  a match, and each of them describes a condition of the expression that holds of the security.
\<close>

lemma evaluation_matches_meaning:
  assumes "validate_expression e = Inr ()"
  shows "\<exists>cs. evaluate_ast fm e fs = Inr (meaning fm fs e, cs) \<and> (cs \<noteq> [] \<longleftrightarrow> meaning fm fs e) \<and>
    (\<forall>d \<in> set cs. explains fm fs [e] d)"
  by (rule evaluate_valid(1) [OF assms])

section \<open>Comparing texts\<close>

text \<open>
  Comparing texts for equality never works: the operators \<open>EQ\<close> and \<open>NE\<close>, which the registry
  offers for the names of industries and themes, are evaluated as numbers, so for a text that is
  not the text of a number both of them fail, whatever the target is.
\<close>

lemma text_equality_never_matches:
  assumes "operator = EQ \<or> operator = NE" and "dec_parse fm s = None" and "dec_parse fm (list_show fm ss) = None"
  shows "\<not> fst (evaluate_condition fm field (Some operator) target target2 (Text s)) \<and>
    \<not> fst (evaluate_condition fm field (Some operator) target target2 (Texts ss))"
  using assms by (auto simp: evaluate_condition_def compare_numbers_def number_of_def dec_of_text_def Let_def)

section \<open>The query\<close>

text \<open>The attributes the models declare beside the ones the rows below keep apart.\<close>

definition security_columns :: "string list" where
  "security_columns = [''market_id'', ''security_type'', ''status'', ''listing_date'', ''delisting_date'', ''source_code'',
     ''as_of'', ''received_at'', ''data_status'', ''source_revision'', ''ingestion_run_id'', ''created_at'', ''updated_at'']"

definition daily_price_columns :: "string list" where
  "daily_price_columns = [''id'', ''open'', ''high'', ''low'', ''close'', ''adjusted_open'', ''adjusted_high'',
     ''adjusted_low'', ''adjusted_close'', ''volume_shares'', ''turnover_amount'', ''source_code'', ''as_of'',
     ''received_at'', ''data_status'', ''source_revision'', ''missing_reason'', ''ingestion_run_id'']"

definition technical_columns :: "string list" where
  "technical_columns = [''id'', ''price_basis'', ''ma5'', ''ma10'', ''ma20'', ''ma60'', ''ma120'', ''ma240'', ''ema12'',
     ''ema26'', ''rsi14'', ''macd'', ''macd_signal'', ''macd_histogram'', ''kd_k'', ''kd_d'', ''atr14'', ''obv'',
     ''bollinger_upper'', ''bollinger_middle'', ''bollinger_lower'', ''williams_r'', ''algorithm_version'', ''as_of'',
     ''received_at'', ''data_status'']"

definition institution_columns :: "string list" where
  "institution_columns = [''id'', ''institution_type'', ''dealer_subtype'', ''buy_shares'', ''sell_shares'', ''net_shares'',
     ''buy_amount'', ''sell_amount'', ''net_amount'', ''source_code'', ''as_of'', ''received_at'', ''data_status'',
     ''source_revision'', ''ingestion_run_id'']"

definition margin_columns :: "string list" where
  "margin_columns = [''id'', ''margin_buy'', ''margin_sell'', ''margin_cash_repayment'', ''margin_balance'',
     ''margin_balance_change'', ''short_sell'', ''short_cover'', ''short_stock_repayment'', ''short_balance'',
     ''short_balance_change'', ''short_margin_ratio'', ''margin_utilization'', ''short_utilization'', ''source_code'',
     ''as_of'', ''received_at'', ''data_status'', ''source_revision'', ''ingestion_run_id'']"

definition strength_columns :: "string list" where
  "strength_columns = [''id'', ''industry_id'', ''theme_id'', ''equal_weight_return'', ''market_cap_weighted_return'',
     ''total_members'', ''valid_members'', ''coverage_ratio'', ''advancers'', ''decliners'', ''unchanged'',
     ''advance_ratio'', ''above_ma20_pct'', ''above_ma60_pct'', ''foreign_net_amount'', ''investment_trust_net_amount'',
     ''dealer_net_amount'', ''margin_balance_change'', ''short_balance_change'', ''lending_balance_change'',
     ''turnover_amount'', ''turnover_share'', ''turnover_momentum'', ''momentum_score'', ''breadth_score'',
     ''technical_score'', ''institutional_score'', ''turnover_score'', ''strength_score'', ''component_coverage'',
     ''rank'', ''algorithm_version'', ''data_status'', ''as_of'', ''calculated_at'']"

record security_row =
  se_id :: uuid
  se_code :: string
  se_name :: string
  se_active :: bool
  se_attrs :: features

record dated_row =
  dr_security :: uuid
  dr_date :: date
  dr_attrs :: features

record strength_row =
  st_date :: date
  st_window :: int
  st_attrs :: features

record market_db =
  md_securities :: "security_row list"
  md_prices :: "dated_row list"
  md_technicals :: "dated_row list"
  md_institutions :: "dated_row list"
  md_margins :: "dated_row list"
  md_industries :: "(uuid \<times> uuid \<times> string) list"
  md_themes :: "(uuid \<times> string) list"
  md_strengths :: "strength_row list"

text \<open>Every row has the attributes of its model.\<close>

definition well_typed :: "market_db \<Rightarrow> bool" where
  "well_typed db \<longleftrightarrow>
     (\<forall>s \<in> set (md_securities db). map fst (se_attrs s) = security_columns) \<and>
     (\<forall>r \<in> set (md_prices db). map fst (dr_attrs r) = daily_price_columns) \<and>
     (\<forall>r \<in> set (md_technicals db). map fst (dr_attrs r) = technical_columns) \<and>
     (\<forall>r \<in> set (md_institutions db). map fst (dr_attrs r) = institution_columns) \<and>
     (\<forall>r \<in> set (md_margins db). map fst (dr_attrs r) = margin_columns) \<and>
     (\<forall>r \<in> set (md_strengths db). map fst (st_attrs r) = strength_columns)"

definition attribute :: "string \<Rightarrow> features \<Rightarrow> feature result" where
  "attribute k attrs = (case map_of attrs k of None \<Rightarrow> Inl AttributeError | Some v \<Rightarrow> Inr v)"

lemma attribute_missing: "k \<notin> set (map fst attrs) \<Longrightarrow> attribute k attrs = Inl AttributeError"
  by (cases "map_of attrs k") (force simp: attribute_def dest: map_of_SomeD)+

text \<open>\<open>{row.security_id: row for row in rows}\<close> and its \<open>get\<close>: the last row of a key counts.\<close>

definition row_at :: "date \<Rightarrow> uuid \<Rightarrow> dated_row list \<Rightarrow> features option" where
  "row_at d i rows = map_option dr_attrs (find (\<lambda>r. dr_security r = i) (rev (filter (\<lambda>r. dr_date r = d) rows)))"

definition rows_at :: "date \<Rightarrow> uuid \<Rightarrow> dated_row list \<Rightarrow> features list" where
  "rows_at d i rows = map dr_attrs (filter (\<lambda>r. dr_date r = d \<and> dr_security r = i) rows)"

fun num_of :: "feature \<Rightarrow> decimal result" where
  "num_of (Num q) = Inr q"
| "num_of _ = Inl TypeError"

text \<open>\<open>row.name if row else None\<close>\<close>

definition optional_attr :: "string \<Rightarrow> features option \<Rightarrow> feature result" where
  "optional_attr k row = (case row of None \<Rightarrow> Inr Missing | Some attrs \<Rightarrow> attribute k attrs)"

text \<open>\<open>sum((i.net_volume for i in rows if i.institution == name), Decimal(0))\<close>\<close>

definition institution_net :: "string \<Rightarrow> features list \<Rightarrow> feature result" where
  "institution_net name rows =
     rbind (rfold (\<lambda>acc r. rbind (attribute ''institution'' r) (\<lambda>who.
         if who = Text name then rbind (attribute ''net_volume'' r) (\<lambda>v. rbind (num_of v) (\<lambda>q. Inr (dadd prec acc q)))
         else Inr acc)) 0 rows) (\<lambda>total. Inr (Num total))"

text \<open>\<open>(dp.close_price - ti.ma) / ti.ma * 100 if dp and ti and ti.ma else None\<close>\<close>

definition close_vs :: "string \<Rightarrow> features option \<Rightarrow> features option \<Rightarrow> feature result" where
  "close_vs k dp ti =
     (case (dp, ti) of
        (Some p, Some t) \<Rightarrow>
          rbind (attribute k t) (\<lambda>ma.
            if ma = Missing \<or> ma = Num 0 then Inr Missing
            else
              rbind (attribute ''close_price'' p) (\<lambda>c. rbind (num_of c) (\<lambda>c. rbind (num_of ma) (\<lambda>m.
                rbind (ddiv prec (dsub prec c m) m) (\<lambda>q. Inr (Num (dmul prec q 100)))))))
      | _ \<Rightarrow> Inr Missing)"

text \<open>The dictionary \<open>taxonomy_id \<rightarrow> snapshot\<close>, as its keys: building it reads the attribute of every row.\<close>

definition strength_map :: "date \<Rightarrow> market_db \<Rightarrow> (feature \<times> features) list result" where
  "strength_map d db =
     rmap (\<lambda>r. rbind (attribute ''taxonomy_id'' (st_attrs r)) (\<lambda>k. Inr (k, st_attrs r)))
       (filter (\<lambda>r. st_date r = d \<and> st_window r = 20) (md_strengths db))"

definition industry_of :: "uuid \<Rightarrow> market_db \<Rightarrow> (uuid \<times> string) option" where
  "industry_of i db = map_option snd (find (\<lambda>(s, _). s = i) (rev (md_industries db)))"

definition themes_of :: "uuid \<Rightarrow> market_db \<Rightarrow> string list" where
  "themes_of i db = map snd (filter (\<lambda>(s, _). s = i) (md_themes db))"

definition features_of :: "date \<Rightarrow> market_db \<Rightarrow> (feature \<times> features) list \<Rightarrow> (uuid \<Rightarrow> feature) \<Rightarrow> security_row \<Rightarrow>
    features result" where
  "features_of d db strengths key sec =
     (let dp = row_at d (se_id sec) (md_prices db);
          ti = row_at d (se_id sec) (md_technicals db);
          ct = row_at d (se_id sec) (md_margins db);
          inst_list = rows_at d (se_id sec) (md_institutions db);
          str_snap = (case industry_of (se_id sec) db of None \<Rightarrow> None | Some (i, _) \<Rightarrow> map_of (rev strengths) (key i))
      in rbind (institution_net ''FOREIGN'' inst_list) (\<lambda>foreign_5d_net.
         rbind (institution_net ''TRUST'' inst_list) (\<lambda>trust_5d_net.
         rbind (optional_attr ''close_price'' dp) (\<lambda>close.
         rbind (optional_attr ''change_percent'' dp) (\<lambda>change.
         rbind (optional_attr ''rsi_14'' ti) (\<lambda>rsi14.
         rbind (close_vs ''ma_20'' dp ti) (\<lambda>vs20.
         rbind (close_vs ''ma_60'' dp ti) (\<lambda>vs60.
         rbind (close_vs ''ma_240'' dp ti) (\<lambda>vs240.
         rbind (optional_attr ''margin_balance_change'' ct) (\<lambda>margin.
         rbind (optional_attr ''strength_score'' str_snap) (\<lambda>strength.
           Inr [(''close'', close), (''return_1d'', change), (''return_5d'', change), (''rsi14'', rsi14),
                (''close_vs_ma20'', vs20), (''close_vs_ma60'', vs60), (''close_vs_ma240'', vs240),
                (''foreign_5d_net'', foreign_5d_net), (''trust_5d_net'', trust_5d_net),
                (''margin_balance_change'', margin),
                (''industry_name'', case industry_of (se_id sec) db of None \<Rightarrow> Missing | Some (_, n) \<Rightarrow> Text n),
                (''theme_name'', Texts (themes_of (se_id sec) db)),
                (''industry_strength_score'', strength)])))))))))))"

record screener_result =
  sr_security :: uuid
  sr_code :: string
  sr_name :: string
  sr_market :: feature
  sr_industry :: "string option"
  sr_themes :: "string list"
  sr_close :: "decimal option"
  sr_return :: "decimal option"
  sr_matched :: "condition_text list"
  sr_final :: bool

fun decimal_option :: "feature \<Rightarrow> decimal option" where
  "decimal_option (Num q) = Some q"
| "decimal_option _ = None"

definition result_of :: "date \<Rightarrow> market_db \<Rightarrow> security_row \<Rightarrow> condition_text list \<Rightarrow> screener_result result" where
  "result_of d db sec matched =
     (let dp = row_at d (se_id sec) (md_prices db) in
      rbind (attribute ''market'' (se_attrs sec)) (\<lambda>market.
      rbind (optional_attr ''close_price'' dp) (\<lambda>close.
      rbind (optional_attr ''change_percent'' dp) (\<lambda>change.
        Inr \<lparr>sr_security = se_id sec, sr_code = se_code sec, sr_name = se_name sec, sr_market = market,
             sr_industry = map_option snd (industry_of (se_id sec) db), sr_themes = themes_of (se_id sec) db,
             sr_close = decimal_option close, sr_return = decimal_option change, sr_matched = matched,
             sr_final = (dp \<noteq> None)\<rparr>))))"

text \<open>The filter loop of step 9.\<close>

definition filter_step :: "text_formats \<Rightarrow> expression \<Rightarrow> date \<Rightarrow> market_db \<Rightarrow> screener_result list \<Rightarrow>
    security_row \<times> features \<Rightarrow> screener_result list result" where
  "filter_step fm expr d db acc p =
     rbind (evaluate_ast fm expr (snd p)) (\<lambda>(is_match, matched).
       if is_match then rbind (result_of d db (fst p) matched) (\<lambda>r. Inr (acc @ [r])) else Inr acc)"

text \<open>Sort keys \<open>(0, value)\<close> and \<open>(1, "")\<close>: a text or a number, behind the flag of a missing value.\<close>

definition number_key :: "decimal option \<Rightarrow> nat \<times> decimal \<times> string" where
  "number_key v = (case v of None \<Rightarrow> (1, 0, []) | Some q \<Rightarrow> (0, q, []))"

definition result_key :: "string \<Rightarrow> screener_result \<Rightarrow> nat \<times> decimal \<times> string" where
  "result_key sort_field r =
     (if sort_field = ''name'' then (0, 0, sr_name r)
      else if sort_field = ''close'' then number_key (sr_close r)
      else if sort_field = ''return_pct'' then number_key (sr_return r)
      else (0, 0, sr_code r))"

text \<open>\<open>list.sort(key, reverse)\<close> is stable in both directions.\<close>

definition sort_results :: "string \<Rightarrow> bool \<Rightarrow> screener_result list \<Rightarrow> screener_result list" where
  "sort_results sort_field descending rs =
     (if descending then rev (sort_key (result_key sort_field) (rev rs)) else sort_key (result_key sort_field) rs)"

definition latest_trade_date :: "market_db \<Rightarrow> date option" where
  "latest_trade_date db = (case map dr_date (md_prices db) of [] \<Rightarrow> None | d # ds \<Rightarrow> Some (foldl max d ds))"

definition execute_screener :: "text_formats \<Rightarrow> (uuid \<Rightarrow> feature) \<Rightarrow> date \<Rightarrow> expression \<Rightarrow> date option \<Rightarrow> string \<Rightarrow> bool \<Rightarrow>
    nat \<Rightarrow> nat \<Rightarrow> market_db \<Rightarrow> (screener_result list \<times> nat \<times> date) result" where
  "execute_screener fm key today expr target sort_field descending limit offset db =
     (let trade_date = (case target of Some d \<Rightarrow> d | None \<Rightarrow> (case latest_trade_date db of Some d \<Rightarrow> d | None \<Rightarrow> today));
          securities = filter se_active (md_securities db)
      in if securities = [] then Inr ([], 0, trade_date)
         else
           rbind (strength_map trade_date db) (\<lambda>strengths.
           rbind (rmap (\<lambda>sec. rbind (features_of trade_date db strengths key sec) (\<lambda>fs. Inr (sec, fs))) securities) (\<lambda>dataset.
           rbind (rfold (filter_step fm expr trade_date db) [] dataset) (\<lambda>matched.
             let sorted = sort_results sort_field descending matched
             in Inr (take limit (drop offset sorted), length sorted, trade_date)))))"

text \<open>
  C16. The screener finds nothing: the query reads attributes that the table models do not declare
  (among them \<open>market\<close> of a security, \<open>close_price\<close> of a daily price, \<open>taxonomy_id\<close> of a strength
  snapshot), so on any database whose rows have the attributes of their models a run that returns
  at all returns no security and the total 0.
\<close>

lemma screener_finds_nothing:
  assumes "execute_screener fm key today expr target sort_field descending limit offset db = Inr (results, n, d)"
    and "well_typed db"
  shows "results = [] \<and> n = 0"
proof (cases "filter se_active (md_securities db) = []")
  case True
  with assms(1) show ?thesis by (simp add: execute_screener_def Let_def)
next
  case False
  with assms(1) obtain t strengths dataset matched where
    dataset: "rmap (\<lambda>sec. rbind (features_of t db strengths key sec) (\<lambda>fs. Inr (sec, fs))) (filter se_active (md_securities db)) = Inr dataset"
    and run: "rfold (filter_step fm expr t db) [] dataset = Inr matched"
    and res: "results = take limit (drop offset (sort_results sort_field descending matched))" "n = length (sort_results sort_field descending matched)"
    by (auto simp: execute_screener_def Let_def rbind_eq_Inr)
  have secs: "fst p \<in> set (md_securities db)" if "p \<in> set dataset" for p
    using rmap_mem [OF dataset that] by (auto simp: rbind_eq_Inr)
  have "matched = []"
  proof (rule rfold_invariant [OF run, where P = "\<lambda>acc. acc = []"])
    fix acc p acc'
    assume "acc = []" "p \<in> set dataset" "filter_step fm expr t db acc p = Inr acc'"
    moreover have "''market'' \<notin> set (map fst (se_attrs (fst p)))"
      using secs [OF \<open>p \<in> set dataset\<close>] assms(2) by (auto simp: well_typed_def security_columns_def)
    then have "attribute ''market'' (se_attrs (fst p)) = Inl AttributeError"
      by (rule attribute_missing)
    ultimately show "acc' = []"
      by (auto simp: filter_step_def result_of_def Let_def rbind_eq_Inr split: if_splits)
  qed simp
  then show ?thesis using res by (simp add: sort_results_def)
qed

text \<open>
  A run on a day with a daily price of an active security does not return at all.
\<close>

lemma prices_break_screener:
  assumes "well_typed db" and "sec \<in> set (md_securities db)" and "se_active sec"
    and "price \<in> set (md_prices db)" and "dr_security price = se_id sec" and "dr_date price = d"
  shows "\<exists>e. execute_screener fm key today expr (Some d) sort_field descending limit offset db = Inl e"
proof (rule ccontr)
  assume "\<not> ?thesis"
  then obtain r where "execute_screener fm key today expr (Some d) sort_field descending limit offset db = Inr r"
    by (cases "execute_screener fm key today expr (Some d) sort_field descending limit offset db") auto
  moreover have act: "sec \<in> set (filter se_active (md_securities db))" using assms(2,3) by simp
  ultimately obtain strengths dataset where
    dataset: "rmap (\<lambda>sec. rbind (features_of d db strengths key sec) (\<lambda>fs. Inr (sec, fs))) (filter se_active (md_securities db)) = Inr dataset"
    by (auto simp: execute_screener_def Let_def rbind_eq_Inr split: if_splits)
  then obtain fs where fs: "features_of d db strengths key sec = Inr fs"
    using rmap_defined [OF dataset act] by (auto simp: rbind_eq_Inr)
  have "price \<in> set (rev (filter (\<lambda>r. dr_date r = d) (md_prices db)))" using assms(4,6) by simp
  then obtain p where found: "find (\<lambda>r. dr_security r = se_id sec) (rev (filter (\<lambda>r. dr_date r = d) (md_prices db))) = Some p"
    using find_ex [of price _ "\<lambda>r. dr_security r = se_id sec"] assms(5) by blast
  then have p: "row_at d (se_id sec) (md_prices db) = Some (dr_attrs p)" "p \<in> set (md_prices db)"
    using find_mem [OF found] by (simp_all add: row_at_def)
  have "''close_price'' \<notin> set (map fst (dr_attrs p))"
    using p(2) assms(1) by (auto simp: well_typed_def daily_price_columns_def)
  then have "attribute ''close_price'' (dr_attrs p) = Inl AttributeError"
    by (rule attribute_missing)
  with fs p(1) show False by (auto simp: features_of_def Let_def rbind_eq_Inr optional_attr_def)
qed

text \<open>
  Missing values are sorted last only in ascending order: a descending sort by price lists the
  securities without a price before all others.
\<close>

lemma descending_lists_missing_first:
  assumes "sort_results ''close'' True rs = xs @ r # ys" and "sr_close r = None" and "x \<in> set xs"
  shows "sr_close x = None"
proof -
  have "sort_key (result_key ''close'') (rev rs) = rev (xs @ r # ys)"
    using arg_cong [OF assms(1), of rev] by (simp add: sort_results_def)
  then have "sorted (map (result_key ''close'') (rev (xs @ r # ys)))"
    using sorted_sort_key [of "result_key ''close''" "rev rs"] by simp
  then have "result_key ''close'' r \<le> result_key ''close'' x"
    using assms(3) by (auto simp: sorted_append)
  then show ?thesis using assms(2)
    by (cases "sr_close x") (auto simp: result_key_def number_key_def)
qed

section \<open>Witnesses\<close>

text \<open>Formats in which only the text \<open>1\<close> is a number.\<close>

definition plain_texts :: text_formats where
  "plain_texts = formats.extend unary \<lparr>dec_parse = (\<lambda>s. if s = ''1'' then Some (Finite 1) else None), list_show = concat, dec_show = (\<lambda>q. ''?'')\<rparr>"

lemma evaluation_matches_meaning_witness:
  "\<exists>cs. evaluate_ast plain_texts (condition (JStr ''industry_name'') (Some IN) (JList [JStr ''steel'']) JNull)
     [(''industry_name'', Text ''steel'')] = Inr (True, cs) \<and> cs \<noteq> []"
proof -
  let ?e = "condition (JStr ''industry_name'') (Some IN) (JList [JStr ''steel'']) JNull" and ?fs = "[(''industry_name'', Text ''steel'')]"
  have "validate_expression ?e = Inr ()"
    by (simp add: condition_def meta_of_def registry_def field_meta_of_def validate_value_def)
  moreover have "meaning plain_texts ?fs ?e"
    by (simp add: condition_def holds_def evaluate_condition_def compare_texts_def contained_def Let_def)
  ultimately show ?thesis using evaluation_matches_meaning [of ?e plain_texts ?fs] by auto
qed

lemma text_equality_never_matches_witness:
  "\<not> fst (evaluate_condition plain_texts (JStr ''industry_name'') (Some EQ) (JStr ''steel'') JNull (Text ''steel''))"
  using text_equality_never_matches [of EQ plain_texts "''steel''" "[''steel'']" "JStr ''industry_name''" "JStr ''steel''" JNull]
  by (simp add: plain_texts_def formats.defs)

definition one_security :: market_db where
  "one_security = \<lparr>md_securities = [\<lparr>se_id = 1, se_code = ''2330'', se_name = ''TSMC'', se_active = True,
       se_attrs = map (\<lambda>k. (k, Missing)) security_columns\<rparr>], md_prices = [], md_technicals = [], md_institutions = [],
     md_margins = [], md_industries = [], md_themes = [], md_strengths = []\<rparr>"

lemma screener_finds_nothing_witness:
  "\<exists>d. execute_screener plain_texts (\<lambda>i. Missing) 100 (condition (JStr ''close'') (Some GT) (JNum 10) JNull) None ''code'' False 50 0
     one_security = Inr ([], 0, d)"
proof -
  let ?e = "condition (JStr ''close'') (Some GT) (JNum 10) JNull"
  have "\<exists>rs n d. execute_screener plain_texts (\<lambda>i. Missing) 100 ?e None ''code'' False 50 0 one_security = Inr (rs, n, d)"
    by (simp add: execute_screener_def Let_def one_security_def latest_trade_date_def strength_map_def features_of_def
      row_at_def rows_at_def industry_of_def themes_of_def institution_net_def optional_attr_def close_vs_def
      filter_step_def condition_def feature_of_def evaluate_condition_def)
  then obtain rs n d where run: "execute_screener plain_texts (\<lambda>i. Missing) 100 ?e None ''code'' False 50 0 one_security = Inr (rs, n, d)"
    by blast
  have "well_typed one_security" by (simp add: well_typed_def one_security_def comp_def)
  from screener_finds_nothing [OF run this] run show ?thesis by blast
qed

definition listed_result :: "string \<Rightarrow> decimal option \<Rightarrow> screener_result" where
  "listed_result code close = \<lparr>sr_security = 1, sr_code = code, sr_name = code, sr_market = Missing, sr_industry = None,
     sr_themes = [], sr_close = close, sr_return = None, sr_matched = [], sr_final = False\<rparr>"

lemma descending_lists_missing_first_witness:
  "sort_results ''close'' True [listed_result ''a'' None, listed_result ''b'' None, listed_result ''c'' (Some 5)] =
     [listed_result ''a'' None] @ listed_result ''b'' None # [listed_result ''c'' (Some 5)] \<and>
   sr_close (listed_result ''a'' None) = None"
proof -
  let ?rs = "[listed_result ''a'' None, listed_result ''b'' None, listed_result ''c'' (Some 5)]"
  have s: "sort_results ''close'' True ?rs = [listed_result ''a'' None] @ listed_result ''b'' None # [listed_result ''c'' (Some 5)]"
    by (simp add: sort_results_def result_key_def number_key_def listed_result_def)
  have "sr_close (listed_result ''a'' None) = None"
    by (rule descending_lists_missing_first [OF s]) (simp_all add: listed_result_def)
  with s show ?thesis by blast
qed

end
