(* ===== verification/Spec2Isabelle.thy ===== *)
theory Spec2Isabelle
  imports RepairProperties SpotProperties PriceProperties MonitoringExamples AuditResults ImportExamples ExportImport ExportFiles WatchlistImport ImportReplay ImportEffects ImportApply ImportPreview CsvText UserData RealtimeFeed StrengthQueries StrengthCalculation Portfolio IndicatorService Candles IntradayCandles RealtimeAlerts CloudSync PushDelivery ScreenerQuery
begin

text \<open>
  TW Market Ledger, a portfolio and market data application: a verification library for its FastAPI backend.
  All paths below are under \<open>src/backend/app\<close>. The backend keeps its data in tables
  (\<open>repositories/models.py\<close>) that services read and change in one database session per request,
  and serves realtime quotes from a broker, over a Redis cache, to websocket sessions. Users own portfolios,
  watchlists, alert rules, screeners and settings; devices synchronise them by a change log. Market data feeds
  the indicators, the alerts, the screener and the strength of industries and themes. Every theory models the
  code file it names, one definition per function or handler, under the name the code has; properties stand
  beside the component they are about, those that need several components in the theory where these meet.

  State is passed explicitly: a table is the list of its rows in the order a query without \<open>ORDER
  BY\<close> returns them, a record of tables is the database of a component, a service that keeps state of
  its own is a record. An operation that raises is an \<open>Inl\<close> of the exception and leaves no new
  state where the session is rolled back; where Python keeps what was changed before the exception, the
  operation returns its outcome together with the state. Python integers are \<open>int\<close> or
  \<open>nat\<close>, decimals are rational numbers rounded by every operation, or \<open>py_dec\<close> where
  NaN, infinities or trailing zeros matter, instants are microseconds since the epoch.

  Foundations:
  \<^item> \<open>Prelude\<close>: results of fallible code (a sum of the Python exception and the value),
    loops that can raise, insertion-ordered dictionaries, and the lemmas about them.
  \<^item> \<open>Upsert\<close>: \<open>_upsert\<close> of the repositories: a row found by its key,
    compared, inserted or replaced; the table as a map.
  \<^item> \<open>PyDecimal\<close>: the arithmetic of \<open>decimal.Decimal\<close> in its 28- and 34-digit
    contexts; the locale \<open>rounding\<close>, interpreted at both precisions.
  \<^item> \<open>PyFloat\<close>: the double-precision quotients, products and rounding of the audit.
  \<^item> \<open>PyQuantize\<close>: \<open>Decimal.quantize\<close>; the locale
    \<open>integer_rounding\<close>, interpreted for both rounding modes in use.
  \<^item> \<open>PyDate\<close>: dates as ordinals, calendar dates and ISO weeks.
  \<^item> \<open>PyText\<close>: texts: case, \<open>strip\<close>, \<open>str\<close> and parsing of
    integers, UUIDs, decimals, dates and times, each writer with its round trip.
  \<^item> \<open>CsvText\<close>: the \<open>csv\<close> module: the reader as a state machine, the writer,
    and their round trip.
  \<^item> \<open>Json\<close>: JSON documents and the formatting functions that are parameters.

  Market data and indicators:
  \<^item> \<open>MarketTypes\<close>: \<open>domain/security.py\<close>,
    \<open>domain/market_data.py\<close>, \<open>domain/pricing.py\<close>, \<open>domain/calendar.py\<close>,
    \<open>adapters/weekend_calendar.py\<close>; the locale \<open>trading_calendar\<close>.
  \<^item> \<open>Candles\<close>: \<open>services/candle_aggregation.py\<close>: grouping and merging; groups
    are the consecutive runs of the sorted days.
  \<^item> \<open>Technicals\<close>: \<open>services/technical_indicators.py\<close>, one definition per
    indicator; the locale \<open>indicator\<close> (one value per input, no look-ahead) interpreted on each of
    them.
  \<^item> \<open>IndicatorService\<close>: the service of the same file: validation and the table of
    indicators.

  Prices and data quality:
  \<^item> \<open>PriceIngestion\<close>: \<open>services/daily_price_ingestion.py\<close>,
    \<open>repositories/sql_price.py\<close>: validation, upsert, recorded runs, recalculation of the
    snapshots.
  \<^item> \<open>PriceTables\<close>: the table of prices as a map, and what an upsert does to it.
  \<^item> \<open>PriceProperties\<close>: a run of the ingestion, its repetition, the recalculation.
  \<^item> \<open>DataAudit\<close>: \<open>services/data_quality_audit.py\<close>,
    \<open>domain/audit.py\<close>: the audit of a day and of a range of days.
  \<^item> \<open>AuditResults\<close>: when a day is complete; what the search for gaps counts.
  \<^item> \<open>DataMonitoring\<close>: \<open>services/data_quality_monitoring.py\<close>,
    \<open>domain/monitoring.py\<close>: the anomalies of an audit, their table, the notifications.
  \<^item> \<open>MonitoringResults\<close>: the two loops of a run over the table.
  \<^item> \<open>MonitoringProperties\<close>: a run as a whole, the runs within the cool-down, what is
    reported and what is not.
  \<^item> \<open>MonitoringExamples\<close>: the properties of the monitoring at concrete data.
  \<^item> \<open>PrecisionRepair\<close>: \<open>services/precision_repair.py\<close> and the scopes of
    \<open>domain/audit.py\<close>: planning, the calls of a repair, the second audit.
  \<^item> \<open>RepairProperties\<close>: what a planned repair may touch, which repairs never run, what is
    fetched for a code without a market, and the repair of one price through the ingestion.

  Market spot data:
  \<^item> \<open>SpotIngestion\<close>: \<open>domain/market_spot.py\<close>,
    \<open>services/market_spot_ingestion.py\<close>, \<open>repositories/sql_market_spot.py\<close>,
    \<open>services/market_spot.py\<close>: validation, runs, tables, the institutional and credit series.
  \<^item> \<open>SpotProperties\<close>: what a run stores and loses; the sums and streaks of the series.

  Portfolios:
  \<^item> \<open>Portfolio\<close>: \<open>domain/portfolio.py\<close>, \<open>services/portfolio.py\<close>,
    \<open>repositories/sql_portfolio.py\<close>: replay with average cost, holdings, summary, changes of the
    log; the locale \<open>portfolio_repository\<close>.

  Import and export (\<open>services/import_export.py\<close>):
  \<^item> \<open>UserData\<close>: the rows of \<open>repositories/models.py\<close> that imports and exports
    work on, with their constraints.
  \<^item> \<open>ImportPreview\<close>: \<open>preview_portfolio_csv\<close>, row by row, with the replay of
    the candidates.
  \<^item> \<open>WatchlistPreview\<close>: \<open>preview_watchlist_csv\<close>.
  \<^item> \<open>ImportApply\<close>: the store of previews, \<open>apply_portfolio_import\<close>,
    \<open>apply_watchlist_import\<close>.
  \<^item> \<open>ImportEffects\<close>: what applying a portfolio import does, and when it fails.
  \<^item> \<open>ImportReplay\<close>: what the replay of the preview promises for the stored rows, and the
    two ways in which it fails.
  \<^item> \<open>WatchlistImport\<close>: what applying a watchlist import does, and when it fails.
  \<^item> \<open>ExportFiles\<close>: \<open>ExportService\<close> and the figures of
    \<open>ReportService\<close>.
  \<^item> \<open>ExportImport\<close>: exported transactions read back by the preview.
  \<^item> \<open>ImportExamples\<close>: the properties of this part at concrete data.

  Alerts:
  \<^item> \<open>AlertRules\<close>: \<open>domain/alert.py\<close>,
    \<open>services/alert_evaluators.py\<close>: validation and evaluation of every rule type.
  \<^item> \<open>AlertService\<close>: \<open>services/alerts.py\<close>,
    \<open>repositories/sql_alert.py\<close>: the end-of-day run, cool-down, daily limit, unique fingerprints.

  Accounts and devices:
  \<^item> \<open>Auth\<close>: \<open>services/auth.py\<close>: registration, login, rotation of refresh
    tokens, sessions and devices; reachable states by \<open>auth_run\<close>.
  \<^item> \<open>CloudSync\<close>: \<open>services/cloud_sync.py\<close>: pushes with optimistic versions,
    the constraints of the tables, the change log, pull by cursor, bootstrap.
  \<^item> \<open>PushDelivery\<close>: \<open>services/push_notifications.py\<close>,
    \<open>repositories/push_models.py\<close>: tokens, deliveries with retries, the outbox; runs of the world
    by \<open>push_run\<close>.

  Screeners:
  \<^item> \<open>ScreenerAst\<close>: \<open>domain/screener.py\<close>,
    \<open>services/screener_ast.py\<close>, \<open>repositories/sql_screener.py\<close>: validation and JSON
    of expressions, the repository.
  \<^item> \<open>ScreenerQuery\<close>: \<open>services/screener_query.py\<close>: evaluation and the query
    over the tables.

  Realtime:
  \<^item> \<open>RealtimeCache\<close>: \<open>domain/realtime.py\<close>,
    \<open>services/realtime_cache.py\<close>: the keyspace of quotes with their expiry, candles and
    baselines; which quotes are published; the locale \<open>candle_store\<close>.
  \<^item> \<open>IntradayCandles\<close>: \<open>services/intraday_candle_aggregator.py\<close>: candles from
    quotes, volume baselines, out-of-order quotes.
  \<^item> \<open>Subscriptions\<close>: \<open>services/realtime_provider_manager.py\<close>,
    \<open>adapters/shioaji_realtime_provider.py\<close>, \<open>adapters/realtime_base.py\<close>: reference
    counts, runs with failing calls, losses and reconnections; the locale \<open>broker\<close>, interpreted
    on the Shioaji registry.
  \<^item> \<open>RealtimeHub\<close>: \<open>services/realtime_hub.py\<close>: sessions, routing, capacity;
    the locale \<open>subscription_service\<close>, interpreted on the manager.
  \<^item> \<open>RealtimeAlerts\<close>: \<open>services/realtime_alerts.py\<close>: crossings between
    quotes, limits, the subscription policy.

  Strength of industries and themes:
  \<^item> \<open>IndustryStrength\<close>: \<open>services/industry_strength_scoring.py\<close>: percentile
    scores, weights, ranking.
  \<^item> \<open>StrengthCalculation\<close>: \<open>services/industry_strength_calculation.py\<close>:
    metrics of a taxonomy, the stored snapshots.
  \<^item> \<open>StrengthRuns\<close>: a second run of the calculation.
  \<^item> \<open>StrengthQueries\<close>: \<open>repositories/sql_industry_strength.py\<close>: listing,
    history, detail.
  \<^item> \<open>RealtimeStrength\<close>: \<open>services/realtime_strength.py\<close>,
    \<open>domain/realtime_strength.py\<close>, \<open>repositories/realtime_membership.py\<close>.
  \<^item> \<open>RealtimeRanking\<close>: fairness of the percentile scores, consistency of the memberships,
    recomputation from the newest quotes.
  \<^item> \<open>RealtimeFeed\<close>: the aggregator after any sequence of quotes.

  How the parts meet: the realtime hub, the alert policy and the strength feed are clients of the subscription
  manager through the locale \<open>subscription_service\<close>, the manager is a client of the provider
  through \<open>broker\<close>; the aggregator of candles and the feed write through
  \<open>RealtimeCache\<close>; \<open>AlertService\<close> and \<open>RealtimeAlerts\<close> share the rules;
  the audit of \<open>DataAudit\<close> is what \<open>DataMonitoring\<close> evaluates, the recalculation of
  \<open>PriceIngestion\<close> uses \<open>Candles\<close> and \<open>IndicatorService\<close>; imports,
  cloud synchronisation and the portfolio service write the same tables and the same change log, and all of
  them rely on the replay of \<open>Portfolio\<close>.

  Parameters stand for code outside the repository, and what is used of them is stated as named hypotheses of
  the theorems or laws of a locale: digests (\<open>sha256\<close>), password hashes and access tokens, the
  client and the contracts of the broker, the push provider, the formats and parsers of numbers and timestamps
  in JSON, \<open>uuid4\<close> (\<open>fresh\<close>), clocks, and the iteration order of Python sets.

  Termination and bounds: every definition is total. The loops of the code are recursions over lists or have a
  measure; \<open>_latest_completed\<close> and \<open>previous_trading_day\<close> search at most the days of
  the calendar that the laws of \<open>trading_calendar\<close> allow. The one bounded iteration is
  \<open>follow\<close> in \<open>CloudSync\<close>, a client that requests pages of the change log: its
  property gives it one request more than the log has entries, which always is enough.

  Limits of the model. Texts are lists of UTF-8 bytes, with the case, digits and white space of ASCII.
  Asia/Taipei is UTC+8 without the historical exceptions. A stored quote expires after its lifetime
  (\<open>RealtimeCache\<close>); the longer expiry of the other Redis keys (two minutes for strength
  snapshots, a day and more for candles and baselines) is not modelled. The exponent range of decimals, the
  rounding of \<open>NUMERIC\<close> columns when a row is flushed and the concurrency of several database
  sessions are not modelled; texts of messages and log lines are left out. The hub takes only ASCII digits for
  the code of a security, where \<open>str.isdigit\<close> takes other digits too. What a login leaves of the
  subscriptions of the broker is the parameter \<open>relogin\<close> of the properties of
  \<open>Subscriptions\<close>, and which identities a failed call leaves open is part of their statements.
  \<open>measured\<close> in \<open>RealtimeFeed\<close> compares what is aggregated over the members of a
  snapshot; scores, ranks, status and the times of the triggering quote are outside it.

  Not modelled: the Android application, migrations (apart from the \<open>CHECK\<close> and \<open>NOT
  NULL\<close> constraints of the synchronised tables, which are in \<open>CloudSync\<close>) and tests (not
  part of the backend's logic); HTTP routes and schemas, which pass values on to the services; the adapters of
  external sources, which are network access and the parsing of third-party formats; the command line jobs,
  configuration and process wiring; the synchronisation of the security master; the services of watchlists,
  derivatives, comparison and analysis reports.
\<close>

end
